(* ===== verification/Prelude.thy ===== *)
theory Prelude
  imports Main "HOL-Library.Word"
begin

text \<open>
  Shared vocabulary of the development.

  \<^item> the status codes of \<^verbatim>\<open>tensorflow/lite/c/common.h\<close>;
  \<^item> the outcome of a C++ statement: \<^term>\<open>None\<close> is undefined behaviour (an access
    outside a \<^verbatim>\<open>std::vector\<close>), \<^term>\<open>Some (st, s)\<close> is the status returned together
    with the state reached, which an early return does not roll back;
  \<^item> \<open>ensure_status\<close> (the macro \<^verbatim>\<open>TF_LITE_ENSURE_STATUS\<close>), \<open>for_each\<close> (a range-based
    \<^verbatim>\<open>for\<close> whose body may return early) and the rules that compute with them, collected in
    \<open>outcome\<close>;
  \<^item> checked vector access, unsigned 64-bit arithmetic with its wrap-around written out,
    \<^verbatim>\<open>memcpy\<close>, and a model of \<^verbatim>\<open>std::sort\<close> over a strict weak ordering.
\<close>

named_theorems outcome "rules that evaluate outcomes of statements"
named_theorems vec "rules about checked vector access"

section \<open>Status codes and outcomes\<close>

datatype tflite_status =
    kTfLiteOk
  | kTfLiteError
  | kTfLiteDelegateError
  | kTfLiteApplicationError

abbreviation kTfLiteOptionalTensor :: int where
  "kTfLiteOptionalTensor \<equiv> -1"

type_synonym 's result = "(tflite_status \<times> 's) option"

abbreviation ok :: "'s \<Rightarrow> 's result" where
  "ok s \<equiv> Some (kTfLiteOk, s)"

definition ensure_status :: "'s result \<Rightarrow> ('s \<Rightarrow> 's result) \<Rightarrow> 's result" where
  "ensure_status r k =
     (case r of
        None \<Rightarrow> None
      | Some (st, s) \<Rightarrow> (if st = kTfLiteOk then k s else Some (st, s)))"

primrec for_each :: "('x \<Rightarrow> 's \<Rightarrow> 's result) \<Rightarrow> 'x list \<Rightarrow> 's \<Rightarrow> 's result" where
  "for_each f [] s = ok s"
| "for_each f (x # xs) s = ensure_status (f x s) (for_each f xs)"

text \<open>
  \<open>returns r Q\<close>: the statement has no undefined behaviour and its status and final state
  satisfy \<open>Q\<close>.
\<close>

definition returns :: "'s result \<Rightarrow> (tflite_status \<Rightarrow> 's \<Rightarrow> bool) \<Rightarrow> bool" where
  "returns r Q = (case r of None \<Rightarrow> False | Some (st, s) \<Rightarrow> Q st s)"

lemma returns_Some [outcome, simp]: "returns (Some (st, s)) Q = Q st s"
  by (simp add: returns_def)

lemma returns_None [outcome, simp]: "\<not> returns None Q"
  by (simp add: returns_def)

lemma ensure_status_Some [outcome, simp]:
  "ensure_status (Some (st, s)) k = (if st = kTfLiteOk then k s else Some (st, s))"
  by (simp add: ensure_status_def)

lemma ensure_status_None [outcome, simp]: "ensure_status None k = None"
  by (simp add: ensure_status_def)

lemma ensure_status_ok_iff [outcome]:
  "ensure_status r k = ok t \<longleftrightarrow> (\<exists>s. r = ok s \<and> k s = ok t)"
  by (auto simp: ensure_status_def split: option.splits if_splits)

lemma returns_ensure_status [outcome]:
  "returns (ensure_status r k) Q \<longleftrightarrow>
     returns r (\<lambda>st s. if st = kTfLiteOk then returns (k s) Q else Q st s)"
  by (auto simp: returns_def ensure_status_def split: option.splits)

lemma returns_if [outcome]:
  "returns (if b then r else r') Q \<longleftrightarrow> (if b then returns r Q else returns r' Q)"
  by simp

lemma returnsI: "r = Some (st, s) \<Longrightarrow> Q st s \<Longrightarrow> returns r Q"
  by simp

lemma returnsE:
  assumes "returns r Q"
  obtains st s where "r = Some (st, s)" "Q st s"
  using assms by (auto simp: returns_def split: option.splits)

lemma returns_mono:
  assumes "returns r Q" "\<And>st s. Q st s \<Longrightarrow> R st s"
  shows "returns r R"
  using assms by (auto simp: returns_def split: option.splits)

lemma returns_conj:
  assumes "returns r Q" "returns r R"
  shows "returns r (\<lambda>st s. Q st s \<and> R st s)"
  using assms by (auto simp: returns_def split: option.splits)

lemma for_each_append:
  "for_each f (xs @ ys) s = ensure_status (for_each f xs s) (for_each f ys)"
  by (induction xs arbitrary: s) (auto simp: ensure_status_def split: option.splits)

lemma for_each_filter:
  "for_each (\<lambda>x s. if P x then f x s else ok s) xs s = for_each f (filter P xs) s"
  by (induction xs arbitrary: s) (auto simp: ensure_status_def split: option.splits)

lemma for_each_rule_aux:
  assumes "\<And>ys x zs s. xs = ys @ x # zs \<Longrightarrow> I ys s \<Longrightarrow>
             returns (f x s) (\<lambda>st s'. if st = kTfLiteOk then I (ys @ [x]) s' else E st s')"
    and "xs = ps @ qs" and "I ps s"
  shows "returns (for_each f qs s) (\<lambda>st s'. if st = kTfLiteOk then I xs s' else E st s')"
  using assms(2,3)
proof (induction qs arbitrary: ps s)
  case Nil
  then show ?case by simp
next
  case (Cons q qs)
  have "returns (f q s) (\<lambda>st s'. if st = kTfLiteOk then I (ps @ [q]) s' else E st s')"
    using assms(1) [OF Cons.prems] .
  moreover have "returns (for_each f qs s') (\<lambda>st s'. if st = kTfLiteOk then I xs s' else E st s')"
    if "I (ps @ [q]) s'" for s'
    using Cons.IH [of "ps @ [q]" s'] Cons.prems(1) that by simp
  ultimately show ?case
    by (cases "f q s") (auto simp: returns_ensure_status if_bool_eq_conj)
qed

text \<open>The loop rule: \<open>I\<close> is the invariant over the elements processed so far.\<close>

lemma for_each_rule:
  assumes "I [] s"
    and "\<And>ys x zs s. xs = ys @ x # zs \<Longrightarrow> I ys s \<Longrightarrow>
           returns (f x s) (\<lambda>st s'. if st = kTfLiteOk then I (ys @ [x]) s' else E st s')"
  shows "returns (for_each f xs s) (\<lambda>st s'. if st = kTfLiteOk then I xs s' else E st s')"
  by (rule for_each_rule_aux [where ps = "[]"]) (use assms in auto)

lemma for_each_ok_rule:
  assumes "I [] s"
    and "\<And>ys x zs s. xs = ys @ x # zs \<Longrightarrow> I ys s \<Longrightarrow> \<exists>s'. f x s = ok s' \<and> I (ys @ [x]) s'"
  shows "\<exists>s'. for_each f xs s = ok s' \<and> I xs s'"
proof -
  have "returns (for_each f xs s) (\<lambda>st s'. if st = kTfLiteOk then I xs s' else False)"
    by (rule for_each_rule) (use assms in \<open>auto simp: returns_def, fastforce\<close>)
  then show ?thesis
    by (auto simp: returns_def split: option.splits if_splits)
qed

lemma for_each_inv_ok:
  assumes "for_each f xs s = ok t" and "P s"
    and "\<And>x s s'. x \<in> set xs \<Longrightarrow> P s \<Longrightarrow> f x s = ok s' \<Longrightarrow> P s'"
  shows "P t"
  using assms by (induction xs arbitrary: s) (auto simp: outcome)

lemma for_each_inv:
  assumes "for_each f xs s = Some (st, t)" and "P s"
    and "\<And>x s st s'. x \<in> set xs \<Longrightarrow> P s \<Longrightarrow> f x s = Some (st, s') \<Longrightarrow> P s'"
  shows "P t"
  using assms
proof (induction xs arbitrary: s)
  case (Cons x xs)
  then obtain st1 s1 where "f x s = Some (st1, s1)"
    by (auto simp: ensure_status_def split: option.splits)
  moreover from this have "P s1"
    using Cons.prems(2,3) by auto
  ultimately show ?case
    using Cons.prems(1) Cons.IH [OF _ \<open>P s1\<close>] Cons.prems(3)
    by (cases "st1 = kTfLiteOk") auto
qed simp

section \<open>Checked vector access\<close>

text \<open>
  \<^verbatim>\<open>v[i]\<close> of a \<^verbatim>\<open>std::vector\<close> with an \<^verbatim>\<open>int\<close> index: outside the bounds the behaviour
  is undefined, which is \<^term>\<open>None\<close> here.
\<close>

definition in_bounds :: "'a list \<Rightarrow> int \<Rightarrow> bool" where
  "in_bounds xs i \<longleftrightarrow> 0 \<le> i \<and> nat i < length xs"

definition vec_at :: "'a list \<Rightarrow> int \<Rightarrow> 'a option" where
  "vec_at xs i = (if in_bounds xs i then Some (xs ! nat i) else None)"

definition vec_set :: "'a list \<Rightarrow> int \<Rightarrow> 'a \<Rightarrow> 'a list option" where
  "vec_set xs i v = (if in_bounds xs i then Some (xs[nat i := v]) else None)"

lemma vec_at_in_bounds [vec]: "in_bounds xs i \<Longrightarrow> vec_at xs i = Some (xs ! nat i)"
  by (simp add: vec_at_def)

lemma vec_set_in_bounds [vec]: "in_bounds xs i \<Longrightarrow> vec_set xs i v = Some (xs[nat i := v])"
  by (simp add: vec_set_def)

lemma vec_at_eq_Some [vec]: "vec_at xs i = Some x \<longleftrightarrow> in_bounds xs i \<and> xs ! nat i = x"
  by (auto simp: vec_at_def)

lemma vec_set_eq_Some [vec]: "vec_set xs i v = Some ys \<longleftrightarrow> in_bounds xs i \<and> ys = xs[nat i := v]"
  by (auto simp: vec_set_def)

lemma in_bounds_of_nat [simp]: "in_bounds xs (int n) \<longleftrightarrow> n < length xs"
  by (simp add: in_bounds_def)

lemma in_bounds_update [simp]: "in_bounds (xs[n := v]) i = in_bounds xs i"
  by (simp add: in_bounds_def)

lemma in_bounds_cong: "length xs = length ys \<Longrightarrow> in_bounds xs i = in_bounds ys i"
  by (simp add: in_bounds_def)

lemma in_boundsD: "in_bounds xs i \<Longrightarrow> 0 \<le> i \<and> nat i < length xs"
  by (simp add: in_bounds_def)

lemma not_in_bounds_optional [simp]: "\<not> in_bounds xs kTfLiteOptionalTensor"
  by (simp add: in_bounds_def)

text \<open>\<^verbatim>\<open>v.resize(n, x)\<close>.\<close>

definition vec_resize :: "'a list \<Rightarrow> nat \<Rightarrow> 'a \<Rightarrow> 'a list" where
  "vec_resize xs n x = take n xs @ replicate (n - length xs) x"

lemma length_vec_resize [simp]: "length (vec_resize xs n x) = n"
  by (simp add: vec_resize_def)

lemma nth_vec_resize:
  "i < n \<Longrightarrow> vec_resize xs n x ! i = (if i < length xs then xs ! i else x)"
  by (auto simp: vec_resize_def nth_append)

lemma vec_resize_same [simp]: "vec_resize xs (length xs) x = xs"
  by (simp add: vec_resize_def)

text \<open>The vector of the first \<open>n\<close> values of a function: pointwise reasoning about loops.\<close>

definition tab :: "nat \<Rightarrow> (nat \<Rightarrow> 'a) \<Rightarrow> 'a list" where
  "tab n f = map f [0..<n]"

lemma length_tab [simp]: "length (tab n f) = n"
  by (simp add: tab_def)

lemma nth_tab [simp]: "i < n \<Longrightarrow> tab n f ! i = f i"
  by (simp add: tab_def)

lemma tab_update [simp]: "i < n \<Longrightarrow> (tab n f)[i := v] = tab n (f(i := v))"
  by (rule nth_equalityI) (auto simp: nth_list_update)

lemma replicate_tab: "replicate n c = tab n (\<lambda>_. c)"
  by (simp add: tab_def map_replicate_const)

lemma tab_cong: "(\<And>i. i < n \<Longrightarrow> f i = g i) \<Longrightarrow> tab n f = tab n g"
  by (simp add: tab_def)

lemma in_bounds_tab [simp]: "in_bounds (tab n f) i \<longleftrightarrow> 0 \<le> i \<and> nat i < n"
  by (simp add: in_bounds_def)

section \<open>Unsigned 64-bit arithmetic\<close>

abbreviation size_t_bound :: nat where
  "size_t_bound \<equiv> 2 ^ 64"

definition sz_add :: "nat \<Rightarrow> nat \<Rightarrow> nat" where
  "sz_add a b = (a + b) mod size_t_bound"

definition sz_sub :: "nat \<Rightarrow> nat \<Rightarrow> nat" where
  "sz_sub a b = (a + (size_t_bound - b mod size_t_bound)) mod size_t_bound"

lemma sz_add_exact [simp]: "a + b < size_t_bound \<Longrightarrow> sz_add a b = a + b"
  by (simp add: sz_add_def)

lemma sz_add_bound: "sz_add a b < size_t_bound"
  by (simp add: sz_add_def)

lemma sz_sub_exact [simp]:
  assumes "b \<le> a" "a < size_t_bound"
  shows "sz_sub a b = a - b"
proof -
  have "a + (size_t_bound - b mod size_t_bound) = (a - b) + size_t_bound"
    using assms by simp
  then have "sz_sub a b = (a - b) mod size_t_bound"
    unfolding sz_sub_def by (metis mod_add_self2)
  then show ?thesis using assms by simp
qed

section \<open>Loops\<close>

text \<open>A loop whose body has no early return.\<close>

primrec do_each :: "('a \<Rightarrow> 's \<Rightarrow> 's option) \<Rightarrow> 'a list \<Rightarrow> 's \<Rightarrow> 's option" where
  "do_each f [] s = Some s"
| "do_each f (x # xs) s = Option.bind (f x s) (do_each f xs)"

lemma do_each_invariant:
  "do_each f xs s = Some s' \<Longrightarrow> P s \<Longrightarrow> (\<And>x s s'. x \<in> set xs \<Longrightarrow> P s \<Longrightarrow> f x s = Some s' \<Longrightarrow> P s') \<Longrightarrow> P s'"
proof (induction xs arbitrary: s)
  case (Cons x xs)
  obtain s1 where s1: "f x s = Some s1" "do_each f xs s1 = Some s'"
    using Cons.prems(1) by (auto split: bind_splits)
  have "P s1" by (rule Cons.prems(3) [OF _ Cons.prems(2) s1(1)]) simp
  then show ?case by (rule Cons.IH [OF s1(2)]) (rule Cons.prems(3), simp_all)
qed simp

lemma do_each_snoc: "do_each f (xs @ [x]) s = Option.bind (do_each f xs s) (f x)"
  by (induction xs arbitrary: s) (auto split: bind_splits)

text \<open>The loop rule over the indices below \<open>n\<close>: the loop has a result if every step has one.\<close>

lemma do_each_upt:
  assumes "P 0 s" "\<And>i s. i < n \<Longrightarrow> P i s \<Longrightarrow> \<exists>s'. f i s = Some s' \<and> P (Suc i) s'"
  shows "\<exists>s'. do_each f [0..<n] s = Some s' \<and> P n s'"
  using assms(2)
proof (induction n)
  case 0
  then show ?case using assms(1) by simp
next
  case (Suc n)
  from Suc.IH obtain s1 where s1: "do_each f [0..<n] s = Some s1" "P n s1" using Suc.prems by force
  then show ?case using Suc.prems [of n s1] by (auto simp: do_each_snoc)
qed

section \<open>Byte copies\<close>

definition memcpy :: "'a list \<Rightarrow> nat \<Rightarrow> 'a list \<Rightarrow> nat \<Rightarrow> nat \<Rightarrow> 'a list" where
  "memcpy dst d src s n = take d dst @ take n (drop s src) @ drop (d + n) dst"

lemma length_memcpy:
  assumes "d + n \<le> length dst" "s + n \<le> length src"
  shows "length (memcpy dst d src s n) = length dst"
  using assms by (simp add: memcpy_def)

lemma nth_memcpy:
  assumes "d + n \<le> length dst" "s + n \<le> length src" "i < length dst"
  shows "memcpy dst d src s n ! i =
    (if d \<le> i \<and> i < d + n then src ! (s + (i - d)) else dst ! i)"
  using assms by (auto simp: memcpy_def nth_append add.commute)

lemma slice_memcpy:
  assumes "d + n \<le> length dst" "s + n \<le> length src"
  shows "take n (drop d (memcpy dst d src s n)) = take n (drop s src)"
  using assms by (simp add: memcpy_def)

section \<open>Sorting with a comparison function\<close>

text \<open>
  \<^verbatim>\<open>std::sort(first, last, lt)\<close> requires \<open>lt\<close> to be a strict weak ordering and leaves
  the elements in an order in which no later element is \<open>lt\<close> than an earlier one. The order
  of equivalent elements is unspecified in C++; \<open>std_sort\<close> is the stable choice.
\<close>

primrec sort_insert :: "('a \<Rightarrow> 'a \<Rightarrow> bool) \<Rightarrow> 'a \<Rightarrow> 'a list \<Rightarrow> 'a list" where
  "sort_insert lt x [] = [x]"
| "sort_insert lt x (y # ys) = (if lt y x then y # sort_insert lt x ys else x # y # ys)"

primrec std_sort :: "('a \<Rightarrow> 'a \<Rightarrow> bool) \<Rightarrow> 'a list \<Rightarrow> 'a list" where
  "std_sort lt [] = []"
| "std_sort lt (x # xs) = sort_insert lt x (std_sort lt xs)"

definition sorted_by :: "('a \<Rightarrow> 'a \<Rightarrow> bool) \<Rightarrow> 'a list \<Rightarrow> bool" where
  "sorted_by lt xs \<longleftrightarrow> sorted_wrt (\<lambda>x y. \<not> lt y x) xs"

lemma set_sort_insert [simp]: "set (sort_insert lt x xs) = insert x (set xs)"
  by (induction xs) auto

lemma set_std_sort [simp]: "set (std_sort lt xs) = set xs"
  by (induction xs) auto

lemma length_sort_insert [simp]: "length (sort_insert lt x xs) = Suc (length xs)"
  by (induction xs) auto

lemma length_std_sort [simp]: "length (std_sort lt xs) = length xs"
  by (induction xs) auto

lemma distinct_sort_insert:
  "distinct (sort_insert lt x xs) \<longleftrightarrow> x \<notin> set xs \<and> distinct xs"
  by (induction xs) auto

lemma distinct_std_sort [simp]: "distinct (std_sort lt xs) = distinct xs"
  by (induction xs) (auto simp: distinct_sort_insert)

text \<open>The contract between a caller of \<^verbatim>\<open>std::sort\<close> and its comparison function.\<close>

locale strict_weak_order =
  fixes lt :: "'a \<Rightarrow> 'a \<Rightarrow> bool" and carrier :: "'a set"
  assumes irrefl: "x \<in> carrier \<Longrightarrow> \<not> lt x x"
    and trans: "\<lbrakk>x \<in> carrier; y \<in> carrier; z \<in> carrier; lt x y; lt y z\<rbrakk> \<Longrightarrow> lt x z"
    and incomp_trans:
      "\<lbrakk>x \<in> carrier; y \<in> carrier; z \<in> carrier; \<not> lt x y; \<not> lt y z\<rbrakk> \<Longrightarrow> \<not> lt x z"
begin

lemma asym: "x \<in> carrier \<Longrightarrow> y \<in> carrier \<Longrightarrow> lt x y \<Longrightarrow> \<not> lt y x"
  using irrefl trans by blast

lemma sorted_sort_insert:
  assumes "x \<in> carrier" "set xs \<subseteq> carrier" "sorted_by lt xs"
  shows "sorted_by lt (sort_insert lt x xs)"
  using assms
proof (induction xs)
  case Nil
  then show ?case by (simp add: sorted_by_def)
next
  case (Cons y ys)
  have IH: "sorted_by lt (sort_insert lt x ys)"
    using Cons by (simp add: sorted_by_def)
  show ?case
  proof (cases "lt y x")
    case True
    then show ?thesis
      using IH Cons.prems by (auto simp: sorted_by_def asym)
  next
    case False
    have "\<not> lt z x" if "z \<in> set ys" for z
      using that False Cons.prems incomp_trans [of z y x] by (auto simp: sorted_by_def)
    then show ?thesis
      using False Cons.prems by (auto simp: sorted_by_def)
  qed
qed

lemma sorted_std_sort: "set xs \<subseteq> carrier \<Longrightarrow> sorted_by lt (std_sort lt xs)"
proof (induction xs)
  case Nil
  show ?case by (simp add: sorted_by_def)
next
  case (Cons x xs)
  then show ?case by (simp add: sorted_sort_insert)
qed

end

end
