(* ===== verification/Tensors.thy ===== *)
theory Tensors
  imports Prelude
begin

unbundle bit_operations_syntax

text \<open>
  \<^verbatim>\<open>tensorflow/lite/c/common.{h,c}\<close> and \<^verbatim>\<open>tensorflow/lite/util.cc\<close>: element types, tensors,
  nodes, registrations and the helpers on them.

  A \<^verbatim>\<open>TfLiteIntArray*\<close> is an \<open>int list option\<close> (\<^term>\<open>None\<close> for a null pointer), a
  \<^verbatim>\<open>float\<close> its 32-bit pattern, a data pointer its address (0 for null). Releasing heap
  memory has no effect other than on the pointers the code resets.
\<close>

section \<open>Types, tensors, nodes\<close>

datatype tflite_type =
    kTfLiteNoType
  | kTfLiteFloat32
  | kTfLiteInt32
  | kTfLiteUInt8
  | kTfLiteInt64
  | kTfLiteString
  | kTfLiteBool
  | kTfLiteInt16
  | kTfLiteComplex64
  | kTfLiteInt8
  | kTfLiteFloat16
  | kTfLiteFloat64
  | kTfLiteComplex128

datatype allocation_type =
    kTfLiteMemNone
  | kTfLiteMmapRo
  | kTfLiteArenaRw
  | kTfLiteArenaRwPersistent
  | kTfLiteDynamic
  | kTfLitePersistentRo
  | kTfLiteCustom

record quantization_params =
  legacy_scale :: "32 word"
  legacy_zero_point :: int

record affine_quantization =
  affine_scale :: "32 word list option"
  affine_zero_point :: "int list option"
  affine_quantized_dimension :: int

datatype quantization_type = kTfLiteNoQuantization | kTfLiteAffineQuantization

record quantization =
  quantization_kind :: quantization_type
  quantization_details :: "affine_quantization option"

datatype dimension_metadata =
    DimDense int
  | DimSparseCSR "int list option" "int list option"

record sparsity =
  traversal_order :: "int list option"
  block_map :: "int list option"
  dim_metadata :: "dimension_metadata list"

type_synonym delegate_id = nat

abbreviation (input) kTfLiteNullBufferHandle :: int where
  "kTfLiteNullBufferHandle \<equiv> -1"

record tensor =
  tensor_type :: tflite_type
  data_raw :: nat
  dims :: "int list option"
  params :: quantization_params
  allocation_type :: allocation_type
  bytes :: nat
  allocation :: nat
  tensor_name :: "string option"
  tensor_delegate :: "delegate_id option"
  buffer_handle :: int
  data_is_stale :: bool
  is_variable :: bool
  tensor_quantization :: quantization
  tensor_sparsity :: "sparsity option"
  dims_signature :: "int list option"

record node =
  inputs :: "int list"
  outputs :: "int list"
  intermediates :: "int list"
  temporaries :: "int list"
  user_data :: nat
  builtin_data :: nat
  custom_initial_data :: "nat \<times> nat"
  node_delegate :: "delegate_id option"

text \<open>
  The function pointers of a registration: null, the stub \<^verbatim>\<open>UnresolvedOpInvoke\<close> of
  \<^verbatim>\<open>util.cc\<close>, or a kernel, which is an index into the behaviours the model is given.
\<close>

datatype op_function = NullOp | UnresolvedOpInvoke | Kernel nat

record registration =
  op_init :: op_function
  op_free :: op_function
  op_prepare :: op_function
  op_invoke :: op_function
  builtin_code :: int
  custom_name :: "string option"
  op_version :: int

abbreviation (input) BuiltinOperator_DEQUANTIZE :: int where "BuiltinOperator_DEQUANTIZE \<equiv> 6"
abbreviation (input) BuiltinOperator_RESHAPE :: int where "BuiltinOperator_RESHAPE \<equiv> 22"
abbreviation (input) BuiltinOperator_CUSTOM :: int where "BuiltinOperator_CUSTOM \<equiv> 32"
abbreviation (input) BuiltinOperator_DELEGATE :: int where "BuiltinOperator_DELEGATE \<equiv> 51"

section \<open>Integer arrays\<close>

text \<open>Equality with a C array: a null array equals the empty one only.\<close>

definition TfLiteIntArrayEqualsArray :: "int list option \<Rightarrow> int list \<Rightarrow> bool" where
  "TfLiteIntArrayEqualsArray a b =
     (case a of None \<Rightarrow> length b = 0
      | Some xs \<Rightarrow> if length xs \<noteq> length b then False else (\<forall>i<length xs. xs ! i = b ! i))"

text \<open>
  \<^verbatim>\<open>TfLiteIntArrayEqual\<close> first compares the pointers: two null pointers are equal, a null and
  a non-null one are not.
\<close>

definition TfLiteIntArrayEqual :: "int list option \<Rightarrow> int list option \<Rightarrow> bool" where
  "TfLiteIntArrayEqual a b =
     (case (a, b) of
        (None, None) \<Rightarrow> True
      | (Some xs, Some ys) \<Rightarrow> TfLiteIntArrayEqualsArray (Some xs) ys
      | _ \<Rightarrow> False)"

definition EqualArrayAndTfLiteIntArray :: "int list option \<Rightarrow> int list \<Rightarrow> bool" where
  "EqualArrayAndTfLiteIntArray a b =
     (case a of None \<Rightarrow> False
      | Some xs \<Rightarrow> if length xs \<noteq> length b then False else (\<forall>i<length xs. xs ! i = b ! i))"

lemma TfLiteIntArrayEqual_iff [simp]: "TfLiteIntArrayEqual a b \<longleftrightarrow> a = b"
  by (cases a; cases b)
    (auto simp: TfLiteIntArrayEqual_def TfLiteIntArrayEqualsArray_def intro: nth_equalityI)

lemma EqualArrayAndTfLiteIntArray_iff [simp]:
  "EqualArrayAndTfLiteIntArray a b \<longleftrightarrow> a = Some b"
  by (cases a) (auto simp: EqualArrayAndTfLiteIntArray_def intro: nth_equalityI)

primrec HasDynamicTensorImpl :: "tensor list \<Rightarrow> int list \<Rightarrow> bool option" where
  "HasDynamicTensorImpl ts [] = Some False"
| "HasDynamicTensorImpl ts (i # is) =
     (if i = kTfLiteOptionalTensor then HasDynamicTensorImpl ts is
      else case vec_at ts i of
             None \<Rightarrow> None
           | Some t \<Rightarrow>
               if allocation_type t = kTfLiteDynamic then Some True
               else HasDynamicTensorImpl ts is)"

section \<open>Tensors\<close>

definition zero_tensor :: tensor where
  "zero_tensor = \<lparr>tensor_type = kTfLiteNoType, data_raw = 0, dims = None,
     params = \<lparr>legacy_scale = 0, legacy_zero_point = 0\<rparr>, allocation_type = kTfLiteMemNone,
     bytes = 0, allocation = 0, tensor_name = None, tensor_delegate = None, buffer_handle = 0,
     data_is_stale = False, is_variable = False,
     tensor_quantization = \<lparr>quantization_kind = kTfLiteNoQuantization, quantization_details = None\<rparr>,
     tensor_sparsity = None, dims_signature = None\<rparr>"

definition TfLiteTensorDataFree :: "tensor \<Rightarrow> tensor" where
  "TfLiteTensorDataFree t = t\<lparr>data_raw := 0\<rparr>"

definition TfLiteQuantizationFree :: "quantization \<Rightarrow> quantization" where
  "TfLiteQuantizationFree q =
     q\<lparr>quantization_details := None, quantization_kind := kTfLiteNoQuantization\<rparr>"

definition TfLiteTensorFree :: "tensor \<Rightarrow> tensor" where
  "TfLiteTensorFree t =
     (let t1 = TfLiteTensorDataFree t;
          t2 = t1\<lparr>dims := None\<rparr>;
          t3 = t2\<lparr>dims_signature := None\<rparr>;
          t4 = t3\<lparr>tensor_quantization := TfLiteQuantizationFree (tensor_quantization t3)\<rparr>
      in t4\<lparr>tensor_sparsity := None\<rparr>)"

definition TfLiteTensorReset ::
  "tflite_type \<Rightarrow> string option \<Rightarrow> int list option \<Rightarrow> quantization_params \<Rightarrow> nat \<Rightarrow> nat
   \<Rightarrow> allocation_type \<Rightarrow> nat \<Rightarrow> bool \<Rightarrow> tensor \<Rightarrow> tensor" where
  "TfLiteTensorReset ty nm ds q buf sz alty alloc var t =
     (let t = TfLiteTensorFree t;
          t = t\<lparr>tensor_type := ty, tensor_name := nm, dims := ds, params := q, data_raw := buf,
                bytes := sz, allocation_type := alty, allocation := alloc, is_variable := var\<rparr>
      in t\<lparr>tensor_quantization :=
             (tensor_quantization t)\<lparr>quantization_kind := kTfLiteNoQuantization,
                                     quantization_details := None\<rparr>\<rparr>)"

text \<open>\<open>fresh\<close> is the address that \<^verbatim>\<open>malloc\<close> or \<^verbatim>\<open>realloc\<close> returns, if called.\<close>

definition TfLiteTensorRealloc :: "nat \<Rightarrow> nat \<Rightarrow> tensor \<Rightarrow> tensor" where
  "TfLiteTensorRealloc fresh num_bytes t =
     (if allocation_type t \<noteq> kTfLiteDynamic \<and> allocation_type t \<noteq> kTfLitePersistentRo then t
      else
        let t' = (if data_raw t = 0 then t\<lparr>data_raw := fresh\<rparr>
                  else if num_bytes > bytes t then t\<lparr>data_raw := fresh\<rparr>
                  else t)
        in t'\<lparr>bytes := num_bytes\<rparr>)"

fun TfLiteTypeGetName :: "tflite_type \<Rightarrow> string" where
  "TfLiteTypeGetName kTfLiteNoType = ''NOTYPE''"
| "TfLiteTypeGetName kTfLiteFloat32 = ''FLOAT32''"
| "TfLiteTypeGetName kTfLiteInt16 = ''INT16''"
| "TfLiteTypeGetName kTfLiteInt32 = ''INT32''"
| "TfLiteTypeGetName kTfLiteUInt8 = ''UINT8''"
| "TfLiteTypeGetName kTfLiteInt8 = ''INT8''"
| "TfLiteTypeGetName kTfLiteInt64 = ''INT64''"
| "TfLiteTypeGetName kTfLiteBool = ''BOOL''"
| "TfLiteTypeGetName kTfLiteComplex64 = ''COMPLEX64''"
| "TfLiteTypeGetName kTfLiteComplex128 = ''COMPLEX128''"
| "TfLiteTypeGetName kTfLiteString = ''STRING''"
| "TfLiteTypeGetName kTfLiteFloat16 = ''FLOAT16''"
| "TfLiteTypeGetName kTfLiteFloat64 = ''FLOAT64''"

section \<open>Sizes\<close>

text \<open>\<^term>\<open>None\<close> is the \<^verbatim>\<open>default\<close> case, which returns \<^verbatim>\<open>kTfLiteError\<close>.\<close>

fun GetSizeOfType :: "tflite_type \<Rightarrow> nat option" where
  "GetSizeOfType kTfLiteFloat32 = Some 4"
| "GetSizeOfType kTfLiteInt32 = Some 4"
| "GetSizeOfType kTfLiteUInt8 = Some 1"
| "GetSizeOfType kTfLiteInt64 = Some 8"
| "GetSizeOfType kTfLiteBool = Some 1"
| "GetSizeOfType kTfLiteComplex64 = Some 8"
| "GetSizeOfType kTfLiteComplex128 = Some 16"
| "GetSizeOfType kTfLiteInt16 = Some 2"
| "GetSizeOfType kTfLiteInt8 = Some 1"
| "GetSizeOfType kTfLiteFloat16 = Some 2"
| "GetSizeOfType kTfLiteFloat64 = Some 8"
| "GetSizeOfType _ = None"

text \<open>
  \<^verbatim>\<open>MultiplyAndCheckOverflow\<close> of \<^verbatim>\<open>subgraph.cc\<close> on 64-bit words: the product, and whether
  the multiplication is reported as not having overflowed.
\<close>

definition MultiplyAndCheckOverflow :: "64 word \<Rightarrow> 64 word \<Rightarrow> tflite_status \<times> 64 word" where
  "MultiplyAndCheckOverflow a b =
     (let product = a * b
      in if drop_bit 32 (a OR b) \<noteq> 0 \<and> (a \<noteq> 0 \<and> product div a \<noteq> b)
         then (kTfLiteError, product) else (kTfLiteOk, product))"

fun BytesRequired_count :: "int list \<Rightarrow> 64 word \<Rightarrow> tflite_status \<times> 64 word" where
  "BytesRequired_count [] count = (kTfLiteOk, count)"
| "BytesRequired_count (d # ds) count =
     (let (st, count') = MultiplyAndCheckOverflow count (word_of_int d)
      in if st = kTfLiteOk then BytesRequired_count ds count' else (kTfLiteError, count'))"

text \<open>\<^verbatim>\<open>BytesRequired\<close>: \<^term>\<open>None\<close> is an error status, the bytes then unset.\<close>

definition BytesRequired :: "tflite_type \<Rightarrow> int list \<Rightarrow> nat option" where
  "BytesRequired type ds =
     (let (st, count) = BytesRequired_count ds 1
      in if st \<noteq> kTfLiteOk then None
         else case GetSizeOfType type of
                None \<Rightarrow> None
              | Some type_size \<Rightarrow>
                  let (st, bs) = MultiplyAndCheckOverflow (of_nat type_size) count
                  in if st = kTfLiteOk then Some (unat bs) else None)"

text \<open>\<^verbatim>\<open>CombineHashes\<close>, the hash of the operator tables.\<close>

definition CombineHashes :: "64 word list \<Rightarrow> 64 word" where
  "CombineHashes hashes =
     fold (\<lambda>h r. r XOR (h + 0x9e3779b97f4a7800 + push_bit 10 r + drop_bit 4 r)) hashes 0"

section \<open>Registrations\<close>

definition IsFlexOp :: "string option \<Rightarrow> bool" where
  "IsFlexOp nm = (case nm of None \<Rightarrow> False | Some s \<Rightarrow> take 4 s = ''Flex'')"

definition CreateUnresolvedCustomOp :: "string \<Rightarrow> registration" where
  "CreateUnresolvedCustomOp nm =
     \<lparr>op_init = NullOp, op_free = NullOp, op_prepare = NullOp, op_invoke = UnresolvedOpInvoke,
      builtin_code = BuiltinOperator_CUSTOM, custom_name = Some nm, op_version = 1\<rparr>"

definition IsUnresolvedCustomOp :: "registration \<Rightarrow> bool" where
  "IsUnresolvedCustomOp r \<longleftrightarrow>
     builtin_code r = BuiltinOperator_CUSTOM \<and> op_invoke r = UnresolvedOpInvoke"

definition GetOpNameByRegistration :: "(int \<Rightarrow> string) \<Rightarrow> registration \<Rightarrow> string" where
  "GetOpNameByRegistration EnumName r =
     (let result = EnumName (builtin_code r)
      in if builtin_code r = BuiltinOperator_CUSTOM \<or> builtin_code r = BuiltinOperator_DELEGATE
         then (case custom_name r of None \<Rightarrow> result | Some nm \<Rightarrow> result @ '' '' @ nm)
         else result)"

text \<open>\<^verbatim>\<open>GetLegacyQuantization\<close> of \<^verbatim>\<open>subgraph.cc\<close>: per-layer parameters, or zeros.\<close>

definition GetLegacyQuantization :: "quantization \<Rightarrow> quantization_params" where
  "GetLegacyQuantization q =
     (let none = \<lparr>legacy_scale = 0, legacy_zero_point = 0\<rparr>
      in if quantization_kind q \<noteq> kTfLiteAffineQuantization then none
         else case quantization_details q of
                None \<Rightarrow> none
              | Some a \<Rightarrow>
                  (case (affine_scale a, affine_zero_point a) of
                     (Some [s], Some [z]) \<Rightarrow> \<lparr>legacy_scale = s, legacy_zero_point = z\<rparr>
                   | _ \<Rightarrow> none))"

text \<open>
  \<^verbatim>\<open>GetQuantizationFromLegacy\<close> of \<^verbatim>\<open>interpreter.cc\<close>. The struct comes from \<^verbatim>\<open>malloc\<close> and its
  \<^verbatim>\<open>quantized_dimension\<close> is not written: its content is the argument \<open>garbage\<close>.
\<close>

definition GetQuantizationFromLegacy :: "int \<Rightarrow> quantization_params \<Rightarrow> quantization" where
  "GetQuantizationFromLegacy garbage l =
     \<lparr>quantization_kind = kTfLiteAffineQuantization,
      quantization_details = Some \<lparr>affine_scale = Some [legacy_scale l],
        affine_zero_point = Some [legacy_zero_point l], affine_quantized_dimension = garbage\<rparr>\<rparr>"

section \<open>Facts\<close>

lemma HasDynamicTensorImpl_defined:
  "\<forall>i\<in>set is. i = kTfLiteOptionalTensor \<or> in_bounds ts i \<Longrightarrow>
   HasDynamicTensorImpl ts is =
     Some (\<exists>i\<in>set is. i \<noteq> kTfLiteOptionalTensor \<and> allocation_type (ts ! nat i) = kTfLiteDynamic)"
  by (induction "is") (auto simp: vec)

lemma legacy_quantization_roundtrip:
  "GetLegacyQuantization (GetQuantizationFromLegacy g l) = l"
  by (simp add: GetLegacyQuantization_def GetQuantizationFromLegacy_def)

lemma high_half_clear:
  fixes a :: "64 word"
  assumes "drop_bit 32 a = 0"
  shows "unat a < 2 ^ 32"
proof -
  have "drop_bit 32 (unat a) = unat (drop_bit 32 a)" by (rule unat_drop_bit_eq [symmetric])
  then have "drop_bit 32 (unat a) = 0" by (simp add: assms)
  then have "unat a div 2 ^ 32 = 0" by (simp only: drop_bit_eq_div)
  then show ?thesis by (simp add: div_eq_0_iff)
qed

text \<open>The overflow test is exact.\<close>

lemma MultiplyAndCheckOverflow_iff:
  "fst (MultiplyAndCheckOverflow a b) = kTfLiteOk \<longleftrightarrow> unat a * unat b < 2 ^ 64"
proof (cases "unat a * unat b < 2 ^ 64")
  case True
  then have "unat (a * b) = unat a * unat b" by (simp add: unat_word_ariths)
  then have "a \<noteq> 0 \<Longrightarrow> (a * b) div a = b"
    by (simp add: word_unat_eq_iff unat_div)
  then show ?thesis using True by (auto simp: MultiplyAndCheckOverflow_def Let_def)
next
  case False
  have a: "a \<noteq> 0" using False by auto
  have hi: "drop_bit 32 (a OR b) \<noteq> 0"
  proof
    assume "drop_bit 32 (a OR b) = 0"
    then have "drop_bit 32 a = 0" "drop_bit 32 b = 0"
      by (simp_all add: drop_bit_or or_eq_0_iff)
    then have "unat a < 2 ^ 32" "unat b < 2 ^ 32" by (simp_all only: high_half_clear)
    then have "unat a * unat b < 2 ^ 32 * 2 ^ 32" by (intro mult_strict_mono) auto
    then show False using False by simp
  qed
  have "unat (a * b) < unat a * unat b"
    using False unsigned_less [of "a * b", where 'a = nat] by simp
  then have "unat (a * b) div unat a < unat b"
    by (simp add: less_mult_imp_div_less mult.commute)
  then have "(a * b) div a \<noteq> b" by (metis unat_div less_irrefl)
  then show ?thesis using a hi False by (simp add: MultiplyAndCheckOverflow_def Let_def)
qed

lemma MultiplyAndCheckOverflow_exact:
  "fst (MultiplyAndCheckOverflow a b) = kTfLiteOk \<Longrightarrow>
   unat (snd (MultiplyAndCheckOverflow a b)) = unat a * unat b"
  unfolding MultiplyAndCheckOverflow_iff
  by (simp add: MultiplyAndCheckOverflow_def Let_def unat_word_ariths)

lemma snd_MultiplyAndCheckOverflow: "snd (MultiplyAndCheckOverflow a b) = a * b"
  by (simp add: MultiplyAndCheckOverflow_def Let_def)

text \<open>The loop of \<^verbatim>\<open>BytesRequired\<close> over positive dimensions.\<close>

abbreviation positive_dims :: "int list \<Rightarrow> bool" where
  "positive_dims ds \<equiv> \<forall>d\<in>set ds. 0 < d \<and> d < 2 ^ 31"

lemma prod_list_pos: "positive_dims ds \<Longrightarrow> 1 \<le> prod_list (map nat ds)"
  by (induction ds) (auto simp: Suc_le_eq)

declare BytesRequired_count.simps(2) [simp del]

lemma BytesRequired_count_step:
  "BytesRequired_count (d # ds) c =
     (let m = MultiplyAndCheckOverflow c (word_of_int d)
      in if fst m = kTfLiteOk then BytesRequired_count ds (snd m) else (kTfLiteError, snd m))"
  by (simp add: split_def Let_def BytesRequired_count.simps(2))

lemma BytesRequired_count_exact:
  assumes "positive_dims ds" "c \<noteq> 0"
  shows "(fst (BytesRequired_count ds c) = kTfLiteOk
            \<longleftrightarrow> unat c * prod_list (map nat ds) < 2 ^ 64)
    \<and> (fst (BytesRequired_count ds c) = kTfLiteOk \<longrightarrow>
         unat (snd (BytesRequired_count ds c)) = unat c * prod_list (map nat ds))"
  using assms
proof (induction ds arbitrary: c)
  case Nil
  then show ?case using unsigned_less [of c, where 'a = nat] by simp
next
  case (Cons d ds)
  let ?m = "MultiplyAndCheckOverflow c (word_of_int d)"
  have d: "unat (word_of_int d :: 64 word) = nat d" "0 < d"
    using Cons.prems(1) by (auto simp: unsigned_of_int take_bit_int_eq_self nat_less_iff)
  show ?case
  proof (cases "fst ?m = kTfLiteOk")
    case True
    then have m: "unat (snd ?m) = unat c * nat d"
      using MultiplyAndCheckOverflow_exact d(1) by simp
    then have "snd ?m \<noteq> 0"
      using d(2) Cons.prems(2) by (metis mult_eq_0_iff unat_0 unat_eq_zero zero_less_nat_eq less_irrefl)
    then show ?thesis
      using True m Cons.IH [of "snd ?m"] Cons.prems(1)
      by (simp add: BytesRequired_count_step Let_def mult.assoc)
  next
    case False
    have "2 ^ 64 \<le> unat c * nat d"
      using False d(1) by (simp add: MultiplyAndCheckOverflow_iff not_less)
    also have "\<dots> \<le> unat c * nat d * prod_list (map nat ds)"
      using prod_list_pos [of ds] Cons.prems(1) by simp
    finally show ?thesis
      using False by (simp add: BytesRequired_count_step Let_def mult.assoc)
  qed
qed

text \<open>
  C4: for positive dimensions \<^verbatim>\<open>BytesRequired\<close> returns a size exactly when the element size
  times the number of elements is representable in 64 bits, and then it is that number.
\<close>

theorem BytesRequired_exact:
  assumes "positive_dims ds"
  shows "BytesRequired ty ds = Some n \<longleftrightarrow>
    (\<exists>s. GetSizeOfType ty = Some s \<and> n = s * prod_list (map nat ds)
         \<and> s * prod_list (map nat ds) < 2 ^ 64)"
proof (cases "GetSizeOfType ty")
  case None
  then show ?thesis by (simp add: BytesRequired_def split_def Let_def)
next
  case (Some s)
  then have "unat (of_nat s :: 64 word) = s \<and> 1 \<le> s"
    by (cases ty) auto
  then have s: "unat (of_nat s :: 64 word) = s" "1 \<le> s" by simp_all
  let ?c = "BytesRequired_count ds 1" and ?p = "prod_list (map nat ds)"
  have c: "fst ?c = kTfLiteOk \<longleftrightarrow> ?p < 2 ^ 64" "fst ?c = kTfLiteOk \<Longrightarrow> unat (snd ?c) = ?p"
    using BytesRequired_count_exact [OF assms, of 1] by simp_all
  have "?p \<le> s * ?p" using s(2) by simp
  then have "\<not> ?p < 2 ^ 64 \<Longrightarrow> \<not> s * ?p < 2 ^ 64" by linarith
  moreover have "fst (MultiplyAndCheckOverflow (of_nat s) (snd ?c)) = kTfLiteOk \<longleftrightarrow> s * ?p < 2 ^ 64"
    if "?p < 2 ^ 64"
    using c that by (simp add: MultiplyAndCheckOverflow_iff s(1))
  moreover have "unat (snd (MultiplyAndCheckOverflow (of_nat s) (snd ?c))) = s * ?p"
    if "?p < 2 ^ 64" "s * ?p < 2 ^ 64"
    using MultiplyAndCheckOverflow_exact [of "of_nat s" "snd ?c"] c that
    by (simp add: MultiplyAndCheckOverflow_iff s(1))
  ultimately show ?thesis
    using Some c by (auto simp: BytesRequired_def split_def Let_def)
qed

theorem BytesRequired_exact_witness:
  "BytesRequired kTfLiteFloat32 [2, 3] = Some 24"
  using BytesRequired_exact [of "[2, 3]" kTfLiteFloat32 24] by simp

end
