(* ===== verification/Graph_Info.thy ===== *)
theory Graph_Info
  imports Tensors
begin

text \<open>
  The interface \<^verbatim>\<open>GraphInfo\<close> of \<^verbatim>\<open>tensorflow/lite/graph_info.h\<close>: the view of a graph that the
  memory planner and the partitioner work on. \<open>gi_nodes\<close> holds \<^verbatim>\<open>node(i)\<close> for each index
  \<open>i\<close> of the execution plan, \<open>gi_node_index\<close> the plan itself (\<^verbatim>\<open>node_index(i)\<close>).
\<close>

record graph_info =
  gi_tensors :: "tensor list"
  gi_nodes :: "node list"
  gi_node_index :: "int list"
  gi_num_total_nodes :: nat
  gi_inputs :: "int list"
  gi_outputs :: "int list"
  gi_variables :: "int list"

definition num_tensors :: "graph_info \<Rightarrow> nat" where
  "num_tensors g = length (gi_tensors g)"

definition num_execution_nodes :: "graph_info \<Rightarrow> nat" where
  "num_execution_nodes g = length (gi_nodes g)"

text \<open>A tensor index that the graph may be asked about, possibly the absent optional tensor.\<close>

definition valid_tensor :: "graph_info \<Rightarrow> int \<Rightarrow> bool" where
  "valid_tensor g t \<longleftrightarrow> 0 \<le> t \<and> nat t < num_tensors g"

definition valid_optional :: "graph_info \<Rightarrow> int \<Rightarrow> bool" where
  "valid_optional g t \<longleftrightarrow> t = kTfLiteOptionalTensor \<or> valid_tensor g t"

text \<open>
  Well-formed graphs: what \<^verbatim>\<open>Subgraph::CheckTensorIndices\<close> establishes, and in addition that
  no graph output, variable or node output is the optional tensor.
\<close>

definition wf_graph :: "graph_info \<Rightarrow> bool" where
  "wf_graph g \<longleftrightarrow>
     (\<forall>t\<in>set (gi_inputs g). valid_optional g t)
     \<and> (\<forall>t\<in>set (gi_outputs g). valid_tensor g t)
     \<and> (\<forall>t\<in>set (gi_variables g). valid_tensor g t)
     \<and> (\<forall>nd\<in>set (gi_nodes g). (\<forall>t\<in>set (inputs nd). valid_optional g t)
          \<and> (\<forall>t\<in>set (outputs nd). valid_tensor g t)
          \<and> (\<forall>t\<in>set (temporaries nd). valid_tensor g t))
     \<and> int (num_execution_nodes g) < 2 ^ 31 - 1"

lemma valid_tensorD: "valid_tensor g t \<Longrightarrow> 0 \<le> t \<and> nat t < num_tensors g"
  by (simp add: valid_tensor_def)

lemma wf_graphD:
  assumes "wf_graph g"
  shows "t \<in> set (gi_inputs g) \<Longrightarrow> valid_optional g t"
    and "t \<in> set (gi_outputs g) \<Longrightarrow> valid_tensor g t"
    and "t \<in> set (gi_variables g) \<Longrightarrow> valid_tensor g t"
    and "nd \<in> set (gi_nodes g) \<Longrightarrow> t \<in> set (inputs nd) \<Longrightarrow> valid_optional g t"
    and "nd \<in> set (gi_nodes g) \<Longrightarrow> t \<in> set (outputs nd) \<Longrightarrow> valid_tensor g t"
    and "nd \<in> set (gi_nodes g) \<Longrightarrow> t \<in> set (temporaries nd) \<Longrightarrow> valid_tensor g t"
    and "int (num_execution_nodes g) < 2 ^ 31 - 1"
  using assms by (auto simp: wf_graph_def)

lemma wf_graph_nodeD:
  assumes "wf_graph g" "i < num_execution_nodes g"
  shows "t \<in> set (inputs (gi_nodes g ! i)) \<Longrightarrow> valid_optional g t"
    and "t \<in> set (outputs (gi_nodes g ! i)) \<Longrightarrow> valid_tensor g t"
    and "t \<in> set (temporaries (gi_nodes g ! i)) \<Longrightarrow> valid_tensor g t"
proof -
  have "gi_nodes g ! i \<in> set (gi_nodes g)" using assms(2) by (simp add: num_execution_nodes_def)
  then show "t \<in> set (inputs (gi_nodes g ! i)) \<Longrightarrow> valid_optional g t"
    "t \<in> set (outputs (gi_nodes g ! i)) \<Longrightarrow> valid_tensor g t"
    "t \<in> set (temporaries (gi_nodes g ! i)) \<Longrightarrow> valid_tensor g t"
    using wf_graphD(4-6) [OF assms(1)] by blast+
qed

text \<open>Lists of tensor indices, without and with the optional tensor.\<close>

definition in_range :: "nat \<Rightarrow> int list \<Rightarrow> bool" where
  "in_range n ts \<longleftrightarrow> (\<forall>t\<in>set ts. 0 \<le> t \<and> nat t < n)"

definition in_range_opt :: "nat \<Rightarrow> int list \<Rightarrow> bool" where
  "in_range_opt n ts \<longleftrightarrow> (\<forall>t\<in>set ts. t = kTfLiteOptionalTensor \<or> 0 \<le> t \<and> nat t < n)"

lemma in_range_simps [simp]:
  "in_range n []" "in_range n (t # ts) \<longleftrightarrow> (0 \<le> t \<and> nat t < n) \<and> in_range n ts"
  by (auto simp: in_range_def)

abbreviation present :: "int list \<Rightarrow> int list" where
  "present \<equiv> filter (\<lambda>t. t \<noteq> kTfLiteOptionalTensor)"

lemma in_range_present: "in_range_opt n ts \<Longrightarrow> in_range n (present ts)"
  by (auto simp: in_range_def in_range_opt_def)

lemma in_range_valid: "(\<And>t. t \<in> set ts \<Longrightarrow> valid_tensor g t) \<Longrightarrow> in_range (num_tensors g) ts"
  by (simp add: in_range_def valid_tensor_def)

lemma in_range_opt_valid:
  "(\<And>t. t \<in> set ts \<Longrightarrow> valid_optional g t) \<Longrightarrow> in_range_opt (num_tensors g) ts"
  by (simp add: in_range_opt_def valid_optional_def valid_tensor_def)

lemma wf_in_range:
  assumes "wf_graph g"
  shows "in_range (num_tensors g) (gi_outputs g)" "in_range (num_tensors g) (gi_variables g)"
    and "in_range_opt (num_tensors g) (gi_inputs g)"
    and "k < num_execution_nodes g \<Longrightarrow> in_range (num_tensors g) (outputs (gi_nodes g ! k))"
    and "k < num_execution_nodes g \<Longrightarrow> in_range_opt (num_tensors g) (inputs (gi_nodes g ! k))"
    and "k < num_execution_nodes g \<Longrightarrow> in_range (num_tensors g) (temporaries (gi_nodes g ! k))"
  by (intro in_range_valid in_range_opt_valid wf_graphD [OF assms] nth_mem;
      simp add: num_execution_nodes_def)+

text \<open>A graph of two nodes, for the examples.\<close>

definition example_node :: "int list \<Rightarrow> int list \<Rightarrow> int list \<Rightarrow> node" where
  "example_node ins outs temps =
     \<lparr>inputs = ins, outputs = outs, intermediates = [], temporaries = temps, user_data = 0,
      builtin_data = 0, custom_initial_data = (0, 0), node_delegate = None\<rparr>"

definition example_tensor :: "allocation_type \<Rightarrow> nat \<Rightarrow> tensor" where
  "example_tensor a n = zero_tensor\<lparr>allocation_type := a, bytes := n\<rparr>"

definition example_graph :: graph_info where
  "example_graph =
     \<lparr>gi_tensors = replicate 4 (example_tensor kTfLiteArenaRw 16),
      gi_nodes = [example_node [0] [1] [3], example_node [1] [2] []],
      gi_node_index = [0, 1], gi_num_total_nodes = 2,
      gi_inputs = [0], gi_outputs = [2], gi_variables = []\<rparr>"

lemma example_graph_facts:
  "num_tensors example_graph = 4" "num_execution_nodes example_graph = 2"
  "gi_inputs example_graph = [0]" "gi_outputs example_graph = [2]" "gi_variables example_graph = []"
  "gi_nodes example_graph = [example_node [0] [1] [3], example_node [1] [2] []]"
  by (simp_all add: example_graph_def num_tensors_def num_execution_nodes_def)

lemma example_graph_tensor:
  "i < 4 \<Longrightarrow> gi_tensors example_graph ! i = example_tensor kTfLiteArenaRw 16"
  by (simp add: example_graph_def)

lemma example_graph_wf: "wf_graph example_graph"
  by (simp add: wf_graph_def valid_tensor_def valid_optional_def example_graph_facts example_node_def)

end
