(* ===== verification/Memory_Arena.thy ===== *)
theory Memory_Arena
  imports Prelude
begin

text \<open>
  \<^verbatim>\<open>tensorflow/lite/simple_memory_arena.{h,cc}\<close>: placement of tensors in one buffer by their
  usage intervals.

  The record \<open>alloc\<close> is \<^verbatim>\<open>ArenaAllocWithUsageInterval\<close>, the record \<open>arena\<close> is
  \<^verbatim>\<open>SimpleMemoryArena\<close>. Offsets, sizes and addresses are \<open>nat\<close> with 64-bit wrap-around
  (\<open>sz_add\<close>, \<open>sz_sub\<close>). The heap is outside the model: what \<^verbatim>\<open>new char[n]\<close> returns (an
  address and indeterminate bytes) is an argument of \<open>Commit\<close>. A null pointer is address 0;
  the constructor leaves \<^verbatim>\<open>underlying_buffer_aligned_ptr_\<close> indeterminate, and the model picks 0.
\<close>

section \<open>Allocations\<close>

record alloc =
  alloc_offset :: nat
  alloc_size :: nat
  alloc_tensor :: int
  alloc_first_node :: int
  alloc_last_node :: int

definition alloc_reset :: alloc where
  "alloc_reset = \<lparr>alloc_offset = 0, alloc_size = 0, alloc_tensor = -1,
     alloc_first_node = -1, alloc_last_node = -1\<rparr>"

definition alloc_less :: "alloc \<Rightarrow> alloc \<Rightarrow> bool" where
  "alloc_less a b \<longleftrightarrow> alloc_offset a < alloc_offset b"

definition AlignTo :: "nat \<Rightarrow> nat \<Rightarrow> nat" where
  "AlignTo alignment offset =
     (if offset mod alignment = 0 then offset
      else sz_add offset (alignment - offset mod alignment))"

section \<open>The arena\<close>

record buffer =
  buf_addr :: nat
  buf_bytes :: "8 word list"

record arena =
  committed :: bool
  arena_alignment :: nat
  high_water_mark :: nat
  underlying_buffer :: "buffer option"
  underlying_buffer_size :: nat
  underlying_buffer_aligned_ptr :: nat
  ordered_allocs :: "alloc list"

definition SimpleMemoryArena :: "nat \<Rightarrow> arena" where
  "SimpleMemoryArena alignment =
     \<lparr>committed = False, arena_alignment = alignment, high_water_mark = 0,
      underlying_buffer = None, underlying_buffer_size = 0,
      underlying_buffer_aligned_ptr = 0, ordered_allocs = []\<rparr>"

abbreviation kOffsetNotAssigned :: nat where
  "kOffsetNotAssigned \<equiv> size_t_bound - 1"

text \<open>
  The gap search of \<^verbatim>\<open>Allocate\<close>: the loop over the allocations in order of offset, with
  \<^verbatim>\<open>best_offset\<close>, \<^verbatim>\<open>best_offset_fit\<close> and \<^verbatim>\<open>current_offset\<close> as its state.
\<close>

fun find_gap ::
  "nat \<Rightarrow> nat \<Rightarrow> int \<Rightarrow> int \<Rightarrow> alloc list \<Rightarrow> nat \<Rightarrow> nat \<Rightarrow> nat \<Rightarrow> nat \<times> nat" where
  "find_gap alignment sz fn ln [] best fit cur = (best, cur)"
| "find_gap alignment sz fn ln (a # as) best fit cur =
     (if alloc_last_node a < fn \<or> alloc_first_node a > ln
      then find_gap alignment sz fn ln as best fit cur
      else
        let aligned = AlignTo alignment cur;
            take_it = sz_add aligned sz \<le> alloc_offset a
                      \<and> sz_sub (alloc_offset a) aligned < fit;
            best' = (if take_it then aligned else best);
            fit' = (if take_it then sz_sub (alloc_offset a) cur else fit);
            cur' = max cur (sz_add (alloc_offset a) (alloc_size a))
        in find_gap alignment sz fn ln as best' fit' cur')"

primrec insert_alloc :: "alloc \<Rightarrow> alloc list \<Rightarrow> alloc list" where
  "insert_alloc n [] = [n]"
| "insert_alloc n (a # as) = (if alloc_less a n then a # insert_alloc n as else n # a # as)"

definition Allocate ::
  "nat \<Rightarrow> nat \<Rightarrow> int \<Rightarrow> int \<Rightarrow> int \<Rightarrow> alloc \<Rightarrow> arena \<Rightarrow> tflite_status \<times> alloc \<times> arena" where
  "Allocate alignment sz tensor fn ln new_alloc A =
     (if \<not> alignment \<le> arena_alignment A then (kTfLiteError, new_alloc, A)
      else
        let na = new_alloc\<lparr>alloc_tensor := tensor, alloc_first_node := fn,
                           alloc_last_node := ln, alloc_size := sz\<rparr>
        in if sz = 0 then (kTfLiteOk, na\<lparr>alloc_offset := 0\<rparr>, A)
        else
          let (best, cur) = find_gap alignment sz fn ln (ordered_allocs A)
                              kOffsetNotAssigned kOffsetNotAssigned 0;
              best_offset = (if best = kOffsetNotAssigned then AlignTo alignment cur else best);
              na' = na\<lparr>alloc_offset := best_offset\<rparr>
          in (kTfLiteOk, na',
              A\<lparr>high_water_mark := max (high_water_mark A) (sz_add best_offset sz),
                ordered_allocs := insert_alloc na' (ordered_allocs A)\<rparr>))"

text \<open>\<^verbatim>\<open>Deallocate\<close> erases every entry of the tensor, then checks that there was at most one.\<close>

definition Deallocate :: "alloc \<Rightarrow> arena \<Rightarrow> tflite_status \<times> arena" where
  "Deallocate a A =
     (if alloc_size a = 0 then (kTfLiteOk, A)
      else
        let erased = length (filter (\<lambda>b. alloc_tensor b = alloc_tensor a) (ordered_allocs A));
            A' = A\<lparr>ordered_allocs :=
                     filter (\<lambda>b. alloc_tensor b \<noteq> alloc_tensor a) (ordered_allocs A)\<rparr>
        in (if erased \<le> 1 then kTfLiteOk else kTfLiteError, A'))"

definition RequiredBufferSize :: "arena \<Rightarrow> nat" where
  "RequiredBufferSize A =
     sz_add (sz_add (arena_alignment A) (high_water_mark A)) (arena_alignment A)"

definition Commit :: "buffer \<Rightarrow> arena \<Rightarrow> tflite_status \<times> arena" where
  "Commit fresh A =
     (let required_size = RequiredBufferSize A;
          A' = (if required_size > underlying_buffer_size A then
                  let new_aligned = AlignTo (arena_alignment A) (buf_addr fresh);
                      contents =
                        (case underlying_buffer A of
                           None \<Rightarrow> buf_bytes fresh
                         | Some old \<Rightarrow>
                             if high_water_mark A > 0 \<and> underlying_buffer_size A > 0 then
                               let copy_amount =
                                     min (buf_addr old + underlying_buffer_size A
                                            - underlying_buffer_aligned_ptr A)
                                         (buf_addr fresh + required_size - new_aligned)
                               in memcpy (buf_bytes fresh) (new_aligned - buf_addr fresh)
                                    (buf_bytes old)
                                    (underlying_buffer_aligned_ptr A - buf_addr old) copy_amount
                             else buf_bytes fresh)
                  in A\<lparr>underlying_buffer := Some (fresh\<lparr>buf_bytes := contents\<rparr>),
                       underlying_buffer_size := required_size,
                       underlying_buffer_aligned_ptr := new_aligned\<rparr>
                else A)\<lparr>committed := True\<rparr>
      in (if underlying_buffer A' \<noteq> None then kTfLiteOk else kTfLiteError, A'))"

text \<open>
  \<^verbatim>\<open>ResolveAlloc\<close> writes through \<^verbatim>\<open>output_ptr\<close>: the cell's content before and after, or
  \<^term>\<open>None\<close> for a null \<^verbatim>\<open>output_ptr\<close>.
\<close>

definition ResolveAlloc :: "arena \<Rightarrow> alloc \<Rightarrow> nat option \<Rightarrow> tflite_status \<times> nat option" where
  "ResolveAlloc A a output_ptr =
     (if \<not> committed A then (kTfLiteError, output_ptr)
      else if output_ptr = None then (kTfLiteError, output_ptr)
      else if \<not> underlying_buffer_size A \<ge> sz_add (alloc_offset a) (alloc_size a)
      then (kTfLiteError, output_ptr)
      else if alloc_size a = 0 then (kTfLiteOk, Some 0)
      else (kTfLiteOk, Some (underlying_buffer_aligned_ptr A + alloc_offset a)))"

definition ClearPlan :: "arena \<Rightarrow> tflite_status \<times> arena" where
  "ClearPlan A =
     (kTfLiteOk, A\<lparr>committed := False, high_water_mark := 0, ordered_allocs := []\<rparr>)"

definition ReleaseBuffer :: "arena \<Rightarrow> tflite_status \<times> arena" where
  "ReleaseBuffer A =
     (kTfLiteOk, A\<lparr>committed := False, underlying_buffer_size := 0,
                   underlying_buffer_aligned_ptr := 0, underlying_buffer := None\<rparr>)"

definition GetBufferSize :: "arena \<Rightarrow> nat" where
  "GetBufferSize A = underlying_buffer_size A"

definition ArenaBasePointer :: "arena \<Rightarrow> nat" where
  "ArenaBasePointer A = underlying_buffer_aligned_ptr A"

section \<open>Non-overlap\<close>

text \<open>
  Two allocations are \<open>compatible\<close> when their byte ranges are disjoint or their usage
  intervals are. \<open>arena_inv\<close> is what every sequence of operations keeps.
\<close>

definition mem_disjoint :: "alloc \<Rightarrow> alloc \<Rightarrow> bool" where
  "mem_disjoint a b \<longleftrightarrow> alloc_offset a + alloc_size a \<le> alloc_offset b
                         \<or> alloc_offset b + alloc_size b \<le> alloc_offset a"

definition used_together :: "alloc \<Rightarrow> alloc \<Rightarrow> bool" where
  "used_together a b \<longleftrightarrow> \<not> (alloc_last_node a < alloc_first_node b
                             \<or> alloc_first_node a > alloc_last_node b)"

definition compatible :: "alloc \<Rightarrow> alloc \<Rightarrow> bool" where
  "compatible a b \<longleftrightarrow> (used_together a b \<longrightarrow> mem_disjoint a b)"

definition arena_inv :: "arena \<Rightarrow> bool" where
  "arena_inv A \<longleftrightarrow>
     sorted_wrt (\<lambda>a b. alloc_offset a \<le> alloc_offset b) (ordered_allocs A)
     \<and> (\<forall>a\<in>set (ordered_allocs A). 0 < alloc_size a
           \<and> alloc_offset a + alloc_size a \<le> high_water_mark A)
     \<and> sorted_wrt compatible (ordered_allocs A)
     \<and> high_water_mark A < size_t_bound"

lemma used_together_sym: "used_together a b = used_together b a"
  by (auto simp: used_together_def)

lemma compatible_sym: "compatible a b = compatible b a"
  by (auto simp: compatible_def used_together_sym mem_disjoint_def)

lemma AlignTo_no_wrap:
  assumes "0 < k" "x + k < size_t_bound"
  shows "x \<le> AlignTo k x" "AlignTo k x < x + k" "AlignTo k x mod k = 0"
proof -
  have r: "x mod k < k" using assms by simp
  have e: "AlignTo k x = (if x mod k = 0 then x else x + (k - x mod k))"
    using assms r by (simp add: AlignTo_def)
  show "x \<le> AlignTo k x" by (simp add: e)
  have "k - x mod k < k" if "x mod k \<noteq> 0" using that assms(1) by simp
  then show "AlignTo k x < x + k"
    unfolding e using assms(1) by (cases "x mod k = 0") auto
  have "x + (k - x mod k) = k * (x div k) + k"
    using r div_mult_mod_eq [of x k] by (simp only: mult.commute [of k])
  then show "AlignTo k x mod k = 0" by (simp add: e)
qed

definition gap_ok :: "nat \<Rightarrow> nat \<Rightarrow> nat \<Rightarrow> alloc set \<Rightarrow> nat \<Rightarrow> bool" where
  "gap_ok k sz H R b \<longleftrightarrow> b mod k = 0 \<and> b + sz \<le> H
     \<and> (\<forall>a\<in>R. b + sz \<le> alloc_offset a \<or> alloc_offset a + alloc_size a \<le> b)"

lemma find_gap_sound:
  assumes "find_gap k sz fn ln as best fit cur = (b, c)"
    and "sorted_wrt (\<lambda>a b. alloc_offset a \<le> alloc_offset b) as"
    and "\<forall>a\<in>set as. alloc_offset a + alloc_size a \<le> H"
    and "0 < k" "H + k + sz < size_t_bound" "cur \<le> H"
    and "\<forall>p\<in>P. alloc_offset p + alloc_size p \<le> cur"
    and "best \<noteq> kOffsetNotAssigned \<Longrightarrow>
           gap_ok k sz H P best \<and> (\<forall>a\<in>set as. best + sz \<le> alloc_offset a)"
  defines "R \<equiv> P \<union> {a \<in> set as. \<not> (alloc_last_node a < fn \<or> alloc_first_node a > ln)}"
  shows "c \<le> H \<and> (\<forall>a\<in>R. alloc_offset a + alloc_size a \<le> c)
         \<and> (b \<noteq> kOffsetNotAssigned \<longrightarrow> gap_ok k sz H R b)"
  using assms(1-8) unfolding R_def
proof (induction as arbitrary: best fit cur P)
  case Nil
  then show ?case by auto
next
  case (Cons a as)
  show ?case
  proof (cases "alloc_last_node a < fn \<or> alloc_first_node a > ln")
    case True
    have *: "P \<union> {x \<in> set (a # as). \<not> (alloc_last_node x < fn \<or> alloc_first_node x > ln)}
        = P \<union> {x \<in> set as. \<not> (alloc_last_node x < fn \<or> alloc_first_node x > ln)}"
      using True by auto
    show ?thesis
      unfolding * by (rule Cons.IH [of best fit cur]) (use True Cons.prems in \<open>auto simp: \<close>)
  next
    case False
    let ?al = "AlignTo k cur"
    let ?take = "sz_add ?al sz \<le> alloc_offset a \<and> sz_sub (alloc_offset a) ?al < fit"
    let ?best = "if ?take then ?al else best"
    let ?fit = "if ?take then sz_sub (alloc_offset a) cur else fit"
    let ?cur = "max cur (sz_add (alloc_offset a) (alloc_size a))"
    have al: "cur \<le> ?al" "?al < cur + k" "?al mod k = 0"
      using AlignTo_no_wrap [of k cur] Cons.prems by auto
    have end_a: "sz_add (alloc_offset a) (alloc_size a) = alloc_offset a + alloc_size a"
      using Cons.prems(3,5) by (intro sz_add_exact) (auto simp: )
    have al_sz: "sz_add ?al sz = ?al + sz"
      using al Cons.prems(5,6) by (intro sz_add_exact) auto
    have later: "\<forall>x\<in>set as. alloc_offset a \<le> alloc_offset x"
      using Cons.prems(2) by simp
    have Pa: "P \<union> {x \<in> set (a # as). \<not> (alloc_last_node x < fn \<or> alloc_first_node x > ln)}
        = insert a P \<union> {x \<in> set as. \<not> (alloc_last_node x < fn \<or> alloc_first_node x > ln)}"
      using False by auto
    have "find_gap k sz fn ln as ?best ?fit ?cur = (b, c)"
      using Cons.prems(1) False by (simp add: Let_def)
    moreover have "?cur \<le> H" using Cons.prems(3,6) end_a by simp
    moreover have "\<forall>p\<in>insert a P. alloc_offset p + alloc_size p \<le> ?cur"
      using Cons.prems(7) end_a by fastforce
    moreover have "gap_ok k sz H (insert a P) ?best \<and> (\<forall>x\<in>set as. ?best + sz \<le> alloc_offset x)"
      if nb: "?best \<noteq> kOffsetNotAssigned"
    proof (cases ?take)
      case True
      then have "?al + sz \<le> alloc_offset a" by (simp add: al_sz)
      moreover have "\<forall>p\<in>P. alloc_offset p + alloc_size p \<le> ?al"
        using Cons.prems(7) al(1) by fastforce
      ultimately show ?thesis
        using True later al(3) Cons.prems(3) by (fastforce simp: gap_ok_def)
    next
      case False
      then have "best \<noteq> kOffsetNotAssigned" using nb by (simp only: if_not_P not_False_eq_True)
      from Cons.prems(8) [OF this] show ?thesis
        unfolding if_not_P [OF False] by (auto simp: gap_ok_def)
    qed
    ultimately show ?thesis
      unfolding Pa using Cons.prems(2-5)
      by (intro Cons.IH [of ?best ?fit ?cur]) auto
  qed
qed


lemma set_insert_alloc [simp]: "set (insert_alloc n as) = insert n (set as)"
  by (induction as) auto

lemma sorted_insert_alloc:
  "sorted_wrt (\<lambda>a b. alloc_offset a \<le> alloc_offset b) as \<Longrightarrow>
   sorted_wrt (\<lambda>a b. alloc_offset a \<le> alloc_offset b) (insert_alloc n as)"
  by (induction as) (auto simp: alloc_less_def)

lemma pairwise_insert_alloc:
  assumes "sorted_wrt R as" "\<forall>a\<in>set as. R n a" "\<And>a b. R a b \<Longrightarrow> R b a"
  shows "sorted_wrt R (insert_alloc n as)"
  using assms(1,2) by (induction as) (auto intro: assms(3))

lemma arena_inv_initial: "arena_inv (SimpleMemoryArena k)"
  by (simp add: arena_inv_def SimpleMemoryArena_def)

text \<open>What one successful \<^verbatim>\<open>Allocate\<close> of a non-empty tensor guarantees.\<close>

lemma Allocate_placement:
  assumes inv: "arena_inv A" and k: "0 < k" "k \<le> arena_alignment A" and sz: "0 < sz"
    and room: "high_water_mark A + k + sz < size_t_bound"
    and A': "Allocate k sz t fn ln na A = (st, n, A')"
  shows "st = kTfLiteOk"
    and "n = \<lparr>alloc_offset = alloc_offset n, alloc_size = sz, alloc_tensor = t,
               alloc_first_node = fn, alloc_last_node = ln, \<dots> = alloc.more na\<rparr>"
    and "alloc_offset n mod k = 0"
    and "\<forall>a\<in>set (ordered_allocs A). compatible n a"
    and "alloc_offset n + sz < high_water_mark A + k + sz"
    and "A' = A\<lparr>high_water_mark := max (high_water_mark A) (alloc_offset n + sz),
                 ordered_allocs := insert_alloc n (ordered_allocs A)\<rparr>"
proof -
  let ?H = "high_water_mark A"
  obtain b c where fg: "find_gap k sz fn ln (ordered_allocs A)
      kOffsetNotAssigned kOffsetNotAssigned 0 = (b, c)"
    by (cases "find_gap k sz fn ln (ordered_allocs A) kOffsetNotAssigned kOffsetNotAssigned 0")
  let ?R = "{a \<in> set (ordered_allocs A). \<not> (alloc_last_node a < fn \<or> alloc_first_node a > ln)}"
  have snd: "c \<le> ?H" "\<forall>a\<in>?R. alloc_offset a + alloc_size a \<le> c"
    "b \<noteq> kOffsetNotAssigned \<longrightarrow> gap_ok k sz ?H ?R b"
    using find_gap_sound [OF fg, where H = ?H and P = "{}"] inv k room
    by (auto simp: arena_inv_def)
  let ?off = "if b = kOffsetNotAssigned then AlignTo k c else b"
  have al: "c \<le> AlignTo k c" "AlignTo k c < c + k" "AlignTo k c mod k = 0"
    using AlignTo_no_wrap [of k c] k snd(1) room by auto
  have off: "?off mod k = 0" "?off + sz < ?H + k + sz"
    "\<forall>a\<in>?R. ?off + sz \<le> alloc_offset a \<or> alloc_offset a + alloc_size a \<le> ?off"
    using al snd k(1) by (auto simp: gap_ok_def)
  have add: "sz_add ?off sz = ?off + sz"
    using off(2) room by (intro sz_add_exact) linarith
  let ?n = "na\<lparr>alloc_tensor := t, alloc_first_node := fn, alloc_last_node := ln,
               alloc_size := sz, alloc_offset := ?off\<rparr>"
  have res: "st = kTfLiteOk \<and> n = ?n \<and>
     A' = A\<lparr>high_water_mark := max ?H (sz_add ?off sz),
             ordered_allocs := insert_alloc ?n (ordered_allocs A)\<rparr>"
    using A' k sz unfolding Allocate_def Let_def fg by auto
  show "st = kTfLiteOk" using res by simp
  show "n = \<lparr>alloc_offset = alloc_offset n, alloc_size = sz, alloc_tensor = t,
               alloc_first_node = fn, alloc_last_node = ln, \<dots> = alloc.more na\<rparr>"
    using res by simp
  show "alloc_offset n mod k = 0" using res off(1) by simp
  show "\<forall>a\<in>set (ordered_allocs A). compatible n a"
    using res off(3) by (auto simp: compatible_def used_together_def mem_disjoint_def)
  show "alloc_offset n + sz < ?H + k + sz" using res off(2) by simp
  show "A' = A\<lparr>high_water_mark := max ?H (alloc_offset n + sz),
                ordered_allocs := insert_alloc n (ordered_allocs A)\<rparr>"
    using res add by simp
qed

lemma Allocate_empty:
  assumes "k \<le> arena_alignment A"
  shows "Allocate k 0 t fn ln na A =
    (kTfLiteOk, \<lparr>alloc_offset = 0, alloc_size = 0, alloc_tensor = t,
       alloc_first_node = fn, alloc_last_node = ln, \<dots> = alloc.more na\<rparr>, A)"
  using assms by (simp add: Allocate_def)

lemma Allocate_keeps_inv:
  assumes "arena_inv A" "0 < k"
    and "high_water_mark A + k + sz < size_t_bound"
    and "Allocate k sz t fn ln na A = (st, n, A')"
  shows "arena_inv A'"
proof (cases "sz = 0 \<or> \<not> k \<le> arena_alignment A")
  case True
  then have "A' = A" using assms(4) by (auto simp: Allocate_def split: if_splits)
  then show ?thesis using assms(1) by simp
next
  case False
  then have f: "0 < sz" "k \<le> arena_alignment A" by auto
  note pl = Allocate_placement [OF assms(1,2) f(2,1) assms(3,4)]
  have "alloc_size n = sz" using pl(2) by (metis alloc.select_convs(2))
  then show ?thesis
    using assms(1,3) f pl(4-6)
    by (auto simp: arena_inv_def max_def compatible_sym
        intro!: sorted_insert_alloc pairwise_insert_alloc)
qed

lemma Deallocate_keeps_inv: "arena_inv A \<Longrightarrow> Deallocate a A = (st, A') \<Longrightarrow> arena_inv A'"
  by (auto simp: arena_inv_def Deallocate_def Let_def intro!: sorted_wrt_filter split: if_splits)

lemma ClearPlan_inv: "arena_inv (snd (ClearPlan A))"
  by (simp add: arena_inv_def ClearPlan_def)

lemma Commit_keeps_inv: "arena_inv A \<Longrightarrow> arena_inv (snd (Commit fresh A))"
  by (simp add: arena_inv_def Commit_def Let_def)

lemma ReleaseBuffer_keeps_inv: "arena_inv A \<Longrightarrow> arena_inv (snd (ReleaseBuffer A))"
  by (simp add: arena_inv_def ReleaseBuffer_def)


section \<open>The buffer\<close>

text \<open>
  \<open>buffer_inv\<close>: the arena owns no buffer, or one whose bookkeeping is right: its length, and
  the aligned base that lies inside it with the padding of \<^verbatim>\<open>RequiredBufferSize\<close> to spare.
  \<open>arena_bytes\<close> is what a tensor placed at an offset of the aligned base holds.
\<close>

definition buffer_inv :: "arena \<Rightarrow> bool" where
  "buffer_inv A \<longleftrightarrow> 0 < arena_alignment A \<and>
     (case underlying_buffer A of
        None \<Rightarrow> underlying_buffer_size A = 0
      | Some b \<Rightarrow> length (buf_bytes b) = underlying_buffer_size A
          \<and> 0 < buf_addr b
          \<and> buf_addr b + underlying_buffer_size A < size_t_bound
          \<and> underlying_buffer_aligned_ptr A = AlignTo (arena_alignment A) (buf_addr b)
          \<and> 2 * arena_alignment A \<le> underlying_buffer_size A)"

definition fresh_ok :: "buffer \<Rightarrow> nat \<Rightarrow> bool" where
  "fresh_ok b n \<longleftrightarrow> length (buf_bytes b) = n \<and> 0 < buf_addr b \<and> buf_addr b + n < size_t_bound"

definition arena_bytes :: "arena \<Rightarrow> nat \<Rightarrow> nat \<Rightarrow> 8 word list" where
  "arena_bytes A off n =
     (case underlying_buffer A of
        None \<Rightarrow> []
      | Some b \<Rightarrow>
          take n (drop (underlying_buffer_aligned_ptr A - buf_addr b + off) (buf_bytes b)))"

lemma buffer_inv_initial: "0 < k \<Longrightarrow> buffer_inv (SimpleMemoryArena k)"
  by (simp add: buffer_inv_def SimpleMemoryArena_def)

lemma RequiredBufferSize_exact:
  "2 * arena_alignment A + high_water_mark A < size_t_bound \<Longrightarrow>
   RequiredBufferSize A = 2 * arena_alignment A + high_water_mark A"
  by (simp add: RequiredBufferSize_def)

lemma buffer_invD:
  assumes "buffer_inv A" "underlying_buffer A = Some b"
  shows "buf_addr b \<le> underlying_buffer_aligned_ptr A"
    and "underlying_buffer_aligned_ptr A < buf_addr b + arena_alignment A"
    and "underlying_buffer_aligned_ptr A mod arena_alignment A = 0"
proof -
  have *: "0 < arena_alignment A" "buf_addr b + arena_alignment A < size_t_bound"
    "underlying_buffer_aligned_ptr A = AlignTo (arena_alignment A) (buf_addr b)"
    using assms by (auto simp: buffer_inv_def)
  show "buf_addr b \<le> underlying_buffer_aligned_ptr A"
    "underlying_buffer_aligned_ptr A < buf_addr b + arena_alignment A"
    "underlying_buffer_aligned_ptr A mod arena_alignment A = 0"
    using AlignTo_no_wrap [OF *(1,2)] *(3) by simp_all
qed

lemma slice_of_copied_window:
  assumes "d + c \<le> length dst" "s + c \<le> length src" "off + n \<le> c"
  shows "take n (drop (d + off) (memcpy dst d src s c)) = take n (drop (s + off) src)"
proof -
  have "take c (drop d (memcpy dst d src s c)) = take c (drop s src)"
    using assms by (simp add: slice_memcpy)
  then have "take n (drop off (take c (drop d (memcpy dst d src s c))))
      = take n (drop off (take c (drop s src)))" by simp
  then show ?thesis
    using assms(3) by (simp add: drop_take add.commute)
qed

text \<open>Growing the buffer keeps every tensor's bytes.\<close>

lemma Commit_no_grow:
  assumes "RequiredBufferSize A \<le> underlying_buffer_size A"
  shows "snd (Commit fresh A) = A\<lparr>committed := True\<rparr>"
  using assms by (simp add: Commit_def Let_def)

lemma Commit_grow:
  assumes inv: "buffer_inv A" and grow: "underlying_buffer_size A < RequiredBufferSize A"
    and room: "2 * arena_alignment A + high_water_mark A < size_t_bound"
    and fresh: "fresh_ok fresh (RequiredBufferSize A)"
  shows "fst (Commit fresh A) = kTfLiteOk" (is ?ok)
    and "buffer_inv (snd (Commit fresh A))" (is ?inv)
    and "off + n + arena_alignment A \<le> underlying_buffer_size A \<Longrightarrow>
         arena_bytes (snd (Commit fresh A)) off n = arena_bytes A off n"
proof -
  let ?R = "RequiredBufferSize A" and ?k = "arena_alignment A"
  let ?na = "AlignTo ?k (buf_addr fresh)"
  have R: "?R = 2 * ?k + high_water_mark A" using RequiredBufferSize_exact [OF room] .
  have k: "0 < ?k" using inv by (simp add: buffer_inv_def)
  have f: "length (buf_bytes fresh) = ?R" "0 < buf_addr fresh" "buf_addr fresh + ?R < size_t_bound"
    using fresh by (auto simp: fresh_ok_def)
  have na: "buf_addr fresh \<le> ?na" "?na < buf_addr fresh + ?k"
    using AlignTo_no_wrap [of ?k "buf_addr fresh"] k f(3) R by auto
  show ?ok using grow by (simp add: Commit_def Let_def)
  show ?inv
  proof (cases "underlying_buffer A")
    case None
    then show ?thesis
      using grow f R k by (simp add: Commit_def Let_def buffer_inv_def)
  next
    case (Some old)
    let ?c = "min (buf_addr old + underlying_buffer_size A - underlying_buffer_aligned_ptr A)
                  (buf_addr fresh + ?R - ?na)"
    have old: "length (buf_bytes old) = underlying_buffer_size A"
      using inv Some by (simp add: buffer_inv_def)
    have "?na - buf_addr fresh + ?c \<le> length (buf_bytes fresh)"
      "underlying_buffer_aligned_ptr A - buf_addr old + ?c \<le> length (buf_bytes old)"
      using na f R buffer_invD [OF inv Some] old inv Some by (auto simp: buffer_inv_def)
    note len = length_memcpy [OF this]
    show ?thesis
      using grow f R k Some len by (simp add: Commit_def Let_def buffer_inv_def)
  qed
  assume win: "off + n + ?k \<le> underlying_buffer_size A"
  show "arena_bytes (snd (Commit fresh A)) off n = arena_bytes A off n"
  proof (cases "underlying_buffer A")
    case None
    then have "underlying_buffer_size A = 0" using inv by (simp add: buffer_inv_def)
    then show ?thesis using win k by simp
  next
    case (Some old)
    let ?oa = "underlying_buffer_aligned_ptr A"
    let ?c = "min (buf_addr old + underlying_buffer_size A - ?oa) (buf_addr fresh + ?R - ?na)"
    have old: "length (buf_bytes old) = underlying_buffer_size A"
      "2 * ?k \<le> underlying_buffer_size A"
      using inv Some by (auto simp: buffer_inv_def)
    note oa = buffer_invD [OF inv Some]
    have pos: "0 < high_water_mark A" "0 < underlying_buffer_size A"
      using grow R old(2) k by auto
    have fits: "?na - buf_addr fresh + ?c \<le> length (buf_bytes fresh)"
      "?oa - buf_addr old + ?c \<le> length (buf_bytes old)" "off + n \<le> ?c"
      using na f R oa old win grow by auto
    have "snd (Commit fresh A) = A\<lparr>underlying_buffer := Some (fresh\<lparr>buf_bytes :=
        memcpy (buf_bytes fresh) (?na - buf_addr fresh) (buf_bytes old) (?oa - buf_addr old) ?c\<rparr>),
        underlying_buffer_size := ?R, underlying_buffer_aligned_ptr := ?na, committed := True\<rparr>"
      using grow Some pos by (simp add: Commit_def Let_def)
    then show ?thesis
      using slice_of_copied_window [OF fits] Some by (simp add: arena_bytes_def)
  qed
qed

lemma Commit_committed: "committed (snd (Commit fresh A))"
  by (simp add: Commit_def Let_def)

lemma Commit_plan [simp]:
  "ordered_allocs (snd (Commit fresh A)) = ordered_allocs A"
  "high_water_mark (snd (Commit fresh A)) = high_water_mark A"
  "arena_alignment (snd (Commit fresh A)) = arena_alignment A"
  by (simp_all add: Commit_def Let_def)

lemma Commit_keeps_buffer_inv:
  assumes "buffer_inv A" "2 * arena_alignment A + high_water_mark A < size_t_bound"
    and "fresh_ok fresh (RequiredBufferSize A)"
  shows "fst (Commit fresh A) = kTfLiteOk \<and> buffer_inv (snd (Commit fresh A))"
proof (cases "RequiredBufferSize A \<le> underlying_buffer_size A")
  case True
  then have "underlying_buffer A \<noteq> None"
    using assms RequiredBufferSize_exact [OF assms(2)]
    by (auto simp: buffer_inv_def split: option.splits)
  then show ?thesis
    using True assms(1) by (auto simp: Commit_def Let_def buffer_inv_def)
next
  case False
  then show ?thesis using Commit_grow(1,2) [OF assms(1) _ assms(2,3)] by simp
qed

lemma Commit_size:
  "RequiredBufferSize A \<le> underlying_buffer_size (snd (Commit fresh A))"
  by (simp add: Commit_def Let_def RequiredBufferSize_def)

text \<open>After a \<^verbatim>\<open>Commit\<close> every planned allocation resolves to memory inside the buffer.\<close>

lemma ResolveAlloc_in_buffer:
  assumes "buffer_inv A" "committed A" "underlying_buffer A = Some b"
    and "2 * arena_alignment A + high_water_mark A \<le> underlying_buffer_size A"
    and "0 < alloc_size a" "alloc_offset a + alloc_size a \<le> high_water_mark A"
  shows "\<exists>p. ResolveAlloc A a (Some q) = (kTfLiteOk, Some p)
     \<and> p = underlying_buffer_aligned_ptr A + alloc_offset a
     \<and> buf_addr b \<le> p \<and> p + alloc_size a \<le> buf_addr b + underlying_buffer_size A"
proof -
  have "underlying_buffer_size A < size_t_bound"
    using assms(1,3) by (auto simp: buffer_inv_def)
  then have add: "sz_add (alloc_offset a) (alloc_size a) = alloc_offset a + alloc_size a"
    using assms(4,6) by (intro sz_add_exact) linarith
  show ?thesis
    using assms buffer_invD [OF assms(1,3)] by (auto simp: ResolveAlloc_def add)
qed


section \<open>Reuse of gaps\<close>

lemma AlignTo_least:
  assumes "0 < k" "x + k < size_t_bound" "x \<le> y" "y mod k = 0"
  shows "AlignTo k x \<le> y"
proof (rule ccontr)
  assume "\<not> AlignTo k x \<le> y"
  moreover have "AlignTo k x < x + k" "AlignTo k x mod k = 0"
    using AlignTo_no_wrap [OF assms(1,2)] by auto
  ultimately have "0 < AlignTo k x - y" "AlignTo k x - y < k" "(AlignTo k x - y) mod k = 0"
    using assms(3,4) by (auto simp flip: dvd_eq_mod_eq_0 intro: dvd_diff_nat)
  then show False by simp
qed

lemma find_gap_keeps_best:
  assumes "find_gap k sz fn ln as best fit cur = (b, c)" "best \<noteq> kOffsetNotAssigned"
    and "\<forall>a\<in>set as. alloc_offset a + alloc_size a \<le> H"
    and "0 < k" "H + k + sz < size_t_bound" "0 < sz" "cur \<le> H"
  shows "b \<noteq> kOffsetNotAssigned"
  using assms(1,2,3,7)
proof (induction as arbitrary: best fit cur)
  case Nil
  then show ?case by simp
next
  case (Cons a as)
  show ?case
  proof (cases "alloc_last_node a < fn \<or> alloc_first_node a > ln")
    case True
    then show ?thesis
      using Cons.prems by (intro Cons.IH [of best fit cur]) auto
  next
    case False
    let ?al = "AlignTo k cur"
    let ?take = "sz_add ?al sz \<le> alloc_offset a \<and> sz_sub (alloc_offset a) ?al < fit"
    have "?al < cur + k"
      using AlignTo_no_wrap [of k cur] assms(4,5) Cons.prems(4) by auto
    then have al: "?al \<noteq> kOffsetNotAssigned" using Cons.prems(4) assms(5,6) by auto
    have "sz_add (alloc_offset a) (alloc_size a) \<le> H"
      using Cons.prems(3) assms(5) by (subst sz_add_exact) auto
    moreover have "find_gap k sz fn ln as (if ?take then ?al else best)
        (if ?take then sz_sub (alloc_offset a) cur else fit)
        (max cur (sz_add (alloc_offset a) (alloc_size a))) = (b, c)"
      using Cons.prems(1) False by (simp add: Let_def)
    ultimately show ?thesis
      using Cons.prems al by (elim Cons.IH) auto
  qed
qed

lemma find_gap_complete:
  assumes "find_gap k sz fn ln as kOffsetNotAssigned kOffsetNotAssigned cur = (b, c)"
    and "sorted_wrt (\<lambda>a b. alloc_offset a \<le> alloc_offset b) as"
    and "\<forall>a\<in>set as. alloc_offset a + alloc_size a \<le> H"
    and "0 < k" "H + k + sz < size_t_bound" "0 < sz" "cur \<le> H" "cur \<le> g" "g mod k = 0"
    and "\<forall>a\<in>set as. \<not> (alloc_last_node a < fn \<or> alloc_first_node a > ln) \<longrightarrow>
           g + sz \<le> alloc_offset a \<or> alloc_offset a + alloc_size a \<le> g"
    and "\<exists>a\<in>set as. \<not> (alloc_last_node a < fn \<or> alloc_first_node a > ln) \<and> g + sz \<le> alloc_offset a"
  shows "b \<noteq> kOffsetNotAssigned"
  using assms(1-3,7,8,10,11)
proof (induction as arbitrary: cur)
  case Nil
  then show ?case by simp
next
  case (Cons a as)
  show ?case
  proof (cases "alloc_last_node a < fn \<or> alloc_first_node a > ln")
    case True
    then show ?thesis
      using Cons.prems by (intro Cons.IH [of cur]) auto
  next
    case False
    let ?al = "AlignTo k cur"
    let ?cur = "max cur (sz_add (alloc_offset a) (alloc_size a))"
    have end_a: "sz_add (alloc_offset a) (alloc_size a) = alloc_offset a + alloc_size a"
      using Cons.prems(3) assms(5) by (intro sz_add_exact) auto
    have al: "?al \<le> g" "?al < cur + k"
      using AlignTo_least [of k cur g] AlignTo_no_wrap [of k cur] assms Cons.prems by auto
    have al_sz: "sz_add ?al sz = ?al + sz"
      using al(2) Cons.prems(4) assms(5) by (intro sz_add_exact) linarith
    have al_na: "?al \<noteq> kOffsetNotAssigned" using al(2) Cons.prems(4) assms(5,6) by auto
    have cur_H: "?cur \<le> H" using Cons.prems(3,4) end_a by auto
    have as_H: "\<forall>a\<in>set as. alloc_offset a + alloc_size a \<le> H" using Cons.prems(3) by simp
    show ?thesis
    proof (cases "g + sz \<le> alloc_offset a")
      case True
      have off: "alloc_offset a \<le> H" using Cons.prems(3) by (auto intro: add_leD1)
      have "sz_sub (alloc_offset a) ?al = alloc_offset a - ?al"
        using True al(1) off assms(5) by (intro sz_sub_exact) auto
      then have "sz_add ?al sz \<le> alloc_offset a \<and> sz_sub (alloc_offset a) ?al < kOffsetNotAssigned"
        using True al off assms(5,6) by (auto simp: al_sz)
      then have "find_gap k sz fn ln as ?al (sz_sub (alloc_offset a) cur) ?cur = (b, c)"
        using Cons.prems(1) False by (simp add: Let_def)
      then show ?thesis by (rule find_gap_keeps_best [OF _ al_na as_H assms(4-6) cur_H])
    next
      case False2: False
      then have end_g: "alloc_offset a + alloc_size a \<le> g" using Cons.prems(6) False by auto
      show ?thesis
      proof (cases "sz_add ?al sz \<le> alloc_offset a \<and> sz_sub (alloc_offset a) ?al < kOffsetNotAssigned")
        case True
        then have "find_gap k sz fn ln as ?al (sz_sub (alloc_offset a) cur) ?cur = (b, c)"
          using Cons.prems(1) False by (simp add: Let_def)
        then show ?thesis by (rule find_gap_keeps_best [OF _ al_na as_H assms(4-6) cur_H])
      next
        case no: False
        then have "find_gap k sz fn ln as kOffsetNotAssigned kOffsetNotAssigned ?cur = (b, c)"
          using Cons.prems(1) False unfolding find_gap.simps Let_def if_not_P [OF no] by simp
        moreover have "?cur \<le> g" using Cons.prems(5) end_a end_g by simp
        ultimately show ?thesis
          using Cons.prems(2,6,7) False2 False as_H cur_H by (intro Cons.IH [of ?cur]) auto
      qed
    qed
  qed
qed

lemma Allocate_gap_no_growth:
  assumes inv: "arena_inv A" and k: "0 < k" "k \<le> arena_alignment A" and sz: "0 < sz"
    and room: "high_water_mark A + k + sz < size_t_bound"
    and A': "Allocate k sz t fn ln na A = (st, n, A')"
    and gap: "g mod k = 0"
      "\<forall>a\<in>set (ordered_allocs A). \<not> (alloc_last_node a < fn \<or> alloc_first_node a > ln) \<longrightarrow>
         g + sz \<le> alloc_offset a \<or> alloc_offset a + alloc_size a \<le> g"
      "\<exists>a\<in>set (ordered_allocs A).
         \<not> (alloc_last_node a < fn \<or> alloc_first_node a > ln) \<and> g + sz \<le> alloc_offset a"
  shows "high_water_mark A' = high_water_mark A"
proof -
  obtain b c where fg: "find_gap k sz fn ln (ordered_allocs A)
      kOffsetNotAssigned kOffsetNotAssigned 0 = (b, c)"
    by (cases "find_gap k sz fn ln (ordered_allocs A) kOffsetNotAssigned kOffsetNotAssigned 0")
  have b: "b \<noteq> kOffsetNotAssigned"
    by (rule find_gap_complete [OF fg, where g = g and H = "high_water_mark A"])
      (use inv k sz room gap in \<open>auto simp: arena_inv_def\<close>)
  moreover have "b + sz \<le> high_water_mark A"
    using find_gap_sound [OF fg, where H = "high_water_mark A" and P = "{}"] inv k room b
    by (auto simp: arena_inv_def gap_ok_def)
  ultimately show ?thesis
    using A' k sz room unfolding Allocate_def Let_def fg by auto
qed


section \<open>Runs of an arena\<close>

text \<open>
  Every operation of the class as one step. The premises of \<open>alloc\<close> are what the planner
  provides: a positive alignment, and sizes that keep the arithmetic below \<open>2 ^ 64\<close>.
\<close>

inductive arena_step :: "arena \<Rightarrow> arena \<Rightarrow> bool" where
  alloc: "0 < k \<Longrightarrow> high_water_mark A + k + sz < size_t_bound \<Longrightarrow>
    Allocate k sz t fn ln na A = (st, n, A') \<Longrightarrow> arena_step A A'"
| dealloc: "Deallocate a A = (st, A') \<Longrightarrow> arena_step A A'"
| commit: "Commit fresh A = (st, A') \<Longrightarrow> arena_step A A'"
| clear: "ClearPlan A = (st, A') \<Longrightarrow> arena_step A A'"
| release: "ReleaseBuffer A = (st, A') \<Longrightarrow> arena_step A A'"

inductive arena_reachable :: "arena \<Rightarrow> bool" where
  start: "arena_reachable (SimpleMemoryArena k)"
| step: "arena_reachable A \<Longrightarrow> arena_step A B \<Longrightarrow> arena_reachable B"

lemma arena_step_inv: "arena_step A B \<Longrightarrow> arena_inv A \<Longrightarrow> arena_inv B"
proof (induction rule: arena_step.induct)
  case (alloc k A sz t fn ln na st n A')
  then show ?case by (blast intro: Allocate_keeps_inv)
next
  case (dealloc a A st A')
  then show ?case by (blast intro: Deallocate_keeps_inv)
next
  case (commit fresh A st A')
  then show ?case using Commit_keeps_inv [of A fresh] by simp
next
  case (clear A st A')
  then show ?case using ClearPlan_inv [of A] by simp
next
  case (release A st A')
  then show ?case using ReleaseBuffer_keeps_inv [of A] by simp
qed

lemma arena_reachable_inv: "arena_reachable A \<Longrightarrow> arena_inv A"
  by (induction rule: arena_reachable.induct) (auto intro: arena_inv_initial arena_step_inv)

lemma sorted_wrt_nth_both:
  assumes "sorted_wrt R xs" "i < length xs" "j < length xs" "i \<noteq> j"
    and "\<And>a b. R a b \<Longrightarrow> R b a"
  shows "R (xs ! i) (xs ! j)"
  using assms by (metis linorder_neqE_nat sorted_wrt_iff_nth_less)

text \<open>
  C1: in every state an arena can reach, two allocations whose usage intervals intersect
  occupy disjoint byte ranges, and every allocation lies below the high-water mark.
\<close>

theorem arena_never_overlaps:
  assumes "arena_reachable A"
    and "i < length (ordered_allocs A)" "j < length (ordered_allocs A)" "i \<noteq> j"
    and "used_together (ordered_allocs A ! i) (ordered_allocs A ! j)"
  shows "mem_disjoint (ordered_allocs A ! i) (ordered_allocs A ! j)
    \<and> alloc_offset (ordered_allocs A ! i) + alloc_size (ordered_allocs A ! i) \<le> high_water_mark A"
proof -
  have inv: "arena_inv A" using assms(1) by (rule arena_reachable_inv)
  then have "compatible (ordered_allocs A ! i) (ordered_allocs A ! j)"
    using assms(2-4) by (intro sorted_wrt_nth_both [where R = compatible])
      (auto simp: arena_inv_def compatible_sym)
  then show ?thesis using inv assms(2,5) by (auto simp: compatible_def arena_inv_def)
qed

definition example_arena :: arena where
  "example_arena =
     snd (snd (Allocate 64 200 1 1 2 alloc_reset
       (snd (snd (Allocate 64 100 0 0 1 alloc_reset (SimpleMemoryArena 64))))))"

lemma example_arena_allocs:
  "ordered_allocs example_arena =
     [\<lparr>alloc_offset = 0, alloc_size = 100, alloc_tensor = 0, alloc_first_node = 0, alloc_last_node = 1\<rparr>,
      \<lparr>alloc_offset = 128, alloc_size = 200, alloc_tensor = 1, alloc_first_node = 1, alloc_last_node = 2\<rparr>]"
  by (simp add: example_arena_def Allocate_def SimpleMemoryArena_def Let_def AlignTo_def
      alloc_reset_def alloc_less_def)

lemma example_arena_reachable: "arena_reachable example_arena"
proof -
  let ?A = "SimpleMemoryArena 64"
  let ?B = "snd (snd (Allocate 64 100 0 0 1 alloc_reset ?A))"
  have "arena_step ?A ?B"
    by (rule arena_step.alloc [where k = 64 and sz = 100 and t = 0 and fn = 0 and ln = 1
          and na = alloc_reset])
      (auto simp: SimpleMemoryArena_def prod_eq_iff)
  moreover have "arena_step ?B example_arena"
    unfolding example_arena_def
    by (rule arena_step.alloc [where k = 64 and sz = 200 and t = 1 and fn = 1 and ln = 2
          and na = alloc_reset])
      (auto simp: SimpleMemoryArena_def Allocate_def Let_def AlignTo_def prod_eq_iff)
  ultimately show ?thesis
    using arena_reachable.start arena_reachable.step by blast
qed

theorem arena_never_overlaps_witness:
  "mem_disjoint (ordered_allocs example_arena ! 0) (ordered_allocs example_arena ! 1)"
  using arena_never_overlaps [OF example_arena_reachable, of 0 1]
  by (simp add: example_arena_allocs used_together_def)

text \<open>
  C2: \<^verbatim>\<open>Allocate\<close> raises the arena's high-water mark only when it must: if some aligned
  range that no allocation in use at the same time touches ends below one of them, the
  request is placed in a gap and the required buffer size does not change.
\<close>

theorem Allocate_reuses_gaps:
  assumes "arena_reachable A" and "0 < k" "k \<le> arena_alignment A" "0 < sz"
    and "high_water_mark A + k + sz < size_t_bound"
    and "Allocate k sz t fn ln na A = (st, n, A')"
    and "g mod k = 0"
    and "\<forall>a\<in>set (ordered_allocs A). \<not> (alloc_last_node a < fn \<or> alloc_first_node a > ln) \<longrightarrow>
           g + sz \<le> alloc_offset a \<or> alloc_offset a + alloc_size a \<le> g"
    and "\<exists>a\<in>set (ordered_allocs A).
           \<not> (alloc_last_node a < fn \<or> alloc_first_node a > ln) \<and> g + sz \<le> alloc_offset a"
  shows "RequiredBufferSize A' = RequiredBufferSize A"
proof -
  have inv: "arena_inv A" using assms(1) by (rule arena_reachable_inv)
  have "high_water_mark A' = high_water_mark A"
    by (rule Allocate_gap_no_growth [OF inv assms(2-9)])
  moreover have "arena_alignment A' = arena_alignment A"
    using Allocate_placement(6) [OF inv assms(2-6)] by simp
  ultimately show ?thesis by (simp add: RequiredBufferSize_def)
qed

theorem Allocate_reuses_gaps_witness:
  "RequiredBufferSize (snd (snd (Allocate 64 90 2 2 2 alloc_reset example_arena)))
     = RequiredBufferSize example_arena"
proof -
  have "high_water_mark example_arena = 328" "arena_alignment example_arena = 64"
    by (simp_all add: example_arena_def Allocate_def SimpleMemoryArena_def Let_def AlignTo_def)
  then show ?thesis
    using Allocate_reuses_gaps [OF example_arena_reachable, of 64 90 2 2 2 alloc_reset
        "fst (Allocate 64 90 2 2 2 alloc_reset example_arena)"
        "fst (snd (Allocate 64 90 2 2 2 alloc_reset example_arena))"
        "snd (snd (Allocate 64 90 2 2 2 alloc_reset example_arena))" 0]
    by (simp add: example_arena_allocs)
qed

text \<open>
  C3: committing a plan keeps the bytes of every tensor that was inside the old buffer, even
  when the buffer is replaced by a larger one at another address; it succeeds and leaves a
  buffer large enough for the plan.
\<close>

theorem Commit_keeps_contents:
  assumes "buffer_inv A" "2 * arena_alignment A + high_water_mark A < size_t_bound"
    and "fresh_ok fresh (RequiredBufferSize A)"
    and "off + n + arena_alignment A \<le> underlying_buffer_size A"
  shows "fst (Commit fresh A) = kTfLiteOk
    \<and> arena_bytes (snd (Commit fresh A)) off n = arena_bytes A off n
    \<and> RequiredBufferSize A \<le> underlying_buffer_size (snd (Commit fresh A))"
proof (cases "RequiredBufferSize A \<le> underlying_buffer_size A")
  case True
  then show ?thesis
    using Commit_keeps_buffer_inv [OF assms(1-3)]
    by (simp add: Commit_no_grow arena_bytes_def split: option.splits)
next
  case False
  then show ?thesis
    using Commit_grow [OF assms(1) _ assms(2,3)] assms(4) Commit_size [of A fresh] by simp
qed

definition example_buffer :: "nat \<Rightarrow> nat \<Rightarrow> 8 word \<Rightarrow> buffer" where
  "example_buffer a n v = \<lparr>buf_addr = a, buf_bytes = replicate n v\<rparr>"

theorem Commit_keeps_contents_witness:
  "arena_bytes (snd (Commit (example_buffer 1000 12 7)
      \<lparr>committed = True, arena_alignment = 4, high_water_mark = 4,
       underlying_buffer = Some (example_buffer 101 10 5), underlying_buffer_size = 10,
       underlying_buffer_aligned_ptr = 104, ordered_allocs = []\<rparr>)) 0 2 = [5, 5]"
proof -
  let ?A = "\<lparr>committed = True, arena_alignment = 4, high_water_mark = 4,
       underlying_buffer = Some (example_buffer 101 10 5), underlying_buffer_size = 10,
       underlying_buffer_aligned_ptr = 104, ordered_allocs = []\<rparr>"
  have "buffer_inv ?A"
    by (simp add: buffer_inv_def example_buffer_def AlignTo_def)
  moreover have "RequiredBufferSize ?A = 12"
    by (simp add: RequiredBufferSize_def)
  moreover have "fresh_ok (example_buffer 1000 12 7) 12"
    by (simp add: fresh_ok_def example_buffer_def)
  moreover have "arena_bytes ?A 0 2 = [5, 5]"
    by (simp add: arena_bytes_def example_buffer_def numeral_2_eq_2)
  ultimately show ?thesis
    using Commit_keeps_contents [of ?A "example_buffer 1000 12 7" 0 2] by simp
qed

section \<open>The arena as the planner sees it\<close>

text \<open>
  A client keeps one \<open>alloc\<close> per tensor in a vector. \<open>agrees\<close> says that the arena holds
  exactly the entries that the client knows about.
\<close>

definition agrees :: "alloc list \<Rightarrow> alloc list \<Rightarrow> bool" where
  "agrees known es \<longleftrightarrow>
     distinct (map alloc_tensor es) \<and> (\<forall>a\<in>set es. vec_at known (alloc_tensor a) = Some a)"

definition holds_tensor :: "alloc list \<Rightarrow> int \<Rightarrow> bool" where
  "holds_tensor es t \<longleftrightarrow> t \<in> alloc_tensor ` set es"

lemma agrees_holds:
  assumes "agrees known es" "holds_tensor es t"
  shows "in_bounds known t" "known ! nat t \<in> set es" "alloc_tensor (known ! nat t) = t"
  using assms by (auto simp: agrees_def holds_tensor_def vec)

lemma agrees_update_other:
  assumes "agrees known es" "\<not> holds_tensor es t" "0 \<le> t"
  shows "agrees (known[nat t := n]) es"
proof -
  have "vec_at (known[nat t := n]) (alloc_tensor a) = Some a" if "a \<in> set es" for a
  proof -
    have v: "vec_at known (alloc_tensor a) = Some a" "alloc_tensor a \<noteq> t"
      using that assms(1,2) by (auto simp: agrees_def holds_tensor_def)
    then have "nat (alloc_tensor a) \<noteq> nat t"
      using assms(3) by (auto simp: vec in_bounds_def)
    with v show ?thesis by (auto simp: vec in_bounds_def)
  qed
  then show ?thesis using assms(1) by (simp add: agrees_def)
qed

lemma length_filter_tensor:
  assumes "distinct (map alloc_tensor es)"
  shows "length (filter (\<lambda>b. alloc_tensor b = t) es) \<le> 1"
  using assms
proof (induction es)
  case Nil
  show ?case by simp
next
  case (Cons a es)
  then have "filter (\<lambda>b. alloc_tensor b = t) es = []" if "alloc_tensor a = t"
    using that by (auto simp: filter_empty_conv image_iff)
  with Cons show ?case by auto
qed

text \<open>
  The contract: \<open>place\<close> adds one entry that conflicts with none, \<open>remove\<close> drops the entries
  of a tensor, and no two entries in use together share memory.
\<close>

locale offset_arena =
  fixes place :: "nat \<Rightarrow> int \<Rightarrow> int \<Rightarrow> int \<Rightarrow> alloc \<Rightarrow> 'a \<Rightarrow> tflite_status \<times> alloc \<times> 'a"
    and remove :: "alloc \<Rightarrow> 'a \<Rightarrow> tflite_status \<times> 'a"
    and entries :: "'a \<Rightarrow> alloc list"
    and mark :: "'a \<Rightarrow> nat"
    and good :: "'a \<Rightarrow> bool"
    and pad :: nat
  assumes entry_bounds: "good A \<Longrightarrow> a \<in> set (entries A) \<Longrightarrow>
        0 < alloc_size a \<and> alloc_offset a + alloc_size a \<le> mark A"
    and entries_compatible: "good A \<Longrightarrow> a \<in> set (entries A) \<Longrightarrow> b \<in> set (entries A) \<Longrightarrow>
        a \<noteq> b \<Longrightarrow> compatible a b"
    and place_spec: "good A \<Longrightarrow> mark A + pad + sz < size_t_bound \<Longrightarrow>
        place sz t fn ln na A = (st, n, A') \<Longrightarrow>
        st = kTfLiteOk \<and> good A' \<and> alloc_size n = sz \<and> alloc_tensor n = t
          \<and> alloc_first_node n = fn \<and> alloc_last_node n = ln
          \<and> mark A' \<le> mark A + pad + sz \<and> (sz = 0 \<longrightarrow> alloc_offset n = 0)"
    and place_entries: "good A \<Longrightarrow> mark A + pad + sz < size_t_bound \<Longrightarrow>
        place sz t fn ln na A = (st, n, A') \<Longrightarrow>
        if sz = 0 then entries A' = entries A
        else \<exists>xs ys. entries A = xs @ ys \<and> entries A' = xs @ n # ys"
    and remove_good: "good A \<Longrightarrow> remove a A = (st, A') \<Longrightarrow> good A' \<and> mark A' = mark A"
    and remove_entries: "remove a A = (st, A') \<Longrightarrow> 0 < alloc_size a \<Longrightarrow>
        entries A' = filter (\<lambda>b. alloc_tensor b \<noteq> alloc_tensor a) (entries A)"
    and remove_status: "remove a A = (st, A') \<Longrightarrow>
        length (filter (\<lambda>b. alloc_tensor b = alloc_tensor a) (entries A)) \<le> 1 \<Longrightarrow> st = kTfLiteOk"
begin

lemma place_agrees:
  assumes good: "good A" and room: "mark A + pad + sz < size_t_bound"
    and pl: "place sz t fn ln na A = (st, n, A')"
    and ag: "agrees known (entries A)" and t: "in_bounds known t" "\<not> holds_tensor (entries A) t"
  shows "agrees (known[nat t := n]) (entries A')"
    and "holds_tensor (entries A') u \<longleftrightarrow> holds_tensor (entries A) u \<or> u = t \<and> 0 < sz"
proof -
  have nt: "alloc_tensor n = t" using place_spec [OF good room pl] by simp
  have "agrees (known[nat t := n]) (entries A)"
    using agrees_update_other [OF ag t(2)] t(1) by (simp add: in_bounds_def)
  then have keep: "vec_at (known[nat t := n]) (alloc_tensor a) = Some a"
    if "a \<in> set (entries A)" for a
    using that by (simp add: agrees_def)
  have new: "vec_at (known[nat t := n]) (alloc_tensor n) = Some n"
    using t(1) nt by (auto simp: vec in_bounds_def)
  have dist: "distinct (map alloc_tensor (entries A))" using ag by (simp add: agrees_def)
  show "agrees (known[nat t := n]) (entries A')"
  proof (cases "sz = 0")
    case True
    then show ?thesis
      using place_entries [OF good room pl] keep dist by (simp add: agrees_def)
  next
    case False
    then obtain xs ys where *: "entries A = xs @ ys" "entries A' = xs @ n # ys"
      using place_entries [OF good room pl] by auto
    then show ?thesis
      using keep new dist t(2) nt by (auto simp: agrees_def holds_tensor_def)
  qed
  show "holds_tensor (entries A') u \<longleftrightarrow> holds_tensor (entries A) u \<or> u = t \<and> 0 < sz"
    using place_entries [OF good room pl] nt
    by (cases "sz = 0") (auto simp: holds_tensor_def)
qed

lemma remove_agrees:
  assumes good: "good A" and rm: "remove a A = (st, A')" and pos: "0 < alloc_size a"
    and ag: "agrees known (entries A)"
  shows "st = kTfLiteOk" "agrees known (entries A')"
    and "holds_tensor (entries A') u \<longleftrightarrow> holds_tensor (entries A) u \<and> u \<noteq> alloc_tensor a"
proof -
  have dist: "distinct (map alloc_tensor (entries A))" using ag by (simp add: agrees_def)
  then show "st = kTfLiteOk" using remove_status [OF rm] length_filter_tensor by blast
  show "agrees known (entries A')"
    using ag remove_entries [OF rm pos] by (auto simp: agrees_def distinct_map_filter)
  show "holds_tensor (entries A') u \<longleftrightarrow> holds_tensor (entries A) u \<and> u \<noteq> alloc_tensor a"
    using remove_entries [OF rm pos] by (auto simp: holds_tensor_def)
qed

lemma held_disjoint:
  assumes "good A" "agrees known (entries A)" "holds_tensor (entries A) t" "holds_tensor (entries A) u"
    and "t \<noteq> u" "used_together (known ! nat t) (known ! nat u)"
  shows "mem_disjoint (known ! nat t) (known ! nat u)"
proof -
  note h = agrees_holds [OF assms(2,3)] agrees_holds [OF assms(2,4)]
  then have "known ! nat t \<noteq> known ! nat u" using assms(5) by metis
  then show ?thesis
    using entries_compatible [OF assms(1) h(2) h(5)] assms(6) by (simp add: compatible_def)
qed

lemma held_bounds:
  assumes "good A" "agrees known (entries A)" "holds_tensor (entries A) t"
  shows "0 < alloc_size (known ! nat t)"
    "alloc_offset (known ! nat t) + alloc_size (known ! nat t) \<le> mark A"
  using entry_bounds [OF assms(1)] agrees_holds(2) [OF assms(2,3)] by blast+

end

definition sound_arena :: "nat \<Rightarrow> arena \<Rightarrow> bool" where
  "sound_arena k A \<longleftrightarrow> arena_inv A \<and> 0 < k \<and> k \<le> arena_alignment A"

lemma insert_alloc_split: "\<exists>xs ys. as = xs @ ys \<and> insert_alloc n as = xs @ n # ys"
proof (induction as)
  case Nil
  show ?case by simp
next
  case (Cons a as)
  then obtain xs ys where "as = xs @ ys" "insert_alloc n as = xs @ n # ys" by blast
  then have "a # as = (a # xs) @ ys \<and> a # insert_alloc n as = (a # xs) @ n # ys" by simp
  moreover have "a # as = [] @ a # as \<and> n # a # as = [] @ n # a # as" by simp
  ultimately show ?case unfolding insert_alloc.simps by (metis (full_types))
qed

interpretation tensor_arena:
  offset_arena "Allocate k" Deallocate ordered_allocs high_water_mark "sound_arena k" k
  for k
proof unfold_locales
  fix A A' a b t fn ln sz na n st
  show "0 < alloc_size a \<and> alloc_offset a + alloc_size a \<le> high_water_mark A"
    if "sound_arena k A" "a \<in> set (ordered_allocs A)"
    using that by (auto simp: sound_arena_def arena_inv_def)
  show "compatible a b"
    if "sound_arena k A" "a \<in> set (ordered_allocs A)" "b \<in> set (ordered_allocs A)" "a \<noteq> b"
    using that sorted_wrt_nth_both [of compatible "ordered_allocs A"]
    by (auto simp: sound_arena_def arena_inv_def in_set_conv_nth compatible_sym)
  show "st = kTfLiteOk \<and> sound_arena k A' \<and> alloc_size n = sz \<and> alloc_tensor n = t
          \<and> alloc_first_node n = fn \<and> alloc_last_node n = ln
          \<and> high_water_mark A' \<le> high_water_mark A + k + sz \<and> (sz = 0 \<longrightarrow> alloc_offset n = 0)"
    if "sound_arena k A" "high_water_mark A + k + sz < size_t_bound"
      "Allocate k sz t fn ln na A = (st, n, A')"
  proof -
    have A: "arena_inv A" "0 < k" "k \<le> arena_alignment A"
      using that(1) by (auto simp: sound_arena_def)
    have inv: "arena_inv A'" by (rule Allocate_keeps_inv [OF A(1,2) that(2,3)])
    show ?thesis
    proof (cases "sz = 0")
      case True
      then show ?thesis using that Allocate_empty [OF A(3), of t fn ln na] by auto
    next
      case False
      then have pos: "0 < sz" by simp
      note pl = Allocate_placement [OF A pos that(2,3)]
      have "alloc_size n = sz" "alloc_tensor n = t" "alloc_first_node n = fn" "alloc_last_node n = ln"
        by (subst pl(2), simp)+
      then show ?thesis using pl(1,5,6) A(2,3) inv pos by (simp add: sound_arena_def)
    qed
  qed
  show "if sz = 0 then ordered_allocs A' = ordered_allocs A
        else \<exists>xs ys. ordered_allocs A = xs @ ys \<and> ordered_allocs A' = xs @ n # ys"
    if "sound_arena k A" "high_water_mark A + k + sz < size_t_bound"
      "Allocate k sz t fn ln na A = (st, n, A')"
  proof (cases "sz = 0")
    case True
    then show ?thesis
      using that Allocate_empty [of k A t fn ln na] by (simp add: sound_arena_def)
  next
    case False
    then show ?thesis
      using that Allocate_placement(6) [of A k sz t fn ln na st n A'] insert_alloc_split
      by (simp add: sound_arena_def)
  qed
  show "sound_arena k A' \<and> high_water_mark A' = high_water_mark A"
    if "sound_arena k A" "Deallocate a A = (st, A')"
    using that Deallocate_keeps_inv [of A a st A']
    by (auto simp: sound_arena_def Deallocate_def Let_def split: if_splits)
  show "ordered_allocs A' = filter (\<lambda>b. alloc_tensor b \<noteq> alloc_tensor a) (ordered_allocs A)"
    if "Deallocate a A = (st, A')" "0 < alloc_size a"
    using that by (auto simp: Deallocate_def Let_def)
  show "st = kTfLiteOk"
    if "Deallocate a A = (st, A')"
      "length (filter (\<lambda>b. alloc_tensor b = alloc_tensor a) (ordered_allocs A)) \<le> 1"
    using that by (auto simp: Deallocate_def Let_def split: if_splits)
qed

text \<open>
  without a bound on sizes the arithmetic of \<^verbatim>\<open>Allocate\<close> wraps: while a tensor of 100 bytes is
  alive, a request of \<open>2 ^ 64 - 64\<close> bytes is reported as placed, although the buffer that
  \<^verbatim>\<open>Commit\<close> will allocate for both has 228 bytes.
\<close>

theorem Allocate_wraps:
  "(case Allocate 64 (size_t_bound - 64) 1 0 1 alloc_reset
      (snd (snd (Allocate 64 100 0 0 1 alloc_reset (SimpleMemoryArena 64))))
    of (st, n, A) \<Rightarrow> st = kTfLiteOk \<and> alloc_offset n = 128 \<and> alloc_size n = size_t_bound - 64
        \<and> RequiredBufferSize A = 228)"
  by (simp add: Allocate_def SimpleMemoryArena_def Let_def AlignTo_def RequiredBufferSize_def
      alloc_reset_def sz_add_def)

end
