(* ===== verification/Arena_Planner.thy ===== *)
theory Arena_Planner
  imports Graph_Info Memory_Arena
begin

text \<open>
  \<^verbatim>\<open>tensorflow/lite/arena_planner.{h,cc}\<close>: when each tensor must exist, and where.

  The record \<open>planner\<close> holds the fields of \<^verbatim>\<open>ArenaPlanner\<close>; the graph it looks at is an
  argument, and is returned by the operations that write \<^verbatim>\<open>tensor.data.raw\<close>. An index outside
  a vector is undefined behaviour (\<^term>\<open>None\<close>). The heap is a parameter: a \<open>heap\<close> maps the
  size passed to \<^verbatim>\<open>new char[]\<close> to the block it returns, one for each arena.
\<close>

section \<open>State\<close>

definition kNodeNotAssigned :: int where
  "kNodeNotAssigned = 2 ^ 31 - 1"

abbreviation kDefaultArenaAlignment :: nat where
  "kDefaultArenaAlignment \<equiv> 64"

record planner =
  allocs :: "alloc list"
  alloc_node :: "int list"
  dealloc_node :: "int list"
  rw_arena :: arena
  persistent_arena :: arena
  preserve_inputs :: bool
  preserve_intermediates :: bool
  tensor_alignment :: nat

definition ArenaPlanner :: "bool \<Rightarrow> bool \<Rightarrow> nat \<Rightarrow> planner" where
  "ArenaPlanner p_inputs p_intermediates alignment =
     \<lparr>allocs = [], alloc_node = [], dealloc_node = [],
      rw_arena = SimpleMemoryArena kDefaultArenaAlignment,
      persistent_arena = SimpleMemoryArena kDefaultArenaAlignment,
      preserve_inputs = p_inputs, preserve_intermediates = p_intermediates,
      tensor_alignment = alignment\<rparr>"

definition BasePointer :: "planner \<Rightarrow> allocation_type \<Rightarrow> nat" where
  "BasePointer p type =
     (if type = kTfLiteArenaRwPersistent then ArenaBasePointer (persistent_arena p)
      else if type = kTfLiteArenaRw then ArenaBasePointer (rw_arena p)
      else 0)"

type_synonym heap = "nat \<Rightarrow> buffer"
type_synonym graph_planner = "graph_info \<times> planner"

section \<open>Lifetimes\<close>

definition ResetAllocations :: "graph_info \<Rightarrow> planner \<Rightarrow> tflite_status \<times> planner" where
  "ResetAllocations g p =
     (let (st, a) = ClearPlan (rw_arena p); p = p\<lparr>rw_arena := a\<rparr>
      in if st \<noteq> kTfLiteOk then (st, p)
         else
           let (st, a) = ClearPlan (persistent_arena p); p = p\<lparr>persistent_arena := a\<rparr>
           in if st \<noteq> kTfLiteOk then (st, p)
              else (kTfLiteOk, p\<lparr>allocs := vec_resize [] (num_tensors g) alloc_reset\<rparr>))"

text \<open>The body of the loop of \<^verbatim>\<open>ResetAllocationsAfter\<close>, for one tensor.\<close>

definition reset_allocation_after ::
  "int \<Rightarrow> nat \<Rightarrow> graph_planner \<Rightarrow> graph_planner result" where
  "reset_allocation_after node i = (\<lambda>(g, p).
     let a = allocs p ! i
     in if alloc_first_node a > node \<and> alloc_size a > 0 then
          (case vec_at (gi_tensors g) (int i) of
             None \<Rightarrow> None
           | Some t \<Rightarrow>
               if allocation_type t = kTfLiteArenaRw then
                 let (st, ar) = Deallocate a (rw_arena p); p = p\<lparr>rw_arena := ar\<rparr>
                 in if st \<noteq> kTfLiteOk then Some (st, (g, p))
                    else ok (g\<lparr>gi_tensors := (gi_tensors g)[i := t\<lparr>data_raw := 0\<rparr>]\<rparr>,
                             p\<lparr>allocs := (allocs p)[i := alloc_reset]\<rparr>)
               else ok (g, p))
        else ok (g, p))"

definition ResetAllocationsAfter :: "int \<Rightarrow> graph_planner \<Rightarrow> graph_planner result" where
  "ResetAllocationsAfter node = (\<lambda>(g, p).
     for_each (reset_allocation_after node) [0..<length (allocs p)] (g, p))"

text \<open>\<open>refcounts[tensor_index] += d\<close>.\<close>

definition add_refcount :: "int \<Rightarrow> int \<Rightarrow> int list \<times> planner \<Rightarrow> (int list \<times> planner) result" where
  "add_refcount d t = (\<lambda>(rc, p).
     case vec_at rc t of None \<Rightarrow> None | Some c \<Rightarrow> ok (rc[nat t := c + d], p))"

definition allocate :: "int \<Rightarrow> int \<Rightarrow> int list \<times> planner \<Rightarrow> (int list \<times> planner) result" where
  "allocate node t = (\<lambda>(rc, p).
     case vec_at (alloc_node p) t of
       None \<Rightarrow> None
     | Some a \<Rightarrow>
         if a \<noteq> kNodeNotAssigned then ok (rc, p)
         else (case vec_at (dealloc_node p) t of
                 None \<Rightarrow> None
               | Some d \<Rightarrow>
                   if d \<noteq> kNodeNotAssigned then Some (kTfLiteError, (rc, p))
                   else ok (rc, p\<lparr>alloc_node := (alloc_node p)[nat t := node]\<rparr>)))"

definition deallocate :: "int \<Rightarrow> int \<Rightarrow> int list \<times> planner \<Rightarrow> (int list \<times> planner) result" where
  "deallocate node t = (\<lambda>(rc, p).
     case vec_at (alloc_node p) t of
       None \<Rightarrow> None
     | Some a \<Rightarrow>
         if a = kNodeNotAssigned then ok (rc, p)
         else (case vec_at (dealloc_node p) t of
                 None \<Rightarrow> None
               | Some d \<Rightarrow>
                   if d \<noteq> kNodeNotAssigned then Some (kTfLiteError, (rc, p))
                   else ok (rc, p\<lparr>dealloc_node := (dealloc_node p)[nat t := node]\<rparr>)))"

definition plan_graph_input :: "int \<Rightarrow> int list \<times> planner \<Rightarrow> (int list \<times> planner) result" where
  "plan_graph_input t = (\<lambda>(rc, p).
     if t \<noteq> kTfLiteOptionalTensor then
       ensure_status (if preserve_inputs p then add_refcount 1 t (rc, p) else ok (rc, p))
         (allocate 0 t)
     else ok (rc, p))"

definition allocate_if_present :: "int \<Rightarrow> int list \<times> planner \<Rightarrow> (int list \<times> planner) result" where
  "allocate_if_present t s =
     (if t \<noteq> kTfLiteOptionalTensor then allocate 0 t s else ok s)"

definition count_input :: "int \<Rightarrow> int list \<times> planner \<Rightarrow> (int list \<times> planner) result" where
  "count_input t s = (if t \<noteq> kTfLiteOptionalTensor then add_refcount 1 t s else ok s)"

definition release_input :: "int \<Rightarrow> int \<Rightarrow> int list \<times> planner \<Rightarrow> (int list \<times> planner) result" where
  "release_input i t s =
     (if t \<noteq> kTfLiteOptionalTensor then
        ensure_status (add_refcount (-1) t s)
          (\<lambda>(rc, p). case vec_at rc t of
                       None \<Rightarrow> None
                     | Some c \<Rightarrow> if c = 0 then deallocate i t (rc, p) else ok (rc, p))
      else ok s)"

definition plan_node :: "nat \<times> node \<Rightarrow> int list \<times> planner \<Rightarrow> (int list \<times> planner) result" where
  "plan_node = (\<lambda>(i, nd) s.
     ensure_status (for_each (allocate (int i)) (outputs nd) s)
       (\<lambda>(rc, p). if \<not> preserve_intermediates p
                  then for_each (release_input (int i)) (inputs nd) (rc, p)
                  else ok (rc, p)))"

definition PlanAllocations :: "graph_info \<Rightarrow> planner \<Rightarrow> planner result" where
  "PlanAllocations g p0 =
     (let (st, p1) = ResetAllocations g p0;
          n = num_tensors g;
          p2 = p1\<lparr>alloc_node := replicate n kNodeNotAssigned,
                  dealloc_node := replicate n kNodeNotAssigned\<rparr>;
          s = ensure_status (for_each (add_refcount 1) (gi_outputs g) (replicate n 0, p2))
              (\<lambda>s. ensure_status (for_each (add_refcount 1) (gi_variables g) s)
              (\<lambda>s. ensure_status (for_each plan_graph_input (gi_inputs g) s)
              (\<lambda>s. ensure_status (for_each allocate_if_present (gi_variables g) s)
              (\<lambda>s. ensure_status (for_each (\<lambda>nd. for_each count_input (inputs nd)) (gi_nodes g) s)
              (\<lambda>s. ensure_status (for_each allocate_if_present (gi_inputs g) s)
              (\<lambda>s. for_each plan_node (enumerate 0 (gi_nodes g)) s))))))
      in if st \<noteq> kTfLiteOk then Some (st, p1) else map_option (map_prod id snd) s)"

section \<open>Placement\<close>

definition whole_run :: "planner \<Rightarrow> int \<Rightarrow> bool" where
  "whole_run p i \<longleftrightarrow> alloc_node p ! nat i = 0 \<and> dealloc_node p ! nat i = kNodeNotAssigned"

definition tensor_compare :: "graph_info \<Rightarrow> planner \<Rightarrow> int \<Rightarrow> int \<Rightarrow> bool" where
  "tensor_compare g p idx1 idx2 =
     (if whole_run p idx1 then (if whole_run p idx2 then idx1 < idx2 else True)
      else if whole_run p idx2 then False
      else
        let size1 = bytes (gi_tensors g ! nat idx1); size2 = bytes (gi_tensors g ! nat idx2)
        in if size1 \<noteq> size2 then size1 > size2
           else alloc_node p ! nat idx1 < alloc_node p ! nat idx2)"

definition CreateTensorAllocationVector ::
  "graph_info \<Rightarrow> int \<Rightarrow> int \<Rightarrow> planner \<Rightarrow> int list" where
  "CreateTensorAllocationVector g first_node last_node p =
     std_sort (tensor_compare g p)
       (filter (\<lambda>i. alloc_node p ! nat i \<ge> first_node \<and> alloc_node p ! nat i \<le> last_node)
          (map int [0..<num_tensors g]))"

definition deallocate_tensor :: "graph_info \<Rightarrow> int \<Rightarrow> planner \<Rightarrow> planner result" where
  "deallocate_tensor g t p =
     (case (vec_at (gi_tensors g) t, vec_at (allocs p) t) of
        (Some tensor, Some a) \<Rightarrow>
          if allocation_type tensor = kTfLiteArenaRw \<and> alloc_size a \<noteq> 0 then
            let (st, ar) = Deallocate a (rw_arena p) in Some (st, p\<lparr>rw_arena := ar\<rparr>)
          else ok p
      | _ \<Rightarrow> None)"

definition allocate_tensor :: "graph_info \<Rightarrow> int \<Rightarrow> planner \<Rightarrow> planner result" where
  "allocate_tensor g t p =
     (case (vec_at (gi_tensors g) t, vec_at (allocs p) t,
            vec_at (alloc_node p) t, vec_at (dealloc_node p) t) of
        (Some tensor, Some a, Some fn, Some ln) \<Rightarrow>
          if allocation_type tensor = kTfLiteArenaRw then
            let (st, n, ar) = Allocate (tensor_alignment p) (bytes tensor) t fn ln a (rw_arena p)
            in Some (st, p\<lparr>rw_arena := ar, allocs := (allocs p)[nat t := n]\<rparr>)
          else if allocation_type tensor = kTfLiteArenaRwPersistent then
            let (st, n, ar) = Allocate (tensor_alignment p) (bytes tensor) t fn (2 ^ 31 - 1) a
                                (persistent_arena p)
            in Some (st, p\<lparr>persistent_arena := ar, allocs := (allocs p)[nat t := n]\<rparr>)
          else ok p
      | _ \<Rightarrow> None)"

definition CalculateAllocations :: "graph_info \<Rightarrow> int \<Rightarrow> int \<Rightarrow> planner \<Rightarrow> planner result" where
  "CalculateAllocations g first_node last_node p =
     (let tensor_order = CreateTensorAllocationVector g first_node last_node p
      in ensure_status (for_each (deallocate_tensor g) tensor_order p)
           (for_each (allocate_tensor g) tensor_order))"

definition PlannerCommit :: "heap \<times> heap \<Rightarrow> planner \<Rightarrow> tflite_status \<times> planner" where
  "PlannerCommit new_char p =
     (let (st, a) = Commit (fst new_char (RequiredBufferSize (rw_arena p))) (rw_arena p); p = p\<lparr>rw_arena := a\<rparr>
      in if st \<noteq> kTfLiteOk then (st, p)
         else
           let (st, a) = Commit (snd new_char (RequiredBufferSize (persistent_arena p)))
                           (persistent_arena p); p = p\<lparr>persistent_arena := a\<rparr>
           in (st, p))"

definition ResolveTensorAllocation :: "int \<Rightarrow> graph_planner \<Rightarrow> graph_planner result" where
  "ResolveTensorAllocation i = (\<lambda>(g, p).
     case (vec_at (gi_tensors g) i, vec_at (allocs p) i) of
       (Some tensor, Some a) \<Rightarrow>
         let write = (\<lambda>out. g\<lparr>gi_tensors := (gi_tensors g)[nat i := tensor\<lparr>data_raw := the out\<rparr>]\<rparr>)
         in if allocation_type tensor = kTfLiteArenaRw then
              (if alloc_size a \<noteq> 0 then
                 let (st, out) = ResolveAlloc (rw_arena p) a (Some (data_raw tensor))
                 in Some (st, (write out, p))
               else ok (g, p))
            else if allocation_type tensor = kTfLiteArenaRwPersistent then
              let (st, out) = ResolveAlloc (persistent_arena p) a (Some (data_raw tensor))
              in Some (st, (write out, p))
            else ok (g, p)
     | _ \<Rightarrow> None)"

definition assign_temporary :: "int \<Rightarrow> int \<Rightarrow> planner \<Rightarrow> planner result" where
  "assign_temporary i t p =
     (case (vec_set (alloc_node p) t i, vec_set (dealloc_node p) t i) of
        (Some an, Some dn) \<Rightarrow> ok (p\<lparr>alloc_node := an, dealloc_node := dn\<rparr>)
      | _ \<Rightarrow> None)"

text \<open>
  The loop over \<^verbatim>\<open>size_t i = first_node; i <= static_cast<size_t>(last_node) && \<dots>\<close>; the casts
  of negative numbers wrap.
\<close>

definition execution_range :: "graph_info \<Rightarrow> int \<Rightarrow> int \<Rightarrow> nat list" where
  "execution_range g first_node last_node =
     filter (\<lambda>i. first_node mod 2 ^ 64 \<le> int i \<and> int i \<le> last_node mod 2 ^ 64)
       [0..<num_execution_nodes g]"

definition ExecuteAllocations ::
  "heap \<times> heap \<Rightarrow> int \<Rightarrow> int \<Rightarrow> graph_planner \<Rightarrow> graph_planner result" where
  "ExecuteAllocations new_char first_node last_node = (\<lambda>(g, p).
     if \<not> num_tensors g \<ge> length (allocs p) then Some (kTfLiteError, (g, p))
     else
       let n = num_tensors g;
           p = p\<lparr>alloc_node := vec_resize (alloc_node p) n kNodeNotAssigned,
                 dealloc_node := vec_resize (dealloc_node p) n kNodeNotAssigned,
                 allocs := vec_resize (allocs p) n alloc_reset\<rparr>;
           r = ensure_status
                 (for_each (\<lambda>i. for_each (assign_temporary (int i)) (temporaries (gi_nodes g ! i)))
                    (execution_range g first_node last_node) p)
                 (\<lambda>p. ensure_status (CalculateAllocations g first_node last_node p)
                 (\<lambda>p. Some (PlannerCommit new_char p)))
       in ensure_status (map_option (map_prod id (\<lambda>p. (g, p))) r)
            (for_each ResolveTensorAllocation (map int [0..<n])))"

definition release_tensor :: "tensor \<Rightarrow> tensor" where
  "release_tensor t = (if allocation_type t = kTfLiteArenaRw then t\<lparr>data_raw := 0\<rparr> else t)"

definition ReleaseNonPersistentMemory :: "graph_planner \<Rightarrow> graph_planner result" where
  "ReleaseNonPersistentMemory = (\<lambda>(g, p).
     let (st, a) = ReleaseBuffer (rw_arena p); p = p\<lparr>rw_arena := a\<rparr>
     in if st \<noteq> kTfLiteOk then Some (st, (g, p))
        else ok (g\<lparr>gi_tensors := map release_tensor (gi_tensors g)\<rparr>, p))"

definition resolve_rw_tensor :: "int \<Rightarrow> graph_planner \<Rightarrow> graph_planner result" where
  "resolve_rw_tensor i = (\<lambda>(g, p).
     case vec_at (gi_tensors g) i of
       None \<Rightarrow> None
     | Some t \<Rightarrow>
         if allocation_type t = kTfLiteArenaRw then ResolveTensorAllocation i (g, p)
         else ok (g, p))"

definition AcquireNonPersistentMemory :: "heap \<Rightarrow> graph_planner \<Rightarrow> graph_planner result" where
  "AcquireNonPersistentMemory new_char = (\<lambda>(g, p).
     let (st, a) = Commit (new_char (RequiredBufferSize (rw_arena p))) (rw_arena p); p = p\<lparr>rw_arena := a\<rparr>
     in if st \<noteq> kTfLiteOk then Some (st, (g, p))
        else for_each resolve_rw_tensor (map int [0..<num_tensors g]) (g, p))"

definition HasNonPersistentMemory :: "planner \<Rightarrow> bool" where
  "HasNonPersistentMemory p \<longleftrightarrow> GetBufferSize (rw_arena p) \<noteq> 0"


section \<open>The comparison function\<close>

text \<open>\<^verbatim>\<open>std::sort\<close> may be called: \<open>tensor_compare\<close> is a strict weak ordering.\<close>

interpretation tensor_order: strict_weak_order "tensor_compare g p" UNIV for g p
proof unfold_locales
  fix x y z :: int
  show "\<not> tensor_compare g p x x"
    by (auto simp: tensor_compare_def Let_def)
  show "tensor_compare g p x z" if "tensor_compare g p x y" "tensor_compare g p y z"
    using that by (auto simp: tensor_compare_def Let_def split: if_splits)
  show "\<not> tensor_compare g p x z" if "\<not> tensor_compare g p x y" "\<not> tensor_compare g p y z"
    using that by (auto simp: tensor_compare_def Let_def split: if_splits)
qed

lemma set_CreateTensorAllocationVector:
  "set (CreateTensorAllocationVector g fn ln p) =
     {i. 0 \<le> i \<and> nat i < num_tensors g \<and> fn \<le> alloc_node p ! nat i \<and> alloc_node p ! nat i \<le> ln}"
proof -
  have "set (map int [0..<num_tensors g]) = {i. 0 \<le> i \<and> nat i < num_tensors g}"
    by (auto simp: image_iff Bex_def) (metis int_nat_eq nat_int)
  then show ?thesis by (auto simp: CreateTensorAllocationVector_def)
qed

lemma distinct_CreateTensorAllocationVector:
  "distinct (CreateTensorAllocationVector g fn ln p)"
  by (simp add: CreateTensorAllocationVector_def distinct_map inj_on_def)

section \<open>Lifetimes: the plan is what the graph says\<close>

text \<open>
  The specification. \<open>first_producer\<close> is the first node, among the first \<open>k\<close>, that outputs a
  tensor; \<open>last_consumer\<close> the last one that reads it; \<open>pins\<close> counts the references that
  never go away (graph outputs, variables, and inputs to preserve).
\<close>

definition first_producer :: "graph_info \<Rightarrow> nat \<Rightarrow> nat \<Rightarrow> nat option" where
  "first_producer g k x =
     (case filter (\<lambda>i. int x \<in> set (outputs (gi_nodes g ! i))) [0..<k] of
        [] \<Rightarrow> None | i # _ \<Rightarrow> Some i)"

definition last_consumer :: "graph_info \<Rightarrow> nat \<Rightarrow> nat \<Rightarrow> nat option" where
  "last_consumer g k x =
     (case filter (\<lambda>i. int x \<in> set (inputs (gi_nodes g ! i))) (rev [0..<k]) of
        [] \<Rightarrow> None | i # _ \<Rightarrow> Some i)"

definition alloc_spec :: "graph_info \<Rightarrow> nat \<Rightarrow> nat \<Rightarrow> int" where
  "alloc_spec g k x =
     (if int x \<in> set (gi_inputs g) \<union> set (gi_variables g) then 0
      else case first_producer g k x of None \<Rightarrow> kNodeNotAssigned | Some i \<Rightarrow> int i)"

definition pins :: "graph_info \<Rightarrow> bool \<Rightarrow> nat \<Rightarrow> int" where
  "pins g keep x = int (count_list (gi_outputs g) (int x)) + int (count_list (gi_variables g) (int x))
     + (if keep then int (count_list (gi_inputs g) (int x)) else 0)"

definition uses_from :: "graph_info \<Rightarrow> nat \<Rightarrow> nat \<Rightarrow> int" where
  "uses_from g k x =
     sum_list (map (\<lambda>nd. int (count_list (inputs nd) (int x))) (drop k (gi_nodes g)))"

definition dealloc_spec :: "graph_info \<Rightarrow> planner \<Rightarrow> nat \<Rightarrow> nat \<Rightarrow> int" where
  "dealloc_spec g p k x =
     (if preserve_intermediates p \<or> pins g (preserve_inputs p) x + uses_from g k x \<noteq> 0
      then kNodeNotAssigned
      else case last_consumer g k x of
             None \<Rightarrow> kNodeNotAssigned
           | Some i \<Rightarrow> if alloc_spec g (Suc i) x = kNodeNotAssigned then kNodeNotAssigned else int i)"

lemma uses_from_nonneg: "0 \<le> uses_from g k x"
  by (auto simp: uses_from_def intro!: sum_list_nonneg)

lemma pins_nonneg: "0 \<le> pins g b x"
  by (simp add: pins_def)

lemma uses_from_Suc:
  "k < num_execution_nodes g \<Longrightarrow>
   uses_from g k x = int (count_list (inputs (gi_nodes g ! k)) (int x)) + uses_from g (Suc k) x"
  by (simp add: uses_from_def num_execution_nodes_def Cons_nth_drop_Suc [symmetric])

lemma last_consumer_Suc:
  "last_consumer g (Suc k) x =
     (if int x \<in> set (inputs (gi_nodes g ! k)) then Some k else last_consumer g k x)"
  by (simp add: last_consumer_def)

lemma first_producer_Suc:
  "first_producer g (Suc k) x =
     (case first_producer g k x of
        Some i \<Rightarrow> Some i
      | None \<Rightarrow> if int x \<in> set (outputs (gi_nodes g ! k)) then Some k else None)"
  by (auto simp: first_producer_def split: list.splits)

lemma first_producer_lt: "first_producer g k x = Some i \<Longrightarrow> i < k \<and> int x \<in> set (outputs (gi_nodes g ! i))"
  by (induction k) (auto simp: first_producer_Suc first_producer_def [of g 0] split: option.splits if_splits)

lemma last_consumer_lt: "last_consumer g k x = Some i \<Longrightarrow> i < k \<and> int x \<in> set (inputs (gi_nodes g ! i))"
  by (induction k) (auto simp: last_consumer_Suc last_consumer_def [of g 0] split: option.splits if_splits)

lemma first_producer_stable:
  "first_producer g j x = Some i \<Longrightarrow> j \<le> k \<Longrightarrow> first_producer g k x = Some i"
  by (induction k) (auto simp: first_producer_Suc le_Suc_eq split: option.splits if_splits)

lemma alloc_spec_Suc:
  assumes "int k < kNodeNotAssigned"
  shows "alloc_spec g (Suc k) x =
     (if alloc_spec g k x = kNodeNotAssigned \<and> int x \<in> set (outputs (gi_nodes g ! k))
      then int k else alloc_spec g k x)"
  using assms first_producer_lt [of g k x]
  by (auto simp: alloc_spec_def first_producer_Suc kNodeNotAssigned_def split: option.splits)

lemma alloc_spec_stable:
  assumes "alloc_spec g j x \<noteq> kNodeNotAssigned" "j \<le> k"
  shows "alloc_spec g k x = alloc_spec g j x"
proof (cases "first_producer g j x")
  case None
  then show ?thesis using assms(1) by (auto simp: alloc_spec_def)
next
  case (Some i)
  then show ?thesis using first_producer_stable [OF Some assms(2)] by (simp add: alloc_spec_def)
qed

subsection \<open>The effect of the loops of \<^verbatim>\<open>PlanAllocations\<close>\<close>

text \<open>The state of the loops, with the three vectors given by functions of the tensor index.\<close>

definition plan_state ::
  "nat \<Rightarrow> (nat \<Rightarrow> int) \<Rightarrow> (nat \<Rightarrow> int) \<Rightarrow> (nat \<Rightarrow> int) \<Rightarrow> planner \<Rightarrow> int list \<times> planner" where
  "plan_state n r a d p = (tab n r, p\<lparr>alloc_node := tab n a, dealloc_node := tab n d\<rparr>)"

lemma plan_state_cong:
  assumes "\<And>x. x < n \<Longrightarrow> r x = r' x" "\<And>x. x < n \<Longrightarrow> a x = a' x" "\<And>x. x < n \<Longrightarrow> d x = d' x"
  shows "plan_state n r a d p = plan_state n r' a' d' p"
  using tab_cong [OF assms(1)] tab_cong [OF assms(2)] tab_cong [OF assms(3)]
  by (simp add: plan_state_def)

lemma plan_state_flags [simp]:
  "preserve_inputs (snd (plan_state n r a d p)) = preserve_inputs p"
  "preserve_intermediates (snd (plan_state n r a d p)) = preserve_intermediates p"
  by (simp_all add: plan_state_def)

lemma add_refcount_eq:
  "0 \<le> t \<Longrightarrow> nat t < n \<Longrightarrow>
   add_refcount c t (plan_state n r a d p) = ok (plan_state n (r(nat t := r (nat t) + c)) a d p)"
  by (simp add: add_refcount_def plan_state_def vec)

lemma allocate_eq:
  "0 \<le> t \<Longrightarrow> nat t < n \<Longrightarrow> a (nat t) = kNodeNotAssigned \<longrightarrow> d (nat t) = kNodeNotAssigned \<Longrightarrow>
   allocate i t (plan_state n r a d p) =
     ok (plan_state n r (a(nat t := if a (nat t) = kNodeNotAssigned then i else a (nat t))) d p)"
  by (cases p) (simp add: allocate_def plan_state_def vec fun_upd_idem)

lemma deallocate_eq:
  "0 \<le> t \<Longrightarrow> nat t < n \<Longrightarrow> d (nat t) = kNodeNotAssigned \<Longrightarrow>
   deallocate i t (plan_state n r a d p) =
     ok (plan_state n r a (d(nat t := if a (nat t) = kNodeNotAssigned then d (nat t) else i)) p)"
  by (cases p) (simp add: deallocate_def plan_state_def vec fun_upd_idem)

lemma count_list_present [simp]: "count_list (present ts) (int x) = count_list ts (int x)"
  by (induction ts) auto

lemma present_mem [simp]: "int x \<in> set (present ts) \<longleftrightarrow> int x \<in> set ts"
  by auto

lemma refcount_loop:
  "in_range n ts \<Longrightarrow>
   for_each (add_refcount 1) ts (plan_state n r a d p) =
     ok (plan_state n (\<lambda>x. r x + int (count_list ts (int x))) a d p)"
proof (induction ts arbitrary: r)
  case Nil
  then show ?case by simp
next
  case (Cons t ts)
  then show ?case
    by (simp add: add_refcount_eq) (rule plan_state_cong, auto)
qed

lemma allocate_loop:
  "in_range n ts \<Longrightarrow> \<forall>x. a x = kNodeNotAssigned \<longrightarrow> d x = kNodeNotAssigned \<Longrightarrow>
   for_each (allocate i) ts (plan_state n r a d p) =
     ok (plan_state n r (\<lambda>x. if a x = kNodeNotAssigned \<and> int x \<in> set ts then i else a x) d p)"
proof (induction ts arbitrary: a)
  case Nil
  then show ?case by simp
next
  case (Cons t ts)
  let ?a = "a(nat t := if a (nat t) = kNodeNotAssigned then i else a (nat t))"
  have "\<forall>x. ?a x = kNodeNotAssigned \<longrightarrow> d x = kNodeNotAssigned" using Cons.prems(2) by simp
  then have "for_each (allocate i) (t # ts) (plan_state n r a d p) =
    ok (plan_state n r (\<lambda>x. if ?a x = kNodeNotAssigned \<and> int x \<in> set ts then i else ?a x) d p)"
    using Cons by (simp add: allocate_eq del: fun_upd_apply)
  also have "\<dots> = ok (plan_state n r
      (\<lambda>x. if a x = kNodeNotAssigned \<and> int x \<in> set (t # ts) then i else a x) d p)"
    using Cons.prems(1) by (auto intro!: plan_state_cong)
  finally show ?case .
qed

lemma count_input_loop:
  assumes "in_range_opt n ts"
  shows "for_each count_input ts (plan_state n r a d p) =
     ok (plan_state n (\<lambda>x. r x + int (count_list ts (int x))) a d p)"
  unfolding count_input_def for_each_filter
  using refcount_loop [OF in_range_present [OF assms]] by simp

lemma allocate_if_present_loop:
  assumes "in_range_opt n ts" "\<forall>x. a x = kNodeNotAssigned \<longrightarrow> d x = kNodeNotAssigned"
  shows "for_each allocate_if_present ts (plan_state n r a d p) =
     ok (plan_state n r (\<lambda>x. if a x = kNodeNotAssigned \<and> int x \<in> set ts then 0 else a x) d p)"
  unfolding allocate_if_present_def for_each_filter
  using allocate_loop [OF in_range_present [OF assms(1)] assms(2)] by simp

definition plan_present_input :: "int \<Rightarrow> int list \<times> planner \<Rightarrow> (int list \<times> planner) result" where
  "plan_present_input t = (\<lambda>(rc, p).
     ensure_status (if preserve_inputs p then add_refcount 1 t (rc, p) else ok (rc, p))
       (allocate 0 t))"

lemma plan_input_loop:
  assumes "in_range_opt n ts" "\<forall>x. a x = kNodeNotAssigned \<longrightarrow> d x = kNodeNotAssigned"
  shows "for_each plan_graph_input ts (plan_state n r a d p) =
     ok (plan_state n (\<lambda>x. r x + (if preserve_inputs p then int (count_list ts (int x)) else 0))
       (\<lambda>x. if a x = kNodeNotAssigned \<and> int x \<in> set ts then 0 else a x) d p)"
proof -
  have eq: "plan_graph_input = (\<lambda>t s. if t \<noteq> kTfLiteOptionalTensor then plan_present_input t s else ok s)"
    by (auto simp: fun_eq_iff plan_graph_input_def plan_present_input_def)
  have "for_each plan_graph_input ts (plan_state n r a d p)
      = for_each plan_present_input (present ts) (plan_state n r a d p)"
    by (subst eq) (rule for_each_filter)
  moreover have "for_each plan_present_input us (plan_state n r a d p) =
     ok (plan_state n (\<lambda>x. r x + (if preserve_inputs p then int (count_list us (int x)) else 0))
       (\<lambda>x. if a x = kNodeNotAssigned \<and> int x \<in> set us then 0 else a x) d p)"
    if "in_range n us" for us
    using that assms(2)
  proof (induction us arbitrary: r a)
    case Nil
    then show ?case by (simp cong: if_cong)
  next
    case (Cons t us)
    let ?r = "r(nat t := r (nat t) + (if preserve_inputs p then 1 else 0))"
    let ?a = "a(nat t := if a (nat t) = kNodeNotAssigned then 0 else a (nat t))"
    have 1: "plan_present_input t (plan_state n r a d p) = ok (plan_state n ?r ?a d p)"
      using Cons.prems add_refcount_eq [of t n 1 r a d p] allocate_eq [of t n a d 0]
      by (simp add: plan_present_input_def plan_state_def fun_upd_idem split_def)
    have 2: "\<forall>x. ?a x = kNodeNotAssigned \<longrightarrow> d x = kNodeNotAssigned" "in_range n us"
      using Cons.prems by simp_all
    have "for_each plan_present_input (t # us) (plan_state n r a d p) =
       ok (plan_state n (\<lambda>x. ?r x + (if preserve_inputs p then int (count_list us (int x)) else 0))
         (\<lambda>x. if ?a x = kNodeNotAssigned \<and> int x \<in> set us then 0 else ?a x) d p)"
      unfolding for_each.simps 1 ensure_status_Some using Cons.IH [OF 2(2,1), of ?r]
      by (simp only: if_True simp_thms)
    also have "\<dots> = ok (plan_state n
         (\<lambda>x. r x + (if preserve_inputs p then int (count_list (t # us) (int x)) else 0))
         (\<lambda>x. if a x = kNodeNotAssigned \<and> int x \<in> set (t # us) then 0 else a x) d p)"
      using Cons.prems(1) by (auto intro!: plan_state_cong)
    finally show ?case .
  qed
  ultimately show ?thesis
    using in_range_present [OF assms(1)] by (simp cong: if_cong)
qed

text \<open>Reading the inputs of node \<open>i\<close>: a tensor is released when its last reference goes.\<close>

definition release_present :: "int \<Rightarrow> int \<Rightarrow> int list \<times> planner \<Rightarrow> (int list \<times> planner) result" where
  "release_present i t s =
     ensure_status (add_refcount (-1) t s)
       (\<lambda>(rc, p). case vec_at rc t of
                    None \<Rightarrow> None
                  | Some c \<Rightarrow> if c = 0 then deallocate i t (rc, p) else ok (rc, p))"

lemma release_present_eq:
  assumes "0 \<le> t" "nat t < n" "r (nat t) = 1 \<longrightarrow> d (nat t) = kNodeNotAssigned"
  shows "release_present i t (plan_state n r a d p) =
    ok (plan_state n (r(nat t := r (nat t) - 1)) a
      (d(nat t := if r (nat t) = 1 \<and> a (nat t) \<noteq> kNodeNotAssigned then i else d (nat t))) p)"
proof -
  let ?r = "r(nat t := r (nat t) + - 1)"
  have 1: "add_refcount (-1) t (plan_state n r a d p) = ok (plan_state n ?r a d p)"
    by (rule add_refcount_eq [OF assms(1,2)])
  have 2: "vec_at (tab n ?r) t = Some (r (nat t) - 1)"
    using assms by (simp add: vec)
  show ?thesis
  proof (cases "r (nat t) = 1")
    case True
    then have "deallocate i t (plan_state n ?r a d p) =
      ok (plan_state n ?r a (d(nat t := if a (nat t) = kNodeNotAssigned then d (nat t) else i)) p)"
      using assms by (intro deallocate_eq) auto
    with 1 2 True show ?thesis
      by (simp add: release_present_def) (simp add: plan_state_def)
  next
    case False
    with 1 2 show ?thesis
      by (simp add: release_present_def) (simp add: plan_state_def fun_upd_idem)
  qed
qed

lemma release_loop_present:
  assumes "in_range n ts"
    and "\<forall>x. int (count_list ts (int x)) \<le> r x"
    and "\<forall>x. int x \<in> set ts \<longrightarrow> d x = kNodeNotAssigned"
  shows "for_each (release_present i) ts (plan_state n r a d p) =
     ok (plan_state n (\<lambda>x. r x - int (count_list ts (int x))) a
       (\<lambda>x. if int x \<in> set ts \<and> r x = int (count_list ts (int x)) \<and> a x \<noteq> kNodeNotAssigned
            then i else d x) p)"
  using assms
proof (induction ts arbitrary: r d)
  case Nil
  then show ?case by simp
next
  case (Cons t ts)
  let ?r = "r(nat t := r (nat t) - 1)"
  let ?d = "d(nat t := if r (nat t) = 1 \<and> a (nat t) \<noteq> kNodeNotAssigned then i else d (nat t))"
  have t: "0 \<le> t" "nat t < n" "in_range n ts" using Cons.prems(1) by auto
  have 1: "release_present i t (plan_state n r a d p) = ok (plan_state n ?r a ?d p)"
    using Cons.prems t by (intro release_present_eq) auto
  have le: "int (count_list (t # ts) (int x)) \<le> r x" for x using Cons.prems(2) by blast
  have 2: "\<forall>x. int (count_list ts (int x)) \<le> ?r x"
  proof
    fix x show "int (count_list ts (int x)) \<le> ?r x"
      using le [of x] t(1) by (auto split: if_splits)
  qed
  have 3: "\<forall>x. int x \<in> set ts \<longrightarrow> ?d x = kNodeNotAssigned"
  proof (intro allI impI)
    fix x assume x: "int x \<in> set ts"
    then have "0 < count_list ts (int x)" by (simp add: count_list_0_iff zero_less_iff_neq_zero)
    with le [of x] have "int x = t \<longrightarrow> r x \<noteq> 1" by (auto split: if_splits)
    with x Cons.prems(3) show "?d x = kNodeNotAssigned" using t(1) by auto
  qed
  have no: "r (nat t) \<noteq> 1" if "t \<in> set ts"
  proof -
    from that have "0 < count_list ts t" by (simp add: count_list_0_iff zero_less_iff_neq_zero)
    with le [of "nat t"] t(1) show ?thesis by auto
  qed
  have "for_each (release_present i) (t # ts) (plan_state n r a d p) =
     ok (plan_state n (\<lambda>x. ?r x - int (count_list ts (int x))) a
       (\<lambda>x. if int x \<in> set ts \<and> ?r x = int (count_list ts (int x)) \<and> a x \<noteq> kNodeNotAssigned
            then i else ?d x) p)"
    unfolding for_each.simps 1 ensure_status_Some using Cons.IH [OF t(3) 2 3]
    by (simp only: if_True simp_thms)
  also have "\<dots> = ok (plan_state n (\<lambda>x. r x - int (count_list (t # ts) (int x))) a
       (\<lambda>x. if int x \<in> set (t # ts) \<and> r x = int (count_list (t # ts) (int x))
               \<and> a x \<noteq> kNodeNotAssigned then i else d x) p)"
    using t no count_list_0_iff [of ts] by (auto intro!: plan_state_cong split: if_splits)
  finally show ?case .
qed

lemma release_loop:
  assumes "in_range_opt n ts"
    and "\<forall>x. int (count_list ts (int x)) \<le> r x"
    and "\<forall>x. int x \<in> set ts \<longrightarrow> d x = kNodeNotAssigned"
  shows "for_each (release_input i) ts (plan_state n r a d p) =
     ok (plan_state n (\<lambda>x. r x - int (count_list ts (int x))) a
       (\<lambda>x. if int x \<in> set ts \<and> r x = int (count_list ts (int x)) \<and> a x \<noteq> kNodeNotAssigned
            then i else d x) p)"
proof -
  have eq: "release_input i = (\<lambda>t s. if t \<noteq> kTfLiteOptionalTensor then release_present i t s else ok s)"
    by (auto simp: fun_eq_iff release_input_def release_present_def)
  have "for_each (release_input i) ts (plan_state n r a d p)
      = for_each (release_present i) (present ts) (plan_state n r a d p)"
    by (subst eq) (rule for_each_filter)
  then show ?thesis
    using release_loop_present [OF in_range_present [OF assms(1)], of r d i a p] assms(2,3)
    by simp
qed

subsection \<open>The closed form of \<^verbatim>\<open>PlanAllocations\<close>\<close>

definition live_refs :: "graph_info \<Rightarrow> planner \<Rightarrow> nat \<Rightarrow> nat \<Rightarrow> int" where
  "live_refs g p k x =
     pins g (preserve_inputs p) x + uses_from g (if preserve_intermediates p then 0 else k) x"

lemma dealloc_spec_unallocated:
  assumes "alloc_spec g k x = kNodeNotAssigned"
  shows "dealloc_spec g p k x = kNodeNotAssigned"
proof (cases "last_consumer g k x")
  case None
  then show ?thesis by (simp add: dealloc_spec_def)
next
  case (Some i)
  then have "Suc i \<le> k" using last_consumer_lt [OF Some] by simp
  then have "alloc_spec g (Suc i) x = kNodeNotAssigned"
    using assms alloc_spec_stable [of g "Suc i" x k] by auto
  then show ?thesis using Some by (simp add: dealloc_spec_def)
qed

lemma plan_node_alt:
  "plan_node (i, nd) s =
     ensure_status (for_each (allocate (int i)) (outputs nd) s)
       (\<lambda>s. if \<not> preserve_intermediates (snd s)
            then for_each (release_input (int i)) (inputs nd) s else ok s)"
  unfolding plan_node_def prod.case split_def prod.collapse fst_conv snd_conv by (rule refl)

lemma plan_node_eq:
  assumes wf: "wf_graph g" and k: "k < num_execution_nodes g"
  defines "n \<equiv> num_tensors g"
  shows "plan_node (k, gi_nodes g ! k)
      (plan_state n (live_refs g p k) (alloc_spec g k) (dealloc_spec g p k) p) =
    ok (plan_state n (live_refs g p (Suc k)) (alloc_spec g (Suc k)) (dealloc_spec g p (Suc k)) p)"
proof -
  let ?ins = "inputs (gi_nodes g ! k)" and ?outs = "outputs (gi_nodes g ! k)"
  let ?st = "\<lambda>r d. plan_state n r (alloc_spec g (Suc k)) d p"
  have kNA: "int k < kNodeNotAssigned"
    using wf_graphD(7) [OF wf] k by (simp add: kNodeNotAssigned_def)
  have da: "dealloc_spec g p k x = kNodeNotAssigned" if "alloc_spec g k x = kNodeNotAssigned" for x
    using that by (rule dealloc_spec_unallocated)
  have "for_each (allocate (int k)) ?outs
      (plan_state n (live_refs g p k) (alloc_spec g k) (dealloc_spec g p k) p) =
    ok (?st (live_refs g p k) (dealloc_spec g p k))"
    using wf_in_range(4) [OF wf k] da kNA
    by (simp add: allocate_loop n_def) (rule plan_state_cong, auto simp: alloc_spec_Suc)
  moreover have "(if \<not> preserve_intermediates p
        then for_each (release_input (int k)) ?ins (?st (live_refs g p k) (dealloc_spec g p k))
        else ok (?st (live_refs g p k) (dealloc_spec g p k))) =
      ok (?st (live_refs g p (Suc k)) (dealloc_spec g p (Suc k)))"
  proof (cases "preserve_intermediates p")
    case True
    then show ?thesis
      by simp (rule plan_state_cong, auto simp: live_refs_def dealloc_spec_def)
  next
    case False
    let ?c = "\<lambda>x. int (count_list ?ins (int x))"
    have refs: "live_refs g p k x = pins g (preserve_inputs p) x + ?c x + uses_from g (Suc k) x" for x
      using False k by (simp add: live_refs_def uses_from_Suc)
    have nn: "0 \<le> pins g (preserve_inputs p) x" "0 \<le> uses_from g (Suc k) x" for x
      using pins_nonneg uses_from_nonneg by blast+
    have c0: "?c x = 0 \<longleftrightarrow> int x \<notin> set ?ins" for x by (simp add: count_list_0_iff)
    have "\<forall>x. ?c x \<le> live_refs g p k x" using refs nn by simp
    moreover have "\<forall>x. int x \<in> set ?ins \<longrightarrow> dealloc_spec g p k x = kNodeNotAssigned"
    proof (intro allI impI)
      fix x assume "int x \<in> set ?ins"
      then have "0 < ?c x" using c0 [of x] by linarith
      then have "pins g (preserve_inputs p) x + uses_from g k x \<noteq> 0"
        using nn [of x] k by (simp add: uses_from_Suc)
      then show "dealloc_spec g p k x = kNodeNotAssigned" by (simp add: dealloc_spec_def)
    qed
    ultimately have "for_each (release_input (int k)) ?ins (?st (live_refs g p k) (dealloc_spec g p k)) =
      ok (?st (\<lambda>x. live_refs g p k x - ?c x)
        (\<lambda>x. if int x \<in> set ?ins \<and> live_refs g p k x = ?c x
              \<and> alloc_spec g (Suc k) x \<noteq> kNodeNotAssigned then int k else dealloc_spec g p k x))"
      using release_loop [OF wf_in_range(5) [OF wf k]] by (simp add: n_def)
    also have "\<dots> = ok (?st (live_refs g p (Suc k)) (dealloc_spec g p (Suc k)))"
    proof -
      have "live_refs g p k x - ?c x = live_refs g p (Suc k) x" for x
        using False refs by (simp add: live_refs_def)
      moreover have "(if int x \<in> set ?ins \<and> live_refs g p k x = ?c x
              \<and> alloc_spec g (Suc k) x \<noteq> kNodeNotAssigned then int k else dealloc_spec g p k x)
          = dealloc_spec g p (Suc k) x" for x
      proof (cases "int x \<in> set ?ins")
        case True
        then have "0 < ?c x" using c0 [of x] by linarith
        then have "dealloc_spec g p k x = kNodeNotAssigned"
          using nn [of x] k by (simp add: dealloc_spec_def uses_from_Suc)
        then show ?thesis
          using True False refs [of x] by (simp add: dealloc_spec_def last_consumer_Suc)
      next
        case no: False
        then have "uses_from g k x = uses_from g (Suc k) x"
          using c0 [of x] k by (simp add: uses_from_Suc)
        then show ?thesis using no by (simp add: dealloc_spec_def last_consumer_Suc)
      qed
      ultimately show ?thesis by simp
    qed
    finally show ?thesis using False by simp
  qed
  ultimately show ?thesis
    unfolding plan_node_alt by (simp only: ensure_status_Some plan_state_flags if_True simp_thms)
qed

lemma plan_nodes_loop:
  assumes wf: "wf_graph g"
  defines "n \<equiv> num_tensors g"
  shows "for_each plan_node (enumerate 0 (gi_nodes g))
      (plan_state n (live_refs g p 0) (alloc_spec g 0) (dealloc_spec g p 0) p) =
    ok (plan_state n (live_refs g p (num_execution_nodes g)) (alloc_spec g (num_execution_nodes g))
          (dealloc_spec g p (num_execution_nodes g)) p)"
proof -
  let ?st = "\<lambda>k. plan_state n (live_refs g p k) (alloc_spec g k) (dealloc_spec g p k) p"
  have "\<exists>s'. for_each plan_node (enumerate 0 (gi_nodes g)) (?st 0) = ok s'
      \<and> s' = ?st (length (enumerate 0 (gi_nodes g)))"
  proof (rule for_each_ok_rule [where I = "\<lambda>ys s. s = ?st (length ys)"])
    show "?st 0 = ?st (length [])" by simp
    fix ys x zs s
    assume e: "enumerate 0 (gi_nodes g) = ys @ x # zs" and s: "s = ?st (length ys)"
    let ?k = "length ys"
    have k: "?k < num_execution_nodes g"
      using arg_cong [OF e, of length] by (simp add: num_execution_nodes_def)
    have "x = enumerate 0 (gi_nodes g) ! ?k" by (simp add: e)
    then have "x = (?k, gi_nodes g ! ?k)"
      using k by (simp add: num_execution_nodes_def nth_enumerate_eq)
    then show "\<exists>s'. plan_node x s = ok s' \<and> s' = ?st (length (ys @ [x]))"
      using plan_node_eq [OF wf k, of p] s by (simp add: n_def)
  qed
  then show ?thesis by (auto simp only: length_enumerate num_execution_nodes_def)
qed

lemma count_nodes_loop:
  assumes "\<forall>nd\<in>set nds. in_range_opt n (inputs nd)"
  shows "for_each (\<lambda>nd. for_each count_input (inputs nd)) nds (plan_state n r a d p) =
    ok (plan_state n
      (\<lambda>x. r x + sum_list (map (\<lambda>nd. int (count_list (inputs nd) (int x))) nds)) a d p)"
  using assms
proof (induction nds arbitrary: r)
  case Nil
  then show ?case by simp
next
  case (Cons nd nds)
  then have "for_each count_input (inputs nd) (plan_state n r a d p) =
      ok (plan_state n (\<lambda>x. r x + int (count_list (inputs nd) (int x))) a d p)"
    by (simp add: count_input_loop)
  then show ?case
    using Cons by (simp add: add.assoc)
qed

text \<open>
  On a well-formed graph \<^verbatim>\<open>PlanAllocations\<close> accesses no vector out of bounds, succeeds, and
  computes the lifetimes of the specification.
\<close>

definition planned :: "graph_info \<Rightarrow> planner \<Rightarrow> planner" where
  "planned g p =
     p\<lparr>allocs := replicate (num_tensors g) alloc_reset,
       alloc_node := tab (num_tensors g) (alloc_spec g (num_execution_nodes g)),
       dealloc_node := tab (num_tensors g) (dealloc_spec g p (num_execution_nodes g)),
       rw_arena := snd (ClearPlan (rw_arena p)),
       persistent_arena := snd (ClearPlan (persistent_arena p))\<rparr>"

lemma ResetAllocations_eq:
  "ResetAllocations g p = (kTfLiteOk, p\<lparr>rw_arena := snd (ClearPlan (rw_arena p)),
     persistent_arena := snd (ClearPlan (persistent_arena p)),
     allocs := replicate (num_tensors g) alloc_reset\<rparr>)"
  by (simp add: ResetAllocations_def ClearPlan_def Let_def vec_resize_def)

lemma initial_lifetimes:
  "(\<lambda>x. if int x \<in> set (gi_inputs g) \<union> set (gi_variables g) then 0 else kNodeNotAssigned)
     = alloc_spec g 0"
  "(\<lambda>x. kNodeNotAssigned) = dealloc_spec g p 0"
  by (auto simp: alloc_spec_def first_producer_def dealloc_spec_def last_consumer_def fun_eq_iff)

lemma PlanAllocations_eq:
  assumes wf: "wf_graph g"
  shows "PlanAllocations g p = ok (planned g p)"
proof -
  let ?n = "num_tensors g" and ?N = "num_execution_nodes g"
  let ?p1 = "p\<lparr>rw_arena := snd (ClearPlan (rw_arena p)),
     persistent_arena := snd (ClearPlan (persistent_arena p)),
     allocs := replicate ?n alloc_reset\<rparr>"
  let ?NA = "\<lambda>x :: nat. kNodeNotAssigned"
  let ?r1 = "\<lambda>x. int (count_list (gi_outputs g) (int x))"
  let ?r2 = "\<lambda>x. ?r1 x + int (count_list (gi_variables g) (int x))"
  let ?r3 = "pins g (preserve_inputs p)"
  let ?a1 = "\<lambda>x. if int x \<in> set (gi_inputs g) then 0 else kNodeNotAssigned"
  note r = wf_in_range [OF wf]
  have NA0: "kNodeNotAssigned \<noteq> 0" by (simp add: kNodeNotAssigned_def)
  have start: "(replicate ?n 0, ?p1\<lparr>alloc_node := replicate ?n kNodeNotAssigned,
      dealloc_node := replicate ?n kNodeNotAssigned\<rparr>) = plan_state ?n (\<lambda>_. 0) ?NA ?NA ?p1"
    by (simp add: plan_state_def replicate_tab)
  have 1: "for_each (add_refcount 1) (gi_outputs g) (plan_state ?n (\<lambda>_. 0) ?NA ?NA ?p1)
      = ok (plan_state ?n ?r1 ?NA ?NA ?p1)"
    using refcount_loop [OF r(1), of "\<lambda>_. 0"] by simp
  have 2: "for_each (add_refcount 1) (gi_variables g) (plan_state ?n ?r1 ?NA ?NA ?p1)
      = ok (plan_state ?n ?r2 ?NA ?NA ?p1)"
    by (rule refcount_loop [OF r(2)])
  have 3: "for_each plan_graph_input (gi_inputs g) (plan_state ?n ?r2 ?NA ?NA ?p1)
      = ok (plan_state ?n ?r3 ?a1 ?NA ?p1)"
    using plan_input_loop [OF r(3), of ?NA ?NA ?r2 ?p1] by (simp add: pins_def [abs_def])
  have "for_each allocate_if_present (gi_variables g) (plan_state ?n ?r3 ?a1 ?NA ?p1)
      = ok (plan_state ?n ?r3
          (\<lambda>x. if ?a1 x = kNodeNotAssigned \<and> int x \<in> set (gi_variables g) then 0 else ?a1 x) ?NA ?p1)"
    by (rule allocate_if_present_loop) (use r(2) in \<open>auto simp: in_range_def in_range_opt_def\<close>)
  then have 4: "for_each allocate_if_present (gi_variables g) (plan_state ?n ?r3 ?a1 ?NA ?p1)
      = ok (plan_state ?n ?r3 (alloc_spec g 0) ?NA ?p1)"
    using NA0 by (auto simp flip: initial_lifetimes(1) intro!: plan_state_cong split: if_splits)
  have 5: "for_each (\<lambda>nd. for_each count_input (inputs nd)) (gi_nodes g)
        (plan_state ?n ?r3 (alloc_spec g 0) ?NA ?p1)
      = ok (plan_state ?n (live_refs g ?p1 0) (alloc_spec g 0) ?NA ?p1)"
    using count_nodes_loop [of "gi_nodes g" ?n ?r3] r(5)
    by (simp add: live_refs_def [abs_def] uses_from_def num_execution_nodes_def all_set_conv_all_nth)
  have "for_each allocate_if_present (gi_inputs g)
        (plan_state ?n (live_refs g ?p1 0) (alloc_spec g 0) ?NA ?p1)
      = ok (plan_state ?n (live_refs g ?p1 0)
          (\<lambda>x. if alloc_spec g 0 x = kNodeNotAssigned \<and> int x \<in> set (gi_inputs g) then 0
               else alloc_spec g 0 x) ?NA ?p1)"
    by (rule allocate_if_present_loop) (use r(3) in auto)
  then have 6: "for_each allocate_if_present (gi_inputs g)
        (plan_state ?n (live_refs g ?p1 0) (alloc_spec g 0) ?NA ?p1)
      = ok (plan_state ?n (live_refs g ?p1 0) (alloc_spec g 0) (dealloc_spec g ?p1 0) ?p1)"
    using NA0 unfolding initial_lifetimes(2) [of g ?p1]
    by (auto simp: alloc_spec_def intro!: plan_state_cong)
  have "dealloc_spec g ?p1 ?N = dealloc_spec g p ?N"
    by (simp add: dealloc_spec_def fun_eq_iff)
  then have 7: "map_option (map_prod id snd) (ok (plan_state ?n (live_refs g ?p1 ?N)
      (alloc_spec g ?N) (dealloc_spec g ?p1 ?N) ?p1)) = ok (planned g p)"
    by (simp add: plan_state_def planned_def)
  show ?thesis
    unfolding PlanAllocations_def ResetAllocations_eq Let_def prod.case start 1 2 3 4 5 6
      ensure_status_Some if_P [OF refl] plan_nodes_loop [OF wf] 7
    by simp
qed

text \<open>
  C6: on a well-formed graph \<^verbatim>\<open>PlanAllocations\<close> accesses no vector out of bounds and succeeds. A
  tensor is allocated from its first producer (from node 0 when it is an input or a variable of
  the graph), and released at its last consumer exactly when the graph does not keep it: it is
  no output and no variable, no input to preserve, and intermediates are not preserved.
\<close>

theorem PlanAllocations_lifetimes:
  assumes "wf_graph g"
  shows "\<exists>q. PlanAllocations g p = ok q
     \<and> length (alloc_node q) = num_tensors g \<and> length (dealloc_node q) = num_tensors g
     \<and> allocs q = replicate (num_tensors g) alloc_reset
     \<and> ordered_allocs (rw_arena q) = [] \<and> ordered_allocs (persistent_arena q) = []
     \<and> (\<forall>x<num_tensors g.
          alloc_node q ! x = alloc_spec g (num_execution_nodes g) x
          \<and> dealloc_node q ! x = dealloc_spec g p (num_execution_nodes g) x)"
  using PlanAllocations_eq [OF assms] by (simp add: planned_def ClearPlan_def)

theorem PlanAllocations_lifetimes_witness:
  "\<exists>q. PlanAllocations example_graph (ArenaPlanner False False 64) = ok q
     \<and> alloc_node q ! 1 = 0 \<and> dealloc_node q ! 1 = 1
     \<and> alloc_node q ! 2 = 1 \<and> dealloc_node q ! 2 = kNodeNotAssigned"
proof -
  have "alloc_spec example_graph 2 1 = 0" "alloc_spec example_graph 2 2 = 1"
    "dealloc_spec example_graph (ArenaPlanner False False 64) 2 1 = 1"
    "dealloc_spec example_graph (ArenaPlanner False False 64) 2 2 = kNodeNotAssigned"
    by (simp_all add: alloc_spec_def dealloc_spec_def first_producer_def last_consumer_def pins_def
        uses_from_def example_graph_facts example_node_def upt_rec kNodeNotAssigned_def
        ArenaPlanner_def)
  then show ?thesis
    using PlanAllocations_lifetimes [OF example_graph_wf, of "ArenaPlanner False False 64"]
    by (auto simp: example_graph_facts)
qed

text \<open>
  a graph output that is the optional tensor, which \<^verbatim>\<open>Subgraph::SetOutputs\<close> accepts, makes
  \<^verbatim>\<open>PlanAllocations\<close> index its reference counts with \<open>-1\<close>.
\<close>

theorem PlanAllocations_optional_output:
  assumes "kTfLiteOptionalTensor \<in> set (gi_outputs g)"
  shows "PlanAllocations g p = None"
proof -
  have "for_each (add_refcount 1) ts s = None" if "kTfLiteOptionalTensor \<in> set ts" for ts s
    using that
  proof (induction ts arbitrary: s)
    case (Cons t ts)
    then show ?case
      by (cases "t = -1"; cases s)
        (auto simp: add_refcount_def vec_at_def ensure_status_def split: option.splits)
  qed simp
  then show ?thesis
    using assms by (simp add: PlanAllocations_def ResetAllocations_eq)
qed

theorem PlanAllocations_optional_output_witness:
  "PlanAllocations (example_graph\<lparr>gi_outputs := [2, -1]\<rparr>) (ArenaPlanner True False 64) = None"
  by (rule PlanAllocations_optional_output) simp

end
