(* ===== verification/Planner_Placement.thy ===== *)
theory Planner_Placement
  imports Arena_Planner
begin

text \<open>
  Where \<^verbatim>\<open>ArenaPlanner::ExecuteAllocations\<close> places tensors.

  The invariant \<open>planner_inv\<close> ties \<^verbatim>\<open>allocs_\<close> to the two arenas; each pass keeps it, whatever
  the range of nodes, and rests on the arena only through the contract \<open>offset_arena\<close>. The main
  results are at the end: after planning and one pass over the whole graph, no node writes to
  memory that still holds a value to be read.
\<close>

section \<open>Allocation of a range of nodes\<close>

text \<open>
  What every pass keeps: the vectors cover the tensors, the two arenas are sound, and they hold
  exactly what \<^verbatim>\<open>allocs_\<close> says, each arena for the tensors of its allocation type.
\<close>

definition planner_inv :: "graph_info \<Rightarrow> planner \<Rightarrow> bool" where
  "planner_inv g p \<longleftrightarrow>
     length (allocs p) = num_tensors g \<and> length (alloc_node p) = num_tensors g
     \<and> length (dealloc_node p) = num_tensors g
     \<and> sound_arena (tensor_alignment p) (rw_arena p)
     \<and> sound_arena (tensor_alignment p) (persistent_arena p)
     \<and> agrees (allocs p) (ordered_allocs (rw_arena p))
     \<and> agrees (allocs p) (ordered_allocs (persistent_arena p))
     \<and> (\<forall>t. holds_tensor (ordered_allocs (rw_arena p)) t \<longrightarrow>
            allocation_type (gi_tensors g ! nat t) = kTfLiteArenaRw)
     \<and> (\<forall>t. holds_tensor (ordered_allocs (persistent_arena p)) t \<longrightarrow>
            allocation_type (gi_tensors g ! nat t) = kTfLiteArenaRwPersistent)
     \<and> (\<forall>i<num_tensors g. if alloc_size (allocs p ! i) = 0 then alloc_offset (allocs p ! i) = 0
            else alloc_tensor (allocs p ! i) = int i)"

lemma planner_invD:
  assumes "planner_inv g p"
  shows "length (allocs p) = num_tensors g" "length (alloc_node p) = num_tensors g"
    and "length (dealloc_node p) = num_tensors g"
    and "sound_arena (tensor_alignment p) (rw_arena p)"
    and "sound_arena (tensor_alignment p) (persistent_arena p)"
    and "agrees (allocs p) (ordered_allocs (rw_arena p))"
    and "agrees (allocs p) (ordered_allocs (persistent_arena p))"
    and "holds_tensor (ordered_allocs (rw_arena p)) t \<Longrightarrow>
           allocation_type (gi_tensors g ! nat t) = kTfLiteArenaRw"
    and "holds_tensor (ordered_allocs (persistent_arena p)) t \<Longrightarrow>
           allocation_type (gi_tensors g ! nat t) = kTfLiteArenaRwPersistent"
    and "valid_tensor g t \<Longrightarrow>
           (if alloc_size (allocs p ! nat t) = 0 then alloc_offset (allocs p ! nat t) = 0
            else alloc_tensor (allocs p ! nat t) = t)"
proof -
  note inv = assms [unfolded planner_inv_def]
  show "length (allocs p) = num_tensors g" "length (alloc_node p) = num_tensors g"
    "length (dealloc_node p) = num_tensors g"
    "sound_arena (tensor_alignment p) (rw_arena p)"
    "sound_arena (tensor_alignment p) (persistent_arena p)"
    "agrees (allocs p) (ordered_allocs (rw_arena p))"
    "agrees (allocs p) (ordered_allocs (persistent_arena p))"
    using inv by blast+
  show "allocation_type (gi_tensors g ! nat t) = kTfLiteArenaRw"
    if "holds_tensor (ordered_allocs (rw_arena p)) t"
    using inv that by blast
  show "allocation_type (gi_tensors g ! nat t) = kTfLiteArenaRwPersistent"
    if "holds_tensor (ordered_allocs (persistent_arena p)) t"
    using inv that by blast
  show "(if alloc_size (allocs p ! nat t) = 0 then alloc_offset (allocs p ! nat t) = 0
            else alloc_tensor (allocs p ! nat t) = t)"
    if "valid_tensor g t"
    using inv valid_tensorD [OF that] by (metis int_nat_eq)
qed

text \<open>The bytes a tensor may take from an arena, padding included.\<close>

definition demand :: "graph_info \<Rightarrow> planner \<Rightarrow> int list \<Rightarrow> nat" where
  "demand g p ts = sum_list (map (\<lambda>t. tensor_alignment p + bytes (gi_tensors g ! nat t)) ts)"

lemma demand_simps [simp]:
  "demand g p [] = 0"
  "demand g p (ts @ us) = demand g p ts + demand g p us"
  "demand g p (t # ts) = tensor_alignment p + bytes (gi_tensors g ! nat t) + demand g p ts"
  by (simp_all add: demand_def)

lemma holds_valid:
  assumes "planner_inv g p" "holds_tensor (ordered_allocs (rw_arena p)) t"
  shows "valid_tensor g t"
  using agrees_holds(1) [of "allocs p" "ordered_allocs (rw_arena p)" t] assms
  by (simp add: planner_inv_def valid_tensor_def in_bounds_def)

subsection \<open>First phase: everything in the range leaves the arena\<close>

lemma deallocate_tensor_step:
  assumes inv: "planner_inv g p" and t: "valid_tensor g t"
  shows "\<exists>A. deallocate_tensor g t p = ok (p\<lparr>rw_arena := A\<rparr>)
     \<and> planner_inv g (p\<lparr>rw_arena := A\<rparr>)
     \<and> high_water_mark A = high_water_mark (rw_arena p)
     \<and> arena_alignment A = arena_alignment (rw_arena p)
     \<and> (\<forall>u. holds_tensor (ordered_allocs A) u \<longleftrightarrow>
            holds_tensor (ordered_allocs (rw_arena p)) u \<and> u \<noteq> t)"
proof -
  let ?a = "allocs p ! nat t" and ?A = "rw_arena p"
  have at: "vec_at (gi_tensors g) t = Some (gi_tensors g ! nat t)" "vec_at (allocs p) t = Some ?a"
    using inv t by (auto simp: planner_inv_def valid_tensor_def num_tensors_def vec_at_def in_bounds_def)
  have snd: "sound_arena (tensor_alignment p) ?A" and ag: "agrees (allocs p) (ordered_allocs ?A)"
    using inv by (auto simp: planner_inv_def)
  show ?thesis
  proof (cases "allocation_type (gi_tensors g ! nat t) = kTfLiteArenaRw \<and> alloc_size ?a \<noteq> 0")
    case True
    obtain st A where d: "Deallocate ?a ?A = (st, A)" by (cases "Deallocate ?a ?A")
    have pos: "0 < alloc_size ?a" using True by simp
    note r = tensor_arena.remove_agrees [OF snd d pos ag]
    note g = tensor_arena.remove_good [OF snd d]
    have a: "alloc_tensor ?a = t" using planner_invD(10) [OF inv t] pos by simp
    have al: "arena_alignment A = arena_alignment ?A"
      using d by (auto simp: Deallocate_def Let_def split: if_splits)
    have "deallocate_tensor g t p = ok (p\<lparr>rw_arena := A\<rparr>)"
      using True at d r(1) by (simp add: deallocate_tensor_def)
    moreover have "planner_inv g (p\<lparr>rw_arena := A\<rparr>)"
      using inv r(2) g by (simp add: planner_inv_def r(3))
    moreover have "\<forall>u. holds_tensor (ordered_allocs A) u \<longleftrightarrow> holds_tensor (ordered_allocs ?A) u \<and> u \<noteq> t"
      using r(3) a by simp
    ultimately show ?thesis using g al by (intro exI [of _ A]) simp
  next
    case False
    then have "\<not> holds_tensor (ordered_allocs ?A) t"
      using planner_invD(8) [OF inv, of t] tensor_arena.held_bounds(1) [OF snd ag, of t] by auto
    then show ?thesis
      using False inv at by (intro exI [of _ ?A]) (auto simp: deallocate_tensor_def)
  qed
qed

lemma deallocate_loop:
  assumes inv: "planner_inv g p" and ts: "\<forall>t\<in>set ts. valid_tensor g t"
  shows "\<exists>A. for_each (deallocate_tensor g) ts p = ok (p\<lparr>rw_arena := A\<rparr>)
     \<and> planner_inv g (p\<lparr>rw_arena := A\<rparr>)
     \<and> high_water_mark A = high_water_mark (rw_arena p)
     \<and> (\<forall>u. holds_tensor (ordered_allocs A) u \<longleftrightarrow>
            holds_tensor (ordered_allocs (rw_arena p)) u \<and> u \<notin> set ts)"
  using assms
proof (induction ts arbitrary: p)
  case Nil
  then show ?case by (intro exI [of _ "rw_arena p"]) simp
next
  case (Cons t ts)
  then obtain A where A: "deallocate_tensor g t p = ok (p\<lparr>rw_arena := A\<rparr>)"
    "planner_inv g (p\<lparr>rw_arena := A\<rparr>)" "high_water_mark A = high_water_mark (rw_arena p)"
    "\<forall>u. holds_tensor (ordered_allocs A) u \<longleftrightarrow>
        holds_tensor (ordered_allocs (rw_arena p)) u \<and> u \<noteq> t"
    using deallocate_tensor_step [of g p t] by auto
  then obtain B where B: "for_each (deallocate_tensor g) ts (p\<lparr>rw_arena := A\<rparr>) = ok (p\<lparr>rw_arena := B\<rparr>)"
    "planner_inv g (p\<lparr>rw_arena := B\<rparr>)" "high_water_mark B = high_water_mark A"
    "\<forall>u. holds_tensor (ordered_allocs B) u \<longleftrightarrow> holds_tensor (ordered_allocs A) u \<and> u \<notin> set ts"
    using Cons.IH [of "p\<lparr>rw_arena := A\<rparr>"] Cons.prems(2) by auto
  then show ?case using A by (intro exI [of _ B]) auto
qed

subsection \<open>Second phase: every tensor of the range is placed\<close>

text \<open>What one \<^verbatim>\<open>Allocate\<close> of the loop does to the planner.\<close>

definition placed_in :: "graph_info \<Rightarrow> planner \<Rightarrow> int \<Rightarrow> bool" where
  "placed_in g p t \<longleftrightarrow>
     alloc_size (allocs p ! nat t) = bytes (gi_tensors g ! nat t)
     \<and> alloc_tensor (allocs p ! nat t) = t
     \<and> alloc_first_node (allocs p ! nat t) = alloc_node p ! nat t
     \<and> alloc_last_node (allocs p ! nat t) = dealloc_node p ! nat t
     \<and> (0 < bytes (gi_tensors g ! nat t) \<longrightarrow> holds_tensor (ordered_allocs (rw_arena p)) t)"

definition same_plan :: "planner \<Rightarrow> planner \<Rightarrow> bool" where
  "same_plan p q \<longleftrightarrow> alloc_node q = alloc_node p \<and> dealloc_node q = dealloc_node p
     \<and> tensor_alignment q = tensor_alignment p \<and> preserve_inputs q = preserve_inputs p
     \<and> preserve_intermediates q = preserve_intermediates p"

lemma same_plan_refl [simp]: "same_plan p p"
  by (simp add: same_plan_def)

lemma same_plan_trans: "same_plan p q \<Longrightarrow> same_plan q r \<Longrightarrow> same_plan p r"
  by (simp add: same_plan_def)

lemma demand_same_plan: "same_plan p q \<Longrightarrow> demand g q ts = demand g p ts"
  by (simp add: demand_def same_plan_def)

definition arena_marks :: "planner \<Rightarrow> nat" where
  "arena_marks p = max (high_water_mark (rw_arena p)) (high_water_mark (persistent_arena p))"

lemma allocate_rw_step:
  assumes inv: "planner_inv g p" and t: "valid_tensor g t"
    and type: "allocation_type (gi_tensors g ! nat t) = kTfLiteArenaRw"
    and out: "\<not> holds_tensor (ordered_allocs (rw_arena p)) t"
    and room: "arena_marks p + demand g p [t] < size_t_bound"
  shows "\<exists>q. allocate_tensor g t p = ok q \<and> planner_inv g q \<and> same_plan p q
     \<and> placed_in g q t \<and> arena_marks q \<le> arena_marks p + demand g p [t]
     \<and> (\<forall>u\<noteq>t. valid_tensor g u \<longrightarrow> allocs q ! nat u = allocs p ! nat u)
     \<and> (\<forall>u. holds_tensor (ordered_allocs (rw_arena q)) u \<longleftrightarrow>
          holds_tensor (ordered_allocs (rw_arena p)) u \<or> u = t \<and> 0 < bytes (gi_tensors g ! nat t))
     \<and> persistent_arena q = persistent_arena p"
proof -
  let ?tensor = "gi_tensors g ! nat t" and ?A = "rw_arena p" and ?k = "tensor_alignment p"
  have len: "length (allocs p) = num_tensors g" "length (alloc_node p) = num_tensors g"
    "length (dealloc_node p) = num_tensors g" "length (gi_tensors g) = num_tensors g"
    using planner_invD [OF inv] by (auto simp: num_tensors_def)
  have t': "0 \<le> t" "nat t < num_tensors g" using valid_tensorD [OF t] by auto
  obtain st n A where al: "Allocate ?k (bytes ?tensor) t (alloc_node p ! nat t)
      (dealloc_node p ! nat t) (allocs p ! nat t) ?A = (st, n, A)"
    by (metis prod.exhaust)
  let ?q = "p\<lparr>rw_arena := A, allocs := (allocs p)[nat t := n]\<rparr>"
  have snd: "sound_arena ?k ?A" and ag: "agrees (allocs p) (ordered_allocs ?A)"
    using planner_invD [OF inv] by blast+
  have rm: "high_water_mark ?A + ?k + bytes ?tensor < size_t_bound"
    using room by (simp add: arena_marks_def)
  have ib: "in_bounds (allocs p) t" using len t' by (simp add: in_bounds_def)
  note pl = tensor_arena.place_spec [OF snd rm al] tensor_arena.place_agrees [OF snd rm al ag ib out]
  have run: "allocate_tensor g t p = ok ?q"
    using len t' type al pl(1) by (simp add: allocate_tensor_def vec_at_def in_bounds_def)
  have other: "(allocs p)[nat t := n] ! nat u = allocs p ! nat u" if "u \<noteq> t" "valid_tensor g u" for u
    using that t' valid_tensorD [OF that(2)] by (metis eq_nat_nat_iff nth_list_update_neq)
  have pers: "agrees ((allocs p)[nat t := n]) (ordered_allocs (persistent_arena p))"
  proof -
    have "\<not> holds_tensor (ordered_allocs (persistent_arena p)) t"
      using planner_invD(9) [OF inv, of t] type by auto
    then show ?thesis using planner_invD(7) [OF inv] t' by (intro agrees_update_other) auto
  qed
  have sizes: "\<forall>i<num_tensors g. if alloc_size ((allocs p)[nat t := n] ! i) = 0
      then alloc_offset ((allocs p)[nat t := n] ! i) = 0
      else alloc_tensor ((allocs p)[nat t := n] ! i) = int i"
    using inv pl(1) t' len by (auto simp: planner_inv_def nth_list_update)
  have rwtypes: "allocation_type (gi_tensors g ! nat u) = kTfLiteArenaRw"
    if "holds_tensor (ordered_allocs A) u" for u
    using that pl(3) [of u] type planner_invD(8) [OF inv, of u] by auto
  have "planner_inv g ?q"
    using planner_invD(5,9) [OF inv] pl(1,2) pers sizes len rwtypes by (simp add: planner_inv_def)
  moreover have "placed_in g ?q t"
    using pl t' len by (simp add: placed_in_def)
  moreover have "arena_marks ?q \<le> arena_marks p + demand g p [t]"
    using pl(1) by (auto simp: arena_marks_def max_def)
  ultimately show ?thesis
    using run other pl(3) by (intro exI [of _ ?q]) (simp add: same_plan_def)
qed

lemma allocate_persistent_step:
  assumes inv: "planner_inv g p" and t: "valid_tensor g t"
    and type: "allocation_type (gi_tensors g ! nat t) = kTfLiteArenaRwPersistent"
    and out: "\<not> holds_tensor (ordered_allocs (persistent_arena p)) t"
    and room: "arena_marks p + demand g p [t] < size_t_bound"
  shows "\<exists>q. allocate_tensor g t p = ok q \<and> planner_inv g q \<and> same_plan p q
     \<and> arena_marks q \<le> arena_marks p + demand g p [t]
     \<and> (\<forall>u\<noteq>t. valid_tensor g u \<longrightarrow> allocs q ! nat u = allocs p ! nat u)
     \<and> rw_arena q = rw_arena p
     \<and> (\<forall>u. holds_tensor (ordered_allocs (persistent_arena q)) u \<longleftrightarrow>
          holds_tensor (ordered_allocs (persistent_arena p)) u \<or> u = t \<and> alloc_size (allocs q ! nat t) \<noteq> 0)"
proof -
  let ?tensor = "gi_tensors g ! nat t" and ?A = "persistent_arena p" and ?k = "tensor_alignment p"
  have len: "length (allocs p) = num_tensors g" "length (alloc_node p) = num_tensors g"
    "length (dealloc_node p) = num_tensors g" "length (gi_tensors g) = num_tensors g"
    using planner_invD [OF inv] by (auto simp: num_tensors_def)
  have t': "0 \<le> t" "nat t < num_tensors g" using valid_tensorD [OF t] by auto
  obtain st n A where al: "Allocate ?k (bytes ?tensor) t (alloc_node p ! nat t)
      (2 ^ 31 - 1) (allocs p ! nat t) ?A = (st, n, A)"
    by (metis prod.exhaust)
  let ?q = "p\<lparr>persistent_arena := A, allocs := (allocs p)[nat t := n]\<rparr>"
  have snd: "sound_arena ?k ?A" and ag: "agrees (allocs p) (ordered_allocs ?A)"
    using planner_invD [OF inv] by blast+
  have rm: "high_water_mark ?A + ?k + bytes ?tensor < size_t_bound"
    using room by (simp add: arena_marks_def)
  have ib: "in_bounds (allocs p) t" using len t' by (simp add: in_bounds_def)
  note pl = tensor_arena.place_spec [OF snd rm al] tensor_arena.place_agrees [OF snd rm al ag ib out]
  have run: "allocate_tensor g t p = ok ?q"
    using len t' type al pl(1) by (simp add: allocate_tensor_def vec_at_def in_bounds_def)
  have other: "(allocs p)[nat t := n] ! nat u = allocs p ! nat u" if "u \<noteq> t" "valid_tensor g u" for u
    using that t' valid_tensorD [OF that(2)] by (metis eq_nat_nat_iff nth_list_update_neq)
  have rw: "agrees ((allocs p)[nat t := n]) (ordered_allocs (rw_arena p))"
  proof -
    have "\<not> holds_tensor (ordered_allocs (rw_arena p)) t"
      using planner_invD(8) [OF inv, of t] type by auto
    then show ?thesis using planner_invD(6) [OF inv] t' by (intro agrees_update_other) auto
  qed
  have sizes: "\<forall>i<num_tensors g. if alloc_size ((allocs p)[nat t := n] ! i) = 0
      then alloc_offset ((allocs p)[nat t := n] ! i) = 0
      else alloc_tensor ((allocs p)[nat t := n] ! i) = int i"
    using inv pl(1) t' len by (auto simp: planner_inv_def nth_list_update)
  have types: "allocation_type (gi_tensors g ! nat u) = kTfLiteArenaRwPersistent"
    if "holds_tensor (ordered_allocs A) u" for u
    using that pl(3) [of u] type planner_invD(9) [OF inv, of u] by auto
  have "planner_inv g ?q"
    using planner_invD(4,8) [OF inv] pl(1,2) rw sizes len types by (simp add: planner_inv_def)
  moreover have "arena_marks ?q \<le> arena_marks p + demand g p [t]"
    using pl(1) by (auto simp: arena_marks_def max_def)
  ultimately show ?thesis
    using run other pl(1,3) t' len by (intro exI [of _ ?q]) (simp add: same_plan_def)
qed

text \<open>One step of the loop, whatever the tensor's allocation type.\<close>

lemma allocate_tensor_step:
  assumes inv: "planner_inv g p" and t: "valid_tensor g t"
    and rw_out: "allocation_type (gi_tensors g ! nat t) = kTfLiteArenaRw \<Longrightarrow>
      \<not> holds_tensor (ordered_allocs (rw_arena p)) t"
    and pers_out: "\<not> holds_tensor (ordered_allocs (persistent_arena p)) t"
    and room: "arena_marks p + demand g p [t] < size_t_bound"
  shows "\<exists>q. allocate_tensor g t p = ok q \<and> planner_inv g q \<and> same_plan p q
     \<and> arena_marks q \<le> arena_marks p + demand g p [t]
     \<and> (\<forall>u\<noteq>t. valid_tensor g u \<longrightarrow> allocs q ! nat u = allocs p ! nat u)
     \<and> (\<forall>u\<noteq>t. holds_tensor (ordered_allocs (rw_arena q)) u \<longleftrightarrow>
          holds_tensor (ordered_allocs (rw_arena p)) u)
     \<and> (\<forall>u\<noteq>t. holds_tensor (ordered_allocs (persistent_arena q)) u \<longleftrightarrow>
          holds_tensor (ordered_allocs (persistent_arena p)) u)
     \<and> (allocation_type (gi_tensors g ! nat t) = kTfLiteArenaRw \<longrightarrow> placed_in g q t)
     \<and> (allocation_type (gi_tensors g ! nat t) = kTfLiteArenaRwPersistent \<longrightarrow>
          alloc_size (allocs q ! nat t) \<noteq> 0 \<longrightarrow> holds_tensor (ordered_allocs (persistent_arena q)) t)"
proof (cases "allocation_type (gi_tensors g ! nat t)")
  case kTfLiteArenaRw
  then show ?thesis
    using allocate_rw_step [OF inv t kTfLiteArenaRw rw_out room] by auto
next
  case kTfLiteArenaRwPersistent
  then show ?thesis
    using allocate_persistent_step [OF inv t kTfLiteArenaRwPersistent pers_out room] by auto
qed (insert inv t, auto simp: allocate_tensor_def vec_at_def in_bounds_def num_tensors_def
      dest!: valid_tensorD dest: planner_invD(1-3))

text \<open>Every entry of \<^verbatim>\<open>allocs_\<close> with a size is backed by its arena.\<close>

definition settled_tensor :: "graph_info \<Rightarrow> planner \<Rightarrow> int \<Rightarrow> bool" where
  "settled_tensor g p t \<longleftrightarrow> alloc_size (allocs p ! nat t) \<noteq> 0 \<longrightarrow>
     (allocation_type (gi_tensors g ! nat t) = kTfLiteArenaRw \<longrightarrow>
        holds_tensor (ordered_allocs (rw_arena p)) t)
     \<and> (allocation_type (gi_tensors g ! nat t) = kTfLiteArenaRwPersistent \<longrightarrow>
        holds_tensor (ordered_allocs (persistent_arena p)) t)"

definition untouched :: "planner \<Rightarrow> planner \<Rightarrow> int \<Rightarrow> bool" where
  "untouched p q u \<longleftrightarrow> allocs q ! nat u = allocs p ! nat u
     \<and> holds_tensor (ordered_allocs (rw_arena q)) u = holds_tensor (ordered_allocs (rw_arena p)) u
     \<and> holds_tensor (ordered_allocs (persistent_arena q)) u
         = holds_tensor (ordered_allocs (persistent_arena p)) u"

lemma untouched_transfer:
  assumes "untouched p q u"
  shows "settled_tensor g q u = settled_tensor g p u"
    and "same_plan p q \<Longrightarrow> placed_in g q u = placed_in g p u"
  using assms by (auto simp: untouched_def settled_tensor_def placed_in_def same_plan_def)

lemma allocate_tensors_loop:
  assumes "planner_inv g p" "distinct ts" "\<forall>t\<in>set ts. valid_tensor g t"
    and "\<forall>t\<in>set ts. allocation_type (gi_tensors g ! nat t) = kTfLiteArenaRw \<longrightarrow>
           \<not> holds_tensor (ordered_allocs (rw_arena p)) t"
    and "\<forall>t\<in>set ts. \<not> holds_tensor (ordered_allocs (persistent_arena p)) t"
    and "arena_marks p + demand g p ts < size_t_bound"
  shows "\<exists>q. for_each (allocate_tensor g) ts p = ok q \<and> planner_inv g q \<and> same_plan p q
     \<and> arena_marks q \<le> arena_marks p + demand g p ts
     \<and> (\<forall>u. valid_tensor g u \<longrightarrow> u \<notin> set ts \<longrightarrow> untouched p q u)
     \<and> (\<forall>t\<in>set ts. settled_tensor g q t
          \<and> (allocation_type (gi_tensors g ! nat t) = kTfLiteArenaRw \<longrightarrow> placed_in g q t))"
  using assms
proof (induction ts arbitrary: p)
  case Nil
  then show ?case by (intro exI [of _ p]) (simp add: untouched_def)
next
  case (Cons t ts)
  have t: "valid_tensor g t" "t \<notin> set ts" "distinct ts" "\<forall>u\<in>set ts. valid_tensor g u"
    using Cons.prems(2,3) by auto
  have room: "arena_marks p + demand g p [t] < size_t_bound" using Cons.prems(6) by simp
  obtain q where q: "allocate_tensor g t p = ok q" "planner_inv g q" "same_plan p q"
    "arena_marks q \<le> arena_marks p + demand g p [t]"
    and other: "\<forall>u\<noteq>t. valid_tensor g u \<longrightarrow> allocs q ! nat u = allocs p ! nat u"
      "\<forall>u\<noteq>t. holds_tensor (ordered_allocs (rw_arena q)) u \<longleftrightarrow>
          holds_tensor (ordered_allocs (rw_arena p)) u"
      "\<forall>u\<noteq>t. holds_tensor (ordered_allocs (persistent_arena q)) u \<longleftrightarrow>
          holds_tensor (ordered_allocs (persistent_arena p)) u"
    and pl: "allocation_type (gi_tensors g ! nat t) = kTfLiteArenaRw \<longrightarrow> placed_in g q t"
      "allocation_type (gi_tensors g ! nat t) = kTfLiteArenaRwPersistent \<longrightarrow>
          alloc_size (allocs q ! nat t) \<noteq> 0 \<longrightarrow> holds_tensor (ordered_allocs (persistent_arena q)) t"
    using allocate_tensor_step [OF Cons.prems(1) t(1) _ _ room] Cons.prems(4,5) by auto
  have keep: "untouched p q u" if "u \<noteq> t" "valid_tensor g u" for u
    using that other by (simp add: untouched_def)
  have st: "settled_tensor g q t"
    using pl by (auto simp: settled_tensor_def placed_in_def)
  have "\<forall>u\<in>set ts. allocation_type (gi_tensors g ! nat u) = kTfLiteArenaRw \<longrightarrow>
           \<not> holds_tensor (ordered_allocs (rw_arena q)) u"
    "\<forall>u\<in>set ts. \<not> holds_tensor (ordered_allocs (persistent_arena q)) u"
    using Cons.prems(4,5) other(2,3) t(2) by auto
  moreover have "arena_marks q + demand g q ts < size_t_bound"
    using q(4) Cons.prems(6) demand_same_plan [OF q(3)] by simp
  ultimately obtain r where r: "for_each (allocate_tensor g) ts q = ok r" "planner_inv g r"
    "same_plan q r" "arena_marks r \<le> arena_marks q + demand g q ts"
    "\<forall>u. valid_tensor g u \<longrightarrow> u \<notin> set ts \<longrightarrow> untouched q r u"
    "\<forall>u\<in>set ts. settled_tensor g r u
          \<and> (allocation_type (gi_tensors g ! nat u) = kTfLiteArenaRw \<longrightarrow> placed_in g r u)"
    using Cons.IH [OF q(2) t(3,4)] by auto
  have "untouched p r u" if "valid_tensor g u" "u \<notin> set (t # ts)" for u
    using that r(5) keep by (simp add: untouched_def)
  moreover have "arena_marks r \<le> arena_marks p + demand g p (t # ts)"
    using r(4) q(4) demand_same_plan [OF q(3)] by simp
  moreover have "untouched q r t" using r(5) t by blast
  then have "settled_tensor g r t"
    "allocation_type (gi_tensors g ! nat t) = kTfLiteArenaRw \<longrightarrow> placed_in g r t"
    using st pl(1) untouched_transfer r(3) by blast+
  ultimately show ?case
    using q(1,3) r(1,2,3,6) same_plan_trans by (intro exI [of _ r]) auto
qed

subsection \<open>The two phases together\<close>

lemma demand_le:
  assumes "distinct ts" "set ts \<subseteq> set us" "distinct us"
  shows "demand g p ts \<le> demand g p us"
  unfolding demand_def using assms
  by (simp add: sum_list_distinct_conv_sum_set) (rule sum_mono2, auto)

abbreviation all_tensors :: "graph_info \<Rightarrow> int list" where
  "all_tensors g \<equiv> map int [0..<num_tensors g]"

lemma set_all_tensors: "set (all_tensors g) = {t. valid_tensor g t}"
proof -
  have "t \<in> int ` {0..<num_tensors g}" if "0 \<le> t" "nat t < num_tensors g" for t
    using that by (intro image_eqI [where x = "nat t"]) auto
  then show ?thesis by (auto simp: valid_tensor_def)
qed

lemma tensor_order_range:
  "set (CreateTensorAllocationVector g fn ln p) =
     {t. valid_tensor g t \<and> fn \<le> alloc_node p ! nat t \<and> alloc_node p ! nat t \<le> ln}"
  by (auto simp: set_CreateTensorAllocationVector valid_tensor_def)

definition in_pass :: "planner \<Rightarrow> int \<Rightarrow> int \<Rightarrow> int \<Rightarrow> bool" where
  "in_pass p fn ln t \<longleftrightarrow> fn \<le> alloc_node p ! nat t \<and> alloc_node p ! nat t \<le> ln"

lemma CalculateAllocations_ok:
  assumes inv: "planner_inv g p"
    and fresh: "\<forall>t. in_pass p fn ln t \<longrightarrow> \<not> holds_tensor (ordered_allocs (persistent_arena p)) t"
    and room: "arena_marks p + demand g p (all_tensors g) < size_t_bound"
  shows "\<exists>q. CalculateAllocations g fn ln p = ok q \<and> planner_inv g q \<and> same_plan p q
     \<and> arena_marks q \<le> arena_marks p + demand g p (all_tensors g)
     \<and> (\<forall>u. valid_tensor g u \<longrightarrow> \<not> in_pass p fn ln u \<longrightarrow> untouched p q u)
     \<and> (\<forall>t. valid_tensor g t \<longrightarrow> in_pass p fn ln t \<longrightarrow> settled_tensor g q t
          \<and> (allocation_type (gi_tensors g ! nat t) = kTfLiteArenaRw \<longrightarrow> placed_in g q t))"
proof -
  let ?ts = "CreateTensorAllocationVector g fn ln p"
  have ts: "set ?ts = {t. valid_tensor g t \<and> in_pass p fn ln t}"
    by (simp add: tensor_order_range in_pass_def)
  have valid: "\<forall>t\<in>set ?ts. valid_tensor g t" using ts by auto
  have dist: "distinct ?ts" by (rule distinct_CreateTensorAllocationVector)
  obtain A where A: "for_each (deallocate_tensor g) ?ts p = ok (p\<lparr>rw_arena := A\<rparr>)"
    "planner_inv g (p\<lparr>rw_arena := A\<rparr>)" "high_water_mark A = high_water_mark (rw_arena p)"
    "\<forall>u. holds_tensor (ordered_allocs A) u \<longleftrightarrow>
        holds_tensor (ordered_allocs (rw_arena p)) u \<and> u \<notin> set ?ts"
    using deallocate_loop [OF inv valid] by auto
  let ?p = "p\<lparr>rw_arena := A\<rparr>"
  have same: "same_plan p ?p" "arena_marks ?p = arena_marks p" "demand g ?p = demand g p"
    using A(3) by (simp_all add: same_plan_def arena_marks_def demand_def [abs_def])
  have le: "demand g p ?ts \<le> demand g p (all_tensors g)"
    using dist valid by (intro demand_le) (auto simp: set_all_tensors distinct_map inj_on_def
        simp del: set_map)
  obtain q where q: "for_each (allocate_tensor g) ?ts ?p = ok q" "planner_inv g q"
    "same_plan ?p q" "arena_marks q \<le> arena_marks ?p + demand g ?p ?ts"
    "\<forall>u. valid_tensor g u \<longrightarrow> u \<notin> set ?ts \<longrightarrow> untouched ?p q u"
    "\<forall>t\<in>set ?ts. settled_tensor g q t
          \<and> (allocation_type (gi_tensors g ! nat t) = kTfLiteArenaRw \<longrightarrow> placed_in g q t)"
    using allocate_tensors_loop [OF A(2) dist valid] A(4) fresh ts room le same by auto
  have "untouched p q u" if "valid_tensor g u" "\<not> in_pass p fn ln u" for u
    using q(5) that ts A(4) by (auto simp: untouched_def)
  moreover have "CalculateAllocations g fn ln p = ok q"
    using A(1) q(1) by (simp add: CalculateAllocations_def Let_def)
  moreover have "arena_marks q \<le> arena_marks p + demand g p (all_tensors g)"
    using q(4) le same by simp
  ultimately show ?thesis
    using q(2,3,6) same(1) same_plan_trans ts by (intro exI [of _ q]) blast
qed

subsection \<open>Temporaries\<close>

text \<open>
  A temporary lives exactly as long as its node. \<open>temp_node\<close> is the last node of the range that
  lists it.
\<close>

definition temp_node :: "graph_info \<Rightarrow> nat list \<Rightarrow> int \<Rightarrow> nat option" where
  "temp_node g is t =
     (case filter (\<lambda>i. t \<in> set (temporaries (gi_nodes g ! i))) (rev is) of
        [] \<Rightarrow> None | i # _ \<Rightarrow> Some i)"

definition with_temps :: "graph_info \<Rightarrow> nat list \<Rightarrow> planner \<Rightarrow> planner" where
  "with_temps g is p = p\<lparr>
     alloc_node := tab (length (alloc_node p)) (\<lambda>x. case temp_node g is (int x) of
        None \<Rightarrow> alloc_node p ! x | Some i \<Rightarrow> int i),
     dealloc_node := tab (length (dealloc_node p)) (\<lambda>x. case temp_node g is (int x) of
        None \<Rightarrow> dealloc_node p ! x | Some i \<Rightarrow> int i)\<rparr>"

lemma temp_node_Nil [simp]: "temp_node g [] t = None"
  by (simp add: temp_node_def)

lemma temp_node_snoc [simp]:
  "temp_node g (is @ [i]) t =
     (if t \<in> set (temporaries (gi_nodes g ! i)) then Some i else temp_node g is t)"
  by (simp add: temp_node_def)

lemma tab_nth_self: "tab (length xs) (\<lambda>x. xs ! x) = xs"
  by (simp add: tab_def map_nth)

lemma assign_temporaries_node:
  assumes "in_range n ts" "length (alloc_node p) = n" "length (dealloc_node p) = n"
  shows "for_each (assign_temporary i) ts p = ok (p\<lparr>
     alloc_node := tab n (\<lambda>x. if int x \<in> set ts then i else alloc_node p ! x),
     dealloc_node := tab n (\<lambda>x. if int x \<in> set ts then i else dealloc_node p ! x)\<rparr>)"
  using assms
proof (induction ts arbitrary: p)
  case Nil
  then show ?case
    using tab_nth_self [of "alloc_node p"] tab_nth_self [of "dealloc_node p"] by simp
next
  case (Cons t ts)
  then have t: "0 \<le> t" "nat t < n" "in_range n ts" by auto
  let ?q = "p\<lparr>alloc_node := (alloc_node p)[nat t := i], dealloc_node := (dealloc_node p)[nat t := i]\<rparr>"
  have "assign_temporary i t p = ok ?q"
    using t Cons.prems by (simp add: assign_temporary_def vec_set_def in_bounds_def)
  moreover have "for_each (assign_temporary i) ts ?q = ok (?q\<lparr>
     alloc_node := tab n (\<lambda>x. if int x \<in> set ts then i else alloc_node ?q ! x),
     dealloc_node := tab n (\<lambda>x. if int x \<in> set ts then i else dealloc_node ?q ! x)\<rparr>)"
    using Cons.IH [OF t(3), of ?q] Cons.prems by simp
  moreover have "tab n (\<lambda>x. if int x \<in> set ts then i else xs[nat t := i] ! x)
      = tab n (\<lambda>x. if int x \<in> set (t # ts) then i else xs ! x)" if "length xs = n" for xs
    using t that by (intro tab_cong) (auto simp: nth_list_update)
  ultimately show ?case using Cons.prems by (simp cong: if_cong)
qed

lemma tab_if_tab: "tab n (\<lambda>x. if P x then c else tab n f ! x) = tab n (\<lambda>x. if P x then c else f x)"
  by (rule tab_cong) simp

lemma case_if_Some:
  "(case if b then Some i else r of None \<Rightarrow> d | Some j \<Rightarrow> h j)
     = (if b then h i else case r of None \<Rightarrow> d | Some j \<Rightarrow> h j)"
  by simp

lemma assign_temporaries_loop:
  assumes "\<forall>i\<in>set is. in_range n (temporaries (gi_nodes g ! i))"
    and "length (alloc_node p) = n" "length (dealloc_node p) = n"
  shows "for_each (\<lambda>i. for_each (assign_temporary (int i)) (temporaries (gi_nodes g ! i))) is p
     = ok (with_temps g is p)"
proof -
  have "\<exists>s'. for_each (\<lambda>i. for_each (assign_temporary (int i)) (temporaries (gi_nodes g ! i))) is p
      = ok s' \<and> s' = with_temps g is p"
  proof (rule for_each_ok_rule [where I = "\<lambda>ys s. s = with_temps g ys p"])
    show "p = with_temps g [] p"
      using tab_nth_self [of "alloc_node p"] tab_nth_self [of "dealloc_node p"]
      by (simp add: with_temps_def)
    fix ys i zs s
    assume e: "is = ys @ i # zs" and s: "s = with_temps g ys p"
    have "in_range n (temporaries (gi_nodes g ! i))" using assms(1) e by simp
    then have "for_each (assign_temporary (int i)) (temporaries (gi_nodes g ! i)) s = ok (s\<lparr>
       alloc_node := tab n (\<lambda>x. if int x \<in> set (temporaries (gi_nodes g ! i)) then int i else alloc_node s ! x),
       dealloc_node := tab n (\<lambda>x. if int x \<in> set (temporaries (gi_nodes g ! i)) then int i else dealloc_node s ! x)\<rparr>)"
      using assms s by (intro assign_temporaries_node) (simp_all add: with_temps_def)
    then show "\<exists>s'. for_each (assign_temporary (int i)) (temporaries (gi_nodes g ! i)) s = ok s'
        \<and> s' = with_temps g (ys @ [i]) p"
      using assms(2,3) by (simp add: s with_temps_def tab_if_tab case_if_Some cong: if_cong)
  qed
  then show ?thesis by blast
qed

subsection \<open>Commit and address resolution\<close>

definition heap_ok :: "heap \<Rightarrow> bool" where
  "heap_ok new_char \<longleftrightarrow> (\<forall>n < 2 ^ 63. fresh_ok (new_char n) n)"

definition buffers_ok :: "planner \<Rightarrow> bool" where
  "buffers_ok p \<longleftrightarrow> buffer_inv (rw_arena p) \<and> buffer_inv (persistent_arena p)
     \<and> arena_alignment (rw_arena p) = kDefaultArenaAlignment
     \<and> arena_alignment (persistent_arena p) = kDefaultArenaAlignment"

text \<open>An arena whose buffer holds its plan.\<close>

definition backed :: "arena \<Rightarrow> bool" where
  "backed A \<longleftrightarrow> buffer_inv A \<and> committed A \<and> underlying_buffer A \<noteq> None
     \<and> 2 * arena_alignment A + high_water_mark A \<le> underlying_buffer_size A"

lemma Commit_backed:
  assumes "heap_ok new_char" "buffer_inv A" "2 * arena_alignment A + high_water_mark A < 2 ^ 63"
  shows "fst (Commit (new_char (RequiredBufferSize A)) A) = kTfLiteOk"
    and "backed (snd (Commit (new_char (RequiredBufferSize A)) A))"
proof -
  let ?f = "new_char (RequiredBufferSize A)"
  have r: "RequiredBufferSize A = 2 * arena_alignment A + high_water_mark A"
    using assms(3) by (intro RequiredBufferSize_exact) simp
  have f: "fresh_ok ?f (RequiredBufferSize A)"
    using assms(1,3) r by (simp add: heap_ok_def)
  have c: "fst (Commit ?f A) = kTfLiteOk" "buffer_inv (snd (Commit ?f A))"
    using Commit_keeps_buffer_inv [OF assms(2) _ f] assms(3) by auto
  show "fst (Commit ?f A) = kTfLiteOk" by (rule c(1))
  have "underlying_buffer (snd (Commit ?f A)) \<noteq> None"
    using c(1) by (auto simp: Commit_def Let_def split: if_splits)
  then show "backed (snd (Commit ?f A))"
    using c(2) Commit_committed [of ?f A] Commit_size [of A ?f] r by (simp add: backed_def)
qed

lemma Commit_sound [simp]: "sound_arena k (snd (Commit fresh A)) = sound_arena k A"
  by (simp add: sound_arena_def arena_inv_def)

lemma PlannerCommit_ok:
  assumes "heap_ok (fst h)" "heap_ok (snd h)" "buffers_ok p" "arena_marks p < 2 ^ 62"
  shows "\<exists>A B. PlannerCommit h p = (kTfLiteOk, p\<lparr>rw_arena := A, persistent_arena := B\<rparr>)
     \<and> backed A \<and> backed B
     \<and> ordered_allocs A = ordered_allocs (rw_arena p)
     \<and> ordered_allocs B = ordered_allocs (persistent_arena p)
     \<and> high_water_mark A = high_water_mark (rw_arena p)
     \<and> high_water_mark B = high_water_mark (persistent_arena p)
     \<and> arena_alignment A = kDefaultArenaAlignment \<and> arena_alignment B = kDefaultArenaAlignment
     \<and> (\<forall>k. sound_arena k A = sound_arena k (rw_arena p)
            \<and> sound_arena k B = sound_arena k (persistent_arena p))"
proof -
  let ?A = "snd (Commit (fst h (RequiredBufferSize (rw_arena p))) (rw_arena p))"
  let ?B = "snd (Commit (snd h (RequiredBufferSize (persistent_arena p))) (persistent_arena p))"
  have b: "buffer_inv (rw_arena p)" "buffer_inv (persistent_arena p)"
    "arena_alignment (rw_arena p) = 64" "arena_alignment (persistent_arena p) = 64"
    using assms(3) by (auto simp: buffers_ok_def)
  have "2 * arena_alignment (rw_arena p) + high_water_mark (rw_arena p) < 2 ^ 63"
    "2 * arena_alignment (persistent_arena p) + high_water_mark (persistent_arena p) < 2 ^ 63"
    using assms(4) b by (auto simp: arena_marks_def)
  note c = Commit_backed [OF assms(1) b(1) this(1)] Commit_backed [OF assms(2) b(2) this(2)]
  have "PlannerCommit h p = (kTfLiteOk, p\<lparr>rw_arena := ?A, persistent_arena := ?B\<rparr>)"
    using c by (simp add: PlannerCommit_def split_def)
  then show ?thesis using c b by (intro exI [of _ ?A] exI [of _ ?B]) simp
qed

text \<open>The address that \<^verbatim>\<open>ResolveTensorAllocation\<close> stores in a tensor.\<close>

definition resolved_addr :: "graph_info \<Rightarrow> planner \<Rightarrow> nat \<Rightarrow> nat" where
  "resolved_addr g p x =
     (let t = gi_tensors g ! x; a = allocs p ! x
      in if allocation_type t = kTfLiteArenaRw \<and> alloc_size a \<noteq> 0
         then ArenaBasePointer (rw_arena p) + alloc_offset a
         else if allocation_type t = kTfLiteArenaRwPersistent
         then (if alloc_size a = 0 then 0 else ArenaBasePointer (persistent_arena p) + alloc_offset a)
         else data_raw t)"

definition with_addresses :: "planner \<Rightarrow> nat \<Rightarrow> graph_info \<Rightarrow> graph_info" where
  "with_addresses p k g = g\<lparr>gi_tensors := tab (num_tensors g)
     (\<lambda>x. if x < k then (gi_tensors g ! x)\<lparr>data_raw := resolved_addr g p x\<rparr> else gi_tensors g ! x)\<rparr>"

text \<open>What address resolution needs of the planner.\<close>

definition resolvable :: "graph_info \<Rightarrow> planner \<Rightarrow> bool" where
  "resolvable g p \<longleftrightarrow> planner_inv g p \<and> backed (rw_arena p) \<and> backed (persistent_arena p)
     \<and> (\<forall>t. valid_tensor g t \<longrightarrow> settled_tensor g p t)"

lemma ResolveAlloc_held:
  assumes "backed A" "0 < alloc_size a" "alloc_offset a + alloc_size a \<le> high_water_mark A"
  shows "ResolveAlloc A a (Some q) = (kTfLiteOk, Some (ArenaBasePointer A + alloc_offset a))"
  using ResolveAlloc_in_buffer [of A] assms by (auto simp: backed_def ArenaBasePointer_def)

lemma ResolveAlloc_empty:
  assumes "backed A" "alloc_size a = 0" "alloc_offset a = 0"
  shows "ResolveAlloc A a (Some q) = (kTfLiteOk, Some 0)"
  using assms by (simp add: ResolveAlloc_def backed_def)

lemma ResolveTensorAllocation_at:
  assumes r: "resolvable g p" and x: "x < num_tensors g"
    and g1: "length (gi_tensors g1) = num_tensors g" "gi_tensors g1 ! x = gi_tensors g ! x"
  shows "ResolveTensorAllocation (int x) (g1, p) = ok (g1\<lparr>gi_tensors :=
      (gi_tensors g1)[x := (gi_tensors g ! x)\<lparr>data_raw := resolved_addr g p x\<rparr>]\<rparr>, p)"
proof -
  let ?t = "gi_tensors g ! x" and ?a = "allocs p ! x"
  have inv: "planner_inv g p" and v: "valid_tensor g (int x)"
    using r x by (auto simp: resolvable_def valid_tensor_def)
  have len: "length (allocs p) = num_tensors g" using planner_invD(1) [OF inv] .
  have st: "settled_tensor g p (int x)" using r v by (simp add: resolvable_def)
  have at: "vec_at (gi_tensors g1) (int x) = Some ?t" "vec_at (allocs p) (int x) = Some ?a"
    using x len g1 by (auto simp: vec_at_def)
  have empty: "alloc_offset ?a = 0" if "alloc_size ?a = 0"
    using planner_invD(10) [OF inv v] that by simp
  have A: "sound_arena (tensor_alignment p) (rw_arena p)" "agrees (allocs p) (ordered_allocs (rw_arena p))"
    "backed (rw_arena p)"
    and B: "sound_arena (tensor_alignment p) (persistent_arena p)"
    "agrees (allocs p) (ordered_allocs (persistent_arena p))" "backed (persistent_arena p)"
    using r planner_invD(4-7) [OF inv] by (auto simp: resolvable_def)
  show ?thesis
  proof (cases "allocation_type ?t = kTfLiteArenaRw \<and> alloc_size ?a \<noteq> 0")
    case True
    then have h: "holds_tensor (ordered_allocs (rw_arena p)) (int x)"
      using st by (simp add: settled_tensor_def)
    have "ResolveAlloc (rw_arena p) ?a (Some (data_raw ?t))
        = (kTfLiteOk, Some (resolved_addr g p x))"
      using ResolveAlloc_held [OF A(3), of ?a] tensor_arena.held_bounds [OF A(1,2) h] True
      by (simp add: resolved_addr_def)
    then show ?thesis
      using True at by (simp add: ResolveTensorAllocation_def)
  next
    case no_rw: False
    show ?thesis
    proof (cases "allocation_type ?t = kTfLiteArenaRwPersistent")
      case True
      have "ResolveAlloc (persistent_arena p) ?a (Some (data_raw ?t))
          = (kTfLiteOk, Some (resolved_addr g p x))"
      proof (cases "alloc_size ?a = 0")
        case zero: True
        then show ?thesis
          using ResolveAlloc_empty [OF B(3)] empty True by (simp add: resolved_addr_def)
      next
        case False
        then have h: "holds_tensor (ordered_allocs (persistent_arena p)) (int x)"
          using st True by (simp add: settled_tensor_def)
        then show ?thesis
          using ResolveAlloc_held [OF B(3), of ?a] tensor_arena.held_bounds [OF B(1,2) h] True False
          by (simp add: resolved_addr_def)
      qed
      then show ?thesis using True at by (simp add: ResolveTensorAllocation_def)
    next
      case False
      have "resolved_addr g p x = data_raw ?t"
        using False no_rw by (auto simp: resolved_addr_def Let_def)
      moreover have "(gi_tensors g1)[x := ?t] = gi_tensors g1"
        using g1(2) by (metis list_update_id)
      ultimately show ?thesis
        using False no_rw at by (auto simp: ResolveTensorAllocation_def)
    qed
  qed
qed

lemma ResolveTensorAllocation_step:
  assumes r: "resolvable g p" and x: "x < num_tensors g"
  shows "ResolveTensorAllocation (int x) (with_addresses p x g, p)
     = ok (with_addresses p (Suc x) g, p)"
proof -
  have upd: "(with_addresses p x g)\<lparr>gi_tensors := (gi_tensors (with_addresses p x g))
      [x := (gi_tensors g ! x)\<lparr>data_raw := resolved_addr g p x\<rparr>]\<rparr>
      = with_addresses p (Suc x) g"
    using x by (simp add: with_addresses_def)
      (rule arg_cong [where f = "\<lambda>ts. g\<lparr>gi_tensors := ts\<rparr>"], rule tab_cong, auto)
  show ?thesis
    by (subst ResolveTensorAllocation_at [OF assms]) (use x upd in \<open>simp_all add: with_addresses_def\<close>)
qed

lemma resolve_loop:
  assumes "resolvable g p"
  shows "for_each ResolveTensorAllocation (all_tensors g) (g, p)
     = ok (with_addresses p (num_tensors g) g, p)"
proof -
  have "\<exists>s. for_each ResolveTensorAllocation (all_tensors g) (g, p) = ok s
      \<and> s = (with_addresses p (length (all_tensors g)) g, p)"
  proof (rule for_each_ok_rule [where I = "\<lambda>ys s. s = (with_addresses p (length ys) g, p)"])
    show "(g, p) = (with_addresses p (length []) g, p)"
      using tab_nth_self [of "gi_tensors g"] by (simp add: with_addresses_def num_tensors_def)
    fix ys t zs s
    assume e: "all_tensors g = ys @ t # zs" and s: "s = (with_addresses p (length ys) g, p)"
    have l: "length ys < num_tensors g" using arg_cong [OF e, of length] by simp
    have "t = all_tensors g ! length ys" by (simp add: e)
    then have "t = int (length ys)" using l by simp
    then show "\<exists>s'. ResolveTensorAllocation t s = ok s'
        \<and> s' = (with_addresses p (length (ys @ [t])) g, p)"
      using ResolveTensorAllocation_step [OF assms l] s by simp
  qed
  then show ?thesis by simp
qed

subsection \<open>One pass\<close>

definition grown :: "graph_info \<Rightarrow> planner \<Rightarrow> planner" where
  "grown g p = p\<lparr>alloc_node := vec_resize (alloc_node p) (num_tensors g) kNodeNotAssigned,
                  dealloc_node := vec_resize (dealloc_node p) (num_tensors g) kNodeNotAssigned,
                  allocs := vec_resize (allocs p) (num_tensors g) alloc_reset\<rparr>"

lemma grown_same: "planner_inv g p \<Longrightarrow> grown g p = p"
  using planner_invD(1-3) [of g p] vec_resize_same [of "allocs p"] vec_resize_same [of "alloc_node p"]
    vec_resize_same [of "dealloc_node p"] by (simp add: grown_def)

lemma planner_inv_with_temps [simp]: "planner_inv g (with_temps g is p) = planner_inv g p"
  by (simp add: planner_inv_def with_temps_def)

lemma with_temps_fields [simp]:
  "allocs (with_temps g is p) = allocs p" "rw_arena (with_temps g is p) = rw_arena p"
  "persistent_arena (with_temps g is p) = persistent_arena p"
  "arena_marks (with_temps g is p) = arena_marks p"
  "demand g (with_temps g is p) ts = demand g p ts"
  "tensor_alignment (with_temps g is p) = tensor_alignment p"
  by (simp_all add: with_temps_def arena_marks_def demand_def)

lemma buffer_inv_plan [simp]:
  "buffer_inv (A\<lparr>ordered_allocs := as\<rparr>) = buffer_inv A"
  "buffer_inv (A\<lparr>high_water_mark := h\<rparr>) = buffer_inv A"
  by (simp_all add: buffer_inv_def cong: option.case_cong)

lemma Allocate_buffers:
  assumes "Allocate k sz t fn ln na A = (st, n, A')"
  shows "buffer_inv A' = buffer_inv A" "arena_alignment A' = arena_alignment A"
  using assms by (auto simp: Allocate_def Let_def split: if_splits prod.splits)

lemma Deallocate_buffers:
  assumes "Deallocate a A = (st, A')"
  shows "buffer_inv A' = buffer_inv A" "arena_alignment A' = arena_alignment A"
  using assms by (auto simp: Deallocate_def Let_def split: if_splits)

lemma buffers_ok_kept:
  assumes "CalculateAllocations g fn ln p = ok q" "buffers_ok p"
  shows "buffers_ok q"
proof -
  let ?ts = "CreateTensorAllocationVector g fn ln p"
  obtain r where r: "for_each (deallocate_tensor g) ?ts p = ok r"
    "for_each (allocate_tensor g) ?ts r = ok q"
    using assms(1) by (auto simp: CalculateAllocations_def Let_def outcome)
  have "buffers_ok r"
    using r(1) assms(2)
  proof (rule for_each_inv_ok)
    fix x s s' assume "buffers_ok s" "deallocate_tensor g x s = ok s'"
    then show "buffers_ok s'"
      using Deallocate_buffers
      by (fastforce simp: deallocate_tensor_def buffers_ok_def split: option.splits if_splits prod.splits)
  qed
  with r(2) show ?thesis
  proof (rule for_each_inv_ok)
    fix x s s' assume "buffers_ok s" "allocate_tensor g x s = ok s'"
    then show "buffers_ok s'"
      using Allocate_buffers
      by (fastforce simp: allocate_tensor_def buffers_ok_def split: option.splits if_splits prod.splits)
  qed
qed

text \<open>
  A pass over nodes \<open>fn\<close> to \<open>ln\<close>. \<open>pass_ready\<close> collects what it needs of the state, of the heap,
  and of the sizes.
\<close>

definition pass_ready :: "heap \<times> heap \<Rightarrow> int \<Rightarrow> int \<Rightarrow> graph_info \<Rightarrow> planner \<Rightarrow> bool" where
  "pass_ready h fn ln g p \<longleftrightarrow>
     wf_graph g \<and> length (allocs p) \<le> num_tensors g \<and> planner_inv g (grown g p)
     \<and> buffers_ok p \<and> heap_ok (fst h) \<and> heap_ok (snd h)
     \<and> arena_marks p + demand g p (all_tensors g) < 2 ^ 62
     \<and> (\<forall>t. valid_tensor g t \<longrightarrow> (let q = with_temps g (execution_range g fn ln) (grown g p) in
            if in_pass q fn ln t then \<not> holds_tensor (ordered_allocs (persistent_arena p)) t
            else settled_tensor g q t))"

lemma grown_fields [simp]:
  "rw_arena (grown g p) = rw_arena p" "persistent_arena (grown g p) = persistent_arena p"
  "arena_marks (grown g p) = arena_marks p" "demand g (grown g p) ts = demand g p ts"
  "tensor_alignment (grown g p) = tensor_alignment p" "buffers_ok (grown g p) = buffers_ok p"
  by (simp_all add: grown_def arena_marks_def demand_def buffers_ok_def)

lemma ExecuteAllocations_ok:
  assumes ready: "pass_ready h fn ln g p"
  defines "q0 \<equiv> with_temps g (execution_range g fn ln) (grown g p)"
  shows "\<exists>q. ExecuteAllocations h fn ln (g, p) = ok (with_addresses q (num_tensors g) g, q)
     \<and> resolvable g q \<and> buffers_ok q \<and> arena_marks q < 2 ^ 62 \<and> same_plan q0 q
     \<and> (\<forall>t. valid_tensor g t \<longrightarrow> in_pass q0 fn ln t \<longrightarrow>
          allocation_type (gi_tensors g ! nat t) = kTfLiteArenaRw \<longrightarrow> placed_in g q t)
     \<and> (\<forall>t. valid_tensor g t \<longrightarrow> \<not> in_pass q0 fn ln t \<longrightarrow> untouched q0 q t)"
proof -
  let ?range = "execution_range g fn ln" and ?g = "grown g p"
  have r: "wf_graph g" "length (allocs p) \<le> num_tensors g" "planner_inv g ?g" "buffers_ok p"
    "heap_ok (fst h)" "heap_ok (snd h)" "arena_marks p + demand g p (all_tensors g) < 2 ^ 62"
    "\<And>t. valid_tensor g t \<Longrightarrow> in_pass q0 fn ln t \<Longrightarrow> \<not> holds_tensor (ordered_allocs (persistent_arena p)) t"
    "\<And>t. valid_tensor g t \<Longrightarrow> \<not> in_pass q0 fn ln t \<Longrightarrow> settled_tensor g q0 t"
    using ready unfolding pass_ready_def q0_def [symmetric] by (auto simp: Let_def)
  have temps: "for_each (\<lambda>i. for_each (assign_temporary (int i)) (temporaries (gi_nodes g ! i)))
      ?range ?g = ok q0"
    unfolding q0_def
    by (rule assign_temporaries_loop [where n = "num_tensors g"])
      (use wf_in_range(6) [OF r(1)] planner_invD(2,3) [OF r(3)] in \<open>auto simp: execution_range_def\<close>)
  have q0: "planner_inv g q0" "arena_marks q0 = arena_marks p"
    "demand g q0 (all_tensors g) = demand g p (all_tensors g)" "buffers_ok q0"
    "persistent_arena q0 = persistent_arena p"
    using r(3,4) by (simp_all add: q0_def buffers_ok_def)
  have fresh: "\<forall>t. in_pass q0 fn ln t \<longrightarrow> \<not> holds_tensor (ordered_allocs (persistent_arena q0)) t"
  proof (intro allI impI)
    fix t assume t: "in_pass q0 fn ln t"
    show "\<not> holds_tensor (ordered_allocs (persistent_arena q0)) t"
    proof
      assume h: "holds_tensor (ordered_allocs (persistent_arena q0)) t"
      then have "valid_tensor g t"
        using agrees_holds(1) [OF planner_invD(7) [OF q0(1)] h] planner_invD(1) [OF q0(1)]
        by (simp add: valid_tensor_def in_bounds_def)
      then show False using r(8) t h q0(5) by simp
    qed
  qed
  have room: "arena_marks q0 + demand g q0 (all_tensors g) < size_t_bound"
    using r(7) q0(2,3) by simp
  obtain c where c: "CalculateAllocations g fn ln q0 = ok c" "planner_inv g c" "same_plan q0 c"
    "arena_marks c \<le> arena_marks q0 + demand g q0 (all_tensors g)"
    "\<And>u. valid_tensor g u \<Longrightarrow> \<not> in_pass q0 fn ln u \<Longrightarrow> untouched q0 c u"
    "\<And>t. valid_tensor g t \<Longrightarrow> in_pass q0 fn ln t \<Longrightarrow> settled_tensor g c t
       \<and> (allocation_type (gi_tensors g ! nat t) = kTfLiteArenaRw \<longrightarrow> placed_in g c t)"
    using CalculateAllocations_ok [OF q0(1) fresh room] by blast
  have marks: "arena_marks c < 2 ^ 62" using c(4) r(7) q0(2,3) by simp
  then obtain A B where cm: "PlannerCommit h c = (kTfLiteOk, c\<lparr>rw_arena := A, persistent_arena := B\<rparr>)"
    "backed A" "backed B" "ordered_allocs A = ordered_allocs (rw_arena c)"
    "ordered_allocs B = ordered_allocs (persistent_arena c)"
    "\<forall>k. sound_arena k A = sound_arena k (rw_arena c) \<and> sound_arena k B = sound_arena k (persistent_arena c)"
    "high_water_mark A = high_water_mark (rw_arena c)"
    "high_water_mark B = high_water_mark (persistent_arena c)"
    "arena_alignment A = kDefaultArenaAlignment" "arena_alignment B = kDefaultArenaAlignment"
    using PlannerCommit_ok [OF r(5,6) buffers_ok_kept [OF c(1) q0(4)]] by blast
  let ?q = "c\<lparr>rw_arena := A, persistent_arena := B\<rparr>"
  have same: "untouched c ?q u" "settled_tensor g ?q u = settled_tensor g c u"
    "placed_in g ?q u = placed_in g c u" for u
    using cm(4,5) by (simp_all add: untouched_def settled_tensor_def placed_in_def)
  have "settled_tensor g c t" if "valid_tensor g t" for t
    using c(5,6) [OF that] r(9) [OF that] untouched_transfer(1) by blast
  moreover have "planner_inv g ?q"
    using c(2) cm(4-6) by (simp add: planner_inv_def)
  ultimately have res: "resolvable g ?q"
    using cm(2,3) same by (simp add: resolvable_def)
  have "ExecuteAllocations h fn ln (g, p) = ok (with_addresses ?q (num_tensors g) g, ?q)"
    using r(2) temps c(1) cm(1) resolve_loop [OF res]
    by (simp add: ExecuteAllocations_def Let_def grown_def)
  moreover have "same_plan q0 ?q" using c(3) by (simp add: same_plan_def)
  moreover have "untouched q0 ?q t" if "valid_tensor g t" "\<not> in_pass q0 fn ln t" for t
    using c(5) [OF that] same(1) [of t] by (simp add: untouched_def)
  moreover have "buffers_ok ?q" "arena_marks ?q < 2 ^ 62"
    using cm(2,3,7-10) marks by (simp_all add: buffers_ok_def arena_marks_def backed_def)
  ultimately show ?thesis using res c(6) same by (intro exI [of _ ?q]) blast
qed

section \<open>From planning to memory\<close>

text \<open>The planner on which the subgraph calls \<^verbatim>\<open>PlanAllocations\<close>, and the sizes it can place.\<close>

definition plannable :: "heap \<times> heap \<Rightarrow> graph_info \<Rightarrow> planner \<Rightarrow> bool" where
  "plannable h g p \<longleftrightarrow> buffers_ok p \<and> 0 < tensor_alignment p
     \<and> tensor_alignment p \<le> kDefaultArenaAlignment
     \<and> heap_ok (fst h) \<and> heap_ok (snd h) \<and> demand g p (all_tensors g) < 2 ^ 62"

lemma planned_fields [simp]:
  "tensor_alignment (planned g p) = tensor_alignment p"
  "ordered_allocs (rw_arena (planned g p)) = []"
  "ordered_allocs (persistent_arena (planned g p)) = []"
  "arena_marks (planned g p) = 0"
  "buffers_ok (planned g p) = buffers_ok p"
  by (simp_all add: planned_def ClearPlan_def arena_marks_def buffers_ok_def buffer_inv_def
      cong: option.case_cong)

lemma planned_inv:
  assumes "plannable h g p"
  shows "planner_inv g (planned g p)"
  using assms
  by (simp add: planner_inv_def plannable_def sound_arena_def agrees_def holds_tensor_def)
    (auto simp: planned_def ClearPlan_def arena_inv_def buffers_ok_def alloc_reset_def)

lemma planned_ready:
  assumes "wf_graph g" "plannable h g p"
  shows "pass_ready h fn ln g (planned g p)"
  using assms planned_inv [OF assms(2)]
  by (simp add: pass_ready_def grown_same plannable_def holds_tensor_def settled_tensor_def Let_def)
    (simp add: planned_def demand_def alloc_reset_def valid_tensor_def)

text \<open>The graphs that run: every tensor has one producer, and scratch memory is private.\<close>

definition single_assignment :: "graph_info \<Rightarrow> bool" where
  "single_assignment g \<longleftrightarrow>
     (\<forall>i<num_execution_nodes g. \<forall>t\<in>set (outputs (gi_nodes g ! i)).
        t \<notin> set (gi_inputs g) \<and> t \<notin> set (gi_variables g)
        \<and> (\<forall>j<num_execution_nodes g. t \<in> set (outputs (gi_nodes g ! j)) \<longrightarrow> i = j))"

definition private_temporaries :: "graph_info \<Rightarrow> bool" where
  "private_temporaries g \<longleftrightarrow>
     (\<forall>i<num_execution_nodes g. \<forall>t\<in>set (temporaries (gi_nodes g ! i)).
        t \<notin> set (gi_inputs g) \<and> t \<notin> set (gi_variables g) \<and> t \<notin> set (gi_outputs g)
        \<and> (\<forall>j<num_execution_nodes g. t \<notin> set (inputs (gi_nodes g ! j))
             \<and> t \<notin> set (outputs (gi_nodes g ! j))
             \<and> (t \<in> set (temporaries (gi_nodes g ! j)) \<longrightarrow> i = j)))"

text \<open>
  A tensor is live at node \<open>m\<close> when it has its value by then and the value is still to be read,
  or is a result. Node \<open>m\<close> writes its outputs and its temporaries.
\<close>

definition live_at :: "graph_info \<Rightarrow> planner \<Rightarrow> nat \<Rightarrow> int \<Rightarrow> bool" where
  "live_at g p m x \<longleftrightarrow>
     (x \<in> set (gi_inputs g) \<union> set (gi_variables g) \<or> (\<exists>i\<le>m. x \<in> set (outputs (gi_nodes g ! i))))
     \<and> ((\<exists>j<num_execution_nodes g. m \<le> j \<and> x \<in> set (inputs (gi_nodes g ! j)))
        \<or> x \<in> set (gi_outputs g) \<union> set (gi_variables g)
        \<or> preserve_inputs p \<and> x \<in> set (gi_inputs g) \<or> preserve_intermediates p)"

definition written_at :: "graph_info \<Rightarrow> nat \<Rightarrow> int \<Rightarrow> bool" where
  "written_at g m y \<longleftrightarrow>
     y \<in> set (outputs (gi_nodes g ! m)) \<or> y \<in> set (temporaries (gi_nodes g ! m))"

lemma first_producer_exists:
  assumes "i < k" "int x \<in> set (outputs (gi_nodes g ! i))"
  shows "\<exists>i'\<le>i. first_producer g k x = Some i'"
proof -
  have "\<exists>i'\<le>i. first_producer g (Suc i) x = Some i'"
    using assms(2) first_producer_lt [of g i x]
    by (auto simp: first_producer_Suc split: option.splits intro: less_imp_le)
  then show ?thesis using first_producer_stable [of g "Suc i" x _ k] assms(1) by auto
qed

lemma last_consumer_exists:
  assumes "j < k" "int x \<in> set (inputs (gi_nodes g ! j))"
  shows "\<exists>j'\<ge>j. last_consumer g k x = Some j'"
  using assms
  by (induction k) (auto simp: last_consumer_Suc less_Suc_eq intro: less_imp_le)

lemma alloc_spec_bounds:
  assumes wf: "wf_graph g" and m: "m < num_execution_nodes g"
    and x: "int x \<in> set (gi_inputs g) \<union> set (gi_variables g)
            \<or> (\<exists>i\<le>m. int x \<in> set (outputs (gi_nodes g ! i)))"
  shows "0 \<le> alloc_spec g (num_execution_nodes g) x"
    "alloc_spec g (num_execution_nodes g) x \<le> int m"
proof -
  have "\<exists>i'\<le>m. first_producer g (num_execution_nodes g) x = Some i'"
    if "i \<le> m" "int x \<in> set (outputs (gi_nodes g ! i))" for i
    using first_producer_exists [OF _ that(2), of "num_execution_nodes g"] that(1) m by fastforce
  then consider "int x \<in> set (gi_inputs g) \<union> set (gi_variables g)"
    | i' where "i' \<le> m" "first_producer g (num_execution_nodes g) x = Some i'"
    using x by blast
  then have "alloc_spec g (num_execution_nodes g) x = 0
      \<or> (\<exists>i'\<le>m. alloc_spec g (num_execution_nodes g) x = int i')"
    by cases (auto simp: alloc_spec_def)
  then show "0 \<le> alloc_spec g (num_execution_nodes g) x"
    "alloc_spec g (num_execution_nodes g) x \<le> int m" by auto
qed

lemma pins_zero: "pins g b x = 0 \<longleftrightarrow>
    int x \<notin> set (gi_outputs g) \<union> set (gi_variables g) \<and> (b \<longrightarrow> int x \<notin> set (gi_inputs g))"
  by (cases b) (simp_all add: pins_def count_list_0_iff flip: of_nat_add)

lemma dealloc_spec_live:
  assumes wf: "wf_graph g" and m: "m < num_execution_nodes g" and live: "live_at g p m (int x)"
  shows "int m \<le> dealloc_spec g p (num_execution_nodes g) x"
proof (cases "dealloc_spec g p (num_execution_nodes g) x = kNodeNotAssigned")
  case True
  then show ?thesis using wf_graphD(7) [OF wf] m by (simp add: kNodeNotAssigned_def)
next
  case False
  then obtain l where l: "last_consumer g (num_execution_nodes g) x = Some l"
    "dealloc_spec g p (num_execution_nodes g) x = int l"
    and p: "\<not> preserve_intermediates p"
      "pins g (preserve_inputs p) x + uses_from g (num_execution_nodes g) x = 0"
    by (auto simp: dealloc_spec_def split: option.splits if_splits)
  have "pins g (preserve_inputs p) x = 0"
    using p(2) pins_nonneg [of g "preserve_inputs p" x] uses_from_nonneg [of g "num_execution_nodes g" x]
    by linarith
  then have "int x \<notin> set (gi_outputs g) \<union> set (gi_variables g)"
    "preserve_inputs p \<longrightarrow> int x \<notin> set (gi_inputs g)"
    by (auto simp: pins_zero)
  with live p(1) obtain j where "j < num_execution_nodes g" "m \<le> j" "int x \<in> set (inputs (gi_nodes g ! j))"
    by (auto simp: live_at_def)
  then have "m \<le> l" using last_consumer_exists l(1) by fastforce
  then show ?thesis using l(2) by simp
qed

lemma dealloc_spec_output:
  assumes wf: "wf_graph g" and ssa: "single_assignment g" and m: "m < num_execution_nodes g"
    and y: "int y \<in> set (outputs (gi_nodes g ! m))"
  shows "int m \<le> dealloc_spec g p (num_execution_nodes g) y"
proof (cases "dealloc_spec g p (num_execution_nodes g) y = kNodeNotAssigned")
  case True
  then show ?thesis using wf_graphD(7) [OF wf] m by (simp add: kNodeNotAssigned_def)
next
  case False
  then obtain l where l: "last_consumer g (num_execution_nodes g) y = Some l"
    "dealloc_spec g p (num_execution_nodes g) y = int l" "alloc_spec g (Suc l) y \<noteq> kNodeNotAssigned"
    by (auto simp: dealloc_spec_def split: option.splits if_splits)
  have ln: "l < num_execution_nodes g" using last_consumer_lt [OF l(1)] by simp
  have "int y \<notin> set (gi_inputs g) \<union> set (gi_variables g)"
    using ssa m y by (auto simp: single_assignment_def)
  then obtain i where i: "first_producer g (Suc l) y = Some i"
    using l(3) by (auto simp: alloc_spec_def split: option.splits)
  then have "i \<le> l" "int y \<in> set (outputs (gi_nodes g ! i))"
    using first_producer_lt [OF i] by auto
  moreover from this have "i = m"
    using ssa m y ln by (auto simp: single_assignment_def)
  ultimately show ?thesis using l(2) by simp
qed

lemma execution_range_all:
  assumes "wf_graph g" "0 < num_execution_nodes g"
  shows "execution_range g 0 (int (num_execution_nodes g) - 1) = [0..<num_execution_nodes g]"
proof -
  have "(int (num_execution_nodes g) - 1) mod 2 ^ 64 = int (num_execution_nodes g) - 1"
    using assms(2) wf_graphD(7) [OF assms(1)] by (intro mod_pos_pos_trivial) auto
  then show ?thesis unfolding execution_range_def by (intro filter_True) auto
qed

lemma temp_node_None:
  "\<forall>i\<in>set is. t \<notin> set (temporaries (gi_nodes g ! i)) \<Longrightarrow> temp_node g is t = None"
  by (induction "is" rule: rev_induct) auto

lemma temp_node_unique:
  assumes "m \<in> set is" "t \<in> set (temporaries (gi_nodes g ! m))"
    and "\<forall>i\<in>set is. t \<in> set (temporaries (gi_nodes g ! i)) \<longrightarrow> i = m"
  shows "temp_node g is t = Some m"
  using assms
proof (induction "is" rule: rev_induct)
  case Nil
  then show ?case by simp
next
  case (snoc i js)
  show ?case
  proof (cases "t \<in> set (temporaries (gi_nodes g ! i))")
    case True
    then have "i = m" using snoc.prems(3) by (metis in_set_conv_decomp)
    then show ?thesis using True by simp
  next
    case False
    then have "m \<in> set js" using snoc.prems(1,2) by (metis Un_iff empty_iff empty_set list.simps(15) insertE set_append)
    moreover have "\<forall>i\<in>set js. t \<in> set (temporaries (gi_nodes g ! i)) \<longrightarrow> i = m"
      using snoc.prems(3) by (metis Un_iff set_append)
    ultimately have "temp_node g js t = Some m" using snoc.IH assms(2) by blast
    then show ?thesis using False by simp
  qed
qed

text \<open>The lifetimes that the first full pass works with.\<close>

definition whole_plan :: "graph_info \<Rightarrow> planner \<Rightarrow> planner" where
  "whole_plan g p = with_temps g (execution_range g 0 (int (num_execution_nodes g) - 1))
                      (grown g (planned g p))"

lemma whole_plan_lifetime:
  assumes wf: "wf_graph g" and pl: "plannable h g p" and x: "x < num_tensors g"
  shows "\<forall>i<num_execution_nodes g. int x \<notin> set (temporaries (gi_nodes g ! i)) \<Longrightarrow>
      alloc_node (whole_plan g p) ! x = alloc_spec g (num_execution_nodes g) x
      \<and> dealloc_node (whole_plan g p) ! x = dealloc_spec g p (num_execution_nodes g) x"
    and "private_temporaries g \<Longrightarrow> m < num_execution_nodes g \<Longrightarrow>
      int x \<in> set (temporaries (gi_nodes g ! m)) \<Longrightarrow>
      alloc_node (whole_plan g p) ! x = int m \<and> dealloc_node (whole_plan g p) ! x = int m"
proof -
  let ?r = "execution_range g 0 (int (num_execution_nodes g) - 1)"
  have w: "whole_plan g p = with_temps g ?r (planned g p)"
    by (simp add: whole_plan_def grown_same [OF planned_inv [OF pl]])
  have fields: "alloc_node (planned g p) = tab (num_tensors g) (alloc_spec g (num_execution_nodes g))"
    "dealloc_node (planned g p) = tab (num_tensors g) (dealloc_spec g p (num_execution_nodes g))"
    by (simp_all add: planned_def)
  show "alloc_node (whole_plan g p) ! x = alloc_spec g (num_execution_nodes g) x
      \<and> dealloc_node (whole_plan g p) ! x = dealloc_spec g p (num_execution_nodes g) x"
    if no: "\<forall>i<num_execution_nodes g. int x \<notin> set (temporaries (gi_nodes g ! i))"
  proof -
    have "temp_node g ?r (int x) = None"
      using no by (intro temp_node_None) (auto simp: execution_range_def)
    then show ?thesis using x by (simp add: w with_temps_def fields)
  qed
  show "alloc_node (whole_plan g p) ! x = int m \<and> dealloc_node (whole_plan g p) ! x = int m"
    if "private_temporaries g" "m < num_execution_nodes g" "int x \<in> set (temporaries (gi_nodes g ! m))"
  proof -
    have "temp_node g ?r (int x) = Some m"
      using that execution_range_all [OF wf]
      by (intro temp_node_unique) (auto simp: private_temporaries_def)
    then show ?thesis using x by (simp add: w with_temps_def fields)
  qed
qed

definition occupies :: "tensor \<Rightarrow> nat set" where
  "occupies t = {data_raw t ..< data_raw t + bytes t}"

text \<open>
  Two tensors of the read-write arena whose lifetimes contain the same node do not overlap, and
  lie inside the buffer.
\<close>

definition covers :: "planner \<Rightarrow> int \<Rightarrow> int \<Rightarrow> bool" where
  "covers p t m \<longleftrightarrow> 0 \<le> alloc_node p ! nat t \<and> alloc_node p ! nat t \<le> m \<and> m \<le> dealloc_node p ! nat t"

definition inside_buffer :: "arena \<Rightarrow> tensor \<Rightarrow> bool" where
  "inside_buffer A t \<longleftrightarrow> (case underlying_buffer A of None \<Rightarrow> False
     | Some b \<Rightarrow> buf_addr b \<le> data_raw t \<and> data_raw t + bytes t \<le> buf_addr b + length (buf_bytes b))"

lemma resolved_disjoint:
  assumes res: "resolvable g q"
    and x: "valid_tensor g x" "placed_in g q x" "allocation_type (gi_tensors g ! nat x) = kTfLiteArenaRw"
    and y: "valid_tensor g y" "placed_in g q y" "allocation_type (gi_tensors g ! nat y) = kTfLiteArenaRw"
    and pos: "0 < bytes (gi_tensors g ! nat x)" "0 < bytes (gi_tensors g ! nat y)"
    and neq: "x \<noteq> y" and lives: "covers q x m" "covers q y m"
  defines "g' \<equiv> with_addresses q (num_tensors g) g"
  shows "occupies (gi_tensors g' ! nat x) \<inter> occupies (gi_tensors g' ! nat y) = {}"
    and "inside_buffer (rw_arena q) (gi_tensors g' ! nat y)"
proof -
  let ?A = "rw_arena q"
  have inv: "planner_inv g q" and backed: "backed ?A" using res by (auto simp: resolvable_def)
  have snd: "sound_arena (tensor_alignment q) ?A" and ag: "agrees (allocs q) (ordered_allocs ?A)"
    using planner_invD [OF inv] by blast+
  have addr: "gi_tensors g' ! nat t = (gi_tensors g ! nat t)\<lparr>data_raw :=
      ArenaBasePointer ?A + alloc_offset (allocs q ! nat t)\<rparr>"
    "alloc_size (allocs q ! nat t) = bytes (gi_tensors g ! nat t)"
    "holds_tensor (ordered_allocs ?A) t"
    if "valid_tensor g t" "placed_in g q t" "allocation_type (gi_tensors g ! nat t) = kTfLiteArenaRw"
      "0 < bytes (gi_tensors g ! nat t)" for t
    using that by (auto simp: g'_def with_addresses_def valid_tensor_def placed_in_def resolved_addr_def)
  note ax = addr [OF x pos(1)] and ay = addr [OF y pos(2)]
  have "used_together (allocs q ! nat x) (allocs q ! nat y)"
    using x(2) y(2) lives by (auto simp: placed_in_def covers_def used_together_def)
  then have "mem_disjoint (allocs q ! nat x) (allocs q ! nat y)"
    using tensor_arena.held_disjoint [OF snd ag ax(3) ay(3) neq] by blast
  then show "occupies (gi_tensors g' ! nat x) \<inter> occupies (gi_tensors g' ! nat y) = {}"
    using ax ay by (auto simp: occupies_def mem_disjoint_def)
  obtain b where b: "underlying_buffer ?A = Some b" using backed by (auto simp: backed_def)
  have "length (buf_bytes b) = underlying_buffer_size ?A"
    using backed b by (simp add: backed_def buffer_inv_def)
  moreover have "buf_addr b \<le> ArenaBasePointer ?A" "ArenaBasePointer ?A < buf_addr b + arena_alignment ?A"
    using buffer_invD [of ?A b] backed b by (auto simp: backed_def ArenaBasePointer_def)
  moreover have "alloc_offset (allocs q ! nat y) + bytes (gi_tensors g ! nat y) \<le> high_water_mark ?A"
    using tensor_arena.held_bounds(2) [OF snd ag ay(3)] ay(2) by simp
  ultimately show "inside_buffer (rw_arena q) (gi_tensors g' ! nat y)"
    using backed b ay(1) by (simp add: inside_buffer_def backed_def)
qed

lemma covers_live:
  assumes "wf_graph g" "private_temporaries g" "plannable h g p" "m < num_execution_nodes g"
    and v: "valid_tensor g x" and live: "live_at g p m x"
  shows "covers (whole_plan g p) x (int m)"
proof -
  obtain n where n: "x = int n" "n < num_tensors g"
    using v by (metis int_nat_eq valid_tensorD)
  have "int n \<notin> set (temporaries (gi_nodes g ! i))" if "i < num_execution_nodes g" for i
  proof
    assume t: "int n \<in> set (temporaries (gi_nodes g ! i))"
    have "int n \<in> set (gi_inputs g) \<union> set (gi_variables g)
      \<or> (\<exists>i\<le>m. int n \<in> set (outputs (gi_nodes g ! i)))"
      using live n by (simp add: live_at_def)
    then show False
      using assms(2,4) that t by (auto simp: private_temporaries_def dest: le_less_trans)
  qed
  then have "alloc_node (whole_plan g p) ! n = alloc_spec g (num_execution_nodes g) n"
    "dealloc_node (whole_plan g p) ! n = dealloc_spec g p (num_execution_nodes g) n"
    using whole_plan_lifetime(1) [OF assms(1,3) n(2)] by auto
  then show ?thesis
    using alloc_spec_bounds [OF assms(1,4)] dealloc_spec_live [OF assms(1,4)] live n
    by (simp add: covers_def live_at_def)
qed

lemma covers_written:
  assumes "wf_graph g" "single_assignment g" "private_temporaries g" "plannable h g p"
    and m: "m < num_execution_nodes g" and v: "valid_tensor g y" and w: "written_at g m y"
  shows "covers (whole_plan g p) y (int m)"
proof -
  obtain n where n: "y = int n" "n < num_tensors g"
    using v by (metis int_nat_eq valid_tensorD)
  show ?thesis
  proof (cases "y \<in> set (temporaries (gi_nodes g ! m))")
    case True
    then show ?thesis
      using whole_plan_lifetime(2) [OF assms(1,4) n(2) assms(3) m] n by (simp add: covers_def)
  next
    case False
    then have out: "int n \<in> set (outputs (gi_nodes g ! m))" using w n by (simp add: written_at_def)
    then have "\<forall>i<num_execution_nodes g. int n \<notin> set (temporaries (gi_nodes g ! i))"
      using assms(3) m by (auto simp: private_temporaries_def)
    then have "alloc_node (whole_plan g p) ! n = alloc_spec g (num_execution_nodes g) n"
      "dealloc_node (whole_plan g p) ! n = dealloc_spec g p (num_execution_nodes g) n"
      using whole_plan_lifetime(1) [OF assms(1,4) n(2)] by auto
    then show ?thesis
      using alloc_spec_bounds [OF assms(1) m, of n] out n
        dealloc_spec_output [OF assms(1,2) m out, of p] by (auto simp: covers_def)
  qed
qed

text \<open>
  C5: after \<^verbatim>\<open>PlanAllocations\<close> and one \<^verbatim>\<open>ExecuteAllocations\<close> over the whole graph, no node
  clobbers a value that is still needed: the memory of a tensor that node \<open>m\<close> writes (an output
  or a temporary) is disjoint from the memory of every other tensor that is live at \<open>m\<close>, and
  lies inside the arena's buffer. Both calls succeed without undefined behaviour.
\<close>

theorem plan_never_clobbers:
  assumes "wf_graph g" "single_assignment g" "private_temporaries g" "plannable h g p"
    and "m < num_execution_nodes g" "written_at g m y" "live_at g p m x" "x \<noteq> y"
    and "valid_tensor g x" "allocation_type (gi_tensors g ! nat x) = kTfLiteArenaRw"
    and "valid_tensor g y" "allocation_type (gi_tensors g ! nat y) = kTfLiteArenaRw"
    and "0 < bytes (gi_tensors g ! nat x)" "0 < bytes (gi_tensors g ! nat y)"
  shows "\<exists>p1 g' q. PlanAllocations g p = ok p1
     \<and> ExecuteAllocations h 0 (int (num_execution_nodes g) - 1) (g, p1) = ok (g', q)
     \<and> occupies (gi_tensors g' ! nat x) \<inter> occupies (gi_tensors g' ! nat y) = {}
     \<and> inside_buffer (rw_arena q) (gi_tensors g' ! nat y)"
proof -
  let ?ln = "int (num_execution_nodes g) - 1"
  obtain q where q: "ExecuteAllocations h 0 ?ln (g, planned g p)
        = ok (with_addresses q (num_tensors g) g, q)"
    "resolvable g q" "same_plan (whole_plan g p) q"
    "\<And>t. valid_tensor g t \<Longrightarrow> in_pass (whole_plan g p) 0 ?ln t \<Longrightarrow>
       allocation_type (gi_tensors g ! nat t) = kTfLiteArenaRw \<Longrightarrow> placed_in g q t"
    using ExecuteAllocations_ok [OF planned_ready [OF assms(1,4)], of 0 ?ln]
    unfolding whole_plan_def [symmetric] by blast
  have cov: "covers (whole_plan g p) x (int m)" "covers (whole_plan g p) y (int m)"
    using covers_live [OF assms(1,3,4,5,9,7)] covers_written [OF assms(1-5,11,6)] by auto
  have pass: "in_pass (whole_plan g p) 0 ?ln t" if "covers (whole_plan g p) t (int m)" for t
    using that assms(5) by (auto simp: in_pass_def covers_def)
  have "covers q x (int m)" "covers q y (int m)"
    using cov q(3) by (simp_all add: covers_def same_plan_def)
  then show ?thesis
    using resolved_disjoint [OF q(2) assms(9) q(4) [OF assms(9) pass [OF cov(1)] assms(10)] assms(10)
        assms(11) q(4) [OF assms(11) pass [OF cov(2)] assms(12)] assms(12) assms(13,14,8)]
      PlanAllocations_eq [OF assms(1), of p] q(1) by blast
qed

abbreviation example_heap :: "heap \<times> heap" where
  "example_heap \<equiv> (\<lambda>n. example_buffer 4096 n 0, \<lambda>n. example_buffer 8192 n 0)"


lemma example_heap_ok: "heap_ok (fst example_heap)" "heap_ok (snd example_heap)"
  by (auto simp: heap_ok_def fresh_ok_def example_buffer_def)

lemma example_graph_discipline:
  "single_assignment example_graph" "private_temporaries example_graph"
  by (auto simp: single_assignment_def private_temporaries_def example_graph_facts example_node_def
      less_2_cases_iff numeral_2_eq_2 less_Suc_eq)

lemma example_plannable: "plannable example_heap example_graph (ArenaPlanner True False 64)"
proof -
  have "demand example_graph (ArenaPlanner True False 64) (all_tensors example_graph) = 320"
    by (simp add: demand_def example_graph_facts upt_rec example_graph_tensor example_tensor_def
        ArenaPlanner_def)
  then show ?thesis
    using example_heap_ok
    by (simp add: plannable_def ArenaPlanner_def buffers_ok_def buffer_inv_def SimpleMemoryArena_def)
qed

theorem plan_never_clobbers_witness:
  "\<exists>p1 g' q. PlanAllocations example_graph (ArenaPlanner True False 64) = ok p1
     \<and> ExecuteAllocations example_heap 0 1 (example_graph, p1) = ok (g', q)
     \<and> occupies (gi_tensors g' ! 1) \<inter> occupies (gi_tensors g' ! 2) = {}
     \<and> inside_buffer (rw_arena q) (gi_tensors g' ! 2)"
proof -
  have "written_at example_graph 1 2"
    by (simp add: written_at_def example_graph_facts example_node_def)
  moreover have "live_at example_graph (ArenaPlanner True False 64) 1 1"
  proof -
    have "\<exists>i\<le>1. 1 \<in> set (outputs (gi_nodes example_graph ! i))"
      by (rule exI [of _ 0]) (simp add: example_graph_facts example_node_def)
    moreover have "\<exists>j<2. 1 \<le> j \<and> 1 \<in> set (inputs (gi_nodes example_graph ! j))"
      by (rule exI [of _ 1]) (simp add: example_graph_facts example_node_def)
    ultimately show ?thesis unfolding live_at_def example_graph_facts(2) by blast
  qed
  ultimately show ?thesis
    using plan_never_clobbers [OF example_graph_wf example_graph_discipline example_plannable, of 1 2 1]
    by (simp add: example_graph_facts example_graph_tensor example_tensor_def valid_tensor_def)
qed

section \<open>Later passes\<close>

text \<open>
  Any pass, over any range of nodes and from any state that \<open>pass_ready\<close> admits, succeeds;
  afterwards two tensors of the read-write arena that are recorded as used together occupy
  disjoint memory, also when one of them was placed by an earlier pass, whose placement the new
  pass leaves alone.
\<close>

theorem ExecuteAllocations_pass:
  assumes "pass_ready h fn ln g p"
  shows "\<exists>g' q. ExecuteAllocations h fn ln (g, p) = ok (g', q) \<and> planner_inv g q
    \<and> (\<forall>t. valid_tensor g t \<longrightarrow>
         \<not> in_pass (with_temps g (execution_range g fn ln) (grown g p)) fn ln t \<longrightarrow>
         allocs q ! nat t = allocs (grown g p) ! nat t)
    \<and> (\<forall>t u. valid_tensor g t \<longrightarrow> valid_tensor g u \<longrightarrow> t \<noteq> u \<longrightarrow>
         allocation_type (gi_tensors g ! nat t) = kTfLiteArenaRw \<longrightarrow>
         allocation_type (gi_tensors g ! nat u) = kTfLiteArenaRw \<longrightarrow>
         used_together (allocs q ! nat t) (allocs q ! nat u) \<longrightarrow>
         {data_raw (gi_tensors g' ! nat t) ..<
            data_raw (gi_tensors g' ! nat t) + alloc_size (allocs q ! nat t)}
         \<inter> {data_raw (gi_tensors g' ! nat u) ..<
            data_raw (gi_tensors g' ! nat u) + alloc_size (allocs q ! nat u)} = {})"
proof -
  obtain q where q: "ExecuteAllocations h fn ln (g, p) = ok (with_addresses q (num_tensors g) g, q)"
    "resolvable g q"
    "\<And>t. valid_tensor g t \<Longrightarrow> \<not> in_pass (with_temps g (execution_range g fn ln) (grown g p)) fn ln t
       \<Longrightarrow> untouched (with_temps g (execution_range g fn ln) (grown g p)) q t"
    using ExecuteAllocations_ok [OF assms] by blast
  let ?g' = "with_addresses q (num_tensors g) g" and ?A = "rw_arena q"
  have inv: "planner_inv g q" using q(2) by (simp add: resolvable_def)
  have snd: "sound_arena (tensor_alignment q) ?A" and ag: "agrees (allocs q) (ordered_allocs ?A)"
    using planner_invD [OF inv] by blast+
  have addr: "data_raw (gi_tensors ?g' ! nat t) = ArenaBasePointer ?A + alloc_offset (allocs q ! nat t)
      \<and> holds_tensor (ordered_allocs ?A) t"
    if "valid_tensor g t" "allocation_type (gi_tensors g ! nat t) = kTfLiteArenaRw"
      "alloc_size (allocs q ! nat t) \<noteq> 0" for t
    using that q(2)
    by (simp add: with_addresses_def valid_tensor_def resolved_addr_def resolvable_def settled_tensor_def)
  have "{data_raw (gi_tensors ?g' ! nat t) ..<
            data_raw (gi_tensors ?g' ! nat t) + alloc_size (allocs q ! nat t)}
         \<inter> {data_raw (gi_tensors ?g' ! nat u) ..<
            data_raw (gi_tensors ?g' ! nat u) + alloc_size (allocs q ! nat u)} = {}"
    if tu: "valid_tensor g t" "valid_tensor g u" "t \<noteq> u"
      "allocation_type (gi_tensors g ! nat t) = kTfLiteArenaRw"
      "allocation_type (gi_tensors g ! nat u) = kTfLiteArenaRw"
      "used_together (allocs q ! nat t) (allocs q ! nat u)" for t u
  proof (cases "alloc_size (allocs q ! nat t) = 0 \<or> alloc_size (allocs q ! nat u) = 0")
    case True
    then show ?thesis by auto
  next
    case False
    then have a: "data_raw (gi_tensors ?g' ! nat t) = ArenaBasePointer ?A + alloc_offset (allocs q ! nat t)
        \<and> holds_tensor (ordered_allocs ?A) t"
      "data_raw (gi_tensors ?g' ! nat u) = ArenaBasePointer ?A + alloc_offset (allocs q ! nat u)
        \<and> holds_tensor (ordered_allocs ?A) u"
      using addr tu by auto
    then have "mem_disjoint (allocs q ! nat t) (allocs q ! nat u)"
      using tensor_arena.held_disjoint [OF snd ag _ _ tu(3,6)] by blast
    then show ?thesis using a by (auto simp: mem_disjoint_def)
  qed
  moreover have "allocs q ! nat t = allocs (grown g p) ! nat t"
    if "valid_tensor g t" "\<not> in_pass (with_temps g (execution_range g fn ln) (grown g p)) fn ln t" for t
    using q(3) [OF that] by (simp add: untouched_def)
  ultimately show ?thesis using q(1) inv by (intro exI [of _ ?g'] exI [of _ q]) blast
qed

lemma example_pass_ready:
  "pass_ready example_heap 0 0 example_graph (planned example_graph (ArenaPlanner True False 64))"
  by (rule planned_ready [OF example_graph_wf example_plannable])

theorem ExecuteAllocations_pass_witness:
  "\<exists>g' q. ExecuteAllocations example_heap 0 0
      (example_graph, planned example_graph (ArenaPlanner True False 64)) = ok (g', q)
    \<and> planner_inv example_graph q"
  using ExecuteAllocations_pass [OF example_pass_ready] by blast

text \<open>The loop that nulls, or resolves, the read-write tensors.\<close>

lemma release_tensor_simps [simp]:
  "allocation_type (release_tensor t) = allocation_type t" "bytes (release_tensor t) = bytes t"
  by (simp_all add: release_tensor_def)

definition released :: "graph_info \<Rightarrow> graph_info" where
  "released g = g\<lparr>gi_tensors := map release_tensor (gi_tensors g)\<rparr>"

lemma released_same [simp]:
  "num_tensors (released g) = num_tensors g"
  "x < num_tensors g \<Longrightarrow>
     allocation_type (gi_tensors (released g) ! x) = allocation_type (gi_tensors g ! x)"
  by (simp_all add: released_def num_tensors_def)

lemma ReleaseBuffer_buffer_inv [simp]:
  "buffer_inv (snd (ReleaseBuffer A)) = (0 < arena_alignment A)"
  by (simp add: ReleaseBuffer_def buffer_inv_def)

lemma released_resolvable:
  assumes res: "resolvable g q" and A: "backed A" "ordered_allocs A = ordered_allocs (rw_arena q)"
    "sound_arena (tensor_alignment q) A"
  shows "resolvable (released g) (q\<lparr>rw_arena := A\<rparr>)"
proof -
  have inv: "planner_inv g q" using res by (simp add: resolvable_def)
  have valid: "valid_tensor (released g) t = valid_tensor g t" for t
    by (simp add: valid_tensor_def)
  have held: "valid_tensor g t" if "holds_tensor (ordered_allocs (rw_arena q)) t
      \<or> holds_tensor (ordered_allocs (persistent_arena q)) t" for t
    using that agrees_holds(1) planner_invD(1,6,7) [OF inv]
    by (metis valid_tensor_def in_bounds_def)
  have "planner_inv (released g) (q\<lparr>rw_arena := A\<rparr>)"
    using inv A held by (simp add: planner_inv_def) (auto simp: valid_tensor_def)
  moreover have "settled_tensor (released g) (q\<lparr>rw_arena := A\<rparr>) t" if "valid_tensor g t" for t
    using res that A(2) by (auto simp: resolvable_def settled_tensor_def valid_tensor_def)
  ultimately show ?thesis
    using res A(1) valid by (simp add: resolvable_def)
qed

text \<open>What \<^verbatim>\<open>AcquireNonPersistentMemory\<close> leaves in the first \<open>k\<close> tensors.\<close>

definition acquired :: "planner \<Rightarrow> nat \<Rightarrow> graph_info \<Rightarrow> graph_info" where
  "acquired p k g = g\<lparr>gi_tensors := tab (num_tensors g)
     (\<lambda>x. if x < k \<and> allocation_type (gi_tensors g ! x) = kTfLiteArenaRw
          then (gi_tensors g ! x)\<lparr>data_raw := resolved_addr g p x\<rparr> else gi_tensors g ! x)\<rparr>"

lemma acquire_loop:
  assumes "resolvable g p"
  shows "for_each resolve_rw_tensor (all_tensors g) (g, p) = ok (acquired p (num_tensors g) g, p)"
proof -
  have "\<exists>s. for_each resolve_rw_tensor (all_tensors g) (g, p) = ok s
      \<and> s = (acquired p (length (all_tensors g)) g, p)"
  proof (rule for_each_ok_rule [where I = "\<lambda>ys s. s = (acquired p (length ys) g, p)"])
    show "(g, p) = (acquired p (length []) g, p)"
      using tab_nth_self [of "gi_tensors g"] by (simp add: acquired_def num_tensors_def)
    fix ys t zs s
    assume e: "all_tensors g = ys @ t # zs" and s: "s = (acquired p (length ys) g, p)"
    let ?x = "length ys"
    have l: "?x < num_tensors g" using arg_cong [OF e, of length] by simp
    have "t = all_tensors g ! ?x" by (simp add: e)
    then have t: "t = int ?x" using l by simp
    have g1: "length (gi_tensors (acquired p ?x g)) = num_tensors g"
      "gi_tensors (acquired p ?x g) ! ?x = gi_tensors g ! ?x"
      using l by (simp_all add: acquired_def)
    have at: "vec_at (gi_tensors (acquired p ?x g)) (int ?x) = Some (gi_tensors g ! ?x)"
      using l g1 by (simp add: vec_at_def)
    show "\<exists>s'. resolve_rw_tensor t s = ok s' \<and> s' = (acquired p (length (ys @ [t])) g, p)"
    proof (cases "allocation_type (gi_tensors g ! ?x) = kTfLiteArenaRw")
      case True
      have "(acquired p ?x g)\<lparr>gi_tensors := (gi_tensors (acquired p ?x g))
          [?x := (gi_tensors g ! ?x)\<lparr>data_raw := resolved_addr g p ?x\<rparr>]\<rparr> = acquired p (Suc ?x) g"
        using l True by (simp add: acquired_def)
          (rule arg_cong [where f = "\<lambda>ts. g\<lparr>gi_tensors := ts\<rparr>"], rule tab_cong, auto)
      then show ?thesis
        using True at ResolveTensorAllocation_at [OF assms l g1] by (simp add: resolve_rw_tensor_def s t)
    next
      case False
      then have "acquired p (Suc ?x) g = acquired p ?x g"
        by (simp add: acquired_def)
          (rule arg_cong [where f = "\<lambda>ts. g\<lparr>gi_tensors := ts\<rparr>"], rule tab_cong,
            auto simp: less_Suc_eq)
      then show ?thesis using False at by (simp add: resolve_rw_tensor_def s t)
    qed
  qed
  then show ?thesis by simp
qed

text \<open>
  C7: \<^verbatim>\<open>ReleaseNonPersistentMemory\<close> nulls exactly the read-write tensors and frees their buffer;
  \<^verbatim>\<open>AcquireNonPersistentMemory\<close> then gives each of them the address it had relative to the arena's
  base, in the new buffer, and touches no other tensor.
\<close>

theorem Release_Acquire:
  assumes "resolvable g q" "buffers_ok q" "heap_ok new_char" "arena_marks q < 2 ^ 62"
  shows "\<exists>g1 q1 g2 q2. ReleaseNonPersistentMemory (g, q) = ok (g1, q1)
    \<and> \<not> HasNonPersistentMemory q1
    \<and> gi_tensors g1 = map release_tensor (gi_tensors g)
    \<and> AcquireNonPersistentMemory new_char (g1, q1) = ok (g2, q2)
    \<and> HasNonPersistentMemory q2
    \<and> (\<forall>x<num_tensors g.
         if allocation_type (gi_tensors g ! x) = kTfLiteArenaRw \<and> alloc_size (allocs q ! x) \<noteq> 0
         then data_raw (gi_tensors g2 ! x)
                = ArenaBasePointer (rw_arena q2) + alloc_offset (allocs q ! x)
         else if allocation_type (gi_tensors g ! x) = kTfLiteArenaRw
         then data_raw (gi_tensors g2 ! x) = 0
         else gi_tensors g2 ! x = gi_tensors g ! x)"
proof -
  let ?R = "snd (ReleaseBuffer (rw_arena q))"
  let ?A = "snd (Commit (new_char (RequiredBufferSize ?R)) ?R)"
  let ?q1 = "q\<lparr>rw_arena := ?R\<rparr>" and ?q2 = "q\<lparr>rw_arena := ?A\<rparr>"
  have b: "buffer_inv (rw_arena q)" "arena_alignment (rw_arena q) = 64"
    using assms(2) by (auto simp: buffers_ok_def)
  have R: "ordered_allocs ?R = ordered_allocs (rw_arena q)" "arena_alignment ?R = 64"
    "high_water_mark ?R = high_water_mark (rw_arena q)"
    "sound_arena k ?R = sound_arena k (rw_arena q)" for k
    using b by (simp_all add: ReleaseBuffer_def sound_arena_def arena_inv_def)
  have "2 * arena_alignment ?R + high_water_mark ?R < 2 ^ 63"
    using assms(4) R by (auto simp: arena_marks_def)
  note c = Commit_backed [OF assms(3) _ this]
  have bk: "fst (Commit (new_char (RequiredBufferSize ?R)) ?R) = kTfLiteOk" "backed ?A"
    using c b R(2) by auto
  have snd: "sound_arena (tensor_alignment q) ?A"
    using planner_invD(4) [of g q] assms(1) R(4) by (simp add: resolvable_def)
  have res: "resolvable (released g) ?q2"
    using released_resolvable [OF assms(1) bk(2) _ snd] R(1) by simp
  have run: "ReleaseNonPersistentMemory (g, q) = ok (released g, ?q1)"
    by (simp add: ReleaseNonPersistentMemory_def ReleaseBuffer_def released_def)
  have acq: "AcquireNonPersistentMemory new_char (released g, ?q1)
      = ok (acquired ?q2 (num_tensors (released g)) (released g), ?q2)"
    using bk(1) acquire_loop [OF res] by (simp add: AcquireNonPersistentMemory_def split_def Let_def)
  have none: "\<not> HasNonPersistentMemory ?q1"
    by (simp add: HasNonPersistentMemory_def GetBufferSize_def ReleaseBuffer_def)
  have some: "HasNonPersistentMemory ?q2"
    using bk(2) R(2) by (simp add: HasNonPersistentMemory_def GetBufferSize_def backed_def)
  have tens: "gi_tensors (acquired ?q2 (num_tensors (released g)) (released g)) ! x
      = (if allocation_type (gi_tensors g ! x) = kTfLiteArenaRw
         then (release_tensor (gi_tensors g ! x))\<lparr>data_raw := resolved_addr (released g) ?q2 x\<rparr>
         else gi_tensors g ! x)" if "x < num_tensors g" for x
    using that by (simp add: acquired_def released_def num_tensors_def release_tensor_def)
  have addr: "resolved_addr (released g) ?q2 x = (if alloc_size (allocs q ! x) \<noteq> 0
      then ArenaBasePointer ?A + alloc_offset (allocs q ! x) else 0)"
    if "x < num_tensors g" "allocation_type (gi_tensors g ! x) = kTfLiteArenaRw" for x
    using that by (simp add: resolved_addr_def released_def num_tensors_def release_tensor_def)
  show ?thesis
    using run none acq some tens addr
    by (intro exI [of _ "released g"] exI [of _ ?q1]
        exI [of _ "acquired ?q2 (num_tensors (released g)) (released g)"] exI [of _ ?q2] conjI)
      (auto simp: released_def)
qed


theorem Release_Acquire_witness:
  "\<exists>q g1 q1 g2 q2. resolvable example_graph q
    \<and> ReleaseNonPersistentMemory (example_graph, q) = ok (g1, q1)
    \<and> AcquireNonPersistentMemory (fst example_heap) (g1, q1) = ok (g2, q2)
    \<and> HasNonPersistentMemory q2"
proof -
  obtain q where "resolvable example_graph q" "buffers_ok q" "arena_marks q < 2 ^ 62"
    using ExecuteAllocations_ok [OF example_pass_ready] by blast
  then show ?thesis
    using Release_Acquire [OF _ _ example_heap_ok(1)] by blast
qed


section \<open>Forgetting later nodes\<close>

definition drops :: "graph_info \<Rightarrow> planner \<Rightarrow> int \<Rightarrow> nat \<Rightarrow> bool" where
  "drops g p node x \<longleftrightarrow> alloc_first_node (allocs p ! x) > node \<and> alloc_size (allocs p ! x) > 0
     \<and> allocation_type (gi_tensors g ! x) = kTfLiteArenaRw"

definition reset_until :: "graph_info \<Rightarrow> planner \<Rightarrow> int \<Rightarrow> nat \<Rightarrow> graph_info \<times> planner \<Rightarrow> bool" where
  "reset_until g p node k = (\<lambda>(g', q). planner_inv g' q
     \<and> g' = g\<lparr>gi_tensors := tab (num_tensors g) (\<lambda>x. if x < k \<and> drops g p node x
           then (gi_tensors g ! x)\<lparr>data_raw := 0\<rparr> else gi_tensors g ! x)\<rparr>
     \<and> allocs q = tab (num_tensors g) (\<lambda>x. if x < k \<and> drops g p node x then alloc_reset
           else allocs p ! x)
     \<and> (\<exists>A. q = p\<lparr>rw_arena := A, allocs := allocs q\<rparr>
           \<and> (\<forall>t. holds_tensor (ordered_allocs A) t \<longleftrightarrow> holds_tensor (ordered_allocs (rw_arena p)) t
                \<and> \<not> (nat t < k \<and> drops g p node (nat t)))))"

lemma reset_step:
  assumes inv: "planner_inv g p" and x: "x < num_tensors g"
    and st: "reset_until g p node x (g', q)"
  shows "\<exists>s. reset_allocation_after node x (g', q) = ok s \<and> reset_until g p node (Suc x) s"
proof -
  obtain A where A: "q = p\<lparr>rw_arena := A, allocs := allocs q\<rparr>"
    "\<forall>t. holds_tensor (ordered_allocs A) t \<longleftrightarrow> holds_tensor (ordered_allocs (rw_arena p)) t
                \<and> \<not> (nat t < x \<and> drops g p node (nat t))"
    and g': "g' = g\<lparr>gi_tensors := tab (num_tensors g) (\<lambda>y. if y < x \<and> drops g p node y
           then (gi_tensors g ! y)\<lparr>data_raw := 0\<rparr> else gi_tensors g ! y)\<rparr>"
    and al: "allocs q = tab (num_tensors g) (\<lambda>y. if y < x \<and> drops g p node y then alloc_reset
           else allocs p ! y)"
    and inv': "planner_inv g' q"
    using st by (auto simp: reset_until_def)
  have qA: "rw_arena q = A" by (subst A(1)) simp
  have at: "allocs q ! x = allocs p ! x" "vec_at (gi_tensors g') (int x) = Some (gi_tensors g ! x)"
    using x by (simp_all add: al g' vec_at_def)
  have step: "(if y < Suc x \<and> drops g p node y then a else b)
      = (if y = x \<and> drops g p node x then a else if y < x \<and> drops g p node y then a else b)"
    for y and a b :: 'z
    by (auto simp: less_Suc_eq)
  show ?thesis
  proof (cases "drops g p node x")
    case False
    then have "reset_allocation_after node x (g', q) = ok (g', q)"
      using at by (auto simp: reset_allocation_after_def drops_def Let_def)
    moreover have "(y < Suc x \<and> drops g p node y) = (y < x \<and> drops g p node y)" for y
      using False by (auto simp: less_Suc_eq)
    then have "reset_until g p node (Suc x) = reset_until g p node x"
      by (simp add: reset_until_def)
    ultimately show ?thesis using st by simp
  next
    case True
    let ?a = "allocs p ! x"
    obtain st B where d: "Deallocate ?a A = (st, B)" by (cases "Deallocate ?a A")
    have snd: "sound_arena (tensor_alignment q) A" and ag: "agrees (allocs q) (ordered_allocs A)"
      using planner_invD [OF inv'] qA by blast+
    have pos: "0 < alloc_size ?a" using True by (simp add: drops_def)
    note r = tensor_arena.remove_agrees [OF snd d pos ag]
    note gd = tensor_arena.remove_good [OF snd d]
    have tn: "alloc_tensor ?a = int x"
      using planner_invD(10) [OF inv, of "int x"] x pos by (auto simp: valid_tensor_def)
    let ?g = "g'\<lparr>gi_tensors := (gi_tensors g')[x := (gi_tensors g ! x)\<lparr>data_raw := 0\<rparr>]\<rparr>"
    let ?q = "q\<lparr>rw_arena := B, allocs := (allocs q)[x := alloc_reset]\<rparr>"
    have run: "reset_allocation_after node x (g', q) = ok (?g, ?q)"
      using True at d r(1) qA by (simp add: reset_allocation_after_def drops_def)
    have out: "\<not> holds_tensor (ordered_allocs B) (int x)"
      "\<not> holds_tensor (ordered_allocs (persistent_arena q)) (int x)"
      using r(3) tn planner_invD(9) [OF inv', of "int x"] True x
      by (auto simp: drops_def g')
    have "planner_inv ?g ?q"
    proof -
      have n: "num_tensors ?g = num_tensors g'" "num_tensors g' = num_tensors g"
        by (simp_all add: num_tensors_def g')
      have ty: "allocation_type (gi_tensors ?g ! y) = allocation_type (gi_tensors g' ! y)" for y
        using at(2) by (cases "y = x") (auto simp: vec)
      have "agrees ((allocs q)[x := alloc_reset]) (ordered_allocs B)"
        "agrees ((allocs q)[x := alloc_reset]) (ordered_allocs (persistent_arena q))"
        using agrees_update_other [OF r(2) out(1), of alloc_reset]
          agrees_update_other [OF planner_invD(7) [OF inv'] out(2), of alloc_reset] by simp_all
      moreover have "\<forall>i<num_tensors g'. if alloc_size ((allocs q)[x := alloc_reset] ! i) = 0
          then alloc_offset ((allocs q)[x := alloc_reset] ! i) = 0
          else alloc_tensor ((allocs q)[x := alloc_reset] ! i) = int i"
      proof (intro allI impI)
        fix i assume i: "i < num_tensors g'"
        show "if alloc_size ((allocs q)[x := alloc_reset] ! i) = 0
          then alloc_offset ((allocs q)[x := alloc_reset] ! i) = 0
          else alloc_tensor ((allocs q)[x := alloc_reset] ! i) = int i"
          using i inv' x planner_invD(1) [OF inv'] n(2)
          by (cases "i = x") (simp_all add: planner_inv_def, simp add: alloc_reset_def)
      qed
      ultimately show ?thesis
        using inv' gd r(3) qA ty by (simp add: planner_inv_def n(1))
    qed
    moreover have "gi_tensors ?g = tab (num_tensors g) (\<lambda>y. if y < Suc x \<and> drops g p node y
           then (gi_tensors g ! y)\<lparr>data_raw := 0\<rparr> else gi_tensors g ! y)"
      using x True by (simp add: g') (rule tab_cong, auto simp: less_Suc_eq)
    moreover have "allocs ?q = tab (num_tensors g) (\<lambda>y. if y < Suc x \<and> drops g p node y
           then alloc_reset else allocs p ! y)"
      using x True by (simp add: al) (rule tab_cong, auto simp: less_Suc_eq)
    moreover have "?q = p\<lparr>rw_arena := B, allocs := allocs ?q\<rparr>"
      by (subst A(1)) simp
    moreover have "holds_tensor (ordered_allocs B) t \<longleftrightarrow> holds_tensor (ordered_allocs (rw_arena p)) t
                \<and> \<not> (nat t < Suc x \<and> drops g p node (nat t))" for t
    proof (cases "holds_tensor (ordered_allocs (rw_arena p)) t")
      case held: True
      then have "0 \<le> t" using holds_valid [OF inv] valid_tensorD by blast
      then have "t = int x \<longleftrightarrow> nat t = x" by auto
      then show ?thesis
        using held r(3) [of t] A(2) [rule_format, of t] tn True
        by (cases "nat t = x") (simp_all add: less_Suc_eq)
    next
      case False
      then show ?thesis using r(3) [of t] A(2) [rule_format, of t] by simp
    qed
    ultimately have "reset_until g p node (Suc x) (?g, ?q)"
      unfolding reset_until_def prod.case
      by (intro conjI exI [of _ B]) (simp_all add: g')
    then show ?thesis using run by blast
  qed
qed

text \<open>
  \<^verbatim>\<open>ResetAllocationsAfter(node)\<close> removes from the arena exactly the read-write tensors first
  used after \<open>node\<close>, resets their entries and nulls their data; all others keep entry and data,
  and the planner's invariant holds again, so that the nodes can be planned afresh.
\<close>

theorem ResetAllocationsAfter_exact:
  assumes inv: "planner_inv g p"
  shows "\<exists>g' q. ResetAllocationsAfter node (g, p) = ok (g', q) \<and> planner_inv g' q
    \<and> (\<forall>x<num_tensors g. if drops g p node x
         then allocs q ! x = alloc_reset \<and> data_raw (gi_tensors g' ! x) = 0
           \<and> \<not> holds_tensor (ordered_allocs (rw_arena q)) (int x)
         else allocs q ! x = allocs p ! x \<and> gi_tensors g' ! x = gi_tensors g ! x
           \<and> holds_tensor (ordered_allocs (rw_arena q)) (int x)
               = holds_tensor (ordered_allocs (rw_arena p)) (int x))"
proof -
  let ?xs = "[0..<num_tensors g]"
  have "\<exists>s. for_each (reset_allocation_after node) ?xs (g, p) = ok s
      \<and> reset_until g p node (length ?xs) s"
  proof (rule for_each_ok_rule [where I = "\<lambda>ys s. reset_until g p node (length ys) s"])
    show "reset_until g p node (length []) (g, p)"
      using inv tab_nth_self [of "gi_tensors g"] tab_nth_self [of "allocs p"] planner_invD(1) [OF inv]
      by (auto simp: reset_until_def num_tensors_def intro!: exI [of _ "rw_arena p"])
    fix ys x zs s
    assume e: "?xs = ys @ x # zs" and s: "reset_until g p node (length ys) s"
    have l: "length ys < num_tensors g" using arg_cong [OF e, of length] by simp
    have "x = ?xs ! length ys" by (simp add: e)
    then have "x = length ys" using l by simp
    then show "\<exists>s'. reset_allocation_after node x s = ok s' \<and> reset_until g p node (length (ys @ [x])) s'"
      using reset_step [OF inv l, of node] s by (cases s) simp
  qed
  then obtain g' q where r: "for_each (reset_allocation_after node) ?xs (g, p) = ok (g', q)"
    "reset_until g p node (num_tensors g) (g', q)" by auto
  have "ResetAllocationsAfter node (g, p) = ok (g', q)"
    using r(1) planner_invD(1) [OF inv] by (simp add: ResetAllocationsAfter_def)
  moreover obtain A where A: "q = p\<lparr>rw_arena := A, allocs := allocs q\<rparr>"
    "\<forall>t. holds_tensor (ordered_allocs A) t \<longleftrightarrow> holds_tensor (ordered_allocs (rw_arena p)) t
                \<and> \<not> (nat t < num_tensors g \<and> drops g p node (nat t))"
    using r(2) by (auto simp: reset_until_def)
  moreover have "rw_arena q = A" by (subst A(1)) simp
  moreover have "planner_inv g' q"
    "gi_tensors g' = tab (num_tensors g) (\<lambda>x. if x < num_tensors g \<and> drops g p node x
           then (gi_tensors g ! x)\<lparr>data_raw := 0\<rparr> else gi_tensors g ! x)"
    "allocs q = tab (num_tensors g) (\<lambda>x. if x < num_tensors g \<and> drops g p node x then alloc_reset
           else allocs p ! x)"
    using r(2) by (auto simp: reset_until_def)
  ultimately show ?thesis
    by (intro exI [of _ g'] exI [of _ q]) simp
qed


theorem ResetAllocationsAfter_exact_witness:
  "\<exists>g' q. ResetAllocationsAfter 0
      (example_graph, planned example_graph (ArenaPlanner True False 64)) = ok (g', q)
    \<and> planner_inv g' q"
  using ResetAllocationsAfter_exact [OF planned_inv [OF example_plannable], of 0] by blast

end
