(* ===== verification/Graph_Partition.thy ===== *)
theory Graph_Partition
  imports Graph_Info "HOL-Library.Monad_Syntax"
begin

text \<open>
  \<^verbatim>\<open>tensorflow/lite/graph_info.{h,cc}\<close>: partitioning of an execution plan into subsets of nodes
  that a delegate takes or leaves.

  \<open>partition\<close> is the state of \<^verbatim>\<open>PartitionGraphIntoIndependentNodeSubsetsImpl\<close> that changes; the
  graph and the vector \<^verbatim>\<open>node_type_\<close> are arguments. Accesses out of bounds, and \<^verbatim>\<open>back()\<close> of an
  empty vector, are \<^term>\<open>None\<close>. The two \<^verbatim>\<open>while (true)\<close> loops are recursive functions whose
  termination is proved: each round that continues assigns a node to an epoch.
\<close>

section \<open>State\<close>

datatype node_subset_type = kTfUnexplored | kTfPartition | kTfNonPartition

record node_subset =
  subset_type :: node_subset_type
  subset_nodes :: "int list"
  input_tensors :: "int list"
  output_tensors :: "int list"

definition NodeSubset :: node_subset where
  "NodeSubset = \<lparr>subset_type = kTfUnexplored, subset_nodes = [], input_tensors = [],
                 output_tensors = []\<rparr>"

definition kEpochNotReady :: int where
  "kEpochNotReady = -1"

definition kEpochAlwaysReady :: int where
  "kEpochAlwaysReady = -2"

record partition =
  node_subsets :: "node_subset list"
  tensor_epochs :: "int list"
  node_epochs :: "int list"

text \<open>\<open>v[t] = x\<close> for each \<open>t\<close> of a list.\<close>

primrec vec_set_all :: "'a \<Rightarrow> int list \<Rightarrow> 'a list \<Rightarrow> 'a list option" where
  "vec_set_all x [] xs = Some xs"
| "vec_set_all x (t # ts) xs = do { ys \<leftarrow> vec_set xs t x; vec_set_all x ts ys }"

definition node_types :: "graph_info \<Rightarrow> int list \<Rightarrow> node_subset_type list option" where
  "node_types g nodes_to_partition =
     vec_set_all kTfPartition nodes_to_partition (replicate (gi_num_total_nodes g) kTfNonPartition)"

section \<open>One node\<close>

primrec inputs_ready :: "int list \<Rightarrow> int list \<Rightarrow> bool option" where
  "inputs_ready epochs [] = Some True"
| "inputs_ready epochs (t # ts) =
     (if t = kTfLiteOptionalTensor then inputs_ready epochs ts
      else do {
        e \<leftarrow> vec_at epochs t;
        if e = kEpochNotReady then Some False else inputs_ready epochs ts })"

definition push_input :: "int \<Rightarrow> int \<Rightarrow> node_subset list \<Rightarrow> node_subset list option" where
  "push_input k t subs = do {
     s \<leftarrow> vec_at subs k;
     vec_set subs k (s\<lparr>input_tensors := input_tensors s @ [t]\<rparr>) }"

definition push_output :: "int \<Rightarrow> int \<Rightarrow> node_subset list \<Rightarrow> node_subset list option" where
  "push_output k t subs = do {
     s \<leftarrow> vec_at subs k;
     vec_set subs k (s\<lparr>output_tensors := output_tensors s @ [t]\<rparr>) }"

primrec record_inputs ::
  "int list \<Rightarrow> int \<Rightarrow> int list \<Rightarrow> node_subset list \<Rightarrow> node_subset list option" where
  "record_inputs epochs node_epoch [] subs = Some subs"
| "record_inputs epochs node_epoch (t # ts) subs =
     (if t = kTfLiteOptionalTensor then record_inputs epochs node_epoch ts subs
      else do {
        input_epoch \<leftarrow> vec_at epochs t;
        subs \<leftarrow> (if input_epoch \<noteq> node_epoch
                 then do {
                   subs \<leftarrow> push_input node_epoch t subs;
                   if input_epoch \<ge> 0 then push_output input_epoch t subs else Some subs }
                 else Some subs);
        record_inputs epochs node_epoch ts subs })"

definition UpdateNode ::
  "graph_info \<Rightarrow> node_subset_type list \<Rightarrow> nat \<Rightarrow> partition \<Rightarrow> (bool \<times> partition) option" where
  "UpdateNode g node_type i s = (if node_subsets s = [] then None else do {
     nd \<leftarrow> vec_at (gi_nodes g) (int i);
     epoch \<leftarrow> vec_at (node_epochs s) (int i);
     if epoch \<noteq> kEpochNotReady then Some (False, s)
     else do {
       ready \<leftarrow> inputs_ready (tensor_epochs s) (inputs nd);
       if \<not> ready then Some (False, s)
       else do {
         original \<leftarrow> vec_at (gi_node_index g) (int i);
         type \<leftarrow> vec_at node_type original;
         let k = length (node_subsets s) - 1;
         let cur = node_subsets s ! k;
         let cur = (if subset_type cur = kTfUnexplored then cur\<lparr>subset_type := type\<rparr> else cur);
         if subset_type cur = type
         then do {
           let cur = cur\<lparr>subset_nodes := subset_nodes cur @ [original]\<rparr>;
           epochs \<leftarrow> vec_set_all (int k) (outputs nd) (tensor_epochs s);
           subs \<leftarrow> record_inputs epochs (int k) (inputs nd) ((node_subsets s)[k := cur]);
           Some (True, \<lparr>node_subsets = subs, tensor_epochs = epochs,
                        node_epochs = (node_epochs s)[i := int k]\<rparr>) }
         else Some (False, s\<lparr>node_subsets := (node_subsets s)[k := cur]\<rparr>) }}})"

section \<open>The loops\<close>

primrec sweep ::
  "graph_info \<Rightarrow> node_subset_type list \<Rightarrow> nat list \<Rightarrow> bool \<Rightarrow> partition \<Rightarrow> (bool \<times> partition) option"
where
  "sweep g node_type [] did_something s = Some (did_something, s)"
| "sweep g node_type (i # is) did_something s = do {
     r \<leftarrow> UpdateNode g node_type i s;
     sweep g node_type is (did_something \<or> fst r) (snd r) }"

definition unassigned :: "partition \<Rightarrow> nat" where
  "unassigned s = length (filter (\<lambda>e. e = kEpochNotReady) (node_epochs s))"

lemma length_filter_update:
  "i < length xs \<Longrightarrow> P (xs ! i) \<Longrightarrow> \<not> P y \<Longrightarrow>
   Suc (length (filter P (xs[i := y]))) = length (filter P xs)"
  by (induction xs arbitrary: i) (auto split: nat.splits)

lemma UpdateNode_unassigned:
  assumes "UpdateNode g ty i s = Some (b, s')"
  shows "unassigned s' + (if b then 1 else 0) = unassigned s"
proof (cases b)
  case False
  then show ?thesis
    using assms
    by (auto simp: UpdateNode_def unassigned_def Let_def split: bind_splits if_splits)
next
  case True
  then have e: "node_epochs s ! i = kEpochNotReady" "i < length (node_epochs s)"
    "node_epochs s' = (node_epochs s)[i := int (length (node_subsets s) - 1)]"
    using assms
    by (auto simp: UpdateNode_def Let_def vec split: bind_splits if_splits)
  have "int (length (node_subsets s) - 1) \<noteq> kEpochNotReady" by (simp add: kEpochNotReady_def)
  then show ?thesis
    using True e length_filter_update [OF e(2), of "\<lambda>e. e = kEpochNotReady"]
    by (simp add: unassigned_def)
qed

lemma sweep_unassigned:
  "sweep g ty is d s = Some (b, s') \<Longrightarrow>
     unassigned s' \<le> unassigned s \<and> (b \<and> \<not> d \<longrightarrow> unassigned s' < unassigned s)"
proof (induction "is" arbitrary: d s)
  case Nil
  then show ?case by simp
next
  case (Cons i js)
  then obtain c t where t: "UpdateNode g ty i s = Some (c, t)" "sweep g ty js (d \<or> c) t = Some (b, s')"
    by (auto split: bind_splits)
  then show ?case
    using Cons.IH [OF t(2)] UpdateNode_unassigned [OF t(1)] by (auto split: if_splits)
qed

function build_loop ::
  "graph_info \<Rightarrow> node_subset_type list \<Rightarrow> partition \<Rightarrow> partition option" where
  "build_loop g node_type s =
     (case sweep g node_type [0..<num_execution_nodes g] False s of
        None \<Rightarrow> None
      | Some (did_something, s') \<Rightarrow>
          if did_something then build_loop g node_type s' else Some s')"
  by pat_completeness auto
termination
  by (relation "measure (\<lambda>(g, ty, s). unassigned s)") (auto dest: sweep_unassigned)

declare build_loop.simps [simp del]

definition BuildNodeSubset ::
  "graph_info \<Rightarrow> node_subset_type list \<Rightarrow> partition \<Rightarrow> partition option" where
  "BuildNodeSubset g node_type s =
     build_loop g node_type (s\<lparr>node_subsets := node_subsets s @ [NodeSubset]\<rparr>)"

lemma UpdateNode_idle:
  "UpdateNode g ty i s = Some (False, s') \<Longrightarrow>
   map subset_nodes (node_subsets s') = map subset_nodes (node_subsets s)"
  by (auto simp: UpdateNode_def Let_def map_update split: bind_splits if_splits
      intro!: list_update_id)

lemma sweep_sticky: "sweep g ty is True s = Some (b, s') \<Longrightarrow> b"
  by (induction "is" arbitrary: s) (auto split: bind_splits)

lemma sweep_idle:
  "sweep g ty is d s = Some (False, s') \<Longrightarrow>
   map subset_nodes (node_subsets s') = map subset_nodes (node_subsets s)"
proof (induction "is" arbitrary: d s)
  case Nil
  then show ?case by simp
next
  case (Cons i js)
  then obtain c t where t: "UpdateNode g ty i s = Some (c, t)" "sweep g ty js (d \<or> c) t = Some (False, s')"
    by (auto split: bind_splits)
  then have "\<not> c" using sweep_sticky [of g ty js t False s'] by (cases c) auto
  then show ?case
    using Cons.IH [OF t(2)] UpdateNode_idle [of g ty i s t] t(1) by simp
qed

lemma build_loop_unfold:
  assumes "build_loop g ty s = Some s'"
  obtains t where "sweep g ty [0..<num_execution_nodes g] False s = Some (True, t)"
      "build_loop g ty t = Some s'"
  | "sweep g ty [0..<num_execution_nodes g] False s = Some (False, s')"
  using assms by (subst (asm) build_loop.simps) (auto split: option.splits if_splits)

lemma build_loop_le: "build_loop g ty s = Some s' \<Longrightarrow> unassigned s' \<le> unassigned s"
proof (induction g ty s rule: build_loop.induct)
  case (1 g ty s)
  from "1.prems" show ?case
  proof (cases rule: build_loop_unfold)
    case (1 t)
    then show ?thesis
      using "1.IH" [OF 1(1) refl _ 1(2)] sweep_unassigned [OF 1(1)] by simp
  next
    case 2
    then show ?thesis using sweep_unassigned by blast
  qed
qed

lemma build_loop_progress:
  assumes "build_loop g ty s = Some s'"
  shows "unassigned s' < unassigned s \<or>
   map subset_nodes (node_subsets s') = map subset_nodes (node_subsets s)"
  using assms
proof (cases rule: build_loop_unfold)
  case (1 t)
  then show ?thesis
    using build_loop_le [OF 1(2)] sweep_unassigned [OF 1(1)] by simp
next
  case 2
  then show ?thesis using sweep_idle by blast
qed

lemma BuildNodeSubset_progress:
  assumes "BuildNodeSubset g ty s = Some s'" "subset_nodes (last (node_subsets s')) \<noteq> []"
  shows "unassigned s' < unassigned s"
proof (rule ccontr)
  assume "\<not> ?thesis"
  then have eq: "map subset_nodes (node_subsets s') = map subset_nodes (node_subsets s) @ [[]]"
    using build_loop_progress [of g ty "s\<lparr>node_subsets := node_subsets s @ [NodeSubset]\<rparr>" s'] assms(1)
    by (simp add: BuildNodeSubset_def unassigned_def NodeSubset_def)
  then have "node_subsets s' \<noteq> []" by auto
  then have "subset_nodes (last (node_subsets s')) = last (map subset_nodes (node_subsets s'))"
    by (simp add: last_map)
  then show False using eq assms(2) by simp
qed

text \<open>The traversal of \<^verbatim>\<open>Partition\<close>: epochs until one stays empty.\<close>

function epoch_loop ::
  "graph_info \<Rightarrow> node_subset_type list \<Rightarrow> partition \<Rightarrow> partition option" where
  "epoch_loop g node_type s =
     (case BuildNodeSubset g node_type s of
        None \<Rightarrow> None
      | Some s' \<Rightarrow>
          if subset_nodes (last (node_subsets s')) = []
          then Some (s'\<lparr>node_subsets := butlast (node_subsets s')\<rparr>)
          else epoch_loop g node_type s')"
  by pat_completeness auto
termination
  by (relation "measure (\<lambda>(g, ty, s). unassigned s)") (auto dest: BuildNodeSubset_progress)

declare epoch_loop.simps [simp del]

primrec mark_outputs :: "node list \<Rightarrow> int list \<Rightarrow> int list option" where
  "mark_outputs [] epochs = Some epochs"
| "mark_outputs (nd # nds) epochs = do {
     epochs \<leftarrow> vec_set_all kEpochNotReady (outputs nd) epochs;
     mark_outputs nds epochs }"

primrec model_outputs :: "int list \<Rightarrow> int list \<Rightarrow> node_subset list \<Rightarrow> node_subset list option" where
  "model_outputs epochs [] subs = Some subs"
| "model_outputs epochs (t # ts) subs = do {
     output_epoch \<leftarrow> vec_at epochs t;
     if output_epoch = kEpochAlwaysReady then model_outputs epochs ts subs
     else do { subs \<leftarrow> push_output output_epoch t subs; model_outputs epochs ts subs } }"

text \<open>\<^verbatim>\<open>std::sort\<close> and \<^verbatim>\<open>std::unique\<close>.\<close>

definition uniquefy :: "int list \<Rightarrow> int list" where
  "uniquefy items = remdups_adj (std_sort (<) items)"

definition uniquefy_subset :: "node_subset \<Rightarrow> node_subset" where
  "uniquefy_subset s = s\<lparr>input_tensors := uniquefy (input_tensors s),
                         output_tensors := uniquefy (output_tensors s)\<rparr>"

definition Partition :: "graph_info \<Rightarrow> node_subset_type list \<Rightarrow> node_subset list option" where
  "Partition g node_type = do {
     epochs \<leftarrow> mark_outputs (gi_nodes g) (replicate (num_tensors g) kEpochAlwaysReady);
     s \<leftarrow> epoch_loop g node_type
            \<lparr>node_subsets = [], tensor_epochs = epochs,
             node_epochs = replicate (num_execution_nodes g) kEpochNotReady\<rparr>;
     subs \<leftarrow> model_outputs (tensor_epochs s) (gi_outputs g) (node_subsets s);
     Some (map uniquefy_subset subs) }"

definition PartitionGraphIntoIndependentNodeSubsets ::
  "graph_info \<Rightarrow> int list \<Rightarrow> node_subset list result" where
  "PartitionGraphIntoIndependentNodeSubsets g nodes_to_partition = do {
     node_type \<leftarrow> node_types g nodes_to_partition;
     subs \<leftarrow> Partition g node_type;
     ok subs }"

section \<open>The invariant of the traversal\<close>

text \<open>
  \<open>produces\<close>: the execution node \<open>i\<close> outputs \<open>t\<close>. A plan is \<open>partitionable\<close> when it is
  well-formed, each tensor has one producer, and every node comes after the producers of its
  inputs, which is how the execution plan of a subgraph is ordered.
\<close>

definition produces :: "graph_info \<Rightarrow> nat \<Rightarrow> int \<Rightarrow> bool" where
  "produces g i t \<longleftrightarrow> i < num_execution_nodes g \<and> t \<in> set (outputs (gi_nodes g ! i))"

definition plan_index :: "graph_info \<Rightarrow> nat \<Rightarrow> int" where
  "plan_index g i = gi_node_index g ! i"

definition partitionable :: "graph_info \<Rightarrow> node_subset_type list \<Rightarrow> bool" where
  "partitionable g ty \<longleftrightarrow> wf_graph g
     \<and> length (gi_node_index g) = num_execution_nodes g
     \<and> (\<forall>i<num_execution_nodes g. in_bounds ty (plan_index g i)
          \<and> ty ! nat (plan_index g i) \<noteq> kTfUnexplored)
     \<and> (\<forall>i j t. produces g i t \<longrightarrow> produces g j t \<longrightarrow> i = j)
     \<and> (\<forall>i<num_execution_nodes g. \<forall>t\<in>set (inputs (gi_nodes g ! i)). \<forall>j. produces g j t \<longrightarrow> j < i)"

definition node_type_of :: "graph_info \<Rightarrow> node_subset_type list \<Rightarrow> nat \<Rightarrow> node_subset_type" where
  "node_type_of g ty i = ty ! nat (plan_index g i)"

abbreviation node_epoch :: "partition \<Rightarrow> nat \<Rightarrow> int" where
  "node_epoch s i \<equiv> node_epochs s ! i"

abbreviation tensor_epoch :: "partition \<Rightarrow> int \<Rightarrow> int" where
  "tensor_epoch s t \<equiv> tensor_epochs s ! nat t"

definition ready :: "graph_info \<Rightarrow> partition \<Rightarrow> nat \<Rightarrow> bool" where
  "ready g s i \<longleftrightarrow> node_epoch s i = kEpochNotReady
     \<and> (\<forall>t\<in>set (present (inputs (gi_nodes g ! i))). tensor_epoch s t \<noteq> kEpochNotReady)"

subsection \<open>Closed forms of the helper loops\<close>

lemma vec_set_all_eq:
  "in_range (length xs) ts \<Longrightarrow>
   vec_set_all x ts xs = Some (tab (length xs) (\<lambda>i. if int i \<in> set ts then x else xs ! i))"
proof (induction ts arbitrary: xs)
  case Nil
  then show ?case by (simp add: tab_def map_nth)
next
  case (Cons t ts)
  then have t: "0 \<le> t" "nat t < length xs" "in_range (length (xs[nat t := x])) ts" by auto
  have "tab (length xs) (\<lambda>i. if int i \<in> set ts then x else xs[nat t := x] ! i)
      = tab (length xs) (\<lambda>i. if int i \<in> set (t # ts) then x else xs ! i)"
    using t by (intro tab_cong) (auto simp: nth_list_update)
  then show ?case
    using t Cons.IH [OF t(3)] by (simp add: vec_set_def in_bounds_def)
qed

lemma inputs_ready_eq:
  "in_range_opt (length epochs) ts \<Longrightarrow>
   inputs_ready epochs ts = Some (\<forall>t\<in>set (present ts). epochs ! nat t \<noteq> kEpochNotReady)"
  by (induction ts) (auto simp: in_range_opt_def vec_at_def in_bounds_def)

definition push_all ::
  "int list \<Rightarrow> nat \<Rightarrow> int list \<Rightarrow> node_subset list \<Rightarrow> node_subset list" where
  "push_all epochs k ts subs = tab (length subs) (\<lambda>j. (subs ! j)\<lparr>
     input_tensors := input_tensors (subs ! j)
       @ (if j = k then filter (\<lambda>t. epochs ! nat t \<noteq> int k) ts else []),
     output_tensors := output_tensors (subs ! j)
       @ filter (\<lambda>t. epochs ! nat t = int j \<and> epochs ! nat t \<noteq> int k) ts\<rparr>)"

lemma push_all_Nil [simp]: "push_all epochs k [] subs = subs"
  by (rule nth_equalityI) (auto simp: push_all_def)

lemma length_push_all [simp]: "length (push_all epochs k ts subs) = length subs"
  by (simp add: push_all_def)

lemma push_all_append: "push_all epochs k us (push_all epochs k ts subs) = push_all epochs k (ts @ us) subs"
  unfolding push_all_def by (simp, rule tab_cong, simp)

lemma push_input_eq:
  "k < length subs \<Longrightarrow> push_input (int k) t subs =
     Some (subs[k := (subs ! k)\<lparr>input_tensors := input_tensors (subs ! k) @ [t]\<rparr>])"
  by (simp add: push_input_def vec_at_def vec_set_def)

lemma push_output_eq:
  "k < length subs \<Longrightarrow> push_output (int k) t subs =
     Some (subs[k := (subs ! k)\<lparr>output_tensors := output_tensors (subs ! k) @ [t]\<rparr>])"
  by (simp add: push_output_def vec_at_def vec_set_def)

lemma record_input_step:
  assumes k: "k < length subs" and e: "e < 0 \<or> nat e < length subs"
    and t: "0 \<le> t" "nat t < length epochs" "epochs ! nat t = e"
  shows "(if e \<noteq> int k
          then do { subs \<leftarrow> push_input (int k) t subs;
                    if e \<ge> 0 then push_output e t subs else Some subs }
          else Some subs) = Some (push_all epochs k [t] subs)"
proof -
  consider (same) "e = int k" | (neg) "e < 0" | (other) "0 \<le> e" "e \<noteq> int k" by linarith
  then show ?thesis
  proof cases
    case same
    then have "push_all epochs k [t] subs = subs"
      using t by (intro nth_equalityI) (auto simp: push_all_def)
    then show ?thesis using same by simp
  next
    case neg
    then show ?thesis
      using t k by (simp add: push_input_eq push_all_def)
        (rule nth_equalityI, auto simp: nth_list_update)
  next
    case other
    then obtain j where j: "e = int j" "j < length subs" "j \<noteq> k"
      using e by (metis int_nat_eq not_less)
    then show ?thesis
      using t k by (simp add: push_input_eq push_output_eq push_all_def)
        (rule nth_equalityI, auto simp: nth_list_update)
  qed
qed

lemma record_inputs_eq:
  assumes "k < length subs" "in_range_opt (length epochs) ts"
    and "\<forall>t\<in>set (present ts). epochs ! nat t < 0 \<or> nat (epochs ! nat t) < length subs"
  shows "record_inputs epochs (int k) ts subs = Some (push_all epochs k (present ts) subs)"
  using assms
proof (induction ts arbitrary: subs)
  case Nil
  then show ?case by simp
next
  case (Cons t ts)
  show ?case
  proof (cases "t = kTfLiteOptionalTensor")
    case True
    then show ?thesis using Cons by (simp add: in_range_opt_def)
  next
    case False
    then have t: "0 \<le> t" "nat t < length epochs" "vec_at epochs t = Some (epochs ! nat t)"
      and e: "epochs ! nat t < 0 \<or> nat (epochs ! nat t) < length subs"
      using Cons.prems by (auto simp: in_range_opt_def vec_at_def in_bounds_def)
    have "record_inputs epochs (int k) ts (push_all epochs k [t] subs)
        = Some (push_all epochs k (present ts) (push_all epochs k [t] subs))"
      using Cons.IH [of "push_all epochs k [t] subs"] Cons.prems
      by (auto simp: in_range_opt_def)
    then show ?thesis
      using False t record_input_step [OF Cons.prems(1) e t(1,2) refl]
      by (simp add: push_all_append)
  qed
qed

lemma push_all_nth:
  assumes "j < length subs"
  shows "subset_type (push_all epochs k ts subs ! j) = subset_type (subs ! j)"
    "subset_nodes (push_all epochs k ts subs ! j) = subset_nodes (subs ! j)"
    "set (input_tensors (push_all epochs k ts subs ! j)) = set (input_tensors (subs ! j))
       \<union> {t \<in> set ts. j = k \<and> epochs ! nat t \<noteq> int k}"
    "set (output_tensors (push_all epochs k ts subs ! j)) = set (output_tensors (subs ! j))
       \<union> {t \<in> set ts. epochs ! nat t = int j \<and> j \<noteq> k}"
  using assms by (auto simp: push_all_def)

subsection \<open>The invariant\<close>

definition epochs_ok :: "graph_info \<Rightarrow> partition \<Rightarrow> bool" where
  "epochs_ok g s \<longleftrightarrow> length (tensor_epochs s) = num_tensors g
     \<and> length (node_epochs s) = num_execution_nodes g
     \<and> (\<forall>i<num_execution_nodes g. node_epoch s i \<noteq> kEpochNotReady \<longrightarrow>
          0 \<le> node_epoch s i \<and> nat (node_epoch s i) < length (node_subsets s)
          \<and> (\<forall>t\<in>set (present (inputs (gi_nodes g ! i))). tensor_epoch s t \<noteq> kEpochNotReady))
     \<and> (\<forall>i t. produces g i t \<longrightarrow> tensor_epoch s t = node_epoch s i)
     \<and> (\<forall>t. valid_tensor g t \<longrightarrow> (\<forall>i. \<not> produces g i t) \<longrightarrow> tensor_epoch s t = kEpochAlwaysReady)"

text \<open>The order in which nodes were assigned: a linearisation of the dependencies.\<close>

definition deps_before :: "graph_info \<Rightarrow> nat list \<Rightarrow> bool" where
  "deps_before g order \<longleftrightarrow>
     (\<forall>p<length order. \<forall>t\<in>set (inputs (gi_nodes g ! (order ! p))). \<forall>j.
        produces g j t \<longrightarrow> j \<in> set (take p order))"

definition order_ok :: "graph_info \<Rightarrow> partition \<Rightarrow> bool" where
  "order_ok g s \<longleftrightarrow> (\<exists>order. distinct order
     \<and> set order = {i. i < num_execution_nodes g \<and> node_epoch s i \<noteq> kEpochNotReady}
     \<and> concat (map subset_nodes (node_subsets s)) = map (plan_index g) order
     \<and> deps_before g order)"

definition types_ok :: "graph_info \<Rightarrow> node_subset_type list \<Rightarrow> partition \<Rightarrow> bool" where
  "types_ok g ty s \<longleftrightarrow>
     (\<forall>j<length (node_subsets s).
        (subset_type (node_subsets s ! j) = kTfUnexplored) = (subset_nodes (node_subsets s ! j) = [])
        \<and> set (subset_nodes (node_subsets s ! j))
            = {plan_index g i | i. i < num_execution_nodes g \<and> node_epoch s i = int j})
     \<and> (\<forall>i<num_execution_nodes g. node_epoch s i \<noteq> kEpochNotReady \<longrightarrow>
          subset_type (node_subsets s ! nat (node_epoch s i)) = node_type_of g ty i)"

definition io_ok :: "graph_info \<Rightarrow> partition \<Rightarrow> bool" where
  "io_ok g s \<longleftrightarrow> (\<forall>j<length (node_subsets s).
     set (input_tensors (node_subsets s ! j)) = {t. t \<noteq> kTfLiteOptionalTensor
        \<and> (\<exists>i<num_execution_nodes g. node_epoch s i = int j \<and> t \<in> set (inputs (gi_nodes g ! i)))
        \<and> tensor_epoch s t \<noteq> int j}
     \<and> set (output_tensors (node_subsets s ! j)) = {t. t \<noteq> kTfLiteOptionalTensor
        \<and> tensor_epoch s t = int j
        \<and> (\<exists>i<num_execution_nodes g. node_epoch s i \<noteq> kEpochNotReady \<and> node_epoch s i \<noteq> int j
             \<and> t \<in> set (inputs (gi_nodes g ! i)))})"

text \<open>Neighbouring subsets have different types; the last one may still be undecided.\<close>

definition alternating :: "graph_info \<Rightarrow> node_subset_type list \<Rightarrow> partition \<Rightarrow> bool" where
  "alternating g ty s \<longleftrightarrow>
     (\<forall>j. Suc j < length (node_subsets s) \<longrightarrow> subset_nodes (node_subsets s ! j) \<noteq> [])
     \<and> (\<forall>j. Suc j < length (node_subsets s) \<longrightarrow>
        (if subset_nodes (node_subsets s ! Suc j) = []
         then \<forall>i<num_execution_nodes g. ready g s i \<longrightarrow>
                node_type_of g ty i \<noteq> subset_type (node_subsets s ! j)
         else subset_type (node_subsets s ! j) \<noteq> subset_type (node_subsets s ! Suc j)))"

definition part_inv :: "graph_info \<Rightarrow> node_subset_type list \<Rightarrow> partition \<Rightarrow> bool" where
  "part_inv g ty s \<longleftrightarrow> node_subsets s \<noteq> [] \<and> epochs_ok g s \<and> order_ok g s \<and> types_ok g ty s
     \<and> io_ok g s \<and> alternating g ty s"

text \<open>The state after node \<open>i\<close> joins the last subset.\<close>

definition joined :: "graph_info \<Rightarrow> node_subset_type list \<Rightarrow> nat \<Rightarrow> partition \<Rightarrow> partition" where
  "joined g ty i s =
     (let k = length (node_subsets s) - 1;
          epochs = tab (num_tensors g) (\<lambda>x. if int x \<in> set (outputs (gi_nodes g ! i)) then int k
                                            else tensor_epochs s ! x);
          cur = (node_subsets s ! k)\<lparr>subset_type := node_type_of g ty i,
                  subset_nodes := subset_nodes (node_subsets s ! k) @ [plan_index g i]\<rparr>
      in \<lparr>node_subsets = push_all epochs k (present (inputs (gi_nodes g ! i)))
                            ((node_subsets s)[k := cur]),
          tensor_epochs = epochs, node_epochs = (node_epochs s)[i := int k]\<rparr>)"

definition joins :: "graph_info \<Rightarrow> node_subset_type list \<Rightarrow> partition \<Rightarrow> nat \<Rightarrow> bool" where
  "joins g ty s i \<longleftrightarrow> ready g s i
     \<and> subset_type (last (node_subsets s)) \<in> {kTfUnexplored, node_type_of g ty i}"

lemma epochs_okD:
  assumes "epochs_ok g s"
  shows "length (tensor_epochs s) = num_tensors g" "length (node_epochs s) = num_execution_nodes g"
    and "i < num_execution_nodes g \<Longrightarrow> node_epoch s i \<noteq> kEpochNotReady \<Longrightarrow>
      0 \<le> node_epoch s i \<and> nat (node_epoch s i) < length (node_subsets s)"
    and "i < num_execution_nodes g \<Longrightarrow> node_epoch s i \<noteq> kEpochNotReady \<Longrightarrow>
      t \<in> set (inputs (gi_nodes g ! i)) \<Longrightarrow> t \<noteq> kTfLiteOptionalTensor \<Longrightarrow>
      tensor_epoch s t \<noteq> kEpochNotReady"
    and "produces g i t \<Longrightarrow> tensor_epoch s t = node_epoch s i"
    and "valid_tensor g t \<Longrightarrow> (\<And>i. \<not> produces g i t) \<Longrightarrow> tensor_epoch s t = kEpochAlwaysReady"
  using assms unfolding epochs_ok_def by auto

lemma tensor_epoch_range:
  assumes "epochs_ok g s" "valid_tensor g t"
  shows "tensor_epoch s t < 0 \<or> nat (tensor_epoch s t) < length (node_subsets s)"
proof (cases "\<exists>i. produces g i t")
  case True
  then obtain i where i: "produces g i t" by blast
  then have "i < num_execution_nodes g" by (simp add: produces_def)
  then show ?thesis
    using epochs_okD(3,5) [OF assms(1)] i by (cases "node_epoch s i = kEpochNotReady")
      (auto simp: kEpochNotReady_def)
next
  case False
  then show ?thesis
    using epochs_okD(6) [OF assms] by (simp add: kEpochAlwaysReady_def)
qed

lemma UpdateNode_eq:
  assumes plan: "partitionable g ty" and inv: "node_subsets s \<noteq> []" "epochs_ok g s"
    and i: "i < num_execution_nodes g"
  shows "UpdateNode g ty i s =
     (if joins g ty s i then Some (True, joined g ty i s) else Some (False, s))"
proof -
  let ?nd = "gi_nodes g ! i" and ?k = "length (node_subsets s) - 1"
  have wf: "wf_graph g" using plan by (simp add: partitionable_def)
  note len = epochs_okD(1,2) [OF inv(2)]
  have at: "vec_at (gi_nodes g) (int i) = Some ?nd"
    "vec_at (node_epochs s) (int i) = Some (node_epoch s i)"
    "vec_at (gi_node_index g) (int i) = Some (plan_index g i)"
    "vec_at ty (plan_index g i) = Some (node_type_of g ty i)"
    using i len plan
    by (auto simp: vec_at_def num_execution_nodes_def partitionable_def plan_index_def node_type_of_def)
  have ins: "in_range_opt (length (tensor_epochs s)) (inputs ?nd)"
    and outs: "in_range (length (tensor_epochs s)) (outputs ?nd)"
    using wf_in_range [OF wf] i len by simp_all
  show ?thesis
  proof (cases "ready g s i")
    case False
    then show ?thesis
      using inv(1) at inputs_ready_eq [OF ins]
      by (auto simp: UpdateNode_def ready_def joins_def)
  next
    case rdy: True
    let ?cur = "node_subsets s ! ?k"
    let ?cur1 = "if subset_type ?cur = kTfUnexplored then ?cur\<lparr>subset_type := node_type_of g ty i\<rparr> else ?cur"
    have last: "last (node_subsets s) = ?cur" using inv(1) by (rule last_conv_nth)
    have k: "?k < length (node_subsets s)" using inv(1) by simp
    let ?ep = "tab (num_tensors g) (\<lambda>x. if int x \<in> set (outputs ?nd) then int ?k else tensor_epochs s ! x)"
    have ep: "vec_set_all (int ?k) (outputs ?nd) (tensor_epochs s) = Some ?ep"
      by (rule vec_set_all_eq [OF outs, unfolded len])
    have range: "?ep ! nat t < 0 \<or> nat (?ep ! nat t) < length (node_subsets s)"
      if "t \<in> set (present (inputs ?nd))" for t
    proof -
      have v: "valid_tensor g t"
        using ins that len by (auto simp: in_range_opt_def valid_tensor_def)
      then have "?ep ! nat t = int ?k \<or> ?ep ! nat t = tensor_epoch s t"
        by (simp add: valid_tensor_def)
      then show ?thesis
      proof
        assume "?ep ! nat t = int ?k"
        then show ?thesis using k by (simp only: nat_int) simp
      next
        assume "?ep ! nat t = tensor_epoch s t"
        then show ?thesis using tensor_epoch_range [OF inv(2) v] by simp
      qed
    qed
    have rec: "record_inputs ?ep (int ?k) (inputs ?nd) ((node_subsets s)[?k := c])
        = Some (push_all ?ep ?k (present (inputs ?nd)) ((node_subsets s)[?k := c]))" for c
      using ins len k range by (intro record_inputs_eq) simp_all
    have upd: "UpdateNode g ty i s = (if subset_type ?cur1 = node_type_of g ty i
       then Some (True, \<lparr>node_subsets = push_all ?ep ?k (present (inputs ?nd))
              ((node_subsets s)[?k := ?cur1\<lparr>subset_nodes := subset_nodes ?cur1 @ [plan_index g i]\<rparr>]),
            tensor_epochs = ?ep, node_epochs = (node_epochs s)[i := int ?k]\<rparr>)
       else Some (False, s\<lparr>node_subsets := (node_subsets s)[?k := ?cur1]\<rparr>))"
      using inv(1) at inputs_ready_eq [OF ins] rdy ep rec
      by (simp add: UpdateNode_def ready_def Let_def cong: if_cong)
    show ?thesis
    proof (cases "joins g ty s i")
      case True
      then have "?cur1\<lparr>subset_nodes := subset_nodes ?cur1 @ [plan_index g i]\<rparr>
          = ?cur\<lparr>subset_type := node_type_of g ty i, subset_nodes := subset_nodes ?cur @ [plan_index g i]\<rparr>"
        "subset_type ?cur1 = node_type_of g ty i"
        using last by (auto simp: joins_def)
      then show ?thesis
        using True unfolding upd joined_def Let_def by (simp only: if_True simp_thms)
    next
      case False
      then have "subset_type ?cur \<noteq> kTfUnexplored" "subset_type ?cur \<noteq> node_type_of g ty i"
        using rdy last by (auto simp: joins_def)
      then show ?thesis using False upd by simp
    qed
  qed
qed

subsection \<open>A joining node keeps the invariant\<close>

lemma joined_fields:
  fixes s :: partition
  defines "k \<equiv> length (node_subsets s) - 1"
  assumes "node_subsets s \<noteq> []"
  shows "length (node_subsets (joined g ty i s)) = length (node_subsets s)"
    and "node_epochs (joined g ty i s) = (node_epochs s)[i := int k]"
    and "valid_tensor g t \<Longrightarrow> tensor_epoch (joined g ty i s) t =
           (if t \<in> set (outputs (gi_nodes g ! i)) then int k else tensor_epoch s t)"
    and "j < length (node_subsets s) \<Longrightarrow> subset_type (node_subsets (joined g ty i s) ! j) =
           (if j = k then node_type_of g ty i else subset_type (node_subsets s ! j))"
    and "j < length (node_subsets s) \<Longrightarrow> subset_nodes (node_subsets (joined g ty i s) ! j) =
           subset_nodes (node_subsets s ! j) @ (if j = k then [plan_index g i] else [])"
    and "length (tensor_epochs (joined g ty i s)) = num_tensors g"
  using assms(2) by (auto simp: joined_def Let_def k_def push_all_nth nth_list_update valid_tensor_def)

lemma joined_io:
  fixes s :: partition
  defines "k \<equiv> length (node_subsets s) - 1"
  assumes "node_subsets s \<noteq> []" "j < length (node_subsets s)"
  shows "set (input_tensors (node_subsets (joined g ty i s) ! j)) =
           set (input_tensors (node_subsets s ! j)) \<union> {t \<in> set (present (inputs (gi_nodes g ! i))).
             j = k \<and> tensor_epoch (joined g ty i s) t \<noteq> int k}"
    and "set (output_tensors (node_subsets (joined g ty i s) ! j)) =
           set (output_tensors (node_subsets s ! j)) \<union> {t \<in> set (present (inputs (gi_nodes g ! i))).
             tensor_epoch (joined g ty i s) t = int j \<and> j \<noteq> k}"
  using assms(2,3) by (auto simp: joined_def Let_def k_def push_all_nth nth_list_update)

lemma joined_epoch_of:
  assumes "epochs_ok g s" "i < num_execution_nodes g" "node_subsets s \<noteq> []" "j < num_execution_nodes g"
  shows "node_epoch (joined g ty i s) j =
    (if j = i then int (length (node_subsets s) - 1) else node_epoch s j)"
  using assms epochs_okD(2) [OF assms(1)] by (simp add: joined_fields nth_list_update)

text \<open>The inputs of nodes that are assigned already, or join now, keep their epoch.\<close>

lemma joined_input_epoch:
  assumes plan: "partitionable g ty" and inv: "node_subsets s \<noteq> []" "epochs_ok g s"
    and i: "i < num_execution_nodes g" "ready g s i"
    and j: "j < num_execution_nodes g" "node_epoch s j \<noteq> kEpochNotReady \<or> j = i"
    and t: "t \<in> set (inputs (gi_nodes g ! j))" "t \<noteq> kTfLiteOptionalTensor"
  shows "tensor_epoch (joined g ty i s) t = tensor_epoch s t" "tensor_epoch s t \<noteq> kEpochNotReady"
proof -
  have wf: "wf_graph g" using plan by (simp add: partitionable_def)
  have "valid_optional g t"
    by (rule wf_graph_nodeD(1) [OF wf j(1) t(1)])
  then have v: "valid_tensor g t" using t(2) by (simp add: valid_optional_def)
  show ne: "tensor_epoch s t \<noteq> kEpochNotReady"
    using j epochs_okD(4) [OF inv(2) j(1) _ t] i(2) t by (auto simp: ready_def)
  have "t \<notin> set (outputs (gi_nodes g ! i))"
  proof
    assume "t \<in> set (outputs (gi_nodes g ! i))"
    then have "tensor_epoch s t = node_epoch s i"
      using epochs_okD(5) [OF inv(2)] i(1) by (simp add: produces_def)
    then show False using ne i(2) by (simp add: ready_def)
  qed
  then show "tensor_epoch (joined g ty i s) t = tensor_epoch s t"
    using joined_fields(3) [OF inv(1) v, of ty i] by simp
qed

lemma joined_epochs_ok:
  assumes plan: "partitionable g ty" and inv: "node_subsets s \<noteq> []" "epochs_ok g s"
    and i: "i < num_execution_nodes g" "ready g s i"
  shows "epochs_ok g (joined g ty i s)"
proof -
  let ?s = "joined g ty i s"
  have wf: "wf_graph g" using plan by (simp add: partitionable_def)
  note ne = joined_epoch_of [OF inv(2) i(1) inv(1), of _ ty] and f = joined_fields [OF inv(1)]
  have valid_out: "valid_tensor g t" if "produces g j t" for j t
    using that wf_graph_nodeD(2) [OF wf] unfolding produces_def by blast
  have "0 \<le> node_epoch ?s j \<and> nat (node_epoch ?s j) < length (node_subsets ?s)"
    "\<forall>t\<in>set (present (inputs (gi_nodes g ! j))). tensor_epoch ?s t \<noteq> kEpochNotReady"
    if j: "j < num_execution_nodes g" "node_epoch ?s j \<noteq> kEpochNotReady" for j
  proof -
    show "0 \<le> node_epoch ?s j \<and> nat (node_epoch ?s j) < length (node_subsets ?s)"
      using ne [OF j(1)] f(1) inv(1) epochs_okD(3) [OF inv(2) j(1)] j(2) by (auto split: if_splits)
    have "node_epoch s j \<noteq> kEpochNotReady \<or> j = i" using ne [OF j(1)] j(2) by (auto split: if_splits)
    then show "\<forall>t\<in>set (present (inputs (gi_nodes g ! j))). tensor_epoch ?s t \<noteq> kEpochNotReady"
      using joined_input_epoch [OF plan inv i j(1)] by auto
  qed
  moreover have "tensor_epoch ?s t = node_epoch ?s j" if p: "produces g j t" for j t
  proof -
    have "t \<in> set (outputs (gi_nodes g ! i)) \<longleftrightarrow> j = i"
      using plan p i(1) by (auto simp: partitionable_def produces_def)
    then show ?thesis
      using f(3) [OF valid_out [OF p]] ne [of j] p epochs_okD(5) [OF inv(2) p]
      by (simp add: produces_def)
  qed
  moreover have "tensor_epoch ?s t = kEpochAlwaysReady"
    if "valid_tensor g t" "\<And>j. \<not> produces g j t" for t
    using f(3) [OF that(1)] that(2) [of i] i(1) epochs_okD(6) [OF inv(2) that] by (auto simp: produces_def)
  ultimately show ?thesis
    using f(2,6) epochs_okD(2) [OF inv(2)] unfolding epochs_ok_def by simp
qed

lemma concat_append_last:
  assumes "xs \<noteq> []" "length ys = length xs"
    and "\<And>j. j < length xs \<Longrightarrow> ys ! j = xs ! j @ (if j = length xs - 1 then [a] else [])"
  shows "concat ys = concat xs @ [a]"
proof -
  have "ys = butlast xs @ [last xs @ [a]]"
    using assms by (intro nth_equalityI) (auto simp: nth_append nth_butlast last_conv_nth)
  moreover have "concat xs = concat (butlast xs) @ last xs"
    using assms(1) by (metis append_butlast_last_id concat_append concat.simps append_Nil2)
  ultimately show ?thesis by simp
qed

lemma joined_order_ok:
  assumes plan: "partitionable g ty" and inv: "node_subsets s \<noteq> []" "epochs_ok g s" "order_ok g s"
    and i: "i < num_execution_nodes g" "ready g s i"
  shows "order_ok g (joined g ty i s)"
proof -
  let ?s = "joined g ty i s"
  obtain order where o: "distinct order"
    "set order = {i. i < num_execution_nodes g \<and> node_epoch s i \<noteq> kEpochNotReady}"
    "concat (map subset_nodes (node_subsets s)) = map (plan_index g) order" "deps_before g order"
    using inv(3) by (auto simp: order_ok_def)
  note ne = joined_epoch_of [OF inv(2) i(1) inv(1), of _ ty] and f = joined_fields [OF inv(1)]
  have "i \<notin> set order" using o(2) i(2) by (simp add: ready_def)
  then have "distinct (order @ [i])" using o(1) by simp
  moreover have "set (order @ [i]) = {j. j < num_execution_nodes g \<and> node_epoch ?s j \<noteq> kEpochNotReady}"
    using o(2) i(1) ne by (auto simp: kEpochNotReady_def split: if_splits)
  moreover have "concat (map subset_nodes (node_subsets ?s)) = map (plan_index g) (order @ [i])"
  proof -
    have "concat (map subset_nodes (node_subsets ?s))
        = concat (map subset_nodes (node_subsets s)) @ [plan_index g i]"
      using inv(1) f(1,5) by (intro concat_append_last) simp_all
    then show ?thesis using o(3) by simp
  qed
  moreover have "deps_before g (order @ [i])"
    unfolding deps_before_def
  proof (intro allI impI ballI)
    fix p t j
    assume p: "p < length (order @ [i])" "t \<in> set (inputs (gi_nodes g ! ((order @ [i]) ! p)))"
      "produces g j t"
    show "j \<in> set (take p (order @ [i]))"
    proof (cases "p < length order")
      case True
      then show ?thesis using o(4) p by (auto simp: deps_before_def nth_append)
    next
      case False
      then have t: "p = length order" "t \<in> set (inputs (gi_nodes g ! i))"
        using p by (auto simp: nth_append)
      have "t \<noteq> kTfLiteOptionalTensor"
        using plan p(3) wf_graph_nodeD(2) [of g j t]
        by (auto simp: partitionable_def produces_def valid_tensor_def)
      then have "tensor_epoch s t \<noteq> kEpochNotReady" using i(2) t(2) by (simp add: ready_def)
      then have "j \<in> set order"
        using epochs_okD(5) [OF inv(2) p(3)] o(2) p(3) by (simp add: produces_def)
      then show ?thesis using t(1) by simp
    qed
  qed
  ultimately show ?thesis unfolding order_ok_def by blast
qed

lemma joined_types_ok:
  assumes plan: "partitionable g ty" and inv: "node_subsets s \<noteq> []" "epochs_ok g s" "types_ok g ty s"
    and i: "i < num_execution_nodes g" "joins g ty s i"
  shows "types_ok g ty (joined g ty i s)"
proof -
  let ?s = "joined g ty i s" and ?k = "length (node_subsets s) - 1"
  note ne = joined_epoch_of [OF inv(2) i(1) inv(1), of _ ty] and f = joined_fields [OF inv(1)]
  have free: "node_epoch s i = kEpochNotReady" using i(2) by (simp add: joins_def ready_def)
  have k: "?k < length (node_subsets s)" using inv(1) by simp
  have cur: "subset_type (node_subsets s ! ?k) \<in> {kTfUnexplored, node_type_of g ty i}"
    using i(2) inv(1) by (simp add: joins_def last_conv_nth)
  have nty: "node_type_of g ty i \<noteq> kTfUnexplored"
    using plan i(1) by (simp add: partitionable_def node_type_of_def)
  have old: "(subset_type (node_subsets s ! j) = kTfUnexplored) = (subset_nodes (node_subsets s ! j) = [])"
    "set (subset_nodes (node_subsets s ! j))
       = {plan_index g i | i. i < num_execution_nodes g \<and> node_epoch s i = int j}"
    if "j < length (node_subsets s)" for j
    using inv(3) that by (auto simp: types_ok_def)
  have "(subset_type (node_subsets ?s ! j) = kTfUnexplored) = (subset_nodes (node_subsets ?s ! j) = [])"
    if "j < length (node_subsets s)" for j
    using that f(4,5) old(1) nty by simp
  moreover have "set (subset_nodes (node_subsets ?s ! j))
       = {plan_index g i | i. i < num_execution_nodes g \<and> node_epoch ?s i = int j}"
    if j: "j < length (node_subsets s)" for j
  proof -
    have "(x < num_execution_nodes g \<and> node_epoch ?s x = int j) \<longleftrightarrow>
        (x < num_execution_nodes g \<and> node_epoch s x = int j) \<or> x = i \<and> j = ?k" for x
      using ne [of x] i(1) free by (cases "x = i") (auto simp: kEpochNotReady_def)
    then have "{plan_index g x | x. x < num_execution_nodes g \<and> node_epoch ?s x = int j}
       = {plan_index g x | x. x < num_execution_nodes g \<and> node_epoch s x = int j}
         \<union> (if j = ?k then {plan_index g i} else {})"
      by (auto split: if_splits)
    then show ?thesis using f(5) [OF j] old(2) [OF j] by simp
  qed
  moreover have "subset_type (node_subsets ?s ! nat (node_epoch ?s x)) = node_type_of g ty x"
    if x: "x < num_execution_nodes g" "node_epoch ?s x \<noteq> kEpochNotReady" for x
  proof (cases "x = i")
    case True
    then show ?thesis using ne [OF x(1)] f(4) [OF k] by simp
  next
    case False
    then have e: "node_epoch ?s x = node_epoch s x" "node_epoch s x \<noteq> kEpochNotReady"
      using ne [OF x(1)] x(2) by auto
    have r: "nat (node_epoch s x) < length (node_subsets s)" "0 \<le> node_epoch s x"
      using epochs_okD(3) [OF inv(2) x(1) e(2)] by auto
    have t: "subset_type (node_subsets s ! nat (node_epoch s x)) = node_type_of g ty x"
      using inv(3) x(1) e(2) by (simp add: types_ok_def)
    have "node_type_of g ty x \<noteq> kTfUnexplored"
      using plan x(1) by (simp add: partitionable_def node_type_of_def)
    then show ?thesis
      using f(4) [OF r(1), of g ty i] t cur e(1) by (auto split: if_splits)
  qed
  ultimately show ?thesis using f(1) unfolding types_ok_def by simp
qed

lemma joined_io_ok:
  assumes plan: "partitionable g ty" and inv: "node_subsets s \<noteq> []" "epochs_ok g s" "io_ok g s"
    and i: "i < num_execution_nodes g" "ready g s i"
  shows "io_ok g (joined g ty i s)"
proof -
  let ?s = "joined g ty i s" and ?k = "length (node_subsets s) - 1"
  let ?N = "num_execution_nodes g"
  note ne = joined_epoch_of [OF inv(2) i(1) inv(1), of _ ty] and f = joined_fields [OF inv(1)]
  have free: "node_epoch s i = kEpochNotReady" using i(2) by (simp add: ready_def)
  have te: "tensor_epoch ?s t = tensor_epoch s t"
    if "x < ?N" "node_epoch s x \<noteq> kEpochNotReady \<or> x = i" "t \<in> set (inputs (gi_nodes g ! x))"
      "t \<noteq> kTfLiteOptionalTensor" for x t
    using joined_input_epoch(1) [OF plan inv(1,2) i that] .
  have ep: "node_epoch ?s x = int j \<longleftrightarrow> node_epoch s x = int j \<or> x = i \<and> j = ?k"
    "node_epoch ?s x \<noteq> kEpochNotReady \<longleftrightarrow> node_epoch s x \<noteq> kEpochNotReady \<or> x = i"
    if "x < ?N" for x j
    using ne [OF that] free by (cases "x = i"; auto simp: kEpochNotReady_def)+
  have old: "t \<in> set (input_tensors (node_subsets s ! j)) \<longleftrightarrow> t \<noteq> kTfLiteOptionalTensor
        \<and> (\<exists>x<?N. node_epoch s x = int j \<and> t \<in> set (inputs (gi_nodes g ! x))) \<and> tensor_epoch s t \<noteq> int j"
    "t \<in> set (output_tensors (node_subsets s ! j)) \<longleftrightarrow> t \<noteq> kTfLiteOptionalTensor \<and> tensor_epoch s t = int j
        \<and> (\<exists>x<?N. node_epoch s x \<noteq> kEpochNotReady \<and> node_epoch s x \<noteq> int j
             \<and> t \<in> set (inputs (gi_nodes g ! x)))"
    if "j < length (node_subsets s)" for j t
    using inv(3) that by (auto simp: io_ok_def)
  have "t \<in> set (input_tensors (node_subsets ?s ! j)) \<longleftrightarrow> t \<noteq> kTfLiteOptionalTensor
        \<and> (\<exists>x<?N. node_epoch ?s x = int j \<and> t \<in> set (inputs (gi_nodes g ! x))) \<and> tensor_epoch ?s t \<noteq> int j"
    if j: "j < length (node_subsets s)" for j t
  proof -
    have "(\<exists>x<?N. node_epoch ?s x = int j \<and> t \<in> set (inputs (gi_nodes g ! x))) \<longleftrightarrow>
        (\<exists>x<?N. node_epoch s x = int j \<and> t \<in> set (inputs (gi_nodes g ! x)))
        \<or> j = ?k \<and> t \<in> set (inputs (gi_nodes g ! i))"
      using ep(1) i(1) by blast
    moreover have "tensor_epoch ?s t = tensor_epoch s t"
      if "\<exists>x<?N. node_epoch s x = int j \<and> t \<in> set (inputs (gi_nodes g ! x))" "t \<noteq> kTfLiteOptionalTensor"
      using that te by (auto simp: kEpochNotReady_def)
    moreover have "t \<in> set (input_tensors (node_subsets ?s ! j)) \<longleftrightarrow>
        t \<in> set (input_tensors (node_subsets s ! j))
        \<or> t \<in> set (inputs (gi_nodes g ! i)) \<and> t \<noteq> kTfLiteOptionalTensor \<and> j = ?k
          \<and> tensor_epoch ?s t \<noteq> int j"
      unfolding joined_io(1) [OF inv(1) j, of g ty i] by auto
    ultimately show ?thesis
      unfolding old(1) [OF j, of t] by argo
  qed
  moreover have "t \<in> set (output_tensors (node_subsets ?s ! j)) \<longleftrightarrow> t \<noteq> kTfLiteOptionalTensor
        \<and> tensor_epoch ?s t = int j
        \<and> (\<exists>x<?N. node_epoch ?s x \<noteq> kEpochNotReady \<and> node_epoch ?s x \<noteq> int j
             \<and> t \<in> set (inputs (gi_nodes g ! x)))"
    if j: "j < length (node_subsets s)" for j t
  proof -
    have e2: "(node_epoch ?s x \<noteq> kEpochNotReady \<and> node_epoch ?s x \<noteq> int j) \<longleftrightarrow>
        (node_epoch s x \<noteq> kEpochNotReady \<and> node_epoch s x \<noteq> int j) \<or> x = i \<and> j \<noteq> ?k"
      if "x < ?N" for x
      using ep(1) [OF that, of j] ep(2) [OF that] free by (cases "x = i") auto
    have "(\<exists>x<?N. node_epoch ?s x \<noteq> kEpochNotReady \<and> node_epoch ?s x \<noteq> int j
             \<and> t \<in> set (inputs (gi_nodes g ! x))) \<longleftrightarrow>
        (\<exists>x<?N. node_epoch s x \<noteq> kEpochNotReady \<and> node_epoch s x \<noteq> int j
             \<and> t \<in> set (inputs (gi_nodes g ! x)))
        \<or> j \<noteq> ?k \<and> t \<in> set (inputs (gi_nodes g ! i))"
      using e2 i(1) by blast
    moreover have "tensor_epoch ?s t = tensor_epoch s t"
      if "\<exists>x<?N. node_epoch s x \<noteq> kEpochNotReady \<and> node_epoch s x \<noteq> int j
             \<and> t \<in> set (inputs (gi_nodes g ! x))" "t \<noteq> kTfLiteOptionalTensor"
      using that te by blast
    moreover have "t \<in> set (output_tensors (node_subsets ?s ! j)) \<longleftrightarrow>
        t \<in> set (output_tensors (node_subsets s ! j))
        \<or> t \<in> set (inputs (gi_nodes g ! i)) \<and> t \<noteq> kTfLiteOptionalTensor \<and> j \<noteq> ?k
          \<and> tensor_epoch ?s t = int j"
      unfolding joined_io(2) [OF inv(1) j, of g ty i] by auto
    ultimately show ?thesis
      unfolding old(2) [OF j, of t] by argo
  qed
  ultimately show ?thesis using f(1) unfolding io_ok_def by auto
qed

lemma joined_alternating:
  assumes plan: "partitionable g ty" and inv: "part_inv g ty s"
    and i: "i < num_execution_nodes g" "joins g ty s i"
  shows "alternating g ty (joined g ty i s)"
proof -
  let ?s = "joined g ty i s" and ?k = "length (node_subsets s) - 1"
  have ne: "node_subsets s \<noteq> []" and alt: "alternating g ty s" and ty: "types_ok g ty s"
    using inv by (auto simp: part_inv_def)
  note f = joined_fields [OF ne]
  have cur: "subset_type (node_subsets s ! ?k) \<in> {kTfUnexplored, node_type_of g ty i}"
    using i(2) ne by (simp add: joins_def last_conv_nth)
  have rdy: "ready g s i" using i(2) by (simp add: joins_def)
  have un: "(subset_type (node_subsets s ! j) = kTfUnexplored) = (subset_nodes (node_subsets s ! j) = [])"
    if "j < length (node_subsets s)" for j
    using ty that by (simp add: types_ok_def)
  show ?thesis
    unfolding alternating_def f(1)
  proof (intro conjI allI impI)
    fix j assume j: "Suc j < length (node_subsets s)"
    then have lt: "j < length (node_subsets s)" "j \<noteq> ?k" by auto
    have full: "subset_nodes (node_subsets s ! j) \<noteq> []" using alt j by (simp add: alternating_def)
    show "subset_nodes (node_subsets ?s ! j) \<noteq> []" using f(5) [OF lt(1)] full by simp
    have tj: "subset_type (node_subsets ?s ! j) = subset_type (node_subsets s ! j)"
      using f(4) [OF lt(1)] lt(2) by simp
    show "if subset_nodes (node_subsets ?s ! Suc j) = []
         then \<forall>i<num_execution_nodes g. ready g ?s i \<longrightarrow>
                node_type_of g ty i \<noteq> subset_type (node_subsets ?s ! j)
         else subset_type (node_subsets ?s ! j) \<noteq> subset_type (node_subsets ?s ! Suc j)"
    proof (cases "Suc j = ?k")
      case True
      have "subset_type (node_subsets s ! j) \<noteq> node_type_of g ty i"
      proof (cases "subset_nodes (node_subsets s ! Suc j) = []")
        case empty: True
        have "node_type_of g ty i \<noteq> subset_type (node_subsets s ! j)"
          using alt [unfolded alternating_def, THEN conjunct2, rule_format, OF j] empty rdy i(1) by simp
        then show ?thesis by simp
      next
        case False
        have "subset_type (node_subsets s ! j) \<noteq> subset_type (node_subsets s ! Suc j)"
          using alt [unfolded alternating_def, THEN conjunct2, rule_format, OF j] False by simp
        moreover have "subset_type (node_subsets s ! Suc j) \<noteq> kTfUnexplored"
          using un [OF j] False by simp
        moreover have "subset_type (node_subsets s ! Suc j) \<in> {kTfUnexplored, node_type_of g ty i}"
          using cur True by simp
        ultimately show ?thesis by auto
      qed
      then show ?thesis
        using True tj f(4) [OF j, of g ty i] f(5) [OF j, of g ty i] by simp
    next
      case False
      then have "subset_nodes (node_subsets s ! Suc j) \<noteq> []"
        using alt j by (simp add: alternating_def)
      then show ?thesis
        using False tj f(4) [OF j, of g ty i] f(5) [OF j, of g ty i] alt j by (simp add: alternating_def)
    qed
  qed
qed

lemma joined_inv:
  assumes "partitionable g ty" "part_inv g ty s" "i < num_execution_nodes g" "joins g ty s i"
  shows "part_inv g ty (joined g ty i s)"
proof -
  have s: "node_subsets s \<noteq> []" "epochs_ok g s" "order_ok g s" "types_ok g ty s" "io_ok g s"
    using assms(2) by (auto simp: part_inv_def)
  have r: "ready g s i" using assms(4) by (simp add: joins_def)
  have "node_subsets (joined g ty i s) \<noteq> []"
    using joined_fields(1) [OF s(1), of g ty i] s(1) by (metis length_0_conv)
  then show ?thesis
    unfolding part_inv_def
    using joined_epochs_ok [OF assms(1) s(1,2) assms(3) r] joined_order_ok [OF assms(1) s(1-3) assms(3) r]
      joined_types_ok [OF assms(1) s(1,2,4) assms(3,4)] joined_io_ok [OF assms(1) s(1,2,5) assms(3) r]
      joined_alternating [OF assms(1-4)]
    by blast
qed

text \<open>One call of \<^verbatim>\<open>UpdateNode\<close>.\<close>

lemma UpdateNode_inv:
  assumes "partitionable g ty" "part_inv g ty s" "i < num_execution_nodes g"
  shows "\<exists>b s'. UpdateNode g ty i s = Some (b, s') \<and> part_inv g ty s' \<and> (b \<longleftrightarrow> joins g ty s i)
    \<and> (\<not> b \<longrightarrow> s' = s)"
proof -
  have s: "node_subsets s \<noteq> []" "epochs_ok g s" using assms(2) by (auto simp: part_inv_def)
  show ?thesis
    using UpdateNode_eq [OF assms(1) s assms(3)] joined_inv [OF assms] assms(2)
    by (cases "joins g ty s i") auto
qed

subsection \<open>The loops\<close>

lemma sweep_inv:
  assumes "partitionable g ty"
  shows "part_inv g ty s \<Longrightarrow> \<forall>i\<in>set is. i < num_execution_nodes g \<Longrightarrow>
    \<exists>b s'. sweep g ty is d s = Some (b, s') \<and> part_inv g ty s'
      \<and> length (node_subsets s') = length (node_subsets s)
      \<and> (\<not> b \<longrightarrow> s' = s \<and> (\<forall>i\<in>set is. \<not> joins g ty s i))"
proof (induction "is" arbitrary: d s)
  case Nil
  then show ?case by simp
next
  case (Cons i js)
  have i: "i < num_execution_nodes g" "\<forall>i\<in>set js. i < num_execution_nodes g"
    using Cons.prems(2) by auto
  obtain c t where t: "UpdateNode g ty i s = Some (c, t)" "part_inv g ty t" "c \<longleftrightarrow> joins g ty s i"
    "\<not> c \<longrightarrow> t = s"
    using UpdateNode_inv [OF assms Cons.prems(1) i(1)] by auto
  have len: "length (node_subsets t) = length (node_subsets s)"
    using UpdateNode_eq [OF assms _ _ i(1), of s] Cons.prems(1) t joined_fields(1) [of s g ty i]
    by (auto simp: part_inv_def)
  obtain b s' where s': "sweep g ty js (d \<or> c) t = Some (b, s')" "part_inv g ty s'"
    "length (node_subsets s') = length (node_subsets t)"
    "\<not> b \<longrightarrow> s' = t \<and> (\<forall>i\<in>set js. \<not> joins g ty t i)"
    using Cons.IH [OF t(2) i(2), of "d \<or> c"] by blast
  have "b" if "c" using that s'(1) sweep_sticky [of g ty js t b s'] by simp
  then show ?case using t s' len by auto
qed

lemma build_loop_inv:
  assumes "partitionable g ty"
  shows "part_inv g ty s \<Longrightarrow> \<exists>s'. build_loop g ty s = Some s' \<and> part_inv g ty s'
    \<and> length (node_subsets s') = length (node_subsets s)
    \<and> (\<forall>i<num_execution_nodes g. \<not> joins g ty s' i)"
  using assms
proof (induction g ty s rule: build_loop.induct)
  case (1 g ty s)
  obtain b t where t: "sweep g ty [0..<num_execution_nodes g] False s = Some (b, t)" "part_inv g ty t"
    "length (node_subsets t) = length (node_subsets s)"
    "\<not> b \<longrightarrow> t = s \<and> (\<forall>i\<in>set [0..<num_execution_nodes g]. \<not> joins g ty s i)"
    using sweep_inv [OF "1.prems"(2,1), of "[0..<num_execution_nodes g]" False] by auto
  show ?case
  proof (cases b)
    case True
    then show ?thesis
      using "1.IH" [OF t(1) refl True t(2) "1.prems"(2)] t(1,3)
      by (subst build_loop.simps) simp
  next
    case False
    then show ?thesis using t by (subst build_loop.simps) auto
  qed
qed

text \<open>Between epochs: no node that could still join the last subset.\<close>

definition between_epochs :: "graph_info \<Rightarrow> node_subset_type list \<Rightarrow> partition \<Rightarrow> bool" where
  "between_epochs g ty s \<longleftrightarrow> epochs_ok g s \<and> order_ok g s \<and> types_ok g ty s \<and> io_ok g s
     \<and> alternating g ty s \<and> (\<forall>j<length (node_subsets s). subset_nodes (node_subsets s ! j) \<noteq> [])
     \<and> (node_subsets s \<noteq> [] \<longrightarrow> (\<forall>i<num_execution_nodes g. \<not> joins g ty s i))"

lemma open_epoch:
  assumes plan: "partitionable g ty" and b: "between_epochs g ty s"
  shows "part_inv g ty (s\<lparr>node_subsets := node_subsets s @ [NodeSubset]\<rparr>)"
proof -
  let ?s = "s\<lparr>node_subsets := node_subsets s @ [NodeSubset]\<rparr>" and ?n = "length (node_subsets s)"
  have e: "epochs_ok g s" using b by (simp add: between_epochs_def)
  have lt: "nat (node_epoch s i) < ?n" "0 \<le> node_epoch s i"
    if "i < num_execution_nodes g" "node_epoch s i \<noteq> kEpochNotReady" for i
    using epochs_okD(3) [OF e that] by auto
  have no: "node_epoch s i \<noteq> int ?n" if "i < num_execution_nodes g" for i
    using lt [OF that] by (cases "node_epoch s i = kEpochNotReady") (auto simp: kEpochNotReady_def)
  have "epochs_ok g ?s" using e lt by (fastforce simp: epochs_ok_def)
  moreover have "order_ok g ?s" using b by (simp add: between_epochs_def order_ok_def NodeSubset_def)
  moreover have "types_ok g ty ?s"
    using b no lt by (auto simp: between_epochs_def types_ok_def nth_append NodeSubset_def less_Suc_eq)
  moreover have "io_ok g ?s"
  proof -
    have "tensor_epoch s t \<noteq> int ?n"
      if "i < num_execution_nodes g" "node_epoch s i \<noteq> kEpochNotReady" "t \<in> set (inputs (gi_nodes g ! i))"
        "t \<noteq> kTfLiteOptionalTensor" for i t
    proof -
      have "valid_tensor g t"
        using plan wf_graph_nodeD(1) [OF _ that(1,3)] that(4)
        by (auto simp: partitionable_def valid_optional_def)
      then show ?thesis using tensor_epoch_range [OF e] by fastforce
    qed
    then show ?thesis
      using b no by (auto simp: between_epochs_def io_ok_def nth_append NodeSubset_def less_Suc_eq)
  qed
  moreover have "alternating g ty ?s"
  proof -
    have "node_type_of g ty i \<noteq> subset_type (node_subsets s ! j)"
      if "Suc j = ?n" "i < num_execution_nodes g" "ready g ?s i" for i j
    proof -
      have "node_subsets s \<noteq> []" "last (node_subsets s) = node_subsets s ! j"
        using that(1) by (cases "node_subsets s" rule: rev_cases; auto simp: nth_append)+
      then show ?thesis
        using b that by (auto simp: between_epochs_def joins_def ready_def)
    qed
    then show ?thesis
      using b unfolding alternating_def between_epochs_def
      by (auto simp: nth_append NodeSubset_def less_Suc_eq)
  qed
  ultimately show ?thesis by (simp add: part_inv_def)
qed

lemma between_if_full:
  assumes inv: "part_inv g ty s" and done_: "\<forall>i<num_execution_nodes g. \<not> joins g ty s i"
    and full: "subset_nodes (last (node_subsets s)) \<noteq> []"
  shows "between_epochs g ty s"
proof -
  have "subset_nodes (node_subsets s ! j) \<noteq> []" if "j < length (node_subsets s)" for j
  proof (cases "Suc j < length (node_subsets s)")
    case True
    then show ?thesis using inv by (simp add: part_inv_def alternating_def)
  next
    case False
    then have "j = length (node_subsets s) - 1" using that by simp
    then show ?thesis using full that by (metis last_conv_nth list.size(3) not_less_zero)
  qed
  then show ?thesis using inv done_ by (simp add: between_epochs_def part_inv_def)
qed

text \<open>When an epoch stays empty, every node has been assigned.\<close>

lemma all_assigned:
  assumes plan: "partitionable g ty" and inv: "part_inv g ty s"
    and done_: "\<forall>i<num_execution_nodes g. \<not> joins g ty s i"
    and empty: "subset_nodes (last (node_subsets s)) = []"
  shows "i < num_execution_nodes g \<Longrightarrow> node_epoch s i \<noteq> kEpochNotReady"
proof (induction i rule: less_induct)
  case (less i)
  have s: "node_subsets s \<noteq> []" "epochs_ok g s" "types_ok g ty s" using inv by (auto simp: part_inv_def)
  then have un: "subset_type (last (node_subsets s)) = kTfUnexplored"
    using empty by (simp add: types_ok_def last_conv_nth)
  show ?case
  proof
    assume nr: "node_epoch s i = kEpochNotReady"
    then have "\<not> ready g s i" using done_ un less.prems by (auto simp: joins_def)
    then obtain t where t: "t \<in> set (inputs (gi_nodes g ! i))" "t \<noteq> kTfLiteOptionalTensor"
      "tensor_epoch s t = kEpochNotReady"
      using nr by (auto simp: ready_def)
    have v: "valid_tensor g t"
      using plan wf_graph_nodeD(1) [OF _ less.prems t(1)] t(2)
      by (auto simp: partitionable_def valid_optional_def)
    obtain j where j: "produces g j t"
      using epochs_okD(6) [OF s(2) v] t(3) by (auto simp: kEpochNotReady_def kEpochAlwaysReady_def)
    then have "j < i" "j < num_execution_nodes g"
      using plan less.prems t(1) by (auto simp: partitionable_def produces_def)
    then show False
      using less.IH [of j] epochs_okD(5) [OF s(2) j] t(3) by simp
  qed
qed

text \<open>The result of the traversal, before duplicates are removed.\<close>

definition partitioned :: "graph_info \<Rightarrow> node_subset_type list \<Rightarrow> partition \<Rightarrow> bool" where
  "partitioned g ty s \<longleftrightarrow> epochs_ok g s \<and> order_ok g s \<and> types_ok g ty s \<and> io_ok g s
     \<and> (\<forall>j<length (node_subsets s). subset_nodes (node_subsets s ! j) \<noteq> [])
     \<and> (\<forall>j. Suc j < length (node_subsets s) \<longrightarrow>
          subset_type (node_subsets s ! j) \<noteq> subset_type (node_subsets s ! Suc j))
     \<and> (\<forall>i<num_execution_nodes g. node_epoch s i \<noteq> kEpochNotReady)"

lemma close_last_epoch:
  assumes plan: "partitionable g ty" and inv: "part_inv g ty s"
    and done_: "\<forall>i<num_execution_nodes g. \<not> joins g ty s i"
    and empty: "subset_nodes (last (node_subsets s)) = []"
  shows "partitioned g ty (s\<lparr>node_subsets := butlast (node_subsets s)\<rparr>)"
proof -
  let ?s = "s\<lparr>node_subsets := butlast (node_subsets s)\<rparr>" and ?n = "length (node_subsets s) - 1"
  have s: "node_subsets s \<noteq> []" "epochs_ok g s" "order_ok g s" "types_ok g ty s" "io_ok g s"
    "alternating g ty s" using inv by (auto simp: part_inv_def)
  have assigned: "node_epoch s i \<noteq> kEpochNotReady" if "i < num_execution_nodes g" for i
    using all_assigned [OF plan inv done_ empty that] .
  have none: "node_epoch s i \<noteq> int ?n" if "i < num_execution_nodes g" for i
  proof
    assume "node_epoch s i = int ?n"
    then have "plan_index g i \<in> set (subset_nodes (node_subsets s ! ?n))"
      using s(1,4) that by (auto simp: types_ok_def)
    then show False using empty s(1) by (simp add: last_conv_nth)
  qed
  have lt: "nat (node_epoch s i) < ?n" "0 \<le> node_epoch s i" if "i < num_execution_nodes g" for i
    using epochs_okD(3) [OF s(2) that assigned [OF that]] none [OF that] by auto
  have nth: "butlast (node_subsets s) ! j = node_subsets s ! j" if "j < ?n" for j
    using that by (simp add: nth_butlast)
  have "epochs_ok g ?s" using s(2) lt by (auto simp: epochs_ok_def)
  moreover have "order_ok g ?s"
  proof -
    have "concat (map subset_nodes (node_subsets s)) = concat (map subset_nodes (butlast (node_subsets s)))"
      using s(1) empty by (cases "node_subsets s" rule: rev_cases) auto
    then show ?thesis using s(3) by (simp add: order_ok_def)
  qed
  moreover have "types_ok g ty ?s" using s(4) lt nth by (simp add: types_ok_def)
  moreover have "io_ok g ?s" using s(5) nth by (simp add: io_ok_def)
  moreover have "subset_nodes (node_subsets ?s ! j) \<noteq> []" if "j < length (node_subsets ?s)" for j
    using s(6) that nth by (simp add: alternating_def)
  moreover have "subset_type (node_subsets ?s ! j) \<noteq> subset_type (node_subsets ?s ! Suc j)"
    if j: "Suc j < length (node_subsets ?s)" for j
  proof -
    have "Suc (Suc j) < length (node_subsets s)" "Suc j < length (node_subsets s)" using j by auto
    then have "subset_nodes (node_subsets s ! Suc j) \<noteq> []"
      "if subset_nodes (node_subsets s ! Suc j) = []
         then \<forall>i<num_execution_nodes g. ready g s i \<longrightarrow>
                node_type_of g ty i \<noteq> subset_type (node_subsets s ! j)
         else subset_type (node_subsets s ! j) \<noteq> subset_type (node_subsets s ! Suc j)"
      using s(6) unfolding alternating_def by blast+
    then show ?thesis using j nth by simp
  qed
  ultimately show ?thesis using assigned by (simp add: partitioned_def)
qed

lemma epoch_loop_inv:
  assumes "partitionable g ty"
  shows "between_epochs g ty s \<Longrightarrow> \<exists>s'. epoch_loop g ty s = Some s' \<and> partitioned g ty s'"
  using assms
proof (induction g ty s rule: epoch_loop.induct)
  case (1 g ty s)
  obtain t where t: "BuildNodeSubset g ty s = Some t" "part_inv g ty t"
    "\<forall>i<num_execution_nodes g. \<not> joins g ty t i"
    using build_loop_inv [OF "1.prems"(2) open_epoch [OF "1.prems"(2,1)]]
    by (auto simp: BuildNodeSubset_def)
  show ?case
  proof (cases "subset_nodes (last (node_subsets t)) = []")
    case True
    then show ?thesis
      using t close_last_epoch [OF "1.prems"(2) t(2,3)] by (subst epoch_loop.simps) simp
  next
    case False
    then show ?thesis
      using t(1) "1.IH" [OF t(1) False between_if_full [OF t(2,3) False] "1.prems"(2)]
      by (subst epoch_loop.simps) simp
  qed
qed

lemma mark_outputs_eq:
  assumes "\<forall>nd\<in>set nds. in_range (length xs) (outputs nd)"
  shows "mark_outputs nds xs = Some (tab (length xs)
     (\<lambda>x. if \<exists>nd\<in>set nds. int x \<in> set (outputs nd) then kEpochNotReady else xs ! x))"
  using assms
proof (induction nds arbitrary: xs)
  case Nil
  then show ?case by (simp add: tab_def map_nth)
next
  case (Cons nd nds)
  let ?ys = "tab (length xs) (\<lambda>x. if int x \<in> set (outputs nd) then kEpochNotReady else xs ! x)"
  have "mark_outputs nds ?ys = Some (tab (length xs)
     (\<lambda>x. if \<exists>nd\<in>set nds. int x \<in> set (outputs nd) then kEpochNotReady else ?ys ! x))"
    using Cons.IH [of ?ys] Cons.prems by simp
  moreover have "tab (length xs)
     (\<lambda>x. if \<exists>nd\<in>set nds. int x \<in> set (outputs nd) then kEpochNotReady else ?ys ! x)
    = tab (length xs)
     (\<lambda>x. if \<exists>nd\<in>set (nd # nds). int x \<in> set (outputs nd) then kEpochNotReady else xs ! x)"
    by (rule tab_cong) auto
  ultimately show ?case using Cons.prems by (simp add: vec_set_all_eq)
qed

definition start_partition :: "graph_info \<Rightarrow> partition" where
  "start_partition g = \<lparr>node_subsets = [],
     tensor_epochs = tab (num_tensors g) (\<lambda>x. if \<exists>nd\<in>set (gi_nodes g). int x \<in> set (outputs nd)
       then kEpochNotReady else kEpochAlwaysReady),
     node_epochs = replicate (num_execution_nodes g) kEpochNotReady\<rparr>"

lemma start_between:
  assumes "partitionable g ty"
  shows "between_epochs g ty (start_partition g)"
proof -
  let ?s = "start_partition g"
  have "tensor_epoch ?s t = kEpochNotReady" if "produces g i t" for i t
  proof -
    have "valid_tensor g t"
      using assms that wf_graph_nodeD(2) by (auto simp: partitionable_def produces_def)
    moreover have "\<exists>nd\<in>set (gi_nodes g). t \<in> set (outputs nd)"
      using that by (auto simp: produces_def num_execution_nodes_def)
    ultimately show ?thesis by (simp add: start_partition_def valid_tensor_def)
  qed
  moreover have "tensor_epoch ?s t = kEpochAlwaysReady"
    if "valid_tensor g t" "\<And>i. \<not> produces g i t" for t
  proof -
    have "\<not> (\<exists>nd\<in>set (gi_nodes g). t \<in> set (outputs nd))"
      using that(2) by (metis in_set_conv_nth produces_def num_execution_nodes_def)
    then show ?thesis using that(1) by (simp add: start_partition_def valid_tensor_def)
  qed
  ultimately have "epochs_ok g ?s"
    by (auto simp: epochs_ok_def start_partition_def produces_def)
  moreover have "order_ok g ?s"
    unfolding order_ok_def by (rule exI [of _ "[]"]) (simp add: start_partition_def deps_before_def)
  ultimately show ?thesis
    by (simp add: between_epochs_def types_ok_def io_ok_def alternating_def)
      (simp add: start_partition_def)
qed

lemma model_outputs_spec:
  assumes "in_range (length epochs) ts"
    and "\<forall>t\<in>set ts. epochs ! nat t = kEpochAlwaysReady
           \<or> 0 \<le> epochs ! nat t \<and> nat (epochs ! nat t) < length subs"
  shows "\<exists>subs'. model_outputs epochs ts subs = Some subs' \<and> length subs' = length subs
    \<and> (\<forall>j<length subs. subset_type (subs' ! j) = subset_type (subs ! j)
         \<and> subset_nodes (subs' ! j) = subset_nodes (subs ! j)
         \<and> input_tensors (subs' ! j) = input_tensors (subs ! j)
         \<and> set (output_tensors (subs' ! j)) = set (output_tensors (subs ! j))
             \<union> {t \<in> set ts. epochs ! nat t = int j})"
  using assms
proof (induction ts arbitrary: subs)
  case Nil
  then show ?case by simp
next
  case (Cons t ts)
  have t: "vec_at epochs t = Some (epochs ! nat t)" "in_range (length epochs) ts"
    using Cons.prems(1) by (simp_all add: vec_at_def in_bounds_def)
  show ?case
  proof (cases "epochs ! nat t = kEpochAlwaysReady")
    case True
    then have "epochs ! nat t \<noteq> int j" "int j \<noteq> kEpochAlwaysReady" for j
      by (simp_all add: kEpochAlwaysReady_def)
    then show ?thesis using Cons.IH [OF t(2), of subs] Cons.prems(2) t True by auto
  next
    case False
    then obtain k where k: "epochs ! nat t = int k" "k < length subs"
      using Cons.prems(2) by (metis int_nat_eq list.set_intros(1))
    let ?subs = "subs[k := (subs ! k)\<lparr>output_tensors := output_tensors (subs ! k) @ [t]\<rparr>]"
    obtain subs' where s: "model_outputs epochs ts ?subs = Some subs'" "length subs' = length ?subs"
      "\<forall>j<length ?subs. subset_type (subs' ! j) = subset_type (?subs ! j)
         \<and> subset_nodes (subs' ! j) = subset_nodes (?subs ! j)
         \<and> input_tensors (subs' ! j) = input_tensors (?subs ! j)
         \<and> set (output_tensors (subs' ! j)) = set (output_tensors (?subs ! j))
             \<union> {t \<in> set ts. epochs ! nat t = int j}"
      using Cons.IH [OF t(2), of ?subs] Cons.prems(2) by auto
    have "model_outputs epochs (t # ts) subs = Some subs'"
      using t(1) False k s(1) by (simp add: push_output_eq)
    moreover have "\<forall>j<length subs. subset_type (subs' ! j) = subset_type (subs ! j)
         \<and> subset_nodes (subs' ! j) = subset_nodes (subs ! j)
         \<and> input_tensors (subs' ! j) = input_tensors (subs ! j)
         \<and> set (output_tensors (subs' ! j)) = set (output_tensors (subs ! j))
             \<union> {u \<in> set (t # ts). epochs ! nat u = int j}"
    proof (intro allI impI)
      fix j assume j: "j < length subs"
      show "subset_type (subs' ! j) = subset_type (subs ! j)
         \<and> subset_nodes (subs' ! j) = subset_nodes (subs ! j)
         \<and> input_tensors (subs' ! j) = input_tensors (subs ! j)
         \<and> set (output_tensors (subs' ! j)) = set (output_tensors (subs ! j))
             \<union> {u \<in> set (t # ts). epochs ! nat u = int j}"
        using s(3) j k by (cases "j = k") auto
    qed
    ultimately show ?thesis using s(2) by simp
  qed
qed

interpretation int_less: strict_weak_order "(<) :: int \<Rightarrow> int \<Rightarrow> bool" UNIV
  by unfold_locales auto

lemma sorted_remdups_adj_strict: "sorted xs \<Longrightarrow> sorted_wrt (<) (remdups_adj xs)" for xs :: "int list"
  by (induction xs rule: remdups_adj.induct) (auto simp: order.strict_iff_order)

lemma uniquefy_spec: "set (uniquefy xs) = set xs" "sorted_wrt (<) (uniquefy xs)"
proof -
  show "set (uniquefy xs) = set xs" by (simp add: uniquefy_def)
  have "sorted_by (<) (std_sort (<) xs)" by (rule int_less.sorted_std_sort) simp
  then have "sorted (std_sort (<) xs)" by (simp add: sorted_by_def not_less)
  then show "sorted_wrt (<) (uniquefy xs)"
    unfolding uniquefy_def by (rule sorted_remdups_adj_strict)
qed

section \<open>The partition\<close>

text \<open>
  The input \<^verbatim>\<open>Subgraph::ReplaceNodeSubsetsWithDelegateKernels\<close> passes: an execution plan without
  repetitions, whose nodes come after the producers of their inputs.
\<close>

definition partition_input :: "graph_info \<Rightarrow> int list \<Rightarrow> bool" where
  "partition_input g ns \<longleftrightarrow> wf_graph g
     \<and> length (gi_node_index g) = num_execution_nodes g \<and> distinct (gi_node_index g)
     \<and> in_range (gi_num_total_nodes g) (gi_node_index g) \<and> in_range (gi_num_total_nodes g) ns
     \<and> (\<forall>i j t. produces g i t \<longrightarrow> produces g j t \<longrightarrow> i = j)
     \<and> (\<forall>i<num_execution_nodes g. \<forall>t\<in>set (inputs (gi_nodes g ! i)). \<forall>j. produces g j t \<longrightarrow> j < i)"

lemma node_types_spec:
  assumes "partition_input g ns"
  shows "\<exists>ty. node_types g ns = Some ty \<and> partitionable g ty
    \<and> (\<forall>i<num_execution_nodes g. node_type_of g ty i =
         (if plan_index g i \<in> set ns then kTfPartition else kTfNonPartition))"
proof -
  let ?n = "gi_num_total_nodes g"
  let ?ty = "tab ?n (\<lambda>x. if int x \<in> set ns then kTfPartition else replicate ?n kTfNonPartition ! x)"
  have "node_types g ns = Some ?ty"
    using assms vec_set_all_eq [of "replicate ?n kTfNonPartition" ns kTfPartition]
    by (simp add: node_types_def partition_input_def)
  moreover have r: "0 \<le> plan_index g i \<and> nat (plan_index g i) < ?n" if "i < num_execution_nodes g" for i
    using assms that by (auto simp: partition_input_def in_range_def plan_index_def)
  ultimately show ?thesis
    using assms by (intro exI [of _ ?ty]) (auto simp: partitionable_def partition_input_def node_type_of_def)
qed

lemma Partition_result:
  assumes "partition_input g ns"
  shows "\<exists>s subs subs' ty. PartitionGraphIntoIndependentNodeSubsets g ns = ok subs
    \<and> partitioned g ty s \<and> subs = map uniquefy_subset subs'
    \<and> length subs' = length (node_subsets s)
    \<and> (\<forall>i<num_execution_nodes g. node_type_of g ty i =
         (if plan_index g i \<in> set ns then kTfPartition else kTfNonPartition))
    \<and> (\<forall>j<length subs'. subset_type (subs' ! j) = subset_type (node_subsets s ! j)
         \<and> subset_nodes (subs' ! j) = subset_nodes (node_subsets s ! j)
         \<and> input_tensors (subs' ! j) = input_tensors (node_subsets s ! j)
         \<and> set (output_tensors (subs' ! j)) = set (output_tensors (node_subsets s ! j))
             \<union> {t \<in> set (gi_outputs g). tensor_epoch s t = int j})"
proof -
  obtain ty where ty: "node_types g ns = Some ty" "partitionable g ty"
    "\<forall>i<num_execution_nodes g. node_type_of g ty i =
         (if plan_index g i \<in> set ns then kTfPartition else kTfNonPartition)"
    using node_types_spec [OF assms] by blast
  have wf: "wf_graph g" using assms by (simp add: partition_input_def)
  obtain s where s: "epoch_loop g ty (start_partition g) = Some s" "partitioned g ty s"
    using epoch_loop_inv [OF ty(2) start_between [OF ty(2)]] by blast
  have e: "epochs_ok g s" using s(2) by (simp add: partitioned_def)
  have "\<forall>nd\<in>set (gi_nodes g). in_range (num_tensors g) (outputs nd)"
    using wf_graphD(5) [OF wf] by (auto intro: in_range_valid)
  then have mark: "mark_outputs (gi_nodes g) (replicate (num_tensors g) kEpochAlwaysReady)
      = Some (tensor_epochs (start_partition g))"
    using mark_outputs_eq [of "gi_nodes g" "replicate (num_tensors g) kEpochAlwaysReady"]
    by (simp add: start_partition_def) (rule tab_cong, simp)
  have "tensor_epoch s t = kEpochAlwaysReady \<or> 0 \<le> tensor_epoch s t
      \<and> nat (tensor_epoch s t) < length (node_subsets s)" if "t \<in> set (gi_outputs g)" for t
  proof (cases "\<exists>i. produces g i t")
    case True
    then obtain i where i: "produces g i t" "i < num_execution_nodes g" by (auto simp: produces_def)
    then have "node_epoch s i \<noteq> kEpochNotReady" using s(2) by (simp add: partitioned_def)
    then show ?thesis using epochs_okD(3) [OF e i(2)] epochs_okD(5) [OF e i(1)] by simp
  next
    case False
    then show ?thesis using epochs_okD(6) [OF e wf_graphD(2) [OF wf that]] by blast
  qed
  then obtain subs' where m: "model_outputs (tensor_epochs s) (gi_outputs g) (node_subsets s) = Some subs'"
    "length subs' = length (node_subsets s)"
    "\<forall>j<length (node_subsets s). subset_type (subs' ! j) = subset_type (node_subsets s ! j)
         \<and> subset_nodes (subs' ! j) = subset_nodes (node_subsets s ! j)
         \<and> input_tensors (subs' ! j) = input_tensors (node_subsets s ! j)
         \<and> set (output_tensors (subs' ! j)) = set (output_tensors (node_subsets s ! j))
             \<union> {t \<in> set (gi_outputs g). tensor_epoch s t = int j}"
    using model_outputs_spec [of "tensor_epochs s" "gi_outputs g" "node_subsets s"]
      wf_in_range(1) [OF wf] epochs_okD(1) [OF e] by auto
  have "PartitionGraphIntoIndependentNodeSubsets g ns = ok (map uniquefy_subset subs')"
    using ty(1) mark s(1) m(1)
    by (simp add: PartitionGraphIntoIndependentNodeSubsets_def Partition_def start_partition_def)
  then show ?thesis using s(2) m(2,3) ty(3)
    by (intro exI [of _ s] exI [of _ "map uniquefy_subset subs'"] exI [of _ subs'] exI [of _ ty]) auto
qed

text \<open>
  C8: the partition takes every execution node exactly once, and executing the subsets one after
  the other, each in the order of its nodes, respects every dependency: the producers of a node's
  inputs come before it. No access is out of bounds and both loops end.
\<close>

theorem Partition_order:
  assumes "partition_input g ns"
  shows "\<exists>subs order. PartitionGraphIntoIndependentNodeSubsets g ns = ok subs
    \<and> distinct order \<and> set order = {..<num_execution_nodes g}
    \<and> concat (map subset_nodes subs) = map (plan_index g) order
    \<and> deps_before g order"
proof -
  obtain s subs subs' where r: "PartitionGraphIntoIndependentNodeSubsets g ns = ok subs"
    "order_ok g s" "\<forall>i<num_execution_nodes g. node_epoch s i \<noteq> kEpochNotReady"
    "subs = map uniquefy_subset subs'" "length subs' = length (node_subsets s)"
    "\<forall>j<length subs'. subset_nodes (subs' ! j) = subset_nodes (node_subsets s ! j)"
    using Partition_result [OF assms] by (auto simp: partitioned_def)
  obtain order where o: "distinct order"
    "set order = {i. i < num_execution_nodes g \<and> node_epoch s i \<noteq> kEpochNotReady}"
    "concat (map subset_nodes (node_subsets s)) = map (plan_index g) order" "deps_before g order"
    using r(2) by (auto simp: order_ok_def)
  have "map subset_nodes subs = map subset_nodes (node_subsets s)"
    using r(4-6) by (intro nth_equalityI) (auto simp: uniquefy_subset_def)
  moreover have "set order = {..<num_execution_nodes g}" using o(2) r(3) by auto
  ultimately show ?thesis using r(1) o by metis
qed

text \<open>
  each subset is non-empty and homogeneous: it holds only nodes that were asked for
  (\<^verbatim>\<open>kTfPartition\<close>) or only others, and neighbouring subsets have different types, so the
  partition is as coarse as a sequence of runs can be.
\<close>

theorem Partition_types:
  assumes "partition_input g ns"
  shows "\<exists>subs. PartitionGraphIntoIndependentNodeSubsets g ns = ok subs
    \<and> (\<forall>j<length subs. subset_nodes (subs ! j) \<noteq> []
         \<and> (subset_type (subs ! j) = kTfPartition \<and> set (subset_nodes (subs ! j)) \<subseteq> set ns
            \<or> subset_type (subs ! j) = kTfNonPartition \<and> set (subset_nodes (subs ! j)) \<inter> set ns = {})
         \<and> (Suc j < length subs \<longrightarrow> subset_type (subs ! j) \<noteq> subset_type (subs ! Suc j)))"
proof -
  obtain s subs subs' ty where r: "PartitionGraphIntoIndependentNodeSubsets g ns = ok subs"
    "partitioned g ty s" "subs = map uniquefy_subset subs'" "length subs' = length (node_subsets s)"
    "\<forall>i<num_execution_nodes g. node_type_of g ty i =
         (if plan_index g i \<in> set ns then kTfPartition else kTfNonPartition)"
    "\<forall>j<length subs'. subset_type (subs' ! j) = subset_type (node_subsets s ! j)
       \<and> subset_nodes (subs' ! j) = subset_nodes (node_subsets s ! j)"
    using Partition_result [OF assms] by blast
  have sub: "subset_nodes (subs ! j) = subset_nodes (node_subsets s ! j)"
    "subset_type (subs ! j) = subset_type (node_subsets s ! j)" if "j < length subs" for j
    using r(3,6) that by (simp_all add: uniquefy_subset_def)
  have len: "length subs = length (node_subsets s)" using r(3,4) by simp
  have mem: "\<exists>i<num_execution_nodes g. n = plan_index g i \<and> node_type_of g ty i = subset_type (node_subsets s ! j)"
    if "j < length subs" and n: "n \<in> set (subset_nodes (node_subsets s ! j))" for j n
  proof -
    have "set (subset_nodes (node_subsets s ! j))
       = {plan_index g i | i. i < num_execution_nodes g \<and> node_epoch s i = int j}"
      using r(2) that(1) len by (simp add: partitioned_def types_ok_def)
    then obtain i where i: "n = plan_index g i" "i < num_execution_nodes g" "node_epoch s i = int j"
      using n by auto
    then have "subset_type (node_subsets s ! j) = node_type_of g ty i"
      using r(2) by (auto simp: partitioned_def types_ok_def kEpochNotReady_def)
    then show ?thesis using i by auto
  qed
  have "subset_nodes (subs ! j) \<noteq> []
         \<and> (subset_type (subs ! j) = kTfPartition \<and> set (subset_nodes (subs ! j)) \<subseteq> set ns
            \<or> subset_type (subs ! j) = kTfNonPartition \<and> set (subset_nodes (subs ! j)) \<inter> set ns = {})
         \<and> (Suc j < length subs \<longrightarrow> subset_type (subs ! j) \<noteq> subset_type (subs ! Suc j))"
    if j: "j < length subs" for j
  proof (intro conjI impI)
    have ne: "subset_nodes (node_subsets s ! j) \<noteq> []"
      using r(2) j len by (simp add: partitioned_def)
    then show "subset_nodes (subs ! j) \<noteq> []" using sub(1) [OF j] by simp
    obtain n where "n \<in> set (subset_nodes (node_subsets s ! j))"
      using ne by (meson last_in_set)
    then have ty: "subset_type (node_subsets s ! j) = kTfPartition
        \<or> subset_type (node_subsets s ! j) = kTfNonPartition"
    proof -
      assume "n \<in> set (subset_nodes (node_subsets s ! j))"
      then obtain i where i: "i < num_execution_nodes g"
        "node_type_of g ty i = subset_type (node_subsets s ! j)"
        using mem [OF j] by blast
      then show ?thesis using r(5) by (cases "plan_index g i \<in> set ns") auto
    qed
    have "n \<in> set ns \<longleftrightarrow> subset_type (node_subsets s ! j) = kTfPartition"
      if "n \<in> set (subset_nodes (node_subsets s ! j))" for n
      using mem [OF j that] r(5) by (auto split: if_splits)
    then show "subset_type (subs ! j) = kTfPartition \<and> set (subset_nodes (subs ! j)) \<subseteq> set ns
            \<or> subset_type (subs ! j) = kTfNonPartition \<and> set (subset_nodes (subs ! j)) \<inter> set ns = {}"
      using ty sub [OF j] by auto
    assume "Suc j < length subs"
    then show "subset_type (subs ! j) \<noteq> subset_type (subs ! Suc j)"
      using r(2) len sub(2) by (simp add: partitioned_def)
  qed
  then show ?thesis using r(1) by blast
qed

definition subset_reads :: "graph_info \<Rightarrow> node_subset \<Rightarrow> int \<Rightarrow> bool" where
  "subset_reads g s t \<longleftrightarrow> t \<noteq> kTfLiteOptionalTensor
     \<and> (\<exists>i<num_execution_nodes g. plan_index g i \<in> set (subset_nodes s) \<and> t \<in> set (inputs (gi_nodes g ! i)))"

definition subset_produces :: "graph_info \<Rightarrow> node_subset \<Rightarrow> int \<Rightarrow> bool" where
  "subset_produces g s t \<longleftrightarrow> (\<exists>i. produces g i t \<and> plan_index g i \<in> set (subset_nodes s))"

text \<open>
  C9: the interface of each subset is exact and sorted without duplicates: its inputs are the
  tensors that its nodes read and no node of it produces, its outputs the tensors it produces
  that another subset reads or the graph outputs.
\<close>

theorem Partition_interface:
  assumes "partition_input g ns"
  shows "\<exists>subs. PartitionGraphIntoIndependentNodeSubsets g ns = ok subs
    \<and> (\<forall>j<length subs. sorted_wrt (<) (input_tensors (subs ! j))
         \<and> sorted_wrt (<) (output_tensors (subs ! j))
         \<and> set (input_tensors (subs ! j))
             = {t. subset_reads g (subs ! j) t \<and> \<not> subset_produces g (subs ! j) t}
         \<and> set (output_tensors (subs ! j)) = {t. subset_produces g (subs ! j) t
             \<and> (t \<in> set (gi_outputs g)
                \<or> (\<exists>k<length subs. k \<noteq> j \<and> subset_reads g (subs ! k) t))})"
proof -
  obtain s subs subs' ty where r: "PartitionGraphIntoIndependentNodeSubsets g ns = ok subs"
    "partitioned g ty s" "subs = map uniquefy_subset subs'" "length subs' = length (node_subsets s)"
    "\<forall>j<length subs'. subset_nodes (subs' ! j) = subset_nodes (node_subsets s ! j)
         \<and> input_tensors (subs' ! j) = input_tensors (node_subsets s ! j)
         \<and> set (output_tensors (subs' ! j)) = set (output_tensors (node_subsets s ! j))
             \<union> {t \<in> set (gi_outputs g). tensor_epoch s t = int j}"
    using Partition_result [OF assms] by blast
  let ?N = "num_execution_nodes g"
  have wf: "wf_graph g" using assms by (simp add: partition_input_def)
  have e: "epochs_ok g s" and all: "\<And>i. i < ?N \<Longrightarrow> node_epoch s i \<noteq> kEpochNotReady"
    using r(2) by (auto simp: partitioned_def)
  have len: "length subs = length (node_subsets s)" using r(3,4) by simp
  have inj: "i = i'" if "plan_index g i = plan_index g i'" "i < ?N" "i' < ?N" for i i'
    using assms that by (simp add: partition_input_def plan_index_def nth_eq_iff_index_eq)
  have mem: "plan_index g i \<in> set (subset_nodes (subs ! j)) \<longleftrightarrow> node_epoch s i = int j"
    if "j < length subs" "i < ?N" for i j
  proof -
    have "set (subset_nodes (subs ! j)) = {plan_index g i | i. i < ?N \<and> node_epoch s i = int j}"
      using r(2,3,5) that(1) len by (simp add: partitioned_def types_ok_def uniquefy_subset_def)
    then show ?thesis using inj that(2) by auto
  qed
  have valid: "valid_tensor g t" if "i < ?N" "t \<in> set (inputs (gi_nodes g ! i))" "t \<noteq> kTfLiteOptionalTensor" for i t
    using wf_graph_nodeD(1) [OF wf that(1,2)] that(3) by (simp add: valid_optional_def)
  have prod: "subset_produces g (subs ! j) t \<longleftrightarrow> tensor_epoch s t = int j"
    if "j < length subs" "valid_tensor g t" for j t
  proof (cases "\<exists>i. produces g i t")
    case True
    then obtain i where i: "produces g i t" "i < ?N" by (auto simp: produces_def)
    have "subset_produces g (subs ! j) t \<longleftrightarrow> plan_index g i \<in> set (subset_nodes (subs ! j))"
      using i(1) assms by (auto simp: subset_produces_def partition_input_def)
    then show ?thesis using mem [OF that(1) i(2)] epochs_okD(5) [OF e i(1)] by simp
  next
    case False
    then show ?thesis
      using epochs_okD(6) [OF e that(2)] by (auto simp: subset_produces_def kEpochAlwaysReady_def)
  qed
  have prod_valid: "valid_tensor g t" if "subset_produces g (subs ! j) t" for j t
    using that wf_graph_nodeD(2) [OF wf] by (auto simp: subset_produces_def produces_def)
  have reads: "subset_reads g (subs ! j) t \<longleftrightarrow> t \<noteq> kTfLiteOptionalTensor
      \<and> (\<exists>i<?N. node_epoch s i = int j \<and> t \<in> set (inputs (gi_nodes g ! i)))" if "j < length subs" for j t
    using mem [OF that] by (auto simp: subset_reads_def)
  have "sorted_wrt (<) (input_tensors (subs ! j)) \<and> sorted_wrt (<) (output_tensors (subs ! j))"
    "set (input_tensors (subs ! j))
             = {t. subset_reads g (subs ! j) t \<and> \<not> subset_produces g (subs ! j) t}"
    "set (output_tensors (subs ! j)) = {t. subset_produces g (subs ! j) t
             \<and> (t \<in> set (gi_outputs g) \<or> (\<exists>k<length subs. k \<noteq> j \<and> subset_reads g (subs ! k) t))}"
    if j: "j < length subs" for j
  proof -
    have ins: "set (input_tensors (subs ! j)) = {t. t \<noteq> kTfLiteOptionalTensor
        \<and> (\<exists>i<?N. node_epoch s i = int j \<and> t \<in> set (inputs (gi_nodes g ! i))) \<and> tensor_epoch s t \<noteq> int j}"
      and outs: "set (output_tensors (subs ! j)) = {t. t \<noteq> kTfLiteOptionalTensor \<and> tensor_epoch s t = int j
        \<and> (\<exists>i<?N. node_epoch s i \<noteq> kEpochNotReady \<and> node_epoch s i \<noteq> int j
             \<and> t \<in> set (inputs (gi_nodes g ! i)))} \<union> {t \<in> set (gi_outputs g). tensor_epoch s t = int j}"
      using r(2,3,5) j len by (auto simp: partitioned_def io_ok_def uniquefy_subset_def uniquefy_spec)
    show "sorted_wrt (<) (input_tensors (subs ! j)) \<and> sorted_wrt (<) (output_tensors (subs ! j))"
      using r(3) j by (simp add: uniquefy_subset_def uniquefy_spec)
    show "set (input_tensors (subs ! j))
             = {t. subset_reads g (subs ! j) t \<and> \<not> subset_produces g (subs ! j) t}"
      unfolding ins using reads [OF j] prod [OF j] valid by auto
    have other: "(\<exists>i<?N. node_epoch s i \<noteq> kEpochNotReady \<and> node_epoch s i \<noteq> int j
          \<and> t \<in> set (inputs (gi_nodes g ! i))) \<longleftrightarrow>
        (\<exists>k<length subs. k \<noteq> j \<and> (\<exists>i<?N. node_epoch s i = int k \<and> t \<in> set (inputs (gi_nodes g ! i))))"
      for t
    proof -
      have "\<exists>k<length subs. node_epoch s i = int k" if "i < ?N" for i
        using epochs_okD(3) [OF e that all [OF that]] len by (metis int_nat_eq)
      then show ?thesis using all by (metis of_nat_eq_iff)
    qed
    show "set (output_tensors (subs ! j)) = {t. subset_produces g (subs ! j) t
             \<and> (t \<in> set (gi_outputs g) \<or> (\<exists>k<length subs. k \<noteq> j \<and> subset_reads g (subs ! k) t))}"
      unfolding outs other using reads prod [OF j] prod_valid valid wf_graphD(2) [OF wf] by fastforce
  qed
  then show ?thesis using r(1) by blast
qed


text \<open>The chain of two nodes, of which a delegate takes the second.\<close>

lemma example_partition_input: "partition_input example_graph [1]"
proof -
  have "produces example_graph i t \<longleftrightarrow> i = 0 \<and> t = 1 \<or> i = 1 \<and> t = 2" for i t
    by (auto simp: produces_def example_graph_facts example_node_def less_2_cases_iff)
  then show ?thesis
    using example_graph_wf
    by (auto simp: partition_input_def example_graph_facts example_node_def less_2_cases_iff)
      (simp_all add: example_graph_def)
qed

theorem Partition_order_witness:
  "\<exists>subs order. PartitionGraphIntoIndependentNodeSubsets example_graph [1] = ok subs
    \<and> set order = {..<2} \<and> concat (map subset_nodes subs) = map (plan_index example_graph) order"
  using Partition_order [OF example_partition_input] by (metis example_graph_facts(2))

theorem Partition_types_witness:
  "\<exists>subs. PartitionGraphIntoIndependentNodeSubsets example_graph [1] = ok subs
    \<and> (\<forall>j<length subs. subset_nodes (subs ! j) \<noteq> [])"
  using Partition_types [OF example_partition_input] by blast

theorem Partition_interface_witness:
  "\<exists>subs. PartitionGraphIntoIndependentNodeSubsets example_graph [1] = ok subs
    \<and> (\<forall>j<length subs. set (input_tensors (subs ! j))
         = {t. subset_reads example_graph (subs ! j) t \<and> \<not> subset_produces example_graph (subs ! j) t})"
  using Partition_interface [OF example_partition_input] by blast

lemma example_partition:
  "map_option (map_prod id (map (\<lambda>s. (subset_type s, subset_nodes s, input_tensors s, output_tensors s))))
     (PartitionGraphIntoIndependentNodeSubsets example_graph [1])
   = ok [(kTfNonPartition, [0], [0], [1]), (kTfPartition, [1], [1], [2])]"
  by code_simp

end
