(* ===== verification/Subgraph.thy ===== *)
theory Subgraph
  imports Arena_Planner Graph_Partition "HOL-Library.AList"
begin

text \<open>
  \<^verbatim>\<open>tensorflow/lite/core/subgraph.{h,cc}\<close>: one graph of the interpreter, its construction, memory
  planning, delegation and invocation.

  The record \<open>subgraph\<close> holds the fields of \<^verbatim>\<open>Subgraph\<close>; \<open>world\<close> is everything outside it
  (tensor contents, op data, clocks), of any type. What the code calls through pointers is the
  record \<open>env\<close>: the kernels and delegates, which get the whole subgraph as their
  \<^verbatim>\<open>TfLiteContext*\<close>, \<^verbatim>\<open>malloc\<close>, \<^verbatim>\<open>new char[]\<close> and \<^verbatim>\<open>memset\<close>. Error texts are not modelled.
  Accesses outside a vector and calls of null pointers are \<^term>\<open>None\<close>.
\<close>

section \<open>State\<close>

datatype subgraph_state = kStateUninvokable | kStateInvokable | kStateInvokableAndImmutable

record custom_allocation =
  ca_data :: nat
  ca_bytes :: nat

record delegate_params =
  dp_delegate :: "delegate_id option"
  dp_nodes_to_replace :: "int list"
  dp_input_tensors :: "int list"
  dp_output_tensors :: "int list"

record 'w subgraph =
  state :: subgraph_state
  delegate_context :: bool
  tensors :: "tensor list"
  tensors_capacity :: nat
  nodes_and_registration :: "(node \<times> registration) list"
  consistent :: bool
  sg_inputs :: "int list"
  sg_outputs :: "int list"
  variables :: "int list"
  next_to_prepare :: int
  next_original_to_prepare :: int
  next_to_plan :: int
  execution_plan :: "int list"
  pre_delegation_plan :: "int list"
  delegates_applied :: "delegate_id list"
  delegates_undone :: bool
  plan_cache :: "int list option"
  partitioning_preview_cache :: "delegate_params list"
  should_apply_nnapi_delegate :: bool
  applied_nnapi_delegate :: bool
  memory_planner :: "planner option"
  custom_allocations :: "(int \<times> custom_allocation) list"
  tensor_resized_since_op_invoke :: bool
  has_dynamic_tensors :: bool
  check_cancelled_func :: "nat option"
  cancellation_data :: nat
  external_contexts :: "nat list"
  world :: 'w

record 'w env =
  init_kernel :: "nat \<Rightarrow> nat \<Rightarrow> nat \<Rightarrow> 'w subgraph \<Rightarrow> nat \<times> 'w subgraph"
  free_kernel :: "nat \<Rightarrow> nat \<Rightarrow> 'w subgraph \<Rightarrow> 'w subgraph"
  prepare_kernel :: "nat \<Rightarrow> int \<Rightarrow> 'w subgraph \<Rightarrow> 'w subgraph result"
  invoke_kernel :: "nat \<Rightarrow> int \<Rightarrow> 'w subgraph \<Rightarrow> 'w subgraph result"
  delegate_flags :: "delegate_id \<Rightarrow> nat"
  delegate_prepare :: "delegate_id \<Rightarrow> 'w subgraph \<Rightarrow> 'w subgraph result"
  copy_from_buffer_handle :: "delegate_id \<Rightarrow> (int \<Rightarrow> int \<Rightarrow> 'w subgraph \<Rightarrow> 'w subgraph result) option"
  free_buffer_handle :: "delegate_id \<Rightarrow> (int \<Rightarrow> 'w subgraph \<Rightarrow> 'w subgraph) option"
  nnapi_delegate :: delegate_id
  cancelled :: "nat \<Rightarrow> nat \<Rightarrow> 'w \<Rightarrow> bool"
  new_char :: "'w \<Rightarrow> heap \<times> heap"
  malloc :: "nat \<Rightarrow> 'w \<Rightarrow> nat \<times> 'w"
  malloc_params :: "delegate_params \<Rightarrow> 'w \<Rightarrow> nat \<times> 'w"
  memset :: "nat \<Rightarrow> int \<Rightarrow> nat \<Rightarrow> 'w \<Rightarrow> 'w"

abbreviation (input) kTensorsReservedCapacity :: nat where "kTensorsReservedCapacity \<equiv> 128"
abbreviation (input) kTensorsCapacityHeadroom :: nat where "kTensorsCapacityHeadroom \<equiv> 16"
abbreviation (input) kTfLiteMaxExternalContexts :: int where "kTfLiteMaxExternalContexts \<equiv> 4"
abbreviation (input) kDefaultTensorAlignment :: nat where "kDefaultTensorAlignment \<equiv> 64"

text \<open>\<^verbatim>\<open>TF_LITE_ENSURE(context, b)\<close> followed by \<open>r\<close>.\<close>

definition ensure :: "bool \<Rightarrow> 's \<Rightarrow> 's result \<Rightarrow> 's result" where
  "ensure b s r = (if b then r else Some (kTfLiteError, s))"

definition Subgraph :: "nat list \<Rightarrow> 'w \<Rightarrow> 'w subgraph" where
  "Subgraph contexts w =
     \<lparr>state = kStateUninvokable, delegate_context = False, tensors = [],
      tensors_capacity = kTensorsReservedCapacity, nodes_and_registration = [], consistent = True,
      sg_inputs = [], sg_outputs = [], variables = [], next_to_prepare = 0,
      next_original_to_prepare = 0, next_to_plan = 0, execution_plan = [],
      pre_delegation_plan = [], delegates_applied = [], delegates_undone = False,
      plan_cache = None, partitioning_preview_cache = [],
      should_apply_nnapi_delegate = False, applied_nnapi_delegate = False,
      memory_planner = None, custom_allocations = [], tensor_resized_since_op_invoke = False,
      has_dynamic_tensors = True, check_cancelled_func = None, cancellation_data = 0,
      external_contexts = contexts, world = w\<rparr>"

text \<open>
  The view of the graph that is executed. \<^verbatim>\<open>node(index)\<close> looks a node up when it is asked for
  it; here all are looked up at once, and \<^term>\<open>None\<close> is a plan with an index out of range.
\<close>

definition InterpreterInfo :: "'w subgraph \<Rightarrow> graph_info option" where
  "InterpreterInfo s = do {
     nds \<leftarrow> those (map (\<lambda>i. map_option fst (vec_at (nodes_and_registration s) i)) (execution_plan s));
     Some \<lparr>gi_tensors = tensors s, gi_nodes = nds, gi_node_index = execution_plan s,
           gi_num_total_nodes = length (nodes_and_registration s), gi_inputs = sg_inputs s,
           gi_outputs = sg_outputs s, gi_variables = variables s\<rparr> }"

text \<open>A call of the memory planner, which reads and writes the tensors through its graph.\<close>

definition call_planner ::
  "(graph_info \<times> planner \<Rightarrow> graph_planner result) \<Rightarrow> 'w subgraph \<Rightarrow> 'w subgraph result" where
  "call_planner f s = (case memory_planner s of None \<Rightarrow> None | Some p \<Rightarrow> do {
     g \<leftarrow> InterpreterInfo s;
     r \<leftarrow> f (g, p);
     Some (fst r, s\<lparr>tensors := gi_tensors (fst (snd r)), memory_planner := Some (snd (snd r))\<rparr>) })"

text \<open>A call through a function pointer of a registration.\<close>

definition call_op ::
  "(nat \<Rightarrow> int \<Rightarrow> 'w subgraph \<Rightarrow> 'w subgraph result) \<Rightarrow> op_function \<Rightarrow> int \<Rightarrow> 'w subgraph
   \<Rightarrow> 'w subgraph result" where
  "call_op f fn node_index s =
     (case fn of NullOp \<Rightarrow> None
      | UnresolvedOpInvoke \<Rightarrow> Some (kTfLiteError, s)
      | Kernel k \<Rightarrow> f k node_index s)"

definition GetTFLiteOpName :: "(int \<Rightarrow> string) \<Rightarrow> registration \<Rightarrow> string" where
  "GetTFLiteOpName EnumNames r =
     (if builtin_code r = BuiltinOperator_CUSTOM
      then (case custom_name r of None \<Rightarrow> ''UnknownCustomOp'' | Some n \<Rightarrow> n)
      else if builtin_code r = BuiltinOperator_DELEGATE \<and> custom_name r \<noteq> None
      then the (custom_name r)
      else EnumNames (builtin_code r))"

definition ValidateCustomAllocationForTensor ::
  "tensor \<Rightarrow> custom_allocation \<Rightarrow> tflite_status" where
  "ValidateCustomAllocationForTensor t a =
     (if ca_data a = 0 then kTfLiteError
      else if \<not> ca_bytes a \<ge> bytes t then kTfLiteError
      else if ca_data a mod kDefaultTensorAlignment \<noteq> 0 then kTfLiteError
      else kTfLiteOk)"

section \<open>Tensors\<close>

definition fresh_tensor :: tensor where
  "fresh_tensor = zero_tensor\<lparr>buffer_handle := kTfLiteNullBufferHandle\<rparr>"

text \<open>The vector grows at least by doubling its capacity, as libstdc++ does.\<close>

definition AddTensors :: "int \<Rightarrow> 'w subgraph \<Rightarrow> int \<times> 'w subgraph result" where
  "AddTensors tensors_to_add s =
     (let base_index = length (tensors s);
          n = nat ((int base_index + tensors_to_add) mod 2 ^ 64);
          cap = (if n > tensors_capacity s then max n (2 * tensors_capacity s) else tensors_capacity s)
      in (int base_index,
          ok (s\<lparr>tensors := vec_resize (tensors s) n fresh_tensor, tensors_capacity := cap\<rparr>)))"

definition EnsureTensorsVectorCapacity :: "'w subgraph \<Rightarrow> 'w subgraph" where
  "EnsureTensorsVectorCapacity s =
     (let required_capacity = length (tensors s) + kTensorsCapacityHeadroom
      in if required_capacity > tensors_capacity s
         then s\<lparr>tensors_capacity := max required_capacity (tensors_capacity s * 2)\<rparr> else s)"

primrec CheckTensorIndices :: "int list \<Rightarrow> 'w subgraph \<Rightarrow> 'w subgraph result" where
  "CheckTensorIndices [] s = ok s"
| "CheckTensorIndices (index # is) s =
     (if index = kTfLiteOptionalTensor then CheckTensorIndices is s
      else if index < 0 \<or> nat index \<ge> length (tensors s)
      then Some (kTfLiteError, s\<lparr>consistent := False\<rparr>)
      else CheckTensorIndices is s)"

definition CheckInputAndOutputForOverlap ::
  "int list \<Rightarrow> int list \<Rightarrow> 'w subgraph \<Rightarrow> 'w subgraph result" where
  "CheckInputAndOutputForOverlap ins outs s =
     (if list_ex (\<lambda>i. list_ex (\<lambda>j. i = j) outs) ins
      then Some (kTfLiteError, s\<lparr>consistent := False\<rparr>) else ok s)"

definition SetInputs :: "int list \<Rightarrow> 'w subgraph \<Rightarrow> 'w subgraph result" where
  "SetInputs ins s = ensure_status (CheckTensorIndices ins s) (\<lambda>s. ok (s\<lparr>sg_inputs := ins\<rparr>))"

definition SetOutputs :: "int list \<Rightarrow> 'w subgraph \<Rightarrow> 'w subgraph result" where
  "SetOutputs outs s = ensure_status (CheckTensorIndices outs s) (\<lambda>s. ok (s\<lparr>sg_outputs := outs\<rparr>))"

definition SetVariables :: "int list \<Rightarrow> 'w subgraph \<Rightarrow> 'w subgraph result" where
  "SetVariables vs s = ensure_status (CheckTensorIndices vs s) (\<lambda>s. ok (s\<lparr>variables := vs\<rparr>))"

definition SetExecutionPlan :: "int list \<Rightarrow> 'w subgraph \<Rightarrow> 'w subgraph result" where
  "SetExecutionPlan new_plan s =
     (if list_all (\<lambda>i. i \<ge> 0 \<and> nat i < length (nodes_and_registration s)) new_plan
      then ok (s\<lparr>execution_plan := new_plan\<rparr>) else Some (kTfLiteError, s))"

definition GetNodeAndRegistration :: "int \<Rightarrow> 'w subgraph \<Rightarrow> tflite_status \<times> (node \<times> registration) option"
where
  "GetNodeAndRegistration node_index s =
     (if \<not> node_index \<ge> 0 then (kTfLiteError, None)
      else if \<not> nat node_index < length (nodes_and_registration s) then (kTfLiteError, None)
      else (kTfLiteOk, Some (nodes_and_registration s ! nat node_index)))"

definition ensure_index :: "int \<Rightarrow> 'w subgraph \<Rightarrow> 'w subgraph result \<Rightarrow> 'w subgraph result" where
  "ensure_index i s = ensure (nat i < length (tensors s) \<and> i \<ge> 0) s"

definition set_tensor :: "int \<Rightarrow> tensor \<Rightarrow> 'w subgraph \<Rightarrow> 'w subgraph" where
  "set_tensor i t s = s\<lparr>tensors := (tensors s)[nat i := t]\<rparr>"

definition SetTensorParametersReadOnly ::
  "int \<Rightarrow> tflite_type \<Rightarrow> string option \<Rightarrow> int list \<Rightarrow> quantization \<Rightarrow> nat \<Rightarrow> nat \<Rightarrow> nat
   \<Rightarrow> sparsity option \<Rightarrow> 'w subgraph \<Rightarrow> 'w subgraph result" where
  "SetTensorParametersReadOnly i ty nm ds q buf nbytes alloc sp s =
     ensure (state s \<noteq> kStateInvokableAndImmutable) s (
     ensure_index i s (
     ensure (ty \<noteq> kTfLiteString \<and> sp = None \<longrightarrow> BytesRequired ty ds = Some nbytes) s (
       let t = tensors s ! nat i
       in if ty = tensor_type t \<and> EqualArrayAndTfLiteIntArray (dims t) ds
          then
            let t = TfLiteTensorDataFree t;
                t = t\<lparr>tensor_quantization := TfLiteQuantizationFree (tensor_quantization t)\<rparr>;
                t = t\<lparr>data_raw := buf\<rparr>;
                t = (if dims t = None then t\<lparr>dims := Some ds\<rparr> else t);
                t = t\<lparr>params := GetLegacyQuantization q, tensor_quantization := q,
                      tensor_sparsity := sp, allocation_type := kTfLiteMmapRo, allocation := alloc\<rparr>
            in ok (set_tensor i t s)
          else
            let s = s\<lparr>state := kStateUninvokable\<rparr>;
                t = TfLiteTensorReset ty nm (Some ds) (GetLegacyQuantization q) buf nbytes
                      kTfLiteMmapRo alloc False t;
                t = t\<lparr>tensor_quantization := q, tensor_sparsity := sp\<rparr>
            in ok (set_tensor i t s))))"

definition SetTensorParametersReadWrite ::
  "int \<Rightarrow> tflite_type \<Rightarrow> string option \<Rightarrow> int list \<Rightarrow> quantization \<Rightarrow> bool \<Rightarrow> int list
   \<Rightarrow> 'w subgraph \<Rightarrow> 'w subgraph result" where
  "SetTensorParametersReadWrite i ty nm ds q var ds_signature s =
     ensure (state s \<noteq> kStateInvokableAndImmutable) s (
     ensure_index i s (
     ensure (ty \<noteq> kTfLiteString \<longrightarrow> BytesRequired ty ds \<noteq> None) s (
       let required_bytes = (if ty \<noteq> kTfLiteString then the (BytesRequired ty ds) else 0)
       in ensure (\<not> (ty = kTfLiteString \<and> var)) s (
            let alty = (if ty = kTfLiteString then kTfLiteDynamic
                        else if var then kTfLiteArenaRwPersistent else kTfLiteArenaRw);
                t = TfLiteTensorReset ty nm (Some ds) (GetLegacyQuantization q) 0 required_bytes
                      alty 0 var (tensors s ! nat i);
                t = t\<lparr>tensor_quantization := q, dims_signature := Some ds_signature\<rparr>
            in ok (set_tensor i t s)))))"

text \<open>\<^verbatim>\<open>malloc\<close> and \<^verbatim>\<open>realloc\<close> are called only when \<^verbatim>\<open>TfLiteTensorRealloc\<close> needs memory.\<close>

definition realloc_tensor :: "'w env \<Rightarrow> nat \<Rightarrow> tensor \<Rightarrow> 'w \<Rightarrow> tensor \<times> 'w" where
  "realloc_tensor E n t w =
     (if (allocation_type t = kTfLiteDynamic \<or> allocation_type t = kTfLitePersistentRo)
         \<and> (data_raw t = 0 \<or> n > bytes t)
      then let (a, w) = malloc E n w in (TfLiteTensorRealloc a n t, w)
      else (TfLiteTensorRealloc 0 n t, w))"

definition ResizeTensorImpl :: "'w env \<Rightarrow> int \<Rightarrow> int list \<Rightarrow> 'w subgraph \<Rightarrow> 'w subgraph result" where
  "ResizeTensorImpl E i new_size s = (case vec_at (tensors s) i of None \<Rightarrow> None | Some t \<Rightarrow>
     if allocation_type t \<in> {kTfLiteArenaRw, kTfLiteDynamic, kTfLiteArenaRwPersistent,
                             kTfLitePersistentRo, kTfLiteCustom}
     then
       let s = s\<lparr>tensor_resized_since_op_invoke := tensor_resized_since_op_invoke s
                   \<or> \<not> TfLiteIntArrayEqual (dims t) (Some new_size)\<rparr>;
           finish = (\<lambda>t s.
             let t = t\<lparr>dims := Some new_size\<rparr>;
                 t = (if allocation_type t \<in> {kTfLiteArenaRw, kTfLiteArenaRwPersistent}
                      then t\<lparr>data_raw := 0\<rparr> else t)
             in ok (set_tensor i t s))
       in if tensor_type t \<noteq> kTfLiteString then
            (case BytesRequired (tensor_type t) new_size of
               None \<Rightarrow> Some (kTfLiteError, s)
             | Some n \<Rightarrow>
                 let (t, w) = realloc_tensor E n t (world s)
                 in finish (t\<lparr>bytes := n\<rparr>) (s\<lparr>world := w\<rparr>))
          else finish t s
     else Some (kTfLiteError, s))"

text \<open>\<^verbatim>\<open>ResizeTensor\<close>, the entry of the context that kernels call.\<close>

definition ResizeTensor :: "'w env \<Rightarrow> int \<Rightarrow> int list \<Rightarrow> 'w subgraph \<Rightarrow> 'w subgraph result" where
  "ResizeTensor E i new_size s = (case vec_at (tensors s) i of None \<Rightarrow> None | Some t \<Rightarrow>
     if data_raw t \<noteq> 0 \<and> EqualArrayAndTfLiteIntArray (dims t) new_size
     then ok (set_tensor i (t\<lparr>dims := Some new_size\<rparr>) s)
     else ResizeTensorImpl E i new_size s)"

definition EnsureTensorDataIsReadable :: "'w env \<Rightarrow> int \<Rightarrow> 'w subgraph \<Rightarrow> 'w subgraph result" where
  "EnsureTensorDataIsReadable E i s = (case vec_at (tensors s) i of None \<Rightarrow> None | Some t \<Rightarrow>
     if data_is_stale t then
       (case tensor_delegate t of
          None \<Rightarrow> Some (kTfLiteError, s)
        | Some d \<Rightarrow>
            ensure (buffer_handle t \<noteq> kTfLiteNullBufferHandle) s (
              case copy_from_buffer_handle E d of
                None \<Rightarrow> Some (kTfLiteError, s)
              | Some copy \<Rightarrow>
                  ensure_status (copy (buffer_handle t) i s) (\<lambda>s.
                    case vec_at (tensors s) i of None \<Rightarrow> None
                    | Some t \<Rightarrow> ok (set_tensor i (t\<lparr>data_is_stale := False\<rparr>) s))))
     else ok s)"

text \<open>\<^verbatim>\<open>tflite::ResetVariableTensor\<close> of \<^verbatim>\<open>core/api/tensor_utils.cc\<close>.\<close>

definition ResetVariableTensor :: "'w env \<Rightarrow> tensor \<Rightarrow> 'w \<Rightarrow> 'w" where
  "ResetVariableTensor E t w =
     (if \<not> is_variable t then w
      else memset E (data_raw t)
             (if tensor_type t = kTfLiteInt8 then legacy_zero_point (params t) else 0) (bytes t) w)"

definition ResetVariableTensors :: "'w env \<Rightarrow> 'w subgraph \<Rightarrow> 'w subgraph result" where
  "ResetVariableTensors E s =
     for_each (\<lambda>t s.
       if \<not> is_variable t then ok s
       else if allocation_type t = kTfLiteArenaRwPersistent
       then ensure (data_raw t \<noteq> 0) s (ok (s\<lparr>world := ResetVariableTensor E t (world s)\<rparr>))
       else ensure (allocation_type t = kTfLiteCustom) s (ok s)) (tensors s) s"

definition SetCustomAllocationForTensor ::
  "int \<Rightarrow> custom_allocation \<Rightarrow> 'w subgraph \<Rightarrow> 'w subgraph result" where
  "SetCustomAllocationForTensor i a s = (case vec_at (tensors s) i of None \<Rightarrow> None | Some t \<Rightarrow>
     ensure (allocation_type t \<in> {kTfLiteArenaRw, kTfLiteArenaRwPersistent, kTfLiteCustom}) s (
     ensure_status (Some (ValidateCustomAllocationForTensor t a, s)) (\<lambda>s.
       let s = s\<lparr>custom_allocations := AList.update i a (custom_allocations s)\<rparr>
       in ok (set_tensor i (t\<lparr>allocation_type := kTfLiteCustom, data_raw := ca_data a\<rparr>) s))))"

section \<open>Nodes\<close>

definition OpInit ::
  "'w env \<Rightarrow> registration \<Rightarrow> nat \<Rightarrow> nat \<Rightarrow> 'w subgraph \<Rightarrow> (nat \<times> 'w subgraph) option" where
  "OpInit E r buf n s =
     (case op_init r of NullOp \<Rightarrow> Some (0, s) | UnresolvedOpInvoke \<Rightarrow> None
      | Kernel k \<Rightarrow> Some (init_kernel E k buf n s))"

definition OpFree :: "'w env \<Rightarrow> registration \<Rightarrow> nat \<Rightarrow> 'w subgraph \<Rightarrow> 'w subgraph option" where
  "OpFree E r buf s =
     (case op_free r of NullOp \<Rightarrow> Some s
      | UnresolvedOpInvoke \<Rightarrow> (if buf = 0 then Some s else None)
      | Kernel k \<Rightarrow> Some (if buf \<noteq> 0 then free_kernel E k buf s else s))"

definition OpInvoke :: "'w env \<Rightarrow> registration \<Rightarrow> int \<Rightarrow> 'w subgraph \<Rightarrow> 'w subgraph result" where
  "OpInvoke E r node_index s =
     (if op_invoke r = NullOp then Some (kTfLiteError, s)
      else call_op (invoke_kernel E) (op_invoke r) node_index s)"

definition OpPrepare :: "'w env \<Rightarrow> registration \<Rightarrow> int \<Rightarrow> 'w subgraph \<Rightarrow> 'w subgraph result" where
  "OpPrepare E r node_index s =
     (if op_prepare r = NullOp
      then (if IsUnresolvedCustomOp r then Some (kTfLiteError, s) else ok s)
      else call_op (prepare_kernel E) (op_prepare r) node_index s)"

definition empty_node :: "node \<times> registration" where
  "empty_node =
     (\<lparr>inputs = [], outputs = [], intermediates = [], temporaries = [], user_data = 0,
       builtin_data = 0, custom_initial_data = (0, 0), node_delegate = None\<rparr>,
      \<lparr>op_init = NullOp, op_free = NullOp, op_prepare = NullOp, op_invoke = NullOp,
       builtin_code = 0, custom_name = None, op_version = 0\<rparr>)"

definition update_node :: "int \<Rightarrow> (node \<Rightarrow> node) \<Rightarrow> 'w subgraph \<Rightarrow> 'w subgraph option" where
  "update_node i f s = (case vec_at (nodes_and_registration s) i of None \<Rightarrow> None
     | Some (nd, r) \<Rightarrow> Some (s\<lparr>nodes_and_registration :=
                               (nodes_and_registration s)[nat i := (f nd, r)]\<rparr>))"

text \<open>
  \<^verbatim>\<open>AddNodeWithParameters\<close>: the checks, then \<open>append_node\<close>. The first component of the state is
  \<^verbatim>\<open>*node_index\<close>. The node is in the vector when \<^verbatim>\<open>init\<close> runs.
\<close>

definition append_node ::
  "'w env \<Rightarrow> int list \<Rightarrow> int list \<Rightarrow> int list \<Rightarrow> nat \<Rightarrow> nat \<Rightarrow> nat \<Rightarrow> registration
   \<Rightarrow> 'w subgraph \<Rightarrow> (int \<times> 'w subgraph) result" where
  "append_node E ins outs intermediate init_data init_data_size builtin r s =
     (let new_node_index = int (length (nodes_and_registration s));
          nd = (fst empty_node)\<lparr>inputs := ins, outputs := outs, intermediates := intermediate,
                                 temporaries := []\<rparr>;
          s = s\<lparr>nodes_and_registration := nodes_and_registration s @ [(nd, snd empty_node)]\<rparr>
      in do {
        (ud, s) \<leftarrow> (if init_data \<noteq> 0 then OpInit E r init_data init_data_size s
                    else OpInit E r builtin 0 s);
        let fill = (\<lambda>nd. nd\<lparr>user_data := ud, builtin_data := builtin,
               custom_initial_data := (if builtin_code r = BuiltinOperator_CUSTOM
                                       then (init_data, init_data_size) else (0, 0)),
               node_delegate := None\<rparr>);
        (nd, _) \<leftarrow> vec_at (nodes_and_registration s) new_node_index;
        nodes \<leftarrow> vec_set (nodes_and_registration s) new_node_index (fill nd, r);
        ok (new_node_index,
            s\<lparr>nodes_and_registration := nodes,
              execution_plan := execution_plan s @ [new_node_index]\<rparr>) })"

definition AddNodeWithParameters ::
  "'w env \<Rightarrow> int list \<Rightarrow> int list \<Rightarrow> int list \<Rightarrow> nat \<Rightarrow> nat \<Rightarrow> nat \<Rightarrow> registration
   \<Rightarrow> int \<times> 'w subgraph \<Rightarrow> (int \<times> 'w subgraph) result" where
  "AddNodeWithParameters E ins outs intermediate init_data init_data_size builtin r = (\<lambda>(node_index, s).
     let lift = map_option (map_prod id (\<lambda>s. (node_index, s)))
     in if state s = kStateInvokableAndImmutable then Some (kTfLiteError, (node_index, s))
     else ensure_status (lift (CheckTensorIndices ins (s\<lparr>state := kStateUninvokable\<rparr>))) (\<lambda>(_, s).
          ensure_status (lift (CheckTensorIndices outs s)) (\<lambda>(_, s).
          ensure_status (lift (if builtin \<noteq> 0 then CheckInputAndOutputForOverlap ins outs s else ok s))
     (\<lambda>(_, s). append_node E ins outs intermediate init_data init_data_size builtin r s))))"

definition CleanupNode :: "'w env \<Rightarrow> int \<Rightarrow> 'w subgraph \<Rightarrow> 'w subgraph option" where
  "CleanupNode E i s = do {
     (nd, r) \<leftarrow> vec_at (nodes_and_registration s) i;
     s \<leftarrow> OpFree E r (user_data nd) s;
     update_node i (\<lambda>nd. nd\<lparr>builtin_data := 0\<rparr>) s }"

text \<open>The destructor: nodes, then the buffer handles and the tensors.\<close>

definition destroy_tensor :: "'w env \<Rightarrow> int \<Rightarrow> 'w subgraph \<Rightarrow> 'w subgraph option" where
  "destroy_tensor E i s = do {
     t \<leftarrow> vec_at (tensors s) i;
     s \<leftarrow> (if buffer_handle t \<noteq> kTfLiteNullBufferHandle
           then (case tensor_delegate t of
                   None \<Rightarrow> None
                 | Some d \<Rightarrow> (case free_buffer_handle E d of
                     None \<Rightarrow> Some s | Some f \<Rightarrow> Some (f (buffer_handle t) s)))
           else Some s);
     t \<leftarrow> vec_at (tensors s) i;
     Some (set_tensor i (TfLiteTensorFree t) s) }"

definition destroy_Subgraph :: "'w env \<Rightarrow> 'w subgraph \<Rightarrow> 'w subgraph result" where
  "destroy_Subgraph E s =
     ensure_status (for_each (\<lambda>i s. map_option (Pair kTfLiteOk) (CleanupNode E (int i) s))
                      [0..<length (nodes_and_registration s)] s)
       (\<lambda>s. for_each (\<lambda>i s. map_option (Pair kTfLiteOk) (destroy_tensor E (int i) s))
              [0..<length (tensors s)] s)"

section \<open>Preparation\<close>

text \<open>
  \<^verbatim>\<open>PrepareOpsStartingAt\<close> over the rest of an execution plan; \<open>k\<close> is the index of its first node,
  and the first component of the state is \<^verbatim>\<open>*last_execution_plan_index_prepared\<close>.
\<close>

primrec prepare_ops ::
  "'w env \<Rightarrow> int list \<Rightarrow> int \<Rightarrow> int \<times> 'w subgraph \<Rightarrow> (int \<times> 'w subgraph) result" where
  "prepare_ops E [] k ls = ok ls"
| "prepare_ops E (node_index # plan) k ls = do {
     let s = EnsureTensorsVectorCapacity (snd ls);
     (nd, r) \<leftarrow> vec_at (nodes_and_registration s) node_index;
     (st, s) \<leftarrow> OpPrepare E r node_index s;
     if st \<noteq> kTfLiteOk then Some (kTfLiteError, (fst ls, s))
     else do {
       (nd, r) \<leftarrow> vec_at (nodes_and_registration s) node_index;
       dynamic \<leftarrow> HasDynamicTensorImpl (tensors s) (outputs nd);
       if dynamic then ok (k, s\<lparr>has_dynamic_tensors := True\<rparr>)
       else prepare_ops E plan (k + 1) (k, s) }}"

definition PrepareOpsStartingAt ::
  "'w env \<Rightarrow> int \<Rightarrow> int list \<Rightarrow> int \<times> 'w subgraph \<Rightarrow> (int \<times> 'w subgraph) result" where
  "PrepareOpsStartingAt E first plan ls =
     (let s = (if first = 0 then (snd ls)\<lparr>has_dynamic_tensors := False\<rparr> else snd ls)
      in prepare_ops E (drop (nat first) plan) first (fst ls, s))"

definition kTfLiteDelegateFlagsAllowDynamicTensors :: nat where
  "kTfLiteDelegateFlagsAllowDynamicTensors = 1"

definition kTfLiteDelegateFlagsRequirePropagatedShapes :: nat where
  "kTfLiteDelegateFlagsRequirePropagatedShapes = 2"

definition has_flag :: "'w env \<Rightarrow> delegate_id \<Rightarrow> nat \<Rightarrow> bool" where
  "has_flag E d flag \<longleftrightarrow> odd (delegate_flags E d div flag)"

definition check_custom_allocations :: "'w subgraph \<Rightarrow> 'w subgraph result" where
  "check_custom_allocations s =
     for_each (\<lambda>(i, a) s. case vec_at (tensors s) i of None \<Rightarrow> None | Some t \<Rightarrow>
        ensure (allocation_type t = kTfLiteCustom) s
          (Some (ValidateCustomAllocationForTensor t a, s))) (custom_allocations s) s"

text \<open>\<^verbatim>\<open>PlanAllocations\<close> is called here without a look at its status.\<close>

definition ensure_planner :: "'w subgraph \<Rightarrow> 'w subgraph option" where
  "ensure_planner s =
     (if memory_planner s = None then do {
        g \<leftarrow> InterpreterInfo s;
        (st, p) \<leftarrow> PlanAllocations g (ArenaPlanner True False kDefaultTensorAlignment);
        Some (s\<lparr>memory_planner := Some p\<rparr>) }
      else Some s)"

definition PrepareOpsAndTensors :: "'w env \<Rightarrow> 'w subgraph \<Rightarrow> 'w subgraph result" where
  "PrepareOpsAndTensors E s = do {
     s \<leftarrow> ensure_planner s;
     let prepare_original = pre_delegation_plan s \<noteq> []
           \<and> list_ex (\<lambda>d. has_flag E d kTfLiteDelegateFlagsRequirePropagatedShapes) (delegates_applied s);
     ensure_status
       (if prepare_original then
          map_option (\<lambda>(st, last, s).
            (st, if st = kTfLiteOk then s\<lparr>next_original_to_prepare := last + 1\<rparr> else s))
            (PrepareOpsStartingAt E (next_to_prepare s) (pre_delegation_plan s) (0, s))
        else ok s)
     (\<lambda>s. do {
        (st, last, s) \<leftarrow> PrepareOpsStartingAt E (next_to_prepare s) (execution_plan s) (0, s);
        if st \<noteq> kTfLiteOk then Some (st, s)
        else
          let s = s\<lparr>next_to_prepare := last + 1\<rparr>
          in ensure_status
               (call_planner (ExecuteAllocations (new_char E (world s)) (next_to_plan s) last) s)
             (\<lambda>s. ensure_status (check_custom_allocations s)
             (\<lambda>s. ok (s\<lparr>next_to_plan := last + 1\<rparr>))) }) }"

section \<open>Invocation\<close>

text \<open>The inputs of a node, with their positions: data is fetched from delegates and must exist.\<close>

definition check_input ::
  "'w env \<Rightarrow> node \<Rightarrow> registration \<Rightarrow> nat \<times> int \<Rightarrow> 'w subgraph \<Rightarrow> 'w subgraph result" where
  "check_input E nd r = (\<lambda>(i, tensor_index) s.
     if tensor_index = kTfLiteOptionalTensor then ok s
     else case vec_at (tensors s) tensor_index of None \<Rightarrow> None | Some t \<Rightarrow>
       ensure_status
         (if tensor_delegate t \<noteq> None \<and> tensor_delegate t \<noteq> node_delegate nd \<and> data_is_stale t
          then EnsureTensorDataIsReadable E tensor_index s else ok s)
       (\<lambda>s. case vec_at (tensors s) tensor_index of None \<Rightarrow> None | Some t \<Rightarrow>
          if data_raw t = 0 \<and> bytes t > 0
          then (if builtin_code r = BuiltinOperator_RESHAPE \<and> i = 1 then ok s
                else Some (kTfLiteError, s))
          else ok s))"

definition IsCancelled :: "'w env \<Rightarrow> 'w subgraph \<Rightarrow> bool" where
  "IsCancelled E s = (case check_cancelled_func s of None \<Rightarrow> False
     | Some f \<Rightarrow> cancelled E f (cancellation_data s) (world s))"

definition SetCancellationFunction :: "nat \<Rightarrow> nat option \<Rightarrow> 'w subgraph \<Rightarrow> 'w subgraph" where
  "SetCancellationFunction data f s = s\<lparr>cancellation_data := data, check_cancelled_func := f\<rparr>"

text \<open>After a node: dynamic outputs that were resized force a new preparation downstream.\<close>

definition after_invoke :: "int \<Rightarrow> node \<Rightarrow> 'w subgraph \<Rightarrow> 'w subgraph result" where
  "after_invoke k nd s = (case HasDynamicTensorImpl (tensors s) (outputs nd) of None \<Rightarrow> None
     | Some dynamic \<Rightarrow>
         if tensor_resized_since_op_invoke s \<and> dynamic then
           let s = s\<lparr>next_to_prepare := k + 1\<rparr>
           in if next_to_plan s > next_to_prepare s then
                let s = s\<lparr>next_to_plan := next_to_prepare s\<rparr>
                in if memory_planner s \<noteq> None
                   then call_planner (ResetAllocationsAfter (next_to_plan s - 1)) s
                   else ok s
              else ok s
         else ok s)"

definition invoke_node :: "'w env \<Rightarrow> nat \<Rightarrow> 'w subgraph \<Rightarrow> 'w subgraph result" where
  "invoke_node E k s =
     ensure_status
       (if int k = next_to_prepare s
        then ensure_status (PrepareOpsAndTensors E s)
               (\<lambda>s. ensure (next_to_prepare s \<ge> int k) s (ok s))
        else ok s)
     (\<lambda>s. do {
        node_index \<leftarrow> vec_at (execution_plan s) (int k);
        (nd, r) \<leftarrow> vec_at (nodes_and_registration s) node_index;
        ensure_status (for_each (check_input E nd r) (enumerate 0 (inputs nd)) s)
        (\<lambda>s. if IsCancelled E s then Some (kTfLiteError, s)
             else do {
               let s = (EnsureTensorsVectorCapacity s)\<lparr>tensor_resized_since_op_invoke := False\<rparr>;
               (st, s) \<leftarrow> OpInvoke E r node_index s;
               if st \<noteq> kTfLiteOk then Some (kTfLiteError, s)
               else do {
                 (nd, _) \<leftarrow> vec_at (nodes_and_registration s) node_index;
                 after_invoke (int k) nd s }}) })"

section \<open>Context for delegates\<close>

definition CreateDelegateParams :: "delegate_id \<Rightarrow> node_subset \<Rightarrow> delegate_params" where
  "CreateDelegateParams d sub =
     \<lparr>dp_delegate = Some d, dp_nodes_to_replace = subset_nodes sub,
      dp_input_tensors = input_tensors sub, dp_output_tensors = output_tensors sub\<rparr>"

definition PopulatePreviewDelegateParams :: "node_subset \<Rightarrow> delegate_params" where
  "PopulatePreviewDelegateParams sub =
     \<lparr>dp_delegate = None, dp_nodes_to_replace = subset_nodes sub,
      dp_input_tensors = input_tensors sub, dp_output_tensors = output_tensors sub\<rparr>"

text \<open>An output tensor of a delegate kernel: no other delegate may own it.\<close>

definition claim_tensor :: "delegate_id \<Rightarrow> int \<Rightarrow> 'w subgraph \<Rightarrow> 'w subgraph result" where
  "claim_tensor d i s = (case vec_at (tensors s) i of None \<Rightarrow> None | Some t \<Rightarrow>
     ensure (tensor_delegate t = None \<or> tensor_delegate t = Some d) s
       (ok (set_tensor i (t\<lparr>tensor_delegate := Some d\<rparr>) s)))"

definition replace_subset ::
  "'w env \<Rightarrow> registration \<Rightarrow> delegate_id \<Rightarrow> node_subset \<Rightarrow> 'w subgraph \<Rightarrow> 'w subgraph result" where
  "replace_subset E r d sub s =
     (case subset_type sub of
        kTfNonPartition \<Rightarrow> ok (s\<lparr>execution_plan := execution_plan s @ subset_nodes sub\<rparr>)
      | kTfPartition \<Rightarrow>
          let (p, w) = malloc_params E (CreateDelegateParams d sub) (world s)
          in (case AddNodeWithParameters E (input_tensors sub) (output_tensors sub) [] 0 0 p r
                     (0, s\<lparr>world := w\<rparr>) of
                None \<Rightarrow> None
              | Some (st, node_index, s) \<Rightarrow>
                  if st \<noteq> kTfLiteOk then Some (st, s)
                  else ensure_status (for_each (claim_tensor d) (output_tensors sub) s)
                    (\<lambda>s. map_option (Pair kTfLiteOk)
                           (update_node node_index (\<lambda>nd. nd\<lparr>node_delegate := Some d\<rparr>) s)))
      | kTfUnexplored \<Rightarrow> Some (kTfLiteError, s))"

definition ReplaceNodeSubsetsWithDelegateKernels ::
  "'w env \<Rightarrow> registration \<Rightarrow> int list \<Rightarrow> delegate_id \<Rightarrow> 'w subgraph \<Rightarrow> 'w subgraph result" where
  "ReplaceNodeSubsetsWithDelegateKernels E r nodes_to_replace d s =
     (if nodes_to_replace = [] then ok s
      else do {
        g \<leftarrow> InterpreterInfo s;
        (st, subs) \<leftarrow> PartitionGraphIntoIndependentNodeSubsets g nodes_to_replace;
        for_each (replace_subset E (r\<lparr>builtin_code := BuiltinOperator_DELEGATE\<rparr>) d) subs
          (s\<lparr>execution_plan := []\<rparr>) })"

definition GetExecutionPlan :: "'w subgraph \<Rightarrow> 'w subgraph result" where
  "GetExecutionPlan s = ok (s\<lparr>plan_cache := Some (execution_plan s)\<rparr>)"

definition FreeDelegatePartitioningData :: "'w subgraph \<Rightarrow> 'w subgraph" where
  "FreeDelegatePartitioningData s = s\<lparr>partitioning_preview_cache := []\<rparr>"

text \<open>
  \<open>outs\<close>: both output pointers are non-null. The array and its length are read from
  \<^verbatim>\<open>partitioning_preview_cache_\<close>.
\<close>

definition PreviewDelegatePartitioning ::
  "int list \<Rightarrow> bool \<Rightarrow> 'w subgraph \<Rightarrow> 'w subgraph result" where
  "PreviewDelegatePartitioning nodes_to_replace outs s =
     (let s = FreeDelegatePartitioningData s
      in if \<not> outs then Some (kTfLiteError, s)
         else if nodes_to_replace = [] then ok s
         else do {
           g \<leftarrow> InterpreterInfo s;
           (st, subs) \<leftarrow> PartitionGraphIntoIndependentNodeSubsets g nodes_to_replace;
           ok (s\<lparr>partitioning_preview_cache := map PopulatePreviewDelegateParams
                   (filter (\<lambda>sub. subset_type sub = kTfPartition) subs)\<rparr>) })"

definition GetExternalContext :: "int \<Rightarrow> 'w subgraph \<Rightarrow> nat option" where
  "GetExternalContext type s =
     (if type \<ge> 0 \<and> type < kTfLiteMaxExternalContexts then vec_at (external_contexts s) type
      else Some 0)"

definition SetExternalContext :: "int \<Rightarrow> nat \<Rightarrow> 'w subgraph \<Rightarrow> 'w subgraph option" where
  "SetExternalContext type ctx s =
     (if type \<ge> 0 \<and> type < kTfLiteMaxExternalContexts
      then do { cs \<leftarrow> vec_set (external_contexts s) type ctx; Some (s\<lparr>external_contexts := cs\<rparr>) }
      else Some s)"

text \<open>The context's function pointers: the real functions for a delegate, stubs for kernels.\<close>

definition SwitchToDelegateContext :: "'w subgraph \<Rightarrow> 'w subgraph" where
  "SwitchToDelegateContext s = s\<lparr>delegate_context := True\<rparr>"

definition SwitchToKernelContext :: "'w subgraph \<Rightarrow> 'w subgraph" where
  "SwitchToKernelContext s = FreeDelegatePartitioningData (s\<lparr>delegate_context := False\<rparr>)"

definition context_ReplaceNodeSubsets ::
  "'w env \<Rightarrow> registration \<Rightarrow> int list \<Rightarrow> delegate_id \<Rightarrow> 'w subgraph \<Rightarrow> 'w subgraph result" where
  "context_ReplaceNodeSubsets E r nodes d s =
     (if delegate_context s then ReplaceNodeSubsetsWithDelegateKernels E r nodes d s
      else Some (kTfLiteError, s))"

definition context_GetExecutionPlan :: "'w subgraph \<Rightarrow> 'w subgraph result" where
  "context_GetExecutionPlan s =
     (if delegate_context s then GetExecutionPlan s else Some (kTfLiteError, s))"

definition context_PreviewDelegatePartitioning ::
  "int list \<Rightarrow> bool \<Rightarrow> 'w subgraph \<Rightarrow> 'w subgraph result" where
  "context_PreviewDelegatePartitioning nodes outs s =
     (if delegate_context s then PreviewDelegatePartitioning nodes outs s
      else Some (kTfLiteError, s))"

definition context_GetNodeAndRegistration ::
  "int \<Rightarrow> 'w subgraph \<Rightarrow> tflite_status \<times> (node \<times> registration) option" where
  "context_GetNodeAndRegistration i s =
     (if delegate_context s then GetNodeAndRegistration i s else (kTfLiteError, None))"

section \<open>Allocation and delegation\<close>

text \<open>
  \<^verbatim>\<open>AllocateTensors\<close>, \<^verbatim>\<open>RedoAllDelegates\<close>, \<^verbatim>\<open>RemoveAllDelegates\<close>, \<^verbatim>\<open>EnsureMemoryAllocations\<close> and
  \<^verbatim>\<open>ModifyGraphWithDelegate\<close> call each other. All but the last take it as the argument
  \<open>modify\<close>; the last is defined by recursion on the depth of its nested calls.
\<close>

type_synonym 'w modify = "delegate_id \<Rightarrow> 'w subgraph \<Rightarrow> 'w subgraph result"

definition RedoAllDelegates :: "'w modify \<Rightarrow> 'w subgraph \<Rightarrow> 'w subgraph result" where
  "RedoAllDelegates modify s =
     (if \<not> delegates_undone s then ok s
      else for_each modify (delegates_applied s)
             (s\<lparr>delegates_undone := False, delegates_applied := []\<rparr>))"

text \<open>
  \<^verbatim>\<open>AllocateTensors\<close>. The statuses of \<^verbatim>\<open>AcquireNonPersistentMemory\<close> and of
  \<^verbatim>\<open>ResetVariableTensors\<close> are ignored, as in the code.
\<close>

definition AllocateTensors :: "'w env \<Rightarrow> 'w modify \<Rightarrow> 'w subgraph \<Rightarrow> 'w subgraph result" where
  "AllocateTensors E modify s =
     (if \<not> consistent s then Some (kTfLiteError, s)
      else ensure_status (RedoAllDelegates modify s) (\<lambda>s. do {
        dynamic \<leftarrow> (if state s \<noteq> kStateUninvokable
                   then HasDynamicTensorImpl (tensors s) (sg_inputs s) else Some True);
        if state s \<noteq> kStateUninvokable \<and> \<not> dynamic then
          (case memory_planner s of
             Some p \<Rightarrow>
               if \<not> HasNonPersistentMemory p
               then map_option (\<lambda>(_, s). (kTfLiteOk, s))
                      (call_planner (AcquireNonPersistentMemory (fst (new_char E (world s)))) s)
               else ok s
           | None \<Rightarrow> ok s)
        else
          let s = s\<lparr>next_to_prepare := 0, next_to_plan := 0, next_original_to_prepare := 0\<rparr>
          in ensure_status
               (case memory_planner s of
                  None \<Rightarrow> ok s
                | Some p \<Rightarrow> do {
                    g \<leftarrow> InterpreterInfo s;
                    let (st, p) = ResetAllocations g p;
                    Some (st, s\<lparr>memory_planner := Some p\<rparr>) })
             (\<lambda>s. ensure_status (PrepareOpsAndTensors E s)
             (\<lambda>s. map_option (\<lambda>(_, s). (kTfLiteOk, s))
                    (ResetVariableTensors E (s\<lparr>state := kStateInvokable\<rparr>)))) }))"

definition EnsureMemoryAllocations :: "'w env \<Rightarrow> 'w modify \<Rightarrow> 'w subgraph \<Rightarrow> 'w subgraph result" where
  "EnsureMemoryAllocations E modify s =
     ensure_status
       (case memory_planner s of
          None \<Rightarrow> ok s
        | Some p \<Rightarrow> do {
            let s = s\<lparr>state := kStateUninvokable\<rparr>;
            g \<leftarrow> InterpreterInfo s;
            (st, p) \<leftarrow> PlanAllocations g p;
            Some (st, s\<lparr>memory_planner := Some p\<rparr>) })
     (\<lambda>s. ensure_status (AllocateTensors E modify s)
     (\<lambda>s. ensure (state s = kStateInvokable) s (ok s)))"

text \<open>\<^verbatim>\<open>UndoAllDelegates\<close>: first the mapping from fp16 tensors to their dequantized versions.\<close>

primrec fp16_mapping ::
  "int list \<Rightarrow> 'w subgraph \<Rightarrow> int list \<Rightarrow> int list option" where
  "fp16_mapping [] s m = Some m"
| "fp16_mapping (i # plan) s m = do {
     (nd, r) \<leftarrow> vec_at (nodes_and_registration s) i;
     m \<leftarrow> (if builtin_code r = BuiltinOperator_DEQUANTIZE \<and> length (inputs nd) = 1
             \<and> length (outputs nd) = 1
           then do {
             t \<leftarrow> vec_at (tensors s) (inputs nd ! 0);
             if tensor_type t = kTfLiteFloat16 then vec_set m (inputs nd ! 0) (outputs nd ! 0)
             else Some m }
           else Some m);
     fp16_mapping plan s m }"

primrec remap_inputs :: "tensor list \<Rightarrow> int list \<Rightarrow> int list \<Rightarrow> int list option" where
  "remap_inputs ts m [] = Some []"
| "remap_inputs ts m (i # is) = do {
     t \<leftarrow> vec_at ts i;
     j \<leftarrow> (if tensor_type t = kTfLiteFloat16 then vec_at m i else Some i);
     js \<leftarrow> remap_inputs ts m is;
     Some (j # js) }"

definition remap_node :: "int list \<Rightarrow> int \<Rightarrow> 'w subgraph \<Rightarrow> 'w subgraph result" where
  "remap_node m i s = do {
     (nd, r) \<leftarrow> vec_at (nodes_and_registration s) i;
     if builtin_code r = BuiltinOperator_DEQUANTIZE then ok s
     else do {
       ins \<leftarrow> remap_inputs (tensors s) m (inputs nd);
       s \<leftarrow> update_node i (\<lambda>nd. nd\<lparr>inputs := ins\<rparr>) s;
       ok s }}"

definition cleanup_delegate_node :: "'w env \<Rightarrow> int \<Rightarrow> 'w subgraph \<Rightarrow> 'w subgraph result" where
  "cleanup_delegate_node E i s = do {
     (nd, r) \<leftarrow> vec_at (nodes_and_registration s) i;
     if node_delegate nd = None then ok s
     else map_option (Pair kTfLiteOk) (CleanupNode E i s) }"

definition UndoAllDelegates :: "'w env \<Rightarrow> 'w subgraph \<Rightarrow> 'w subgraph result" where
  "UndoAllDelegates E s =
     (if pre_delegation_plan s = [] then ok s
      else ensure_status (for_each (cleanup_delegate_node E) (execution_plan s) s) (\<lambda>s.
        let s = s\<lparr>execution_plan := pre_delegation_plan s, pre_delegation_plan := []\<rparr>;
            plan = execution_plan s
        in do {
          m \<leftarrow> fp16_mapping plan s (replicate (length (tensors s)) (-1));
          ensure_status (for_each (remap_node m) plan s) (\<lambda>s.
            let max_retained_node_index = fold max plan 0
            in ok (s\<lparr>nodes_and_registration :=
                       vec_resize (nodes_and_registration s) (nat (max_retained_node_index + 1)) empty_node,
                     state := kStateUninvokable, delegates_undone := True\<rparr>)) }))"

definition RemoveAllDelegates :: "'w env \<Rightarrow> 'w modify \<Rightarrow> 'w subgraph \<Rightarrow> 'w subgraph result" where
  "RemoveAllDelegates E modify s =
     ensure_status (UndoAllDelegates E s) (\<lambda>s.
       EnsureMemoryAllocations E modify (s\<lparr>delegates_applied := [], delegates_undone := False\<rparr>))"

text \<open>The lambda \<^verbatim>\<open>reset_delegation_if_not_ok\<close>.\<close>

definition reset_delegation_if_not_ok ::
  "'w env \<Rightarrow> 'w modify \<Rightarrow> 'w subgraph result \<Rightarrow> 'w subgraph result" where
  "reset_delegation_if_not_ok E modify r = (case r of None \<Rightarrow> None | Some (st, s) \<Rightarrow>
     if st \<noteq> kTfLiteOk
     then ensure_status (RemoveAllDelegates E modify s) (\<lambda>s. Some (kTfLiteDelegateError, s))
     else ok s)"

definition check_static_tensors :: "'w env \<Rightarrow> 'w modify \<Rightarrow> 'w subgraph \<Rightarrow> 'w subgraph result" where
  "check_static_tensors E modify s = do {
     (st, last, s) \<leftarrow> PrepareOpsStartingAt E 0 (execution_plan s) (0, s);
     if st \<noteq> kTfLiteOk then Some (st, s)
     else if has_dynamic_tensors s
     then ensure_status (EnsureMemoryAllocations E modify s)
            (\<lambda>s. Some (kTfLiteApplicationError, s))
     else ok s }"

text \<open>\<^verbatim>\<open>ModifyGraphWithDelegate\<close> after earlier delegates have been applied again.\<close>

definition apply_delegate ::
  "'w env \<Rightarrow> 'w modify \<Rightarrow> delegate_id \<Rightarrow> 'w subgraph \<Rightarrow> 'w subgraph result" where
  "apply_delegate E modify d s =
     (if state s = kStateInvokableAndImmutable then Some (kTfLiteApplicationError, s)
      else
       let dynamic_ok = has_flag E d kTfLiteDelegateFlagsAllowDynamicTensors
       in ensure_status (if \<not> dynamic_ok then check_static_tensors E modify s else ok s) (\<lambda>s.
          let was_invokable = (state s = kStateInvokable);
              s = (if delegates_applied s = [] then s\<lparr>pre_delegation_plan := execution_plan s\<rparr> else s);
              r = map_option (map_prod id SwitchToKernelContext)
                    (delegate_prepare E d (SwitchToDelegateContext s))
          in ensure_status (reset_delegation_if_not_ok E modify r) (\<lambda>s.
             ensure_status
               (if \<not> dynamic_ok then
                  ensure_status
                    (reset_delegation_if_not_ok E modify
                       (EnsureMemoryAllocations E modify (s\<lparr>state := kStateUninvokable\<rparr>)))
                    (\<lambda>s. ok (s\<lparr>state := kStateInvokableAndImmutable\<rparr>))
                else if was_invokable then
                  reset_delegation_if_not_ok E modify (EnsureMemoryAllocations E modify s)
                else ok s)
             (\<lambda>s. ok (s\<lparr>delegates_applied := delegates_applied s @ [d]\<rparr>)))))"

definition modify_with_delegate ::
  "'w env \<Rightarrow> 'w modify \<Rightarrow> delegate_id \<Rightarrow> 'w subgraph \<Rightarrow> 'w subgraph result" where
  "modify_with_delegate E modify d s =
     ensure_status (RedoAllDelegates modify s) (apply_delegate E modify d)"

text \<open>
  \<open>ModifyGraphWithDelegate depth\<close>: nested calls come only from \<^verbatim>\<open>RedoAllDelegates\<close>, which clears
  \<^verbatim>\<open>delegates_undone_\<close> first, so that a depth of two is enough unless kernels or delegates undo
  delegation themselves.
\<close>

primrec ModifyGraphWithDelegate :: "'w env \<Rightarrow> nat \<Rightarrow> 'w modify" where
  "ModifyGraphWithDelegate E 0 d s = None"
| "ModifyGraphWithDelegate E (Suc depth) d s =
     modify_with_delegate E (ModifyGraphWithDelegate E depth) d s"

abbreviation (input) call_depth :: nat where "call_depth \<equiv> 2"

definition ReleaseNonPersistentMemory_sg :: "'w subgraph \<Rightarrow> 'w subgraph result" where
  "ReleaseNonPersistentMemory_sg s =
     (if memory_planner s \<noteq> None then call_planner ReleaseNonPersistentMemory s else ok s)"

definition ResizeInputTensor :: "'w env \<Rightarrow> int \<Rightarrow> int list \<Rightarrow> 'w subgraph \<Rightarrow> 'w subgraph result" where
  "ResizeInputTensor E i ds s =
     (let delegates_applied = (pre_delegation_plan s \<noteq> []);
          graph_is_immutable = (state s = kStateInvokableAndImmutable)
      in if graph_is_immutable \<and> \<not> delegates_applied then Some (kTfLiteError, s)
         else ensure_index i s (
           let t = tensors s ! nat i
           in if data_raw t \<noteq> 0 \<and> EqualArrayAndTfLiteIntArray (dims t) ds then ok s
              else ensure_status (if graph_is_immutable then UndoAllDelegates E s else ok s)
                     (\<lambda>s. ResizeTensorImpl E i ds (s\<lparr>state := kStateUninvokable\<rparr>))))"

text \<open>The dimensions that \<^verbatim>\<open>ResizeInputTensorStrict\<close> lets change are those marked \<open>-1\<close>.\<close>

definition strict_signature :: "tensor \<Rightarrow> int list" where
  "strict_signature t = (case dims_signature t of
     Some sig \<Rightarrow> (if sig \<noteq> [] then sig else the (dims t)) | None \<Rightarrow> the (dims t))"

primrec strict_dims :: "int list \<Rightarrow> int list \<Rightarrow> nat \<Rightarrow> bool option" where
  "strict_dims sig [] idx = Some True"
| "strict_dims sig (d # ds) idx = do {
     dim_signature \<leftarrow> vec_at sig (int idx);
     if dim_signature \<noteq> -1 \<and> dim_signature \<noteq> d then Some False
     else strict_dims sig ds (Suc idx) }"

definition ResizeInputTensorStrict ::
  "'w env \<Rightarrow> int \<Rightarrow> int list \<Rightarrow> 'w subgraph \<Rightarrow> 'w subgraph result" where
  "ResizeInputTensorStrict E i ds s =
     ensure_index i s (
       let t = tensors s ! nat i
       in case dims t of None \<Rightarrow> None | Some old \<Rightarrow>
            ensure (length old = length ds) s (do {
              fits \<leftarrow> strict_dims (strict_signature t) ds 0;
              if \<not> fits then Some (kTfLiteError, s) else ResizeInputTensor E i ds s }))"

definition UseNNAPI :: "bool \<Rightarrow> 'w subgraph \<Rightarrow> 'w subgraph" where
  "UseNNAPI enable s =
     (if applied_nnapi_delegate s \<and> \<not> enable then s
      else s\<lparr>should_apply_nnapi_delegate := enable\<rparr>)"

definition HasDelegates :: "'w subgraph \<Rightarrow> bool" where
  "HasDelegates s \<longleftrightarrow> delegates_applied s \<noteq> []"

text \<open>
  \<^verbatim>\<open>Invoke\<close>. The loop of the code reads the length of the plan in each round; here it is read
  once, which is the same for kernels that use their context, since none of its functions for
  kernels changes the plan.
\<close>

definition Invoke :: "'w env \<Rightarrow> 'w subgraph \<Rightarrow> 'w subgraph result" where
  "Invoke E s =
     (if \<not> consistent s then Some (kTfLiteError, s)
      else if state s = kStateUninvokable then Some (kTfLiteError, s)
      else if (case memory_planner s of Some p \<Rightarrow> \<not> HasNonPersistentMemory p | None \<Rightarrow> False)
      then Some (kTfLiteError, s)
      else ensure_status
        (if should_apply_nnapi_delegate s \<and> \<not> applied_nnapi_delegate s
         then ensure_status (ModifyGraphWithDelegate E call_depth (nnapi_delegate E) s)
                (\<lambda>s. ok (s\<lparr>applied_nnapi_delegate := True\<rparr>))
         else ok s)
      (\<lambda>s. for_each (invoke_node E) [0..<length (execution_plan s)] s))"

end
