(* ===== verification/Subgraph_Safety.thy ===== *)
theory Subgraph_Safety
  imports Subgraph
begin

text \<open>
  Safety of \<open>Subgraph\<close>: every index that the subgraph stores stays valid, whatever sequence of
  calls a client makes.

  \<open>keeps P r\<close> says that a predicate holds in the state a call leaves, whatever its status; its
  rules, in the collection \<open>keeps\<close>, follow the control flow of the definitions.
\<close>

named_theorems keeps "rules for what a call leaves behind"

section \<open>What a call leaves behind\<close>

definition keeps :: "('s \<Rightarrow> bool) \<Rightarrow> 's result \<Rightarrow> bool" where
  "keeps P r \<longleftrightarrow> (\<forall>st s. r = Some (st, s) \<longrightarrow> P s)"

lemma keepsD: "keeps P r \<Longrightarrow> r = Some (st, s) \<Longrightarrow> P s"
  by (simp add: keeps_def)

lemma keepsI: "(\<And>st s. r = Some (st, s) \<Longrightarrow> P s) \<Longrightarrow> keeps P r"
  by (simp add: keeps_def)

lemma keeps_Some [keeps]: "P s \<Longrightarrow> keeps P (Some (st, s))"
  by (simp add: keeps_def)

lemma keeps_None [keeps]: "keeps P None"
  by (simp add: keeps_def)

lemma keeps_ensure_status [keeps]:
  "keeps P r \<Longrightarrow> (\<And>s. P s \<Longrightarrow> keeps P (k s)) \<Longrightarrow> keeps P (ensure_status r k)"
  by (auto simp: keeps_def ensure_status_def split: option.splits if_splits)

lemma keeps_ensure [keeps]: "P s \<Longrightarrow> (b \<Longrightarrow> keeps P r) \<Longrightarrow> keeps P (ensure b s r)"
  by (simp add: ensure_def keeps_Some)

lemma keeps_ensure_index [keeps]:
  "P s \<Longrightarrow> (in_bounds (tensors s) i \<Longrightarrow> keeps P r) \<Longrightarrow> keeps P (ensure_index i s r)"
  by (auto simp: ensure_index_def ensure_def keeps_Some in_bounds_def)

lemma keeps_if [keeps]:
  "(b \<Longrightarrow> keeps P r) \<Longrightarrow> (\<not> b \<Longrightarrow> keeps P r') \<Longrightarrow> keeps P (if b then r else r')"
  by simp

lemma keeps_for_each [keeps]:
  "P s \<Longrightarrow> (\<And>x s. x \<in> set xs \<Longrightarrow> P s \<Longrightarrow> keeps P (f x s)) \<Longrightarrow> keeps P (for_each f xs s)"
  unfolding keeps_def by (blast intro: for_each_inv)

lemma keeps_case_option [keeps]:
  "(v = None \<Longrightarrow> keeps P r) \<Longrightarrow> (\<And>x. v = Some x \<Longrightarrow> keeps P (f x)) \<Longrightarrow>
   keeps P (case v of None \<Rightarrow> r | Some x \<Rightarrow> f x)"
  by (cases v) auto

lemma keeps_bind [keeps]:
  "(\<And>x. v = Some x \<Longrightarrow> keeps P (f x)) \<Longrightarrow> keeps P (Option.bind v f)"
  by (cases v) (auto simp: keeps_None)

lemma keeps_case_prod [keeps]:
  "(\<And>a b. p = (a, b) \<Longrightarrow> keeps P (f a b)) \<Longrightarrow> keeps P (case p of (a, b) \<Rightarrow> f a b)"
  by (cases p) auto

lemma keeps_map_status:
  "keeps P r \<Longrightarrow> keeps P (map_option (\<lambda>(_, s). (st, s)) r)"
  by (auto simp: keeps_def)

lemma keeps_mono: "keeps P r \<Longrightarrow> (\<And>s. P s \<Longrightarrow> Q s) \<Longrightarrow> keeps Q r"
  by (auto simp: keeps_def)

section \<open>Valid indices\<close>

definition valid_index :: "'w subgraph \<Rightarrow> int \<Rightarrow> bool" where
  "valid_index s t \<longleftrightarrow> t = kTfLiteOptionalTensor \<or> in_bounds (tensors s) t"

definition valid_nodes :: "'w subgraph \<Rightarrow> bool" where
  "valid_nodes s \<longleftrightarrow> (\<forall>(nd, r)\<in>set (nodes_and_registration s).
     \<forall>t\<in>set (inputs nd) \<union> set (outputs nd). valid_index s t)"

definition valid_plan :: "'w subgraph \<Rightarrow> int list \<Rightarrow> bool" where
  "valid_plan s plan \<longleftrightarrow> (\<forall>i\<in>set plan. in_bounds (nodes_and_registration s) i)"

text \<open>
  What the code checks. Of a node these are its \<^verbatim>\<open>inputs\<close> and \<^verbatim>\<open>outputs\<close>: \<^verbatim>\<open>AddNodeWithParameters\<close> stores
  the \<^verbatim>\<open>intermediates\<close> as they come, and the \<^verbatim>\<open>temporaries\<close> belong to the kernel.
\<close>

definition subgraph_inv :: "'w subgraph \<Rightarrow> bool" where
  "subgraph_inv s \<longleftrightarrow> valid_nodes s \<and> valid_plan s (execution_plan s)
     \<and> valid_plan s (pre_delegation_plan s)
     \<and> (\<forall>t\<in>set (sg_inputs s) \<union> set (sg_outputs s) \<union> set (variables s). valid_index s t)"

text \<open>The invariant looks at a few fields only.\<close>

lemma subgraph_inv_cong:
  assumes "length (tensors s) = length (tensors s')"
    "nodes_and_registration s = nodes_and_registration s'" "execution_plan s = execution_plan s'"
    "pre_delegation_plan s = pre_delegation_plan s'" "sg_inputs s = sg_inputs s'"
    "sg_outputs s = sg_outputs s'" "variables s = variables s'"
  shows "subgraph_inv s = subgraph_inv s'"
proof -
  have "valid_index s = valid_index s'"
    using assms(1) by (auto simp: fun_eq_iff valid_index_def in_bounds_def)
  then show ?thesis
    using assms by (simp add: subgraph_inv_def valid_nodes_def valid_plan_def)
qed

lemma subgraph_inv_updates [simp]:
  "subgraph_inv (s\<lparr>state := st\<rparr>) = subgraph_inv s"
  "subgraph_inv (s\<lparr>delegate_context := b\<rparr>) = subgraph_inv s"
  "subgraph_inv (s\<lparr>tensors_capacity := n\<rparr>) = subgraph_inv s"
  "subgraph_inv (s\<lparr>consistent := b\<rparr>) = subgraph_inv s"
  "subgraph_inv (s\<lparr>next_to_prepare := i\<rparr>) = subgraph_inv s"
  "subgraph_inv (s\<lparr>next_original_to_prepare := i\<rparr>) = subgraph_inv s"
  "subgraph_inv (s\<lparr>next_to_plan := i\<rparr>) = subgraph_inv s"
  "subgraph_inv (s\<lparr>delegates_applied := ds\<rparr>) = subgraph_inv s"
  "subgraph_inv (s\<lparr>delegates_undone := b\<rparr>) = subgraph_inv s"
  "subgraph_inv (s\<lparr>plan_cache := c\<rparr>) = subgraph_inv s"
  "subgraph_inv (s\<lparr>partitioning_preview_cache := pc\<rparr>) = subgraph_inv s"
  "subgraph_inv (s\<lparr>should_apply_nnapi_delegate := b\<rparr>) = subgraph_inv s"
  "subgraph_inv (s\<lparr>applied_nnapi_delegate := b\<rparr>) = subgraph_inv s"
  "subgraph_inv (s\<lparr>memory_planner := p\<rparr>) = subgraph_inv s"
  "subgraph_inv (s\<lparr>custom_allocations := ca\<rparr>) = subgraph_inv s"
  "subgraph_inv (s\<lparr>tensor_resized_since_op_invoke := b\<rparr>) = subgraph_inv s"
  "subgraph_inv (s\<lparr>has_dynamic_tensors := b\<rparr>) = subgraph_inv s"
  "subgraph_inv (s\<lparr>check_cancelled_func := f\<rparr>) = subgraph_inv s"
  "subgraph_inv (s\<lparr>cancellation_data := n\<rparr>) = subgraph_inv s"
  "subgraph_inv (s\<lparr>external_contexts := cs\<rparr>) = subgraph_inv s"
  "subgraph_inv (s\<lparr>world := w\<rparr>) = subgraph_inv s"
  by (rule subgraph_inv_cong; simp)+

lemma subgraph_inv_set_tensor [simp]: "subgraph_inv (set_tensor i t s) = subgraph_inv s"
  by (rule subgraph_inv_cong) (simp_all add: set_tensor_def)

lemma subgraph_inv_capacity [simp]: "subgraph_inv (EnsureTensorsVectorCapacity s) = subgraph_inv s"
  by (simp add: EnsureTensorsVectorCapacity_def Let_def)

lemma subgraph_inv_contexts [simp]:
  "subgraph_inv (SwitchToDelegateContext s) = subgraph_inv s"
  "subgraph_inv (SwitchToKernelContext s) = subgraph_inv s"
  by (simp_all add: SwitchToDelegateContext_def SwitchToKernelContext_def FreeDelegatePartitioningData_def)

lemma subgraph_inv_tensors:
  "length ts = length (tensors s) \<Longrightarrow> subgraph_inv (s\<lparr>tensors := ts\<rparr>) = subgraph_inv s"
  by (rule subgraph_inv_cong) simp_all

section \<open>Kernels and delegates that respect the subgraph\<close>

text \<open>
  What \<^verbatim>\<open>c/common.h\<close> asks of the functions a kernel or a delegate supplies: they use the context
  they are given, whose functions keep the invariant.
\<close>

definition respectful :: "'w env \<Rightarrow> bool" where
  "respectful E \<longleftrightarrow>
     (\<forall>k b n s. subgraph_inv s \<longrightarrow> subgraph_inv (snd (init_kernel E k b n s))
          \<and> length (nodes_and_registration (snd (init_kernel E k b n s)))
              = length (nodes_and_registration s))
     \<and> (\<forall>k b s. subgraph_inv s \<longrightarrow> subgraph_inv (free_kernel E k b s)
          \<and> length (nodes_and_registration (free_kernel E k b s)) = length (nodes_and_registration s))
     \<and> (\<forall>k i s. subgraph_inv s \<longrightarrow> keeps subgraph_inv (prepare_kernel E k i s))
     \<and> (\<forall>k i s. subgraph_inv s \<longrightarrow> keeps subgraph_inv (invoke_kernel E k i s))
     \<and> (\<forall>d s. subgraph_inv s \<longrightarrow> keeps subgraph_inv (delegate_prepare E d s))
     \<and> (\<forall>d f b i s. copy_from_buffer_handle E d = Some f \<longrightarrow> subgraph_inv s \<longrightarrow>
          keeps subgraph_inv (f b i s))"

lemma respectfulD:
  assumes "respectful E" "subgraph_inv s"
  shows "subgraph_inv (snd (init_kernel E k b n s))"
    and "length (nodes_and_registration (snd (init_kernel E k b n s))) = length (nodes_and_registration s)"
    and "subgraph_inv (free_kernel E k b s)"
    and "length (nodes_and_registration (free_kernel E k b s)) = length (nodes_and_registration s)"
    and "keeps subgraph_inv (prepare_kernel E k i s)" "keeps subgraph_inv (invoke_kernel E k i s)"
    and "keeps subgraph_inv (delegate_prepare E d s)"
    and "copy_from_buffer_handle E d = Some f \<Longrightarrow> keeps subgraph_inv (f h i s)"
  using assms unfolding respectful_def by blast+

lemma CheckTensorIndices_keeps [keeps]:
  "subgraph_inv s \<Longrightarrow> keeps subgraph_inv (CheckTensorIndices is s)"
  by (induction "is") (auto intro!: keeps)

lemma CheckTensorIndices_ok:
  "CheckTensorIndices is s = ok s' \<longleftrightarrow> s' = s \<and> (\<forall>t\<in>set is. valid_index s t)"
  by (induction "is") (auto simp: valid_index_def in_bounds_def)

lemma CheckTensorIndices_cases:
  "CheckTensorIndices is s = (if \<forall>t\<in>set is. valid_index s t then ok s
     else Some (kTfLiteError, s\<lparr>consistent := False\<rparr>))"
  by (induction "is") (auto simp: valid_index_def in_bounds_def)

section \<open>The planner keeps the tensors in place\<close>

abbreviation same_length :: "nat \<Rightarrow> graph_planner \<Rightarrow> bool" where
  "same_length n \<equiv> (\<lambda>s. length (gi_tensors (fst s)) = n)"

lemma keeps_map_option [keeps]:
  "keeps (\<lambda>s. P (f s)) r \<Longrightarrow> keeps P (map_option (map_prod id f) r)"
  by (auto simp: keeps_def)

lemma keeps_True: "keeps (\<lambda>_. True) r"
  by (simp add: keeps_def)

lemma ResolveTensorAllocation_keeps [keeps]:
  "same_length n s \<Longrightarrow> keeps (same_length n) (ResolveTensorAllocation i s)"
  by (cases s) (auto simp: ResolveTensorAllocation_def Let_def keeps_def
      split: option.splits prod.splits if_splits)

lemma ExecuteAllocations_keeps:
  "same_length n s \<Longrightarrow> keeps (same_length n) (ExecuteAllocations heap fst_node lst_node s)"
  by (cases s) (auto simp: ExecuteAllocations_def Let_def intro!: keeps keeps_True)

lemma reset_allocation_after_keeps [keeps]:
  "same_length n s \<Longrightarrow> keeps (same_length n) (reset_allocation_after node i s)"
  by (cases s) (auto simp: reset_allocation_after_def Let_def keeps_def
      split: option.splits prod.splits if_splits)

lemma ResetAllocationsAfter_keeps:
  "same_length n s \<Longrightarrow> keeps (same_length n) (ResetAllocationsAfter node s)"
  by (cases s) (auto simp: ResetAllocationsAfter_def intro!: keeps)

lemma ReleaseNonPersistentMemory_keeps:
  "same_length n s \<Longrightarrow> keeps (same_length n) (ReleaseNonPersistentMemory s)"
  by (cases s) (auto simp: ReleaseNonPersistentMemory_def Let_def keeps_def
      split: prod.splits if_splits)

lemma resolve_rw_tensor_keeps [keeps]:
  "same_length n s \<Longrightarrow> keeps (same_length n) (resolve_rw_tensor i s)"
  by (cases s) (auto simp: resolve_rw_tensor_def intro!: keeps)

lemma AcquireNonPersistentMemory_keeps:
  "same_length n s \<Longrightarrow> keeps (same_length n) (AcquireNonPersistentMemory heap s)"
  by (cases s) (auto simp: AcquireNonPersistentMemory_def Let_def split: prod.splits intro!: keeps)

lemma InterpreterInfo_tensors: "InterpreterInfo s = Some g \<Longrightarrow> gi_tensors g = tensors s"
  by (auto simp: InterpreterInfo_def split: bind_splits)

lemma call_planner_keeps:
  assumes "subgraph_inv s"
    and f: "\<And>n x. same_length n x \<Longrightarrow> keeps (same_length n) (f x)"
  shows "keeps subgraph_inv (call_planner f s)"
proof (cases "memory_planner s")
  case (Some p)
  show ?thesis
  proof (rule keepsI)
    fix st s'
    assume "call_planner f s = Some (st, s')"
    then obtain g st g' p' where g: "InterpreterInfo s = Some g" "f (g, p) = Some (st, g', p')"
      and s': "s' = s\<lparr>tensors := gi_tensors g', memory_planner := Some p'\<rparr>"
      using Some by (auto simp: call_planner_def split: bind_splits)
    have "length (gi_tensors g') = length (tensors s)"
      using keepsD [OF f [of "(g, p)" "length (tensors s)"] g(2)] InterpreterInfo_tensors [OF g(1)]
      by simp
    then show "subgraph_inv s'"
      using assms(1) s' by (simp add: subgraph_inv_tensors)
  qed
qed (simp add: call_planner_def keeps_None)

lemmas planner_keeps [keeps] =
  call_planner_keeps [OF _ ExecuteAllocations_keeps]
  call_planner_keeps [OF _ ResetAllocationsAfter_keeps]
  call_planner_keeps [OF _ ReleaseNonPersistentMemory_keeps]
  call_planner_keeps [OF _ AcquireNonPersistentMemory_keeps]

section \<open>Subsets of a plan\<close>

text \<open>Whatever the graph looks like, a partition names nodes of the execution plan only.\<close>

definition nodes_within :: "int set \<Rightarrow> node_subset list \<Rightarrow> bool" where
  "nodes_within S subs \<longleftrightarrow> (\<forall>ns\<in>set (map subset_nodes subs). set ns \<subseteq> S)"

lemma nodes_within_simps [simp]:
  "nodes_within S []"
  "nodes_within S (x # xs) \<longleftrightarrow> set (subset_nodes x) \<subseteq> S \<and> nodes_within S xs"
  "nodes_within S (xs @ ys) \<longleftrightarrow> nodes_within S xs \<and> nodes_within S ys"
  by (auto simp: nodes_within_def)

lemma nodes_within_cong:
  "map subset_nodes subs = map subset_nodes subs' \<Longrightarrow> nodes_within S subs = nodes_within S subs'"
  by (simp add: nodes_within_def)

lemma push_nodes:
  "push_input k t subs = Some subs' \<Longrightarrow> map subset_nodes subs' = map subset_nodes subs"
  "push_output k t subs = Some subs' \<Longrightarrow> map subset_nodes subs' = map subset_nodes subs"
  by (auto simp: push_input_def push_output_def vec in_bounds_def map_update
      split: bind_splits intro!: list_update_id nth_map [symmetric] list_update_same_conv [THEN iffD2])

lemma record_inputs_nodes:
  "record_inputs epochs k ts subs = Some subs' \<Longrightarrow> map subset_nodes subs' = map subset_nodes subs"
proof (induction ts arbitrary: subs)
  case (Cons t ts)
  then show ?case
    by (auto split: bind_splits if_splits dest!: push_nodes)
qed simp

lemma model_outputs_nodes:
  "model_outputs epochs ts subs = Some subs' \<Longrightarrow> map subset_nodes subs' = map subset_nodes subs"
proof (induction ts arbitrary: subs)
  case (Cons t ts)
  then show ?case
    by (auto split: bind_splits if_splits dest!: push_nodes)
qed simp

lemma nodes_within_update:
  "nodes_within S subs \<Longrightarrow> set (subset_nodes c) \<subseteq> S \<Longrightarrow> nodes_within S (subs[k := c])"
  unfolding nodes_within_def map_update
  using set_update_subset_insert [of "map subset_nodes subs" k "subset_nodes c"] by blast

lemma nodes_within_nth:
  "nodes_within S subs \<Longrightarrow> k < length subs \<Longrightarrow> set (subset_nodes (subs ! k)) \<subseteq> S"
  by (simp add: nodes_within_def)

lemma UpdateNode_within:
  assumes "UpdateNode g ty i s = Some (b, s')" "nodes_within (set (gi_node_index g)) (node_subsets s)"
  shows "nodes_within (set (gi_node_index g)) (node_subsets s')"
proof -
  have at: "x \<in> set (gi_node_index g)" if "vec_at (gi_node_index g) j = Some x" for j x
    using that by (auto simp: vec in_bounds_def)
  have cur: "x \<in> set (gi_node_index g)" if "node_subsets s \<noteq> []"
    "x \<in> set (subset_nodes (node_subsets s ! (length (node_subsets s) - Suc 0)))" for x
    using nodes_within_nth [OF assms(2), of "length (node_subsets s) - Suc 0"] that by auto
  show ?thesis
    using assms
    by (auto simp: UpdateNode_def Let_def nodes_within_cong [OF record_inputs_nodes]
        split: bind_splits if_splits intro!: nodes_within_update)
      (erule at | erule (1) cur)+
qed

lemma sweep_within:
  "sweep g ty is d s = Some (b, s') \<Longrightarrow> nodes_within (set (gi_node_index g)) (node_subsets s) \<Longrightarrow>
   nodes_within (set (gi_node_index g)) (node_subsets s')"
proof (induction "is" arbitrary: d s)
  case (Cons i js)
  then show ?case
    by (auto split: bind_splits dest!: UpdateNode_within)
qed simp

lemma build_loop_within:
  "build_loop g ty s = Some s' \<Longrightarrow> nodes_within (set (gi_node_index g)) (node_subsets s) \<Longrightarrow>
   nodes_within (set (gi_node_index g)) (node_subsets s')"
proof (induction g ty s rule: build_loop.induct)
  case (1 g ty s)
  from "1.prems"(1) show ?case
  proof (cases rule: build_loop_unfold)
    case (1 t)
    then show ?thesis
      using "1.IH" [OF 1(1) refl _ 1(2)] sweep_within [OF 1(1) "1.prems"(2)] by simp
  next
    case 2
    then show ?thesis using sweep_within "1.prems"(2) by blast
  qed
qed

lemma epoch_loop_within:
  "epoch_loop g ty s = Some s' \<Longrightarrow> nodes_within (set (gi_node_index g)) (node_subsets s) \<Longrightarrow>
   nodes_within (set (gi_node_index g)) (node_subsets s')"
proof (induction g ty s rule: epoch_loop.induct)
  case (1 g ty s)
  obtain t where t: "BuildNodeSubset g ty s = Some t"
    using "1.prems"(1) by (subst (asm) epoch_loop.simps) (auto split: option.splits)
  have w: "nodes_within (set (gi_node_index g)) (node_subsets t)"
    using build_loop_within [OF t [unfolded BuildNodeSubset_def]] "1.prems"(2)
    by (simp add: NodeSubset_def)
  show ?case
  proof (cases "subset_nodes (last (node_subsets t)) = []")
    case True
    then have "s' = t\<lparr>node_subsets := butlast (node_subsets t)\<rparr>"
      using "1.prems"(1) t by (subst (asm) epoch_loop.simps) simp
    then show ?thesis
      using w by (auto simp: nodes_within_def dest: in_set_butlastD)
  next
    case False
    then show ?thesis
      using "1.IH" [OF t False] "1.prems"(1) t w by (subst (asm) (2) epoch_loop.simps) simp
  qed
qed

lemma Partition_within:
  assumes "PartitionGraphIntoIndependentNodeSubsets g ns = Some (st, subs)"
  shows "nodes_within (set (gi_node_index g)) subs"
proof -
  have u: "map subset_nodes (map uniquefy_subset xs) = map subset_nodes xs" for xs
    by (simp add: uniquefy_subset_def)
  show ?thesis
    using assms
    by (auto simp: PartitionGraphIntoIndependentNodeSubsets_def Partition_def
        nodes_within_cong [OF u] nodes_within_cong [OF model_outputs_nodes]
        split: bind_splits dest!: epoch_loop_within)
qed

section \<open>Building the graph\<close>

text \<open>A longer vector of tensors or nodes keeps every index valid.\<close>

lemma valid_plan_mono:
  "valid_plan s plan \<Longrightarrow> length (nodes_and_registration s) \<le> length (nodes_and_registration s') \<Longrightarrow>
   valid_plan s' plan"
  by (auto simp: valid_plan_def in_bounds_def)

lemma valid_index_mono:
  "valid_index s i \<Longrightarrow> length (tensors s) \<le> length (tensors s') \<Longrightarrow> valid_index s' i"
  by (auto simp: valid_index_def in_bounds_def)

lemma subgraph_inv_more_tensors:
  assumes "subgraph_inv s" "length (tensors s) \<le> length ts"
  shows "subgraph_inv (s\<lparr>tensors := ts, tensors_capacity := c\<rparr>)"
  using assms valid_index_mono [of s _ "s\<lparr>tensors := ts, tensors_capacity := c\<rparr>"]
  by (fastforce simp: subgraph_inv_def valid_nodes_def valid_plan_def)

lemma AddTensors_keeps [keeps]:
  assumes "subgraph_inv s" "0 \<le> n" "int (length (tensors s)) + n < 2 ^ 64"
  shows "keeps subgraph_inv (snd (AddTensors n s))"
  using assms subgraph_inv_more_tensors [OF assms(1)]
  by (auto simp: AddTensors_def Let_def intro!: keeps)

lemma subgraph_inv_io:
  "subgraph_inv s \<Longrightarrow> \<forall>t\<in>set ts. valid_index s t \<Longrightarrow> subgraph_inv (s\<lparr>sg_inputs := ts\<rparr>)"
  "subgraph_inv s \<Longrightarrow> \<forall>t\<in>set ts. valid_index s t \<Longrightarrow> subgraph_inv (s\<lparr>sg_outputs := ts\<rparr>)"
  "subgraph_inv s \<Longrightarrow> \<forall>t\<in>set ts. valid_index s t \<Longrightarrow> subgraph_inv (s\<lparr>variables := ts\<rparr>)"
  by (auto simp: subgraph_inv_def valid_nodes_def valid_plan_def valid_index_def)

lemma SetIO_keeps [keeps]:
  "subgraph_inv s \<Longrightarrow> keeps subgraph_inv (SetInputs ts s)"
  "subgraph_inv s \<Longrightarrow> keeps subgraph_inv (SetOutputs ts s)"
  "subgraph_inv s \<Longrightarrow> keeps subgraph_inv (SetVariables ts s)"
  by (auto simp: SetInputs_def SetOutputs_def SetVariables_def CheckTensorIndices_cases
      intro!: keeps subgraph_inv_io)

lemma valid_updates [simp]:
  "valid_index (s\<lparr>execution_plan := plan\<rparr>) = valid_index s"
  "valid_index (s\<lparr>pre_delegation_plan := plan\<rparr>) = valid_index s"
  "valid_index (s\<lparr>nodes_and_registration := nds\<rparr>) = valid_index s"
  "valid_nodes (s\<lparr>execution_plan := plan\<rparr>) = valid_nodes s"
  "valid_nodes (s\<lparr>pre_delegation_plan := plan\<rparr>) = valid_nodes s"
  "valid_plan (s\<lparr>execution_plan := plan\<rparr>) = valid_plan s"
  "valid_plan (s\<lparr>pre_delegation_plan := plan\<rparr>) = valid_plan s"
  by (auto simp: fun_eq_iff valid_nodes_def valid_plan_def valid_index_def)

lemma subgraph_inv_plan:
  "subgraph_inv s \<Longrightarrow> valid_plan s plan \<Longrightarrow> subgraph_inv (s\<lparr>execution_plan := plan\<rparr>)"
  "subgraph_inv s \<Longrightarrow> valid_plan s plan \<Longrightarrow> subgraph_inv (s\<lparr>pre_delegation_plan := plan\<rparr>)"
  by (simp_all add: subgraph_inv_def)

lemma SetExecutionPlan_keeps [keeps]:
  "subgraph_inv s \<Longrightarrow> keeps subgraph_inv (SetExecutionPlan plan s)"
  by (auto simp: SetExecutionPlan_def list_all_iff in_bounds_def valid_plan_def
      intro!: keeps subgraph_inv_plan)

lemma tensor_ops_keep [keeps]:
  "subgraph_inv s \<Longrightarrow> keeps subgraph_inv (SetTensorParametersReadOnly i ty nm ds q buf n al sp s)"
  "subgraph_inv s \<Longrightarrow> keeps subgraph_inv (SetTensorParametersReadWrite i ty nm ds q var sig s)"
  "subgraph_inv s \<Longrightarrow> keeps subgraph_inv (SetCustomAllocationForTensor i a s)"
  by (auto simp: SetTensorParametersReadOnly_def SetTensorParametersReadWrite_def
      SetCustomAllocationForTensor_def Let_def intro!: keeps)

lemma ResizeTensorImpl_keeps [keeps]:
  "subgraph_inv s \<Longrightarrow> keeps subgraph_inv (ResizeTensorImpl E i ds s)"
  by (auto simp: ResizeTensorImpl_def Let_def intro!: keeps)

lemma ResizeTensor_keeps [keeps]:
  "subgraph_inv s \<Longrightarrow> keeps subgraph_inv (ResizeTensor E i ds s)"
  by (auto simp: ResizeTensor_def intro!: keeps)

lemma EnsureTensorDataIsReadable_keeps [keeps]:
  "respectful E \<Longrightarrow> subgraph_inv s \<Longrightarrow> keeps subgraph_inv (EnsureTensorDataIsReadable E i s)"
  unfolding EnsureTensorDataIsReadable_def
  by (intro keeps) (auto intro!: keeps respectfulD)

lemma ResetVariableTensors_keeps [keeps]:
  "subgraph_inv s \<Longrightarrow> keeps subgraph_inv (ResetVariableTensors E s)"
  by (auto simp: ResetVariableTensors_def intro!: keeps)

section \<open>Nodes\<close>

abbreviation valid_node :: "'w subgraph \<Rightarrow> node \<Rightarrow> bool" where
  "valid_node s nd \<equiv> (\<forall>t\<in>set (inputs nd) \<union> set (outputs nd). valid_index s t)"

definition grows :: "nat \<Rightarrow> 'w subgraph \<Rightarrow> bool" where
  "grows n s \<longleftrightarrow> subgraph_inv s \<and> n \<le> length (nodes_and_registration s)"

lemma growsD: "grows n s \<Longrightarrow> subgraph_inv s"
  by (simp add: grows_def)

lemma subgraph_inv_nodes:
  assumes "subgraph_inv s" "length (nodes_and_registration s) \<le> length nds"
    and "\<And>nd r. (nd, r) \<in> set nds \<Longrightarrow> valid_node s nd"
  shows "subgraph_inv (s\<lparr>nodes_and_registration := nds\<rparr>)"
proof -
  have "valid_plan (s\<lparr>nodes_and_registration := nds\<rparr>) plan" if "valid_plan s plan" for plan
    by (rule valid_plan_mono [OF that]) (simp add: assms(2))
  then show ?thesis
    using assms by (auto simp: subgraph_inv_def valid_nodes_def)
qed

lemma subgraph_inv_nodeD:
  assumes "subgraph_inv s" "(nd, r) \<in> set (nodes_and_registration s)"
  shows "valid_node s nd"
  using assms by (auto simp: subgraph_inv_def valid_nodes_def)

lemma vec_at_in_set: "vec_at xs i = Some x \<Longrightarrow> x \<in> set xs"
  by (auto simp: vec in_bounds_def)

lemma subgraph_inv_update_nodes:
  assumes "subgraph_inv s" "valid_node s nd"
  shows "subgraph_inv (s\<lparr>nodes_and_registration := (nodes_and_registration s)[k := (nd, r)]\<rparr>)"
proof (rule subgraph_inv_nodes [OF assms(1)])
  fix nd' r'
  assume "(nd', r') \<in> set ((nodes_and_registration s)[k := (nd, r)])"
  then have "(nd', r') \<in> set (nodes_and_registration s) \<or> nd' = nd"
    using set_update_subset_insert by fastforce
  then show "valid_node s nd'"
    using assms subgraph_inv_nodeD by blast
qed simp

lemma update_node_grows:
  assumes "grows n s" "update_node i f s = Some s'"
    and "\<And>nd. valid_node s nd \<Longrightarrow> valid_node s (f nd)"
  shows "grows n s'"
proof -
  obtain nd r where at: "vec_at (nodes_and_registration s) i = Some (nd, r)"
    and s': "s' = s\<lparr>nodes_and_registration := (nodes_and_registration s)[nat i := (f nd, r)]\<rparr>"
    using assms(2) by (auto simp: update_node_def split: option.splits)
  have "valid_node s (f nd)"
    using assms(3) subgraph_inv_nodeD [OF growsD [OF assms(1)] vec_at_in_set [OF at]] by blast
  then show ?thesis
    using subgraph_inv_update_nodes [of s "f nd" "nat i" r] assms(1) by (simp add: s' grows_def)
qed

lemma grows_updates [simp]:
  "grows n (s\<lparr>state := st\<rparr>) = grows n s"
  "grows n (s\<lparr>world := w\<rparr>) = grows n s"
  "grows n (s\<lparr>consistent := b\<rparr>) = grows n s"
  "grows n (set_tensor i t s) = grows n s"
  by (simp_all add: grows_def set_tensor_def [of i t s] subgraph_inv_set_tensor [unfolded set_tensor_def])

lemma grows_plan:
  "grows n s \<Longrightarrow> valid_plan s plan \<Longrightarrow> grows n (s\<lparr>execution_plan := plan\<rparr>)"
  by (simp add: grows_def subgraph_inv_plan)

lemma OpFree_grows:
  assumes "respectful E" "grows n s" "OpFree E r buf s = Some s'"
  shows "grows n s'"
  using assms respectfulD(3,4) [OF assms(1)]
  by (auto simp: OpFree_def grows_def split: op_function.splits if_splits)

lemma CleanupNode_grows:
  assumes "respectful E" "grows n s" "CleanupNode E i s = Some s'"
  shows "grows n s'"
proof -
  obtain nd r t where "vec_at (nodes_and_registration s) i = Some (nd, r)"
    and t: "OpFree E r (user_data nd) s = Some t"
    and u: "update_node i (\<lambda>nd. nd\<lparr>builtin_data := 0\<rparr>) t = Some s'"
    using assms(3) by (auto simp: CleanupNode_def split: bind_splits)
  show ?thesis
    by (rule update_node_grows [OF OpFree_grows [OF assms(1,2) t] u]) simp
qed

lemma OpInit_grows:
  assumes "respectful E" "grows n s" "OpInit E r buf m s = Some (ud, s')"
  shows "grows n s'"
  using assms respectfulD(1,2) [OF assms(1)]
  by (auto simp: OpInit_def grows_def split: op_function.splits) (metis snd_conv)+

lemma CheckInputAndOutputForOverlap_cases:
  "CheckInputAndOutputForOverlap ins outs s = (if set ins \<inter> set outs = {} then ok s
     else Some (kTfLiteError, s\<lparr>consistent := False\<rparr>))"
  by (auto simp: CheckInputAndOutputForOverlap_def list_ex_iff)

lemma append_node_grows:
  assumes E: "respectful E" and s: "grows n s" and v: "\<forall>t\<in>set ins \<union> set outs. valid_index s t"
    and eq: "append_node E ins outs mid dt dn b r s = Some (st, j, s')"
  shows "grows n s'"
proof -
  let ?j = "int (length (nodes_and_registration s))"
  let ?nd = "(fst empty_node)\<lparr>inputs := ins, outputs := outs, intermediates := mid, temporaries := []\<rparr>"
  let ?s1 = "s\<lparr>nodes_and_registration := nodes_and_registration s @ [(?nd, snd empty_node)]\<rparr>"
  obtain ud t nd r' nodes where
    t: "(if dt \<noteq> 0 then OpInit E r dt dn ?s1 else OpInit E r b 0 ?s1) = Some (ud, t)"
    and at: "vec_at (nodes_and_registration t) ?j = Some (nd, r')"
    and nodes: "vec_set (nodes_and_registration t) ?j (nd\<lparr>user_data := ud, builtin_data := b,
        custom_initial_data := (if builtin_code r = BuiltinOperator_CUSTOM then (dt, dn) else (0, 0)),
        node_delegate := None\<rparr>, r) = Some nodes"
    and s': "s' = t\<lparr>nodes_and_registration := nodes, execution_plan := execution_plan t @ [?j]\<rparr>"
    using eq unfolding append_node_def Let_def by (auto split: bind_splits prod.splits)
  have "subgraph_inv ?s1"
    using s v subgraph_inv_nodeD [OF growsD [OF s]]
    by (intro subgraph_inv_nodes) (auto simp: grows_def empty_node_def)
  then have "grows n ?s1" using s by (simp add: grows_def)
  then have t': "grows n t"
    using OpInit_grows [OF E] t by (auto split: if_splits)
  have nd: "valid_node t nd"
    using subgraph_inv_nodeD [OF growsD [OF t'] vec_at_in_set [OF at]] .
  have "grows n (t\<lparr>nodes_and_registration := nodes\<rparr>)" (is "grows n ?u")
    using t' nd nodes by (auto simp: grows_def vec intro!: subgraph_inv_update_nodes)
  moreover have "valid_plan ?u (execution_plan t @ [?j])"
    using at nodes growsD [OF t'] by (auto simp: valid_plan_def subgraph_inv_def vec in_bounds_def)
  ultimately show ?thesis
    using grows_plan s' by simp
qed

lemma AddNode_grows:
  assumes E: "respectful E" and s: "grows n s"
  shows "keeps (\<lambda>(_, s). grows n s) (AddNodeWithParameters E ins outs mid dt dn b r (k, s))"
proof -
  have "keeps (\<lambda>(_, s). grows n s) (append_node E ins outs mid dt dn b r (s\<lparr>state := st\<rparr>))"
    if "\<forall>t\<in>set ins \<union> set outs. valid_index s t" for st
    using append_node_grows [OF E, of n "s\<lparr>state := st\<rparr>"] s that
    by (auto simp: keeps_def valid_index_def)
  then show ?thesis
    using s
    by (auto simp: AddNodeWithParameters_def Let_def CheckTensorIndices_cases valid_index_def
        CheckInputAndOutputForOverlap_cases intro!: keeps)
qed

section \<open>Preparation and invocation\<close>

lemma call_op_keeps:
  assumes "\<And>k. keeps P (f k i s)" "P s"
  shows "keeps P (call_op f fn i s)"
  using assms by (auto simp: call_op_def intro!: keeps split: op_function.splits)

lemma op_calls_keep [keeps]:
  assumes "respectful E" "subgraph_inv s"
  shows "keeps subgraph_inv (OpPrepare E r i s)" "keeps subgraph_inv (OpInvoke E r i s)"
  using assms respectfulD [OF assms]
  by (auto simp: OpPrepare_def OpInvoke_def intro!: keeps call_op_keeps)

lemmas op_calls_inv = op_calls_keep [THEN keepsD]

lemma prepare_ops_keeps:
  assumes "respectful E"
  shows "subgraph_inv (snd ls) \<Longrightarrow> keeps (\<lambda>ls. subgraph_inv (snd ls)) (prepare_ops E plan k ls)"
proof (induction plan arbitrary: k ls)
  case (Cons i plan)
  show ?case
    using Cons.prems
    by (auto simp: Let_def intro!: keeps Cons.IH dest: op_calls_inv [OF assms, rotated])
qed (simp add: keeps_Some)

lemma PrepareOpsStartingAt_keeps:
  assumes "respectful E" "subgraph_inv (snd ls)"
  shows "keeps (\<lambda>ls. subgraph_inv (snd ls)) (PrepareOpsStartingAt E k plan ls)"
  using assms by (auto simp: PrepareOpsStartingAt_def Let_def intro!: prepare_ops_keeps)

lemma check_custom_allocations_keeps [keeps]:
  "subgraph_inv s \<Longrightarrow> keeps subgraph_inv (check_custom_allocations s)"
  unfolding check_custom_allocations_def by (rule keeps_for_each) (auto intro!: keeps)

lemma ensure_planner_inv: "subgraph_inv s \<Longrightarrow> ensure_planner s = Some s' \<Longrightarrow> subgraph_inv s'"
  by (auto simp: ensure_planner_def split: if_splits bind_splits)

lemma PrepareOpsAndTensors_keeps [keeps]:
  assumes E: "respectful E" and s: "subgraph_inv s"
  shows "keeps subgraph_inv (PrepareOpsAndTensors E s)"
proof -
  have rest: "keeps subgraph_inv (do {
        (st, last, s) \<leftarrow> PrepareOpsStartingAt E (next_to_prepare s) (execution_plan s) (0, s);
        if st \<noteq> kTfLiteOk then Some (st, s)
        else
          let s = s\<lparr>next_to_prepare := last + 1\<rparr>
          in ensure_status
               (call_planner (ExecuteAllocations (new_char E (world s)) (next_to_plan s) last) s)
             (\<lambda>s. ensure_status (check_custom_allocations s)
             (\<lambda>s. ok (s\<lparr>next_to_plan := last + 1\<rparr>))) })" if "subgraph_inv s" for s
    using that
    using PrepareOpsStartingAt_keeps [OF E, of "(0, s)", THEN keepsD] that
    by (fastforce simp: Let_def intro!: keeps)
  have orig: "keeps subgraph_inv
      (map_option (\<lambda>(st, last, s).
            (st, if st = kTfLiteOk then s\<lparr>next_original_to_prepare := last + 1\<rparr> else s))
            (PrepareOpsStartingAt E k plan (0, s)))" if "subgraph_inv s" for s k plan
    using PrepareOpsStartingAt_keeps [OF E, of "(0, s)"] that
    by (fastforce simp: keeps_def split: prod.splits)
  show ?thesis
    unfolding PrepareOpsAndTensors_def Let_def
    using s by (intro keeps_bind keeps_ensure_status keeps_if orig keeps_Some rest [unfolded Let_def])
      (auto dest: ensure_planner_inv)
qed

lemma check_input_keeps [keeps]:
  "respectful E \<Longrightarrow> subgraph_inv s \<Longrightarrow> keeps subgraph_inv (check_input E nd r it s)"
  unfolding check_input_def by (cases it) (auto intro!: keeps)

lemma after_invoke_keeps [keeps]:
  "subgraph_inv s \<Longrightarrow> keeps subgraph_inv (after_invoke k nd s)"
  unfolding after_invoke_def Let_def by (intro keeps) auto

lemma invoke_node_keeps [keeps]:
  assumes E: "respectful E" and s: "subgraph_inv s"
  shows "keeps subgraph_inv (invoke_node E k s)"
  unfolding invoke_node_def Let_def
  using s by (intro keeps E) (auto dest: op_calls_inv [OF E, rotated])

section \<open>Delegation\<close>

lemma claim_tensor_grows: "grows n s \<Longrightarrow> keeps (grows n) (claim_tensor d i s)"
  by (auto simp: claim_tensor_def intro!: keeps)

lemma replace_subset_grows:
  assumes E: "respectful E" and s: "grows n s" and sub: "\<forall>i\<in>set (subset_nodes sub). 0 \<le> i \<and> nat i < n"
  shows "keeps (grows n) (replace_subset E r d sub s)"
proof (cases "subset_type sub")
  case kTfNonPartition
  have "valid_plan s (execution_plan s @ subset_nodes sub)"
    using s sub by (auto simp: grows_def subgraph_inv_def valid_plan_def in_bounds_def)
  then show ?thesis
    using kTfNonPartition grows_plan [OF s] by (simp add: replace_subset_def keeps_Some)
next
  case kTfPartition
  have add: "grows n t" if "AddNodeWithParameters E ins outs [] 0 0 p r (0, s\<lparr>world := w\<rparr>) = Some (st, j, t)"
    for st j t ins outs p w
    using keepsD [OF AddNode_grows [OF E] that] s by simp
  have upd: "grows n u" if "grows n t" "update_node j (\<lambda>nd. nd\<lparr>node_delegate := Some d\<rparr>) t = Some u"
    for t u j
    by (rule update_node_grows [OF that]) simp
  have claim: "keeps (grows n) (ensure_status (for_each (claim_tensor d) ts t)
      (\<lambda>s. map_option (Pair kTfLiteOk) (update_node j (\<lambda>nd. nd\<lparr>node_delegate := Some d\<rparr>) s)))"
    if "grows n t" for t j ts
    using that
    by (intro keeps_ensure_status keeps_for_each claim_tensor_grows) (auto simp: keeps_def dest: upd)
  show ?thesis
    using kTfPartition
    by (auto simp: replace_subset_def split: prod.splits option.splits
        intro!: claim keeps_if keeps_Some keeps_None dest: add)
next
  case kTfUnexplored
  then show ?thesis using s by (simp add: replace_subset_def keeps_Some)
qed

lemma InterpreterInfo_plan: "InterpreterInfo s = Some g \<Longrightarrow> gi_node_index g = execution_plan s"
  by (auto simp: InterpreterInfo_def split: bind_splits)

lemma ReplaceNodeSubsets_keeps [keeps]:
  assumes E: "respectful E" and s: "subgraph_inv s"
  shows "keeps subgraph_inv (ReplaceNodeSubsetsWithDelegateKernels E r nodes d s)"
proof (rule keepsI)
  fix st s'
  assume eq: "ReplaceNodeSubsetsWithDelegateKernels E r nodes d s = Some (st, s')"
  let ?n = "length (nodes_and_registration s)"
  show "subgraph_inv s'"
  proof (cases "nodes = []")
    case True
    then show ?thesis using eq s by (simp add: ReplaceNodeSubsetsWithDelegateKernels_def)
  next
    case False
    then obtain g st' subs where g: "InterpreterInfo s = Some g"
      "PartitionGraphIntoIndependentNodeSubsets g nodes = Some (st', subs)"
      and f: "for_each (replace_subset E (r\<lparr>builtin_code := BuiltinOperator_DELEGATE\<rparr>) d) subs
          (s\<lparr>execution_plan := []\<rparr>) = Some (st, s')"
      using eq by (auto simp: ReplaceNodeSubsetsWithDelegateKernels_def split: bind_splits)
    have sub: "\<forall>i\<in>set (subset_nodes sub). 0 \<le> i \<and> nat i < ?n" if "sub \<in> set subs" for sub
      using Partition_within [OF g(2)] that s InterpreterInfo_plan [OF g(1)]
      by (fastforce simp: nodes_within_def subgraph_inv_def valid_plan_def in_bounds_def)
    have "grows ?n (s\<lparr>execution_plan := []\<rparr>)"
      using s by (intro grows_plan) (simp_all add: grows_def valid_plan_def)
    then have "keeps (grows ?n) (for_each (replace_subset E (r\<lparr>builtin_code := BuiltinOperator_DELEGATE\<rparr>) d)
        subs (s\<lparr>execution_plan := []\<rparr>))"
      by (rule keeps_for_each) (use replace_subset_grows [OF E] sub in blast)
    then show ?thesis
      by (rule growsD [OF keepsD [OF _ f]])
  qed
qed

lemma delegate_calls_keep [keeps]:
  "subgraph_inv s \<Longrightarrow> keeps subgraph_inv (GetExecutionPlan s)"
  "subgraph_inv s \<Longrightarrow> keeps subgraph_inv (PreviewDelegatePartitioning nodes outs s)"
  "respectful E \<Longrightarrow> subgraph_inv s \<Longrightarrow> keeps subgraph_inv (context_ReplaceNodeSubsets E r nodes d s)"
  "subgraph_inv s \<Longrightarrow> keeps subgraph_inv (context_GetExecutionPlan s)"
  "subgraph_inv s \<Longrightarrow> keeps subgraph_inv (context_PreviewDelegatePartitioning nodes outs s)"
  by (auto simp: GetExecutionPlan_def PreviewDelegatePartitioning_def Let_def
      FreeDelegatePartitioningData_def context_ReplaceNodeSubsets_def context_GetExecutionPlan_def
      context_PreviewDelegatePartitioning_def intro!: keeps)

text \<open>\<^verbatim>\<open>UndoAllDelegates\<close>: the node vector shrinks, but not below the plan that is restored.\<close>

lemma cleanup_delegate_node_grows:
  "respectful E \<Longrightarrow> grows n s \<Longrightarrow> keeps (grows n) (cleanup_delegate_node E i s)"
  by (auto simp: cleanup_delegate_node_def keeps_def split: bind_splits if_splits
      dest: CleanupNode_grows)

lemma vec_at_mapping:
  "list_all (valid_index s) m \<Longrightarrow> vec_at m i = Some j \<Longrightarrow> valid_index s j"
  by (auto simp: list_all_iff dest: vec_at_in_set)

lemma fp16_mapping_valid:
  assumes s: "subgraph_inv s"
  shows "fp16_mapping plan s m = Some m' \<Longrightarrow> list_all (valid_index s) m \<Longrightarrow> list_all (valid_index s) m'"
proof (induction plan arbitrary: m)
  case (Cons i plan)
  have out: "valid_index s (outputs nd ! 0)"
    if "vec_at (nodes_and_registration s) i = Some (nd, r)" "length (outputs nd) = Suc 0" for nd r
    using subgraph_inv_nodeD [OF s vec_at_in_set [OF that(1)]] that(2) by auto
  have "list_all (valid_index s) (m[k := j])" if "list_all (valid_index s) m" "valid_index s j" for m k j
    using that set_update_subset_insert [of m k j] by (auto simp: list_all_iff)
  then show ?case
    using Cons out by (auto simp: vec_set_eq_Some split: bind_splits if_splits)
qed simp

lemma remap_inputs_valid:
  "remap_inputs ts m is = Some js \<Longrightarrow> list_all (valid_index s) m \<Longrightarrow> \<forall>i\<in>set is. valid_index s i \<Longrightarrow>
   \<forall>j\<in>set js. valid_index s j"
  by (induction "is" arbitrary: js) (auto split: bind_splits if_splits dest: vec_at_mapping)

lemma remap_node_grows:
  assumes "grows n s" "list_all (valid_index s) m"
  shows "keeps (\<lambda>s'. grows n s' \<and> length (tensors s') = length (tensors s)
    \<and> execution_plan s' = execution_plan s \<and> pre_delegation_plan s' = pre_delegation_plan s)
    (remap_node m i s)"
proof (rule keepsI)
  fix st s'
  assume "remap_node m i s = Some (st, s')"
  then consider "s' = s" | nd r ins where "vec_at (nodes_and_registration s) i = Some (nd, r)"
      "remap_inputs (tensors s) m (inputs nd) = Some ins"
      "update_node i (\<lambda>nd. nd\<lparr>inputs := ins\<rparr>) s = Some s'"
    by (auto simp: remap_node_def split: bind_splits if_splits)
  then show "grows n s' \<and> length (tensors s') = length (tensors s)
      \<and> execution_plan s' = execution_plan s \<and> pre_delegation_plan s' = pre_delegation_plan s"
  proof cases
    case 2
    have "\<forall>j\<in>set ins. valid_index s j"
      using remap_inputs_valid [OF 2(2) assms(2)]
        subgraph_inv_nodeD [OF growsD [OF assms(1)] vec_at_in_set [OF 2(1)]] by blast
    then have "grows n s'"
      by (intro update_node_grows [OF assms(1) 2(3)]) auto
    then show ?thesis
      using 2(3) by (auto simp: update_node_def split: option.splits)
  qed (use assms in simp)
qed

lemma fold_max_ge: "x \<le> fold max xs (x::int)" "y \<in> set xs \<Longrightarrow> y \<le> fold max xs x"
  by (metis Max_ge List.finite_set Max.set_eq_fold list.set_intros(1))
     (metis Max_ge List.finite_set Max.set_eq_fold list.set_intros(2))

lemma subgraph_inv_truncate:
  assumes s: "subgraph_inv s" and pre: "pre_delegation_plan s = []"
    and n: "n = nat (fold max (execution_plan s) 0 + 1)"
  shows "subgraph_inv (s\<lparr>nodes_and_registration := vec_resize (nodes_and_registration s) n empty_node\<rparr>)"
    (is "subgraph_inv ?t")
proof -
  have "valid_plan ?t (execution_plan s)"
    using s n fold_max_ge(2) [of _ "execution_plan s" 0]
    by (fastforce simp: subgraph_inv_def valid_plan_def in_bounds_def nat_less_iff)
  moreover have "valid_node s nd" if "(nd, r) \<in> set (vec_resize (nodes_and_registration s) n empty_node)" for nd r
    using that subgraph_inv_nodeD [OF s, of nd r]
    by (auto simp: vec_resize_def empty_node_def dest: in_set_takeD)
  ultimately show ?thesis
    using s pre by (auto simp: subgraph_inv_def valid_nodes_def valid_plan_def)
qed

lemma UndoAllDelegates_keeps [keeps]:
  assumes E: "respectful E" and s: "subgraph_inv s"
  shows "keeps subgraph_inv (UndoAllDelegates E s)"
proof (rule keepsI)
  fix st s'
  assume eq: "UndoAllDelegates E s = Some (st, s')"
  show "subgraph_inv s'"
  proof (cases "pre_delegation_plan s = []")
    case True
    then show ?thesis using eq s by (simp add: UndoAllDelegates_def)
  next
    case False
    obtain st1 s1 where c: "for_each (cleanup_delegate_node E) (execution_plan s) s = Some (st1, s1)"
      using eq False by (auto simp: UndoAllDelegates_def ensure_status_def split: option.splits)
    have s1: "subgraph_inv s1"
      using keepsD [OF keeps_for_each c, of "grows 0"] cleanup_delegate_node_grows [OF E] s
      by (auto simp: grows_def)
    define s2 where "s2 = s1\<lparr>execution_plan := pre_delegation_plan s1, pre_delegation_plan := []\<rparr>"
    have s2: "subgraph_inv s2"
      using s1 by (auto simp: s2_def subgraph_inv_def valid_plan_def)
    show ?thesis
    proof (cases "st1 = kTfLiteOk")
      case True
      then obtain m st3 s3 where m: "fp16_mapping (execution_plan s2) s2 (replicate (length (tensors s2)) (-1)) = Some m"
        and f: "for_each (remap_node m) (execution_plan s2) s2 = Some (st3, s3)"
        and r: "(if st3 = kTfLiteOk then ok (s3\<lparr>nodes_and_registration := vec_resize
            (nodes_and_registration s3) (nat (fold max (execution_plan s2) 0 + 1)) empty_node,
            state := kStateUninvokable, delegates_undone := True\<rparr>) else Some (st3, s3)) = Some (st, s')"
        using eq False c
        by (auto simp: UndoAllDelegates_def Let_def s2_def ensure_status_def
            split: option.splits bind_splits if_splits)
      have "list_all (valid_index s2) (replicate (length (tensors s2)) (-1))"
        by (simp add: list_all_iff valid_index_def)
      then have m': "list_all (valid_index s2) m"
        using fp16_mapping_valid [OF s2 m] by blast
      have "grows 0 s3 \<and> length (tensors s3) = length (tensors s2)
          \<and> execution_plan s3 = execution_plan s2 \<and> pre_delegation_plan s3 = pre_delegation_plan s2"
      proof (rule for_each_inv [OF f])
        fix i t st t'
        assume t: "grows 0 t \<and> length (tensors t) = length (tensors s2)
            \<and> execution_plan t = execution_plan s2 \<and> pre_delegation_plan t = pre_delegation_plan s2"
          and t': "remap_node m i t = Some (st, t')"
        have "list_all (valid_index t) m"
          using m' t by (auto simp: list_all_iff valid_index_def in_bounds_def)
        then show "grows 0 t' \<and> length (tensors t') = length (tensors s2)
            \<and> execution_plan t' = execution_plan s2 \<and> pre_delegation_plan t' = pre_delegation_plan s2"
          using keepsD [OF remap_node_grows t'] t by auto
      qed (simp add: s2 grows_def)
      then show ?thesis
        using r subgraph_inv_truncate [OF growsD [of 0 s3] _ refl]
        by (auto simp: s2_def growsD split: if_splits)
    next
      case False
      then show ?thesis
        using eq c s1 \<open>pre_delegation_plan s \<noteq> []\<close> by (simp add: UndoAllDelegates_def)
    qed
  qed
qed

section \<open>Allocation, and what remains\<close>

text \<open>
  The operations below call each other; \<open>modify\<close> stands for \<^verbatim>\<open>ModifyGraphWithDelegate\<close>, whose
  own preservation follows by induction on the depth of nested calls.
\<close>

definition modify_keeps :: "'w modify \<Rightarrow> bool" where
  "modify_keeps modify \<longleftrightarrow> (\<forall>d s. subgraph_inv s \<longrightarrow> keeps subgraph_inv (modify d s))"

lemma RedoAllDelegates_keeps [keeps]:
  "modify_keeps modify \<Longrightarrow> subgraph_inv s \<Longrightarrow> keeps subgraph_inv (RedoAllDelegates modify s)"
  by (auto simp: RedoAllDelegates_def modify_keeps_def intro!: keeps)

lemma keeps_map_status' [keeps]:
  "keeps P r \<Longrightarrow> keeps P (map_option (\<lambda>(_, s). (st, s)) r)"
  by (rule keeps_map_status)

lemma AllocateTensors_keeps [keeps]:
  assumes "respectful E" "modify_keeps modify" "subgraph_inv s"
  shows "keeps subgraph_inv (AllocateTensors E modify s)"
  unfolding AllocateTensors_def Let_def
  using assms by (intro keeps) auto

lemma EnsureMemoryAllocations_keeps [keeps]:
  assumes "respectful E" "modify_keeps modify" "subgraph_inv s"
  shows "keeps subgraph_inv (EnsureMemoryAllocations E modify s)"
  unfolding EnsureMemoryAllocations_def Let_def
  using assms by (intro keeps) auto

lemma RemoveAllDelegates_keeps [keeps]:
  assumes "respectful E" "modify_keeps modify" "subgraph_inv s"
  shows "keeps subgraph_inv (RemoveAllDelegates E modify s)"
  unfolding RemoveAllDelegates_def using assms by (intro keeps) auto

lemma reset_delegation_keeps [keeps]:
  assumes "respectful E" "modify_keeps modify" "keeps subgraph_inv r"
  shows "keeps subgraph_inv (reset_delegation_if_not_ok E modify r)"
  unfolding reset_delegation_if_not_ok_def
  using assms by (intro keeps) (auto dest: keepsD)

lemma check_static_tensors_keeps [keeps]:
  assumes "respectful E" "modify_keeps modify" "subgraph_inv s"
  shows "keeps subgraph_inv (check_static_tensors E modify s)"
  unfolding check_static_tensors_def
  using assms PrepareOpsStartingAt_keeps [OF assms(1), of "(0, s)", THEN keepsD]
  by (intro keeps) auto

lemma modify_with_delegate_keeps [keeps]:
  assumes E: "respectful E" and m: "modify_keeps modify" and s: "subgraph_inv s"
  shows "keeps subgraph_inv (modify_with_delegate E modify d s)"
proof -
  have prep: "keeps subgraph_inv (map_option (map_prod id SwitchToKernelContext)
      (delegate_prepare E d (SwitchToDelegateContext s)))" if "subgraph_inv s" for s
    using respectfulD(7) [OF E, of "SwitchToDelegateContext s" d] that by (auto simp: keeps_def)
  have pre: "subgraph_inv (if delegates_applied s = [] then s\<lparr>pre_delegation_plan := execution_plan s\<rparr> else s)"
    if "subgraph_inv s" for s :: "'a subgraph"
    using that by (auto intro!: subgraph_inv_plan simp: subgraph_inv_def)
  show ?thesis
    unfolding modify_with_delegate_def apply_delegate_def Let_def
    by (intro keeps_ensure_status keeps_if keeps_Some RedoAllDelegates_keeps check_static_tensors_keeps
        EnsureMemoryAllocations_keeps reset_delegation_keeps prep pre E m s)
      (simp_all add: E m s)
qed

lemma ModifyGraphWithDelegate_keeps:
  "respectful E \<Longrightarrow> modify_keeps (ModifyGraphWithDelegate E depth)"
  by (induction depth) (auto simp: modify_keeps_def intro!: keeps)

lemma ResizeInputTensor_keeps [keeps]:
  "respectful E \<Longrightarrow> subgraph_inv s \<Longrightarrow> keeps subgraph_inv (ResizeInputTensor E i ds s)"
  unfolding ResizeInputTensor_def Let_def by (intro keeps) auto

lemma ResizeInputTensorStrict_keeps [keeps]:
  "respectful E \<Longrightarrow> subgraph_inv s \<Longrightarrow> keeps subgraph_inv (ResizeInputTensorStrict E i ds s)"
  unfolding ResizeInputTensorStrict_def Let_def by (intro keeps) auto

lemma ReleaseNonPersistentMemory_sg_keeps [keeps]:
  "subgraph_inv s \<Longrightarrow> keeps subgraph_inv (ReleaseNonPersistentMemory_sg s)"
  unfolding ReleaseNonPersistentMemory_sg_def by (intro keeps) auto

lemma Invoke_keeps [keeps]:
  "respectful E \<Longrightarrow> subgraph_inv s \<Longrightarrow> keeps subgraph_inv (Invoke E s)"
  unfolding Invoke_def
  by (intro keeps ModifyGraphWithDelegate_keeps [unfolded modify_keeps_def, rule_format]) auto

section \<open>Clients\<close>

text \<open>The calls of the public interface that change the subgraph; a status does not end a client.\<close>

datatype call =
    CallAddTensors int
  | CallSetInputs "int list"
  | CallSetOutputs "int list"
  | CallSetVariables "int list"
  | CallSetExecutionPlan "int list"
  | CallSetReadOnly int tflite_type "string option" "int list" quantization nat nat nat "sparsity option"
  | CallSetReadWrite int tflite_type "string option" "int list" quantization bool "int list"
  | CallSetCustomAllocation int custom_allocation
  | CallAddNode "int list" "int list" "int list" nat nat nat registration
  | CallAllocateTensors
  | CallInvoke
  | CallResizeInput int "int list"
  | CallResizeInputStrict int "int list"
  | CallModifyGraph delegate_id
  | CallUndoAllDelegates
  | CallRemoveAllDelegates
  | CallReleaseNonPersistentMemory
  | CallResetVariableTensors
  | CallEnsureTensorDataIsReadable int
  | CallUseNNAPI bool
  | CallSetCancellation nat "nat option"

fun run_call :: "'w env \<Rightarrow> call \<Rightarrow> 'w subgraph \<Rightarrow> 'w subgraph result" where
  "run_call E (CallAddTensors n) s = snd (AddTensors n s)"
| "run_call E (CallSetInputs ts) s = SetInputs ts s"
| "run_call E (CallSetOutputs ts) s = SetOutputs ts s"
| "run_call E (CallSetVariables ts) s = SetVariables ts s"
| "run_call E (CallSetExecutionPlan plan) s = SetExecutionPlan plan s"
| "run_call E (CallSetReadOnly i ty nm ds q buf n al sp) s =
     SetTensorParametersReadOnly i ty nm ds q buf n al sp s"
| "run_call E (CallSetReadWrite i ty nm ds q var sig) s =
     SetTensorParametersReadWrite i ty nm ds q var sig s"
| "run_call E (CallSetCustomAllocation i a) s = SetCustomAllocationForTensor i a s"
| "run_call E (CallAddNode ins outs mid dt dn b r) s =
     map_option (map_prod id snd) (AddNodeWithParameters E ins outs mid dt dn b r (0, s))"
| "run_call E CallAllocateTensors s = AllocateTensors E (ModifyGraphWithDelegate E call_depth) s"
| "run_call E CallInvoke s = Invoke E s"
| "run_call E (CallResizeInput i ds) s = ResizeInputTensor E i ds s"
| "run_call E (CallResizeInputStrict i ds) s = ResizeInputTensorStrict E i ds s"
| "run_call E (CallModifyGraph d) s = ModifyGraphWithDelegate E call_depth d s"
| "run_call E CallUndoAllDelegates s = UndoAllDelegates E s"
| "run_call E CallRemoveAllDelegates s = RemoveAllDelegates E (ModifyGraphWithDelegate E call_depth) s"
| "run_call E CallReleaseNonPersistentMemory s = ReleaseNonPersistentMemory_sg s"
| "run_call E CallResetVariableTensors s = ResetVariableTensors E s"
| "run_call E (CallEnsureTensorDataIsReadable i) s = EnsureTensorDataIsReadable E i s"
| "run_call E (CallUseNNAPI b) s = ok (UseNNAPI b s)"
| "run_call E (CallSetCancellation data f) s = ok (SetCancellationFunction data f s)"

text \<open>\<^verbatim>\<open>AddTensors\<close> is asked for a non-negative number of tensors that memory can hold.\<close>

definition admissible :: "call \<Rightarrow> 'w subgraph \<Rightarrow> bool" where
  "admissible c s = (case c of
     CallAddTensors n \<Rightarrow> 0 \<le> n \<and> int (length (tensors s)) + n < 2 ^ 64 | _ \<Rightarrow> True)"

inductive client_reaches :: "'w env \<Rightarrow> 'w subgraph \<Rightarrow> 'w subgraph \<Rightarrow> bool" for E s where
  start: "client_reaches E s s"
| call: "client_reaches E s t \<Longrightarrow> admissible c t \<Longrightarrow> run_call E c t = Some (st, u) \<Longrightarrow>
    client_reaches E s u"

lemma run_call_keeps:
  assumes E: "respectful E" and s: "subgraph_inv s" and c: "admissible c s"
  shows "keeps subgraph_inv (run_call E c s)"
proof -
  have add: "keeps subgraph_inv (map_option (map_prod id snd) (AddNodeWithParameters E ins outs mid dt dn b r (0, s)))"
    for ins outs mid dt dn b r
    using AddNode_grows [OF E, of 0 s ins outs mid dt dn b r 0] s
    by (fastforce simp: keeps_def grows_def)
  note m = ModifyGraphWithDelegate_keeps [OF E]
  show ?thesis
    using c add
    by (cases c) (auto simp: admissible_def UseNNAPI_def SetCancellationFunction_def E s
        intro!: keeps m [unfolded modify_keeps_def, rule_format] m)
qed

lemma Subgraph_inv: "subgraph_inv (Subgraph contexts w)"
  by (simp add: Subgraph_def subgraph_inv_def valid_nodes_def valid_plan_def)

text \<open>
  C10: whatever sequence of public calls a client makes, failed ones included, every tensor index
  in the \<^verbatim>\<open>inputs\<close> or \<^verbatim>\<open>outputs\<close> of a node and in the lists of inputs, outputs and variables of the
  subgraph is valid or marks an optional tensor, and every node index of the execution plan and of
  the plan saved before delegation is valid, provided that kernels and delegates change these only
  through the context they are given (\<open>respectful\<close>). The \<^verbatim>\<open>intermediates\<close> of a node are excepted: they
  are stored unchecked (\<open>intermediates_are_unchecked\<close>); its \<^verbatim>\<open>temporaries\<close> are written by its kernel.
\<close>

theorem client_reaches_inv:
  assumes "respectful E" "client_reaches E (Subgraph contexts w) s"
  shows "subgraph_inv s"
  using assms(2)
proof (induction rule: client_reaches.induct)
  case start
  show ?case by (rule Subgraph_inv)
next
  case (call t c st u)
  then show ?case
    using keepsD [OF run_call_keeps [OF assms(1)] call.hyps(3)] by blast
qed

text \<open>A client on kernels that do nothing, for the witnesses.\<close>

definition idle_env :: "unit env" where
  "idle_env =
     \<lparr>init_kernel = (\<lambda>k b n s. (0, s)), free_kernel = (\<lambda>k b s. s), prepare_kernel = (\<lambda>k i s. ok s),
      invoke_kernel = (\<lambda>k i s. ok s), delegate_flags = (\<lambda>d. 0), delegate_prepare = (\<lambda>d s. ok s),
      copy_from_buffer_handle = (\<lambda>d. None), free_buffer_handle = (\<lambda>d. None), nnapi_delegate = 0,
      cancelled = (\<lambda>f n w. False),
      new_char = (\<lambda>w. (\<lambda>n. \<lparr>buf_addr = 4096, buf_bytes = replicate n 0\<rparr>,
                       \<lambda>n. \<lparr>buf_addr = 8192, buf_bytes = replicate n 0\<rparr>)),
      malloc = (\<lambda>n w. (1, w)), malloc_params = (\<lambda>p w. (1, w)), memset = (\<lambda>a v n w. w)\<rparr>"

lemma idle_env_respectful: "respectful idle_env"
  by (simp add: respectful_def idle_env_def keeps_def)

definition example_registration :: registration where
  "example_registration = \<lparr>op_init = NullOp, op_free = NullOp, op_prepare = Kernel 0,
     op_invoke = Kernel 0, builtin_code = 0, custom_name = None, op_version = 1\<rparr>"

text \<open>A client stores the intermediate tensor 999 in a graph without tensors.\<close>

lemma intermediates_are_unchecked:
  "\<exists>t nd r. run_call idle_env (CallAddNode [] [] [999] 0 0 5 example_registration) (Subgraph [] ()) = ok t
     \<and> nodes_and_registration t = [(nd, r)] \<and> intermediates nd = [999] \<and> tensors t = []"
  by (simp add: Subgraph_def AddNodeWithParameters_def append_node_def OpInit_def vec_resize_def
      CheckInputAndOutputForOverlap_def example_registration_def vec in_bounds_def)

definition example_subgraph :: "unit subgraph" where
  "example_subgraph = snd (the (run_call idle_env (CallAddNode [0] [1] [] 0 0 5 example_registration)
     (snd (the (run_call idle_env (CallAddTensors 2) (Subgraph [] ()))))))"

lemma example_subgraph_reached: "client_reaches idle_env (Subgraph [] ()) example_subgraph"
proof -
  let ?t = "snd (the (run_call idle_env (CallAddTensors 2) (Subgraph [] ())))"
  have "client_reaches idle_env (Subgraph [] ()) ?t"
    by (rule client_reaches.call [OF client_reaches.start, of "CallAddTensors 2" _ _ kTfLiteOk])
      (simp_all add: admissible_def Subgraph_def AddTensors_def Let_def)
  then show ?thesis
    unfolding example_subgraph_def
    by (rule client_reaches.call [of _ _ _ "CallAddNode [0] [1] [] 0 0 5 example_registration" kTfLiteOk])
      (simp_all add: admissible_def Subgraph_def AddTensors_def Let_def AddNodeWithParameters_def
        append_node_def OpInit_def vec_resize_def CheckInputAndOutputForOverlap_def
        example_registration_def vec in_bounds_def)
qed

theorem client_reaches_inv_witness:
  "respectful idle_env \<and> client_reaches idle_env (Subgraph [] ()) example_subgraph
     \<and> subgraph_inv example_subgraph"
  using idle_env_respectful example_subgraph_reached
    client_reaches_inv [OF idle_env_respectful example_subgraph_reached] by blast

end
