(* ===== verification/Subgraph_Behaviour.thy ===== *)
theory Subgraph_Behaviour
  imports Subgraph_Safety
begin

text \<open>
  What \<open>Subgraph\<close> does with kernels and delegates: nodes are prepared before they run, and again
  when a dynamic tensor upstream has been resized, the nested calls of delegation end, and a delegate that fails is undone.

  The assumption \<open>discreet\<close> is the part of \<^verbatim>\<open>c/common.h\<close> that these facts need: a kernel changes
  tensors and its own node through the context, never the plan or the counters of the subgraph.
\<close>

section \<open>Discreet kernels\<close>

definition bookkeeping ::
  "'w subgraph \<Rightarrow> int list \<times> int list \<times> int \<times> int \<times> bool \<times> delegate_id list \<times> bool" where
  "bookkeeping s = (execution_plan s, pre_delegation_plan s, next_to_prepare s, next_to_plan s,
     delegate_context s, delegates_applied s, delegates_undone s)"

definition delegation :: "'w subgraph \<Rightarrow> int list \<times> delegate_id list \<times> bool" where
  "delegation s = (pre_delegation_plan s, delegates_applied s, delegates_undone s)"

definition discreet :: "'w env \<Rightarrow> bool" where
  "discreet E \<longleftrightarrow>
     (\<forall>k b n s. bookkeeping (snd (init_kernel E k b n s)) = bookkeeping s)
     \<and> (\<forall>k b s. bookkeeping (free_kernel E k b s) = bookkeeping s)
     \<and> (\<forall>k i s. keeps (\<lambda>s'. bookkeeping s' = bookkeeping s) (prepare_kernel E k i s))
     \<and> (\<forall>k i s. keeps (\<lambda>s'. bookkeeping s' = bookkeeping s) (invoke_kernel E k i s))
     \<and> (\<forall>d s. keeps (\<lambda>s'. delegation s' = delegation s) (delegate_prepare E d s))
     \<and> (\<forall>d f b i s. copy_from_buffer_handle E d = Some f \<longrightarrow>
          keeps (\<lambda>s'. bookkeeping s' = bookkeeping s) (f b i s))"

lemma discreetD:
  assumes "discreet E"
  shows "bookkeeping (snd (init_kernel E k b n s)) = bookkeeping s"
    and "bookkeeping (free_kernel E k b s) = bookkeeping s"
    and "bookkeeping s = B \<Longrightarrow> keeps (\<lambda>s'. bookkeeping s' = B) (prepare_kernel E k i s)"
    and "bookkeeping s = B \<Longrightarrow> keeps (\<lambda>s'. bookkeeping s' = B) (invoke_kernel E k i s)"
    and "delegation s = D \<Longrightarrow> keeps (\<lambda>s'. delegation s' = D) (delegate_prepare E d s)"
    and "copy_from_buffer_handle E d = Some f \<Longrightarrow> bookkeeping s = B \<Longrightarrow>
      keeps (\<lambda>s'. bookkeeping s' = B) (f h i s)"
  using assms unfolding discreet_def by blast+

lemma bookkeeping_updates [simp]:
  "bookkeeping (s\<lparr>state := st\<rparr>) = bookkeeping s"
  "bookkeeping (s\<lparr>world := w\<rparr>) = bookkeeping s"
  "bookkeeping (s\<lparr>tensors := ts\<rparr>) = bookkeeping s"
  "bookkeeping (s\<lparr>nodes_and_registration := nds\<rparr>) = bookkeeping s"
  "bookkeeping (s\<lparr>memory_planner := p\<rparr>) = bookkeeping s"
  "bookkeeping (s\<lparr>has_dynamic_tensors := b\<rparr>) = bookkeeping s"
  "bookkeeping (s\<lparr>tensor_resized_since_op_invoke := b\<rparr>) = bookkeeping s"
  "bookkeeping (s\<lparr>tensors_capacity := n\<rparr>) = bookkeeping s"
  "bookkeeping (s\<lparr>next_original_to_prepare := k\<rparr>) = bookkeeping s"
  "bookkeeping (set_tensor i t s) = bookkeeping s"
  "bookkeeping (EnsureTensorsVectorCapacity s) = bookkeeping s"
  by (simp_all add: bookkeeping_def set_tensor_def EnsureTensorsVectorCapacity_def Let_def)

lemma call_op_bookkeeping:
  assumes "discreet E" "bookkeeping s = B"
  shows "keeps (\<lambda>s'. bookkeeping s' = B) (OpPrepare E r i s)"
    "keeps (\<lambda>s'. bookkeeping s' = B) (OpInvoke E r i s)"
  using assms discreetD(3,4) [OF assms]
  by (auto simp: OpPrepare_def OpInvoke_def intro!: keeps call_op_keeps)

lemma OpFree_bookkeeping:
  "discreet E \<Longrightarrow> OpFree E r buf s = Some s' \<Longrightarrow> bookkeeping s' = bookkeeping s"
  by (auto simp: OpFree_def discreetD split: op_function.splits if_splits)

lemma call_planner_bookkeeping:
  "keeps (\<lambda>s'. bookkeeping s' = bookkeeping s) (call_planner f s)"
  by (auto simp: keeps_def call_planner_def split: option.splits bind_splits)

lemma ensure_planner_bookkeeping:
  "ensure_planner s = Some s' \<Longrightarrow> bookkeeping s' = bookkeeping s"
  by (auto simp: ensure_planner_def split: if_splits bind_splits)

lemma check_custom_allocations_bookkeeping:
  "bookkeeping s = B \<Longrightarrow> keeps (\<lambda>s'. bookkeeping s' = B) (check_custom_allocations s)"
  unfolding check_custom_allocations_def by (rule keeps_for_each) (auto intro!: keeps)


lemma prepare_ops_bookkeeping:
  assumes "discreet E"
  shows "bookkeeping (snd ls) = B \<Longrightarrow> keeps (\<lambda>ls. bookkeeping (snd ls) = B) (prepare_ops E plan k ls)"
proof (induction plan arbitrary: k ls B)
  case (Cons i plan)
  show ?case
    using Cons.prems
    by (auto simp: Let_def intro!: keeps Cons.IH
        dest: call_op_bookkeeping [OF assms, THEN keepsD, rotated])
qed (simp add: keeps_Some)

lemma PrepareOpsStartingAt_bookkeeping:
  assumes "discreet E" "bookkeeping (snd ls) = B"
  shows "keeps (\<lambda>ls. bookkeeping (snd ls) = B) (PrepareOpsStartingAt E k plan ls)"
  using assms by (auto simp: PrepareOpsStartingAt_def Let_def intro!: prepare_ops_bookkeeping)

section \<open>Prepared before they run\<close>


text \<open>\<open>ok_post Q r\<close>: if the outcome is \<^verbatim>\<open>kTfLiteOk\<close>, the state satisfies \<open>Q\<close>.\<close>

definition ok_post :: "('s \<Rightarrow> bool) \<Rightarrow> 's result \<Rightarrow> bool" where
  "ok_post Q r \<longleftrightarrow> (\<forall>s. r = ok s \<longrightarrow> Q s)"


lemma ok_post_simps [simp]:
  "ok_post Q None" "ok_post Q (Some (st, s)) \<longleftrightarrow> (st = kTfLiteOk \<longrightarrow> Q s)"
  by (auto simp: ok_post_def)

lemma ok_post_ensure_status:
  "ok_post P r \<Longrightarrow> (\<And>s. P s \<Longrightarrow> ok_post Q (k s)) \<Longrightarrow> ok_post Q (ensure_status r k)"
  by (simp add: ok_post_def ensure_status_ok_iff) blast



lemma ok_post_bind: "(\<And>x. v = Some x \<Longrightarrow> ok_post Q (f x)) \<Longrightarrow> ok_post Q (Option.bind v f)"
  by (cases v) auto

lemma ok_post_if: "(b \<Longrightarrow> ok_post Q r) \<Longrightarrow> (\<not> b \<Longrightarrow> ok_post Q r') \<Longrightarrow> ok_post Q (if b then r else r')"
  by simp


text \<open>
  A ghost mark on the world tells which nodes have been prepared: \<open>marked\<close> is any predicate that a
  successful \<^verbatim>\<open>prepare\<close> of node \<open>i\<close> makes true of \<open>i\<close>. Copies from a delegate's buffers, resets of variables
  and the preparation of other nodes keep the marks. So does \<^verbatim>\<open>invoke\<close>, except when it has resized a
  tensor and a dynamic output of its node: then the nodes that do not stand before it in the plan
  may lose theirs, since they were prepared for other shapes. No kernel changes a registration.
\<close>

abbreviation registrations :: "'w subgraph \<Rightarrow> registration list" where
  "registrations s \<equiv> map snd (nodes_and_registration s)"



definition marks_kept :: "(int \<Rightarrow> 'w \<Rightarrow> bool) \<Rightarrow> 'w subgraph \<Rightarrow> 'w subgraph \<Rightarrow> bool" where
  "marks_kept marked s s' \<longleftrightarrow> registrations s' = registrations s
     \<and> (\<forall>m. marked m (world s) \<longrightarrow> marked m (world s'))"



lemma marks_kept_refl [simp]: "marks_kept marked s s"
  by (simp add: marks_kept_def)


lemma marks_kept_same:
  "nodes_and_registration t' = nodes_and_registration t \<Longrightarrow> world t' = world t \<Longrightarrow>
   marks_kept marked s t' = marks_kept marked s t"
  by (simp add: marks_kept_def)

lemma marks_kept_updates [simp]:
  "marks_kept marked s (t\<lparr>state := st\<rparr>) = marks_kept marked s t"
  "marks_kept marked s (t\<lparr>memory_planner := p\<rparr>) = marks_kept marked s t"
  "marks_kept marked s (t\<lparr>has_dynamic_tensors := b\<rparr>) = marks_kept marked s t"
  "marks_kept marked s (t\<lparr>tensor_resized_since_op_invoke := b\<rparr>) = marks_kept marked s t"
  "marks_kept marked s (t\<lparr>next_to_prepare := k\<rparr>) = marks_kept marked s t"
  "marks_kept marked s (t\<lparr>next_to_plan := k\<rparr>) = marks_kept marked s t"
  "marks_kept marked s (t\<lparr>next_original_to_prepare := k\<rparr>) = marks_kept marked s t"
  "marks_kept marked s (set_tensor i x t) = marks_kept marked s t"
  "marks_kept marked s (EnsureTensorsVectorCapacity t) = marks_kept marked s t"
  by (rule marks_kept_same; simp add: set_tensor_def EnsureTensorsVectorCapacity_def Let_def)+

text \<open>Node \<open>i\<close> bears the mark if it has a \<^verbatim>\<open>prepare\<close> function.\<close>

definition has_mark :: "(int \<Rightarrow> 'w \<Rightarrow> bool) \<Rightarrow> 'w subgraph \<Rightarrow> int \<Rightarrow> bool" where
  "has_mark marked s i \<longleftrightarrow> (case vec_at (registrations s) i of None \<Rightarrow> True
     | Some r \<Rightarrow> op_prepare r = NullOp \<or> marked i (world s))"











text \<open>Every node that stands before the counter \<^verbatim>\<open>next_execution_plan_index_to_prepare_\<close> bears the mark.\<close>

definition prepared_below :: "(int \<Rightarrow> 'w \<Rightarrow> bool) \<Rightarrow> 'w subgraph \<Rightarrow> int \<Rightarrow> bool" where
  "prepared_below marked s n \<longleftrightarrow> (\<forall>j<length (execution_plan s). int j < n \<longrightarrow> has_mark marked s (execution_plan s ! j))"

lemma prepared_below_updates [simp]:
  "prepared_below marked (s\<lparr>state := st\<rparr>) n = prepared_below marked s n"
  "prepared_below marked (s\<lparr>next_to_prepare := a\<rparr>) n = prepared_below marked s n"
  "prepared_below marked (s\<lparr>next_to_prepare := a, next_to_plan := b\<rparr>) n = prepared_below marked s n"
  by (simp_all add: prepared_below_def has_mark_def cong: option.case_cong)



lemma original_bookkeeping:
  assumes "discreet E" "bookkeeping s = B"
  shows "keeps (\<lambda>s'. bookkeeping s' = B)
    (map_option (\<lambda>(st, last, s).
            (st, if st = kTfLiteOk then s\<lparr>next_original_to_prepare := last + 1\<rparr> else s))
      (PrepareOpsStartingAt E k plan (l, s)))"
  using PrepareOpsStartingAt_bookkeeping [OF assms(1), of "(l, s)" B k plan] assms(2)
  by (auto simp: keeps_def split: prod.splits)





lemma ResetVariableTensors_bookkeeping:
  "keeps (\<lambda>s'. bookkeeping s' = bookkeeping s) (ResetVariableTensors E s)"
  unfolding ResetVariableTensors_def by (rule keeps_for_each) (auto intro!: keeps)


text \<open>
  The same kernels, watched: undefined behaviour is the invocation of a node with a \<^verbatim>\<open>prepare\<close> function
  that does not bear the mark, one at no position of the plan before the two counters of what is
  prepared and planned, and one outside the kernel context.
\<close>

definition may_run :: "(int \<Rightarrow> 'w \<Rightarrow> bool) \<Rightarrow> int \<Rightarrow> 'w subgraph \<Rightarrow> bool" where
  "may_run marked node_index s \<longleftrightarrow> \<not> delegate_context s \<and> has_mark marked s node_index
     \<and> (\<exists>j<length (execution_plan s). execution_plan s ! j = node_index
          \<and> int j < next_to_prepare s \<and> int j < next_to_plan s)"

definition watch :: "(int \<Rightarrow> 'w \<Rightarrow> bool) \<Rightarrow> 'w env \<Rightarrow> 'w env" where
  "watch marked E =
     E\<lparr>invoke_kernel := (\<lambda>k i s. if may_run marked i s then invoke_kernel E k i s else None)\<rparr>"

lemma watch_simps [simp]:
  "prepare_kernel (watch marked E) = prepare_kernel E" "cancelled (watch marked E) = cancelled E"
  "delegate_flags (watch marked E) = delegate_flags E" "new_char (watch marked E) = new_char E"
  "copy_from_buffer_handle (watch marked E) = copy_from_buffer_handle E"
  by (simp_all add: watch_def)

lemma watch_prepare [simp]: "PrepareOpsAndTensors (watch marked E) = PrepareOpsAndTensors E"
proof -
  have 1: "OpPrepare (watch marked E) = OpPrepare E"
    by (intro ext) (simp add: OpPrepare_def)
  have "prepare_ops (watch marked E) plan k ls = prepare_ops E plan k ls" for plan k ls
    by (induction plan arbitrary: k ls) (simp_all add: 1 cong: if_cong)
  then have 2: "PrepareOpsStartingAt (watch marked E) = PrepareOpsStartingAt E"
    by (intro ext) (simp add: PrepareOpsStartingAt_def)
  have 3: "has_flag (watch marked E) = has_flag E"
    by (intro ext) (simp add: has_flag_def)
  show ?thesis
    by (intro ext) (unfold PrepareOpsAndTensors_def watch_simps 2 3, rule refl)
qed





lemma ensure_status_cong:
  "keeps P r \<Longrightarrow> (\<And>s. P s \<Longrightarrow> f s = g s) \<Longrightarrow> ensure_status r f = ensure_status r g"
  by (auto simp: keeps_def ensure_status_def split: option.splits)

lemma ensure_status_cong_ok:
  "ok_post P r \<Longrightarrow> (\<And>s. P s \<Longrightarrow> f s = g s) \<Longrightarrow> ensure_status r f = ensure_status r g"
  by (auto simp: ok_post_def ensure_status_def split: option.splits)











lemma idle_env_discreet: "discreet idle_env"
  by (simp add: discreet_def idle_env_def keeps_def)

text \<open>A graph of one node without tensors, allocated.\<close>

definition lone_node :: "unit subgraph" where
  "lone_node = (Subgraph [] ())\<lparr>nodes_and_registration := [(fst empty_node, example_registration)],
     execution_plan := [0]\<rparr>"

definition lone_allocated :: "unit subgraph" where
  "lone_allocated = snd (the (AllocateTensors idle_env (ModifyGraphWithDelegate idle_env call_depth) lone_node))"

lemmas allocate_eval = AllocateTensors_def lone_node_def Subgraph_def RedoAllDelegates_def
  PrepareOpsAndTensors_def ensure_planner_def InterpreterInfo_def PlanAllocations_def
  ResetAllocations_def Let_def ArenaPlanner_def SimpleMemoryArena_def ClearPlan_def vec_resize_def
  empty_node_def example_registration_def num_tensors_def plan_node_def PrepareOpsStartingAt_def vec
  in_bounds_def EnsureTensorsVectorCapacity_def OpPrepare_def call_op_def idle_env_def
  call_planner_def ExecuteAllocations_def execution_range_def num_execution_nodes_def
  CalculateAllocations_def CreateTensorAllocationVector_def PlannerCommit_def Commit_def
  RequiredBufferSize_def check_custom_allocations_def ResetVariableTensors_def AlignTo_def

lemma lone_allocated_ok:
  "AllocateTensors idle_env (ModifyGraphWithDelegate idle_env call_depth) lone_node = ok lone_allocated"
  by (simp add: lone_allocated_def, simp add: allocate_eval)











section \<open>Nested delegation ends\<close>

text \<open>
  \<^verbatim>\<open>ModifyGraphWithDelegate\<close> calls itself through \<^verbatim>\<open>RedoAllDelegates\<close> only, which clears
  \<^verbatim>\<open>delegates_undone_\<close> before its loop: once the flag is off, the argument \<open>modify\<close> is not used.
\<close>

lemma Redo_settled: "\<not> delegates_undone s \<Longrightarrow> RedoAllDelegates modify s = ok s"
  by (simp add: RedoAllDelegates_def)

lemma Allocate_settled:
  "\<not> delegates_undone s \<Longrightarrow> AllocateTensors E m s = AllocateTensors E m' s"
  by (simp add: AllocateTensors_def Redo_settled)

lemma EnsureMemory_settled:
  assumes "\<not> delegates_undone s"
  shows "EnsureMemoryAllocations E m s = EnsureMemoryAllocations E m' s"
proof -
  have "keeps (\<lambda>s. \<not> delegates_undone s) (case memory_planner s of
          None \<Rightarrow> ok s
        | Some p \<Rightarrow> do {
            let s = s\<lparr>state := kStateUninvokable\<rparr>;
            g \<leftarrow> InterpreterInfo s;
            (st, p) \<leftarrow> PlanAllocations g p;
            Some (st, s\<lparr>memory_planner := Some p\<rparr>) })"
    using assms by (auto simp: Let_def intro!: keeps)
  then show ?thesis
    unfolding EnsureMemoryAllocations_def
    by (rule ensure_status_cong) (simp add: Allocate_settled [of _ E m m'])
qed

lemma Remove_settled: "RemoveAllDelegates E m s = RemoveAllDelegates E m' s"
proof -
  have "EnsureMemoryAllocations E m (t\<lparr>delegates_applied := [], delegates_undone := False\<rparr>)
      = EnsureMemoryAllocations E m' (t\<lparr>delegates_applied := [], delegates_undone := False\<rparr>)" for t
    by (rule EnsureMemory_settled) simp
  then show ?thesis by (simp add: RemoveAllDelegates_def)
qed

lemma reset_settled: "reset_delegation_if_not_ok E m r = reset_delegation_if_not_ok E m' r"
  unfolding reset_delegation_if_not_ok_def Remove_settled [of E m _ m'] ..

abbreviation settled :: "'w subgraph \<Rightarrow> bool" where
  "settled s \<equiv> \<not> delegates_undone s"

text \<open>\<open>core\<close> is what the memory planning of a subgraph never changes, whatever its outcome.\<close>

definition core :: "'w subgraph \<Rightarrow> int list \<times> int list \<times> delegate_id list \<times> bool" where
  "core s = (execution_plan s, delegation s)"

lemma bookkeeping_core: "bookkeeping s = bookkeeping t \<Longrightarrow> core s = core t"
  by (simp add: bookkeeping_def core_def delegation_def)

lemma core_updates [simp]:
  "core (s\<lparr>next_to_prepare := k\<rparr>) = core s" "core (s\<lparr>next_to_plan := k\<rparr>) = core s"
  "core (s\<lparr>next_original_to_prepare := k\<rparr>) = core s" "core (s\<lparr>state := st\<rparr>) = core s"
  "core (s\<lparr>memory_planner := p\<rparr>) = core s"
  by (simp_all add: core_def delegation_def)

lemma core_settled: "core s = core t \<Longrightarrow> settled s = settled t"
  by (simp add: core_def delegation_def)

lemma PrepareOpsStartingAt_core:
  assumes "discreet E" "core s = C"
  shows "keeps (\<lambda>ls. core (snd ls) = C) (PrepareOpsStartingAt E k plan (l, s))"
  by (rule keeps_mono [OF PrepareOpsStartingAt_bookkeeping [OF assms(1) refl]])
    (use assms(2) in \<open>auto dest: bookkeeping_core\<close>)

lemma planner_core: "core s = C \<Longrightarrow> keeps (\<lambda>s. core s = C) (call_planner f s)"
  by (rule keeps_mono [OF call_planner_bookkeeping]) (auto dest: bookkeeping_core)

lemma PrepareOpsAndTensors_core:
  assumes E: "discreet E" and s: "core s = C"
  shows "keeps (\<lambda>s. core s = C) (PrepareOpsAndTensors E s)"
proof -
  let ?K = "keeps (\<lambda>s :: 'a subgraph. core s = C)"
  have custom: "keeps (\<lambda>s. core s = D) (check_custom_allocations t)" if "core t = D"
    for t :: "'a subgraph" and D
    by (rule keeps_mono [OF check_custom_allocations_bookkeeping [OF refl]])
      (use that in \<open>auto dest: bookkeeping_core\<close>)
  have orig: "?K (map_option (\<lambda>(st, last, s).
            (st, if st = kTfLiteOk then s\<lparr>next_original_to_prepare := last + 1\<rparr> else s))
      (PrepareOpsStartingAt E k plan (0, t)))" if "core t = C" for t k plan
    by (rule keeps_mono [OF original_bookkeeping [OF E refl]])
      (use that in \<open>auto dest: bookkeeping_core\<close>)
  have plan: "core t = C" if "ensure_planner s = Some t" for t
    using bookkeeping_core [OF ensure_planner_bookkeeping [OF that]] s by simp
  have rest: "?K (case x of (st, l, s) \<Rightarrow> if st \<noteq> kTfLiteOk then Some (st, s) else
        ensure_status (call_planner (ExecuteAllocations
          (new_char E (world (s\<lparr>next_to_prepare := l + 1\<rparr>)))
          (next_to_plan (s\<lparr>next_to_prepare := l + 1\<rparr>)) l) (s\<lparr>next_to_prepare := l + 1\<rparr>))
        (\<lambda>s. ensure_status (check_custom_allocations s) (\<lambda>s. ok (s\<lparr>next_to_plan := l + 1\<rparr>))))"
    if "core t = C" "PrepareOpsStartingAt E k p (0, t) = Some x" for t k p x
    using keepsD [OF PrepareOpsStartingAt_core [OF E that(1)], of k p 0] that(2)
    by (cases x) (auto intro!: keeps planner_core custom)
  show ?thesis
    unfolding PrepareOpsAndTensors_def Let_def
    by (intro keeps_bind keeps_ensure_status keeps_if keeps_Some orig; (erule plan | erule (1) rest))
qed

lemma ResetVariableTensors_core: "core s = C \<Longrightarrow> keeps (\<lambda>s. core s = C) (ResetVariableTensors E s)"
  by (rule keeps_mono [OF ResetVariableTensors_bookkeeping]) (auto dest: bookkeeping_core)

lemma Allocate_core:
  assumes E: "discreet E" and s: "settled s" "core s = C"
  shows "keeps (\<lambda>s. core s = C) (AllocateTensors E m s)"
  unfolding AllocateTensors_def Let_def Redo_settled [OF s(1)]
  using s(2)
  by (auto intro!: keeps planner_core PrepareOpsAndTensors_core [OF E]
      ResetVariableTensors_core split: prod.splits)

lemma EnsureMemory_core:
  assumes E: "discreet E" and s: "settled s" "core s = C"
  shows "keeps (\<lambda>s. core s = C) (EnsureMemoryAllocations E m s)"
proof -
  have "settled t" if "core t = C" for t :: "'a subgraph"
    using core_settled [of t s] that s by simp
  then show ?thesis
    unfolding EnsureMemoryAllocations_def Let_def
    using s(2) by (auto intro!: keeps Allocate_core [OF E])
qed

lemma EnsureMemory_keeps_settled:
  "discreet E \<Longrightarrow> settled s \<Longrightarrow> keeps settled (EnsureMemoryAllocations E m s)"
  by (rule keeps_mono [OF EnsureMemory_core [OF _ _ refl]]) (auto dest: core_settled)

lemma PrepareOpsStartingAt_settled:
  "discreet E \<Longrightarrow> settled s \<Longrightarrow> keeps (\<lambda>ls. settled (snd ls)) (PrepareOpsStartingAt E k plan (l, s))"
  by (rule keeps_mono [OF PrepareOpsStartingAt_core [OF _ refl]]) (auto dest: core_settled)

lemma reset_ok_post:
  "(\<And>s. r = ok s \<Longrightarrow> P s) \<Longrightarrow> ok_post P (reset_delegation_if_not_ok E m r)"
  by (auto simp: reset_delegation_if_not_ok_def ok_post_def ensure_status_ok_iff split: option.splits if_splits)

lemma check_static_settled:
  assumes E: "discreet E" and s: "settled s"
  shows "check_static_tensors E m s = check_static_tensors E m' s" "ok_post settled (check_static_tensors E m s)"
proof -
  note p = keepsD [OF PrepareOpsStartingAt_settled [OF E s]]
  show "check_static_tensors E m s = check_static_tensors E m' s"
    unfolding check_static_tensors_def
    by (rule Option.bind_cong [OF refl]) (auto simp: EnsureMemory_settled [of _ E m m'] dest: p)
  show "ok_post settled (check_static_tensors E m s)"
    unfolding check_static_tensors_def
    by (rule ok_post_bind) (auto dest: p simp: ok_post_def ensure_status_ok_iff split: if_splits)
qed

lemma apply_delegate_settled:
  assumes E: "discreet E" and s: "settled s"
  shows "apply_delegate E m d s = apply_delegate E m' d s" "ok_post settled (apply_delegate E m d s)"
proof -
  let ?pre = "\<lambda>s. if delegates_applied s = [] then s\<lparr>pre_delegation_plan := execution_plan s\<rparr> else s"
  let ?r = "\<lambda>s. map_option (map_prod id SwitchToKernelContext) (delegate_prepare E d (SwitchToDelegateContext (?pre s)))"
  let ?allow = "has_flag E d kTfLiteDelegateFlagsAllowDynamicTensors"
  have prep: "keeps settled (?r t)" if "settled t" for t
  proof (rule keepsI)
    fix st u assume u: "?r t = Some (st, u)"
    then obtain v where v: "delegate_prepare E d (SwitchToDelegateContext (?pre t)) = Some (st, v)"
      and "u = SwitchToKernelContext v" by auto
    moreover have "delegation v = delegation (SwitchToDelegateContext (?pre t))"
      using keepsD [OF discreetD(5) [OF E refl] v] .
    ultimately show "settled u"
      using that by (simp add: delegation_def SwitchToDelegateContext_def SwitchToKernelContext_def
          FreeDelegatePartitioningData_def split: if_splits)
  qed
  have static: "ok_post settled (if \<not> ?allow then check_static_tensors E m s else ok s)"
    using check_static_settled(2) [OF E s] s by simp
  have prepared: "ok_post settled (reset_delegation_if_not_ok E m (?r t))" if "settled t" for t
    by (rule reset_ok_post) (rule keepsD [OF prep [OF that]])
  define fin where "fin m w t = ensure_status
               (if \<not> ?allow then
                  ensure_status
                    (reset_delegation_if_not_ok E m
                       (EnsureMemoryAllocations E m (t\<lparr>state := kStateUninvokable\<rparr>)))
                    (\<lambda>s. ok (s\<lparr>state := kStateInvokableAndImmutable\<rparr>))
                else if w then
                  reset_delegation_if_not_ok E m (EnsureMemoryAllocations E m t)
                else ok t)
             (\<lambda>s. ok (s\<lparr>delegates_applied := delegates_applied s @ [d]\<rparr>))" for m w t
  define tail where "tail m t = ensure_status (reset_delegation_if_not_ok E m (?r t))
      (fin m (state t = kStateInvokable))" for m t
  have split: "apply_delegate E m d s = (if state s = kStateInvokableAndImmutable
      then Some (kTfLiteApplicationError, s)
      else ensure_status (if \<not> ?allow then check_static_tensors E m s else ok s) (tail m))" for m
    unfolding apply_delegate_def Let_def tail_def [abs_def] fin_def [abs_def] ..
  have fin: "fin m w t = fin m' w t" "ok_post settled (fin m w t)" if "settled t" for w t
  proof -
    have mem: "EnsureMemoryAllocations E m (t\<lparr>state := st\<rparr>) = EnsureMemoryAllocations E m' (t\<lparr>state := st\<rparr>)"
      "EnsureMemoryAllocations E m t = EnsureMemoryAllocations E m' t" for st
      using EnsureMemory_settled [of t E m m'] EnsureMemory_settled [of "t\<lparr>state := st\<rparr>" E m m'] that
      by simp_all
    show "fin m w t = fin m' w t"
      unfolding fin_def mem reset_settled [of E m _ m'] ..
    have post: "ok_post settled (reset_delegation_if_not_ok E m (EnsureMemoryAllocations E m u))"
      if "settled u" for u
      by (rule reset_ok_post) (rule keepsD [OF EnsureMemory_keeps_settled [OF E that]])
    show "ok_post settled (fin m w t)"
      unfolding fin_def
      by (rule ok_post_ensure_status [of settled];
          (intro ok_post_if ok_post_ensure_status [of settled] post)?) (use that in auto)
  qed
  have tail: "tail m t = tail m' t" "ok_post settled (tail m t)" if "settled t" for t
    unfolding tail_def
    using ensure_status_cong_ok [OF prepared [OF that], of "fin m (state t = kStateInvokable)"
        "fin m' (state t = kStateInvokable)"] ok_post_ensure_status [OF prepared [OF that]] fin
    by (simp_all add: reset_settled [of E m _ m'])
  show "apply_delegate E m d s = apply_delegate E m' d s"
    unfolding split check_static_settled(1) [OF E s, of m m']
    using ensure_status_cong_ok [OF static [unfolded check_static_settled(1) [OF E s, of m m']], of "tail m" "tail m'"]
      tail(1) by simp
  show "ok_post settled (apply_delegate E m d s)"
    unfolding split using ok_post_ensure_status [OF static tail(2)] by simp
qed

lemma ModifyGraph_fun:
  "ModifyGraphWithDelegate E (Suc n) = modify_with_delegate E (ModifyGraphWithDelegate E n)"
  by (intro ext) simp

lemma ModifyGraph_two:
  "ModifyGraphWithDelegate E call_depth
     = modify_with_delegate E (modify_with_delegate E (ModifyGraphWithDelegate E 0))"
  by (simp add: numeral_2_eq_2 ModifyGraph_fun)

lemma Modify_settled:
  assumes E: "discreet E" and s: "settled s"
  shows "modify_with_delegate E m d s = modify_with_delegate E m' d s"
    "ok_post settled (modify_with_delegate E m d s)"
  using apply_delegate_settled [OF E s] by (simp_all add: modify_with_delegate_def Redo_settled [OF s])

lemma Redo_loop:
  assumes E: "discreet E"
  shows "settled s \<Longrightarrow> for_each (modify_with_delegate E m) ds s = for_each (modify_with_delegate E m') ds s
    \<and> ok_post settled (for_each (modify_with_delegate E m) ds s)"
proof (induction ds arbitrary: s)
  case (Cons d ds)
  note step = Modify_settled [OF E Cons.prems, of m d] 
  have "for_each (modify_with_delegate E m) (d # ds) s
      = ensure_status (modify_with_delegate E m d s) (for_each (modify_with_delegate E m') ds)"
    using ensure_status_cong_ok [OF step(2)] Cons.IH by fastforce
  moreover have "ok_post settled (for_each (modify_with_delegate E m) (d # ds) s)"
    unfolding for_each.simps
    by (rule ok_post_ensure_status [OF step(2)]) (use Cons.IH in blast)
  ultimately show ?case
    using step(1) [of m'] by simp
qed simp

text \<open>
  C12: the mutual recursion of delegation ends: no call of \<^verbatim>\<open>ModifyGraphWithDelegate\<close> nests another
  more than one level deep. With the calls beyond that level replaced by anything else, the outcome
  is the same, in every state; so the depth of two that the model allows is never exhausted.
\<close>

theorem delegation_nests_once:
  assumes "discreet E"
  shows "ModifyGraphWithDelegate E call_depth d s = modify_with_delegate E (modify_with_delegate E m) d s"
proof -
  let ?m = "\<lambda>m. modify_with_delegate E m"
  let ?t = "s\<lparr>delegates_undone := False, delegates_applied := []\<rparr>"
  have t: "settled ?t" by simp
  have loop: "for_each (?m m) ds ?t = for_each (?m m') ds ?t" "ok_post settled (for_each (?m m) ds ?t)" for m m' ds
    using Redo_loop [OF assms t, of m ds m', THEN conjunct1] Redo_loop [OF assms t, of m ds m, THEN conjunct2]
    by this
  have redo: "RedoAllDelegates (?m m) s = RedoAllDelegates (?m m') s"
    "ok_post settled (RedoAllDelegates (?m m) s)" for m m'
    using loop [of m "delegates_applied s"] unfolding RedoAllDelegates_def by auto
  have "modify_with_delegate E (?m m) d s = modify_with_delegate E (?m m') d s" for m m'
    unfolding modify_with_delegate_def [of E "?m m"] modify_with_delegate_def [of E "?m m'"] redo(1) [of m m']
    by (rule ensure_status_cong_ok [OF redo(2)]) (rule apply_delegate_settled(1) [OF assms])
  moreover have "ModifyGraphWithDelegate E call_depth d s
      = modify_with_delegate E (?m (ModifyGraphWithDelegate E 0)) d s"
    by (simp add: ModifyGraph_two)
  ultimately show ?thesis by simp
qed

theorem delegation_nests_once_witness:
  "discreet idle_env \<and> ModifyGraphWithDelegate idle_env call_depth 0 lone_node
     = modify_with_delegate idle_env (modify_with_delegate idle_env (\<lambda>d s. Some (kTfLiteError, s))) 0 lone_node"
  using idle_env_discreet delegation_nests_once [OF idle_env_discreet] by blast

section \<open>A delegate that fails\<close>

text \<open>\<open>plain r\<close>: the status is \<^verbatim>\<open>kTfLiteOk\<close> or \<^verbatim>\<open>kTfLiteError\<close>, as of everything but delegation.\<close>

named_theorems plain "statements that report errors as kTfLiteError"

definition plain :: "'s result \<Rightarrow> bool" where
  "plain r \<longleftrightarrow> (\<forall>st s. r = Some (st, s) \<longrightarrow> st = kTfLiteOk \<or> st = kTfLiteError)"

lemma plain_simps [plain]:
  "plain None" "st = kTfLiteOk \<or> st = kTfLiteError \<Longrightarrow> plain (Some (st, s))"
  by (auto simp: plain_def)

lemma plain_ensure_status [plain]:
  "plain r \<Longrightarrow> (\<And>s. plain (k s)) \<Longrightarrow> plain (ensure_status r k)"
  by (auto simp: plain_def ensure_status_def split: option.splits if_splits)

lemma plain_ensure [plain]: "plain r \<Longrightarrow> plain (ensure b s r)"
  by (auto simp: plain_def ensure_def)

lemma plain_if [plain]: "plain r \<Longrightarrow> plain r' \<Longrightarrow> plain (if b then r else r')"
  by simp

lemma plain_for_each [plain]: "(\<And>x s. plain (f x s)) \<Longrightarrow> plain (for_each f xs s)"
  by (induction xs arbitrary: s) (auto intro: plain)

lemma plain_bind [plain]: "(\<And>x. v = Some x \<Longrightarrow> plain (f x)) \<Longrightarrow> plain (Option.bind v f)"
  by (cases v) (auto simp: plain_def)

lemma plain_option [plain]:
  "plain r \<Longrightarrow> (\<And>x. plain (f x)) \<Longrightarrow> plain (case v of None \<Rightarrow> r | Some x \<Rightarrow> f x)"
  by (cases v) auto

lemma plain_map [plain]: "plain r \<Longrightarrow> plain (map_option (map_prod id f) r)"
  by (auto simp: plain_def)

lemma plain_map_status: "plain r \<Longrightarrow> plain (map_option (\<lambda>(st, l, s). (st, g st l s)) r)"
  by (auto simp: plain_def)

lemma plain_forget [plain]: "plain (map_option (\<lambda>(_, s). (kTfLiteOk, s)) r)"
  by (auto simp: plain_def)

lemma planner_plain [plain]:
  "plain (add_refcount d t x)" "plain (allocate n t x)" "plain (deallocate n t x)"
  "plain (assign_temporary n t p)" "plain (deallocate_tensor g t p)" "plain (allocate_tensor g t p)"
  "plain (Some (PlannerCommit heap p))" "plain (ResolveTensorAllocation i gp)"
  by (auto simp: plain_def add_refcount_def allocate_def deallocate_def assign_temporary_def
      deallocate_tensor_def allocate_tensor_def Deallocate_def Allocate_def PlannerCommit_def Commit_def
      ResolveTensorAllocation_def ResolveAlloc_def Let_def split: option.splits if_splits prod.splits)

lemma PlanAllocations_plain [plain]: "plain (PlanAllocations g p)"
  unfolding PlanAllocations_def Let_def
  by (auto simp: ResetAllocations_def ClearPlan_def Let_def plan_graph_input_def allocate_if_present_def
      count_input_def plan_node_def release_input_def intro!: plain split: prod.splits)

lemma ExecuteAllocations_plain [plain]: "plain (ExecuteAllocations heap first_node last_node gp)"
  unfolding ExecuteAllocations_def Let_def CalculateAllocations_def
  by (auto intro!: plain split: prod.splits)

lemma prepare_ops_plain [plain]: "plain (prepare_ops E plan k ls)"
  by (induction plan arbitrary: k ls) (auto simp: Let_def intro!: plain split: prod.splits)

lemma memory_plain [plain]:
  "plain (PrepareOpsStartingAt E k plan ls)" "plain (check_custom_allocations s)"
  "plain (call_planner (ExecuteAllocations heap i j) s)"
proof -
  show "plain (PrepareOpsStartingAt E k plan ls)"
    by (auto simp: PrepareOpsStartingAt_def Let_def intro!: plain)
  have "ValidateCustomAllocationForTensor t a = kTfLiteOk
      \<or> ValidateCustomAllocationForTensor t a = kTfLiteError" for t a
    by (simp add: ValidateCustomAllocationForTensor_def)
  then show "plain (check_custom_allocations s)"
    by (auto simp: check_custom_allocations_def intro!: plain split: prod.splits)
  have "st = kTfLiteOk \<or> st = kTfLiteError" if "ExecuteAllocations heap i j gp = Some (st, x)" for st x gp
    using ExecuteAllocations_plain [of heap i j gp] that by (auto simp: plain_def)
  then show "plain (call_planner (ExecuteAllocations heap i j) s)"
    by (auto simp: call_planner_def plain_def split: option.splits bind_splits)
qed

lemma PrepareOpsAndTensors_plain [plain]: "plain (PrepareOpsAndTensors E s)"
proof -
  have "plain (case x of (st, l, t) \<Rightarrow> if st \<noteq> kTfLiteOk then Some (st, t) else
        ensure_status (call_planner (ExecuteAllocations
          (new_char E (world (t\<lparr>next_to_prepare := l + 1\<rparr>)))
          (next_to_plan (t\<lparr>next_to_prepare := l + 1\<rparr>)) l) (t\<lparr>next_to_prepare := l + 1\<rparr>))
        (\<lambda>s. ensure_status (check_custom_allocations s) (\<lambda>s. ok (s\<lparr>next_to_plan := l + 1\<rparr>))))"
    if "PrepareOpsStartingAt E k p (0, u) = Some x" for x k p u
    using memory_plain(1) [of E k p "(0, u)"] that
    by (cases x) (auto intro!: plain simp: plain_def [of "Some _"])
  then show ?thesis
    unfolding PrepareOpsAndTensors_def Let_def
    by (intro plain_bind plain_ensure_status plain_if plain_map_status memory_plain; (blast | simp add: plain_def))
qed

lemma AllocateTensors_plain: "settled s \<Longrightarrow> plain (AllocateTensors E m s)"
  unfolding AllocateTensors_def Let_def
  by (auto simp: Redo_settled ResetAllocations_def ClearPlan_def Let_def intro!: plain split: prod.splits)

lemma plain_ensure_settled:
  assumes "plain r" "keeps settled r" "\<And>s. settled s \<Longrightarrow> plain (f s)"
  shows "plain (ensure_status r f)"
proof (cases r)
  case (Some x)
  obtain st t where x: "x = (st, t)" by fastforce
  then show ?thesis
    using assms(1) assms(3) [OF keepsD [OF assms(2)], of st t] Some
    by (cases "st = kTfLiteOk") (auto simp: plain_def)
qed (simp add: plain)

lemma PlanAllocations_status:
  "PlanAllocations g p = Some (st, q) \<Longrightarrow> st = kTfLiteOk \<or> st = kTfLiteError"
  using PlanAllocations_plain by (auto simp: plain_def)

lemma EnsureMemory_plain:
  assumes "settled s" shows "plain (EnsureMemoryAllocations E m s)"
  unfolding EnsureMemoryAllocations_def Let_def
proof (rule plain_ensure_settled)
  show "plain (case memory_planner s of None \<Rightarrow> ok s
        | Some p \<Rightarrow> do {
            g \<leftarrow> InterpreterInfo (s\<lparr>state := kStateUninvokable\<rparr>);
            (st, p) \<leftarrow> PlanAllocations g p;
            Some (st, s\<lparr>state := kStateUninvokable, memory_planner := Some p\<rparr>) })"
    by (auto intro!: plain dest: PlanAllocations_status)
qed (use assms in \<open>auto intro!: plain keeps AllocateTensors_plain\<close>)

lemma update_node_bookkeeping: "update_node i f s = Some t \<Longrightarrow> bookkeeping t = bookkeeping s"
  by (auto simp: update_node_def split: option.splits)

lemma cleanup_bookkeeping:
  assumes "discreet E" "cleanup_delegate_node E i s = Some (st, t)"
  shows "st = kTfLiteOk \<and> bookkeeping t = bookkeeping s"
  using assms
  by (auto simp: cleanup_delegate_node_def CleanupNode_def split: bind_splits if_splits
      dest!: OpFree_bookkeeping [OF assms(1)] update_node_bookkeeping)

lemma remap_bookkeeping:
  "remap_node m i s = Some (st, t) \<Longrightarrow> st = kTfLiteOk \<and> bookkeeping t = bookkeeping s"
  by (auto simp: remap_node_def split: bind_splits if_splits dest!: update_node_bookkeeping)

lemma for_each_bookkeeping:
  assumes "for_each f xs s = Some (st, t)"
    and "\<And>x s st t. f x s = Some (st, t) \<Longrightarrow> st = kTfLiteOk \<and> bookkeeping t = bookkeeping s"
  shows "st = kTfLiteOk \<and> bookkeeping t = bookkeeping s"
  using assms(1)
proof (induction xs arbitrary: s)
  case (Cons x xs)
  obtain st1 s1 where "f x s = Some (st1, s1)"
    using Cons.prems by (cases "f x s") auto
  then show ?case
    using assms(2) [of x s st1 s1] Cons by auto
qed simp

lemma UndoAllDelegates_restores:
  assumes E: "discreet E" and pre: "pre_delegation_plan s \<noteq> []"
    and u: "UndoAllDelegates E s = Some (st, t)"
  shows "st = kTfLiteOk" "execution_plan t = pre_delegation_plan s" "pre_delegation_plan t = []"
proof -
  obtain st1 s1 where s1: "for_each (cleanup_delegate_node E) (execution_plan s) s = Some (st1, s1)"
    using u pre by (auto simp: UndoAllDelegates_def ensure_status_def split: option.splits)
  have b1: "st1 = kTfLiteOk \<and> bookkeeping s1 = bookkeeping s"
    by (rule for_each_bookkeeping [OF s1]) (rule cleanup_bookkeeping [OF E])
  let ?s2 = "s1\<lparr>execution_plan := pre_delegation_plan s1, pre_delegation_plan := []\<rparr>"
  obtain m st3 s3 where m: "for_each (remap_node m) (pre_delegation_plan s1) ?s2 = Some (st3, s3)"
    and t: "ensure_status (Some (st3, s3)) (\<lambda>s. ok (s\<lparr>nodes_and_registration :=
         vec_resize (nodes_and_registration s) (nat (fold max (pre_delegation_plan s1) 0 + 1)) empty_node,
         state := kStateUninvokable, delegates_undone := True\<rparr>)) = Some (st, t)"
    using u pre s1 b1
    by (auto simp: UndoAllDelegates_def Let_def split: bind_splits)
      (auto simp: ensure_status_def split: option.splits)
  have "st3 = kTfLiteOk \<and> bookkeeping s3 = bookkeeping ?s2"
    by (rule for_each_bookkeeping [OF m]) (rule remap_bookkeeping)
  then show "st = kTfLiteOk" "execution_plan t = pre_delegation_plan s" "pre_delegation_plan t = []"
    using t b1 by (auto simp: bookkeeping_def)
qed

lemma EnsureMemory_invokable: "EnsureMemoryAllocations E m s = ok t \<Longrightarrow> state t = kStateInvokable"
  by (auto simp: EnsureMemoryAllocations_def ensure_status_ok_iff ensure_def split: if_splits)

text \<open>What a subgraph looks like after its delegates were removed because one failed.\<close>

definition restored :: "int list \<Rightarrow> 'w subgraph \<Rightarrow> bool" where
  "restored plan t \<longleftrightarrow> execution_plan t = plan \<and> pre_delegation_plan t = []
     \<and> delegates_applied t = [] \<and> settled t \<and> state t = kStateInvokable"

lemma RemoveAllDelegates_restores:
  assumes E: "discreet E" and pre: "pre_delegation_plan s \<noteq> []"
    and r: "RemoveAllDelegates E m s = ok t"
  shows "restored (pre_delegation_plan s) t"
proof -
  obtain u where u: "UndoAllDelegates E s = ok u"
    and mem: "EnsureMemoryAllocations E m (u\<lparr>delegates_applied := [], delegates_undone := False\<rparr>) = ok t"
    using r by (auto simp: RemoveAllDelegates_def ensure_status_ok_iff)
  let ?u = "u\<lparr>delegates_applied := [], delegates_undone := False\<rparr>"
  have "core t = core ?u"
    by (rule keepsD [OF EnsureMemory_core [OF E _ refl] mem]) simp
  then show ?thesis
    using UndoAllDelegates_restores [OF E pre u] EnsureMemory_invokable [OF mem]
    by (simp add: restored_def core_def delegation_def)
qed

lemma reset_delegation_error:
  assumes E: "discreet E"
    and r: "reset_delegation_if_not_ok E m r = Some (kTfLiteDelegateError, t)"
    and pre: "keeps (\<lambda>u. pre_delegation_plan u = plan) r" "plan \<noteq> []"
  shows "restored plan t"
proof -
  obtain st u where u: "r = Some (st, u)" "st \<noteq> kTfLiteOk"
    and rem: "ensure_status (RemoveAllDelegates E m u) (\<lambda>s. Some (kTfLiteDelegateError, s))
        = Some (kTfLiteDelegateError, t)"
    using r by (auto simp: reset_delegation_if_not_ok_def split: option.splits if_splits)
  have plan: "pre_delegation_plan u = plan"
    using keepsD [OF pre(1) u(1)] .
  obtain v where v: "UndoAllDelegates E u = ok v"
    using rem pre(2) plan UndoAllDelegates_restores(1) [OF E, of u]
    by (cases "UndoAllDelegates E u") (auto simp: RemoveAllDelegates_def)
  have "plain (RemoveAllDelegates E m u)"
    unfolding RemoveAllDelegates_def v by (simp add: EnsureMemory_plain)
  then obtain w where "RemoveAllDelegates E m u = ok w" "w = t"
    using rem by (cases "RemoveAllDelegates E m u") (auto simp: plain_def split: if_splits)
  then show ?thesis
    using RemoveAllDelegates_restores [OF E] plan pre(2) by blast
qed

lemma reset_delegation_status:
  assumes "reset_delegation_if_not_ok E m r = ok t" shows "r = ok t"
  using assms by (auto simp: reset_delegation_if_not_ok_def ensure_status_ok_iff ensure_status_def
      split: option.splits if_splits)

lemma check_static_outcome:
  assumes E: "discreet E" and s: "settled s"
    and c: "check_static_tensors E m s = Some (st, t)"
  shows "st \<noteq> kTfLiteDelegateError" "st = kTfLiteOk \<Longrightarrow> core t = core s"
proof -
  obtain st1 l u where u: "PrepareOpsStartingAt E 0 (execution_plan s) (0, s) = Some (st1, l, u)"
    and r: "(if st1 \<noteq> kTfLiteOk then Some (st1, u)
       else if has_dynamic_tensors u
       then ensure_status (EnsureMemoryAllocations E m u) (\<lambda>s. Some (kTfLiteApplicationError, s))
       else ok u) = Some (st, t)"
    using c by (auto simp: check_static_tensors_def split: bind_splits prod.splits)
  have core: "core u = core s"
    using keepsD [OF PrepareOpsStartingAt_core [OF E refl] u] by simp
  have "plain (EnsureMemoryAllocations E m u)"
    using EnsureMemory_plain core_settled [OF core] s by blast
  moreover have "st1 = kTfLiteOk \<or> st1 = kTfLiteError"
    using memory_plain(1) [of E 0 "execution_plan s" "(0, s)"] u by (simp add: plain_def)
  ultimately show "st \<noteq> kTfLiteDelegateError" "st = kTfLiteOk \<Longrightarrow> core t = core s"
    using r core
    by (auto simp: plain_def ensure_status_def split: if_splits option.splits)
qed

lemma apply_delegate_error:
  assumes E: "discreet E" and s: "settled s"
    and plan: "plan = (if delegates_applied s = [] then execution_plan s else pre_delegation_plan s)" "plan \<noteq> []"
    and r: "apply_delegate E m d s = Some (kTfLiteDelegateError, t)"
  shows "restored plan t"
proof -
  let ?pre = "\<lambda>s. if delegates_applied s = [] then s\<lparr>pre_delegation_plan := execution_plan s\<rparr> else s"
  let ?r = "\<lambda>s. map_option (map_prod id SwitchToKernelContext) (delegate_prepare E d (SwitchToDelegateContext (?pre s)))"
  let ?allow = "has_flag E d kTfLiteDelegateFlagsAllowDynamicTensors"
  let ?static = "if \<not> ?allow then check_static_tensors E m s else ok s"
  obtain u where u: "?static = ok u" and cu: "core u = core s"
    and r': "ensure_status (reset_delegation_if_not_ok E m (?r u)) (\<lambda>s. ensure_status
               (if \<not> ?allow then
                  ensure_status (reset_delegation_if_not_ok E m
                       (EnsureMemoryAllocations E m (s\<lparr>state := kStateUninvokable\<rparr>)))
                    (\<lambda>s. ok (s\<lparr>state := kStateInvokableAndImmutable\<rparr>))
                else if state u = kStateInvokable then
                  reset_delegation_if_not_ok E m (EnsureMemoryAllocations E m s)
                else ok s)
             (\<lambda>s. ok (s\<lparr>delegates_applied := delegates_applied s @ [d]\<rparr>))) = Some (kTfLiteDelegateError, t)"
  proof (cases "?static")
    case (Some x)
    obtain st v where x: "x = (st, v)" by fastforce
    then have st: "st = kTfLiteOk"
      using r Some check_static_outcome(1) [OF E s, of m st v]
      by (auto simp: apply_delegate_def Let_def split: if_splits)
    show ?thesis
      by (rule that [of v]) (use r Some x st check_static_outcome(2) [OF E s, of m st v] in
          \<open>auto simp: apply_delegate_def Let_def split: if_splits\<close>)
  qed (use r in \<open>auto simp: apply_delegate_def Let_def split: if_splits\<close>)
  have prep: "keeps (\<lambda>v. pre_delegation_plan v = plan \<and> settled v) (?r u)"
  proof (rule keepsI)
    fix st v assume v: "?r u = Some (st, v)"
    then obtain w where w: "delegate_prepare E d (SwitchToDelegateContext (?pre u)) = Some (st, w)"
      and "v = SwitchToKernelContext w" by auto
    moreover have "delegation w = delegation (SwitchToDelegateContext (?pre u))"
      using keepsD [OF discreetD(5) [OF E refl] w] .
    ultimately show "pre_delegation_plan v = plan \<and> settled v"
      using plan(1) s cu
      by (auto simp: delegation_def core_def SwitchToDelegateContext_def SwitchToKernelContext_def
          FreeDelegatePartitioningData_def split: if_splits)
  qed
  show ?thesis
  proof (cases "reset_delegation_if_not_ok E m (?r u)")
    case (Some x)
    obtain st v where x: "x = (st, v)" by fastforce
    show ?thesis
    proof (cases "st = kTfLiteOk")
      case True
      have v: "?r u = ok v"
        by (rule reset_delegation_status [of E m]) (use Some x True in simp)
      have mem: "restored plan t"
        if "reset_delegation_if_not_ok E m (EnsureMemoryAllocations E m w) = Some (kTfLiteDelegateError, t)"
          "core w = core v" for w
      proof (rule reset_delegation_error [OF E that(1) _ plan(2)])
        have "settled w" "pre_delegation_plan w = plan"
          using keepsD [OF prep v] that(2) by (auto simp: core_def delegation_def)
        then show "keeps (\<lambda>u. pre_delegation_plan u = plan) (EnsureMemoryAllocations E m w)"
          using EnsureMemory_core [OF E, of w _ m, OF _ refl]
          by (auto simp: keeps_def core_def delegation_def)
      qed
      from r' show ?thesis
        using Some x True mem [of "v\<lparr>state := kStateUninvokable\<rparr>"] mem [of v]
        by (auto simp: ensure_status_def split: if_splits option.splits)
    next
      case False
      then have "reset_delegation_if_not_ok E m (?r u) = Some (kTfLiteDelegateError, t)"
        using r' Some x by auto
      then show ?thesis
        by (rule reset_delegation_error [OF E _ _ plan(2)]) (rule keeps_mono [OF prep], simp)
    qed
  qed (use r' in simp)
qed

text \<open>
  C13: \<^verbatim>\<open>ModifyGraphWithDelegate\<close> returns \<^verbatim>\<open>kTfLiteDelegateError\<close> only after it has restored the
  graph: the execution plan is the one before any delegate was applied, no delegate is left and the
  graph can be invoked.
\<close>

theorem delegate_error_restores:
  assumes "discreet E" "\<not> delegates_undone s"
    and "plan = (if delegates_applied s = [] then execution_plan s else pre_delegation_plan s)"
    and "plan \<noteq> []"
    and "ModifyGraphWithDelegate E call_depth d s = Some (kTfLiteDelegateError, t)"
  shows "execution_plan t = plan \<and> pre_delegation_plan t = [] \<and> delegates_applied t = []
    \<and> \<not> delegates_undone t \<and> state t = kStateInvokable"
  using apply_delegate_error [OF assms(1-4)] assms(5)
  by (simp add: ModifyGraph_two modify_with_delegate_def Redo_settled [OF assms(2)] restored_def)

definition failing_env :: "unit env" where
  "failing_env = idle_env\<lparr>delegate_flags := (\<lambda>d. 1), delegate_prepare := (\<lambda>d s. Some (kTfLiteError, s))\<rparr>"

lemma failing_env_discreet: "discreet failing_env"
  by (simp add: discreet_def failing_env_def idle_env_def keeps_def)

lemma failing_env_outcome:
  "\<exists>t. ModifyGraphWithDelegate failing_env call_depth 0 lone_node = Some (kTfLiteDelegateError, t)"
  by (simp add: ModifyGraph_two modify_with_delegate_def apply_delegate_def reset_delegation_if_not_ok_def
      RemoveAllDelegates_def UndoAllDelegates_def EnsureMemoryAllocations_def cleanup_delegate_node_def
      remap_node_def update_node_def failing_env_def SwitchToDelegateContext_def SwitchToKernelContext_def
      FreeDelegatePartitioningData_def has_flag_def kTfLiteDelegateFlagsAllowDynamicTensors_def
      ensure_def allocate_eval)

theorem delegate_error_restores_witness:
  "\<exists>t. ModifyGraphWithDelegate failing_env call_depth 0 lone_node = Some (kTfLiteDelegateError, t)
     \<and> execution_plan t = [0] \<and> state t = kStateInvokable"
proof -
  obtain t where t: "ModifyGraphWithDelegate failing_env call_depth 0 lone_node = Some (kTfLiteDelegateError, t)"
    using failing_env_outcome by blast
  have "execution_plan lone_node = [0]" "delegates_applied lone_node = []" "\<not> delegates_undone lone_node"
    by (simp_all add: lone_node_def Subgraph_def)
  then show ?thesis
    using delegate_error_restores [OF failing_env_discreet _ _ _ t, of "[0]"] t by auto
qed

end
