(* ===== verification/String_Buffer.thy ===== *)
theory String_Buffer
  imports Tensors
begin

unbundle bit_operations_syntax

text \<open>
  \<^verbatim>\<open>tensorflow/lite/string_util.{h,cc}\<close>: the layout of string tensors.

  A \<^verbatim>\<open>StringRef\<close> is the list of its bytes. The offsets are 32-bit words; a copy that would leave
  its vector or its block is \<^term>\<open>None\<close>, and so is a vector larger than \<^verbatim>\<open>max_size()\<close>.
  Integers are stored in little-endian order, as on every platform the library runs on.
\<close>

section \<open>Bytes\<close>

definition le_bytes :: "32 word \<Rightarrow> 8 word list" where
  "le_bytes w = map (\<lambda>i. ucast (drop_bit (8 * i) w)) [0..<4]"

definition le_word :: "8 word list \<Rightarrow> 32 word" where
  "le_word bs = foldr (\<lambda>b w. ucast b OR push_bit 8 w) bs 0"

definition put_bytes :: "8 word list \<Rightarrow> int \<Rightarrow> 8 word list \<Rightarrow> 8 word list option" where
  "put_bytes dst at src =
     (if 0 \<le> at \<and> nat at + length src \<le> length dst
      then Some (take (nat at) dst @ src @ drop (nat at + length src) dst) else None)"

definition read_int :: "8 word list \<Rightarrow> int \<Rightarrow> int option" where
  "read_int raw at =
     (if 0 \<le> at \<and> nat at + 4 \<le> length raw then Some (sint (le_word (take 4 (drop (nat at) raw))))
      else None)"

section \<open>The buffer\<close>

record dynamic_buffer =
  db_data :: "8 word list"
  db_offset :: "32 word list"

definition DynamicBuffer :: dynamic_buffer where
  "DynamicBuffer = \<lparr>db_data = [], db_offset = [0]\<rparr>"

definition resize_bytes :: "8 word list \<Rightarrow> int \<Rightarrow> 8 word list option" where
  "resize_bytes xs n = (let n = n mod 2 ^ 64 in
     if n < 2 ^ 63 then Some (vec_resize xs (nat n) 0) else None)"

definition AddString :: "8 word list \<Rightarrow> dynamic_buffer \<Rightarrow> dynamic_buffer option" where
  "AddString str b = (let back = last (db_offset b) in
     Option.bind (resize_bytes (db_data b) (int (length (db_data b)) + int (length str))) (\<lambda>data.
     Option.bind (put_bytes data (sint back) str) (\<lambda>data.
     Some \<lparr>db_data = data, db_offset = db_offset b @ [back + of_nat (length str)]\<rparr>)))"

text \<open>The loop of \<^verbatim>\<open>AddJoinedString\<close>; the pointer \<open>dst\<close> is an index into the data.\<close>

primrec copy_joined ::
  "8 word list \<Rightarrow> 8 word list list \<Rightarrow> bool \<Rightarrow> int \<Rightarrow> 8 word list \<Rightarrow> 8 word list option" where
  "copy_joined separator [] first dst data = Some data"
| "copy_joined separator (s # ss) first dst data =
     (if first then Option.bind (put_bytes data dst s)
                      (copy_joined separator ss False (dst + int (length s)))
      else Option.bind (put_bytes data dst separator) (\<lambda>data.
           Option.bind (put_bytes data (dst + int (length separator)) s)
             (copy_joined separator ss False (dst + int (length separator) + int (length s)))))"

definition AddJoinedString ::
  "8 word list list \<Rightarrow> 8 word list \<Rightarrow> dynamic_buffer \<Rightarrow> dynamic_buffer option" where
  "AddJoinedString strings separator b =
     (let total_len = ucast ((of_nat (length strings) - 1) * of_nat (length separator) :: 64 word) :: 32 word;
          total_len = foldl (\<lambda>n s. n + of_nat (length s)) total_len strings;
          back = last (db_offset b)
      in Option.bind (resize_bytes (db_data b) (int (length (db_data b)) + sint total_len)) (\<lambda>data.
         Option.bind (copy_joined separator strings True (sint back) data) (\<lambda>data.
         Some \<lparr>db_data = data, db_offset = db_offset b @ [back + total_len]\<rparr>)))"

text \<open>\<^verbatim>\<open>AddJoinedString\<close> with a character.\<close>

definition AddJoinedString_char ::
  "8 word list list \<Rightarrow> 8 word \<Rightarrow> dynamic_buffer \<Rightarrow> dynamic_buffer option" where
  "AddJoinedString_char strings separator = AddJoinedString strings [separator]"

text \<open>\<open>fresh n\<close> is the content of the block of \<open>n\<close> bytes that \<^verbatim>\<open>malloc\<close> returns.\<close>

primrec put_offsets :: "int \<Rightarrow> nat \<Rightarrow> 32 word list \<Rightarrow> 8 word list \<Rightarrow> 8 word list option" where
  "put_offsets start i [] buf = Some buf"
| "put_offsets start i (off # offs) buf =
     Option.bind (put_bytes buf (4 * (int i + 1)) (le_bytes (word_of_int start + off)))
       (put_offsets start (Suc i) offs)"

definition WriteToBuffer ::
  "(nat \<Rightarrow> 8 word list) \<Rightarrow> dynamic_buffer \<Rightarrow> (int \<times> 8 word list) option" where
  "WriteToBuffer fresh b =
     (let num_strings = of_nat (length (db_offset b)) - 1 :: 32 word;
          start = 4 * (num_strings + 2) :: 32 word;
          nbytes = of_nat (length (db_data b)) + start :: 32 word
      in if sint nbytes < 0 then None
         else Option.bind (put_bytes (fresh (nat (sint nbytes))) 0 (le_bytes num_strings)) (\<lambda>buf.
              Option.bind (put_offsets (sint start) 0 (db_offset b) buf) (\<lambda>buf.
              Option.bind (put_bytes buf (sint start) (db_data b)) (\<lambda>buf.
              Some (sint nbytes, buf)))))"

text \<open>The tensor gets the address \<open>addr\<close> of the block.\<close>

definition WriteToTensor ::
  "(nat \<Rightarrow> 8 word list) \<Rightarrow> nat \<Rightarrow> int list option \<Rightarrow> tensor \<Rightarrow> dynamic_buffer
   \<Rightarrow> (tensor \<times> 8 word list) option" where
  "WriteToTensor fresh addr new_shape t b =
     Option.bind (WriteToBuffer fresh b) (\<lambda>(nbytes, buf).
       let new_shape = (case new_shape of None \<Rightarrow> dims t | Some ds \<Rightarrow> Some ds)
       in Some (TfLiteTensorReset (tensor_type t) (tensor_name t) new_shape (params t) addr (nat nbytes)
                  kTfLiteDynamic (allocation t) (is_variable t) t, buf))"

definition WriteToTensorAsVector ::
  "(nat \<Rightarrow> 8 word list) \<Rightarrow> nat \<Rightarrow> tensor \<Rightarrow> dynamic_buffer \<Rightarrow> (tensor \<times> 8 word list) option" where
  "WriteToTensorAsVector fresh addr t b =
     WriteToTensor fresh addr (Some [sint (of_nat (length (db_offset b)) - 1 :: 32 word)]) t b"

section \<open>Reading\<close>

definition GetStringCount :: "8 word list \<Rightarrow> int option" where
  "GetStringCount raw = read_int raw 0"

text \<open>The \<^verbatim>\<open>StringRef\<close> points into the buffer: its start there and its length.\<close>

definition GetString :: "8 word list \<Rightarrow> int \<Rightarrow> (int \<times> int) option" where
  "GetString raw i =
     Option.bind (read_int raw (4 * (i + 1))) (\<lambda>offset.
     Option.bind (read_int raw (4 * (i + 2))) (\<lambda>next_offset.
     Some (offset, next_offset - offset)))"

definition string_at :: "8 word list \<Rightarrow> int \<times> int \<Rightarrow> 8 word list" where
  "string_at raw r = take (nat (snd r)) (drop (nat (fst r)) raw)"

section \<open>Facts about bytes\<close>

lemma length_le_bytes [simp]: "length (le_bytes w) = 4"
  by (simp add: le_bytes_def)

lemma le_word_le_bytes [simp]: "le_word (le_bytes w) = w"
proof (rule bit_word_eqI)
  fix n assume "n < LENGTH(32)"
  then have "n < 32" by simp
  then consider "n < 8" | "8 \<le> n \<and> n < 16" | "16 \<le> n \<and> n < 24" | "24 \<le> n \<and> n < 32"
    by linarith
  then show "bit (le_word (le_bytes w)) n = bit w n"
    using \<open>n < 32\<close>
    by cases (auto simp: le_word_def le_bytes_def upt_rec bit_simps)
qed

lemma put_bytes_Some:
  "0 \<le> at \<Longrightarrow> nat at + length src \<le> length dst \<Longrightarrow>
   put_bytes dst at src = Some (take (nat at) dst @ src @ drop (nat at + length src) dst)"
  by (simp add: put_bytes_def)

lemma put_bytes_append:
  "length xs = n \<Longrightarrow> length ys = length src \<Longrightarrow>
   put_bytes (xs @ ys @ zs) (int n) src = Some (xs @ src @ zs)"
  by (simp add: put_bytes_def)

lemma put_bytes_end:
  "length xs = n \<Longrightarrow> length ys = length src \<Longrightarrow> put_bytes (xs @ ys) (int n) src = Some (xs @ src)"
  using put_bytes_append [of xs n ys src "[]"] by simp

lemma read_chunk:
  assumes "\<And>x. length (f x) = 4" and "i < length xs"
  shows "take 4 (drop (4 * i) (concat (map f xs) @ ys)) = f (xs ! i)"
  using assms(2)
proof (induction xs arbitrary: i)
  case (Cons x xs)
  then show ?case using assms(1) by (cases i) (simp_all add: drop_Cons')
qed simp

lemma sint_of_nat32: "n < 2 ^ 31 \<Longrightarrow> sint (of_nat n :: 32 word) = int n"
  by (simp add: signed_of_nat signed_take_bit_int_eq_self)

lemma sint_of_int32: "0 \<le> n \<Longrightarrow> n < 2 ^ 31 \<Longrightarrow> sint (of_int n :: 32 word) = n"
  using sint_of_nat32 [of "nat n"] by simp

lemma ucast_minus_of_nat: "(ucast (- of_nat n :: 64 word) :: 32 word) = - of_nat n"
proof -
  have "take_bit 32 (take_bit 64 (- int n)) = take_bit 32 (- int n)" by simp
  then have "(of_int (take_bit 64 (- int n)) :: 32 word) = of_int (- int n)"
    by (simp only: word_of_int_eq_iff) simp
  moreover have "(- of_nat n :: 64 word) = of_int (- int n)" by simp
  ultimately show ?thesis by (simp only: unsigned_of_int) simp
qed

lemma sint_minus_of_nat: "n < 2 ^ 31 \<Longrightarrow> sint (- of_nat n :: 32 word) = - int n"
  using signed_of_int [of "- int n", where 'a = int and 'b = 32]
  by (simp add: signed_take_bit_int_eq_self)

section \<open>What a buffer holds\<close>

text \<open>
  The abstract value of a buffer is the list of the strings added to it; the data are their
  concatenation and offset \<open>i\<close> is the length of the first \<open>i\<close> of them.
\<close>

definition starts :: "8 word list list \<Rightarrow> nat list" where
  "starts ss = map (\<lambda>i. length (concat (take i ss))) [0..<Suc (length ss)]"

definition holds :: "dynamic_buffer \<Rightarrow> 8 word list list \<Rightarrow> bool" where
  "holds b ss \<longleftrightarrow> db_data b = concat ss \<and> db_offset b = map of_nat (starts ss)
     \<and> length (concat ss) < 2 ^ 31"

primrec join :: "8 word list \<Rightarrow> 8 word list list \<Rightarrow> 8 word list" where
  "join separator [] = []"
| "join separator (s # ss) = s @ concat (map (\<lambda>s. separator @ s) ss)"

lemma length_starts [simp]: "length (starts ss) = Suc (length ss)"
  by (simp add: starts_def)

lemma starts_nth: "i \<le> length ss \<Longrightarrow> starts ss ! i = length (concat (take i ss))"
  by (simp add: starts_def nth_map_upt less_Suc_eq_le del: upt_Suc)

lemma starts_snoc: "starts (ss @ [s]) = starts ss @ [length (concat ss) + length s]"
  by (rule nth_equalityI) (auto simp: starts_nth nth_append less_Suc_eq)

lemma last_starts [simp]: "last (map f (starts ss)) = f (length (concat ss))"
  by (simp add: starts_def last_map)

lemma DynamicBuffer_holds: "holds DynamicBuffer []"
  by (simp add: holds_def DynamicBuffer_def starts_def)

lemma holds_back: "holds b ss \<Longrightarrow> last (db_offset b) = of_nat (length (db_data b))"
  by (simp only: holds_def last_starts)

lemma holds_push:
  assumes "holds b ss" and "length (concat ss) + length s < 2 ^ 31"
  shows "holds \<lparr>db_data = db_data b @ s,
                db_offset = db_offset b @ [last (db_offset b) + of_nat (length s)]\<rparr> (ss @ [s])"
  using assms holds_back [OF assms(1)] by (simp add: holds_def starts_snoc)

lemma resize_bytes_grow:
  "length xs + n < 2 ^ 31 \<Longrightarrow>
   resize_bytes xs (int (length xs) + int n) = Some (xs @ replicate n 0)"
  by (simp add: resize_bytes_def vec_resize_def Let_def nat_add_distrib)

lemma AddString_extends:
  assumes "holds b ss" and "length (concat ss) + length s < 2 ^ 31"
  shows "\<exists>b'. AddString s b = Some b' \<and> holds b' (ss @ [s])"
proof -
  have len: "length (db_data b) = length (concat ss)" using assms(1) by (simp add: holds_def)
  have "sint (last (db_offset b)) = int (length (db_data b))"
    using assms sint_of_nat32 [of "length (db_data b)"] len by (simp add: holds_back)
  moreover have "resize_bytes (db_data b) (int (length (db_data b)) + int (length s))
    = Some (db_data b @ replicate (length s) 0)"
    using assms(2) by (intro resize_bytes_grow) (simp add: len)
  moreover have "put_bytes (db_data b @ replicate (length s) 0) (int (length (db_data b))) s
    = Some (db_data b @ s)"
    by (simp add: put_bytes_end)
  ultimately show ?thesis
    using holds_push [OF assms] by (simp add: AddString_def Let_def del: of_nat_add)
qed

lemma resize_bytes_shrink:
  assumes "n \<le> length xs" and "length xs < 2 ^ 31"
  shows "resize_bytes xs (int n) = Some (take n xs)"
proof -
  have "int n mod 2 ^ 64 = int n" using assms by simp
  then show ?thesis using assms by (simp add: resize_bytes_def vec_resize_def)
qed

text \<open>Joining several strings: one string is added, the join of all of them.\<close>

lemma split3: "xs = take n xs @ take m (drop n xs) @ drop (n + m) xs"
  by (metis append_take_drop_id drop_drop add.commute)

lemma copy_joined_tail:
  "length ys = length (concat (map (\<lambda>s. separator @ s) ss)) \<Longrightarrow>
   copy_joined separator ss False (int (length xs)) (xs @ ys)
     = Some (xs @ concat (map (\<lambda>s. separator @ s) ss))"
proof (induction ss arbitrary: xs ys)
  case (Cons s ss)
  let ?n = "length separator" and ?m = "length s"
  have ys: "ys = take ?n ys @ take ?m (drop ?n ys) @ drop (?n + ?m) ys"
    by (rule split3)
  have "put_bytes (xs @ ys) (int (length xs)) separator
    = Some (xs @ separator @ take ?m (drop ?n ys) @ drop (?n + ?m) ys)"
    using Cons.prems by (subst ys) (simp add: put_bytes_append)
  moreover have "put_bytes ((xs @ separator) @ take ?m (drop ?n ys) @ drop (?n + ?m) ys)
      (int (length (xs @ separator))) s = Some ((xs @ separator) @ s @ drop (?n + ?m) ys)"
    using Cons.prems by (intro put_bytes_append) simp_all
  moreover have "copy_joined separator ss False (int (length (xs @ separator @ s)))
      ((xs @ separator @ s) @ drop (?n + ?m) ys)
    = Some ((xs @ separator @ s) @ concat (map (\<lambda>s. separator @ s) ss))"
    using Cons.prems by (intro Cons.IH) simp
  ultimately show ?case
    by (simp add: add.assoc)
qed simp

lemma copy_joined_join:
  assumes "length ys = length (join separator ss)"
  shows "copy_joined separator ss True (int (length xs)) (xs @ ys) = Some (xs @ join separator ss)"
proof (cases ss)
  case (Cons s ss')
  have ys: "ys = take (length s) ys @ drop (length s) ys" by simp
  have "put_bytes (xs @ ys) (int (length xs)) s = Some ((xs @ s) @ drop (length s) ys)"
    using assms Cons by (subst ys, subst put_bytes_append) simp_all
  moreover have "copy_joined separator ss' False (int (length (xs @ s)))
      ((xs @ s) @ drop (length s) ys) = Some ((xs @ s) @ concat (map (\<lambda>s. separator @ s) ss'))"
    using assms Cons by (intro copy_joined_tail) simp
  ultimately show ?thesis using Cons by simp
qed (use assms in simp)

lemma foldl_lengths:
  "foldl (\<lambda>n s. n + of_nat (length s)) n ss = n + (of_nat (length (concat ss)) :: 32 word)"
  by (induction ss arbitrary: n) simp_all

lemma length_join:
  "ss \<noteq> [] \<Longrightarrow>
   length (join separator ss) = (length ss - 1) * length separator + length (concat ss)"
proof (cases ss)
  case (Cons s ss')
  have "length (concat (map (\<lambda>s. separator @ s) ss'))
    = length ss' * length separator + length (concat ss')"
    by (induction ss') simp_all
  then show ?thesis using Cons by simp
qed simp

lemma joined_length:
  assumes "ss \<noteq> []"
  shows "foldl (\<lambda>n s. n + of_nat (length s))
      (ucast ((of_nat (length ss) - 1) * of_nat (length separator) :: 64 word)) ss
    = (of_nat (length (join separator ss)) :: 32 word)"
proof -
  have "(of_nat (length ss) - 1 :: 64 word) = of_nat (length ss - 1)"
    using assms by (simp add: of_nat_diff Suc_le_eq)
  then have "(ucast ((of_nat (length ss) - 1) * of_nat (length separator) :: 64 word) :: 32 word)
    = ucast (of_nat ((length ss - 1) * length separator) :: 64 word)" by simp
  also have "\<dots> = of_nat ((length ss - 1) * length separator)"
    by (simp add: unsigned_of_nat word_of_nat_eq_iff del: of_nat_mult)
  finally show ?thesis
    by (simp only: foldl_lengths length_join [OF assms] of_nat_add)
qed

text \<open>
  \<^verbatim>\<open>DynamicBuffer::AddJoinedString\<close> of one or more strings appends exactly one string, their
  join with the separator between each two.
\<close>

theorem AddJoinedString_appends:
  assumes "holds b ss" and "strings \<noteq> []"
    and "length (concat ss) + length (join separator strings) < 2 ^ 31"
  shows "\<exists>b'. AddJoinedString strings separator b = Some b'
    \<and> holds b' (ss @ [join separator strings])"
proof -
  let ?j = "join separator strings"
  have len: "length (db_data b) = length (concat ss)" using assms(1) by (simp add: holds_def)
  have "sint (last (db_offset b)) = int (length (db_data b))"
    using assms sint_of_nat32 [of "length (db_data b)"] len by (simp add: holds_back)
  moreover have "resize_bytes (db_data b)
      (int (length (db_data b)) + sint (of_nat (length ?j) :: 32 word))
    = Some (db_data b @ replicate (length ?j) 0)"
    using resize_bytes_grow [of "db_data b" "length ?j"] assms(3) len
    by (simp add: sint_of_nat32 [of "length ?j"] del: of_nat_add)
  moreover have "copy_joined separator strings True (int (length (db_data b)))
      (db_data b @ replicate (length ?j) 0) = Some (db_data b @ ?j)"
    by (simp add: copy_joined_join)
  ultimately show ?thesis
    using holds_push [OF assms(1,3)]
    by (simp add: AddJoinedString_def Let_def joined_length [OF assms(2)] del: of_nat_add)
qed

lemma AddJoinedString_appends_witness:
  "\<exists>b'. AddJoinedString [[104], [105]] [44] DynamicBuffer = Some b' \<and> holds b' [[104, 44, 105]]"
  using AddJoinedString_appends [OF DynamicBuffer_holds, of "[[104], [105]]" "[44]"] by simp

section \<open>Writing and reading back\<close>

definition add_strings :: "8 word list list \<Rightarrow> dynamic_buffer \<Rightarrow> dynamic_buffer option" where
  "add_strings ss b = fold (\<lambda>s r. Option.bind r (AddString s)) ss (Some b)"

lemma add_strings_holds:
  "length (concat ss) < 2 ^ 31 \<Longrightarrow> \<exists>b. add_strings ss DynamicBuffer = Some b \<and> holds b ss"
proof (induction ss rule: rev_induct)
  case Nil
  then show ?case by (simp add: add_strings_def DynamicBuffer_holds)
next
  case (snoc s ss)
  then obtain b where "add_strings ss DynamicBuffer = Some b" "holds b ss" by auto
  moreover obtain b' where "AddString s b = Some b'" "holds b' (ss @ [s])"
    using AddString_extends [OF \<open>holds b ss\<close>, of s] snoc.prems by auto
  ultimately show ?case by (simp add: add_strings_def)
qed

lemma put_offsets_all:
  assumes "length mid = 4 * length offs" and "length pre = 4 * (i + 1)"
  shows "put_offsets start i offs (pre @ mid @ post)
    = Some (pre @ concat (map (\<lambda>off. le_bytes (word_of_int start + off)) offs) @ post)"
  using assms
proof (induction offs arbitrary: i pre mid)
  case (Cons off offs)
  let ?b = "le_bytes (word_of_int start + off)"
  have mid: "mid = take 4 mid @ drop 4 mid" by simp
  have at: "4 * (int i + 1) = int (length pre)" using Cons.prems by simp
  have "put_bytes (pre @ mid @ post) (4 * (int i + 1)) ?b = Some ((pre @ ?b) @ drop 4 mid @ post)"
    unfolding at using Cons.prems put_bytes_append [of pre "length pre" "take 4 mid" ?b "drop 4 mid @ post"]
    by (simp flip: append_assoc)
  moreover have "put_offsets start (Suc i) offs ((pre @ ?b) @ drop 4 mid @ post)
    = Some ((pre @ ?b) @ concat (map (\<lambda>off. le_bytes (word_of_int start + off)) offs) @ post)"
    using Cons.prems by (intro Cons.IH) simp_all
  ultimately show ?case by simp
qed simp

text \<open>The block that is written: the count, the offsets from its start, and the data.\<close>

definition layout :: "8 word list list \<Rightarrow> 8 word list" where
  "layout ss = le_bytes (of_nat (length ss))
     @ concat (map (\<lambda>n. le_bytes (of_nat (4 * (length ss + 2) + n))) (starts ss)) @ concat ss"

lemma length_chunks: "(\<And>x. length (f x) = 4) \<Longrightarrow> length (concat (map f xs)) = 4 * length xs"
  by (induction xs) simp_all

lemma length_layout: "length (layout ss) = 4 * (length ss + 2) + length (concat ss)"
  by (simp add: layout_def length_chunks)

lemma WriteToBuffer_layout:
  assumes "holds b ss" and size: "4 * (length ss + 2) + length (concat ss) < 2 ^ 31"
    and "\<And>n. length (fresh n) = n"
  shows "WriteToBuffer fresh b = Some (int (length (layout ss)), layout ss)"
proof -
  let ?h = "4 * (length ss + 2)"
  let ?w = "concat (map (\<lambda>off. le_bytes (of_int (int ?h) + off)) (db_offset b))"
  obtain a m d where split: "fresh (?h + length (concat ss)) = a @ m @ d"
    and len: "length a = 4" "length m = 4 * (length ss + 1)" "length d = length (concat ss)"
  proof
    let ?f = "fresh (?h + length (concat ss))"
    show "?f = take 4 ?f @ take (4 * (length ss + 1)) (drop 4 ?f) @ drop (4 + 4 * (length ss + 1)) ?f"
      by (rule split3)
  qed (use assms(3) in simp_all)
  have b: "db_data b = concat ss" "db_offset b = map of_nat (starts ss)"
    using assms(1) by (simp_all add: holds_def)
  have n: "of_nat (length (db_offset b)) - 1 = (of_nat (length ss) :: 32 word)"
    by (simp add: b(2))
  have start: "4 * (of_nat (length ss) + 2) = (of_nat ?h :: 32 word)" by simp
  have nbytes: "sint (of_nat (length (concat ss)) + of_nat ?h :: 32 word) = int (?h + length (concat ss))"
    using sint_of_nat32 [of "length (concat ss) + ?h"] size by simp
  have s: "sint (of_nat ?h :: 32 word) = int ?h"
    using size by (intro sint_of_nat32) simp
  have 1: "put_bytes (a @ m @ d) 0 (le_bytes (of_nat (length ss)))
    = Some (le_bytes (of_nat (length ss)) @ m @ d)"
    using put_bytes_append [of "[]" 0 a "le_bytes (of_nat (length ss))" "m @ d"] len by simp
  have 2: "put_offsets (int ?h) 0 (db_offset b) (le_bytes (of_nat (length ss)) @ m @ d)
    = Some (le_bytes (of_nat (length ss)) @ ?w @ d)"
    using len by (intro put_offsets_all) (simp_all add: b)
  have 3: "put_bytes ((le_bytes (of_nat (length ss)) @ ?w) @ d) (int ?h) (concat ss)
    = Some ((le_bytes (of_nat (length ss)) @ ?w) @ concat ss)"
    using len by (intro put_bytes_end) (simp_all add: b length_chunks)
  have w: "(le_bytes (of_nat (length ss)) @ ?w) @ concat ss = layout ss"
    by (simp add: layout_def b o_def)
  show ?thesis
    unfolding WriteToBuffer_def Let_def n start b(1) nbytes s nat_int split 1 bind.bind_lunit 2
      append_assoc [symmetric, of _ ?w d] 3 w length_layout
    by simp
qed

lemma read_int_at:
  "length pre = 4 * n \<Longrightarrow> read_int (pre @ le_bytes w @ post) (4 * int n) = Some (sint w)"
  by (simp add: read_int_def nat_mult_distrib)

lemma GetStringCount_layout:
  "length ss < 2 ^ 31 \<Longrightarrow> GetStringCount (layout ss) = Some (int (length ss))"
  using read_int_at [of "[]" 0 "of_nat (length ss)"]
  by (simp add: GetStringCount_def layout_def sint_of_nat32)

lemma offset_layout:
  assumes "i \<le> length ss" and "length (layout ss) < 2 ^ 31"
  shows "read_int (layout ss) (4 * (int i + 1))
    = Some (int (4 * (length ss + 2) + length (concat (take i ss))))"
proof -
  let ?f = "\<lambda>n. le_bytes (of_nat (4 * (length ss + 2) + n) :: 32 word)"
  have "take 4 (drop (4 * i) (concat (map ?f (starts ss)) @ concat ss)) = ?f (starts ss ! i)"
    by (rule read_chunk) (use assms(1) in simp_all)
  moreover have "4 * (int i + 1) = int (4 + 4 * i)" by simp
  moreover have "drop (4 + 4 * i) (layout ss)
    = drop (4 * i) (concat (map ?f (starts ss)) @ concat ss)"
    by (simp add: layout_def)
  ultimately have "take 4 (drop (nat (4 * (int i + 1))) (layout ss)) = ?f (length (concat (take i ss)))"
    by (simp only: nat_int starts_nth [OF assms(1)])
  moreover have "sint (of_nat (4 * (length ss + 2) + length (concat (take i ss))) :: 32 word)
    = int (4 * (length ss + 2) + length (concat (take i ss)))"
  proof (rule sint_of_nat32)
    have "length (concat (take i ss)) \<le> length (concat ss)"
      by (metis append_take_drop_id concat_append length_append le_add1)
    then show "4 * (length ss + 2) + length (concat (take i ss)) < 2 ^ 31"
      using assms(2) by (simp add: length_layout)
  qed
  moreover have "nat (4 * (int i + 1)) + 4 \<le> length (layout ss)"
    using assms(1) by (simp add: length_layout nat_add_distrib nat_mult_distrib)
  ultimately show ?thesis by (simp add: read_int_def)
qed

lemma GetString_layout:
  assumes "i < length ss" and "length (layout ss) < 2 ^ 31"
  shows "\<exists>r. GetString (layout ss) (int i) = Some r \<and> string_at (layout ss) r = ss ! i"
proof -
  let ?h = "4 * (length ss + 2)" and ?a = "concat (take i ss)"
  have suc: "concat (take (Suc i) ss) = ?a @ ss ! i"
    by (simp add: take_Suc_conv_app_nth assms(1))
  have ss: "concat ss = ?a @ ss ! i @ concat (drop (Suc i) ss)"
    by (metis append.assoc append_take_drop_id concat_append suc)
  have "read_int (layout ss) (4 * (int i + 2)) = Some (int (?h + length ?a + length (ss ! i)))"
    using offset_layout [of "Suc i" ss] assms by (simp add: suc add.commute)
  moreover have "read_int (layout ss) (4 * (int i + 1)) = Some (int (?h + length ?a))"
    using offset_layout [of i ss] assms by simp
  ultimately have "GetString (layout ss) (int i) = Some (int (?h + length ?a), int (length (ss ! i)))"
    by (simp add: GetString_def)
  moreover have "drop (?h + length ?a) (layout ss) = ss ! i @ concat (drop (Suc i) ss)"
    by (subst drop_drop [symmetric, of "length ?a" ?h, unfolded add.commute [of "length ?a" ?h]])
      (simp add: layout_def length_chunks, subst ss, simp)
  ultimately show ?thesis
    by (simp add: string_at_def del: of_nat_add)
qed

text \<open>
  C23: Strings added to an empty buffer and written out as a string tensor are read back
  unchanged: the tensor has as many strings as were added, and string \<open>i\<close> is the \<open>i\<close>-th one,
  provided the whole block is smaller than 2 GiB. The content of the allocated block is arbitrary.
\<close>

theorem string_tensor_roundtrip:
  assumes "4 * (length ss + 2) + length (concat ss) < 2 ^ 31" and "\<And>n. length (fresh n) = n"
  shows "\<exists>b raw. add_strings ss DynamicBuffer = Some b
    \<and> WriteToBuffer fresh b = Some (int (length raw), raw)
    \<and> GetStringCount raw = Some (int (length ss))
    \<and> (\<forall>i < length ss. \<exists>r. GetString raw (int i) = Some r \<and> string_at raw r = ss ! i)"
proof -
  obtain b where "add_strings ss DynamicBuffer = Some b" "holds b ss"
    using add_strings_holds [of ss] assms(1) by auto
  moreover have "length (layout ss) < 2 ^ 31"
    using assms(1) by (simp only: length_layout)
  moreover have "length ss < 2 ^ 31" using assms(1) by simp
  ultimately show ?thesis
    using WriteToBuffer_layout [OF _ assms] GetStringCount_layout GetString_layout by blast
qed

lemma string_tensor_roundtrip_witness:
  "\<exists>b raw. add_strings [[104, 105], [], [33]] DynamicBuffer = Some b
    \<and> WriteToBuffer (\<lambda>n. replicate n 255) b = Some (int (length raw), raw)
    \<and> GetStringCount raw = Some 3
    \<and> (\<forall>i < 3. \<exists>r. GetString raw (int i) = Some r \<and> string_at raw r = [[104, 105], [], [33]] ! i)"
  using string_tensor_roundtrip [of "[[104, 105], [], [33]]" "\<lambda>n. replicate n 255"]
  by (simp add: numeral_3_eq_3)

text \<open>
  Joining no strings does not add an empty string. The number of separators is computed as
  \<^verbatim>\<open>strings.size() - 1\<close> in unsigned arithmetic, so a separator of \<open>n\<close> bytes takes the last \<open>n\<close> bytes of
  the strings before it out of the buffer and the offset that is pushed is smaller than the one
  before it: the string that a reader gets has the length \<open>-n\<close>.
\<close>

theorem AddJoinedString_none:
  assumes "holds b ss" and "length separator \<le> length (concat ss)"
  shows "AddJoinedString [] separator b
    = Some \<lparr>db_data = take (length (concat ss) - length separator) (concat ss),
            db_offset = db_offset b @ [of_nat (length (concat ss) - length separator)]\<rparr>"
proof -
  let ?n = "length separator" and ?m = "length (concat ss)"
  have n: "?n < 2 ^ 31" "?m < 2 ^ 31" using assms by (simp_all add: holds_def)
  have tot: "(ucast ((of_nat 0 - 1) * of_nat ?n :: 64 word) :: 32 word) = - of_nat ?n"
    by (simp add: ucast_minus_of_nat)
  have sint: "sint (- of_nat ?n :: 32 word) = - int ?n"
    using n by (simp add: sint_minus_of_nat)
  have data: "db_data b = concat ss" using assms(1) by (simp add: holds_def)
  have "int ?m + - int ?n = int (?m - ?n)" using assms(2) by (simp only: of_nat_diff)
  then have grow: "resize_bytes (concat ss) (int ?m + - int ?n) = Some (take (?m - ?n) (concat ss))"
    using resize_bytes_shrink [OF diff_le_self n(2)] by metis
  have top: "last (db_offset b) + - of_nat ?n = of_nat (?m - ?n)"
    using assms(2) holds_back [OF assms(1)] by (simp add: data of_nat_diff)
  show ?thesis
    unfolding AddJoinedString_def Let_def foldl.simps list.size tot sint
      data grow bind.bind_lunit copy_joined.simps top
    by (rule refl)
qed

lemma AddJoinedString_none_witness:
  "holds \<lparr>db_data = [104, 105], db_offset = [0, 2]\<rparr> [[104, 105]]
   \<and> AddJoinedString [] [44] \<lparr>db_data = [104, 105], db_offset = [0, 2]\<rparr>
     = Some \<lparr>db_data = [104], db_offset = [0, 2, 1]\<rparr>"
proof -
  have "holds \<lparr>db_data = [104, 105], db_offset = [0, 2]\<rparr> [[104, 105]]"
    by (simp add: holds_def starts_def)
  then show ?thesis
    using AddJoinedString_none [of "\<lparr>db_data = [104, 105], db_offset = [0, 2]\<rparr>" "[[104, 105]]" "[44]"]
    by simp
qed

end
