(* ===== verification/Model_Schema.thy ===== *)
theory Model_Schema
  imports Tensors
begin

text \<open>
  The part of \<^verbatim>\<open>tensorflow/lite/schema/schema_generated.h\<close> that the run-time reads: the codes
  of the builtin operators and of the element types, and the tables of a model as records.
  A table, vector or string that is absent (a null pointer from an accessor) is \<^term>\<open>None\<close>.
  Bytes of a buffer and of custom options are an address and a size. A code of an operator is an
  integer, because a file may hold one that the enumeration does not have.
\<close>

section \<open>Enumerations\<close>

abbreviation (input) BuiltinOperator_ADD :: int where "BuiltinOperator_ADD \<equiv> 0"
abbreviation (input) BuiltinOperator_AVERAGE_POOL_2D :: int where "BuiltinOperator_AVERAGE_POOL_2D \<equiv> 1"
abbreviation (input) BuiltinOperator_CONCATENATION :: int where "BuiltinOperator_CONCATENATION \<equiv> 2"
abbreviation (input) BuiltinOperator_CONV_2D :: int where "BuiltinOperator_CONV_2D \<equiv> 3"
abbreviation (input) BuiltinOperator_DEPTHWISE_CONV_2D :: int where "BuiltinOperator_DEPTHWISE_CONV_2D \<equiv> 4"
abbreviation (input) BuiltinOperator_DEPTH_TO_SPACE :: int where "BuiltinOperator_DEPTH_TO_SPACE \<equiv> 5"
abbreviation (input) BuiltinOperator_EMBEDDING_LOOKUP :: int where "BuiltinOperator_EMBEDDING_LOOKUP \<equiv> 7"
abbreviation (input) BuiltinOperator_FLOOR :: int where "BuiltinOperator_FLOOR \<equiv> 8"
abbreviation (input) BuiltinOperator_FULLY_CONNECTED :: int where "BuiltinOperator_FULLY_CONNECTED \<equiv> 9"
abbreviation (input) BuiltinOperator_HASHTABLE_LOOKUP :: int where "BuiltinOperator_HASHTABLE_LOOKUP \<equiv> 10"
abbreviation (input) BuiltinOperator_L2_NORMALIZATION :: int where "BuiltinOperator_L2_NORMALIZATION \<equiv> 11"
abbreviation (input) BuiltinOperator_L2_POOL_2D :: int where "BuiltinOperator_L2_POOL_2D \<equiv> 12"
abbreviation (input) BuiltinOperator_LOCAL_RESPONSE_NORMALIZATION :: int where "BuiltinOperator_LOCAL_RESPONSE_NORMALIZATION \<equiv> 13"
abbreviation (input) BuiltinOperator_LOGISTIC :: int where "BuiltinOperator_LOGISTIC \<equiv> 14"
abbreviation (input) BuiltinOperator_LSH_PROJECTION :: int where "BuiltinOperator_LSH_PROJECTION \<equiv> 15"
abbreviation (input) BuiltinOperator_LSTM :: int where "BuiltinOperator_LSTM \<equiv> 16"
abbreviation (input) BuiltinOperator_MAX_POOL_2D :: int where "BuiltinOperator_MAX_POOL_2D \<equiv> 17"
abbreviation (input) BuiltinOperator_MUL :: int where "BuiltinOperator_MUL \<equiv> 18"
abbreviation (input) BuiltinOperator_RELU :: int where "BuiltinOperator_RELU \<equiv> 19"
abbreviation (input) BuiltinOperator_RELU_N1_TO_1 :: int where "BuiltinOperator_RELU_N1_TO_1 \<equiv> 20"
abbreviation (input) BuiltinOperator_RELU6 :: int where "BuiltinOperator_RELU6 \<equiv> 21"
abbreviation (input) BuiltinOperator_RESIZE_BILINEAR :: int where "BuiltinOperator_RESIZE_BILINEAR \<equiv> 23"
abbreviation (input) BuiltinOperator_RNN :: int where "BuiltinOperator_RNN \<equiv> 24"
abbreviation (input) BuiltinOperator_SOFTMAX :: int where "BuiltinOperator_SOFTMAX \<equiv> 25"
abbreviation (input) BuiltinOperator_SPACE_TO_DEPTH :: int where "BuiltinOperator_SPACE_TO_DEPTH \<equiv> 26"
abbreviation (input) BuiltinOperator_SVDF :: int where "BuiltinOperator_SVDF \<equiv> 27"
abbreviation (input) BuiltinOperator_TANH :: int where "BuiltinOperator_TANH \<equiv> 28"
abbreviation (input) BuiltinOperator_CONCAT_EMBEDDINGS :: int where "BuiltinOperator_CONCAT_EMBEDDINGS \<equiv> 29"
abbreviation (input) BuiltinOperator_SKIP_GRAM :: int where "BuiltinOperator_SKIP_GRAM \<equiv> 30"
abbreviation (input) BuiltinOperator_CALL :: int where "BuiltinOperator_CALL \<equiv> 31"
abbreviation (input) BuiltinOperator_EMBEDDING_LOOKUP_SPARSE :: int where "BuiltinOperator_EMBEDDING_LOOKUP_SPARSE \<equiv> 33"
abbreviation (input) BuiltinOperator_PAD :: int where "BuiltinOperator_PAD \<equiv> 34"
abbreviation (input) BuiltinOperator_UNIDIRECTIONAL_SEQUENCE_RNN :: int where "BuiltinOperator_UNIDIRECTIONAL_SEQUENCE_RNN \<equiv> 35"
abbreviation (input) BuiltinOperator_GATHER :: int where "BuiltinOperator_GATHER \<equiv> 36"
abbreviation (input) BuiltinOperator_BATCH_TO_SPACE_ND :: int where "BuiltinOperator_BATCH_TO_SPACE_ND \<equiv> 37"
abbreviation (input) BuiltinOperator_SPACE_TO_BATCH_ND :: int where "BuiltinOperator_SPACE_TO_BATCH_ND \<equiv> 38"
abbreviation (input) BuiltinOperator_TRANSPOSE :: int where "BuiltinOperator_TRANSPOSE \<equiv> 39"
abbreviation (input) BuiltinOperator_MEAN :: int where "BuiltinOperator_MEAN \<equiv> 40"
abbreviation (input) BuiltinOperator_SUB :: int where "BuiltinOperator_SUB \<equiv> 41"
abbreviation (input) BuiltinOperator_DIV :: int where "BuiltinOperator_DIV \<equiv> 42"
abbreviation (input) BuiltinOperator_SQUEEZE :: int where "BuiltinOperator_SQUEEZE \<equiv> 43"
abbreviation (input) BuiltinOperator_UNIDIRECTIONAL_SEQUENCE_LSTM :: int where "BuiltinOperator_UNIDIRECTIONAL_SEQUENCE_LSTM \<equiv> 44"
abbreviation (input) BuiltinOperator_STRIDED_SLICE :: int where "BuiltinOperator_STRIDED_SLICE \<equiv> 45"
abbreviation (input) BuiltinOperator_BIDIRECTIONAL_SEQUENCE_RNN :: int where "BuiltinOperator_BIDIRECTIONAL_SEQUENCE_RNN \<equiv> 46"
abbreviation (input) BuiltinOperator_EXP :: int where "BuiltinOperator_EXP \<equiv> 47"
abbreviation (input) BuiltinOperator_TOPK_V2 :: int where "BuiltinOperator_TOPK_V2 \<equiv> 48"
abbreviation (input) BuiltinOperator_SPLIT :: int where "BuiltinOperator_SPLIT \<equiv> 49"
abbreviation (input) BuiltinOperator_LOG_SOFTMAX :: int where "BuiltinOperator_LOG_SOFTMAX \<equiv> 50"
abbreviation (input) BuiltinOperator_BIDIRECTIONAL_SEQUENCE_LSTM :: int where "BuiltinOperator_BIDIRECTIONAL_SEQUENCE_LSTM \<equiv> 52"
abbreviation (input) BuiltinOperator_CAST :: int where "BuiltinOperator_CAST \<equiv> 53"
abbreviation (input) BuiltinOperator_PRELU :: int where "BuiltinOperator_PRELU \<equiv> 54"
abbreviation (input) BuiltinOperator_MAXIMUM :: int where "BuiltinOperator_MAXIMUM \<equiv> 55"
abbreviation (input) BuiltinOperator_ARG_MAX :: int where "BuiltinOperator_ARG_MAX \<equiv> 56"
abbreviation (input) BuiltinOperator_MINIMUM :: int where "BuiltinOperator_MINIMUM \<equiv> 57"
abbreviation (input) BuiltinOperator_LESS :: int where "BuiltinOperator_LESS \<equiv> 58"
abbreviation (input) BuiltinOperator_NEG :: int where "BuiltinOperator_NEG \<equiv> 59"
abbreviation (input) BuiltinOperator_PADV2 :: int where "BuiltinOperator_PADV2 \<equiv> 60"
abbreviation (input) BuiltinOperator_GREATER :: int where "BuiltinOperator_GREATER \<equiv> 61"
abbreviation (input) BuiltinOperator_GREATER_EQUAL :: int where "BuiltinOperator_GREATER_EQUAL \<equiv> 62"
abbreviation (input) BuiltinOperator_LESS_EQUAL :: int where "BuiltinOperator_LESS_EQUAL \<equiv> 63"
abbreviation (input) BuiltinOperator_SELECT :: int where "BuiltinOperator_SELECT \<equiv> 64"
abbreviation (input) BuiltinOperator_SLICE :: int where "BuiltinOperator_SLICE \<equiv> 65"
abbreviation (input) BuiltinOperator_SIN :: int where "BuiltinOperator_SIN \<equiv> 66"
abbreviation (input) BuiltinOperator_TRANSPOSE_CONV :: int where "BuiltinOperator_TRANSPOSE_CONV \<equiv> 67"
abbreviation (input) BuiltinOperator_SPARSE_TO_DENSE :: int where "BuiltinOperator_SPARSE_TO_DENSE \<equiv> 68"
abbreviation (input) BuiltinOperator_TILE :: int where "BuiltinOperator_TILE \<equiv> 69"
abbreviation (input) BuiltinOperator_EXPAND_DIMS :: int where "BuiltinOperator_EXPAND_DIMS \<equiv> 70"
abbreviation (input) BuiltinOperator_EQUAL :: int where "BuiltinOperator_EQUAL \<equiv> 71"
abbreviation (input) BuiltinOperator_NOT_EQUAL :: int where "BuiltinOperator_NOT_EQUAL \<equiv> 72"
abbreviation (input) BuiltinOperator_LOG :: int where "BuiltinOperator_LOG \<equiv> 73"
abbreviation (input) BuiltinOperator_SUM :: int where "BuiltinOperator_SUM \<equiv> 74"
abbreviation (input) BuiltinOperator_SQRT :: int where "BuiltinOperator_SQRT \<equiv> 75"
abbreviation (input) BuiltinOperator_RSQRT :: int where "BuiltinOperator_RSQRT \<equiv> 76"
abbreviation (input) BuiltinOperator_SHAPE :: int where "BuiltinOperator_SHAPE \<equiv> 77"
abbreviation (input) BuiltinOperator_POW :: int where "BuiltinOperator_POW \<equiv> 78"
abbreviation (input) BuiltinOperator_ARG_MIN :: int where "BuiltinOperator_ARG_MIN \<equiv> 79"
abbreviation (input) BuiltinOperator_FAKE_QUANT :: int where "BuiltinOperator_FAKE_QUANT \<equiv> 80"
abbreviation (input) BuiltinOperator_REDUCE_PROD :: int where "BuiltinOperator_REDUCE_PROD \<equiv> 81"
abbreviation (input) BuiltinOperator_REDUCE_MAX :: int where "BuiltinOperator_REDUCE_MAX \<equiv> 82"
abbreviation (input) BuiltinOperator_PACK :: int where "BuiltinOperator_PACK \<equiv> 83"
abbreviation (input) BuiltinOperator_LOGICAL_OR :: int where "BuiltinOperator_LOGICAL_OR \<equiv> 84"
abbreviation (input) BuiltinOperator_ONE_HOT :: int where "BuiltinOperator_ONE_HOT \<equiv> 85"
abbreviation (input) BuiltinOperator_LOGICAL_AND :: int where "BuiltinOperator_LOGICAL_AND \<equiv> 86"
abbreviation (input) BuiltinOperator_LOGICAL_NOT :: int where "BuiltinOperator_LOGICAL_NOT \<equiv> 87"
abbreviation (input) BuiltinOperator_UNPACK :: int where "BuiltinOperator_UNPACK \<equiv> 88"
abbreviation (input) BuiltinOperator_REDUCE_MIN :: int where "BuiltinOperator_REDUCE_MIN \<equiv> 89"
abbreviation (input) BuiltinOperator_FLOOR_DIV :: int where "BuiltinOperator_FLOOR_DIV \<equiv> 90"
abbreviation (input) BuiltinOperator_REDUCE_ANY :: int where "BuiltinOperator_REDUCE_ANY \<equiv> 91"
abbreviation (input) BuiltinOperator_SQUARE :: int where "BuiltinOperator_SQUARE \<equiv> 92"
abbreviation (input) BuiltinOperator_ZEROS_LIKE :: int where "BuiltinOperator_ZEROS_LIKE \<equiv> 93"
abbreviation (input) BuiltinOperator_FILL :: int where "BuiltinOperator_FILL \<equiv> 94"
abbreviation (input) BuiltinOperator_FLOOR_MOD :: int where "BuiltinOperator_FLOOR_MOD \<equiv> 95"
abbreviation (input) BuiltinOperator_RANGE :: int where "BuiltinOperator_RANGE \<equiv> 96"
abbreviation (input) BuiltinOperator_RESIZE_NEAREST_NEIGHBOR :: int where "BuiltinOperator_RESIZE_NEAREST_NEIGHBOR \<equiv> 97"
abbreviation (input) BuiltinOperator_LEAKY_RELU :: int where "BuiltinOperator_LEAKY_RELU \<equiv> 98"
abbreviation (input) BuiltinOperator_SQUARED_DIFFERENCE :: int where "BuiltinOperator_SQUARED_DIFFERENCE \<equiv> 99"
abbreviation (input) BuiltinOperator_MIRROR_PAD :: int where "BuiltinOperator_MIRROR_PAD \<equiv> 100"
abbreviation (input) BuiltinOperator_ABS :: int where "BuiltinOperator_ABS \<equiv> 101"
abbreviation (input) BuiltinOperator_SPLIT_V :: int where "BuiltinOperator_SPLIT_V \<equiv> 102"
abbreviation (input) BuiltinOperator_UNIQUE :: int where "BuiltinOperator_UNIQUE \<equiv> 103"
abbreviation (input) BuiltinOperator_CEIL :: int where "BuiltinOperator_CEIL \<equiv> 104"
abbreviation (input) BuiltinOperator_REVERSE_V2 :: int where "BuiltinOperator_REVERSE_V2 \<equiv> 105"
abbreviation (input) BuiltinOperator_ADD_N :: int where "BuiltinOperator_ADD_N \<equiv> 106"
abbreviation (input) BuiltinOperator_GATHER_ND :: int where "BuiltinOperator_GATHER_ND \<equiv> 107"
abbreviation (input) BuiltinOperator_COS :: int where "BuiltinOperator_COS \<equiv> 108"
abbreviation (input) BuiltinOperator_WHERE :: int where "BuiltinOperator_WHERE \<equiv> 109"
abbreviation (input) BuiltinOperator_RANK :: int where "BuiltinOperator_RANK \<equiv> 110"
abbreviation (input) BuiltinOperator_ELU :: int where "BuiltinOperator_ELU \<equiv> 111"
abbreviation (input) BuiltinOperator_REVERSE_SEQUENCE :: int where "BuiltinOperator_REVERSE_SEQUENCE \<equiv> 112"
abbreviation (input) BuiltinOperator_MATRIX_DIAG :: int where "BuiltinOperator_MATRIX_DIAG \<equiv> 113"
abbreviation (input) BuiltinOperator_QUANTIZE :: int where "BuiltinOperator_QUANTIZE \<equiv> 114"
abbreviation (input) BuiltinOperator_MATRIX_SET_DIAG :: int where "BuiltinOperator_MATRIX_SET_DIAG \<equiv> 115"
abbreviation (input) BuiltinOperator_ROUND :: int where "BuiltinOperator_ROUND \<equiv> 116"
abbreviation (input) BuiltinOperator_HARD_SWISH :: int where "BuiltinOperator_HARD_SWISH \<equiv> 117"
abbreviation (input) BuiltinOperator_IF :: int where "BuiltinOperator_IF \<equiv> 118"
abbreviation (input) BuiltinOperator_WHILE :: int where "BuiltinOperator_WHILE \<equiv> 119"
abbreviation (input) BuiltinOperator_NON_MAX_SUPPRESSION_V4 :: int where "BuiltinOperator_NON_MAX_SUPPRESSION_V4 \<equiv> 120"
abbreviation (input) BuiltinOperator_NON_MAX_SUPPRESSION_V5 :: int where "BuiltinOperator_NON_MAX_SUPPRESSION_V5 \<equiv> 121"
abbreviation (input) BuiltinOperator_SCATTER_ND :: int where "BuiltinOperator_SCATTER_ND \<equiv> 122"
abbreviation (input) BuiltinOperator_SELECT_V2 :: int where "BuiltinOperator_SELECT_V2 \<equiv> 123"
abbreviation (input) BuiltinOperator_DENSIFY :: int where "BuiltinOperator_DENSIFY \<equiv> 124"
abbreviation (input) BuiltinOperator_SEGMENT_SUM :: int where "BuiltinOperator_SEGMENT_SUM \<equiv> 125"
abbreviation (input) BuiltinOperator_BATCH_MATMUL :: int where "BuiltinOperator_BATCH_MATMUL \<equiv> 126"
abbreviation (input) BuiltinOperator_PLACEHOLDER_FOR_GREATER_OP_CODES :: int where "BuiltinOperator_PLACEHOLDER_FOR_GREATER_OP_CODES \<equiv> 127"
abbreviation (input) BuiltinOperator_CUMSUM :: int where "BuiltinOperator_CUMSUM \<equiv> 128"

abbreviation (input) BuiltinOperator_MIN :: int where "BuiltinOperator_MIN \<equiv> BuiltinOperator_ADD"
abbreviation (input) BuiltinOperator_MAX :: int where "BuiltinOperator_MAX \<equiv> BuiltinOperator_CUMSUM"

abbreviation (input) TensorType_FLOAT32 :: int where "TensorType_FLOAT32 \<equiv> 0"
abbreviation (input) TensorType_FLOAT16 :: int where "TensorType_FLOAT16 \<equiv> 1"
abbreviation (input) TensorType_INT32 :: int where "TensorType_INT32 \<equiv> 2"
abbreviation (input) TensorType_UINT8 :: int where "TensorType_UINT8 \<equiv> 3"
abbreviation (input) TensorType_INT64 :: int where "TensorType_INT64 \<equiv> 4"
abbreviation (input) TensorType_STRING :: int where "TensorType_STRING \<equiv> 5"
abbreviation (input) TensorType_BOOL :: int where "TensorType_BOOL \<equiv> 6"
abbreviation (input) TensorType_INT16 :: int where "TensorType_INT16 \<equiv> 7"
abbreviation (input) TensorType_COMPLEX64 :: int where "TensorType_COMPLEX64 \<equiv> 8"
abbreviation (input) TensorType_INT8 :: int where "TensorType_INT8 \<equiv> 9"
abbreviation (input) TensorType_FLOAT64 :: int where "TensorType_FLOAT64 \<equiv> 10"
abbreviation (input) TensorType_COMPLEX128 :: int where "TensorType_COMPLEX128 \<equiv> 11"

abbreviation (input) LSTMKernelType_FULL :: int where "LSTMKernelType_FULL \<equiv> 0"
abbreviation (input) LSTMKernelType_BASIC :: int where "LSTMKernelType_BASIC \<equiv> 1"
abbreviation (input) FullyConnectedOptionsWeightsFormat_SHUFFLED4x16INT8 :: int where
  "FullyConnectedOptionsWeightsFormat_SHUFFLED4x16INT8 \<equiv> 1"
abbreviation (input) DimensionType_DENSE :: int where "DimensionType_DENSE \<equiv> 0"
abbreviation (input) DimensionType_SPARSE_CSR :: int where "DimensionType_SPARSE_CSR \<equiv> 1"
abbreviation (input) TFLITE_SCHEMA_VERSION :: nat where "TFLITE_SCHEMA_VERSION \<equiv> 3"

section \<open>Tables\<close>

record operator_code =
  deprecated_builtin_code :: "8 word"
  fb_custom_code :: "string option"
  fb_version :: int
  fb_builtin_code :: int

text \<open>The union of index vectors; its tag may be one that no constructor has.\<close>

datatype sparse_index_vector =
    Int32Vector "int list option"
  | Uint16Vector "int list option"
  | Uint8Vector "int list option"
  | NoIndexVector

record fb_dimension_metadata =
  fb_format :: int
  fb_dense_size :: int
  fb_array_segments :: "sparse_index_vector option"
  fb_array_indices :: "sparse_index_vector option"

record fb_sparsity =
  fb_traversal_order :: "int list option"
  fb_block_map :: "int list option"
  fb_dim_metadata :: "fb_dimension_metadata list option"

text \<open>Scales are the bit patterns of floats.\<close>

record fb_quantization =
  fb_scale :: "32 word list option"
  fb_zero_point :: "int list option"
  fb_quantized_dimension :: int

record fb_tensor =
  fb_shape :: "int list option"
  fb_type :: int
  fb_buffer :: nat
  fb_name :: "string option"
  fb_tensor_quantization :: "fb_quantization option"
  fb_is_variable :: bool
  fb_tensor_sparsity :: "fb_sparsity option"
  fb_shape_signature :: "int list option"

text \<open>The builtin options that the tools read; the others are \<open>OtherOptions\<close>.\<close>

datatype builtin_options =
    DepthwiseConv2DOptions int int
  | FakeQuantOptions bool
  | FullyConnectedOptions bool int bool
  | AddOptions bool
  | SubOptions bool
  | LSTMOptions int bool
  | ResizeBilinearOptions bool bool
  | ResizeNearestNeighborOptions bool bool
  | OtherOptions nat

record fb_operator =
  fb_opcode_index :: nat
  fb_op_inputs :: "int list option"
  fb_op_outputs :: "int list option"
  fb_op_intermediates :: "int list option"
  fb_builtin_options :: "builtin_options option"
  fb_custom_options :: "(nat \<times> nat) option"

record fb_subgraph =
  fb_tensors :: "fb_tensor list option"
  fb_inputs :: "int list option"
  fb_outputs :: "int list option"
  fb_operators :: "fb_operator list option"

text \<open>A buffer table may be absent, its data may be absent, and the data may be empty.\<close>

type_synonym fb_buffer = "(nat \<times> nat) option"

record fb_model =
  fb_model_version :: nat
  fb_operator_codes :: "operator_code list option"
  fb_subgraphs :: "fb_subgraph list option"
  fb_buffers :: "fb_buffer option list option"
  fb_metadata :: "(string \<times> nat) list option"

section \<open>Types of elements\<close>

text \<open>\<^verbatim>\<open>ConvertTensorType\<close> of \<^verbatim>\<open>core/api/flatbuffer_conversions.cc\<close>.\<close>

definition ConvertTensorType :: "int \<Rightarrow> tflite_status \<times> tflite_type" where
  "ConvertTensorType type =
     (if type = TensorType_FLOAT16 then (kTfLiteOk, kTfLiteFloat16)
      else if type = TensorType_FLOAT32 then (kTfLiteOk, kTfLiteFloat32)
      else if type = TensorType_FLOAT64 then (kTfLiteOk, kTfLiteFloat64)
      else if type = TensorType_INT16 then (kTfLiteOk, kTfLiteInt16)
      else if type = TensorType_INT32 then (kTfLiteOk, kTfLiteInt32)
      else if type = TensorType_UINT8 then (kTfLiteOk, kTfLiteUInt8)
      else if type = TensorType_INT8 then (kTfLiteOk, kTfLiteInt8)
      else if type = TensorType_INT64 then (kTfLiteOk, kTfLiteInt64)
      else if type = TensorType_STRING then (kTfLiteOk, kTfLiteString)
      else if type = TensorType_BOOL then (kTfLiteOk, kTfLiteBool)
      else if type = TensorType_COMPLEX64 then (kTfLiteOk, kTfLiteComplex64)
      else if type = TensorType_COMPLEX128 then (kTfLiteOk, kTfLiteComplex128)
      else (kTfLiteError, kTfLiteNoType))"

end
