(* ===== verification/Op_Resolver.thy ===== *)
theory Op_Resolver
  imports Model_Schema Subgraph
begin

text \<open>
  How an operator of a model is matched with a kernel: \<^verbatim>\<open>schema/schema_utils.cc\<close> (the code of an
  operator), \<^verbatim>\<open>core/api/op_resolver.{h,cc}\<close> (the interface \<^verbatim>\<open>OpResolver\<close> and its client
  \<^verbatim>\<open>GetRegistrationFromOpCode\<close>), \<^verbatim>\<open>mutable_op_resolver.{h,cc}\<close> (the implementation) and
  \<^verbatim>\<open>kernels/register.cc\<close> (what the default resolver holds).

  An object of a class derived from \<^verbatim>\<open>OpResolver\<close> is the record of its virtual functions; a
  pointer to a registration is the registration it points to. The hash tables are maps: nothing in
  the code depends on the order of their entries.
\<close>

section \<open>The code of an operator\<close>

definition GetBuiltinCode :: "operator_code \<Rightarrow> int" where
  "GetBuiltinCode op_code = max (fb_builtin_code op_code) (sint (deprecated_builtin_code op_code))"

definition ConvertBuiltinCodeToDeprecatedBuiltinCode :: "int \<Rightarrow> 8 word" where
  "ConvertBuiltinCodeToDeprecatedBuiltinCode code =
     (if code < BuiltinOperator_PLACEHOLDER_FOR_GREATER_OP_CODES
      then word_of_int code
      else word_of_int BuiltinOperator_PLACEHOLDER_FOR_GREATER_OP_CODES)"

text \<open>The two functions \<^verbatim>\<open>CreateOperatorCode\<close> and \<^verbatim>\<open>CreateOperatorCodeDirect\<close>: the table they write.\<close>

definition CreateOperatorCode :: "int \<Rightarrow> string option \<Rightarrow> int \<Rightarrow> operator_code" where
  "CreateOperatorCode code custom_code version =
     \<lparr>deprecated_builtin_code = ConvertBuiltinCodeToDeprecatedBuiltinCode code,
      fb_custom_code = custom_code, fb_version = version, fb_builtin_code = code\<rparr>"

section \<open>Resolvers\<close>

record op_resolver =
  FindBuiltin :: "int \<Rightarrow> int \<Rightarrow> registration option"
  FindCustom :: "string \<Rightarrow> int \<Rightarrow> registration option"
  GetDelegates :: "int \<Rightarrow> delegate_id list"

definition GetRegistrationFromOpCode ::
  "operator_code \<Rightarrow> op_resolver \<Rightarrow> tflite_status \<times> registration option" where
  "GetRegistrationFromOpCode opcode R =
     (let builtin_code = GetBuiltinCode opcode;
          version = fb_version opcode
      in if builtin_code > BuiltinOperator_MAX \<or> builtin_code < BuiltinOperator_MIN
         then (kTfLiteError, None)
         else if builtin_code \<noteq> BuiltinOperator_CUSTOM
         then (case FindBuiltin R builtin_code version of
                 None \<Rightarrow> (kTfLiteError, None) | Some r \<Rightarrow> (kTfLiteOk, Some r))
         else case fb_custom_code opcode of
                None \<Rightarrow> (kTfLiteError, None)
              | Some name \<Rightarrow>
                  (case FindCustom R name version of
                     None \<Rightarrow> (kTfLiteError, None) | Some r \<Rightarrow> (kTfLiteOk, Some r)))"

section \<open>The mutable resolver\<close>

record mutable_op_resolver =
  builtins :: "int \<times> int \<rightharpoonup> registration"
  custom_ops :: "string \<times> int \<rightharpoonup> registration"

definition MutableOpResolver :: mutable_op_resolver where
  "MutableOpResolver = \<lparr>builtins = Map.empty, custom_ops = Map.empty\<rparr>"

definition FindOp :: "mutable_op_resolver \<Rightarrow> int \<Rightarrow> int \<Rightarrow> registration option" where
  "FindOp m op version = builtins m (op, version)"

definition FindOp_custom :: "mutable_op_resolver \<Rightarrow> string \<Rightarrow> int \<Rightarrow> registration option" where
  "FindOp_custom m op version = custom_ops m (op, version)"

definition AddBuiltin :: "int \<Rightarrow> registration \<Rightarrow> int \<Rightarrow> mutable_op_resolver \<Rightarrow> mutable_op_resolver" where
  "AddBuiltin op r version m =
     (let new_registration = r\<lparr>custom_name := None, builtin_code := op, op_version := version\<rparr>
      in m\<lparr>builtins := (builtins m)((op, version) \<mapsto> new_registration)\<rparr>)"

definition AddCustom :: "string \<Rightarrow> registration \<Rightarrow> int \<Rightarrow> mutable_op_resolver \<Rightarrow> mutable_op_resolver" where
  "AddCustom name r version m =
     (let new_registration = r\<lparr>builtin_code := BuiltinOperator_CUSTOM, custom_name := Some name,
                               op_version := version\<rparr>
      in m\<lparr>custom_ops := (custom_ops m)((name, version) \<mapsto> new_registration)\<rparr>)"

text \<open>
  The two functions for a range of versions. A last version of \<open>2\<^sup>3\<^sup>1 - 1\<close> makes the loop overflow its
  counter, which is \<^term>\<open>None\<close>.
\<close>

definition for_versions :: "(int \<Rightarrow> 'm \<Rightarrow> 'm) \<Rightarrow> int \<Rightarrow> int \<Rightarrow> 'm \<Rightarrow> 'm option" where
  "for_versions add min_version max_version m =
     (if min_version \<le> max_version \<and> max_version = 2 ^ 31 - 1 then None
      else Some (fold add [min_version..max_version] m))"

definition AddBuiltin_range ::
  "int \<Rightarrow> registration \<Rightarrow> int \<Rightarrow> int \<Rightarrow> mutable_op_resolver \<Rightarrow> mutable_op_resolver option" where
  "AddBuiltin_range op r = for_versions (AddBuiltin op r)"

definition AddCustom_range ::
  "string \<Rightarrow> registration \<Rightarrow> int \<Rightarrow> int \<Rightarrow> mutable_op_resolver \<Rightarrow> mutable_op_resolver option" where
  "AddCustom_range name r = for_versions (AddCustom name r)"

text \<open>
  \<^verbatim>\<open>AddAll\<close>, over the entries of the other resolver in the order in which its tables list them.
\<close>

definition AddAll ::
  "((int \<times> int) \<times> registration) list \<Rightarrow> ((string \<times> int) \<times> registration) list
   \<Rightarrow> mutable_op_resolver \<Rightarrow> mutable_op_resolver" where
  "AddAll other_builtins other_custom_ops m =
     m\<lparr>builtins := fold (\<lambda>(k, r) b. b(k \<mapsto> r)) other_builtins (builtins m),
       custom_ops := fold (\<lambda>(k, r) c. c(k \<mapsto> r)) other_custom_ops (custom_ops m)\<rparr>"

definition as_resolver :: "(int \<Rightarrow> delegate_id list) \<Rightarrow> mutable_op_resolver \<Rightarrow> op_resolver" where
  "as_resolver delegates m =
     \<lparr>FindBuiltin = FindOp m, FindCustom = FindOp_custom m, GetDelegates = delegates\<rparr>"

section \<open>The default resolver\<close>

text \<open>
  The calls of \<^verbatim>\<open>AddBuiltin\<close> in the constructor of \<^verbatim>\<open>BuiltinOpResolver\<close>, in their order: code, first
  and last version (1 by default). The registrations of the kernels are the argument \<open>reg\<close>.
\<close>

definition builtin_ops_1 :: "(int \<times> int \<times> int) list" where
  "builtin_ops_1 =
    [(BuiltinOperator_ABS, 1, 2),
     (BuiltinOperator_HARD_SWISH, 1, 1),
     (BuiltinOperator_RELU, 1, 2),
     (BuiltinOperator_RELU_N1_TO_1, 1, 1),
     (BuiltinOperator_RELU6, 1, 2),
     (BuiltinOperator_TANH, 1, 3),
     (BuiltinOperator_LOGISTIC, 1, 3),
     (BuiltinOperator_AVERAGE_POOL_2D, 1, 3),
     (BuiltinOperator_MAX_POOL_2D, 1, 3),
     (BuiltinOperator_L2_POOL_2D, 1, 1),
     (BuiltinOperator_CONV_2D, 1, 5),
     (BuiltinOperator_DEPTHWISE_CONV_2D, 1, 6),
     (BuiltinOperator_SVDF, 1, 4),
     (BuiltinOperator_RNN, 1, 3),
     (BuiltinOperator_BIDIRECTIONAL_SEQUENCE_RNN, 1, 3),
     (BuiltinOperator_UNIDIRECTIONAL_SEQUENCE_RNN, 1, 3),
     (BuiltinOperator_EMBEDDING_LOOKUP, 1, 3),
     (BuiltinOperator_EMBEDDING_LOOKUP_SPARSE, 1, 1),
     (BuiltinOperator_FULLY_CONNECTED, 1, 9),
     (BuiltinOperator_LSH_PROJECTION, 1, 1),
     (BuiltinOperator_HASHTABLE_LOOKUP, 1, 1),
     (BuiltinOperator_SOFTMAX, 1, 3),
     (BuiltinOperator_CONCATENATION, 1, 3),
     (BuiltinOperator_ADD, 1, 4),
     (BuiltinOperator_SPACE_TO_BATCH_ND, 1, 3),
     (BuiltinOperator_BATCH_TO_SPACE_ND, 1, 3),
     (BuiltinOperator_MUL, 1, 4),
     (BuiltinOperator_L2_NORMALIZATION, 1, 2),
     (BuiltinOperator_LOCAL_RESPONSE_NORMALIZATION, 1, 1),
     (BuiltinOperator_LSTM, 1, 4),
     (BuiltinOperator_BIDIRECTIONAL_SEQUENCE_LSTM, 1, 3),
     (BuiltinOperator_UNIDIRECTIONAL_SEQUENCE_LSTM, 1, 3),
     (BuiltinOperator_PAD, 1, 3),
     (BuiltinOperator_PADV2, 1, 3),
     (BuiltinOperator_RESHAPE, 1, 1),
     (BuiltinOperator_RESIZE_BILINEAR, 1, 3),
     (BuiltinOperator_RESIZE_NEAREST_NEIGHBOR, 1, 4),
     (BuiltinOperator_SKIP_GRAM, 1, 1),
     (BuiltinOperator_SPACE_TO_DEPTH, 1, 2),
     (BuiltinOperator_DEPTH_TO_SPACE, 1, 1),
     (BuiltinOperator_GATHER, 1, 4),
     (BuiltinOperator_TRANSPOSE, 1, 5),
     (BuiltinOperator_MEAN, 1, 3),
     (BuiltinOperator_DIV, 1, 2),
     (BuiltinOperator_SUB, 1, 5),
     (BuiltinOperator_SPLIT, 1, 4),
     (BuiltinOperator_SPLIT_V, 1, 2),
     (BuiltinOperator_SQUEEZE, 1, 1),
     (BuiltinOperator_STRIDED_SLICE, 1, 4),
     (BuiltinOperator_EXP, 1, 1),
     (BuiltinOperator_TOPK_V2, 1, 2),
     (BuiltinOperator_LOG, 1, 1),
     (BuiltinOperator_LOG_SOFTMAX, 1, 2),
     (BuiltinOperator_CAST, 1, 1),
     (BuiltinOperator_DEQUANTIZE, 1, 4),
     (BuiltinOperator_PRELU, 1, 1),
     (BuiltinOperator_MAXIMUM, 1, 4),
     (BuiltinOperator_MINIMUM, 1, 4),
     (BuiltinOperator_ARG_MAX, 1, 2),
     (BuiltinOperator_ARG_MIN, 1, 2),
     (BuiltinOperator_GREATER, 1, 2),
     (BuiltinOperator_GREATER_EQUAL, 1, 2)]"

definition builtin_ops_2 :: "(int \<times> int \<times> int) list" where
  "builtin_ops_2 =
    [(BuiltinOperator_LESS, 1, 2),
     (BuiltinOperator_LESS_EQUAL, 1, 2),
     (BuiltinOperator_FLOOR, 1, 1),
     (BuiltinOperator_CEIL, 1, 1),
     (BuiltinOperator_ROUND, 1, 1),
     (BuiltinOperator_NEG, 1, 1),
     (BuiltinOperator_SELECT, 1, 2),
     (BuiltinOperator_SELECT_V2, 1, 1),
     (BuiltinOperator_SLICE, 1, 4),
     (BuiltinOperator_SIN, 1, 1),
     (BuiltinOperator_COS, 1, 1),
     (BuiltinOperator_TRANSPOSE_CONV, 1, 3),
     (BuiltinOperator_TILE, 1, 2),
     (BuiltinOperator_SUM, 1, 2),
     (BuiltinOperator_REDUCE_PROD, 1, 1),
     (BuiltinOperator_REDUCE_MAX, 1, 2),
     (BuiltinOperator_REDUCE_MIN, 1, 2),
     (BuiltinOperator_REDUCE_ANY, 1, 1),
     (BuiltinOperator_EXPAND_DIMS, 1, 1),
     (BuiltinOperator_SPARSE_TO_DENSE, 1, 3),
     (BuiltinOperator_EQUAL, 1, 3),
     (BuiltinOperator_NOT_EQUAL, 1, 3),
     (BuiltinOperator_SQRT, 1, 1),
     (BuiltinOperator_RSQRT, 1, 1),
     (BuiltinOperator_SHAPE, 1, 1),
     (BuiltinOperator_RANK, 1, 1),
     (BuiltinOperator_POW, 1, 1),
     (BuiltinOperator_FAKE_QUANT, 1, 2),
     (BuiltinOperator_PACK, 1, 3),
     (BuiltinOperator_ONE_HOT, 1, 1),
     (BuiltinOperator_LOGICAL_OR, 1, 1),
     (BuiltinOperator_LOGICAL_AND, 1, 1),
     (BuiltinOperator_LOGICAL_NOT, 1, 1),
     (BuiltinOperator_UNPACK, 1, 4),
     (BuiltinOperator_FLOOR_DIV, 1, 2),
     (BuiltinOperator_SQUARE, 1, 1),
     (BuiltinOperator_ZEROS_LIKE, 1, 1),
     (BuiltinOperator_FLOOR_MOD, 1, 1),
     (BuiltinOperator_RANGE, 1, 1),
     (BuiltinOperator_LEAKY_RELU, 1, 2),
     (BuiltinOperator_SQUARED_DIFFERENCE, 1, 1),
     (BuiltinOperator_FILL, 1, 2),
     (BuiltinOperator_MIRROR_PAD, 1, 2),
     (BuiltinOperator_UNIQUE, 1, 1),
     (BuiltinOperator_REVERSE_V2, 1, 2),
     (BuiltinOperator_ADD_N, 1, 1),
     (BuiltinOperator_GATHER_ND, 1, 2),
     (BuiltinOperator_WHERE, 1, 1),
     (BuiltinOperator_ELU, 1, 1),
     (BuiltinOperator_REVERSE_SEQUENCE, 1, 1),
     (BuiltinOperator_MATRIX_DIAG, 1, 1),
     (BuiltinOperator_QUANTIZE, 1, 2),
     (BuiltinOperator_MATRIX_SET_DIAG, 1, 1),
     (BuiltinOperator_IF, 1, 1),
     (BuiltinOperator_WHILE, 1, 1),
     (BuiltinOperator_NON_MAX_SUPPRESSION_V4, 1, 1),
     (BuiltinOperator_NON_MAX_SUPPRESSION_V5, 1, 1),
     (BuiltinOperator_SCATTER_ND, 1, 1),
     (BuiltinOperator_DENSIFY, 1, 1),
     (BuiltinOperator_SEGMENT_SUM, 1, 1),
     (BuiltinOperator_BATCH_MATMUL, 1, 3),
     (BuiltinOperator_CUMSUM, 1, 1)]"

definition builtin_ops :: "(int \<times> int \<times> int) list" where
  "builtin_ops = builtin_ops_1 @ builtin_ops_2"

definition custom_op_names :: "string list" where
  "custom_op_names = [''NumericVerify'', ''Mfcc'', ''AudioSpectrogram'', ''TFLite_Detection_PostProcess'', ''CTCGreedyDecoder'']"

definition add_builtins :: "(int \<Rightarrow> registration) \<Rightarrow> (int \<times> int \<times> int) list
    \<Rightarrow> mutable_op_resolver \<Rightarrow> mutable_op_resolver option" where
  "add_builtins reg ops m =
     fold (\<lambda>(op, lo, hi) m. Option.bind m (AddBuiltin_range op (reg op) lo hi)) ops (Some m)"

definition BuiltinOpResolver ::
  "(int \<Rightarrow> registration) \<Rightarrow> (string \<Rightarrow> registration) \<Rightarrow> mutable_op_resolver option" where
  "BuiltinOpResolver reg custom_reg =
     map_option (fold (\<lambda>name. AddCustom name (custom_reg name) 1) custom_op_names)
       (add_builtins reg builtin_ops MutableOpResolver)"

text \<open>\<open>xnnpack\<close> is what the weak function \<^verbatim>\<open>MaybeCreateXNNPACKDelegate\<close> returns.\<close>

definition BuiltinOpResolver_GetDelegates :: "(int \<Rightarrow> delegate_id option) \<Rightarrow> int \<Rightarrow> delegate_id list" where
  "BuiltinOpResolver_GetDelegates xnnpack num_threads =
     (case xnnpack num_threads of None \<Rightarrow> [] | Some d \<Rightarrow> [d])"

definition WithoutDefaultDelegates_GetDelegates :: "int \<Rightarrow> delegate_id list" where
  "WithoutDefaultDelegates_GetDelegates num_threads = []"

section \<open>The code of an operator, written and read\<close>

text \<open>
  The code that \<^verbatim>\<open>CreateOperatorCode\<close> writes into the two fields of an operator code is the
  one \<^verbatim>\<open>GetBuiltinCode\<close> reads back, also for codes that do not fit into the deprecated byte.
\<close>

theorem GetBuiltinCode_CreateOperatorCode:
  assumes "0 \<le> code"
  shows "GetBuiltinCode (CreateOperatorCode code custom version) = code"
proof (cases "code < 127")
  case True
  then have "sint (word_of_int code :: 8 word) = code"
    using assms by (simp add: signed_of_int signed_take_bit_int_eq_self)
  then show ?thesis
    using True by (simp add: GetBuiltinCode_def CreateOperatorCode_def
        ConvertBuiltinCodeToDeprecatedBuiltinCode_def)
next
  case False
  then show ?thesis
    by (simp add: GetBuiltinCode_def CreateOperatorCode_def
        ConvertBuiltinCodeToDeprecatedBuiltinCode_def)
qed

lemma GetBuiltinCode_CreateOperatorCode_witness:
  "GetBuiltinCode (CreateOperatorCode BuiltinOperator_CUMSUM None 1) = 128"
  using GetBuiltinCode_CreateOperatorCode [of BuiltinOperator_CUMSUM None 1] by simp

section \<open>The contract of a resolver\<close>

text \<open>
  What \<^verbatim>\<open>GetRegistrationFromOpCode\<close> relies on: a registration that is found carries the code, the
  name and, unless the resolver disregards it, the version it was asked for.
\<close>

locale resolver_by_code =
  fixes resolve :: "'m \<Rightarrow> op_resolver" and well_kept :: "'m \<Rightarrow> bool"
  assumes found_code: "well_kept m \<Longrightarrow> FindBuiltin (resolve m) op version = Some r \<Longrightarrow> builtin_code r = op"
    and found_name: "well_kept m \<Longrightarrow> FindCustom (resolve m) name version = Some r \<Longrightarrow>
      builtin_code r = BuiltinOperator_CUSTOM \<and> custom_name r = Some name"
begin

lemma registration_carries_code:
  assumes "well_kept m" "GetRegistrationFromOpCode code (resolve m) = (kTfLiteOk, r)"
  obtains r' where "r = Some r'" "builtin_code r' = GetBuiltinCode code"
    "GetBuiltinCode code = BuiltinOperator_CUSTOM \<Longrightarrow> custom_name r' = fb_custom_code code"
    "FindBuiltin (resolve m) (GetBuiltinCode code) (fb_version code) = Some r'
     \<or> (\<exists>name. FindCustom (resolve m) name (fb_version code) = Some r')"
proof (cases "GetBuiltinCode code = BuiltinOperator_CUSTOM")
  case True
  with assms(2) obtain name where name: "fb_custom_code code = Some name"
    by (auto simp: GetRegistrationFromOpCode_def split: option.splits)
  with True assms(2) obtain r' where r': "r = Some r'" "FindCustom (resolve m) name (fb_version code) = Some r'"
    by (cases "FindCustom (resolve m) name (fb_version code)")
      (auto simp: GetRegistrationFromOpCode_def Let_def)
  show ?thesis
    by (rule that [OF r'(1)]) (use found_name [OF assms(1) r'(2)] r'(2) True name in auto)
next
  case False
  with assms(2) have "FindBuiltin (resolve m) (GetBuiltinCode code) (fb_version code) = r \<and> r \<noteq> None"
    by (auto simp: GetRegistrationFromOpCode_def Let_def split: if_splits option.splits
        dest: sym)
  then show ?thesis
    using found_code [OF assms(1)] that False by auto
qed

end

locale op_resolver_contract = resolver_by_code +
  assumes found_version: "well_kept m \<Longrightarrow> FindBuiltin (resolve m) op version = Some r \<Longrightarrow>
      op_version r = version \<and> custom_name r = None"
    and found_custom_version: "well_kept m \<Longrightarrow> FindCustom (resolve m) name version = Some r \<Longrightarrow> op_version r = version"
begin

lemma registration_matches:
  assumes "well_kept m" "GetRegistrationFromOpCode code (resolve m) = (kTfLiteOk, r)"
  obtains r' where "r = Some r'" "builtin_code r' = GetBuiltinCode code"
    "op_version r' = fb_version code"
    "GetBuiltinCode code = BuiltinOperator_CUSTOM \<Longrightarrow> custom_name r' = fb_custom_code code"
  by (rule registration_carries_code [OF assms])
    (use found_version [OF assms(1)] found_custom_version [OF assms(1)] that in blast)

end

text \<open>A resolver that grows: what is added is found, and nothing else changes.\<close>

locale growing_resolver = op_resolver_contract +
  fixes add :: "int \<Rightarrow> registration \<Rightarrow> int \<Rightarrow> 'a \<Rightarrow> 'a"
  assumes add_kept: "well_kept m \<Longrightarrow> well_kept (add op r version m)"
    and find_added: "FindBuiltin (resolve (add op r version m)) op' version' =
      (if op' = op \<and> version' = version
       then Some (r\<lparr>custom_name := None, builtin_code := op, op_version := version\<rparr>)
       else FindBuiltin (resolve m) op' version')"
begin

lemma fold_kept: "well_kept m \<Longrightarrow> well_kept (fold (add op r) vs m)"
  by (induction vs arbitrary: m) (simp_all add: add_kept)

lemma find_fold: "FindBuiltin (resolve (fold (add op r) vs m)) op' version' =
    (if op' = op \<and> version' \<in> set vs
     then Some (r\<lparr>custom_name := None, builtin_code := op, op_version := version'\<rparr>)
     else FindBuiltin (resolve m) op' version')"
  by (induction vs arbitrary: m) (auto simp: find_added)

lemma find_range:
  assumes "for_versions (add op r) lo hi m = Some m'"
  shows "FindBuiltin (resolve m') op' version =
    (if op' = op \<and> lo \<le> version \<and> version \<le> hi
     then Some (r\<lparr>custom_name := None, builtin_code := op, op_version := version\<rparr>)
     else FindBuiltin (resolve m) op' version)"
  using assms by (auto simp: for_versions_def find_fold split: if_splits)

lemma range_kept:
  "well_kept m \<Longrightarrow> for_versions (add op r) lo hi m = Some m' \<Longrightarrow> well_kept m'"
  by (auto simp: for_versions_def fold_kept split: if_splits)

end

definition well_kept :: "mutable_op_resolver \<Rightarrow> bool" where
  "well_kept m \<longleftrightarrow>
     (\<forall>op version r. builtins m (op, version) = Some r \<longrightarrow>
        builtin_code r = op \<and> op_version r = version \<and> custom_name r = None)
     \<and> (\<forall>name version r. custom_ops m (name, version) = Some r \<longrightarrow>
        builtin_code r = BuiltinOperator_CUSTOM \<and> op_version r = version \<and> custom_name r = Some name)"

interpretation mutable: growing_resolver "as_resolver delegates" well_kept AddBuiltin
  for delegates
  by unfold_locales (auto simp: well_kept_def as_resolver_def FindOp_def FindOp_custom_def
      AddBuiltin_def Let_def)

lemma well_kept_empty: "well_kept MutableOpResolver"
  by (simp add: well_kept_def MutableOpResolver_def)

lemma AddCustom_kept: "well_kept m \<Longrightarrow> well_kept (AddCustom name r version m)"
  by (auto simp: well_kept_def AddCustom_def Let_def)

text \<open>\<^verbatim>\<open>AddAll\<close> does not depend on the order in which the tables list their entries.\<close>

lemma fold_entries: "distinct (map fst es) \<Longrightarrow> fold (\<lambda>(k, r) b. b(k \<mapsto> r)) es b = b ++ map_of es"
proof (induction es arbitrary: b)
  case (Cons e es)
  then show ?case
    by (cases e) (auto simp: fun_eq_iff map_add_def map_of_eq_None_iff split: option.splits
        dest!: map_of_SomeD intro: rev_image_eqI)
qed simp

text \<open>
  \<^verbatim>\<open>MutableOpResolver::AddAll\<close> leaves in the table every entry of the other resolver, which
  replaces an entry of its own for the same operator and version, and its own other entries, in
  whatever order the hash tables of the other are listed; and lookups stay truthful.
\<close>

theorem AddAll_union:
  assumes "distinct (map fst bs)" and "distinct (map fst cs)"
    and "map_of bs = builtins other" and "map_of cs = custom_ops other"
  shows "FindOp (AddAll bs cs m) op version =
      (case FindOp other op version of None \<Rightarrow> FindOp m op version | Some r \<Rightarrow> Some r)
    \<and> FindOp_custom (AddAll bs cs m) name version =
      (case FindOp_custom other name version of None \<Rightarrow> FindOp_custom m name version | Some r \<Rightarrow> Some r)
    \<and> (well_kept m \<and> well_kept other \<longrightarrow> well_kept (AddAll bs cs m))"
proof -
  have b: "builtins (AddAll bs cs m) = builtins m ++ builtins other"
    and c: "custom_ops (AddAll bs cs m) = custom_ops m ++ custom_ops other"
    using assms by (simp_all add: AddAll_def fold_entries)
  have "well_kept m \<and> well_kept other \<longrightarrow> well_kept (AddAll bs cs m)"
    unfolding well_kept_def b c by (auto simp: map_add_Some_iff)
  then show ?thesis
    by (simp add: b c FindOp_def FindOp_custom_def map_add_def split: option.splits)
qed

section \<open>What the default resolver finds\<close>

definition listed :: "(int \<times> int \<times> int) list \<Rightarrow> int \<Rightarrow> int \<Rightarrow> bool" where
  "listed ops op version \<longleftrightarrow> list_ex (\<lambda>(op', lo, hi). op' = op \<and> lo \<le> version \<and> version \<le> hi) ops"

lemma add_builtins_Cons:
  "add_builtins reg ((op, lo, hi) # ops) m =
     Option.bind (AddBuiltin_range op (reg op) lo hi m) (add_builtins reg ops)"
proof -
  have none: "fold (\<lambda>(op, lo, hi) m. Option.bind m (AddBuiltin_range op (reg op) lo hi)) ops None = None"
    by (induction ops) auto
  show ?thesis
    by (cases "AddBuiltin_range op (reg op) lo hi m") (simp_all add: add_builtins_def none)
qed

lemma add_builtins_finds:
  assumes "list_all (\<lambda>(op, lo, hi). hi < 2 ^ 31 - 1) ops" and "well_kept m"
  shows "\<exists>m'. add_builtins reg ops m = Some m' \<and> well_kept m'
    \<and> (\<forall>op version. FindOp m' op version =
          (if listed ops op version
           then Some ((reg op)\<lparr>custom_name := None, builtin_code := op, op_version := version\<rparr>)
           else FindOp m op version))"
  using assms
proof (induction ops arbitrary: m)
  case Nil
  then show ?case by (simp add: add_builtins_def listed_def)
next
  case (Cons o' ops)
  obtain op lo hi where o: "o' = (op, lo, hi)" by (cases o')
  obtain m1 where m1: "AddBuiltin_range op (reg op) lo hi m = Some m1"
    using Cons.prems o by (auto simp: AddBuiltin_range_def for_versions_def)
  note range = m1 [unfolded AddBuiltin_range_def]
  have "well_kept m1" by (rule mutable.range_kept [OF Cons.prems(2) range])
  then obtain m' where "add_builtins reg ops m1 = Some m'" "well_kept m'"
    "\<forall>op version. FindOp m' op version =
        (if listed ops op version
         then Some ((reg op)\<lparr>custom_name := None, builtin_code := op, op_version := version\<rparr>)
         else FindOp m1 op version)"
    using Cons.IH [of m1] Cons.prems(1) by auto
  moreover have "FindOp m1 op' version' =
      (if op' = op \<and> lo \<le> version' \<and> version' \<le> hi
       then Some ((reg op)\<lparr>custom_name := None, builtin_code := op, op_version := version'\<rparr>)
       else FindOp m op' version')" for op' version'
    using mutable.find_range [OF range, of "\<lambda>_. []" op' version'] by (simp add: as_resolver_def)
  ultimately show ?case
    using m1 by (auto simp: o add_builtins_Cons listed_def)
qed

lemma add_builtins_custom:
  "add_builtins reg ops m = Some m' \<Longrightarrow> FindOp_custom m name version = None \<Longrightarrow>
   FindOp_custom m' name version = None"
proof (induction ops arbitrary: m)
  case (Cons o' ops)
  have "FindOp_custom (fold (AddBuiltin op r) vs m) = FindOp_custom m" for op r vs
  proof (induction vs arbitrary: m)
    case (Cons v vs)
    then show ?case by (simp add: fun_eq_iff FindOp_custom_def AddBuiltin_def)
  qed simp
  then show ?case
    using Cons by (cases o') (auto simp: add_builtins_Cons AddBuiltin_range_def for_versions_def
        bind_eq_Some_conv split: if_splits)
qed (simp add: add_builtins_def)

lemma AddCustom_fold:
  assumes "well_kept m"
  shows "well_kept (fold (\<lambda>name. AddCustom name (reg name) 1) names m)
    \<and> FindOp (fold (\<lambda>name. AddCustom name (reg name) 1) names m) = FindOp m
    \<and> FindOp_custom (fold (\<lambda>name. AddCustom name (reg name) 1) names m) = (\<lambda>name version.
        if name \<in> set names \<and> version = 1
        then Some ((reg name)\<lparr>builtin_code := BuiltinOperator_CUSTOM, custom_name := Some name,
                              op_version := 1\<rparr>)
        else FindOp_custom m name version)"
  using assms
proof (induction names arbitrary: m)
  case (Cons n names)
  have "FindOp (AddCustom n (reg n) 1 m) = FindOp m"
    by (simp add: fun_eq_iff FindOp_def AddCustom_def)
  moreover have "FindOp_custom (AddCustom n (reg n) 1 m) = (\<lambda>name version.
      if name = n \<and> version = 1
      then Some ((reg n)\<lparr>builtin_code := BuiltinOperator_CUSTOM, custom_name := Some n, op_version := 1\<rparr>)
      else FindOp_custom m name version)"
    by (auto simp: fun_eq_iff FindOp_custom_def AddCustom_def)
  ultimately show ?case
    using Cons.IH [OF AddCustom_kept [OF Cons.prems, of n "reg n" 1]] by (auto simp: fun_eq_iff)
qed simp

lemma BuiltinOpResolver_tables:
  "\<exists>m. BuiltinOpResolver reg custom_reg = Some m \<and> well_kept m
    \<and> (\<forall>op version. FindOp m op version =
         (if listed builtin_ops op version
          then Some ((reg op)\<lparr>custom_name := None, builtin_code := op, op_version := version\<rparr>)
          else None))
    \<and> (\<forall>name version. FindOp_custom m name version =
         (if name \<in> set custom_op_names \<and> version = 1
          then Some ((custom_reg name)\<lparr>builtin_code := BuiltinOperator_CUSTOM,
                                       custom_name := Some name, op_version := 1\<rparr>)
          else None))"
proof -
  have "list_all (\<lambda>(op, lo, hi). hi < 2 ^ 31 - 1) builtin_ops"
    by (simp add: builtin_ops_def builtin_ops_1_def builtin_ops_2_def)
  from add_builtins_finds [OF this well_kept_empty, of reg] obtain m where
    m: "add_builtins reg builtin_ops MutableOpResolver = Some m" "well_kept m"
    and finds: "\<forall>op version. FindOp m op version =
      (if listed builtin_ops op version
       then Some ((reg op)\<lparr>custom_name := None, builtin_code := op, op_version := version\<rparr>)
       else FindOp MutableOpResolver op version)" by blast
  let ?m = "fold (\<lambda>name. AddCustom name (custom_reg name) 1) custom_op_names m"
  have "FindOp_custom m name version = None" for name version
    by (rule add_builtins_custom [OF m(1)]) (simp add: FindOp_custom_def MutableOpResolver_def)
  moreover have "FindOp MutableOpResolver op version = None" for op version
    by (simp add: FindOp_def MutableOpResolver_def)
  moreover note AddCustom_fold [OF m(2), of custom_reg custom_op_names] finds
  moreover have "BuiltinOpResolver reg custom_reg = Some ?m"
    by (simp add: BuiltinOpResolver_def m(1))
  ultimately show ?thesis by simp
qed

lemma listed_range:
  "listed builtin_ops op version \<Longrightarrow> BuiltinOperator_MIN \<le> op \<and> op \<le> BuiltinOperator_MAX"
proof -
  have "list_all (\<lambda>(op, lo, hi). BuiltinOperator_MIN \<le> op \<and> op \<le> BuiltinOperator_MAX) builtin_ops"
    by (simp add: builtin_ops_def builtin_ops_1_def builtin_ops_2_def)
  then show "listed builtin_ops op version \<Longrightarrow> BuiltinOperator_MIN \<le> op \<and> op \<le> BuiltinOperator_MAX"
    by (fastforce simp: listed_def list_ex_iff list_all_iff)
qed

lemma default_resolver_ok:
  assumes "BuiltinOpResolver reg custom_reg = Some m"
  shows "fst (GetRegistrationFromOpCode code (as_resolver delegates m)) = kTfLiteOk
      \<longleftrightarrow> (if GetBuiltinCode code = BuiltinOperator_CUSTOM
           then (\<exists>name \<in> set custom_op_names. fb_custom_code code = Some name) \<and> fb_version code = 1
           else listed builtin_ops (GetBuiltinCode code) (fb_version code))"
proof -
  have m: "well_kept m"
    and b: "\<And>op version. FindOp m op version \<noteq> None \<longleftrightarrow> listed builtin_ops op version"
    and c: "\<And>name version. FindOp_custom m name version \<noteq> None
      \<longleftrightarrow> name \<in> set custom_op_names \<and> version = 1"
    using BuiltinOpResolver_tables [of reg custom_reg] assms by auto
  show ?thesis
    using listed_range [of "GetBuiltinCode code" "fb_version code"]
      b [of "GetBuiltinCode code" "fb_version code"]
      c [of "the (fb_custom_code code)" "fb_version code"]
    by (auto simp: GetRegistrationFromOpCode_def as_resolver_def Let_def
        split: if_splits option.splits)
qed

text \<open>
  C20: the default resolver can be built, and with it an operator code of a model gets exactly this: a
  builtin operator that the table lists in this version, the registration of its own kernel
  (\<open>reg\<close>) with the code and the version of the model; one of the five custom operators in version 1,
  its own registration (\<open>custom_reg\<close>) with its name; everything else an error and no registration.
\<close>

theorem default_resolver_resolves:
  "\<exists>m. BuiltinOpResolver reg custom_reg = Some m \<and> (\<forall>code delegates.
     GetRegistrationFromOpCode code (as_resolver delegates m) =
       (let op = GetBuiltinCode code; version = fb_version code
        in if op = BuiltinOperator_CUSTOM
           then (case fb_custom_code code of None \<Rightarrow> (kTfLiteError, None) | Some name \<Rightarrow>
             if name \<in> set custom_op_names \<and> version = 1
             then (kTfLiteOk, Some ((custom_reg name)\<lparr>builtin_code := BuiltinOperator_CUSTOM,
                                        custom_name := Some name, op_version := 1\<rparr>))
             else (kTfLiteError, None))
           else if listed builtin_ops op version
           then (kTfLiteOk, Some ((reg op)\<lparr>custom_name := None, builtin_code := op, op_version := version\<rparr>))
           else (kTfLiteError, None)))"
proof -
  obtain m where m: "BuiltinOpResolver reg custom_reg = Some m"
    and find: "\<And>op version. FindOp m op version =
         (if listed builtin_ops op version
          then Some ((reg op)\<lparr>custom_name := None, builtin_code := op, op_version := version\<rparr>) else None)"
      "\<And>name version. FindOp_custom m name version =
         (if name \<in> set custom_op_names \<and> version = 1
          then Some ((custom_reg name)\<lparr>builtin_code := BuiltinOperator_CUSTOM,
                                       custom_name := Some name, op_version := 1\<rparr>) else None)"
    using BuiltinOpResolver_tables [of reg custom_reg] by blast
  show ?thesis
    by (intro exI [of _ m] conjI m allI)
      (auto simp: GetRegistrationFromOpCode_def as_resolver_def Let_def find split: option.splits
        dest: listed_range)
qed

text \<open>Kernels that bear the number of their operator: version 5 of \<^verbatim>\<open>CONV_2D\<close> is found, version 6 is not.\<close>

definition numbered_kernel :: "int \<Rightarrow> registration" where
  "numbered_kernel op = (snd empty_node)\<lparr>op_prepare := Kernel (nat op), op_invoke := Kernel (nat op)\<rparr>"

theorem default_resolver_resolves_witness:
  "\<exists>m r. BuiltinOpResolver numbered_kernel (\<lambda>_. snd empty_node) = Some m
   \<and> GetRegistrationFromOpCode (CreateOperatorCode BuiltinOperator_CONV_2D None 5) (as_resolver (\<lambda>_. []) m)
        = (kTfLiteOk, Some r) \<and> op_invoke r = Kernel 3 \<and> op_version r = 5
   \<and> GetRegistrationFromOpCode (CreateOperatorCode BuiltinOperator_CONV_2D None 6) (as_resolver (\<lambda>_. []) m)
        = (kTfLiteError, None)"
proof -
  have "GetBuiltinCode (CreateOperatorCode 3 None v) = 3" for v
    by (simp add: GetBuiltinCode_def CreateOperatorCode_def
        ConvertBuiltinCodeToDeprecatedBuiltinCode_def)
  then show ?thesis
    using default_resolver_resolves [of numbered_kernel "\<lambda>_. snd empty_node"]
    by (auto simp: CreateOperatorCode_def listed_def builtin_ops_def builtin_ops_1_def builtin_ops_2_def
        numbered_kernel_def Let_def)
qed

lemma AddAll_union_witness:
  "FindOp (AddAll [((3, 1), snd empty_node)] [] MutableOpResolver) 3 1 = Some (snd empty_node)"
  using AddAll_union [of "[((3, 1), snd empty_node)]" "[]" "\<lparr>builtins = [(3, 1) \<mapsto> snd empty_node], custom_ops = Map.empty\<rparr>"
      MutableOpResolver 3 1]
  by (simp add: FindOp_def)

end
