(* ===== verification/Op_Version.thy ===== *)
theory Op_Version
  imports Op_Resolver
begin

text \<open>
  \<^verbatim>\<open>tools/versioning/op_version.{h,cc}\<close>: which version of a builtin operator a model needs, and
  how the versions are written into the model.

  Element types are integers (\<open>-1\<close> for an absent tensor). The union of options in \<^verbatim>\<open>OpSignature\<close> is
  a record with the fields of all its members, since every operator reads the member it writes;
  zero is what \<^verbatim>\<open>GetOpSignature\<close> initialises it with. \<^verbatim>\<open>std::vector::at\<close> with an index that is too
  large, which throws, an access outside a vector of the file and a table that is absent are
  \<^term>\<open>None\<close>. The float test \<open>a * b / c >= 1\<close> is the argument \<open>ge_one\<close>.
\<close>

section \<open>Signatures\<close>

record op_options =
  dw_dilation_w_factor :: int
  dw_dilation_h_factor :: int
  dw_is_per_channel_quantized :: bool
  fakequant_narrow_range :: bool
  fc_keep_num_dims :: bool
  fc_weights_format :: int
  fc_sparse_weight :: bool
  fc_asymmetric_quantize_inputs :: bool
  mul_input1_scale :: "32 word"
  mul_input2_scale :: "32 word"
  mul_output_scale :: "32 word"
  lstm_kernel_type :: int
  lstm_asymmetric_quantize_inputs :: bool
  resize_half_pixel_centers :: bool
  resize_align_corners :: bool
  single_num_dims :: int
  broadcast_num_dims :: int
  broadcast_need_broadcast :: bool
  addsub_pot_scale_int16 :: bool
  addsub_num_dims :: int
  addsub_need_broadcast :: bool
  conv_is_per_channel_quantized :: bool
  iq_asymmetric_quantize_inputs :: bool

record op_signature =
  sig_op :: int
  input_types :: "int list"
  output_types :: "int list"
  options :: op_options

definition zero_options :: op_options where
  "zero_options =
     \<lparr>dw_dilation_w_factor = 0, dw_dilation_h_factor = 0,
         dw_is_per_channel_quantized = False,
      fakequant_narrow_range = False, fc_keep_num_dims = False, fc_weights_format = 0,
      fc_sparse_weight = False, fc_asymmetric_quantize_inputs = False, mul_input1_scale = 0,
      mul_input2_scale = 0, mul_output_scale = 0, lstm_kernel_type = 0,
      lstm_asymmetric_quantize_inputs = False, resize_half_pixel_centers = False,
      resize_align_corners = False, single_num_dims = 0, broadcast_num_dims = 0,
      broadcast_need_broadcast = False, addsub_pot_scale_int16 = False, addsub_num_dims = 0,
      addsub_need_broadcast = False, conv_is_per_channel_quantized = False,
      iq_asymmetric_quantize_inputs = False\<rparr>"

text \<open>Conditions that may throw,
         with the order of evaluation of \<open>&&\<close> and \<open>||\<close>.\<close>

definition has_type :: "int list \<Rightarrow> nat \<Rightarrow> int \<Rightarrow> bool option" where
  "has_type ts i T = (if i < length ts then Some (ts ! i = T) else None)"

primrec all_of :: "bool option list \<Rightarrow> bool option" where
  "all_of [] = Some True"
| "all_of (c # cs) = Option.bind c (\<lambda>b. if b then all_of cs else Some False)"

primrec any_of :: "bool option list \<Rightarrow> bool option" where
  "any_of [] = Some False"
| "any_of (c # cs) = Option.bind c (\<lambda>b. if b then Some True else any_of cs)"

definition when_else :: "bool option \<Rightarrow> int \<Rightarrow> int option \<Rightarrow> int option" where
  "when_else c v r = Option.bind c (\<lambda>b. if b then Some v else r)"

abbreviation (input) ins :: "op_signature \<Rightarrow> nat \<Rightarrow> int \<Rightarrow> bool option" where
  "ins sig \<equiv> has_type (input_types sig)"

abbreviation (input) outs :: "op_signature \<Rightarrow> nat \<Rightarrow> int \<Rightarrow> bool option" where
  "outs sig \<equiv> has_type (output_types sig)"

section \<open>Versions\<close>

definition version_CONV_2D :: "op_signature \<Rightarrow> int option" where
  "version_CONV_2D sig =
     when_else (all_of [ins sig 0 TensorType_INT16, ins sig 1 TensorType_INT16,
         outs sig 1 TensorType_INT16]) 4 (
     when_else (all_of [ins sig 0 TensorType_INT8, ins sig 1 TensorType_INT8,
         outs sig 0 TensorType_INT8]) 3 (
     when_else (all_of [ins sig 0 TensorType_FLOAT32, ins sig 1 TensorType_INT8,
         outs sig 0 TensorType_FLOAT32, Some (conv_is_per_channel_quantized (options sig))]) 5 (
     when_else (all_of [ins sig 0 TensorType_FLOAT32, ins sig 1 TensorType_INT8,
         outs sig 0 TensorType_FLOAT32]) 2 (Some 1))))"

definition version_DEPTHWISE_CONV_2D :: "op_signature \<Rightarrow> int option" where
  "version_DEPTHWISE_CONV_2D sig =
     when_else (all_of [ins sig 0 TensorType_INT16, ins sig 1 TensorType_INT16,
         outs sig 1 TensorType_INT16]) 5 (
     when_else (all_of [ins sig 0 TensorType_FLOAT32, ins sig 1 TensorType_INT8,
         outs sig 0 TensorType_FLOAT32, Some (dw_is_per_channel_quantized (options sig))]) 6 (
     when_else (all_of [ins sig 0 TensorType_FLOAT32, ins sig 1 TensorType_INT8,
         outs sig 0 TensorType_FLOAT32]) 4 (
     when_else (all_of [ins sig 0 TensorType_INT8, ins sig 1 TensorType_INT8,
         outs sig 0 TensorType_INT8]) 3 (
     when_else (Some (dw_dilation_w_factor (options sig) \<noteq> 1 \<or> dw_dilation_h_factor (options sig) \<noteq> 1)) 2 (Some 1)))))"

definition version_FAKE_QUANT :: "op_signature \<Rightarrow> int option" where
  "version_FAKE_QUANT sig =
     when_else (Some (fakequant_narrow_range (options sig))) 2 (Some 1)"

definition version_FULLY_CONNECTED :: "op_signature \<Rightarrow> int option" where
  "version_FULLY_CONNECTED sig =
     when_else (Some (fc_sparse_weight (options sig))) 8 (
     when_else (all_of [ins sig 0 TensorType_INT16, ins sig 1 TensorType_INT16,
         outs sig 0 TensorType_INT16]) 7 (
     when_else (Some (length (input_types sig) = 2)) 6 (
     when_else (Some (fc_keep_num_dims (options sig))) 5 (
     when_else (all_of [ins sig 0 TensorType_INT8, ins sig 1 TensorType_INT8,
         outs sig 0 TensorType_INT8]) 4 (
     when_else (all_of [ins sig 0 TensorType_FLOAT32, ins sig 1 TensorType_INT8,
         outs sig 0 TensorType_FLOAT32, Some (fc_asymmetric_quantize_inputs (options sig))]) 9 (
     when_else (all_of [ins sig 0 TensorType_FLOAT32, ins sig 1 TensorType_INT8,
         outs sig 0 TensorType_FLOAT32]) 3 (
     when_else (Some (fc_weights_format (options sig) = FullyConnectedOptionsWeightsFormat_SHUFFLED4x16INT8)) 2 (Some 1))))))))"

definition version_GATHER :: "op_signature \<Rightarrow> int option" where
  "version_GATHER sig =
     when_else (ins sig 0 TensorType_INT16) 4 (
     when_else (ins sig 0 TensorType_BOOL) 3 (
     when_else (ins sig 0 TensorType_INT8) 2 (Some 1)))"

definition version_SVDF :: "op_signature \<Rightarrow> int option" where
  "version_SVDF sig =
     when_else (ins sig 0 TensorType_INT8) 3 (
     when_else (all_of [ins sig 0 TensorType_FLOAT32, ins sig 1 TensorType_INT8,
         outs sig 0 TensorType_FLOAT32, Some (iq_asymmetric_quantize_inputs (options sig))]) 4 (
     when_else (all_of [ins sig 0 TensorType_FLOAT32, ins sig 1 TensorType_INT8,
         outs sig 0 TensorType_FLOAT32]) 2 (Some 1)))"

text \<open>A float is compared with zero by its bits; both zeros are zero.\<close>

definition is_nonzero :: "32 word \<Rightarrow> bool" where
  "is_nonzero w \<longleftrightarrow> w \<noteq> 0 \<and> w \<noteq> 0x80000000"

definition version_MUL :: "(32 word \<Rightarrow> 32 word \<Rightarrow> 32 word \<Rightarrow> bool) \<Rightarrow> op_signature \<Rightarrow> int option" where
  "version_MUL ge_one sig =
     when_else (ins sig 0 TensorType_INT16) 4 (
     when_else (all_of [Some (is_nonzero (mul_input1_scale (options sig))),
         Some (is_nonzero (mul_input2_scale (options sig))),
         Some (is_nonzero (mul_output_scale (options sig))),
         Some (ge_one (mul_input1_scale (options sig)) (mul_input2_scale (options sig)) (mul_output_scale (options sig)))]) 3 (
     when_else (ins sig 0 TensorType_INT8) 2 (Some 1)))"

definition version_POOL_2D :: "op_signature \<Rightarrow> int option" where
  "version_POOL_2D sig =
     when_else (all_of [ins sig 0 TensorType_INT16, outs sig 0 TensorType_INT16]) 3 (
     when_else (ins sig 0 TensorType_INT8) 2 (Some 1))"

definition version_TRANSPOSE :: "op_signature \<Rightarrow> int option" where
  "version_TRANSPOSE sig =
     when_else (ins sig 0 TensorType_INT16) 5 (
     when_else (Some (single_num_dims (options sig) > 4)) 4 (
     when_else (ins sig 0 TensorType_BOOL) 3 (
     when_else (ins sig 0 TensorType_INT8) 2 (Some 1))))"

definition version_TRANSPOSE_CONV :: "op_signature \<Rightarrow> int option" where
  "version_TRANSPOSE_CONV sig =
     when_else (all_of [Some (length (input_types sig) = 4),
         map_option Not (has_type (input_types sig) 3 (-1))]) 3 (
     when_else (ins sig 1 TensorType_INT8) 2 (Some 1))"

definition version_LSTM :: "op_signature \<Rightarrow> int option" where
  "version_LSTM sig =
     when_else (all_of [Some (lstm_kernel_type (options sig) = LSTMKernelType_FULL),
         ins sig 0 TensorType_FLOAT32, ins sig 2 TensorType_INT8, outs sig 0 TensorType_FLOAT32,
         Some (lstm_asymmetric_quantize_inputs (options sig))]) 4 (
     when_else (all_of [Some (lstm_kernel_type (options sig) = LSTMKernelType_FULL),
         ins sig 0 TensorType_FLOAT32, ins sig 2 TensorType_INT8,
         outs sig 0 TensorType_FLOAT32]) 3 (
     when_else (Some (lstm_kernel_type (options sig) = LSTMKernelType_BASIC)) 2 (Some 1)))"

definition version_UNIDIRECTIONAL_SEQUENCE_LSTM :: "op_signature \<Rightarrow> int option" where
  "version_UNIDIRECTIONAL_SEQUENCE_LSTM sig =
     when_else (all_of [ins sig 0 TensorType_FLOAT32, ins sig 2 TensorType_INT8,
         outs sig 0 TensorType_FLOAT32, Some (lstm_asymmetric_quantize_inputs (options sig))]) 3 (
     when_else (all_of [ins sig 0 TensorType_FLOAT32, ins sig 2 TensorType_INT8,
         outs sig 0 TensorType_FLOAT32]) 2 (Some 1))"

definition version_SPLIT :: "op_signature \<Rightarrow> int option" where
  "version_SPLIT sig =
     when_else (ins sig 1 TensorType_INT16) 4 (
     when_else (ins sig 1 TensorType_INT32) 3 (
     when_else (ins sig 1 TensorType_INT8) 2 (Some 1)))"

definition version_SPARSE_TO_DENSE :: "op_signature \<Rightarrow> int option" where
  "version_SPARSE_TO_DENSE sig =
     when_else (any_of [ins sig 2 TensorType_INT8, ins sig 2 TensorType_UINT8]) 3 (
     when_else (ins sig 2 TensorType_INT64) 2 (Some 1))"

definition version_SLICE :: "op_signature \<Rightarrow> int option" where
  "version_SLICE sig =
     when_else (ins sig 0 TensorType_INT16) 4 (
     when_else (ins sig 0 TensorType_STRING) 3 (
     when_else (ins sig 0 TensorType_INT8) 2 (Some 1)))"

definition version_UNPACK :: "op_signature \<Rightarrow> int option" where
  "version_UNPACK sig =
     when_else (any_of [ins sig 0 TensorType_INT8, ins sig 0 TensorType_UINT8]) 2 (
     when_else (ins sig 0 TensorType_BOOL) 3 (
     when_else (all_of [ins sig 0 TensorType_INT16, outs sig 0 TensorType_INT16]) 4 (Some 1)))"

definition version_DEQUANTIZE :: "op_signature \<Rightarrow> int option" where
  "version_DEQUANTIZE sig =
     when_else (any_of [ins sig 0 TensorType_INT16, ins sig 0 TensorType_FLOAT16]) 3 (
     when_else (ins sig 0 TensorType_INT8) 2 (Some 1))"

definition version_FLOOR_DIV :: "op_signature \<Rightarrow> int option" where
  "version_FLOOR_DIV sig =
     when_else (ins sig 0 TensorType_FLOAT32) 2 (Some 1)"

definition version_L2_NORMALIZATION :: "op_signature \<Rightarrow> int option" where
  "version_L2_NORMALIZATION sig =
     when_else (outs sig 0 TensorType_INT8) 2 (Some 1)"

definition version_ABS_RELU :: "op_signature \<Rightarrow> int option" where
  "version_ABS_RELU sig =
     when_else (any_of [ins sig 0 TensorType_INT8, ins sig 0 TensorType_UINT8]) 2 (Some 1)"

definition version_STRIDED_SLICE :: "op_signature \<Rightarrow> int option" where
  "version_STRIDED_SLICE sig =
     when_else (Some (single_num_dims (options sig) > 4)) 4 (
     when_else (ins sig 0 TensorType_BOOL) 3 (
     when_else (ins sig 0 TensorType_INT8) 2 (Some 1)))"

definition version_REVERSE_V2 :: "op_signature \<Rightarrow> int option" where
  "version_REVERSE_V2 sig =
     when_else (ins sig 0 TensorType_BOOL) 2 (Some 1)"

definition version_RESIZE_BILINEAR :: "op_signature \<Rightarrow> int option" where
  "version_RESIZE_BILINEAR sig =
     when_else (Some (resize_half_pixel_centers (options sig))) 3 (
     when_else (ins sig 0 TensorType_INT8) 2 (Some 1))"

definition version_RESIZE_NEAREST_NEIGHBOR :: "op_signature \<Rightarrow> int option" where
  "version_RESIZE_NEAREST_NEIGHBOR sig =
     when_else (ins sig 0 TensorType_INT16) 4 (
     when_else (Some (resize_half_pixel_centers (options sig) \<or> resize_align_corners (options sig))) 3 (
     when_else (ins sig 0 TensorType_INT8) 2 (Some 1)))"

definition version_MAXIMUM_MINIMUM :: "op_signature \<Rightarrow> int option" where
  "version_MAXIMUM_MINIMUM sig =
     when_else (all_of [ins sig 0 TensorType_INT16, outs sig 0 TensorType_INT16]) 4 (
     when_else (Some (broadcast_need_broadcast (options sig) \<and> broadcast_num_dims (options sig) > 4)) 3 (
     when_else (ins sig 0 TensorType_INT8) 2 (Some 1)))"

definition version_PACK :: "op_signature \<Rightarrow> int option" where
  "version_PACK sig =
     when_else (ins sig 0 TensorType_INT8) 2 (
     when_else (all_of [ins sig 0 TensorType_INT16, outs sig 0 TensorType_INT16]) 3 (Some 1))"

definition version_TILE :: "op_signature \<Rightarrow> int option" where
  "version_TILE sig =
     when_else (ins sig 0 TensorType_STRING) 2 (Some 1)"

definition version_SPACE_BATCH_ND :: "op_signature \<Rightarrow> int option" where
  "version_SPACE_BATCH_ND sig =
     when_else (Some (single_num_dims (options sig) \<noteq> 4)) 3 (
     when_else (ins sig 0 TensorType_INT8) 2 (Some 1))"

definition version_ADD :: "op_signature \<Rightarrow> int option" where
  "version_ADD sig =
     when_else (all_of [ins sig 0 TensorType_INT16, outs sig 0 TensorType_INT16,
         Some (\<not> addsub_pot_scale_int16 (options sig))]) 3 (
     when_else (ins sig 0 TensorType_INT8) 2 (Some 1))"

definition version_SUB :: "op_signature \<Rightarrow> int option" where
  "version_SUB sig =
     when_else (all_of [ins sig 0 TensorType_INT16, outs sig 0 TensorType_INT16,
         Some (\<not> addsub_pot_scale_int16 (options sig))]) 5 (
     when_else (all_of [Some (input_types sig \<noteq> []), ins sig 0 TensorType_INT64]) 4 (
     when_else (Some (addsub_need_broadcast (options sig) \<and> addsub_num_dims (options sig) > 4)) 3 (
     when_else (ins sig 0 TensorType_INT8) 2 (Some 1))))"

definition version_GATHER_ND :: "op_signature \<Rightarrow> int option" where
  "version_GATHER_ND sig =
     when_else (all_of [Some (input_types sig \<noteq> []),
         ins sig 0 TensorType_STRING]) 2 (Some 1)"

definition version_DIV :: "op_signature \<Rightarrow> int option" where
  "version_DIV sig =
     when_else (Some (broadcast_need_broadcast (options sig) \<and> broadcast_num_dims (options sig) > 4)) 2 (Some 1)"

definition version_TANH_LOGISTIC :: "op_signature \<Rightarrow> int option" where
  "version_TANH_LOGISTIC sig =
     when_else (all_of [ins sig 0 TensorType_INT16, outs sig 0 TensorType_INT16]) 3 (
     when_else (ins sig 0 TensorType_INT8) 2 (Some 1))"

definition version_FILL :: "op_signature \<Rightarrow> int option" where
  "version_FILL sig =
     when_else (all_of [Some (length (input_types sig) \<ge> 2), any_of [ins sig 1 TensorType_BOOL,
         ins sig 1 TensorType_STRING]]) 2 (Some 1)"

definition version_EQUAL :: "op_signature \<Rightarrow> int option" where
  "version_EQUAL sig =
     when_else (all_of [Some (input_types sig \<noteq> []), ins sig 0 TensorType_STRING]) 3 (
     when_else (all_of [Some (input_types sig \<noteq> []), ins sig 0 TensorType_INT8]) 2 (Some 1))"

definition version_LEAKY_RELU :: "op_signature \<Rightarrow> int option" where
  "version_LEAKY_RELU sig =
     when_else (ins sig 0 TensorType_INT16) 2 (Some 1)"

definition version_INT16_INT8 :: "op_signature \<Rightarrow> int option" where
  "version_INT16_INT8 sig =
     when_else (ins sig 0 TensorType_INT16) 3 (
     when_else (ins sig 0 TensorType_INT8) 2 (Some 1))"

definition version_RNN :: "op_signature \<Rightarrow> int option" where
  "version_RNN sig =
     when_else (all_of [ins sig 1 TensorType_INT8, outs sig 0 TensorType_FLOAT32,
         Some (iq_asymmetric_quantize_inputs (options sig))]) 3 (
     when_else (all_of [ins sig 1 TensorType_INT8, outs sig 0 TensorType_FLOAT32]) 2 (Some 1))"

definition version_INT8 :: "op_signature \<Rightarrow> int option" where
  "version_INT8 sig =
     when_else (ins sig 0 TensorType_INT8) 2 (Some 1)"

definition GetBuiltinOperatorVersion ::
  "(32 word \<Rightarrow> 32 word \<Rightarrow> 32 word \<Rightarrow> bool) \<Rightarrow> op_signature \<Rightarrow> int option" where
  "GetBuiltinOperatorVersion ge_one sig = (let op = sig_op sig in
     if op = BuiltinOperator_CONV_2D
       then version_CONV_2D sig
     else if op = BuiltinOperator_DEPTHWISE_CONV_2D
       then version_DEPTHWISE_CONV_2D sig
     else if op = BuiltinOperator_FAKE_QUANT
       then version_FAKE_QUANT sig
     else if op = BuiltinOperator_FULLY_CONNECTED
       then version_FULLY_CONNECTED sig
     else if op = BuiltinOperator_GATHER
       then version_GATHER sig
     else if op = BuiltinOperator_SVDF
       then version_SVDF sig
     else if op = BuiltinOperator_MUL
       then version_MUL ge_one sig
     else if op = BuiltinOperator_MAX_POOL_2D \<or> op = BuiltinOperator_AVERAGE_POOL_2D
       then version_POOL_2D sig
     else if op = BuiltinOperator_TRANSPOSE
       then version_TRANSPOSE sig
     else if op = BuiltinOperator_TRANSPOSE_CONV
       then version_TRANSPOSE_CONV sig
     else if op = BuiltinOperator_LSTM
       then version_LSTM sig
     else if op = BuiltinOperator_UNIDIRECTIONAL_SEQUENCE_LSTM
       then version_UNIDIRECTIONAL_SEQUENCE_LSTM sig
     else if op = BuiltinOperator_SPLIT
       then version_SPLIT sig
     else if op = BuiltinOperator_SPARSE_TO_DENSE
       then version_SPARSE_TO_DENSE sig
     else if op = BuiltinOperator_SLICE
       then version_SLICE sig
     else if op = BuiltinOperator_UNPACK
       then version_UNPACK sig
     else if op = BuiltinOperator_DEQUANTIZE
       then version_DEQUANTIZE sig
     else if op = BuiltinOperator_FLOOR_DIV
       then version_FLOOR_DIV sig
     else if op = BuiltinOperator_L2_NORMALIZATION
       then version_L2_NORMALIZATION sig
     else if op = BuiltinOperator_ABS \<or> op = BuiltinOperator_RELU
       then version_ABS_RELU sig
     else if op = BuiltinOperator_STRIDED_SLICE
       then version_STRIDED_SLICE sig
     else if op = BuiltinOperator_REVERSE_V2
       then version_REVERSE_V2 sig
     else if op = BuiltinOperator_RESIZE_BILINEAR
       then version_RESIZE_BILINEAR sig
     else if op = BuiltinOperator_RESIZE_NEAREST_NEIGHBOR
       then version_RESIZE_NEAREST_NEIGHBOR sig
     else if op = BuiltinOperator_MAXIMUM \<or> op = BuiltinOperator_MINIMUM
       then version_MAXIMUM_MINIMUM sig
     else if op = BuiltinOperator_PACK
       then version_PACK sig
     else if op = BuiltinOperator_TILE
       then version_TILE sig
     else if op = BuiltinOperator_SPACE_TO_BATCH_ND \<or> op = BuiltinOperator_BATCH_TO_SPACE_ND
       then version_SPACE_BATCH_ND sig
     else if op = BuiltinOperator_ADD
       then version_ADD sig
     else if op = BuiltinOperator_SUB
       then version_SUB sig
     else if op = BuiltinOperator_GATHER_ND
       then version_GATHER_ND sig
     else if op = BuiltinOperator_DIV
       then version_DIV sig
     else if op = BuiltinOperator_TANH \<or> op = BuiltinOperator_LOGISTIC
       then version_TANH_LOGISTIC sig
     else if op = BuiltinOperator_FILL
       then version_FILL sig
     else if op = BuiltinOperator_EQUAL \<or> op = BuiltinOperator_NOT_EQUAL
       then version_EQUAL sig
     else if op = BuiltinOperator_LEAKY_RELU
       then version_LEAKY_RELU sig
     else if op \<in> {BuiltinOperator_CONCATENATION, BuiltinOperator_BATCH_MATMUL,
         BuiltinOperator_SOFTMAX, BuiltinOperator_MEAN, BuiltinOperator_PAD, BuiltinOperator_PADV2}
       then version_INT16_INT8 sig
     else if op \<in> {BuiltinOperator_RNN, BuiltinOperator_UNIDIRECTIONAL_SEQUENCE_RNN,
         BuiltinOperator_BIDIRECTIONAL_SEQUENCE_RNN, BuiltinOperator_BIDIRECTIONAL_SEQUENCE_LSTM}
       then version_RNN sig
     else if op \<in> {BuiltinOperator_SPACE_TO_DEPTH, BuiltinOperator_SPLIT_V,
         BuiltinOperator_SUM, BuiltinOperator_REDUCE_MAX, BuiltinOperator_REDUCE_MIN,
         BuiltinOperator_RELU6, BuiltinOperator_LOG_SOFTMAX, BuiltinOperator_TOPK_V2,
         BuiltinOperator_ARG_MAX, BuiltinOperator_ARG_MIN, BuiltinOperator_GREATER,
         BuiltinOperator_GREATER_EQUAL, BuiltinOperator_LESS, BuiltinOperator_LESS_EQUAL,
         BuiltinOperator_SELECT, BuiltinOperator_MIRROR_PAD}
       then version_INT8 sig
     else Some 1)"

section \<open>The signature of an operator of a model\<close>

definition fb_get :: "'a list option \<Rightarrow> int \<Rightarrow> 'a option" where
  "fb_get xs i = Option.bind xs (\<lambda>xs. if 0 \<le> i \<and> nat i < length xs then Some (xs ! nat i) else None)"

definition input_tensor :: "fb_subgraph \<Rightarrow> fb_operator \<Rightarrow> int \<Rightarrow> fb_tensor option" where
  "input_tensor sg op idx = Option.bind (fb_get (fb_op_inputs op) idx) (fb_get (fb_tensors sg))"

definition output_tensor :: "fb_subgraph \<Rightarrow> fb_operator \<Rightarrow> int \<Rightarrow> fb_tensor option" where
  "output_tensor sg op idx = Option.bind (fb_get (fb_op_outputs op) idx) (fb_get (fb_tensors sg))"

definition GetNumDims :: "fb_subgraph \<Rightarrow> fb_operator \<Rightarrow> int \<Rightarrow> int option" where
  "GetNumDims sg op idx = do {
     t \<leftarrow> input_tensor sg op idx;
     shape \<leftarrow> fb_shape t;
     Some (int (length shape)) }"

definition HaveSameShapes :: "fb_subgraph \<Rightarrow> fb_operator \<Rightarrow> int \<Rightarrow> int \<Rightarrow> bool option" where
  "HaveSameShapes sg op idx1 idx2 = do {
     t1 \<leftarrow> input_tensor sg op idx1;
     t2 \<leftarrow> input_tensor sg op idx2;
     shape1 \<leftarrow> fb_shape t1;
     shape2 \<leftarrow> fb_shape t2;
     Some (if length shape1 \<noteq> length shape2 then False else list_all2 (=) shape1 shape2) }"

text \<open>An index is compared with a length as an unsigned 32-bit integer.\<close>

definition GetTensorType :: "int \<Rightarrow> fb_subgraph \<Rightarrow> int" where
  "GetTensorType idx sg =
     (if idx = -1 then -1
      else case fb_tensors sg of
             None \<Rightarrow> -1
           | Some ts \<Rightarrow> if nat (idx mod 2 ^ 32) < length ts then fb_type (ts ! nat (idx mod 2 ^ 32)) else -1)"

text \<open>A filter_tensor is quantized per channel if it has as many scales as channels.\<close>

definition per_channel :: "fb_tensor \<Rightarrow> int \<Rightarrow> bool" where
  "per_channel filter_tensor num_channels =
     (case fb_tensor_quantization filter_tensor of
        None \<Rightarrow> False
      | Some q \<Rightarrow> (case fb_scale q of
          None \<Rightarrow> False
        | Some scale \<Rightarrow> scale \<noteq> [] \<and> int (length scale) = num_channels mod 2 ^ 32))"

definition first_scale :: "fb_tensor \<Rightarrow> 32 word option" where
  "first_scale t = do {
     q \<leftarrow> fb_tensor_quantization t;
     scale \<leftarrow> fb_scale q;
     if scale \<noteq> [] then Some (hd scale) else None }"

definition options_DEPTHWISE_CONV_2D :: "fb_operator \<Rightarrow> fb_subgraph \<Rightarrow> op_options option" where
  "options_DEPTHWISE_CONV_2D op sg = do {
     let opts = (case fb_builtin_options op of
       Some (DepthwiseConv2DOptions w h) \<Rightarrow>
         zero_options\<lparr>dw_dilation_w_factor := w, dw_dilation_h_factor := h\<rparr>
     | _ \<Rightarrow> zero_options);
     filter_tensor \<leftarrow> input_tensor sg op 1;
     num_channels \<leftarrow> fb_get (fb_shape filter_tensor) 3;
     Some (if per_channel filter_tensor num_channels
           then opts\<lparr>dw_is_per_channel_quantized := True\<rparr> else opts) }"

definition options_FULLY_CONNECTED :: "fb_operator \<Rightarrow> fb_subgraph \<Rightarrow> op_options option" where
  "options_FULLY_CONNECTED op sg = do {
     let opts = (case fb_builtin_options op of
       Some (FullyConnectedOptions keep format asymmetric) \<Rightarrow>
         zero_options\<lparr>fc_keep_num_dims := keep, fc_weights_format := format,
                      fc_asymmetric_quantize_inputs := asymmetric\<rparr>
     | _ \<Rightarrow> zero_options);
     weight \<leftarrow> input_tensor sg op 1;
     Some (opts\<lparr>fc_sparse_weight := (fb_tensor_sparsity weight \<noteq> None)\<rparr>) }"

definition options_MUL :: "fb_operator \<Rightarrow> fb_subgraph \<Rightarrow> op_options option" where
  "options_MUL op sg = do {
     inputs \<leftarrow> fb_op_inputs op;
     outputs \<leftarrow> (if length inputs < 2 then Some [] else fb_op_outputs op);
     if length inputs < 2 \<or> length outputs < 1 then Some zero_options
     else do {
       t1 \<leftarrow> input_tensor sg op 0;
       t2 \<leftarrow> input_tensor sg op 1;
       t3 \<leftarrow> output_tensor sg op 0;
       Some (case (first_scale t1, first_scale t2, first_scale t3) of
         (Some s1, Some s2, Some s3) \<Rightarrow>
           zero_options\<lparr>mul_input1_scale := s1, mul_input2_scale := s2, mul_output_scale := s3\<rparr>
       | _ \<Rightarrow> zero_options) }}"

definition options_SUB :: "fb_operator \<Rightarrow> fb_subgraph \<Rightarrow> op_options option" where
  "options_SUB op sg = do {
     same \<leftarrow> HaveSameShapes sg op 0 1;
     d0 \<leftarrow> GetNumDims sg op 0;
     d1 \<leftarrow> GetNumDims sg op 1;
     Some (zero_options\<lparr>addsub_need_broadcast := \<not> same, addsub_num_dims := max d0 d1,
       addsub_pot_scale_int16 := (case fb_builtin_options op of Some (SubOptions pot) \<Rightarrow> pot | _ \<Rightarrow> True)\<rparr>) }"

definition options_CONV_2D :: "fb_operator \<Rightarrow> fb_subgraph \<Rightarrow> op_options option" where
  "options_CONV_2D op sg = do {
     filter_tensor \<leftarrow> input_tensor sg op 1;
     num_channels \<leftarrow> fb_get (fb_shape filter_tensor) 0;
     Some (zero_options\<lparr>conv_is_per_channel_quantized := per_channel filter_tensor num_channels\<rparr>) }"

definition options_broadcast :: "fb_operator \<Rightarrow> fb_subgraph \<Rightarrow> op_options option" where
  "options_broadcast op sg = do {
     same \<leftarrow> HaveSameShapes sg op 0 1;
     d0 \<leftarrow> GetNumDims sg op 0;
     d1 \<leftarrow> GetNumDims sg op 1;
     Some (zero_options\<lparr>broadcast_need_broadcast := \<not> same, broadcast_num_dims := max d0 d1\<rparr>) }"

definition signature_options :: "int \<Rightarrow> fb_operator \<Rightarrow> fb_subgraph \<Rightarrow> op_options option" where
  "signature_options code op sg =
     (if code = BuiltinOperator_DEPTHWISE_CONV_2D then options_DEPTHWISE_CONV_2D op sg
      else if code = BuiltinOperator_FAKE_QUANT then
        Some (case fb_builtin_options op of
          Some (FakeQuantOptions narrow) \<Rightarrow> zero_options\<lparr>fakequant_narrow_range := narrow\<rparr>
        | _ \<Rightarrow> zero_options)
      else if code = BuiltinOperator_FULLY_CONNECTED then options_FULLY_CONNECTED op sg
      else if code = BuiltinOperator_MUL then options_MUL op sg
      else if code = BuiltinOperator_ADD then
        Some (zero_options\<lparr>addsub_pot_scale_int16 :=
          (case fb_builtin_options op of Some (AddOptions pot) \<Rightarrow> pot | _ \<Rightarrow> True)\<rparr>)
      else if code = BuiltinOperator_SUB then options_SUB op sg
      else if code = BuiltinOperator_LSTM then
        Some (case fb_builtin_options op of
          Some (LSTMOptions kernel_type asymmetric) \<Rightarrow> zero_options\<lparr>lstm_kernel_type := kernel_type\<rparr>
        | _ \<Rightarrow> zero_options)
      else if code = BuiltinOperator_RESIZE_BILINEAR then
        Some (case fb_builtin_options op of
          Some (ResizeBilinearOptions align half) \<Rightarrow>
            zero_options\<lparr>resize_half_pixel_centers := half, resize_align_corners := align\<rparr>
        | _ \<Rightarrow> zero_options)
      else if code = BuiltinOperator_RESIZE_NEAREST_NEIGHBOR then
        Some (case fb_builtin_options op of
          Some (ResizeNearestNeighborOptions align half) \<Rightarrow>
            zero_options\<lparr>resize_half_pixel_centers := half, resize_align_corners := align\<rparr>
        | _ \<Rightarrow> zero_options)
      else if code = BuiltinOperator_CONV_2D then options_CONV_2D op sg
      else if code \<in> {BuiltinOperator_STRIDED_SLICE, BuiltinOperator_SPACE_TO_BATCH_ND,
                      BuiltinOperator_BATCH_TO_SPACE_ND, BuiltinOperator_TRANSPOSE} then
        map_option (\<lambda>n. zero_options\<lparr>single_num_dims := n\<rparr>) (GetNumDims sg op 0)
      else if code \<in> {BuiltinOperator_DIV, BuiltinOperator_MAXIMUM, BuiltinOperator_MINIMUM}
      then options_broadcast op sg
      else Some zero_options)"

definition GetOpSignature :: "operator_code \<Rightarrow> fb_operator \<Rightarrow> fb_subgraph \<Rightarrow> op_signature option" where
  "GetOpSignature op_code op sg = do {
     opts \<leftarrow> signature_options (GetBuiltinCode op_code) op sg;
     inputs \<leftarrow> fb_op_inputs op;
     outputs \<leftarrow> fb_op_outputs op;
     Some \<lparr>sig_op = GetBuiltinCode op_code, input_types = map (\<lambda>i. GetTensorType i sg) inputs,
           output_types = map (\<lambda>i. GetTensorType i sg) outputs, options = opts\<rparr> }"

text \<open>
  \<^verbatim>\<open>UpdateOpVersion\<close>; \<open>mutate\<close> is \<^verbatim>\<open>OperatorCode::mutate_version\<close> of the flatbuffers library, which
  also says whether it could write. A failure is only logged.
\<close>

type_synonym mutate_version = "int \<Rightarrow> operator_code \<Rightarrow> operator_code \<times> bool"

definition update_op ::
  "(32 word \<Rightarrow> 32 word \<Rightarrow> 32 word \<Rightarrow> bool) \<Rightarrow> mutate_version \<Rightarrow> fb_subgraph \<Rightarrow> fb_operator
   \<Rightarrow> operator_code list \<Rightarrow> operator_code list option" where
  "update_op ge_one mutate sg op codes = do {
     op_code \<leftarrow> fb_get (Some codes) (int (fb_opcode_index op));
     if GetBuiltinCode op_code = BuiltinOperator_CUSTOM then Some codes
     else do {
       op_sig \<leftarrow> GetOpSignature op_code op sg;
       op_ver \<leftarrow> GetBuiltinOperatorVersion ge_one op_sig;
       Some (codes[fb_opcode_index op := fst (mutate op_ver op_code)]) }}"

primrec update_ops ::
  "(32 word \<Rightarrow> 32 word \<Rightarrow> 32 word \<Rightarrow> bool) \<Rightarrow> mutate_version \<Rightarrow> (fb_subgraph \<times> fb_operator) list
   \<Rightarrow> operator_code list \<Rightarrow> operator_code list option" where
  "update_ops ge_one mutate [] codes = Some codes"
| "update_ops ge_one mutate (o' # os) codes =
     Option.bind (update_op ge_one mutate (fst o') (snd o') codes) (update_ops ge_one mutate os)"

text \<open>The operators of a model in the order in which the nested loops visit them.\<close>

primrec all_operators :: "fb_subgraph list \<Rightarrow> (fb_subgraph \<times> fb_operator) list option" where
  "all_operators [] = Some []"
| "all_operators (sg # sgs) = do {
     ops \<leftarrow> fb_operators sg;
     rest \<leftarrow> all_operators sgs;
     Some (map (Pair sg) ops @ rest) }"

definition UpdateOpVersion ::
  "(32 word \<Rightarrow> 32 word \<Rightarrow> 32 word \<Rightarrow> bool) \<Rightarrow> mutate_version \<Rightarrow> fb_model \<Rightarrow> fb_model option" where
  "UpdateOpVersion ge_one mutate model = do {
     sgs \<leftarrow> fb_subgraphs model;
     ops \<leftarrow> all_operators sgs;
     codes \<leftarrow> fb_operator_codes model;
     codes \<leftarrow> update_ops ge_one mutate ops codes;
     Some (model\<lparr>fb_operator_codes := Some codes\<rparr>) }"

section \<open>Versions are supported\<close>

named_theorems versions "bounds of the versions that an operator may have"

definition upto_version :: "int \<Rightarrow> int option \<Rightarrow> bool" where
  "upto_version n r \<longleftrightarrow> (\<forall>v. r = Some v \<longrightarrow> 1 \<le> v \<and> v \<le> n)"

lemma upto_Some [versions]: "upto_version n (Some v) \<longleftrightarrow> 1 \<le> v \<and> v \<le> n"
  by (simp add: upto_version_def)

lemma upto_when_else [versions]:
  "1 \<le> v \<Longrightarrow> v \<le> n \<Longrightarrow> upto_version n r \<Longrightarrow> upto_version n (when_else c v r)"
  by (auto simp: upto_version_def when_else_def bind_eq_Some_conv split: if_splits)

lemma if_SomeE:
  assumes "(if c then a else b) = Some v"
  obtains "c" "a = Some v" | "\<not> c" "b = Some v"
  using assms by (auto split: if_splits)

lemma upto_if: "upto_version m a \<Longrightarrow> upto_version n b \<Longrightarrow>
    upto_version (if c then m else n) (if c then a else b)"
  by simp

lemma version_CONV_2D_upto: "upto_version 5 (version_CONV_2D sig)"
  by (simp add: version_CONV_2D_def versions)

lemma version_DEPTHWISE_CONV_2D_upto: "upto_version 6 (version_DEPTHWISE_CONV_2D sig)"
  by (simp add: version_DEPTHWISE_CONV_2D_def versions)

lemma version_FAKE_QUANT_upto: "upto_version 2 (version_FAKE_QUANT sig)"
  by (simp add: version_FAKE_QUANT_def versions)

lemma version_FULLY_CONNECTED_upto: "upto_version 9 (version_FULLY_CONNECTED sig)"
  by (simp add: version_FULLY_CONNECTED_def versions)

lemma version_GATHER_upto: "upto_version 4 (version_GATHER sig)"
  by (simp add: version_GATHER_def versions)

lemma version_SVDF_upto: "upto_version 4 (version_SVDF sig)"
  by (simp add: version_SVDF_def versions)

lemma version_MUL_upto: "upto_version 4 (version_MUL ge_one sig)"
  by (simp add: version_MUL_def versions)

lemma version_POOL_2D_upto: "upto_version 3 (version_POOL_2D sig)"
  by (simp add: version_POOL_2D_def versions)

lemma version_TRANSPOSE_upto: "upto_version 5 (version_TRANSPOSE sig)"
  by (simp add: version_TRANSPOSE_def versions)

lemma version_TRANSPOSE_CONV_upto: "upto_version 3 (version_TRANSPOSE_CONV sig)"
  by (simp add: version_TRANSPOSE_CONV_def versions)

lemma version_LSTM_upto: "upto_version 4 (version_LSTM sig)"
  by (simp add: version_LSTM_def versions)

lemma version_UNIDIRECTIONAL_SEQUENCE_LSTM_upto: "upto_version 3 (version_UNIDIRECTIONAL_SEQUENCE_LSTM sig)"
  by (simp add: version_UNIDIRECTIONAL_SEQUENCE_LSTM_def versions)

lemma version_SPLIT_upto: "upto_version 4 (version_SPLIT sig)"
  by (simp add: version_SPLIT_def versions)

lemma version_SPARSE_TO_DENSE_upto: "upto_version 3 (version_SPARSE_TO_DENSE sig)"
  by (simp add: version_SPARSE_TO_DENSE_def versions)

lemma version_SLICE_upto: "upto_version 4 (version_SLICE sig)"
  by (simp add: version_SLICE_def versions)

lemma version_UNPACK_upto: "upto_version 4 (version_UNPACK sig)"
  by (simp add: version_UNPACK_def versions)

lemma version_DEQUANTIZE_upto: "upto_version 3 (version_DEQUANTIZE sig)"
  by (simp add: version_DEQUANTIZE_def versions)

lemma version_FLOOR_DIV_upto: "upto_version 2 (version_FLOOR_DIV sig)"
  by (simp add: version_FLOOR_DIV_def versions)

lemma version_L2_NORMALIZATION_upto: "upto_version 2 (version_L2_NORMALIZATION sig)"
  by (simp add: version_L2_NORMALIZATION_def versions)

lemma version_ABS_RELU_upto: "upto_version 2 (version_ABS_RELU sig)"
  by (simp add: version_ABS_RELU_def versions)

lemma version_STRIDED_SLICE_upto: "upto_version 4 (version_STRIDED_SLICE sig)"
  by (simp add: version_STRIDED_SLICE_def versions)

lemma version_REVERSE_V2_upto: "upto_version 2 (version_REVERSE_V2 sig)"
  by (simp add: version_REVERSE_V2_def versions)

lemma version_RESIZE_BILINEAR_upto: "upto_version 3 (version_RESIZE_BILINEAR sig)"
  by (simp add: version_RESIZE_BILINEAR_def versions)

lemma version_RESIZE_NEAREST_NEIGHBOR_upto: "upto_version 4 (version_RESIZE_NEAREST_NEIGHBOR sig)"
  by (simp add: version_RESIZE_NEAREST_NEIGHBOR_def versions)

lemma version_MAXIMUM_MINIMUM_upto: "upto_version 4 (version_MAXIMUM_MINIMUM sig)"
  by (simp add: version_MAXIMUM_MINIMUM_def versions)

lemma version_PACK_upto: "upto_version 3 (version_PACK sig)"
  by (simp add: version_PACK_def versions)

lemma version_TILE_upto: "upto_version 2 (version_TILE sig)"
  by (simp add: version_TILE_def versions)

lemma version_SPACE_BATCH_ND_upto: "upto_version 3 (version_SPACE_BATCH_ND sig)"
  by (simp add: version_SPACE_BATCH_ND_def versions)

lemma version_ADD_upto: "upto_version 3 (version_ADD sig)"
  by (simp add: version_ADD_def versions)

lemma version_SUB_upto: "upto_version 5 (version_SUB sig)"
  by (simp add: version_SUB_def versions)

lemma version_GATHER_ND_upto: "upto_version 2 (version_GATHER_ND sig)"
  by (simp add: version_GATHER_ND_def versions)

lemma version_DIV_upto: "upto_version 2 (version_DIV sig)"
  by (simp add: version_DIV_def versions)

lemma version_TANH_LOGISTIC_upto: "upto_version 3 (version_TANH_LOGISTIC sig)"
  by (simp add: version_TANH_LOGISTIC_def versions)

lemma version_FILL_upto: "upto_version 2 (version_FILL sig)"
  by (simp add: version_FILL_def versions)

lemma version_EQUAL_upto: "upto_version 3 (version_EQUAL sig)"
  by (simp add: version_EQUAL_def versions)

lemma version_LEAKY_RELU_upto: "upto_version 2 (version_LEAKY_RELU sig)"
  by (simp add: version_LEAKY_RELU_def versions)

lemma version_INT16_INT8_upto: "upto_version 3 (version_INT16_INT8 sig)"
  by (simp add: version_INT16_INT8_def versions)

lemma version_RNN_upto: "upto_version 3 (version_RNN sig)"
  by (simp add: version_RNN_def versions)

lemma version_INT8_upto: "upto_version 2 (version_INT8 sig)"
  by (simp add: version_INT8_def versions)

lemmas version_bounds =
  version_CONV_2D_upto version_DEPTHWISE_CONV_2D_upto version_FAKE_QUANT_upto
  version_FULLY_CONNECTED_upto version_GATHER_upto version_SVDF_upto
  version_MUL_upto version_POOL_2D_upto version_TRANSPOSE_upto
  version_TRANSPOSE_CONV_upto version_LSTM_upto version_UNIDIRECTIONAL_SEQUENCE_LSTM_upto
  version_SPLIT_upto version_SPARSE_TO_DENSE_upto version_SLICE_upto
  version_UNPACK_upto version_DEQUANTIZE_upto version_FLOOR_DIV_upto
  version_L2_NORMALIZATION_upto version_ABS_RELU_upto version_STRIDED_SLICE_upto
  version_REVERSE_V2_upto version_RESIZE_BILINEAR_upto version_RESIZE_NEAREST_NEIGHBOR_upto
  version_MAXIMUM_MINIMUM_upto version_PACK_upto version_TILE_upto
  version_SPACE_BATCH_ND_upto version_ADD_upto version_SUB_upto
  version_GATHER_ND_upto version_DIV_upto version_TANH_LOGISTIC_upto
  version_FILL_upto version_EQUAL_upto version_LEAKY_RELU_upto
  version_INT16_INT8_upto version_RNN_upto version_INT8_upto

text \<open>The latest version that the tool gives an operator.\<close>

definition latest_version :: "int \<Rightarrow> int" where
  "latest_version op =
     (if op = BuiltinOperator_CONV_2D
       then 5
     else if op = BuiltinOperator_DEPTHWISE_CONV_2D
       then 6
     else if op = BuiltinOperator_FAKE_QUANT
       then 2
     else if op = BuiltinOperator_FULLY_CONNECTED
       then 9
     else if op = BuiltinOperator_GATHER
       then 4
     else if op = BuiltinOperator_SVDF
       then 4
     else if op = BuiltinOperator_MUL
       then 4
     else if op = BuiltinOperator_MAX_POOL_2D \<or> op = BuiltinOperator_AVERAGE_POOL_2D
       then 3
     else if op = BuiltinOperator_TRANSPOSE
       then 5
     else if op = BuiltinOperator_TRANSPOSE_CONV
       then 3
     else if op = BuiltinOperator_LSTM
       then 4
     else if op = BuiltinOperator_UNIDIRECTIONAL_SEQUENCE_LSTM
       then 3
     else if op = BuiltinOperator_SPLIT
       then 4
     else if op = BuiltinOperator_SPARSE_TO_DENSE
       then 3
     else if op = BuiltinOperator_SLICE
       then 4
     else if op = BuiltinOperator_UNPACK
       then 4
     else if op = BuiltinOperator_DEQUANTIZE
       then 3
     else if op = BuiltinOperator_FLOOR_DIV
       then 2
     else if op = BuiltinOperator_L2_NORMALIZATION
       then 2
     else if op = BuiltinOperator_ABS \<or> op = BuiltinOperator_RELU
       then 2
     else if op = BuiltinOperator_STRIDED_SLICE
       then 4
     else if op = BuiltinOperator_REVERSE_V2
       then 2
     else if op = BuiltinOperator_RESIZE_BILINEAR
       then 3
     else if op = BuiltinOperator_RESIZE_NEAREST_NEIGHBOR
       then 4
     else if op = BuiltinOperator_MAXIMUM \<or> op = BuiltinOperator_MINIMUM
       then 4
     else if op = BuiltinOperator_PACK
       then 3
     else if op = BuiltinOperator_TILE
       then 2
     else if op = BuiltinOperator_SPACE_TO_BATCH_ND \<or> op = BuiltinOperator_BATCH_TO_SPACE_ND
       then 3
     else if op = BuiltinOperator_ADD
       then 3
     else if op = BuiltinOperator_SUB
       then 5
     else if op = BuiltinOperator_GATHER_ND
       then 2
     else if op = BuiltinOperator_DIV
       then 2
     else if op = BuiltinOperator_TANH \<or> op = BuiltinOperator_LOGISTIC
       then 3
     else if op = BuiltinOperator_FILL
       then 2
     else if op = BuiltinOperator_EQUAL \<or> op = BuiltinOperator_NOT_EQUAL
       then 3
     else if op = BuiltinOperator_LEAKY_RELU
       then 2
     else if op \<in> {BuiltinOperator_CONCATENATION, BuiltinOperator_BATCH_MATMUL,
         BuiltinOperator_SOFTMAX, BuiltinOperator_MEAN, BuiltinOperator_PAD, BuiltinOperator_PADV2}
       then 3
     else if op \<in> {BuiltinOperator_RNN, BuiltinOperator_UNIDIRECTIONAL_SEQUENCE_RNN,
         BuiltinOperator_BIDIRECTIONAL_SEQUENCE_RNN, BuiltinOperator_BIDIRECTIONAL_SEQUENCE_LSTM}
       then 3
     else if op \<in> {BuiltinOperator_SPACE_TO_DEPTH, BuiltinOperator_SPLIT_V,
         BuiltinOperator_SUM, BuiltinOperator_REDUCE_MAX, BuiltinOperator_REDUCE_MIN,
         BuiltinOperator_RELU6, BuiltinOperator_LOG_SOFTMAX, BuiltinOperator_TOPK_V2,
         BuiltinOperator_ARG_MAX, BuiltinOperator_ARG_MIN, BuiltinOperator_GREATER,
         BuiltinOperator_GREATER_EQUAL, BuiltinOperator_LESS, BuiltinOperator_LESS_EQUAL,
         BuiltinOperator_SELECT, BuiltinOperator_MIRROR_PAD}
       then 2
     else 1)"

lemma GetBuiltinOperatorVersion_upto:
  "upto_version (latest_version (sig_op sig)) (GetBuiltinOperatorVersion ge_one sig)"
  unfolding latest_version_def GetBuiltinOperatorVersion_def Let_def
  by (intro upto_if version_bounds) (simp add: upto_Some)

lemma latest_registered: "list_all (\<lambda>(op, lo, hi). lo = 1 \<and> latest_version op \<le> hi) builtin_ops"
  by (simp add: builtin_ops_def builtin_ops_1_def builtin_ops_2_def latest_version_def)

lemma version_listed:
  assumes "GetBuiltinOperatorVersion ge_one sig = Some v"
    and "listed builtin_ops (sig_op sig) v0"
  shows "listed builtin_ops (sig_op sig) v"
proof -
  obtain lo hi where "(sig_op sig, lo, hi) \<in> set builtin_ops"
    using assms(2) by (auto simp: listed_def list_ex_iff)
  moreover from this have "lo = 1" "latest_version (sig_op sig) \<le> hi"
    using latest_registered by (auto simp: list_all_iff)
  moreover have "1 \<le> v \<and> v \<le> latest_version (sig_op sig)"
    using GetBuiltinOperatorVersion_upto [of sig ge_one] assms(1) by (simp add: upto_version_def)
  ultimately show ?thesis
    unfolding listed_def list_ex_iff by (intro bexI [of _ "(sig_op sig, lo, hi)"]) auto
qed

text \<open>
  Whatever version \<^verbatim>\<open>GetBuiltinOperatorVersion\<close> gives an operator,
         the default resolver has a kernel
  for it: for every signature, an operator that is registered at all is registered in the version
  the tool writes into the model. The two tables are kept by hand in two files.
\<close>

theorem versions_are_registered:
  assumes "GetBuiltinOperatorVersion ge_one sig = Some v"
    and "listed builtin_ops (sig_op sig) v0"
  shows "listed builtin_ops (sig_op sig) v"
  using assms by (rule version_listed)

lemma versions_are_registered_witness:
  "listed builtin_ops BuiltinOperator_GATHER 4"
  using versions_are_registered [of "\<lambda>_ _ _. False"
      "\<lparr>sig_op = BuiltinOperator_GATHER, input_types = [TensorType_INT16, TensorType_INT32],
        output_types = [TensorType_INT16], options = zero_options\<rparr>" 4 1]
  by (simp add: GetBuiltinOperatorVersion_def version_GATHER_def when_else_def has_type_def
      listed_def builtin_ops_def builtin_ops_1_def builtin_ops_2_def)

text \<open>
  \<^verbatim>\<open>GetBuiltinOperatorVersion\<close> throws on every 16-bit convolution: it asks for the type of a second
  output, \<^verbatim>\<open>output_types.at(1)\<close>, although a convolution has one output, so that the versions 4 of
  \<^verbatim>\<open>CONV_2D\<close> and 5 of \<^verbatim>\<open>DEPTHWISE_CONV_2D\<close> are never given to a model.
\<close>

theorem int16_convolution_throws:
  assumes "sig_op sig = BuiltinOperator_CONV_2D \<or> sig_op sig = BuiltinOperator_DEPTHWISE_CONV_2D"
    and "input_types sig = TensorType_INT16 # TensorType_INT16 # rest"
    and "length (output_types sig) = 1"
  shows "GetBuiltinOperatorVersion ge_one sig = None"
  using assms
  by (elim disjE) (simp_all add: GetBuiltinOperatorVersion_def version_CONV_2D_def
      version_DEPTHWISE_CONV_2D_def has_type_def when_else_def)

lemma int16_convolution_throws_witness:
  "GetBuiltinOperatorVersion (\<lambda>_ _ _. False)
     \<lparr>sig_op = BuiltinOperator_CONV_2D,
      input_types = [TensorType_INT16, TensorType_INT16, TensorType_INT64],
      output_types = [TensorType_INT16], options = zero_options\<rparr> = None"
  using int16_convolution_throws [of "\<lparr>sig_op = BuiltinOperator_CONV_2D,
      input_types = [TensorType_INT16, TensorType_INT16, TensorType_INT64],
      output_types = [TensorType_INT16], options = zero_options\<rparr>" "[TensorType_INT64]"]
  by simp

definition symmetric :: "op_options \<Rightarrow> bool" where
  "symmetric opts \<longleftrightarrow>
     \<not> lstm_asymmetric_quantize_inputs opts \<and> \<not> iq_asymmetric_quantize_inputs opts"

lemma all_of_True: "all_of cs = Some True \<Longrightarrow> c \<in> set cs \<Longrightarrow> c = Some True"
  by (induction cs) (auto simp: bind_eq_Some_conv split: if_splits)

lemma asymmetric_never:
  "when_else (all_of cs) v r = Some w \<Longrightarrow> last cs = Some False \<Longrightarrow> cs \<noteq> [] \<Longrightarrow> r = Some w"
  using all_of_True [of cs "last cs"] last_in_set [of cs]
  by (auto simp: when_else_def bind_eq_Some_conv split: if_splits)

lemma when_else_Some: "when_else c v r = Some w \<Longrightarrow> w = v \<or> r = Some w"
  by (auto simp: when_else_def bind_eq_Some_conv split: if_splits)

lemma symmetric_zero [simp]: "symmetric zero_options"
  by (simp add: symmetric_def zero_options_def)

lemma symmetric_updates [simp]:
  "symmetric (opts\<lparr>dw_dilation_w_factor := i\<rparr>) = symmetric opts"
  "symmetric (opts\<lparr>dw_dilation_h_factor := i\<rparr>) = symmetric opts"
  "symmetric (opts\<lparr>dw_is_per_channel_quantized := b\<rparr>) = symmetric opts"
  "symmetric (opts\<lparr>fakequant_narrow_range := b\<rparr>) = symmetric opts"
  "symmetric (opts\<lparr>fc_keep_num_dims := b\<rparr>) = symmetric opts"
  "symmetric (opts\<lparr>fc_weights_format := i\<rparr>) = symmetric opts"
  "symmetric (opts\<lparr>fc_sparse_weight := b\<rparr>) = symmetric opts"
  "symmetric (opts\<lparr>fc_asymmetric_quantize_inputs := b\<rparr>) = symmetric opts"
  "symmetric (opts\<lparr>mul_input1_scale := w\<rparr>) = symmetric opts"
  "symmetric (opts\<lparr>mul_input2_scale := w\<rparr>) = symmetric opts"
  "symmetric (opts\<lparr>mul_output_scale := w\<rparr>) = symmetric opts"
  "symmetric (opts\<lparr>lstm_kernel_type := i\<rparr>) = symmetric opts"
  "symmetric (opts\<lparr>resize_half_pixel_centers := b\<rparr>) = symmetric opts"
  "symmetric (opts\<lparr>resize_align_corners := b\<rparr>) = symmetric opts"
  "symmetric (opts\<lparr>single_num_dims := i\<rparr>) = symmetric opts"
  "symmetric (opts\<lparr>broadcast_num_dims := i\<rparr>) = symmetric opts"
  "symmetric (opts\<lparr>broadcast_need_broadcast := b\<rparr>) = symmetric opts"
  "symmetric (opts\<lparr>addsub_pot_scale_int16 := b\<rparr>) = symmetric opts"
  "symmetric (opts\<lparr>addsub_num_dims := i\<rparr>) = symmetric opts"
  "symmetric (opts\<lparr>addsub_need_broadcast := b\<rparr>) = symmetric opts"
  "symmetric (opts\<lparr>conv_is_per_channel_quantized := b\<rparr>) = symmetric opts"
  by (simp_all add: symmetric_def)

lemma symmetric_case [simp]:
  "symmetric a \<Longrightarrow> (\<And>x. symmetric (f x)) \<Longrightarrow> symmetric (case o' of None \<Rightarrow> a | Some x \<Rightarrow> f x)"
  by (simp split: option.split)

lemma options_symmetric:
  "options_DEPTHWISE_CONV_2D op sg = Some opts \<Longrightarrow> symmetric opts"
  "options_FULLY_CONNECTED op sg = Some opts \<Longrightarrow> symmetric opts"
  "options_MUL op sg = Some opts \<Longrightarrow> symmetric opts"
  "options_SUB op sg = Some opts \<Longrightarrow> symmetric opts"
  "options_CONV_2D op sg = Some opts \<Longrightarrow> symmetric opts"
  "options_broadcast op sg = Some opts \<Longrightarrow> symmetric opts"
proof -
  show "options_DEPTHWISE_CONV_2D op sg = Some opts \<Longrightarrow> symmetric opts"
    unfolding options_DEPTHWISE_CONV_2D_def Let_def
    by (cases "fb_builtin_options op"; clarsimp simp: bind_eq_Some_conv)
      (simp split: builtin_options.split)
  show "options_FULLY_CONNECTED op sg = Some opts \<Longrightarrow> symmetric opts"
    unfolding options_FULLY_CONNECTED_def Let_def
    by (cases "fb_builtin_options op"; clarsimp simp: bind_eq_Some_conv)
      (simp split: builtin_options.split)
  show "options_MUL op sg = Some opts \<Longrightarrow> symmetric opts"
    by (auto simp: options_MUL_def bind_eq_Some_conv split: if_splits)
qed (auto simp: options_SUB_def options_CONV_2D_def options_broadcast_def bind_eq_Some_conv)

lemma signature_options_symmetric:
  assumes "signature_options code op sg = Some opts"
  shows "symmetric opts"
  using assms unfolding signature_options_def
  by (elim if_SomeE options_symmetric)
    (cases "fb_builtin_options op"; clarsimp; simp split: builtin_options.split)+

text \<open>
  The versions of the recurrent operators with asymmetrically quantized inputs are never given to a
  model: \<^verbatim>\<open>GetOpSignature\<close> does not copy \<^verbatim>\<open>asymmetric_quantize_inputs\<close> from the options of these
  operators, so that \<^verbatim>\<open>GetBuiltinOperatorVersion\<close>, which looks at it, always sees false.
\<close>

theorem asymmetric_versions_unreachable:
  assumes "GetOpSignature op_code op sg = Some sig"
    and "GetBuiltinOperatorVersion ge_one sig = Some v"
  shows "(sig_op sig = BuiltinOperator_LSTM \<longrightarrow> v \<le> 3)
    \<and> (sig_op sig = BuiltinOperator_SVDF \<longrightarrow> v \<le> 3)
    \<and> (sig_op sig = BuiltinOperator_UNIDIRECTIONAL_SEQUENCE_LSTM \<longrightarrow> v \<le> 2)
    \<and> (sig_op sig \<in> {BuiltinOperator_RNN, BuiltinOperator_UNIDIRECTIONAL_SEQUENCE_RNN,
                    BuiltinOperator_BIDIRECTIONAL_SEQUENCE_RNN,
                    BuiltinOperator_BIDIRECTIONAL_SEQUENCE_LSTM} \<longrightarrow> v \<le> 2)"
proof -
  have o: "\<not> lstm_asymmetric_quantize_inputs (options sig)"
    "\<not> iq_asymmetric_quantize_inputs (options sig)"
    using assms(1) signature_options_symmetric
    by (auto simp: GetOpSignature_def bind_eq_Some_conv symmetric_def)
  have lstm: "w \<le> 3" if "version_LSTM sig = Some w" for w
    using asymmetric_never [OF that [unfolded version_LSTM_def]]
    by (auto dest!: when_else_Some simp: o simp del: all_of.simps)
  have svdf: "w \<le> 3" if "version_SVDF sig = Some w" for w
    using when_else_Some [OF that [unfolded version_SVDF_def]]
  proof (elim disjE)
    assume "when_else (all_of [has_type (input_types sig) 0 TensorType_FLOAT32,
        has_type (input_types sig) 1 TensorType_INT8, has_type (output_types sig) 0 TensorType_FLOAT32,
        Some (iq_asymmetric_quantize_inputs (options sig))]) 4 (when_else (all_of
          [has_type (input_types sig) 0 TensorType_FLOAT32, has_type (input_types sig) 1 TensorType_INT8,
           has_type (output_types sig) 0 TensorType_FLOAT32]) 2 (Some 1)) = Some w"
    from asymmetric_never [OF this] show ?thesis
      by (auto dest!: when_else_Some simp: o simp del: all_of.simps)
  qed simp
  have uni: "w \<le> 2" if "version_UNIDIRECTIONAL_SEQUENCE_LSTM sig = Some w" for w
    using asymmetric_never [OF that [unfolded version_UNIDIRECTIONAL_SEQUENCE_LSTM_def]]
    by (auto dest!: when_else_Some simp: o simp del: all_of.simps)
  have rnn: "w \<le> 2" if "version_RNN sig = Some w" for w
    using asymmetric_never [OF that [unfolded version_RNN_def]]
    by (auto dest!: when_else_Some simp: o simp del: all_of.simps)
  show ?thesis
    using assms(2) lstm [of v] svdf [of v] uni [of v] rnn [of v]
    by (auto simp: GetBuiltinOperatorVersion_def)
qed

definition lstm_graph :: "bool \<Rightarrow> fb_subgraph" where
  "lstm_graph asymmetric =
     (let t = \<lambda>ty. \<lparr>fb_shape = Some [1, 4], fb_type = ty, fb_buffer = 0, fb_name = None,
                     fb_tensor_quantization = None, fb_is_variable = False, fb_tensor_sparsity = None,
                     fb_shape_signature = None\<rparr>
      in \<lparr>fb_tensors = Some [t TensorType_FLOAT32, t TensorType_FLOAT32, t TensorType_INT8, t TensorType_FLOAT32],
          fb_inputs = Some [0], fb_outputs = Some [3],
          fb_operators = Some [\<lparr>fb_opcode_index = 0, fb_op_inputs = Some [0, 1, 2],
            fb_op_outputs = Some [3], fb_op_intermediates = None,
            fb_builtin_options = Some (LSTMOptions LSTMKernelType_FULL asymmetric),
            fb_custom_options = None\<rparr>]\<rparr>)"

lemma asymmetric_versions_unreachable_witness:
  "\<exists>sig v. GetOpSignature (CreateOperatorCode BuiltinOperator_LSTM None 1)
        (hd (the (fb_operators (lstm_graph True)))) (lstm_graph True) = Some sig
    \<and> sig_op sig = BuiltinOperator_LSTM \<and> GetBuiltinOperatorVersion (\<lambda>_ _ _. False) sig = Some v \<and> v \<le> 3"
proof -
  obtain sig where sig: "GetOpSignature (CreateOperatorCode BuiltinOperator_LSTM None 1)
        (hd (the (fb_operators (lstm_graph True)))) (lstm_graph True) = Some sig"
    and "sig_op sig = BuiltinOperator_LSTM"
    and v: "GetBuiltinOperatorVersion (\<lambda>_ _ _. False) sig = Some 3"
    by (simp add: GetOpSignature_def signature_options_def lstm_graph_def GetTensorType_def
        CreateOperatorCode_def GetBuiltinCode_def ConvertBuiltinCodeToDeprecatedBuiltinCode_def
        GetBuiltinOperatorVersion_def version_LSTM_def when_else_def has_type_def zero_options_def)
  then show ?thesis
    using asymmetric_versions_unreachable [OF sig v] by blast
qed

section \<open>Writing the versions\<close>

text \<open>What the flatbuffers library does when the version is a stored field.\<close>

definition writes_version :: "mutate_version \<Rightarrow> bool" where
  "writes_version mutate \<longleftrightarrow> (\<forall>v c. mutate v c = (c\<lparr>fb_version := v\<rparr>, True))"

text \<open>The version that an operator needs; the code decides which options are read.\<close>

definition needed_version ::
  "(32 word \<Rightarrow> 32 word \<Rightarrow> 32 word \<Rightarrow> bool) \<Rightarrow> operator_code \<Rightarrow> fb_subgraph \<times> fb_operator \<Rightarrow> int option" where
  "needed_version ge_one c o' =
     Option.bind (GetOpSignature c (snd o') (fst o')) (GetBuiltinOperatorVersion ge_one)"

lemma GetBuiltinCode_version [simp]: "GetBuiltinCode (c\<lparr>fb_version := v\<rparr>) = GetBuiltinCode c"
  by (simp add: GetBuiltinCode_def)

lemma needed_version_cong:
  "GetBuiltinCode c = GetBuiltinCode c' \<Longrightarrow> needed_version ge_one c o' = needed_version ge_one c' o'"
  by (simp add: needed_version_def GetOpSignature_def)

lemma update_ops_append:
  "update_ops ge_one mutate (xs @ ys) codes
     = Option.bind (update_ops ge_one mutate xs codes) (update_ops ge_one mutate ys)"
proof (induction xs arbitrary: codes)
  case (Cons x xs)
  then show ?case
    by (cases "update_op ge_one mutate (fst x) (snd x) codes") simp_all
qed simp

definition up_to_date ::
  "(32 word \<Rightarrow> 32 word \<Rightarrow> 32 word \<Rightarrow> bool) \<Rightarrow> operator_code list \<Rightarrow> fb_subgraph \<times> fb_operator \<Rightarrow> bool" where
  "up_to_date ge_one codes o' \<longleftrightarrow>
     fb_opcode_index (snd o') < length codes
     \<and> (let c = codes ! fb_opcode_index (snd o')
        in GetBuiltinCode c = BuiltinOperator_CUSTOM
           \<or> needed_version ge_one c o' = Some (fb_version c))"

definition agreeing ::
  "(32 word \<Rightarrow> 32 word \<Rightarrow> 32 word \<Rightarrow> bool) \<Rightarrow> operator_code list \<Rightarrow> (fb_subgraph \<times> fb_operator) list \<Rightarrow> bool" where
  "agreeing ge_one codes os \<longleftrightarrow>
     (\<forall>o1\<in>set os. \<forall>o2\<in>set os. fb_opcode_index (snd o1) = fb_opcode_index (snd o2) \<longrightarrow>
        needed_version ge_one (codes ! fb_opcode_index (snd o1)) o1
          = needed_version ge_one (codes ! fb_opcode_index (snd o2)) o2)"

lemma agreeing_subset: "set xs \<subseteq> set ys \<Longrightarrow> agreeing ge_one codes ys \<Longrightarrow> agreeing ge_one codes xs"
  unfolding agreeing_def by (meson subsetD)

lemma agreeingD:
  "agreeing ge_one codes os \<Longrightarrow> o1 \<in> set os \<Longrightarrow> o2 \<in> set os \<Longrightarrow>
   fb_opcode_index (snd o1) = fb_opcode_index (snd o2) \<Longrightarrow>
   needed_version ge_one (codes ! fb_opcode_index (snd o1)) o1
     = needed_version ge_one (codes ! fb_opcode_index (snd o2)) o2"
  unfolding agreeing_def by blast

lemma update_op_writes:
  assumes "writes_version mutate" "update_op ge_one mutate (fst o') (snd o') codes = Some codes'"
  shows "fb_opcode_index (snd o') < length codes \<and>
    (let i = fb_opcode_index (snd o'); c = codes ! i in
      if GetBuiltinCode c = BuiltinOperator_CUSTOM then codes' = codes
      else \<exists>v. needed_version ge_one c o' = Some v \<and> codes' = codes[i := c\<lparr>fb_version := v\<rparr>])"
  using assms
  by (auto simp: update_op_def fb_get_def needed_version_def writes_version_def Let_def
      bind_eq_Some_conv split: if_splits)

lemma update_ops_up_to_date:
  assumes w: "writes_version mutate" and "agreeing ge_one codes os"
    and "update_ops ge_one mutate os codes = Some codes'"
  shows "map GetBuiltinCode codes' = map GetBuiltinCode codes
    \<and> map fb_custom_code codes' = map fb_custom_code codes
    \<and> (\<forall>o'\<in>set os. up_to_date ge_one codes' o')"
  using assms(2,3)
proof (induction os arbitrary: codes' rule: rev_induct)
  case (snoc o' os)
  obtain codes1 where up1: "update_ops ge_one mutate os codes = Some codes1"
    and up: "update_op ge_one mutate (fst o') (snd o') codes1 = Some codes'"
    using snoc.prems(2) by (auto simp: update_ops_append bind_eq_Some_conv)
  have agree: "agreeing ge_one codes os"
    by (rule agreeing_subset [OF _ snoc.prems(1)]) auto
  have IH: "map GetBuiltinCode codes1 = map GetBuiltinCode codes"
    "map fb_custom_code codes1 = map fb_custom_code codes"
    "\<forall>o2\<in>set os. up_to_date ge_one codes1 o2"
    using snoc.IH [OF agree up1] by blast+
  have code: "GetBuiltinCode (codes1 ! i) = GetBuiltinCode (codes ! i)" if "i < length codes1" for i
    using that IH(1) by (metis length_map nth_map)
  let ?i = "fb_opcode_index (snd o')"
  note writes = update_op_writes [OF w up]
  show ?case
  proof (cases "GetBuiltinCode (codes1 ! ?i) = BuiltinOperator_CUSTOM")
    case True
    then show ?thesis
      using IH writes by (auto simp: Let_def up_to_date_def)
  next
    case False
    then obtain v where v: "needed_version ge_one (codes1 ! ?i) o' = Some v"
      and codes': "codes' = codes1[?i := (codes1 ! ?i)\<lparr>fb_version := v\<rparr>]" and i: "?i < length codes1"
      using writes by (auto simp: Let_def)
    have same: "map GetBuiltinCode codes' = map GetBuiltinCode codes1"
      "map fb_custom_code codes' = map fb_custom_code codes1"
      by (simp_all add: codes' map_update) (metis i list_update_id nth_map)+
    have new: "up_to_date ge_one codes' o'"
      using i v needed_version_cong [of "(codes1 ! ?i)\<lparr>fb_version := v\<rparr>" "codes1 ! ?i" ge_one o']
      by (simp add: up_to_date_def codes' Let_def)
    have "up_to_date ge_one codes' o2" if o2: "o2 \<in> set os" for o2
    proof (cases "fb_opcode_index (snd o2) = ?i")
      case True
      have "needed_version ge_one (codes ! ?i) o2 = needed_version ge_one (codes ! ?i) o'"
        using agreeingD [OF snoc.prems(1), of o2 o'] o2 True by simp
      then have "needed_version ge_one (codes' ! ?i) o2 = Some v"
        using v i code [OF i] needed_version_cong [of "codes' ! ?i" "codes ! ?i"]
          needed_version_cong [of "codes1 ! ?i" "codes ! ?i"] by (simp add: codes')
      then show ?thesis
        using i by (simp add: up_to_date_def True codes' Let_def)
    next
      case False
      then show ?thesis
        using IH(3) o2 by (auto simp: up_to_date_def codes' Let_def)
    qed
    then show ?thesis
      using same IH(1,2) new by simp
  qed
qed (simp add: up_to_date_def)

text \<open>
  C21: After a successful \<^verbatim>\<open>UpdateOpVersion\<close> every operator of the model that is not a custom one has in
  its operator code the version it needs, and the default resolver has a kernel for it if
  \<^verbatim>\<open>register.cc\<close> lists the operator in any version. This holds if the operators that share an operator
  code need the same version of it (\<open>agreeing\<close>; \<open>UpdateOpVersion_last_wins\<close> is what happens
  otherwise), and if the library that writes the field of the buffer does so (\<open>writes_version\<close>).
  Custom operators keep their version, and neither they nor builtin operators that are not listed
  are said to be found.
\<close>

theorem UpdateOpVersion_resolvable:
  assumes "writes_version mutate" and "UpdateOpVersion ge_one mutate model = Some model'"
    and "fb_subgraphs model = Some sgs" and "all_operators sgs = Some os"
    and "fb_operator_codes model = Some codes" and "agreeing ge_one codes os"
    and "BuiltinOpResolver reg custom_reg = Some m"
  shows "\<exists>codes'. fb_operator_codes model' = Some codes'
    \<and> map GetBuiltinCode codes' = map GetBuiltinCode codes
    \<and> (\<forall>o'\<in>set os. up_to_date ge_one codes' o'
         \<and> (let c = codes' ! fb_opcode_index (snd o') in
              GetBuiltinCode c \<noteq> BuiltinOperator_CUSTOM \<and> (\<exists>v. listed builtin_ops (GetBuiltinCode c) v)
              \<longrightarrow> fst (GetRegistrationFromOpCode c (as_resolver delegates m)) = kTfLiteOk))"
proof -
  obtain codes' where codes': "update_ops ge_one mutate os codes = Some codes'"
    "fb_operator_codes model' = Some codes'"
    using assms(2-5) by (auto simp: UpdateOpVersion_def bind_eq_Some_conv)
  note up = update_ops_up_to_date [OF assms(1,6) codes'(1)]
  have "fst (GetRegistrationFromOpCode c (as_resolver delegates m)) = kTfLiteOk"
    if o': "o' \<in> set os" and c: "c = codes' ! fb_opcode_index (snd o')"
      and code: "GetBuiltinCode c \<noteq> BuiltinOperator_CUSTOM"
      and l: "listed builtin_ops (GetBuiltinCode c) v" for o' c v
  proof -
    obtain sig where "GetOpSignature c (snd o') (fst o') = Some sig"
      and sig: "GetBuiltinOperatorVersion ge_one sig = Some (fb_version c)"
      using up o' c code by (auto simp: up_to_date_def Let_def needed_version_def bind_eq_Some_conv)
    then have "sig_op sig = GetBuiltinCode c" by (auto simp: GetOpSignature_def bind_eq_Some_conv)
    then have "listed builtin_ops (GetBuiltinCode c) (fb_version c)"
      using version_listed [OF sig] l by simp
    then show ?thesis
      using default_resolver_ok [OF assms(7), of c delegates] code by simp
  qed
  then show ?thesis
    using codes'(2) up unfolding Let_def by blast
qed

text \<open>A model with operators \<^verbatim>\<open>GATHER\<close> on tensors of the given types, which share one code.\<close>

definition gather_model :: "int list \<Rightarrow> fb_model" where
  "gather_model tys =
     (let t = \<lambda>ty. \<lparr>fb_shape = Some [4], fb_type = ty, fb_buffer = 0, fb_name = None,
                     fb_tensor_quantization = None, fb_is_variable = False, fb_tensor_sparsity = None,
                     fb_shape_signature = None\<rparr>
      in \<lparr>fb_model_version = 3,
          fb_operator_codes = Some [CreateOperatorCode BuiltinOperator_GATHER None 1],
          fb_subgraphs = Some [\<lparr>fb_tensors = Some (map t tys), fb_inputs = Some [], fb_outputs = Some [],
            fb_operators = Some (map (\<lambda>i. \<lparr>fb_opcode_index = 0, fb_op_inputs = Some [int i],
              fb_op_outputs = Some [int i], fb_op_intermediates = None, fb_builtin_options = None,
              fb_custom_options = None\<rparr>) [0..<length tys])\<rparr>],
          fb_buffers = Some [], fb_metadata = None\<rparr>)"

lemmas eval_version = UpdateOpVersion_def gather_model_def update_op_def GetOpSignature_def
  signature_options_def GetTensorType_def CreateOperatorCode_def GetBuiltinCode_def
  ConvertBuiltinCodeToDeprecatedBuiltinCode_def GetBuiltinOperatorVersion_def version_GATHER_def
  when_else_def has_type_def fb_get_def

lemma UpdateOpVersion_resolvable_witness:
  "\<exists>codes'. fb_operator_codes (the (UpdateOpVersion (\<lambda>_ _ _. False) (\<lambda>v c. (c\<lparr>fb_version := v\<rparr>, True))
       (gather_model [TensorType_INT16]))) = Some codes'
     \<and> fst (GetRegistrationFromOpCode (codes' ! 0)
           (as_resolver (\<lambda>_. []) (the (BuiltinOpResolver (\<lambda>_. snd empty_node) (\<lambda>_. snd empty_node))))) = kTfLiteOk"
proof -
  let ?mutate = "\<lambda>v c. (c\<lparr>fb_version := v\<rparr>, True) :: operator_code \<times> bool"
  let ?model = "gather_model [TensorType_INT16]"
  obtain m where m: "BuiltinOpResolver (\<lambda>_. snd empty_node) (\<lambda>_. snd empty_node) = Some m"
    using BuiltinOpResolver_tables by blast
  obtain model' codes' where u: "UpdateOpVersion (\<lambda>_ _ _. False) ?mutate ?model = Some model'"
    and c: "fb_operator_codes model' = Some codes'" "GetBuiltinCode (codes' ! 0) = BuiltinOperator_GATHER"
    by (simp add: eval_version)
  obtain sg o' where sg: "fb_subgraphs ?model = Some [sg]" "fb_operators sg = Some [o']"
    and i: "fb_opcode_index o' = 0"
    by (simp add: gather_model_def)
  obtain codes where cs: "fb_operator_codes ?model = Some codes" by (simp add: gather_model_def)
  have "all_operators [sg] = Some [(sg, o')]" using sg by simp
  from UpdateOpVersion_resolvable [OF _ u sg(1) this cs _ m, of "\<lambda>_. []"] have
    "fst (GetRegistrationFromOpCode (codes' ! 0) (as_resolver (\<lambda>_. []) m)) = kTfLiteOk"
    using c i by (auto simp: writes_version_def agreeing_def listed_def builtin_ops_def builtin_ops_1_def)
  then show ?thesis using u c m by simp
qed

text \<open>
  When two operators share an operator code, the one that comes last decides its version:
  \<^verbatim>\<open>UpdateOpVersion\<close> overwrites the version that an earlier operator needs, also by a smaller one, so
  that the model claims to run on a run-time whose kernel is too old for the earlier operator.
\<close>

theorem UpdateOpVersion_last_wins:
  assumes "writes_version mutate" and "fb_subgraphs model = Some [sg]"
    and "fb_operators sg = Some [o1, o2]" and "fb_operator_codes model = Some codes"
    and "fb_opcode_index o1 = i" "fb_opcode_index o2 = i" "i < length codes"
    and "GetBuiltinCode (codes ! i) \<noteq> BuiltinOperator_CUSTOM"
    and "needed_version ge_one (codes ! i) (sg, o1) = Some v1"
    and "needed_version ge_one (codes ! i) (sg, o2) = Some v2"
  shows "\<exists>model'. UpdateOpVersion ge_one mutate model = Some model'
    \<and> (\<exists>codes'. fb_operator_codes model' = Some codes' \<and> fb_version (codes' ! i) = v2)"
proof -
  have "GetOpSignature ((codes ! i)\<lparr>fb_version := v1\<rparr>) o2 sg = GetOpSignature (codes ! i) o2 sg"
    by (simp add: GetOpSignature_def)
  then show ?thesis
    using assms
    by (auto simp: UpdateOpVersion_def update_op_def fb_get_def needed_version_def writes_version_def
        bind_eq_Some_conv)
qed

lemma UpdateOpVersion_last_wins_witness:
  "\<exists>model'. UpdateOpVersion (\<lambda>_ _ _. False) (\<lambda>v c. (c\<lparr>fb_version := v\<rparr>, True))
        (gather_model [TensorType_INT16, TensorType_FLOAT32]) = Some model'
     \<and> (\<exists>codes'. fb_operator_codes model' = Some codes' \<and> fb_version (codes' ! 0) = 1)"
proof -
  let ?model = "gather_model [TensorType_INT16, TensorType_FLOAT32]"
  obtain sg o1 o2 c where m: "fb_subgraphs ?model = Some [sg]" "fb_operators sg = Some [o1, o2]"
    "fb_operator_codes ?model = Some [c]" "fb_opcode_index o1 = 0" "fb_opcode_index o2 = 0"
    "GetBuiltinCode c = BuiltinOperator_GATHER"
    "needed_version (\<lambda>_ _ _. False) c (sg, o1) = Some 4"
    "needed_version (\<lambda>_ _ _. False) c (sg, o2) = Some 1"
    by (simp add: eval_version needed_version_def upt_rec)
  show ?thesis
    by (rule UpdateOpVersion_last_wins [where i = 0 and codes = "[c]"])
      (use m in \<open>auto simp: writes_version_def\<close>)
qed

end
