(* ===== verification/Runtime_Version.thy ===== *)
theory Runtime_Version
  imports Op_Version
begin

text \<open>
  \<^verbatim>\<open>tools/versioning/runtime_version.{h,cc}\<close>: the oldest run-time that can execute a model.

  \<^verbatim>\<open>absl::StrSplit\<close> and \<^verbatim>\<open>absl::SimpleAtoi\<close> are the record \<open>absl\<close>. The data of the buffers of a model
  are strings; a buffer that is absent or too small to be written to is \<^term>\<open>None\<close>.
\<close>

record absl =
  StrSplit :: "string \<Rightarrow> string list"
  SimpleAtoi :: "string \<Rightarrow> int option"

section \<open>Versions of the run-time\<close>

fun compare_parts :: "absl \<Rightarrow> string list \<Rightarrow> string list \<Rightarrow> bool" where
  "compare_parts L (x # xs) (y # ys) =
     (case (SimpleAtoi L x, SimpleAtoi L y) of
        (Some v1_val, Some v2_val) \<Rightarrow>
          if v1_val \<noteq> v2_val then v1_val < v2_val else compare_parts L xs ys
      | _ \<Rightarrow> compare_parts L xs ys)"
| "compare_parts L xs ys = (ys \<noteq> [])"

definition CompareRuntimeVersion :: "absl \<Rightarrow> string \<Rightarrow> string \<Rightarrow> bool" where
  "CompareRuntimeVersion L v1 v2 = compare_parts L (StrSplit L v1) (StrSplit L v2)"

section \<open>The table\<close>

definition runtime_table_1 :: "((int \<times> int) \<times> string) list" where
  "runtime_table_1 =
    [((BuiltinOperator_AVERAGE_POOL_2D, 1), ''1.5.0''),
     ((BuiltinOperator_AVERAGE_POOL_2D, 2), ''1.14.0''),
     ((BuiltinOperator_AVERAGE_POOL_2D, 3), ''2.3.0''),
     ((BuiltinOperator_BATCH_MATMUL, 1), ''2.3.0''),
     ((BuiltinOperator_BATCH_MATMUL, 2), ''2.3.0''),
     ((BuiltinOperator_BATCH_MATMUL, 3), ''2.4.0''), ((BuiltinOperator_CONV_2D, 1), ''1.5.0''),
     ((BuiltinOperator_CONV_2D, 2), ''1.14.0''), ((BuiltinOperator_CONV_2D, 3), ''1.14.0''),
     ((BuiltinOperator_CONV_2D, 4), ''2.3.0''), ((BuiltinOperator_CONV_2D, 5), ''2.4.0''),
     ((BuiltinOperator_DEPTHWISE_CONV_2D, 1), ''1.5.0''),
     ((BuiltinOperator_DEPTHWISE_CONV_2D, 2), ''1.12.0''),
     ((BuiltinOperator_DEPTHWISE_CONV_2D, 3), ''1.14.0''),
     ((BuiltinOperator_DEPTHWISE_CONV_2D, 4), ''2.2.0''),
     ((BuiltinOperator_DEPTHWISE_CONV_2D, 5), ''2.3.0''),
     ((BuiltinOperator_DEPTHWISE_CONV_2D, 6), ''2.3.0''), ((BuiltinOperator_ADD, 1), ''1.5.0''),
     ((BuiltinOperator_ADD, 2), ''1.14.0''), ((BuiltinOperator_ADD, 3), ''2.4.0''),
     ((BuiltinOperator_ADD, 4), ''2.4.0''), ((BuiltinOperator_ADD_N, 1), ''1.14.0''),
     ((BuiltinOperator_SPACE_TO_BATCH_ND, 1), ''1.6.0''),
     ((BuiltinOperator_SPACE_TO_BATCH_ND, 2), ''1.14.0''),
     ((BuiltinOperator_SPACE_TO_BATCH_ND, 3), ''2.3.0''), ((BuiltinOperator_SUB, 1), ''1.6.0''),
     ((BuiltinOperator_SUB, 2), ''1.14.0''), ((BuiltinOperator_SUB, 3), ''2.3.0''),
     ((BuiltinOperator_SUB, 4), ''2.4.0''), ((BuiltinOperator_SUB, 5), ''2.4.0''),
     ((BuiltinOperator_DENSIFY, 1), ''2.2.0''), ((BuiltinOperator_DIV, 1), ''1.6.0''),
     ((BuiltinOperator_DIV, 2), ''2.3.0''), ((BuiltinOperator_BATCH_TO_SPACE_ND, 1), ''1.6.0''),
     ((BuiltinOperator_BATCH_TO_SPACE_ND, 2), ''1.14.0''),
     ((BuiltinOperator_BATCH_TO_SPACE_ND, 3), ''2.3.0''), ((BuiltinOperator_CAST, 1), ''1.5.0''),
     ((BuiltinOperator_CONCATENATION, 1), ''1.5.0''),
     ((BuiltinOperator_CONCATENATION, 2), ''1.14.0''),
     ((BuiltinOperator_CONCATENATION, 3), ''2.3.0''),
     ((BuiltinOperator_DEPTH_TO_SPACE, 1), ''2.1.0''),
     ((BuiltinOperator_EMBEDDING_LOOKUP, 1), ''1.13.0''),
     ((BuiltinOperator_EMBEDDING_LOOKUP, 2), ''1.14.0''),
     ((BuiltinOperator_EMBEDDING_LOOKUP, 3), ''1.14.0''),
     ((BuiltinOperator_EMBEDDING_LOOKUP_SPARSE, 1), ''1.5.0''),
     ((BuiltinOperator_FAKE_QUANT, 1), ''1.5.0''), ((BuiltinOperator_FAKE_QUANT, 2), ''1.10.0''),
     ((BuiltinOperator_FULLY_CONNECTED, 1), ''1.5.0''),
     ((BuiltinOperator_FULLY_CONNECTED, 2), ''1.10.0''),
     ((BuiltinOperator_FULLY_CONNECTED, 3), ''1.14.0''),
     ((BuiltinOperator_FULLY_CONNECTED, 4), ''1.14.0''),
     ((BuiltinOperator_FULLY_CONNECTED, 5), ''2.0.0''),
     ((BuiltinOperator_FULLY_CONNECTED, 6), ''2.1.0''),
     ((BuiltinOperator_FULLY_CONNECTED, 7), ''2.3.0''),
     ((BuiltinOperator_FULLY_CONNECTED, 8), ''2.3.0''),
     ((BuiltinOperator_FULLY_CONNECTED, 9), ''2.3.0''), ((BuiltinOperator_GATHER, 1), ''1.6.0''),
     ((BuiltinOperator_GATHER, 2), ''1.14.0''), ((BuiltinOperator_GATHER, 3), ''1.15.0''),
     ((BuiltinOperator_GATHER, 4), ''2.4.0''), ((BuiltinOperator_GATHER_ND, 1), ''1.14.0''),
     ((BuiltinOperator_GATHER_ND, 2), ''2.3.0''),
     ((BuiltinOperator_HASHTABLE_LOOKUP, 1), ''1.5.0''), ((BuiltinOperator_SVDF, 1), ''1.5.0''),
     ((BuiltinOperator_SVDF, 2), ''1.14.0''), ((BuiltinOperator_SVDF, 3), ''2.2.0''),
     ((BuiltinOperator_SVDF, 4), ''2.3.0''), ((BuiltinOperator_L2_NORMALIZATION, 1), ''1.5.0''),
     ((BuiltinOperator_L2_NORMALIZATION, 2), ''1.14.0''),
     ((BuiltinOperator_L2_POOL_2D, 1), ''1.5.0''),
     ((BuiltinOperator_LOCAL_RESPONSE_NORMALIZATION, 1), ''1.5.0''),
     ((BuiltinOperator_MAX_POOL_2D, 1), ''1.5.0''),
     ((BuiltinOperator_MAX_POOL_2D, 2), ''1.14.0''),
     ((BuiltinOperator_MAX_POOL_2D, 3), ''2.3.0''), ((BuiltinOperator_MAXIMUM, 1), ''1.14.0''),
     ((BuiltinOperator_MAXIMUM, 2), ''1.14.0''), ((BuiltinOperator_MAXIMUM, 3), ''2.3.0''),
     ((BuiltinOperator_MAXIMUM, 4), ''2.3.0''), ((BuiltinOperator_MINIMUM, 1), ''1.14.0''),
     ((BuiltinOperator_MINIMUM, 2), ''1.14.0''), ((BuiltinOperator_MINIMUM, 3), ''2.3.0''),
     ((BuiltinOperator_MINIMUM, 4), ''2.3.0''), ((BuiltinOperator_MUL, 1), ''1.5.0''),
     ((BuiltinOperator_MUL, 2), ''1.14.0''), ((BuiltinOperator_MUL, 3), ''1.15.0''),
     ((BuiltinOperator_MUL, 4), ''2.3.0''),
     ((BuiltinOperator_NON_MAX_SUPPRESSION_V4, 1), ''2.1.0''),
     ((BuiltinOperator_NON_MAX_SUPPRESSION_V5, 1), ''2.1.0''),
     ((BuiltinOperator_PAD, 1), ''1.5.0''), ((BuiltinOperator_PAD, 2), ''1.14.0''),
     ((BuiltinOperator_PAD, 3), ''2.4.0''), ((BuiltinOperator_TILE, 1), ''1.10.1''),
     ((BuiltinOperator_TILE, 2), ''2.2.0''), ((BuiltinOperator_PADV2, 1), ''1.9.0''),
     ((BuiltinOperator_PADV2, 2), ''1.14.0''), ((BuiltinOperator_PADV2, 3), ''2.4.0''),
     ((BuiltinOperator_RESHAPE, 1), ''1.5.0''), ((BuiltinOperator_SOFTMAX, 1), ''1.5.0''),
     ((BuiltinOperator_SOFTMAX, 2), ''1.14.0''), ((BuiltinOperator_SOFTMAX, 3), ''2.3.0''),
     ((BuiltinOperator_SPACE_TO_DEPTH, 1), ''1.5.0''),
     ((BuiltinOperator_SPACE_TO_DEPTH, 2), ''1.14.0''),
     ((BuiltinOperator_TRANSPOSE, 1), ''1.6.0''), ((BuiltinOperator_TRANSPOSE, 2), ''1.14.0''),
     ((BuiltinOperator_TRANSPOSE, 3), ''1.15.0''), ((BuiltinOperator_TRANSPOSE, 4), ''2.3.0''),
     ((BuiltinOperator_TRANSPOSE, 5), ''2.4.0''), ((BuiltinOperator_LSTM, 1), ''1.7.0''),
     ((BuiltinOperator_LSTM, 2), ''1.10.0''), ((BuiltinOperator_LSTM, 3), ''1.14.0''),
     ((BuiltinOperator_LSTM, 4), ''2.3.0''),
     ((BuiltinOperator_UNIDIRECTIONAL_SEQUENCE_LSTM, 1), ''1.13.1''),
     ((BuiltinOperator_UNIDIRECTIONAL_SEQUENCE_LSTM, 2), ''1.14.0''),
     ((BuiltinOperator_UNIDIRECTIONAL_SEQUENCE_LSTM, 3), ''2.3.0''),
     ((BuiltinOperator_BIDIRECTIONAL_SEQUENCE_LSTM, 1), ''1.14.0''),
     ((BuiltinOperator_BIDIRECTIONAL_SEQUENCE_LSTM, 2), ''1.14.0''),
     ((BuiltinOperator_BIDIRECTIONAL_SEQUENCE_LSTM, 3), ''1.14.0''),
     ((BuiltinOperator_BIDIRECTIONAL_SEQUENCE_RNN, 1), ''1.14.0''),
     ((BuiltinOperator_BIDIRECTIONAL_SEQUENCE_RNN, 2), ''1.14.0''),
     ((BuiltinOperator_BIDIRECTIONAL_SEQUENCE_RNN, 3), ''2.3.0''),
     ((BuiltinOperator_MEAN, 1), ''1.6.0''), ((BuiltinOperator_MEAN, 2), ''1.14.0''),
     ((BuiltinOperator_MEAN, 3), ''2.4.0''), ((BuiltinOperator_SUM, 1), ''1.10.0''),
     ((BuiltinOperator_SUM, 2), ''1.15.0''), ((BuiltinOperator_REDUCE_MAX, 1), ''1.11.0''),
     ((BuiltinOperator_REDUCE_MAX, 2), ''1.14.0''), ((BuiltinOperator_REDUCE_MIN, 1), ''1.11.0''),
     ((BuiltinOperator_REDUCE_MIN, 2), ''1.14.0''),
     ((BuiltinOperator_REDUCE_PROD, 1), ''1.11.0''),
     ((BuiltinOperator_REDUCE_ANY, 1), ''1.11.0''), ((BuiltinOperator_RELU6, 1), ''1.5.0'')]"

definition runtime_table_2 :: "((int \<times> int) \<times> string) list" where
  "runtime_table_2 =
    [((BuiltinOperator_RELU6, 2), ''1.14.0''), ((BuiltinOperator_RESIZE_BILINEAR, 1), ''1.7.0''),
     ((BuiltinOperator_RESIZE_BILINEAR, 2), ''1.14.0''),
     ((BuiltinOperator_RESIZE_BILINEAR, 3), ''2.2.0''),
     ((BuiltinOperator_RESIZE_NEAREST_NEIGHBOR, 1), ''1.13.1''),
     ((BuiltinOperator_RESIZE_NEAREST_NEIGHBOR, 2), ''1.14.0''),
     ((BuiltinOperator_RESIZE_NEAREST_NEIGHBOR, 3), ''2.3.0''),
     ((BuiltinOperator_RESIZE_NEAREST_NEIGHBOR, 4), ''2.4.0''),
     ((BuiltinOperator_RNN, 1), ''1.5.0''), ((BuiltinOperator_RNN, 2), ''1.14.0''),
     ((BuiltinOperator_RNN, 3), ''2.3.0''), ((BuiltinOperator_SKIP_GRAM, 1), ''1.5.0''),
     ((BuiltinOperator_SQUEEZE, 1), ''1.6.0''), ((BuiltinOperator_SPLIT, 1), ''1.5.0''),
     ((BuiltinOperator_SPLIT, 2), ''1.14.0''), ((BuiltinOperator_SPLIT, 3), ''1.14.0''),
     ((BuiltinOperator_SPLIT, 4), ''2.3.0''), ((BuiltinOperator_SPLIT_V, 1), ''1.13.1''),
     ((BuiltinOperator_SPLIT_V, 2), ''2.3.0''), ((BuiltinOperator_STRIDED_SLICE, 1), ''1.6.0''),
     ((BuiltinOperator_STRIDED_SLICE, 2), ''1.14.0''),
     ((BuiltinOperator_STRIDED_SLICE, 3), ''2.1.0''),
     ((BuiltinOperator_STRIDED_SLICE, 4), ''2.2.0''), ((BuiltinOperator_TOPK_V2, 1), ''1.7.0''),
     ((BuiltinOperator_TOPK_V2, 2), ''1.14.0''), ((BuiltinOperator_ARG_MAX, 1), ''1.9.0''),
     ((BuiltinOperator_ARG_MAX, 2), ''1.14.0''), ((BuiltinOperator_ARG_MIN, 1), ''1.9.0''),
     ((BuiltinOperator_ARG_MIN, 2), ''1.14.0''), ((BuiltinOperator_TRANSPOSE_CONV, 1), ''1.9.0''),
     ((BuiltinOperator_TRANSPOSE_CONV, 2), ''2.2.0''),
     ((BuiltinOperator_TRANSPOSE_CONV, 3), ''2.3.0''),
     ((BuiltinOperator_SPARSE_TO_DENSE, 1), ''1.9.0''),
     ((BuiltinOperator_SPARSE_TO_DENSE, 2), ''1.14.0''),
     ((BuiltinOperator_SPARSE_TO_DENSE, 3), ''1.15.0''),
     ((BuiltinOperator_EXPAND_DIMS, 1), ''1.10.0''), ((BuiltinOperator_PACK, 1), ''1.11.0''),
     ((BuiltinOperator_PACK, 2), ''1.14.0''), ((BuiltinOperator_PACK, 3), ''2.3.0''),
     ((BuiltinOperator_SHAPE, 1), ''1.10.0''), ((BuiltinOperator_SLICE, 1), ''1.14.0''),
     ((BuiltinOperator_SLICE, 2), ''1.14.0''), ((BuiltinOperator_SLICE, 3), ''1.14.0''),
     ((BuiltinOperator_SLICE, 4), ''2.4.0''), ((BuiltinOperator_TANH, 1), ''1.14.0''),
     ((BuiltinOperator_TANH, 2), ''1.14.0''), ((BuiltinOperator_TANH, 3), ''2.3.0''),
     ((BuiltinOperator_ONE_HOT, 1), ''1.11.0''), ((BuiltinOperator_UNPACK, 1), ''1.11.0''),
     ((BuiltinOperator_UNPACK, 2), ''1.14.0''), ((BuiltinOperator_UNPACK, 3), ''2.2.0''),
     ((BuiltinOperator_UNPACK, 4), ''2.3.0''), ((BuiltinOperator_LEAKY_RELU, 1), ''1.13.1''),
     ((BuiltinOperator_LEAKY_RELU, 2), ''2.3.0''), ((BuiltinOperator_LOGISTIC, 1), ''1.14.0''),
     ((BuiltinOperator_LOGISTIC, 2), ''1.14.0''), ((BuiltinOperator_LOGISTIC, 3), ''2.3.0''),
     ((BuiltinOperator_LOG_SOFTMAX, 1), ''1.14.0''),
     ((BuiltinOperator_LOG_SOFTMAX, 2), ''1.14.0''),
     ((BuiltinOperator_LSH_PROJECTION, 1), ''1.5.0''),
     ((BuiltinOperator_SQUARED_DIFFERENCE, 1), ''1.13.1''),
     ((BuiltinOperator_MIRROR_PAD, 1), ''1.13.1''), ((BuiltinOperator_MIRROR_PAD, 2), ''2.3.0''),
     ((BuiltinOperator_UNIQUE, 1), ''1.14.0''),
     ((BuiltinOperator_UNIDIRECTIONAL_SEQUENCE_RNN, 1), ''1.14.0''),
     ((BuiltinOperator_UNIDIRECTIONAL_SEQUENCE_RNN, 2), ''1.14.0''),
     ((BuiltinOperator_UNIDIRECTIONAL_SEQUENCE_RNN, 3), ''2.3.0''),
     ((BuiltinOperator_WHERE, 1), ''1.14.0''), ((BuiltinOperator_DEQUANTIZE, 1), ''1.13.1''),
     ((BuiltinOperator_DEQUANTIZE, 2), ''1.14.0''), ((BuiltinOperator_DEQUANTIZE, 3), ''1.15.0''),
     ((BuiltinOperator_DEQUANTIZE, 4), ''2.2.0''),
     ((BuiltinOperator_REVERSE_SEQUENCE, 1), ''1.14.0''),
     ((BuiltinOperator_EQUAL, 1), ''1.14.0''), ((BuiltinOperator_EQUAL, 2), ''1.14.0''),
     ((BuiltinOperator_EQUAL, 3), ''2.3.0''), ((BuiltinOperator_NOT_EQUAL, 1), ''1.14.0''),
     ((BuiltinOperator_NOT_EQUAL, 2), ''1.14.0''), ((BuiltinOperator_NOT_EQUAL, 3), ''2.3.0''),
     ((BuiltinOperator_GREATER, 1), ''1.14.0''), ((BuiltinOperator_GREATER, 2), ''1.14.0''),
     ((BuiltinOperator_GREATER_EQUAL, 1), ''1.14.0''),
     ((BuiltinOperator_GREATER_EQUAL, 2), ''1.14.0''), ((BuiltinOperator_LESS, 1), ''1.14.0''),
     ((BuiltinOperator_LESS, 2), ''1.14.0''), ((BuiltinOperator_LESS_EQUAL, 1), ''1.14.0''),
     ((BuiltinOperator_LESS_EQUAL, 2), ''1.14.0''), ((BuiltinOperator_SCATTER_ND, 1), ''2.1.0''),
     ((BuiltinOperator_SEGMENT_SUM, 1), ''2.2.0''), ((BuiltinOperator_SELECT, 1), ''1.14.0''),
     ((BuiltinOperator_SELECT, 2), ''1.14.0''), ((BuiltinOperator_SELECT_V2, 1), ''2.2.0''),
     ((BuiltinOperator_IF, 1), ''1.15.0''), ((BuiltinOperator_FLOOR_DIV, 1), ''1.14.0''),
     ((BuiltinOperator_FLOOR_DIV, 2), ''1.14.0''), ((BuiltinOperator_FLOOR, 1), ''1.9.0''),
     ((BuiltinOperator_CEIL, 1), ''1.14.0''), ((BuiltinOperator_MATRIX_DIAG, 1), ''1.14.0''),
     ((BuiltinOperator_MATRIX_SET_DIAG, 1), ''1.14.0''), ((BuiltinOperator_ELU, 1), ''1.14.0''),
     ((BuiltinOperator_QUANTIZE, 1), ''1.14.0''), ((BuiltinOperator_QUANTIZE, 2), ''1.15.0''),
     ((BuiltinOperator_ROUND, 1), ''1.14.0''), ((BuiltinOperator_RELU, 1), ''1.5.0''),
     ((BuiltinOperator_RELU, 2), ''2.1.0''), ((BuiltinOperator_RELU_N1_TO_1, 1), ''1.5.0''),
     ((BuiltinOperator_PRELU, 1), ''1.8.0''), ((BuiltinOperator_EXP, 1), ''1.7.0''),
     ((BuiltinOperator_COS, 1), ''1.14.0''), ((BuiltinOperator_NEG, 1), ''1.9.0''),
     ((BuiltinOperator_POW, 1), ''1.10.0''), ((BuiltinOperator_LOGICAL_OR, 1), ''1.11.0''),
     ((BuiltinOperator_LOGICAL_AND, 1), ''1.11.0''),
     ((BuiltinOperator_LOGICAL_NOT, 1), ''1.11.0''), ((BuiltinOperator_FLOOR_MOD, 1), ''1.13.0''),
     ((BuiltinOperator_RANGE, 1), ''1.13.0''), ((BuiltinOperator_SIN, 1), ''1.9.0''),
     ((BuiltinOperator_LOG, 1), ''1.14.0''), ((BuiltinOperator_SQRT, 1), ''1.10.0''),
     ((BuiltinOperator_RSQRT, 1), ''1.10.0''), ((BuiltinOperator_SQUARE, 1), ''1.12.0''),
     ((BuiltinOperator_ZEROS_LIKE, 1), ''1.12.0''), ((BuiltinOperator_ABS, 1), ''1.13.0''),
     ((BuiltinOperator_ABS, 2), ''2.4.0''), ((BuiltinOperator_HARD_SWISH, 1), ''1.15.0''),
     ((BuiltinOperator_FILL, 1), ''1.13.0''), ((BuiltinOperator_FILL, 2), ''2.3.0''),
     ((BuiltinOperator_REVERSE_V2, 1), ''1.14.0''), ((BuiltinOperator_REVERSE_V2, 2), ''2.2.0''),
     ((BuiltinOperator_RANK, 1), ''1.14.0''), ((BuiltinOperator_WHILE, 1), ''1.15.0''),
     ((BuiltinOperator_CUMSUM, 1), ''2.4.0'')]"

definition op_version_map :: "((int \<times> int) \<times> string) list" where
  "op_version_map = runtime_table_1 @ runtime_table_2"

definition FindMinimumRuntimeVersionForOp :: "int \<Rightarrow> int \<Rightarrow> string" where
  "FindMinimumRuntimeVersionForOp op_code version =
     (case map_of op_version_map (op_code, version) of None \<Rightarrow> '''' | Some v \<Rightarrow> v)"

section \<open>The version of a model\<close>

definition kPendingReleaseVersion :: string where
  "kPendingReleaseVersion = ''UNKNOWN''"

definition raise_version ::
  "absl \<Rightarrow> operator_code list \<Rightarrow> fb_operator \<Rightarrow> string \<Rightarrow> string option" where
  "raise_version L codes op model_min_version = do {
     op_code \<leftarrow> fb_get (Some codes) (int (fb_opcode_index op));
     let runtime_version = FindMinimumRuntimeVersionForOp (GetBuiltinCode op_code) (fb_version op_code);
     Some (if runtime_version = '''' \<or> runtime_version = kPendingReleaseVersion then model_min_version
           else if CompareRuntimeVersion L model_min_version runtime_version then runtime_version
           else model_min_version) }"

primrec raise_all ::
  "absl \<Rightarrow> operator_code list \<Rightarrow> fb_operator list \<Rightarrow> string \<Rightarrow> string option" where
  "raise_all L codes [] v = Some v"
| "raise_all L codes (op # ops) v = Option.bind (raise_version L codes op v) (raise_all L codes ops)"

definition write_version :: "string \<Rightarrow> nat \<Rightarrow> string option list \<Rightarrow> string option list option" where
  "write_version v buffer buffers =
     (if buffer < length buffers then
        (case buffers ! buffer of
           None \<Rightarrow> None
         | Some data \<Rightarrow>
             if length v \<le> length data
             then Some (buffers[buffer := Some (v @ replicate (length data - length v) (CHR 0x00))])
             else None)
      else None)"

definition UpdateMinimumRuntimeVersionForModel ::
  "absl \<Rightarrow> fb_model \<Rightarrow> string option list \<Rightarrow> string option list option" where
  "UpdateMinimumRuntimeVersionForModel L model buffers = do {
     subgraphs \<leftarrow> fb_subgraphs model;
     ops \<leftarrow> all_operators subgraphs;
     codes \<leftarrow> (if ops = [] then Some [] else fb_operator_codes model);
     v \<leftarrow> raise_all L codes (map snd ops) '''';
     if length v \<ge> 16 then Some buffers
     else do {
       metadata \<leftarrow> fb_metadata model;
       case find (\<lambda>(name, _). name = ''min_runtime_version'') metadata of
         None \<Rightarrow> Some buffers
       | Some (_, buffer) \<Rightarrow> write_version v buffer buffers }}"

section \<open>The table and the kernels\<close>

lemma table_listed: "list_all (\<lambda>((op, v), _). listed builtin_ops op v) op_version_map"
  by (simp add: op_version_map_def runtime_table_1_def runtime_table_2_def listed_def
      builtin_ops_def builtin_ops_1_def builtin_ops_2_def)

lemma listed_table:
  "list_all (\<lambda>(op, lo, hi). lo = 1 \<and> list_all (\<lambda>v. list_ex (\<lambda>(k, _). k = (op, v)) op_version_map)
      [1..hi]) builtin_ops"
  by (simp add: op_version_map_def runtime_table_1_def runtime_table_2_def
      builtin_ops_def builtin_ops_1_def builtin_ops_2_def) (simp add: upto.simps)

lemma table_strings:
  "list_all (\<lambda>(_, s). s \<in> set [''1.5.0'', ''1.6.0'', ''1.7.0'', ''1.8.0'', ''1.9.0'', ''1.10.0'',
     ''1.10.1'', ''1.11.0'', ''1.12.0'', ''1.13.0'', ''1.13.1'', ''1.14.0'', ''1.15.0'', ''2.0.0'', ''2.1.0'',
     ''2.2.0'', ''2.3.0'', ''2.4.0'']) op_version_map"
  by (simp add: op_version_map_def runtime_table_1_def runtime_table_2_def)

lemma table_versions:
  "list_all (\<lambda>(_, s). s \<noteq> '''' \<and> s \<noteq> kPendingReleaseVersion \<and> length s < 16) op_version_map"
  by (rule list.pred_mono_strong [OF table_strings]) (auto simp: kPendingReleaseVersion_def)

lemma in_table: "listed builtin_ops op v \<longleftrightarrow> map_of op_version_map (op, v) \<noteq> None"
proof
  assume "listed builtin_ops op v"
  then obtain lo hi where "(op, lo, hi) \<in> set builtin_ops" "lo \<le> v" "v \<le> hi"
    by (auto simp: listed_def list_ex_iff)
  then have "list_ex (\<lambda>(k, _). k = (op, v)) op_version_map"
    using listed_table by (fastforce simp: list_all_iff)
  then show "map_of op_version_map (op, v) \<noteq> None"
    using weak_map_of_SomeI by (fastforce simp: list_ex_iff)
next
  assume "map_of op_version_map (op, v) \<noteq> None"
  then obtain s where "((op, v), s) \<in> set op_version_map" by (auto dest: map_of_SomeD)
  then show "listed builtin_ops op v"
    using table_listed by (auto simp: list_all_iff)
qed

lemma table_value:
  "map_of op_version_map k = Some s \<Longrightarrow>
   s \<noteq> [] \<and> s \<noteq> kPendingReleaseVersion \<and> length s < 16 \<and> s \<in> snd ` set op_version_map"
  using table_versions map_of_SomeD [of op_version_map k s] by (force simp: list_all_iff)

text \<open>
  C22: The table of run-time versions has an entry exactly for the operators and versions that the
  default resolver registers, so that every version a kernel exists for has a minimum run-time
  version, and none is left as pending.
\<close>

theorem runtime_table_complete:
  "(FindMinimumRuntimeVersionForOp op v \<noteq> '''' \<longleftrightarrow> listed builtin_ops op v)
    \<and> FindMinimumRuntimeVersionForOp op v \<noteq> kPendingReleaseVersion"
  by (cases "map_of op_version_map (op, v)")
    (use in_table [of op v] table_value in \<open>auto simp: FindMinimumRuntimeVersionForOp_def
      kPendingReleaseVersion_def\<close>)

section \<open>The order of versions\<close>

lemma compare_parts_lexord:
  "map (SimpleAtoi L) xs = map Some ms \<Longrightarrow> map (SimpleAtoi L) ys = map Some ns \<Longrightarrow>
   compare_parts L xs ys \<longleftrightarrow> (ms, ns) \<in> lexord {(a, b). a < b}"
proof (induction L xs ys arbitrary: ms ns rule: compare_parts.induct)
  case (1 L x xs y ys)
  then obtain m ms' n ns' where "ms = m # ms'" "ns = n # ns'" by (cases ms; cases ns) auto
  then show ?case using 1 by auto
qed (auto simp: neq_Nil_conv Cons_eq_map_conv)

text \<open>
  What the code relies on: the versions of the table split into two or more numbers, and the empty
  version splits into one part that is no number.
\<close>

definition well_parsed :: "absl \<Rightarrow> bool" where
  "well_parsed L \<longleftrightarrow> StrSplit L '''' = [''''] \<and> SimpleAtoi L '''' = None
     \<and> (\<forall>s\<in>snd ` set op_version_map. \<exists>m n ns. map (SimpleAtoi L) (StrSplit L s) = map Some (m # n # ns))"

lemma well_parsedD:
  "well_parsed L \<Longrightarrow> s \<in> snd ` set op_version_map \<Longrightarrow>
   \<exists>m n ns. map (SimpleAtoi L) (StrSplit L s) = map Some (m # n # ns)"
  unfolding well_parsed_def by blast

definition version_numbers :: "absl \<Rightarrow> string \<Rightarrow> int list" where
  "version_numbers L s = (if s = '''' then [] else map (the \<circ> SimpleAtoi L) (StrSplit L s))"

lemma Compare_lexord:
  assumes L: "well_parsed L" and "s = '''' \<or> s \<in> snd ` set op_version_map" and t: "t \<in> snd ` set op_version_map"
  shows "CompareRuntimeVersion L s t
    \<longleftrightarrow> (version_numbers L s, version_numbers L t) \<in> lexord {(a, b). a < b}"
proof -
  have nums: "map (SimpleAtoi L) (StrSplit L u) = map Some (version_numbers L u)"
    if u: "u \<in> snd ` set op_version_map" for u
  proof -
    obtain ns where ns: "map (SimpleAtoi L) (StrSplit L u) = map Some ns"
      using well_parsedD [OF L u] by blast
    then have "map (the \<circ> SimpleAtoi L) (StrSplit L u) = ns"
      using map_map [of the "SimpleAtoi L" "StrSplit L u"] by (simp add: comp_def)
    moreover have "u \<noteq> ''''" using table_versions u by (auto simp: list_all_iff)
    ultimately show ?thesis using ns by (simp add: version_numbers_def)
  qed
  obtain m n ns where t3: "map (SimpleAtoi L) (StrSplit L t) = map Some (m # n # ns)"
    using well_parsedD [OF L t] by blast
  then obtain x y ys where ty: "StrSplit L t = x # y # ys" by (auto simp: Cons_eq_map_conv map_eq_Cons_conv)
  show ?thesis
  proof (cases "s = ''''")
    case True
    have "version_numbers L t \<noteq> []" using nums [OF t] ty by auto
    then show ?thesis
      using L ty True by (cases "version_numbers L t")
        (simp_all add: CompareRuntimeVersion_def well_parsed_def version_numbers_def)
  next
    case False
    then show ?thesis
      using assms(2) compare_parts_lexord [OF nums nums [OF t]] by (auto simp: CompareRuntimeVersion_def)
  qed
qed

lemmas lexord_less_linear = lexord_linear [of "{(a, b). (a :: int) < b}"]

lemma lexord_less_trans:
  "(xs, ys) \<in> lexord {(a, b). (a :: int) < b} \<Longrightarrow> (ys, zs) \<in> lexord {(a, b). a < b} \<Longrightarrow>
   (xs, zs) \<in> lexord {(a, b). a < b}"
  by (rule lexord_trans) (auto intro!: transI)

definition op_runtime_version :: "operator_code list \<Rightarrow> fb_operator \<Rightarrow> string" where
  "op_runtime_version codes op =
     (let c = codes ! fb_opcode_index op
      in FindMinimumRuntimeVersionForOp (GetBuiltinCode c) (fb_version c))"

lemma op_runtime_version_cases:
  "op_runtime_version codes op = '''' \<or> op_runtime_version codes op \<in> snd ` set op_version_map"
  using table_value by (auto simp: op_runtime_version_def FindMinimumRuntimeVersionForOp_def Let_def
      split: option.splits)

lemma op_runtime_version_released: "op_runtime_version codes op \<noteq> kPendingReleaseVersion"
  using table_value by (auto simp: op_runtime_version_def FindMinimumRuntimeVersionForOp_def Let_def
      kPendingReleaseVersion_def split: option.splits)

text \<open>The loop keeps the largest version it has seen.\<close>

primrec pick :: "('v \<Rightarrow> 'v \<Rightarrow> bool) \<Rightarrow> 'v list \<Rightarrow> 'v \<Rightarrow> 'v" where
  "pick lt [] v = v"
| "pick lt (r # rs) v = pick lt rs (if lt v r then r else v)"

lemma pick_in: "pick lt rs v \<in> insert v (set rs)"
  by (induction rs arbitrary: v) auto

lemma pick_maximum:
  assumes trans: "\<And>s t u. t \<in> T \<Longrightarrow> u \<in> T \<Longrightarrow> s \<in> insert b T \<Longrightarrow> lt s t \<Longrightarrow> lt t u \<Longrightarrow> lt s u"
    and irrefl: "\<And>t. t \<in> T \<Longrightarrow> \<not> lt t t" and "set rs \<subseteq> T" and "v \<in> insert b T"
  shows "(pick lt rs v = v \<or> lt v (pick lt rs v)) \<and> (\<forall>r\<in>set rs. \<not> lt (pick lt rs v) r)"
  using assms(3,4)
proof (induction rs arbitrary: v)
  case (Cons r rs)
  let ?v1 = "if lt v r then r else v" and ?p = "pick lt (r # rs) v"
  have v1: "?v1 \<in> insert b T" and r: "r \<in> T" using Cons.prems by auto
  have IH: "?p = ?v1 \<or> lt ?v1 ?p" "\<forall>r\<in>set rs. \<not> lt ?p r"
    using Cons.IH [OF _ v1] Cons.prems(1) by auto
  have p: "?p \<in> insert ?v1 (set rs)" using pick_in [of lt rs ?v1] by simp
  have above: "?p = v \<or> lt v ?p"
  proof (cases "lt v r")
    case True
    then show ?thesis
      using IH(1) p r Cons.prems trans [of r ?p v] by auto
  qed (use IH(1) in auto)
  have "\<not> lt ?p r"
  proof
    assume less: "lt ?p r"
    show False
    proof (cases "?p = ?v1")
      case True
      then show ?thesis using less irrefl [OF r] by (auto split: if_splits)
    next
      case False
      then have "?p \<in> T" "lt ?v1 ?p" using p IH(1) Cons.prems(1) by auto
      then have "lt ?v1 r" using trans [OF _ r v1 _ less] by blast
      then show ?thesis using irrefl [OF r] by (auto split: if_splits)
    qed
  qed
  then show ?case using above IH(2) by simp
qed simp

lemma raise_all_pick:
  "\<forall>op\<in>set ops. fb_opcode_index op < length codes \<Longrightarrow>
   raise_all L codes ops v
     = Some (pick (CompareRuntimeVersion L) (filter (\<lambda>r. r \<noteq> '''') (map (op_runtime_version codes) ops)) v)"
proof (induction ops arbitrary: v)
  case (Cons op ops)
  then show ?case
    using op_runtime_version_released [of codes op]
    by (auto simp: raise_version_def fb_get_def op_runtime_version_def Let_def)
qed simp

text \<open>
  \<^verbatim>\<open>UpdateMinimumRuntimeVersionForModel\<close> writes, padded with zeros, a version that some operator of
  the model needs (nothing if none needs one) and that is not older than what any operator needs.
\<close>

theorem minimum_runtime_version:
  assumes "well_parsed L" and "fb_subgraphs model = Some sgs" "all_operators sgs = Some os"
    and "fb_operator_codes model = Some codes"
    and "\<forall>o'\<in>set os. fb_opcode_index (snd o') < length codes"
    and "fb_metadata model = Some [(''min_runtime_version'', i)]"
    and "i < length buffers" "buffers ! i = Some data" "length data = 16"
  shows "\<exists>v. UpdateMinimumRuntimeVersionForModel L model buffers
      = Some (buffers[i := Some (v @ replicate (16 - length v) (CHR 0x00))])
    \<and> v \<in> insert '''' (op_runtime_version codes ` snd ` set os)
    \<and> (\<forall>o'\<in>set os. op_runtime_version codes (snd o') \<noteq> '''' \<longrightarrow>
         \<not> CompareRuntimeVersion L v (op_runtime_version codes (snd o')))"
proof -
  let ?T = "snd ` set op_version_map"
  let ?rs = "filter (\<lambda>r. r \<noteq> '''') (map (op_runtime_version codes) (map snd os))"
  let ?v = "pick (CompareRuntimeVersion L) ?rs ''''"
  have T: "set ?rs \<subseteq> ?T" using op_runtime_version_cases by auto
  note less = Compare_lexord [OF assms(1)]
  have "\<forall>r\<in>set ?rs. \<not> CompareRuntimeVersion L ?v r"
  proof (rule pick_maximum [THEN conjunct2])
    show "CompareRuntimeVersion L s u" if "t \<in> ?T" "u \<in> ?T" "s \<in> insert '''' ?T"
      "CompareRuntimeVersion L s t" "CompareRuntimeVersion L t u" for s t u
      using that less [of s t] less [of t u] less [of s u] lexord_less_trans by blast
    show "\<not> CompareRuntimeVersion L t t" if "t \<in> ?T" for t
      using that less [of t t] lexord_irreflexive [of "{(a, b). (a :: int) < b}"] by simp
  qed (use T in simp_all)
  moreover have v: "?v \<in> insert '''' (op_runtime_version codes ` snd ` set os)"
    using pick_in [of "CompareRuntimeVersion L" ?rs "''''"] by auto
  moreover have "length ?v < 16"
  proof -
    have "length s < 16" if "s \<in> ?T" for s using table_versions that by (auto simp: list_all_iff)
    moreover have "?v = '''' \<or> ?v \<in> ?T" using pick_in [of "CompareRuntimeVersion L" ?rs "''''"] T by blast
    ultimately show ?thesis by (metis list.size(3) zero_less_numeral)
  qed
  moreover have "raise_all L codes (map snd os) '''' = Some ?v"
    using assms(5) by (intro raise_all_pick) simp
  moreover have "UpdateMinimumRuntimeVersionForModel L model buffers
      = Some (buffers[i := Some (v @ replicate (16 - length v) (CHR 0x00))])"
    if "raise_all L codes (map snd os) '''' = Some v" "length v < 16" for v
    using that assms(2-4,6-9)
    by (cases "os = []") (simp_all add: UpdateMinimumRuntimeVersionForModel_def write_version_def)
  ultimately show ?thesis
    by (intro exI [of _ ?v]) simp
qed

text \<open>Splitting and reading numbers, for the witness.\<close>

definition dots :: "string \<Rightarrow> string list" where
  "dots s = foldr (\<lambda>c parts. if c = CHR ''.'' then [] # parts else (c # hd parts) # tl parts) s [[]]"

definition digits :: "string \<Rightarrow> int option" where
  "digits s = (if s = '''' then None
     else Some (foldl (\<lambda>n c. 10 * n + (int (of_char c) - 48)) 0 s))"

definition plain_absl :: absl where
  "plain_absl = \<lparr>StrSplit = dots, SimpleAtoi = digits\<rparr>"

lemma plain_absl_well_parsed: "well_parsed plain_absl"
proof -
  have "\<exists>m n ns. map (SimpleAtoi plain_absl) (StrSplit plain_absl s) = map Some (m # n # ns)"
    if "s \<in> snd ` set op_version_map" for s
    using that table_strings
    by (auto simp: list_all_iff plain_absl_def dots_def digits_def Cons_eq_map_conv dest!: bspec)
  then show ?thesis
    by (simp add: well_parsed_def plain_absl_def dots_def digits_def)
qed

lemma minimum_runtime_version_witness:
  "\<exists>v. UpdateMinimumRuntimeVersionForModel plain_absl
        ((gather_model [TensorType_INT16])\<lparr>fb_metadata := Some [(''min_runtime_version'', 0)]\<rparr>)
        [Some (replicate 16 (CHR ''x''))] = Some [Some (v @ replicate (16 - length v) (CHR 0x00))]
     \<and> v \<in> {'''', ''1.6.0''}"
proof -
  let ?m = "(gather_model [TensorType_INT16])\<lparr>fb_metadata := Some [(''min_runtime_version'', 0)]\<rparr>"
  let ?codes = "[CreateOperatorCode BuiltinOperator_GATHER None 1]"
  obtain sg o' where m: "fb_subgraphs ?m = Some [sg]" "all_operators [sg] = Some [(sg, o')]"
    "fb_opcode_index o' = 0" "fb_operator_codes ?m = Some ?codes"
    by (simp add: gather_model_def)
  have "op_runtime_version ?codes o' = ''1.6.0''"
    by (simp add: op_runtime_version_def m FindMinimumRuntimeVersionForOp_def CreateOperatorCode_def
        GetBuiltinCode_def ConvertBuiltinCodeToDeprecatedBuiltinCode_def op_version_map_def
        runtime_table_1_def runtime_table_2_def)
  then show ?thesis
    using minimum_runtime_version [OF plain_absl_well_parsed m(1,2,4), of 0
        "[Some (replicate 16 (CHR ''x''))]" "replicate 16 (CHR ''x'')"] m(3)
    by auto
qed

end
