(* ===== verification/Interpreter.thy ===== *)
theory Interpreter
  imports Subgraph_Behaviour
begin

text \<open>
  \<^verbatim>\<open>tensorflow/lite/interpreter.{h,cc}\<close>: an interpreter owns its subgraphs, of which the first is the
  primary one, the delegates given to it, and the external contexts.

  The subgraphs share the array of external contexts and the world outside: an operation of a
  subgraph runs on it with both put in, and leaves both behind. Kernels reach other subgraphs only
  through the world. \<open>refresh\<close> is the callback of an external context. Profilers and contexts are
  addresses, 0 for null; what a destructor of theirs does is not modelled.
\<close>

section \<open>State\<close>

record 'w interpreter =
  subgraphs :: "'w subgraph list"
  recommended_num_threads :: "int list"
  allow_fp32_relax_to_fp16 :: "bool list"
  subgraph_profilers :: "nat list"
  shared_contexts :: "nat list"
  shared_world :: 'w
  own_external_cpu_backend_context :: nat
  owned_delegates :: "delegate_id option list"
  lazy_delegate_providers :: "delegate_id option list"
  allow_buffer_handle_output :: bool
  owned_profiler :: nat
  installed_profiler :: nat

abbreviation (input) kTfLiteCpuBackendContext :: int where "kTfLiteCpuBackendContext \<equiv> 3"

text \<open>An operation of subgraph \<open>k\<close>.\<close>

definition on_subgraph ::
  "nat \<Rightarrow> ('w subgraph \<Rightarrow> 'w subgraph result) \<Rightarrow> 'w interpreter \<Rightarrow> 'w interpreter result" where
  "on_subgraph k f it =
     (if k < length (subgraphs it)
      then map_option (map_prod id (\<lambda>s. it\<lparr>subgraphs := (subgraphs it)[k := s],
                                          shared_contexts := external_contexts s,
                                          shared_world := world s\<rparr>))
             (f ((subgraphs it ! k)\<lparr>external_contexts := shared_contexts it, world := shared_world it\<rparr>))
      else None)"

definition primary :: "('w subgraph \<Rightarrow> 'w subgraph result) \<Rightarrow> 'w interpreter \<Rightarrow> 'w interpreter result" where
  "primary = on_subgraph 0"

text \<open>A loop over all subgraphs that stops at the first status other than \<^verbatim>\<open>kTfLiteOk\<close>.\<close>

definition for_subgraphs ::
  "('w subgraph \<Rightarrow> 'w subgraph result) \<Rightarrow> 'w interpreter \<Rightarrow> 'w interpreter result" where
  "for_subgraphs f it = for_each (\<lambda>k. on_subgraph k f) [0..<length (subgraphs it)] it"

section \<open>Construction\<close>

definition AddSubgraphs :: "nat \<Rightarrow> 'w interpreter \<Rightarrow> nat \<times> 'w interpreter" where
  "AddSubgraphs subgraphs_to_add it =
     (length (subgraphs it),
      it\<lparr>subgraphs := subgraphs it @
            replicate subgraphs_to_add (Subgraph (shared_contexts it) (shared_world it)),
         recommended_num_threads := recommended_num_threads it @ replicate subgraphs_to_add (-1),
         allow_fp32_relax_to_fp16 := allow_fp32_relax_to_fp16 it @ replicate subgraphs_to_add False,
         subgraph_profilers := subgraph_profilers it @ replicate subgraphs_to_add 0\<rparr>)"

text \<open>\<open>own\<close> is the address of the context that the constructor allocates.\<close>

definition Interpreter :: "nat \<Rightarrow> 'w \<Rightarrow> 'w interpreter result" where
  "Interpreter own w =
     (let it = \<lparr>subgraphs = [], recommended_num_threads = [], allow_fp32_relax_to_fp16 = [],
                subgraph_profilers = [], shared_contexts = replicate 4 0, shared_world = w,
                own_external_cpu_backend_context = 0, owned_delegates = [],
                lazy_delegate_providers = [], allow_buffer_handle_output = False,
                owned_profiler = 0, installed_profiler = 0\<rparr>;
          it = snd (AddSubgraphs 1 it);
          it = it\<lparr>own_external_cpu_backend_context := own,
                  shared_contexts := (shared_contexts it)[nat kTfLiteCpuBackendContext := own]\<rparr>
      in primary (\<lambda>s. ok (UseNNAPI False s)) it)"

definition Interpreter_SetExternalContext ::
  "int \<Rightarrow> nat \<Rightarrow> 'w interpreter \<Rightarrow> 'w interpreter result" where
  "Interpreter_SetExternalContext type ctx it =
     (if ctx = own_external_cpu_backend_context it then ok it
      else
        let it = (if type = kTfLiteCpuBackendContext
                    \<and> shared_contexts it ! nat kTfLiteCpuBackendContext = own_external_cpu_backend_context it
                  then it\<lparr>own_external_cpu_backend_context := 0\<rparr> else it)
        in primary (\<lambda>s. map_option (Pair kTfLiteOk) (SetExternalContext type ctx s)) it)"

section \<open>Forwarding to the primary subgraph\<close>

definition Interpreter_SetCustomAllocationForTensor ::
  "int \<Rightarrow> custom_allocation \<Rightarrow> 'w interpreter \<Rightarrow> 'w interpreter result" where
  "Interpreter_SetCustomAllocationForTensor i a = primary (SetCustomAllocationForTensor i a)"

definition Interpreter_SetInputs :: "int list \<Rightarrow> 'w interpreter \<Rightarrow> 'w interpreter result" where
  "Interpreter_SetInputs ts = primary (SetInputs ts)"

definition Interpreter_SetOutputs :: "int list \<Rightarrow> 'w interpreter \<Rightarrow> 'w interpreter result" where
  "Interpreter_SetOutputs ts = primary (SetOutputs ts)"

definition Interpreter_SetVariables :: "int list \<Rightarrow> 'w interpreter \<Rightarrow> 'w interpreter result" where
  "Interpreter_SetVariables ts = primary (SetVariables ts)"

definition Interpreter_AddNodeWithParameters ::
  "'w env \<Rightarrow> int list \<Rightarrow> int list \<Rightarrow> nat \<Rightarrow> nat \<Rightarrow> nat \<Rightarrow> registration
   \<Rightarrow> 'w interpreter \<Rightarrow> 'w interpreter result" where
  "Interpreter_AddNodeWithParameters E ins outs init_data init_data_size builtin r =
     primary (\<lambda>s. map_option (map_prod id snd)
       (AddNodeWithParameters E ins outs [] init_data init_data_size builtin r (0, s)))"

definition Interpreter_ResizeInputTensor ::
  "'w env \<Rightarrow> int \<Rightarrow> int list \<Rightarrow> 'w interpreter \<Rightarrow> 'w interpreter result" where
  "Interpreter_ResizeInputTensor E i ds = primary (ResizeInputTensor E i ds)"

definition Interpreter_ResizeInputTensorStrict ::
  "'w env \<Rightarrow> int \<Rightarrow> int list \<Rightarrow> 'w interpreter \<Rightarrow> 'w interpreter result" where
  "Interpreter_ResizeInputTensorStrict E i ds = primary (ResizeInputTensorStrict E i ds)"

definition Interpreter_ReleaseNonPersistentMemory :: "'w interpreter \<Rightarrow> 'w interpreter result" where
  "Interpreter_ReleaseNonPersistentMemory = primary ReleaseNonPersistentMemory_sg"

definition Interpreter_AddTensors :: "int \<Rightarrow> 'w interpreter \<Rightarrow> 'w interpreter result" where
  "Interpreter_AddTensors n = primary (\<lambda>s. snd (AddTensors n s))"

definition Interpreter_ResetVariableTensors :: "'w env \<Rightarrow> 'w interpreter \<Rightarrow> 'w interpreter result" where
  "Interpreter_ResetVariableTensors E = primary (ResetVariableTensors E)"

definition Interpreter_SetTensorParametersReadOnly ::
  "int \<Rightarrow> tflite_type \<Rightarrow> string option \<Rightarrow> int list \<Rightarrow> quantization \<Rightarrow> nat \<Rightarrow> nat \<Rightarrow> nat
   \<Rightarrow> 'w interpreter \<Rightarrow> 'w interpreter result" where
  "Interpreter_SetTensorParametersReadOnly i ty nm ds q buf n alloc =
     primary (SetTensorParametersReadOnly i ty nm ds q buf n alloc None)"

definition Interpreter_SetTensorParametersReadWrite ::
  "int \<Rightarrow> tflite_type \<Rightarrow> string option \<Rightarrow> int list \<Rightarrow> quantization \<Rightarrow> bool
   \<Rightarrow> 'w interpreter \<Rightarrow> 'w interpreter result" where
  "Interpreter_SetTensorParametersReadWrite i ty nm ds q var =
     primary (SetTensorParametersReadWrite i ty nm ds q var [])"

text \<open>The same two with legacy quantization parameters.\<close>

definition Interpreter_SetTensorParametersReadOnly_legacy ::
  "int \<Rightarrow> int \<Rightarrow> tflite_type \<Rightarrow> string option \<Rightarrow> int list \<Rightarrow> quantization_params \<Rightarrow> nat \<Rightarrow> nat \<Rightarrow> nat
   \<Rightarrow> 'w interpreter \<Rightarrow> 'w interpreter result" where
  "Interpreter_SetTensorParametersReadOnly_legacy garbage i ty nm ds q buf n alloc =
     (let new_quantization = GetQuantizationFromLegacy garbage q
      in primary (SetTensorParametersReadOnly i ty nm ds new_quantization buf n alloc None))"

definition Interpreter_SetTensorParametersReadWrite_legacy ::
  "int \<Rightarrow> int \<Rightarrow> tflite_type \<Rightarrow> string option \<Rightarrow> int list \<Rightarrow> quantization_params \<Rightarrow> bool \<Rightarrow> int list
   \<Rightarrow> 'w interpreter \<Rightarrow> 'w interpreter result" where
  "Interpreter_SetTensorParametersReadWrite_legacy garbage i ty nm ds q var sig =
     (let new_quantization = GetQuantizationFromLegacy garbage q
      in primary (SetTensorParametersReadWrite i ty nm ds new_quantization var sig))"

definition Interpreter_SetExecutionPlan :: "int list \<Rightarrow> 'w interpreter \<Rightarrow> 'w interpreter result" where
  "Interpreter_SetExecutionPlan new_plan = primary (SetExecutionPlan new_plan)"

definition Interpreter_UseNNAPI :: "bool \<Rightarrow> 'w interpreter \<Rightarrow> 'w interpreter result" where
  "Interpreter_UseNNAPI enable = primary (\<lambda>s. ok (UseNNAPI enable s))"

definition Interpreter_EnsureTensorDataIsReadable ::
  "'w env \<Rightarrow> int \<Rightarrow> 'w interpreter \<Rightarrow> 'w interpreter result" where
  "Interpreter_EnsureTensorDataIsReadable E i = primary (EnsureTensorDataIsReadable E i)"

section \<open>All subgraphs\<close>

definition SetNumThreads ::
  "(nat \<Rightarrow> 'w \<Rightarrow> 'w) \<Rightarrow> int \<Rightarrow> 'w interpreter \<Rightarrow> 'w interpreter result" where
  "SetNumThreads refresh num_threads it =
     (if num_threads < -1 then Some (kTfLiteError, it)
      else ok (it\<lparr>recommended_num_threads := map (\<lambda>_. num_threads) (recommended_num_threads it),
                  shared_world := fold (\<lambda>c w. if c \<noteq> 0 then refresh c w else w)
                                    (shared_contexts it) (shared_world it)\<rparr>))"

definition SetAllowFp16PrecisionForFp32 :: "bool \<Rightarrow> 'w interpreter \<Rightarrow> 'w interpreter" where
  "SetAllowFp16PrecisionForFp32 allow it =
     it\<lparr>allow_fp32_relax_to_fp16 := map (\<lambda>_. allow) (allow_fp32_relax_to_fp16 it)\<rparr>"

definition Interpreter_SetCancellationFunction :: "nat \<Rightarrow> nat option \<Rightarrow> 'w interpreter \<Rightarrow> 'w interpreter" where
  "Interpreter_SetCancellationFunction data f it =
     it\<lparr>subgraphs := map (SetCancellationFunction data f) (subgraphs it)\<rparr>"

definition SetSubgraphProfiler :: "'w interpreter \<Rightarrow> 'w interpreter" where
  "SetSubgraphProfiler it =
     it\<lparr>subgraph_profilers := map (\<lambda>_. installed_profiler it) (subgraph_profilers it)\<rparr>"

definition SetProfiler :: "nat \<Rightarrow> 'w interpreter \<Rightarrow> 'w interpreter" where
  "SetProfiler profiler it =
     SetSubgraphProfiler (it\<lparr>owned_profiler := 0, installed_profiler := profiler\<rparr>)"

definition SetProfiler_owned :: "nat \<Rightarrow> 'w interpreter \<Rightarrow> 'w interpreter" where
  "SetProfiler_owned profiler it =
     SetSubgraphProfiler (it\<lparr>owned_profiler := profiler, installed_profiler := profiler\<rparr>)"

definition Interpreter_RemoveAllDelegates :: "'w env \<Rightarrow> 'w interpreter \<Rightarrow> 'w interpreter result" where
  "Interpreter_RemoveAllDelegates E =
     for_subgraphs (RemoveAllDelegates E (ModifyGraphWithDelegate E call_depth))"

text \<open>
  \<^verbatim>\<open>Subgraph::ModifyGraphWithDelegate\<close> for a pointer that may be null: the first access to it comes
  after the delegates were applied again and the graph was seen not to be immutable.
\<close>

definition modify_subgraph :: "'w env \<Rightarrow> delegate_id option \<Rightarrow> 'w subgraph \<Rightarrow> 'w subgraph result" where
  "modify_subgraph E d s =
     (case d of
        Some d \<Rightarrow> ModifyGraphWithDelegate E call_depth d s
      | None \<Rightarrow> ensure_status (RedoAllDelegates (ModifyGraphWithDelegate E 1) s)
                  (\<lambda>s. if state s = kStateInvokableAndImmutable then Some (kTfLiteApplicationError, s)
                       else None))"

definition Interpreter_ModifyGraphWithDelegate ::
  "'w env \<Rightarrow> delegate_id option \<Rightarrow> 'w interpreter \<Rightarrow> 'w interpreter result" where
  "Interpreter_ModifyGraphWithDelegate E d it =
     (case for_subgraphs (modify_subgraph E d) it of
        None \<Rightarrow> None
      | Some (status, it) \<Rightarrow>
          if status = kTfLiteDelegateError
          then ensure_status (Interpreter_RemoveAllDelegates E it) (\<lambda>it. Some (status, it))
          else Some (status, it))"

text \<open>The overload that takes ownership.\<close>

definition ModifyGraphWithOwnedDelegate ::
  "'w env \<Rightarrow> delegate_id option \<Rightarrow> 'w interpreter \<Rightarrow> 'w interpreter result" where
  "ModifyGraphWithOwnedDelegate E d it =
     Interpreter_ModifyGraphWithDelegate E d (it\<lparr>owned_delegates := owned_delegates it @ [d]\<rparr>)"

definition Interpreter_HasDelegates :: "'w interpreter \<Rightarrow> bool option" where
  "Interpreter_HasDelegates it = map_option HasDelegates (vec_at (subgraphs it) 0)"

section \<open>Allocation and invocation\<close>

text \<open>
  The loop of \<^verbatim>\<open>AllocateTensors\<close> over the delegates to be applied by default. Moving a delegate out of
  the vector leaves a null pointer in its place.
\<close>

primrec apply_lazily :: "'w env \<Rightarrow> nat list \<Rightarrow> 'w interpreter \<Rightarrow> 'w interpreter result" where
  "apply_lazily E [] it = ok it"
| "apply_lazily E (i # is) it =
     (let d = lazy_delegate_providers it ! i;
          it = it\<lparr>lazy_delegate_providers := (lazy_delegate_providers it)[i := None]\<rparr>
      in case ModifyGraphWithOwnedDelegate E d it of
           None \<Rightarrow> None
         | Some (status, it) \<Rightarrow>
             if status = kTfLiteError then Some (kTfLiteError, it) else apply_lazily E is it)"

definition Interpreter_AllocateTensors :: "'w env \<Rightarrow> 'w interpreter \<Rightarrow> 'w interpreter result" where
  "Interpreter_AllocateTensors E it =
     ensure_status
       (if lazy_delegate_providers it \<noteq> []
        then ensure_status (apply_lazily E [0..<length (lazy_delegate_providers it)] it)
               (\<lambda>it. ok (it\<lparr>lazy_delegate_providers := []\<rparr>))
        else ok it)
       (primary (AllocateTensors E (ModifyGraphWithDelegate E call_depth)))"

definition Interpreter_Invoke :: "'w env \<Rightarrow> 'w interpreter \<Rightarrow> 'w interpreter result" where
  "Interpreter_Invoke E it =
     ensure_status (primary (Invoke E) it)
       (\<lambda>it. if \<not> allow_buffer_handle_output it
             then for_each (\<lambda>i. primary (EnsureTensorDataIsReadable E i))
                    (sg_outputs (subgraphs it ! 0)) it
             else ok it)"

definition SetAllowBufferHandleOutput :: "bool \<Rightarrow> 'w interpreter \<Rightarrow> 'w interpreter" where
  "SetAllowBufferHandleOutput allow it = it\<lparr>allow_buffer_handle_output := allow\<rparr>"

section \<open>Buffer handles\<close>

definition set_buffer_handle ::
  "'w env \<Rightarrow> int \<Rightarrow> int \<Rightarrow> delegate_id option \<Rightarrow> 'w subgraph \<Rightarrow> 'w subgraph result" where
  "set_buffer_handle E i handle d s =
     ensure (0 \<le> i \<and> nat i < length (tensors s)) s (
       let t = tensors s ! nat i
       in ensure (tensor_delegate t = None \<or> tensor_delegate t = d) s (
            let s = set_tensor i (t\<lparr>tensor_delegate := d\<rparr>) s
            in ensure_status
                 (if buffer_handle t \<noteq> kTfLiteNullBufferHandle
                  then (case d of None \<Rightarrow> None | Some d \<Rightarrow>
                         (case free_buffer_handle E d of
                            None \<Rightarrow> Some (kTfLiteError, s)
                          | Some f \<Rightarrow> ok (f (buffer_handle t) s)))
                  else ok s)
                 (\<lambda>s. case vec_at (tensors s) i of None \<Rightarrow> None
                    | Some t \<Rightarrow> ok (set_tensor i (t\<lparr>buffer_handle := handle\<rparr>) s))))"

definition SetBufferHandle ::
  "'w env \<Rightarrow> int \<Rightarrow> int \<Rightarrow> delegate_id option \<Rightarrow> 'w interpreter \<Rightarrow> 'w interpreter result" where
  "SetBufferHandle E i handle d = primary (set_buffer_handle E i handle d)"

definition GetBufferHandle ::
  "int \<Rightarrow> 'w interpreter \<Rightarrow> tflite_status \<times> (int \<times> delegate_id option) option" where
  "GetBufferHandle i it =
     (let ts = tensors (subgraphs it ! 0)
      in if 0 \<le> i \<and> nat i < length ts
         then (kTfLiteOk, Some (buffer_handle (ts ! nat i), tensor_delegate (ts ! nat i)))
         else (kTfLiteError, None))"

section \<open>The interface of a client\<close>

definition interpreter_inv :: "'w interpreter \<Rightarrow> bool" where
  "interpreter_inv it \<longleftrightarrow> subgraphs it \<noteq> [] \<and> (\<forall>s\<in>set (subgraphs it). subgraph_inv s)
     \<and> length (recommended_num_threads it) = length (subgraphs it)
     \<and> length (allow_fp32_relax_to_fp16 it) = length (subgraphs it)
     \<and> length (subgraph_profilers it) = length (subgraphs it)"

lemma interpreter_inv_updates [simp]:
  "interpreter_inv (it\<lparr>shared_contexts := c\<rparr>) = interpreter_inv it"
  "interpreter_inv (it\<lparr>shared_world := w\<rparr>) = interpreter_inv it"
  "interpreter_inv (it\<lparr>own_external_cpu_backend_context := own\<rparr>) = interpreter_inv it"
  "interpreter_inv (it\<lparr>owned_delegates := ds\<rparr>) = interpreter_inv it"
  "interpreter_inv (it\<lparr>lazy_delegate_providers := ds\<rparr>) = interpreter_inv it"
  "interpreter_inv (it\<lparr>allow_buffer_handle_output := b\<rparr>) = interpreter_inv it"
  "interpreter_inv (it\<lparr>owned_profiler := p\<rparr>) = interpreter_inv it"
  "interpreter_inv (it\<lparr>installed_profiler := p\<rparr>) = interpreter_inv it"
  by (simp_all add: interpreter_inv_def)

lemma on_subgraph_keeps_at:
  assumes "interpreter_inv it"
    and "k < length (subgraphs it) \<Longrightarrow> subgraph_inv (subgraphs it ! k) \<Longrightarrow> keeps subgraph_inv
      (f ((subgraphs it ! k)\<lparr>external_contexts := shared_contexts it, world := shared_world it\<rparr>))"
  shows "keeps interpreter_inv (on_subgraph k f it)"
proof (rule keepsI)
  fix st it' assume "on_subgraph k f it = Some (st, it')"
  then obtain s where k: "k < length (subgraphs it)"
    and f: "f ((subgraphs it ! k)\<lparr>external_contexts := shared_contexts it, world := shared_world it\<rparr>)
      = Some (st, s)"
    and it': "it' = it\<lparr>subgraphs := (subgraphs it)[k := s], shared_contexts := external_contexts s,
                       shared_world := world s\<rparr>"
    by (auto simp: on_subgraph_def split: if_splits)
  have "subgraph_inv s"
    by (rule keepsD [OF assms(2) f]) (use assms(1) k in \<open>simp_all add: interpreter_inv_def\<close>)
  then show "interpreter_inv it'"
    using assms(1) by (auto simp: it' interpreter_inv_def dest: set_update_subset_insert [THEN subsetD])
qed

lemma on_subgraph_keeps [keeps]:
  "interpreter_inv it \<Longrightarrow> (\<And>s. subgraph_inv s \<Longrightarrow> keeps subgraph_inv (f s)) \<Longrightarrow>
   keeps interpreter_inv (on_subgraph k f it)"
  by (rule on_subgraph_keeps_at) simp_all

lemma primary_keeps [keeps]:
  "interpreter_inv it \<Longrightarrow> (\<And>s. subgraph_inv s \<Longrightarrow> keeps subgraph_inv (f s)) \<Longrightarrow>
   keeps interpreter_inv (primary f it)"
  unfolding primary_def by (rule on_subgraph_keeps)

lemma for_subgraphs_keeps [keeps]:
  "interpreter_inv it \<Longrightarrow> (\<And>s. subgraph_inv s \<Longrightarrow> keeps subgraph_inv (f s)) \<Longrightarrow>
   keeps interpreter_inv (for_subgraphs f it)"
  unfolding for_subgraphs_def by (rule keeps_for_each) (auto intro: on_subgraph_keeps)

lemma AddSubgraphs_inv: "interpreter_inv it \<Longrightarrow> interpreter_inv (snd (AddSubgraphs n it))"
  by (auto simp: AddSubgraphs_def interpreter_inv_def Subgraph_inv)

lemma Interpreter_keeps: "keeps interpreter_inv (Interpreter own w)"
  unfolding Interpreter_def Let_def
  by (rule primary_keeps)
    (auto simp: AddSubgraphs_def interpreter_inv_def Subgraph_inv UseNNAPI_def intro!: keeps)

datatype interpreter_call =
    IAddSubgraphs nat
  | ISetExternalContext int nat
  | ISetCustomAllocation int custom_allocation
  | ISetInputs "int list"
  | ISetOutputs "int list"
  | ISetVariables "int list"
  | IAddNode "int list" "int list" nat nat nat registration
  | IResizeInput int "int list"
  | IResizeInputStrict int "int list"
  | IReleaseNonPersistentMemory
  | IAddTensors int
  | IResetVariableTensors
  | ISetReadOnly int tflite_type "string option" "int list" quantization nat nat nat
  | ISetReadWrite int tflite_type "string option" "int list" quantization bool
  | ISetReadOnlyLegacy int int tflite_type "string option" "int list" quantization_params nat nat nat
  | ISetReadWriteLegacy int int tflite_type "string option" "int list" quantization_params bool "int list"
  | ISetExecutionPlan "int list"
  | IUseNNAPI bool
  | IEnsureReadable int
  | ISetNumThreads int
  | ISetAllowFp16 bool
  | ISetCancellation nat "nat option"
  | ISetProfiler nat
  | ISetOwnedProfiler nat
  | IModifyGraph "delegate_id option"
  | IModifyGraphOwned "delegate_id option"
  | IAllocateTensors
  | IInvoke
  | ISetAllowBufferHandleOutput bool
  | ISetBufferHandle int int "delegate_id option"

fun run_interpreter ::
  "'w env \<Rightarrow> (nat \<Rightarrow> 'w \<Rightarrow> 'w) \<Rightarrow> interpreter_call \<Rightarrow> 'w interpreter \<Rightarrow> 'w interpreter result" where
  "run_interpreter E refresh (IAddSubgraphs n) it = ok (snd (AddSubgraphs n it))"
| "run_interpreter E refresh (ISetExternalContext ty c) it = Interpreter_SetExternalContext ty c it"
| "run_interpreter E refresh (ISetCustomAllocation i a) it = Interpreter_SetCustomAllocationForTensor i a it"
| "run_interpreter E refresh (ISetInputs ts) it = Interpreter_SetInputs ts it"
| "run_interpreter E refresh (ISetOutputs ts) it = Interpreter_SetOutputs ts it"
| "run_interpreter E refresh (ISetVariables ts) it = Interpreter_SetVariables ts it"
| "run_interpreter E refresh (IAddNode ins outs dt dn b r) it =
     Interpreter_AddNodeWithParameters E ins outs dt dn b r it"
| "run_interpreter E refresh (IResizeInput i ds) it = Interpreter_ResizeInputTensor E i ds it"
| "run_interpreter E refresh (IResizeInputStrict i ds) it = Interpreter_ResizeInputTensorStrict E i ds it"
| "run_interpreter E refresh IReleaseNonPersistentMemory it = Interpreter_ReleaseNonPersistentMemory it"
| "run_interpreter E refresh (IAddTensors n) it = Interpreter_AddTensors n it"
| "run_interpreter E refresh IResetVariableTensors it = Interpreter_ResetVariableTensors E it"
| "run_interpreter E refresh (ISetReadOnly i ty nm ds q buf n al) it =
     Interpreter_SetTensorParametersReadOnly i ty nm ds q buf n al it"
| "run_interpreter E refresh (ISetReadWrite i ty nm ds q var) it =
     Interpreter_SetTensorParametersReadWrite i ty nm ds q var it"
| "run_interpreter E refresh (ISetReadOnlyLegacy g i ty nm ds q buf n al) it =
     Interpreter_SetTensorParametersReadOnly_legacy g i ty nm ds q buf n al it"
| "run_interpreter E refresh (ISetReadWriteLegacy g i ty nm ds q var sig) it =
     Interpreter_SetTensorParametersReadWrite_legacy g i ty nm ds q var sig it"
| "run_interpreter E refresh (ISetExecutionPlan plan) it = Interpreter_SetExecutionPlan plan it"
| "run_interpreter E refresh (IUseNNAPI b) it = Interpreter_UseNNAPI b it"
| "run_interpreter E refresh (IEnsureReadable i) it = Interpreter_EnsureTensorDataIsReadable E i it"
| "run_interpreter E refresh (ISetNumThreads n) it = SetNumThreads refresh n it"
| "run_interpreter E refresh (ISetAllowFp16 b) it = ok (SetAllowFp16PrecisionForFp32 b it)"
| "run_interpreter E refresh (ISetCancellation d f) it = ok (Interpreter_SetCancellationFunction d f it)"
| "run_interpreter E refresh (ISetProfiler p) it = ok (SetProfiler p it)"
| "run_interpreter E refresh (ISetOwnedProfiler p) it = ok (SetProfiler_owned p it)"
| "run_interpreter E refresh (IModifyGraph d) it = Interpreter_ModifyGraphWithDelegate E d it"
| "run_interpreter E refresh (IModifyGraphOwned d) it = ModifyGraphWithOwnedDelegate E d it"
| "run_interpreter E refresh IAllocateTensors it = Interpreter_AllocateTensors E it"
| "run_interpreter E refresh IInvoke it = Interpreter_Invoke E it"
| "run_interpreter E refresh (ISetAllowBufferHandleOutput b) it = ok (SetAllowBufferHandleOutput b it)"
| "run_interpreter E refresh (ISetBufferHandle i h d) it = SetBufferHandle E i h d it"

definition interpreter_admissible :: "interpreter_call \<Rightarrow> 'w interpreter \<Rightarrow> bool" where
  "interpreter_admissible c it = (case c of
     IAddTensors n \<Rightarrow> 0 \<le> n \<and> int (length (tensors (subgraphs it ! 0))) + n < 2 ^ 64 | _ \<Rightarrow> True)"

inductive user_reaches ::
  "'w env \<Rightarrow> (nat \<Rightarrow> 'w \<Rightarrow> 'w) \<Rightarrow> nat \<Rightarrow> 'w \<Rightarrow> 'w interpreter \<Rightarrow> bool" for E refresh own w where
  created: "Interpreter own w = Some (st, it) \<Longrightarrow> user_reaches E refresh own w it"
| called: "user_reaches E refresh own w it \<Longrightarrow> interpreter_admissible c it \<Longrightarrow>
    run_interpreter E refresh c it = Some (st, it') \<Longrightarrow> user_reaches E refresh own w it'"

text \<open>The function that frees a buffer handle respects the subgraph as well.\<close>

definition frees_respectfully :: "'w env \<Rightarrow> bool" where
  "frees_respectfully E \<longleftrightarrow> (\<forall>d f h s. free_buffer_handle E d = Some f \<longrightarrow> subgraph_inv s \<longrightarrow>
     subgraph_inv (f h s))"

lemma modify_subgraph_keeps:
  assumes "respectful E" "subgraph_inv s" shows "keeps subgraph_inv (modify_subgraph E d s)"
proof (cases d)
  case None
  then show ?thesis
    unfolding modify_subgraph_def
    using assms by (auto intro!: keeps ModifyGraphWithDelegate_keeps)
next
  case (Some d')
  then show ?thesis
    using ModifyGraphWithDelegate_keeps [OF assms(1)] assms(2)
    by (simp add: modify_subgraph_def modify_keeps_def)
qed

lemma Interpreter_RemoveAllDelegates_keeps [keeps]:
  "respectful E \<Longrightarrow> interpreter_inv it \<Longrightarrow> keeps interpreter_inv (Interpreter_RemoveAllDelegates E it)"
  unfolding Interpreter_RemoveAllDelegates_def by (intro keeps ModifyGraphWithDelegate_keeps)

lemma Interpreter_ModifyGraph_keeps [keeps]:
  assumes E: "respectful E" and it: "interpreter_inv it"
  shows "keeps interpreter_inv (Interpreter_ModifyGraphWithDelegate E d it)"
proof -
  have loop: "keeps interpreter_inv (for_subgraphs (modify_subgraph E d) it)"
    by (rule for_subgraphs_keeps [OF it modify_subgraph_keeps [OF E]])
  show ?thesis
  proof (cases "for_subgraphs (modify_subgraph E d) it")
    case (Some x)
    obtain st it1 where x: "x = (st, it1)" by fastforce
    have "interpreter_inv it1" by (rule keepsD [OF loop]) (simp add: Some x)
    then have "keeps interpreter_inv (if st = kTfLiteDelegateError
        then ensure_status (Interpreter_RemoveAllDelegates E it1) (\<lambda>it. Some (st, it)) else Some (st, it1))"
      by (intro keeps E) auto
    then show ?thesis by (simp add: Interpreter_ModifyGraphWithDelegate_def Some x)
  qed (simp add: Interpreter_ModifyGraphWithDelegate_def keeps)
qed

lemma ModifyGraphOwned_keeps [keeps]:
  "respectful E \<Longrightarrow> interpreter_inv it \<Longrightarrow> keeps interpreter_inv (ModifyGraphWithOwnedDelegate E d it)"
  unfolding ModifyGraphWithOwnedDelegate_def by (intro keeps) simp_all

lemma apply_lazily_keeps [keeps]:
  assumes "respectful E" "interpreter_inv it" shows "keeps interpreter_inv (apply_lazily E is it)"
  using assms(2)
proof (induction "is" arbitrary: it)
  case (Cons i "is")
  let ?it = "it\<lparr>lazy_delegate_providers := (lazy_delegate_providers it)[i := None]\<rparr>"
  let ?r = "ModifyGraphWithOwnedDelegate E (lazy_delegate_providers it ! i) ?it"
  have r: "keeps interpreter_inv ?r" using Cons.prems by (intro keeps assms(1)) simp
  show ?case
  proof (cases ?r)
    case (Some x)
    obtain st it1 where x: "x = (st, it1)" by fastforce
    have "interpreter_inv it1" by (rule keepsD [OF r]) (simp add: Some x)
    then show ?thesis using Some x Cons.IH [of it1] by (simp add: Let_def keeps)
  qed (simp add: Let_def keeps)
qed (simp add: keeps)

lemma Interpreter_AllocateTensors_keeps [keeps]:
  "respectful E \<Longrightarrow> interpreter_inv it \<Longrightarrow> keeps interpreter_inv (Interpreter_AllocateTensors E it)"
  unfolding Interpreter_AllocateTensors_def
  by (intro keeps ModifyGraphWithDelegate_keeps) simp_all

lemma Interpreter_Invoke_keeps [keeps]:
  "respectful E \<Longrightarrow> interpreter_inv it \<Longrightarrow> keeps interpreter_inv (Interpreter_Invoke E it)"
  unfolding Interpreter_Invoke_def by (intro keeps) simp_all

lemma set_buffer_handle_keeps [keeps]:
  "frees_respectfully E \<Longrightarrow> subgraph_inv s \<Longrightarrow> keeps subgraph_inv (set_buffer_handle E i h d s)"
  unfolding set_buffer_handle_def Let_def frees_respectfully_def
  by (intro keeps) (auto split: option.splits)

lemma Interpreter_AddTensors_keeps:
  assumes "interpreter_inv it" "0 \<le> n" "int (length (tensors (subgraphs it ! 0))) + n < 2 ^ 64"
  shows "keeps interpreter_inv (Interpreter_AddTensors n it)"
  unfolding Interpreter_AddTensors_def primary_def
  by (rule on_subgraph_keeps_at [OF assms(1)]) (rule AddTensors_keeps, use assms in simp_all)

lemma Interpreter_AddNode_keeps [keeps]:
  assumes E: "respectful E" and it: "interpreter_inv it"
  shows "keeps interpreter_inv (Interpreter_AddNodeWithParameters E ins outs dt dn b r it)"
  unfolding Interpreter_AddNodeWithParameters_def
proof (rule primary_keeps [OF it])
  show "keeps subgraph_inv (map_option (map_prod id snd) (AddNodeWithParameters E ins outs [] dt dn b r (0, s)))"
    if "subgraph_inv s" for s
    using AddNode_grows [OF E, of 0 s ins outs "[]" dt dn b r 0] that by (fastforce simp: keeps_def grows_def)
qed

lemma SetExternalContext_keeps [keeps]:
  "subgraph_inv s \<Longrightarrow> keeps subgraph_inv (map_option (Pair kTfLiteOk) (SetExternalContext ty c s))"
  by (auto simp: SetExternalContext_def keeps_def split: bind_splits)

lemma simple_calls_keep:
  assumes "interpreter_inv it"
  shows "interpreter_inv (SetAllowFp16PrecisionForFp32 b it)" "interpreter_inv (SetProfiler p it)"
    "interpreter_inv (SetProfiler_owned p it)" "interpreter_inv (SetAllowBufferHandleOutput b it)"
    "interpreter_inv (Interpreter_SetCancellationFunction d f it)"
    "keeps interpreter_inv (SetNumThreads refresh n it)"
  using assms
  by (auto simp: SetAllowFp16PrecisionForFp32_def SetProfiler_def SetProfiler_owned_def
      SetSubgraphProfiler_def SetAllowBufferHandleOutput_def Interpreter_SetCancellationFunction_def
      SetCancellationFunction_def SetNumThreads_def interpreter_inv_def keeps_def)

lemmas forwarding_defs = Interpreter_SetCustomAllocationForTensor_def Interpreter_SetInputs_def
  Interpreter_SetOutputs_def Interpreter_SetVariables_def Interpreter_ResizeInputTensor_def
  Interpreter_ResizeInputTensorStrict_def Interpreter_ReleaseNonPersistentMemory_def
  Interpreter_ResetVariableTensors_def Interpreter_SetTensorParametersReadOnly_def
  Interpreter_SetTensorParametersReadWrite_def Interpreter_SetTensorParametersReadOnly_legacy_def
  Interpreter_SetTensorParametersReadWrite_legacy_def Interpreter_SetExecutionPlan_def
  Interpreter_UseNNAPI_def Interpreter_EnsureTensorDataIsReadable_def SetBufferHandle_def

lemma UseNNAPI_keeps [keeps]: "subgraph_inv s \<Longrightarrow> keeps subgraph_inv (ok (UseNNAPI b s))"
  by (simp add: UseNNAPI_def keeps_Some)

lemma forwarded_keep:
  assumes it: "interpreter_inv it"
  shows "keeps interpreter_inv (Interpreter_SetCustomAllocationForTensor i a it)"
    "keeps interpreter_inv (Interpreter_SetInputs ts it)"
    "keeps interpreter_inv (Interpreter_SetOutputs ts it)"
    "keeps interpreter_inv (Interpreter_SetVariables ts it)"
    "keeps interpreter_inv (Interpreter_ReleaseNonPersistentMemory it)"
    "keeps interpreter_inv (Interpreter_SetTensorParametersReadOnly i ty nm ds q buf n al it)"
    "keeps interpreter_inv (Interpreter_SetTensorParametersReadWrite i ty nm ds q var it)"
    "keeps interpreter_inv (Interpreter_SetTensorParametersReadOnly_legacy g i ty nm ds lq buf n al it)"
    "keeps interpreter_inv (Interpreter_SetTensorParametersReadWrite_legacy g i ty nm ds lq var sig it)"
    "keeps interpreter_inv (Interpreter_SetExecutionPlan ts it)"
    "keeps interpreter_inv (Interpreter_UseNNAPI b it)"
  unfolding forwarding_defs Let_def
  by (rule primary_keeps [OF it], erule tensor_ops_keep(3),
      rule primary_keeps [OF it], erule SetIO_keeps(1),
      rule primary_keeps [OF it], erule SetIO_keeps(2),
      rule primary_keeps [OF it], erule SetIO_keeps(3),
      rule primary_keeps [OF it], erule ReleaseNonPersistentMemory_sg_keeps,
      rule primary_keeps [OF it], erule tensor_ops_keep(1),
      rule primary_keeps [OF it], erule tensor_ops_keep(2),
      rule primary_keeps [OF it], erule tensor_ops_keep(1),
      rule primary_keeps [OF it], erule tensor_ops_keep(2),
      rule primary_keeps [OF it], erule SetExecutionPlan_keeps,
      rule primary_keeps [OF it], erule UseNNAPI_keeps)

lemma forwarded_keep_env:
  assumes E: "respectful E" "frees_respectfully E" and it: "interpreter_inv it"
  shows "keeps interpreter_inv (Interpreter_ResizeInputTensor E i ds it)"
    "keeps interpreter_inv (Interpreter_ResizeInputTensorStrict E i ds it)"
    "keeps interpreter_inv (Interpreter_ResetVariableTensors E it)"
    "keeps interpreter_inv (Interpreter_EnsureTensorDataIsReadable E i it)"
    "keeps interpreter_inv (SetBufferHandle E i h d it)"
  unfolding forwarding_defs Let_def
  by (rule primary_keeps [OF it], erule ResizeInputTensor_keeps [OF E(1)],
      rule primary_keeps [OF it], erule ResizeInputTensorStrict_keeps [OF E(1)],
      rule primary_keeps [OF it], erule ResetVariableTensors_keeps,
      rule primary_keeps [OF it], erule EnsureTensorDataIsReadable_keeps [OF E(1)],
      rule primary_keeps [OF it], erule set_buffer_handle_keeps [OF E(2)])

lemma Interpreter_SetExternalContext_keeps:
  "interpreter_inv it \<Longrightarrow> keeps interpreter_inv (Interpreter_SetExternalContext ty c it)"
  unfolding Interpreter_SetExternalContext_def Let_def by (intro keeps) simp_all

lemma run_interpreter_keeps:
  assumes E: "respectful E" "frees_respectfully E" and it: "interpreter_inv it"
    and c: "interpreter_admissible c it"
  shows "keeps interpreter_inv (run_interpreter E refresh c it)"
proof (cases c)
  case (IAddTensors n)
  then show ?thesis
    using c Interpreter_AddTensors_keeps [OF it, of n] by (simp add: interpreter_admissible_def)
qed ((hypsubst, subst run_interpreter.simps,
      rule forwarded_keep [OF it] forwarded_keep_env [OF E it]
        simple_calls_keep(1-5) [OF it, THEN keeps_Some [where P = interpreter_inv]] simple_calls_keep(6) [OF it]
        AddSubgraphs_inv [OF it, THEN keeps_Some [where P = interpreter_inv]] Interpreter_SetExternalContext_keeps [OF it]
        Interpreter_AddNode_keeps [OF E(1) it] Interpreter_ModifyGraph_keeps [OF E(1) it]
        ModifyGraphOwned_keeps [OF E(1) it] Interpreter_AllocateTensors_keeps [OF E(1) it]
        Interpreter_Invoke_keeps [OF E(1) it])+)

text \<open>
  C14: whatever sequence of calls a user makes on an interpreter, failed ones included, it has a
  primary subgraph, and in every subgraph the inputs and outputs of the nodes, the inputs, outputs
  and variables and the execution plans hold only valid indices (or mark an optional tensor),
  provided that kernels and delegates use only the context they are given.
\<close>

theorem user_reaches_inv:
  assumes "respectful E" "frees_respectfully E" "user_reaches E refresh own w it"
  shows "interpreter_inv it"
  using assms(3)
proof (induction rule: user_reaches.induct)
  case (created st it)
  show ?case by (rule keepsD [OF Interpreter_keeps created])
next
  case (called it c st it')
  show ?case
    by (rule keepsD [OF run_interpreter_keeps [OF assms(1,2) called.IH called.hyps(2)] called.hyps(3)])
qed

theorem user_reaches_inv_witness:
  "\<exists>it. respectful idle_env \<and> frees_respectfully idle_env
     \<and> user_reaches idle_env (\<lambda>_ w. w) 1 () it \<and> interpreter_inv it"
proof -
  obtain st it where "Interpreter 1 () = Some (st, it)"
    by (cases "Interpreter 1 ()") (auto simp: Interpreter_def Let_def primary_def on_subgraph_def
        AddSubgraphs_def)
  then have it: "user_reaches idle_env (\<lambda>_ w. w) 1 () it" by (rule user_reaches.created)
  have E: "frees_respectfully idle_env" by (simp add: frees_respectfully_def idle_env_def)
  show ?thesis
    using user_reaches_inv [OF idle_env_respectful E it] idle_env_respectful E it by blast
qed

section \<open>A failed delegate\<close>

text \<open>A loop over the subgraphs that ended well has run on each of them.\<close>

lemma for_subgraphs_from:
  assumes "for_each (\<lambda>k. on_subgraph k f) [i..<n] it = ok it'"
    and "\<And>k s t. f s = ok t \<Longrightarrow> P t"
    and "\<forall>k<i. P (subgraphs it ! k)" "length (subgraphs it) = n" "i \<le> n"
  shows "length (subgraphs it') = n \<and> (\<forall>k<n. P (subgraphs it' ! k))"
  using assms(1,3,4,5)
proof (induction "n - i" arbitrary: i it)
  case (Suc m)
  then have up: "[i..<n] = i # [Suc i..<n]" and i: "i < n" by (simp_all add: upt_conv_Cons)
  obtain s where s: "f ((subgraphs it ! i)\<lparr>external_contexts := shared_contexts it, world := shared_world it\<rparr>) = ok s"
    and rest: "for_each (\<lambda>k. on_subgraph k f) [Suc i..<n] (it\<lparr>subgraphs := (subgraphs it)[i := s],
        shared_contexts := external_contexts s, shared_world := world s\<rparr>) = ok it'"
    using Suc.prems(1,3) i by (auto simp: up on_subgraph_def ensure_status_ok_iff)
  show ?case
    by (rule Suc.hyps(1) [OF _ rest])
      (use Suc.hyps(2) Suc.prems assms(2) [OF s] i in \<open>auto simp: nth_list_update less_Suc_eq\<close>)
qed auto

lemma for_subgraphs_all:
  assumes "for_subgraphs f it = ok it'" "\<And>s t. f s = ok t \<Longrightarrow> P t"
  shows "\<forall>s\<in>set (subgraphs it'). P s"
  using for_subgraphs_from [of f 0 "length (subgraphs it)" it it' P] assms
  by (auto simp: for_subgraphs_def in_set_conv_nth)

lemma for_subgraphs_plain: "(\<And>s. plain (f s)) \<Longrightarrow> plain (for_subgraphs f it)"
proof -
  assume f: "\<And>s. plain (f s)"
  have "plain (on_subgraph k f it)" for k it
    unfolding on_subgraph_def using f by (auto intro!: plain)
  then have "plain (for_each (\<lambda>k. on_subgraph k f) ks it)" for ks
    by (induction ks arbitrary: it) (auto intro!: plain)
  then show ?thesis by (simp add: for_subgraphs_def)
qed

text \<open>A subgraph that no delegate touches.\<close>

definition undelegated :: "'w subgraph \<Rightarrow> bool" where
  "undelegated s \<longleftrightarrow> delegates_applied s = [] \<and> settled s \<and> state s = kStateInvokable"

lemma RemoveAllDelegates_ok:
  assumes E: "discreet E" and r: "RemoveAllDelegates E m s = ok t" shows "undelegated t"
proof -
  obtain u where mem: "EnsureMemoryAllocations E m (u\<lparr>delegates_applied := [], delegates_undone := False\<rparr>) = ok t"
    using r by (auto simp: RemoveAllDelegates_def ensure_status_ok_iff)
  have "core t = core (u\<lparr>delegates_applied := [], delegates_undone := False\<rparr>)"
    by (rule keepsD [OF EnsureMemory_core [OF E _ refl] mem]) simp
  then show ?thesis
    using EnsureMemory_invokable [OF mem] by (simp add: undelegated_def core_def delegation_def)
qed

lemma RemoveAllDelegates_plain:
  assumes "discreet E" shows "plain (RemoveAllDelegates E m s)"
proof -
  have "st = kTfLiteOk" if "UndoAllDelegates E s = Some (st, t)" for st t
    using UndoAllDelegates_restores(1) [OF assms _ that] that
    by (cases "pre_delegation_plan s = []") (auto simp: UndoAllDelegates_def)
  then show ?thesis
    unfolding RemoveAllDelegates_def
    by (cases "UndoAllDelegates E s") (auto simp: plain EnsureMemory_plain)
qed

text \<open>
  C15: when \<^verbatim>\<open>Interpreter::ModifyGraphWithDelegate\<close> returns \<^verbatim>\<open>kTfLiteDelegateError\<close>, the delegates of
  every subgraph are gone, also of the ones where the delegate had been applied, and every subgraph
  can be invoked.
\<close>

theorem delegate_error_clears_all:
  assumes "discreet E" "Interpreter_ModifyGraphWithDelegate E d it = Some (kTfLiteDelegateError, it')"
  shows "\<forall>s\<in>set (subgraphs it'). delegates_applied s = [] \<and> \<not> delegates_undone s \<and> state s = kStateInvokable"
proof -
  obtain it1 where "ensure_status (Interpreter_RemoveAllDelegates E it1) (\<lambda>it. Some (kTfLiteDelegateError, it))
      = Some (kTfLiteDelegateError, it')"
    using assms(2) by (auto simp: Interpreter_ModifyGraphWithDelegate_def split: option.splits if_splits)
  moreover have "plain (Interpreter_RemoveAllDelegates E it1)"
    unfolding Interpreter_RemoveAllDelegates_def
    by (rule for_subgraphs_plain) (rule RemoveAllDelegates_plain [OF assms(1)])
  ultimately have "Interpreter_RemoveAllDelegates E it1 = ok it'"
    by (auto simp: plain_def ensure_status_def split: option.splits if_splits)
  then have "\<forall>s\<in>set (subgraphs it'). undelegated s"
    unfolding Interpreter_RemoveAllDelegates_def
    by (rule for_subgraphs_all) (rule RemoveAllDelegates_ok [OF assms(1)])
  then show ?thesis by (simp add: undelegated_def)
qed

definition lone_interpreter :: "delegate_id option list \<Rightarrow> unit interpreter" where
  "lone_interpreter lazy =
     \<lparr>subgraphs = [lone_node], recommended_num_threads = [-1], allow_fp32_relax_to_fp16 = [False],
      subgraph_profilers = [0], shared_contexts = [], shared_world = (),
      own_external_cpu_backend_context = 1, owned_delegates = [], lazy_delegate_providers = lazy,
      allow_buffer_handle_output = False, owned_profiler = 0, installed_profiler = 0\<rparr>"

lemmas delegate_eval = ModifyGraph_two modify_with_delegate_def apply_delegate_def
  reset_delegation_if_not_ok_def RemoveAllDelegates_def UndoAllDelegates_def EnsureMemoryAllocations_def
  cleanup_delegate_node_def remap_node_def update_node_def SwitchToDelegateContext_def
  SwitchToKernelContext_def FreeDelegatePartitioningData_def has_flag_def
  kTfLiteDelegateFlagsAllowDynamicTensors_def ensure_def

lemma lone_interpreter_fails:
  "\<exists>it. Interpreter_ModifyGraphWithDelegate failing_env (Some 0) (lone_interpreter [])
     = Some (kTfLiteDelegateError, it)"
  by (simp add: Interpreter_ModifyGraphWithDelegate_def for_subgraphs_def on_subgraph_def
      lone_interpreter_def modify_subgraph_def Interpreter_RemoveAllDelegates_def delegate_eval
      failing_env_def allocate_eval)

theorem delegate_error_clears_all_witness:
  "\<exists>it. discreet failing_env
     \<and> Interpreter_ModifyGraphWithDelegate failing_env (Some 0) (lone_interpreter [])
         = Some (kTfLiteDelegateError, it)
     \<and> (\<forall>s\<in>set (subgraphs it). delegates_applied s = [] \<and> \<not> delegates_undone s \<and> state s = kStateInvokable)"
proof -
  obtain it where it: "Interpreter_ModifyGraphWithDelegate failing_env (Some 0) (lone_interpreter [])
      = Some (kTfLiteDelegateError, it)"
    using lone_interpreter_fails by blast
  show ?thesis
    using delegate_error_clears_all [OF failing_env_discreet it] it failing_env_discreet by blast
qed

section \<open>A lazy delegate that fails\<close>

lemma for_subgraphs_lazy:
  "keeps (\<lambda>it'. lazy_delegate_providers it' = lazy_delegate_providers it
     \<and> length (subgraphs it') = length (subgraphs it)) (for_subgraphs f it)"
proof -
  have step: "keeps (\<lambda>it. lazy_delegate_providers it = ds \<and> length (subgraphs it) = n) (on_subgraph k f it)"
    if "lazy_delegate_providers it = ds \<and> length (subgraphs it) = n" for k it ds n
    using that by (auto simp: on_subgraph_def keeps_def)
  show ?thesis
    unfolding for_subgraphs_def by (intro keeps_for_each [OF _ step]) simp_all
qed

lemma ModifyGraphOwned_lazy:
  assumes "ModifyGraphWithOwnedDelegate E d it = Some (st, it')"
  shows "lazy_delegate_providers it' = lazy_delegate_providers it" "length (subgraphs it') = length (subgraphs it)"
proof -
  let ?lazy = "\<lambda>it'. lazy_delegate_providers it' = lazy_delegate_providers it
    \<and> length (subgraphs it') = length (subgraphs it)"
  obtain st1 it1 where 1: "for_subgraphs (modify_subgraph E d) (it\<lparr>owned_delegates := owned_delegates it @ [d]\<rparr>)
        = Some (st1, it1)"
    and r: "(if st1 = kTfLiteDelegateError
       then ensure_status (Interpreter_RemoveAllDelegates E it1) (\<lambda>it. Some (st1, it))
       else Some (st1, it1)) = Some (st, it')"
    using assms by (auto simp: ModifyGraphWithOwnedDelegate_def Interpreter_ModifyGraphWithDelegate_def
        split: option.splits)
  have lazy: "?lazy it1" using keepsD [OF for_subgraphs_lazy 1] by simp
  have "keeps ?lazy (Interpreter_RemoveAllDelegates E it1)"
    unfolding Interpreter_RemoveAllDelegates_def
    by (rule keeps_mono [OF for_subgraphs_lazy]) (simp add: lazy)
  then have "keeps ?lazy (if st1 = kTfLiteDelegateError
       then ensure_status (Interpreter_RemoveAllDelegates E it1) (\<lambda>it. Some (st1, it))
       else Some (st1, it1))"
    using lazy by (intro keeps) simp_all
  from keepsD [OF this r] show "lazy_delegate_providers it' = lazy_delegate_providers it"
    "length (subgraphs it') = length (subgraphs it)" by simp_all
qed

text \<open>
  when the first of the delegates to be applied by default fails with \<^verbatim>\<open>kTfLiteError\<close>,
  \<^verbatim>\<open>AllocateTensors\<close> reports it and keeps the list, from which the delegate has been moved away. A
  second call of \<^verbatim>\<open>AllocateTensors\<close> dereferences the null pointer left behind, if the primary subgraph
  may still be changed and no delegates are to be applied again.
\<close>

theorem lazy_delegate_applied_twice:
  assumes "lazy_delegate_providers it = d # ds"
    and "ModifyGraphWithOwnedDelegate E d (it\<lparr>lazy_delegate_providers := None # ds\<rparr>) = Some (kTfLiteError, it')"
    and "subgraphs it' = s # ss" "state s \<noteq> kStateInvokableAndImmutable" "\<not> delegates_undone s"
  shows "Interpreter_AllocateTensors E it = Some (kTfLiteError, it') \<and> Interpreter_AllocateTensors E it' = None"
proof -
  have up: "[0..<Suc n] = 0 # [1..<Suc n]" for n
    by (simp add: upt_conv_Cons del: upt_Suc)
  have first: "Interpreter_AllocateTensors E it = Some (kTfLiteError, it')"
    using assms(1,2) by (simp add: Interpreter_AllocateTensors_def up del: upt_Suc)
  have crash: "modify_subgraph E None (s\<lparr>external_contexts := c, world := w\<rparr>) = None" for c w
    using assms(4,5) by (simp add: modify_subgraph_def RedoAllDelegates_def)
  have lazy: "lazy_delegate_providers it' = None # ds"
    using ModifyGraphOwned_lazy [OF assms(2)] by simp
  have "ModifyGraphWithOwnedDelegate E None (it'\<lparr>lazy_delegate_providers := None # ds\<rparr>) = None"
    using assms(3) crash
    by (simp add: ModifyGraphWithOwnedDelegate_def Interpreter_ModifyGraphWithDelegate_def
        for_subgraphs_def up on_subgraph_def del: upt_Suc)
  then have "Interpreter_AllocateTensors E it' = None"
    using lazy by (simp add: Interpreter_AllocateTensors_def up del: upt_Suc)
  with first show ?thesis ..
qed

definition unprepared_env :: "unit env" where
  "unprepared_env = idle_env\<lparr>prepare_kernel := (\<lambda>k i s. Some (kTfLiteError, s))\<rparr>"

lemma unprepared_delegation:
  "\<exists>it s. ModifyGraphWithOwnedDelegate unprepared_env (Some 0)
        ((lone_interpreter [Some 0])\<lparr>lazy_delegate_providers := [None]\<rparr>) = Some (kTfLiteError, it)
     \<and> subgraphs it = [s] \<and> state s \<noteq> kStateInvokableAndImmutable \<and> \<not> delegates_undone s"
  by (simp add: ModifyGraphWithOwnedDelegate_def Interpreter_ModifyGraphWithDelegate_def
      for_subgraphs_def on_subgraph_def lone_interpreter_def modify_subgraph_def delegate_eval
      check_static_tensors_def unprepared_env_def allocate_eval)

theorem lazy_delegate_applied_twice_witness:
  "\<exists>it. Interpreter_AllocateTensors unprepared_env (lone_interpreter [Some 0]) = Some (kTfLiteError, it)
     \<and> Interpreter_AllocateTensors unprepared_env it = None"
proof -
  obtain it s where "ModifyGraphWithOwnedDelegate unprepared_env (Some 0)
        ((lone_interpreter [Some 0])\<lparr>lazy_delegate_providers := [None]\<rparr>) = Some (kTfLiteError, it)"
    "subgraphs it = [s]" "state s \<noteq> kStateInvokableAndImmutable" "\<not> delegates_undone s"
    using unprepared_delegation by blast
  moreover have "lazy_delegate_providers (lone_interpreter [Some 0]) = [Some 0]"
    by (simp add: lone_interpreter_def)
  ultimately show ?thesis
    using lazy_delegate_applied_twice [of "lone_interpreter [Some 0]" "Some 0" "[]" unprepared_env it s "[]"]
    by blast
qed

end
