(* ===== verification/Interpreter_Builder.thy ===== *)
theory Interpreter_Builder
  imports Interpreter Op_Resolver
begin

text \<open>
  \<^verbatim>\<open>tensorflow/lite/interpreter_builder.{h,cc}\<close>: an interpreter is built from a model and a resolver.

  A model that was parsed is \<^typ>\<open>fb_model\<close>. What the code calls and is not modelled here is in the
  record \<open>platform\<close>: \<open>parse_op_data\<close> is \<^verbatim>\<open>ParseOpData\<close>, which turns the options of an operator into
  a structure of the kernel, \<open>flex_delegate\<close> is what the weak symbol \<^verbatim>\<open>AcquireFlexDelegate\<close> returns
  (\<^term>\<open>None\<close> for null), \<open>platform_profiler\<close> the profiler of the platform, \<open>new_context\<close> the address
  of the context that an interpreter allocates.
\<close>

section \<open>State\<close>

text \<open>
  A vector of registrations, and pointers to its elements: a vector that grows beyond its capacity
  moves to other storage, and a pointer into the old one dangles.
\<close>

record registration_vector =
  rv_elements :: "registration list"
  rv_capacity :: nat
  rv_storage :: nat

datatype registration_pointer =
    InResolver registration
  | InUnresolved nat nat

record interpreter_builder =
  ib_model :: "fb_model option"
  ib_resolver :: op_resolver
  flatbuffer_op_index_to_registration :: "registration_pointer option list"
  unresolved_custom_ops :: registration_vector
  ib_allocation :: nat
  has_flex_op :: bool
  num_fp32_tensors :: int

record 'w platform =
  refresh_context :: "nat \<Rightarrow> 'w \<Rightarrow> 'w"
  parse_op_data :: "fb_operator \<Rightarrow> int \<Rightarrow> 'w \<Rightarrow> tflite_status \<times> nat \<times> 'w"
  flex_delegate :: "delegate_id option"
  platform_profiler :: nat
  new_context :: nat

definition rv_clear :: "registration_vector \<Rightarrow> registration_vector" where
  "rv_clear v = v\<lparr>rv_elements := []\<rparr>"

definition rv_reserve :: "nat \<Rightarrow> registration_vector \<Rightarrow> registration_vector" where
  "rv_reserve n v = (if n > rv_capacity v then v\<lparr>rv_capacity := n, rv_storage := rv_storage v + 1\<rparr> else v)"

definition rv_push_back :: "registration \<Rightarrow> registration_vector \<Rightarrow> registration_vector" where
  "rv_push_back r v =
     (let v = (if length (rv_elements v) = rv_capacity v
               then v\<lparr>rv_capacity := max 1 (2 * rv_capacity v), rv_storage := rv_storage v + 1\<rparr> else v)
      in v\<lparr>rv_elements := rv_elements v @ [r]\<rparr>)"

definition rv_back :: "registration_vector \<Rightarrow> registration_pointer" where
  "rv_back v = InUnresolved (rv_storage v) (length (rv_elements v) - 1)"

definition deref :: "interpreter_builder \<Rightarrow> registration_pointer \<Rightarrow> registration option" where
  "deref b p = (case p of
     InResolver r \<Rightarrow> Some r
   | InUnresolved storage i \<Rightarrow>
       (if storage = rv_storage (unresolved_custom_ops b)
        then vec_at (rv_elements (unresolved_custom_ops b)) (int i) else None))"

definition InterpreterBuilder :: "fb_model option \<Rightarrow> op_resolver \<Rightarrow> nat \<Rightarrow> interpreter_builder" where
  "InterpreterBuilder m R alloc =
     \<lparr>ib_model = m, ib_resolver = R, flatbuffer_op_index_to_registration = [],
      unresolved_custom_ops = \<lparr>rv_elements = [], rv_capacity = 0, rv_storage = 0\<rparr>,
      ib_allocation = alloc, has_flex_op = False, num_fp32_tensors = 0\<rparr>"

section \<open>Registrations\<close>

primrec map_opcodes :: "operator_code list \<Rightarrow> interpreter_builder \<Rightarrow> tflite_status \<times> interpreter_builder"
where
  "map_opcodes [] b = (kTfLiteOk, b)"
| "map_opcodes (opcode # opcodes) b =
     (case GetRegistrationFromOpCode opcode (ib_resolver b) of (status, r) \<Rightarrow>
        if status \<noteq> kTfLiteOk then
          (if GetBuiltinCode opcode \<noteq> BuiltinOperator_CUSTOM then (status, b)
           else case fb_custom_code opcode of
                  None \<Rightarrow> (status, b)
                | Some op_name \<Rightarrow>
                    let ops = rv_push_back (CreateUnresolvedCustomOp op_name) (unresolved_custom_ops b);
                        b = b\<lparr>unresolved_custom_ops := ops,
                              has_flex_op := has_flex_op b \<or> IsFlexOp (Some op_name)\<rparr>
                    in map_opcodes opcodes (b\<lparr>flatbuffer_op_index_to_registration :=
                         flatbuffer_op_index_to_registration b @ [Some (rv_back ops)]\<rparr>))
        else map_opcodes opcodes (b\<lparr>flatbuffer_op_index_to_registration :=
               flatbuffer_op_index_to_registration b @ [map_option InResolver r]\<rparr>))"

definition BuildLocalIndexToRegistrationMapping ::
  "fb_model \<Rightarrow> interpreter_builder \<Rightarrow> tflite_status \<times> interpreter_builder" where
  "BuildLocalIndexToRegistrationMapping m b =
     (let b = b\<lparr>flatbuffer_op_index_to_registration := [],
                unresolved_custom_ops := rv_clear (unresolved_custom_ops b)\<rparr>
      in case fb_operator_codes m of
           None \<Rightarrow> (kTfLiteOk, b)
         | Some opcodes \<Rightarrow>
             let num_custom_ops = length (filter (\<lambda>c. GetBuiltinCode c = BuiltinOperator_CUSTOM) opcodes)
             in map_opcodes opcodes (b\<lparr>unresolved_custom_ops :=
                  rv_reserve num_custom_ops (unresolved_custom_ops b)\<rparr>))"

section \<open>Nodes\<close>

definition FlatBufferIntArrayToVector :: "int list option \<Rightarrow> int list" where
  "FlatBufferIntArrayToVector flat_array = (case flat_array of None \<Rightarrow> [] | Some xs \<Rightarrow> xs)"

text \<open>A conversion to \<^verbatim>\<open>int\<close>.\<close>

definition as_int :: "int \<Rightarrow> int" where
  "as_int = signed_take_bit 31"

text \<open>
  The loop of \<^verbatim>\<open>ParseNodes\<close>. The status of \<^verbatim>\<open>AddNodeWithParameters\<close> is ignored. \<^verbatim>\<open>ReserveNodes\<close> only
  reserves memory.
\<close>

primrec ParseNodes ::
  "'w env \<Rightarrow> 'w platform \<Rightarrow> interpreter_builder \<Rightarrow> fb_operator list \<Rightarrow> tflite_status \<Rightarrow> 'w subgraph
   \<Rightarrow> 'w subgraph result" where
  "ParseNodes E P b [] status s = Some (status, s)"
| "ParseNodes E P b (op # ops) status s =
     (let index = as_int (int (fb_opcode_index op));
          ins = FlatBufferIntArrayToVector (fb_op_inputs op);
          outs = FlatBufferIntArrayToVector (fb_op_outputs op);
          intermediates = FlatBufferIntArrayToVector (fb_op_intermediates op)
      in if index < 0 \<or> nat index \<ge> length (flatbuffer_op_index_to_registration b)
         then ParseNodes E P b ops kTfLiteError s
         else case flatbuffer_op_index_to_registration b ! nat index of
                None \<Rightarrow> ParseNodes E P b ops kTfLiteError s
              | Some p \<Rightarrow> do {
                  r \<leftarrow> deref b p;
                  let op_type = builtin_code r;
                  if op_type = BuiltinOperator_CUSTOM then do {
                    let (dt, n) = (case fb_custom_options op of Some d \<Rightarrow> d | None \<Rightarrow> (0, 0));
                    (_, _, s) \<leftarrow> AddNodeWithParameters E ins outs intermediates dt n 0 r (0, s);
                    ParseNodes E P b ops status s }
                  else
                    case parse_op_data P op op_type (world s) of (st, parsed, w) \<Rightarrow>
                      if st \<noteq> kTfLiteOk then Some (st, s\<lparr>world := w\<rparr>)
                      else do {
                        (_, _, s) \<leftarrow> AddNodeWithParameters E ins outs intermediates 0 0 parsed r
                                      (0, s\<lparr>world := w\<rparr>);
                        ParseNodes E P b ops status s } })"

section \<open>Quantization and sparsity\<close>

text \<open>Zero points have 64 bits in a model and 32 bits in a tensor.\<close>

definition ParseQuantization :: "fb_quantization option \<Rightarrow> int list \<Rightarrow> tflite_status \<times> quantization" where
  "ParseQuantization src ds =
     (let none = \<lparr>quantization_kind = kTfLiteNoQuantization, quantization_details = None\<rparr>
      in case src of
           None \<Rightarrow> (kTfLiteOk, none)
         | Some q \<Rightarrow>
             (case fb_scale q of None \<Rightarrow> (kTfLiteOk, none) | Some scale \<Rightarrow>
                if length scale = 0 then (kTfLiteOk, none)
                else case fb_zero_point q of None \<Rightarrow> (kTfLiteError, none) | Some zero_point \<Rightarrow>
                  let num_scales = length scale;
                      d = fb_quantized_dimension q
                  in if length scale \<noteq> length zero_point then (kTfLiteError, none)
                     else if d < 0 \<or> (ds \<noteq> [] \<and> nat d \<ge> length ds) then (kTfLiteError, none)
                     else if num_scales \<noteq> 1 \<and> (ds \<noteq> [] \<and> int num_scales \<noteq> ds ! nat d mod 2 ^ 64)
                     then (kTfLiteError, none)
                     else (kTfLiteOk,
                       \<lparr>quantization_kind = kTfLiteAffineQuantization,
                        quantization_details = Some
                          \<lparr>affine_scale = Some scale, affine_zero_point = Some (map as_int zero_point),
                           affine_quantized_dimension = d\<rparr>\<rparr>)))"

text \<open>\<^verbatim>\<open>Copy\<close>, for each of the three element types.\<close>

definition Copy :: "int list option \<Rightarrow> tflite_status \<times> int list option" where
  "Copy vs = (case vs of None \<Rightarrow> (kTfLiteError, None) | Some xs \<Rightarrow> (kTfLiteOk, Some xs))"

definition copy_index_vector :: "sparse_index_vector \<Rightarrow> tflite_status \<times> int list option" where
  "copy_index_vector v = (case v of
     Int32Vector xs \<Rightarrow> Copy xs | Uint16Vector xs \<Rightarrow> Copy xs | Uint8Vector xs \<Rightarrow> Copy xs
   | NoIndexVector \<Rightarrow> (kTfLiteError, None))"

text \<open>The status, and the two arrays it leaves in the target.\<close>

definition ParseSparseIndexVector ::
  "fb_dimension_metadata \<Rightarrow> tflite_status \<times> int list option \<times> int list option" where
  "ParseSparseIndexVector src =
     (case (fb_array_segments src, fb_array_indices src) of
        (Some segments, Some indices) \<Rightarrow>
          (case copy_index_vector segments of (status, segs) \<Rightarrow>
             if status \<noteq> kTfLiteOk then (status, segs, None)
             else case copy_index_vector indices of (status, inds) \<Rightarrow> (status, segs, inds))
      | _ \<Rightarrow> (kTfLiteError, None, None))"

text \<open>The loop over the dimensions. The dimensions after a failed one are left as zeros.\<close>

primrec parse_dimensions :: "fb_dimension_metadata list \<Rightarrow> tflite_status \<times> dimension_metadata list" where
  "parse_dimensions [] = (kTfLiteOk, [])"
| "parse_dimensions (m # ms) =
     (if fb_format m \<noteq> DimensionType_DENSE \<and> fb_format m \<noteq> DimensionType_SPARSE_CSR
      then (kTfLiteError, replicate (Suc (length ms)) (DimDense 0))
      else if fb_format m = DimensionType_DENSE
      then map_prod id ((#) (DimDense (fb_dense_size m))) (parse_dimensions ms)
      else case ParseSparseIndexVector m of (st, segs, inds) \<Rightarrow>
             if st \<noteq> kTfLiteOk
             then (kTfLiteError, DimSparseCSR segs inds # replicate (length ms) (DimDense 0))
             else map_prod id ((#) (DimSparseCSR segs inds)) (parse_dimensions ms))"

definition ParseSparsity :: "fb_sparsity option \<Rightarrow> tflite_status \<times> sparsity option" where
  "ParseSparsity src = (case src of None \<Rightarrow> (kTfLiteOk, None) | Some sp \<Rightarrow>
     (case (fb_traversal_order sp, fb_dim_metadata sp) of
        (Some order, Some metadata) \<Rightarrow>
          (case parse_dimensions metadata of (st, ds) \<Rightarrow>
             (st, Some \<lparr>traversal_order = Some order, block_map = fb_block_map sp, dim_metadata = ds\<rparr>))
      | _ \<Rightarrow> (kTfLiteError, None)))"

section \<open>Tensors\<close>

definition get_name :: "fb_tensor \<Rightarrow> string" where
  "get_name t = (case fb_name t of Some name \<Rightarrow> name | None \<Rightarrow> '''')"

text \<open>The data of a constant tensor: its status, address (0 for null) and size.\<close>

definition get_readonly_data :: "fb_buffer option list \<Rightarrow> fb_tensor \<Rightarrow> tflite_status \<times> nat \<times> nat" where
  "get_readonly_data buffers t =
     (if fb_buffer t = 0 then (kTfLiteOk, 0, 0)
      else if fb_buffer t \<ge> length buffers then (kTfLiteError, 0, 0)
      else case buffers ! fb_buffer t of
             Some (Some (array, n)) \<Rightarrow> (if n \<noteq> 0 then (kTfLiteOk, array, n) else (kTfLiteOk, 0, 0))
           | _ \<Rightarrow> (kTfLiteOk, 0, 0))"

text \<open>The body of the loop once the data is known; \<open>status\<close> is the status so far.\<close>

definition set_parsed_tensor ::
  "nat \<Rightarrow> nat \<Rightarrow> fb_tensor \<Rightarrow> tflite_type \<Rightarrow> nat \<Rightarrow> nat \<Rightarrow> tflite_status \<Rightarrow> 'w subgraph \<Rightarrow> 'w subgraph result"
where
  "set_parsed_tensor alloc i t type buffer_ptr buffer_size status s =
     (let ds = FlatBufferIntArrayToVector (fb_shape t);
          (qst, quantization) = ParseQuantization (fb_tensor_quantization t) ds;
          status = (if qst \<noteq> kTfLiteOk then kTfLiteError else status);
          signature = (case fb_shape_signature t of Some xs \<Rightarrow> xs | None \<Rightarrow> [])
      in if buffer_ptr \<noteq> 0 then
           (let status = (if fb_is_variable t then kTfLiteError else status);
                (sst, sparsity) = ParseSparsity (fb_tensor_sparsity t);
                status = (if sst \<noteq> kTfLiteOk then kTfLiteError else status)
            in map_option (map_prod (\<lambda>st. if st \<noteq> kTfLiteOk then kTfLiteError else status) id)
                 (SetTensorParametersReadOnly (int i) type (Some (get_name t)) ds quantization buffer_ptr
                    buffer_size alloc sparsity s))
         else map_option (map_prod (\<lambda>st. if st \<noteq> kTfLiteOk then kTfLiteError else status) id)
                (SetTensorParametersReadWrite (int i) type (Some (get_name t)) ds quantization
                   (fb_is_variable t) signature s))"

text \<open>The loop of \<^verbatim>\<open>ParseTensors\<close> from tensor \<open>i\<close> on; the state has the count of float tensors.\<close>

primrec parse_tensors ::
  "nat \<Rightarrow> fb_buffer option list \<Rightarrow> nat \<Rightarrow> fb_tensor list \<Rightarrow> tflite_status \<Rightarrow> int \<times> 'w subgraph
   \<Rightarrow> (int \<times> 'w subgraph) result" where
  "parse_tensors alloc buffers i [] status ns = Some (status, ns)"
| "parse_tensors alloc buffers i (t # ts) status ns =
     (case ns of (n, s) \<Rightarrow> case ConvertTensorType (fb_type t) of (cst, type) \<Rightarrow>
        if cst \<noteq> kTfLiteOk then parse_tensors alloc buffers (Suc i) ts kTfLiteError (n, s)
        else
          let n = (if type = kTfLiteFloat32 then n + 1 else n)
          in case get_readonly_data buffers t of (rst, buffer_ptr, buffer_size) \<Rightarrow>
               if rst \<noteq> kTfLiteOk then Some (rst, (n, s))
               else do {
                 (status, s) \<leftarrow> set_parsed_tensor alloc i t type buffer_ptr buffer_size status s;
                 parse_tensors alloc buffers (Suc i) ts status (n, s) })"

definition ParseTensors ::
  "nat \<Rightarrow> fb_buffer option list \<Rightarrow> fb_tensor list \<Rightarrow> int \<times> 'w subgraph \<Rightarrow> (int \<times> 'w subgraph) result" where
  "ParseTensors alloc buffers ts ns = parse_tensors alloc buffers 0 ts kTfLiteOk (0, snd ns)"

section \<open>Building\<close>

text \<open>A call whose status is not looked at.\<close>

definition ignoring_status :: "'s result \<Rightarrow> 's result" where
  "ignoring_status r = map_option (\<lambda>(_, s). (kTfLiteOk, s)) r"

text \<open>The body of the loop over the subgraphs; every failure is \<^verbatim>\<open>cleanup_and_error\<close>.\<close>

definition load_subgraph ::
  "'w env \<Rightarrow> 'w platform \<Rightarrow> interpreter_builder \<Rightarrow> fb_buffer option list \<Rightarrow> fb_subgraph \<Rightarrow> int \<times> 'w subgraph
   \<Rightarrow> (int \<times> 'w subgraph) result" where
  "load_subgraph E P b buffers sg = (\<lambda>(n, s).
     case (fb_operators sg, fb_tensors sg) of
       (Some operators, Some ts) \<Rightarrow>
         ensure_status (map_option (map_prod id (Pair n)) (snd (AddTensors (as_int (int (length ts))) s))) (\<lambda>(n, s).
         ensure_status (map_option (map_prod id (Pair n))
           (ignoring_status (SetInputs (FlatBufferIntArrayToVector (fb_inputs sg)) s))) (\<lambda>(n, s).
         ensure_status (map_option (map_prod id (Pair n))
           (ignoring_status (SetOutputs (FlatBufferIntArrayToVector (fb_outputs sg)) s))) (\<lambda>(n, s).
         ensure_status (map_option (map_prod id (Pair n)) (ParseNodes E P b operators kTfLiteOk s)) (\<lambda>(n, s).
         ensure_status (ParseTensors (ib_allocation b) buffers ts (n, s)) (\<lambda>(n, s).
           let vs = filter (\<lambda>i. is_variable (tensors s ! nat i)) (map int [0..<length (tensors s)])
           in map_option (map_prod id (Pair n)) (ignoring_status (SetVariables vs s)))))))
     | _ \<Rightarrow> Some (kTfLiteError, (n, s)))"

text \<open>The same on subgraph \<open>k\<close> of the interpreter.\<close>

definition load_into ::
  "'w env \<Rightarrow> 'w platform \<Rightarrow> interpreter_builder \<Rightarrow> fb_buffer option list \<Rightarrow> nat \<times> fb_subgraph
   \<Rightarrow> int \<times> 'w interpreter \<Rightarrow> (int \<times> 'w interpreter) result" where
  "load_into E P b buffers = (\<lambda>(k, sg) (n, it).
     if k < length (subgraphs it)
     then map_option (map_prod id (\<lambda>(n, s). (n, it\<lparr>subgraphs := (subgraphs it)[k := s],
                shared_contexts := external_contexts s, shared_world := world s\<rparr>)))
            (load_subgraph E P b buffers sg
               (n, (subgraphs it ! k)\<lparr>external_contexts := shared_contexts it, world := shared_world it\<rparr>))
     else None)"

definition load_subgraphs ::
  "'w env \<Rightarrow> 'w platform \<Rightarrow> interpreter_builder \<Rightarrow> fb_buffer option list \<Rightarrow> fb_subgraph list
   \<Rightarrow> int \<times> 'w interpreter \<Rightarrow> (int \<times> 'w interpreter) result" where
  "load_subgraphs E P b buffers sgs = for_each (load_into E P b buffers) (enumerate 0 sgs)"

definition ApplyDelegates ::
  "'w env \<Rightarrow> 'w platform \<Rightarrow> interpreter_builder \<Rightarrow> 'w interpreter \<Rightarrow> 'w interpreter result" where
  "ApplyDelegates E P b it =
     (if has_flex_op b
      then (case flex_delegate P of
              Some d \<Rightarrow> ModifyGraphWithOwnedDelegate E (Some d) it
            | None \<Rightarrow> ok it)
      else ok it)"

text \<open>The interpreter before a subgraph is loaded.\<close>

definition new_interpreter :: "'w platform \<Rightarrow> int \<Rightarrow> nat \<Rightarrow> 'w \<Rightarrow> 'w interpreter result" where
  "new_interpreter P num_threads num_subgraphs w =
     ensure_status (Interpreter (new_context P) w) (\<lambda>it.
     ensure_status (ignoring_status (SetNumThreads (refresh_context P) num_threads it)) (\<lambda>it.
       let it = (if num_subgraphs > 1 then snd (AddSubgraphs (num_subgraphs - 1) it) else it)
       in ok (SetProfiler_owned (platform_profiler P) it)))"

text \<open>
  \<^verbatim>\<open>operator()\<close>. The pointer to the result is \<open>out\<close>: \<^term>\<open>None\<close> if it is null, else what the
  \<^verbatim>\<open>unique_ptr\<close> holds. The result is the status, \<open>out\<close> afterwards and the builder.
\<close>

definition build_interpreter ::
  "'w env \<Rightarrow> 'w platform \<Rightarrow> int \<Rightarrow> 'w \<Rightarrow> 'w interpreter option option \<Rightarrow> interpreter_builder
   \<Rightarrow> (tflite_status \<times> 'w interpreter option option \<times> interpreter_builder) option" where
  "build_interpreter E P num_threads w out b =
     (case out of None \<Rightarrow> Some (kTfLiteError, None, b)
      | Some previous \<Rightarrow>
     if num_threads < -1 then Some (kTfLiteError, Some previous, b)
     else case ib_model b of None \<Rightarrow> Some (kTfLiteError, Some None, b)
      | Some m \<Rightarrow>
     if fb_model_version m \<noteq> TFLITE_SCHEMA_VERSION then Some (kTfLiteError, Some None, b)
     else case BuildLocalIndexToRegistrationMapping m b of (st, b) \<Rightarrow>
     if st \<noteq> kTfLiteOk then Some (kTfLiteError, Some None, b)
     else case fb_subgraphs m of None \<Rightarrow> None
      | Some sgs \<Rightarrow>
     if length sgs = 0 then Some (kTfLiteError, Some None, b)
     else case fb_buffers m of None \<Rightarrow> Some (kTfLiteError, Some None, b)
      | Some buffers \<Rightarrow> do {
     (_, it) \<leftarrow> new_interpreter P num_threads (length sgs) w;
     (st, n, it) \<leftarrow> load_subgraphs E P b buffers sgs (num_fp32_tensors b, it);
     let b = b\<lparr>num_fp32_tensors := n\<rparr>;
     if st \<noteq> kTfLiteOk then Some (kTfLiteError, Some None, b)
     else
       let it = (if num_fp32_tensors b > 0
                 then it\<lparr>lazy_delegate_providers := map Some (GetDelegates (ib_resolver b) num_threads)\<rparr>
                 else it)
       in case ApplyDelegates E P b it of None \<Rightarrow> None
          | Some (st, it) \<Rightarrow>
              if st \<noteq> kTfLiteOk then Some (kTfLiteError, Some None, b)
              else Some (kTfLiteOk, Some (Some it), b) })"

section \<open>Every operator code gets its registration\<close>

text \<open>
  What an operator code stands for: the registration of the resolver, or an unresolved custom
  operator, which a delegate may replace later.
\<close>

definition resolve :: "op_resolver \<Rightarrow> operator_code \<Rightarrow> registration option" where
  "resolve R opcode =
     (case snd (GetRegistrationFromOpCode opcode R) of
        Some r \<Rightarrow> Some r
      | None \<Rightarrow> if GetBuiltinCode opcode = BuiltinOperator_CUSTOM
                then map_option CreateUnresolvedCustomOp (fb_custom_code opcode) else None)"

lemma GetRegistration_cases:
  obtains "GetRegistrationFromOpCode opcode R = (kTfLiteError, None)"
  | r where "GetRegistrationFromOpCode opcode R = (kTfLiteOk, Some r)"
  by (cases "GetRegistrationFromOpCode opcode R")
    (auto simp: GetRegistrationFromOpCode_def Let_def split: if_splits option.splits)

abbreviation custom_opcodes :: "operator_code list \<Rightarrow> operator_code list" where
  "custom_opcodes \<equiv> filter (\<lambda>c. GetBuiltinCode c = BuiltinOperator_CUSTOM)"

text \<open>A vector that is only appended to, within its capacity.\<close>

definition rv_extends :: "registration_vector \<Rightarrow> registration_vector \<Rightarrow> bool" where
  "rv_extends v v' \<longleftrightarrow> rv_storage v' = rv_storage v \<and> (\<exists>rs. rv_elements v' = rv_elements v @ rs)"

lemma rv_extends_refl [simp]: "rv_extends v v"
  by (simp add: rv_extends_def)

lemma rv_extends_trans: "rv_extends u v \<Longrightarrow> rv_extends v w \<Longrightarrow> rv_extends u w"
  by (auto simp: rv_extends_def)

lemma rv_push_back_extends:
  "length (rv_elements v) < rv_capacity v \<Longrightarrow> rv_extends v (rv_push_back r v)"
  by (simp add: rv_push_back_def rv_extends_def)

lemma deref_extends:
  assumes "rv_extends (unresolved_custom_ops b) (unresolved_custom_ops b')" "deref b p = Some r"
  shows "deref b' p = Some r"
  using assms
  by (auto simp: deref_def rv_extends_def vec_at_def in_bounds_def nth_append
      split: registration_pointer.splits if_splits)

lemma deref_back:
  "unresolved_custom_ops b = rv_push_back r v \<Longrightarrow> deref b (rv_back (unresolved_custom_ops b)) = Some r"
  by (simp add: deref_def rv_back_def rv_push_back_def Let_def vec_at_def in_bounds_def)

definition registrations :: "interpreter_builder \<Rightarrow> registration option list" where
  "registrations b = map (\<lambda>p. Option.bind p (deref b)) (flatbuffer_op_index_to_registration b)"

lemma registrations_extends:
  assumes "rv_extends (unresolved_custom_ops b) (unresolved_custom_ops b')"
    and "flatbuffer_op_index_to_registration b' = flatbuffer_op_index_to_registration b @ [Some p]"
    and "deref b' p = Some r" "None \<notin> set (registrations b)"
  shows "registrations b' = registrations b @ [Some r]" "None \<notin> set (registrations b')"
proof -
  have "Option.bind q (deref b') = Option.bind q (deref b)"
    if "q \<in> set (flatbuffer_op_index_to_registration b)" for q
  proof -
    have "Option.bind q (deref b) \<noteq> None" using assms(4) that by (force simp: registrations_def)
    then show ?thesis using deref_extends [OF assms(1)] by (auto simp: bind_eq_Some_conv)
  qed
  then show "registrations b' = registrations b @ [Some r]"
    using assms(2,3) by (simp add: registrations_def)
  then show "None \<notin> set (registrations b')" using assms(4) by simp
qed

lemma map_opcodes_resolves:
  assumes "map_opcodes opcodes b = (st, b')"
    and "length (rv_elements (unresolved_custom_ops b)) + length (custom_opcodes opcodes)
          \<le> rv_capacity (unresolved_custom_ops b)"
    and "None \<notin> set (registrations b)"
  shows "(st = kTfLiteOk \<longleftrightarrow> (\<forall>c\<in>set opcodes. resolve (ib_resolver b) c \<noteq> None))
    \<and> (st = kTfLiteOk \<longrightarrow> registrations b' = registrations b @ map (resolve (ib_resolver b)) opcodes)"
  using assms
proof (induction opcodes arbitrary: b)
  case (Cons c cs)
  let ?v = "unresolved_custom_ops b"
  show ?case
  proof (cases rule: GetRegistration_cases [of c "ib_resolver b"])
    case (2 r)
    let ?b = "b\<lparr>flatbuffer_op_index_to_registration :=
        flatbuffer_op_index_to_registration b @ [Some (InResolver r)]\<rparr>"
    have regs: "registrations ?b = registrations b @ [Some r]" "None \<notin> set (registrations ?b)"
      using registrations_extends [of b ?b "InResolver r" r] Cons.prems(3) by (simp_all add: deref_def)
    show ?thesis
      using Cons.IH [of ?b] Cons.prems 2 regs by (auto simp: resolve_def split: if_splits)
  next
    case 1
    show ?thesis
    proof (cases "GetBuiltinCode c = BuiltinOperator_CUSTOM \<and> fb_custom_code c \<noteq> None")
      case True
      then obtain name where name: "fb_custom_code c = Some name" by blast
      let ?r = "CreateUnresolvedCustomOp name"
      let ?b = "b\<lparr>unresolved_custom_ops := rv_push_back ?r ?v,
          has_flex_op := has_flex_op b \<or> IsFlexOp (Some name),
          flatbuffer_op_index_to_registration := flatbuffer_op_index_to_registration b
            @ [Some (rv_back (rv_push_back ?r ?v))]\<rparr>"
      have room: "length (rv_elements ?v) < rv_capacity ?v" using Cons.prems(2) True by simp
      have "deref ?b (rv_back (rv_push_back ?r ?v)) = Some ?r"
        using deref_back [of ?b ?r ?v] by simp
      then have regs: "registrations ?b = registrations b @ [Some ?r]" "None \<notin> set (registrations ?b)"
        using registrations_extends [of b ?b "rv_back (rv_push_back ?r ?v)" ?r]
          rv_push_back_extends [OF room] Cons.prems(3) by simp_all
      have "length (rv_elements (rv_push_back ?r ?v)) + length (custom_opcodes cs)
          \<le> rv_capacity (rv_push_back ?r ?v)"
        using Cons.prems(2) True room by (simp add: rv_push_back_def Let_def)
      moreover have "map_opcodes cs ?b = (st, b')"
        using Cons.prems(1) 1 True name by (simp add: Let_def)
      ultimately show ?thesis
        using Cons.IH [of ?b] True name regs by (simp add: resolve_def 1)
    qed (use Cons.prems(1) 1 in \<open>auto simp: resolve_def split: if_splits option.splits\<close>)
  qed
qed simp

text \<open>
  \<^verbatim>\<open>BuildLocalIndexToRegistrationMapping\<close> succeeds exactly if every operator code has a
  registration, and then the table maps the index of each code to it: the memory reserved for the
  unresolved operators is enough, so no pointer into it dangles.
\<close>

theorem opcodes_resolved:
  assumes "fb_operator_codes m = Some opcodes"
  shows "case BuildLocalIndexToRegistrationMapping m b of (st, b') \<Rightarrow>
     (st = kTfLiteOk \<longleftrightarrow> (\<forall>c\<in>set opcodes. resolve (ib_resolver b) c \<noteq> None))
   \<and> (st = kTfLiteOk \<longrightarrow> map (\<lambda>p. Option.bind p (deref b')) (flatbuffer_op_index_to_registration b')
        = map (resolve (ib_resolver b)) opcodes)"
proof -
  let ?b = "b\<lparr>flatbuffer_op_index_to_registration := [],
      unresolved_custom_ops := rv_reserve (length (custom_opcodes opcodes)) (rv_clear (unresolved_custom_ops b))\<rparr>"
  obtain st b' where eq: "map_opcodes opcodes ?b = (st, b')" by fastforce
  have "BuildLocalIndexToRegistrationMapping m b = (st, b')"
    using eq assms by (simp add: BuildLocalIndexToRegistrationMapping_def)
  moreover have "rv_elements (unresolved_custom_ops ?b) = []"
    "length (custom_opcodes opcodes) \<le> rv_capacity (unresolved_custom_ops ?b)" "registrations ?b = []"
    by (simp_all add: rv_reserve_def rv_clear_def registrations_def)
  ultimately show ?thesis
    using map_opcodes_resolves [OF eq] by (simp add: registrations_def)
qed

definition one_kernel_resolver :: op_resolver where
  "one_kernel_resolver =
     \<lparr>FindBuiltin = (\<lambda>op v. if op = BuiltinOperator_ADD \<and> v = 1 then Some example_registration else None),
      FindCustom = (\<lambda>n v. None), GetDelegates = (\<lambda>n. [7])\<rparr>"

definition two_codes :: "operator_code list" where
  "two_codes = [CreateOperatorCode BuiltinOperator_ADD None 1,
     CreateOperatorCode BuiltinOperator_CUSTOM (Some ''Warp'') 1]"

definition two_code_model :: fb_model where
  "two_code_model = \<lparr>fb_model_version = 3, fb_operator_codes = Some two_codes, fb_subgraphs = None,
     fb_buffers = None, fb_metadata = None\<rparr>"

theorem opcodes_resolved_witness:
  "case BuildLocalIndexToRegistrationMapping two_code_model
     (InterpreterBuilder (Some two_code_model) one_kernel_resolver 0) of (st, b') \<Rightarrow>
     st = kTfLiteOk \<and> map (\<lambda>p. Option.bind p (deref b')) (flatbuffer_op_index_to_registration b')
        = [Some example_registration, Some (CreateUnresolvedCustomOp ''Warp'')]"
  using opcodes_resolved [of two_code_model two_codes "InterpreterBuilder (Some two_code_model) one_kernel_resolver 0"]
  by (simp add: two_code_model_def two_codes_def resolve_def one_kernel_resolver_def InterpreterBuilder_def
      GetRegistrationFromOpCode_def GetBuiltinCode_def CreateOperatorCode_def
      ConvertBuiltinCodeToDeprecatedBuiltinCode_def Let_def split: prod.splits)

section \<open>The tensors of the model\<close>

text \<open>
  How a tensor of the run-time represents a tensor of the model, said without the functions of the
  builder. First the types of elements: the enumerators of the schema and of \<^verbatim>\<open>c/common.h\<close> of the same
  name, with the width of an element in bytes (strings have no width).
\<close>

definition element_types :: "(int \<times> tflite_type \<times> nat) list" where
  "element_types =
     [(TensorType_FLOAT32, kTfLiteFloat32, 4), (TensorType_FLOAT16, kTfLiteFloat16, 2),
      (TensorType_INT32, kTfLiteInt32, 4), (TensorType_UINT8, kTfLiteUInt8, 1),
      (TensorType_INT64, kTfLiteInt64, 8), (TensorType_STRING, kTfLiteString, 0),
      (TensorType_BOOL, kTfLiteBool, 1), (TensorType_INT16, kTfLiteInt16, 2),
      (TensorType_COMPLEX64, kTfLiteComplex64, 8), (TensorType_INT8, kTfLiteInt8, 1),
      (TensorType_FLOAT64, kTfLiteFloat64, 8), (TensorType_COMPLEX128, kTfLiteComplex128, 16)]"

text \<open>A 64-bit number and its low 32 bits as a signed number.\<close>

definition narrowed :: "int \<Rightarrow> int \<Rightarrow> bool" where
  "narrowed z z' \<longleftrightarrow> - (2 ^ 31) \<le> z' \<and> z' < 2 ^ 31 \<and> z' mod 2 ^ 32 = z mod 2 ^ 32"

text \<open>
  No scales mean no quantization. Otherwise the scales, as many zero points and the dimension are
  taken over; one scale alone is also what the legacy parameters hold. A dimension that the shape
  does not have, and a number of scales that is neither one nor the size of that dimension, are
  not loaded.
\<close>

definition quantization_loaded :: "fb_quantization option \<Rightarrow> int list \<Rightarrow> tensor \<Rightarrow> bool" where
  "quantization_loaded src ds x \<longleftrightarrow>
     (let scales = (case Option.bind src fb_scale of None \<Rightarrow> [] | Some ss \<Rightarrow> ss);
          none = \<lparr>legacy_scale = 0, legacy_zero_point = 0\<rparr>
      in if scales = []
         then tensor_quantization x = \<lparr>quantization_kind = kTfLiteNoQuantization, quantization_details = None\<rparr>
           \<and> params x = none
         else \<exists>zs zs' d. Option.bind src fb_zero_point = Some zs \<and> d = fb_quantized_dimension (the src)
           \<and> length zs = length scales \<and> list_all2 narrowed zs zs'
           \<and> 0 \<le> d \<and> (ds \<noteq> [] \<longrightarrow> nat d < length ds
                \<and> (length scales = 1 \<or> int (length scales) = ds ! nat d mod 2 ^ 64))
           \<and> tensor_quantization x = \<lparr>quantization_kind = kTfLiteAffineQuantization,
                quantization_details = Some \<lparr>affine_scale = Some scales, affine_zero_point = Some zs',
                  affine_quantized_dimension = d\<rparr>\<rparr>
           \<and> params x = (if length scales = 1 then \<lparr>legacy_scale = scales ! 0, legacy_zero_point = zs' ! 0\<rparr>
                else none))"

text \<open>The numbers of an index vector, whatever their width in the model.\<close>

fun index_numbers :: "sparse_index_vector option \<Rightarrow> int list option" where
  "index_numbers (Some (Int32Vector xs)) = xs"
| "index_numbers (Some (Uint16Vector xs)) = xs"
| "index_numbers (Some (Uint8Vector xs)) = xs"
| "index_numbers _ = None"

fun dimension_loaded :: "fb_dimension_metadata \<Rightarrow> dimension_metadata \<Rightarrow> bool" where
  "dimension_loaded m (DimDense n) \<longleftrightarrow> fb_format m = DimensionType_DENSE \<and> n = fb_dense_size m"
| "dimension_loaded m (DimSparseCSR segs inds) \<longleftrightarrow> fb_format m = DimensionType_SPARSE_CSR
     \<and> segs \<noteq> None \<and> segs = index_numbers (fb_array_segments m)
     \<and> inds \<noteq> None \<and> inds = index_numbers (fb_array_indices m)"

definition sparsity_loaded :: "fb_sparsity option \<Rightarrow> sparsity option \<Rightarrow> bool" where
  "sparsity_loaded src y \<longleftrightarrow> (case (src, y) of
     (None, None) \<Rightarrow> True
   | (Some f, Some sp) \<Rightarrow> fb_traversal_order f \<noteq> None \<and> traversal_order sp = fb_traversal_order f
       \<and> block_map sp = fb_block_map f
       \<and> (case fb_dim_metadata f of None \<Rightarrow> False | Some ms \<Rightarrow> list_all2 dimension_loaded ms (dim_metadata sp))
   | _ \<Rightarrow> False)"

text \<open>The bytes that the model holds for a tensor: their address and number. Buffer 0 is no buffer.\<close>

definition constant_bytes :: "fb_buffer option list \<Rightarrow> fb_tensor \<Rightarrow> (nat \<times> nat) option" where
  "constant_bytes buffers t =
     (if fb_buffer t \<in> {1..<length buffers}
      then (case buffers ! fb_buffer t of
              Some (Some (a, n)) \<Rightarrow> if a = 0 \<or> n = 0 then None else Some (a, n) | _ \<Rightarrow> None)
      else None)"

definition tensor_loaded :: "nat \<Rightarrow> fb_buffer option list \<Rightarrow> fb_tensor \<Rightarrow> tensor \<Rightarrow> bool" where
  "tensor_loaded alloc buffers t x \<longleftrightarrow>
     (let ds = (case fb_shape t of None \<Rightarrow> [] | Some ds \<Rightarrow> ds)
      in \<exists>width. map_of element_types (fb_type t) = Some (tensor_type x, width)
         \<and> dims x = Some ds \<and> quantization_loaded (fb_tensor_quantization t) ds x
         \<and> (case constant_bytes buffers t of
              Some (a, n) \<Rightarrow> allocation_type x = kTfLiteMmapRo \<and> data_raw x = a \<and> allocation x = alloc
                \<and> sparsity_loaded (fb_tensor_sparsity t) (tensor_sparsity x)
            | None \<Rightarrow> data_raw x = 0 \<and> is_variable x = fb_is_variable t
                \<and> (positive_dims ds \<longrightarrow> bytes x = width * prod_list (map nat ds))
                \<and> allocation_type x = (if fb_type t = TensorType_STRING then kTfLiteDynamic
                     else if fb_is_variable t then kTfLiteArenaRwPersistent else kTfLiteArenaRw)))"

lemma element_types_converted:
  assumes "ConvertTensorType ty = (kTfLiteOk, type)"
  shows "\<exists>width. map_of element_types ty = Some (type, width) \<and> width < 2 ^ 64
      \<and> (if type = kTfLiteString then width = 0 else GetSizeOfType type = Some width)
      \<and> (type = kTfLiteString \<longleftrightarrow> ty = TensorType_STRING)"
  using assms by (simp add: ConvertTensorType_def element_types_def split: if_splits)

lemma narrowed_as_int: "narrowed z (as_int z)"
proof -
  have "take_bit 32 (signed_take_bit 31 z) = take_bit 32 z"
    by (rule take_bit_signed_take_bit) simp
  then show ?thesis
    using signed_take_bit_int_less_exp [of 31 z] signed_take_bit_int_greater_eq_minus_exp [of 31 z]
    by (simp add: narrowed_def as_int_def take_bit_eq_mod)
qed

lemma ParseQuantization_loaded:
  assumes "ParseQuantization src ds = (kTfLiteOk, tensor_quantization x)"
    and "params x = GetLegacyQuantization (tensor_quantization x)"
  shows "quantization_loaded src ds x"
proof (cases "\<exists>f s ss. src = Some f \<and> fb_scale f = Some (s # ss)")
  case True
  then obtain f s ss where f: "src = Some f" "fb_scale f = Some (s # ss)" by blast
  then obtain zs where zs: "fb_zero_point f = Some zs" "length zs = length (s # ss)"
      "0 \<le> fb_quantized_dimension f" "ds \<noteq> [] \<longrightarrow> nat (fb_quantized_dimension f) < length ds
        \<and> (length (s # ss) = 1 \<or> int (length (s # ss)) = ds ! nat (fb_quantized_dimension f) mod 2 ^ 64)"
      "tensor_quantization x = \<lparr>quantization_kind = kTfLiteAffineQuantization,
         quantization_details = Some \<lparr>affine_scale = Some (s # ss), affine_zero_point = Some (map as_int zs),
           affine_quantized_dimension = fb_quantized_dimension f\<rparr>\<rparr>"
    using assms(1) by (auto simp: ParseQuantization_def Let_def not_le split: option.splits if_splits)
  have "list_all2 narrowed zs (map as_int zs)"
    by (simp add: list_all2_conv_all_nth narrowed_as_int)
  then show ?thesis
    using f zs assms(2)
    by (cases ss) (auto simp: quantization_loaded_def Let_def GetLegacyQuantization_def length_Suc_conv)
next
  case False
  then have "tensor_quantization x = \<lparr>quantization_kind = kTfLiteNoQuantization, quantization_details = None\<rparr>"
    using assms(1) by (cases src) (auto simp: ParseQuantization_def Let_def neq_Nil_conv split: option.splits if_splits)
  then show ?thesis
    using False assms(2)
    by (cases src) (auto simp: quantization_loaded_def Let_def GetLegacyQuantization_def neq_Nil_conv split: option.splits)
qed

lemma copied_index_vector: "copy_index_vector v = (kTfLiteOk, xs) \<Longrightarrow> xs \<noteq> None \<and> xs = index_numbers (Some v)"
  by (cases v) (auto simp: copy_index_vector_def Copy_def split: option.splits)

lemma ParseSparseIndexVector_loaded:
  assumes "ParseSparseIndexVector m = (kTfLiteOk, segs, inds)"
  shows "segs \<noteq> None \<and> segs = index_numbers (fb_array_segments m) \<and> inds \<noteq> None \<and> inds = index_numbers (fb_array_indices m)"
  using assms copied_index_vector
  by (fastforce simp: ParseSparseIndexVector_def split: option.splits prod.splits if_splits)

lemma parse_dimensions_loaded:
  "parse_dimensions ms = (kTfLiteOk, ds) \<Longrightarrow> list_all2 dimension_loaded ms ds"
proof (induction ms arbitrary: ds)
  case (Cons m ms)
  show ?case
  proof (cases "fb_format m = DimensionType_DENSE")
    case True
    then show ?thesis
      using Cons by (cases "parse_dimensions ms") auto
  next
    case False
    obtain segs inds where v: "ParseSparseIndexVector m = (kTfLiteOk, segs, inds)" "fb_format m = DimensionType_SPARSE_CSR"
      using Cons.prems False by (auto split: if_splits prod.splits)
    then have "dimension_loaded m (DimSparseCSR segs inds)"
      using ParseSparseIndexVector_loaded [OF v(1)] unfolding dimension_loaded.simps by blast
    then show ?thesis
      using Cons v by (cases "parse_dimensions ms") (auto simp del: dimension_loaded.simps)
  qed
qed simp

lemma ParseSparsity_loaded: "ParseSparsity src = (kTfLiteOk, y) \<Longrightarrow> sparsity_loaded src y"
  using parse_dimensions_loaded
  by (fastforce simp: ParseSparsity_def sparsity_loaded_def split: option.splits prod.splits)

lemma constant_bytes_read:
  assumes "get_readonly_data buffers t = (kTfLiteOk, a, n)"
  shows "constant_bytes buffers t = (if a = 0 then None else Some (a, n))"
  using assms by (auto simp: get_readonly_data_def constant_bytes_def split: if_splits option.splits prod.splits)

lemma BytesRequired_size:
  assumes "positive_dims ds" "GetSizeOfType ty = Some width" "width < 2 ^ 64" "BytesRequired ty ds = Some n"
  shows "n = width * prod_list (map nat ds)"
proof -
  let ?c = "BytesRequired_count ds 1"
  have ok: "fst ?c = kTfLiteOk" "fst (MultiplyAndCheckOverflow (of_nat width) (snd ?c)) = kTfLiteOk"
    "n = unat (snd (MultiplyAndCheckOverflow (of_nat width) (snd ?c)))"
    using assms(2,4) by (auto simp: BytesRequired_def split_def Let_def split: if_splits)
  have "unat (of_nat width :: 64 word) = width"
    using assms(3) by (simp add: unat_of_nat)
  then show ?thesis
    using ok BytesRequired_count_exact [OF assms(1), of 1] MultiplyAndCheckOverflow_exact [OF ok(2)] by simp
qed

text \<open>What setting tensors does not touch.\<close>

definition same_graph :: "'w subgraph \<Rightarrow> 'w subgraph \<Rightarrow> bool" where
  "same_graph s s' \<longleftrightarrow> length (tensors s') = length (tensors s)
     \<and> nodes_and_registration s' = nodes_and_registration s \<and> execution_plan s' = execution_plan s
     \<and> sg_inputs s' = sg_inputs s \<and> sg_outputs s' = sg_outputs s \<and> consistent s' = consistent s"

lemma same_graph_refl [simp]: "same_graph s s"
  by (simp add: same_graph_def)

lemma same_graph_trans: "same_graph s t \<Longrightarrow> same_graph t u \<Longrightarrow> same_graph s u"
  by (simp add: same_graph_def)

definition sets_tensor :: "nat \<Rightarrow> (tensor \<Rightarrow> bool) \<Rightarrow> 'w subgraph \<Rightarrow> 'w subgraph \<Rightarrow> bool" where
  "sets_tensor i Q s s' \<longleftrightarrow> same_graph s s' \<and> i < length (tensors s)
     \<and> Q (tensors s' ! i) \<and> tensors s' = (tensors s)[i := tensors s' ! i]"

lemma ReadOnly_sets:
  assumes "SetTensorParametersReadOnly (int i) ty nm ds q buf n alloc sp s = ok s'"
  shows "sets_tensor i (\<lambda>x. tensor_type x = ty \<and> dims x = Some ds \<and> tensor_quantization x = q
      \<and> params x = GetLegacyQuantization q \<and> allocation_type x = kTfLiteMmapRo \<and> data_raw x = buf \<and> allocation x = alloc
      \<and> tensor_sparsity x = sp) s s'"
  using assms
  by (auto simp: SetTensorParametersReadOnly_def ensure_def ensure_index_def Let_def sets_tensor_def
      same_graph_def set_tensor_def TfLiteTensorReset_def TfLiteTensorFree_def TfLiteTensorDataFree_def
      TfLiteQuantizationFree_def split: if_splits)

lemma ReadWrite_sets:
  assumes "SetTensorParametersReadWrite (int i) ty nm ds q var sig s = ok s'"
  shows "sets_tensor i (\<lambda>x. tensor_type x = ty \<and> dims x = Some ds \<and> tensor_quantization x = q
      \<and> params x = GetLegacyQuantization q \<and> data_raw x = 0 \<and> is_variable x = var
      \<and> (if ty = kTfLiteString then bytes x = 0 else BytesRequired ty ds = Some (bytes x))
      \<and> allocation_type x = (if ty = kTfLiteString then kTfLiteDynamic
          else if var then kTfLiteArenaRwPersistent else kTfLiteArenaRw)) s s'"
  using assms
  by (auto simp: SetTensorParametersReadWrite_def ensure_def ensure_index_def Let_def sets_tensor_def
      same_graph_def set_tensor_def TfLiteTensorReset_def TfLiteTensorFree_def TfLiteTensorDataFree_def
      TfLiteQuantizationFree_def split: if_splits)

lemma set_parsed_tensor_ok:
  assumes "set_parsed_tensor alloc i t type buf n status s = ok s'"
    and "get_readonly_data buffers t = (kTfLiteOk, buf, n)" "ConvertTensorType (fb_type t) = (kTfLiteOk, type)"
  shows "status = kTfLiteOk" "sets_tensor i (tensor_loaded alloc buffers t) s s'"
proof -
  let ?ds = "FlatBufferIntArrayToVector (fb_shape t)"
  obtain q where q: "ParseQuantization (fb_tensor_quantization t) ?ds = (kTfLiteOk, q)"
    using assms(1) by (cases "ParseQuantization (fb_tensor_quantization t) ?ds")
      (auto simp: set_parsed_tensor_def Let_def split: if_splits prod.splits)
  obtain sst sp where sp: "ParseSparsity (fb_tensor_sparsity t) = (sst, sp)" by fastforce
  show "status = kTfLiteOk"
    using assms(1) q sp by (auto simp: set_parsed_tensor_def Let_def split: if_splits)
  obtain width where type: "map_of element_types (fb_type t) = Some (type, width)" "width < 2 ^ 64"
    "if type = kTfLiteString then width = 0 else GetSizeOfType type = Some width"
    "type = kTfLiteString \<longleftrightarrow> fb_type t = TensorType_STRING"
    using element_types_converted [OF assms(3)] by blast
  note const = constant_bytes_read [OF assms(2)]
  have ds: "?ds = (case fb_shape t of None \<Rightarrow> [] | Some ds \<Rightarrow> ds)"
    by (simp add: FlatBufferIntArrayToVector_def)
  have quant: "quantization_loaded (fb_tensor_quantization t) ?ds x"
    if "tensor_quantization x = q" "params x = GetLegacyQuantization q" for x
    using ParseQuantization_loaded [of "fb_tensor_quantization t" ?ds x] q that by simp
  show "sets_tensor i (tensor_loaded alloc buffers t) s s'"
  proof (cases "buf = 0")
    case True
    then have "SetTensorParametersReadWrite (int i) type (Some (get_name t)) ?ds q (fb_is_variable t)
        (case fb_shape_signature t of Some xs \<Rightarrow> xs | None \<Rightarrow> []) s = ok s'"
      using assms(1) q by (auto simp: set_parsed_tensor_def Let_def split: if_splits)
    moreover have "tensor_loaded alloc buffers t x"
      if "tensor_type x = type" "dims x = Some ?ds" "tensor_quantization x = q" "params x = GetLegacyQuantization q"
        "data_raw x = 0" "is_variable x = fb_is_variable t"
        "if type = kTfLiteString then bytes x = 0 else BytesRequired type ?ds = Some (bytes x)"
        "allocation_type x = (if type = kTfLiteString then kTfLiteDynamic
            else if fb_is_variable t then kTfLiteArenaRwPersistent else kTfLiteArenaRw)" for x
    proof -
      have "bytes x = width * prod_list (map nat ?ds)" if "positive_dims ?ds"
        using BytesRequired_size [OF that _ type(2)] type(3)
          \<open>if type = kTfLiteString then bytes x = 0 else BytesRequired type ?ds = Some (bytes x)\<close>
        by (cases "type = kTfLiteString") auto
      then show ?thesis
        using that type(1,4) const True quant [of x] unfolding tensor_loaded_def ds Let_def by auto
    qed
    ultimately show ?thesis
      using ReadWrite_sets unfolding sets_tensor_def by blast
  next
    case False
    then have run: "SetTensorParametersReadOnly (int i) type (Some (get_name t)) ?ds q buf n alloc sp s = ok s'"
      and sst: "sst = kTfLiteOk"
      using assms(1) q sp by (auto simp: set_parsed_tensor_def Let_def split: if_splits)
    have "tensor_loaded alloc buffers t x"
      if "tensor_type x = type" "dims x = Some ?ds" "tensor_quantization x = q" "params x = GetLegacyQuantization q"
        "allocation_type x = kTfLiteMmapRo" "data_raw x = buf" "allocation x = alloc" "tensor_sparsity x = sp" for x
      using that type(1) const False quant [of x] ParseSparsity_loaded [OF sp [unfolded sst]]
      unfolding tensor_loaded_def ds Let_def by auto
    then show ?thesis
      using ReadOnly_sets [OF run] unfolding sets_tensor_def by blast
  qed
qed

definition float_count :: "fb_tensor list \<Rightarrow> int" where
  "float_count ts = int (length (filter (\<lambda>t. fb_type t = TensorType_FLOAT32) ts))"

lemma ConvertTensorType_float:
  "ConvertTensorType ty = (kTfLiteOk, type) \<Longrightarrow> type = kTfLiteFloat32 \<longleftrightarrow> ty = TensorType_FLOAT32"
  by (auto simp: ConvertTensorType_def split: if_splits)

lemma get_readonly_data_status:
  "fst (get_readonly_data buffers t) \<in> {kTfLiteOk, kTfLiteError}"
  by (auto simp: get_readonly_data_def split: option.splits prod.splits)

lemma parse_tensors_ok:
  assumes "parse_tensors alloc buffers i ts status (n, s) = ok (n', s')"
  shows "status = kTfLiteOk \<and> n' = n + float_count ts \<and> same_graph s s'
    \<and> i + length ts \<le> length (tensors s') + (if ts = [] then i else 0)
    \<and> (\<forall>j<i. j < length (tensors s) \<longrightarrow> tensors s' ! j = tensors s ! j)
    \<and> (\<forall>j<length ts. tensor_loaded alloc buffers (ts ! j) (tensors s' ! (i + j)))"
  using assms
proof (induction ts arbitrary: i status n s)
  case (Cons t ts)
  obtain cst type where c: "ConvertTensorType (fb_type t) = (cst, type)" by fastforce
  obtain rst buf sz where r: "get_readonly_data buffers t = (rst, buf, sz)" by (metis prod_cases3)
  have cst: "cst = kTfLiteOk"
    using Cons.prems c Cons.IH by (auto split: if_splits)
  have rst: "rst = kTfLiteOk"
    using Cons.prems c r cst get_readonly_data_status [of buffers t] by (auto simp: Let_def split: if_splits)
  obtain st1 s1 where s1: "set_parsed_tensor alloc i t type buf sz status s = Some (st1, s1)"
    and rest: "parse_tensors alloc buffers (Suc i) ts st1 (if type = kTfLiteFloat32 then n + 1 else n, s1) = ok (n', s')"
    using Cons.prems c r cst rst by (auto simp: Let_def split: bind_splits)
  note IH = Cons.IH [OF rest]
  then have ok1: "set_parsed_tensor alloc i t type buf sz status s = ok s1" using s1 by simp
  note step = set_parsed_tensor_ok [OF ok1 r [unfolded rst] c [unfolded cst]]
  define x where "x = tensors s1 ! i"
  then have x: "tensor_loaded alloc buffers t x" "tensors s1 = (tensors s)[i := x]" "same_graph s s1"
    "i < length (tensors s)"
    using step(2) unfolding sets_tensor_def by blast+
  have len: "length (tensors s') = length (tensors s)" using IH x by (simp add: same_graph_def)
  have at_i: "tensors s' ! i = x" using IH x by (simp add: same_graph_def)
  have "tensor_loaded alloc buffers ((t # ts) ! j) (tensors s' ! (i + j))" if "j < length (t # ts)" for j
    using that IH x(1) at_i by (cases j) auto
  moreover have "n' = n + float_count (t # ts)"
    using IH ConvertTensorType_float [OF c [unfolded cst]] by (auto simp: float_count_def)
  moreover have "\<forall>j<i. j < length (tensors s) \<longrightarrow> tensors s' ! j = tensors s ! j"
    using IH x(2,3) by (auto simp: same_graph_def)
  ultimately show ?case
    using IH step(1) same_graph_trans [OF x(3)] x(4) len by (auto split: if_splits)
qed (auto simp: float_count_def)

section \<open>The nodes of the model\<close>

text \<open>
  What \<^verbatim>\<open>init\<close> of a kernel may do to the graph under construction: add tensors, and set up whatever
  else is its own.
\<close>

definition init_only_adds_tensors :: "'w env \<Rightarrow> bool" where
  "init_only_adds_tensors E \<longleftrightarrow> (\<forall>k b n s. let s' = snd (init_kernel E k b n s)
     in length (tensors s) \<le> length (tensors s') \<and> state s' = state s
        \<and> nodes_and_registration s' = nodes_and_registration s \<and> execution_plan s' = execution_plan s
        \<and> sg_inputs s' = sg_inputs s \<and> sg_outputs s' = sg_outputs s \<and> consistent s' = consistent s)"

text \<open>What is read off a node, and what an operator of the model says.\<close>

type_synonym node_view = "int list \<times> int list \<times> int list \<times> registration option"

definition node_view :: "node \<times> registration \<Rightarrow> node_view" where
  "node_view = (\<lambda>(nd, r). (inputs nd, outputs nd, intermediates nd, Some r))"

definition operator_view :: "(int \<Rightarrow> registration option) \<Rightarrow> fb_operator \<Rightarrow> node_view" where
  "operator_view reg op =
     (FlatBufferIntArrayToVector (fb_op_inputs op), FlatBufferIntArrayToVector (fb_op_outputs op),
      FlatBufferIntArrayToVector (fb_op_intermediates op), reg (as_int (int (fb_opcode_index op))))"

definition registration_at :: "interpreter_builder \<Rightarrow> int \<Rightarrow> registration option" where
  "registration_at b index =
     Option.bind (flatbuffer_op_index_to_registration b ! nat index) (deref b)"

text \<open>
  \<open>extended s s' vs\<close>: between the two states nodes \<open>vs\<close> were added, or the graph was found to be
  inconsistent.
\<close>

definition extended :: "'w subgraph \<Rightarrow> 'w subgraph \<Rightarrow> node_view list \<Rightarrow> bool" where
  "extended s s' vs \<longleftrightarrow> (state s \<noteq> kStateInvokableAndImmutable \<longrightarrow>
     state s' \<noteq> kStateInvokableAndImmutable \<and> length (tensors s) \<le> length (tensors s')
     \<and> sg_inputs s' = sg_inputs s \<and> sg_outputs s' = sg_outputs s
     \<and> (consistent s' \<longrightarrow> consistent s
          \<and> map node_view (nodes_and_registration s') = map node_view (nodes_and_registration s) @ vs
          \<and> execution_plan s' = execution_plan s
              @ map int [length (nodes_and_registration s)..<length (nodes_and_registration s')]))"

lemma extended_refl: "extended s s []"
  by (simp add: extended_def)

lemma extended_trans:
  assumes "extended s t us" "extended t u vs" shows "extended s u (us @ vs)"
proof -
  have len: "length (nodes_and_registration x) \<le> length (nodes_and_registration y)"
    if "map node_view (nodes_and_registration y) = map node_view (nodes_and_registration x) @ ws"
    for x y :: "'a subgraph" and ws
    using arg_cong [OF that, of length] by simp
  have upt: "[i..<k] = [i..<j] @ [j..<k]" if "i \<le> j" "j \<le> k" for i j k :: nat
    using upt_add_eq_append [OF that(1), of "k - j"] that(2) by simp
  show ?thesis
    using assms len [of t s us] len [of u t vs]
      upt [of "length (nodes_and_registration s)" "length (nodes_and_registration t)"
          "length (nodes_and_registration u)"]
    by (auto simp: extended_def)
qed

lemma OpInit_quiet:
  assumes "init_only_adds_tensors E" "OpInit E r buf n s = Some (ud, s')"
  shows "length (tensors s) \<le> length (tensors s') \<and> state s' = state s
        \<and> nodes_and_registration s' = nodes_and_registration s \<and> execution_plan s' = execution_plan s
        \<and> sg_inputs s' = sg_inputs s \<and> sg_outputs s' = sg_outputs s \<and> consistent s' = consistent s"
proof (cases "op_init r")
  case (Kernel k)
  then have "s' = snd (init_kernel E k buf n s)" using assms(2) by (simp add: OpInit_def)
  then show ?thesis using assms(1) by (simp add: init_only_adds_tensors_def Let_def)
qed (use assms(2) in \<open>auto simp: OpInit_def\<close>)

lemma append_node_extended:
  assumes E: "init_only_adds_tensors E" and a: "append_node E ins outs mid dt dn bd r s = Some (st, j, s')"
  shows "extended s s' [(ins, outs, mid, Some r)]"
proof -
  let ?nd = "(fst empty_node)\<lparr>inputs := ins, outputs := outs, intermediates := mid, temporaries := []\<rparr>"
  let ?s = "s\<lparr>nodes_and_registration := nodes_and_registration s @ [(?nd, snd empty_node)]\<rparr>"
  let ?fill = "\<lambda>ud nd. nd\<lparr>user_data := ud, builtin_data := bd,
     custom_initial_data := (if builtin_code r = BuiltinOperator_CUSTOM then (dt, dn) else (0, 0)),
     node_delegate := None\<rparr>"
  obtain ud t nd rr nodes where t: "(if dt \<noteq> 0 then OpInit E r dt dn ?s else OpInit E r bd 0 ?s) = Some (ud, t)"
    and nd: "vec_at (nodes_and_registration t) (int (length (nodes_and_registration s))) = Some (nd, rr)"
    and nodes: "vec_set (nodes_and_registration t) (int (length (nodes_and_registration s))) (?fill ud nd, r) = Some nodes"
    and s': "s' = t\<lparr>nodes_and_registration := nodes,
       execution_plan := execution_plan t @ [int (length (nodes_and_registration s))]\<rparr>"
    using a by (auto simp: append_node_def Let_def split: bind_splits prod.splits)
  have q: "length (tensors s) \<le> length (tensors t) \<and> state t = state s
        \<and> nodes_and_registration t = nodes_and_registration ?s \<and> execution_plan t = execution_plan s
        \<and> sg_inputs t = sg_inputs s \<and> sg_outputs t = sg_outputs s \<and> consistent t = consistent s"
    using t OpInit_quiet [OF E, of r _ _ ?s ud t] by (cases "dt = 0") auto
  then have "nd = ?nd" "nodes = nodes_and_registration s @ [(?fill ud ?nd, r)]"
    using nd nodes by (auto simp: vec_at_def vec_set_def in_bounds_def)
  then show ?thesis
    using q by (simp add: s' extended_def node_view_def)
qed

lemma AddNode_extended:
  assumes E: "init_only_adds_tensors E"
    and a: "AddNodeWithParameters E ins outs mid dt dn bd r (j, s) = Some (st, j', s')"
  shows "extended s s' [(ins, outs, mid, Some r)]"
proof -
  have inconsistent: "extended s (s\<lparr>state := x, consistent := False\<rparr>) vs"
    if "x \<noteq> kStateInvokableAndImmutable" for x vs
    using that by (simp add: extended_def)
  show ?thesis
    using a append_node_extended [OF E, of ins outs mid dt dn bd r "s\<lparr>state := kStateUninvokable\<rparr>" st j' s']
      inconsistent [of kStateUninvokable]
    by (auto simp: AddNodeWithParameters_def Let_def CheckTensorIndices_cases
        CheckInputAndOutputForOverlap_cases extended_def split: if_splits)
qed

lemma ParseNodes_extended:
  assumes E: "init_only_adds_tensors E" and p: "ParseNodes E P b ops status s = ok s'"
  shows "status = kTfLiteOk \<and> extended s s' (map (operator_view (registration_at b)) ops)
    \<and> (\<forall>op\<in>set ops. 0 \<le> as_int (int (fb_opcode_index op))
        \<and> nat (as_int (int (fb_opcode_index op))) < length (flatbuffer_op_index_to_registration b))"
  using p
proof (induction ops arbitrary: status s)
  case (Cons op ops)
  let ?i = "as_int (int (fb_opcode_index op))"
  let ?add = "AddNodeWithParameters E (FlatBufferIntArrayToVector (fb_op_inputs op))
      (FlatBufferIntArrayToVector (fb_op_outputs op)) (FlatBufferIntArrayToVector (fb_op_intermediates op))"
  have i: "0 \<le> ?i" "nat ?i < length (flatbuffer_op_index_to_registration b)"
    using Cons.prems Cons.IH [of kTfLiteError s] by (auto simp: Let_def split: if_splits)
  then obtain p where p: "flatbuffer_op_index_to_registration b ! nat ?i = Some p"
    using Cons.prems Cons.IH [of kTfLiteError s]
    by (cases "flatbuffer_op_index_to_registration b ! nat ?i") (auto simp: Let_def)
  obtain r where r: "deref b p = Some r"
    using Cons.prems i p by (cases "deref b p") (auto simp: Let_def)
  obtain dt n bd w st j s1 where s1: "?add dt n bd r (0, s\<lparr>world := w\<rparr>) = Some (st, j, s1)"
    and rest: "ParseNodes E P b ops status s1 = ok s'"
  proof (cases "builtin_code r = BuiltinOperator_CUSTOM")
    case True
    then show ?thesis
      using Cons.prems i p r that [of _ _ 0 "world s"]
      by (auto simp: Let_def split: bind_splits prod.splits option.splits)
  next
    case False
    obtain st w bd where parse: "parse_op_data P op (builtin_code r) (world s) = (st, bd, w)"
      by (metis prod_cases3)
    then show ?thesis
      using Cons.prems i p r False that [of 0 0 bd w]
      by (auto simp: Let_def split: bind_splits prod.splits if_splits)
  qed
  have view: "operator_view (registration_at b) op = (FlatBufferIntArrayToVector (fb_op_inputs op),
      FlatBufferIntArrayToVector (fb_op_outputs op), FlatBufferIntArrayToVector (fb_op_intermediates op), Some r)"
    using p r by (simp add: operator_view_def registration_at_def)
  have "extended s s1 [operator_view (registration_at b) op]"
    using AddNode_extended [OF E s1] unfolding view by (simp add: extended_def)
  from extended_trans [OF this] show ?case
    using Cons.IH [OF rest] i by simp
qed (simp add: extended_refl)

section \<open>A subgraph of the model\<close>

text \<open>A subgraph into which nothing has been loaded.\<close>

definition blank :: "'w subgraph \<Rightarrow> bool" where
  "blank s \<longleftrightarrow> state s \<noteq> kStateInvokableAndImmutable \<and> tensors s = [] \<and> nodes_and_registration s = []
     \<and> execution_plan s = [] \<and> subgraph_inv s"

lemma blank_updates [simp]:
  "blank (s\<lparr>external_contexts := c\<rparr>) = blank s" "blank (s\<lparr>world := w\<rparr>) = blank s"
  "blank (s\<lparr>external_contexts := c, world := w\<rparr>) = blank s"
  by (simp_all add: blank_def)

definition tensors_loaded :: "nat \<Rightarrow> fb_buffer option list \<Rightarrow> fb_tensor list \<Rightarrow> 'w subgraph \<Rightarrow> bool" where
  "tensors_loaded alloc buffers ts s \<longleftrightarrow> length ts \<le> length (tensors s)
     \<and> (\<forall>j<length ts. tensor_loaded alloc buffers (ts ! j) (tensors s ! j))"

text \<open>The graph of the run-time is the graph of the model.\<close>

definition same_as_model :: "(int \<Rightarrow> registration option) \<Rightarrow> fb_subgraph \<Rightarrow> 'w subgraph \<Rightarrow> bool" where
  "same_as_model reg sg s \<longleftrightarrow>
     map node_view (nodes_and_registration s) = map (operator_view reg) (the (fb_operators sg))
   \<and> execution_plan s = map int [0..<length (the (fb_operators sg))]
   \<and> sg_inputs s = FlatBufferIntArrayToVector (fb_inputs sg)
   \<and> sg_outputs s = FlatBufferIntArrayToVector (fb_outputs sg)"

definition opcodes_in_table :: "interpreter_builder \<Rightarrow> fb_subgraph \<Rightarrow> bool" where
  "opcodes_in_table b sg \<longleftrightarrow> (\<forall>op\<in>set (the (fb_operators sg)). 0 \<le> as_int (int (fb_opcode_index op))
     \<and> nat (as_int (int (fb_opcode_index op))) < length (flatbuffer_op_index_to_registration b))"

definition subgraph_loaded ::
  "interpreter_builder \<Rightarrow> fb_buffer option list \<Rightarrow> fb_subgraph \<Rightarrow> int \<Rightarrow> 'w subgraph \<Rightarrow> bool" where
  "subgraph_loaded b buffers sg n s \<longleftrightarrow> fb_operators sg \<noteq> None \<and> fb_tensors sg \<noteq> None
     \<and> n = float_count (the (fb_tensors sg))
     \<and> tensors_loaded (ib_allocation b) buffers (the (fb_tensors sg)) s
     \<and> opcodes_in_table b sg
     \<and> (consistent s \<longrightarrow> same_as_model (registration_at b) sg s)"

lemma ignoring_status_ok:
  "ignoring_status r = ok s \<longleftrightarrow> (\<exists>st. r = Some (st, s))"
  by (auto simp: ignoring_status_def)

lemma lift_ok:
  "map_option (map_prod id (Pair n)) r = Some (st, n', s) \<longleftrightarrow> r = Some (st, s) \<and> n' = n"
  by auto

lemma load_subgraph_ok:
  assumes E: "init_only_adds_tensors E" and s: "blank s"
    and l: "load_subgraph E P b buffers sg (n, s) = ok (n', s')"
  shows "subgraph_loaded b buffers sg n' s'"
proof -
  obtain ops ts where sg: "fb_operators sg = Some ops" "fb_tensors sg = Some ts"
    using l by (auto simp: load_subgraph_def split: option.splits)
  obtain s1 st2 s2 st3 s3 s4 s5 vs st6 where
    s1: "snd (AddTensors (as_int (int (length ts))) s) = ok s1"
    and s2: "SetInputs (FlatBufferIntArrayToVector (fb_inputs sg)) s1 = Some (st2, s2)"
    and s3: "SetOutputs (FlatBufferIntArrayToVector (fb_outputs sg)) s2 = Some (st3, s3)"
    and s4: "ParseNodes E P b ops kTfLiteOk s3 = ok s4"
    and s5: "ParseTensors (ib_allocation b) buffers ts (n, s4) = ok (n', s5)"
    and s6: "SetVariables vs s5 = Some (st6, s')"
    using l sg by (fastforce simp: load_subgraph_def ensure_status_ok_iff lift_ok ignoring_status_ok Let_def)
  have 1: "state s1 \<noteq> kStateInvokableAndImmutable" "nodes_and_registration s1 = []" "execution_plan s1 = []"
    using s1 s by (auto simp: AddTensors_def Let_def blank_def)
  have 3: "state s3 \<noteq> kStateInvokableAndImmutable \<and> nodes_and_registration s3 = [] \<and> execution_plan s3 = []
      \<and> (consistent s3 \<longrightarrow> sg_inputs s3 = FlatBufferIntArrayToVector (fb_inputs sg)
           \<and> sg_outputs s3 = FlatBufferIntArrayToVector (fb_outputs sg))"
    using s2 s3 1 by (auto simp: SetInputs_def SetOutputs_def CheckTensorIndices_cases split: if_splits)
  note nodes = ParseNodes_extended [OF E s4]
  note ts = parse_tensors_ok [OF s5 [unfolded ParseTensors_def snd_conv]]
  have 6: "tensors s' = tensors s5 \<and> nodes_and_registration s' = nodes_and_registration s5
      \<and> execution_plan s' = execution_plan s5 \<and> sg_inputs s' = sg_inputs s5
      \<and> sg_outputs s' = sg_outputs s5 \<and> (consistent s' \<longrightarrow> consistent s5)"
    using s6 by (auto simp: SetVariables_def CheckTensorIndices_cases split: if_splits)
  have "same_as_model (registration_at b) sg s'" if "consistent s'"
  proof -
    have c: "consistent s4" using that 6 ts by (simp add: same_graph_def)
    then have v: "map node_view (nodes_and_registration s4) = map (operator_view (registration_at b)) ops"
      and p: "execution_plan s4 = map int [0..<length (nodes_and_registration s4)]"
      and io: "consistent s3" "sg_inputs s4 = sg_inputs s3" "sg_outputs s4 = sg_outputs s3"
      using nodes 3 by (auto simp: extended_def)
    have "length (nodes_and_registration s4) = length ops" using arg_cong [OF v, of length] by simp
    then show ?thesis
      using v p io 3 6 ts sg by (simp add: same_as_model_def same_graph_def)
  qed
  then show ?thesis
    using nodes ts 6 sg by (auto simp: subgraph_loaded_def tensors_loaded_def opcodes_in_table_def)
qed

lemma ParseNodes_keeps:
  assumes E: "respectful E" shows "subgraph_inv s \<Longrightarrow> keeps subgraph_inv (ParseNodes E P b ops status s)"
proof (induction ops arbitrary: status s)
  case (Cons op ops)
  have add: "subgraph_inv s'"
    if "AddNodeWithParameters E ins outs mid dt n bd r (0, s\<lparr>world := w\<rparr>) = Some (st, j, s')"
    for ins outs mid dt n bd r w st j s'
    using keepsD [OF AddNode_grows [OF E, of 0] that] Cons.prems by (simp add: grows_def)
  have add': "subgraph_inv s'"
    if "AddNodeWithParameters E ins outs mid dt n bd r (0, s) = Some (st, j, s')"
    for ins outs mid dt n bd r st j s'
    using add [of ins outs mid dt n bd r "world s"] that by simp
  show ?case
    using Cons.prems
    by (auto simp: Let_def intro!: keeps Cons.IH split: option.splits prod.splits dest: add add')
qed (simp add: keeps_Some)

lemma set_parsed_tensor_keeps:
  "subgraph_inv s \<Longrightarrow> keeps subgraph_inv (set_parsed_tensor alloc i t type buf n status s)"
  using tensor_ops_keep(1,2) [of s]
  by (auto simp: set_parsed_tensor_def Let_def keeps_def split: prod.splits)

lemma parse_tensors_keeps:
  "subgraph_inv (snd ns) \<Longrightarrow>
   keeps (\<lambda>ns. subgraph_inv (snd ns)) (parse_tensors alloc buffers i ts status ns)"
proof (induction ts arbitrary: i status ns)
  case (Cons t ts)
  then show ?case
    by (auto simp: Let_def intro!: keeps Cons.IH split: prod.splits
        dest: keepsD [OF set_parsed_tensor_keeps])
qed (simp add: keeps_Some)

lemma load_subgraph_inv:
  assumes E: "respectful E" and s: "blank s" and small: "length (the (fb_tensors sg)) < 2 ^ 31"
    and l: "load_subgraph E P b buffers sg (n, s) = ok (n', s')"
  shows "subgraph_inv s'"
proof -
  let ?I = "\<lambda>(n, s). subgraph_inv s"
  have lift: "keeps ?I (map_option (map_prod id (Pair n)) r)" if "keeps subgraph_inv r"
    for r :: "'a subgraph result" and n :: int
    using that by (auto simp: keeps_def)
  have ignore: "keeps subgraph_inv (ignoring_status r)" if "keeps subgraph_inv r" for r :: "'a subgraph result"
    using that by (auto simp: keeps_def ignoring_status_def)
  obtain ops ts where sg: "fb_operators sg = Some ops" "fb_tensors sg = Some ts"
    using l by (auto simp: load_subgraph_def split: option.splits)
  have n: "as_int (int (length ts)) = int (length ts)"
    using small sg by (simp add: as_int_def signed_take_bit_int_eq_self)
  have add: "keeps subgraph_inv (snd (AddTensors (as_int (int (length ts))) s))"
    unfolding n by (rule AddTensors_keeps) (use s small sg in \<open>simp_all add: blank_def\<close>)
  have tensors: "keeps ?I (ParseTensors a buffers ts ns)" if "subgraph_inv (snd ns)" for a ns
    using parse_tensors_keeps [of "(0, snd ns)"] that
    by (simp add: ParseTensors_def case_prod_unfold)
  have "keeps ?I (load_subgraph E P b buffers sg (n, s))"
    unfolding load_subgraph_def sg Let_def
    by (auto intro!: keeps lift ignore add tensors ParseNodes_keeps [OF E])
  from keepsD [OF this l] show ?thesis by simp
qed

section \<open>The interpreter of the model\<close>

text \<open>
  The loop over the subgraphs: what holds of each one that was loaded, and that nothing else of
  the interpreter changes.
\<close>

definition only_subgraphs_differ :: "'w interpreter \<Rightarrow> 'w interpreter \<Rightarrow> bool" where
  "only_subgraphs_differ it it' \<longleftrightarrow> (\<exists>ss c w. it' = it\<lparr>subgraphs := ss, shared_contexts := c, shared_world := w\<rparr>)"

lemma only_subgraphs_differ_refl: "only_subgraphs_differ it it"
  unfolding only_subgraphs_differ_def
  by (rule exI [of _ "subgraphs it"], rule exI [of _ "shared_contexts it"],
      rule exI [of _ "shared_world it"]) simp

lemma only_subgraphs_differ_trans:
  "only_subgraphs_differ it it' \<Longrightarrow> only_subgraphs_differ it' it'' \<Longrightarrow> only_subgraphs_differ it it''"
  by (force simp: only_subgraphs_differ_def)

lemma load_loop:
  assumes step: "\<And>sg n s n' s'. sg \<in> set sgs \<Longrightarrow> blank s \<Longrightarrow>
       load_subgraph E P b buffers sg (n, s) = ok (n', s') \<Longrightarrow> Q sg n' s'"
    and loop: "for_each (load_into E P b buffers) (enumerate k sgs) (n, it) = ok (n', it')"
    and len: "length (subgraphs it) = k + length sgs"
    and blank: "\<forall>j<length sgs. blank (subgraphs it ! (k + j))"
  shows "only_subgraphs_differ it it' \<and> length (subgraphs it') = length (subgraphs it)
    \<and> (\<forall>j<k. subgraphs it' ! j = subgraphs it ! j)
    \<and> (\<forall>j<length sgs. \<exists>m. Q (sgs ! j) m (subgraphs it' ! (k + j)))
    \<and> (sgs \<noteq> [] \<longrightarrow> Q (last sgs) n' (last (subgraphs it')))"
  using assms
proof (induction sgs arbitrary: k n it)
  case (Cons sg sgs)
  let ?s0 = "(subgraphs it ! k)\<lparr>external_contexts := shared_contexts it, world := shared_world it\<rparr>"
  obtain n1 s1 where s1: "load_subgraph E P b buffers sg (n, ?s0) = ok (n1, s1)"
    and rest: "for_each (load_into E P b buffers) (enumerate (Suc k) sgs)
       (n1, it\<lparr>subgraphs := (subgraphs it)[k := s1], shared_contexts := external_contexts s1,
          shared_world := world s1\<rparr>) = ok (n', it')"
    using Cons.prems(2,3) by (auto simp: load_into_def ensure_status_ok_iff)
  let ?it = "it\<lparr>subgraphs := (subgraphs it)[k := s1], shared_contexts := external_contexts s1,
      shared_world := world s1\<rparr>"
  have "blank ?s0" using Cons.prems(4) by force
  then have Q: "Q sg n1 s1" by (rule Cons.prems(1) [rotated, OF _ s1]) simp
  have fresh: "\<forall>j<length sgs. blank (subgraphs ?it ! (Suc k + j))"
    using Cons.prems(4) by (auto dest: spec [of _ "Suc _"])
  have IH: "only_subgraphs_differ ?it it' \<and> length (subgraphs it') = length (subgraphs ?it)
    \<and> (\<forall>j<Suc k. subgraphs it' ! j = subgraphs ?it ! j)
    \<and> (\<forall>j<length sgs. \<exists>m. Q (sgs ! j) m (subgraphs it' ! (Suc k + j)))
    \<and> (sgs \<noteq> [] \<longrightarrow> Q (last sgs) n' (last (subgraphs it')))"
    by (rule Cons.IH [OF _ rest _ fresh]) (use Cons.prems in auto)
  have at_k: "subgraphs it' ! k = s1" using IH Cons.prems(3) by simp
  have "\<exists>m. Q ((sg # sgs) ! j) m (subgraphs it' ! (k + j))" if "j < length (sg # sgs)" for j
    using that IH Q at_k by (cases j) auto
  moreover have "Q (last (sg # sgs)) n' (last (subgraphs it'))"
  proof (cases sgs)
    case Nil
    then have "last (subgraphs it') = s1"
      using at_k IH Cons.prems(3) by (subst last_conv_nth) auto
    then show ?thesis using Q rest Nil by simp
  qed (use IH in simp)
  moreover have "only_subgraphs_differ it ?it"
    by (auto simp: only_subgraphs_differ_def)
  ultimately show ?case
    using IH only_subgraphs_differ_trans by auto
qed (simp add: only_subgraphs_differ_refl)

lemma blank_Subgraph [simp]: "blank (Subgraph c w)" "blank (UseNNAPI d (Subgraph c w))"
  by (simp_all add: blank_def Subgraph_inv UseNNAPI_def) (simp_all add: Subgraph_def)

lemma new_interpreter_ok:
  assumes "num_subgraphs > 0"
  shows "\<exists>it. new_interpreter P num_threads num_subgraphs w = ok it \<and> length (subgraphs it) = num_subgraphs
     \<and> (\<forall>s\<in>set (subgraphs it). blank s) \<and> interpreter_inv it \<and> lazy_delegate_providers it = []"
proof -
  obtain it0 where it0: "Interpreter (new_context P) w = ok it0" "length (subgraphs it0) = 1"
    "\<forall>s\<in>set (subgraphs it0). blank s" "lazy_delegate_providers it0 = []"
    by (simp add: Interpreter_def Let_def AddSubgraphs_def primary_def on_subgraph_def)
      (simp add: UseNNAPI_def Subgraph_def blank_def subgraph_inv_def valid_nodes_def valid_plan_def)
  have inv0: "interpreter_inv it0" by (rule keepsD [OF Interpreter_keeps it0(1)])
  obtain st it1 where it1: "SetNumThreads (refresh_context P) num_threads it0 = Some (st, it1)"
    and same: "subgraphs it1 = subgraphs it0" "lazy_delegate_providers it1 = []"
    using it0(4) by (cases "num_threads < -1") (auto simp: SetNumThreads_def)
  have inv1: "interpreter_inv it1" by (rule keepsD [OF simple_calls_keep(6) [OF inv0] it1])
  define it2 where "it2 = (if num_subgraphs > 1 then snd (AddSubgraphs (num_subgraphs - 1) it1) else it1)"
  have "interpreter_inv it2" "lazy_delegate_providers it2 = []"
    using AddSubgraphs_inv [OF inv1] inv1 same(2) by (auto simp: it2_def AddSubgraphs_def)
  moreover have "length (subgraphs it2) = num_subgraphs" "\<forall>s\<in>set (subgraphs it2). blank s"
    using assms it0(2,3) same(1) by (auto simp: it2_def AddSubgraphs_def)
  moreover have "new_interpreter P num_threads num_subgraphs w = ok (SetProfiler_owned (platform_profiler P) it2)"
    by (simp add: new_interpreter_def it0(1) ignoring_status_def it1 it2_def Let_def)
  ultimately show ?thesis
    using simple_calls_keep(3) [of it2 "platform_profiler P"]
    by (auto simp: SetProfiler_owned_def SetSubgraphProfiler_def)
qed

text \<open>How a call of the builder that succeeds goes.\<close>

lemma build_interpreter_ok:
  assumes "build_interpreter E P num_threads w out b = Some (kTfLiteOk, out', b')"
    and "ib_model b = Some m" "fb_subgraphs m = Some sgs"
  obtains b1 buffers it0 n it1 it where
    "BuildLocalIndexToRegistrationMapping m b = (kTfLiteOk, b1)" "fb_buffers m = Some buffers" "sgs \<noteq> []"
    "new_interpreter P num_threads (length sgs) w = ok it0"
    "load_subgraphs E P b1 buffers sgs (num_fp32_tensors b1, it0) = ok (n, it1)"
    "b' = b1\<lparr>num_fp32_tensors := n\<rparr>"
    "ApplyDelegates E P b' (if n > 0
       then it1\<lparr>lazy_delegate_providers := map Some (GetDelegates (ib_resolver b1) num_threads)\<rparr> else it1) = ok it"
    "out' = Some (Some it)"
proof -
  obtain b1 where b1: "BuildLocalIndexToRegistrationMapping m b = (kTfLiteOk, b1)"
    and "sgs \<noteq> []"
    using assms by (auto simp: build_interpreter_def split: option.splits if_splits prod.splits)
  moreover from this obtain buffers where buffers: "fb_buffers m = Some buffers"
    using assms by (auto simp: build_interpreter_def split: option.splits if_splits)
  moreover obtain it0 where it0: "new_interpreter P num_threads (length sgs) w = ok it0"
    using new_interpreter_ok [of "length sgs" P num_threads w] \<open>sgs \<noteq> []\<close> by auto
  moreover obtain n it1 where load: "load_subgraphs E P b1 buffers sgs (num_fp32_tensors b1, it0) = ok (n, it1)"
    using assms b1 buffers it0 \<open>sgs \<noteq> []\<close>
    by (auto simp: build_interpreter_def Let_def split: option.splits if_splits bind_splits)
  ultimately show ?thesis
    using assms that [of b1 buffers it0 n it1]
    by (auto simp: build_interpreter_def Let_def split: option.splits if_splits)
qed

lemma load_subgraphs_ok:
  assumes step: "\<And>sg n s n' s'. sg \<in> set sgs \<Longrightarrow> blank s \<Longrightarrow>
       load_subgraph E P b buffers sg (n, s) = ok (n', s') \<Longrightarrow> Q sg n' s'"
    and new: "new_interpreter P num_threads (length sgs) w = ok it0" and "sgs \<noteq> []"
    and load: "load_subgraphs E P b buffers sgs (n, it0) = ok (n', it)"
  shows "length (subgraphs it) = length sgs" "k < length sgs \<Longrightarrow> \<exists>m. Q (sgs ! k) m (subgraphs it ! k)"
    "Q (last sgs) n' (last (subgraphs it))" "only_subgraphs_differ it0 it"
proof -
  obtain it0: "length (subgraphs it0) = length sgs" "\<forall>s\<in>set (subgraphs it0). blank s"
    using new_interpreter_ok [of "length sgs" P num_threads w] new \<open>sgs \<noteq> []\<close> by auto
  note loop = load_loop [of sgs E P b buffers Q 0 n it0 n' it, OF step load [unfolded load_subgraphs_def]]
  have "only_subgraphs_differ it0 it \<and> length (subgraphs it) = length (subgraphs it0)
    \<and> (\<forall>j<0. subgraphs it ! j = subgraphs it0 ! j)
    \<and> (\<forall>j<length sgs. \<exists>m. Q (sgs ! j) m (subgraphs it ! (0 + j)))
    \<and> (sgs \<noteq> [] \<longrightarrow> Q (last sgs) n' (last (subgraphs it)))"
    by (rule loop) (use it0 in auto)
  then show "length (subgraphs it) = length sgs" "k < length sgs \<Longrightarrow> \<exists>m. Q (sgs ! k) m (subgraphs it ! k)"
    "Q (last sgs) n' (last (subgraphs it))" "only_subgraphs_differ it0 it"
    using it0(1) \<open>sgs \<noteq> []\<close> by auto
qed

lemma mapping_registrations:
  assumes "BuildLocalIndexToRegistrationMapping m b = (kTfLiteOk, b')"
  shows "registrations b' = (case fb_operator_codes m of None \<Rightarrow> [] | Some cs \<Rightarrow> map (resolve (ib_resolver b)) cs)
    \<and> None \<notin> set (registrations b')"
proof (cases "fb_operator_codes m")
  case None
  then show ?thesis
    using assms by (auto simp: BuildLocalIndexToRegistrationMapping_def registrations_def)
next
  case (Some opcodes)
  let ?b = "b\<lparr>flatbuffer_op_index_to_registration := [],
      unresolved_custom_ops := rv_reserve (length (custom_opcodes opcodes)) (rv_clear (unresolved_custom_ops b))\<rparr>"
  have "map_opcodes opcodes ?b = (kTfLiteOk, b')"
    using assms Some by (simp add: BuildLocalIndexToRegistrationMapping_def)
  moreover have "rv_elements (unresolved_custom_ops ?b) = []"
    "length (custom_opcodes opcodes) \<le> rv_capacity (unresolved_custom_ops ?b)" "registrations ?b = []"
    by (simp_all add: rv_reserve_def rv_clear_def registrations_def)
  ultimately have "(\<forall>c\<in>set opcodes. resolve (ib_resolver b) c \<noteq> None)
      \<and> registrations b' = map (resolve (ib_resolver b)) opcodes"
    using map_opcodes_resolves [of opcodes ?b kTfLiteOk b'] by simp
  then show ?thesis by (force simp: Some)
qed

lemma registration_at_resolves:
  assumes map: "BuildLocalIndexToRegistrationMapping m b = (kTfLiteOk, b')"
    and i: "nat i < length (flatbuffer_op_index_to_registration b')"
  shows "registration_at b' i = resolve (ib_resolver b) (the (fb_operator_codes m) ! nat i)"
    "registration_at b' i \<noteq> None"
proof -
  have len: "length (registrations b') = length (flatbuffer_op_index_to_registration b')"
    by (simp add: registrations_def)
  have at: "registrations b' ! nat i = registration_at b' i"
    using i by (simp add: registrations_def registration_at_def)
  show "registration_at b' i = resolve (ib_resolver b) (the (fb_operator_codes m) ! nat i)"
    using at i len mapping_registrations [OF map] by (auto split: option.splits)
  show "registration_at b' i \<noteq> None"
    using at i len mapping_registrations [OF map] nth_mem [of "nat i" "registrations b'"] by metis
qed

lemma same_as_model_cong:
  assumes "same_as_model reg sg s"
    and "\<And>op. op \<in> set (the (fb_operators sg)) \<Longrightarrow>
      reg (as_int (int (fb_opcode_index op))) = reg' (as_int (int (fb_opcode_index op)))"
  shows "same_as_model reg' sg s"
  using assms by (auto simp: same_as_model_def operator_view_def)

lemma mapping_keeps:
  "BuildLocalIndexToRegistrationMapping m b = (st, b') \<Longrightarrow>
   ib_allocation b' = ib_allocation b \<and> ib_resolver b' = ib_resolver b"
proof -
  have "map_opcodes cs b = (st, b') \<Longrightarrow> ib_allocation b' = ib_allocation b \<and> ib_resolver b' = ib_resolver b"
    for cs b
    by (induction cs arbitrary: b) (fastforce simp: Let_def split: if_splits option.splits prod.splits)+
  then show "BuildLocalIndexToRegistrationMapping m b = (st, b') \<Longrightarrow> ?thesis"
    by (fastforce simp: BuildLocalIndexToRegistrationMapping_def Let_def split: option.splits)
qed

lemma built_subgraph_loaded:
  assumes "init_only_adds_tensors E" "flex_delegate P = None"
    and "ib_model b = Some m" "fb_subgraphs m = Some sgs" "fb_buffers m = Some buffers" "k < length sgs"
    and "build_interpreter E P num_threads w out b = Some (kTfLiteOk, Some (Some it), b')"
  shows "\<exists>b1 n. BuildLocalIndexToRegistrationMapping m b = (kTfLiteOk, b1)
    \<and> subgraph_loaded b1 buffers (sgs ! k) n (subgraphs it ! k)"
  using assms(7,3,4)
proof (rule build_interpreter_ok)
  fix b1 bufs it0 n it1 it2
  assume b1: "BuildLocalIndexToRegistrationMapping m b = (kTfLiteOk, b1)" and bufs: "fb_buffers m = Some bufs"
    and "sgs \<noteq> []" and new: "new_interpreter P num_threads (length sgs) w = ok it0"
    and load: "load_subgraphs E P b1 bufs sgs (num_fp32_tensors b1, it0) = ok (n, it1)"
    and delegates: "ApplyDelegates E P b' (if n > 0
       then it1\<lparr>lazy_delegate_providers := map Some (GetDelegates (ib_resolver b1) num_threads)\<rparr> else it1) = ok it2"
    and "Some (Some it) = Some (Some it2)"
  then have same: "subgraphs it = subgraphs it1"
    using assms(2) by (auto simp: ApplyDelegates_def split: if_splits)
  have "\<exists>n. subgraph_loaded b1 bufs (sgs ! k) n (subgraphs it1 ! k)"
    by (rule load_subgraphs_ok(2) [OF _ new \<open>sgs \<noteq> []\<close> load \<open>k < length sgs\<close>])
      (rule load_subgraph_ok [OF assms(1)])
  then show ?thesis using b1 bufs assms(5) same by auto
qed

text \<open>
  C16: the builder does not check the indices of a model. But for each subgraph of an interpreter
  that it returns, either \<^verbatim>\<open>AllocateTensors\<close> fails and changes nothing, or the subgraph is the one of
  the model: the same nodes, each with the registration of its operator code, planned in the order
  of the model, and the same inputs and outputs. No delegate is applied while building.
\<close>

theorem built_graph_is_the_model:
  assumes "init_only_adds_tensors E" "flex_delegate P = None"
    and "ib_model b = Some m" "fb_subgraphs m = Some sgs" "fb_buffers m = Some buffers" "k < length sgs"
    and "build_interpreter E P num_threads w out b = Some (kTfLiteOk, Some (Some it), b')"
  shows "AllocateTensors E modify (subgraphs it ! k) = Some (kTfLiteError, subgraphs it ! k)
    \<or> same_as_model (\<lambda>i. resolve (ib_resolver b) (the (fb_operator_codes m) ! nat i)) (sgs ! k) (subgraphs it ! k)"
proof (cases "consistent (subgraphs it ! k)")
  case True
  obtain b1 n where b1: "BuildLocalIndexToRegistrationMapping m b = (kTfLiteOk, b1)"
    and l: "subgraph_loaded b1 buffers (sgs ! k) n (subgraphs it ! k)"
    using built_subgraph_loaded [OF assms] by blast
  have "same_as_model (registration_at b1) (sgs ! k) (subgraphs it ! k)"
    using True l by (simp add: subgraph_loaded_def)
  then have "same_as_model (\<lambda>i. resolve (ib_resolver b) (the (fb_operator_codes m) ! nat i)) (sgs ! k) (subgraphs it ! k)"
    by (rule same_as_model_cong)
      (use l registration_at_resolves [OF b1] in \<open>auto simp: subgraph_loaded_def opcodes_in_table_def\<close>)
  then show ?thesis ..
qed (simp add: AllocateTensors_def)

definition plain_tensor :: "string \<Rightarrow> int \<Rightarrow> fb_tensor" where
  "plain_tensor name type = \<lparr>fb_shape = Some [2], fb_type = type, fb_buffer = 0, fb_name = Some name,
     fb_tensor_quantization = None, fb_is_variable = False, fb_tensor_sparsity = None,
     fb_shape_signature = None\<rparr>"

definition doubling_subgraph :: "int \<Rightarrow> fb_subgraph" where
  "doubling_subgraph type =
     \<lparr>fb_tensors = Some [plain_tensor ''x'' type, plain_tensor ''y'' type],
      fb_inputs = Some [0], fb_outputs = Some [1],
      fb_operators = Some [\<lparr>fb_opcode_index = 0, fb_op_inputs = Some [0, 0], fb_op_outputs = Some [1],
         fb_op_intermediates = None, fb_builtin_options = Some (AddOptions False), fb_custom_options = None\<rparr>]\<rparr>"

text \<open>A model whose two subgraphs double a tensor, of floats and of 32-bit integers.\<close>

definition doubling_model :: fb_model where
  "doubling_model = \<lparr>fb_model_version = 3, fb_operator_codes = Some two_codes,
     fb_subgraphs = Some [doubling_subgraph TensorType_FLOAT32, doubling_subgraph TensorType_INT32],
     fb_buffers = Some [None], fb_metadata = None\<rparr>"

definition doubling_builder :: interpreter_builder where
  "doubling_builder = InterpreterBuilder (Some doubling_model) one_kernel_resolver 0"

definition idle_platform :: "unit platform" where
  "idle_platform = \<lparr>refresh_context = (\<lambda>_ w. w), parse_op_data = (\<lambda>op ty w. (kTfLiteOk, 1, w)),
     flex_delegate = None, platform_profiler = 0, new_context = 1\<rparr>"

lemma idle_env_init: "init_only_adds_tensors idle_env"
  by (simp add: init_only_adds_tensors_def idle_env_def)

lemma doubling_built:
  "case build_interpreter idle_env idle_platform (-1) () (Some None) doubling_builder of
     Some (st, Some (Some it), b) \<Rightarrow> st = kTfLiteOk \<and> consistent (subgraphs it ! 1) | _ \<Rightarrow> False"
  by code_simp

lemma doubling_outcome:
  obtains it b where
    "build_interpreter idle_env idle_platform (-1) () (Some None) doubling_builder = Some (kTfLiteOk, Some (Some it), b)"
  using doubling_built by (auto split: option.splits prod.splits)

lemma doubling_fields:
  "ib_model doubling_builder = Some doubling_model" "ib_resolver doubling_builder = one_kernel_resolver"
  "fb_subgraphs doubling_model = Some [doubling_subgraph TensorType_FLOAT32, doubling_subgraph TensorType_INT32]"
  "fb_buffers doubling_model = Some [None]" "fb_operator_codes doubling_model = Some two_codes"
  "flex_delegate idle_platform = None" "ib_allocation doubling_builder = 0"
  by (simp_all add: doubling_builder_def InterpreterBuilder_def doubling_model_def idle_platform_def)

theorem built_graph_is_the_model_witness:
  "\<exists>it b. build_interpreter idle_env idle_platform (-1) () (Some None) doubling_builder = Some (kTfLiteOk, Some (Some it), b)
     \<and> (AllocateTensors idle_env (ModifyGraphWithDelegate idle_env call_depth) (subgraphs it ! 0)
           = Some (kTfLiteError, subgraphs it ! 0)
      \<or> same_as_model (\<lambda>i. resolve one_kernel_resolver (two_codes ! nat i))
           (doubling_subgraph TensorType_FLOAT32) (subgraphs it ! 0))"
proof (rule doubling_outcome)
  fix it b
  assume built: "build_interpreter idle_env idle_platform (-1) () (Some None) doubling_builder = Some (kTfLiteOk, Some (Some it), b)"
  show ?thesis
    using built_graph_is_the_model [OF idle_env_init doubling_fields(6,1,3,4) _ built, of 0
        "ModifyGraphWithDelegate idle_env call_depth"] built
    by (auto simp: doubling_fields)
qed

text \<open>
  C17: every tensor of a model of which an interpreter was built is there, with the type of the same
  name (\<open>element_types\<close>), the shape, and the quantization (\<open>quantization_loaded\<close>: the scales, the zero
  points narrowed to 32 bits, the dimension, and the legacy parameters). A constant tensor points to
  its bytes in the model and has the sparsity of the model; every other one is given the size of its
  element times its positive dimensions and a place in the arena of its kind. No kernel's
  \<^verbatim>\<open>init\<close> changes tensors that it did not add (\<open>init_only_adds_tensors\<close>), and no delegate is applied.
\<close>

theorem built_tensors_are_the_model:
  assumes "init_only_adds_tensors E" "flex_delegate P = None"
    and "ib_model b = Some m" "fb_subgraphs m = Some sgs" "fb_buffers m = Some buffers" "k < length sgs"
    and "build_interpreter E P num_threads w out b = Some (kTfLiteOk, Some (Some it), b')"
  shows "tensors_loaded (ib_allocation b) buffers (the (fb_tensors (sgs ! k))) (subgraphs it ! k)"
proof -
  obtain b1 n where b1: "BuildLocalIndexToRegistrationMapping m b = (kTfLiteOk, b1)"
    and l: "subgraph_loaded b1 buffers (sgs ! k) n (subgraphs it ! k)"
    using built_subgraph_loaded [OF assms] by blast
  then show ?thesis
    using mapping_keeps [OF b1] by (simp add: subgraph_loaded_def)
qed

text \<open>A model of quantized tensors, the second one constant and quantized per channel.\<close>

definition quantized_tensor :: "int \<Rightarrow> nat \<Rightarrow> 32 word list \<Rightarrow> int list \<Rightarrow> fb_tensor" where
  "quantized_tensor type buffer scales zero_points =
     (plain_tensor ''t'' type)\<lparr>fb_buffer := buffer, fb_tensor_quantization := Some
        \<lparr>fb_scale = Some scales, fb_zero_point = Some zero_points, fb_quantized_dimension = 0\<rparr>\<rparr>"

definition quantized_subgraph :: fb_subgraph where
  "quantized_subgraph = (doubling_subgraph TensorType_UINT8)\<lparr>fb_tensors := Some
     [quantized_tensor TensorType_UINT8 0 [0x3F000000] [128], quantized_tensor TensorType_UINT8 0 [0x3F000000] [-3],
      quantized_tensor TensorType_INT8 1 [0x3F000000, 0x3F800000] [5, 7]]\<rparr>"

definition quantized_model :: fb_model where
  "quantized_model = \<lparr>fb_model_version = 3, fb_operator_codes = Some two_codes,
     fb_subgraphs = Some [quantized_subgraph], fb_buffers = Some [None, Some (Some (4096, 2))], fb_metadata = None\<rparr>"

definition quantized_builder :: interpreter_builder where
  "quantized_builder = InterpreterBuilder (Some quantized_model) one_kernel_resolver 0"

lemma quantized_built:
  "case build_interpreter idle_env idle_platform (-1) () (Some None) quantized_builder of
     Some (st, Some (Some it), b) \<Rightarrow> st = kTfLiteOk | _ \<Rightarrow> False"
  by code_simp

lemma quantized_fields:
  "ib_model quantized_builder = Some quantized_model" "ib_allocation quantized_builder = 0"
  "fb_subgraphs quantized_model = Some [quantized_subgraph]"
  "fb_buffers quantized_model = Some [None, Some (Some (4096, 2))]"
  by (simp_all add: quantized_builder_def InterpreterBuilder_def quantized_model_def)

text \<open>What it says of the second tensor.\<close>

lemma narrowed_small:
  assumes "narrowed z z'" "- (2 ^ 31) \<le> z" "z < 2 ^ 31"
  shows "z' = z"
proof (rule ccontr)
  assume "z' \<noteq> z"
  moreover have "2 ^ 32 dvd z' - z"
    using assms(1) by (simp add: narrowed_def mod_eq_dvd_iff)
  ultimately have "\<bar>2 ^ 32\<bar> \<le> \<bar>z' - z\<bar>"
    by (intro dvd_imp_le_int) simp_all
  moreover have "- (2 ^ 31) \<le> z'" "z' < 2 ^ 31"
    using assms(1) by (simp_all add: narrowed_def)
  ultimately show False
    using assms(2,3) by (auto simp: abs_if split: if_splits)
qed

lemma quantized_tensors:
  assumes "tensors_loaded 0 [None, Some (Some (4096, 2))] (the (fb_tensors quantized_subgraph)) s"
  shows "tensor_type (tensors s ! 1) = kTfLiteUInt8 \<and> dims (tensors s ! 1) = Some [2] \<and> bytes (tensors s ! 1) = 2
    \<and> params (tensors s ! 1) = \<lparr>legacy_scale = 0x3F000000, legacy_zero_point = -3\<rparr>"
proof -
  have "tensor_loaded 0 [None, Some (Some (4096, 2))] (quantized_tensor TensorType_UINT8 0 [0x3F000000] [-3]) (tensors s ! 1)"
    using assms by (auto simp: tensors_loaded_def quantized_subgraph_def)
  then show ?thesis
    by (auto simp: tensor_loaded_def quantized_tensor_def plain_tensor_def element_types_def constant_bytes_def
        quantization_loaded_def list_all2_Cons1 dest: narrowed_small)
qed

theorem built_tensors_are_the_model_witness:
  "\<exists>it b. build_interpreter idle_env idle_platform (-1) () (Some None) quantized_builder = Some (kTfLiteOk, Some (Some it), b)
     \<and> tensors_loaded 0 [None, Some (Some (4096, 2))] (the (fb_tensors quantized_subgraph)) (subgraphs it ! 0)
     \<and> params (tensors (subgraphs it ! 0) ! 1) = \<lparr>legacy_scale = 0x3F000000, legacy_zero_point = -3\<rparr>"
proof -
  obtain it b where built:
      "build_interpreter idle_env idle_platform (-1) () (Some None) quantized_builder = Some (kTfLiteOk, Some (Some it), b)"
    using quantized_built by (auto split: option.splits prod.splits)
  show ?thesis
    using built_tensors_are_the_model [OF idle_env_init doubling_fields(6) quantized_fields(1,3,4) _ built, of 0] built
    by (auto simp: quantized_fields dest: quantized_tensors)
qed

text \<open>
  whether the delegates of the resolver will be applied by default depends on the last
  subgraph of the model alone: the count of float tensors starts again at zero for each subgraph.
\<close>

theorem lazy_delegates_of_the_last_subgraph:
  assumes "init_only_adds_tensors E" "ib_model b = Some m" "fb_subgraphs m = Some sgs"
    and "build_interpreter E P num_threads w out b = Some (kTfLiteOk, Some (Some it), b')"
  shows "lazy_delegate_providers it =
     (if \<exists>t\<in>set (the (fb_tensors (last sgs))). fb_type t = TensorType_FLOAT32
      then map Some (GetDelegates (ib_resolver b) num_threads) else [])"
  using assms(4,2,3)
proof (rule build_interpreter_ok)
  fix b1 bufs it0 n it1 it2
  assume b1: "BuildLocalIndexToRegistrationMapping m b = (kTfLiteOk, b1)"
    and "sgs \<noteq> []" and new: "new_interpreter P num_threads (length sgs) w = ok it0"
    and load: "load_subgraphs E P b1 bufs sgs (num_fp32_tensors b1, it0) = ok (n, it1)"
    and delegates: "ApplyDelegates E P b' (if n > 0
       then it1\<lparr>lazy_delegate_providers := map Some (GetDelegates (ib_resolver b1) num_threads)\<rparr> else it1) = ok it2"
    and it2: "Some (Some it) = Some (Some it2)"
  have lazy: "lazy_delegate_providers it = (if n > 0 then map Some (GetDelegates (ib_resolver b1) num_threads)
      else lazy_delegate_providers it1)"
    using delegates it2 by (auto simp: ApplyDelegates_def split: if_splits option.splits dest: ModifyGraphOwned_lazy)
  have loaded: "subgraph_loaded b1 bufs (last sgs) n (last (subgraphs it1))"
    by (rule load_subgraphs_ok(3) [OF _ new \<open>sgs \<noteq> []\<close> load])
      (rule load_subgraph_ok [OF assms(1)])
  have "only_subgraphs_differ it0 it1"
    by (rule load_subgraphs_ok(4) [OF _ new \<open>sgs \<noteq> []\<close> load]) (rule load_subgraph_ok [OF assms(1)])
  then have "lazy_delegate_providers it1 = []"
    using new_interpreter_ok [of "length sgs" P num_threads w] new \<open>sgs \<noteq> []\<close>
    by (auto simp: only_subgraphs_differ_def)
  moreover have "n > 0 \<longleftrightarrow> (\<exists>t\<in>set (the (fb_tensors (last sgs))). fb_type t = TensorType_FLOAT32)"
    using loaded by (auto simp: subgraph_loaded_def float_count_def filter_empty_conv)
  ultimately show ?thesis
    using lazy mapping_keeps [OF b1] by simp
qed

theorem lazy_delegates_of_the_last_subgraph_witness:
  "\<exists>it b. build_interpreter idle_env idle_platform (-1) () (Some None) doubling_builder = Some (kTfLiteOk, Some (Some it), b)
     \<and> lazy_delegate_providers it = []"
proof (rule doubling_outcome)
  fix it b
  assume built: "build_interpreter idle_env idle_platform (-1) () (Some None) doubling_builder = Some (kTfLiteOk, Some (Some it), b)"
  show ?thesis
    using lazy_delegates_of_the_last_subgraph [OF idle_env_init doubling_fields(1,3) built] built
    by (auto simp: doubling_subgraph_def plain_tensor_def)
qed

text \<open>
  C19: an interpreter that the builder returns has a subgraph for each one of the model, and in each
  of them the inputs and outputs of the nodes, the inputs, outputs and variables of the subgraph and
  the execution plans hold only valid indices, whatever indices the model holds. The
  \<^verbatim>\<open>intermediates\<close> of a node are excepted: \<^verbatim>\<open>ParseNodes\<close> stores those of the model, unchecked
  (\<open>intermediates_are_unchecked\<close>). The kernels and delegates are \<open>respectful\<close>, and no subgraph of the
  model has \<^verbatim>\<open>2^31\<close> tensors or more.
\<close>

theorem built_interpreter_inv:
  assumes "respectful E" "ib_model b = Some m" "fb_subgraphs m = Some sgs"
    and "\<forall>sg\<in>set sgs. length (the (fb_tensors sg)) < 2 ^ 31"
    and "build_interpreter E P num_threads w out b = Some (kTfLiteOk, Some (Some it), b')"
  shows "length (subgraphs it) = length sgs \<and> interpreter_inv it"
  using assms(5,2,3)
proof (rule build_interpreter_ok)
  fix b1 bufs it0 n it1 it2
  assume "sgs \<noteq> []" and new: "new_interpreter P num_threads (length sgs) w = ok it0"
    and load: "load_subgraphs E P b1 bufs sgs (num_fp32_tensors b1, it0) = ok (n, it1)"
    and delegates: "ApplyDelegates E P b' (if n > 0
       then it1\<lparr>lazy_delegate_providers := map Some (GetDelegates (ib_resolver b1) num_threads)\<rparr> else it1) = ok it2"
    and it2: "Some (Some it) = Some (Some it2)"
  have step: "subgraph_inv s'"
    if "sg \<in> set sgs" "blank s" "load_subgraph E P b1 bufs sg (n, s) = ok (n', s')" for sg n s n' s'
    using load_subgraph_inv [OF assms(1) that(2) _ that(3)] assms(4) that(1) by blast
  note loop = load_subgraphs_ok [where Q = "\<lambda>_ _. subgraph_inv", OF _ new \<open>sgs \<noteq> []\<close> load]
  have "length (subgraphs it1) = length sgs" by (rule loop(1)) (rule step)
  moreover have "subgraph_inv (subgraphs it1 ! k)" if "k < length sgs" for k
  proof -
    have "\<exists>m :: int. subgraph_inv (subgraphs it1 ! k)" by (rule loop(2) [OF _ that]) (rule step)
    then show ?thesis ..
  qed
  moreover have "length (subgraphs it2) = length (subgraphs it1)"
    using delegates by (auto simp: ApplyDelegates_def split: if_splits option.splits dest: ModifyGraphOwned_lazy(2))
  moreover have "only_subgraphs_differ it0 it1" by (rule loop(4)) (rule step)
  ultimately have count: "length (subgraphs it2) = length sgs" and "interpreter_inv it1"
    using new_interpreter_ok [of "length sgs" P num_threads w] new \<open>sgs \<noteq> []\<close>
    by (auto simp: interpreter_inv_def only_subgraphs_differ_def in_set_conv_nth)
  then have "keeps interpreter_inv (ApplyDelegates E P b' (if n > 0
       then it1\<lparr>lazy_delegate_providers := map Some (GetDelegates (ib_resolver b1) num_threads)\<rparr> else it1))"
    unfolding ApplyDelegates_def by (intro keeps ModifyGraphOwned_keeps [OF assms(1)]) simp_all
  from keepsD [OF this delegates] show ?thesis using it2 count by simp
qed

theorem built_interpreter_inv_witness:
  "\<exists>it b. build_interpreter idle_env idle_platform (-1) () (Some None) doubling_builder = Some (kTfLiteOk, Some (Some it), b)
     \<and> length (subgraphs it) = 2 \<and> interpreter_inv it"
proof (rule doubling_outcome)
  fix it b
  assume built: "build_interpreter idle_env idle_platform (-1) () (Some None) doubling_builder = Some (kTfLiteOk, Some (Some it), b)"
  show ?thesis
    using built_interpreter_inv [OF idle_env_respectful doubling_fields(1,3) _ built] built
    by (simp add: doubling_subgraph_def)
qed

section \<open>Building has no undefined behaviour\<close>













end
