(* ===== verification/Greedy_Planner.thy ===== *)
theory Greedy_Planner
  imports Prelude "HOL-Library.Monad_Syntax" "HOL-Library.Multiset"
begin

text \<open>
  \<^verbatim>\<open>micro/memory_planner/greedy_memory_planner.{h,cc}\<close> and \<^verbatim>\<open>linear_memory_planner.{h,cc}\<close>: the planners
  of TensorFlow Lite Micro, which place buffers with known times of use in one arena.

  The planner keeps all its arrays in a scratch buffer. The placed buffers are a linked list inside
  an array: \<open>next_entry_index\<close> is the index of the next entry, -1 at the end. Loops along that list may
  run forever on a cyclic one, so they are partial functions into \<open>option\<close>, in which \<^term>\<open>None\<close> is
  also an index outside its array. An \<^verbatim>\<open>int\<close> of the code is an \<open>int\<close> here, without bounds: the two are
  the same as long as the ends of the buffers that the client placed, and behind them all other sizes
  together, stay below \<open>2\<^sup>3\<^sup>1\<close> (\<open>planned_bounds\<close>), which is a hypothesis of the properties that need it.
\<close>

section \<open>State\<close>

record buffer_requirements =
  req_size :: int
  offline_offset :: int
  first_time_used :: int
  last_time_used :: int

record list_entry =
  entry_offset :: int
  requirements_index :: int
  next_entry_index :: int

record greedy_planner =
  max_buffer_count :: nat
  buffer_count :: nat
  requirements :: "buffer_requirements list"
  buffer_sizes_sorted :: "int list"
  buffer_ids_sorted :: "int list"
  buffers_sorted_by_offset :: "list_entry list"
  next_free_entry :: int
  first_entry_index :: int
  buffer_offsets :: "int list"
  need_to_calculate_offsets :: bool

abbreviation (input) kOnlinePlannedBuffer :: int where "kOnlinePlannedBuffer \<equiv> -1"

text \<open>Four \<^verbatim>\<open>int\<close>s for the requirements, one each for size, id and offset, three for the list entry.\<close>

definition per_buffer_size :: nat where
  "per_buffer_size = 4 * 4 + 4 + 4 + 3 * 4 + 4"

text \<open>What the scratch buffer holds before it is written is not read, and is zero here.\<close>

definition GreedyMemoryPlanner :: "nat \<Rightarrow> greedy_planner" where
  "GreedyMemoryPlanner scratch_buffer_size =
     (let n = scratch_buffer_size div per_buffer_size
      in \<lparr>max_buffer_count = n, buffer_count = 0,
          requirements = replicate n \<lparr>req_size = 0, offline_offset = 0, first_time_used = 0, last_time_used = 0\<rparr>,
          buffer_sizes_sorted = replicate n 0, buffer_ids_sorted = replicate n 0,
          buffers_sorted_by_offset = replicate n \<lparr>entry_offset = 0, requirements_index = 0, next_entry_index = 0\<rparr>,
          next_free_entry = 0, first_entry_index = 0, buffer_offsets = replicate n 0,
          need_to_calculate_offsets = True\<rparr>)"

definition AddBuffer :: "int \<Rightarrow> int \<Rightarrow> int \<Rightarrow> greedy_planner \<Rightarrow> tflite_status \<times> greedy_planner" where
  "AddBuffer sz first_used last_used p =
     (if buffer_count p \<ge> max_buffer_count p then (kTfLiteError, p)
      else (kTfLiteOk,
        p\<lparr>requirements := (requirements p)[buffer_count p := \<lparr>req_size = sz, offline_offset = kOnlinePlannedBuffer,
                             first_time_used = first_used, last_time_used = last_used\<rparr>],
          buffer_count := buffer_count p + 1, need_to_calculate_offsets := True\<rparr>))"

definition AddBuffer_offline ::
  "int \<Rightarrow> int \<Rightarrow> int \<Rightarrow> int \<Rightarrow> greedy_planner \<Rightarrow> tflite_status \<times> greedy_planner" where
  "AddBuffer_offline sz first_used last_used offset p =
     (let current = buffer_count p
      in case AddBuffer sz first_used last_used p of (st, p) \<Rightarrow>
           if st \<noteq> kTfLiteOk then (kTfLiteError, p)
           else (kTfLiteOk, p\<lparr>requirements := (requirements p)[current :=
                   (requirements p ! current)\<lparr>offline_offset := offset\<rparr>]\<rparr>))"

section \<open>Sorting\<close>

text \<open>One pass of \<^verbatim>\<open>ReverseSortInPlace\<close> over the indices given.\<close>

primrec sort_pass :: "nat list \<Rightarrow> int list \<times> int list \<times> bool \<Rightarrow> int list \<times> int list \<times> bool" where
  "sort_pass [] s = s"
| "sort_pass (i # is) s = (case s of (values, ids, any_swapped) \<Rightarrow>
     sort_pass is
       (if values ! (i - 1) < values ! i
        then (values[i - 1 := values ! i, i := values ! (i - 1)],
              ids[i - 1 := ids ! i, i := ids ! (i - 1)], True)
        else (values, ids, any_swapped)))"

partial_function (option) ReverseSortInPlace ::
  "int list \<Rightarrow> int list \<Rightarrow> nat \<Rightarrow> (int list \<times> int list) option" where
  "ReverseSortInPlace values ids n =
     (case sort_pass [1..<n] (values, ids, False) of (values, ids, any_swapped) \<Rightarrow>
        if any_swapped then ReverseSortInPlace values ids n else Some (values, ids))"

section \<open>The list of placed buffers\<close>

definition DoesEntryOverlapInTime :: "greedy_planner \<Rightarrow> list_entry \<Rightarrow> int \<Rightarrow> int \<Rightarrow> bool option" where
  "DoesEntryOverlapInTime p entry first_used last_used = do {
     r \<leftarrow> vec_at (requirements p) (requirements_index entry);
     Some (if first_time_used r > last_used then False
           else if first_used > last_time_used r then False else True) }"

text \<open>The loop of \<^verbatim>\<open>NextSimultaneouslyActiveBuffer\<close> from the entry with index \<open>i\<close>; a pointer is an index.\<close>

partial_function (option) next_active :: "greedy_planner \<Rightarrow> int \<Rightarrow> int \<Rightarrow> int \<Rightarrow> int option option" where
  "next_active p first_used last_used i = do {
     candidate \<leftarrow> vec_at (buffers_sorted_by_offset p) i;
     active \<leftarrow> DoesEntryOverlapInTime p candidate first_used last_used;
     if active then Some (Some i)
     else if next_entry_index candidate = -1 then Some None
     else next_active p first_used last_used (next_entry_index candidate) }"

definition NextSimultaneouslyActiveBuffer ::
  "greedy_planner \<Rightarrow> int option \<Rightarrow> int \<Rightarrow> int \<Rightarrow> int option option" where
  "NextSimultaneouslyActiveBuffer p start first_used last_used =
     (case start of
        None \<Rightarrow> next_active p first_used last_used (first_entry_index p)
      | Some i \<Rightarrow> do {
          e \<leftarrow> vec_at (buffers_sorted_by_offset p) i;
          if next_entry_index e = -1 then Some None
          else next_active p first_used last_used (next_entry_index e) })"

text \<open>
  The loop that looks for a gap. \<^verbatim>\<open>prior_entry->offset + size\<close> is a sum of two \<^verbatim>\<open>int\<close>s, which overflows
  in the code when it reaches \<open>2\<^sup>3\<^sup>1\<close>: the sum here is the one of the code below that.
\<close>

partial_function (option) find_offset ::
  "greedy_planner \<Rightarrow> buffer_requirements \<Rightarrow> int option \<Rightarrow> int \<Rightarrow> int option" where
  "find_offset p wanted prior_entry candidate_offset = do {
     next_entry \<leftarrow> NextSimultaneouslyActiveBuffer p prior_entry (first_time_used wanted) (last_time_used wanted);
     candidate_offset \<leftarrow> (case prior_entry of
        None \<Rightarrow> Some candidate_offset
      | Some i \<Rightarrow> do {
          e \<leftarrow> vec_at (buffers_sorted_by_offset p) i;
          r \<leftarrow> vec_at (requirements p) (requirements_index e);
          let prior_entry_offset = entry_offset e + req_size r;
          Some (if prior_entry_offset > candidate_offset then prior_entry_offset else candidate_offset) });
     case next_entry of
       None \<Rightarrow> Some candidate_offset
     | Some j \<Rightarrow> do {
         e \<leftarrow> vec_at (buffers_sorted_by_offset p) j;
         let gap = entry_offset e - candidate_offset;
         if gap \<ge> req_size wanted then Some candidate_offset
         else find_offset p wanted (Some j) candidate_offset } }"

text \<open>The loop that links the entry \<open>k\<close> into the list behind the entry \<open>cur\<close> or a later one.\<close>

partial_function (option) link_after ::
  "int \<Rightarrow> int \<Rightarrow> int \<Rightarrow> list_entry list \<Rightarrow> list_entry list option" where
  "link_after k candidate_offset cur es = do {
     current_entry \<leftarrow> vec_at es cur;
     let next_index = next_entry_index current_entry;
     if next_index = -1 then do {
       es \<leftarrow> vec_set es cur (current_entry\<lparr>next_entry_index := k\<rparr>);
       new_entry \<leftarrow> vec_at es k;
       vec_set es k (new_entry\<lparr>next_entry_index := -1\<rparr>) }
     else do {
       next_entry \<leftarrow> vec_at es next_index;
       if entry_offset next_entry > candidate_offset then do {
         new_entry \<leftarrow> vec_at es k;
         es \<leftarrow> vec_set es k (new_entry\<lparr>next_entry_index := next_index\<rparr>);
         current_entry \<leftarrow> vec_at es cur;
         vec_set es cur (current_entry\<lparr>next_entry_index := k\<rparr>) }
       else link_after k candidate_offset next_index es } }"

section \<open>Planning\<close>

text \<open>The body of the loop that puts the buffers with an offset of their own to the front.\<close>

definition split_step ::
  "buffer_requirements list \<Rightarrow> nat \<Rightarrow> nat \<times> nat \<times> int list \<times> int list \<times> int list
   \<Rightarrow> (nat \<times> nat \<times> int list \<times> int list \<times> int list) option" where
  "split_step reqs i = (\<lambda>(idx_from_head, idx_from_tail, sizes, ids, offsets). do {
     r \<leftarrow> vec_at reqs (int i);
     if offline_offset r = kOnlinePlannedBuffer then do {
       let idx_from_tail = idx_from_tail - 1;
       sizes \<leftarrow> vec_set sizes (int idx_from_tail) (req_size r);
       ids \<leftarrow> vec_set ids (int idx_from_tail) (int i);
       offsets \<leftarrow> vec_set offsets (int i) (-1);
       Some (idx_from_head, idx_from_tail, sizes, ids, offsets) }
     else do {
       sizes \<leftarrow> vec_set sizes (int idx_from_head) (req_size r);
       ids \<leftarrow> vec_set ids (int idx_from_head) (int i);
       offsets \<leftarrow> vec_set offsets (int i) (offline_offset r);
       Some (idx_from_head + 1, idx_from_tail, sizes, ids, offsets) } })"

primrec split_offline ::
  "buffer_requirements list \<Rightarrow> nat list \<Rightarrow> nat \<times> nat \<times> int list \<times> int list \<times> int list
   \<Rightarrow> (nat \<times> nat \<times> int list \<times> int list \<times> int list) option" where
  "split_offline reqs [] s = Some s"
| "split_offline reqs (i # is) s = Option.bind (split_step reqs i s) (split_offline reqs is)"

text \<open>The first entry of the list.\<close>

definition place_first :: "greedy_planner \<Rightarrow> greedy_planner option" where
  "place_first p = do {
     buffer_id \<leftarrow> vec_at (buffer_ids_sorted p) 0;
     r \<leftarrow> vec_at (requirements p) buffer_id;
     offsets \<leftarrow> (if offline_offset r = kOnlinePlannedBuffer
                 then vec_set (buffer_offsets p) buffer_id 0 else Some (buffer_offsets p));
     offset \<leftarrow> vec_at offsets buffer_id;
     es \<leftarrow> vec_set (buffers_sorted_by_offset p) 0
            \<lparr>entry_offset = offset, requirements_index = buffer_id, next_entry_index = -1\<rparr>;
     Some (p\<lparr>first_entry_index := 0, next_free_entry := 1, buffer_offsets := offsets,
             buffers_sorted_by_offset := es\<rparr>) }"

text \<open>The body of the loop over the other buffers.\<close>

definition place_buffer :: "nat \<Rightarrow> greedy_planner \<Rightarrow> greedy_planner option" where
  "place_buffer i p = do {
     buffer_id \<leftarrow> vec_at (buffer_ids_sorted p) (int i);
     wanted \<leftarrow> vec_at (requirements p) buffer_id;
     candidate_offset \<leftarrow> (if offline_offset wanted = kOnlinePlannedBuffer
                          then find_offset p wanted None 0 else Some (offline_offset wanted));
     offsets \<leftarrow> vec_set (buffer_offsets p) buffer_id candidate_offset;
     let k = next_free_entry p;
     new_entry \<leftarrow> vec_at (buffers_sorted_by_offset p) k;
     es \<leftarrow> vec_set (buffers_sorted_by_offset p) k
            (new_entry\<lparr>entry_offset := candidate_offset, requirements_index := buffer_id\<rparr>);
     first_entry \<leftarrow> vec_at es (first_entry_index p);
     let p = p\<lparr>buffer_offsets := offsets, next_free_entry := next_free_entry p + 1\<rparr>;
     if entry_offset first_entry > candidate_offset then do {
       new_entry \<leftarrow> vec_at es k;
       es \<leftarrow> vec_set es k (new_entry\<lparr>next_entry_index := first_entry_index p\<rparr>);
       Some (p\<lparr>buffers_sorted_by_offset := es, first_entry_index := k\<rparr>) }
     else do {
       es \<leftarrow> link_after k candidate_offset (first_entry_index p) es;
       Some (p\<lparr>buffers_sorted_by_offset := es\<rparr>) } }"

primrec place_buffers :: "nat list \<Rightarrow> greedy_planner \<Rightarrow> greedy_planner option" where
  "place_buffers [] p = Some p"
| "place_buffers (i # is) p = Option.bind (place_buffer i p) (place_buffers is)"

text \<open>The offsets are those of the code while no end of a buffer reaches \<open>2\<^sup>3\<^sup>1\<close>.\<close>

definition CalculateOffsetsIfNeeded :: "greedy_planner \<Rightarrow> greedy_planner option" where
  "CalculateOffsetsIfNeeded p =
     (if \<not> need_to_calculate_offsets p \<or> buffer_count p = 0 then Some p
      else do {
        (idx_from_head, _, sizes, ids, offsets) \<leftarrow> split_offline (requirements p) [0..<buffer_count p]
           (0, buffer_count p, buffer_sizes_sorted p, buffer_ids_sorted p, buffer_offsets p);
        (sizes', ids') \<leftarrow> ReverseSortInPlace (drop idx_from_head sizes) (drop idx_from_head ids)
                            (buffer_count p - idx_from_head);
        p \<leftarrow> place_first (p\<lparr>need_to_calculate_offsets := False,
               buffer_sizes_sorted := take idx_from_head sizes @ sizes',
               buffer_ids_sorted := take idx_from_head ids @ ids', buffer_offsets := offsets\<rparr>);
        place_buffers [1..<buffer_count p] p })"

section \<open>Queries\<close>

text \<open>The loop of \<^verbatim>\<open>GetMaximumMemorySize\<close>; the sizes are converted to \<^verbatim>\<open>size_t\<close>.\<close>

partial_function (option) max_end :: "greedy_planner \<Rightarrow> int \<Rightarrow> nat \<Rightarrow> nat option" where
  "max_end p i max_size = do {
     entry \<leftarrow> vec_at (buffers_sorted_by_offset p) i;
     r \<leftarrow> vec_at (requirements p) (requirements_index entry);
     let current_size = nat ((entry_offset entry + req_size r) mod 2 ^ 64);
     let max_size = (if current_size > max_size then current_size else max_size);
     if next_entry_index entry = -1 then Some max_size
     else max_end p (next_entry_index entry) max_size }"

definition GetMaximumMemorySize :: "greedy_planner \<Rightarrow> (nat \<times> greedy_planner) option" where
  "GetMaximumMemorySize p = do {
     p \<leftarrow> CalculateOffsetsIfNeeded p;
     if buffer_count p = 0 then Some (0, p)
     else do { n \<leftarrow> max_end p (first_entry_index p) 0; Some (n, p) } }"

definition GetBufferCount :: "greedy_planner \<Rightarrow> nat" where
  "GetBufferCount p = buffer_count p"

definition GetOffsetForBuffer ::
  "int \<Rightarrow> greedy_planner \<Rightarrow> (tflite_status \<times> int option \<times> greedy_planner) option" where
  "GetOffsetForBuffer buffer_index p = do {
     p \<leftarrow> CalculateOffsetsIfNeeded p;
     if buffer_index < 0 \<or> buffer_index \<ge> int (buffer_count p) then Some (kTfLiteError, None, p)
     else do { offset \<leftarrow> vec_at (buffer_offsets p) buffer_index; Some (kTfLiteOk, Some offset, p) } }"

definition buffers_overlap :: "greedy_planner \<Rightarrow> nat \<Rightarrow> nat \<Rightarrow> bool" where
  "buffers_overlap p i j =
     (let a = requirements p ! i; a_start = buffer_offsets p ! i; a_end = a_start + req_size a;
          b = requirements p ! j; b_start = buffer_offsets p ! j; b_end = b_start + req_size b
      in if i = j then False
         else if first_time_used a > last_time_used b \<or> first_time_used b > last_time_used a then False
         else if a_start \<ge> b_end \<or> b_start \<ge> a_end then False
         else True)"

definition DoAnyBuffersOverlap :: "greedy_planner \<Rightarrow> (bool \<times> greedy_planner) option" where
  "DoAnyBuffersOverlap p = do {
     p \<leftarrow> CalculateOffsetsIfNeeded p;
     Some (list_ex (\<lambda>i. list_ex (buffers_overlap p i) [0..<buffer_count p]) [0..<buffer_count p], p) }"

lemmas [code] = ReverseSortInPlace.simps next_active.simps find_offset.simps link_after.simps max_end.simps

section \<open>The sorting ends and is stable\<close>

text \<open>
  The weighted sum of the values, relative to a lower bound \<open>m\<close> of them: moving a smaller value behind a
  larger one makes it smaller.
\<close>

primrec weight :: "int \<Rightarrow> nat \<Rightarrow> (int \<times> int) list \<Rightarrow> int" where
  "weight m k [] = 0"
| "weight m k (z # zs) = int k * (fst z - m) + weight m (Suc k) zs"

lemma weight_append: "weight m k (xs @ ys) = weight m k xs + weight m (k + length xs) ys"
  by (induction xs arbitrary: k) simp_all

lemma weight_nonneg: "\<forall>z\<in>set zs. m \<le> fst z \<Longrightarrow> 0 \<le> weight m k zs"
  by (induction zs arbitrary: k) simp_all

text \<open>\<open>xs\<close> was turned into \<open>ys\<close> by exchanging neighbours of different values.\<close>

definition bubbled :: "(int \<times> int) list \<Rightarrow> (int \<times> int) list \<Rightarrow> bool" where
  "bubbled xs ys \<longleftrightarrow> (\<forall>v. filter (\<lambda>z. fst z = v) ys = filter (\<lambda>z. fst z = v) xs)
     \<and> mset ys = mset xs \<and> (\<forall>m. weight m 0 ys \<le> weight m 0 xs)"

lemma bubbled_refl [simp]: "bubbled xs xs"
  by (simp add: bubbled_def)

lemma bubbled_trans: "bubbled xs ys \<Longrightarrow> bubbled ys zs \<Longrightarrow> bubbled xs zs"
  unfolding bubbled_def by (metis order_trans)

lemma exchange_bubbled:
  assumes "fst a < fst b"
  shows "bubbled (xs @ a # b # ys) (xs @ b # a # ys)"
    "weight m 0 (xs @ b # a # ys) < weight m 0 (xs @ a # b # ys)"
  using assms by (auto simp: bubbled_def weight_append algebra_simps)

lemma split_at_two:
  assumes "0 < i" "i < length xs"
  obtains us a b vs where "xs = us @ a # b # vs" "length us = i - 1"
proof -
  have "xs = take (i - 1) xs @ xs ! (i - 1) # xs ! i # drop (Suc i) xs"
    using assms by (metis Cons_nth_drop_Suc One_nat_def Suc_pred append_take_drop_id less_imp_diff_less)
  then show ?thesis using that assms by simp
qed

lemma sort_pass_bubbles:
  assumes "sort_pass is (values, ids, b) = (values', ids', b')" "length values = length ids"
    "\<forall>i\<in>set is. 0 < i \<and> i < length values"
  shows "length values' = length values \<and> length ids' = length ids
    \<and> bubbled (zip values ids) (zip values' ids')
    \<and> (b' \<longrightarrow> b \<or> (\<forall>m. weight m 0 (zip values' ids') < weight m 0 (zip values ids)))
    \<and> (\<not> b' \<longrightarrow> \<not> b \<and> values' = values \<and> ids' = ids \<and> (\<forall>i\<in>set is. values ! i \<le> values ! (i - 1)))"
  using assms
proof (induction "is" arbitrary: "values" ids b)
  case (Cons i "is")
  show ?case
  proof (cases "values ! (i - 1) < values ! i")
    case False
    then show ?thesis using Cons.IH [of "values" ids b] Cons.prems by auto
  next
    case True
    obtain us x y vs where v: "values = us @ x # y # vs" "length us = i - 1"
      by (rule split_at_two [of i "values"]) (use Cons.prems(3) in auto)
    obtain ps c d qs where j: "ids = ps @ c # d # qs" "length ps = i - 1"
      by (rule split_at_two [of i ids]) (use Cons.prems(2,3) in auto)
    have i: "0 < i" using Cons.prems(3) by simp
    let ?vals = "us @ y # x # vs" and ?ids = "ps @ d # c # qs"
    have new: "values[i - 1 := values ! i, i := values ! (i - 1)] = ?vals"
      "ids[i - 1 := ids ! i, i := ids ! (i - 1)] = ?ids" "x < y"
      using v j i True by (cases i; simp add: list_update_append nth_append)+
    have zips: "zip values ids = zip us ps @ (x, c) # (y, d) # zip vs qs"
      "zip ?vals ?ids = zip us ps @ (y, d) # (x, c) # zip vs qs"
      using v j by simp_all
    have ex: "bubbled (zip values ids) (zip ?vals ?ids)"
      "weight m 0 (zip ?vals ?ids) < weight m 0 (zip values ids)" for m
      unfolding zips using exchange_bubbled [of "(x, c)" "(y, d)"] new(3) by simp_all
    have pass: "sort_pass is (?vals, ?ids, True) = (values', ids', b')"
      using Cons.prems(1) True new(1,2) by simp
    note IH = Cons.IH [OF pass]
    have IH': "length values' = length ?vals \<and> length ids' = length ?ids
      \<and> bubbled (zip ?vals ?ids) (zip values' ids') \<and> b'"
      using IH v j Cons.prems(2,3) by auto
    moreover have "weight m 0 (zip values' ids') < weight m 0 (zip values ids)" for m
      using IH' ex(2) [of m] by (auto simp: bubbled_def intro: le_less_trans)
    ultimately show ?thesis
      using bubbled_trans [OF ex(1)] v j by auto
  qed
qed simp

lemma sort_pass_append:
  "length values = length ids \<Longrightarrow> \<forall>i\<in>set is. i < length values \<Longrightarrow>
   sort_pass is (values @ xs, ids @ ys, b)
     = (case sort_pass is (values, ids, b) of (v, j, b) \<Rightarrow> (v @ xs, j @ ys, b))"
  by (induction "is" arbitrary: "values" ids b) (auto simp: nth_append list_update_append)

definition by_size :: "int \<times> int \<Rightarrow> int" where
  "by_size z = - fst z"

lemma ReverseSortInPlace_sorts:
  assumes "length values = length ids"
  shows "\<exists>values' ids'. ReverseSortInPlace (values @ xs) (ids @ ys) (length values) = Some (values' @ xs, ids' @ ys)
    \<and> length values' = length values \<and> length ids' = length ids
    \<and> zip values' ids' = sort_key by_size (zip values ids)"
  using assms
proof (induction "nat (weight (Min (insert 0 (set values))) 0 (zip values ids))" arbitrary: "values" ids
    rule: less_induct)
  case less
  let ?m = "Min (insert 0 (set values))"
  obtain v j b where pass: "sort_pass [1..<length values] (values, ids, False) = (v, j, b)"
    by (metis prod_cases3)
  have facts: "length v = length values \<and> length j = length ids \<and> bubbled (zip values ids) (zip v j)
    \<and> (b \<longrightarrow> (\<forall>m. weight m 0 (zip v j) < weight m 0 (zip values ids)))
    \<and> (\<not> b \<longrightarrow> v = values \<and> j = ids \<and> (\<forall>i\<in>set [1..<length values]. values ! i \<le> values ! (i - 1)))"
    using sort_pass_bubbles [OF pass less.prems] by auto
  have full: "sort_pass [1..<length values] (values @ xs, ids @ ys, False) = (v @ xs, j @ ys, b)"
    using sort_pass_append [OF less.prems, of "[1..<length values]" xs ys False] pass by simp
  show ?case
  proof (cases b)
    case False
    have "values ! Suc i \<le> values ! i" if "Suc i < length values" for i
    proof -
      have "Suc i \<in> set [1..<length values]" using that by simp
      then show ?thesis using facts False by fastforce
    qed
    then have "sorted (map by_size (zip values ids))"
      using less.prems by (auto simp: sorted_iff_nth_Suc by_size_def)
    then have "sort_key by_size (zip values ids) = zip values ids"
      by (rule sort_key_id_if_sorted)
    then show ?thesis
      using full facts False less.prems by (subst ReverseSortInPlace.simps) auto
  next
    case True
    have perm: "mset (zip v j) = mset (zip values ids)"
      and stable: "filter (\<lambda>z. fst z = k) (zip v j) = filter (\<lambda>z. fst z = k) (zip values ids)" for k
      using facts by (simp_all add: bubbled_def)
    from arg_cong [OF perm, of "image_mset fst"] have "mset v = mset values"
      using less.prems facts by (simp add: mset_map [symmetric] del: mset_map)
    then have vals: "set v = set values" by (metis set_mset_mset)
    have "0 \<le> weight ?m 0 (zip v j)"
      by (rule weight_nonneg) (auto simp: vals dest!: set_zip_leftD)
    moreover have "weight ?m 0 (zip v j) < weight ?m 0 (zip values ids)" using facts True by blast
    ultimately have small: "nat (weight (Min (insert 0 (set v))) 0 (zip v j)) < nat (weight ?m 0 (zip values ids))"
      by (simp add: vals)
    have "sort_key by_size (zip values ids) = sort_key by_size (zip v j)"
    proof (rule properties_for_sort_key)
      show "mset (sort_key by_size (zip v j)) = mset (zip values ids)" using perm by simp
      show "filter (\<lambda>x. by_size k = by_size x) (sort_key by_size (zip v j))
          = filter (\<lambda>x. by_size k = by_size x) (zip values ids)" for k
        using stable [of "fst k"] sort_key_stable [of by_size "by_size k" "zip v j"]
        by (simp add: by_size_def eq_commute [of "fst k"])
    qed simp
    then show ?thesis
      using less.hyps [OF small] full facts True less.prems by (subst ReverseSortInPlace.simps) auto
  qed
qed

section \<open>The order in which buffers are placed\<close>

abbreviation online :: "buffer_requirements list \<Rightarrow> nat \<Rightarrow> bool" where
  "online reqs i \<equiv> offline_offset (reqs ! i) = kOnlinePlannedBuffer"

definition offline_ids :: "buffer_requirements list \<Rightarrow> nat \<Rightarrow> nat list" where
  "offline_ids reqs n = filter (\<lambda>i. \<not> online reqs i) [0..<n]"

definition online_ids :: "buffer_requirements list \<Rightarrow> nat \<Rightarrow> nat list" where
  "online_ids reqs n = rev (filter (online reqs) [0..<n])"

text \<open>
  The buffers that have an offset come first, in the order in which they were added. The others
  follow by decreasing size, of equal ones the last that was added first.
\<close>

definition placement_order :: "buffer_requirements list \<Rightarrow> nat \<Rightarrow> nat list" where
  "placement_order reqs n =
     offline_ids reqs n @ sort_key (\<lambda>i. - req_size (reqs ! i)) (online_ids reqs n)"

lemma split_offline_append:
  "split_offline reqs (is @ js) s = Option.bind (split_offline reqs is s) (split_offline reqs js)"
  by (induction "is" arbitrary: s) (auto split: bind_splits)

lemma take_Suc_update: "k < length xs \<Longrightarrow> take (Suc k) (xs[k := x]) = take k xs @ [x]"
  by (simp add: take_Suc_conv_app_nth)

lemma drop_take_update:
  assumes "0 < t" "t \<le> n" "n \<le> length xs"
  shows "drop (t - 1) (take n (xs[t - 1 := x])) = x # drop t (take n xs)"
proof -
  have "drop (t - 1) (take n (xs[t - 1 := x])) = (take n (xs[t - 1 := x])) ! (t - 1) # drop t (take n (xs[t - 1 := x]))"
    using assms by (subst Cons_nth_drop_Suc [symmetric]) simp_all
  then show ?thesis using assms by (simp add: take_update_swap)
qed

text \<open>The two ends of the arrays after the first \<open>j\<close> buffers.\<close>

definition filled :: "nat \<Rightarrow> nat \<Rightarrow> nat \<Rightarrow> 'a list \<Rightarrow> 'a list \<Rightarrow> 'a list \<Rightarrow> bool" where
  "filled n h t xs as bs \<longleftrightarrow> n \<le> length xs \<and> take h xs = as \<and> drop t (take n xs) = bs"

lemma filled_head:
  "filled n h t xs as bs \<Longrightarrow> h < t \<Longrightarrow> t \<le> n \<Longrightarrow> filled n (Suc h) t (xs[h := x]) (as @ [x]) bs"
  unfolding filled_def
  by (subst take_Suc_update) (simp_all add: drop_take)

lemma filled_tail:
  "filled n h t xs as bs \<Longrightarrow> h < t \<Longrightarrow> t \<le> n \<Longrightarrow> filled n h (t - 1) (xs[t - 1 := x]) as (x # bs)"
  using drop_take_update [of t n xs x] by (auto simp: filled_def)

lemma split_offline_fills:
  assumes "j \<le> n" "n \<le> length reqs" "n \<le> length sizes" "n \<le> length ids" "n \<le> length offsets"
  shows "\<exists>sizes' ids' offsets'. split_offline reqs [0..<j] (0, n, sizes, ids, offsets)
      = Some (length (offline_ids reqs j), n - length (online_ids reqs j), sizes', ids', offsets')
    \<and> filled n (length (offline_ids reqs j)) (n - length (online_ids reqs j)) sizes'
        (map (\<lambda>i. req_size (reqs ! i)) (offline_ids reqs j)) (map (\<lambda>i. req_size (reqs ! i)) (online_ids reqs j))
    \<and> filled n (length (offline_ids reqs j)) (n - length (online_ids reqs j)) ids'
        (map int (offline_ids reqs j)) (map int (online_ids reqs j))
    \<and> length sizes' = length sizes \<and> length ids' = length ids \<and> length offsets' = length offsets
    \<and> (\<forall>i<j. offsets' ! i = offline_offset (reqs ! i))"
  using assms(1)
proof (induction j)
  case 0
  show ?case using assms(2-) by (simp add: offline_ids_def online_ids_def filled_def)
next
  case (Suc j)
  let ?h = "length (offline_ids reqs j)" and ?t = "n - length (online_ids reqs j)"
  obtain ss js os where ih: "split_offline reqs [0..<j] (0, n, sizes, ids, offsets) = Some (?h, ?t, ss, js, os)"
    "filled n ?h ?t ss (map (\<lambda>i. req_size (reqs ! i)) (offline_ids reqs j))
       (map (\<lambda>i. req_size (reqs ! i)) (online_ids reqs j))"
    "filled n ?h ?t js (map int (offline_ids reqs j)) (map int (online_ids reqs j))"
    "length ss = length sizes" "length js = length ids" "length os = length offsets"
    "\<forall>i<j. os ! i = offline_offset (reqs ! i)"
    using Suc by auto
  have count: "?h + length (online_ids reqs j) = j"
    using sum_length_filter_compl [of "online reqs" "[0..<j]"] by (simp add: offline_ids_def online_ids_def)
  then have ht: "?h < ?t" "?t \<le> n" "0 < ?t" using Suc.prems by auto
  show ?case
  proof (cases "online reqs j")
    case True
    then have ids: "offline_ids reqs (Suc j) = offline_ids reqs j" "online_ids reqs (Suc j) = j # online_ids reqs j"
      by (simp_all add: offline_ids_def online_ids_def)
    then have t: "n - length (online_ids reqs (Suc j)) = ?t - 1" by simp
    have in_range: "?t - 1 < length sizes" "?t - 1 < length ids"
      "nat (int n - (1 + int (length (online_ids reqs j)))) = n - Suc (length (online_ids reqs j))"
      using ht assms(3,4) by linarith+
    show ?thesis
      using ih True Suc.prems assms(2-) ht in_range filled_tail [OF ih(2) ht(1,2), of "req_size (reqs ! j)"]
        filled_tail [OF ih(3) ht(1,2), of "int j"]
      unfolding t
      by (simp add: split_offline_append split_step_def vec_at_def vec_set_def in_bounds_def ids
          nth_list_update less_Suc_eq Let_def del: not_None_eq)
  next
    case False
    then have ids: "offline_ids reqs (Suc j) = offline_ids reqs j @ [j]" "online_ids reqs (Suc j) = online_ids reqs j"
      by (simp_all add: offline_ids_def online_ids_def)
    have in_range: "?h < length sizes" "?h < length ids" using ht assms(3,4) by linarith+
    show ?thesis
      using ih False Suc.prems assms(2-) ht filled_head [OF ih(2) ht(1,2), of "req_size (reqs ! j)"]
        filled_head [OF ih(3) ht(1,2), of "int j"]
      by (simp add: split_offline_append split_step_def vec_at_def vec_set_def in_bounds_def ids in_range
          nth_list_update less_Suc_eq Let_def del: not_None_eq)
  qed
qed

lemma split_offline_done:
  assumes "n \<le> length reqs" "n \<le> length sizes" "n \<le> length ids" "n \<le> length offsets"
  obtains sizes' ids' offsets' where
    "split_offline reqs [0..<n] (0, n, sizes, ids, offsets)
      = Some (length (offline_ids reqs n), length (offline_ids reqs n), sizes', ids', offsets')"
    "take n sizes' = map (\<lambda>i. req_size (reqs ! i)) (offline_ids reqs n @ online_ids reqs n)"
    "take n ids' = map int (offline_ids reqs n @ online_ids reqs n)"
    "length sizes' = length sizes" "length ids' = length ids" "length offsets' = length offsets"
    "\<forall>i<n. offsets' ! i = offline_offset (reqs ! i)"
proof -
  let ?h = "length (offline_ids reqs n)"
  have count: "n - length (online_ids reqs n) = ?h" "?h \<le> n"
    using sum_length_filter_compl [of "online reqs" "[0..<n]"] by (simp_all add: offline_ids_def online_ids_def)
  have joined: "take n xs = as @ bs" if "filled n ?h ?h xs as bs" for xs as bs :: "'b list"
    using that append_take_drop_id [of ?h "take n xs"] count(2) by (simp add: filled_def min_def)
  show ?thesis
    using split_offline_fills [of n n reqs sizes ids offsets] assms that joined
    unfolding count(1) by (fastforce simp del: map_append simp: map_append [symmetric])
qed

section \<open>The reference plan\<close>

text \<open>
  The plan as a list of pairs of a buffer and its offset, ordered by offset. A buffer without an offset
  of its own goes into the first gap between the buffers that are in use at the same time as it.
\<close>

type_synonym placed = "nat \<times> int"

definition in_use_together :: "buffer_requirements \<Rightarrow> buffer_requirements \<Rightarrow> bool" where
  "in_use_together r s \<longleftrightarrow> first_time_used r \<le> last_time_used s \<and> first_time_used s \<le> last_time_used r"

definition placed_end :: "buffer_requirements list \<Rightarrow> placed \<Rightarrow> int" where
  "placed_end reqs e = snd e + req_size (reqs ! fst e)"

primrec first_gap :: "int \<Rightarrow> int \<Rightarrow> (int \<times> int) list \<Rightarrow> int" where
  "first_gap w x [] = x"
| "first_gap w x (r # rs) = (if w \<le> fst r - x then x else first_gap w (max x (snd r)) rs)"

definition obstacles :: "buffer_requirements list \<Rightarrow> buffer_requirements \<Rightarrow> placed list \<Rightarrow> (int \<times> int) list" where
  "obstacles reqs r es = map (\<lambda>e. (snd e, placed_end reqs e)) (filter (\<lambda>e. in_use_together (reqs ! fst e) r) es)"

definition greedy_offset :: "buffer_requirements list \<Rightarrow> placed list \<Rightarrow> nat \<Rightarrow> int" where
  "greedy_offset reqs es b =
     (if online reqs b then first_gap (req_size (reqs ! b)) 0 (obstacles reqs (reqs ! b) es)
      else offline_offset (reqs ! b))"

primrec insert_placed :: "placed \<Rightarrow> placed list \<Rightarrow> placed list" where
  "insert_placed e [] = [e]"
| "insert_placed e (f # fs) = (if snd f > snd e then e # f # fs else f # insert_placed e fs)"

definition greedy_place :: "buffer_requirements list \<Rightarrow> placed list \<Rightarrow> nat \<Rightarrow> placed list" where
  "greedy_place reqs es b = insert_placed (b, greedy_offset reqs es b) es"

definition greedy_plan :: "buffer_requirements list \<Rightarrow> nat list \<Rightarrow> placed list" where
  "greedy_plan reqs = foldl (greedy_place reqs) []"

lemma set_insert_placed [simp]: "set (insert_placed e es) = insert e (set es)"
  by (induction es) auto

lemma length_insert_placed [simp]: "length (insert_placed e es) = Suc (length es)"
  by (induction es) auto

lemma insert_placed_not_Nil [simp]: "insert_placed e es \<noteq> []"
  by (cases es) simp_all

lemma sorted_insert_placed: "sorted (map snd es) \<Longrightarrow> sorted (map snd (insert_placed e es))"
  by (induction es) auto

lemma greedy_plan_snoc: "greedy_plan reqs (bs @ [b]) = greedy_place reqs (greedy_plan reqs bs) b"
  by (simp add: greedy_plan_def)

lemma greedy_plan_Nil [simp]: "greedy_plan reqs [] = []"
  by (simp add: greedy_plan_def)

lemma fst_greedy_plan: "fst ` set (greedy_plan reqs bs) = set bs"
  by (induction bs rule: rev_induct) (simp_all add: greedy_plan_snoc greedy_place_def)

lemma sorted_greedy_plan: "sorted (map snd (greedy_plan reqs bs))"
  by (induction bs rule: rev_induct) (simp_all add: greedy_plan_snoc greedy_place_def sorted_insert_placed)

section \<open>The linked list holds the reference plan\<close>

text \<open>The indices along the list from index \<open>i\<close> to the end.\<close>

primrec chain :: "list_entry list \<Rightarrow> int \<Rightarrow> nat list \<Rightarrow> bool" where
  "chain es i [] \<longleftrightarrow> i = -1"
| "chain es i (k # ks) \<longleftrightarrow> i = int k \<and> k < length es \<and> chain es (next_entry_index (es ! k)) ks"

lemma chain_append: "chain es i (js @ k # ks) \<Longrightarrow> chain es (int k) (k # ks)"
  by (induction js arbitrary: i) auto

lemma chain_bounds: "chain es i ks \<Longrightarrow> k \<in> set ks \<Longrightarrow> k < length es"
  by (induction ks arbitrary: i) auto

lemma chain_start: "chain es i ks \<Longrightarrow> i = -1 \<longleftrightarrow> ks = []"
  by (cases ks) auto

lemma chain_update: "k \<notin> set ks \<Longrightarrow> chain (es[k := e]) i ks = chain es i ks"
  by (induction ks arbitrary: i) auto

lemma chain_cong:
  "length es' = length es \<Longrightarrow> (\<And>k. k \<in> set ks \<Longrightarrow> next_entry_index (es' ! k) = next_entry_index (es ! k)) \<Longrightarrow>
   chain es' i ks = chain es i ks"
  by (induction ks arbitrary: i) auto

definition shown :: "list_entry \<Rightarrow> placed" where
  "shown e = (nat (requirements_index e), entry_offset e)"

text \<open>All entries of the list belong to a buffer.\<close>

definition known :: "greedy_planner \<Rightarrow> nat list \<Rightarrow> bool" where
  "known p ks \<longleftrightarrow> (\<forall>k\<in>set ks. in_bounds (requirements p) (requirements_index (buffers_sorted_by_offset p ! k)))"

abbreviation entry_req :: "greedy_planner \<Rightarrow> nat \<Rightarrow> buffer_requirements" where
  "entry_req p k \<equiv> requirements p ! nat (requirements_index (buffers_sorted_by_offset p ! k))"

definition active :: "greedy_planner \<Rightarrow> buffer_requirements \<Rightarrow> nat \<Rightarrow> bool" where
  "active p r k \<longleftrightarrow> in_use_together (entry_req p k) r"

definition first_of :: "nat list \<Rightarrow> int option" where
  "first_of ks = (case ks of [] \<Rightarrow> None | k # _ \<Rightarrow> Some (int k))"

lemma DoesEntryOverlapInTime_active:
  "known p ks \<Longrightarrow> k \<in> set ks \<Longrightarrow>
   DoesEntryOverlapInTime p (buffers_sorted_by_offset p ! k) (first_time_used r) (last_time_used r) = Some (active p r k)"
  by (auto simp: known_def DoesEntryOverlapInTime_def vec active_def in_use_together_def)

lemma next_active_finds:
  "chain (buffers_sorted_by_offset p) i ks \<Longrightarrow> known p ks \<Longrightarrow> ks \<noteq> [] \<Longrightarrow>
   next_active p (first_time_used r) (last_time_used r) i = Some (first_of (filter (active p r) ks))"
proof (induction ks arbitrary: i)
  case (Cons k ks)
  let ?e = "buffers_sorted_by_offset p ! k"
  have k: "i = int k" "k < length (buffers_sorted_by_offset p)"
    "chain (buffers_sorted_by_offset p) (next_entry_index ?e) ks" and ks: "known p ks"
    using Cons.prems(1,2) by (auto simp: known_def)
  have overlap: "DoesEntryOverlapInTime p ?e (first_time_used r) (last_time_used r) = Some (active p r k)"
    using Cons.prems(2) by (rule DoesEntryOverlapInTime_active) simp
  show ?case
    using Cons.IH [OF k(3) ks] chain_start [OF k(3)] k(2)
    by (subst next_active.simps) (auto simp: k(1) vec overlap first_of_def)
qed simp

lemma NextSimultaneouslyActiveBuffer_start:
  "chain (buffers_sorted_by_offset p) (first_entry_index p) ks \<Longrightarrow> known p ks \<Longrightarrow> ks \<noteq> [] \<Longrightarrow>
   NextSimultaneouslyActiveBuffer p None (first_time_used r) (last_time_used r)
     = Some (first_of (filter (active p r) ks))"
  by (simp add: NextSimultaneouslyActiveBuffer_def next_active_finds)

lemma NextSimultaneouslyActiveBuffer_next:
  "chain (buffers_sorted_by_offset p) (int k) (k # ks) \<Longrightarrow> known p (k # ks) \<Longrightarrow>
   NextSimultaneouslyActiveBuffer p (Some (int k)) (first_time_used r) (last_time_used r)
     = Some (first_of (filter (active p r) ks))"
  using next_active_finds [of p "next_entry_index (buffers_sorted_by_offset p ! k)" ks r]
    chain_start [of "buffers_sorted_by_offset p" "next_entry_index (buffers_sorted_by_offset p ! k)" ks]
  by (auto simp: NextSimultaneouslyActiveBuffer_def vec known_def first_of_def)

text \<open>The ranges of the entries that are in use together with a buffer.\<close>

definition ranges :: "greedy_planner \<Rightarrow> buffer_requirements \<Rightarrow> nat list \<Rightarrow> (int \<times> int) list" where
  "ranges p r ks = map (\<lambda>k. (entry_offset (buffers_sorted_by_offset p ! k),
     entry_offset (buffers_sorted_by_offset p ! k) + req_size (entry_req p k))) (filter (active p r) ks)"

lemma ranges_obstacles:
  "ranges p r ks = obstacles (requirements p) r (map (shown \<circ> (!) (buffers_sorted_by_offset p)) ks)"
  by (induction ks) (simp_all add: ranges_def obstacles_def shown_def placed_end_def active_def)

lemma larger_is_max: "(if x < y then y else x) = max x (y :: int)"
  by simp

text \<open>One round of the loop: what is left of the list is behind the next entry that is in use.\<close>

lemma next_round:
  assumes "chain es i (us @ ks)" "filter P ks = j # js"
  obtains vs ws where "ks = vs @ j # ws" "filter P ws = js" "chain es (int j) (j # ws)"
proof -
  obtain vs ws where "ks = vs @ j # ws" "filter P ws = js"
    using assms(2) by (auto simp: filter_eq_Cons_iff)
  moreover from this have "chain es (int j) (j # ws)"
    using assms(1) chain_append [of es i "us @ vs" j ws] by simp
  ultimately show ?thesis by (rule that)
qed

lemma find_offset_after:
  assumes "chain (buffers_sorted_by_offset p) (int k) (k # ks)" "known p (k # ks)"
  shows "find_offset p r (Some (int k)) x
    = Some (first_gap (req_size r) (max x (entry_offset (buffers_sorted_by_offset p ! k) + req_size (entry_req p k)))
        (ranges p r ks))"
  using assms
proof (induction "length ks" arbitrary: k ks x rule: less_induct)
  case less
  let ?es = "buffers_sorted_by_offset p"
  have prior: "vec_at ?es (int k) = Some (?es ! k)"
    "vec_at (requirements p) (requirements_index (?es ! k)) = Some (entry_req p k)"
    using less.prems by (simp_all add: vec known_def)
  show ?case
  proof (cases "filter (active p r) ks")
    case Nil
    then show ?thesis
      by (subst find_offset.simps)
        (simp add: NextSimultaneouslyActiveBuffer_next [OF less.prems] prior first_of_def ranges_def Let_def larger_is_max)
  next
    case (Cons j js)
    obtain vs ws where j: "ks = vs @ j # ws" "filter (active p r) ws = js" "chain ?es (int j) (j # ws)"
      using next_round [of ?es "int k" "[k]" ks "active p r" j js] less.prems(1) Cons by auto
    have known: "known p (j # ws)" using less.prems(2) j(1) by (auto simp: known_def)
    have "ranges p r ks = (entry_offset (?es ! j), entry_offset (?es ! j) + req_size (entry_req p j)) # ranges p r ws"
      using Cons j(2) by (simp add: ranges_def)
    moreover have "vec_at ?es (int j) = Some (?es ! j)" using j(3) by (simp add: vec)
    moreover have "length ws < length ks" using j(1) by simp
    moreover note less.hyps [OF this j(3) known]
    ultimately show ?thesis
      by (subst find_offset.simps)
        (simp add: NextSimultaneouslyActiveBuffer_next [OF less.prems] prior first_of_def Cons Let_def larger_is_max)
  qed
qed

lemma find_offset_first_gap:
  assumes "chain (buffers_sorted_by_offset p) (first_entry_index p) ks" "known p ks" "ks \<noteq> []"
  shows "find_offset p r None 0 = Some (first_gap (req_size r) 0 (ranges p r ks))"
proof (cases "filter (active p r) ks")
  case Nil
  then show ?thesis
    by (subst find_offset.simps)
      (simp add: NextSimultaneouslyActiveBuffer_start [OF assms] first_of_def ranges_def)
next
  case (Cons j js)
  let ?es = "buffers_sorted_by_offset p"
  obtain vs ws where j: "ks = vs @ j # ws" "filter (active p r) ws = js" "chain ?es (int j) (j # ws)"
    using next_round [of ?es "first_entry_index p" "[]" ks "active p r" j js] assms(1) Cons by auto
  have known: "known p (j # ws)" using assms(2) j(1) by (auto simp: known_def)
  have "ranges p r ks = (entry_offset (?es ! j), entry_offset (?es ! j) + req_size (entry_req p j)) # ranges p r ws"
    using Cons j(2) by (simp add: ranges_def)
  moreover have "vec_at ?es (int j) = Some (?es ! j)" using j(3) by (simp add: vec)
  ultimately show ?thesis
    using find_offset_after [OF j(3) known]
    by (subst find_offset.simps)
      (simp add: NextSimultaneouslyActiveBuffer_start [OF assms] first_of_def Cons Let_def larger_is_max)
qed

section \<open>Placing a buffer refines the reference\<close>

primrec insert_index :: "list_entry list \<Rightarrow> int \<Rightarrow> nat \<Rightarrow> nat list \<Rightarrow> nat list" where
  "insert_index es x k [] = [k]"
| "insert_index es x k (j # js) =
     (if entry_offset (es ! j) > x then k # j # js else j # insert_index es x k js)"

lemma set_insert_index [simp]: "set (insert_index es x k js) = insert k (set js)"
  by (induction js) auto

lemma distinct_insert_index: "distinct js \<Longrightarrow> k \<notin> set js \<Longrightarrow> distinct (insert_index es x k js)"
  by (induction js) auto

lemma length_insert_index [simp]: "length (insert_index es x k js) = Suc (length js)"
  by (induction js) auto

text \<open>Linking changes nothing but the links, and only those of the list and of the new entry.\<close>

definition relinked :: "nat set \<Rightarrow> list_entry list \<Rightarrow> list_entry list \<Rightarrow> bool" where
  "relinked ks es es' \<longleftrightarrow> length es' = length es \<and> (\<forall>j. j \<notin> ks \<longrightarrow> es' ! j = es ! j)
     \<and> (\<forall>j. entry_offset (es' ! j) = entry_offset (es ! j) \<and> requirements_index (es' ! j) = requirements_index (es ! j))"

lemma relinked_link:
  "k < length es \<Longrightarrow> k \<in> ks \<Longrightarrow> e = (es ! k)\<lparr>next_entry_index := i\<rparr> \<Longrightarrow> relinked ks es (es[k := e])"
  by (auto simp: relinked_def nth_list_update)

lemma relinked_trans: "relinked ks es es' \<Longrightarrow> relinked ks es' es'' \<Longrightarrow> relinked ks es es''"
  by (simp add: relinked_def)

lemma relinked_mono: "relinked js es es' \<Longrightarrow> js \<subseteq> ks \<Longrightarrow> relinked ks es es'"
  by (auto simp: relinked_def)

lemma link_after_links:
  assumes "chain es (int c) (c # ks)" "k < length es" "k \<notin> set (c # ks)" "distinct (c # ks)"
  shows "\<exists>es'. link_after (int k) x (int c) es = Some es'
    \<and> chain es' (int c) (c # insert_index es x k ks) \<and> relinked (insert k (set (c # ks))) es es'"
  using assms
proof (induction ks arbitrary: c)
  case Nil
  let ?es1 = "es[c := (es ! c)\<lparr>next_entry_index := int k\<rparr>]"
  let ?es2 = "?es1[k := (es ! k)\<lparr>next_entry_index := -1\<rparr>]"
  have c: "c < length es" "next_entry_index (es ! c) = -1" "c \<noteq> k" using Nil by auto
  have "link_after (int k) x (int c) es = Some ?es2"
    using c Nil.prems(2) by (subst link_after.simps) (simp add: vec Let_def)
  moreover have "relinked {k, c} es ?es1" "relinked {k, c} ?es1 ?es2"
    by (rule relinked_link [OF _ _ refl] relinked_link; use c Nil.prems(2) in simp)+
  ultimately show ?case
    using c Nil.prems(2) by (auto intro: relinked_trans)
next
  case (Cons j ks)
  have c: "c < length es" "next_entry_index (es ! c) = int j" "c \<noteq> k" and j: "chain es (int j) (j # ks)" "j < length es" "j \<noteq> k"
    "k \<notin> set ks" "c \<notin> set ks" "c \<noteq> j"
    using Cons.prems by auto
  show ?case
  proof (cases "entry_offset (es ! j) > x")
    case True
    let ?es1 = "es[k := (es ! k)\<lparr>next_entry_index := int j\<rparr>]"
    let ?es2 = "?es1[c := (es ! c)\<lparr>next_entry_index := int k\<rparr>]"
    have "link_after (int k) x (int c) es = Some ?es2"
      using c j True Cons.prems(2) by (subst link_after.simps) (simp add: vec Let_def)
    moreover have "relinked (insert k (set (c # j # ks))) es ?es1" "relinked (insert k (set (c # j # ks))) ?es1 ?es2"
      by (rule relinked_link [OF _ _ refl] relinked_link; use c Cons.prems(2) in simp)+
    moreover have "chain ?es2 (int j) (j # ks)"
      using j(1) by (subst chain_update; (subst chain_update)?; use j in simp)
    ultimately show ?thesis
      using c j True Cons.prems(2) by (auto intro: relinked_trans)
  next
    case False
    obtain es' where es': "link_after (int k) x (int j) es = Some es'"
      "chain es' (int j) (j # insert_index es x k ks)" "relinked (insert k (set (j # ks))) es es'"
      using Cons.IH [OF j(1) Cons.prems(2)] Cons.prems(3,4) by auto
    have "link_after (int k) x (int c) es = Some es'"
      using c j False es'(1) by (subst link_after.simps) (simp add: vec Let_def)
    moreover have "es' ! c = es ! c" "length es' = length es"
      using es'(3) c j by (auto simp: relinked_def)
    ultimately show ?thesis
      using es' c False by (auto intro: relinked_mono)
  qed
qed

text \<open>The list from \<open>first_entry_index\<close> holds the buffers \<open>placed\<close>, in the entries below \<open>next_free_entry\<close>.\<close>

definition holds_in :: "greedy_planner \<Rightarrow> nat list \<Rightarrow> placed list \<Rightarrow> bool" where
  "holds_in p ks placed \<longleftrightarrow> chain (buffers_sorted_by_offset p) (first_entry_index p) ks \<and> known p ks
     \<and> distinct ks \<and> set ks = {..<length ks} \<and> next_free_entry p = int (length ks)
     \<and> placed = map (shown \<circ> (!) (buffers_sorted_by_offset p)) ks"

definition holds_plan :: "greedy_planner \<Rightarrow> placed list \<Rightarrow> bool" where
  "holds_plan p placed \<longleftrightarrow> (\<exists>ks. holds_in p ks placed)"

lemma shown_insert_index:
  "(\<And>j. j \<in> set js \<Longrightarrow> entry_offset (es ! j) = entry_offset (es' ! j) \<and> requirements_index (es ! j) = requirements_index (es' ! j)) \<Longrightarrow>
   x = entry_offset (es ! k) \<Longrightarrow>
   map (shown \<circ> (!) es) (insert_index es' x k js) = insert_placed (shown (es ! k)) (map (shown \<circ> (!) es') js)"
  by (induction js) (auto simp: shown_def)

lemma place_buffer_holds:
  assumes p: "holds_plan p placed" "placed \<noteq> []" "length placed < length (buffers_sorted_by_offset p)"
    and b: "vec_at (buffer_ids_sorted p) (int i) = Some (int b)" "b < length (requirements p)" "b < length (buffer_offsets p)"
  shows "\<exists>es j. place_buffer i p = Some (p\<lparr>buffers_sorted_by_offset := es, first_entry_index := j,
        next_free_entry := next_free_entry p + 1,
        buffer_offsets := (buffer_offsets p)[b := greedy_offset (requirements p) placed b]\<rparr>)
     \<and> length es = length (buffers_sorted_by_offset p)
     \<and> holds_plan (p\<lparr>buffers_sorted_by_offset := es, first_entry_index := j,
        next_free_entry := next_free_entry p + 1,
        buffer_offsets := (buffer_offsets p)[b := greedy_offset (requirements p) placed b]\<rparr>)
        (greedy_place (requirements p) placed b)"
proof -
  obtain ks where ks: "holds_in p ks placed" using p(1) by (auto simp: holds_plan_def)
  note k = ks [unfolded holds_in_def]
  let ?es = "buffers_sorted_by_offset p" and ?reqs = "requirements p" and ?n = "length ks"
  define x where "x = greedy_offset ?reqs placed b"
  have place: "greedy_place ?reqs placed b = insert_placed (b, x) placed"
    by (simp add: greedy_place_def x_def)
  obtain c cs where c: "ks = c # cs" using p(2) k by (cases ks) auto
  have free: "next_free_entry p = int ?n" using k by simp
  have n: "?n < length ?es" "?n \<notin> set ks" using p(3) k by auto
  have cand: "(if offline_offset (?reqs ! b) = kOnlinePlannedBuffer then find_offset p (?reqs ! b) None 0
      else Some (offline_offset (?reqs ! b))) = Some x"
    using k c find_offset_first_gap [of p ks "?reqs ! b"] by (auto simp: x_def greedy_offset_def ranges_obstacles)
  let ?new = "(?es ! ?n)\<lparr>entry_offset := x, requirements_index := int b\<rparr>"
  let ?es1 = "?es[?n := ?new]"
  have same: "?es1 ! j = ?es ! j" if "j \<in> set ks" for j using that n by (cases "j = ?n") simp_all
  have chain1: "chain ?es1 (first_entry_index p) ks" using k n by (simp add: chain_update)
  have first: "first_entry_index p = int c" using k c by simp
  have cc: "c < length ?es" "c \<noteq> ?n" using chain_bounds [of ?es "first_entry_index p" ks c] k c n by auto
  have step: "place_buffer i p = (let p = p\<lparr>buffer_offsets := (buffer_offsets p)[b := x], next_free_entry := next_free_entry p + 1\<rparr> in
      if entry_offset (?es ! c) > x
      then Some (p\<lparr>buffers_sorted_by_offset := ?es1[?n := ?new\<lparr>next_entry_index := int c\<rparr>], first_entry_index := int ?n\<rparr>)
      else do { es \<leftarrow> link_after (int ?n) x (int c) ?es1; Some (p\<lparr>buffers_sorted_by_offset := es\<rparr>) })"
    using b cand k n cc first by (simp add: place_buffer_def vec Let_def)
  show ?thesis
  proof (cases "entry_offset (?es ! c) > x")
    case True
    let ?es2 = "?es1[?n := ?new\<lparr>next_entry_index := int c\<rparr>]"
    let ?p = "p\<lparr>buffers_sorted_by_offset := ?es2, first_entry_index := int ?n,
        next_free_entry := next_free_entry p + 1, buffer_offsets := (buffer_offsets p)[b := x]\<rparr>"
    have "chain ?es2 (int ?n) (?n # ks)"
      using chain1 n first by (simp add: chain_update)
    moreover have "greedy_place ?reqs placed b = map (shown \<circ> (!) ?es2) (?n # ks)"
    proof -
      have "map (shown \<circ> (!) ?es2) ks = placed"
        using k same by (auto simp: shown_def nth_list_update)
      moreover have "placed = shown (?es ! c) # map (shown \<circ> (!) ?es) cs" using k c by simp
      ultimately show ?thesis unfolding place using True n by (simp add: shown_def)
    qed
    moreover have "known ?p (?n # ks)" using k n b by (auto simp: known_def nth_list_update)
    moreover have "set (?n # ks) = {..<length (?n # ks)}" "distinct (?n # ks)" using k n by (auto simp: lessThan_Suc)
    ultimately have "holds_in ?p (?n # ks) (greedy_place ?reqs placed b)" using free n by (simp add: holds_in_def)
    then have "holds_plan ?p (greedy_place ?reqs placed b)" by (auto simp: holds_plan_def)
    moreover have "place_buffer i p = Some ?p" using step True by (simp add: Let_def)
    ultimately show ?thesis by (intro exI [of _ ?es2] exI [of _ "int ?n"]) (simp add: x_def [symmetric])
  next
    case False
    obtain es2 where es2: "link_after (int ?n) x (int c) ?es1 = Some es2"
      "chain es2 (int c) (c # insert_index ?es1 x ?n cs)" "relinked (insert ?n (set ks)) ?es1 es2"
      using link_after_links [of ?es1 c cs ?n x] chain1 c first n k by auto
    let ?p = "p\<lparr>buffers_sorted_by_offset := es2, first_entry_index := int c,
        next_free_entry := next_free_entry p + 1, buffer_offsets := (buffer_offsets p)[b := x]\<rparr>"
    let ?ks = "c # insert_index ?es1 x ?n cs"
    note r = es2(3) [unfolded relinked_def]
    have new: "?es1 ! ?n = ?new" using n by simp
    have fields: "entry_offset (es2 ! j) = entry_offset (?es1 ! j)"
      "requirements_index (es2 ! j) = requirements_index (?es1 ! j)" for j
      using r by blast+
    have "map (shown \<circ> (!) es2) (insert_index ?es1 x ?n cs)
        = insert_placed (shown (es2 ! ?n)) (map (shown \<circ> (!) ?es1) cs)"
      by (rule shown_insert_index; (simp only: fields new)?; simp?)
    moreover have "shown (es2 ! ?n) = (b, x)"
      by (simp only: shown_def fields new) simp
    moreover have "map (shown \<circ> (!) ?es1) cs = map (shown \<circ> (!) ?es) cs"
      using same c by (intro map_cong refl) simp
    moreover have "shown (es2 ! c) = shown (?es ! c)" using same [of c] c by (simp only: shown_def fields) simp
    moreover have "placed = shown (?es ! c) # map (shown \<circ> (!) ?es) cs" using k c by simp
    ultimately have "greedy_place ?reqs placed b = map (shown \<circ> (!) es2) ?ks"
      unfolding place using False by (simp add: shown_def)
    moreover have "known ?p ?ks"
    proof -
      have "in_bounds ?reqs (requirements_index (?es1 ! j))" if "j \<in> insert ?n (set ks)" for j
        using that k same [of j] new b(2) by (cases "j = ?n") (auto simp: known_def)
      then show ?thesis using c fields by (simp add: known_def)
    qed
    moreover have "distinct ?ks"
    proof -
      have "distinct (c # cs)" "?n \<notin> set (c # cs)" using k n c by simp_all
      then show ?thesis using distinct_insert_index [of cs ?n ?es1 x] by simp
    qed
    moreover have "set ?ks = {..<length ?ks}"
      using k n c by (auto simp: lessThan_Suc)
    ultimately have "holds_in ?p ?ks (greedy_place ?reqs placed b)"
      using k c es2(2) by (simp add: holds_in_def)
    then have "holds_plan ?p (greedy_place ?reqs placed b)" by (auto simp: holds_plan_def)
    moreover have "place_buffer i p = Some ?p" using step False es2(1) first by (simp add: Let_def)
    ultimately show ?thesis using r by (intro exI [of _ es2] exI [of _ "int c"]) (simp add: x_def [symmetric])
  qed
qed

section \<open>The planner computes the reference plan\<close>

lemma insort_key_map: "insort_key f (g x) (map g xs) = map g (insort_key (\<lambda>x. f (g x)) x xs)"
  by (induction xs) simp_all

lemma sort_key_map: "sort_key f (map g xs) = map g (sort_key (\<lambda>x. f (g x)) xs)"
  by (induction xs) (simp_all add: insort_key_map)

lemma ids_less: "set (offline_ids reqs n) \<union> set (online_ids reqs n) = {..<n}"
  by (auto simp: offline_ids_def online_ids_def)

lemma set_placement_order [simp]: "set (placement_order reqs n) = {..<n}"
  using ids_less by (simp add: placement_order_def)

lemma distinct_placement_order [simp]: "distinct (placement_order reqs n)"
  by (auto simp: placement_order_def offline_ids_def online_ids_def)

lemma length_placement_order [simp]: "length (placement_order reqs n) = n"
  using distinct_card [OF distinct_placement_order, of reqs n] by simp

text \<open>The arrays after sorting.\<close>

lemma sort_online_ids:
  assumes "take n sizes = map (\<lambda>i. req_size (reqs ! i)) (offline_ids reqs n @ online_ids reqs n)"
    "take n ids = map int (offline_ids reqs n @ online_ids reqs n)"
    "n \<le> length sizes" "n \<le> length ids"
  shows "\<exists>sizes' ids'. ReverseSortInPlace (drop (length (offline_ids reqs n)) sizes) (drop (length (offline_ids reqs n)) ids)
        (n - length (offline_ids reqs n)) = Some (sizes', ids')
    \<and> length sizes' = length sizes - length (offline_ids reqs n) \<and> length ids' = length ids - length (offline_ids reqs n)
    \<and> take n (take (length (offline_ids reqs n)) ids @ ids') = map int (placement_order reqs n)"
proof -
  let ?f = "\<lambda>i. req_size (reqs ! i)" and ?h = "length (offline_ids reqs n)" and ?on = "online_ids reqs n"
  have h: "?h + length ?on = n"
    using assms(2,4) by (metis length_append length_map length_take min.absorb2)
  have split: "drop ?h sizes = map ?f ?on @ drop n sizes" "drop ?h ids = map int ?on @ drop n ids"
    "take ?h ids = map int (offline_ids reqs n)"
  proof -
    have parts: "drop ?h xs = drop ?h (take n xs) @ drop n xs" "take ?h xs = take ?h (take n xs)" if "n \<le> length xs"
      for xs :: "int list"
      using that h append_take_drop_id [of "n - ?h" "drop ?h xs"] by (simp_all add: drop_take min_def)
    show "drop ?h sizes = map ?f ?on @ drop n sizes" using parts(1) [OF assms(3)] assms(1) by simp
    show "drop ?h ids = map int ?on @ drop n ids" using parts(1) [OF assms(4)] assms(2) by simp
    show "take ?h ids = map int (offline_ids reqs n)" using parts(2) [OF assms(4)] assms(2) by simp
  qed
  obtain v j where vj: "ReverseSortInPlace (map ?f ?on @ drop n sizes) (map int ?on @ drop n ids) (length (map ?f ?on))
      = Some (v @ drop n sizes, j @ drop n ids)" "length v = length ?on" "length j = length ?on"
    "zip v j = sort_key by_size (zip (map ?f ?on) (map int ?on))"
    using ReverseSortInPlace_sorts [of "map ?f ?on" "map int ?on" "drop n sizes" "drop n ids"] by auto
  have pairs: "zip (map ?f ?on) (map int ?on) = map (\<lambda>i. (?f i, int i)) ?on"
    by (simp add: zip_map_map zip_same_conv_map comp_def)
  have "j = map snd (zip v j)" using vj(2,3) by simp
  also have "\<dots> = map int (sort_key (\<lambda>i. - ?f i) ?on)"
    unfolding vj(4) pairs sort_key_map by (simp add: by_size_def comp_def)
  finally have "take n (take ?h ids @ j @ drop n ids) = map int (placement_order reqs n)"
    using h by (simp add: split(3) placement_order_def)
  moreover have "n - ?h = length (map ?f ?on)" using h by simp
  ultimately show ?thesis
    using vj(1-3) h assms(3,4) unfolding split(1,2) by auto
qed

text \<open>What stays the same while buffers are placed.\<close>

definition same_request :: "greedy_planner \<Rightarrow> greedy_planner \<Rightarrow> bool" where
  "same_request p q \<longleftrightarrow> requirements q = requirements p \<and> buffer_count q = buffer_count p
     \<and> max_buffer_count q = max_buffer_count p \<and> buffer_sizes_sorted q = buffer_sizes_sorted p
     \<and> buffer_ids_sorted q = buffer_ids_sorted p
     \<and> need_to_calculate_offsets q = need_to_calculate_offsets p
     \<and> length (buffers_sorted_by_offset q) = length (buffers_sorted_by_offset p)
     \<and> length (buffer_offsets q) = length (buffer_offsets p)"

lemma same_request_trans: "same_request p q \<Longrightarrow> same_request q r \<Longrightarrow> same_request p r"
  by (simp add: same_request_def)

text \<open>The first buffers \<open>bs\<close> of the order have been placed, and their offsets noted.\<close>

definition has_placed :: "greedy_planner \<Rightarrow> nat list \<Rightarrow> bool" where
  "has_placed p bs \<longleftrightarrow> holds_plan p (greedy_plan (requirements p) bs)
     \<and> (\<forall>e\<in>set (greedy_plan (requirements p) bs). buffer_offsets p ! fst e = snd e)"

lemma length_greedy_plan [simp]: "length (greedy_plan reqs bs) = length bs"
  by (induction bs rule: rev_induct) (simp_all add: greedy_plan_snoc greedy_place_def)

lemma greedy_plan_eq_Nil [simp]: "greedy_plan reqs bs = [] \<longleftrightarrow> bs = []"
  by (metis length_0_conv length_greedy_plan)

lemma greedy_offset_Nil: "greedy_offset reqs [] b = (if online reqs b then 0 else offline_offset (reqs ! b))"
  by (simp add: greedy_offset_def obstacles_def)

lemma place_first_has_placed:
  assumes "vec_at (buffer_ids_sorted p) 0 = Some (int b)" "b < length (requirements p)" "b < length (buffer_offsets p)"
    "buffers_sorted_by_offset p \<noteq> []" "buffer_offsets p ! b = offline_offset (requirements p ! b)"
  shows "\<exists>q. place_first p = Some q \<and> same_request p q \<and> has_placed q [b]"
proof -
  let ?x = "greedy_offset (requirements p) [] b"
  let ?e = "\<lparr>entry_offset = ?x, requirements_index = int b, next_entry_index = -1\<rparr>"
  let ?q = "p\<lparr>first_entry_index := 0, next_free_entry := 1, buffer_offsets := (buffer_offsets p)[b := ?x],
     buffers_sorted_by_offset := (buffers_sorted_by_offset p)[0 := ?e]\<rparr>"
  have "online (requirements p) b \<or> (buffer_offsets p)[b := ?x] = buffer_offsets p"
    using assms(3,5) by (simp add: greedy_offset_Nil list_update_same_conv)
  then have "place_first p = Some ?q"
    using assms by (auto simp: place_first_def vec in_bounds_def greedy_offset_Nil)
  moreover have "holds_in ?q [0] [(b, ?x)]"
    using assms by (auto simp: holds_in_def known_def shown_def in_bounds_def)
  ultimately show ?thesis
    using assms(3) by (auto simp: same_request_def has_placed_def holds_plan_def greedy_plan_def greedy_place_def)
qed

lemma place_buffer_has_placed:
  assumes "has_placed p bs" "bs \<noteq> []" "length bs < length (buffers_sorted_by_offset p)"
    "vec_at (buffer_ids_sorted p) (int i) = Some (int b)" "b < length (requirements p)" "b < length (buffer_offsets p)"
    "b \<notin> set bs"
  shows "\<exists>q. place_buffer i p = Some q \<and> same_request p q \<and> has_placed q (bs @ [b])"
proof -
  let ?L = "greedy_plan (requirements p) bs"
  have L: "holds_plan p ?L" "?L \<noteq> []" "length ?L < length (buffers_sorted_by_offset p)"
    using assms(1-3) by (simp_all add: has_placed_def)
  have old: "\<forall>e\<in>set ?L. (buffer_offsets p)[b := x] ! fst e = snd e" for x
  proof
    fix e assume "e \<in> set ?L"
    moreover from this have "fst e \<noteq> b" using assms(7) fst_greedy_plan [of "requirements p" bs] by (metis imageI)
    ultimately show "(buffer_offsets p)[b := x] ! fst e = snd e" using assms(1) by (simp add: has_placed_def)
  qed
  obtain q es j where q: "place_buffer i p = Some q" "length es = length (buffers_sorted_by_offset p)"
    "q = p\<lparr>buffers_sorted_by_offset := es, first_entry_index := j, next_free_entry := next_free_entry p + 1,
        buffer_offsets := (buffer_offsets p)[b := greedy_offset (requirements p) ?L b]\<rparr>"
    "holds_plan q (greedy_place (requirements p) ?L b)"
    using place_buffer_holds [OF L assms(4-6)] by blast
  have "has_placed q (bs @ [b])"
    using q(3,4) old assms(6) by (simp add: has_placed_def greedy_plan_snoc greedy_place_def)
  moreover have "same_request p q" using q(2,3) by (simp add: same_request_def)
  ultimately show ?thesis using q(1) by blast
qed

lemma place_buffers_has_placed:
  assumes "has_placed p bs" "bs \<noteq> []" "length (bs @ cs) \<le> length (buffers_sorted_by_offset p)"
    "take (length (bs @ cs)) (buffer_ids_sorted p) = map int (bs @ cs)" "distinct (bs @ cs)"
    "\<forall>b\<in>set cs. b < length (requirements p) \<and> b < length (buffer_offsets p)"
    "length (bs @ cs) \<le> length (buffer_ids_sorted p)"
  shows "\<exists>q. place_buffers [length bs..<length (bs @ cs)] p = Some q \<and> same_request p q \<and> has_placed q (bs @ cs)"
  using assms
proof (induction cs arbitrary: p bs)
  case Nil
  then show ?case by (auto simp: same_request_def)
next
  case (Cons c cs)
  have "vec_at (buffer_ids_sorted p) (int (length bs)) = Some (int c)"
  proof -
    have "take (length (bs @ c # cs)) (buffer_ids_sorted p) ! length bs = int c"
      unfolding Cons.prems(4) by (simp add: nth_append)
    then show ?thesis using Cons.prems(7) by (simp add: vec)
  qed
  then obtain q where q: "place_buffer (length bs) p = Some q" "same_request p q" "has_placed q (bs @ [c])"
    using place_buffer_has_placed [of p bs "length bs" c] Cons.prems by auto
  then obtain r where "place_buffers [length (bs @ [c])..<length ((bs @ [c]) @ cs)] q = Some r" "same_request q r"
    "has_placed r ((bs @ [c]) @ cs)"
    using Cons.IH [of q "bs @ [c]"] Cons.prems by (auto simp: same_request_def)
  moreover have "[length bs..<length (bs @ c # cs)] = length bs # [length (bs @ [c])..<length ((bs @ [c]) @ cs)]"
    by (simp add: upt_conv_Cons del: upt_Suc)
  ultimately show ?case
    using q same_request_trans [of p q r] by simp
qed

section \<open>The invariant\<close>

definition wf_arrays :: "greedy_planner \<Rightarrow> bool" where
  "wf_arrays p \<longleftrightarrow> length (requirements p) = max_buffer_count p \<and> length (buffer_sizes_sorted p) = max_buffer_count p
     \<and> length (buffer_ids_sorted p) = max_buffer_count p \<and> length (buffers_sorted_by_offset p) = max_buffer_count p
     \<and> length (buffer_offsets p) = max_buffer_count p \<and> buffer_count p \<le> max_buffer_count p"

definition order_of :: "greedy_planner \<Rightarrow> nat list" where
  "order_of p = placement_order (requirements p) (buffer_count p)"

text \<open>The plan the client is promised.\<close>

definition plan_of :: "greedy_planner \<Rightarrow> placed list" where
  "plan_of p = greedy_plan (requirements p) (order_of p)"

definition wf_planner :: "greedy_planner \<Rightarrow> bool" where
  "wf_planner p \<longleftrightarrow> wf_arrays p
     \<and> (need_to_calculate_offsets p \<or> buffer_count p \<noteq> 0 \<and> has_placed p (order_of p))"

lemma wf_GreedyMemoryPlanner: "wf_planner (GreedyMemoryPlanner n)"
  by (simp add: wf_planner_def wf_arrays_def GreedyMemoryPlanner_def Let_def)

lemma wf_AddBuffer: "wf_planner p \<Longrightarrow> wf_planner (snd (AddBuffer sz f l p))"
  by (auto simp: wf_planner_def wf_arrays_def AddBuffer_def)

lemma wf_AddBuffer_offline: "wf_planner p \<Longrightarrow> wf_planner (snd (AddBuffer_offline sz f l x p))"
  by (auto simp: wf_planner_def wf_arrays_def AddBuffer_offline_def AddBuffer_def Let_def)

text \<open>The same buffers, planned.\<close>

definition planned_from :: "greedy_planner \<Rightarrow> greedy_planner \<Rightarrow> bool" where
  "planned_from p q \<longleftrightarrow> wf_planner q \<and> requirements q = requirements p \<and> buffer_count q = buffer_count p
     \<and> max_buffer_count q = max_buffer_count p
     \<and> (buffer_count p \<noteq> 0 \<longrightarrow> \<not> need_to_calculate_offsets q \<and> has_placed q (order_of p))"

lemma planned_from_plan: "planned_from p q \<Longrightarrow> order_of q = order_of p \<and> plan_of q = plan_of p"
  by (simp add: planned_from_def order_of_def plan_of_def)

lemma calculate_from_scratch:
  assumes wf: "wf_arrays p" and need: "need_to_calculate_offsets p" "buffer_count p \<noteq> 0"
  shows "\<exists>q. CalculateOffsetsIfNeeded p = Some q \<and> planned_from p q"
proof -
  let ?n = "buffer_count p" and ?reqs = "requirements p"
  let ?h = "length (offline_ids ?reqs ?n)"
  note w = wf [unfolded wf_arrays_def]
  obtain sizes ids offsets where split:
    "split_offline ?reqs [0..<?n] (0, ?n, buffer_sizes_sorted p, buffer_ids_sorted p, buffer_offsets p)
      = Some (?h, ?h, sizes, ids, offsets)"
    "take ?n sizes = map (\<lambda>i. req_size (?reqs ! i)) (offline_ids ?reqs ?n @ online_ids ?reqs ?n)"
    "take ?n ids = map int (offline_ids ?reqs ?n @ online_ids ?reqs ?n)"
    "length sizes = length (buffer_sizes_sorted p)" "length ids = length (buffer_ids_sorted p)"
    "length offsets = length (buffer_offsets p)" "\<forall>i<?n. offsets ! i = offline_offset (?reqs ! i)"
    by (rule split_offline_done [of ?n ?reqs "buffer_sizes_sorted p" "buffer_ids_sorted p" "buffer_offsets p"])
      (use w in simp_all)
  obtain sizes' ids' where sort: "ReverseSortInPlace (drop ?h sizes) (drop ?h ids) (?n - ?h) = Some (sizes', ids')"
    "length sizes' = length sizes - ?h" "length ids' = length ids - ?h"
    "take ?n (take ?h ids @ ids') = map int (order_of p)"
    using sort_online_ids [OF split(2,3)] w split(4,5) by (auto simp: order_of_def)
  have h: "?h \<le> ?n" using split(3) w split(5) by (metis le_add1 length_append length_map length_take min.absorb2)
  let ?p = "p\<lparr>need_to_calculate_offsets := False, buffer_sizes_sorted := take ?h sizes @ sizes',
     buffer_ids_sorted := take ?h ids @ ids', buffer_offsets := offsets\<rparr>"
  have len: "length (order_of p) = ?n" "set (order_of p) = {..<?n}" "distinct (order_of p)" by (simp_all add: order_of_def)
  obtain b bs where b: "order_of p = b # bs" using len(1) need(2) by (cases "order_of p") auto
  have ids_len: "length (take ?h ids @ ids') = max_buffer_count p" "length (take ?h sizes @ sizes') = max_buffer_count p"
    using sort(2,3) split(4,5) w h by simp_all
  have first_id: "vec_at (buffer_ids_sorted ?p) 0 = Some (int b)"
  proof -
    have "(take ?h ids @ ids') ! 0 = take ?n (take ?h ids @ ids') ! 0"
      by (rule nth_take [symmetric]) (use need(2) in simp)
    then have "(take ?h ids @ ids') ! 0 = int b" unfolding sort(4) b by simp
    then show ?thesis using need(2) w ids_len(1) by (simp add: vec_at_def in_bounds_def del: length_append)
  qed
  have bounded: "c < ?n" if "c \<in> set (b # bs)" for c using that len(2) b by auto
  have entries: "buffers_sorted_by_offset p \<noteq> []" using w need(2) by auto
  have "\<exists>q. place_first ?p = Some q \<and> same_request ?p q \<and> has_placed q [b]"
    by (rule place_first_has_placed [OF first_id]) (use bounded [of b] w split(6,7) entries in simp_all)
  then obtain q where q: "place_first ?p = Some q" "same_request ?p q" "has_placed q [b]" by blast
  note s = q(2) [unfolded same_request_def, simplified]
  have "\<exists>r. place_buffers [length [b]..<length ([b] @ bs)] q = Some r \<and> same_request q r \<and> has_placed r ([b] @ bs)"
  proof (rule place_buffers_has_placed [OF q(3)])
    show "take (length ([b] @ bs)) (buffer_ids_sorted q) = map int ([b] @ bs)"
      using sort(4) b len(1) s by simp
    show "\<forall>c\<in>set bs. c < length (requirements q) \<and> c < length (buffer_offsets q)"
      using bounded w s split(6) by fastforce
  qed (use b len w s ids_len in auto)
  then obtain r where r: "place_buffers [1..<?n] q = Some r" "same_request q r" "has_placed r (order_of p)"
    using b len(1) by (auto simp del: upt_Suc)
  note t = r(2) [unfolded same_request_def]
  have "CalculateOffsetsIfNeeded p = Some r"
    using need split(1) sort(1) q(1) r(1) s by (simp add: CalculateOffsetsIfNeeded_def)
  moreover have "planned_from p r"
    using r(3) s t w need(2) ids_len split(6)
    by (auto simp: planned_from_def wf_planner_def wf_arrays_def order_of_def)
  ultimately show ?thesis by blast
qed

lemma CalculateOffsetsIfNeeded_plans:
  assumes "wf_planner p"
  shows "\<exists>q. CalculateOffsetsIfNeeded p = Some q \<and> planned_from p q"
proof (cases "need_to_calculate_offsets p \<and> buffer_count p \<noteq> 0")
  case True
  then show ?thesis using assms calculate_from_scratch by (simp add: wf_planner_def)
next
  case False
  then have "CalculateOffsetsIfNeeded p = Some p" by (auto simp: CalculateOffsetsIfNeeded_def)
  then show ?thesis using assms False by (auto simp: planned_from_def wf_planner_def)
qed

section \<open>Queries\<close>

lemma fst_plan_of: "fst ` set (plan_of p) = {..<buffer_count p}"
  by (simp add: plan_of_def order_of_def fst_greedy_plan)

lemma plan_of_eq_Nil: "plan_of p = [] \<longleftrightarrow> buffer_count p = 0"
  using fst_plan_of [of p] by (auto simp: lessThan_empty_iff)

lemma in_plan: "i < buffer_count p \<Longrightarrow> \<exists>x. (i, x) \<in> set (plan_of p)"
  using fst_plan_of [of p] by (metis imageE lessThan_iff prod.collapse)

lemma plan_ids: "(i, x) \<in> set (plan_of p) \<Longrightarrow> i < buffer_count p"
  using fst_plan_of [of p] by (metis fst_conv imageI lessThan_iff)

lemma planned_offsets:
  "planned_from p q \<Longrightarrow> (i, x) \<in> set (plan_of p) \<Longrightarrow> buffer_offsets q ! i = x"
  using plan_ids [of i x p] by (fastforce simp: planned_from_def has_placed_def plan_of_def)

definition planned_offset :: "greedy_planner \<Rightarrow> nat \<Rightarrow> int" where
  "planned_offset p i = the (map_of (plan_of p) i)"

lemma planned_offset_eq:
  assumes "planned_from p q" "i < buffer_count p"
  shows "buffer_offsets q ! i = planned_offset p i" "(i, planned_offset p i) \<in> set (plan_of p)"
proof -
  obtain x where "map_of (plan_of p) i = Some x"
    using in_plan [OF assms(2)] by (metis map_of_eq_None_iff not_None_eq fst_conv imageI)
  then show "(i, planned_offset p i) \<in> set (plan_of p)" by (simp add: planned_offset_def map_of_SomeD)
  then show "buffer_offsets q ! i = planned_offset p i" by (rule planned_offsets [OF assms(1)])
qed

definition end_address :: "buffer_requirements list \<Rightarrow> placed \<Rightarrow> nat" where
  "end_address reqs e = nat (placed_end reqs e mod 2 ^ 64)"

lemma max_end_chain:
  "chain (buffers_sorted_by_offset p) i ks \<Longrightarrow> known p ks \<Longrightarrow> ks \<noteq> [] \<Longrightarrow>
   max_end p i m = Some (foldl max m (map (end_address (requirements p))
     (map (shown \<circ> (!) (buffers_sorted_by_offset p)) ks)))"
proof (induction ks arbitrary: i m)
  case (Cons k ks)
  let ?e = "buffers_sorted_by_offset p ! k"
  have k: "i = int k" "k < length (buffers_sorted_by_offset p)"
    "chain (buffers_sorted_by_offset p) (next_entry_index ?e) ks" and ks: "known p ks"
    using Cons.prems(1,2) by (auto simp: known_def)
  have r: "vec_at (requirements p) (requirements_index ?e) = Some (entry_req p k)"
    using Cons.prems(2) by (simp add: known_def vec)
  have here: "nat ((entry_offset ?e + req_size (entry_req p k)) mod 2 ^ 64) = end_address (requirements p) (shown ?e)"
    by (simp add: end_address_def placed_end_def shown_def)
  have later: "(if x > m then x else m) = max m x" for x :: nat by simp
  show ?case
    using Cons.IH [OF k(3) ks] chain_start [OF k(3)] k(2)
    by (subst max_end.simps) (auto simp: k(1) vec r Let_def later here [simplified] comp_def)
qed simp

definition memory_size :: "greedy_planner \<Rightarrow> nat" where
  "memory_size p = foldl max 0 (map (end_address (requirements p)) (plan_of p))"

lemma GetMaximumMemorySize_returns:
  assumes "wf_planner p"
  shows "\<exists>q. GetMaximumMemorySize p = Some (memory_size p, q) \<and> planned_from p q"
proof -
  obtain q where q: "CalculateOffsetsIfNeeded p = Some q" "planned_from p q"
    using CalculateOffsetsIfNeeded_plans [OF assms] by blast
  show ?thesis
  proof (cases "buffer_count p = 0")
    case True
    then have "memory_size p = 0" by (simp add: memory_size_def plan_of_eq_Nil [THEN iffD2])
    then show ?thesis using q True by (auto simp: GetMaximumMemorySize_def planned_from_def)
  next
    case False
    then obtain ks where ks: "holds_in q ks (plan_of p)"
      using q(2) by (auto simp: planned_from_def has_placed_def holds_plan_def plan_of_def)
    have "ks \<noteq> []"
      using ks False plan_of_eq_Nil [of p] by (auto simp: holds_in_def)
    then have "max_end q (first_entry_index q) 0 = Some (memory_size p)"
      using ks q(2) max_end_chain [of q "first_entry_index q" ks 0]
      by (simp add: holds_in_def memory_size_def planned_from_def)
    then show ?thesis using q False by (auto simp: GetMaximumMemorySize_def planned_from_def)
  qed
qed

lemma GetOffsetForBuffer_returns:
  assumes "wf_planner p"
  shows "\<exists>q. GetOffsetForBuffer i p
      = Some (if 0 \<le> i \<and> i < int (buffer_count p) then (kTfLiteOk, Some (planned_offset p (nat i)), q)
              else (kTfLiteError, None, q)) \<and> planned_from p q"
proof -
  obtain q where q: "CalculateOffsetsIfNeeded p = Some q" "planned_from p q"
    using CalculateOffsetsIfNeeded_plans [OF assms] by blast
  have "in_bounds (buffer_offsets q) i" if "0 \<le> i" "i < int (buffer_count p)"
    using that q(2) by (auto simp: planned_from_def wf_planner_def wf_arrays_def in_bounds_def)
  then show ?thesis
    using q planned_offset_eq(1) [OF q(2), of "nat i"]
    by (auto simp: GetOffsetForBuffer_def planned_from_def vec)
qed

section \<open>Buffers in use together do not share memory\<close>

lemma first_gap_free:
  "sorted (map fst rs) \<Longrightarrow> 0 \<le> w \<Longrightarrow> x \<le> first_gap w x rs
     \<and> (\<forall>r\<in>set rs. first_gap w x rs + w \<le> fst r \<or> snd r \<le> first_gap w x rs)"
proof (induction rs arbitrary: x)
  case (Cons r rs)
  have later: "fst r \<le> fst s" if "s \<in> set rs" for s using Cons.prems(1) that by simp
  show ?case
  proof (cases "w \<le> fst r - x")
    case True
    then show ?thesis using later by force
  next
    case False
    then show ?thesis using Cons.IH [of "max x (snd r)"] Cons.prems by auto
  qed
qed simp

lemma first_gap_bounded:
  "x \<le> m \<Longrightarrow> \<forall>r\<in>set rs. snd r \<le> m \<Longrightarrow> first_gap w x rs \<le> m"
  by (induction rs arbitrary: x) auto

lemma sorted_obstacles: "sorted (map snd es) \<Longrightarrow> sorted (map fst (obstacles reqs r es))"
  by (induction es) (auto simp: obstacles_def)

definition apart :: "buffer_requirements list \<Rightarrow> placed \<Rightarrow> placed \<Rightarrow> bool" where
  "apart reqs e f \<longleftrightarrow> placed_end reqs e \<le> snd f \<or> placed_end reqs f \<le> snd e"

lemma apart_sym: "apart reqs e f = apart reqs f e"
  by (auto simp: apart_def)

lemma in_use_together_sym: "in_use_together r s = in_use_together s r"
  by (auto simp: in_use_together_def)

lemma greedy_offset_apart:
  assumes "online reqs b" "sorted (map snd es)" "0 \<le> req_size (reqs ! b)" "e \<in> set es"
    "in_use_together (reqs ! fst e) (reqs ! b)"
  shows "apart reqs e (b, greedy_offset reqs es b)"
proof -
  have "(snd e, placed_end reqs e) \<in> set (obstacles reqs (reqs ! b) es)"
    using assms(4,5) by (auto simp: obstacles_def)
  then show ?thesis
    using first_gap_free [of "obstacles reqs (reqs ! b) es" "req_size (reqs ! b)" 0]
      sorted_obstacles [OF assms(2)] assms(1,3)
    by (fastforce simp: apart_def greedy_offset_def placed_end_def)
qed

text \<open>Offline buffers before online ones.\<close>

definition offline_first :: "buffer_requirements list \<Rightarrow> nat list \<Rightarrow> bool" where
  "offline_first reqs bs \<longleftrightarrow> sorted_wrt (\<lambda>a b. online reqs a \<longrightarrow> online reqs b) bs"

lemma offline_first_placement_order: "offline_first reqs (placement_order reqs n)"
proof -
  have off: "sorted_wrt (\<lambda>a b. online reqs a \<longrightarrow> online reqs b) xs" if "\<forall>a\<in>set xs. \<not> online reqs a" for xs
    using that by (induction xs) auto
  have on: "sorted_wrt (\<lambda>a b. online reqs a \<longrightarrow> online reqs b) xs" if "\<forall>a\<in>set xs. online reqs a" for xs
    using that by (induction xs) auto
  show ?thesis
    unfolding offline_first_def placement_order_def sorted_wrt_append
    by (intro conjI off on) (auto simp: offline_ids_def online_ids_def)
qed

lemma greedy_plan_apart:
  assumes "offline_first reqs bs" "distinct bs" "\<forall>b\<in>set bs. 0 \<le> req_size (reqs ! b)"
    "e \<in> set (greedy_plan reqs bs)" "f \<in> set (greedy_plan reqs bs)" "fst e \<noteq> fst f"
    "in_use_together (reqs ! fst e) (reqs ! fst f)" "online reqs (fst e) \<or> online reqs (fst f)"
  shows "apart reqs e f"
  using assms
proof (induction bs arbitrary: e f rule: rev_induct)
  case (snoc b bs)
  let ?es = "greedy_plan reqs bs"
  let ?b = "(b, greedy_offset reqs ?es b)"
  have before: "offline_first reqs bs" "distinct bs" "\<forall>b\<in>set bs. 0 \<le> req_size (reqs ! b)"
    using snoc.prems(1-3) by (simp_all add: offline_first_def sorted_wrt_append)
  have new: "apart reqs g ?b"
    if g: "g \<in> set ?es" "in_use_together (reqs ! fst g) (reqs ! b)" "online reqs (fst g) \<or> online reqs b" for g
  proof -
    have "fst g \<in> set bs" using g(1) fst_greedy_plan [of reqs bs] by (metis imageI)
    then have "online reqs b" using g(3) snoc.prems(1) by (auto simp: offline_first_def sorted_wrt_append)
    then show ?thesis
      using greedy_offset_apart [OF _ sorted_greedy_plan _ g(1,2)] snoc.prems(3) by simp
  qed
  have cases: "e = ?b \<or> e \<in> set ?es" "f = ?b \<or> f \<in> set ?es"
    using snoc.prems(4,5) by (auto simp: greedy_plan_snoc greedy_place_def)
  show ?case
    using cases
  proof (elim disjE)
    assume "e \<in> set ?es" "f \<in> set ?es"
    then show ?thesis using snoc.IH [OF before] snoc.prems(6-8) by blast
  next
    assume "e = ?b" "f \<in> set ?es"
    then show ?thesis using new [of f] snoc.prems(7,8) apart_sym [of reqs f ?b]
      by (auto simp: in_use_together_sym)
  next
    assume "e \<in> set ?es" "f = ?b"
    then show ?thesis using new [of e] snoc.prems(7,8) by auto
  qed (use snoc.prems(6) in simp)
qed simp

lemma greedy_plan_offline:
  "e \<in> set (greedy_plan reqs bs) \<Longrightarrow> \<not> online reqs (fst e) \<Longrightarrow> snd e = offline_offset (reqs ! fst e)"
  by (induction bs rule: rev_induct) (auto simp: greedy_plan_snoc greedy_place_def greedy_offset_def)

text \<open>No buffer ends behind the offline ones and all online ones in a row.\<close>

lemma greedy_plan_bounded:
  assumes "distinct bs" "\<forall>b\<in>set bs. 0 \<le> req_size (reqs ! b)" "0 \<le> m"
    "\<forall>b\<in>set bs. \<not> online reqs b \<longrightarrow> 0 \<le> offline_offset (reqs ! b) \<and> offline_offset (reqs ! b) + req_size (reqs ! b) \<le> m"
    "e \<in> set (greedy_plan reqs bs)"
  shows "0 \<le> snd e \<and> placed_end reqs e \<le> m + (\<Sum>b | b \<in> set bs \<and> online reqs b. req_size (reqs ! b))"
  using assms
proof (induction bs arbitrary: e rule: rev_induct)
  case (snoc b bs)
  let ?es = "greedy_plan reqs bs" and ?sum = "\<lambda>bs. (\<Sum>b | b \<in> set bs \<and> online reqs b. req_size (reqs ! b))"
  have nonneg: "0 \<le> ?sum bs" by (rule sum_nonneg) (use snoc.prems(2) in auto)
  have IH: "0 \<le> snd e" "placed_end reqs e \<le> m + ?sum bs" if "e \<in> set ?es" for e
    using snoc.IH [of e] snoc.prems(1-4) that by simp_all
  have sum: "?sum (bs @ [b]) = (if online reqs b then req_size (reqs ! b) else 0) + ?sum bs"
  proof -
    have "{c. c \<in> set (bs @ [b]) \<and> online reqs c}
        = (if online reqs b then insert b {c. c \<in> set bs \<and> online reqs c} else {c. c \<in> set bs \<and> online reqs c})"
      by auto
    then show ?thesis using snoc.prems(1) by simp
  qed
  have sz: "0 \<le> req_size (reqs ! b)" using snoc.prems(2) by simp
  show ?case
  proof (cases "e \<in> set ?es")
    case True
    then show ?thesis using IH [OF True] sz sum by simp
  next
    case False
    then have e: "e = (b, greedy_offset reqs ?es b)"
      using snoc.prems(5) by (simp add: greedy_plan_snoc greedy_place_def)
    have "greedy_offset reqs ?es b \<le> m + ?sum bs \<and> 0 \<le> greedy_offset reqs ?es b" if "online reqs b"
    proof -
      have "first_gap (req_size (reqs ! b)) 0 (obstacles reqs (reqs ! b) ?es) \<le> m + ?sum bs"
        by (rule first_gap_bounded) (use IH(2) nonneg assms(3) in \<open>auto simp: obstacles_def\<close>)
      then show ?thesis
        using first_gap_free [of "obstacles reqs (reqs ! b) ?es" "req_size (reqs ! b)" 0]
          sorted_obstacles [OF sorted_greedy_plan] sz that
        by (simp add: greedy_offset_def)
    qed
    then show ?thesis
      using snoc.prems(4) sum nonneg e by (auto simp: placed_end_def greedy_offset_def)
  qed
qed simp

section \<open>What a client can do\<close>

text \<open>The planners a client can come to hold: a new one, and what a call leaves behind.\<close>

inductive planner_reachable :: "greedy_planner \<Rightarrow> bool" where
  created: "planner_reachable (GreedyMemoryPlanner n)"
| added: "planner_reachable p \<Longrightarrow> planner_reachable (snd (AddBuffer sz f l p))"
| added_offline: "planner_reachable p \<Longrightarrow> planner_reachable (snd (AddBuffer_offline sz f l x p))"
| measured: "planner_reachable p \<Longrightarrow> GetMaximumMemorySize p = Some (n, q) \<Longrightarrow> planner_reachable q"
| asked: "planner_reachable p \<Longrightarrow> GetOffsetForBuffer i p = Some (st, x, q) \<Longrightarrow> planner_reachable q"
| checked: "planner_reachable p \<Longrightarrow> DoAnyBuffersOverlap p = Some (b, q) \<Longrightarrow> planner_reachable q"

lemma DoAnyBuffersOverlap_returns:
  assumes "wf_planner p"
  shows "\<exists>q. DoAnyBuffersOverlap p
      = Some (\<exists>i<buffer_count p. \<exists>j<buffer_count p. buffers_overlap q i j, q) \<and> planned_from p q"
proof -
  obtain q where q: "CalculateOffsetsIfNeeded p = Some q" "planned_from p q"
    using CalculateOffsetsIfNeeded_plans [OF assms] by blast
  then show ?thesis
    by (auto simp: DoAnyBuffersOverlap_def planned_from_def list_ex_iff Bex_def)
qed

lemma GetOffsetForBuffer_planned:
  assumes "wf_planner p"
  obtains st x q where "GetOffsetForBuffer i p = Some (st, x, q)" "planned_from p q"
  using GetOffsetForBuffer_returns [OF assms, of i] that by (cases "0 \<le> i \<and> i < int (buffer_count p)") auto

lemma reachable_wf: "planner_reachable p \<Longrightarrow> wf_planner p"
proof (induction rule: planner_reachable.induct)
  case (measured p n q)
  then show ?case using GetMaximumMemorySize_returns [of p] by (auto simp: planned_from_def)
next
  case (asked p i st x q)
  then show ?case using GetOffsetForBuffer_planned [of p i] by (auto simp: planned_from_def)
next
  case (checked p b q)
  then show ?case using DoAnyBuffersOverlap_returns [of p] by (auto simp: planned_from_def)
qed (simp_all add: wf_GreedyMemoryPlanner wf_AddBuffer wf_AddBuffer_offline)

text \<open>A client with three buffers, one of them at an offset of its own, and with room for four.\<close>

definition three_buffers :: greedy_planner where
  "three_buffers = snd (AddBuffer 20 1 2 (snd (AddBuffer_offline 16 0 1 8
     (snd (AddBuffer 8 0 2 (GreedyMemoryPlanner 160))))))"

lemma three_buffers_reachable: "planner_reachable three_buffers"
  unfolding three_buffers_def by (intro planner_reachable.intros)

lemma three_buffers_facts: "buffer_count three_buffers = 3"
  "requirements three_buffers = [\<lparr>req_size = 8, offline_offset = -1, first_time_used = 0, last_time_used = 2\<rparr>,
     \<lparr>req_size = 16, offline_offset = 8, first_time_used = 0, last_time_used = 1\<rparr>,
     \<lparr>req_size = 20, offline_offset = -1, first_time_used = 1, last_time_used = 2\<rparr>,
     \<lparr>req_size = 0, offline_offset = 0, first_time_used = 0, last_time_used = 0\<rparr>]"
  by code_simp+

lemma below_three: "(\<forall>i<3::nat. P i) \<longleftrightarrow> P 0 \<and> P 1 \<and> P 2" "(\<exists>i<3::nat. P i) \<longleftrightarrow> P 0 \<or> P 1 \<or> P 2"
  by (auto simp: numeral_eq_Suc less_Suc_eq)

lemma foldl_max: "m \<le> foldl max m xs \<and> (\<forall>x\<in>set xs. x \<le> foldl max m xs)
    \<and> (foldl max m xs = m \<or> foldl max m xs \<in> set xs)" for m :: nat
proof (induction xs arbitrary: m)
  case (Cons x xs)
  define n where "n = foldl max (max m x) xs"
  have "max m x \<le> n" "\<forall>y\<in>set xs. y \<le> n" "n = max m x \<or> n \<in> set xs"
    using Cons.IH [of "max m x"] by (simp_all add: n_def)
  then have "m \<le> n \<and> (\<forall>y\<in>set (x # xs). y \<le> n) \<and> (n = m \<or> n \<in> set (x # xs))"
    by (auto simp: max_def split: if_splits)
  moreover have "foldl max m (x # xs) = n" by (simp add: n_def)
  ultimately show ?case by metis
qed simp

text \<open>The offsets planned for two buffers that are in use together.\<close>

lemma planned_apart:
  assumes "planned_from p q" "\<forall>i<buffer_count p. 0 \<le> req_size (requirements p ! i)"
    "i < buffer_count p" "j < buffer_count p" "i \<noteq> j"
    "in_use_together (requirements p ! i) (requirements p ! j)" "online (requirements p) i \<or> online (requirements p) j"
  shows "apart (requirements p) (i, planned_offset p i) (j, planned_offset p j)"
proof -
  have "(i, planned_offset p i) \<in> set (plan_of p)" "(j, planned_offset p j) \<in> set (plan_of p)"
    using planned_offset_eq(2) [OF assms(1)] assms(3,4) by blast+
  then show ?thesis
    unfolding plan_of_def
    by (intro greedy_plan_apart) (use assms in \<open>auto simp: order_of_def offline_first_placement_order\<close>)
qed

text \<open>Every buffer fits below \<^term>\<open>memory_size\<close>, and one ends there.\<close>

lemma planned_bounds:
  assumes "planned_from p q" "\<forall>i<buffer_count p. 0 \<le> req_size (requirements p ! i)"
    "\<forall>i<buffer_count p. \<not> online (requirements p) i \<longrightarrow>
       0 \<le> offline_offset (requirements p ! i) \<and> offline_offset (requirements p ! i) + req_size (requirements p ! i) \<le> m"
    "0 \<le> m"
    "m + (\<Sum>i | i < buffer_count p \<and> online (requirements p) i. req_size (requirements p ! i)) < 2 ^ 31"
  shows "int (memory_size p) \<le> m + (\<Sum>i | i < buffer_count p \<and> online (requirements p) i. req_size (requirements p ! i))"
    "i < buffer_count p \<Longrightarrow> 0 \<le> planned_offset p i \<and> planned_offset p i + req_size (requirements p ! i) \<le> int (memory_size p)"
    "buffer_count p \<noteq> 0 \<Longrightarrow> \<exists>i<buffer_count p. planned_offset p i + req_size (requirements p ! i) = int (memory_size p)"
proof -
  let ?reqs = "requirements p" and ?stop = "end_address (requirements p)"
  let ?bound = "m + (\<Sum>i | i < buffer_count p \<and> online ?reqs i. req_size (?reqs ! i))"
  have entry: "0 \<le> snd e \<and> placed_end ?reqs e \<le> ?bound" if "e \<in> set (plan_of p)" for e
    using greedy_plan_bounded [of "order_of p" ?reqs m e] assms(2-4) that
    by (simp add: plan_of_def order_of_def)
  have address: "int (?stop e) = placed_end ?reqs e" if "e \<in> set (plan_of p)" for e
  proof -
    have "0 \<le> req_size (?reqs ! fst e)" using assms(2) plan_ids [of "fst e" "snd e" p] that by simp
    then have "0 \<le> placed_end ?reqs e" "placed_end ?reqs e < 2 ^ 64"
      using entry [OF that] assms(5) by (auto simp: placed_end_def)
    then show ?thesis by (simp add: end_address_def)
  qed
  have max: "\<forall>e\<in>set (plan_of p). ?stop e \<le> memory_size p" "memory_size p = 0 \<or> memory_size p \<in> ?stop ` set (plan_of p)"
    using foldl_max [of 0 "map ?stop (plan_of p)"] by (auto simp: memory_size_def)
  have "0 \<le> (\<Sum>i | i < buffer_count p \<and> online ?reqs i. req_size (?reqs ! i))"
    by (rule sum_nonneg) (use assms(2) in auto)
  then have zero: "0 \<le> ?bound" using assms(4) by simp
  show "int (memory_size p) \<le> ?bound"
  proof (cases "memory_size p = 0")
    case False
    then obtain e where e: "e \<in> set (plan_of p)" "memory_size p = ?stop e" using max(2) by auto
    then show ?thesis using entry [OF e(1)] address [OF e(1)] by simp
  qed (use zero in simp)
  show "0 \<le> planned_offset p i \<and> planned_offset p i + req_size (?reqs ! i) \<le> int (memory_size p)"
    if "i < buffer_count p" for i
  proof -
    let ?e = "(i, planned_offset p i)"
    have e: "?e \<in> set (plan_of p)" by (rule planned_offset_eq(2) [OF assms(1) that])
    then have "?stop ?e \<le> memory_size p" using max(1) by blast
    then show ?thesis using entry [OF e] address [OF e] by (simp add: placed_end_def)
  qed
  show "\<exists>i<buffer_count p. planned_offset p i + req_size (?reqs ! i) = int (memory_size p)"
    if "buffer_count p \<noteq> 0"
  proof -
    have "\<exists>e\<in>set (plan_of p). memory_size p = ?stop e"
    proof (cases "memory_size p = 0")
      case True
      have "hd (plan_of p) \<in> set (plan_of p)" using plan_of_eq_Nil [of p] that by simp
      then show ?thesis using max(1) True by (intro bexI [of _ "hd (plan_of p)"]) simp_all
    qed (use max(2) in auto)
    then obtain e where e: "e \<in> set (plan_of p)" "memory_size p = ?stop e" by blast
    have i: "fst e < buffer_count p" using plan_ids [of "fst e" "snd e" p] e(1) by simp
    moreover have "planned_offset p (fst e) = snd e"
      using planned_offset_eq(1) [OF assms(1) i] planned_offsets [OF assms(1), of "fst e" "snd e"] e(1) by simp
    ultimately show ?thesis using address [OF e(1)] e(2) by (auto simp: placed_end_def)
  qed
qed

section \<open>Properties\<close>

text \<open>
  C33: Every query returns: no loop of the planner runs forever, whatever buffers were added, and no index
  leaves its array. After a query the planner can be queried again.
\<close>

theorem every_query_returns:
  assumes "planner_reachable p"
  shows "\<exists>n st x b q r s. GetMaximumMemorySize p = Some (n, q) \<and> GetOffsetForBuffer i q = Some (st, x, r)
    \<and> DoAnyBuffersOverlap r = Some (b, s) \<and> planner_reachable s"
proof -
  obtain q where q: "GetMaximumMemorySize p = Some (memory_size p, q)"
    using GetMaximumMemorySize_returns [OF reachable_wf [OF assms]] by blast
  have q': "planner_reachable q" by (rule planner_reachable.measured [OF assms q])
  obtain st x r where r: "GetOffsetForBuffer i q = Some (st, x, r)"
    by (rule GetOffsetForBuffer_planned [OF reachable_wf [OF q'], of i])
  have r': "planner_reachable r" by (rule planner_reachable.asked [OF q' r])
  obtain b s where s: "DoAnyBuffersOverlap r = Some (b, s)"
    using DoAnyBuffersOverlap_returns [OF reachable_wf [OF r']] by blast
  show ?thesis using q r s planner_reachable.checked [OF r' s] by blast
qed

theorem every_query_returns_witness:
  "\<exists>n st x b q r s. GetMaximumMemorySize three_buffers = Some (n, q) \<and> GetOffsetForBuffer 7 q = Some (st, x, r)
    \<and> DoAnyBuffersOverlap r = Some (b, s) \<and> planner_reachable s"
  by (rule every_query_returns [OF three_buffers_reachable])

text \<open>
  C31: The offsets are those of the reference: the offline buffers at the offsets they ask for, then
  the others by decreasing size, each at the lowest offset behind 0 or behind a buffer it is in use
  together with at which it fits before the next one. An index of no buffer is an error, and no offset.
\<close>

theorem offsets_are_the_greedy_plan:
  assumes "planner_reachable p"
  shows "\<exists>q. GetOffsetForBuffer i p =
    Some (if 0 \<le> i \<and> i < int (buffer_count p)
          then (kTfLiteOk, map_of (greedy_plan (requirements p) (placement_order (requirements p) (buffer_count p))) (nat i), q)
          else (kTfLiteError, None, q))"
proof -
  obtain q where q: "GetOffsetForBuffer i p
      = Some (if 0 \<le> i \<and> i < int (buffer_count p) then (kTfLiteOk, Some (planned_offset p (nat i)), q)
              else (kTfLiteError, None, q))" "planned_from p q"
    using GetOffsetForBuffer_returns [OF reachable_wf [OF assms]] by blast
  have "map_of (plan_of p) (nat i) = Some (planned_offset p (nat i))" if "0 \<le> i" "i < int (buffer_count p)"
  proof -
    have "nat i < buffer_count p" using that by simp
    then have "map_of (plan_of p) (nat i) \<noteq> None"
      using fst_plan_of [of p] by (metis lessThan_iff map_of_eq_None_iff)
    then show ?thesis by (auto simp: planned_offset_def)
  qed
  then show ?thesis using q(1) by (auto simp: plan_of_def order_of_def)
qed

theorem offsets_are_the_greedy_plan_witness:
  "\<exists>q. GetOffsetForBuffer 2 three_buffers = Some (kTfLiteOk, Some 24, q)"
  using offsets_are_the_greedy_plan [OF three_buffers_reachable, of 2]
  by (simp add: three_buffers_facts placement_order_def offline_ids_def online_ids_def upt_rec
      greedy_plan_def greedy_place_def greedy_offset_def obstacles_def in_use_together_def placed_end_def)

text \<open>
  C32: Two buffers that are in use at the same time do not share memory, unless the client has placed
  both of them itself, and both lie below \<open>2\<^sup>3\<^sup>1\<close>. The sizes are not negative, the buffers that the
  client has placed lie in the first \<open>m\<close> bytes, and \<open>m\<close> plus the sizes of all others is below \<open>2\<^sup>3\<^sup>1\<close>:
  then no sum of an offset and a size overflows the \<^verbatim>\<open>int\<close> of the code.
\<close>

theorem buffers_in_use_together_are_apart:
  assumes "planner_reachable p" "\<forall>i<buffer_count p. 0 \<le> req_size (requirements p ! i)"
    "\<forall>i<buffer_count p. offline_offset (requirements p ! i) \<noteq> kOnlinePlannedBuffer \<longrightarrow>
       0 \<le> offline_offset (requirements p ! i) \<and> offline_offset (requirements p ! i) + req_size (requirements p ! i) \<le> m"
    "0 \<le> m" "m + (\<Sum>i | i < buffer_count p \<and> offline_offset (requirements p ! i) = kOnlinePlannedBuffer.
       req_size (requirements p ! i)) < 2 ^ 31" "i \<noteq> j"
    "in_use_together (requirements p ! i) (requirements p ! j)"
    "offline_offset (requirements p ! i) = kOnlinePlannedBuffer \<or> offline_offset (requirements p ! j) = kOnlinePlannedBuffer"
    "GetOffsetForBuffer (int i) p = Some (kTfLiteOk, Some x, q)" "GetOffsetForBuffer (int j) q = Some (kTfLiteOk, Some y, r)"
  shows "(x + req_size (requirements p ! i) \<le> y \<or> y + req_size (requirements p ! j) \<le> x)
    \<and> 0 \<le> x \<and> x + req_size (requirements p ! i) < 2 ^ 31 \<and> 0 \<le> y \<and> y + req_size (requirements p ! j) < 2 ^ 31"
proof -
  obtain q' where q: "GetOffsetForBuffer (int i) p = Some (if 0 \<le> int i \<and> int i < int (buffer_count p)
      then (kTfLiteOk, Some (planned_offset p (nat (int i))), q') else (kTfLiteError, None, q'))" "planned_from p q'"
    using GetOffsetForBuffer_returns [OF reachable_wf [OF assms(1)]] by blast
  have i: "i < buffer_count p" "x = planned_offset p i" "planned_from p q"
    using q assms(9) by (auto split: if_splits)
  have "planner_reachable q" by (rule planner_reachable.asked [OF assms(1,9)])
  then obtain r' where r: "GetOffsetForBuffer (int j) q = Some (if 0 \<le> int j \<and> int j < int (buffer_count q)
      then (kTfLiteOk, Some (planned_offset q (nat (int j))), r') else (kTfLiteError, None, r'))"
    using GetOffsetForBuffer_returns [OF reachable_wf] by blast
  have j: "j < buffer_count p" "y = planned_offset p j"
    using r assms(10) i(3) planned_from_plan [OF i(3)]
    by (auto simp: planned_from_def planned_offset_def split: if_splits)
  have "apart (requirements p) (i, x) (j, y)"
    using planned_apart [OF i(3) assms(2) i(1) j(1) assms(6-8)] i(2) j(2) by simp
  moreover note b = planned_bounds [OF i(3) assms(2-5)]
  have "0 \<le> x \<and> x + req_size (requirements p ! i) < 2 ^ 31" "0 \<le> y \<and> y + req_size (requirements p ! j) < 2 ^ 31"
    using b(1) b(2) [OF i(1)] b(2) [OF j(1)] assms(5) i(2) j(2) by linarith+
  ultimately show ?thesis by (simp add: apart_def placed_end_def)
qed

lemma three_online:
  "(\<Sum>i | i < buffer_count three_buffers \<and> offline_offset (requirements three_buffers ! i) = kOnlinePlannedBuffer.
     req_size (requirements three_buffers ! i)) = 28"
proof -
  have "{i. i < buffer_count three_buffers \<and> offline_offset (requirements three_buffers ! i) = kOnlinePlannedBuffer} = {0, 2}"
    by (auto simp: three_buffers_facts less_Suc_eq numeral_3_eq_3)
  then show ?thesis by (simp add: three_buffers_facts)
qed

theorem buffers_in_use_together_are_apart_witness:
  "\<exists>x y q r. GetOffsetForBuffer 0 three_buffers = Some (kTfLiteOk, Some x, q)
    \<and> GetOffsetForBuffer 1 q = Some (kTfLiteOk, Some y, r) \<and> (x + 8 \<le> y \<or> y + 16 \<le> x)"
proof -
  obtain x q where x: "GetOffsetForBuffer (int 0) three_buffers = Some (kTfLiteOk, Some x, q)" "planned_from three_buffers q"
    using GetOffsetForBuffer_returns [OF reachable_wf [OF three_buffers_reachable], of 0] by (auto simp: three_buffers_facts)
  obtain y r where y: "GetOffsetForBuffer (int 1) q = Some (kTfLiteOk, Some y, r)"
    using GetOffsetForBuffer_returns [of q 1] x(2) by (auto simp: planned_from_def three_buffers_facts)
  have "x + 8 \<le> y \<or> y + 16 \<le> x"
    using buffers_in_use_together_are_apart [OF three_buffers_reachable _ _ _ _ _ _ _ x(1) y, of 24, unfolded three_online]
    by (simp add: in_use_together_def three_buffers_facts below_three)
  then show ?thesis using x(1) y by auto
qed

text \<open>
  \<^verbatim>\<open>DoAnyBuffersOverlap\<close> reports exactly the overlaps among the buffers the client has placed itself.
\<close>

theorem overlap_check_exact:
  assumes "planner_reachable p" "\<forall>i<buffer_count p. 0 \<le> req_size (requirements p ! i)"
  shows "\<exists>q. DoAnyBuffersOverlap p = Some
     (\<exists>i<buffer_count p. \<exists>j<buffer_count p. i \<noteq> j \<and> in_use_together (requirements p ! i) (requirements p ! j)
        \<and> offline_offset (requirements p ! i) \<noteq> kOnlinePlannedBuffer
        \<and> offline_offset (requirements p ! j) \<noteq> kOnlinePlannedBuffer
        \<and> offline_offset (requirements p ! i) < offline_offset (requirements p ! j) + req_size (requirements p ! j)
        \<and> offline_offset (requirements p ! j) < offline_offset (requirements p ! i) + req_size (requirements p ! i), q)"
proof -
  let ?reqs = "requirements p"
  obtain q where q: "DoAnyBuffersOverlap p
      = Some (\<exists>i<buffer_count p. \<exists>j<buffer_count p. buffers_overlap q i j, q)" "planned_from p q"
    using DoAnyBuffersOverlap_returns [OF reachable_wf [OF assms(1)]] by blast
  have same: "requirements q = ?reqs" using q(2) by (simp add: planned_from_def)
  have "buffers_overlap q i j \<longleftrightarrow> i \<noteq> j \<and> in_use_together (?reqs ! i) (?reqs ! j) \<and> \<not> online ?reqs i \<and> \<not> online ?reqs j
      \<and> offline_offset (?reqs ! i) < offline_offset (?reqs ! j) + req_size (?reqs ! j)
      \<and> offline_offset (?reqs ! j) < offline_offset (?reqs ! i) + req_size (?reqs ! i)"
    (is "_ \<longleftrightarrow> ?clash i j")
    if ij: "i < buffer_count p" "j < buffer_count p" for i j
  proof -
    note x = planned_offset_eq [OF q(2) ij(1)] and y = planned_offset_eq [OF q(2) ij(2)]
    have "buffers_overlap q i j \<longleftrightarrow> i \<noteq> j \<and> in_use_together (?reqs ! i) (?reqs ! j)
        \<and> \<not> apart ?reqs (i, planned_offset p i) (j, planned_offset p j)"
      using x(1) y(1) same
      by (auto simp: buffers_overlap_def Let_def in_use_together_def apart_def placed_end_def)
    moreover have "apart ?reqs (i, planned_offset p i) (j, planned_offset p j)"
      if "i \<noteq> j" "in_use_together (?reqs ! i) (?reqs ! j)" "online ?reqs i \<or> online ?reqs j"
      by (rule planned_apart [OF q(2) assms(2) ij that])
    moreover have "planned_offset p k = offline_offset (?reqs ! k)" if "k < buffer_count p" "\<not> online ?reqs k" for k
      using greedy_plan_offline [of "(k, planned_offset p k)" ?reqs "order_of p"] planned_offset_eq(2) [OF q(2) that(1)] that(2)
      by (simp add: plan_of_def)
    ultimately show ?thesis
      by (cases "online ?reqs i \<or> online ?reqs j") (use ij in \<open>auto simp: apart_def placed_end_def not_le\<close>)
  qed
  then have "(\<exists>i<buffer_count p. \<exists>j<buffer_count p. buffers_overlap q i j)
      = (\<exists>i<buffer_count p. \<exists>j<buffer_count p. ?clash i j)" by blast
  then show ?thesis using q(1) by auto
qed

theorem overlap_check_exact_witness: "\<exists>q. DoAnyBuffersOverlap three_buffers = Some (False, q)"
  using overlap_check_exact [OF three_buffers_reachable]
  by (simp add: three_buffers_facts below_three in_use_together_def)

text \<open>
  \<^verbatim>\<open>GetMaximumMemorySize\<close> is the size of the smallest arena that holds every buffer at its offset, and
  that is no more than what the offline buffers take, up to \<open>m\<close>, and the sizes of the others together.
\<close>

theorem maximum_memory_size:
  assumes "planner_reachable p" "\<forall>i<buffer_count p. 0 \<le> req_size (requirements p ! i)"
    "\<forall>i<buffer_count p. offline_offset (requirements p ! i) \<noteq> kOnlinePlannedBuffer \<longrightarrow>
       0 \<le> offline_offset (requirements p ! i) \<and> offline_offset (requirements p ! i) + req_size (requirements p ! i) \<le> m"
    "0 \<le> m"
    "m + (\<Sum>i | i < buffer_count p \<and> offline_offset (requirements p ! i) = kOnlinePlannedBuffer. req_size (requirements p ! i)) < 2 ^ 31"
  shows "\<exists>n q. GetMaximumMemorySize p = Some (n, q)
    \<and> int n \<le> m + (\<Sum>i | i < buffer_count p \<and> offline_offset (requirements p ! i) = kOnlinePlannedBuffer. req_size (requirements p ! i))
    \<and> (\<forall>i<buffer_count p. \<exists>x r. GetOffsetForBuffer (int i) q = Some (kTfLiteOk, Some x, r)
         \<and> 0 \<le> x \<and> x + req_size (requirements p ! i) \<le> int n)
    \<and> (buffer_count p \<noteq> 0 \<longrightarrow> (\<exists>i<buffer_count p. \<exists>x r. GetOffsetForBuffer (int i) q = Some (kTfLiteOk, Some x, r)
         \<and> x + req_size (requirements p ! i) = int n))"
proof -
  let ?reqs = "requirements p"
  obtain q where q: "GetMaximumMemorySize p = Some (memory_size p, q)" "planned_from p q"
    using GetMaximumMemorySize_returns [OF reachable_wf [OF assms(1)]] by blast
  have "planner_reachable q" by (rule planner_reachable.measured [OF assms(1) q(1)])
  note wf = reachable_wf [OF this]
  note bounds = planned_bounds [OF q(2) assms(2-5)]
  have offset: "\<exists>r. GetOffsetForBuffer (int i) q = Some (kTfLiteOk, Some (planned_offset p i), r)
      \<and> (i, planned_offset p i) \<in> set (plan_of p)" if "i < buffer_count p" for i
    using GetOffsetForBuffer_returns [OF wf, of "int i"] planned_offset_eq(2) [OF q(2) that] that q(2)
      planned_from_plan [OF q(2)]
    by (auto simp: planned_from_def planned_offset_def)
  have all_fit: "\<forall>i<buffer_count p. \<exists>x r. GetOffsetForBuffer (int i) q = Some (kTfLiteOk, Some x, r)
      \<and> 0 \<le> x \<and> x + req_size (?reqs ! i) \<le> int (memory_size p)"
    using offset bounds(2) by blast
  have one_attains: "buffer_count p \<noteq> 0 \<longrightarrow> (\<exists>i<buffer_count p. \<exists>x r. GetOffsetForBuffer (int i) q = Some (kTfLiteOk, Some x, r)
      \<and> x + req_size (?reqs ! i) = int (memory_size p))"
    using offset bounds(3) by blast
  show ?thesis
    by (rule exI [of _ "memory_size p"], rule exI [of _ q]) (intro conjI q(1) bounds(1) all_fit one_attains)
qed

theorem maximum_memory_size_witness: "\<exists>n q. GetMaximumMemorySize three_buffers = Some (n, q) \<and> n \<le> 52"
proof -
  have "{i. i < 3 \<and> online (requirements three_buffers) i} = {0, 2}"
    by (auto simp: three_buffers_facts numeral_eq_Suc less_Suc_eq)
  then show ?thesis
    using maximum_memory_size [OF three_buffers_reachable, of 24]
    by (auto simp: three_buffers_facts below_three)
qed

end
