(* ===== verification/Memory_Planners.thy ===== *)
theory Memory_Planners
  imports Greedy_Planner
begin

text \<open>
  \<^verbatim>\<open>micro/memory_planner/memory_planner.h\<close>, the interface of the planners, and
  \<^verbatim>\<open>linear_memory_planner.{h,cc}\<close>, the planner that never reuses memory. The locale states what a client
  may rely on whichever planner it has; both planners keep it.
\<close>

section \<open>The linear planner\<close>

record linear_planner =
  linear_offsets :: "64 word list"
  current_buffer_count :: nat
  next_free_offset :: "64 word"

abbreviation (input) kMaxBufferCount :: nat where "kMaxBufferCount \<equiv> 1024"

definition LinearMemoryPlanner :: linear_planner where
  "LinearMemoryPlanner = \<lparr>linear_offsets = replicate kMaxBufferCount 0, current_buffer_count = 0, next_free_offset = 0\<rparr>"

definition Linear_AddBuffer :: "int \<Rightarrow> int \<Rightarrow> int \<Rightarrow> linear_planner \<Rightarrow> tflite_status \<times> linear_planner" where
  "Linear_AddBuffer sz first_used last_used p =
     (if current_buffer_count p \<ge> kMaxBufferCount then (kTfLiteError, p)
      else (kTfLiteOk,
        p\<lparr>linear_offsets := (linear_offsets p)[current_buffer_count p := next_free_offset p],
          next_free_offset := next_free_offset p + word_of_int sz,
          current_buffer_count := current_buffer_count p + 1\<rparr>))"

definition Linear_GetMaximumMemorySize :: "linear_planner \<Rightarrow> (nat \<times> linear_planner) option" where
  "Linear_GetMaximumMemorySize p = Some (unat (next_free_offset p), p)"

definition Linear_GetBufferCount :: "linear_planner \<Rightarrow> nat" where
  "Linear_GetBufferCount p = current_buffer_count p"

text \<open>The offset is converted to an \<^verbatim>\<open>int\<close>.\<close>

definition Linear_GetOffsetForBuffer ::
  "int \<Rightarrow> linear_planner \<Rightarrow> (tflite_status \<times> int option \<times> linear_planner) option" where
  "Linear_GetOffsetForBuffer buffer_index p =
     (if buffer_index < 0 \<or> buffer_index \<ge> int (current_buffer_count p) then Some (kTfLiteError, None, p)
      else do {
        offset \<leftarrow> vec_at (linear_offsets p) buffer_index;
        Some (kTfLiteOk, Some (sint (ucast offset :: 32 word)), p) })"

section \<open>The interface\<close>

text \<open>What a client adds: size, first and last use.\<close>

type_synonym request = "int \<times> int \<times> int"

abbreviation size_of :: "request \<Rightarrow> int" where "size_of r \<equiv> fst r"

definition overlap_in_time :: "request \<Rightarrow> request \<Rightarrow> bool" where
  "overlap_in_time r s \<longleftrightarrow> fst (snd r) \<le> snd (snd s) \<and> fst (snd s) \<le> snd (snd r)"

definition reasonable :: "request list \<Rightarrow> bool" where
  "reasonable rs \<longleftrightarrow> (\<forall>r\<in>set rs. 0 \<le> size_of r) \<and> sum_list (map size_of rs) < 2 ^ 31"

text \<open>A client adds all its buffers, asks for the size of the plan and then for the offset of each, as \<^verbatim>\<open>CommitPlan\<close> does.\<close>

primrec add_all :: "(int \<Rightarrow> int \<Rightarrow> int \<Rightarrow> 's \<Rightarrow> tflite_status \<times> 's) \<Rightarrow> request list \<Rightarrow> 's \<Rightarrow> 's option" where
  "add_all add [] p = Some p"
| "add_all add (r # rs) p = (case r of (sz, f, l) \<Rightarrow> case add sz f l p of (st, q) \<Rightarrow>
     if st \<noteq> kTfLiteOk then None else add_all add rs q)"

primrec get_all :: "(int \<Rightarrow> 's \<Rightarrow> (tflite_status \<times> int option \<times> 's) option) \<Rightarrow> nat list \<Rightarrow> 's \<Rightarrow> int list option" where
  "get_all get_offset [] p = Some []"
| "get_all get_offset (i # is) p = (case get_offset (int i) p of
     None \<Rightarrow> None
   | Some (st, x, q) \<Rightarrow> if st \<noteq> kTfLiteOk then None
       else case x of None \<Rightarrow> None | Some x \<Rightarrow> map_option ((#) x) (get_all get_offset is q))"

text \<open>A layout: within the size, no larger than all buffers together, and without conflicts.\<close>

definition good_layout :: "request list \<Rightarrow> int list \<Rightarrow> nat \<Rightarrow> bool" where
  "good_layout rs xs n \<longleftrightarrow> length xs = length rs \<and> int n \<le> sum_list (map size_of rs)
    \<and> (\<forall>i<length rs. 0 \<le> xs ! i \<and> xs ! i + size_of (rs ! i) \<le> int n)
    \<and> (\<forall>j<length rs. \<forall>i<j. overlap_in_time (rs ! i) (rs ! j) \<longrightarrow>
         xs ! i + size_of (rs ! i) \<le> xs ! j \<or> xs ! j + size_of (rs ! j) \<le> xs ! i)"

text \<open>
  \<open>has p rs\<close>: the planner \<open>p\<close> has been given the buffers \<open>rs\<close>. The planners may compute their offsets late,
  so that a query changes the planner; the laws say what stays.
\<close>

locale memory_planner =
  fixes fresh :: 's
    and add :: "int \<Rightarrow> int \<Rightarrow> int \<Rightarrow> 's \<Rightarrow> tflite_status \<times> 's"
    and get_offset :: "int \<Rightarrow> 's \<Rightarrow> (tflite_status \<times> int option \<times> 's) option"
    and maximum_size :: "'s \<Rightarrow> (nat \<times> 's) option"
    and count :: "'s \<Rightarrow> nat"
    and has :: "'s \<Rightarrow> request list \<Rightarrow> bool"
    and offset_of :: "'s \<Rightarrow> nat \<Rightarrow> int"
    and needed :: "'s \<Rightarrow> nat"
  assumes has_fresh: "has fresh []"
    and has_add: "has p rs \<Longrightarrow> add sz f l p = (kTfLiteOk, q) \<Longrightarrow> has q (rs @ [(sz, f, l)])"
    and add_refused: "add sz f l p = (st, q) \<Longrightarrow> st \<noteq> kTfLiteOk \<Longrightarrow> q = p"
    and has_count: "has p rs \<Longrightarrow> count p = length rs"
    and get_offset_returns: "has p rs \<Longrightarrow> reasonable rs \<Longrightarrow>
          \<exists>q. get_offset k p = Some (if 0 \<le> k \<and> k < int (length rs) then (kTfLiteOk, Some (offset_of p (nat k)), q)
                                     else (kTfLiteError, None, q))
            \<and> has q rs \<and> offset_of q = offset_of p \<and> needed q = needed p"
    and maximum_size_returns: "has p rs \<Longrightarrow> reasonable rs \<Longrightarrow>
          \<exists>q. maximum_size p = Some (needed p, q) \<and> has q rs \<and> offset_of q = offset_of p \<and> needed q = needed p"
    and offset_fits: "has p rs \<Longrightarrow> reasonable rs \<Longrightarrow> i < length rs \<Longrightarrow>
          0 \<le> offset_of p i \<and> offset_of p i + size_of (rs ! i) \<le> int (needed p)"
    and offset_apart: "has p rs \<Longrightarrow> reasonable rs \<Longrightarrow> i < j \<Longrightarrow> j < length rs \<Longrightarrow>
          overlap_in_time (rs ! i) (rs ! j) \<Longrightarrow>
          offset_of p i + size_of (rs ! i) \<le> offset_of p j \<or> offset_of p j + size_of (rs ! j) \<le> offset_of p i"
    and needed_bound: "has p rs \<Longrightarrow> reasonable rs \<Longrightarrow> int (needed p) \<le> sum_list (map size_of rs)"
begin

lemma has_add_all: "add_all add rs p = Some q \<Longrightarrow> has p ss \<Longrightarrow> has q (ss @ rs)"
proof (induction rs arbitrary: p ss)
  case (Cons r rs)
  obtain sz f l where r: "r = (sz, f, l)" by (cases r)
  obtain s where s: "add sz f l p = (kTfLiteOk, s)" "add_all add rs s = Some q"
    using Cons.prems(1) by (auto simp: r split: prod.splits if_splits)
  show ?case using Cons.IH [OF s(2) has_add [OF Cons.prems(2) s(1)]] by (simp add: r)
qed simp

lemma get_all_offsets:
  "has p rs \<Longrightarrow> reasonable rs \<Longrightarrow> \<forall>i\<in>set is. i < length rs \<Longrightarrow> get_all get_offset is p = Some (map (offset_of p) is)"
proof (induction "is" arbitrary: p)
  case (Cons i "is")
  obtain q where "get_offset (int i) p = Some (kTfLiteOk, Some (offset_of p i), q)" "has q rs" "offset_of q = offset_of p"
    using get_offset_returns [OF Cons.prems(1,2), of "int i"] Cons.prems(3) by auto
  then show ?case using Cons.IH [of q] Cons.prems(2,3) by simp
qed simp

text \<open>Whatever the planner, the client gets a layout: within the size it is told, without conflicts.\<close>

lemma client_layout:
  assumes "add_all add rs fresh = Some p" "reasonable rs"
  shows "\<exists>n q xs. maximum_size p = Some (n, q) \<and> get_all get_offset [0..<length rs] q = Some xs \<and> good_layout rs xs n"
proof -
  have p: "has p rs" using has_add_all [OF assms(1) has_fresh] by simp
  obtain q where q: "maximum_size p = Some (needed p, q)" "has q rs" "offset_of q = offset_of p"
    using maximum_size_returns [OF p assms(2)] by blast
  have "get_all get_offset [0..<length rs] q = Some (map (offset_of q) [0..<length rs])"
    by (rule get_all_offsets [OF q(2) assms(2)]) simp
  moreover have "good_layout rs (map (offset_of q) [0..<length rs]) (needed p)"
    using offset_fits [OF p assms(2)] offset_apart [OF p assms(2)] needed_bound [OF p assms(2)]
    by (simp add: good_layout_def q(3))
  ultimately show ?thesis using q(1) by blast
qed

end

section \<open>The linear planner keeps the contract\<close>

definition linear_start :: "request list \<Rightarrow> nat \<Rightarrow> int" where
  "linear_start rs i = sum_list (map size_of (take i rs))"

definition linear_has :: "linear_planner \<Rightarrow> request list \<Rightarrow> bool" where
  "linear_has p rs \<longleftrightarrow> current_buffer_count p = length rs \<and> length (linear_offsets p) = kMaxBufferCount
     \<and> length rs \<le> kMaxBufferCount \<and> next_free_offset p = word_of_int (linear_start rs (length rs))
     \<and> (\<forall>i<length rs. linear_offsets p ! i = word_of_int (linear_start rs i))"

abbreviation linear_offset :: "linear_planner \<Rightarrow> nat \<Rightarrow> int" where
  "linear_offset p i \<equiv> sint (ucast (linear_offsets p ! i) :: 32 word)"

lemma linear_start_bounds:
  assumes "reasonable rs"
  shows "0 \<le> linear_start rs i" "linear_start rs i < 2 ^ 31"
    "i < length rs \<Longrightarrow> linear_start rs i + size_of (rs ! i) \<le> linear_start rs (length rs)"
proof -
  have pos: "0 \<le> sum_list (map size_of xs)" if "set xs \<subseteq> set rs" for xs
    using that assms by (fastforce simp: reasonable_def intro!: sum_list_nonneg)
  have parts: "linear_start rs (length rs) = linear_start rs i + sum_list (map size_of (drop i rs))" for i
    by (simp add: linear_start_def flip: sum_list_append map_append)
  show "0 \<le> linear_start rs i" using pos [of "take i rs"] by (auto simp: linear_start_def dest: in_set_takeD)
  show "linear_start rs i < 2 ^ 31"
    using parts [of i] pos [of "drop i rs"] assms set_drop_subset [of i rs] by (simp add: linear_start_def reasonable_def)
  show "linear_start rs i + size_of (rs ! i) \<le> linear_start rs (length rs)" if "i < length rs"
    using parts [of i] pos [of "drop (Suc i) rs"] set_drop_subset [of "Suc i" rs] Cons_nth_drop_Suc [OF that, symmetric]
    by simp
qed

lemma linear_start_mono:
  assumes "reasonable rs" "i < j" "j < length rs"
  shows "linear_start rs i + size_of (rs ! i) \<le> linear_start rs j"
proof -
  have "reasonable (take j rs)"
    using linear_start_bounds(2) [OF assms(1), of j] assms(1)
    by (auto simp: reasonable_def linear_start_def dest: in_set_takeD)
  from linear_start_bounds(3) [OF this, of i] show ?thesis
    using assms(2,3) by (simp add: linear_start_def min_def)
qed

lemma linear_offset_exact:
  "linear_has p rs \<Longrightarrow> reasonable rs \<Longrightarrow> i < length rs \<Longrightarrow> linear_offset p i = linear_start rs i"
  using linear_start_bounds(1,2) [of rs i]
  by (simp add: linear_has_def sint_uint uint_word_of_int unsigned_ucast_eq take_bit_int_eq_self signed_take_bit_int_eq_self)

lemma linear_needed_exact: "linear_has p rs \<Longrightarrow> reasonable rs \<Longrightarrow> int (unat (next_free_offset p)) = linear_start rs (length rs)"
  using linear_start_bounds(1,2) [of rs "length rs"] by (simp add: linear_has_def uint_word_of_int)

interpretation linear: memory_planner LinearMemoryPlanner Linear_AddBuffer Linear_GetOffsetForBuffer
  Linear_GetMaximumMemorySize Linear_GetBufferCount linear_has linear_offset "\<lambda>p. unat (next_free_offset p)"
proof (unfold_locales, goal_cases)
  case 1
  then show ?case by (simp add: linear_has_def LinearMemoryPlanner_def linear_start_def)
next
  case (2 p rs sz f l q)
  then show ?case
    by (auto simp: linear_has_def Linear_AddBuffer_def linear_start_def nth_list_update nth_append less_Suc_eq split: if_splits)
next
  case (5 p rs k)
  then show ?case
    by (auto simp: linear_has_def Linear_GetOffsetForBuffer_def vec_at_def in_bounds_def)
next
  case (7 p rs i)
  then show ?case
    using linear_start_bounds(1,3) [OF 7(2), of i] linear_offset_exact [OF 7] linear_needed_exact [OF 7(1,2)] by simp
next
  case (8 p rs i j)
  then show ?case
    using linear_start_mono [OF 8(2-4)] linear_offset_exact [OF 8(1,2), of i] linear_offset_exact [OF 8(1,2), of j] by simp
next
  case (9 p rs)
  then show ?case using linear_needed_exact [OF 9] by (simp add: linear_start_def)
qed (auto simp: linear_has_def Linear_AddBuffer_def Linear_GetBufferCount_def Linear_GetMaximumMemorySize_def split: if_splits)

section \<open>The greedy planner keeps the contract\<close>

definition greedy_request :: "request \<Rightarrow> buffer_requirements" where
  "greedy_request r = \<lparr>req_size = size_of r, offline_offset = kOnlinePlannedBuffer,
     first_time_used = fst (snd r), last_time_used = snd (snd r)\<rparr>"

definition greedy_has :: "greedy_planner \<Rightarrow> request list \<Rightarrow> bool" where
  "greedy_has p rs \<longleftrightarrow> wf_planner p \<and> buffer_count p = length rs \<and> (\<forall>i<length rs. requirements p ! i = greedy_request (rs ! i))"

lemma greedy_request_simps [simp]:
  "req_size (greedy_request r) = size_of r" "offline_offset (greedy_request r) = kOnlinePlannedBuffer"
  "in_use_together (greedy_request r) (greedy_request s) \<longleftrightarrow> overlap_in_time r s"
  by (auto simp: greedy_request_def in_use_together_def overlap_in_time_def)

lemma greedy_planned:
  assumes "greedy_has p rs" "planned_from p q"
  shows "greedy_has q rs" "planned_offset q = planned_offset p" "memory_size q = memory_size p"
  using assms planned_from_plan [OF assms(2)]
  by (auto simp: greedy_has_def planned_from_def planned_offset_def memory_size_def)

lemma greedy_has_bounds:
  assumes "greedy_has p rs" "reasonable rs"
  shows "int (memory_size p) \<le> sum_list (map size_of rs)"
    "i < length rs \<Longrightarrow> 0 \<le> planned_offset p i \<and> planned_offset p i + size_of (rs ! i) \<le> int (memory_size p)"
proof -
  obtain q where q: "planned_from p q" using assms(1) GetMaximumMemorySize_returns by (auto simp: greedy_has_def)
  note h = assms(1) [unfolded greedy_has_def]
  have "{i. i < buffer_count p \<and> online (requirements p) i} = {..<length rs}" using h by auto
  then have sum: "(\<Sum>i | i < buffer_count p \<and> online (requirements p) i. req_size (requirements p ! i)) = sum_list (map size_of rs)"
    using h by (simp add: sum_list_sum_nth atLeast0LessThan)
  note b = planned_bounds [OF q, of 0, unfolded sum]
  show "int (memory_size p) \<le> sum_list (map size_of rs)"
    using b(1) h assms(2) by (simp add: reasonable_def)
  show "0 \<le> planned_offset p i \<and> planned_offset p i + size_of (rs ! i) \<le> int (memory_size p)" if "i < length rs"
    using b(2) [of i] h assms(2) that by (simp add: reasonable_def)
qed

interpretation greedy: memory_planner "GreedyMemoryPlanner n" AddBuffer GetOffsetForBuffer
  GetMaximumMemorySize GetBufferCount greedy_has planned_offset memory_size for n
proof (unfold_locales, goal_cases)
  case 1
  then show ?case by (simp add: greedy_has_def wf_GreedyMemoryPlanner) (simp add: GreedyMemoryPlanner_def Let_def)
next
  case (2 p rs sz f l q)
  have "wf_planner q" using wf_AddBuffer [of p sz f l] 2 by (simp add: greedy_has_def)
  then show ?case
    using 2 by (auto simp: greedy_has_def AddBuffer_def greedy_request_def wf_planner_def wf_arrays_def
        nth_list_update nth_append less_Suc_eq split: if_splits)
next
  case (5 p rs k)
  then obtain q where "GetOffsetForBuffer k p = Some (if 0 \<le> k \<and> k < int (buffer_count p)
      then (kTfLiteOk, Some (planned_offset p (nat k)), q) else (kTfLiteError, None, q))" "planned_from p q"
    using GetOffsetForBuffer_returns [of p k] unfolding greedy_has_def by blast
  then show ?case using greedy_planned [OF 5(1)] 5(1) by (auto simp: greedy_has_def)
next
  case (6 p rs)
  then obtain q where "GetMaximumMemorySize p = Some (memory_size p, q)" "planned_from p q"
    using GetMaximumMemorySize_returns by (auto simp: greedy_has_def)
  then show ?case using greedy_planned [OF 6(1)] by auto
next
  case (7 p rs i)
  then show ?case using greedy_has_bounds by blast
next
  case (8 p rs i j)
  obtain q where q: "planned_from p q" using 8(1) GetMaximumMemorySize_returns by (auto simp: greedy_has_def)
  show ?case
    using planned_apart [OF q, of i j] 8 by (auto simp: greedy_has_def reasonable_def apart_def placed_end_def)
next
  case (9 p rs)
  then show ?case using greedy_has_bounds by blast
qed (auto simp: greedy_has_def AddBuffer_def GetBufferCount_def split: if_splits)

section \<open>Properties\<close>

text \<open>
  C34: What a client gets from the greedy planner and from the linear one for the same buffers: a layout each,
  and the greedy plan never needs more memory than the linear one.
\<close>

theorem greedy_needs_no_more_than_linear:
  assumes "add_all Linear_AddBuffer rs LinearMemoryPlanner = Some p" "add_all AddBuffer rs (GreedyMemoryPlanner n) = Some g"
    "\<forall>r\<in>set rs. 0 \<le> fst r" "sum_list (map fst rs) < 2 ^ 31"
  shows "\<exists>a b p' g' xs ys. Linear_GetMaximumMemorySize p = Some (a, p') \<and> GetMaximumMemorySize g = Some (b, g') \<and> b \<le> a
    \<and> get_all Linear_GetOffsetForBuffer [0..<length rs] p' = Some xs \<and> get_all GetOffsetForBuffer [0..<length rs] g' = Some ys
    \<and> good_layout rs xs a \<and> good_layout rs ys b"
proof -
  have rs: "reasonable rs" using assms(3,4) by (simp add: reasonable_def)
  have p: "linear_has p rs" using linear.has_add_all [OF assms(1) linear.has_fresh] by simp
  obtain a p' xs where l: "Linear_GetMaximumMemorySize p = Some (a, p')" "get_all Linear_GetOffsetForBuffer [0..<length rs] p' = Some xs"
    "good_layout rs xs a" using linear.client_layout [OF assms(1) rs] by blast
  obtain b g' ys where g: "GetMaximumMemorySize g = Some (b, g')" "get_all GetOffsetForBuffer [0..<length rs] g' = Some ys"
    "good_layout rs ys b" using greedy.client_layout [OF assms(2) rs] by blast
  have "int a = sum_list (map size_of rs)"
    using l(1) linear_needed_exact [OF p rs] by (auto simp: Linear_GetMaximumMemorySize_def linear_start_def)
  then have "b \<le> a" using g(3) by (simp add: good_layout_def)
  then show ?thesis using l g by blast
qed

theorem greedy_needs_no_more_than_linear_witness:
  "\<exists>p g a b p' g' xs ys. add_all Linear_AddBuffer [(8, 0, 1), (4, 2, 3)] LinearMemoryPlanner = Some p
    \<and> add_all AddBuffer [(8, 0, 1), (4, 2, 3)] (GreedyMemoryPlanner 160) = Some g
    \<and> Linear_GetMaximumMemorySize p = Some (a, p') \<and> GetMaximumMemorySize g = Some (b, g') \<and> b \<le> a
    \<and> good_layout [(8, 0, 1), (4, 2, 3)] xs a \<and> good_layout [(8, 0, 1), (4, 2, 3)] ys b"
proof -
  let ?rs = "[(8, 0, 1), (4, 2, 3)] :: request list"
  have "add_all Linear_AddBuffer ?rs LinearMemoryPlanner \<noteq> None"
    by (simp add: Linear_AddBuffer_def LinearMemoryPlanner_def)
  then obtain p where p: "add_all Linear_AddBuffer ?rs LinearMemoryPlanner = Some p" by blast
  have "add_all AddBuffer ?rs (GreedyMemoryPlanner 160) \<noteq> None"
    by (simp add: AddBuffer_def GreedyMemoryPlanner_def per_buffer_size_def Let_def)
  then obtain g where g: "add_all AddBuffer ?rs (GreedyMemoryPlanner 160) = Some g" by blast
  show ?thesis using greedy_needs_no_more_than_linear [OF p g] p g by fastforce
qed

end
