(* ===== verification/Micro_Memory.thy ===== *)
theory Micro_Memory
  imports Prelude
begin

text \<open>
  \<^verbatim>\<open>micro/memory_helpers.cc\<close> (alignment), \<^verbatim>\<open>micro/simple_memory_allocator.{h,cc}\<close> and
  \<^verbatim>\<open>micro/recording_simple_memory_allocator.{h,cc}\<close>: the arena of TensorFlow Lite Micro.

  The arena is a range of addresses. The head grows up from its start, the tail grows down from its
  end, and temporary allocations are stacked on the head. Addresses and sizes are 64-bit words, whose
  differences wrap around as those of \<^verbatim>\<open>size_t\<close> do; a null pointer that is returned is \<^term>\<open>None\<close>.
  Alignments are not zero: the code divides by them.
\<close>

section \<open>Alignment\<close>

definition AlignPointerUp :: "64 word \<Rightarrow> 64 word \<Rightarrow> 64 word" where
  "AlignPointerUp data alignment = (data + (alignment - 1)) div alignment * alignment"

definition AlignPointerDown :: "64 word \<Rightarrow> 64 word \<Rightarrow> 64 word" where
  "AlignPointerDown data alignment = data div alignment * alignment"

definition AlignSizeUp :: "64 word \<Rightarrow> 64 word \<Rightarrow> 64 word" where
  "AlignSizeUp sz alignment = (sz + (alignment - 1)) div alignment * alignment"

section \<open>The allocator\<close>

record simple_allocator =
  buffer_head :: "64 word"
  buffer_tail :: "64 word"
  head_ptr :: "64 word"
  tail_ptr :: "64 word"
  temp_ptr :: "64 word"

definition SimpleMemoryAllocator :: "64 word \<Rightarrow> 64 word \<Rightarrow> simple_allocator" where
  "SimpleMemoryAllocator buffer buffer_size =
     \<lparr>buffer_head = buffer, buffer_tail = buffer + buffer_size,
      head_ptr = buffer, tail_ptr = buffer + buffer_size, temp_ptr = buffer\<rparr>"

definition SetHeadBufferSize ::
  "64 word \<Rightarrow> 64 word \<Rightarrow> 'a simple_allocator_scheme \<Rightarrow> tflite_status \<times> 'a simple_allocator_scheme" where
  "SetHeadBufferSize sz alignment A =
     (if head_ptr A \<noteq> temp_ptr A then (kTfLiteError, A)
      else
        let aligned_result = AlignPointerUp (buffer_head A) alignment;
            available_memory = tail_ptr A - aligned_result
        in if available_memory < sz then (kTfLiteError, A)
           else (kTfLiteOk, A\<lparr>head_ptr := aligned_result + sz, temp_ptr := aligned_result + sz\<rparr>))"

definition AllocateFromTail ::
  "64 word \<Rightarrow> 64 word \<Rightarrow> 'a simple_allocator_scheme \<Rightarrow> 64 word option \<times> 'a simple_allocator_scheme" where
  "AllocateFromTail sz alignment A =
     (let aligned_result = AlignPointerDown (tail_ptr A - sz) alignment
      in if aligned_result < head_ptr A then (None, A)
         else (Some aligned_result, A\<lparr>tail_ptr := aligned_result\<rparr>))"

definition AllocateTemp ::
  "64 word \<Rightarrow> 64 word \<Rightarrow> 'a simple_allocator_scheme \<Rightarrow> 64 word option \<times> 'a simple_allocator_scheme" where
  "AllocateTemp sz alignment A =
     (let aligned_result = AlignPointerUp (temp_ptr A) alignment;
          available_memory = tail_ptr A - aligned_result
      in if available_memory < sz then (None, A)
         else (Some aligned_result, A\<lparr>temp_ptr := aligned_result + sz\<rparr>))"

definition ResetTempAllocations :: "'a simple_allocator_scheme \<Rightarrow> 'a simple_allocator_scheme" where
  "ResetTempAllocations A = A\<lparr>temp_ptr := head_ptr A\<rparr>"

definition GetHeadBuffer :: "'a simple_allocator_scheme \<Rightarrow> 64 word" where
  "GetHeadBuffer A = buffer_head A"

definition GetHeadUsedBytes :: "'a simple_allocator_scheme \<Rightarrow> 64 word" where
  "GetHeadUsedBytes A = head_ptr A - buffer_head A"

definition GetTailUsedBytes :: "'a simple_allocator_scheme \<Rightarrow> 64 word" where
  "GetTailUsedBytes A = buffer_tail A - tail_ptr A"

definition GetAvailableMemory :: "64 word \<Rightarrow> 'a simple_allocator_scheme \<Rightarrow> 64 word" where
  "GetAvailableMemory alignment A =
     AlignPointerDown (tail_ptr A) alignment - AlignPointerUp (temp_ptr A) alignment"

definition GetBufferSize :: "'a simple_allocator_scheme \<Rightarrow> 64 word" where
  "GetBufferSize A = buffer_tail A - buffer_head A"

definition GetUsedBytes :: "'a simple_allocator_scheme \<Rightarrow> 64 word" where
  "GetUsedBytes A = GetBufferSize A - (tail_ptr A - temp_ptr A)"

text \<open>
  \<^verbatim>\<open>Create\<close> puts the allocator itself at the end of the arena. The object has five pointers after
  the table of virtual functions and the error reporter: 56 bytes, aligned to 8. If the arena is too
  small for it, the code writes through a null pointer: no result.
\<close>

definition SimpleMemoryAllocator_Create :: "64 word \<Rightarrow> 64 word \<Rightarrow> simple_allocator option" where
  "SimpleMemoryAllocator_Create buffer buffer_size =
     (case AllocateFromTail 56 8 (SimpleMemoryAllocator buffer buffer_size) of
        (None, _) \<Rightarrow> None
      | (Some _, A) \<Rightarrow> Some A)"

section \<open>The recording allocator\<close>

record recording_allocator = simple_allocator +
  requested_head_bytes :: "64 word"
  requested_tail_bytes :: "64 word"
  used_bytes :: "64 word"
  alloc_count :: "64 word"

definition RecordingSimpleMemoryAllocator :: "64 word \<Rightarrow> 64 word \<Rightarrow> recording_allocator" where
  "RecordingSimpleMemoryAllocator buffer buffer_size =
     simple_allocator.extend (SimpleMemoryAllocator buffer buffer_size)
       (recording_allocator.fields 0 0 0 0)"

definition Recording_SetHeadBufferSize ::
  "64 word \<Rightarrow> 64 word \<Rightarrow> recording_allocator \<Rightarrow> tflite_status \<times> recording_allocator" where
  "Recording_SetHeadBufferSize sz alignment A =
     (case SetHeadBufferSize sz alignment A of (st, B) \<Rightarrow>
        (st, if st = kTfLiteOk
             then B\<lparr>used_bytes := used_bytes B + (head_ptr B - head_ptr A), requested_head_bytes := sz\<rparr>
             else B))"

definition Recording_AllocateFromTail ::
  "64 word \<Rightarrow> 64 word \<Rightarrow> recording_allocator \<Rightarrow> 64 word option \<times> recording_allocator" where
  "Recording_AllocateFromTail sz alignment A =
     (case AllocateFromTail sz alignment A of (result, B) \<Rightarrow>
        (result, if result \<noteq> None
                 then B\<lparr>used_bytes := used_bytes B + (tail_ptr A - tail_ptr B),
                        requested_tail_bytes := requested_tail_bytes B + sz, alloc_count := alloc_count B + 1\<rparr>
                 else B))"

text \<open>The recording allocator is a simple one with four more words: 88 bytes.\<close>

definition Recording_Create :: "64 word \<Rightarrow> 64 word \<Rightarrow> recording_allocator option" where
  "Recording_Create buffer buffer_size =
     (case Recording_AllocateFromTail 88 8 (RecordingSimpleMemoryAllocator buffer buffer_size) of
        (None, _) \<Rightarrow> None
      | (Some _, A) \<Rightarrow> Some A)"

definition GetRequestedBytes :: "recording_allocator \<Rightarrow> 64 word" where
  "GetRequestedBytes A = requested_head_bytes A + requested_tail_bytes A"

definition Recording_GetUsedBytes :: "recording_allocator \<Rightarrow> 64 word" where
  "Recording_GetUsedBytes A = used_bytes A"

definition GetAllocatedCount :: "recording_allocator \<Rightarrow> 64 word" where
  "GetAllocatedCount A = alloc_count A"

section \<open>Alignment lemmas\<close>

lemma unat_bound: "unat (w :: 64 word) < 2 ^ 64"
  using unsigned_less [of w, where ?'a = nat] by simp

lemma unat_times: "unat q * unat a < 2 ^ 64 \<Longrightarrow> unat (q * a) = unat q * unat a" for q a :: "64 word"
  by (simp add: unat_word_ariths)

lemma unat_AlignPointerDown: "unat (AlignPointerDown d a) = unat d div unat a * unat a"
proof -
  have "unat d div unat a * unat a \<le> unat d" by simp
  then have "unat d div unat a * unat a < 2 ^ 64" using unat_bound [of d] by (rule le_less_trans)
  then show ?thesis by (simp add: AlignPointerDown_def unat_times unat_div)
qed

lemma AlignPointerDown_le: "AlignPointerDown d a \<le> d"
  by (simp add: word_le_nat_alt unat_AlignPointerDown)

lemma AlignPointerDown_aligned: "unat (AlignPointerDown d a) mod unat a = 0"
  by (simp add: unat_AlignPointerDown)

text \<open>The greatest aligned address that is not above.\<close>

lemma AlignPointerDown_greatest:
  assumes "p \<le> d" "unat p mod unat a = 0"
  shows "p \<le> AlignPointerDown d a"
proof -
  have "unat p = unat p div unat a * unat a" using assms(2) by (metis add.right_neutral div_mult_mod_eq)
  also have "\<dots> \<le> unat d div unat a * unat a"
    using assms(1) by (intro mult_le_mono1 div_le_mono) (simp add: word_le_nat_alt)
  finally show ?thesis by (simp add: word_le_nat_alt unat_AlignPointerDown)
qed

lemma unat_AlignPointerUp:
  assumes "unat d + unat a \<le> 2 ^ 64" "a \<noteq> 0"
  shows "unat (AlignPointerUp d a) = (unat d + (unat a - 1)) div unat a * unat a"
proof -
  have a: "0 < unat a" using assms(2) by (simp add: unat_gt_0)
  then have pred: "unat (a - 1) = unat a - 1" by (simp add: unat_sub word_le_nat_alt)
  have "unat d + (unat a - 1) < 2 ^ 64" using assms(1) a by linarith
  then have sum: "unat (d + (a - 1)) = unat d + (unat a - 1)"
    by (simp add: unat_word_ariths pred)
  have "(unat d + (unat a - 1)) div unat a * unat a \<le> unat d + (unat a - 1)" by simp
  then have "(unat d + (unat a - 1)) div unat a * unat a < 2 ^ 64"
    using \<open>unat d + (unat a - 1) < 2 ^ 64\<close> by (rule le_less_trans)
  then show ?thesis by (simp add: AlignPointerUp_def unat_times unat_div sum)
qed

lemma AlignPointerUp_aligned:
  assumes "unat d + unat a \<le> 2 ^ 64" "a \<noteq> 0" "unat d mod unat a = 0"
  shows "AlignPointerUp d a = d"
proof -
  have a: "0 < unat a" using assms(2) by (simp add: unat_gt_0)
  obtain k where k: "unat d = k * unat a" using assms(3) by (metis add.right_neutral div_mult_mod_eq)
  have "(unat a - 1 + k * unat a) div unat a = k" using a by (subst div_mult_self1) simp_all
  then have "unat (AlignPointerUp d a) = unat d" using assms(1,2) by (simp add: unat_AlignPointerUp k add.commute)
  then show ?thesis by (rule word_unat_eq_iff [THEN iffD2])
qed

section \<open>Persistent blocks\<close>

text \<open>What a client does with the allocator, and the blocks it got: address, size and alignment, the last first.\<close>

datatype arena_op =
    SetHead "64 word" "64 word"
  | Tail "64 word" "64 word"
  | Temp "64 word" "64 word"
  | ResetTemp

type_synonym block = "64 word \<times> 64 word \<times> 64 word"

fun run_op :: "arena_op \<Rightarrow> simple_allocator \<times> block list \<Rightarrow> simple_allocator \<times> block list" where
  "run_op (SetHead sz a) (A, bs) = (snd (SetHeadBufferSize sz a A), bs)"
| "run_op (Tail sz a) (A, bs) = (case AllocateFromTail sz a A of
     (None, B) \<Rightarrow> (B, bs) | (Some p, B) \<Rightarrow> (B, (p, sz, a) # bs))"
| "run_op (Temp sz a) (A, bs) = (snd (AllocateTemp sz a A), bs)"
| "run_op ResetTemp (A, bs) = (ResetTempAllocations A, bs)"

definition run_ops :: "arena_op list \<Rightarrow> simple_allocator \<times> block list \<Rightarrow> simple_allocator \<times> block list" where
  "run_ops ops s = fold run_op ops s"

text \<open>
  The start of the arena has every alignment asked for in the head, and no size in the tail is
  larger than the address of the arena, so that no pointer wraps below zero.
\<close>

primrec sensible :: "64 word \<Rightarrow> arena_op \<Rightarrow> bool" where
  "sensible start (SetHead sz a) \<longleftrightarrow> a \<noteq> 0 \<and> unat start mod unat a = 0 \<and> unat start + unat a \<le> 2 ^ 64"
| "sensible start (Tail sz a) \<longleftrightarrow> a \<noteq> 0 \<and> sz \<le> start"
| "sensible start (Temp sz a) \<longleftrightarrow> True"
| "sensible start ResetTemp \<longleftrightarrow> True"

definition below :: "block \<Rightarrow> block \<Rightarrow> bool" where
  "below b c \<longleftrightarrow> unat (fst b) + unat (fst (snd b)) \<le> unat (fst c)"

definition blocks_ok :: "simple_allocator \<Rightarrow> block list \<Rightarrow> bool" where
  "blocks_ok A bs \<longleftrightarrow> buffer_head A \<le> head_ptr A \<and> head_ptr A \<le> tail_ptr A \<and> tail_ptr A \<le> buffer_tail A
     \<and> sorted_wrt below bs
     \<and> (\<forall>(p, sz, a)\<in>set bs. tail_ptr A \<le> p \<and> unat p + unat sz \<le> unat (buffer_tail A) \<and> unat p mod unat a = 0)"

lemma AllocateFromTail_block:
  assumes "AllocateFromTail sz a A = (Some p, B)" "sz \<le> tail_ptr A"
  shows "unat p + unat sz \<le> unat (tail_ptr A)" "unat p mod unat a = 0" "head_ptr A \<le> p"
    "B = A\<lparr>tail_ptr := p\<rparr>"
proof -
  have p: "p = AlignPointerDown (tail_ptr A - sz) a" "head_ptr A \<le> p" "B = A\<lparr>tail_ptr := p\<rparr>"
    using assms(1) by (auto simp: AllocateFromTail_def Let_def split: if_splits)
  have "unat p \<le> unat (tail_ptr A) - unat sz"
    using AlignPointerDown_le [of "tail_ptr A - sz" a] assms(2) p(1) by (simp add: word_le_nat_alt unat_sub)
  then show "unat p + unat sz \<le> unat (tail_ptr A)" using assms(2) by (simp add: word_le_nat_alt)
  show "unat p mod unat a = 0" using p(1) by (simp add: AlignPointerDown_aligned)
qed (use assms(1) in \<open>auto simp: AllocateFromTail_def Let_def split: if_splits\<close>)

lemma run_op_blocks_ok:
  assumes "blocks_ok A bs" "sensible (buffer_head A) op" "run_op op (A, bs) = (B, cs)"
  shows "blocks_ok B cs \<and> buffer_head B = buffer_head A \<and> buffer_tail B = buffer_tail A"
proof (cases op)
  case (SetHead sz a)
  then have aligned: "AlignPointerUp (buffer_head A) a = buffer_head A"
    using assms(2) by (intro AlignPointerUp_aligned) simp_all
  have ok: "blocks_ok (A\<lparr>head_ptr := buffer_head A + sz, temp_ptr := buffer_head A + sz\<rparr>) bs"
    if "sz \<le> tail_ptr A - buffer_head A"
  proof -
    have le: "buffer_head A \<le> tail_ptr A" using assms(1) by (auto simp: blocks_ok_def)
    have "unat sz \<le> unat (tail_ptr A) - unat (buffer_head A)"
      using that le by (simp add: word_le_nat_alt unat_sub)
    then have "unat (buffer_head A) + unat sz \<le> unat (tail_ptr A)" using le by (simp add: word_le_nat_alt)
    moreover from this have "unat (buffer_head A + sz) = unat (buffer_head A) + unat sz"
      using unat_bound [of "tail_ptr A"] by (simp add: unat_word_ariths)
    ultimately show ?thesis using assms(1) by (auto simp: blocks_ok_def word_le_nat_alt)
  qed
  then show ?thesis
    using assms(1,3) SetHead aligned by (auto simp: SetHeadBufferSize_def Let_def not_less)
next
  case (Tail sz a)
  have "sz \<le> tail_ptr A" using assms(1,2) Tail by (auto simp: blocks_ok_def)
  note block = AllocateFromTail_block [OF _ this, of a]
  show ?thesis
  proof (cases "AllocateFromTail sz a A")
    case (Pair r C)
    show ?thesis
    proof (cases r)
      case None
      then show ?thesis
        using Pair assms(1,3) Tail by (auto simp: AllocateFromTail_def Let_def split: if_splits)
    next
      case (Some p)
      note b = block [OF Pair [unfolded Some]]
      have "p \<le> tail_ptr A" using b(1) by (simp add: word_le_nat_alt)
      moreover have "B = A\<lparr>tail_ptr := p\<rparr>" "cs = (p, sz, a) # bs"
        using Pair Some assms(3) Tail b(4) by simp_all
      ultimately show ?thesis
        using assms(1) b(1-3) by (fastforce simp: blocks_ok_def below_def word_le_nat_alt)
    qed
  qed
qed (use assms in \<open>auto simp: AllocateTemp_def ResetTempAllocations_def blocks_ok_def Let_def\<close>)

lemma run_ops_blocks_ok:
  "blocks_ok A bs \<Longrightarrow> \<forall>op\<in>set ops. sensible (buffer_head A) op \<Longrightarrow> run_ops ops (A, bs) = (B, cs) \<Longrightarrow>
   blocks_ok B cs \<and> buffer_head B = buffer_head A \<and> buffer_tail B = buffer_tail A"
proof (induction ops arbitrary: A bs)
  case (Cons op ops)
  obtain C ds where C: "run_op op (A, bs) = (C, ds)" by (metis surj_pair)
  show ?case
    using run_op_blocks_ok [OF Cons.prems(1) _ C] Cons.IH [of C ds] Cons.prems(2,3) C
    by (simp add: run_ops_def)
qed (simp add: run_ops_def)

text \<open>The head from an aligned start, for an alignment that is a power of two.\<close>

lemma SetHeadBufferSize_from_start:
  assumes "SetHeadBufferSize sz a A = (kTfLiteOk, B)" "a \<noteq> 0" "unat a dvd 2 ^ 64" "unat a dvd unat (buffer_head A)"
    "buffer_head A \<le> tail_ptr A"
  shows "unat (head_ptr B) = unat (buffer_head A) + unat sz" "head_ptr B \<le> tail_ptr B"
    "B = A\<lparr>head_ptr := buffer_head A + sz, temp_ptr := buffer_head A + sz\<rparr>"
proof -
  have "unat (buffer_head A) + unat a \<le> 2 ^ 64"
  proof -
    obtain m where m: "2 ^ 64 = unat a * m" using assms(3) by (rule dvdE)
    obtain k where k: "unat (buffer_head A) = unat a * k" using assms(4) by (rule dvdE)
    note km = k m
    then have "unat a * k < unat a * m" using unat_bound [of "buffer_head A"] by metis
    then have "unat a * Suc k \<le> unat a * m" by (intro mult_le_mono2) simp
    then show ?thesis using km by simp
  qed
  then have aligned: "AlignPointerUp (buffer_head A) a = buffer_head A"
    by (rule AlignPointerUp_aligned) (use assms(2,4) in simp_all)
  show B: "B = A\<lparr>head_ptr := buffer_head A + sz, temp_ptr := buffer_head A + sz\<rparr>"
    using assms(1) by (auto simp: SetHeadBufferSize_def aligned Let_def split: if_splits)
  have "sz \<le> tail_ptr A - buffer_head A"
    using assms(1) by (auto simp: SetHeadBufferSize_def aligned Let_def not_less split: if_splits)
  then have "unat sz \<le> unat (tail_ptr A) - unat (buffer_head A)"
    using assms(5) by (simp add: word_le_nat_alt unat_sub)
  then have sum: "unat (buffer_head A) + unat sz \<le> unat (tail_ptr A)" using assms(5) by (simp add: word_le_nat_alt)
  then have "unat (buffer_head A + sz) = unat (buffer_head A) + unat sz"
    using unat_bound [of "tail_ptr A"] by (simp add: unat_word_ariths)
  then show "unat (head_ptr B) = unat (buffer_head A) + unat sz" "head_ptr B \<le> tail_ptr B"
    using B sum by (simp_all add: word_le_nat_alt)
qed

section \<open>Recording\<close>

primrec run_recorded :: "arena_op \<Rightarrow> recording_allocator \<Rightarrow> recording_allocator" where
  "run_recorded (SetHead sz a) A = snd (Recording_SetHeadBufferSize sz a A)"
| "run_recorded (Tail sz a) A = snd (Recording_AllocateFromTail sz a A)"
| "run_recorded (Temp sz a) A = snd (AllocateTemp sz a A)"
| "run_recorded ResetTemp A = ResetTempAllocations A"

text \<open>The record of an allocator \<open>A\<close> that has handed out the blocks \<open>bs\<close>.\<close>

definition records :: "recording_allocator \<Rightarrow> simple_allocator \<Rightarrow> block list \<Rightarrow> bool" where
  "records R A bs \<longleftrightarrow> simple_allocator.truncate R = A
     \<and> used_bytes R = head_ptr A - buffer_head A + (buffer_tail A - tail_ptr A)
     \<and> alloc_count R = of_nat (length bs) \<and> requested_tail_bytes R = sum_list (map (fst \<circ> snd) bs)"

lemma run_recorded_records:
  assumes "records R A bs" "run_op op (A, bs) = (B, cs)"
  shows "records (run_recorded op R) B cs"
proof (cases op)
  case (Tail sz a)
  then show ?thesis
    using assms
    by (auto simp: records_def Recording_AllocateFromTail_def AllocateFromTail_def Let_def simple_allocator.defs
        split: if_splits)
qed (use assms in \<open>auto simp: records_def Recording_SetHeadBufferSize_def SetHeadBufferSize_def AllocateTemp_def
   ResetTempAllocations_def Let_def simple_allocator.defs split: if_splits\<close>)

lemma run_ops_records:
  "records R A bs \<Longrightarrow> run_ops ops (A, bs) = (B, cs) \<Longrightarrow> records (fold run_recorded ops R) B cs"
proof (induction ops arbitrary: R A bs)
  case (Cons op ops)
  obtain C ds where C: "run_op op (A, bs) = (C, ds)" by (metis surj_pair)
  show ?case
    using run_recorded_records [OF Cons.prems(1) C] Cons.IH [of _ C ds] Cons.prems(2) C
    by (simp add: run_ops_def)
qed (simp add: run_ops_def)

section \<open>Properties\<close>

text \<open>
  C35: The blocks taken from the tail are aligned as asked for, are disjoint, end within the arena and
  stay clear of the head, whatever head sizes and temporary allocations come between.
\<close>

theorem persistent_blocks_disjoint:
  assumes "unat start + unat n < 2 ^ 64" "\<forall>op\<in>set ops. sensible start op"
    "run_ops ops (SimpleMemoryAllocator start n, []) = (A, bs)"
  shows "sorted_wrt below bs
    \<and> (\<forall>(p, sz, a)\<in>set bs. unat p mod unat a = 0 \<and> head_ptr A \<le> p \<and> unat p + unat sz \<le> unat start + unat n)"
proof -
  have "unat (start + n) = unat start + unat n" using assms(1) by (simp add: unat_word_ariths)
  then have "blocks_ok (SimpleMemoryAllocator start n) []"
    by (simp add: blocks_ok_def SimpleMemoryAllocator_def word_le_nat_alt)
  from run_ops_blocks_ok [OF this _ assms(3)] assms(2)
  have "blocks_ok A bs" "buffer_tail A = start + n" by (simp_all add: SimpleMemoryAllocator_def)
  then show ?thesis
    using \<open>unat (start + n) = unat start + unat n\<close> by (fastforce simp: blocks_ok_def)
qed

theorem persistent_blocks_disjoint_witness:
  "sorted_wrt below [(0x1FD8, 20, 8), (0x1FF0, 16, 16 :: 64 word)]"
proof -
  have "run_ops [SetHead 128 16, Tail 16 16, Temp 8 4, Tail 20 8, Tail 0x1000 8] (SimpleMemoryAllocator 0x1000 0x1000, [])
      = (\<lparr>buffer_head = 0x1000, buffer_tail = 0x2000, head_ptr = 0x1080, tail_ptr = 0x1FD8, temp_ptr = 0x1088\<rparr>,
         [(0x1FD8, 20, 8), (0x1FF0, 16, 16)])"
    by code_simp
  from persistent_blocks_disjoint [OF _ _ this] show ?thesis by simp
qed

text \<open>
  An allocation from the tail takes the highest aligned address at which the block fits below the
  tail, and fails only if all these addresses are in the head.
\<close>

theorem tail_allocation_best:
  assumes "sz \<le> tail_ptr A"
  shows "case AllocateFromTail sz a A of
     (None, B) \<Rightarrow> B = A \<and> (\<forall>q. unat q mod unat a = 0 \<and> unat q + unat sz \<le> unat (tail_ptr A) \<longrightarrow> q < head_ptr A)
   | (Some p, B) \<Rightarrow> B = A\<lparr>tail_ptr := p\<rparr> \<and> head_ptr A \<le> p \<and> unat p mod unat a = 0 \<and> unat p + unat sz \<le> unat (tail_ptr A)
       \<and> (\<forall>q. unat q mod unat a = 0 \<and> unat q + unat sz \<le> unat (tail_ptr A) \<longrightarrow> q \<le> p)"
proof -
  let ?p = "AlignPointerDown (tail_ptr A - sz) a"
  have best: "q \<le> ?p" if "unat q mod unat a = 0" "unat q + unat sz \<le> unat (tail_ptr A)" for q
    by (rule AlignPointerDown_greatest) (use that assms in \<open>auto simp: word_le_nat_alt unat_sub\<close>)
  show ?thesis
  proof (cases "?p < head_ptr A")
    case True
    then have "q < head_ptr A" if "unat q mod unat a = 0" "unat q + unat sz \<le> unat (tail_ptr A)" for q
      using best [OF that] by (rule le_less_trans [rotated])
    then show ?thesis using True by (simp add: AllocateFromTail_def Let_def)
  next
    case False
    then have "AllocateFromTail sz a A = (Some ?p, A\<lparr>tail_ptr := ?p\<rparr>)" by (simp add: AllocateFromTail_def Let_def)
    note eq = this and block = AllocateFromTail_block [OF this assms]
    show ?thesis unfolding eq by (simp add: block(1-3) best del: mod_0_imp_dvd mod_eq_0_iff_dvd)
  qed
qed

theorem tail_allocation_best_witness:
  "\<forall>q :: 64 word. unat q mod 16 = 0 \<and> unat q + 20 \<le> 0x2000 \<longrightarrow> q \<le> 0x1FE0"
proof -
  have "AllocateFromTail 20 16 (SimpleMemoryAllocator 0x1000 0x1000)
      = (Some 0x1FE0, (SimpleMemoryAllocator 0x1000 0x1000)\<lparr>tail_ptr := 0x1FE0\<rparr>)"
    by (simp add: AllocateFromTail_def SimpleMemoryAllocator_def AlignPointerDown_def)
  moreover have "tail_ptr (SimpleMemoryAllocator 0x1000 0x1000) = 0x2000" by (simp add: SimpleMemoryAllocator_def)
  ultimately show ?thesis
    using tail_allocation_best [of 20 "SimpleMemoryAllocator 0x1000 0x1000" 16] by simp
qed

text \<open>
  The recording allocator does what the simple one does, and its counters are exact: the bytes used
  in head and tail, the number of blocks, and the bytes asked for in the tail.
\<close>

theorem recording_exact:
  "case run_ops ops (SimpleMemoryAllocator start n, []) of (A, bs) \<Rightarrow>
     (let R = fold run_recorded ops (RecordingSimpleMemoryAllocator start n)
      in simple_allocator.truncate R = A
       \<and> Recording_GetUsedBytes R = GetHeadUsedBytes A + GetTailUsedBytes A
       \<and> GetAllocatedCount R = of_nat (length bs)
       \<and> requested_tail_bytes R = sum_list (map (fst \<circ> snd) bs))"
proof -
  obtain A bs where run: "run_ops ops (SimpleMemoryAllocator start n, []) = (A, bs)" by (metis surj_pair)
  have "records (RecordingSimpleMemoryAllocator start n) (SimpleMemoryAllocator start n) []"
    by (simp add: records_def RecordingSimpleMemoryAllocator_def SimpleMemoryAllocator_def simple_allocator.defs
        recording_allocator.defs)
  from run_ops_records [OF this run] show ?thesis
    by (simp add: run records_def Let_def Recording_GetUsedBytes_def GetHeadUsedBytes_def GetTailUsedBytes_def
        GetAllocatedCount_def)
qed

text \<open>
  \<^verbatim>\<open>AllocateFromTail\<close> looks at the head only: it hands out memory that a temporary allocation,
  which has not been reset, holds. Here both have 64 bytes of an arena of 96.
\<close>

theorem tail_overlaps_temporary:
  "\<exists>A B p q. AllocateTemp 64 16 (SimpleMemoryAllocator 0x1000 96) = (Some p, A)
    \<and> AllocateFromTail 64 16 A = (Some q, B) \<and> p \<le> q \<and> unat q < unat p + 64"
  by (simp add: AllocateTemp_def AllocateFromTail_def SimpleMemoryAllocator_def AlignPointerUp_def AlignPointerDown_def)

text \<open>
  If the alignment moves a temporary allocation past the tail, the difference wraps around, and any
  size is granted.
\<close>

theorem temporary_past_the_tail:
  assumes "tail_ptr A < AlignPointerUp (temp_ptr A) a" "sz \<le> tail_ptr A"
  shows "fst (AllocateTemp sz a A) = Some (AlignPointerUp (temp_ptr A) a)"
proof -
  let ?p = "AlignPointerUp (temp_ptr A) a"
  have "sz \<le> tail_ptr A - ?p"
  proof -
    have "unat (tail_ptr A - ?p) = unat (tail_ptr A) + 2 ^ 64 - unat ?p"
      using assms(1) unat_bound [of ?p] by (simp add: unat_sub_if_size word_size word_less_nat_alt)
    moreover have "unat sz \<le> unat (tail_ptr A)" using assms(2) by (simp add: word_le_nat_alt)
    ultimately show ?thesis using unat_bound [of ?p] by (simp add: word_le_nat_alt)
  qed
  then show ?thesis by (simp add: AllocateTemp_def Let_def not_less)
qed

theorem temporary_past_the_tail_witness:
  "fst (AllocateTemp 0x800 16 (SimpleMemoryAllocator 0x1001 8)) = Some 0x1010"
  using temporary_past_the_tail [where A = "SimpleMemoryAllocator 0x1001 8" and a = 16 and sz = "0x800"]
  by (simp add: SimpleMemoryAllocator_def AlignPointerUp_def)

end
