(* ===== verification/Micro_Planning.thy ===== *)
theory Micro_Planning
  imports Greedy_Planner Micro_Memory Model_Schema
begin

text \<open>
  \<^verbatim>\<open>micro/micro_allocator.cc\<close>: the static memory plan of a model. From the operators of the
  subgraph the allocator finds the first and last use of each tensor, gives the tensors and the scratch
  buffers of the kernels to the greedy planner, and writes the addresses into the tensors and handles.

  \<^term>\<open>None\<close> is an access outside an array or through a null pointer. What the planner is given
  are \<^verbatim>\<open>int\<close>s. The number of elements of a tensor is an \<^verbatim>\<open>int\<close> too, whose product wraps around here.
\<close>

section \<open>Sizes\<close>

record eval_tensor =
  eval_data :: "64 word option"
  eval_dims :: "int list option"
  eval_type :: tflite_type

fun TfLiteTypeSizeOf :: "tflite_type \<Rightarrow> 64 word option" where
  "TfLiteTypeSizeOf kTfLiteFloat32 = Some 4"
| "TfLiteTypeSizeOf kTfLiteInt16 = Some 2"
| "TfLiteTypeSizeOf kTfLiteInt32 = Some 4"
| "TfLiteTypeSizeOf kTfLiteUInt8 = Some 1"
| "TfLiteTypeSizeOf kTfLiteInt8 = Some 1"
| "TfLiteTypeSizeOf kTfLiteInt64 = Some 8"
| "TfLiteTypeSizeOf kTfLiteBool = Some 1"
| "TfLiteTypeSizeOf kTfLiteComplex64 = Some 8"
| "TfLiteTypeSizeOf kTfLiteComplex128 = Some 16"
| "TfLiteTypeSizeOf _ = None"

definition TfLiteEvalTensorByteLength :: "eval_tensor \<Rightarrow> 64 word option" where
  "TfLiteEvalTensorByteLength t =
     (let element_count = (case eval_dims t of None \<Rightarrow> 1 | Some ds \<Rightarrow> foldl (\<lambda>n d. n * word_of_int d) (1 :: 32 word) ds)
      in case TfLiteTypeSizeOf (eval_type t) of
           None \<Rightarrow> None
         | Some type_size \<Rightarrow> Some (scast element_count * type_size))"

section \<open>Lifetimes\<close>

text \<open>The pointer that the plan fills in: the data of a tensor, or a scratch buffer handle.\<close>

datatype output_location = TensorData nat | ScratchHandle nat

record allocation_info =
  info_bytes :: "64 word"
  output_ptr :: output_location
  first_created :: int
  last_used :: int
  info_offline_offset :: int
  needs_allocating :: bool

record scratch_request =
  request_bytes :: "64 word"
  request_node_idx :: int

text \<open>A loop over a list that returns when a step does not end with \<^verbatim>\<open>kTfLiteOk\<close>.\<close>

primrec do_each_ok ::
  "('a \<Rightarrow> 's \<Rightarrow> (tflite_status \<times> 's) option) \<Rightarrow> 'a list \<Rightarrow> 's \<Rightarrow> (tflite_status \<times> 's) option" where
  "do_each_ok f [] s = Some (kTfLiteOk, s)"
| "do_each_ok f (x # xs) s = do {
     (st, s) \<leftarrow> f x s;
     if st \<noteq> kTfLiteOk then Some (st, s) else do_each_ok f xs s }"

definition start_info ::
  "fb_tensor list \<Rightarrow> int list option \<Rightarrow> eval_tensor list \<Rightarrow> nat \<Rightarrow> allocation_info list
   \<Rightarrow> (tflite_status \<times> allocation_info list) option" where
  "start_info tensors offline_offsets eval_tensors i infos = do {
     e \<leftarrow> vec_at eval_tensors (int i);
     (case TfLiteEvalTensorByteLength e of
        None \<Rightarrow> Some (kTfLiteError, infos)
      | Some n_bytes \<Rightarrow> do {
          t \<leftarrow> vec_at tensors (int i);
          offline_offset \<leftarrow> (case offline_offsets of
             None \<Rightarrow> Some kOnlinePlannedBuffer | Some offsets \<Rightarrow> vec_at offsets (int i));
          infos \<leftarrow> vec_set infos (int i)
            \<lparr>info_bytes = n_bytes, output_ptr = TensorData i, first_created = -1, last_used = -1,
             info_offline_offset = offline_offset,
             needs_allocating = (eval_data e = None \<and> \<not> fb_is_variable t)\<rparr>;
          Some (kTfLiteOk, infos) }) }"

definition note_model_input :: "int \<Rightarrow> allocation_info list \<Rightarrow> allocation_info list option" where
  "note_model_input t infos = do {
     current \<leftarrow> vec_at infos t;
     vec_set infos t (current\<lparr>first_created := 0\<rparr>) }"

definition note_model_output :: "int \<Rightarrow> int \<Rightarrow> allocation_info list \<Rightarrow> allocation_info list option" where
  "note_model_output last_op t infos = do {
     current \<leftarrow> vec_at infos t;
     vec_set infos t (current\<lparr>last_used := last_op\<rparr>) }"

text \<open>An input of an operator that nothing has created, next to one that the client fills in.\<close>

definition create_input :: "int \<Rightarrow> int \<Rightarrow> allocation_info list \<Rightarrow> allocation_info list option" where
  "create_input i t infos = do {
     op_current \<leftarrow> vec_at infos t;
     if needs_allocating op_current \<and> first_created op_current = -1
     then vec_set infos t (op_current\<lparr>first_created := i\<rparr>)
     else Some infos }"

definition note_input :: "int \<Rightarrow> int list \<Rightarrow> int \<Rightarrow> allocation_info list \<Rightarrow> allocation_info list option" where
  "note_input i op_inputs t infos = do {
     current \<leftarrow> vec_at infos t;
     infos \<leftarrow> (if first_created current = 0 then do_each (create_input i) op_inputs infos else Some infos);
     current \<leftarrow> vec_at infos t;
     if last_used current = -1 \<or> last_used current < i
     then vec_set infos t (current\<lparr>last_used := i\<rparr>)
     else Some infos }"

definition note_output :: "int \<Rightarrow> int \<Rightarrow> allocation_info list \<Rightarrow> allocation_info list option" where
  "note_output i t infos = do {
     current \<leftarrow> vec_at infos t;
     if first_created current = -1 \<or> first_created current > i
     then vec_set infos t (current\<lparr>first_created := i\<rparr>)
     else Some infos }"

definition note_operator :: "nat \<times> fb_operator \<Rightarrow> allocation_info list \<Rightarrow> allocation_info list option" where
  "note_operator = (\<lambda>(i, op) infos. do {
     op_inputs \<leftarrow> fb_op_inputs op;
     infos \<leftarrow> do_each (note_input (int i) op_inputs) op_inputs infos;
     op_outputs \<leftarrow> fb_op_outputs op;
     do_each (note_output (int i)) op_outputs infos })"

definition finish_info :: "nat \<Rightarrow> allocation_info list \<Rightarrow> (tflite_status \<times> allocation_info list) option" where
  "finish_info i infos = do {
     current \<leftarrow> vec_at infos (int i);
     let is_read_only = (first_created current = -1 \<and> last_used current \<noteq> -1);
     let current = (if is_read_only then current\<lparr>needs_allocating := False\<rparr> else current);
     let has_partial_lifetime = (\<not> is_read_only \<and> (first_created current = -1 \<or> last_used current = -1));
     infos \<leftarrow> vec_set infos (int i) current;
     Some (if has_partial_lifetime \<and> needs_allocating current then kTfLiteError else kTfLiteOk, infos) }"

definition Builder_AddTensors ::
  "nat \<Rightarrow> fb_subgraph \<Rightarrow> int list option \<Rightarrow> eval_tensor list \<Rightarrow> allocation_info list
   \<Rightarrow> (tflite_status \<times> allocation_info list) option" where
  "Builder_AddTensors tensor_count subgraph offline_offsets eval_tensors infos = do {
     tensors \<leftarrow> fb_tensors subgraph;
     (st, infos) \<leftarrow> do_each_ok (start_info tensors offline_offsets eval_tensors) [0..<tensor_count] infos;
     if st \<noteq> kTfLiteOk then Some (st, infos)
     else do {
       inputs \<leftarrow> fb_inputs subgraph;
       infos \<leftarrow> do_each note_model_input inputs infos;
       outputs \<leftarrow> fb_outputs subgraph;
       operators \<leftarrow> fb_operators subgraph;
       infos \<leftarrow> do_each (note_model_output (int (length operators) - 1)) outputs infos;
       infos \<leftarrow> do_each note_operator (rev (List.enumerate 0 operators)) infos;
       do_each_ok finish_info [0..<tensor_count] infos } }"

definition add_scratch_buffer ::
  "scratch_request list \<Rightarrow> nat \<Rightarrow> nat \<Rightarrow> allocation_info list \<Rightarrow> allocation_info list option" where
  "add_scratch_buffer requests tensor_count i infos = do {
     request \<leftarrow> vec_at requests (int i - int tensor_count);
     vec_set infos (int i)
       \<lparr>info_bytes = request_bytes request, output_ptr = ScratchHandle (i - tensor_count),
        first_created = request_node_idx request, last_used = request_node_idx request,
        info_offline_offset = kOnlinePlannedBuffer, needs_allocating = True\<rparr> }"

definition AddScratchBuffers ::
  "scratch_request list \<Rightarrow> nat \<Rightarrow> nat \<Rightarrow> allocation_info list \<Rightarrow> allocation_info list option" where
  "AddScratchBuffers requests tensor_count scratch_count infos =
     do_each (add_scratch_buffer requests tensor_count) [tensor_count..<tensor_count + scratch_count] infos"

section \<open>The plan\<close>

text \<open>A size is converted to an \<^verbatim>\<open>int\<close>.\<close>

definition aligned_int_size :: "64 word \<Rightarrow> int" where
  "aligned_int_size n = sint (ucast (AlignSizeUp n 16) :: 32 word)"

definition plan_info :: "allocation_info \<Rightarrow> greedy_planner \<Rightarrow> tflite_status \<times> greedy_planner" where
  "plan_info current planner =
     (if \<not> needs_allocating current then (kTfLiteOk, planner)
      else if info_offline_offset current = kOnlinePlannedBuffer
      then AddBuffer (aligned_int_size (info_bytes current)) (first_created current) (last_used current) planner
      else AddBuffer_offline (aligned_int_size (info_bytes current)) (first_created current) (last_used current)
             (info_offline_offset current) planner)"

definition CreatePlan :: "allocation_info list \<Rightarrow> greedy_planner \<Rightarrow> (tflite_status \<times> greedy_planner) option" where
  "CreatePlan = do_each_ok (\<lambda>current planner. Some (plan_info current planner))"

type_synonym pointers = "output_location \<rightharpoonup> 64 word"

text \<open>Storing a pointer; the scratch buffer handles are an array that may be missing.\<close>

definition store_pointer :: "64 word option \<Rightarrow> output_location \<Rightarrow> 64 word \<Rightarrow> pointers \<Rightarrow> pointers option" where
  "store_pointer handles loc v mem =
     (case loc of
        TensorData _ \<Rightarrow> Some (mem(loc \<mapsto> v))
      | ScratchHandle _ \<Rightarrow> if handles = None then None else Some (mem(loc \<mapsto> v)))"

definition commit_info ::
  "64 word option \<Rightarrow> 64 word \<Rightarrow> allocation_info \<Rightarrow> nat \<times> greedy_planner \<times> pointers
   \<Rightarrow> (tflite_status \<times> nat \<times> greedy_planner \<times> pointers) option" where
  "commit_info handles starting_point current = (\<lambda>(planner_index, planner, mem).
     if \<not> needs_allocating current then Some (kTfLiteOk, planner_index, planner, mem)
     else do {
       (st, offset, planner) \<leftarrow> GetOffsetForBuffer (int planner_index) planner;
       if st \<noteq> kTfLiteOk then Some (st, planner_index, planner, mem)
       else do {
         offset \<leftarrow> offset;
         mem \<leftarrow> store_pointer handles (output_ptr current) (starting_point + word_of_int offset) mem;
         Some (kTfLiteOk, planner_index + 1, planner, mem) } })"

definition CommitPlan ::
  "64 word option \<Rightarrow> greedy_planner \<Rightarrow> 64 word \<Rightarrow> allocation_info list \<Rightarrow> pointers
   \<Rightarrow> (tflite_status \<times> greedy_planner \<times> pointers) option" where
  "CommitPlan handles planner starting_point infos mem = do {
     (st, _, planner, mem) \<leftarrow> do_each_ok (commit_info handles starting_point) infos (0, planner, mem);
     Some (st, planner, mem) }"

section \<open>Offsets from the model file\<close>

abbreviation (input) kOfflineMemAllocMetadata :: string where
  "kOfflineMemAllocMetadata \<equiv> ''OfflineMemoryAllocation''"

text \<open>
  The 32-bit words of a buffer of the model file are an argument: what \<^verbatim>\<open>(*buffers)[i]->data()\<close> gives.
\<close>

definition metadata_step ::
  "nat \<Rightarrow> (nat \<Rightarrow> 32 word list option) \<Rightarrow> string \<times> nat \<Rightarrow> int list option
   \<Rightarrow> (tflite_status \<times> int list option) option" where
  "metadata_step tensor_count buffer_words = (\<lambda>(name, buffer) offsets.
     if take (length kOfflineMemAllocMetadata) name = kOfflineMemAllocMetadata then do {
       words \<leftarrow> buffer_words buffer;
       nbr_tensors \<leftarrow> vec_at words 2;
       Some (if tensor_count \<noteq> unat nbr_tensors then kTfLiteError else kTfLiteOk, Some (map sint (drop 3 words))) }
     else Some (kTfLiteOk, offsets))"

definition GetOfflinePlannedOffsets ::
  "nat \<Rightarrow> (string \<times> nat) list option \<Rightarrow> (nat \<Rightarrow> 32 word list option) \<Rightarrow> (tflite_status \<times> int list option) option" where
  "GetOfflinePlannedOffsets tensor_count metadata buffer_words =
     (case metadata of
        None \<Rightarrow> Some (kTfLiteOk, None)
      | Some ms \<Rightarrow> do_each_ok (metadata_step tensor_count buffer_words) ms None)"

text \<open>The check that only compilers other than clang see: version 1, subgraph 0.\<close>

definition check_metadata_step ::
  "nat \<Rightarrow> (nat \<Rightarrow> 32 word list option) \<Rightarrow> string \<times> nat \<Rightarrow> unit \<Rightarrow> (tflite_status \<times> unit) option" where
  "check_metadata_step tensor_count buffer_words = (\<lambda>(name, buffer) _.
     if take (length kOfflineMemAllocMetadata) name = kOfflineMemAllocMetadata then do {
       words \<leftarrow> buffer_words buffer;
       version \<leftarrow> vec_at words 0;
       subgraph_idx \<leftarrow> vec_at words 1;
       nbr_offline_offsets \<leftarrow> vec_at words 2;
       Some (if version \<noteq> 1 \<or> subgraph_idx \<noteq> 0 \<or> sint nbr_offline_offsets \<noteq> int tensor_count
             then kTfLiteError else kTfLiteOk, ()) }
     else Some (kTfLiteOk, ()))"

definition CheckOfflinePlannedOffsets ::
  "nat \<Rightarrow> (string \<times> nat) list option \<Rightarrow> (nat \<Rightarrow> 32 word list option) \<Rightarrow> tflite_status option" where
  "CheckOfflinePlannedOffsets tensor_count metadata buffer_words =
     (case metadata of
        None \<Rightarrow> Some kTfLiteOk
      | Some ms \<Rightarrow> map_option fst (do_each_ok (check_metadata_step tensor_count buffer_words) ms ()))"

section \<open>The allocator of a model\<close>

text \<open>
  The requests for scratch buffers are kept in the head of the arena: a list here, whose length is
  \<^verbatim>\<open>scratch_buffer_request_count_\<close>. \<^verbatim>\<open>sizeof\<close> is 16 for a request, 8 for a handle, 32 for an
  \<^verbatim>\<open>AllocationInfo\<close> and 48 for the allocator.
\<close>

record micro_allocator =
  memory_allocator :: simple_allocator
  model_is_allocating :: bool
  scratch_requests :: "scratch_request list"
  max_head_buffer_usage :: nat

abbreviation (input) kMaxScratchBuffersPerOp :: nat where "kMaxScratchBuffersPerOp \<equiv> 8"
abbreviation (input) kUnassignedScratchBufferRequestIndex :: int where
  "kUnassignedScratchBufferRequestIndex \<equiv> -1"

definition MicroAllocator_on :: "simple_allocator \<Rightarrow> micro_allocator option" where
  "MicroAllocator_on A =
     (case AllocateFromTail 48 8 A of
        (None, _) \<Rightarrow> None
      | (Some _, A) \<Rightarrow> Some \<lparr>memory_allocator = A, model_is_allocating = False, scratch_requests = [],
                            max_head_buffer_usage = 0\<rparr>)"

definition MicroAllocator_Create :: "64 word \<Rightarrow> 64 word \<Rightarrow> micro_allocator option" where
  "MicroAllocator_Create tensor_arena arena_size =
     (let aligned_arena = AlignPointerUp tensor_arena 16;
          aligned_arena_size = tensor_arena + arena_size - aligned_arena
      in Option.bind (SimpleMemoryAllocator_Create aligned_arena aligned_arena_size) MicroAllocator_on)"

definition InitScratchBufferData :: "micro_allocator \<Rightarrow> tflite_status \<times> micro_allocator" where
  "InitScratchBufferData M =
     (case SetHeadBufferSize (16 * of_nat kMaxScratchBuffersPerOp) 8 (memory_allocator M) of
        (st, A) \<Rightarrow> (st, M\<lparr>scratch_requests := [], memory_allocator := A\<rparr>))"

definition GetScratchBufferRequests :: "micro_allocator \<Rightarrow> 64 word" where
  "GetScratchBufferRequests M = AlignPointerUp (GetHeadBuffer (memory_allocator M)) 8"

text \<open>Writing a request behind the head is outside what the allocator owns: no result.\<close>

definition RequestScratchBufferInArena ::
  "64 word \<Rightarrow> micro_allocator \<Rightarrow> (tflite_status \<times> int option \<times> micro_allocator) option" where
  "RequestScratchBufferInArena n M =
     (let count = length (scratch_requests M);
          current_node_request_count =
            length (filter (\<lambda>r. request_node_idx r = kUnassignedScratchBufferRequestIndex) (scratch_requests M))
      in if current_node_request_count \<ge> kMaxScratchBuffersPerOp then Some (kTfLiteError, None, M)
         else if unat (GetScratchBufferRequests M) + 16 * (count + 1) > unat (head_ptr (memory_allocator M)) then None
         else Some (kTfLiteOk, Some (int count),
                M\<lparr>scratch_requests := scratch_requests M
                    @ [\<lparr>request_bytes = n, request_node_idx = kUnassignedScratchBufferRequestIndex\<rparr>]\<rparr>))"

definition FinishPrepareNodeAllocations :: "int \<Rightarrow> micro_allocator \<Rightarrow> tflite_status \<times> micro_allocator" where
  "FinishPrepareNodeAllocations node_id M =
     (let A = ResetTempAllocations (memory_allocator M);
          requests = map (\<lambda>r. if request_node_idx r = kUnassignedScratchBufferRequestIndex
                             then r\<lparr>request_node_idx := node_id\<rparr> else r) (scratch_requests M)
      in case SetHeadBufferSize (16 * (of_nat (length requests) + of_nat kMaxScratchBuffersPerOp)) 8 A of
           (st, A) \<Rightarrow> (st, M\<lparr>memory_allocator := A, scratch_requests := requests\<rparr>))"

definition AllocatePersistentBuffer :: "64 word \<Rightarrow> micro_allocator \<Rightarrow> 64 word option \<times> micro_allocator" where
  "AllocatePersistentBuffer n M =
     (case AllocateFromTail n 16 (memory_allocator M) of (r, A) \<Rightarrow> (r, M\<lparr>memory_allocator := A\<rparr>))"

definition micro_used_bytes :: "micro_allocator \<Rightarrow> 64 word" where
  "micro_used_bytes M = GetUsedBytes (memory_allocator M)"

text \<open>The array of handles; its address is not checked, and stays what it was without requests.\<close>

definition AllocateScratchBufferHandles ::
  "nat \<Rightarrow> 64 word option \<Rightarrow> micro_allocator \<Rightarrow> tflite_status \<times> 64 word option \<times> micro_allocator" where
  "AllocateScratchBufferHandles handle_count handles M =
     (if scratch_requests M = [] then (kTfLiteOk, handles, M)
      else case AllocateFromTail (8 * of_nat handle_count) 8 (memory_allocator M) of
             (r, A) \<Rightarrow> (kTfLiteOk, r, M\<lparr>memory_allocator := A\<rparr>))"

text \<open>What the array holds before it is written is not read: any value will do.\<close>

definition blank_info :: allocation_info where
  "blank_info = \<lparr>info_bytes = 0, output_ptr = TensorData 0, first_created = -1, last_used = -1,
     info_offline_offset = 0, needs_allocating = False\<rparr>"

text \<open>What is planned: the lifetimes of the tensors, then the scratch buffers.\<close>

definition build_infos ::
  "fb_subgraph \<Rightarrow> (string \<times> nat) list option \<Rightarrow> (nat \<Rightarrow> 32 word list option) \<Rightarrow> eval_tensor list
   \<Rightarrow> scratch_request list \<Rightarrow> nat \<Rightarrow> (tflite_status \<times> allocation_info list) option" where
  "build_infos subgraph metadata buffer_words eval_tensors requests tensor_count = do {
     (st, offline_offsets) \<leftarrow> GetOfflinePlannedOffsets tensor_count metadata buffer_words;
     if st \<noteq> kTfLiteOk then Some (st, [])
     else do {
       (st, infos) \<leftarrow> Builder_AddTensors tensor_count subgraph offline_offsets eval_tensors
                        (replicate (tensor_count + length requests) blank_info);
       if st \<noteq> kTfLiteOk then Some (st, infos)
       else do {
         infos \<leftarrow> AddScratchBuffers requests tensor_count (length requests) infos;
         Some (kTfLiteOk, infos) } } }"

text \<open>
  \<^verbatim>\<open>CommitStaticMemoryPlan\<close> from the allocation of the planner's arena on. The planner gets its size as
  an \<^verbatim>\<open>int\<close>: an arena of 2 GiB or more is outside the model. The arrays in temporary memory are
  read after it is reset, before anything else is allocated.
\<close>

definition plan_and_commit ::
  "allocation_info list \<Rightarrow> 64 word option \<Rightarrow> micro_allocator \<Rightarrow> pointers
   \<Rightarrow> (tflite_status \<times> micro_allocator \<times> pointers) option" where
  "plan_and_commit infos handles M mem =
     (let remaining_arena_size = GetAvailableMemory 16 (memory_allocator M)
      in case AllocateTemp remaining_arena_size 16 (memory_allocator M) of
           (None, A) \<Rightarrow> Some (kTfLiteError, M\<lparr>memory_allocator := A\<rparr>, mem)
         | (Some _, A) \<Rightarrow>
             if remaining_arena_size \<ge> 0x80000000 then None
             else do {
               (st, planner) \<leftarrow> CreatePlan infos (GreedyMemoryPlanner (unat remaining_arena_size));
               if st \<noteq> kTfLiteOk then Some (st, M\<lparr>memory_allocator := A\<rparr>, mem)
               else do {
                 let A = ResetTempAllocations A;
                 let actual_available_arena_size = GetAvailableMemory 16 A;
                 (needed, planner) \<leftarrow> GetMaximumMemorySize planner;
                 if needed > unat actual_available_arena_size
                 then Some (kTfLiteError, M\<lparr>memory_allocator := A\<rparr>, mem)
                 else do {
                   (st, planner, mem) \<leftarrow> CommitPlan handles planner (GetHeadBuffer A) infos mem;
                   if st \<noteq> kTfLiteOk then Some (st, M\<lparr>memory_allocator := A\<rparr>, mem)
                   else do {
                     (head_usage, planner) \<leftarrow> GetMaximumMemorySize planner;
                     let usage = (if max_head_buffer_usage M < head_usage then head_usage else max_head_buffer_usage M);
                     let (st, A) = SetHeadBufferSize (of_nat usage) 16 A;
                     Some (st, M\<lparr>memory_allocator := A, max_head_buffer_usage := usage\<rparr>, mem) } } } })"

definition CommitStaticMemoryPlan ::
  "fb_subgraph \<Rightarrow> (string \<times> nat) list option \<Rightarrow> (nat \<Rightarrow> 32 word list option) \<Rightarrow> eval_tensor list
   \<Rightarrow> 64 word option \<Rightarrow> micro_allocator \<Rightarrow> pointers \<Rightarrow> (tflite_status \<times> micro_allocator \<times> pointers) option" where
  "CommitStaticMemoryPlan subgraph metadata buffer_words eval_tensors handles M mem = do {
     tensors \<leftarrow> fb_tensors subgraph;
     let allocation_info_count = length tensors + length (scratch_requests M);
     (case AllocateTemp (32 * of_nat allocation_info_count) 8 (memory_allocator M) of
        (None, A) \<Rightarrow> Some (kTfLiteError, M\<lparr>memory_allocator := A\<rparr>, mem)
      | (Some _, A) \<Rightarrow> do {
          (st, infos) \<leftarrow> build_infos subgraph metadata buffer_words eval_tensors (scratch_requests M) (length tensors);
          if st \<noteq> kTfLiteOk then Some (st, M\<lparr>memory_allocator := A\<rparr>, mem)
          else plan_and_commit infos handles (M\<lparr>memory_allocator := A\<rparr>) mem }) }"

definition allocate_variable ::
  "fb_tensor list \<Rightarrow> eval_tensor list \<Rightarrow> nat \<Rightarrow> micro_allocator \<times> pointers
   \<Rightarrow> (tflite_status \<times> micro_allocator \<times> pointers) option" where
  "allocate_variable tensors eval_tensors i = (\<lambda>(M, mem). do {
     t \<leftarrow> vec_at tensors (int i);
     if \<not> fb_is_variable t then Some (kTfLiteOk, M, mem)
     else do {
       e \<leftarrow> vec_at eval_tensors (int i);
       (case TfLiteEvalTensorByteLength e of
          None \<Rightarrow> Some (kTfLiteError, M, mem)
        | Some buffer_size \<Rightarrow>
            (case AllocateFromTail buffer_size 16 (memory_allocator M) of
               (None, A) \<Rightarrow> Some (kTfLiteError, M\<lparr>memory_allocator := A\<rparr>, mem(TensorData i := None))
             | (Some p, A) \<Rightarrow> Some (kTfLiteOk, M\<lparr>memory_allocator := A\<rparr>, mem(TensorData i \<mapsto> p)))) } })"

definition AllocateVariables ::
  "fb_subgraph \<Rightarrow> eval_tensor list \<Rightarrow> micro_allocator \<times> pointers
   \<Rightarrow> (tflite_status \<times> micro_allocator \<times> pointers) option" where
  "AllocateVariables subgraph eval_tensors s = do {
     tensors \<leftarrow> fb_tensors subgraph;
     do_each_ok (allocate_variable tensors eval_tensors) [0..<length tensors] s }"

text \<open>A model without exactly one subgraph gives a null pointer, which is then read.\<close>

definition GetSubGraphFromModel :: "fb_model \<Rightarrow> fb_subgraph option" where
  "GetSubGraphFromModel model =
     (case fb_subgraphs model of Some [subgraph] \<Rightarrow> Some subgraph | _ \<Rightarrow> None)"

definition FinishModelAllocation ::
  "fb_model \<Rightarrow> (nat \<Rightarrow> 32 word list option) \<Rightarrow> eval_tensor list \<Rightarrow> 64 word option
   \<Rightarrow> micro_allocator \<Rightarrow> pointers \<Rightarrow> (tflite_status \<times> 64 word option \<times> micro_allocator \<times> pointers) option" where
  "FinishModelAllocation model buffer_words eval_tensors handles M mem =
     (if \<not> model_is_allocating M then Some (kTfLiteError, handles, M, mem)
      else do {
        subgraph \<leftarrow> GetSubGraphFromModel model;
        let (st, handles, M) = AllocateScratchBufferHandles (length (scratch_requests M)) handles M;
        if st \<noteq> kTfLiteOk then Some (st, handles, M, mem)
        else do {
          (st, M, mem) \<leftarrow> CommitStaticMemoryPlan subgraph (fb_metadata model) buffer_words eval_tensors handles M mem;
          if st \<noteq> kTfLiteOk then Some (st, handles, M, mem)
          else do {
            (st, M, mem) \<leftarrow> AllocateVariables subgraph eval_tensors (M, mem);
            if st \<noteq> kTfLiteOk then Some (st, handles, M, mem)
            else Some (kTfLiteOk, handles, M\<lparr>model_is_allocating := False\<rparr>, mem) } } })"

end
