(* ===== verification/Micro_Lifetimes.thy ===== *)
theory Micro_Lifetimes
  imports Micro_Planning
begin

text \<open>
  What the static memory plan of \<^verbatim>\<open>micro/micro_allocator.cc\<close> guarantees: the lifetimes cover every use
  of a tensor, and what is live at the same time is apart in memory and within the head of the arena.
\<close>

section \<open>Loops\<close>

lemma do_each_ok_snoc:
  "do_each_ok f (xs @ [x]) s =
     Option.bind (do_each_ok f xs s) (\<lambda>(st, s). if st \<noteq> kTfLiteOk then Some (st, s) else
       Option.bind (f x s) (\<lambda>(st, s). Some (st, s)))"
  by (induction xs arbitrary: s) (auto split: bind_splits)

text \<open>A loop over the indices below \<open>n\<close> that ended well.\<close>

lemma do_each_ok_upt:
  assumes "do_each_ok f [0..<n] s = Some (kTfLiteOk, s')" "P 0 s"
    "\<And>i s s'. i < n \<Longrightarrow> P i s \<Longrightarrow> f i s = Some (kTfLiteOk, s') \<Longrightarrow> P (Suc i) s'"
  shows "P n s'"
  using assms
proof (induction n arbitrary: s')
  case (Suc n)
  then obtain s1 where "do_each_ok f [0..<n] s = Some (kTfLiteOk, s1)" "f n s1 = Some (kTfLiteOk, s')"
    by (auto simp: do_each_ok_snoc split: bind_splits if_splits)
  then show ?case using Suc by simp
qed simp

section \<open>Lifetimes grow\<close>

text \<open>\<open>b\<close> is the same buffer as \<open>a\<close>, with a lifetime that contains that of \<open>a\<close>.\<close>

definition info_grown :: "allocation_info \<Rightarrow> allocation_info \<Rightarrow> bool" where
  "info_grown a b \<longleftrightarrow> info_bytes b = info_bytes a \<and> output_ptr b = output_ptr a
     \<and> info_offline_offset b = info_offline_offset a \<and> needs_allocating b = needs_allocating a
     \<and> last_used a \<le> last_used b \<and> (0 \<le> first_created a \<longrightarrow> 0 \<le> first_created b \<and> first_created b \<le> first_created a)"

definition all_grown :: "allocation_info list \<Rightarrow> allocation_info list \<Rightarrow> bool" where
  "all_grown xs ys \<longleftrightarrow> length ys = length xs \<and> (\<forall>k<length xs. info_grown (xs ! k) (ys ! k))"

lemma grown_refl [simp]: "info_grown a a"
  by (simp add: info_grown_def)

lemma grown_trans: "info_grown a b \<Longrightarrow> info_grown b c \<Longrightarrow> info_grown a c"
  by (auto simp: info_grown_def)

lemma all_grown_refl [simp]: "all_grown xs xs"
  by (simp add: all_grown_def)

lemma all_grown_trans: "all_grown xs ys \<Longrightarrow> all_grown ys zs \<Longrightarrow> all_grown xs zs"
  by (auto simp: all_grown_def intro: grown_trans)

lemma all_grown_set:
  "vec_at xs t = Some c \<Longrightarrow> vec_set xs t c' = Some ys \<Longrightarrow> info_grown c c' \<Longrightarrow> all_grown xs ys"
  by (auto simp: vec all_grown_def nth_list_update in_bounds_def)

lemma do_each_grown:
  "do_each f xs s = Some s' \<Longrightarrow> (\<And>x s s'. x \<in> set xs \<Longrightarrow> f x s = Some s' \<Longrightarrow> all_grown s s') \<Longrightarrow> all_grown s s'"
proof (induction xs arbitrary: s)
  case (Cons x xs)
  obtain s1 where s1: "f x s = Some s1" "do_each f xs s1 = Some s'"
    using Cons.prems(1) by (auto split: bind_splits)
  have "all_grown s s1" by (rule Cons.prems(2) [OF _ s1(1)]) simp
  moreover have "all_grown s1 s'" by (rule Cons.IH [OF s1(2)]) (rule Cons.prems(2), simp_all)
  ultimately show ?case by (rule all_grown_trans)
qed simp

text \<open>What a step reaches for its element, later steps keep.\<close>

lemma do_each_reaches:
  assumes "do_each f xs s = Some s'" "x \<in> set xs"
    "\<And>x s s'. x \<in> set xs \<Longrightarrow> f x s = Some s' \<Longrightarrow> all_grown s s' \<and> Q x s'"
    "\<And>x s s'. Q x s \<Longrightarrow> all_grown s s' \<Longrightarrow> Q x s'"
  shows "Q x s'"
  using assms(1-3)
proof (induction xs arbitrary: s)
  case (Cons y ys)
  obtain s1 where s1: "f y s = Some s1" "do_each f ys s1 = Some s'"
    using Cons.prems(1) by (auto split: bind_splits)
  have "all_grown s1 s'"
    by (rule do_each_grown [OF s1(2)]) (use Cons.prems(3) in auto)
  moreover have "Q y s1" using Cons.prems(3) [OF _ s1(1)] by simp
  ultimately have "Q y s'" by (rule assms(4) [rotated])
  then show ?case
    using Cons.IH [OF s1(2)] Cons.prems(2,3) by auto
qed simp

definition created_by :: "int \<Rightarrow> int \<Rightarrow> allocation_info list \<Rightarrow> bool" where
  "created_by i t infos \<longleftrightarrow> in_bounds infos t \<and> 0 \<le> first_created (infos ! nat t) \<and> first_created (infos ! nat t) \<le> i"

definition used_until :: "int \<Rightarrow> int \<Rightarrow> allocation_info list \<Rightarrow> bool" where
  "used_until i t infos \<longleftrightarrow> in_bounds infos t \<and> i \<le> last_used (infos ! nat t)"

lemma created_by_grown: "created_by i t xs \<Longrightarrow> all_grown xs ys \<Longrightarrow> created_by i t ys"
  by (fastforce simp: created_by_def all_grown_def info_grown_def in_bounds_def)

lemma used_until_grown: "used_until i t xs \<Longrightarrow> all_grown xs ys \<Longrightarrow> used_until i t ys"
  by (fastforce simp: used_until_def all_grown_def info_grown_def in_bounds_def)

lemma note_model_input_grown:
  "note_model_input t xs = Some ys \<Longrightarrow> all_grown xs ys \<and> created_by 0 t ys"
  by (auto simp: note_model_input_def created_by_def vec info_grown_def in_bounds_def split: bind_splits
      intro!: all_grown_set)

lemma create_input_grown: "create_input i t xs = Some ys \<Longrightarrow> 0 \<le> i \<Longrightarrow> all_grown xs ys"
  by (auto simp: create_input_def info_grown_def split: bind_splits if_splits intro: all_grown_set)

lemma note_output_grown:
  "note_output i t xs = Some ys \<Longrightarrow> 0 \<le> i \<Longrightarrow> all_grown xs ys"
  by (auto simp: note_output_def info_grown_def split: bind_splits if_splits intro: all_grown_set)

lemma note_input_grown:
  assumes "note_input i ts t xs = Some ys" "0 \<le> i"
  shows "all_grown xs ys \<and> used_until i t ys"
proof -
  obtain c zs d where c: "vec_at xs t = Some c"
    "(if first_created c = 0 then do_each (create_input i) ts xs else Some xs) = Some zs" "vec_at zs t = Some d"
    "(if last_used d = -1 \<or> last_used d < i then vec_set zs t (d\<lparr>last_used := i\<rparr>) else Some zs) = Some ys"
    using assms(1) by (auto simp: note_input_def split: bind_splits)
  have zs: "all_grown xs zs"
    using c(2) assms(2) by (auto split: if_splits intro: do_each_grown create_input_grown)
  moreover have "all_grown zs ys"
    using c(3,4) assms(2) by (auto simp: info_grown_def split: if_splits intro: all_grown_set)
  moreover have "used_until i t ys"
    using c(3,4) by (auto simp: used_until_def vec in_bounds_def split: if_splits)
  ultimately show ?thesis by (blast intro: all_grown_trans)
qed

text \<open>An operator: its outputs exist from it on, its inputs at least until it.\<close>

definition noted :: "nat \<times> fb_operator \<Rightarrow> allocation_info list \<Rightarrow> bool" where
  "noted = (\<lambda>(i, op) infos. \<exists>ins outs. fb_op_inputs op = Some ins \<and> fb_op_outputs op = Some outs
     \<and> (\<forall>t\<in>set ins. used_until (int i) t infos) \<and> (\<forall>t\<in>set outs. created_by (int i) t infos))"

lemma noted_grown:
  assumes "noted x xs" "all_grown xs ys"
  shows "noted x ys"
  using assms(1) by (cases x) (auto simp: noted_def intro!: created_by_grown [OF _ assms(2)] used_until_grown [OF _ assms(2)])

text \<open>First uses are -1 or an operator.\<close>

definition firsts_ok :: "allocation_info list \<Rightarrow> bool" where
  "firsts_ok xs \<longleftrightarrow> (\<forall>c\<in>set xs. -1 \<le> first_created c)"

lemma firsts_ok_set: "firsts_ok xs \<Longrightarrow> vec_set xs t c = Some ys \<Longrightarrow> -1 \<le> first_created c \<Longrightarrow> firsts_ok ys"
  by (auto simp: firsts_ok_def vec dest!: set_update_subset_insert [THEN subsetD])

lemma firsts_ok_at: "firsts_ok xs \<Longrightarrow> vec_at xs t = Some c \<Longrightarrow> -1 \<le> first_created c"
  by (auto simp: firsts_ok_def vec in_bounds_def)

lemma note_output_created:
  assumes "note_output i t xs = Some ys" "0 \<le> i" "firsts_ok xs"
  shows "created_by i t ys"
proof -
  obtain c where c: "vec_at xs t = Some c"
    "(if first_created c = -1 \<or> first_created c > i then vec_set xs t (c\<lparr>first_created := i\<rparr>) else Some xs) = Some ys"
    using assms(1) by (auto simp: note_output_def split: bind_splits)
  have "-1 \<le> first_created c" by (rule firsts_ok_at [OF assms(3) c(1)])
  then show ?thesis
    using c assms(2) by (auto simp: created_by_def vec in_bounds_def split: if_splits)
qed

lemma create_input_firsts: "firsts_ok xs \<Longrightarrow> create_input i t xs = Some ys \<Longrightarrow> 0 \<le> i \<Longrightarrow> firsts_ok ys"
  by (auto simp: create_input_def split: bind_splits if_splits elim!: firsts_ok_set)

lemma note_output_firsts: "firsts_ok xs \<Longrightarrow> note_output i t xs = Some ys \<Longrightarrow> 0 \<le> i \<Longrightarrow> firsts_ok ys"
  by (auto simp: note_output_def split: bind_splits if_splits elim!: firsts_ok_set)

lemma note_input_firsts: "firsts_ok xs \<Longrightarrow> note_input i ts t xs = Some ys \<Longrightarrow> 0 \<le> i \<Longrightarrow> firsts_ok ys"
proof -
  assume xs: "firsts_ok xs" and ys: "note_input i ts t xs = Some ys" and i: "0 \<le> i"
  obtain c zs d where c: "vec_at xs t = Some c"
    "(if first_created c = 0 then do_each (create_input i) ts xs else Some xs) = Some zs" "vec_at zs t = Some d"
    "(if last_used d = -1 \<or> last_used d < i then vec_set zs t (d\<lparr>last_used := i\<rparr>) else Some zs) = Some ys"
    using ys by (auto simp: note_input_def split: bind_splits)
  have "firsts_ok zs"
    using c(2) xs do_each_invariant [of "create_input i" ts xs zs firsts_ok] create_input_firsts i
    by (auto split: if_splits)
  then show "firsts_ok ys"
    using c(3,4) firsts_ok_at [of zs t d] by (auto split: if_splits elim!: firsts_ok_set)
qed

lemma note_operator_noted:
  assumes "note_operator x xs = Some ys" "firsts_ok xs"
  shows "all_grown xs ys \<and> firsts_ok ys \<and> noted x ys"
proof -
  obtain i op where x: "x = (i, op)" by (cases x)
  obtain ins zs outs where op: "fb_op_inputs op = Some ins" "do_each (note_input (int i) ins) ins xs = Some zs"
    "fb_op_outputs op = Some outs" "do_each (note_output (int i)) outs zs = Some ys"
    using assms(1) by (auto simp: note_operator_def x split: bind_splits)
  have zs: "all_grown xs zs" "firsts_ok zs"
    using do_each_grown [OF op(2)] note_input_grown
      do_each_invariant [where P = firsts_ok, OF op(2) assms(2)] note_input_firsts by auto
  have ys: "all_grown zs ys" "firsts_ok ys"
    using do_each_grown [OF op(4)] note_output_grown
      do_each_invariant [where P = firsts_ok, OF op(4) zs(2)] note_output_firsts by auto
  have "used_until (int i) t zs" if "t \<in> set ins" for t
    by (rule do_each_reaches [OF op(2) that]) (use note_input_grown in \<open>auto intro: used_until_grown\<close>)
  moreover have "created_by (int i) t ys" if "t \<in> set outs" for t
  proof -
    have "\<exists>s s'. note_output (int i) t s = Some s' \<and> firsts_ok s \<and> all_grown s' ys"
      using op(4) zs(2) that
    proof (induction outs arbitrary: zs)
      case (Cons u us)
      obtain s1 where s1: "note_output (int i) u zs = Some s1" "do_each (note_output (int i)) us s1 = Some ys"
        using Cons.prems(1) by (auto split: bind_splits)
      have "all_grown s1 ys" by (rule do_each_grown [OF s1(2)]) (auto intro: note_output_grown)
      then show ?case
        using Cons.IH [OF s1(2)] Cons.prems(2,3) s1(1) note_output_firsts [OF Cons.prems(2) s1(1)] by auto
    qed simp
    then show ?thesis
      using note_output_created [of "int i" t] by (auto intro: created_by_grown)
  qed
  ultimately show ?thesis
    using zs ys op(1,3) by (auto simp: noted_def x intro: all_grown_trans used_until_grown)
qed

lemma note_operators_noted:
  assumes "do_each note_operator ops xs = Some ys" "firsts_ok xs"
  shows "all_grown xs ys \<and> (\<forall>x\<in>set ops. noted x ys)"
  using assms
proof (induction ops arbitrary: xs)
  case (Cons x ops)
  obtain zs where zs: "note_operator x xs = Some zs" "do_each note_operator ops zs = Some ys"
    using Cons.prems(1) by (auto split: bind_splits)
  note step = note_operator_noted [OF zs(1) Cons.prems(2)]
  then show ?case
    using Cons.IH [OF zs(2)] by (auto intro: all_grown_trans noted_grown)
qed simp

section \<open>The tensors\<close>

definition fresh_info :: "fb_tensor list \<Rightarrow> int list option \<Rightarrow> eval_tensor list \<Rightarrow> nat \<Rightarrow> allocation_info \<Rightarrow> bool" where
  "fresh_info tensors offsets evals j c \<longleftrightarrow> j < length tensors \<and> j < length evals
     \<and> TfLiteEvalTensorByteLength (evals ! j) = Some (info_bytes c) \<and> output_ptr c = TensorData j
     \<and> info_offline_offset c = (case offsets of None \<Rightarrow> kOnlinePlannedBuffer | Some os \<Rightarrow> os ! j)
     \<and> (needs_allocating c \<longrightarrow> eval_data (evals ! j) = None \<and> \<not> fb_is_variable (tensors ! j))"

lemma fresh_info_grown: "fresh_info tensors offsets evals j c \<Longrightarrow> info_grown c d \<Longrightarrow> fresh_info tensors offsets evals j d"
  by (auto simp: fresh_info_def info_grown_def)

lemma start_infos:
  assumes "do_each_ok (start_info tensors offsets evals) [0..<n] xs = Some (kTfLiteOk, ys)"
    "\<forall>c\<in>set xs. first_created c = -1 \<and> last_used c = -1"
  shows "length ys = length xs \<and> (\<forall>c\<in>set ys. first_created c = -1 \<and> last_used c = -1)
    \<and> (\<forall>j<n. fresh_info tensors offsets evals j (ys ! j))"
proof -
  let ?P = "\<lambda>i s. length s = length xs \<and> (\<forall>c\<in>set s. first_created c = -1 \<and> last_used c = -1)
    \<and> (\<forall>j<i. fresh_info tensors offsets evals j (s ! j))"
  show ?thesis
  proof (rule do_each_ok_upt [where P = ?P, OF assms(1)])
    fix i s s' assume P: "?P i s" and step: "start_info tensors offsets evals i s = Some (kTfLiteOk, s')"
    obtain e n_bytes t off where e: "vec_at evals (int i) = Some e" "TfLiteEvalTensorByteLength e = Some n_bytes"
      "vec_at tensors (int i) = Some t"
      "(case offsets of None \<Rightarrow> Some kOnlinePlannedBuffer | Some os \<Rightarrow> vec_at os (int i)) = Some off"
      "vec_set s (int i) \<lparr>info_bytes = n_bytes, output_ptr = TensorData i, first_created = -1, last_used = -1,
         info_offline_offset = off, needs_allocating = (eval_data e = None \<and> \<not> fb_is_variable t)\<rparr> = Some s'"
      using step by (auto simp: start_info_def split: bind_splits option.splits)
    have off: "off = (case offsets of None \<Rightarrow> kOnlinePlannedBuffer | Some os \<Rightarrow> os ! i)"
      using e(4) by (auto simp: vec split: option.splits)
    show "?P (Suc i) s'"
      using P e(1,2,3,5) off
      by (auto simp: vec fresh_info_def less_Suc_eq nth_list_update dest!: set_update_subset_insert [THEN subsetD])
  qed (use assms(2) in auto)
qed

lemma model_inputs_noted:
  assumes "do_each note_model_input ts xs = Some ys"
  shows "all_grown xs ys \<and> (\<forall>t\<in>set ts. created_by 0 t ys)"
  using do_each_grown [OF assms] note_model_input_grown
    do_each_reaches [where Q = "created_by 0", OF assms] created_by_grown by blast

lemma model_inputs_ranges:
  assumes "do_each note_model_input ts xs = Some ys" "\<forall>c\<in>set xs. first_created c = -1 \<and> last_used c = -1"
  shows "firsts_ok ys \<and> (\<forall>c\<in>set ys. last_used c = -1)"
proof -
  let ?P = "\<lambda>s. firsts_ok s \<and> (\<forall>c\<in>set s. last_used c = -1)"
  show ?thesis
    by (rule do_each_invariant [where P = ?P, OF assms(1)])
      (use assms(2) in \<open>auto simp: firsts_ok_def note_model_input_def vec in_bounds_def
         split: bind_splits dest!: set_update_subset_insert [THEN subsetD]\<close>)
qed

lemma model_outputs_noted:
  assumes "do_each (note_model_output l) ts xs = Some ys" "firsts_ok xs" "\<forall>c\<in>set xs. last_used c \<le> l"
  shows "firsts_ok ys \<and> all_grown xs ys \<and> (\<forall>t\<in>set ts. used_until l t ys)"
  using assms
proof (induction ts arbitrary: xs)
  case (Cons t ts)
  obtain zs where zs: "note_model_output l t xs = Some zs" "do_each (note_model_output l) ts zs = Some ys"
    using Cons.prems(1) by (auto split: bind_splits)
  obtain c where c: "vec_at xs t = Some c" "vec_set xs t (c\<lparr>last_used := l\<rparr>) = Some zs"
    using zs(1) by (auto simp: note_model_output_def split: bind_splits)
  have "last_used c \<le> l" using c(1) Cons.prems(3) by (auto simp: vec in_bounds_def)
  then have info_grown: "all_grown xs zs" using c by (auto simp: info_grown_def intro: all_grown_set)
  have "firsts_ok zs" using firsts_ok_set [OF Cons.prems(2) c(2)] firsts_ok_at [OF Cons.prems(2) c(1)] by simp
  moreover have "\<forall>c\<in>set zs. last_used c \<le> l"
    using c(2) Cons.prems(3) by (auto simp: vec dest!: set_update_subset_insert [THEN subsetD])
  ultimately have IH: "firsts_ok ys \<and> all_grown zs ys \<and> (\<forall>t\<in>set ts. used_until l t ys)"
    by (rule Cons.IH [OF zs(2)])
  moreover have "used_until l t zs" using c by (auto simp: used_until_def vec in_bounds_def)
  ultimately show ?case using info_grown by (auto intro: all_grown_trans used_until_grown)
qed simp

text \<open>The last loop only takes back the need for memory, of what nothing creates.\<close>

definition finished :: "allocation_info \<Rightarrow> allocation_info \<Rightarrow> bool" where
  "finished c d \<longleftrightarrow> info_bytes d = info_bytes c \<and> output_ptr d = output_ptr c \<and> first_created d = first_created c
     \<and> last_used d = last_used c \<and> info_offline_offset d = info_offline_offset c
     \<and> (needs_allocating d \<longrightarrow> needs_allocating c \<and> first_created d \<noteq> -1 \<and> last_used d \<noteq> -1)"

lemma finish_infos:
  assumes "do_each_ok finish_info [0..<n] xs = Some (kTfLiteOk, ys)"
  shows "length ys = length xs \<and> (\<forall>j<n. j < length xs \<longrightarrow> finished (xs ! j) (ys ! j))
    \<and> (\<forall>j<length xs. n \<le> j \<longrightarrow> ys ! j = xs ! j)"
proof -
  let ?P = "\<lambda>i s. length s = length xs \<and> (\<forall>j<i. j < length xs \<longrightarrow> finished (xs ! j) (s ! j))
    \<and> (\<forall>j<length xs. i \<le> j \<longrightarrow> s ! j = xs ! j)"
  show ?thesis
  proof (rule do_each_ok_upt [where P = ?P, OF assms])
    fix i s s' assume P: "?P i s" and step: "finish_info i s = Some (kTfLiteOk, s')"
    have i: "i < length s" using step by (auto simp: finish_info_def vec split: bind_splits)
    have "s ! i = xs ! i" using P i by simp
    then obtain d where "s' = s[i := d]" "finished (xs ! i) d"
      using step i by (auto simp: finish_info_def vec finished_def Let_def split: bind_splits if_splits)
    then show "?P (Suc i) s'" using P i by (auto simp: less_Suc_eq nth_list_update)
  qed simp
qed

lemma created_by_finished:
  "created_by i t xs \<Longrightarrow> length ys = length xs \<Longrightarrow>
   (\<And>j. j < length xs \<Longrightarrow> first_created (ys ! j) = first_created (xs ! j)) \<Longrightarrow> created_by i t ys"
  by (auto simp: created_by_def in_bounds_def)

lemma used_until_finished:
  "used_until i t xs \<Longrightarrow> length ys = length xs \<Longrightarrow>
   (\<And>j. j < length xs \<Longrightarrow> last_used (ys ! j) = last_used (xs ! j)) \<Longrightarrow> used_until i t ys"
  by (auto simp: used_until_def in_bounds_def)

text \<open>What \<^verbatim>\<open>AddTensors\<close> finds out.\<close>

definition lifetimes_noted :: "fb_subgraph \<Rightarrow> allocation_info list \<Rightarrow> bool" where
  "lifetimes_noted sub infos \<longleftrightarrow> (\<exists>inputs outputs ops. fb_inputs sub = Some inputs \<and> fb_outputs sub = Some outputs
     \<and> fb_operators sub = Some ops \<and> (\<forall>t\<in>set inputs. created_by 0 t infos)
     \<and> (\<forall>t\<in>set outputs. used_until (int (length ops) - 1) t infos)
     \<and> (\<forall>x\<in>set (List.enumerate 0 ops). noted x infos))"

lemma lifetimes_noted_cong:
  assumes "lifetimes_noted sub xs" "length ys = length xs"
    "\<And>j. j < length xs \<Longrightarrow> first_created (ys ! j) = first_created (xs ! j) \<and> last_used (ys ! j) = last_used (xs ! j)"
  shows "lifetimes_noted sub ys"
proof -
  have "created_by i t ys" if "created_by i t xs" for i t
    by (rule created_by_finished [OF that assms(2)]) (use assms(3) in simp)
  moreover have "used_until i t ys" if "used_until i t xs" for i t
    by (rule used_until_finished [OF that assms(2)]) (use assms(3) in simp)
  ultimately show ?thesis using assms(1) by (fastforce simp: lifetimes_noted_def noted_def)
qed

lemma Builder_AddTensors_facts:
  assumes "Builder_AddTensors n sub offsets evals (replicate m blank_info) = Some (kTfLiteOk, zs)" "fb_tensors sub = Some tensors"
  shows "length zs = m \<and> lifetimes_noted sub zs
    \<and> (\<forall>j<n. j < m \<longrightarrow> fresh_info tensors offsets evals j (zs ! j)
         \<and> (needs_allocating (zs ! j) \<longrightarrow> first_created (zs ! j) \<noteq> -1 \<and> last_used (zs ! j) \<noteq> -1))"
proof -
  obtain xs inputs ys outputs ops us vs where p:
    "do_each_ok (start_info tensors offsets evals) [0..<n] (replicate m blank_info) = Some (kTfLiteOk, xs)"
    "fb_inputs sub = Some inputs" "do_each note_model_input inputs xs = Some ys" "fb_outputs sub = Some outputs"
    "fb_operators sub = Some ops" "do_each (note_model_output (int (length ops) - 1)) outputs ys = Some us"
    "do_each note_operator (rev (List.enumerate 0 ops)) us = Some vs"
    "do_each_ok finish_info [0..<n] vs = Some (kTfLiteOk, zs)"
    using assms by (auto simp: Builder_AddTensors_def split: bind_splits if_splits)
  note a = start_infos [OF p(1)]
  have xs: "length xs = m" "\<forall>c\<in>set xs. first_created c = -1 \<and> last_used c = -1"
    "\<forall>j<n. fresh_info tensors offsets evals j (xs ! j)"
    using a by (simp_all add: blank_info_def)
  note ys = model_inputs_noted [OF p(3)] model_inputs_ranges [OF p(3) xs(2)]
  have us: "firsts_ok us" "all_grown ys us" "\<forall>t\<in>set outputs. used_until (int (length ops) - 1) t us"
    using model_outputs_noted [OF p(6)] ys(2) by auto
  have vs: "all_grown us vs" "\<forall>x\<in>set (List.enumerate 0 ops). noted x vs"
    using note_operators_noted [OF p(7) us(1)] by auto
  have xv: "all_grown xs vs" using ys(1) us(2) vs(1) by (blast intro: all_grown_trans)
  have "lifetimes_noted sub vs"
    using p(2,4,5) ys(1) us(2,3) vs by (auto simp: lifetimes_noted_def intro: created_by_grown used_until_grown all_grown_trans)
  moreover note zs = finish_infos [OF p(8)]
  moreover have same: "first_created (zs ! j) = first_created (vs ! j) \<and> last_used (zs ! j) = last_used (vs ! j)"
    if "j < length vs" for j
    using zs that by (cases "j < n") (auto simp: finished_def)
  ultimately have "lifetimes_noted sub zs" using lifetimes_noted_cong [of sub vs zs] by auto
  moreover have "length zs = m" using zs xv xs(1) by (simp add: all_grown_def)
  moreover have "fresh_info tensors offsets evals j (zs ! j)
      \<and> (needs_allocating (zs ! j) \<longrightarrow> first_created (zs ! j) \<noteq> -1 \<and> last_used (zs ! j) \<noteq> -1)" if "j < n" "j < m" for j
  proof -
    have "fresh_info tensors offsets evals j (vs ! j)"
      using xs(1,3) xv that fresh_info_grown by (auto simp: all_grown_def)
    moreover have "finished (vs ! j) (zs ! j)" using zs that xv xs(1) by (simp add: all_grown_def)
    ultimately show ?thesis by (auto simp: fresh_info_def finished_def)
  qed
  ultimately show ?thesis by blast
qed

section \<open>The scratch buffers\<close>

definition scratch_info :: "nat \<Rightarrow> scratch_request \<Rightarrow> allocation_info" where
  "scratch_info s r = \<lparr>info_bytes = request_bytes r, output_ptr = ScratchHandle s, first_created = request_node_idx r,
     last_used = request_node_idx r, info_offline_offset = kOnlinePlannedBuffer, needs_allocating = True\<rparr>"

lemma AddScratchBuffers_facts:
  assumes "AddScratchBuffers requests n k xs = Some ys"
  shows "length ys = length xs \<and> (\<forall>j<length xs. j < n \<longrightarrow> ys ! j = xs ! j)
    \<and> (\<forall>s<k. n + s < length xs \<and> s < length requests \<and> ys ! (n + s) = scratch_info s (requests ! s))"
  using assms unfolding AddScratchBuffers_def
proof (induction k arbitrary: ys)
  case (Suc k)
  obtain zs where zs: "do_each (add_scratch_buffer requests n) [n..<n + k] xs = Some zs"
    "add_scratch_buffer requests n (n + k) zs = Some ys"
    using Suc.prems by (auto simp: do_each_snoc split: bind_splits)
  then show ?case
    using Suc.IH [OF zs(1)]
    by (auto simp: add_scratch_buffer_def vec scratch_info_def less_Suc_eq nth_list_update in_bounds_def nat_int_add split: bind_splits)
qed simp

section \<open>What is live\<close>

text \<open>A tensor exists from the operator that writes it on, a tensor of the client from the first one on.\<close>

definition defined_at :: "fb_subgraph \<Rightarrow> nat \<Rightarrow> nat \<Rightarrow> bool" where
  "defined_at sub t a \<longleftrightarrow> a = 0 \<and> (\<exists>inputs. fb_inputs sub = Some inputs \<and> int t \<in> set inputs)
     \<or> (\<exists>ops outs. fb_operators sub = Some ops \<and> a < length ops \<and> fb_op_outputs (ops ! a) = Some outs \<and> int t \<in> set outs)"

text \<open>It is used by the operators that read it, and by the client after the last operator.\<close>

definition used_at :: "fb_subgraph \<Rightarrow> nat \<Rightarrow> nat \<Rightarrow> bool" where
  "used_at sub t b \<longleftrightarrow> (\<exists>ops. fb_operators sub = Some ops \<and> b < length ops
     \<and> ((\<exists>ins. fb_op_inputs (ops ! b) = Some ins \<and> int t \<in> set ins)
       \<or> (Suc b = length ops \<and> (\<exists>outputs. fb_outputs sub = Some outputs \<and> int t \<in> set outputs))))"

text \<open>What holds a value while operator \<open>i\<close> runs.\<close>

definition in_use_at :: "fb_subgraph \<Rightarrow> scratch_request list \<Rightarrow> output_location \<Rightarrow> nat \<Rightarrow> bool" where
  "in_use_at sub requests loc i = (case loc of
     TensorData t \<Rightarrow> (\<exists>a\<le>i. defined_at sub t a) \<and> (\<exists>b\<ge>i. used_at sub t b)
   | ScratchHandle s \<Rightarrow> request_node_idx (requests ! s) = int i)"

definition bytes_at :: "eval_tensor list \<Rightarrow> scratch_request list \<Rightarrow> output_location \<Rightarrow> nat" where
  "bytes_at evals requests loc = (case loc of
     TensorData t \<Rightarrow> (case TfLiteEvalTensorByteLength (evals ! t) of None \<Rightarrow> 0 | Some b \<Rightarrow> unat b)
   | ScratchHandle s \<Rightarrow> unat (request_bytes (requests ! s)))"

lemma noted_operator:
  assumes "lifetimes_noted sub infos" "fb_operators sub = Some ops" "i < length ops"
  shows "noted (i, ops ! i) infos"
proof -
  have "(i, ops ! i) \<in> set (List.enumerate 0 ops)" using assms(3) by (simp add: in_set_enumerate_eq)
  then show ?thesis using assms(1,2) by (auto simp: lifetimes_noted_def)
qed

lemma defined_at_created:
  assumes "lifetimes_noted sub infos" "defined_at sub t a"
  shows "created_by (int a) (int t) infos"
  using assms(2) unfolding defined_at_def
proof (elim disjE conjE exE)
  fix ops outs assume "fb_operators sub = Some ops" "a < length ops" "fb_op_outputs (ops ! a) = Some outs" "int t \<in> set outs"
  then show ?thesis using noted_operator [OF assms(1), of ops a] by (auto simp: noted_def)
qed (use assms(1) in \<open>auto simp: lifetimes_noted_def\<close>)

lemma used_at_used:
  assumes "lifetimes_noted sub infos" "used_at sub t b"
  shows "used_until (int b) (int t) infos"
  using assms(2) unfolding used_at_def
proof (elim disjE conjE exE)
  fix ops ins assume "fb_operators sub = Some ops" "b < length ops" "fb_op_inputs (ops ! b) = Some ins" "int t \<in> set ins"
  then show ?thesis using noted_operator [OF assms(1), of ops b] by (auto simp: noted_def)
next
  fix ops outputs
  assume u: "fb_operators sub = Some ops" "Suc b = length ops" "fb_outputs sub = Some outputs" "int t \<in> set outputs"
  have "int (length ops) - 1 = int b" using u(2) by simp
  then show ?thesis using u(1,3,4) assms(1) by (auto simp: lifetimes_noted_def)
qed

text \<open>The entry \<open>c\<close> describes what it points to.\<close>

definition describes ::
  "fb_subgraph \<Rightarrow> eval_tensor list \<Rightarrow> scratch_request list \<Rightarrow> allocation_info \<Rightarrow> bool" where
  "describes sub evals requests c \<longleftrightarrow> unat (info_bytes c) = bytes_at evals requests (output_ptr c)
     \<and> info_offline_offset c = kOnlinePlannedBuffer
     \<and> (\<forall>i. in_use_at sub requests (output_ptr c) i \<longrightarrow> first_created c \<le> int i \<and> int i \<le> last_used c)"

definition location :: "nat \<Rightarrow> nat \<Rightarrow> output_location" where
  "location n k = (if k < n then TensorData k else ScratchHandle (k - n))"

lemma build_infos_facts:
  assumes "build_infos sub None buffer_words evals requests n = Some (kTfLiteOk, infos)" "fb_tensors sub = Some tensors"
  shows "length infos = n + length requests
    \<and> (\<forall>k<length infos. output_ptr (infos ! k) = location n k \<and> describes sub evals requests (infos ! k))"
proof -
  let ?m = "n + length requests"
  obtain zs where zs: "Builder_AddTensors n sub None evals (replicate ?m blank_info) = Some (kTfLiteOk, zs)"
    "AddScratchBuffers requests n (length requests) zs = Some infos"
    using assms by (auto simp: build_infos_def GetOfflinePlannedOffsets_def split: bind_splits if_splits)
  note t = Builder_AddTensors_facts [OF zs(1) assms(2)] and s = AddScratchBuffers_facts [OF zs(2)]
  have "output_ptr (infos ! k) = location n k \<and> describes sub evals requests (infos ! k)" if k: "k < ?m" for k
  proof (cases "k < n")
    case True
    then have same: "infos ! k = zs ! k" using s t k by simp
    have fresh: "fresh_info tensors None evals k (zs ! k)" using t True k by simp
    have "first_created (zs ! k) \<le> int i \<and> int i \<le> last_used (zs ! k)" if live: "in_use_at sub requests (TensorData k) i" for i
    proof -
      obtain a b where ab: "a \<le> i" "i \<le> b" "defined_at sub k a" "used_at sub k b"
        using live by (auto simp: in_use_at_def)
      then show ?thesis
        using defined_at_created [of sub zs k a] used_at_used [of sub zs k b] t
        by (auto simp: created_by_def used_until_def)
    qed
    then show ?thesis
      using fresh True by (simp add: same fresh_info_def describes_def location_def bytes_at_def)
  next
    case False
    then have "infos ! k = scratch_info (k - n) (requests ! (k - n))" using s t k by (metis le_add_diff_inverse nat_add_left_cancel_less not_less)
    then show ?thesis
      using False by (simp add: scratch_info_def describes_def location_def bytes_at_def in_use_at_def)
  qed
  then show ?thesis using t s by simp
qed

section \<open>Planning and committing\<close>

definition info_req :: "allocation_info \<Rightarrow> buffer_requirements" where
  "info_req c = \<lparr>req_size = aligned_int_size (info_bytes c), offline_offset = info_offline_offset c,
     first_time_used = first_created c, last_time_used = last_used c\<rparr>"

abbreviation wanted :: "allocation_info list \<Rightarrow> allocation_info list" where
  "wanted infos \<equiv> filter needs_allocating infos"

text \<open>The planner holds the requirements of these buffers.\<close>

definition holds_requests :: "greedy_planner \<Rightarrow> allocation_info list \<Rightarrow> bool" where
  "holds_requests p cs \<longleftrightarrow> wf_planner p \<and> need_to_calculate_offsets p \<and> buffer_count p = length cs
     \<and> take (buffer_count p) (requirements p) = map info_req cs"

lemma plan_info_adds:
  assumes "holds_requests p cs" "plan_info c p = (kTfLiteOk, q)"
  shows "holds_requests q (if needs_allocating c then cs @ [c] else cs)"
proof -
  note w = assms(1) [unfolded holds_requests_def]
  have old: "take (length cs) (requirements p) = map info_req cs" using w by metis
  have len: "length (requirements p) = max_buffer_count p" "buffer_count p \<le> max_buffer_count p"
    using w by (auto simp: wf_planner_def wf_arrays_def)
  show ?thesis
  proof (cases "needs_allocating c")
    case True
    then have room: "buffer_count p < max_buffer_count p"
      using assms(2) by (auto simp: plan_info_def AddBuffer_def AddBuffer_offline_def Let_def split: if_splits)
    then have q: "q = p\<lparr>requirements := (requirements p)[buffer_count p := info_req c],
        buffer_count := buffer_count p + 1, need_to_calculate_offsets := True\<rparr>"
      using assms(2) True len
      by (auto simp: plan_info_def AddBuffer_def AddBuffer_offline_def info_req_def Let_def split: if_splits)
    have "wf_planner q" using w room by (simp add: q wf_planner_def wf_arrays_def)
    then show ?thesis
      using w old room len True by (simp add: holds_requests_def q take_Suc_update)
  qed (use assms in \<open>simp add: plan_info_def\<close>)
qed

lemma CreatePlan_adds:
  "CreatePlan infos p = Some (kTfLiteOk, q) \<Longrightarrow> holds_requests p cs \<Longrightarrow> holds_requests q (cs @ wanted infos)"
proof (induction infos arbitrary: p cs)
  case (Cons c infos)
  obtain p1 where p1: "plan_info c p = (kTfLiteOk, p1)" "CreatePlan infos p1 = Some (kTfLiteOk, q)"
    using Cons.prems(1) by (auto simp: CreatePlan_def split: if_splits prod.splits)
  show ?case
    using Cons.IH [OF p1(2) plan_info_adds [OF Cons.prems(2) p1(1)]]
    by (cases "needs_allocating c") simp_all
qed (simp add: CreatePlan_def)

lemma planned_from_trans: "planned_from p q \<Longrightarrow> planned_from q r \<Longrightarrow> planned_from p r"
  using planned_from_plan [of p q] by (auto simp: planned_from_def)

lemma planned_offset_same: "planned_from p q \<Longrightarrow> planned_offset q = planned_offset p"
  using planned_from_plan [of p q] by (simp add: planned_offset_def fun_eq_iff)

text \<open>The pointers after the buffers \<open>cs\<close>, of which \<open>k\<close> are before them.\<close>

lemma commit_infos:
  assumes "do_each_ok (commit_info handles start) cs (k, q, mem) = Some (kTfLiteOk, k', q', mem')" "planned_from p q"
    "distinct (map output_ptr cs)"
  shows "planned_from p q' \<and> (\<forall>j<length (wanted cs). mem' (output_ptr (wanted cs ! j)) = Some (start + word_of_int (planned_offset p (k + j))))
    \<and> (\<forall>loc. loc \<notin> output_ptr ` set (wanted cs) \<longrightarrow> mem' loc = mem loc)"
  using assms
proof (induction cs arbitrary: k q mem)
  case (Cons c cs)
  obtain k1 q1 mem1 where s1: "commit_info handles start c (k, q, mem) = Some (kTfLiteOk, k1, q1, mem1)"
    "do_each_ok (commit_info handles start) cs (k1, q1, mem1) = Some (kTfLiteOk, k', q', mem')"
    using Cons.prems(1) by (auto split: bind_splits if_splits)
  have distinct: "distinct (map output_ptr cs)" "output_ptr c \<notin> output_ptr ` set cs" using Cons.prems(3) by auto
  show ?case
  proof (cases "needs_allocating c")
    case False
    then have "k1 = k" "q1 = q" "mem1 = mem" using s1(1) by (simp_all add: commit_info_def)
    then show ?thesis using Cons.IH [OF s1(2)] Cons.prems(2) distinct False by simp
  next
    case True
    have wf: "wf_planner q" using Cons.prems(2) by (simp add: planned_from_def)
    obtain r where r: "GetOffsetForBuffer (int k) q = Some (if k < buffer_count q then (kTfLiteOk, Some (planned_offset q k), r)
        else (kTfLiteError, None, r))" "planned_from q r"
      using GetOffsetForBuffer_returns [OF wf, of "int k"] by auto
    have next_state: "k1 = Suc k" "q1 = r" "mem1 = mem(output_ptr c \<mapsto> start + word_of_int (planned_offset p k))"
      using s1(1) True r planned_offset_same [OF Cons.prems(2)]
      by (auto simp: commit_info_def store_pointer_def split: if_splits output_location.splits bind_splits)
    have IH: "planned_from p q' \<and> (\<forall>j<length (wanted cs). mem' (output_ptr (wanted cs ! j)) = Some (start + word_of_int (planned_offset p (Suc k + j))))
      \<and> (\<forall>loc. loc \<notin> output_ptr ` set (wanted cs) \<longrightarrow> mem' loc = mem1 loc)"
      using Cons.IH [OF s1(2) _ distinct(1)] planned_from_trans [OF Cons.prems(2) r(2)] next_state by simp
    have "output_ptr c \<notin> output_ptr ` set (wanted cs)" using distinct(2) by auto
    then have "mem' (output_ptr c) = Some (start + word_of_int (planned_offset p k))"
      using IH next_state(3) by simp
    then show ?thesis
      using IH True next_state(3) by (auto simp: less_Suc_eq_0_disj)
  qed
qed simp

section \<open>Sizes\<close>

lemma unat_AlignSizeUp:
  assumes "unat n + 16 \<le> 2 ^ 64"
  shows "unat (AlignSizeUp n 16) = (unat n + 15) div 16 * 16"
  using unat_AlignPointerUp [of n 16] assms by (simp add: AlignSizeUp_def AlignPointerUp_def)

lemma aligned_int_size_bounds:
  assumes "unat n + 16 \<le> 2 ^ 31"
  shows "int (unat n) \<le> aligned_int_size n" "aligned_int_size n \<le> int (unat n) + 15"
proof -
  define m where "m = (unat n + 15) div 16 * 16"
  have m: "m < 2 ^ 31" "unat n \<le> m" "m \<le> unat n + 15" using assms by (simp_all add: m_def)
  have "unat (AlignSizeUp n 16) = m" unfolding m_def by (rule unat_AlignSizeUp) (use assms in simp)
  then have "uint (AlignSizeUp n 16) = int m" by (simp only: uint_nat)
  then have "uint (ucast (AlignSizeUp n 16) :: 32 word) = int m"
    using m(1) by (simp add: unsigned_ucast_eq take_bit_eq_mod)
  then have "aligned_int_size n = int m"
    unfolding aligned_int_size_def sint_uint using m(1) by (simp add: signed_take_bit_int_eq_self)
  then show "int (unat n) \<le> aligned_int_size n" "aligned_int_size n \<le> int (unat n) + 15" using m by linarith+
qed

section \<open>The static plan\<close>

lemma holds_requests_new: "holds_requests (GreedyMemoryPlanner n) []"
  using wf_GreedyMemoryPlanner [of n]
  by (simp add: holds_requests_def) (simp add: GreedyMemoryPlanner_def Let_def)

text \<open>A plan for the buffers \<open>cs\<close> in the planner \<open>p\<close>, of which \<open>size\<close> bytes are needed.\<close>

lemma plan_and_commit_facts:
  assumes "plan_and_commit infos handles M Map.empty = Some (kTfLiteOk, M', mem)" "distinct (map output_ptr infos)"
  obtains p q usage B where "holds_requests p (wanted infos)" "planned_from p q"
    "\<forall>loc x. mem loc = Some x \<longrightarrow> (\<exists>k<buffer_count p. output_ptr (wanted infos ! k) = loc
       \<and> x = buffer_head (memory_allocator M) + word_of_int (planned_offset p k))"
    "memory_size p \<le> usage" "usage = memory_size p \<or> usage = max_head_buffer_usage M"
    "SetHeadBufferSize (of_nat usage) 16 B = (kTfLiteOk, memory_allocator M')"
    "buffer_head B = buffer_head (memory_allocator M)" "tail_ptr B = tail_ptr (memory_allocator M)"
proof -
  let ?A = "memory_allocator M"
  obtain T p n q1 q2 q3 n' where s:
    "snd (AllocateTemp (GetAvailableMemory 16 ?A) 16 ?A) = T"
    "CreatePlan infos (GreedyMemoryPlanner (unat (GetAvailableMemory 16 ?A))) = Some (kTfLiteOk, p)"
    "GetMaximumMemorySize p = Some (n, q1)"
    "CommitPlan handles q1 (GetHeadBuffer (ResetTempAllocations T)) infos Map.empty = Some (kTfLiteOk, q2, mem)"
    "GetMaximumMemorySize q2 = Some (n', q3)"
    "SetHeadBufferSize (of_nat (max n' (max_head_buffer_usage M))) 16 (ResetTempAllocations T) = (kTfLiteOk, memory_allocator M')"
    using assms(1)
    by (auto simp: plan_and_commit_def Let_def max_def split: bind_splits if_splits option.splits prod.splits)
  have p: "holds_requests p (wanted infos)"
    using CreatePlan_adds [OF s(2) holds_requests_new] by simp
  then have wf: "wf_planner p" by (simp add: holds_requests_def)
  have q1: "planned_from p q1" "n = memory_size p" using GetMaximumMemorySize_returns [OF wf] s(3) by auto
  obtain k' where commit: "do_each_ok (commit_info handles (GetHeadBuffer (ResetTempAllocations T))) infos (0, q1, Map.empty)
      = Some (kTfLiteOk, k', q2, mem)"
    using s(4) by (auto simp: CommitPlan_def split: bind_splits)
  note c = commit_infos [OF commit q1(1) assms(2)]
  have "wf_planner q2" using c by (simp add: planned_from_def)
  then have "n' = memory_size q2" using GetMaximumMemorySize_returns s(5) by fastforce
  also have "\<dots> = memory_size p"
    using c planned_from_plan [of p q2] by (simp add: memory_size_def planned_from_def)
  finally have n': "n' = memory_size p" .
  have T: "buffer_head T = buffer_head ?A" "tail_ptr T = tail_ptr ?A"
    using s(1) by (auto simp: AllocateTemp_def Let_def)
  have "\<exists>k<buffer_count p. output_ptr (wanted infos ! k) = loc \<and> x = buffer_head ?A + word_of_int (planned_offset p k)"
    if x: "mem loc = Some x" for loc x
  proof -
    have "loc \<in> output_ptr ` set (wanted infos)" using c x by fastforce
    then obtain k where k: "k < length (wanted infos)" "loc = output_ptr (wanted infos ! k)"
      by (metis imageE in_set_conv_nth)
    then have "mem loc = Some (buffer_head ?A + word_of_int (planned_offset p k))"
      using c T(1) by (simp add: GetHeadBuffer_def ResetTempAllocations_def)
    then show ?thesis using k x p by (auto simp: holds_requests_def)
  qed
  then show ?thesis
    using that [OF p q1(1) _ _ _ s(6)] n' T by (auto simp: ResetTempAllocations_def max_def)
qed

lemma sum_list_wanted: "sum_list (map f (wanted infos)) \<le> (\<Sum>k<length infos. f (infos ! k))" for f :: "allocation_info \<Rightarrow> nat"
  using sum_list_filter_le_nat [of f needs_allocating infos] by (simp add: sum_list_sum_nth atLeast0LessThan)

text \<open>The sizes the planner gets are those asked for, rounded up, and do not overflow.\<close>

lemma planned_sizes:
  assumes "holds_requests p (wanted infos)" "\<forall>c\<in>set infos. info_offline_offset c = kOnlinePlannedBuffer"
    "(\<Sum>k<length infos. unat (info_bytes (infos ! k)) + 16) < 2 ^ 31"
  shows "\<forall>k<buffer_count p. online (requirements p) k \<and> requirements p ! k = info_req (wanted infos ! k)
      \<and> int (unat (info_bytes (wanted infos ! k))) \<le> req_size (requirements p ! k)"
    "(\<Sum>k | k < buffer_count p \<and> online (requirements p) k. req_size (requirements p ! k)) < 2 ^ 31"
proof -
  let ?cs = "wanted infos" and ?reqs = "requirements p"
  have count: "buffer_count p = length ?cs" "take (length ?cs) ?reqs = map info_req ?cs"
    using assms(1) unfolding holds_requests_def by metis+
  have req: "?reqs ! k = info_req (?cs ! k)" if "k < length ?cs" for k
    using count(2) that by (metis length_map nth_map nth_take)
  have size: "unat (info_bytes c) + 16 < 2 ^ 31" if c: "c \<in> set infos" for c
  proof -
    obtain k where "k < length infos" "c = infos ! k" using c by (metis in_set_conv_nth)
    then have "unat (info_bytes c) + 16 \<le> (\<Sum>k<length infos. unat (info_bytes (infos ! k)) + 16)"
      by (simp only:) (rule member_le_sum; simp)
    then show ?thesis using assms(3) by simp
  qed
  have bounds: "int (unat (info_bytes c)) \<le> aligned_int_size (info_bytes c)"
    "aligned_int_size (info_bytes c) \<le> int (unat (info_bytes c) + 16)" if "c \<in> set infos" for c
    using aligned_int_size_bounds [of "info_bytes c"] size [OF that] by simp_all
  have online: "online ?reqs k" if "k < length ?cs" for k
    using req [OF that] assms(2) nth_mem [OF that] by (simp add: info_req_def)
  show "\<forall>k<buffer_count p. online ?reqs k \<and> ?reqs ! k = info_req (?cs ! k)
      \<and> int (unat (info_bytes (?cs ! k))) \<le> req_size (?reqs ! k)"
  proof (intro allI impI)
    fix k assume k: "k < buffer_count p"
    then have "?cs ! k \<in> set infos" using nth_mem [of k ?cs] count(1) by simp
    then show "online ?reqs k \<and> ?reqs ! k = info_req (?cs ! k) \<and> int (unat (info_bytes (?cs ! k))) \<le> req_size (?reqs ! k)"
      using k online req bounds(1) count(1) by (simp add: info_req_def)
  qed
  have "{k. k < buffer_count p \<and> online ?reqs k} = {..<length ?cs}" using online count(1) by auto
  then have "(\<Sum>k | k < buffer_count p \<and> online ?reqs k. req_size (?reqs ! k)) = (\<Sum>k<length ?cs. aligned_int_size (info_bytes (?cs ! k)))"
    using req by (simp add: info_req_def)
  also have "\<dots> \<le> (\<Sum>k<length ?cs. int (unat (info_bytes (?cs ! k)) + 16))"
    by (rule sum_mono) (use bounds(2) nth_mem in force)
  also have "\<dots> = int (sum_list (map (\<lambda>c. unat (info_bytes c) + 16) ?cs))"
    by (simp add: sum_list_sum_nth atLeast0LessThan)
  also have "\<dots> \<le> int (\<Sum>k<length infos. unat (info_bytes (infos ! k)) + 16)"
    using sum_list_wanted [of "\<lambda>c. unat (info_bytes c) + 16" infos] by (rule of_nat_mono)
  also have "\<dots> < int (2 ^ 31)" using assms(3) by (rule of_nat_less_iff [THEN iffD2])
  finally show "(\<Sum>k | k < buffer_count p \<and> online ?reqs k. req_size (?reqs ! k)) < 2 ^ 31"
    by simp
qed

lemma inj_location: "location n j = location n k \<longleftrightarrow> j = k"
  by (auto simp: location_def)

definition total_bytes :: "eval_tensor list \<Rightarrow> scratch_request list \<Rightarrow> nat \<Rightarrow> nat" where
  "total_bytes evals requests n = (\<Sum>k<n + length requests. bytes_at evals requests (location n k) + 16)"

lemma planned_online:
  assumes "planned_from p q" "\<forall>k<buffer_count p. 0 \<le> req_size (requirements p ! k)"
    "\<forall>k<buffer_count p. online (requirements p) k"
    "(\<Sum>k | k < buffer_count p \<and> online (requirements p) k. req_size (requirements p ! k)) < 2 ^ 31"
  shows "int (memory_size p) < 2 ^ 31"
    "k < buffer_count p \<Longrightarrow> 0 \<le> planned_offset p k \<and> planned_offset p k + req_size (requirements p ! k) \<le> int (memory_size p)"
proof -
  have offline: "\<forall>i<buffer_count p. \<not> online (requirements p) i \<longrightarrow>
     0 \<le> offline_offset (requirements p ! i) \<and> offline_offset (requirements p ! i) + req_size (requirements p ! i) \<le> 0"
    using assms(3) by blast
  have "0 + (\<Sum>k | k < buffer_count p \<and> online (requirements p) k. req_size (requirements p ! k)) < 2 ^ 31"
    using assms(4) by simp
  note bounds = planned_bounds [OF assms(1,2) offline order_refl this]
  show "int (memory_size p) < 2 ^ 31" using bounds(1) assms(4) by linarith
  show "0 \<le> planned_offset p k \<and> planned_offset p k + req_size (requirements p ! k) \<le> int (memory_size p)"
    if "k < buffer_count p" by (rule bounds(2) [OF that])
qed

lemma CommitStaticMemoryPlan_facts:
  assumes commit: "CommitStaticMemoryPlan sub None buffer_words evals handles M Map.empty = Some (kTfLiteOk, M', mem)"
    and tensors: "fb_tensors sub = Some tensors"
    and small: "total_bytes evals (scratch_requests M) (length tensors) < 2 ^ 31"
    and arena: "unat (buffer_head (memory_allocator M)) mod 16 = 0" "buffer_head (memory_allocator M) \<le> tail_ptr (memory_allocator M)"
      "max_head_buffer_usage M < 2 ^ 64"
  obtains p q cs where "planned_from p q" "length cs = buffer_count p"
    "\<forall>k<buffer_count p. online (requirements p) k \<and> requirements p ! k = info_req (cs ! k)
       \<and> describes sub evals (scratch_requests M) (cs ! k)
       \<and> int (bytes_at evals (scratch_requests M) (output_ptr (cs ! k))) \<le> req_size (requirements p ! k)"
    "(\<Sum>k | k < buffer_count p \<and> online (requirements p) k. req_size (requirements p ! k)) < 2 ^ 31"
    "\<forall>loc x. mem loc = Some x \<longrightarrow> (\<exists>k<buffer_count p. output_ptr (cs ! k) = loc
       \<and> x = buffer_head (memory_allocator M) + word_of_int (planned_offset p k))"
    "unat (buffer_head (memory_allocator M)) + memory_size p \<le> unat (head_ptr (memory_allocator M'))"
    "head_ptr (memory_allocator M') \<le> tail_ptr (memory_allocator M')"
proof -
  let ?A = "memory_allocator M" and ?n = "length tensors" and ?reqs = "scratch_requests M"
  obtain T infos where s: "snd (AllocateTemp (32 * of_nat (?n + length ?reqs)) 8 ?A) = T"
    "build_infos sub None buffer_words evals ?reqs ?n = Some (kTfLiteOk, infos)"
    "plan_and_commit infos handles (M\<lparr>memory_allocator := T\<rparr>) Map.empty = Some (kTfLiteOk, M', mem)"
    using commit tensors
    by (auto simp: CommitStaticMemoryPlan_def Let_def split: bind_splits if_splits option.splits prod.splits)
  have T: "buffer_head T = buffer_head ?A" "tail_ptr T = tail_ptr ?A" using s(1) by (auto simp: AllocateTemp_def Let_def)
  note infos = build_infos_facts [OF s(2) tensors]
  have distinct: "distinct (map output_ptr infos)"
    using infos by (auto simp: distinct_conv_nth inj_location)
  have described: "describes sub evals ?reqs c" if "c \<in> set infos" for c
    using that infos by (metis in_set_conv_nth)
  have bytes: "(\<Sum>k<length infos. unat (info_bytes (infos ! k)) + 16) = total_bytes evals ?reqs ?n"
    unfolding total_bytes_def using infos by (intro sum.cong) (auto simp: describes_def)
  obtain p q usage B where p: "holds_requests p (wanted infos)" "planned_from p q"
    "\<forall>loc x. mem loc = Some x \<longrightarrow> (\<exists>k<buffer_count p. output_ptr (wanted infos ! k) = loc
       \<and> x = buffer_head (memory_allocator (M\<lparr>memory_allocator := T\<rparr>)) + word_of_int (planned_offset p k))"
    "memory_size p \<le> usage" "usage = memory_size p \<or> usage = max_head_buffer_usage (M\<lparr>memory_allocator := T\<rparr>)"
    "SetHeadBufferSize (of_nat usage) 16 B = (kTfLiteOk, memory_allocator M')"
    "buffer_head B = buffer_head (memory_allocator (M\<lparr>memory_allocator := T\<rparr>))"
    "tail_ptr B = tail_ptr (memory_allocator (M\<lparr>memory_allocator := T\<rparr>))"
    by (rule plan_and_commit_facts [OF s(3) distinct])
  have sizes: "\<forall>k<buffer_count p. online (requirements p) k \<and> requirements p ! k = info_req (wanted infos ! k)
      \<and> int (unat (info_bytes (wanted infos ! k))) \<le> req_size (requirements p ! k)"
    "(\<Sum>k | k < buffer_count p \<and> online (requirements p) k. req_size (requirements p ! k)) < 2 ^ 31"
    using planned_sizes [OF p(1)] described small unfolding bytes by (auto simp: describes_def)
  have count: "length (wanted infos) = buffer_count p" using p(1) by (simp add: holds_requests_def)
  have each: "\<forall>k<buffer_count p. online (requirements p) k \<and> requirements p ! k = info_req (wanted infos ! k)
      \<and> describes sub evals ?reqs (wanted infos ! k)
      \<and> int (bytes_at evals ?reqs (output_ptr (wanted infos ! k))) \<le> req_size (requirements p ! k)"
  proof (intro allI impI)
    fix k assume k: "k < buffer_count p"
    then have "describes sub evals ?reqs (wanted infos ! k)" using described nth_mem [of k "wanted infos"] count by simp
    then show "online (requirements p) k \<and> requirements p ! k = info_req (wanted infos ! k)
        \<and> describes sub evals ?reqs (wanted infos ! k)
        \<and> int (bytes_at evals ?reqs (output_ptr (wanted infos ! k))) \<le> req_size (requirements p ! k)"
      using sizes(1) [rule_format, OF k] by (metis describes_def)
  qed
  have nonneg: "\<forall>k<buffer_count p. 0 \<le> req_size (requirements p ! k)"
    using sizes(1) by (metis of_nat_0_le_iff order_trans)
  have "int (memory_size p) < 2 ^ 31"
    by (rule planned_online(1) [OF p(2) nonneg _ sizes(2)]) (use sizes(1) in blast)
  then have "usage < 2 ^ 64" using p(5) arena(3) by auto
  then have usage: "unat (of_nat usage :: 64 word) = usage" by (simp add: unat_of_nat)
  have sixteen: "(16 :: 64 word) \<noteq> 0" "unat (16 :: 64 word) dvd 2 ^ 64" "unat (16 :: 64 word) dvd unat (buffer_head B)"
    "buffer_head B \<le> tail_ptr B"
    using p(7,8) arena(1,2) T by (simp_all add: mod_eq_0_iff_dvd)
  have head: "unat (head_ptr (memory_allocator M')) = unat (buffer_head B) + usage"
    "head_ptr (memory_allocator M') \<le> tail_ptr (memory_allocator M')"
    using SetHeadBufferSize_from_start(1,2) [OF p(6) sixteen] usage by simp_all
  have "unat (buffer_head ?A) + memory_size p \<le> unat (head_ptr (memory_allocator M'))"
    using head(1) p(4,7) T by simp
  moreover have "\<forall>loc x. mem loc = Some x \<longrightarrow> (\<exists>k<buffer_count p. output_ptr (wanted infos ! k) = loc
       \<and> x = buffer_head ?A + word_of_int (planned_offset p k))"
    using p(3) T by simp
  ultimately show ?thesis
    using that [OF p(2) count each sizes(2) _ _ head(2)] by blast
qed

text \<open>An address in the head.\<close>

lemma planned_address:
  assumes "0 \<le> x" "x + s \<le> int n" "0 \<le> s" "unat (start :: 64 word) + n \<le> unat (e :: 64 word)"
  shows "unat (start + word_of_int x) = unat start + nat x" "unat start + nat x + nat s \<le> unat e"
proof -
  have x: "nat x + nat s \<le> n" using assms(1-3) by linarith
  have "word_of_int x = (of_nat (nat x) :: 64 word)" using assms(1) by simp
  moreover have "unat start + nat x < 2 ^ 64" using x assms(4) unat_bound [of e] by linarith
  ultimately show "unat (start + word_of_int x) = unat start + nat x" by (simp add: unat_word_ariths unat_of_nat)
  show "unat start + nat x + nat s \<le> unat e" using x assms(4) by linarith
qed

lemma nat_sum_le: "0 \<le> a \<Longrightarrow> 0 \<le> b \<Longrightarrow> 0 \<le> c \<Longrightarrow> nat a + nat b \<le> nat c \<longleftrightarrow> a + b \<le> c"
  by linarith

section \<open>A model of two operators\<close>

definition plain_fb_tensor :: fb_tensor where
  "plain_fb_tensor = \<lparr>fb_shape = Some [1, 4], fb_type = TensorType_FLOAT32, fb_buffer = 0, fb_name = None,
     fb_tensor_quantization = None, fb_is_variable = False, fb_tensor_sparsity = None, fb_shape_signature = None\<rparr>"

definition plain_operator :: "int list \<Rightarrow> int list \<Rightarrow> fb_operator" where
  "plain_operator ins outs = \<lparr>fb_opcode_index = 0, fb_op_inputs = Some ins, fb_op_outputs = Some outs,
     fb_op_intermediates = None, fb_builtin_options = None, fb_custom_options = None\<rparr>"

text \<open>Tensor 0 is the input, tensor 2 the output, and operator 0 has a scratch buffer.\<close>

definition two_operators :: fb_subgraph where
  "two_operators = \<lparr>fb_tensors = Some [plain_fb_tensor, plain_fb_tensor, plain_fb_tensor], fb_inputs = Some [0], fb_outputs = Some [2],
     fb_operators = Some [plain_operator [0] [1], plain_operator [1] [2]]\<rparr>"

definition two_operators_tensors :: "eval_tensor list" where
  "two_operators_tensors = replicate 3 \<lparr>eval_data = None, eval_dims = Some [1, 4], eval_type = kTfLiteFloat32\<rparr>"

definition two_operators_allocator :: micro_allocator where
  "two_operators_allocator = \<lparr>memory_allocator = SimpleMemoryAllocator 0x1000 0x140, model_is_allocating = True,
     scratch_requests = [\<lparr>request_bytes = 20, request_node_idx = 0\<rparr>], max_head_buffer_usage = 0\<rparr>"

lemma two_operators_run:
  "case CommitStaticMemoryPlan two_operators None (\<lambda>_. None) two_operators_tensors (Some 0x1140) two_operators_allocator Map.empty of
     None \<Rightarrow> False
   | Some (st, M, mem) \<Rightarrow> st = kTfLiteOk \<and> head_ptr (memory_allocator M) = 0x1040
       \<and> map mem [ScratchHandle 0, TensorData 0, TensorData 1, TensorData 2] = [Some 0x1000, Some 0x1030, Some 0x1020, Some 0x1000]"
  by code_simp

lemma two_operators_planned:
  "\<exists>M mem. CommitStaticMemoryPlan two_operators None (\<lambda>_. None) two_operators_tensors (Some 0x1140) two_operators_allocator Map.empty
      = Some (kTfLiteOk, M, mem)
    \<and> mem (ScratchHandle 0) = Some 0x1000 \<and> mem (TensorData 1) = Some 0x1020"
  using two_operators_run by (auto split: option.splits)

section \<open>Requests for scratch buffers\<close>

text \<open>The allocator while the kernels prepare: what it does between the start of a model and the plan.\<close>

inductive preparing :: "micro_allocator \<Rightarrow> bool" where
  started: "preparing M'" if "InitScratchBufferData M = (kTfLiteOk, M')"
    "unat (buffer_head (memory_allocator M)) mod 8 = 0" "buffer_head (memory_allocator M) \<le> tail_ptr (memory_allocator M)"
| requested: "preparing M'" if "preparing M" "RequestScratchBufferInArena n M = Some (st, r, M')"
| finished: "preparing M'" if "preparing M" "FinishPrepareNodeAllocations node_id M = (kTfLiteOk, M')" "0 \<le> node_id"
    "length (scratch_requests M) < 2 ^ 59"
| persistent: "preparing M'" if "preparing M" "AllocatePersistentBuffer n M = (p, M')"

abbreviation unassigned_requests :: "scratch_request list \<Rightarrow> nat" where
  "unassigned_requests rs \<equiv> length (filter (\<lambda>r. request_node_idx r = kUnassignedScratchBufferRequestIndex) rs)"

definition requests_ok :: "micro_allocator \<Rightarrow> bool" where
  "requests_ok M \<longleftrightarrow> (let A = memory_allocator M; rs = scratch_requests M in
     unat (buffer_head A) mod 8 = 0 \<and> buffer_head A \<le> tail_ptr A \<and> buffer_head A \<le> head_ptr A
     \<and> unassigned_requests rs \<le> 8 \<and> unat (buffer_head A) + 16 * (length rs + 8 - unassigned_requests rs) \<le> unat (head_ptr A))"

lemma head_for_requests:
  assumes "SetHeadBufferSize (16 * of_nat n) 8 A = (kTfLiteOk, B)" "n < 2 ^ 60"
    "unat (buffer_head A) mod 8 = 0" "buffer_head A \<le> tail_ptr A"
  shows "unat (head_ptr B) = unat (buffer_head A) + 16 * n" "buffer_head B = buffer_head A" "tail_ptr B = tail_ptr A"
proof -
  have n: "unat (of_nat n :: 64 word) = n" using assms(2) by (simp add: unat_of_nat)
  have "unat (16 * of_nat n :: 64 word) = 16 * n"
    using unat_times [of 16 "of_nat n"] n assms(2) by simp
  moreover have eight: "(8 :: 64 word) \<noteq> 0" "unat (8 :: 64 word) dvd 2 ^ 64" "unat (8 :: 64 word) dvd unat (buffer_head A)"
    using assms(3) by (simp_all add: mod_eq_0_iff_dvd)
  note head = SetHeadBufferSize_from_start [OF assms(1) eight assms(4)]
  ultimately show "unat (head_ptr B) = unat (buffer_head A) + 16 * n" using head(1) by simp
  show "buffer_head B = buffer_head A" "tail_ptr B = tail_ptr A" using head(3) by simp_all
qed

lemma requests_start:
  assumes "requests_ok M"
  shows "GetScratchBufferRequests M = buffer_head (memory_allocator M)"
proof -
  have eight: "n + 8 \<le> 2 ^ 64" if "n mod 8 = 0" "n < 2 ^ 64" for n :: nat
    using that by simp presburger
  from assms have "unat (buffer_head (memory_allocator M)) mod 8 = 0" by (simp add: requests_ok_def Let_def)
  from eight [OF this unat_bound] this show ?thesis
    unfolding GetScratchBufferRequests_def GetHeadBuffer_def by (intro AlignPointerUp_aligned) simp_all
qed

lemma unassigned_le: "unassigned_requests rs \<le> length rs"
  by (rule length_filter_le)

lemma preparing_requests_ok: "preparing M \<Longrightarrow> requests_ok M"
proof (induction rule: preparing.induct)
  case (started M M')
  then obtain A where A: "SetHeadBufferSize (16 * of_nat kMaxScratchBuffersPerOp) 8 (memory_allocator M) = (kTfLiteOk, A)"
    "M' = M\<lparr>scratch_requests := [], memory_allocator := A\<rparr>"
    by (auto simp: InitScratchBufferData_def split: prod.splits)
  then show ?case
    using head_for_requests [OF A(1) _ started(2,3)] started(2,3)
    by (simp add: requests_ok_def word_le_nat_alt)
next
  case (requested M n st r M')
  then show ?case
    using unassigned_le [of "scratch_requests M"]
    by (auto simp: requests_ok_def RequestScratchBufferInArena_def Let_def split: if_splits)
next
  case (finished M node_id M')
  let ?rs = "map (\<lambda>r. if request_node_idx r = kUnassignedScratchBufferRequestIndex then r\<lparr>request_node_idx := node_id\<rparr> else r)
    (scratch_requests M)"
  obtain A where A: "SetHeadBufferSize (16 * of_nat (length ?rs + kMaxScratchBuffersPerOp)) 8
      (ResetTempAllocations (memory_allocator M)) = (kTfLiteOk, A)" "M' = M\<lparr>memory_allocator := A, scratch_requests := ?rs\<rparr>"
    using finished(2) by (auto simp: FinishPrepareNodeAllocations_def Let_def split: prod.splits)
  have none: "unassigned_requests ?rs = 0" using finished(3) by (auto simp: filter_empty_conv)
  have "length ?rs + kMaxScratchBuffersPerOp < 2 ^ 60" using finished(4) by simp
  then show ?case
    using head_for_requests [OF A(1)] finished.IH none A(2)
    by (simp add: requests_ok_def Let_def ResetTempAllocations_def word_le_nat_alt)
next
  case (persistent M n p M')
  then show ?case
    by (auto simp: requests_ok_def AllocatePersistentBuffer_def AllocateFromTail_def Let_def not_less
        split: prod.splits if_splits)
qed

section \<open>Properties\<close>

text \<open>
  What holds values while the same operator runs is apart in memory, whether tensor or scratch
  buffer, and all of it lies in the head of the arena, below the persistent blocks.
\<close>

theorem live_buffers_apart_in_the_head:
  assumes "CommitStaticMemoryPlan sub None buffer_words evals handles M Map.empty = Some (kTfLiteOk, M', mem)"
    "fb_tensors sub = Some tensors" "total_bytes evals (scratch_requests M) (length tensors) < 2 ^ 31"
    "unat (buffer_head (memory_allocator M)) mod 16 = 0" "buffer_head (memory_allocator M) \<le> tail_ptr (memory_allocator M)"
    "max_head_buffer_usage M < 2 ^ 64"
    "mem a = Some x" "mem b = Some y" "a \<noteq> b" "in_use_at sub (scratch_requests M) a i" "in_use_at sub (scratch_requests M) b i"
  shows "(unat x + bytes_at evals (scratch_requests M) a \<le> unat y \<or> unat y + bytes_at evals (scratch_requests M) b \<le> unat x)
    \<and> buffer_head (memory_allocator M) \<le> x
    \<and> unat x + bytes_at evals (scratch_requests M) a \<le> unat (head_ptr (memory_allocator M'))
    \<and> head_ptr (memory_allocator M') \<le> tail_ptr (memory_allocator M')"
proof -
  let ?start = "buffer_head (memory_allocator M)" and ?bytes = "bytes_at evals (scratch_requests M)"
  obtain p q cs where p: "planned_from p q" "length cs = buffer_count p"
    "\<forall>k<buffer_count p. online (requirements p) k \<and> requirements p ! k = info_req (cs ! k)
       \<and> describes sub evals (scratch_requests M) (cs ! k)
       \<and> int (?bytes (output_ptr (cs ! k))) \<le> req_size (requirements p ! k)"
    "(\<Sum>k | k < buffer_count p \<and> online (requirements p) k. req_size (requirements p ! k)) < 2 ^ 31"
    "\<forall>loc x. mem loc = Some x \<longrightarrow> (\<exists>k<buffer_count p. output_ptr (cs ! k) = loc
       \<and> x = ?start + word_of_int (planned_offset p k))"
    "unat ?start + memory_size p \<le> unat (head_ptr (memory_allocator M'))"
    "head_ptr (memory_allocator M') \<le> tail_ptr (memory_allocator M')"
    by (rule CommitStaticMemoryPlan_facts [OF assms(1-6)])
  obtain j k where jk: "j < buffer_count p" "output_ptr (cs ! j) = a" "x = ?start + word_of_int (planned_offset p j)"
    "k < buffer_count p" "output_ptr (cs ! k) = b" "y = ?start + word_of_int (planned_offset p k)"
    using p(5) assms(7,8) by blast
  have nonneg: "\<forall>k<buffer_count p. 0 \<le> req_size (requirements p ! k)" using p(3) by (metis of_nat_0_le_iff order_trans)
  have in_head: "unat (?start + word_of_int (planned_offset p k)) = unat ?start + nat (planned_offset p k)
      \<and> unat ?start + nat (planned_offset p k) + nat (req_size (requirements p ! k)) \<le> unat (head_ptr (memory_allocator M'))
      \<and> 0 \<le> planned_offset p k \<and> ?bytes (output_ptr (cs ! k)) \<le> nat (req_size (requirements p ! k))"
    if k: "k < buffer_count p" for k
  proof -
    have sz: "0 \<le> req_size (requirements p ! k)" "int (?bytes (output_ptr (cs ! k))) \<le> req_size (requirements p ! k)"
      using nonneg p(3) k by blast+
    have "0 \<le> planned_offset p k" "planned_offset p k + req_size (requirements p ! k) \<le> int (memory_size p)"
      using planned_online(2) [OF p(1) nonneg _ p(4) k] p(3) by blast+
    then show ?thesis
      using planned_address [OF _ _ sz(1) p(6), of "planned_offset p k"] sz(2) by simp
  qed
  have together: "in_use_together (requirements p ! j) (requirements p ! k)"
  proof -
    have "first_created (cs ! j) \<le> int i" "int i \<le> last_used (cs ! j)" "first_created (cs ! k) \<le> int i" "int i \<le> last_used (cs ! k)"
      using p(3) jk(1,2,4,5) assms(10,11) unfolding describes_def by blast+
    moreover have "requirements p ! j = info_req (cs ! j)" "requirements p ! k = info_req (cs ! k)"
      using p(3) jk(1,4) by blast+
    ultimately show ?thesis by (simp add: in_use_together_def info_req_def)
  qed
  have "j \<noteq> k" using jk assms(9) by auto
  from planned_apart [OF p(1) nonneg jk(1,4) this together] p(3) jk(1)
  have "apart (requirements p) (j, planned_offset p j) (k, planned_offset p k)" by blast
  then have "nat (planned_offset p j) + nat (req_size (requirements p ! j)) \<le> nat (planned_offset p k)
      \<or> nat (planned_offset p k) + nat (req_size (requirements p ! k)) \<le> nat (planned_offset p j)"
    using in_head [OF jk(1)] in_head [OF jk(4)] nonneg [rule_format, OF jk(1)] nonneg [rule_format, OF jk(4)]
    unfolding apart_def placed_end_def by (simp add: nat_sum_le)
  then show ?thesis
    using in_head [OF jk(1)] in_head [OF jk(4)] jk(2,3,5,6) p(7) by (auto simp: word_le_nat_alt)
qed

theorem live_buffers_apart_in_the_head_witness:
  "\<exists>M' mem x y. CommitStaticMemoryPlan two_operators None (\<lambda>_. None) two_operators_tensors (Some 0x1140) two_operators_allocator Map.empty
      = Some (kTfLiteOk, M', mem) \<and> mem (ScratchHandle 0) = Some x \<and> mem (TensorData 1) = Some y
    \<and> (unat x + 20 \<le> unat y \<or> unat y + 16 \<le> unat x) \<and> unat x + 20 \<le> unat (head_ptr (memory_allocator M'))"
proof -
  obtain M' mem where plan: "CommitStaticMemoryPlan two_operators None (\<lambda>_. None) two_operators_tensors (Some 0x1140)
      two_operators_allocator Map.empty = Some (kTfLiteOk, M', mem)"
    "mem (ScratchHandle 0) = Some 0x1000" "mem (TensorData 1) = Some 0x1020"
    using two_operators_planned by blast
  have tensors: "fb_tensors two_operators = Some (replicate 3 plain_fb_tensor)"
    by (simp add: two_operators_def numeral_eq_Suc)
  have small: "total_bytes two_operators_tensors (scratch_requests two_operators_allocator) (length (replicate 3 plain_fb_tensor)) < 2 ^ 31"
  proof -
    have "total_bytes two_operators_tensors (scratch_requests two_operators_allocator) 3 = 132" by code_simp
    then show ?thesis by simp
  qed
  have bytes: "bytes_at two_operators_tensors (scratch_requests two_operators_allocator) (ScratchHandle 0) = 20"
    "bytes_at two_operators_tensors (scratch_requests two_operators_allocator) (TensorData 1) = 16"
    by code_simp+
  have live: "in_use_at two_operators (scratch_requests two_operators_allocator) (ScratchHandle 0) 0"
    "in_use_at two_operators (scratch_requests two_operators_allocator) (TensorData 1) 0"
  proof -
    have "defined_at two_operators 1 0" "used_at two_operators 1 1"
      by (simp_all add: defined_at_def used_at_def two_operators_def plain_operator_def)
    then show "in_use_at two_operators (scratch_requests two_operators_allocator) (TensorData 1) 0"
      by (auto simp: in_use_at_def)
  qed (simp add: in_use_at_def two_operators_allocator_def)
  have arena: "unat (buffer_head (memory_allocator two_operators_allocator)) mod 16 = 0"
    "buffer_head (memory_allocator two_operators_allocator) \<le> tail_ptr (memory_allocator two_operators_allocator)"
    "max_head_buffer_usage two_operators_allocator < 2 ^ 64"
    by (simp_all add: two_operators_allocator_def SimpleMemoryAllocator_def)
  from live_buffers_apart_in_the_head [OF plan(1) tensors small arena plan(2,3) _ live] plan
  show ?thesis by (auto simp: bytes)
qed

text \<open>
  An operator with an optional input (index -1) never gets a plan: the entry before the array is read
  and written, which the model has as no result.
\<close>

theorem optional_input_not_planned:
  assumes "fb_tensors sub = Some tensors" "fb_operators sub = Some ops" "i < length ops"
    "fb_op_inputs (ops ! i) = Some ins" "kTfLiteOptionalTensor \<in> set ins"
  shows "Builder_AddTensors (length tensors) sub offsets evals (replicate m blank_info) \<noteq> Some (kTfLiteOk, infos)"
proof
  assume "Builder_AddTensors (length tensors) sub offsets evals (replicate m blank_info) = Some (kTfLiteOk, infos)"
  from Builder_AddTensors_facts [OF this assms(1)] have "noted (i, ops ! i) infos"
    using noted_operator [OF _ assms(2,3)] by blast
  then show False using assms(4,5) by (auto simp: noted_def used_until_def in_bounds_def)
qed

definition optional_input_model :: fb_subgraph where
  "optional_input_model = \<lparr>fb_tensors = Some [plain_fb_tensor, plain_fb_tensor], fb_inputs = Some [0], fb_outputs = Some [1],
     fb_operators = Some [plain_operator [0, -1] [1]]\<rparr>"

theorem optional_input_not_planned_witness:
  "Builder_AddTensors 2 optional_input_model None two_operators_tensors (replicate 2 blank_info) = None
    \<and> Builder_AddTensors 2 optional_input_model None two_operators_tensors (replicate 2 blank_info) \<noteq> Some (kTfLiteOk, [])"
proof
  show "Builder_AddTensors 2 optional_input_model None two_operators_tensors (replicate 2 blank_info) = None"
    by code_simp
  have "Builder_AddTensors (length [plain_fb_tensor, plain_fb_tensor]) optional_input_model None two_operators_tensors (replicate 2 blank_info)
      \<noteq> Some (kTfLiteOk, [])"
    by (rule optional_input_not_planned [where i = 0 and ins = "[0, -1]" and ops = "[plain_operator [0, -1] [1]]"])
      (simp_all add: optional_input_model_def plain_operator_def)
  then show "Builder_AddTensors 2 optional_input_model None two_operators_tensors (replicate 2 blank_info) \<noteq> Some (kTfLiteOk, [])"
    by (simp add: numeral_2_eq_2)
qed

text \<open>
  A kernel that asks for a scratch buffer gets one unless it has eight already, and the request is
  written within the head, whatever the kernels before it asked for.
\<close>

theorem scratch_requests_stay_in_the_head:
  assumes "preparing M"
  shows "RequestScratchBufferInArena n M = Some
    (if length (filter (\<lambda>r. request_node_idx r = kUnassignedScratchBufferRequestIndex) (scratch_requests M)) < kMaxScratchBuffersPerOp
     then (kTfLiteOk, Some (int (length (scratch_requests M))),
           M\<lparr>scratch_requests := scratch_requests M
             @ [\<lparr>request_bytes = n, request_node_idx = kUnassignedScratchBufferRequestIndex\<rparr>]\<rparr>)
     else (kTfLiteError, None, M))"
proof -
  note ok = preparing_requests_ok [OF assms]
  have "unat (GetScratchBufferRequests M) + 16 * (length (scratch_requests M) + 1) \<le> unat (head_ptr (memory_allocator M))"
    if "unassigned_requests (scratch_requests M) < 8"
    using ok that unassigned_le [of "scratch_requests M"] unfolding requests_start [OF ok]
    by (auto simp: requests_ok_def Let_def)
  then show ?thesis
    by (cases "unassigned_requests (scratch_requests M) < 8") (simp_all add: RequestScratchBufferInArena_def Let_def not_less)
qed

theorem scratch_requests_stay_in_the_head_witness:
  "\<exists>M. RequestScratchBufferInArena 20 M = Some (kTfLiteOk, Some 0,
     M\<lparr>scratch_requests := [\<lparr>request_bytes = 20, request_node_idx = -1\<rparr>]\<rparr>)"
proof -
  let ?M = "\<lparr>memory_allocator = SimpleMemoryAllocator 0x1000 0x200, model_is_allocating = False, scratch_requests = [],
    max_head_buffer_usage = 0\<rparr>"
  obtain st M where M: "InitScratchBufferData ?M = (st, M)" by (metis surj_pair)
  moreover have "fst (InitScratchBufferData ?M) = kTfLiteOk" "scratch_requests (snd (InitScratchBufferData ?M)) = []"
    by (simp_all add: InitScratchBufferData_def SetHeadBufferSize_def SimpleMemoryAllocator_def AlignPointerUp_def)
  ultimately have "InitScratchBufferData ?M = (kTfLiteOk, M)" "scratch_requests M = []" by simp_all
  moreover from this have "preparing M"
    by (intro preparing.started [of ?M]) (simp_all add: SimpleMemoryAllocator_def)
  ultimately show ?thesis
    using scratch_requests_stay_in_the_head [of M 20] by (intro exI [of _ M]) simp
qed

end
