(* ===== verification/Micro_Setup.thy ===== *)
theory Micro_Setup
  imports Micro_Lifetimes Op_Resolver
begin

text \<open>
  How \<^verbatim>\<open>micro/micro_allocator.cc\<close> sets up a model: the tensors and nodes of the run-time from the
  tables of the model file, and the operator resolver of TensorFlow Lite Micro,
  \<^verbatim>\<open>micro/micro_op_resolver.h\<close> and \<^verbatim>\<open>micro_mutable_op_resolver.h\<close>.

  The machine is little-endian: integer arrays of the model file are used in place. \<^verbatim>\<open>sizeof\<close> is 24 for
  \<^verbatim>\<open>TfLiteEvalTensor\<close> and \<^verbatim>\<open>TfLiteAffineQuantization\<close>, 56 for \<^verbatim>\<open>NodeAndRegistration\<close> and 64 for
  \<^verbatim>\<open>TfLiteTensor\<close>, as the builds with \<^verbatim>\<open>TF_LITE_STATIC_MEMORY\<close> have it; what a tensor lacks there stays zero.
\<close>

section \<open>The resolver\<close>

text \<open>The parse function of an operator is an index into the behaviours the model is given.\<close>

record micro_op_resolver =
  MicroFindOp :: "int \<Rightarrow> registration option"
  MicroFindCustom :: "string \<Rightarrow> registration option"
  GetOpDataParser :: "int \<Rightarrow> nat option"

text \<open>The lookups of the base class disregard the version.\<close>

definition micro_as_resolver :: "micro_op_resolver \<Rightarrow> op_resolver" where
  "micro_as_resolver R = \<lparr>FindBuiltin = (\<lambda>op version. MicroFindOp R op),
     FindCustom = (\<lambda>name version. MicroFindCustom R name), GetDelegates = (\<lambda>_. [])\<rparr>"

record micro_mutable_resolver =
  registrations :: "registration list"
  builtin_parsers :: "(int \<times> nat) list"

definition MicroMutableOpResolver :: micro_mutable_resolver where
  "MicroMutableOpResolver = \<lparr>registrations = [], builtin_parsers = []\<rparr>"

definition Micro_FindOp :: "micro_mutable_resolver \<Rightarrow> int \<Rightarrow> registration option" where
  "Micro_FindOp m op =
     (if op = BuiltinOperator_CUSTOM then None
      else List.find (\<lambda>r. builtin_code r = op) (registrations m))"

definition Micro_FindCustom :: "micro_mutable_resolver \<Rightarrow> string \<Rightarrow> registration option" where
  "Micro_FindCustom m name =
     List.find (\<lambda>r. builtin_code r = BuiltinOperator_CUSTOM \<and> custom_name r = Some name) (registrations m)"

definition Micro_GetOpDataParser :: "micro_mutable_resolver \<Rightarrow> int \<Rightarrow> nat option" where
  "Micro_GetOpDataParser m op = map_option snd (List.find (\<lambda>(code, _). code = op) (builtin_parsers m))"

definition micro_resolver :: "micro_mutable_resolver \<Rightarrow> micro_op_resolver" where
  "micro_resolver m = \<lparr>MicroFindOp = Micro_FindOp m, MicroFindCustom = Micro_FindCustom m,
     GetOpDataParser = Micro_GetOpDataParser m\<rparr>"

text \<open>The size of the resolver is the template parameter \<^verbatim>\<open>tOpCount\<close>.\<close>

definition Micro_AddCustom ::
  "nat \<Rightarrow> string \<Rightarrow> registration \<Rightarrow> micro_mutable_resolver \<Rightarrow> tflite_status \<times> micro_mutable_resolver" where
  "Micro_AddCustom tOpCount name r m =
     (if length (registrations m) \<ge> tOpCount then (kTfLiteError, m)
      else if Micro_FindCustom m name \<noteq> None then (kTfLiteError, m)
      else (kTfLiteOk, m\<lparr>registrations := registrations m
              @ [r\<lparr>builtin_code := BuiltinOperator_CUSTOM, custom_name := Some name\<rparr>]\<rparr>))"

definition Micro_AddBuiltin ::
  "nat \<Rightarrow> int \<Rightarrow> registration \<Rightarrow> nat \<Rightarrow> micro_mutable_resolver \<Rightarrow> tflite_status \<times> micro_mutable_resolver" where
  "Micro_AddBuiltin tOpCount op r parser m =
     (if op = BuiltinOperator_CUSTOM then (kTfLiteError, m)
      else if Micro_FindOp m op \<noteq> None then (kTfLiteError, m)
      else if length (registrations m) \<ge> tOpCount then (kTfLiteError, m)
      else (kTfLiteOk, m\<lparr>registrations := registrations m @ [r\<lparr>builtin_code := op\<rparr>],
              builtin_parsers := builtin_parsers m @ [(op, parser)]\<rparr>))"

section \<open>Tensors of the run-time\<close>

text \<open>The address of the data of a tensor in the model file, if it has any; \<^term>\<open>None\<close> on the outside is an index no buffer has.\<close>

definition GetFlatbufferTensorBuffer :: "fb_tensor \<Rightarrow> fb_buffer option list option \<Rightarrow> 64 word option option" where
  "GetFlatbufferTensorBuffer t buffers = do {
     bs \<leftarrow> buffers;
     b \<leftarrow> vec_at bs (int (fb_buffer t));
     Some (case b of
       Some (Some (array, n)) \<Rightarrow> if n \<noteq> 0 then Some (of_nat array) else None
     | _ \<Rightarrow> None) }"

definition InitializeTfLiteEvalTensorFromFlatbuffer ::
  "fb_tensor \<Rightarrow> fb_buffer option list option \<Rightarrow> (tflite_status \<times> eval_tensor) option" where
  "InitializeTfLiteEvalTensorFromFlatbuffer t buffers =
     (case ConvertTensorType (fb_type t) of (st, type) \<Rightarrow>
        if st \<noteq> kTfLiteOk then Some (st, \<lparr>eval_data = None, eval_dims = None, eval_type = type\<rparr>)
        else do {
          data \<leftarrow> GetFlatbufferTensorBuffer t buffers;
          Some (kTfLiteOk, \<lparr>eval_data = data,
            eval_dims = (case fb_shape t of None \<Rightarrow> Some [] | Some ds \<Rightarrow> Some ds), eval_type = type\<rparr>) })"

definition BytesRequiredForTensor :: "fb_tensor \<Rightarrow> tflite_status \<times> 64 word" where
  "BytesRequiredForTensor t =
     (let element_count = (case fb_shape t of None \<Rightarrow> 1 | Some ds \<Rightarrow> foldl (\<lambda>n d. n * word_of_int d) (1 :: 32 word) ds)
      in case ConvertTensorType (fb_type t) of (st, type) \<Rightarrow>
           if st \<noteq> kTfLiteOk then (st, 0)
           else case TfLiteTypeSizeOf type of
                  None \<Rightarrow> (kTfLiteError, 0)
                | Some type_size \<Rightarrow> (kTfLiteOk, scast element_count * type_size))"

text \<open>What \<^verbatim>\<open>*result = {}\<close> leaves in a tensor.\<close>

definition zero_tensor :: tensor where
  "zero_tensor = \<lparr>tensor_type = kTfLiteNoType, data_raw = 0, dims = None,
     params = \<lparr>legacy_scale = 0, legacy_zero_point = 0\<rparr>, allocation_type = kTfLiteMemNone, bytes = 0,
     allocation = 0, tensor_name = None, tensor_delegate = None, buffer_handle = 0, data_is_stale = False,
     is_variable = False,
     tensor_quantization = \<lparr>quantization_kind = kTfLiteNoQuantization, quantization_details = None\<rparr>,
     tensor_sparsity = None, dims_signature = None\<rparr>"

text \<open>
  The parameters for each channel; the structure and the zero points are allocated, the scales stay in the
  model file. There have to be as many zero points as scales: the code reads that many.
\<close>

definition copy_quantization ::
  "bool \<Rightarrow> fb_quantization \<Rightarrow> 32 word list \<Rightarrow> int list \<Rightarrow> tensor \<Rightarrow> simple_allocator
   \<Rightarrow> (tflite_status \<times> tensor \<times> simple_allocator) option" where
  "copy_quantization allocate_temp src scale zero_point result A =
     (let alloc = (if allocate_temp then AllocateTemp else AllocateFromTail);
          channels = length scale;
          result = result\<lparr>params := \<lparr>legacy_scale = hd scale, legacy_zero_point = signed_take_bit 31 (hd zero_point)\<rparr>\<rparr>
      in case alloc 24 8 A of
           (None, A) \<Rightarrow> Some (kTfLiteError, result, A)
         | (Some _, A) \<Rightarrow>
             (case alloc (4 + 4 * of_nat channels) 4 A of
                (None, A) \<Rightarrow> Some (kTfLiteError, result, A)
              | (Some _, A) \<Rightarrow>
                  if channels > length zero_point then None
                  else Some (kTfLiteOk,
                    result\<lparr>tensor_quantization := \<lparr>quantization_kind = kTfLiteAffineQuantization,
                      quantization_details = Some \<lparr>affine_scale = Some scale,
                        affine_zero_point = Some (map (signed_take_bit 31) (take channels zero_point)),
                        affine_quantized_dimension = fb_quantized_dimension src\<rparr>\<rparr>\<rparr>, A)))"

definition InitializeTfLiteTensorFromFlatbuffer ::
  "bool \<Rightarrow> fb_tensor \<Rightarrow> fb_buffer option list option \<Rightarrow> simple_allocator
   \<Rightarrow> (tflite_status \<times> tensor \<times> simple_allocator) option" where
  "InitializeTfLiteTensorFromFlatbuffer allocate_temp t buffers A =
     (case ConvertTensorType (fb_type t) of (st, type) \<Rightarrow>
        if st \<noteq> kTfLiteOk then Some (st, zero_tensor\<lparr>tensor_type := type\<rparr>, A)
        else do {
          data \<leftarrow> GetFlatbufferTensorBuffer t buffers;
          let result = zero_tensor\<lparr>tensor_type := type, is_variable := fb_is_variable t,
            data_raw := (case data of None \<Rightarrow> 0 | Some p \<Rightarrow> unat p),
            allocation_type := (if data = None then kTfLiteArenaRw else kTfLiteMmapRo)\<rparr>;
          (case BytesRequiredForTensor t of (st, n) \<Rightarrow>
             if st \<noteq> kTfLiteOk then Some (st, result, A)
             else
               let result = result\<lparr>bytes := unat n, dims := (case fb_shape t of None \<Rightarrow> Some [] | Some ds \<Rightarrow> Some ds)\<rparr>
               in case fb_tensor_quantization t of
                    None \<Rightarrow> Some (kTfLiteOk, result, A)
                  | Some src \<Rightarrow>
                      (case (fb_scale src, fb_zero_point src) of
                         (Some scale, Some zero_point) \<Rightarrow>
                           if length scale > 0 \<and> length zero_point > 0
                           then copy_quantization allocate_temp src scale zero_point result A
                           else Some (kTfLiteOk, result, A)
                       | _ \<Rightarrow> Some (kTfLiteOk, result, A))) })"

section \<open>Tensors and nodes of a model\<close>

text \<open>The tables of a model without exactly one subgraph are read through a null pointer: no result.\<close>

primrec init_eval_tensors ::
  "fb_tensor list \<Rightarrow> fb_buffer option list option \<Rightarrow> (tflite_status \<times> eval_tensor list) option" where
  "init_eval_tensors [] buffers = Some (kTfLiteOk, [])"
| "init_eval_tensors (t # ts) buffers = do {
     (st, e) \<leftarrow> InitializeTfLiteEvalTensorFromFlatbuffer t buffers;
     if st \<noteq> kTfLiteOk then Some (kTfLiteError, [])
     else do {
       (st, es) \<leftarrow> init_eval_tensors ts buffers;
       Some (st, e # es) } }"

definition AllocateTfLiteEvalTensors ::
  "fb_model \<Rightarrow> eval_tensor list option \<Rightarrow> micro_allocator
   \<Rightarrow> (tflite_status \<times> eval_tensor list option \<times> micro_allocator) option" where
  "AllocateTfLiteEvalTensors model eval_tensors M = do {
     subgraph \<leftarrow> GetSubGraphFromModel model;
     tensors \<leftarrow> fb_tensors subgraph;
     (case AllocateFromTail (24 * of_nat (length tensors)) 8 (memory_allocator M) of
        (None, A) \<Rightarrow> Some (kTfLiteError, eval_tensors, M\<lparr>memory_allocator := A\<rparr>)
      | (Some _, A) \<Rightarrow> do {
          (st, es) \<leftarrow> init_eval_tensors tensors (fb_buffers model);
          Some (if st \<noteq> kTfLiteOk then (kTfLiteError, eval_tensors, M\<lparr>memory_allocator := A\<rparr>)
                else (kTfLiteOk, Some es, M\<lparr>memory_allocator := A\<rparr>)) }) }"

record micro_node =
  micro_inputs :: "int list option"
  micro_outputs :: "int list option"
  micro_user_data :: nat
  micro_builtin_data :: nat
  micro_custom_initial_data :: "nat \<times> nat"

record node_and_registration =
  nr_node :: micro_node
  nr_registration :: "registration option"

text \<open>Arena memory that holds no node yet: its contents are arbitrary, and not read.\<close>

definition blank_node :: node_and_registration where
  "blank_node = \<lparr>nr_node = \<lparr>micro_inputs = None, micro_outputs = None, micro_user_data = 0, micro_builtin_data = 0,
     micro_custom_initial_data = (0, 0)\<rparr>, nr_registration = None\<rparr>"

definition AllocateNodeAndRegistrations ::
  "fb_model \<Rightarrow> node_and_registration list option \<Rightarrow> micro_allocator
   \<Rightarrow> (tflite_status \<times> node_and_registration list option \<times> micro_allocator) option" where
  "AllocateNodeAndRegistrations model nodes M = do {
     subgraph \<leftarrow> GetSubGraphFromModel model;
     operators \<leftarrow> fb_operators subgraph;
     Some (case AllocateFromTail (56 * of_nat (length operators)) 8 (memory_allocator M) of
        (None, A) \<Rightarrow> (kTfLiteError, nodes, M\<lparr>memory_allocator := A\<rparr>)
      | (Some _, A) \<Rightarrow> (kTfLiteOk, Some (replicate (length operators) blank_node), M\<lparr>memory_allocator := A\<rparr>)) }"

text \<open>
  The data of an operator: custom options for a custom operator, what the parse function makes of the
  options for a builtin one. A parse function allocates from the tail.
\<close>

type_synonym op_parsers = "nat \<Rightarrow> fb_operator \<Rightarrow> simple_allocator \<Rightarrow> (tflite_status \<times> nat \<times> simple_allocator) option"

definition operator_data ::
  "op_parsers \<Rightarrow> micro_op_resolver \<Rightarrow> fb_operator \<Rightarrow> registration \<Rightarrow> simple_allocator
   \<Rightarrow> (tflite_status \<times> (nat \<times> nat \<times> nat) \<times> simple_allocator) option" where
  "operator_data parsers R op r A =
     (if builtin_code r = BuiltinOperator_CUSTOM
      then Some (kTfLiteOk, (0, case fb_custom_options op of None \<Rightarrow> (0, 0) | Some data \<Rightarrow> data), A)
      else if fb_custom_options op \<noteq> None then Some (kTfLiteError, (0, 0, 0), A)
      else case GetOpDataParser R (builtin_code r) of
             None \<Rightarrow> Some (kTfLiteError, (0, 0, 0), A)
           | Some parser \<Rightarrow> do {
               (st, data, A) \<leftarrow> parsers parser op A;
               Some (st, (data, 0, 0), A) })"

definition prepare_node ::
  "op_parsers \<Rightarrow> micro_op_resolver \<Rightarrow> operator_code list \<Rightarrow> nat \<times> fb_operator
   \<Rightarrow> node_and_registration list \<times> micro_allocator
   \<Rightarrow> (tflite_status \<times> node_and_registration list \<times> micro_allocator) option" where
  "prepare_node parsers R opcodes = (\<lambda>(i, op) (nodes, M).
     let index = fb_opcode_index op
     in if index \<ge> length opcodes then Some (kTfLiteError, nodes, M)
        else case GetRegistrationFromOpCode (opcodes ! index) (micro_as_resolver R) of (st, registration) \<Rightarrow> do {
          entry \<leftarrow> vec_at nodes (int i);
          nodes \<leftarrow> vec_set nodes (int i) (entry\<lparr>nr_registration := registration\<rparr>);
          if st \<noteq> kTfLiteOk then Some (st, nodes, M)
          else (case registration of
            None \<Rightarrow> Some (kTfLiteError, nodes, M)
          | Some r \<Rightarrow> do {
              (st, (builtin_data, custom_data), A) \<leftarrow> operator_data parsers R op r (memory_allocator M);
              if st \<noteq> kTfLiteOk then Some (st, nodes, M\<lparr>memory_allocator := A\<rparr>)
              else do {
                nodes \<leftarrow> vec_set nodes (int i)
                  \<lparr>nr_node = \<lparr>micro_inputs = fb_op_inputs op, micro_outputs = fb_op_outputs op, micro_user_data = 0,
                               micro_builtin_data = builtin_data, micro_custom_initial_data = custom_data\<rparr>,
                   nr_registration = Some r\<rparr>;
                Some (kTfLiteOk, nodes, M\<lparr>memory_allocator := A\<rparr>) } }) })"

definition PrepareNodeAndRegistrationDataFromFlatbuffer ::
  "op_parsers \<Rightarrow> fb_model \<Rightarrow> micro_op_resolver \<Rightarrow> node_and_registration list \<Rightarrow> micro_allocator
   \<Rightarrow> (tflite_status \<times> node_and_registration list \<times> micro_allocator) option" where
  "PrepareNodeAndRegistrationDataFromFlatbuffer parsers model R nodes M = do {
     subgraph \<leftarrow> GetSubGraphFromModel model;
     operators \<leftarrow> fb_operators subgraph;
     if operators = [] then Some (kTfLiteOk, nodes, M)
     else do {
       opcodes \<leftarrow> fb_operator_codes model;
       do_each_ok (prepare_node parsers R opcodes) (List.enumerate 0 operators) (nodes, M) } }"

definition StartModelAllocation ::
  "op_parsers \<Rightarrow> fb_model \<Rightarrow> micro_op_resolver \<Rightarrow> node_and_registration list option \<Rightarrow> eval_tensor list option
   \<Rightarrow> micro_allocator
   \<Rightarrow> (tflite_status \<times> node_and_registration list option \<times> eval_tensor list option \<times> micro_allocator) option" where
  "StartModelAllocation parsers model R nodes eval_tensors M =
     (if model_is_allocating M then Some (kTfLiteError, nodes, eval_tensors, M)
      else
        case InitScratchBufferData (M\<lparr>model_is_allocating := True\<rparr>) of (st, M) \<Rightarrow>
          if st \<noteq> kTfLiteOk then Some (st, nodes, eval_tensors, M)
          else do {
            (st, eval_tensors, M) \<leftarrow> AllocateTfLiteEvalTensors model eval_tensors M;
            if st \<noteq> kTfLiteOk then Some (st, nodes, eval_tensors, M)
            else do {
              (st, nodes, M) \<leftarrow> AllocateNodeAndRegistrations model nodes M;
              if st \<noteq> kTfLiteOk then Some (st, nodes, eval_tensors, M)
              else do {
                ns \<leftarrow> nodes;
                (st, ns, M) \<leftarrow> PrepareNodeAndRegistrationDataFromFlatbuffer parsers model R ns M;
                Some (st, Some ns, eval_tensors, M) } } })"

section \<open>Tensors for the client and for the kernels\<close>

text \<open>
  The tensor itself is allocated first, and written to whether that succeeded or not. Its data is that of
  the tensor of the run-time, if there is one.
\<close>

definition make_tensor ::
  "bool \<Rightarrow> fb_model \<Rightarrow> eval_tensor list option \<Rightarrow> int \<Rightarrow> micro_allocator \<Rightarrow> (tensor option \<times> micro_allocator) option" where
  "make_tensor allocate_temp model eval_tensors tensor_index M = do {
     subgraph \<leftarrow> GetSubGraphFromModel model;
     (case (if allocate_temp then AllocateTemp else AllocateFromTail) 64 8 (memory_allocator M) of
        (None, A) \<Rightarrow> None
      | (Some _, A) \<Rightarrow> do {
          tensors \<leftarrow> fb_tensors subgraph;
          t \<leftarrow> vec_at tensors tensor_index;
          (st, result, A) \<leftarrow> InitializeTfLiteTensorFromFlatbuffer allocate_temp t (fb_buffers model) A;
          if st \<noteq> kTfLiteOk then Some (None, M\<lparr>memory_allocator := A\<rparr>)
          else (case eval_tensors of
            None \<Rightarrow> Some (Some result, M\<lparr>memory_allocator := A\<rparr>)
          | Some es \<Rightarrow> do {
              e \<leftarrow> vec_at es tensor_index;
              Some (Some (result\<lparr>data_raw := (case eval_data e of None \<Rightarrow> 0 | Some p \<Rightarrow> unat p)\<rparr>),
                M\<lparr>memory_allocator := A\<rparr>) }) }) }"

definition AllocatePersistentTfLiteTensor ::
  "fb_model \<Rightarrow> eval_tensor list option \<Rightarrow> int \<Rightarrow> micro_allocator \<Rightarrow> (tensor option \<times> micro_allocator) option" where
  "AllocatePersistentTfLiteTensor = make_tensor False"

definition AllocateTempTfLiteTensor ::
  "fb_model \<Rightarrow> eval_tensor list option \<Rightarrow> int \<Rightarrow> micro_allocator \<Rightarrow> (tensor option \<times> micro_allocator) option" where
  "AllocateTempTfLiteTensor = make_tensor True"

end
