(* ===== verification/Micro_Resolver.thy ===== *)
theory Micro_Resolver
  imports Micro_Setup
begin

text \<open>
  The operator resolver of TensorFlow Lite Micro, \<^verbatim>\<open>micro/micro_mutable_op_resolver.h\<close>: an array that is
  searched is a finite map of bounded size, and keeps the contract that \<^verbatim>\<open>GetRegistrationFromOpCode\<close> relies on.
\<close>

section \<open>Resolvers that a program builds\<close>

inductive built_resolver :: "nat \<Rightarrow> micro_mutable_resolver \<Rightarrow> bool" for tOpCount :: nat where
  empty: "built_resolver tOpCount MicroMutableOpResolver"
| builtin: "built_resolver tOpCount m'" if "built_resolver tOpCount m" "Micro_AddBuiltin tOpCount op r parser m = (st, m')"
| custom: "built_resolver tOpCount m'" if "built_resolver tOpCount m" "Micro_AddCustom tOpCount name r m = (st, m')"

lemma find_snoc: "List.find P (xs @ [x]) = (case List.find P xs of None \<Rightarrow> if P x then Some x else None | Some y \<Rightarrow> Some y)"
  by (induction xs) auto

lemma find_holds: "List.find P xs = Some x \<Longrightarrow> P x"
  by (induction xs) (auto split: if_splits)

text \<open>Every builtin operator that is registered has a parse function, and no other has.\<close>

definition parsers_registered :: "micro_mutable_resolver \<Rightarrow> bool" where
  "parsers_registered m \<longleftrightarrow> (\<forall>op. (Micro_GetOpDataParser m op = None) = (Micro_FindOp m op = None))"

lemma AddBuiltin_lookups:
  assumes "Micro_AddBuiltin tOpCount op r parser m = (st, m')" "parsers_registered m"
  shows "if st = kTfLiteOk
     then op \<noteq> BuiltinOperator_CUSTOM \<and> Micro_FindOp m op = None \<and> length (registrations m) < tOpCount
       \<and> Micro_FindOp m' = (Micro_FindOp m)(op \<mapsto> r\<lparr>builtin_code := op\<rparr>) \<and> Micro_FindCustom m' = Micro_FindCustom m
       \<and> Micro_GetOpDataParser m' = (Micro_GetOpDataParser m)(op \<mapsto> parser) \<and> length (registrations m') = Suc (length (registrations m))
     else m' = m \<and> (op = BuiltinOperator_CUSTOM \<or> Micro_FindOp m op \<noteq> None \<or> length (registrations m) \<ge> tOpCount)"
proof (cases "st = kTfLiteOk")
  case True
  then have ok: "op \<noteq> BuiltinOperator_CUSTOM" "Micro_FindOp m op = None" "length (registrations m) < tOpCount"
    "m' = m\<lparr>registrations := registrations m @ [r\<lparr>builtin_code := op\<rparr>], builtin_parsers := builtin_parsers m @ [(op, parser)]\<rparr>"
    using assms(1) by (auto simp: Micro_AddBuiltin_def split: if_splits)
  have "Micro_FindOp m' op' = ((Micro_FindOp m)(op \<mapsto> r\<lparr>builtin_code := op\<rparr>)) op'" for op'
    using ok(1,2,4) by (auto simp: Micro_FindOp_def find_snoc split: option.splits)
  moreover have "Micro_GetOpDataParser m op = None" using assms(2) ok(2) by (simp add: parsers_registered_def)
  then have "Micro_GetOpDataParser m' op' = ((Micro_GetOpDataParser m)(op \<mapsto> parser)) op'" for op'
    using ok(4) by (auto simp: Micro_GetOpDataParser_def find_snoc split: option.splits)
  moreover have "Micro_FindCustom m' name = Micro_FindCustom m name" for name
    using ok(1,4) by (auto simp: Micro_FindCustom_def find_snoc split: option.splits)
  ultimately show ?thesis using ok True by (auto simp: fun_eq_iff)
next
  case False
  then show ?thesis using assms(1) by (auto simp: Micro_AddBuiltin_def split: if_splits)
qed

lemma AddCustom_lookups:
  assumes "Micro_AddCustom tOpCount name r m = (st, m')"
  shows "if st = kTfLiteOk
     then Micro_FindCustom m name = None \<and> length (registrations m) < tOpCount
       \<and> Micro_FindCustom m' = (Micro_FindCustom m)(name \<mapsto> r\<lparr>builtin_code := BuiltinOperator_CUSTOM, custom_name := Some name\<rparr>)
       \<and> Micro_FindOp m' = Micro_FindOp m \<and> Micro_GetOpDataParser m' = Micro_GetOpDataParser m
       \<and> length (registrations m') = Suc (length (registrations m))
     else m' = m \<and> (Micro_FindCustom m name \<noteq> None \<or> length (registrations m) \<ge> tOpCount)"
proof (cases "st = kTfLiteOk")
  case True
  then have ok: "Micro_FindCustom m name = None" "length (registrations m) < tOpCount"
    "m' = m\<lparr>registrations := registrations m @ [r\<lparr>builtin_code := BuiltinOperator_CUSTOM, custom_name := Some name\<rparr>]\<rparr>"
    using assms by (auto simp: Micro_AddCustom_def split: if_splits)
  have "Micro_FindCustom m' name' =
      ((Micro_FindCustom m)(name \<mapsto> r\<lparr>builtin_code := BuiltinOperator_CUSTOM, custom_name := Some name\<rparr>)) name'" for name'
    using ok(1,3) by (auto simp: Micro_FindCustom_def find_snoc split: option.splits)
  moreover have "Micro_FindOp m' op = Micro_FindOp m op" for op
    using ok(3) by (auto simp: Micro_FindOp_def find_snoc split: option.splits)
  moreover have "Micro_GetOpDataParser m' = Micro_GetOpDataParser m"
    using ok(3) by (simp add: Micro_GetOpDataParser_def fun_eq_iff)
  ultimately show ?thesis using ok True by (auto simp: fun_eq_iff)
next
  case False
  then show ?thesis using assms by (auto simp: Micro_AddCustom_def split: if_splits)
qed

lemma built_resolver_ok: "built_resolver tOpCount m \<Longrightarrow> parsers_registered m \<and> length (registrations m) \<le> tOpCount"
proof (induction rule: built_resolver.induct)
  case empty
  then show ?case
    by (simp add: parsers_registered_def MicroMutableOpResolver_def Micro_FindOp_def Micro_GetOpDataParser_def)
next
  case (builtin m op r parser st m')
  then have m: "parsers_registered m" by simp
  show ?case using AddBuiltin_lookups [OF builtin(2) m] builtin.IH by (auto simp: parsers_registered_def split: if_splits)
next
  case (custom m name r st m')
  then show ?case using AddCustom_lookups [OF custom(2)] by (auto simp: parsers_registered_def split: if_splits)
qed

section \<open>The contract\<close>

interpretation micro: resolver_by_code "\<lambda>m. micro_as_resolver (micro_resolver m)" "\<lambda>_. True"
  by unfold_locales
    (auto simp: micro_as_resolver_def micro_resolver_def Micro_FindOp_def Micro_FindCustom_def dest: find_holds split: if_splits)

section \<open>Properties\<close>

text \<open>
  C30: A resolver is a finite map with room for \<^verbatim>\<open>tOpCount\<close> entries: an addition succeeds exactly when there is room
  and the operator is new, it changes the lookup of that operator only, and each registered builtin operator has the
  parse function it was added with.
\<close>

theorem micro_resolver_refines_a_map:
  assumes "built_resolver tOpCount m" "Micro_AddBuiltin tOpCount op r parser m = (st, m')" "Micro_AddCustom tOpCount name r m = (st2, m2)"
  shows "length (registrations m) \<le> tOpCount
    \<and> (\<forall>op. (Micro_GetOpDataParser m op = None) = (Micro_FindOp m op = None))
    \<and> (if op \<noteq> BuiltinOperator_CUSTOM \<and> Micro_FindOp m op = None \<and> length (registrations m) < tOpCount
       then st = kTfLiteOk \<and> Micro_FindOp m' = (Micro_FindOp m)(op \<mapsto> r\<lparr>builtin_code := op\<rparr>)
         \<and> Micro_GetOpDataParser m' = (Micro_GetOpDataParser m)(op \<mapsto> parser) \<and> Micro_FindCustom m' = Micro_FindCustom m
       else st \<noteq> kTfLiteOk \<and> m' = m)
    \<and> (if Micro_FindCustom m name = None \<and> length (registrations m) < tOpCount
       then st2 = kTfLiteOk \<and> Micro_FindOp m2 = Micro_FindOp m \<and> Micro_GetOpDataParser m2 = Micro_GetOpDataParser m
         \<and> Micro_FindCustom m2 = (Micro_FindCustom m)(name \<mapsto> r\<lparr>builtin_code := BuiltinOperator_CUSTOM, custom_name := Some name\<rparr>)
       else st2 \<noteq> kTfLiteOk \<and> m2 = m)"
  using built_resolver_ok [OF assms(1)] AddBuiltin_lookups [OF assms(2)] AddCustom_lookups [OF assms(3)]
  by (auto simp: parsers_registered_def split: if_splits)

theorem micro_resolver_refines_a_map_witness:
  "\<exists>r m m'. Micro_AddBuiltin 2 6 r 1 m = (kTfLiteOk, m') \<and> Micro_FindOp m' 6 = Some (r\<lparr>builtin_code := 6\<rparr>)
    \<and> Micro_FindOp m' 0 \<noteq> None \<and> Micro_GetOpDataParser m' 0 = Some 0"
proof -
  let ?r = "\<lparr>op_init = NullOp, op_free = NullOp, op_prepare = Kernel 0, op_invoke = Kernel 0, builtin_code = 0, custom_name = None,
    op_version = 0\<rparr>"
  let ?m = "snd (Micro_AddBuiltin 2 0 ?r 0 MicroMutableOpResolver)"
  have m: "built_resolver 2 ?m" by (rule built_resolver.builtin [OF built_resolver.empty surjective_pairing])
  have start: "Micro_FindOp ?m 6 = None \<and> length (registrations ?m) < 2" "Micro_FindOp ?m 0 \<noteq> None" "Micro_GetOpDataParser ?m 0 = Some 0"
    by code_simp+
  obtain st m' where add: "Micro_AddBuiltin 2 6 ?r 1 ?m = (st, m')" by (cases "Micro_AddBuiltin 2 6 ?r 1 ?m")
  obtain st2 m2 where custom: "Micro_AddCustom 2 ''x'' ?r ?m = (st2, m2)" by (cases "Micro_AddCustom 2 ''x'' ?r ?m")
  from micro_resolver_refines_a_map [OF m add custom] start
  have "st = kTfLiteOk \<and> Micro_FindOp m' = (Micro_FindOp ?m)(6 \<mapsto> ?r\<lparr>builtin_code := 6\<rparr>)
      \<and> Micro_GetOpDataParser m' = (Micro_GetOpDataParser ?m)(6 \<mapsto> 1)" by simp
  then have "Micro_AddBuiltin 2 6 ?r 1 ?m = (kTfLiteOk, m') \<and> Micro_FindOp m' 6 = Some (?r\<lparr>builtin_code := 6\<rparr>)
    \<and> Micro_FindOp m' 0 \<noteq> None \<and> Micro_GetOpDataParser m' 0 = Some 0"
    using add start(2,3) by simp
  then show ?thesis by blast
qed

text \<open>A node is never given a registration for another operator than that of its operator code.\<close>

lemma micro_registration_carries_code:
  assumes "GetRegistrationFromOpCode code (micro_as_resolver (micro_resolver m)) = (kTfLiteOk, found)"
  shows "\<exists>r. found = Some r \<and> builtin_code r = GetBuiltinCode code
    \<and> (GetBuiltinCode code = BuiltinOperator_CUSTOM \<longrightarrow> custom_name r = fb_custom_code code)"
  using micro.registration_carries_code [OF TrueI assms] by blast

end
