(* ===== verification/Micro_Interpreter.thy ===== *)
theory Micro_Interpreter
  imports Micro_Setup
begin

text \<open>
  \<^verbatim>\<open>micro/micro_interpreter.{h,cc}\<close>: the interpreter of TensorFlow Lite Micro and the functions of the context
  through which a kernel reaches it.

  The arrays of nodes, tensors and scratch buffer handles live in the arena and are shared with the
  context; here they are parts of the state. Kernels are arguments: functions on the state, with the
  index of the node they are called for. \<^term>\<open>None\<close> is a call through a null pointer or an access outside
  an array. The bytes that tensors point to are the memory \<open>mi_memory\<close>. Profiling and messages are left out,
  and the machine is little-endian.
\<close>

section \<open>State\<close>

record micro_interpreter =
  mi_model :: fb_model
  mi_resolver :: micro_op_resolver
  mi_allocator :: micro_allocator
  tensors_allocated :: bool
  initialization_status :: tflite_status
  mi_subgraph :: "fb_subgraph option"
  node_and_registrations :: "node_and_registration list option"
  mi_eval_tensors :: "eval_tensor list option"
  scratch_buffer_handles :: "64 word option"
  scratch_addresses :: "nat \<rightharpoonup> 64 word"
  helper_eval_tensors :: bool
  helper_handles :: "64 word option"
  may_allocate_persistent :: bool
  may_request_scratch :: bool
  may_get_scratch :: bool
  context_tensors_size :: nat
  input_tensor :: "tensor option"
  output_tensor :: "tensor option"
  mi_memory :: "64 word \<Rightarrow> 8 word"

text \<open>
  What the kernels do. \<open>init_op k i\<close> is the function \<open>k\<close> called to initialise node \<open>i\<close>; it returns the user
  data. The others return a status.
\<close>

record micro_kernels =
  op_parser :: op_parsers
  init_op :: "nat \<Rightarrow> nat \<Rightarrow> micro_interpreter \<Rightarrow> (nat \<times> micro_interpreter) option"
  prepare_op :: "nat \<Rightarrow> nat \<Rightarrow> micro_interpreter \<Rightarrow> (tflite_status \<times> micro_interpreter) option"
  invoke_op :: "nat \<Rightarrow> nat \<Rightarrow> micro_interpreter \<Rightarrow> (tflite_status \<times> micro_interpreter) option"
  free_op :: "nat \<Rightarrow> nat \<Rightarrow> micro_interpreter \<Rightarrow> micro_interpreter option"

section \<open>The context of the kernels\<close>

text \<open>Each function is in the context only while it may be called; otherwise the pointer is null.\<close>

definition Context_AllocatePersistentBuffer ::
  "64 word \<Rightarrow> micro_interpreter \<Rightarrow> (64 word option \<times> micro_interpreter) option" where
  "Context_AllocatePersistentBuffer n I =
     (if \<not> may_allocate_persistent I then None
      else case AllocatePersistentBuffer n (mi_allocator I) of (p, M) \<Rightarrow> Some (p, I\<lparr>mi_allocator := M\<rparr>))"

definition Context_RequestScratchBufferInArena ::
  "64 word \<Rightarrow> micro_interpreter \<Rightarrow> (tflite_status \<times> int option \<times> micro_interpreter) option" where
  "Context_RequestScratchBufferInArena n I =
     (if \<not> may_request_scratch I then None
      else do {
        (st, buffer_idx, M) \<leftarrow> RequestScratchBufferInArena n (mi_allocator I);
        Some (st, buffer_idx, I\<lparr>mi_allocator := M\<rparr>) })"

definition Context_GetScratchBuffer :: "nat \<Rightarrow> micro_interpreter \<Rightarrow> 64 word option" where
  "Context_GetScratchBuffer buffer_idx I =
     (if \<not> may_get_scratch I \<or> helper_handles I = None then None else scratch_addresses I buffer_idx)"

definition Context_GetTensor :: "int \<Rightarrow> micro_interpreter \<Rightarrow> (tensor option \<times> micro_interpreter) option" where
  "Context_GetTensor tensor_idx I = do {
     (t, M) \<leftarrow> AllocateTempTfLiteTensor (mi_model I)
       (if helper_eval_tensors I then mi_eval_tensors I else None) tensor_idx (mi_allocator I);
     Some (t, I\<lparr>mi_allocator := M\<rparr>) }"

definition Context_GetEvalTensor :: "int \<Rightarrow> micro_interpreter \<Rightarrow> eval_tensor option" where
  "Context_GetEvalTensor tensor_idx I =
     (if helper_eval_tensors I then Option.bind (mi_eval_tensors I) (\<lambda>es. vec_at es tensor_idx) else None)"

section \<open>Construction\<close>

definition Micro_Init :: "micro_interpreter \<Rightarrow> micro_interpreter option" where
  "Micro_Init I = do {
     subgraphs \<leftarrow> fb_subgraphs (mi_model I);
     Some (if length subgraphs \<noteq> 1 then I\<lparr>initialization_status := kTfLiteError\<rparr>
           else I\<lparr>mi_subgraph := Some (subgraphs ! 0), initialization_status := kTfLiteOk\<rparr>) }"

definition MicroInterpreter_on ::
  "fb_model \<Rightarrow> micro_op_resolver \<Rightarrow> micro_allocator \<Rightarrow> (64 word \<Rightarrow> 8 word) \<Rightarrow> micro_interpreter option" where
  "MicroInterpreter_on model R M memory =
     Micro_Init \<lparr>mi_model = model, mi_resolver = R, mi_allocator = M, tensors_allocated = False,
       initialization_status = kTfLiteError, mi_subgraph = None, node_and_registrations = None,
       mi_eval_tensors = None, scratch_buffer_handles = None, scratch_addresses = Map.empty,
       helper_eval_tensors = False, helper_handles = None, may_allocate_persistent = False,
       may_request_scratch = False, may_get_scratch = False, context_tensors_size = 0, input_tensor = None,
       output_tensor = None, mi_memory = memory\<rparr>"

definition MicroInterpreter ::
  "fb_model \<Rightarrow> micro_op_resolver \<Rightarrow> 64 word \<Rightarrow> 64 word \<Rightarrow> (64 word \<Rightarrow> 8 word) \<Rightarrow> micro_interpreter option" where
  "MicroInterpreter model R tensor_arena tensor_arena_size memory =
     Option.bind (MicroAllocator_Create tensor_arena tensor_arena_size) (\<lambda>M. MicroInterpreter_on model R M memory)"

section \<open>Allocation\<close>

definition memset :: "64 word \<Rightarrow> 8 word \<Rightarrow> 64 word \<Rightarrow> (64 word \<Rightarrow> 8 word) \<Rightarrow> 64 word \<Rightarrow> 8 word" where
  "memset p v n memory = (\<lambda>a. if a - p < n then v else memory a)"

text \<open>The value of a variable tensor after a reset: its zero point if the type is \<^verbatim>\<open>int8\<close>.\<close>

definition reset_value :: "fb_tensor \<Rightarrow> 8 word option" where
  "reset_value t =
     (if fb_type t = TensorType_INT8
      then do {
        q \<leftarrow> fb_tensor_quantization t;
        zero_points \<leftarrow> fb_zero_point q;
        zero_point \<leftarrow> vec_at zero_points 0;
        Some (word_of_int zero_point) }
      else Some 0)"

definition reset_variable ::
  "fb_tensor list \<Rightarrow> nat \<Rightarrow> micro_interpreter \<Rightarrow> (tflite_status \<times> micro_interpreter) option" where
  "reset_variable ts i I = do {
     t \<leftarrow> vec_at ts (int i);
     if \<not> fb_is_variable t then Some (kTfLiteOk, I)
     else do {
       es \<leftarrow> mi_eval_tensors I;
       e \<leftarrow> vec_at es (int i);
       (case TfLiteEvalTensorByteLength e of
          None \<Rightarrow> Some (kTfLiteError, I)
        | Some buffer_size \<Rightarrow> do {
            v \<leftarrow> reset_value t;
            p \<leftarrow> eval_data e;
            Some (kTfLiteOk, I\<lparr>mi_memory := memset p v buffer_size (mi_memory I)\<rparr>) }) } }"

definition Micro_ResetVariableTensors :: "micro_interpreter \<Rightarrow> (tflite_status \<times> micro_interpreter) option" where
  "Micro_ResetVariableTensors I = do {
     subgraph \<leftarrow> mi_subgraph I;
     tensors \<leftarrow> fb_tensors subgraph;
     do_each_ok (reset_variable tensors) [0..<length tensors] I }"

text \<open>One call of each of the loops over the nodes; \<open>K\<close> holds the kernels.\<close>

definition node_registration :: "nat \<Rightarrow> micro_interpreter \<Rightarrow> registration option" where
  "node_registration i I = do {
     nodes \<leftarrow> node_and_registrations I;
     entry \<leftarrow> vec_at nodes (int i);
     nr_registration entry }"

definition set_user_data :: "nat \<Rightarrow> nat \<Rightarrow> micro_interpreter \<Rightarrow> micro_interpreter option" where
  "set_user_data i d I = do {
     nodes \<leftarrow> node_and_registrations I;
     entry \<leftarrow> vec_at nodes (int i);
     nodes \<leftarrow> vec_set nodes (int i) (entry\<lparr>nr_node := (nr_node entry)\<lparr>micro_user_data := d\<rparr>\<rparr>);
     Some (I\<lparr>node_and_registrations := Some nodes\<rparr>) }"

definition micro_init_node :: "micro_kernels \<Rightarrow> nat \<Rightarrow> micro_interpreter \<Rightarrow> micro_interpreter option" where
  "micro_init_node K i I = do {
     r \<leftarrow> node_registration i I;
     (case op_init r of
        Kernel k \<Rightarrow> do {
          (d, I) \<leftarrow> init_op K k i I;
          set_user_data i d I }
      | _ \<Rightarrow> Some I) }"

text \<open>The status of \<^verbatim>\<open>FinishPrepareNodeAllocations\<close> is not looked at.\<close>

definition micro_prepare_node ::
  "micro_kernels \<Rightarrow> nat \<Rightarrow> micro_interpreter \<Rightarrow> (tflite_status \<times> micro_interpreter) option" where
  "micro_prepare_node K i I = do {
     r \<leftarrow> node_registration i I;
     (st, I) \<leftarrow> (case op_prepare r of Kernel k \<Rightarrow> prepare_op K k i I | _ \<Rightarrow> Some (kTfLiteOk, I));
     if st \<noteq> kTfLiteOk then Some (kTfLiteError, I)
     else Some (kTfLiteOk, I\<lparr>mi_allocator := snd (FinishPrepareNodeAllocations (int i) (mi_allocator I))\<rparr>) }"

text \<open>The pointers that \<^verbatim>\<open>FinishModelAllocation\<close> writes to: before, and stored back.\<close>

definition pointers_of :: "micro_interpreter \<Rightarrow> pointers" where
  "pointers_of I loc = (case loc of
     TensorData t \<Rightarrow> (case mi_eval_tensors I of None \<Rightarrow> None | Some es \<Rightarrow> if t < length es then eval_data (es ! t) else None)
   | ScratchHandle s \<Rightarrow> scratch_addresses I s)"

definition store_pointers :: "pointers \<Rightarrow> micro_interpreter \<Rightarrow> micro_interpreter" where
  "store_pointers mem I =
     I\<lparr>mi_eval_tensors := map_option (\<lambda>es. map (\<lambda>(t, e). e\<lparr>eval_data := mem (TensorData t)\<rparr>) (List.enumerate 0 es))
         (mi_eval_tensors I),
       scratch_addresses := (\<lambda>s. mem (ScratchHandle s))\<rparr>"

definition finish_allocation ::
  "(nat \<Rightarrow> 32 word list option) \<Rightarrow> micro_interpreter \<Rightarrow> (tflite_status \<times> micro_interpreter) option" where
  "finish_allocation buffer_words I = do {
     es \<leftarrow> mi_eval_tensors I;
     (st, handles, M, mem) \<leftarrow> FinishModelAllocation (mi_model I) buffer_words es (scratch_buffer_handles I)
       (mi_allocator I) (pointers_of I);
     Some (st, (store_pointers mem I)\<lparr>scratch_buffer_handles := handles, mi_allocator := M\<rparr>) }"

text \<open>The kernels are initialised, then prepared, with what they may call in the context.\<close>

definition prepare_nodes ::
  "micro_kernels \<Rightarrow> nat \<Rightarrow> micro_interpreter \<Rightarrow> (tflite_status \<times> micro_interpreter) option" where
  "prepare_nodes K n I = do {
     I \<leftarrow> do_each (micro_init_node K) [0..<n]
            (I\<lparr>may_allocate_persistent := True, may_request_scratch := False, may_get_scratch := False\<rparr>);
     do_each_ok (micro_prepare_node K) [0..<n] (I\<lparr>may_request_scratch := True\<rparr>) }"

definition Micro_AllocateTensors ::
  "micro_kernels \<Rightarrow> (nat \<Rightarrow> 32 word list option) \<Rightarrow> micro_interpreter \<Rightarrow> (tflite_status \<times> micro_interpreter) option" where
  "Micro_AllocateTensors K buffer_words I = do {
     (st, nodes, es, M) \<leftarrow> StartModelAllocation (op_parser K) (mi_model I) (mi_resolver I) (node_and_registrations I)
        (mi_eval_tensors I) (mi_allocator I);
     let I = I\<lparr>node_and_registrations := nodes, mi_eval_tensors := es, mi_allocator := M\<rparr>;
     if st \<noteq> kTfLiteOk then Some (kTfLiteError, I\<lparr>initialization_status := kTfLiteError\<rparr>)
     else do {
       subgraph \<leftarrow> mi_subgraph I;
       tensors \<leftarrow> fb_tensors subgraph;
       operators \<leftarrow> fb_operators subgraph;
       (st, I) \<leftarrow> prepare_nodes K (length operators)
          (I\<lparr>helper_eval_tensors := True, context_tensors_size := length tensors\<rparr>);
       if st \<noteq> kTfLiteOk then Some (st, I)
       else do {
         (st, I) \<leftarrow> finish_allocation buffer_words
            (I\<lparr>may_allocate_persistent := False, may_request_scratch := False, may_get_scratch := True\<rparr>);
         if st \<noteq> kTfLiteOk then Some (st, I)
         else do {
           (st, I) \<leftarrow> Micro_ResetVariableTensors (I\<lparr>helper_handles := scratch_buffer_handles I\<rparr>);
           if st \<noteq> kTfLiteOk then Some (st, I)
           else Some (kTfLiteOk, I\<lparr>tensors_allocated := True\<rparr>) } } } }"

section \<open>Execution\<close>

definition reset_temp :: "micro_interpreter \<Rightarrow> micro_interpreter" where
  "reset_temp I = I\<lparr>mi_allocator := (mi_allocator I)\<lparr>memory_allocator := ResetTempAllocations (memory_allocator (mi_allocator I))\<rparr>\<rparr>"

definition micro_invoke_node ::
  "micro_kernels \<Rightarrow> nat \<Rightarrow> micro_interpreter \<Rightarrow> (tflite_status \<times> micro_interpreter) option" where
  "micro_invoke_node K i I = do {
     r \<leftarrow> node_registration i I;
     (case op_invoke r of
        Kernel k \<Rightarrow> do {
          (st, I) \<leftarrow> invoke_op K k i I;
          Some (st, reset_temp I) }
      | _ \<Rightarrow> Some (kTfLiteOk, I)) }"

definition Micro_Invoke ::
  "micro_kernels \<Rightarrow> (nat \<Rightarrow> 32 word list option) \<Rightarrow> micro_interpreter \<Rightarrow> (tflite_status \<times> micro_interpreter) option" where
  "Micro_Invoke K buffer_words I =
     (if initialization_status I \<noteq> kTfLiteOk then Some (kTfLiteError, I)
      else do {
        (st, I) \<leftarrow> (if tensors_allocated I then Some (kTfLiteOk, I) else Micro_AllocateTensors K buffer_words I);
        if st \<noteq> kTfLiteOk then Some (st, I)
        else do {
          subgraph \<leftarrow> mi_subgraph I;
          operators \<leftarrow> fb_operators subgraph;
          do_each_ok (micro_invoke_node K) [0..<length operators] I } })"

section \<open>Access to tensors\<close>

definition persistent_tensor :: "int \<Rightarrow> micro_interpreter \<Rightarrow> (tensor option \<times> micro_interpreter) option" where
  "persistent_tensor tensor_index I = do {
     (t, M) \<leftarrow> AllocatePersistentTfLiteTensor (mi_model I) (mi_eval_tensors I) tensor_index (mi_allocator I);
     Some (t, I\<lparr>mi_allocator := M\<rparr>) }"

definition Micro_input :: "nat \<Rightarrow> micro_interpreter \<Rightarrow> (tensor option \<times> micro_interpreter) option" where
  "Micro_input index I = do {
     subgraph \<leftarrow> mi_subgraph I;
     inputs \<leftarrow> fb_inputs subgraph;
     if index \<ge> length inputs then Some (None, I)
     else if index \<noteq> 0 then persistent_tensor (inputs ! index) I
     else (case input_tensor I of
        Some t \<Rightarrow> Some (Some t, I)
      | None \<Rightarrow> do {
          (t, I) \<leftarrow> persistent_tensor (inputs ! index) I;
          Some (t, I\<lparr>input_tensor := t\<rparr>) }) }"

definition Micro_output :: "nat \<Rightarrow> micro_interpreter \<Rightarrow> (tensor option \<times> micro_interpreter) option" where
  "Micro_output index I = do {
     subgraph \<leftarrow> mi_subgraph I;
     outputs \<leftarrow> fb_outputs subgraph;
     if index \<ge> length outputs then Some (None, I)
     else if index \<noteq> 0 then persistent_tensor (outputs ! index) I
     else (case output_tensor I of
        Some t \<Rightarrow> Some (Some t, I)
      | None \<Rightarrow> do {
          (t, I) \<leftarrow> persistent_tensor (outputs ! index) I;
          Some (t, I\<lparr>output_tensor := t\<rparr>) }) }"

definition Micro_tensor :: "nat \<Rightarrow> micro_interpreter \<Rightarrow> (tensor option \<times> micro_interpreter) option" where
  "Micro_tensor index I =
     (if index \<ge> context_tensors_size I then Some (None, I) else persistent_tensor (int index) I)"

text \<open>The destructor lets each kernel free its data.\<close>

definition micro_free_node :: "micro_kernels \<Rightarrow> nat \<Rightarrow> micro_interpreter \<Rightarrow> micro_interpreter option" where
  "micro_free_node K i I = do {
     nodes \<leftarrow> node_and_registrations I;
     entry \<leftarrow> vec_at nodes (int i);
     (case nr_registration entry of
        None \<Rightarrow> Some I
      | Some r \<Rightarrow> (case op_free r of Kernel k \<Rightarrow> free_op K k i I | _ \<Rightarrow> Some I)) }"

definition destroy_MicroInterpreter :: "micro_kernels \<Rightarrow> micro_interpreter \<Rightarrow> micro_interpreter option" where
  "destroy_MicroInterpreter K I =
     (if node_and_registrations I = None then Some I
      else do {
        subgraph \<leftarrow> mi_subgraph I;
        operators \<leftarrow> fb_operators subgraph;
        do_each (micro_free_node K) [0..<length operators] I })"

end
