(* ===== verification/Micro_Context.thy ===== *)
theory Micro_Context
  imports Micro_Interpreter
begin

text \<open>
  What kernels can do to an interpreter of TensorFlow Lite Micro: they reach it through the context
  only, as a process reaches an operating system through its calls. What no call changes, and the
  invariant of the arena that all of them keep.
\<close>

section \<open>Loops\<close>

lemma do_each_ok_invariant:
  "do_each_ok f xs s = Some (st, s') \<Longrightarrow> P s \<Longrightarrow>
   (\<And>x s st s'. x \<in> set xs \<Longrightarrow> P s \<Longrightarrow> f x s = Some (st, s') \<Longrightarrow> P s') \<Longrightarrow> P s'"
proof (induction xs arbitrary: s)
  case (Cons x xs)
  obtain st1 s1 where s1: "f x s = Some (st1, s1)"
    "if st1 \<noteq> kTfLiteOk then s' = s1 else do_each_ok f xs s1 = Some (st, s')"
    using Cons.prems(1) by (auto split: bind_splits if_splits)
  have "P s1" by (rule Cons.prems(3) [OF _ Cons.prems(2) s1(1)]) simp
  then show ?case
    using s1(2) Cons.IH [of s1] Cons.prems(3) by (cases "st1 = kTfLiteOk") auto
qed simp

section \<open>Calls of the context\<close>

inductive context_step :: "micro_interpreter \<Rightarrow> micro_interpreter \<Rightarrow> bool" where
  persistent: "context_step I J" if "Context_AllocatePersistentBuffer n I = Some (p, J)"
| scratch: "context_step I J" if "Context_RequestScratchBufferInArena n I = Some (st, k, J)"
| get_tensor: "context_step I J" if "Context_GetTensor t I = Some (r, J)"
| writing: "context_step I (I\<lparr>mi_memory := memory\<rparr>)"

inductive tail_step :: "simple_allocator \<Rightarrow> simple_allocator \<Rightarrow> bool" where
  "tail_step A B" if "AllocateFromTail sz a A = (p, B)"

text \<open>Kernels use the calls of the context and write to memory; parse functions allocate from the tail.\<close>

definition parsers_allocate :: "op_parsers \<Rightarrow> bool" where
  "parsers_allocate parsers \<longleftrightarrow> (\<forall>k op A st d B. parsers k op A = Some (st, d, B) \<longrightarrow> tail_step\<^sup>*\<^sup>* A B)"

definition kernels_use_the_context :: "micro_kernels \<Rightarrow> bool" where
  "kernels_use_the_context K \<longleftrightarrow>
     (\<forall>k i I d J. init_op K k i I = Some (d, J) \<longrightarrow> context_step\<^sup>*\<^sup>* I J)
     \<and> (\<forall>k i I st J. prepare_op K k i I = Some (st, J) \<longrightarrow> context_step\<^sup>*\<^sup>* I J)
     \<and> (\<forall>k i I st J. invoke_op K k i I = Some (st, J) \<longrightarrow> context_step\<^sup>*\<^sup>* I J)
     \<and> parsers_allocate (op_parser K)"

section \<open>The arena\<close>

text \<open>An arena that starts at \<open>h\<close>: the head ends before the tail begins.\<close>

definition arena_ok :: "64 word \<Rightarrow> micro_allocator \<Rightarrow> bool" where
  "arena_ok h M \<longleftrightarrow> buffer_head (memory_allocator M) = h \<and> unat h mod 16 = 0 \<and> h \<le> head_ptr (memory_allocator M)
     \<and> head_ptr (memory_allocator M) \<le> tail_ptr (memory_allocator M) \<and> max_head_buffer_usage M < 2 ^ 64"

text \<open>What every call on the allocator keeps.\<close>

definition allocator_kept :: "micro_allocator \<Rightarrow> micro_allocator \<Rightarrow> bool" where
  "allocator_kept M N \<longleftrightarrow> model_is_allocating N = model_is_allocating M \<and> (\<forall>h. arena_ok h M \<longrightarrow> arena_ok h N)"

named_theorems kept

lemma allocator_kept_refl [kept]: "allocator_kept M M"
  by (simp add: allocator_kept_def)

lemma allocator_kept_trans: "allocator_kept M N \<Longrightarrow> allocator_kept N P \<Longrightarrow> allocator_kept M P"
  by (simp add: allocator_kept_def)

lemma tail_kept [kept]:
  "AllocateFromTail sz a (memory_allocator M) = (p, A) \<Longrightarrow> allocator_kept M (M\<lparr>memory_allocator := A\<rparr>)"
  by (auto simp: allocator_kept_def arena_ok_def AllocateFromTail_def Let_def not_less split: if_splits)

lemma temp_kept [kept]:
  "AllocateTemp sz a (memory_allocator M) = (p, A) \<Longrightarrow> allocator_kept M (M\<lparr>memory_allocator := A\<rparr>)"
  by (auto simp: allocator_kept_def arena_ok_def AllocateTemp_def Let_def split: if_splits)

lemma reset_kept [kept]: "allocator_kept M (M\<lparr>memory_allocator := ResetTempAllocations (memory_allocator M)\<rparr>)"
  by (simp add: allocator_kept_def arena_ok_def ResetTempAllocations_def)

lemma requests_kept [kept]: "allocator_kept M (M\<lparr>scratch_requests := rs\<rparr>)"
  by (simp add: allocator_kept_def arena_ok_def)

lemma max_usage_kept [kept]: "n < 2 ^ 64 \<Longrightarrow> allocator_kept M (M\<lparr>max_head_buffer_usage := n\<rparr>)"
  by (simp add: allocator_kept_def arena_ok_def)

lemma head_kept [kept]:
  assumes "SetHeadBufferSize sz a (memory_allocator M) = (st, A)" "a \<noteq> 0" "unat a dvd 16"
  shows "allocator_kept M (M\<lparr>memory_allocator := A\<rparr>)"
proof (cases "st = kTfLiteOk")
  case True
  have "(16 :: nat) dvd 2 ^ 64" by simp
  then have dvd: "unat a dvd 2 ^ 64" using assms(3) by (rule dvd_trans [rotated])
  have "arena_ok h (M\<lparr>memory_allocator := A\<rparr>)" if ok: "arena_ok h M" for h
  proof -
    have "16 dvd unat h" using ok by (simp add: arena_ok_def mod_eq_0_iff_dvd)
    then have "unat a dvd unat (buffer_head (memory_allocator M))"
      using ok assms(3) by (auto simp: arena_ok_def intro: dvd_trans)
    then show ?thesis
      using SetHeadBufferSize_from_start [OF assms(1) [unfolded True] assms(2) dvd] ok
      by (auto simp: arena_ok_def word_le_nat_alt)
  qed
  moreover have "model_is_allocating (M\<lparr>memory_allocator := A\<rparr>) = model_is_allocating M" by simp
  ultimately show ?thesis by (simp add: allocator_kept_def)
next
  case False
  then have "A = memory_allocator M" using assms(1) by (auto simp: SetHeadBufferSize_def Let_def split: if_splits)
  then show ?thesis by (simp add: kept)
qed

lemma tail_steps_kept:
  "tail_step\<^sup>*\<^sup>* (memory_allocator M) A \<Longrightarrow> allocator_kept M (M\<lparr>memory_allocator := A\<rparr>)"
proof (induction rule: rtranclp_induct)
  case base
  then show ?case by (simp add: kept)
next
  case (step A B)
  from step(2) obtain sz a p where "AllocateFromTail sz a A = (p, B)" by (auto elim: tail_step.cases)
  then have "allocator_kept (M\<lparr>memory_allocator := A\<rparr>) (M\<lparr>memory_allocator := B\<rparr>)"
    using tail_kept [of sz a "M\<lparr>memory_allocator := A\<rparr>"] by simp
  with step(3) show ?case by (rule allocator_kept_trans)
qed

lemma AllocatePersistentBuffer_kept [kept]: "AllocatePersistentBuffer n M = (p, N) \<Longrightarrow> allocator_kept M N"
  by (auto simp: AllocatePersistentBuffer_def intro: kept split: prod.splits)

lemma RequestScratchBufferInArena_kept [kept]:
  "RequestScratchBufferInArena n M = Some (st, k, N) \<Longrightarrow> allocator_kept M N"
  by (auto simp: RequestScratchBufferInArena_def Let_def simp del: One_nat_def
      intro: requests_kept allocator_kept_refl split: if_splits)

lemma FinishPrepareNodeAllocations_kept [kept]: "allocator_kept M (snd (FinishPrepareNodeAllocations i M))"
proof -
  let ?rs = "map (\<lambda>r. if request_node_idx r = -1 then r\<lparr>request_node_idx := i\<rparr> else r) (scratch_requests M)"
  let ?M = "M\<lparr>memory_allocator := ResetTempAllocations (memory_allocator M)\<rparr>"
  define n :: "64 word" where "n = 16 * (of_nat (length ?rs) + of_nat kMaxScratchBuffersPerOp)"
  obtain st A where A: "SetHeadBufferSize n 8 (ResetTempAllocations (memory_allocator M)) = (st, A)" by (metis surj_pair)
  have "SetHeadBufferSize n 8 (memory_allocator ?M) = (st, A)" by (simp add: A)
  then have "allocator_kept ?M (?M\<lparr>memory_allocator := A\<rparr>)" by (rule head_kept) simp_all
  from allocator_kept_trans [OF reset_kept this]
  have "allocator_kept M (M\<lparr>memory_allocator := A\<rparr>)" by simp
  from allocator_kept_trans [OF this requests_kept [of _ ?rs]]
  show ?thesis using A by (simp add: FinishPrepareNodeAllocations_def Let_def n_def)
qed

section \<open>Tensors for kernels\<close>

lemma allocate_kept:
  "(if temp then AllocateTemp else AllocateFromTail) sz a (memory_allocator M) = (p, A) \<Longrightarrow>
   allocator_kept M (M\<lparr>memory_allocator := A\<rparr>)"
  by (cases temp) (auto intro: kept)

lemma copy_quantization_kept:
  assumes "copy_quantization temp src scale zs r A = Some (st, r', B)"
  shows "allocator_kept (M\<lparr>memory_allocator := A\<rparr>) (M\<lparr>memory_allocator := B\<rparr>)"
proof -
  let ?alloc = "if temp then AllocateTemp else AllocateFromTail"
  obtain p A1 where A1: "?alloc 24 8 A = (p, A1)" by (metis surj_pair)
  obtain q A2 where A2: "?alloc (4 + 4 * of_nat (length scale)) 4 A1 = (q, A2)" by (metis surj_pair)
  have 1: "allocator_kept (M\<lparr>memory_allocator := A\<rparr>) (M\<lparr>memory_allocator := A1\<rparr>)"
    using allocate_kept [of temp 24 8 "M\<lparr>memory_allocator := A\<rparr>"] A1 by simp
  have 2: "allocator_kept (M\<lparr>memory_allocator := A1\<rparr>) (M\<lparr>memory_allocator := A2\<rparr>)"
    using allocate_kept [of temp _ 4 "M\<lparr>memory_allocator := A1\<rparr>"] A2 by simp
  have "B = A1 \<or> B = A2"
    using assms A1 A2 by (auto simp: copy_quantization_def Let_def split: option.splits if_splits)
  then show ?thesis using 1 allocator_kept_trans [OF 1 2] by auto
qed

lemma InitializeTfLiteTensorFromFlatbuffer_kept:
  "InitializeTfLiteTensorFromFlatbuffer temp t buffers A = Some (st, r, B) \<Longrightarrow>
   allocator_kept (M\<lparr>memory_allocator := A\<rparr>) (M\<lparr>memory_allocator := B\<rparr>)"
  by (auto simp: InitializeTfLiteTensorFromFlatbuffer_def Let_def intro: kept copy_quantization_kept
      split: prod.splits bind_splits if_splits option.splits)

lemma make_tensor_kept [kept]:
  assumes "make_tensor temp model es k M = Some (r, N)"
  shows "allocator_kept M N"
proof -
  obtain p A t st r' B where A: "(if temp then AllocateTemp else AllocateFromTail) 64 8 (memory_allocator M) = (Some p, A)"
    "InitializeTfLiteTensorFromFlatbuffer temp t (fb_buffers model) A = Some (st, r', B)" "N = M\<lparr>memory_allocator := B\<rparr>"
    using assms by (auto simp: make_tensor_def split: bind_splits prod.splits option.splits if_splits)
  show ?thesis
    using allocator_kept_trans [OF allocate_kept [OF A(1)] InitializeTfLiteTensorFromFlatbuffer_kept [OF A(2)]] A(3) by simp
qed

section \<open>What a kernel leaves alone\<close>

text \<open>Everything but the allocator and the memory stays.\<close>

definition setup_kept :: "micro_interpreter \<Rightarrow> micro_interpreter \<Rightarrow> bool" where
  "setup_kept I J \<longleftrightarrow> J = I\<lparr>mi_allocator := mi_allocator J, mi_memory := mi_memory J\<rparr>
     \<and> allocator_kept (mi_allocator I) (mi_allocator J)"

lemma setup_kept_refl [simp]: "setup_kept I I"
  by (simp add: setup_kept_def kept)

lemma setup_kept_trans: "setup_kept I J \<Longrightarrow> setup_kept J K \<Longrightarrow> setup_kept I K"
proof (unfold setup_kept_def, elim conjE, intro conjI)
  assume J: "J = I\<lparr>mi_allocator := mi_allocator J, mi_memory := mi_memory J\<rparr>"
    and K: "K = J\<lparr>mi_allocator := mi_allocator K, mi_memory := mi_memory K\<rparr>"
  show "K = I\<lparr>mi_allocator := mi_allocator K, mi_memory := mi_memory K\<rparr>"
    by (subst K, subst J) simp
qed (rule allocator_kept_trans)

lemma context_step_kept: "context_step I J \<Longrightarrow> setup_kept I J"
  by (induction rule: context_step.induct)
    (auto simp: setup_kept_def Context_AllocatePersistentBuffer_def Context_RequestScratchBufferInArena_def
      Context_GetTensor_def AllocateTempTfLiteTensor_def intro: kept split: if_splits prod.splits bind_splits)

lemma context_steps_kept: "context_step\<^sup>*\<^sup>* I J \<Longrightarrow> setup_kept I J"
  by (induction rule: rtranclp_induct) (auto intro: setup_kept_trans context_step_kept)

section \<open>Setting up a model\<close>

lemma operator_data_kept:
  "operator_data parsers R op r A = Some (st, d, B) \<Longrightarrow>
   parsers_allocate parsers \<Longrightarrow> tail_step\<^sup>*\<^sup>* A B"
  by (auto simp: operator_data_def parsers_allocate_def split: if_splits option.splits bind_splits)

lemma prepare_node_kept:
  assumes "prepare_node parsers R opcodes x (nodes, M) = Some (st, nodes', N)"
    "parsers_allocate parsers"
  shows "allocator_kept M N"
proof -
  have "N = M \<or> (\<exists>A. tail_step\<^sup>*\<^sup>* (memory_allocator M) A \<and> N = M\<lparr>memory_allocator := A\<rparr>)"
    using assms(1)
    by (auto simp: prepare_node_def Let_def split: prod.splits if_splits option.splits bind_splits
        dest: operator_data_kept [OF _ assms(2)])
  then show ?thesis using tail_steps_kept kept by blast
qed

lemma StartModelAllocation_kept:
  assumes "StartModelAllocation parsers model R nodes es M = Some (st, nodes', es', N)" "\<not> model_is_allocating M"
    "parsers_allocate parsers"
  shows "allocator_kept (M\<lparr>model_is_allocating := True\<rparr>) N"
proof -
  let ?M = "M\<lparr>model_is_allocating := True\<rparr>"
  obtain st1 M1 where M1: "InitScratchBufferData ?M = (st1, M1)" by (metis surj_pair)
  have 1: "allocator_kept ?M M1"
  proof -
    obtain A where A: "SetHeadBufferSize (16 * of_nat kMaxScratchBuffersPerOp) 8 (memory_allocator ?M) = (st1, A)"
      "M1 = ?M\<lparr>memory_allocator := A, scratch_requests := []\<rparr>"
      using M1 by (auto simp: InitScratchBufferData_def split: prod.splits)
    have "allocator_kept ?M (?M\<lparr>memory_allocator := A\<rparr>)" by (rule head_kept [OF A(1)]) simp_all
    from allocator_kept_trans [OF this requests_kept [of _ "[]"]] show ?thesis using A(2) by simp
  qed
  have eval: "allocator_kept M1 M2" if "AllocateTfLiteEvalTensors model es M1 = Some (st2, es2, M2)" for st2 es2 M2
    using that by (auto simp: AllocateTfLiteEvalTensors_def intro: kept split: bind_splits prod.splits option.splits if_splits)
  have nodes: "allocator_kept M2 M3" if "AllocateNodeAndRegistrations model nodes M2 = Some (st3, n3, M3)" for st3 n3 M2 M3
    using that by (auto simp: AllocateNodeAndRegistrations_def intro: kept split: bind_splits prod.splits option.splits)
  have prep: "allocator_kept M3 M4"
    if "PrepareNodeAndRegistrationDataFromFlatbuffer parsers model R n M3 = Some (st4, n4, M4)" for st4 n n4 M3 M4
  proof -
    have "allocator_kept M3 (snd (n4, M4))"
      if run: "do_each_ok (prepare_node parsers R opcodes) xs (n, M3) = Some (st4, n4, M4)" for opcodes xs
      by (rule do_each_ok_invariant [OF run, where P = "\<lambda>s. allocator_kept M3 (snd s)"])
        (auto intro: kept allocator_kept_trans [OF _ prepare_node_kept [OF _ assms(3)]])
    then show ?thesis
      using that by (auto simp: PrepareNodeAndRegistrationDataFromFlatbuffer_def intro: kept split: bind_splits if_splits)
  qed
  show ?thesis
    using assms(1,2) M1 1 allocator_kept_trans [OF 1 eval]
      allocator_kept_trans [OF allocator_kept_trans [OF 1 eval] nodes]
      allocator_kept_trans [OF allocator_kept_trans [OF allocator_kept_trans [OF 1 eval] nodes] prep]
    by (auto simp: StartModelAllocation_def split: bind_splits if_splits)
qed

section \<open>The loops over the nodes\<close>

text \<open>A node up to the user data, which the kernels keep.\<close>

definition erase_user :: "node_and_registration \<Rightarrow> node_and_registration" where
  "erase_user e = e\<lparr>nr_node := (nr_node e)\<lparr>micro_user_data := 0\<rparr>\<rparr>"

abbreviation erased :: "node_and_registration list option \<Rightarrow> node_and_registration list option" where
  "erased ns \<equiv> map_option (map erase_user) ns"

definition stage_kept :: "micro_interpreter \<Rightarrow> micro_interpreter \<Rightarrow> bool" where
  "stage_kept I J \<longleftrightarrow> J = I\<lparr>mi_allocator := mi_allocator J, node_and_registrations := node_and_registrations J,
       may_allocate_persistent := may_allocate_persistent J, may_request_scratch := may_request_scratch J,
       may_get_scratch := may_get_scratch J, mi_memory := mi_memory J\<rparr>
     \<and> erased (node_and_registrations J) = erased (node_and_registrations I)
     \<and> allocator_kept (mi_allocator I) (mi_allocator J)"

lemma stage_kept_refl [simp]: "stage_kept I I"
  by (simp add: stage_kept_def kept)

lemma stage_kept_trans: "stage_kept I J \<Longrightarrow> stage_kept J K \<Longrightarrow> stage_kept I K"
proof (unfold stage_kept_def, elim conjE, intro conjI)
  assume J: "J = I\<lparr>mi_allocator := mi_allocator J, node_and_registrations := node_and_registrations J,
      may_allocate_persistent := may_allocate_persistent J, may_request_scratch := may_request_scratch J,
      may_get_scratch := may_get_scratch J, mi_memory := mi_memory J\<rparr>"
    and K: "K = J\<lparr>mi_allocator := mi_allocator K, node_and_registrations := node_and_registrations K,
      may_allocate_persistent := may_allocate_persistent K, may_request_scratch := may_request_scratch K,
      may_get_scratch := may_get_scratch K, mi_memory := mi_memory K\<rparr>"
  show "K = I\<lparr>mi_allocator := mi_allocator K, node_and_registrations := node_and_registrations K,
      may_allocate_persistent := may_allocate_persistent K, may_request_scratch := may_request_scratch K,
      may_get_scratch := may_get_scratch K, mi_memory := mi_memory K\<rparr>"
    by (subst K, subst J) simp
qed (auto elim: allocator_kept_trans)

lemma setup_keptE:
  assumes "setup_kept I J"
  obtains M memory where "J = I\<lparr>mi_allocator := M, mi_memory := memory\<rparr>" "allocator_kept (mi_allocator I) M"
  using assms unfolding setup_kept_def by blast

lemma setup_kept_stage: "setup_kept I J \<Longrightarrow> stage_kept I J"
  by (erule setup_keptE) (simp add: stage_kept_def)

lemma may_kept: "stage_kept I (I\<lparr>may_allocate_persistent := a, may_request_scratch := b, may_get_scratch := c\<rparr>)"
  "stage_kept I (I\<lparr>may_request_scratch := b\<rparr>)"
  by (simp_all add: stage_kept_def kept)

lemma allocator_stage: "allocator_kept (mi_allocator I) M \<Longrightarrow> stage_kept I (I\<lparr>mi_allocator := M\<rparr>)"
  by (simp add: stage_kept_def)

lemma erase_user_data:
  "map erase_user (ns[i := (ns ! i)\<lparr>nr_node := (nr_node (ns ! i))\<lparr>micro_user_data := d\<rparr>\<rparr>]) = map erase_user ns"
proof -
  have "erase_user ((ns ! i)\<lparr>nr_node := (nr_node (ns ! i))\<lparr>micro_user_data := d\<rparr>\<rparr>) = erase_user (ns ! i)"
    by (simp add: erase_user_def)
  then show ?thesis by (metis list_update_id map_update)
qed

lemma set_user_data_kept: "set_user_data i d I = Some J \<Longrightarrow> stage_kept I J"
  by (auto simp: set_user_data_def stage_kept_def kept erase_user_data vec split: bind_splits)

lemma kernels_keep:
  assumes "kernels_use_the_context K"
  shows "init_op K k i I = Some (d, J) \<Longrightarrow> setup_kept I J" "prepare_op K k i I = Some (st, J) \<Longrightarrow> setup_kept I J"
    "invoke_op K k i I = Some (st, J) \<Longrightarrow> setup_kept I J" "parsers_allocate (op_parser K)"
  using assms context_steps_kept unfolding kernels_use_the_context_def by blast+

lemma micro_init_node_kept:
  "micro_init_node K i I = Some J \<Longrightarrow> kernels_use_the_context K \<Longrightarrow> stage_kept I J"
  by (auto simp: micro_init_node_def split: bind_splits op_function.splits
      intro: stage_kept_trans [OF setup_kept_stage [OF kernels_keep(1)] set_user_data_kept])

lemma micro_prepare_node_kept:
  assumes "micro_prepare_node K i I = Some (st, J)" "kernels_use_the_context K"
  shows "stage_kept I J"
proof -
  obtain r where r: "node_registration i I = Some r" using assms(1) by (auto simp: micro_prepare_node_def split: bind_splits)
  obtain st1 J1 where J1: "(case op_prepare r of Kernel k \<Rightarrow> prepare_op K k i I | _ \<Rightarrow> Some (kTfLiteOk, I)) = Some (st1, J1)"
    using assms(1) r by (auto simp: micro_prepare_node_def split: bind_splits)
  have J: "J = J1 \<or> J = J1\<lparr>mi_allocator := snd (FinishPrepareNodeAllocations (int i) (mi_allocator J1))\<rparr>"
    using assms(1) r J1 by (auto simp: micro_prepare_node_def split: if_splits)
  have 1: "stage_kept I J1"
    using J1 by (auto intro: setup_kept_stage kernels_keep(2) [OF assms(2)] split: op_function.splits)
  show ?thesis
    using J 1 stage_kept_trans [OF 1 allocator_stage [OF FinishPrepareNodeAllocations_kept]] by auto
qed

lemma prepare_nodes_kept:
  assumes "prepare_nodes K n I = Some (st, J)" "kernels_use_the_context K"
  shows "stage_kept I J"
proof -
  obtain I1 where I1: "do_each (micro_init_node K) [0..<n]
      (I\<lparr>may_allocate_persistent := True, may_request_scratch := False, may_get_scratch := False\<rparr>) = Some I1"
    "do_each_ok (micro_prepare_node K) [0..<n] (I1\<lparr>may_request_scratch := True\<rparr>) = Some (st, J)"
    using assms(1) by (auto simp: prepare_nodes_def split: bind_splits)
  have "stage_kept I I1"
    by (rule do_each_invariant [OF I1(1), where P = "stage_kept I"])
      (auto intro: may_kept stage_kept_trans [OF _ micro_init_node_kept [OF _ assms(2)]])
  then have "stage_kept I (I1\<lparr>may_request_scratch := True\<rparr>)" by (rule stage_kept_trans) (rule may_kept)
  then show ?thesis
    by (rule do_each_ok_invariant [OF I1(2)])
      (auto intro: stage_kept_trans [OF _ micro_prepare_node_kept [OF _ assms(2)]])
qed

section \<open>The end of an allocation\<close>

lemma commit_infos_planned:
  assumes "do_each_ok (commit_info handles start) cs (k, q, mem) = Some (st, k', q', mem')" "planned_from p q"
  shows "planned_from p q'"
proof -
  have step: "planned_from p q2" if "planned_from p q1" "commit_info handles start c (k1, q1, m1) = Some (st2, k2, q2, m2)"
    for c k1 q1 m1 st2 k2 q2 m2
  proof -
    have "wf_planner q1" using that(1) by (simp add: planned_from_def)
    from GetOffsetForBuffer_planned [OF this, of "int k1"] obtain st3 x q3 where
      "GetOffsetForBuffer (int k1) q1 = Some (st3, x, q3)" "planned_from q1 q3" by blast
    then show ?thesis
      using that planned_from_trans [OF that(1)] by (auto simp: commit_info_def split: if_splits bind_splits)
  qed
  show ?thesis
    using do_each_ok_invariant [OF assms(1), where P = "\<lambda>s. planned_from p (fst (snd s))"] assms(2) step by fastforce
qed

text \<open>The head never uses more than there is room for.\<close>

lemma plan_and_commit_usage:
  assumes "plan_and_commit infos handles M mem = Some (st, N, mem')" "max_head_buffer_usage M < 2 ^ 64"
  shows "max_head_buffer_usage N < 2 ^ 64"
proof (rule ccontr)
  let ?A = "memory_allocator M"
  assume large: "\<not> max_head_buffer_usage N < 2 ^ 64"
  obtain t T where T: "AllocateTemp (GetAvailableMemory 16 ?A) 16 ?A = (t, T)" by (metis surj_pair)
  obtain p n q1 q2 n' q3 where s:
    "CreatePlan infos (GreedyMemoryPlanner (unat (GetAvailableMemory 16 ?A))) = Some (kTfLiteOk, p)"
    "GetMaximumMemorySize p = Some (n, q1)" "n \<le> unat (GetAvailableMemory 16 (ResetTempAllocations T))"
    "CommitPlan handles q1 (GetHeadBuffer (ResetTempAllocations T)) infos mem = Some (kTfLiteOk, q2, mem')"
    "GetMaximumMemorySize q2 = Some (n', q3)" "max_head_buffer_usage N = n'"
    using assms large T
    by (auto simp: plan_and_commit_def Let_def not_less split: bind_splits if_splits option.splits prod.splits)
  have wf: "wf_planner p" using CreatePlan_adds [OF s(1) holds_requests_new] by (simp add: holds_requests_def)
  have q1: "planned_from p q1" "n = memory_size p" using GetMaximumMemorySize_returns [OF wf] s(2) by auto
  have "planned_from p q2"
    using s(4) commit_infos_planned [OF _ q1(1)] by (auto simp: CommitPlan_def split: bind_splits)
  moreover from this have "n' = memory_size q2" using GetMaximumMemorySize_returns [of q2] s(5) by (auto simp: planned_from_def)
  ultimately have "n' = n" using q1(2) planned_from_plan [of p q2] by (simp add: memory_size_def planned_from_def)
  then show False using s(3,6) large assms(2) unat_bound by (metis le_less_trans)
qed

lemma plan_and_commit_kept:
  assumes "plan_and_commit infos handles M mem = Some (st, N, mem')"
  shows "allocator_kept M N"
proof -
  let ?A = "memory_allocator M"
  obtain p T where T: "AllocateTemp (GetAvailableMemory 16 ?A) 16 ?A = (p, T)" by (metis surj_pair)
  let ?T = "M\<lparr>memory_allocator := T\<rparr>" and ?R = "ResetTempAllocations T"
  have 1: "allocator_kept M ?T" using T by (rule temp_kept)
  have 2: "allocator_kept M (M\<lparr>memory_allocator := ?R\<rparr>)" using allocator_kept_trans [OF 1 reset_kept] by simp
  consider "N = ?T" | "N = M\<lparr>memory_allocator := ?R\<rparr>"
    | usage st2 A where "SetHeadBufferSize (of_nat usage) 16 ?R = (st2, A)"
        "N = M\<lparr>memory_allocator := A, max_head_buffer_usage := usage\<rparr>"
    using assms T by (auto simp: plan_and_commit_def Let_def split: bind_splits if_splits option.splits prod.splits)
  then show ?thesis
  proof cases
    case 3
    have A: "SetHeadBufferSize (of_nat usage) 16 (memory_allocator (M\<lparr>memory_allocator := ?R\<rparr>)) = (st2, A)" using 3(1) by simp
    have "allocator_kept (M\<lparr>memory_allocator := ?R\<rparr>) (M\<lparr>memory_allocator := A\<rparr>)" using head_kept [OF A] by simp
    from allocator_kept_trans [OF 2 this] have 4: "allocator_kept M (M\<lparr>memory_allocator := A\<rparr>)" .
    have "max_head_buffer_usage M < 2 ^ 64 \<Longrightarrow> usage < 2 ^ 64"
      using plan_and_commit_usage [OF assms] 3(2) by simp
    then show ?thesis using 4 3(2) by (auto simp: allocator_kept_def arena_ok_def)
  qed (use 1 2 in simp_all)
qed

lemma CommitStaticMemoryPlan_kept:
  assumes "CommitStaticMemoryPlan sub md words es handles M mem = Some (st, N, mem')"
  shows "allocator_kept M N"
proof -
  obtain tensors where tensors: "fb_tensors sub = Some tensors"
    using assms by (auto simp: CommitStaticMemoryPlan_def split: bind_splits)
  obtain p A where A: "AllocateTemp (32 * of_nat (length tensors + length (scratch_requests M))) 8 (memory_allocator M) = (p, A)"
    by (metis surj_pair)
  have 1: "allocator_kept M (M\<lparr>memory_allocator := A\<rparr>)" by (rule temp_kept [OF A])
  show ?thesis
    using assms tensors A 1 allocator_kept_trans [OF 1 plan_and_commit_kept]
    by (auto simp: CommitStaticMemoryPlan_def split: bind_splits if_splits option.splits)
qed

lemma AllocateVariables_kept:
  assumes "AllocateVariables sub es (M, mem) = Some (st, N, mem')"
  shows "allocator_kept M N"
proof -
  obtain ts where run: "do_each_ok (allocate_variable ts es) [0..<length ts] (M, mem) = Some (st, N, mem')"
    using assms by (auto simp: AllocateVariables_def split: bind_splits)
  have "allocator_kept M2 M3" if "allocate_variable ts es i (M2, m2) = Some (st3, M3, m3)" for i M2 m2 st3 M3 m3
    using that by (auto simp: allocate_variable_def intro: kept split: bind_splits if_splits option.splits prod.splits)
  then have "allocator_kept M (fst (N, mem'))"
    by (intro do_each_ok_invariant [OF run, where P = "\<lambda>s. allocator_kept M (fst s)"])
      (auto intro: allocator_kept_refl allocator_kept_trans)
  then show ?thesis by simp
qed

lemma handles_kept:
  "AllocateScratchBufferHandles n handles M = (st, handles', N) \<Longrightarrow> allocator_kept M N \<and> st = kTfLiteOk"
  by (auto simp: AllocateScratchBufferHandles_def intro: kept split: if_splits prod.splits)

text \<open>Only when everything went well, the model is no longer being allocated.\<close>

lemma FinishModelAllocation_kept:
  assumes "FinishModelAllocation model words es handles M mem = Some (st, handles', N, mem')"
  shows "if st = kTfLiteOk then model_is_allocating M \<and> allocator_kept (M\<lparr>model_is_allocating := False\<rparr>) N else allocator_kept M N"
proof (cases "model_is_allocating M")
  case True
  obtain st1 h1 M1 where M1: "AllocateScratchBufferHandles (length (scratch_requests M)) handles M = (st1, h1, M1)"
    by (metis prod_cases3)
  note 1 = handles_kept [OF M1]
  obtain sub where sub: "GetSubGraphFromModel model = Some sub"
    using assms True by (auto simp: FinishModelAllocation_def split: bind_splits)
  obtain st2 M2 m2 where M2: "CommitStaticMemoryPlan sub (fb_metadata model) words es h1 M1 mem = Some (st2, M2, m2)"
    using assms True sub M1 1 by (auto simp: FinishModelAllocation_def split: bind_splits)
  have 2: "allocator_kept M M2" using 1 CommitStaticMemoryPlan_kept [OF M2] allocator_kept_trans by blast
  show ?thesis
  proof (cases "st2 = kTfLiteOk")
    case False
    then show ?thesis using assms True sub M1 1 M2 2 by (auto simp: FinishModelAllocation_def)
  next
    case ok: True
    obtain M3 where M3: "AllocateVariables sub es (M2, m2) = Some (st, M3, mem')"
      "N = (if st = kTfLiteOk then M3\<lparr>model_is_allocating := False\<rparr> else M3)"
      using assms True sub M1 1 M2 ok by (auto simp: FinishModelAllocation_def split: bind_splits if_splits)
    have "allocator_kept M M3" using 2 AllocateVariables_kept [OF M3(1)] allocator_kept_trans by blast
    then show ?thesis using M3(2) True by (auto simp: allocator_kept_def arena_ok_def)
  qed
next
  case False
  then show ?thesis using assms by (auto simp: FinishModelAllocation_def kept)
qed

end
