(* ===== verification/Micro_Run.thy ===== *)
theory Micro_Run
  imports Micro_Context
begin

text \<open>
  Runs of an interpreter of TensorFlow Lite Micro: what an allocation that failed leaves behind, what one
  that went well has set up, and what every call of a client keeps.
\<close>

section \<open>Loops\<close>

lemma do_each_ok_failed:
  "do_each_ok f xs s = Some (st, s') \<Longrightarrow> st \<noteq> kTfLiteOk \<Longrightarrow> P s \<Longrightarrow>
   (\<And>x s s'. x \<in> set xs \<Longrightarrow> P s \<Longrightarrow> f x s = Some (kTfLiteOk, s') \<Longrightarrow> P s') \<Longrightarrow>
   \<exists>x\<in>set xs. \<exists>s0. P s0 \<and> f x s0 = Some (st, s')"
proof (induction xs arbitrary: s)
  case (Cons x xs)
  obtain st1 s1 where s1: "f x s = Some (st1, s1)"
    "if st1 \<noteq> kTfLiteOk then st = st1 \<and> s' = s1 else do_each_ok f xs s1 = Some (st, s')"
    using Cons.prems(1) by (auto split: bind_splits if_splits)
  show ?case
  proof (cases "st1 = kTfLiteOk")
    case True
    then have "P s1" using Cons.prems(3,4) s1(1) by auto
    then show ?thesis using True s1(2) Cons.IH [of s1] Cons.prems(2,4) by auto
  qed (use s1 Cons.prems(3) in auto)
qed simp

lemma do_each_ok_ran: "do_each_ok f xs s = Some (kTfLiteOk, s') \<Longrightarrow> x \<in> set xs \<Longrightarrow> \<exists>s0 s1. f x s0 = Some (kTfLiteOk, s1)"
proof (induction xs arbitrary: s)
  case (Cons y ys)
  then obtain s2 where "f y s = Some (kTfLiteOk, s2)" "do_each_ok f ys s2 = Some (kTfLiteOk, s')"
    by (auto split: bind_splits if_splits)
  then show ?case using Cons.IH [of s2] Cons.prems(2) by auto
qed simp

section \<open>Variables\<close>

lemma byte_length_data [simp]: "TfLiteEvalTensorByteLength (e\<lparr>eval_data := d\<rparr>) = TfLiteEvalTensorByteLength e"
  by (simp add: TfLiteEvalTensorByteLength_def)

lemma enumerate_map_nth: "i < length es \<Longrightarrow> map (\<lambda>(t, e). f t e) (List.enumerate 0 es) ! i = f i (es ! i)"
  by (simp add: nth_enumerate_eq)

lemma reset_variable_memory: "reset_variable ts i I = Some (st, J) \<Longrightarrow> \<exists>memory. J = I\<lparr>mi_memory := memory\<rparr>"
  by (auto simp: reset_variable_def split: bind_splits if_splits option.splits intro: exI [of _ "mi_memory I"])

text \<open>What \<^verbatim>\<open>AllocateVariables\<close> found a size for, the reset finds a size for.\<close>

lemma reset_cannot_fail:
  assumes "AllocateVariables sub es s = Some (kTfLiteOk, s')" "mi_subgraph I = Some sub"
    "mi_eval_tensors I = Some (map (\<lambda>(t, e). e\<lparr>eval_data := g t\<rparr>) (List.enumerate 0 es))"
    "Micro_ResetVariableTensors I = Some (st, J)"
  shows "st = kTfLiteOk"
proof (rule ccontr)
  assume failed: "st \<noteq> kTfLiteOk"
  let ?es = "map (\<lambda>(t, e). e\<lparr>eval_data := g t\<rparr>) (List.enumerate 0 es)"
  obtain ts where ts: "fb_tensors sub = Some ts" "do_each_ok (allocate_variable ts es) [0..<length ts] s = Some (kTfLiteOk, s')"
    using assms(1) by (auto simp: AllocateVariables_def split: bind_splits)
  have "do_each_ok (reset_variable ts) [0..<length ts] I = Some (st, J)"
    using assms(2,4) ts(1) by (simp add: Micro_ResetVariableTensors_def)
  then have "\<exists>i\<in>set [0..<length ts]. \<exists>I0. mi_eval_tensors I0 = Some ?es \<and> reset_variable ts i I0 = Some (st, J)"
    by (rule do_each_ok_failed [OF _ failed, where P = "\<lambda>I. mi_eval_tensors I = Some ?es"])
      (use assms(3) in \<open>auto dest!: reset_variable_memory\<close>)
  then obtain i I0 where i: "i < length ts" "mi_eval_tensors I0 = Some ?es" "reset_variable ts i I0 = Some (st, J)"
    by auto
  have e: "fb_is_variable (ts ! i)" "i < length es" "TfLiteEvalTensorByteLength (es ! i) = None"
    using i failed
    by (auto simp: reset_variable_def vec in_bounds_def nth_enumerate_eq split: bind_splits if_splits option.splits)
  obtain s0 s1 where run: "allocate_variable ts es i s0 = Some (kTfLiteOk, s1)"
    using do_each_ok_ran [OF ts(2), of i] i(1) by auto
  show False
    using run e i(1) by (cases s0) (simp add: allocate_variable_def vec in_bounds_def)
qed

section \<open>An allocation, stage by stage\<close>

text \<open>What every call of a client leaves.\<close>

definition client_kept :: "micro_interpreter \<Rightarrow> micro_interpreter \<Rightarrow> bool" where
  "client_kept I J \<longleftrightarrow> mi_model J = mi_model I \<and> mi_resolver J = mi_resolver I \<and> mi_subgraph J = mi_subgraph I
     \<and> (\<forall>t. input_tensor I = Some t \<longrightarrow> input_tensor J = Some t) \<and> (\<forall>t. output_tensor I = Some t \<longrightarrow> output_tensor J = Some t)
     \<and> (\<forall>h. arena_ok h (mi_allocator I) \<longrightarrow> arena_ok h (mi_allocator J))"

lemma client_kept_refl [simp]: "client_kept I I"
  by (simp add: client_kept_def)

lemma client_kept_trans: "client_kept I J \<Longrightarrow> client_kept J K \<Longrightarrow> client_kept I K"
  by (simp add: client_kept_def)

lemma stage_keptE:
  assumes "stage_kept I J"
  obtains M ns a b c memory where
    "J = I\<lparr>mi_allocator := M, node_and_registrations := ns, may_allocate_persistent := a, may_request_scratch := b,
       may_get_scratch := c, mi_memory := memory\<rparr>"
    "erased ns = erased (node_and_registrations I)" "allocator_kept (mi_allocator I) M"
  using assms unfolding stage_kept_def by blast

lemma stage_client: "stage_kept I J \<Longrightarrow> client_kept I J"
  by (erule stage_keptE) (simp add: client_kept_def allocator_kept_def)

text \<open>The interpreter when its kernels are initialised, and when they are prepared.\<close>

definition started_with ::
  "node_and_registration list \<Rightarrow> eval_tensor list \<Rightarrow> micro_allocator \<Rightarrow> nat \<Rightarrow> micro_interpreter \<Rightarrow> micro_interpreter" where
  "started_with ns es M n I = I\<lparr>node_and_registrations := Some ns, mi_eval_tensors := Some es, mi_allocator := M,
     helper_eval_tensors := True, context_tensors_size := n\<rparr>"

definition ready_to_finish :: "micro_interpreter \<Rightarrow> micro_interpreter" where
  "ready_to_finish I = I\<lparr>may_allocate_persistent := False, may_request_scratch := False, may_get_scratch := True\<rparr>"

lemma StartModelAllocation_ok:
  "StartModelAllocation parsers model R nodes es M = Some (kTfLiteOk, nodes', es', N) \<Longrightarrow>
   \<exists>ns es2. nodes' = Some ns \<and> es' = Some es2"
  by (auto simp: StartModelAllocation_def AllocateTfLiteEvalTensors_def split: bind_splits if_splits prod.splits option.splits)

text \<open>Every outcome of \<^verbatim>\<open>AllocateTensors\<close>: refused, or failed at one of its stages, or complete.\<close>

lemma Micro_AllocateTensors_cases:
  assumes "Micro_AllocateTensors K words I = Some (st, J)"
  obtains
    (start) st1 nodes es M where "StartModelAllocation (op_parser K) (mi_model I) (mi_resolver I)
        (node_and_registrations I) (mi_eval_tensors I) (mi_allocator I) = Some (st1, nodes, es, M)"
      "st1 \<noteq> kTfLiteOk" "st = kTfLiteError"
      "J = I\<lparr>node_and_registrations := nodes, mi_eval_tensors := es, mi_allocator := M, initialization_status := kTfLiteError\<rparr>"
  | (prepare) ns es M ops n where "StartModelAllocation (op_parser K) (mi_model I) (mi_resolver I)
        (node_and_registrations I) (mi_eval_tensors I) (mi_allocator I) = Some (kTfLiteOk, Some ns, Some es, M)"
      "prepare_nodes K ops (started_with ns es M n I) = Some (st, J)" "st \<noteq> kTfLiteOk"
  | (finish) ns es M ops n I1 where "StartModelAllocation (op_parser K) (mi_model I) (mi_resolver I)
        (node_and_registrations I) (mi_eval_tensors I) (mi_allocator I) = Some (kTfLiteOk, Some ns, Some es, M)"
      "prepare_nodes K ops (started_with ns es M n I) = Some (kTfLiteOk, I1)"
      "finish_allocation words (ready_to_finish I1) = Some (st, J)" "st \<noteq> kTfLiteOk"
  | (reset) sub ts os ns es M I1 I2 J2 where "mi_subgraph I = Some sub" "fb_tensors sub = Some ts" "fb_operators sub = Some os"
      "StartModelAllocation (op_parser K) (mi_model I) (mi_resolver I)
        (node_and_registrations I) (mi_eval_tensors I) (mi_allocator I) = Some (kTfLiteOk, Some ns, Some es, M)"
      "prepare_nodes K (length os) (started_with ns es M (length ts) I) = Some (kTfLiteOk, I1)"
      "finish_allocation words (ready_to_finish I1) = Some (kTfLiteOk, I2)"
      "Micro_ResetVariableTensors (I2\<lparr>helper_handles := scratch_buffer_handles I2\<rparr>) = Some (st, J2)"
      "J = (if st = kTfLiteOk then J2\<lparr>tensors_allocated := True\<rparr> else J2)"
proof -
  obtain st1 nodes es M where 1: "StartModelAllocation (op_parser K) (mi_model I) (mi_resolver I)
      (node_and_registrations I) (mi_eval_tensors I) (mi_allocator I) = Some (st1, nodes, es, M)"
    using assms by (auto simp: Micro_AllocateTensors_def split: bind_splits)
  show thesis
  proof (cases "st1 = kTfLiteOk")
    case False
    then show thesis using start [OF 1] assms 1 by (simp add: Micro_AllocateTensors_def)
  next
    case True
    from StartModelAllocation_ok [OF 1 [unfolded True]] obtain ns es2 where n: "nodes = Some ns" "es = Some es2" by blast
    note 1 = 1 [unfolded n True]
    obtain sub ts os where sub: "mi_subgraph I = Some sub" "fb_tensors sub = Some ts" "fb_operators sub = Some os"
      using assms 1 by (auto simp: Micro_AllocateTensors_def split: bind_splits)
    let ?I = "started_with ns es2 M (length ts) I"
    obtain st2 I1 where 2: "prepare_nodes K (length os) ?I = Some (st2, I1)"
      using assms 1 sub by (auto simp: Micro_AllocateTensors_def started_with_def split: bind_splits)
    show thesis
    proof (cases "st2 = kTfLiteOk")
      case False
      with assms 1 sub 2 have "st2 = st" "I1 = J" by (simp_all add: Micro_AllocateTensors_def started_with_def)
      then show thesis using prepare [OF 1] 2 False by simp
    next
      case ok: True
      obtain st3 I2 where 3: "finish_allocation words (ready_to_finish I1) = Some (st3, I2)"
        using assms 1 sub 2 ok by (auto simp: Micro_AllocateTensors_def started_with_def ready_to_finish_def split: bind_splits)
      show thesis
      proof (cases "st3 = kTfLiteOk")
        case False
        then show thesis using finish [OF 1 2 [unfolded ok]] assms 1 sub 2 ok 3
          by (simp add: Micro_AllocateTensors_def started_with_def ready_to_finish_def)
      next
        case ok3: True
        obtain st4 J2 where 4: "Micro_ResetVariableTensors (I2\<lparr>helper_handles := scratch_buffer_handles I2\<rparr>) = Some (st4, J2)"
          using assms 1 sub 2 ok 3 ok3 by (auto simp: Micro_AllocateTensors_def started_with_def ready_to_finish_def split: bind_splits)
        have "st4 = st" "J = (if st = kTfLiteOk then J2\<lparr>tensors_allocated := True\<rparr> else J2)"
          using assms 1 sub 2 ok 3 ok3 4
          by (auto simp: Micro_AllocateTensors_def started_with_def ready_to_finish_def split: if_splits)
        then show thesis using reset [OF sub 1 2 [unfolded ok] 3 [unfolded ok3]] 4 by simp
      qed
    qed
  qed
qed

section \<open>What an allocation does to the allocator\<close>

lemma start_allocator:
  assumes "StartModelAllocation parsers model R nodes es M = Some (st, nodes', es', N)" "parsers_allocate parsers"
  shows "model_is_allocating N" "arena_ok h M \<Longrightarrow> arena_ok h N" "st = kTfLiteOk \<Longrightarrow> \<not> model_is_allocating M"
proof -
  have "model_is_allocating N \<and> (arena_ok h M \<longrightarrow> arena_ok h N) \<and> (st = kTfLiteOk \<longrightarrow> \<not> model_is_allocating M)"
  proof (cases "model_is_allocating M")
    case True
    then show ?thesis using assms(1) by (auto simp: StartModelAllocation_def)
  next
    case False
    have "arena_ok h (M\<lparr>model_is_allocating := True\<rparr>) = arena_ok h M" by (simp add: arena_ok_def)
    with StartModelAllocation_kept [OF assms(1) False assms(2)] False show ?thesis
      by (auto simp: allocator_kept_def)
  qed
  then show "model_is_allocating N" "arena_ok h M \<Longrightarrow> arena_ok h N" "st = kTfLiteOk \<Longrightarrow> \<not> model_is_allocating M" by blast+
qed

lemma reset_memory:
  assumes "Micro_ResetVariableTensors I = Some (st, J)"
  shows "\<exists>memory. J = I\<lparr>mi_memory := memory\<rparr>"
proof -
  obtain ts where "do_each_ok (reset_variable ts) [0..<length ts] I = Some (st, J)"
    using assms by (auto simp: Micro_ResetVariableTensors_def split: bind_splits)
  then show ?thesis
    by (rule do_each_ok_invariant [where P = "\<lambda>J. \<exists>memory. J = I\<lparr>mi_memory := memory\<rparr>"])
      (auto dest!: reset_variable_memory intro: exI [of _ "mi_memory I"])
qed

lemma prepared_nodes:
  assumes "prepare_nodes K ops (started_with ns es M n I) = Some (st, J)" "kernels_use_the_context K"
  shows "client_kept (I\<lparr>mi_allocator := M\<rparr>) J" "model_is_allocating (mi_allocator J) = model_is_allocating M"
    "mi_eval_tensors J = Some es" "erased (node_and_registrations J) = Some (map erase_user ns)"
  using prepare_nodes_kept [OF assms]
  by (auto elim!: stage_keptE simp: client_kept_def allocator_kept_def started_with_def)

lemma finish_allocation_stages:
  assumes "finish_allocation words I = Some (st, J)"
  obtains es handles M mem where "mi_eval_tensors I = Some es"
    "FinishModelAllocation (mi_model I) words es (scratch_buffer_handles I) (mi_allocator I) (pointers_of I)
       = Some (st, handles, M, mem)"
    "J = (store_pointers mem I)\<lparr>scratch_buffer_handles := handles, mi_allocator := M\<rparr>"
  using assms by (auto simp: finish_allocation_def split: bind_splits)

lemma finish_allocator:
  assumes "finish_allocation words I = Some (st, J)"
  shows "client_kept I J" "model_is_allocating (mi_allocator J) = (model_is_allocating (mi_allocator I) \<and> st \<noteq> kTfLiteOk)"
proof -
  from assms obtain es handles M mem where
    1: "FinishModelAllocation (mi_model I) words es (scratch_buffer_handles I) (mi_allocator I) (pointers_of I)
       = Some (st, handles, M, mem)"
    and J: "J = (store_pointers mem I)\<lparr>scratch_buffer_handles := handles, mi_allocator := M\<rparr>"
    by (rule finish_allocation_stages)
  have "(\<forall>h. arena_ok h (mi_allocator I) \<longrightarrow> arena_ok h M)
      \<and> model_is_allocating M = (model_is_allocating (mi_allocator I) \<and> st \<noteq> kTfLiteOk)"
    using FinishModelAllocation_kept [OF 1] by (cases "st = kTfLiteOk") (simp_all add: allocator_kept_def arena_ok_def)
  then show "client_kept I J" "model_is_allocating (mi_allocator J) = (model_is_allocating (mi_allocator I) \<and> st \<noteq> kTfLiteOk)"
    by (simp_all add: J client_kept_def store_pointers_def)
qed

lemma ready_client: "client_kept I (ready_to_finish I)" "model_is_allocating (mi_allocator (ready_to_finish I)) = model_is_allocating (mi_allocator I)"
  by (simp_all add: client_kept_def ready_to_finish_def)

lemma Micro_AllocateTensors_allocator:
  assumes "Micro_AllocateTensors K words I = Some (st, J)" "kernels_use_the_context K"
  shows "client_kept I J \<and> (mi_subgraph I = GetSubGraphFromModel (mi_model I) \<longrightarrow>
     model_is_allocating (mi_allocator J) = (st \<noteq> kTfLiteOk))"
proof -
  note parsers = kernels_keep(4) [OF assms(2)]
  have started: "client_kept I (I\<lparr>mi_allocator := M\<rparr>)"
    if "StartModelAllocation (op_parser K) (mi_model I) (mi_resolver I) (node_and_registrations I) (mi_eval_tensors I)
      (mi_allocator I) = Some (st', nodes, es, M)" for st' nodes es M
    using start_allocator(2) [OF that parsers] by (simp add: client_kept_def)
  from assms(1) show ?thesis
  proof (cases rule: Micro_AllocateTensors_cases)
    case (start st1 nodes es M)
    then show ?thesis using started [OF start(1)] start_allocator(1) [OF start(1) parsers] by (simp add: client_kept_def)
  next
    case (prepare ns es M ops n)
    note p = prepared_nodes [OF prepare(2) assms(2)]
    show ?thesis
      using client_kept_trans [OF started [OF prepare(1)] p(1)] p(2) prepare(3) start_allocator(1) [OF prepare(1) parsers] by simp
  next
    case (finish ns es M ops n I1)
    note p = prepared_nodes [OF finish(2) assms(2)] and f = finish_allocator [OF finish(3)]
    have "client_kept I J"
      by (rule client_kept_trans [OF client_kept_trans [OF client_kept_trans [OF started [OF finish(1)] p(1)] ready_client(1)] f(1)])
    then show ?thesis
      using f(2) ready_client(2) [of I1] p(2) finish(4) start_allocator(1) [OF finish(1) parsers] by simp
  next
    case (reset sub ts os ns es M I1 I2 J2)
    note p = prepared_nodes [OF reset(5) assms(2)] and f = finish_allocator [OF reset(6)]
    have I2: "client_kept I I2"
      by (rule client_kept_trans [OF client_kept_trans [OF client_kept_trans [OF started [OF reset(4)] p(1)] ready_client(1)] f(1)])
    obtain memory where J2: "J2 = I2\<lparr>helper_handles := scratch_buffer_handles I2, mi_memory := memory\<rparr>"
      using reset_memory [OF reset(7)] by auto
    have "client_kept I2 J" "mi_allocator J = mi_allocator I2"
      using reset(8) J2 by (auto simp: client_kept_def)
    moreover have "st = kTfLiteOk" if "mi_subgraph I = GetSubGraphFromModel (mi_model I)"
    proof -
      from reset(6) obtain es' handles N mem where
        1: "mi_eval_tensors (ready_to_finish I1) = Some es'" "FinishModelAllocation (mi_model (ready_to_finish I1)) words es'
          (scratch_buffer_handles (ready_to_finish I1)) (mi_allocator (ready_to_finish I1)) (pointers_of (ready_to_finish I1))
         = Some (kTfLiteOk, handles, N, mem)"
        and 2: "I2 = (store_pointers mem (ready_to_finish I1))\<lparr>scratch_buffer_handles := handles, mi_allocator := N\<rparr>"
        by (rule finish_allocation_stages)
      have model: "mi_model (ready_to_finish I1) = mi_model I" "mi_subgraph (ready_to_finish I1) = mi_subgraph I"
        using client_kept_trans [OF started [OF reset(4)] p(1)] by (simp_all add: client_kept_def ready_to_finish_def)
      have sub: "GetSubGraphFromModel (mi_model I) = Some sub" using that reset(1) by simp
      obtain s s' where vars: "AllocateVariables sub es' s = Some (kTfLiteOk, s')"
        using 1(2) model(1) sub by (auto simp: FinishModelAllocation_def Let_def split: bind_splits if_splits prod.splits)
      show ?thesis
        by (rule reset_cannot_fail [OF vars _ _ reset(7), where g = "\<lambda>t. mem (TensorData t)"])
          (use 1 2 model reset(1) in \<open>simp_all add: store_pointers_def\<close>)
    qed
    ultimately show ?thesis
      using client_kept_trans [OF I2] f(2) by auto
  qed
qed

section \<open>Calls of a client\<close>

inductive client_call :: "micro_kernels \<Rightarrow> (nat \<Rightarrow> 32 word list option) \<Rightarrow> micro_interpreter \<Rightarrow> micro_interpreter \<Rightarrow> bool"
  for K :: micro_kernels and words :: "nat \<Rightarrow> 32 word list option" where
  allocate: "client_call K words I J" if "Micro_AllocateTensors K words I = Some (st, J)"
| invoke: "client_call K words I J" if "Micro_Invoke K words I = Some (st, J)"
| reset: "client_call K words I J" if "Micro_ResetVariableTensors I = Some (st, J)"
| get_input: "client_call K words I J" if "Micro_input n I = Some (t, J)"
| get_output: "client_call K words I J" if "Micro_output n I = Some (t, J)"
| get_tensor: "client_call K words I J" if "Micro_tensor n I = Some (t, J)"
| writing: "client_call K words I (I\<lparr>mi_memory := memory\<rparr>)"

text \<open>Every call but an allocation leaves the allocator in the state it was: between allocations, or within one.\<close>

definition call_kept :: "micro_interpreter \<Rightarrow> micro_interpreter \<Rightarrow> bool" where
  "call_kept I J \<longleftrightarrow> mi_model J = mi_model I \<and> mi_resolver J = mi_resolver I \<and> mi_subgraph J = mi_subgraph I
     \<and> (\<forall>t. input_tensor I = Some t \<longrightarrow> input_tensor J = Some t) \<and> (\<forall>t. output_tensor I = Some t \<longrightarrow> output_tensor J = Some t)
     \<and> allocator_kept (mi_allocator I) (mi_allocator J)"

lemma call_kept_refl [simp]: "call_kept I I"
  by (simp add: call_kept_def kept)

lemma call_kept_trans: "call_kept I J \<Longrightarrow> call_kept J K \<Longrightarrow> call_kept I K"
  by (auto simp: call_kept_def elim: allocator_kept_trans)

lemma call_kept_client: "call_kept I J \<Longrightarrow> client_kept I J"
  by (simp add: call_kept_def client_kept_def allocator_kept_def)

lemma allocator_call: "allocator_kept (mi_allocator I) M \<Longrightarrow> call_kept I (I\<lparr>mi_allocator := M\<rparr>)"
  by (simp add: call_kept_def)

lemma persistent_tensor_call: "persistent_tensor n I = Some (t, J) \<Longrightarrow> call_kept I J"
  by (auto simp: persistent_tensor_def AllocatePersistentTfLiteTensor_def intro: allocator_call make_tensor_kept
      split: bind_splits)

lemma input_slot_call:
  "call_kept I J \<Longrightarrow> input_tensor I = None \<Longrightarrow> call_kept I (J\<lparr>input_tensor := t\<rparr>)"
  "call_kept I J \<Longrightarrow> output_tensor I = None \<Longrightarrow> call_kept I (J\<lparr>output_tensor := t\<rparr>)"
  by (simp_all add: call_kept_def)

lemma Micro_input_call: "Micro_input n I = Some (t, J) \<Longrightarrow> call_kept I J"
  by (auto simp: Micro_input_def intro: input_slot_call persistent_tensor_call
      split: bind_splits if_splits option.splits)

lemma Micro_output_call: "Micro_output n I = Some (t, J) \<Longrightarrow> call_kept I J"
  by (auto simp: Micro_output_def intro: input_slot_call persistent_tensor_call
      split: bind_splits if_splits option.splits)

lemma Micro_tensor_call: "Micro_tensor n I = Some (t, J) \<Longrightarrow> call_kept I J"
  by (auto simp: Micro_tensor_def dest: persistent_tensor_call split: if_splits)

lemma memory_call: "call_kept I (I\<lparr>mi_memory := memory\<rparr>)"
  by (simp add: call_kept_def kept)

lemma reset_call: "Micro_ResetVariableTensors I = Some (st, J) \<Longrightarrow> call_kept I J"
  using reset_memory memory_call by metis

lemma setup_call: "setup_kept I J \<Longrightarrow> call_kept I J"
  by (erule setup_keptE) (simp add: call_kept_def)

lemma micro_invoke_node_call:
  assumes "micro_invoke_node K i I = Some (st, J)" "kernels_use_the_context K"
  shows "call_kept I J"
proof -
  have "call_kept I (reset_temp I')" if "setup_kept I I'" for I'
    using setup_call [OF that] allocator_call [OF reset_kept] call_kept_trans unfolding reset_temp_def by blast
  then show ?thesis
    using assms(1) kernels_keep(3) [OF assms(2)]
    by (auto simp: micro_invoke_node_def split: bind_splits op_function.splits)
qed

text \<open>While a model is being allocated, \<^verbatim>\<open>AllocateTensors\<close> refuses.\<close>

lemma Micro_AllocateTensors_refuses:
  "model_is_allocating (mi_allocator I) \<Longrightarrow>
   Micro_AllocateTensors K words I = Some (kTfLiteError, I\<lparr>initialization_status := kTfLiteError\<rparr>)"
  by (simp add: Micro_AllocateTensors_def StartModelAllocation_def)

lemma Micro_Invoke_call:
  assumes "Micro_Invoke K words I = Some (st, J)" "kernels_use_the_context K"
  obtains "call_kept I J"
    | st1 I1 where "Micro_AllocateTensors K words I = Some (st1, I1)" "call_kept I1 J"
proof -
  have loop: "call_kept I' J'" if "do_each_ok (micro_invoke_node K) xs I' = Some (st', J')" for xs I' st' J'
    by (rule do_each_ok_invariant [OF that, where P = "call_kept I'"])
      (auto intro: call_kept_trans [OF _ micro_invoke_node_call [OF _ assms(2)]])
  show thesis
  proof (cases "initialization_status I = kTfLiteOk")
    case True
    obtain st1 I1 where I1: "(if tensors_allocated I then Some (kTfLiteOk, I) else Micro_AllocateTensors K words I) = Some (st1, I1)"
      using assms(1) True by (auto simp: Micro_Invoke_def split: bind_splits if_splits)
    have "J = I1 \<or> (\<exists>xs. do_each_ok (micro_invoke_node K) xs I1 = Some (st, J))"
      using assms(1) True I1 by (auto simp: Micro_Invoke_def simp del: do_each_ok.simps split: bind_splits if_splits)
    then have "call_kept I1 J" using loop by auto
    then show thesis using that I1 by (auto split: if_splits)
  next
    case False
    then show thesis using that(1) assms(1) by (simp add: Micro_Invoke_def)
  qed
qed

lemma client_call_cases:
  assumes "client_call K words I J" "kernels_use_the_context K"
  obtains "call_kept I J"
    | st1 I1 where "Micro_AllocateTensors K words I = Some (st1, I1)" "call_kept I1 J"
  using assms(1)
proof cases
  case (allocate st)
  then show ?thesis using that(2) by simp
next
  case (invoke st)
  then show ?thesis using Micro_Invoke_call [OF invoke assms(2)] that by blast
qed (use that in \<open>auto intro: reset_call Micro_input_call Micro_output_call Micro_tensor_call memory_call\<close>)

lemma client_call_kept: "client_call K words I J \<Longrightarrow> kernels_use_the_context K \<Longrightarrow> client_kept I J"
  by (erule (1) client_call_cases)
    (auto dest: Micro_AllocateTensors_allocator intro: call_kept_client client_kept_trans)

lemma client_calls_kept: "(client_call K words)\<^sup>*\<^sup>* I J \<Longrightarrow> kernels_use_the_context K \<Longrightarrow> client_kept I J"
  by (induction rule: rtranclp_induct) (auto intro: client_kept_trans client_call_kept)

lemma client_call_stuck:
  "client_call K words I J \<Longrightarrow> kernels_use_the_context K \<Longrightarrow> model_is_allocating (mi_allocator I) \<Longrightarrow>
   model_is_allocating (mi_allocator J)"
  by (erule (1) client_call_cases)
    (auto simp: call_kept_def allocator_kept_def Micro_AllocateTensors_refuses)

lemma client_calls_stuck:
  "(client_call K words)\<^sup>*\<^sup>* I J \<Longrightarrow> kernels_use_the_context K \<Longrightarrow> model_is_allocating (mi_allocator I) \<Longrightarrow>
   model_is_allocating (mi_allocator J)"
  by (induction rule: rtranclp_induct) (auto intro: client_call_stuck)

section \<open>A new interpreter\<close>

lemma aligned_start: "unat (AlignPointerUp p 16) mod 16 = 0"
  using AlignPointerDown_aligned [of "p + (16 - 1)" 16] by (simp add: AlignPointerDown_def AlignPointerUp_def)

lemma MicroAllocator_Create_arena:
  assumes "MicroAllocator_Create arena sz = Some M"
  shows "arena_ok (AlignPointerUp arena 16) M"
  using assms aligned_start [of arena]
  by (auto simp: MicroAllocator_Create_def MicroAllocator_on_def SimpleMemoryAllocator_Create_def Let_def AllocateFromTail_def
      SimpleMemoryAllocator_def arena_ok_def not_less split: bind_splits option.splits prod.splits if_splits)

lemma Micro_Init_subgraph: "Micro_Init I = Some J \<Longrightarrow> mi_subgraph I = None \<Longrightarrow>
    mi_subgraph J = GetSubGraphFromModel (mi_model J) \<and> mi_allocator J = mi_allocator I \<and> mi_model J = mi_model I"
  by (cases "fb_subgraphs (mi_model I)")
    (auto simp: Micro_Init_def GetSubGraphFromModel_def length_Suc_conv split: list.splits if_splits)

lemma MicroInterpreter_new:
  assumes "MicroInterpreter model R arena sz memory = Some I"
  shows "arena_ok (AlignPointerUp arena 16) (mi_allocator I)" "mi_model I = model" "mi_subgraph I = GetSubGraphFromModel model"
  using assms MicroAllocator_Create_arena [of arena sz]
  by (auto simp: MicroInterpreter_def MicroInterpreter_on_def dest!: Micro_Init_subgraph split: bind_splits)

section \<open>Nodes and tensors of the model\<close>

lemma do_each_ok_map: "do_each_ok f (map g xs) s = do_each_ok (\<lambda>x. f (g x)) xs s"
  by (induction xs arbitrary: s) (simp_all add: split_def cong: if_cong)

lemma enumerate_upt: "List.enumerate 0 xs = map (\<lambda>i. (i, xs ! i)) [0..<length xs]"
  by (rule nth_equalityI) (simp_all add: nth_enumerate_eq)

lemma init_eval_tensors_ok:
  "init_eval_tensors ts bs = Some (kTfLiteOk, es) \<Longrightarrow>
   list_all2 (\<lambda>t e. InitializeTfLiteEvalTensorFromFlatbuffer t bs = Some (kTfLiteOk, e)) ts es"
  by (induction ts arbitrary: es) (auto split: bind_splits if_splits)

text \<open>The node of an operator: its registration is what its code resolves to.\<close>

definition node_of_operator ::
  "micro_op_resolver \<Rightarrow> operator_code list \<Rightarrow> fb_operator \<Rightarrow> node_and_registration \<Rightarrow> bool" where
  "node_of_operator R opcodes op e \<longleftrightarrow> fb_opcode_index op < length opcodes
     \<and> GetRegistrationFromOpCode (opcodes ! fb_opcode_index op) (micro_as_resolver R) = (kTfLiteOk, nr_registration e)
     \<and> micro_inputs (nr_node e) = fb_op_inputs op \<and> micro_outputs (nr_node e) = fb_op_outputs op
     \<and> (\<exists>r. nr_registration e = Some r \<and> (builtin_code r = BuiltinOperator_CUSTOM \<longrightarrow> micro_custom_initial_data (nr_node e) =
          (case fb_custom_options op of None \<Rightarrow> (0, 0) | Some data \<Rightarrow> data)))"

lemma node_of_operator_erase [simp]: "node_of_operator R opcodes op (erase_user e) = node_of_operator R opcodes op e"
  by (simp add: node_of_operator_def erase_user_def)

lemma operator_data_custom:
  "operator_data parsers R op r A = Some (kTfLiteOk, (b, c), B) \<Longrightarrow> builtin_code r = BuiltinOperator_CUSTOM \<Longrightarrow>
   c = (case fb_custom_options op of None \<Rightarrow> (0, 0) | Some data \<Rightarrow> data)"
  by (auto simp: operator_data_def)

lemma prepare_node_ok:
  assumes "prepare_node parsers R opcodes (i, op) (ns, M) = Some (kTfLiteOk, ns', M')"
  shows "i < length ns \<and> (\<exists>e. ns' = ns[i := e] \<and> node_of_operator R opcodes op e)"
proof -
  obtain r b c A where r: "GetRegistrationFromOpCode (opcodes ! fb_opcode_index op) (micro_as_resolver R) = (kTfLiteOk, Some r)"
    "fb_opcode_index op < length opcodes" "i < length ns"
    "operator_data parsers R op r (memory_allocator M) = Some (kTfLiteOk, (b, c), A)"
    "ns' = ns[i := \<lparr>nr_node = \<lparr>micro_inputs = fb_op_inputs op, micro_outputs = fb_op_outputs op, micro_user_data = 0,
       micro_builtin_data = b, micro_custom_initial_data = c\<rparr>, nr_registration = Some r\<rparr>]"
    using assms by (auto simp: prepare_node_def Let_def vec in_bounds_def split: if_splits prod.splits bind_splits option.splits)
  then show ?thesis using operator_data_custom [OF r(4)] by (auto simp: node_of_operator_def)
qed

lemma prepare_node_length:
  "prepare_node parsers R opcodes x (ns, M) = Some (st, ns', M') \<Longrightarrow> length ns' = length ns"
  by (auto simp: prepare_node_def Let_def vec split: if_splits prod.splits bind_splits option.splits)

lemma PrepareNodeAndRegistrationDataFromFlatbuffer_ok:
  assumes "PrepareNodeAndRegistrationDataFromFlatbuffer parsers model R ns M = Some (kTfLiteOk, ns', N)"
    "GetSubGraphFromModel model = Some sub" "fb_operators sub = Some os" "length ns = length os" "os \<noteq> []"
  shows "\<exists>opcodes. fb_operator_codes model = Some opcodes \<and> list_all2 (node_of_operator R opcodes) os ns'"
proof -
  obtain opcodes where o: "fb_operator_codes model = Some opcodes"
    "do_each_ok (\<lambda>i. prepare_node parsers R opcodes (i, os ! i)) [0..<length os] (ns, M) = Some (kTfLiteOk, ns', N)"
    using assms by (auto simp: PrepareNodeAndRegistrationDataFromFlatbuffer_def enumerate_upt do_each_ok_map
        split: bind_splits)
  have "length (fst (ns', N)) = length os \<and> (\<forall>j<length os. node_of_operator R opcodes (os ! j) (fst (ns', N) ! j))"
    by (rule do_each_ok_upt [OF o(2), where P = "\<lambda>i s. length (fst s) = length os \<and>
          (\<forall>j<i. node_of_operator R opcodes (os ! j) (fst s ! j))"])
      (use assms(4) in \<open>auto dest!: prepare_node_ok simp: nth_list_update less_Suc_eq\<close>)
  then show ?thesis using o(1) by (auto simp: list_all2_conv_all_nth)
qed

lemma StartModelAllocation_model:
  assumes "StartModelAllocation parsers model R nodes es M = Some (kTfLiteOk, Some ns, Some evals, N)"
    "GetSubGraphFromModel model = Some sub"
  obtains ts os where "fb_tensors sub = Some ts" "fb_operators sub = Some os" "length ns = length os"
    "list_all2 (\<lambda>t e. InitializeTfLiteEvalTensorFromFlatbuffer t (fb_buffers model) = Some (kTfLiteOk, e)) ts evals"
    "os \<noteq> [] \<Longrightarrow> \<exists>opcodes. fb_operator_codes model = Some opcodes \<and> list_all2 (node_of_operator R opcodes) os ns"
proof -
  obtain M1 where M1: "InitScratchBufferData (M\<lparr>model_is_allocating := True\<rparr>) = (kTfLiteOk, M1)"
    using assms(1) by (auto simp: StartModelAllocation_def split: if_splits prod.splits)
  obtain M2 where M2: "AllocateTfLiteEvalTensors model es M1 = Some (kTfLiteOk, Some evals, M2)"
    using assms(1) M1 by (auto simp: StartModelAllocation_def split: if_splits bind_splits)
  obtain n0 M3 where M3: "AllocateNodeAndRegistrations model nodes M2 = Some (kTfLiteOk, Some n0, M3)"
    "PrepareNodeAndRegistrationDataFromFlatbuffer parsers model R n0 M3 = Some (kTfLiteOk, ns, N)"
    using assms(1) M1 M2 by (auto simp: StartModelAllocation_def split: if_splits bind_splits)
  obtain ts where ts: "fb_tensors sub = Some ts" "init_eval_tensors ts (fb_buffers model) = Some (kTfLiteOk, evals)"
    using M2 assms(2) by (auto simp: AllocateTfLiteEvalTensors_def split: bind_splits prod.splits option.splits if_splits)
  obtain os where os: "fb_operators sub = Some os" "length n0 = length os"
    using M3(1) assms(2) by (auto simp: AllocateNodeAndRegistrations_def split: bind_splits prod.splits option.splits)
  show thesis
  proof (cases "os = []")
    case True
    then have "ns = n0" using M3(2) assms(2) os(1) by (simp add: PrepareNodeAndRegistrationDataFromFlatbuffer_def)
    then show ?thesis using that [OF ts(1) os(1) _ init_eval_tensors_ok [OF ts(2)]] os(2) True by simp
  next
    case False
    note model = PrepareNodeAndRegistrationDataFromFlatbuffer_ok [OF M3(2) assms(2) os False]
    then have "length ns = length os" by (auto dest: list_all2_lengthD)
    then show ?thesis using that [OF ts(1) os(1) _ init_eval_tensors_ok [OF ts(2)]] model by simp
  qed
qed

section \<open>An allocation that went well\<close>

definition pointers_into :: "eval_tensor list \<Rightarrow> (nat \<rightharpoonup> 64 word) \<Rightarrow> pointers" where
  "pointers_into es addresses = (\<lambda>loc. case loc of
     TensorData t \<Rightarrow> if t < length es then eval_data (es ! t) else None | ScratchHandle s \<Rightarrow> addresses s)"

definition with_data :: "(nat \<Rightarrow> 64 word option) \<Rightarrow> eval_tensor list \<Rightarrow> eval_tensor list" where
  "with_data d es = map (\<lambda>(t, e). e\<lparr>eval_data := d t\<rparr>) (List.enumerate 0 es)"

lemma length_with_data [simp]: "length (with_data d es) = length es"
  by (simp add: with_data_def)

lemma nth_with_data [simp]: "t < length es \<Longrightarrow> with_data d es ! t = (es ! t)\<lparr>eval_data := d t\<rparr>"
  by (simp add: with_data_def nth_enumerate_eq)

lemma allocated:
  assumes "Micro_AllocateTensors K words I = Some (kTfLiteOk, J)" "kernels_use_the_context K"
    "mi_subgraph I = Some sub" "GetSubGraphFromModel (mi_model I) = Some sub"
  obtains ts os ns es M I1 handles N mem J1 where
    "fb_tensors sub = Some ts" "fb_operators sub = Some os"
    "StartModelAllocation (op_parser K) (mi_model I) (mi_resolver I)
        (node_and_registrations I) (mi_eval_tensors I) (mi_allocator I) = Some (kTfLiteOk, Some ns, Some es, M)"
    "prepare_nodes K (length os) (started_with ns es M (length ts) I) = Some (kTfLiteOk, I1)"
    "FinishModelAllocation (mi_model I) words es (scratch_buffer_handles I) (mi_allocator I1)
       (pointers_into es (scratch_addresses I)) = Some (kTfLiteOk, handles, N, mem)"
    "erased (node_and_registrations J) = Some (map erase_user ns)"
    "mi_eval_tensors J = Some (with_data (\<lambda>t. mem (TensorData t)) es)"
    "scratch_addresses J = (\<lambda>s. mem (ScratchHandle s))" "mi_allocator J = N"
    "\<not> may_allocate_persistent J \<and> \<not> may_request_scratch J" "tensors_allocated J"
    "mi_eval_tensors J1 = mi_eval_tensors J"
    "do_each_ok (reset_variable ts) [0..<length ts] J1 = Some (kTfLiteOk, J\<lparr>tensors_allocated := tensors_allocated J1\<rparr>)"
proof -
  from assms(1) show thesis
  proof (cases rule: Micro_AllocateTensors_cases)
    case (reset sub' ts os ns es M I1 I2 J2)
    have sub: "sub' = sub" using reset(1) assms(3) by simp
    let ?S = "started_with ns es M (length ts) I"
    from prepare_nodes_kept [OF reset(5) assms(2)] obtain A nodes a b c memory where
      I1: "I1 = ?S\<lparr>mi_allocator := A, node_and_registrations := nodes, may_allocate_persistent := a, may_request_scratch := b,
         may_get_scratch := c, mi_memory := memory\<rparr>" "erased nodes = Some (map erase_user ns)"
      by (rule stage_keptE) (simp add: started_with_def)
    have same: "mi_eval_tensors (ready_to_finish I1) = Some es" "mi_model (ready_to_finish I1) = mi_model I"
      "scratch_buffer_handles (ready_to_finish I1) = scratch_buffer_handles I" "mi_allocator (ready_to_finish I1) = mi_allocator I1"
      "pointers_of (ready_to_finish I1) = pointers_into es (scratch_addresses I)"
      using I1(1) by (simp_all add: ready_to_finish_def started_with_def pointers_of_def pointers_into_def fun_eq_iff
        split: output_location.split)
    obtain handles N mem where F: "FinishModelAllocation (mi_model I) words es (scratch_buffer_handles I) (mi_allocator I1)
         (pointers_into es (scratch_addresses I)) = Some (kTfLiteOk, handles, N, mem)"
      "I2 = (store_pointers mem (ready_to_finish I1))\<lparr>scratch_buffer_handles := handles, mi_allocator := N\<rparr>"
      using finish_allocation_stages [OF reset(6)] same by (metis option.inject)
    let ?J1 = "I2\<lparr>helper_handles := scratch_buffer_handles I2\<rparr>"
    obtain memory' where J2: "J2 = ?J1\<lparr>mi_memory := memory'\<rparr>" using reset_memory [OF reset(7)] by auto
    have J: "J = J2\<lparr>tensors_allocated := True\<rparr>" using reset(8) by simp
    have run: "do_each_ok (reset_variable ts) [0..<length ts] ?J1 = Some (kTfLiteOk, J2)"
    proof -
      have "mi_subgraph ?J1 = Some sub" using F(2) I1(1) assms(3) by (simp add: store_pointers_def ready_to_finish_def started_with_def)
      then show ?thesis using reset(7) reset(2) sub by (simp add: Micro_ResetVariableTensors_def)
    qed
    show thesis
    proof (rule that [OF _ _ reset(4,5) F(1)])
      show "fb_tensors sub = Some ts" "fb_operators sub = Some os" using reset(2,3) sub by simp_all
      show "do_each_ok (reset_variable ts) [0..<length ts] ?J1 = Some (kTfLiteOk, J\<lparr>tensors_allocated := tensors_allocated ?J1\<rparr>)"
        using run J J2 by simp
    qed (simp_all add: J J2 F(2) I1 store_pointers_def ready_to_finish_def started_with_def with_data_def)
  qed (use assms in auto)
qed

end
