(* ===== verification/Micro_Allocated.thy ===== *)
theory Micro_Allocated
  imports Micro_Run
begin

text \<open>
  What a successful allocation of TensorFlow Lite Micro ends with: the plan is committed into the pointers
  of the model, variables get blocks of the tail and are reset, and from then on kernels reach temporary memory only.
\<close>

section \<open>The plan and the pointers it does not write\<close>

abbreviation framed :: "pointers \<Rightarrow> (tflite_status \<times> 'a \<times> pointers) option \<Rightarrow> (tflite_status \<times> 'a \<times> pointers) option" where
  "framed mem0 \<equiv> map_option (\<lambda>(st, x, mem). (st, x, mem0 ++ mem))"

lemma commit_info_framed:
  "commit_info handles start c (k, q, mem0 ++ mem)
     = map_option (\<lambda>(st, k, q, mem). (st, k, q, mem0 ++ mem)) (commit_info handles start c (k, q, mem))"
proof (cases "GetOffsetForBuffer (int k) q")
  case (Some r)
  then show ?thesis
    by (cases r, cases "fst (snd r)")
      (auto simp: commit_info_def store_pointer_def split: option.split output_location.split)
qed (simp add: commit_info_def)

lemma commit_infos_framed:
  "do_each_ok (commit_info handles start) cs (k, q, mem0 ++ mem)
     = map_option (\<lambda>(st, k, q, mem). (st, k, q, mem0 ++ mem)) (do_each_ok (commit_info handles start) cs (k, q, mem))"
proof (induction cs arbitrary: k q mem)
  case (Cons c cs)
  show ?case
    by (cases "commit_info handles start c (k, q, mem)") (auto simp: commit_info_framed Cons.IH)
qed simp

lemma CommitPlan_framed:
  "CommitPlan handles p start infos (mem0 ++ mem) = framed mem0 (CommitPlan handles p start infos mem)"
  by (cases "do_each_ok (commit_info handles start) infos (0, p, mem)") (auto simp: CommitPlan_def commit_infos_framed)

lemma plan_and_commit_framed:
  "plan_and_commit infos handles M (mem0 ++ mem) = framed mem0 (plan_and_commit infos handles M mem)"
proof -
  let ?A = "memory_allocator M"
  obtain t T where T: "AllocateTemp (GetAvailableMemory 16 ?A) 16 ?A = (t, T)" by (metis surj_pair)
  show ?thesis
  proof (cases "CreatePlan infos (GreedyMemoryPlanner (unat (GetAvailableMemory 16 ?A)))")
    case None
    then show ?thesis using T by (simp add: plan_and_commit_def Let_def split: option.split)
  next
    case (Some r)
    obtain st p where r: "r = (st, p)" by (cases r)
    show ?thesis
    proof (cases "GetMaximumMemorySize p")
      case None
      then show ?thesis using T Some r by (simp add: plan_and_commit_def Let_def split: option.split)
    next
      case max: (Some n)
      obtain needed q where n: "n = (needed, q)" by (cases n)
      show ?thesis
      proof (cases "CommitPlan handles q (GetHeadBuffer (ResetTempAllocations T)) infos mem")
        case None
        then show ?thesis using T Some r max n by (simp add: plan_and_commit_def Let_def CommitPlan_framed split: option.split)
      next
        case commit: (Some c)
        obtain st2 q2 mem2 where c: "c = (st2, q2, mem2)" by (cases c)
        then show ?thesis using T Some r max n commit
          by (cases "GetMaximumMemorySize q2")
            (auto simp: plan_and_commit_def Let_def CommitPlan_framed split: option.split prod.split)
      qed
    qed
  qed
qed

lemma CommitStaticMemoryPlan_framed:
  "CommitStaticMemoryPlan sub md words es handles M (mem0 ++ mem) = framed mem0 (CommitStaticMemoryPlan sub md words es handles M mem)"
proof (cases "fb_tensors sub")
  case (Some ts)
  show ?thesis
    by (cases "build_infos sub md words es (scratch_requests M) (length ts)")
      (auto simp: CommitStaticMemoryPlan_def Some Let_def plan_and_commit_framed split: option.split prod.split)
qed (simp add: CommitStaticMemoryPlan_def)

section \<open>The end of an allocation that went well\<close>

lemma plan_and_commit_ok:
  assumes "plan_and_commit infos handles M mem = Some (kTfLiteOk, N, mem')"
  shows "scratch_requests N = scratch_requests M" "temp_ptr (memory_allocator N) = head_ptr (memory_allocator N)"
    "tail_ptr (memory_allocator N) = tail_ptr (memory_allocator M)"
proof -
  have "scratch_requests N = scratch_requests M \<and> temp_ptr (memory_allocator N) = head_ptr (memory_allocator N)
      \<and> tail_ptr (memory_allocator N) = tail_ptr (memory_allocator M)"
    using assms
    by (auto simp: plan_and_commit_def Let_def AllocateTemp_def SetHeadBufferSize_def ResetTempAllocations_def
        split: bind_splits if_splits option.splits prod.splits)
  then show "scratch_requests N = scratch_requests M" "temp_ptr (memory_allocator N) = head_ptr (memory_allocator N)"
    "tail_ptr (memory_allocator N) = tail_ptr (memory_allocator M)" by blast+
qed

lemma CommitStaticMemoryPlan_ok:
  assumes "CommitStaticMemoryPlan sub md words es handles M mem = Some (kTfLiteOk, N, mem')"
  shows "scratch_requests N = scratch_requests M" "temp_ptr (memory_allocator N) = head_ptr (memory_allocator N)"
    "tail_ptr (memory_allocator N) = tail_ptr (memory_allocator M)"
proof -
  obtain infos p A where A: "AllocateTemp (32 * of_nat (length (the (fb_tensors sub)) + length (scratch_requests M))) 8
      (memory_allocator M) = (p, A)" "plan_and_commit infos handles (M\<lparr>memory_allocator := A\<rparr>) mem = Some (kTfLiteOk, N, mem')"
    using assms by (auto simp: CommitStaticMemoryPlan_def split: bind_splits if_splits option.splits prod.splits)
  have "tail_ptr A = tail_ptr (memory_allocator M)" using A(1) by (auto simp: AllocateTemp_def Let_def split: if_splits)
  then show "scratch_requests N = scratch_requests M" "temp_ptr (memory_allocator N) = head_ptr (memory_allocator N)"
    "tail_ptr (memory_allocator N) = tail_ptr (memory_allocator M)"
    using plan_and_commit_ok [OF A(2)] by simp_all
qed

lemma FinishModelAllocation_stages:
  assumes "FinishModelAllocation model words es handles M mem0 = Some (kTfLiteOk, handles', N, mem)"
    "GetSubGraphFromModel model = Some sub"
  obtains A M2 m M3 where
    "CommitStaticMemoryPlan sub (fb_metadata model) words es handles' (M\<lparr>memory_allocator := A\<rparr>) Map.empty = Some (kTfLiteOk, M2, m)"
    "allocator_kept M (M\<lparr>memory_allocator := A\<rparr>)"
    "AllocateVariables sub es (M2, mem0 ++ m) = Some (kTfLiteOk, M3, mem)" "N = M3\<lparr>model_is_allocating := False\<rparr>"
proof -
  obtain h1 M1 where M1: "AllocateScratchBufferHandles (length (scratch_requests M)) handles M = (kTfLiteOk, h1, M1)"
    using handles_kept by (metis prod_cases3)
  obtain A where A: "M1 = M\<lparr>memory_allocator := A\<rparr>"
    using M1 by (auto simp: AllocateScratchBufferHandles_def split: if_splits prod.splits intro: that [of "memory_allocator M"])
  obtain M2 m2 where M2: "CommitStaticMemoryPlan sub (fb_metadata model) words es h1 M1 mem0 = Some (kTfLiteOk, M2, m2)"
    "h1 = handles'" "\<exists>M3. AllocateVariables sub es (M2, m2) = Some (kTfLiteOk, M3, mem) \<and> N = M3\<lparr>model_is_allocating := False\<rparr>"
    using assms M1 by (auto simp: FinishModelAllocation_def split: bind_splits if_splits)
  then obtain m where m: "CommitStaticMemoryPlan sub (fb_metadata model) words es h1 M1 Map.empty = Some (kTfLiteOk, M2, m)"
    "m2 = mem0 ++ m"
  proof -
    have "framed mem0 (CommitStaticMemoryPlan sub (fb_metadata model) words es h1 M1 Map.empty) = Some (kTfLiteOk, M2, m2)"
      using M2(1) CommitStaticMemoryPlan_framed [of sub "fb_metadata model" words es h1 M1 mem0 Map.empty] by simp
    then show thesis using that by auto
  qed
  show thesis using that [of A M2 m] m M2 A handles_kept [OF M1] by auto
qed

section \<open>Memory for variables\<close>

text \<open>
  The variables below \<open>i\<close> have blocks between the tail \<open>A\<close> has now and the one it had, in descending order.
\<close>

definition variables_placed ::
  "fb_tensor list \<Rightarrow> eval_tensor list \<Rightarrow> micro_allocator \<Rightarrow> pointers \<Rightarrow> nat \<Rightarrow> micro_allocator \<times> pointers \<Rightarrow> bool" where
  "variables_placed ts es M mem0 i = (\<lambda>(N, mem).
     N = M\<lparr>memory_allocator := (memory_allocator M)\<lparr>tail_ptr := tail_ptr (memory_allocator N)\<rparr>\<rparr>
     \<and> head_ptr (memory_allocator M) \<le> tail_ptr (memory_allocator N)
     \<and> (\<forall>j<i. fb_is_variable (ts ! j) \<longrightarrow> j < length es \<and> TfLiteEvalTensorByteLength (es ! j) \<noteq> None
          \<and> (\<exists>p. mem (TensorData j) = Some p \<and> tail_ptr (memory_allocator N) \<le> p))
     \<and> (\<forall>j<i. \<forall>k<j. fb_is_variable (ts ! j) \<longrightarrow> fb_is_variable (ts ! k) \<longrightarrow>
          unat (the (mem (TensorData j))) + bytes_at es [] (TensorData j) \<le> unat (the (mem (TensorData k))))
     \<and> (\<forall>j<i. fb_is_variable (ts ! j) \<longrightarrow> unat (the (mem (TensorData j))) + bytes_at es [] (TensorData j) < 2 ^ 64)
     \<and> (\<forall>loc. (\<forall>j<i. fb_is_variable (ts ! j) \<longrightarrow> loc \<noteq> TensorData j) \<longrightarrow> mem loc = mem0 loc))"

lemma allocate_variable_placed:
  assumes "variables_placed ts es M mem0 i s" "allocate_variable ts es i s = Some (kTfLiteOk, s')" "i < length ts"
    "\<forall>t<length ts. fb_is_variable (ts ! t) \<longrightarrow> bytes_at es [] (TensorData t) \<le> unat (head_ptr (memory_allocator M))"
  shows "variables_placed ts es M mem0 (Suc i) s'"
proof -
  obtain N mem where s: "s = (N, mem)" by (cases s)
  show ?thesis
  proof (cases "fb_is_variable (ts ! i)")
    case False
    then have "s' = s" using assms(2,3) s by (simp add: allocate_variable_def vec in_bounds_def)
    then show ?thesis using assms(1) s False by (auto simp: variables_placed_def less_Suc_eq)
  next
    case True
    let ?A = "memory_allocator N"
    obtain n p A where n: "i < length es" "TfLiteEvalTensorByteLength (es ! i) = Some n"
      "AllocateFromTail n 16 ?A = (Some p, A)" "s' = (N\<lparr>memory_allocator := A\<rparr>, mem(TensorData i \<mapsto> p))"
      using assms(2,3) s True
      by (auto simp: allocate_variable_def vec in_bounds_def split: bind_splits option.splits prod.splits)
    have bytes: "bytes_at es [] (TensorData i) = unat n" by (simp add: bytes_at_def n(2))
    have N: "N = M\<lparr>memory_allocator := (memory_allocator M)\<lparr>tail_ptr := tail_ptr ?A\<rparr>\<rparr>"
      "head_ptr (memory_allocator M) \<le> tail_ptr ?A"
      using assms(1) s by (simp_all add: variables_placed_def)
    have "unat n \<le> unat (head_ptr (memory_allocator M))" using assms(3,4) True bytes by auto
    then have "n \<le> tail_ptr ?A" using N(2) by (simp add: word_le_nat_alt)
    note block = AllocateFromTail_block [OF n(3) this]
    have head: "head_ptr ?A = head_ptr (memory_allocator M)" by (subst N(1)) simp
    have below: "p \<le> tail_ptr ?A" using block(1) by (simp add: word_le_nat_alt)
    have lower: "unat p + unat n \<le> unat q" if "tail_ptr ?A \<le> q" for q
      using block(1) that by (simp add: word_le_nat_alt)
    have small: "unat p + unat n < 2 ^ 64" using block(1) unat_bound [of "tail_ptr ?A"] by (rule le_less_trans)
    have new: "N\<lparr>memory_allocator := A\<rparr> = M\<lparr>memory_allocator := (memory_allocator M)\<lparr>tail_ptr := p\<rparr>\<rparr>" "tail_ptr A = p"
      by (subst N(1), subst block(4), subst N(1), simp) (simp add: block(4))
    show ?thesis
      unfolding n(4) variables_placed_def
      using assms(1) s True new below lower small block(3) head bytes n(1,2)
      by (auto simp: variables_placed_def less_Suc_eq intro: order_trans)
  qed
qed

lemma AllocateVariables_placed:
  assumes "AllocateVariables sub es (M, mem0) = Some (kTfLiteOk, N, mem)" "fb_tensors sub = Some ts"
    "head_ptr (memory_allocator M) \<le> tail_ptr (memory_allocator M)"
    "\<forall>t<length ts. fb_is_variable (ts ! t) \<longrightarrow> bytes_at es [] (TensorData t) \<le> unat (head_ptr (memory_allocator M))"
  shows "variables_placed ts es M mem0 (length ts) (N, mem)"
proof -
  have run: "do_each_ok (allocate_variable ts es) [0..<length ts] (M, mem0) = Some (kTfLiteOk, N, mem)"
    using assms(1,2) by (simp add: AllocateVariables_def)
  show ?thesis
  proof (rule do_each_ok_upt [OF run, where P = "variables_placed ts es M mem0"])
    show "variables_placed ts es M mem0 0 (M, mem0)" using assms(3) by (simp add: variables_placed_def)
  qed (rule allocate_variable_placed [OF _ _ _ assms(4)])
qed

section \<open>Variables are reset\<close>

lemma memset_inside: "k < unat n \<Longrightarrow> memset p v n memory (p + of_nat k) = v"
proof -
  assume k: "k < unat n"
  then have "unat (of_nat k :: 64 word) = k" using unat_bound [of n] by (simp add: unat_of_nat)
  then show ?thesis using k by (simp add: memset_def word_less_nat_alt)
qed

lemma memset_above:
  assumes "unat p + unat n \<le> unat q" "unat q + b < 2 ^ 64" "k < b"
  shows "memset p v n memory (q + of_nat k) = memory (q + of_nat k)"
proof -
  have a: "unat (q + of_nat k) = unat q + k" using assms(2,3) by (simp add: unat_word_ariths unat_of_nat)
  then have "p \<le> q + of_nat k" using assms(1) by (simp add: word_le_nat_alt)
  then have "unat (q + of_nat k - p) = unat q + k - unat p" using a by (simp add: unat_sub)
  then have "\<not> q + of_nat k - p < n" using assms(1) by (simp add: word_less_nat_alt)
  then show ?thesis by (simp add: memset_def)
qed

definition variables_filled :: "fb_tensor list \<Rightarrow> eval_tensor list \<Rightarrow> pointers \<Rightarrow> nat \<Rightarrow> micro_interpreter \<Rightarrow> bool" where
  "variables_filled ts es mem i I \<longleftrightarrow> mi_eval_tensors I = Some (with_data (\<lambda>t. mem (TensorData t)) es)
     \<and> (\<forall>j<i. fb_is_variable (ts ! j) \<longrightarrow> (\<exists>v. reset_value (ts ! j) = Some v
          \<and> (\<forall>k<bytes_at es [] (TensorData j). mi_memory I (the (mem (TensorData j)) + of_nat k) = v)))"

lemma reset_variable_filled:
  assumes "variables_filled ts es mem i I" "reset_variable ts i I = Some (kTfLiteOk, J)" "i < length ts"
    "variables_placed ts es M mem0 (length ts) (N, mem)"
  shows "variables_filled ts es mem (Suc i) J"
proof (cases "fb_is_variable (ts ! i)")
  case False
  then have "J = I" using assms(2,3) by (simp add: reset_variable_def vec in_bounds_def)
  then show ?thesis using assms(1) False by (auto simp: variables_filled_def less_Suc_eq)
next
  case True
  have i: "i < length es" using assms(3,4) True by (auto simp: variables_placed_def)
  have at: "vec_at (with_data (\<lambda>t. mem (TensorData t)) es) (int i) = Some ((es ! i)\<lparr>eval_data := mem (TensorData i)\<rparr>)"
    using i by (simp add: vec in_bounds_def)
  have es: "mi_eval_tensors I = Some (with_data (\<lambda>t. mem (TensorData t)) es)" using assms(1) by (simp add: variables_filled_def)
  obtain n v p where n: "TfLiteEvalTensorByteLength (es ! i) = Some n" "reset_value (ts ! i) = Some v" "mem (TensorData i) = Some p"
    "J = I\<lparr>mi_memory := memset p v n (mi_memory I)\<rparr>"
    using assms(2,3) True es at
    by (auto simp: reset_variable_def vec_at_in_bounds in_bounds_def split: bind_splits option.splits)
  have bytes: "bytes_at es [] (TensorData i) = unat n" by (simp add: bytes_at_def n(1))
  have earlier: "mi_memory J (the (mem (TensorData j)) + of_nat k) = mi_memory I (the (mem (TensorData j)) + of_nat k)"
    if j: "j < i" "fb_is_variable (ts ! j)" "k < bytes_at es [] (TensorData j)" for j k
  proof -
    have "unat p + unat n \<le> unat (the (mem (TensorData j)))"
      "unat (the (mem (TensorData j))) + bytes_at es [] (TensorData j) < 2 ^ 64"
      using assms(3,4) True j bytes n(3) by (force simp: variables_placed_def)+
    then show ?thesis using memset_above j(3) n(4) by simp
  qed
  show ?thesis
    using assms(1) n earlier bytes
    by (auto simp: variables_filled_def less_Suc_eq memset_inside)
qed

lemma reset_variables_filled:
  assumes "do_each_ok (reset_variable ts) [0..<length ts] I = Some (kTfLiteOk, J)"
    "mi_eval_tensors I = Some (with_data (\<lambda>t. mem (TensorData t)) es)"
    "variables_placed ts es M mem0 (length ts) (N, mem)"
  shows "variables_filled ts es mem (length ts) J"
proof (rule do_each_ok_upt [OF assms(1), where P = "variables_filled ts es mem"])
  show "variables_filled ts es mem 0 I" using assms(2) by (simp add: variables_filled_def)
qed (rule reset_variable_filled [OF _ _ _ assms(3)])

section \<open>From construction to the end of an allocation\<close>

lemma MicroInterpreter_addresses: "MicroInterpreter model R arena sz memory = Some I \<Longrightarrow> scratch_addresses I = Map.empty"
  by (auto simp: MicroInterpreter_def MicroInterpreter_on_def Micro_Init_def split: bind_splits if_splits)

lemma allocated_end:
  assumes "MicroInterpreter model R arena sz memory = Some I" "kernels_use_the_context K"
    "Micro_AllocateTensors K words I = Some (kTfLiteOk, J)" "GetSubGraphFromModel model = Some sub"
  obtains ts es M M2 M3 m handles mem J1 where
    "fb_tensors sub = Some ts"
    "list_all2 (\<lambda>t e. InitializeTfLiteEvalTensorFromFlatbuffer t (fb_buffers model) = Some (kTfLiteOk, e)) ts es"
    "mi_eval_tensors J = Some (with_data (\<lambda>t. mem (TensorData t)) es)" "scratch_addresses J = (\<lambda>s. mem (ScratchHandle s))"
    "arena_ok (AlignPointerUp arena 16) M"
    "CommitStaticMemoryPlan sub (fb_metadata model) words es handles M Map.empty = Some (kTfLiteOk, M2, m)"
    "AllocateVariables sub es (M2, pointers_into es Map.empty ++ m) = Some (kTfLiteOk, M3, mem)"
    "mi_allocator J = M3\<lparr>model_is_allocating := False\<rparr>" "mi_eval_tensors J1 = mi_eval_tensors J"
    "do_each_ok (reset_variable ts) [0..<length ts] J1 = Some (kTfLiteOk, J\<lparr>tensors_allocated := tensors_allocated J1\<rparr>)"
proof -
  note new = MicroInterpreter_new [OF assms(1)]
  have sub: "mi_subgraph I = Some sub" "GetSubGraphFromModel (mi_model I) = Some sub" using new assms(4) by simp_all
  show thesis
  proof (rule allocated [OF assms(3,2) sub])
    fix ts os ns es M I1 handles N mem J1
    assume A: "fb_tensors sub = Some ts"
      "StartModelAllocation (op_parser K) (mi_model I) (mi_resolver I)
          (node_and_registrations I) (mi_eval_tensors I) (mi_allocator I) = Some (kTfLiteOk, Some ns, Some es, M)"
      "prepare_nodes K (length os) (started_with ns es M (length ts) I) = Some (kTfLiteOk, I1)"
      "FinishModelAllocation (mi_model I) words es (scratch_buffer_handles I) (mi_allocator I1)
         (pointers_into es (scratch_addresses I)) = Some (kTfLiteOk, handles, N, mem)"
      "mi_eval_tensors J = Some (with_data (\<lambda>t. mem (TensorData t)) es)"
      "scratch_addresses J = (\<lambda>s. mem (ScratchHandle s))" "mi_allocator J = N"
      "mi_eval_tensors J1 = mi_eval_tensors J"
      "do_each_ok (reset_variable ts) [0..<length ts] J1 = Some (kTfLiteOk, J\<lparr>tensors_allocated := tensors_allocated J1\<rparr>)"
    obtain ts' where ts: "fb_tensors sub = Some ts'"
      "list_all2 (\<lambda>t e. InitializeTfLiteEvalTensorFromFlatbuffer t (fb_buffers model) = Some (kTfLiteOk, e)) ts' es"
      by (rule StartModelAllocation_model [OF A(2) sub(2)]) (use that new(2) in simp)
    have arena: "arena_ok (AlignPointerUp arena 16) (mi_allocator I1)"
      using start_allocator(2) [OF A(2) kernels_keep(4) [OF assms(2)] new(1)] prepared_nodes(1) [OF A(3) assms(2)]
      by (simp add: client_kept_def)
    obtain B M2 m M3 where F:
      "CommitStaticMemoryPlan sub (fb_metadata (mi_model I)) words es handles (mi_allocator I1\<lparr>memory_allocator := B\<rparr>) Map.empty
         = Some (kTfLiteOk, M2, m)"
      "allocator_kept (mi_allocator I1) (mi_allocator I1\<lparr>memory_allocator := B\<rparr>)"
      "AllocateVariables sub es (M2, pointers_into es (scratch_addresses I) ++ m) = Some (kTfLiteOk, M3, mem)"
      "N = M3\<lparr>model_is_allocating := False\<rparr>"
      by (rule FinishModelAllocation_stages [OF A(4) sub(2)])
    have arena': "arena_ok (AlignPointerUp arena 16) (mi_allocator I1\<lparr>memory_allocator := B\<rparr>)"
      using F(2) arena by (simp add: allocator_kept_def)
    show thesis
      by (rule that [OF A(1) _ A(5,6) arena' F(1) [unfolded new(2)]
            F(3) [unfolded MicroInterpreter_addresses [OF assms(1)]] A(7) [unfolded F(4)] A(8,9)])
        (use ts A(1) in simp)
  qed
qed

lemma bytes_at_with_data: "(\<And>t. loc = TensorData t \<Longrightarrow> t < length es) \<Longrightarrow> bytes_at (with_data d es) rs loc = bytes_at es rs loc"
  by (simp add: bytes_at_def split: output_location.split)

lemma total_bytes_with_data: "total_bytes (with_data d es) rs (length es) = total_bytes es rs (length es)"
  unfolding total_bytes_def by (rule sum.cong [OF refl]) (auto simp: location_def intro: bytes_at_with_data)

lemma variables_scratch_requests:
  assumes "AllocateVariables sub es (M, mem0) = Some (kTfLiteOk, N, mem)" "fb_tensors sub = Some ts"
  shows "\<exists>t. N = M\<lparr>memory_allocator := (memory_allocator M)\<lparr>tail_ptr := t\<rparr>\<rparr>"
    "\<And>loc. (\<And>j. loc = TensorData j \<Longrightarrow> j < length ts \<Longrightarrow> \<not> fb_is_variable (ts ! j)) \<Longrightarrow> mem loc = mem0 loc"
proof -
  define P where "P = (\<lambda>(N, mem). (\<exists>t. N = M\<lparr>memory_allocator := (memory_allocator M)\<lparr>tail_ptr := t\<rparr>\<rparr>)
    \<and> (\<forall>loc. (\<forall>j<length ts. loc = TensorData j \<longrightarrow> \<not> fb_is_variable (ts ! j)) \<longrightarrow> mem loc = mem0 loc))"
  have run: "do_each_ok (allocate_variable ts es) [0..<length ts] (M, mem0) = Some (kTfLiteOk, N, mem)"
    using assms by (simp add: AllocateVariables_def)
  have step: "P s'" if st: "P s" "allocate_variable ts es i s = Some (st, s')" for i s st s'
  proof -
    obtain N1 m1 where s: "s = (N1, m1)" by (cases s)
    then obtain t where t: "N1 = M\<lparr>memory_allocator := (memory_allocator M)\<lparr>tail_ptr := t\<rparr>\<rparr>" using st(1) by (auto simp: P_def)
    show ?thesis
      using st s t
      by (auto simp: P_def allocate_variable_def AllocateFromTail_def Let_def vec in_bounds_def
          split: bind_splits if_splits option.splits prod.splits)
  qed
  have "P (M, mem0)" by (auto simp: P_def intro: exI [of _ "tail_ptr (memory_allocator M)"])
  then have "P (N, mem)" by (rule do_each_ok_invariant [OF run]) (rule step)
  then show "\<exists>t. N = M\<lparr>memory_allocator := (memory_allocator M)\<lparr>tail_ptr := t\<rparr>\<rparr>"
    "\<And>loc. (\<And>j. loc = TensorData j \<Longrightarrow> j < length ts \<Longrightarrow> \<not> fb_is_variable (ts ! j)) \<Longrightarrow> mem loc = mem0 loc"
    unfolding P_def by auto
qed

section \<open>Kernels while a model runs\<close>

lemma make_temp_tensor:
  assumes "make_tensor True model es k M = Some (r, N)"
  shows "\<exists>t. N = M\<lparr>memory_allocator := (memory_allocator M)\<lparr>temp_ptr := t\<rparr>\<rparr>"
proof -
  have temp: "\<exists>t. B = A\<lparr>temp_ptr := t\<rparr>" if "AllocateTemp sz a A = (p, B)" for sz a p and A B :: simple_allocator
    using that by (auto simp: AllocateTemp_def Let_def split: if_splits intro: exI [of _ "temp_ptr A"])
  have quantization: "\<exists>t. B = A\<lparr>temp_ptr := t\<rparr>" if "copy_quantization True src scale zs r A = Some (st, r', B)" for src scale zs r A st r' B
  proof -
    obtain p A1 where A1: "AllocateTemp 24 8 A = (p, A1)" by (metis surj_pair)
    obtain q A2 where A2: "AllocateTemp (4 + 4 * of_nat (length scale)) 4 A1 = (q, A2)" by (metis surj_pair)
    have "B = A1 \<or> B = A2" using that A1 A2 by (auto simp: copy_quantization_def Let_def split: option.splits if_splits)
    then show ?thesis using temp [OF A1] temp [OF A2] by auto
  qed
  have tensor: "\<exists>t. B = A\<lparr>temp_ptr := t\<rparr>" if "InitializeTfLiteTensorFromFlatbuffer True t bs A = Some (st, r', B)" for t bs A st r' B
    using that quantization
    by (fastforce simp: InitializeTfLiteTensorFromFlatbuffer_def Let_def split: prod.splits bind_splits if_splits option.splits
        intro: exI [of _ "temp_ptr A"])
  obtain p A t st r' B where A: "AllocateTemp 64 8 (memory_allocator M) = (Some p, A)"
    "InitializeTfLiteTensorFromFlatbuffer True t (fb_buffers model) A = Some (st, r', B)" "N = M\<lparr>memory_allocator := B\<rparr>"
    using assms by (auto simp: make_tensor_def split: bind_splits prod.splits option.splits if_splits)
  show ?thesis using temp [OF A(1)] tensor [OF A(2)] A(3) by auto
qed

text \<open>Outside the preparation of a model, kernels get temporary memory only.\<close>

definition running :: "micro_interpreter \<Rightarrow> micro_interpreter \<Rightarrow> bool" where
  "running I J \<longleftrightarrow> (\<exists>t memory. J = I\<lparr>mi_allocator := (mi_allocator I)\<lparr>memory_allocator :=
     (memory_allocator (mi_allocator I))\<lparr>temp_ptr := t\<rparr>\<rparr>, mi_memory := memory\<rparr>)"

lemma running_writing: "running I (I\<lparr>mi_memory := memory\<rparr>)"
  unfolding running_def by (rule exI [of _ "temp_ptr (memory_allocator (mi_allocator I))"], rule exI [of _ memory]) simp

lemma running_refl: "running I I"
  using running_writing [of I "mi_memory I"] by simp

lemma running_trans:
  assumes "running I J" "running J K"
  shows "running I K"
proof -
  from assms obtain t memory u memory' where
    J: "J = I\<lparr>mi_allocator := (mi_allocator I)\<lparr>memory_allocator := (memory_allocator (mi_allocator I))\<lparr>temp_ptr := t\<rparr>\<rparr>,
       mi_memory := memory\<rparr>"
    and K: "K = J\<lparr>mi_allocator := (mi_allocator J)\<lparr>memory_allocator := (memory_allocator (mi_allocator J))\<lparr>temp_ptr := u\<rparr>\<rparr>,
       mi_memory := memory'\<rparr>"
    unfolding running_def by blast
  have "K = I\<lparr>mi_allocator := (mi_allocator I)\<lparr>memory_allocator := (memory_allocator (mi_allocator I))\<lparr>temp_ptr := u\<rparr>\<rparr>,
       mi_memory := memory'\<rparr>"
    by (simp add: J K)
  then show ?thesis unfolding running_def by blast
qed

lemma context_steps_running:
  assumes "context_step\<^sup>*\<^sup>* I J" "\<not> may_allocate_persistent I" "\<not> may_request_scratch I"
  shows "running I J"
  using assms(1)
proof (induction rule: rtranclp_induct)
  case base
  show ?case by (rule running_refl)
next
  case (step J K)
  have may: "\<not> may_allocate_persistent J \<and> \<not> may_request_scratch J" using step.IH assms(2,3) by (auto simp: running_def)
  have "running J K" using step.hyps(2)
  proof cases
    case (get_tensor n r)
    then show ?thesis using make_temp_tensor
      by (fastforce simp: running_def Context_GetTensor_def AllocateTempTfLiteTensor_def split: bind_splits
          intro: exI [of _ "mi_memory J"])
  next
    case (writing memory)
    then show ?thesis by (simp add: running_writing)
  qed (use may in \<open>auto simp: Context_AllocatePersistentBuffer_def Context_RequestScratchBufferInArena_def\<close>)
  then show ?case by (rule running_trans [OF step.IH])
qed

definition only_memory :: "micro_interpreter \<Rightarrow> micro_interpreter \<Rightarrow> bool" where
  "only_memory I J \<longleftrightarrow> (\<exists>memory. J = I\<lparr>mi_memory := memory\<rparr>)"

text \<open>The interpreter between two runs.\<close>

definition at_rest :: "micro_interpreter \<Rightarrow> bool" where
  "at_rest I \<longleftrightarrow> tensors_allocated I \<and> \<not> may_allocate_persistent I \<and> \<not> may_request_scratch I
     \<and> temp_ptr (memory_allocator (mi_allocator I)) = head_ptr (memory_allocator (mi_allocator I))"

lemma only_memory_refl: "only_memory I I"
  by (auto simp: only_memory_def intro: exI [of _ "mi_memory I"])

lemma only_memory_rest: "only_memory I J \<Longrightarrow> at_rest I \<Longrightarrow> at_rest J"
  by (auto simp: only_memory_def at_rest_def)

lemma only_memory_trans: "only_memory I J \<Longrightarrow> only_memory J K \<Longrightarrow> only_memory I K"
  by (auto simp: only_memory_def)

lemma micro_invoke_node_memory:
  assumes "micro_invoke_node K i I = Some (st, J)" "kernels_use_the_context K" "at_rest I"
  shows "only_memory I J"
proof -
  have reset: "only_memory I (reset_temp I')" if "running I I'" for I'
  proof -
    obtain t memory where I': "I' = I\<lparr>mi_allocator := (mi_allocator I)\<lparr>memory_allocator :=
       (memory_allocator (mi_allocator I))\<lparr>temp_ptr := t\<rparr>\<rparr>, mi_memory := memory\<rparr>"
      using \<open>running I I'\<close> by (auto simp: running_def)
    have "temp_ptr (memory_allocator (mi_allocator I)) = head_ptr (memory_allocator (mi_allocator I))"
      using assms(3) by (simp add: at_rest_def)
    then have "reset_temp I' = I\<lparr>mi_memory := memory\<rparr>"
      by (simp add: reset_temp_def I' ResetTempAllocations_def)
    then show ?thesis by (auto simp: only_memory_def)
  qed
  have "running I I'" if "invoke_op K k i I = Some (st', I')" for k st' I'
    using that assms(2,3) context_steps_running unfolding kernels_use_the_context_def at_rest_def by blast
  then show ?thesis
    using assms(1) reset by (auto simp: micro_invoke_node_def intro: only_memory_refl split: bind_splits op_function.splits)
qed

lemma Micro_Invoke_memory:
  assumes "Micro_Invoke K words I = Some (st, J)" "kernels_use_the_context K" "at_rest I"
  shows "only_memory I J \<and> at_rest J"
proof -
  have loop: "only_memory I J' \<and> at_rest J'" if run: "do_each_ok (micro_invoke_node K) xs I = Some (st', J')" for xs st' J'
    by (rule do_each_ok_invariant [OF run, where P = "\<lambda>J. only_memory I J \<and> at_rest J"])
      (use assms(3) in \<open>auto intro: only_memory_refl only_memory_trans only_memory_rest micro_invoke_node_memory [OF _ assms(2)]\<close>)
  have "tensors_allocated I" using assms(3) by (simp add: at_rest_def)
  then have "J = I \<or> (\<exists>xs. do_each_ok (micro_invoke_node K) xs I = Some (st, J))"
    using assms(1) by (auto simp: Micro_Invoke_def simp del: do_each_ok.simps split: bind_splits if_splits)
  then show ?thesis using loop only_memory_refl assms(3) by blast
qed

lemma Micro_AllocateTensors_rest:
  assumes "Micro_AllocateTensors K words I = Some (kTfLiteOk, J)" "kernels_use_the_context K"
    "mi_subgraph I = Some sub" "GetSubGraphFromModel (mi_model I) = Some sub"
  shows "at_rest J"
proof (rule allocated [OF assms])
  fix ts es handles N mem and I1 :: micro_interpreter
  assume A: "fb_tensors sub = Some ts"
    "FinishModelAllocation (mi_model I) words es (scratch_buffer_handles I) (mi_allocator I1)
       (pointers_into es (scratch_addresses I)) = Some (kTfLiteOk, handles, N, mem)"
    "mi_allocator J = N" "\<not> may_allocate_persistent J \<and> \<not> may_request_scratch J" "tensors_allocated J"
  show "at_rest J"
  proof (rule FinishModelAllocation_stages [OF A(2) assms(4)])
    fix B M2 m M3
    assume F: "CommitStaticMemoryPlan sub (fb_metadata (mi_model I)) words es handles (mi_allocator I1\<lparr>memory_allocator := B\<rparr>)
         Map.empty = Some (kTfLiteOk, M2, m)"
      "AllocateVariables sub es (M2, pointers_into es (scratch_addresses I) ++ m) = Some (kTfLiteOk, M3, mem)"
      "N = M3\<lparr>model_is_allocating := False\<rparr>"
    show ?thesis
      using CommitStaticMemoryPlan_ok(2) [OF F(1)] variables_scratch_requests(1) [OF F(2) A(1)] A(3-5) F(3)
      by (auto simp: at_rest_def)
  qed
qed

end
