(* ===== verification/Micro_Correctness.thy ===== *)
theory Micro_Correctness
  imports Micro_Allocated
begin

text \<open>
  The properties of an interpreter of TensorFlow Lite Micro, from its construction over any calls of its client
  with any kernels that use the context, and a small model they are tried on.
\<close>

section \<open>The subgraph of an allocation\<close>

lemma Micro_AllocateTensors_subgraph: "Micro_AllocateTensors K words I = Some (kTfLiteOk, J) \<Longrightarrow> mi_subgraph I \<noteq> None"
  by (erule Micro_AllocateTensors_cases) auto

lemma MicroInterpreter_resolver: "MicroInterpreter model R arena sz memory = Some I \<Longrightarrow> mi_resolver I = R"
  by (auto simp: MicroInterpreter_def MicroInterpreter_on_def Micro_Init_def split: bind_splits if_splits)

lemma MicroInterpreter_no_tensors:
  "MicroInterpreter model R arena sz memory = Some I \<Longrightarrow> input_tensor I = None \<and> mi_eval_tensors I = None"
  by (auto simp: MicroInterpreter_def MicroInterpreter_on_def Micro_Init_def split: bind_splits if_splits)

lemma GetSubGraphFromModel_single: "GetSubGraphFromModel model = Some sub \<longleftrightarrow> fb_subgraphs model = Some [sub]"
  by (auto simp: GetSubGraphFromModel_def split: option.splits list.splits)

lemma init_eval_tensor_ok:
  "InitializeTfLiteEvalTensorFromFlatbuffer t bs = Some (kTfLiteOk, e) \<Longrightarrow>
   ConvertTensorType (fb_type t) = (kTfLiteOk, eval_type e)
   \<and> eval_dims e = Some (case fb_shape t of None \<Rightarrow> [] | Some ds \<Rightarrow> ds)
   \<and> GetFlatbufferTensorBuffer t bs = Some (eval_data e)"
  by (auto simp: InitializeTfLiteEvalTensorFromFlatbuffer_def split: prod.splits if_splits bind_splits option.splits)

text \<open>What the plan of a model has a place for: tensors that have no data yet, and scratch buffers.\<close>

definition planned_location :: "fb_model \<Rightarrow> fb_tensor list \<Rightarrow> output_location \<Rightarrow> bool" where
  "planned_location model ts loc = (case loc of
     TensorData t \<Rightarrow> t < length ts \<and> \<not> fb_is_variable (ts ! t)
       \<and> GetFlatbufferTensorBuffer (ts ! t) (fb_buffers model) = Some None
   | ScratchHandle _ \<Rightarrow> True)"

lemma arena_after_allocation:
  assumes "MicroInterpreter model R arena sz memory = Some I" "kernels_use_the_context K" "Micro_AllocateTensors K words I = Some (st, J)"
  shows "head_ptr (memory_allocator (mi_allocator J)) \<le> tail_ptr (memory_allocator (mi_allocator J))"
  using MicroInterpreter_new(1) [OF assms(1)] Micro_AllocateTensors_allocator [OF assms(3,2)]
  by (auto simp: client_kept_def arena_ok_def)

section \<open>After an allocation that went well\<close>

lemma allocated_model:
  assumes "MicroInterpreter model R arena sz memory = Some I0" "kernels_use_the_context K"
    "(client_call K words)\<^sup>*\<^sup>* I0 I" "Micro_AllocateTensors K words I = Some (kTfLiteOk, J)"
  shows "\<exists>sub ts os ns es. fb_subgraphs model = Some [sub] \<and> fb_tensors sub = Some ts \<and> fb_operators sub = Some os
    \<and> node_and_registrations J = Some ns \<and> mi_eval_tensors J = Some es \<and> length ns = length os
    \<and> (os \<noteq> [] \<longrightarrow> (\<exists>opcodes. fb_operator_codes model = Some opcodes
          \<and> (\<forall>i<length os. node_of_operator R opcodes (os ! i) (ns ! i))))
    \<and> length es = length ts
    \<and> (\<forall>t<length ts. ConvertTensorType (fb_type (ts ! t)) = (kTfLiteOk, eval_type (es ! t))
         \<and> eval_dims (es ! t) = Some (case fb_shape (ts ! t) of None \<Rightarrow> [] | Some ds \<Rightarrow> ds))"
proof -
  have I: "mi_model I = model" "mi_subgraph I = GetSubGraphFromModel model" "mi_resolver I = R"
    using MicroInterpreter_new [OF assms(1)] MicroInterpreter_resolver [OF assms(1)] client_calls_kept [OF assms(3,2)] by (simp_all add: client_kept_def)
  obtain sub where sub: "mi_subgraph I = Some sub" "GetSubGraphFromModel model = Some sub"
    using Micro_AllocateTensors_subgraph [OF assms(4)] I(2) by auto
  show ?thesis
  proof (rule allocated [OF assms(4,2) sub(1) sub(2) [folded I(1)]])
    fix ts os ns es M mem
    assume A: "fb_tensors sub = Some ts" "fb_operators sub = Some os"
      "StartModelAllocation (op_parser K) (mi_model I) (mi_resolver I)
          (node_and_registrations I) (mi_eval_tensors I) (mi_allocator I) = Some (kTfLiteOk, Some ns, Some es, M)"
      "erased (node_and_registrations J) = Some (map erase_user ns)"
      "mi_eval_tensors J = Some (with_data (\<lambda>t. mem (TensorData t)) es)"
    obtain nodes where nodes: "node_and_registrations J = Some nodes" "map erase_user nodes = map erase_user ns"
      using A(4) by auto
    have len: "length nodes = length ns" using nodes(2) by (rule map_eq_imp_length_eq)
    have entry: "node_of_operator R' opcodes op (nodes ! i) = node_of_operator R' opcodes op (ns ! i)"
      if "i < length ns" for R' opcodes op i
      using that len nodes(2) by (metis node_of_operator_erase nth_map)
    show ?thesis
      by (rule StartModelAllocation_model [OF A(3) sub(2) [folded I(1)]])
        (use A sub(2) I(1,3) nodes(1) len entry in \<open>auto simp: list_all2_conv_all_nth GetSubGraphFromModel_single
          dest!: init_eval_tensor_ok\<close>)
  qed
qed

lemma runs_change_memory:
  assumes "MicroInterpreter model R arena sz memory = Some I0" "kernels_use_the_context K"
    "(client_call K words)\<^sup>*\<^sup>* I0 I" "Micro_AllocateTensors K words I = Some (kTfLiteOk, J)"
    "(\<lambda>A B. \<exists>st. Micro_Invoke K words A = Some (st, B))\<^sup>*\<^sup>* J J'"
  shows "J' = J\<lparr>mi_memory := mi_memory J'\<rparr>"
proof -
  have I: "mi_model I = model" "mi_subgraph I = GetSubGraphFromModel model"
    using MicroInterpreter_new [OF assms(1)] client_calls_kept [OF assms(3,2)] by (simp_all add: client_kept_def)
  obtain sub where sub: "mi_subgraph I = Some sub" "GetSubGraphFromModel (mi_model I) = Some sub"
    using Micro_AllocateTensors_subgraph [OF assms(4)] I by auto
  have rest: "at_rest J" by (rule Micro_AllocateTensors_rest [OF assms(4,2) sub])
  from assms(5) have "only_memory J J' \<and> at_rest J'"
    by (induction rule: rtranclp_induct)
      (use rest in \<open>auto intro: only_memory_refl only_memory_trans dest: Micro_Invoke_memory [OF _ assms(2)]\<close>)
  then show ?thesis by (auto simp: only_memory_def)
qed

section \<open>Tensors of the client\<close>

text \<open>A tensor made from the model file takes its data from the tensor of the run-time, if there is one.\<close>

lemma InitializeTfLiteTensorFromFlatbuffer_ok:
  assumes "InitializeTfLiteTensorFromFlatbuffer temp t bs A = Some (kTfLiteOk, r, B)"
  shows "ConvertTensorType (fb_type t) = (kTfLiteOk, tensor_type r)
    \<and> dims r = Some (case fb_shape t of None \<Rightarrow> [] | Some ds \<Rightarrow> ds) \<and> is_variable r = fb_is_variable t
    \<and> (\<exists>data. GetFlatbufferTensorBuffer t bs = Some data \<and> data_raw r = (case data of None \<Rightarrow> 0 | Some p \<Rightarrow> unat p))
    \<and> (\<exists>n. BytesRequiredForTensor t = (kTfLiteOk, n) \<and> bytes r = unat n)"
  using assms
  by (auto simp: InitializeTfLiteTensorFromFlatbuffer_def copy_quantization_def Let_def
      split: prod.splits bind_splits if_splits option.splits)

lemma make_tensor_ok:
  assumes "make_tensor temp model es k M = Some (Some r, N)"
  obtains sub ts t r' where "GetSubGraphFromModel model = Some sub" "fb_tensors sub = Some ts" "vec_at ts k = Some t"
    "ConvertTensorType (fb_type t) = (kTfLiteOk, tensor_type r)" "is_variable r = fb_is_variable t"
    "dims r = Some (case fb_shape t of None \<Rightarrow> [] | Some ds \<Rightarrow> ds)"
    "\<exists>n. BytesRequiredForTensor t = (kTfLiteOk, n) \<and> bytes r = unat n"
    "case es of None \<Rightarrow> (\<exists>data. GetFlatbufferTensorBuffer t (fb_buffers model) = Some data
           \<and> data_raw r = (case data of None \<Rightarrow> 0 | Some p \<Rightarrow> unat p))
     | Some es \<Rightarrow> (\<exists>e. vec_at es k = Some e \<and> data_raw r = (case eval_data e of None \<Rightarrow> 0 | Some p \<Rightarrow> unat p))"
proof -
  obtain sub ts t r' A B where m: "GetSubGraphFromModel model = Some sub" "fb_tensors sub = Some ts" "vec_at ts k = Some t"
    "InitializeTfLiteTensorFromFlatbuffer temp t (fb_buffers model) A = Some (kTfLiteOk, r', B)"
    "case es of None \<Rightarrow> r = r' | Some es \<Rightarrow> (\<exists>e. vec_at es k = Some e
        \<and> r = r'\<lparr>data_raw := (case eval_data e of None \<Rightarrow> 0 | Some p \<Rightarrow> unat p)\<rparr>)"
    using assms by (auto simp: make_tensor_def split: bind_splits prod.splits option.splits if_splits)
  note r' = InitializeTfLiteTensorFromFlatbuffer_ok [OF m(4)]
  show thesis
    by (rule that [OF m(1-3)]) (use m(5) r' in \<open>auto split: option.splits\<close>)
qed

text \<open>The tensor that \<^verbatim>\<open>TfLiteTensor\<close> and \<^verbatim>\<open>TfLiteEvalTensor\<close> both describe.\<close>

definition views :: "tensor \<Rightarrow> eval_tensor \<Rightarrow> bool" where
  "views r e \<longleftrightarrow> tensor_type r = eval_type e \<and> dims r = eval_dims e
     \<and> data_raw r = (case eval_data e of None \<Rightarrow> 0 | Some p \<Rightarrow> unat p)
     \<and> TfLiteEvalTensorByteLength e = Some (of_nat (bytes r))"

lemma bytes_of_tensor:
  assumes "ConvertTensorType (fb_type t) = (kTfLiteOk, eval_type e)" "eval_dims e = Some (case fb_shape t of None \<Rightarrow> [] | Some ds \<Rightarrow> ds)"
    "BytesRequiredForTensor t = (kTfLiteOk, n)"
  shows "TfLiteEvalTensorByteLength e = Some n"
  using assms by (auto simp: BytesRequiredForTensor_def TfLiteEvalTensorByteLength_def Let_def split: option.splits)

lemma persistent_tensor_views:
  assumes "persistent_tensor k I = Some (Some r, J)" "GetSubGraphFromModel (mi_model I) = Some sub" "fb_tensors sub = Some ts"
    "mi_eval_tensors I = Some es" "\<forall>t<length ts. ConvertTensorType (fb_type (ts ! t)) = (kTfLiteOk, eval_type (es ! t))
         \<and> eval_dims (es ! t) = Some (case fb_shape (ts ! t) of None \<Rightarrow> [] | Some ds \<Rightarrow> ds)"
  shows "0 \<le> k \<and> nat k < length es \<and> views r (es ! nat k)"
proof -
  obtain N where "make_tensor False (mi_model I) (Some es) k (mi_allocator I) = Some (Some r, N)"
    using assms(1,4) by (auto simp: persistent_tensor_def AllocatePersistentTfLiteTensor_def split: bind_splits)
  then show ?thesis
  proof (rule make_tensor_ok)
    fix sub' ts' t
    assume r: "GetSubGraphFromModel (mi_model I) = Some sub'" "fb_tensors sub' = Some ts'" "vec_at ts' k = Some t"
      "ConvertTensorType (fb_type t) = (kTfLiteOk, tensor_type r)" "dims r = Some (case fb_shape t of None \<Rightarrow> [] | Some ds \<Rightarrow> ds)"
      "\<exists>n. BytesRequiredForTensor t = (kTfLiteOk, n) \<and> bytes r = unat n"
      "case Some es of None \<Rightarrow> (\<exists>data. GetFlatbufferTensorBuffer t (fb_buffers (mi_model I)) = Some data
           \<and> data_raw r = (case data of None \<Rightarrow> 0 | Some p \<Rightarrow> unat p))
       | Some es \<Rightarrow> (\<exists>e. vec_at es k = Some e \<and> data_raw r = (case eval_data e of None \<Rightarrow> 0 | Some p \<Rightarrow> unat p))"
    have k: "0 \<le> k" "nat k < length ts" "t = ts ! nat k" "nat k < length es"
      using r(1-3,7) assms(2,3) by (auto simp: vec in_bounds_def)
    obtain n where n: "BytesRequiredForTensor t = (kTfLiteOk, n)" "bytes r = unat n" using r(6) by blast
    have e: "ConvertTensorType (fb_type t) = (kTfLiteOk, eval_type (es ! nat k))"
      "eval_dims (es ! nat k) = Some (case fb_shape t of None \<Rightarrow> [] | Some ds \<Rightarrow> ds)"
      using assms(5) k by auto
    show ?thesis
      using k r(4,5,7) e bytes_of_tensor [OF e n(1)] n(2) by (auto simp: views_def vec)
  qed
qed

section \<open>Room for requests\<close>

text \<open>While a model is prepared there is room in the head for the requests so far and up to eight of the next kernel, no more.\<close>

lemma room_for_requests:
  "preparing M \<Longrightarrow> unat (head_ptr (memory_allocator M)) = unat (buffer_head (memory_allocator M))
     + 16 * (length (scratch_requests M) + 8 - unassigned_requests (scratch_requests M))"
proof (induction rule: preparing.induct)
  case (started M M')
  then obtain A where A: "SetHeadBufferSize (16 * of_nat kMaxScratchBuffersPerOp) 8 (memory_allocator M) = (kTfLiteOk, A)"
    "M' = M\<lparr>scratch_requests := [], memory_allocator := A\<rparr>"
    by (auto simp: InitScratchBufferData_def split: prod.splits)
  then show ?case using head_for_requests [OF A(1) _ started(2,3)] by simp
next
  case (requested M n st r M')
  then show ?case
    using unassigned_le [of "scratch_requests M"]
    by (auto simp: RequestScratchBufferInArena_def Let_def split: if_splits)
next
  case (finished M node_id M')
  let ?rs = "map (\<lambda>r. if request_node_idx r = kUnassignedScratchBufferRequestIndex then r\<lparr>request_node_idx := node_id\<rparr> else r)
    (scratch_requests M)"
  obtain A where A: "SetHeadBufferSize (16 * of_nat (length ?rs + kMaxScratchBuffersPerOp)) 8
      (ResetTempAllocations (memory_allocator M)) = (kTfLiteOk, A)" "M' = M\<lparr>memory_allocator := A, scratch_requests := ?rs\<rparr>"
    using finished(2) by (auto simp: FinishPrepareNodeAllocations_def Let_def split: prod.splits)
  have none: "unassigned_requests ?rs = 0" using finished(3) by (auto simp: filter_empty_conv)
  have "length ?rs + kMaxScratchBuffersPerOp < 2 ^ 60" using finished(4) by simp
  then show ?case
    using head_for_requests [OF A(1)] preparing_requests_ok [OF finished(1)] none A(2)
    by (simp add: requests_ok_def Let_def ResetTempAllocations_def)
next
  case (persistent M n p M')
  then show ?case by (auto simp: AllocatePersistentBuffer_def AllocateFromTail_def Let_def split: prod.splits if_splits)
qed

lemma FinishPrepareNodeAllocations_failed:
  assumes "fst (FinishPrepareNodeAllocations i M) \<noteq> kTfLiteOk" "preparing M" "0 \<le> i" "unassigned_requests (scratch_requests M) = 8"
  shows "RequestScratchBufferInArena n (snd (FinishPrepareNodeAllocations i M)) = None"
proof -
  let ?rs = "map (\<lambda>r. if request_node_idx r = kUnassignedScratchBufferRequestIndex then r\<lparr>request_node_idx := i\<rparr> else r)
    (scratch_requests M)"
  let ?A = "ResetTempAllocations (memory_allocator M)"
  define needed where "needed = (16 * (of_nat (length ?rs) + of_nat kMaxScratchBuffersPerOp) :: 64 word)"
  obtain st A where A: "SetHeadBufferSize needed 8 ?A = (st, A)" by (cases "SetHeadBufferSize needed 8 ?A")
  have st: "st \<noteq> kTfLiteOk" "snd (FinishPrepareNodeAllocations i M) = M\<lparr>memory_allocator := A, scratch_requests := ?rs\<rparr>"
    using assms(1) A by (simp_all add: FinishPrepareNodeAllocations_def Let_def needed_def)
  have "A = ?A" using A st(1) by (auto simp: SetHeadBufferSize_def Let_def split: if_splits)
  then have N: "snd (FinishPrepareNodeAllocations i M) = M\<lparr>memory_allocator := ?A, scratch_requests := ?rs\<rparr>" using st(2) by simp
  have "unassigned_requests ?rs = 0" using assms(3) by (auto simp: filter_empty_conv)
  moreover have "GetScratchBufferRequests (M\<lparr>memory_allocator := ?A, scratch_requests := ?rs\<rparr>) = buffer_head (memory_allocator M)"
    using requests_start [OF preparing_requests_ok [OF assms(2)]]
    by (simp add: GetScratchBufferRequests_def GetHeadBuffer_def ResetTempAllocations_def)
  ultimately show ?thesis
    using room_for_requests [OF assms(2)] assms(4)
    by (simp add: N RequestScratchBufferInArena_def Let_def ResetTempAllocations_def)
qed

section \<open>A model to run\<close>

text \<open>
  Two operators (\<open>ADD\<close>) in a row, the first of which also reads an 8-bit variable with zero point 5 and
  asks for a scratch buffer of 20 bytes.
\<close>

definition demo_variable :: fb_tensor where
  "demo_variable = plain_fb_tensor\<lparr>fb_type := TensorType_INT8, fb_is_variable := True,
     fb_tensor_quantization := Some \<lparr>fb_scale = Some [1], fb_zero_point = Some [5], fb_quantized_dimension = 0\<rparr>\<rparr>"

definition demo_subgraph :: fb_subgraph where
  "demo_subgraph = \<lparr>fb_tensors = Some [plain_fb_tensor, plain_fb_tensor, plain_fb_tensor, demo_variable],
     fb_inputs = Some [0], fb_outputs = Some [2], fb_operators = Some [plain_operator [0, 3] [1], plain_operator [1] [2]]\<rparr>"

definition demo_model :: fb_model where
  "demo_model = \<lparr>fb_model_version = 3,
     fb_operator_codes = Some [\<lparr>deprecated_builtin_code = 0, fb_custom_code = None, fb_version = 1, fb_builtin_code = 0\<rparr>],
     fb_subgraphs = Some [demo_subgraph], fb_buffers = Some [None], fb_metadata = None\<rparr>"

definition demo_resolver :: micro_op_resolver where
  "demo_resolver = micro_resolver (snd (Micro_AddBuiltin 1 0
     \<lparr>op_init = NullOp, op_free = NullOp, op_prepare = Kernel 0, op_invoke = Kernel 0, builtin_code = 0, custom_name = None,
      op_version = 0\<rparr> 0 MicroMutableOpResolver))"

definition demo_kernels :: micro_kernels where
  "demo_kernels = \<lparr>op_parser = (\<lambda>_ _ A. Some (kTfLiteOk, 0, A)), init_op = (\<lambda>_ _ I. Some (0, I)),
     prepare_op = (\<lambda>_ i I. if i \<noteq> 0 then Some (kTfLiteOk, I)
       else map_option (\<lambda>(st, _, I). (st, I)) (Context_RequestScratchBufferInArena 20 I)),
     invoke_op = (\<lambda>_ _ I. Some (kTfLiteOk, I)), free_op = (\<lambda>_ _ I. Some I)\<rparr>"

lemma demo_kernels_use_the_context: "kernels_use_the_context demo_kernels"
  by (auto simp: kernels_use_the_context_def demo_kernels_def parsers_allocate_def intro: context_step.scratch r_into_rtranclp)

definition demo_run :: "64 word \<Rightarrow> (tflite_status \<times> micro_interpreter) option" where
  "demo_run sz = Option.bind (MicroInterpreter demo_model demo_resolver 0x1000 sz (\<lambda>_. 0))
     (Micro_AllocateTensors demo_kernels (\<lambda>_. None))"

lemma demo_allocated:
  "case demo_run 0x400 of None \<Rightarrow> False
   | Some (st, J) \<Rightarrow> st = kTfLiteOk \<and> scratch_addresses J 0 = Some 0x1000
       \<and> map_option (map eval_data) (mi_eval_tensors J) = Some [Some 0x1030, Some 0x1020, Some 0x1000, Some 0x12B0]"
  by code_simp

lemma demo_refused: "case demo_run 0x300 of None \<Rightarrow> False | Some (st, J) \<Rightarrow> st = kTfLiteError"
  by code_simp


section \<open>Properties\<close>

text \<open>
  C25: An allocation that fails is final: whatever the client calls next, every later \<^verbatim>\<open>AllocateTensors\<close> is
  refused, of this interpreter and of all others that use the same allocator, whatever their kernels.
\<close>

theorem failed_allocation_is_final:
  assumes "MicroInterpreter model R arena sz memory = Some I0" "kernels_use_the_context K"
    "(client_call K words)\<^sup>*\<^sup>* I0 I" "Micro_AllocateTensors K words I = Some (st, J)" "st \<noteq> kTfLiteOk"
    "(client_call K words)\<^sup>*\<^sup>* J J'" "mi_allocator I' = mi_allocator J'"
  shows "Micro_AllocateTensors K' words' I' = Some (kTfLiteError, I'\<lparr>initialization_status := kTfLiteError\<rparr>)"
proof -
  note new = MicroInterpreter_new [OF assms(1)] and kept = client_calls_kept [OF assms(3,2)]
  have "mi_subgraph I = GetSubGraphFromModel (mi_model I)" using new kept by (simp add: client_kept_def)
  then have "model_is_allocating (mi_allocator J)"
    using Micro_AllocateTensors_allocator [OF assms(4,2)] assms(5) by simp
  then have "model_is_allocating (mi_allocator I')" using client_calls_stuck [OF assms(6,2)] assms(7) by simp
  then show ?thesis by (rule Micro_AllocateTensors_refuses)
qed

theorem failed_allocation_is_final_witness:
  "\<exists>J. demo_run 0x300 = Some (kTfLiteError, J)
    \<and> Micro_AllocateTensors demo_kernels (\<lambda>_. None) J = Some (kTfLiteError, J\<lparr>initialization_status := kTfLiteError\<rparr>)"
proof -
  obtain I st J where run: "MicroInterpreter demo_model demo_resolver 0x1000 0x300 (\<lambda>_. 0) = Some I"
    "Micro_AllocateTensors demo_kernels (\<lambda>_. None) I = Some (st, J)" "st = kTfLiteError"
    using demo_refused by (auto simp: demo_run_def split: option.splits bind_splits)
  have "Micro_AllocateTensors demo_kernels (\<lambda>_. None) J = Some (kTfLiteError, J\<lparr>initialization_status := kTfLiteError\<rparr>)"
    by (rule failed_allocation_is_final [OF run(1) demo_kernels_use_the_context rtranclp.rtrancl_refl run(2) _ rtranclp.rtrancl_refl refl])
      (simp add: run(3))
  then show ?thesis using run by (simp add: demo_run_def)
qed

text \<open>
  C29: Whatever a client calls, and whatever kernels do through the context, the head of the arena starts
  where it did and never reaches into the tail, and the interpreter keeps its model.
\<close>

theorem arena_is_kept_apart:
  assumes "MicroInterpreter model R arena sz memory = Some I" "kernels_use_the_context K" "(client_call K words)\<^sup>*\<^sup>* I J"
  shows "buffer_head (memory_allocator (mi_allocator J)) = AlignPointerUp arena 16
    \<and> AlignPointerUp arena 16 \<le> head_ptr (memory_allocator (mi_allocator J))
    \<and> head_ptr (memory_allocator (mi_allocator J)) \<le> tail_ptr (memory_allocator (mi_allocator J))
    \<and> mi_model J = model \<and> mi_subgraph J = GetSubGraphFromModel model"
  using MicroInterpreter_new [OF assms(1)] client_calls_kept [OF assms(3,2)]
  unfolding client_kept_def arena_ok_def by fastforce

theorem arena_is_kept_apart_witness:
  "\<exists>st J. demo_run 0x400 = Some (st, J) \<and> head_ptr (memory_allocator (mi_allocator J)) \<le> tail_ptr (memory_allocator (mi_allocator J))"
proof -
  obtain I st J where run: "MicroInterpreter demo_model demo_resolver 0x1000 0x400 (\<lambda>_. 0) = Some I"
    "Micro_AllocateTensors demo_kernels (\<lambda>_. None) I = Some (st, J)"
    using demo_allocated by (auto simp: demo_run_def split: option.splits bind_splits)
  have "(client_call demo_kernels (\<lambda>_. None))\<^sup>*\<^sup>* I J" using client_call.allocate [OF run(2)] by blast
  from arena_is_kept_apart [OF run(1) demo_kernels_use_the_context this] run show ?thesis by (simp add: demo_run_def)
qed

text \<open>
  C27: After \<^verbatim>\<open>AllocateTensors\<close> returned \<^verbatim>\<open>kTfLiteOk\<close>, the interpreter holds the model: for each operator a node with
  its inputs and outputs and the registration that its code resolves to, and for each tensor its type and shape.
\<close>

theorem allocated_interpreter_is_the_model:
  assumes "MicroInterpreter model R arena sz memory = Some I0" "kernels_use_the_context K"
    "(client_call K words)\<^sup>*\<^sup>* I0 I" "Micro_AllocateTensors K words I = Some (kTfLiteOk, J)"
  shows "\<exists>sub ts os ns es. fb_subgraphs model = Some [sub] \<and> fb_tensors sub = Some ts \<and> fb_operators sub = Some os
    \<and> node_and_registrations J = Some ns \<and> mi_eval_tensors J = Some es \<and> length ns = length os
    \<and> (os \<noteq> [] \<longrightarrow> (\<exists>opcodes. fb_operator_codes model = Some opcodes
          \<and> (\<forall>i<length os. node_of_operator R opcodes (os ! i) (ns ! i))))
    \<and> length es = length ts
    \<and> (\<forall>t<length ts. ConvertTensorType (fb_type (ts ! t)) = (kTfLiteOk, eval_type (es ! t))
         \<and> eval_dims (es ! t) = Some (case fb_shape (ts ! t) of None \<Rightarrow> [] | Some ds \<Rightarrow> ds))"
  by (rule allocated_model [OF assms])

theorem allocated_interpreter_is_the_model_witness:
  "\<exists>J ns. demo_run 0x400 = Some (kTfLiteOk, J) \<and> node_and_registrations J = Some ns \<and> length ns = 2"
proof -
  obtain I J where run: "MicroInterpreter demo_model demo_resolver 0x1000 0x400 (\<lambda>_. 0) = Some I"
    "Micro_AllocateTensors demo_kernels (\<lambda>_. None) I = Some (kTfLiteOk, J)"
    using demo_allocated by (auto simp: demo_run_def split: option.splits bind_splits)
  from allocated_interpreter_is_the_model [OF run(1) demo_kernels_use_the_context rtranclp.rtrancl_refl run(2)] run
  show ?thesis by (auto simp: demo_run_def demo_model_def demo_subgraph_def)
qed

text \<open>
  C26: After \<^verbatim>\<open>AllocateTensors\<close> returned \<^verbatim>\<open>kTfLiteOk\<close>, running the model changes what is in memory and nothing else, as
  often as it is run and also when a kernel fails: no block of the arena is used up, and temporary memory is given back.
\<close>

theorem running_uses_up_nothing:
  assumes "MicroInterpreter model R arena sz memory = Some I0" "kernels_use_the_context K"
    "(client_call K words)\<^sup>*\<^sup>* I0 I" "Micro_AllocateTensors K words I = Some (kTfLiteOk, J)"
    "(\<lambda>A B. \<exists>st. Micro_Invoke K words A = Some (st, B))\<^sup>*\<^sup>* J J'"
  shows "J' = J\<lparr>mi_memory := mi_memory J'\<rparr>"
  by (rule runs_change_memory [OF assms])

theorem running_uses_up_nothing_witness:
  "\<exists>J st J'. demo_run 0x400 = Some (kTfLiteOk, J) \<and> Micro_Invoke demo_kernels (\<lambda>_. None) J = Some (st, J')
    \<and> J' = J\<lparr>mi_memory := mi_memory J'\<rparr>"
proof -
  obtain I J where run: "MicroInterpreter demo_model demo_resolver 0x1000 0x400 (\<lambda>_. 0) = Some I"
    "Micro_AllocateTensors demo_kernels (\<lambda>_. None) I = Some (kTfLiteOk, J)"
    using demo_allocated by (auto simp: demo_run_def split: option.splits bind_splits)
  have "Option.bind (demo_run 0x400) (\<lambda>(st, J). Micro_Invoke demo_kernels (\<lambda>_. None) J) \<noteq> None" by code_simp
  then obtain st J' where invoke: "Micro_Invoke demo_kernels (\<lambda>_. None) J = Some (st, J')"
    using run by (auto simp: demo_run_def)
  have "(\<lambda>A B. \<exists>st. Micro_Invoke demo_kernels (\<lambda>_. None) A = Some (st, B))\<^sup>*\<^sup>* J J'" using invoke by blast
  from running_uses_up_nothing [OF run(1) demo_kernels_use_the_context rtranclp.rtrancl_refl run(2) this] run invoke
  show ?thesis by (auto simp: demo_run_def)
qed

text \<open>
  C24: After construction and a successful \<^verbatim>\<open>AllocateTensors\<close>, tensors and scratch buffers that hold values while the
  same operator runs do not share memory, and all of them lie in the head of the arena, below every persistent
  block. The tensors are those without data in the model file that are not variables; the sizes have to sum up to
  less than 2 GiB, and the model must not bring a plan of its own.
\<close>

theorem allocated_buffers_are_apart:
  assumes "MicroInterpreter model R arena sz memory = Some I" "kernels_use_the_context K"
    "Micro_AllocateTensors K words I = Some (kTfLiteOk, J)" "fb_subgraphs model = Some [sub]" "fb_metadata model = None"
    "fb_tensors sub = Some ts" "mi_eval_tensors J = Some es" "requests = scratch_requests (mi_allocator J)"
    "total_bytes es requests (length ts) < 2 ^ 31"
    "planned_location model ts a" "planned_location model ts b" "a \<noteq> b" "in_use_at sub requests a i" "in_use_at sub requests b i"
    "pointers_of J a = Some x" "pointers_of J b = Some y"
  shows "(unat x + bytes_at es requests a \<le> unat y \<or> unat y + bytes_at es requests b \<le> unat x)
    \<and> AlignPointerUp arena 16 \<le> x
    \<and> unat x + bytes_at es requests a \<le> unat (head_ptr (memory_allocator (mi_allocator J)))
    \<and> head_ptr (memory_allocator (mi_allocator J)) \<le> tail_ptr (memory_allocator (mi_allocator J))"
proof (rule allocated_end [OF assms(1-3) GetSubGraphFromModel_single [THEN iffD2, OF assms(4)]])
  fix ts' es0 M M2 M3 m handles mem
  assume A: "fb_tensors sub = Some ts'"
    "list_all2 (\<lambda>t e. InitializeTfLiteEvalTensorFromFlatbuffer t (fb_buffers model) = Some (kTfLiteOk, e)) ts' es0"
    "mi_eval_tensors J = Some (with_data (\<lambda>t. mem (TensorData t)) es0)" "scratch_addresses J = (\<lambda>s. mem (ScratchHandle s))"
    "arena_ok (AlignPointerUp arena 16) M"
    "CommitStaticMemoryPlan sub (fb_metadata model) words es0 handles M Map.empty = Some (kTfLiteOk, M2, m)"
    "AllocateVariables sub es0 (M2, pointers_into es0 Map.empty ++ m) = Some (kTfLiteOk, M3, mem)"
    "mi_allocator J = M3\<lparr>model_is_allocating := False\<rparr>"
  have es: "es = with_data (\<lambda>t. mem (TensorData t)) es0" and ts: "ts' = ts" and len: "length es0 = length ts"
    using A(1-3) assms(6,7) by (auto dest: list_all2_lengthD)
  obtain t where M3: "M3 = M2\<lparr>memory_allocator := (memory_allocator M2)\<lparr>tail_ptr := t\<rparr>\<rparr>"
    using variables_scratch_requests(1) [OF A(7,1)] by blast
  have requests: "requests = scratch_requests M" using assms(8) A(8) M3 CommitStaticMemoryPlan_ok(1) [OF A(6)] by simp
  have planned: "m loc = Some z" if loc: "planned_location model ts loc" "pointers_of J loc = Some z" for loc z
  proof -
    have "mem loc = (pointers_into es0 Map.empty ++ m) loc"
      by (rule variables_scratch_requests(2) [OF A(7,1)]) (use loc(1) ts in \<open>auto simp: planned_location_def\<close>)
    moreover have "pointers_into es0 Map.empty loc = None"
    proof (cases loc)
      case (TensorData t)
      with loc(1) have "t < length ts" "GetFlatbufferTensorBuffer (ts ! t) (fb_buffers model) = Some None"
        by (simp_all add: planned_location_def)
      then show ?thesis using TensorData A(2) ts len init_eval_tensor_ok [of "ts ! t" _ "es0 ! t"]
        by (auto simp: pointers_into_def list_all2_conv_all_nth)
    qed (simp add: pointers_into_def)
    moreover have "mem loc = Some z"
      using loc A(3,4) len by (auto simp: pointers_of_def planned_location_def split: output_location.splits)
    ultimately show ?thesis by (auto simp: map_add_def split: option.splits)
  qed
  have same: "bytes_at es requests loc = bytes_at es0 requests loc" if "planned_location model ts loc" for loc
    unfolding es using that len by (intro bytes_at_with_data) (simp add: planned_location_def)
  have small: "total_bytes es0 (scratch_requests M) (length ts) < 2 ^ 31"
    using assms(9) es len requests total_bytes_with_data [of _ es0] by metis
  have arena: "unat (buffer_head (memory_allocator M)) mod 16 = 0" "buffer_head (memory_allocator M) \<le> tail_ptr (memory_allocator M)"
    "max_head_buffer_usage M < 2 ^ 64" "buffer_head (memory_allocator M) = AlignPointerUp arena 16"
    using A(5) by (auto simp: arena_ok_def)
  have final: "head_ptr (memory_allocator (mi_allocator J)) = head_ptr (memory_allocator M2)" using A(8) M3 by simp
  have tail: "head_ptr (memory_allocator (mi_allocator J)) \<le> tail_ptr (memory_allocator (mi_allocator J))"
    using arena_after_allocation [OF assms(1-3)] .
  from live_buffers_apart_in_the_head [OF A(6) [unfolded assms(5)] assms(6) small arena(1-3)
      planned [OF assms(10,15)] planned [OF assms(11,16)] assms(12)] assms(13,14)
  show ?thesis using arena(4) final tail same [OF assms(10)] same [OF assms(11)] unfolding requests by simp
qed

theorem allocated_buffers_are_apart_witness:
  "\<exists>J x y. demo_run 0x400 = Some (kTfLiteOk, J) \<and> pointers_of J (ScratchHandle 0) = Some x \<and> pointers_of J (TensorData 1) = Some y
    \<and> (unat x + 20 \<le> unat y \<or> unat y + 16 \<le> unat x)"
proof -
  obtain I J where run: "MicroInterpreter demo_model demo_resolver 0x1000 0x400 (\<lambda>_. 0) = Some I"
    "Micro_AllocateTensors demo_kernels (\<lambda>_. None) I = Some (kTfLiteOk, J)"
    using demo_allocated by (auto simp: demo_run_def split: option.splits bind_splits)
  have J: "demo_run 0x400 = Some (kTfLiteOk, J)" using run by (simp add: demo_run_def)
  have "case demo_run 0x400 of None \<Rightarrow> False | Some (st, J) \<Rightarrow> (case mi_eval_tensors J of None \<Rightarrow> False | Some es \<Rightarrow>
      map (pointers_of J) [ScratchHandle 0, TensorData 1] = [Some 0x1000, Some 0x1020]
      \<and> map (bytes_at es (scratch_requests (mi_allocator J))) [ScratchHandle 0, TensorData 1] = [20, 16]
      \<and> total_bytes es (scratch_requests (mi_allocator J)) 4 = 152 \<and> map request_node_idx (scratch_requests (mi_allocator J)) = [0])"
    by code_simp
  then obtain es where es: "mi_eval_tensors J = Some es" "map (pointers_of J) [ScratchHandle 0, TensorData 1] = [Some 0x1000, Some 0x1020]"
    "map (bytes_at es (scratch_requests (mi_allocator J))) [ScratchHandle 0, TensorData 1] = [20, 16]"
    "total_bytes es (scratch_requests (mi_allocator J)) 4 = 152" "map request_node_idx (scratch_requests (mi_allocator J)) = [0]"
    by (auto simp: J split: option.splits)
  have model: "fb_subgraphs demo_model = Some [demo_subgraph]" "fb_metadata demo_model = None"
    "fb_tensors demo_subgraph = Some [plain_fb_tensor, plain_fb_tensor, plain_fb_tensor, demo_variable]"
    by (simp_all add: demo_model_def demo_subgraph_def)
  have planned: "planned_location demo_model [plain_fb_tensor, plain_fb_tensor, plain_fb_tensor, demo_variable] (TensorData 1)"
    "planned_location demo_model [plain_fb_tensor, plain_fb_tensor, plain_fb_tensor, demo_variable] (ScratchHandle 0)"
    by (simp_all add: planned_location_def plain_fb_tensor_def demo_model_def GetFlatbufferTensorBuffer_def vec in_bounds_def)
  have "defined_at demo_subgraph 1 0" "used_at demo_subgraph 1 1"
    by (simp_all add: defined_at_def used_at_def demo_subgraph_def plain_operator_def)
  then have live: "in_use_at demo_subgraph (scratch_requests (mi_allocator J)) (TensorData 1) 0"
    "in_use_at demo_subgraph (scratch_requests (mi_allocator J)) (ScratchHandle 0) 0"
    using es(5) by (auto simp: in_use_at_def)
  from allocated_buffers_are_apart [OF run(1) demo_kernels_use_the_context run(2) model es(1) refl _ planned(2,1) _ live(2,1)] es(2-4)
  show ?thesis using J by auto
qed

text \<open>
  C28: After construction and a successful \<^verbatim>\<open>AllocateTensors\<close>, every variable tensor holds its zero value: its zero point
  in every byte if it is an 8-bit tensor, else 0. Its memory is above the head. No variable may be larger than the
  address of the arena.
\<close>

theorem variables_start_at_zero:
  assumes "MicroInterpreter model R arena sz memory = Some I" "kernels_use_the_context K"
    "Micro_AllocateTensors K words I = Some (kTfLiteOk, J)" "fb_subgraphs model = Some [sub]"
    "fb_tensors sub = Some ts" "mi_eval_tensors J = Some es"
    "\<forall>t<length ts. fb_is_variable (ts ! t) \<longrightarrow> bytes_at es [] (TensorData t) \<le> unat (AlignPointerUp arena 16)"
    "i < length ts" "fb_is_variable (ts ! i)"
  shows "\<exists>p v. eval_data (es ! i) = Some p \<and> reset_value (ts ! i) = Some v
    \<and> (\<forall>k<bytes_at es [] (TensorData i). mi_memory J (p + of_nat k) = v)
    \<and> head_ptr (memory_allocator (mi_allocator J)) \<le> p"
proof (rule allocated_end [OF assms(1-3) GetSubGraphFromModel_single [THEN iffD2, OF assms(4)]])
  fix ts' es0 M M2 M3 m handles mem J1
  assume A: "fb_tensors sub = Some ts'"
    "list_all2 (\<lambda>t e. InitializeTfLiteEvalTensorFromFlatbuffer t (fb_buffers model) = Some (kTfLiteOk, e)) ts' es0"
    "mi_eval_tensors J = Some (with_data (\<lambda>t. mem (TensorData t)) es0)"
    "arena_ok (AlignPointerUp arena 16) M"
    "CommitStaticMemoryPlan sub (fb_metadata model) words es0 handles M Map.empty = Some (kTfLiteOk, M2, m)"
    "AllocateVariables sub es0 (M2, pointers_into es0 Map.empty ++ m) = Some (kTfLiteOk, M3, mem)"
    "mi_allocator J = M3\<lparr>model_is_allocating := False\<rparr>" "mi_eval_tensors J1 = mi_eval_tensors J"
    "do_each_ok (reset_variable ts') [0..<length ts'] J1 = Some (kTfLiteOk, J\<lparr>tensors_allocated := tensors_allocated J1\<rparr>)"
  have es: "es = with_data (\<lambda>t. mem (TensorData t)) es0" and ts: "ts' = ts" and len: "length es0 = length ts"
    using A(1-3) assms(5,6) by (auto dest: list_all2_lengthD)
  have bytes: "bytes_at es [] (TensorData t) = bytes_at es0 [] (TensorData t)" if "t < length ts" for t
    unfolding es using that len by (intro bytes_at_with_data) simp
  have arena: "arena_ok (AlignPointerUp arena 16) M2"
    using CommitStaticMemoryPlan_kept [OF A(5)] A(4) by (simp add: allocator_kept_def)
  have room: "\<forall>t<length ts. fb_is_variable (ts ! t) \<longrightarrow> bytes_at es0 [] (TensorData t) \<le> unat (head_ptr (memory_allocator M2))"
    using assms(7) bytes arena by (auto simp: arena_ok_def word_le_nat_alt intro: order_trans)
  have placed: "variables_placed ts es0 M2 (pointers_into es0 Map.empty ++ m) (length ts) (M3, mem)"
    using arena by (intro AllocateVariables_placed [OF A(6) assms(5) _ room]) (simp add: arena_ok_def)
  have filled: "variables_filled ts es0 mem (length ts) (J\<lparr>tensors_allocated := tensors_allocated J1\<rparr>)"
    by (rule reset_variables_filled [OF A(9) [unfolded ts] _ placed]) (simp add: A(3,8))
  obtain p where p: "mem (TensorData i) = Some p" "tail_ptr (memory_allocator M3) \<le> p"
    using placed assms(8,9) by (auto simp: variables_placed_def)
  have "head_ptr (memory_allocator (mi_allocator J)) \<le> tail_ptr (memory_allocator (mi_allocator J))"
    by (rule arena_after_allocation [OF assms(1-3)])
  then have "head_ptr (memory_allocator (mi_allocator J)) \<le> p" using p(2) A(7) by simp
  then show ?thesis
    using filled assms(8,9) p(1) len bytes [OF assms(8)] unfolding variables_filled_def es by auto
qed

theorem variables_start_at_zero_witness:
  "\<exists>J es p. demo_run 0x400 = Some (kTfLiteOk, J) \<and> mi_eval_tensors J = Some es \<and> eval_data (es ! 3) = Some p
    \<and> (\<forall>k<4. mi_memory J (p + of_nat k) = 5)"
proof -
  obtain I J where run: "MicroInterpreter demo_model demo_resolver 0x1000 0x400 (\<lambda>_. 0) = Some I"
    "Micro_AllocateTensors demo_kernels (\<lambda>_. None) I = Some (kTfLiteOk, J)"
    using demo_allocated by (auto simp: demo_run_def split: option.splits bind_splits)
  have J: "demo_run 0x400 = Some (kTfLiteOk, J)" using run by (simp add: demo_run_def)
  have "case demo_run 0x400 of None \<Rightarrow> False | Some (st, J) \<Rightarrow> (case mi_eval_tensors J of None \<Rightarrow> False | Some es \<Rightarrow>
      bytes_at es [] (TensorData 3) = 4)"
    by code_simp
  then obtain es where es: "mi_eval_tensors J = Some es" "bytes_at es [] (TensorData 3) = 4"
    by (auto simp: J split: option.splits)
  let ?ts = "[plain_fb_tensor, plain_fb_tensor, plain_fb_tensor, demo_variable]"
  have model: "fb_subgraphs demo_model = Some [demo_subgraph]" "fb_tensors demo_subgraph = Some ?ts"
    by (simp_all add: demo_model_def demo_subgraph_def)
  have variable: "fb_is_variable (?ts ! t) \<longleftrightarrow> t = 3" if "t < length ?ts" for t
    using that by (auto simp: less_Suc_eq plain_fb_tensor_def demo_variable_def)
  have start: "unat (AlignPointerUp 0x1000 16) = 0x1000" by (simp add: AlignPointerUp_def)
  have fits: "\<forall>t<length ?ts. fb_is_variable (?ts ! t) \<longrightarrow> bytes_at es [] (TensorData t) \<le> unat (AlignPointerUp 0x1000 16)"
    using variable es(2) start by auto
  have "reset_value demo_variable = Some 5"
    by (simp add: reset_value_def demo_variable_def plain_fb_tensor_def vec in_bounds_def)
  then show ?thesis
    using variables_start_at_zero [OF run(1) demo_kernels_use_the_context run(2) model es(1) fits, of 3] variable [of 3] es J by auto
qed

text \<open>
  After a successful \<^verbatim>\<open>AllocateTensors\<close> the tensors that the interpreter hands out describe those it runs on:
  \<^verbatim>\<open>tensor(n)\<close> has the type, the shape, the size and the address of the tensor \<open>n\<close> of the run-time.
\<close>

theorem client_tensors_are_those_of_the_run_time:
  assumes "MicroInterpreter model R arena sz memory = Some I0" "kernels_use_the_context K"
    "(client_call K words)\<^sup>*\<^sup>* I0 I" "Micro_AllocateTensors K words I = Some (kTfLiteOk, J)"
    "(\<lambda>A B. \<exists>st. Micro_Invoke K words A = Some (st, B))\<^sup>*\<^sup>* J J'" "Micro_tensor n J' = Some (Some r, J2)"
  shows "\<exists>es. mi_eval_tensors J2 = Some es \<and> n < length es \<and> views r (es ! n)"
proof -
  obtain sub ts es where model: "fb_subgraphs model = Some [sub]" "fb_tensors sub = Some ts" "mi_eval_tensors J = Some es"
    "\<forall>t<length ts. ConvertTensorType (fb_type (ts ! t)) = (kTfLiteOk, eval_type (es ! t))
         \<and> eval_dims (es ! t) = Some (case fb_shape (ts ! t) of None \<Rightarrow> [] | Some ds \<Rightarrow> ds)"
    using allocated_model [OF assms(1-4)] by blast
  have J': "J' = J\<lparr>mi_memory := mi_memory J'\<rparr>" by (rule runs_change_memory [OF assms(1-5)])
  have "client_kept I0 J" by (rule client_kept_trans [OF client_calls_kept [OF assms(3,2)]])
      (use Micro_AllocateTensors_allocator [OF assms(4,2)] in blast)
  then have "mi_model J' = model" using MicroInterpreter_new(2) [OF assms(1)] by (subst J') (simp add: client_kept_def)
  then have sub: "GetSubGraphFromModel (mi_model J') = Some sub" using model(1) by (simp add: GetSubGraphFromModel_single)
  have es: "mi_eval_tensors J' = Some es" by (subst J') (simp add: model(3))
  have tensor: "persistent_tensor (int n) J' = Some (Some r, J2)" using assms(6) by (auto simp: Micro_tensor_def split: if_splits)
  have "mi_eval_tensors J2 = Some es" using tensor es by (auto simp: persistent_tensor_def split: bind_splits)
  then show ?thesis using persistent_tensor_views [OF tensor sub model(2) es model(4)] by simp
qed

theorem client_tensors_are_those_of_the_run_time_witness:
  "\<exists>J r J2 es. demo_run 0x400 = Some (kTfLiteOk, J) \<and> Micro_tensor 1 J = Some (Some r, J2) \<and> mi_eval_tensors J2 = Some es
    \<and> views r (es ! 1)"
proof -
  obtain I J where run: "MicroInterpreter demo_model demo_resolver 0x1000 0x400 (\<lambda>_. 0) = Some I"
    "Micro_AllocateTensors demo_kernels (\<lambda>_. None) I = Some (kTfLiteOk, J)"
    using demo_allocated by (auto simp: demo_run_def split: option.splits bind_splits)
  have "case Option.bind (demo_run 0x400) (\<lambda>(st, J). Micro_tensor 1 J) of None \<Rightarrow> False | Some (r, _) \<Rightarrow> r \<noteq> None"
    by code_simp
  then obtain r J2 where tensor: "Micro_tensor 1 J = Some (Some r, J2)"
    using run by (auto simp: demo_run_def split: option.splits)
  from client_tensors_are_those_of_the_run_time [OF run(1) demo_kernels_use_the_context rtranclp.rtrancl_refl run(2)
      rtranclp.rtrancl_refl tensor] run tensor
  show ?thesis by (auto simp: demo_run_def)
qed

text \<open>
  The input tensor that a client asks for before \<^verbatim>\<open>AllocateTensors\<close> is kept: \<^verbatim>\<open>input(0)\<close> returns it after any
  later calls, with the null pointer it had, although the model runs on other memory.
\<close>

theorem early_input_stays_null:
  assumes "MicroInterpreter model R arena sz memory = Some I" "kernels_use_the_context K"
    "Micro_input 0 I = Some (Some t, I1)" "(client_call K words)\<^sup>*\<^sup>* I1 J"
    "fb_subgraphs model = Some [sub]" "fb_inputs sub = Some (i # is)" "fb_tensors sub = Some ts"
    "GetFlatbufferTensorBuffer (ts ! nat i) (fb_buffers model) = Some None"
  shows "Micro_input 0 J = Some (Some t, J) \<and> data_raw t = 0"
proof -
  note new = MicroInterpreter_new [OF assms(1)] and fresh = MicroInterpreter_no_tensors [OF assms(1)]
  have sub: "GetSubGraphFromModel (mi_model I) = Some sub" "mi_subgraph I = Some sub"
    using new assms(5) by (simp_all add: GetSubGraphFromModel_single)
  have tensor: "persistent_tensor i I = Some (Some t, I1\<lparr>input_tensor := None\<rparr>)" "input_tensor I1 = Some t"
    using assms(3,6) sub(2) fresh by (auto simp: Micro_input_def persistent_tensor_def split: bind_splits)
  have kept: "client_kept I J"
    by (rule client_kept_trans [OF call_kept_client [OF Micro_input_call [OF assms(3)]] client_calls_kept [OF assms(4,2)]])
  have "client_kept I1 J" by (rule client_calls_kept [OF assms(4,2)])
  then have "input_tensor J = Some t" "mi_subgraph J = Some sub"
    using tensor(2) kept sub(2) by (simp_all add: client_kept_def)
  then have "Micro_input 0 J = Some (Some t, J)" using assms(6) by (simp add: Micro_input_def)
  moreover obtain N where "make_tensor False (mi_model I) None i (mi_allocator I) = Some (Some t, N)"
    using tensor(1) fresh by (auto simp: persistent_tensor_def AllocatePersistentTfLiteTensor_def split: bind_splits)
  then have "data_raw t = 0"
    by (rule make_tensor_ok) (use sub(1) assms(7,8) new(2) in \<open>auto simp: vec in_bounds_def\<close>)
  ultimately show ?thesis by blast
qed

theorem early_input_stays_null_witness:
  "\<exists>t J. Micro_input 0 J = Some (Some t, J) \<and> data_raw t = 0 \<and> tensors_allocated J"
proof -
  let ?I = "MicroInterpreter demo_model demo_resolver 0x1000 0x500 (\<lambda>_. 0)"
  have "case Option.bind ?I (Micro_input 0) of None \<Rightarrow> False | Some (t, I1) \<Rightarrow> t \<noteq> None
      \<and> (case Micro_AllocateTensors demo_kernels (\<lambda>_. None) I1 of None \<Rightarrow> False | Some (st, J) \<Rightarrow> tensors_allocated J)"
    by code_simp
  then obtain I t I1 st J where run: "?I = Some I" "Micro_input 0 I = Some (Some t, I1)"
    "Micro_AllocateTensors demo_kernels (\<lambda>_. None) I1 = Some (st, J)" "tensors_allocated J"
    by (auto split: option.splits bind_splits)
  have calls: "(client_call demo_kernels (\<lambda>_. None))\<^sup>*\<^sup>* I1 J" using client_call.allocate [OF run(3)] by blast
  have model: "fb_subgraphs demo_model = Some [demo_subgraph]" "fb_inputs demo_subgraph = Some (0 # [])"
    "fb_tensors demo_subgraph = Some [plain_fb_tensor, plain_fb_tensor, plain_fb_tensor, demo_variable]"
    by (simp_all add: demo_model_def demo_subgraph_def)
  have "GetFlatbufferTensorBuffer ([plain_fb_tensor, plain_fb_tensor, plain_fb_tensor, demo_variable] ! nat 0)
      (fb_buffers demo_model) = Some None"
    by (simp add: plain_fb_tensor_def demo_model_def GetFlatbufferTensorBuffer_def vec in_bounds_def)
  from early_input_stays_null [OF run(1) demo_kernels_use_the_context run(2) calls model this] run(4)
  show ?thesis by blast
qed

text \<open>
  \<^verbatim>\<open>AllocateTensors\<close> does not notice that the head cannot grow: after a kernel that made eight requests, the
  preparation of its node succeeds, and the first request of the next kernel is written behind the head.
\<close>

theorem failed_growth_goes_unnoticed:
  assumes "node_registration i I = Some r" "op_prepare r = Kernel k" "prepare_op K k i I = Some (kTfLiteOk, J)"
    "preparing (mi_allocator J)" "unassigned_requests (scratch_requests (mi_allocator J)) = 8"
    "fst (FinishPrepareNodeAllocations (int i) (mi_allocator J)) \<noteq> kTfLiteOk" "may_request_scratch J"
  shows "\<exists>J'. micro_prepare_node K i I = Some (kTfLiteOk, J') \<and> Context_RequestScratchBufferInArena n J' = None"
  using assms FinishPrepareNodeAllocations_failed [OF assms(6,4) _ assms(5), of n]
  by (simp add: micro_prepare_node_def Context_RequestScratchBufferInArena_def)

text \<open>A kernel that asks for eight buffers.\<close>

fun ask_for :: "nat \<Rightarrow> micro_interpreter \<Rightarrow> (tflite_status \<times> micro_interpreter) option" where
  "ask_for 0 I = Some (kTfLiteOk, I)"
| "ask_for (Suc n) I = do {
     (st, _, I) \<leftarrow> Context_RequestScratchBufferInArena 20 I;
     if st \<noteq> kTfLiteOk then Some (st, I) else ask_for n I }"

definition eager_kernels :: micro_kernels where
  "eager_kernels = demo_kernels\<lparr>prepare_op := (\<lambda>_ _. ask_for 8)\<rparr>"

lemma ask_for_preparing:
  "ask_for n I = Some (st, J) \<Longrightarrow> preparing (mi_allocator I) \<Longrightarrow>
   preparing (mi_allocator J) \<and> may_request_scratch J = may_request_scratch I"
proof (induction n arbitrary: I)
  case (Suc n)
  obtain st1 k M where M: "may_request_scratch I" "RequestScratchBufferInArena 20 (mi_allocator I) = Some (st1, k, M)"
    "if st1 \<noteq> kTfLiteOk then J = I\<lparr>mi_allocator := M\<rparr> else ask_for n (I\<lparr>mi_allocator := M\<rparr>) = Some (st, J)"
    using Suc.prems(1) by (auto simp: Context_RequestScratchBufferInArena_def split: bind_splits if_splits)
  have "preparing M" using preparing.requested [OF Suc.prems(2) M(2)] .
  then show ?case using Suc.IH [of "I\<lparr>mi_allocator := M\<rparr>"] M(3) by (cases "st1 = kTfLiteOk") auto
qed simp

text \<open>An interpreter that prepares its only node, in an arena of 128 bytes.\<close>

definition eager_interpreter :: "micro_allocator \<Rightarrow> micro_interpreter" where
  "eager_interpreter M = \<lparr>mi_model = demo_model, mi_resolver = demo_resolver, mi_allocator = M, tensors_allocated = False,
     initialization_status = kTfLiteOk, mi_subgraph = None,
     node_and_registrations = Some [blank_node\<lparr>nr_registration := MicroFindOp demo_resolver 0\<rparr>],
     mi_eval_tensors = None, scratch_buffer_handles = None, scratch_addresses = Map.empty,
     helper_eval_tensors = False, helper_handles = None, may_allocate_persistent = True,
     may_request_scratch = True, may_get_scratch = False, context_tensors_size = 0, input_tensor = None,
     output_tensor = None, mi_memory = (\<lambda>_. 0)\<rparr>"

theorem failed_growth_goes_unnoticed_witness:
  "\<exists>I J'. micro_prepare_node eager_kernels 0 I = Some (kTfLiteOk, J') \<and> Context_RequestScratchBufferInArena 1 J' = None"
proof -
  let ?M = "\<lparr>memory_allocator = SimpleMemoryAllocator 0x1000 0x80, model_is_allocating = True, scratch_requests = [],
    max_head_buffer_usage = 0\<rparr>"
  obtain M where M: "InitScratchBufferData ?M = (kTfLiteOk, M)"
    by (simp add: InitScratchBufferData_def SetHeadBufferSize_def SimpleMemoryAllocator_def AlignPointerUp_def)
  let ?I = "eager_interpreter (snd (InitScratchBufferData ?M))"
  have "preparing M" by (rule preparing.started [OF M]) (simp_all add: SimpleMemoryAllocator_def)
  then have start: "preparing (mi_allocator ?I)" by (simp add: eager_interpreter_def M)
  have "case ask_for 8 ?I of None \<Rightarrow> False | Some (st, J) \<Rightarrow> st = kTfLiteOk
      \<and> length (filter (\<lambda>r. request_node_idx r = -1) (scratch_requests (mi_allocator J))) = 8
      \<and> fst (FinishPrepareNodeAllocations 0 (mi_allocator J)) = kTfLiteError"
    by code_simp
  then obtain J where J: "ask_for 8 ?I = Some (kTfLiteOk, J)" "unassigned_requests (scratch_requests (mi_allocator J)) = 8"
    "fst (FinishPrepareNodeAllocations 0 (mi_allocator J)) = kTfLiteError"
    by (auto split: option.splits)
  have r: "node_registration 0 ?I = MicroFindOp demo_resolver 0"
    by (simp add: node_registration_def eager_interpreter_def vec in_bounds_def)
  have found: "case MicroFindOp demo_resolver 0 of None \<Rightarrow> False | Some r \<Rightarrow> op_prepare r = Kernel 0" by code_simp
  then obtain r where "MicroFindOp demo_resolver 0 = Some r" "op_prepare r = Kernel 0" by (auto split: option.splits)
  moreover have "prepare_op eager_kernels 0 0 ?I = Some (kTfLiteOk, J)" using J(1) by (simp add: eager_kernels_def)
  ultimately show ?thesis
    using failed_growth_goes_unnoticed [of 0 ?I r 0 eager_kernels J 1] r ask_for_preparing [OF J(1) start] J(2,3)
    by (auto simp: eager_interpreter_def)
qed

end
