(* ===== verification/Gpu_Memory.thy ===== *)
theory Gpu_Memory
  imports Prelude "HOL-Library.Multiset" "HOL-Library.Monad_Syntax"
begin

text \<open>
  Memory of the GPU delegate, \<^verbatim>\<open>delegates/gpu/common/memory_management\<close>: \<^verbatim>\<open>types.h\<close>, \<^verbatim>\<open>internal.{h,cc}\<close>, and the
  strategies that go through the tensors in the order they are given: \<^verbatim>\<open>naive_assignment.h\<close>,
  \<^verbatim>\<open>equality_assignment.h\<close>, \<^verbatim>\<open>greedy_in_order_assignment.h\<close>.

  The intermediate tensors of a graph are mapped to shared objects. A tensor holds a value from its first to
  its last task. \<^term>\<open>None\<close> is an access outside a vector; otherwise a function gives its status and what its out
  parameter holds. Numbers of type \<^verbatim>\<open>size_t\<close> are natural numbers, whose sums wrap around where they may be large.
  A priority queue is a list, the top first; a \<^verbatim>\<open>std::set\<close> is its elements in order; a hash table is a map.
\<close>

section \<open>Types\<close>

datatype absl_status = OkStatus | InternalError string

type_synonym 'a assigned = "(absl_status \<times> 'a) option"

record 's usage_record =
  tensor_size :: 's
  first_task :: nat
  last_task :: nat

record 's objects_assignment =
  object_ids :: "nat list"
  object_sizes :: "'s list"

record offsets_assignment =
  offsets :: "nat list"
  total_size :: nat

abbreviation kNotAssigned :: nat where
  "kNotAssigned \<equiv> size_t_bound - 1"

text \<open>A loop that returns when a step does not end with \<^verbatim>\<open>OkStatus\<close>.\<close>

primrec each_status :: "('x \<Rightarrow> 's \<Rightarrow> 's assigned) \<Rightarrow> 'x list \<Rightarrow> 's \<Rightarrow> 's assigned" where
  "each_status f [] s = Some (OkStatus, s)"
| "each_status f (x # xs) s = do {
     (st, s) \<leftarrow> f x s;
     if st \<noteq> OkStatus then Some (st, s) else each_status f xs s }"

section \<open>Sizes in several dimensions\<close>

text \<open>\<^verbatim>\<open>uint2\<close> and \<^verbatim>\<open>uint3\<close>: the number of elements is a product of 32-bit numbers.\<close>

definition IsCoveringObject_uint2 :: "32 word \<times> 32 word \<Rightarrow> 32 word \<times> 32 word \<Rightarrow> bool" where
  "IsCoveringObject_uint2 first_object second_object \<longleftrightarrow>
     fst first_object \<ge> fst second_object \<and> snd first_object \<ge> snd second_object"

definition IsCoveringObject_uint3 :: "32 word \<times> 32 word \<times> 32 word \<Rightarrow> 32 word \<times> 32 word \<times> 32 word \<Rightarrow> bool" where
  "IsCoveringObject_uint3 = (\<lambda>(x, y, z) (x', y', z'). x \<ge> x' \<and> y \<ge> y' \<and> z \<ge> z')"

definition AbsDiffInElements :: "nat \<Rightarrow> nat \<Rightarrow> nat" where
  "AbsDiffInElements first_size second_size =
     (if first_size \<ge> second_size then first_size - second_size else second_size - first_size)"

definition AbsDiffInElements_uint2 :: "32 word \<times> 32 word \<Rightarrow> 32 word \<times> 32 word \<Rightarrow> nat" where
  "AbsDiffInElements_uint2 = (\<lambda>(x, y) (x', y').
     let first_elements_cnt = unat (y * x); second_elements_cnt = unat (y' * x')
     in if first_elements_cnt \<ge> second_elements_cnt then first_elements_cnt - second_elements_cnt
        else second_elements_cnt - first_elements_cnt)"

definition AbsDiffInElements_uint3 :: "32 word \<times> 32 word \<times> 32 word \<Rightarrow> 32 word \<times> 32 word \<times> 32 word \<Rightarrow> nat" where
  "AbsDiffInElements_uint3 = (\<lambda>(x, y, z) (x', y', z').
     let first_elements_cnt = unat (z * y * x); second_elements_cnt = unat (z' * y' * x')
     in if first_elements_cnt \<ge> second_elements_cnt then first_elements_cnt - second_elements_cnt
        else second_elements_cnt - first_elements_cnt)"

section \<open>Objects in use\<close>

text \<open>The queue: an object is before another if its last task is, or if the tasks are equal and its number is smaller.\<close>

definition queue_before :: "nat \<times> nat \<Rightarrow> nat \<times> nat \<Rightarrow> bool" where
  "queue_before = (\<lambda>(last_task, object_id) (last_task', object_id').
     last_task < last_task' \<or> (last_task = last_task' \<and> object_id < object_id'))"

definition queue_push :: "nat \<times> nat \<Rightarrow> (nat \<times> nat) list \<Rightarrow> (nat \<times> nat) list" where
  "queue_push = sort_insert queue_before"

text \<open>Objects that are no longer in use before \<open>first\<close> go from the queue to the pool.\<close>

fun release :: "(nat \<Rightarrow> 'p \<Rightarrow> 'p option) \<Rightarrow> nat \<Rightarrow> (nat \<times> nat) list \<Rightarrow> 'p \<Rightarrow> ((nat \<times> nat) list \<times> 'p) option" where
  "release add first [] pool = Some ([], pool)"
| "release add first ((task, object_id) # queue) pool =
     (if task < first then Option.bind (add object_id pool) (release add first queue)
      else Some ((task, object_id) # queue, pool))"

definition no_objects :: "nat \<Rightarrow> 's objects_assignment" where
  "no_objects n = \<lparr>object_ids = replicate n kNotAssigned, object_sizes = []\<rparr>"

text \<open>Tensor \<open>i\<close> gets a new object, or object \<open>obj\<close>.\<close>

definition assign_new :: "nat \<Rightarrow> 's \<Rightarrow> 's objects_assignment \<Rightarrow> 's objects_assignment" where
  "assign_new i sz A = A\<lparr>object_ids := (object_ids A)[i := length (object_sizes A)], object_sizes := object_sizes A @ [sz]\<rparr>"

definition assign_to :: "nat \<Rightarrow> nat \<Rightarrow> 's objects_assignment \<Rightarrow> 's objects_assignment" where
  "assign_to i obj A = A\<lparr>object_ids := (object_ids A)[i := obj]\<rparr>"

section \<open>Naive\<close>

definition NaiveAssignment :: "'s usage_record list \<Rightarrow> 's objects_assignment assigned" where
  "NaiveAssignment usage_records = Some (OkStatus,
     \<lparr>object_ids = [0..<length usage_records], object_sizes = map tensor_size usage_records\<rparr>)"

section \<open>Equality\<close>

type_synonym 's size_pool = "'s \<Rightarrow> nat list option"

definition add_to_size_pool :: "'s list \<Rightarrow> nat \<Rightarrow> 's size_pool \<Rightarrow> 's size_pool option" where
  "add_to_size_pool sizes object_id pool = do {
     sz \<leftarrow> vec_at sizes (int object_id);
     Some (pool(sz \<mapsto> (case pool sz of None \<Rightarrow> [] | Some objects \<Rightarrow> objects) @ [object_id])) }"

definition equality_hash_step ::
  "'s usage_record list \<Rightarrow> nat \<Rightarrow> 's objects_assignment \<times> 's size_pool \<times> (nat \<times> nat) list
   \<Rightarrow> ('s objects_assignment \<times> 's size_pool \<times> (nat \<times> nat) list) option" where
  "equality_hash_step usage_records i = (\<lambda>(A, pool, objects_in_use). do {
     rec \<leftarrow> vec_at usage_records (int i);
     (objects_in_use, pool) \<leftarrow> release (add_to_size_pool (object_sizes A)) (first_task rec) objects_in_use pool;
     Some (if pool (tensor_size rec) = None \<or> pool (tensor_size rec) = Some []
           then (assign_new i (tensor_size rec) A, pool,
                 queue_push (last_task rec, length (object_sizes A)) objects_in_use)
           else let objects = the (pool (tensor_size rec))
                in (assign_to i (last objects) A, pool(tensor_size rec \<mapsto> butlast objects),
                    queue_push (last_task rec, last objects) objects_in_use)) })"

definition EqualityAssignmentWithHash :: "'s usage_record list \<Rightarrow> 's objects_assignment assigned" where
  "EqualityAssignmentWithHash usage_records = do {
     (A, _, _) \<leftarrow> do_each (equality_hash_step usage_records) [0..<length usage_records]
       (no_objects (length usage_records), Map.empty, []);
     Some (OkStatus, A) }"

text \<open>The first object of this size that is free, by a search.\<close>

definition equality_step ::
  "'s usage_record list \<Rightarrow> nat \<Rightarrow> 's objects_assignment \<times> nat list \<Rightarrow> ('s objects_assignment \<times> nat list) option" where
  "equality_step usage_records i = (\<lambda>(A, dealloc_task). do {
     rec \<leftarrow> vec_at usage_records (int i);
     if length dealloc_task < length (object_sizes A) then None
     else (case List.find (\<lambda>obj. dealloc_task ! obj < first_task rec \<and> object_sizes A ! obj = tensor_size rec)
              [0..<length (object_sizes A)] of
       None \<Rightarrow> Some (assign_new i (tensor_size rec) A, dealloc_task @ [last_task rec])
     | Some best_obj \<Rightarrow> Some (assign_to i best_obj A, dealloc_task[best_obj := last_task rec])) })"

definition EqualityAssignment :: "'s usage_record list \<Rightarrow> 's objects_assignment assigned" where
  "EqualityAssignment usage_records = do {
     (A, _) \<leftarrow> do_each (equality_step usage_records) [0..<length usage_records] (no_objects (length usage_records), []);
     Some (OkStatus, A) }"

section \<open>Greedy in order\<close>

text \<open>The pool: objects in the order of their sizes, then of their numbers.\<close>

definition pool_before :: "nat \<times> nat \<Rightarrow> nat \<times> nat \<Rightarrow> bool" where
  "pool_before = (\<lambda>(object_size, object_id) (object_size', object_id').
     object_size < object_size' \<or> (object_size = object_size' \<and> object_id < object_id'))"

definition add_to_pool :: "nat list \<Rightarrow> nat \<Rightarrow> (nat \<times> nat) list \<Rightarrow> (nat \<times> nat) list option" where
  "add_to_pool sizes object_id pool = do {
     sz \<leftarrow> vec_at sizes (int object_id);
     Some (if (sz, object_id) \<in> set pool then pool else sort_insert pool_before (sz, object_id) pool) }"

text \<open>
  With a reallocation graph: the object of the closest size whose last tensor may be replaced by tensor \<open>i\<close>. The
  neighbours of a tensor are sorted, so that \<^verbatim>\<open>lower_bound\<close> finds the first that is not below \<open>i\<close>.
\<close>

definition may_replace :: "nat list list \<Rightarrow> nat list \<Rightarrow> nat \<Rightarrow> nat \<Rightarrow> bool option" where
  "may_replace reallocation_graph last_assigned_tensor object_id i = do {
     tensor \<leftarrow> vec_at last_assigned_tensor (int object_id);
     realloc_options \<leftarrow> vec_at reallocation_graph (int tensor);
     let pos = length (takeWhile (\<lambda>t. t < i) realloc_options);
     Some (pos \<noteq> length realloc_options \<and> realloc_options ! pos = i) }"

definition closest_replaceable ::
  "nat list list \<Rightarrow> nat list \<Rightarrow> nat \<Rightarrow> nat \<Rightarrow> nat \<times> nat \<Rightarrow> (nat \<times> nat) option \<times> nat
   \<Rightarrow> ((nat \<times> nat) option \<times> nat) option" where
  "closest_replaceable reallocation_graph last_assigned_tensor i needed = (\<lambda>(object_size, object_id) (best, best_size_diff).
     let size_diff = AbsDiffInElements object_size needed
     in if best = None \<or> size_diff < best_size_diff
        then do {
          replaceable \<leftarrow> may_replace reallocation_graph last_assigned_tensor object_id i;
          Some (if replaceable then (Some (object_size, object_id), size_diff) else (best, best_size_diff)) }
        else Some (best, best_size_diff))"

text \<open>Without it: the smallest object that is large enough, unless the largest of the others is closer.\<close>

definition closest_size :: "nat \<Rightarrow> (nat \<times> nat) list \<Rightarrow> (nat \<times> nat) option" where
  "closest_size needed pool =
     (let k = length (takeWhile (\<lambda>p. pool_before p (needed, 0)) pool);
          above = (if k < length pool then Some (pool ! k) else None);
          size_diff = (case above of None \<Rightarrow> 0 | Some p \<Rightarrow> fst p - needed)
      in if k \<noteq> 0 \<and> (above = None \<or> needed - fst (pool ! (k - 1)) < size_diff) then Some (pool ! (k - 1)) else above)"

definition best_in_pool ::
  "nat list list option \<Rightarrow> nat list \<Rightarrow> nat \<Rightarrow> nat \<Rightarrow> (nat \<times> nat) list \<Rightarrow> (absl_status \<times> (nat \<times> nat) option) option" where
  "best_in_pool reallocation_graph last_assigned_tensor i needed pool =
     (case reallocation_graph of
        Some graph \<Rightarrow> do {
          (best, _) \<leftarrow> do_each (closest_replaceable graph last_assigned_tensor i needed) pool (None, 0);
          Some (OkStatus, best) }
      | None \<Rightarrow>
          if pool = [] then Some (OkStatus, None)
          else (case closest_size needed pool of
             None \<Rightarrow> Some (InternalError ''No shared object is found in non-empty pool in GreedyInOrderAssignment.'', None)
           | Some best \<Rightarrow> Some (OkStatus, Some best)))"

type_synonym in_order_state = "nat objects_assignment \<times> nat list \<times> (nat \<times> nat) list \<times> (nat \<times> nat) list"

definition greedy_in_order_step ::
  "nat usage_record list \<Rightarrow> nat list list option \<Rightarrow> nat \<Rightarrow> in_order_state \<Rightarrow> in_order_state assigned" where
  "greedy_in_order_step usage_records reallocation_graph i = (\<lambda>(A, last_assigned_tensor, pool, objects_in_use). do {
     rec \<leftarrow> vec_at usage_records (int i);
     (objects_in_use, pool) \<leftarrow> release (add_to_pool (object_sizes A)) (first_task rec) objects_in_use pool;
     (st, best) \<leftarrow> best_in_pool reallocation_graph last_assigned_tensor i (tensor_size rec) pool;
     if st \<noteq> OkStatus then Some (st, A, last_assigned_tensor, pool, objects_in_use)
     else (case best of
       None \<Rightarrow> Some (OkStatus, assign_new i (tensor_size rec) A, last_assigned_tensor @ [i], pool,
         queue_push (last_task rec, length (object_sizes A)) objects_in_use)
     | Some (object_size, shared_id) \<Rightarrow> do {
         sz \<leftarrow> vec_at (object_sizes A) (int shared_id);
         sizes \<leftarrow> vec_set (object_sizes A) (int shared_id) (max sz (tensor_size rec));
         last_assigned_tensor \<leftarrow> vec_set last_assigned_tensor (int shared_id) i;
         Some (OkStatus, (assign_to i shared_id A)\<lparr>object_sizes := sizes\<rparr>, last_assigned_tensor,
           remove1 (object_size, shared_id) pool, queue_push (last_task rec, shared_id) objects_in_use) }) })"

definition GreedyInOrderAssignment ::
  "nat usage_record list \<Rightarrow> nat list list option \<Rightarrow> nat objects_assignment assigned" where
  "GreedyInOrderAssignment usage_records reallocation_graph = do {
     (st, A, _, _, _) \<leftarrow> each_status (greedy_in_order_step usage_records reallocation_graph) [0..<length usage_records]
       (no_objects (length usage_records), [], [], []);
     Some (st, A) }"

text \<open>For sizes in several dimensions, an object has to cover the tensor.\<close>

definition closest_covering ::
  "('s \<Rightarrow> 's \<Rightarrow> bool) \<Rightarrow> ('s \<Rightarrow> 's \<Rightarrow> nat) \<Rightarrow> 's list \<Rightarrow> 's \<Rightarrow> nat \<Rightarrow> nat option \<times> nat \<Rightarrow> (nat option \<times> nat) option" where
  "closest_covering covers diff sizes needed object_id = (\<lambda>(best, best_size_diff). do {
     shared_object_size \<leftarrow> vec_at sizes (int object_id);
     Some (if covers shared_object_size needed \<and> (best = None \<or> diff shared_object_size needed < best_size_diff)
           then (Some object_id, diff shared_object_size needed) else (best, best_size_diff)) })"

definition multidimensional_step ::
  "('s \<Rightarrow> 's \<Rightarrow> bool) \<Rightarrow> ('s \<Rightarrow> 's \<Rightarrow> nat) \<Rightarrow> 's usage_record list \<Rightarrow> nat \<Rightarrow> 's objects_assignment \<times> nat list \<times> (nat \<times> nat) list
   \<Rightarrow> ('s objects_assignment \<times> nat list \<times> (nat \<times> nat) list) option" where
  "multidimensional_step covers diff usage_records i = (\<lambda>(A, pool, objects_in_use). do {
     rec \<leftarrow> vec_at usage_records (int i);
     (objects_in_use, pool) \<leftarrow> release (\<lambda>object_id pool. Some (pool @ [object_id])) (first_task rec) objects_in_use pool;
     (best, _) \<leftarrow> do_each (closest_covering covers diff (object_sizes A) (tensor_size rec)) pool (None, 0);
     Some (case best of
       None \<Rightarrow> (assign_new i (tensor_size rec) A, pool, queue_push (last_task rec, length (object_sizes A)) objects_in_use)
     | Some shared_id \<Rightarrow> (assign_to i shared_id A, remove1 shared_id pool, queue_push (last_task rec, shared_id) objects_in_use)) })"

definition GreedyInOrderAssignmentMultidimensional ::
  "('s \<Rightarrow> 's \<Rightarrow> bool) \<Rightarrow> ('s \<Rightarrow> 's \<Rightarrow> nat) \<Rightarrow> 's usage_record list \<Rightarrow> 's objects_assignment assigned" where
  "GreedyInOrderAssignmentMultidimensional covers diff usage_records = do {
     (A, _, _) \<leftarrow> do_each (multidimensional_step covers diff usage_records) [0..<length usage_records]
       (no_objects (length usage_records), [], []);
     Some (OkStatus, A) }"

section \<open>Offsets\<close>

definition object_offsets :: "nat list \<Rightarrow> nat list \<times> nat" where
  "object_offsets sizes = foldl (\<lambda>(ids_to_offset, used) sz. (ids_to_offset @ [used], sz_add used sz)) ([], 0) sizes"

definition ObjectsToOffsets :: "nat objects_assignment \<Rightarrow> offsets_assignment option" where
  "ObjectsToOffsets A = (case object_offsets (object_sizes A) of (ids_to_offset, used) \<Rightarrow> do {
     os \<leftarrow> those (map (\<lambda>id. vec_at ids_to_offset (int id)) (object_ids A));
     Some \<lparr>offsets = os, total_size = used\<rparr> })"

section \<open>What a strategy promises\<close>

definition intersects :: "'s usage_record \<Rightarrow> 's usage_record \<Rightarrow> bool" where
  "intersects r r' \<longleftrightarrow> first_task r \<le> last_task r' \<and> first_task r' \<le> last_task r"

text \<open>
  Each tensor has an object that is large enough, tensors in use together have different ones, and no object is
  larger than the tensors it is for need.
\<close>

definition objects_ok :: "('s \<Rightarrow> 's \<Rightarrow> bool) \<Rightarrow> 's usage_record list \<Rightarrow> 's objects_assignment \<Rightarrow> bool" where
  "objects_ok covers rs A \<longleftrightarrow> length (object_ids A) = length rs
     \<and> (\<forall>i<length rs. object_ids A ! i < length (object_sizes A)
          \<and> covers (object_sizes A ! (object_ids A ! i)) (tensor_size (rs ! i)))
     \<and> (\<forall>k<length rs. \<forall>j<k. intersects (rs ! j) (rs ! k) \<longrightarrow> object_ids A ! j \<noteq> object_ids A ! k)
     \<and> (\<forall>b<length (object_sizes A). \<exists>i<length rs. object_ids A ! i = b \<and> object_sizes A ! b = tensor_size (rs ! i))"

definition in_order :: "'s usage_record list \<Rightarrow> bool" where
  "in_order rs \<longleftrightarrow> sorted (map first_task rs)"

lemma in_order_nth: "in_order rs \<Longrightarrow> i \<le> k \<Longrightarrow> k < length rs \<Longrightarrow> first_task (rs ! i) \<le> first_task (rs ! k)"
  using sorted_nth_mono [of "map first_task rs" i k] by (simp add: in_order_def)

text \<open>The first \<open>i\<close> tensors have their objects, one tensor of an object after the other.\<close>

definition assigned_below :: "('s \<Rightarrow> 's \<Rightarrow> bool) \<Rightarrow> 's usage_record list \<Rightarrow> nat \<Rightarrow> 's objects_assignment \<Rightarrow> bool" where
  "assigned_below covers rs i A \<longleftrightarrow> i \<le> length rs \<and> length (object_ids A) = length rs
     \<and> (\<forall>j<i. object_ids A ! j < length (object_sizes A)
          \<and> covers (object_sizes A ! (object_ids A ! j)) (tensor_size (rs ! j)))
     \<and> (\<forall>k<i. \<forall>j<k. object_ids A ! j = object_ids A ! k \<longrightarrow> last_task (rs ! j) < first_task (rs ! k))
     \<and> (\<forall>b<length (object_sizes A). \<exists>j<i. object_ids A ! j = b \<and> object_sizes A ! b = tensor_size (rs ! j))"

lemma assigned_below_start: "assigned_below covers rs 0 (no_objects (length rs))"
  by (simp add: assigned_below_def no_objects_def)

lemma assigned_below_ok: "assigned_below covers rs (length rs) A \<Longrightarrow> objects_ok covers rs A"
  by (fastforce simp: assigned_below_def objects_ok_def intersects_def)

lemma assigned_below_new:
  assumes "assigned_below covers rs i A" "i < length rs" "covers (tensor_size (rs ! i)) (tensor_size (rs ! i))"
  shows "assigned_below covers rs (Suc i) (assign_new i (tensor_size (rs ! i)) A)"
proof -
  have "\<exists>j<Suc i. ((object_ids A)[i := length (object_sizes A)]) ! j = b
      \<and> (object_sizes A @ [tensor_size (rs ! i)]) ! b = tensor_size (rs ! j)" if b: "b < Suc (length (object_sizes A))" for b
  proof (cases "b = length (object_sizes A)")
    case True
    then show ?thesis using assms(1,2) by (intro exI [of _ i]) (simp add: assigned_below_def)
  next
    case False
    then have "b < length (object_sizes A)" using b by simp
    then obtain j where "j < i" "object_ids A ! j = b" "object_sizes A ! b = tensor_size (rs ! j)"
      using assms(1) unfolding assigned_below_def by blast
    then show ?thesis using False b by (intro exI [of _ j]) (simp add: nth_append)
  qed
  then show ?thesis using assms by (auto simp: assigned_below_def assign_new_def less_Suc_eq nth_append nth_list_update)
qed

lemma assigned_below_reuse:
  assumes "assigned_below covers rs i A" "i < length rs" "obj < length (object_sizes A)"
    "\<And>j. j < i \<Longrightarrow> object_ids A ! j = obj \<Longrightarrow> last_task (rs ! j) < first_task (rs ! i)"
    "length sizes = length (object_sizes A)" "covers (sizes ! obj) (tensor_size (rs ! i))"
    "\<And>b s. b < length sizes \<Longrightarrow> covers (object_sizes A ! b) s \<Longrightarrow> covers (sizes ! b) s"
    "\<And>b. b < length sizes \<Longrightarrow> sizes ! b = object_sizes A ! b \<or> (b = obj \<and> sizes ! b = tensor_size (rs ! i))"
  shows "assigned_below covers rs (Suc i) ((assign_to i obj A)\<lparr>object_sizes := sizes\<rparr>)"
proof -
  have len: "i < length (object_ids A)" using assms(1,2) by (simp add: assigned_below_def)
  have "\<exists>j<Suc i. (object_ids A)[i := obj] ! j = b \<and> sizes ! b = tensor_size (rs ! j)" if b: "b < length sizes" for b
  proof (cases "b = obj \<and> sizes ! b = tensor_size (rs ! i)")
    case True
    then show ?thesis using len by (intro exI [of _ i]) auto
  next
    case False
    then have same: "sizes ! b = object_sizes A ! b" using assms(8) [OF b] by blast
    obtain j where "j < i" "object_ids A ! j = b" "object_sizes A ! b = tensor_size (rs ! j)"
      using assms(1,5) b by (auto simp: assigned_below_def)
    then show ?thesis using same by (intro exI [of _ j]) simp
  qed
  then show ?thesis using assms(1-7) by (auto simp: assigned_below_def assign_to_def less_Suc_eq nth_list_update)
qed

section \<open>Strategies that go through the tensors in order\<close>

text \<open>An object is free from the task on that tensor \<open>i\<close> or a later one starts at.\<close>

definition free_object :: "'s usage_record list \<Rightarrow> nat \<Rightarrow> 's objects_assignment \<Rightarrow> nat \<Rightarrow> bool" where
  "free_object rs i A obj \<longleftrightarrow> (\<forall>j<i. object_ids A ! j = obj \<longrightarrow>
     (\<forall>k. i \<le> k \<longrightarrow> k < length rs \<longrightarrow> last_task (rs ! j) < first_task (rs ! k)))"

definition free_after :: "'s usage_record list \<Rightarrow> nat \<Rightarrow> 's objects_assignment \<Rightarrow> nat \<Rightarrow> nat \<Rightarrow> bool" where
  "free_after rs i A obj t \<longleftrightarrow> (\<forall>j<i. object_ids A ! j = obj \<longrightarrow>
     (\<forall>k. i \<le> k \<longrightarrow> k < length rs \<longrightarrow> t < first_task (rs ! k) \<longrightarrow> last_task (rs ! j) < first_task (rs ! k)))"

text \<open>Each object is in the queue, with the task after which it is free, or in the pool, and free.\<close>

definition in_order_inv ::
  "('s \<Rightarrow> 's \<Rightarrow> bool) \<Rightarrow> 's usage_record list \<Rightarrow> nat \<Rightarrow> 's objects_assignment \<Rightarrow> nat multiset \<Rightarrow> (nat \<times> nat) list \<Rightarrow> bool" where
  "in_order_inv covers rs i A pool queue \<longleftrightarrow> assigned_below covers rs i A
     \<and> mset (map snd queue) + pool = mset [0..<length (object_sizes A)]
     \<and> (\<forall>(t, obj)\<in>set queue. free_after rs i A obj t) \<and> (\<forall>obj\<in>#pool. free_object rs i A obj)"

lemma in_order_inv_start: "in_order_inv covers rs 0 (no_objects (length rs)) {#} []"
  by (simp add: in_order_inv_def assigned_below_start) (simp add: no_objects_def)

lemma mset_queue_push [simp]: "mset (queue_push x q) = add_mset x (mset q)"
proof -
  have "mset (sort_insert lt x q) = add_mset x (mset q)" for lt by (induction q) auto
  then show ?thesis by (simp add: queue_push_def)
qed

lemma set_queue_push [simp]: "set (queue_push x q) = insert x (set q)"
  by (simp add: queue_push_def)

lemma in_order_inv_objects:
  assumes "in_order_inv covers rs i A pool queue"
  shows "obj \<in># pool \<Longrightarrow> obj < length (object_sizes A)" "(t, obj) \<in> set queue \<Longrightarrow> obj < length (object_sizes A)"
    "(t, obj) \<in> set queue \<Longrightarrow> obj \<notin># pool" "count pool obj \<le> 1"
proof -
  have all: "mset (map snd queue) + pool = mset [0..<length (object_sizes A)]" using assms by (simp add: in_order_inv_def)
  have members: "obj \<in># mset (map snd queue) + pool \<longleftrightarrow> obj < length (object_sizes A)" for obj unfolding all by simp
  have once: "count (mset (map snd queue)) obj + count pool obj \<le> 1" for obj
    by (metis all count_union distinct_count_atmost_1 distinct_upt le_refl less_or_eq_imp_le nat_le_linear zero_le)
  show "obj \<in># pool \<Longrightarrow> obj < length (object_sizes A)" using members [of obj] by simp
  show "count pool obj \<le> 1" using once [of obj] by simp
  assume "(t, obj) \<in> set queue"
  then have queued: "obj \<in># mset (map snd queue)" by force
  then show "obj < length (object_sizes A)" using members [of obj] by (metis union_iff)
  have "0 < count (mset (map snd queue)) obj" using queued by (simp add: count_greater_zero_iff del: mset_map)
  then show "obj \<notin># pool" using once [of obj] unfolding not_in_iff by linarith
qed

lemma release_in_order:
  assumes "in_order rs" "i < length rs"
    "\<And>obj p. obj < length (object_sizes A) \<Longrightarrow> pool_ok p \<Longrightarrow> obj \<notin># objects p \<Longrightarrow>
       \<exists>p'. add obj p = Some p' \<and> pool_ok p' \<and> objects p' = add_mset obj (objects p)"
    "in_order_inv covers rs i A (objects pool) queue" "pool_ok pool"
  shows "\<exists>queue' pool'. release add (first_task (rs ! i)) queue pool = Some (queue', pool')
    \<and> in_order_inv covers rs i A (objects pool') queue' \<and> pool_ok pool'"
  using assms(4,5)
proof (induction queue arbitrary: pool)
  case (Cons x queue)
  obtain t obj where x: "x = (t, obj)" by (cases x)
  show ?case
  proof (cases "t < first_task (rs ! i)")
    case True
    have obj: "obj < length (object_sizes A)" "obj \<notin># objects pool"
      using in_order_inv_objects(2,3) [OF Cons.prems(1), of t obj] x by simp_all
    obtain p' where p': "add obj pool = Some p'" "pool_ok p'" "objects p' = add_mset obj (objects pool)"
      using assms(3) [OF obj(1) Cons.prems(2) obj(2)] by blast
    have "free_object rs i A obj"
      unfolding free_object_def
    proof (intro allI impI)
      fix j k assume jk: "j < i" "object_ids A ! j = obj" "i \<le> k" "k < length rs"
      have "t < first_task (rs ! k)" using True in_order_nth [OF assms(1) jk(3,4)] by simp
      then show "last_task (rs ! j) < first_task (rs ! k)"
        using Cons.prems(1) jk x by (auto simp: in_order_inv_def free_after_def)
    qed
    then have "in_order_inv covers rs i A (objects p') queue" using Cons.prems(1) p'(3) x by (auto simp: in_order_inv_def)
    from Cons.IH [OF this p'(2)] show ?thesis using True x p'(1) by simp
  next
    case False
    then show ?thesis using Cons.prems x by auto
  qed
qed simp

lemma new_in_order:
  assumes "in_order_inv covers rs i A pool queue" "i < length rs" "covers (tensor_size (rs ! i)) (tensor_size (rs ! i))"
  shows "in_order_inv covers rs (Suc i) (assign_new i (tensor_size (rs ! i)) A) pool
    (queue_push (last_task (rs ! i), length (object_sizes A)) queue)"
proof -
  let ?n = "length (object_sizes A)"
  have A: "assigned_below covers rs i A" using assms(1) by (simp add: in_order_inv_def)
  have len: "i < length (object_ids A)" using A assms(2) by (simp add: assigned_below_def)
  note old = in_order_inv_objects [OF assms(1)]
  have after: "free_after rs (Suc i) (assign_new i (tensor_size (rs ! i)) A) obj t" if "(t, obj) \<in> set queue" for t obj
    using assms(1) that old(2) [OF that] len
    by (auto simp: in_order_inv_def free_after_def assign_new_def less_Suc_eq nth_list_update split: if_splits)
  have free: "free_object rs (Suc i) (assign_new i (tensor_size (rs ! i)) A) obj" if "obj \<in># pool" for obj
    using assms(1) that old(1) [OF that] len
    by (auto simp: in_order_inv_def free_object_def assign_new_def less_Suc_eq nth_list_update split: if_splits)
  have new: "free_after rs (Suc i) (assign_new i (tensor_size (rs ! i)) A) ?n (last_task (rs ! i))"
    using A len by (auto simp: free_after_def assign_new_def assigned_below_def less_Suc_eq nth_list_update)
  have "mset (map snd (queue_push (last_task (rs ! i), ?n) queue)) + pool = mset [0..<Suc ?n]"
    using assms(1) by (simp add: in_order_inv_def)
  then show ?thesis
    using assigned_below_new [OF A assms(2,3)] after free new
    unfolding in_order_inv_def by (auto simp: assign_new_def)
qed

lemma reuse_in_order:
  assumes "in_order_inv covers rs i A pool queue" "i < length rs" "in_order rs" "obj \<in># pool"
    "length sizes = length (object_sizes A)" "covers (sizes ! obj) (tensor_size (rs ! i))"
    "\<And>b s. b < length sizes \<Longrightarrow> covers (object_sizes A ! b) s \<Longrightarrow> covers (sizes ! b) s"
    "\<And>b. b < length sizes \<Longrightarrow> sizes ! b = object_sizes A ! b \<or> (b = obj \<and> sizes ! b = tensor_size (rs ! i))"
  shows "in_order_inv covers rs (Suc i) ((assign_to i obj A)\<lparr>object_sizes := sizes\<rparr>) (pool - {#obj#})
    (queue_push (last_task (rs ! i), obj) queue)"
proof -
  let ?A = "(assign_to i obj A)\<lparr>object_sizes := sizes\<rparr>"
  have A: "assigned_below covers rs i A" and free: "\<forall>obj\<in>#pool. free_object rs i A obj"
    and after: "\<forall>(t, obj)\<in>set queue. free_after rs i A obj t"
    using assms(1) by (auto simp: in_order_inv_def)
  have len: "i < length (object_ids A)" using A assms(2) by (simp add: assigned_below_def)
  note old = in_order_inv_objects [OF assms(1)]
  have before: "last_task (rs ! j) < first_task (rs ! k)" if "j < i" "object_ids A ! j = obj" "i \<le> k" "k < length rs" for j k
    using free assms(4) that by (auto simp: free_object_def)
  have 1: "assigned_below covers rs (Suc i) ?A"
    by (rule assigned_below_reuse [where covers = covers]) (use A assms old(1) before in auto)
  have 2: "free_after rs (Suc i) ?A o' t" if "(t, o') \<in> set queue" for t o'
  proof -
    have "o' \<noteq> obj" using old(3) [OF that] assms(4) by auto
    then show ?thesis using after that len by (force simp: free_after_def assign_to_def less_Suc_eq nth_list_update)
  qed
  have 3: "free_object rs (Suc i) ?A o'" if "o' \<in># pool - {#obj#}" for o'
  proof -
    have "o' \<noteq> obj" using that old(4) [of obj] by (auto simp: in_diff_count)
    moreover have "o' \<in># pool" using that by (rule in_diffD)
    ultimately show ?thesis using free len by (auto simp: free_object_def assign_to_def less_Suc_eq nth_list_update)
  qed
  have 4: "free_after rs (Suc i) ?A obj (last_task (rs ! i))"
    using before len by (auto simp: free_after_def assign_to_def less_Suc_eq nth_list_update)
  have "mset (map snd (queue_push (last_task (rs ! i), obj) queue)) + (pool - {#obj#})
      = mset (map snd queue) + add_mset obj (pool - {#obj#})" by simp
  also have "\<dots> = mset (map snd queue) + pool" using assms(4) by simp
  also have "\<dots> = mset [0..<length sizes]" using assms(1,5) by (simp add: in_order_inv_def)
  finally show ?thesis using 1 2 3 4 unfolding in_order_inv_def by auto
qed

section \<open>The strategies keep the promise\<close>

lemma each_status_snoc:
  "each_status f (xs @ [x]) s = Option.bind (each_status f xs s) (\<lambda>(st, s). if st \<noteq> OkStatus then Some (st, s) else f x s)"
  by (induction xs arbitrary: s) (auto split: bind_splits)

lemma each_status_upt:
  assumes "P 0 s" "\<And>i s. i < n \<Longrightarrow> P i s \<Longrightarrow> \<exists>s'. f i s = Some (OkStatus, s') \<and> P (Suc i) s'"
  shows "\<exists>s'. each_status f [0..<n] s = Some (OkStatus, s') \<and> P n s'"
  using assms(2)
proof (induction n)
  case 0
  then show ?case using assms(1) by simp
next
  case (Suc n)
  from Suc.IH obtain s1 where s1: "each_status f [0..<n] s = Some (OkStatus, s1)" "P n s1" using Suc.prems by force
  then show ?case using Suc.prems [of n s1] by (auto simp: each_status_snoc)
qed

lemma NaiveAssignment_ok:
  assumes "\<forall>r\<in>set rs. covers (tensor_size r) (tensor_size r)"
  shows "\<exists>A. NaiveAssignment rs = Some (OkStatus, A) \<and> objects_ok covers rs A"
  using assms by (auto simp: NaiveAssignment_def objects_ok_def)

text \<open>The pool of equal sizes: an object is in the bucket of its size.\<close>

definition bucket :: "'s size_pool \<Rightarrow> 's \<Rightarrow> nat list" where
  "bucket pool sz = (case pool sz of None \<Rightarrow> [] | Some objects \<Rightarrow> objects)"

definition buckets_ok :: "'s list \<Rightarrow> 's size_pool \<Rightarrow> bool" where
  "buckets_ok sizes pool \<longleftrightarrow> (\<forall>sz. distinct (bucket pool sz) \<and> (\<forall>obj\<in>set (bucket pool sz). obj < length sizes \<and> sizes ! obj = sz))"

definition in_buckets :: "'s list \<Rightarrow> 's size_pool \<Rightarrow> nat set" where
  "in_buckets sizes pool = {obj. obj < length sizes \<and> obj \<in> set (bucket pool (sizes ! obj))}"

lemma finite_in_buckets [simp]: "finite (in_buckets sizes pool)"
  by (simp add: in_buckets_def)

lemma add_to_size_pool_ok:
  assumes "obj < length sizes" "buckets_ok sizes pool" "obj \<notin># mset_set (in_buckets sizes pool)"
  shows "\<exists>pool'. add_to_size_pool sizes obj pool = Some pool' \<and> buckets_ok sizes pool'
    \<and> mset_set (in_buckets sizes pool') = add_mset obj (mset_set (in_buckets sizes pool))"
proof -
  let ?pool = "pool(sizes ! obj \<mapsto> bucket pool (sizes ! obj) @ [obj])"
  have bucket: "bucket ?pool sz = (if sz = sizes ! obj then bucket pool (sizes ! obj) @ [obj] else bucket pool sz)" for sz
    by (simp add: bucket_def)
  have new: "obj \<notin> set (bucket pool (sizes ! obj))" using assms(1,3) by (simp add: in_buckets_def)
  have "add_to_size_pool sizes obj pool = Some ?pool"
    using assms(1) by (simp add: add_to_size_pool_def vec bucket_def)
  moreover have "buckets_ok sizes ?pool" using assms(1,2) new by (auto simp: buckets_ok_def bucket)
  moreover have "in_buckets sizes ?pool = insert obj (in_buckets sizes pool)"
    using assms(1) by (auto simp: in_buckets_def bucket split: if_splits)
  ultimately show ?thesis using assms(3) by simp
qed

lemma in_buckets_append: "buckets_ok sizes pool \<Longrightarrow> in_buckets (sizes @ [sz]) pool = in_buckets sizes pool"
  by (auto simp: in_buckets_def buckets_ok_def nth_append less_Suc_eq)

lemma buckets_ok_append: "buckets_ok sizes pool \<Longrightarrow> buckets_ok (sizes @ [sz]) pool"
  by (fastforce simp: buckets_ok_def nth_append)

lemma take_from_bucket:
  assumes "buckets_ok sizes pool" "bucket pool sz \<noteq> []"
  shows "buckets_ok sizes (pool(sz \<mapsto> butlast (bucket pool sz)))" "last (bucket pool sz) \<in> in_buckets sizes pool"
    "sizes ! last (bucket pool sz) = sz"
    "in_buckets sizes (pool(sz \<mapsto> butlast (bucket pool sz))) = in_buckets sizes pool - {last (bucket pool sz)}"
proof -
  let ?os = "bucket pool sz" and ?pool = "pool(sz \<mapsto> butlast (bucket pool sz))"
  have os: "distinct ?os" "\<forall>obj\<in>set ?os. obj < length sizes \<and> sizes ! obj = sz"
    using assms(1) by (auto simp: buckets_ok_def)
  have snoc: "?os = butlast ?os @ [last ?os]" using assms(2) by simp
  have set: "set (butlast ?os) = set ?os - {last ?os}"
    using os(1) by (subst (asm) snoc, subst (2) snoc) (auto simp del: append_butlast_last_id)
  have bucket: "bucket ?pool sz' = (if sz' = sz then butlast ?os else bucket pool sz')" for sz'
    by (simp add: bucket_def)
  have "last ?os \<in> set ?os" using assms(2) by simp
  then show last: "last ?os \<in> in_buckets sizes pool" "sizes ! last ?os = sz" using os(2) by (auto simp: in_buckets_def)
  show "buckets_ok sizes ?pool"
    using assms(1) set os(1) by (auto simp: buckets_ok_def bucket distinct_butlast)
  show "in_buckets sizes ?pool = in_buckets sizes pool - {last ?os}"
    using set last by (auto simp: in_buckets_def bucket split: if_splits)
qed

lemma EqualityAssignmentWithHash_ok:
  assumes "in_order rs"
  shows "\<exists>A. EqualityAssignmentWithHash rs = Some (OkStatus, A) \<and> objects_ok (=) rs A"
proof -
  define P where "P = (\<lambda>i (A :: 'a objects_assignment, pool, queue).
    in_order_inv (=) rs i A (mset_set (in_buckets (object_sizes A) pool)) queue \<and> buckets_ok (object_sizes A) pool)"
  have step: "\<exists>s'. equality_hash_step rs i s = Some s' \<and> P (Suc i) s'" if i: "i < length rs" and s: "P i s" for i s
  proof -
    obtain A pool queue where s': "s = (A, pool, queue)" by (cases s)
    have inv: "in_order_inv (=) rs i A (mset_set (in_buckets (object_sizes A) pool)) queue" "buckets_ok (object_sizes A) pool"
      using s s' by (simp_all add: P_def)
    obtain queue' pool' where r: "release (add_to_size_pool (object_sizes A)) (first_task (rs ! i)) queue pool = Some (queue', pool')"
      "in_order_inv (=) rs i A (mset_set (in_buckets (object_sizes A) pool')) queue'" "buckets_ok (object_sizes A) pool'"
      using release_in_order [where add = "add_to_size_pool (object_sizes A)" and pool_ok = "buckets_ok (object_sizes A)"
          and objects = "\<lambda>p. mset_set (in_buckets (object_sizes A) p)", OF assms i add_to_size_pool_ok inv] by blast
    let ?sz = "tensor_size (rs ! i)" and ?n = "length (object_sizes A)"
    let ?os = "bucket pool' ?sz"
    show ?thesis
    proof (cases "?os = []")
      case True
      then have "pool' ?sz = None \<or> pool' ?sz = Some []" by (auto simp: bucket_def split: option.splits)
      then have "equality_hash_step rs i s = Some (assign_new i ?sz A, pool', queue_push (last_task (rs ! i), ?n) queue')"
        using i r(1) s' by (simp add: equality_hash_step_def vec)
      moreover have "P (Suc i) (assign_new i ?sz A, pool', queue_push (last_task (rs ! i), ?n) queue')"
        using new_in_order [OF r(2) i] r(3) by (simp add: P_def assign_new_def in_buckets_append buckets_ok_append)
      ultimately show ?thesis by blast
    next
      case False
      then have pool: "pool' ?sz = Some ?os" "\<not> (pool' ?sz = None \<or> pool' ?sz = Some [])"
        by (auto simp: bucket_def split: option.splits)
      note t = take_from_bucket [OF r(3) False]
      have "equality_hash_step rs i s = Some (assign_to i (last ?os) A, pool'(?sz \<mapsto> butlast ?os),
          queue_push (last_task (rs ! i), last ?os) queue')"
        using i r(1) s' pool by (simp add: equality_hash_step_def vec Let_def)
      moreover have "in_order_inv (=) rs (Suc i) ((assign_to i (last ?os) A)\<lparr>object_sizes := object_sizes A\<rparr>)
          (mset_set (in_buckets (object_sizes A) pool') - {#last ?os#}) (queue_push (last_task (rs ! i), last ?os) queue')"
        by (rule reuse_in_order [OF r(2) i assms]) (use t in simp_all)
      then have "P (Suc i) (assign_to i (last ?os) A, pool'(?sz \<mapsto> butlast ?os), queue_push (last_task (rs ! i), last ?os) queue')"
        using t by (simp add: P_def assign_to_def mset_set_Diff)
      ultimately show ?thesis by blast
    qed
  qed
  have start: "P 0 (no_objects (length rs), Map.empty, [])"
    using in_order_inv_start [of "(=)" rs] unfolding P_def
    by (simp add: no_objects_def in_buckets_def buckets_ok_def bucket_def)
  obtain A pool queue where
    "do_each (equality_hash_step rs) [0..<length rs] (no_objects (length rs), Map.empty, []) = Some (A, pool, queue)"
    "P (length rs) (A, pool, queue)"
    using do_each_upt [where P = P and f = "equality_hash_step rs" and n = "length rs", OF start step] by auto
  then show ?thesis
    using assigned_below_ok [of "(=)" rs A] by (auto simp: EqualityAssignmentWithHash_def P_def in_order_inv_def)
qed

lemma EqualityAssignment_ok:
  assumes "\<forall>r\<in>set rs. first_task r \<le> last_task r"
  shows "\<exists>A. EqualityAssignment rs = Some (OkStatus, A) \<and> objects_ok (=) rs A"
proof -
  define P where "P = (\<lambda>i (A :: 'a objects_assignment, dealloc_task). assigned_below (=) rs i A
    \<and> length dealloc_task = length (object_sizes A) \<and> (\<forall>j<i. last_task (rs ! j) \<le> dealloc_task ! (object_ids A ! j)))"
  have step: "\<exists>s'. equality_step rs i s = Some s' \<and> P (Suc i) s'" if i: "i < length rs" and s: "P i s" for i s
  proof -
    obtain A dealloc where s': "s = (A, dealloc)" by (cases s)
    have inv: "assigned_below (=) rs i A" "length dealloc = length (object_sizes A)"
      "\<forall>j<i. last_task (rs ! j) \<le> dealloc ! (object_ids A ! j)" using s s' by (simp_all add: P_def)
    let ?free = "\<lambda>obj. dealloc ! obj < first_task (rs ! i) \<and> object_sizes A ! obj = tensor_size (rs ! i)"
    have len: "i < length (object_ids A)" using inv(1) i by (simp add: assigned_below_def)
    have ids: "object_ids A ! j < length (object_sizes A)" if "j < i" for j using inv(1) that by (simp add: assigned_below_def)
    show ?thesis
    proof (cases "List.find ?free [0..<length (object_sizes A)]")
      case None
      then have "equality_step rs i s = Some (assign_new i (tensor_size (rs ! i)) A, dealloc @ [last_task (rs ! i)])"
        using i inv(2) s' by (simp add: equality_step_def vec)
      moreover have "P (Suc i) (assign_new i (tensor_size (rs ! i)) A, dealloc @ [last_task (rs ! i)])"
        using assigned_below_new [OF inv(1) i] inv(2,3) ids len
        by (auto simp: P_def assign_new_def less_Suc_eq nth_append nth_list_update)
      ultimately show ?thesis by blast
    next
      case (Some obj)
      then have obj: "obj < length (object_sizes A)" "dealloc ! obj < first_task (rs ! i)"
        "object_sizes A ! obj = tensor_size (rs ! i)"
        by (auto simp: find_Some_iff)
      have "equality_step rs i s = Some (assign_to i obj A, dealloc[obj := last_task (rs ! i)])"
        using i inv(2) s' Some by (simp add: equality_step_def vec)
      moreover have before: "last_task (rs ! j) < first_task (rs ! i)" if "j < i" "object_ids A ! j = obj" for j
        using inv(3) that obj(2) by fastforce
      moreover have "assigned_below (=) rs (Suc i) ((assign_to i obj A)\<lparr>object_sizes := object_sizes A\<rparr>)"
        by (rule assigned_below_reuse) (use inv(1) i obj before in auto)
      moreover have "last_task (rs ! j) \<le> last_task (rs ! i)" if "j < i" "object_ids A ! j = obj" for j
        using before [OF that] assms i by (metis le_trans less_imp_le nth_mem)
      ultimately have "P (Suc i) (assign_to i obj A, dealloc[obj := last_task (rs ! i)])"
        using inv(2,3) len ids obj(1)
        by (auto simp: P_def assign_to_def less_Suc_eq nth_list_update)
      then show ?thesis using \<open>equality_step rs i s = _\<close> by blast
    qed
  qed
  have start: "P 0 (no_objects (length rs), [])"
    using assigned_below_start [of "(=)" rs] by (simp add: P_def) (simp add: no_objects_def)
  obtain A dealloc where
    "do_each (equality_step rs) [0..<length rs] (no_objects (length rs), []) = Some (A, dealloc)" "P (length rs) (A, dealloc)"
    using do_each_upt [where P = P and f = "equality_step rs" and n = "length rs", OF start step] by auto
  then show ?thesis using assigned_below_ok [of "(=)" rs A] by (auto simp: EqualityAssignment_def P_def)
qed

lemma closest_covering_pool:
  assumes "do_each (closest_covering covers diff sizes sz) pool (None, 0) = Some (best, d)" "best = Some obj"
  shows "obj \<in> set pool \<and> obj < length sizes \<and> covers (sizes ! obj) sz"
proof -
  have "\<forall>obj. fst (best, d) = Some obj \<longrightarrow> obj \<in> set pool \<and> obj < length sizes \<and> covers (sizes ! obj) sz"
    by (rule do_each_invariant [OF assms(1), where P = "\<lambda>s. \<forall>obj. fst s = Some obj \<longrightarrow>
          obj \<in> set pool \<and> obj < length sizes \<and> covers (sizes ! obj) sz"])
      (auto simp: closest_covering_def vec split: bind_splits if_splits)
  then show ?thesis using assms(2) by simp
qed

lemma closest_covering_defined:
  "\<forall>obj\<in>set pool. obj < length sizes \<Longrightarrow> \<exists>b. do_each (closest_covering covers diff sizes sz) pool s = Some b"
  by (induction pool arbitrary: s) (auto simp: closest_covering_def vec split: prod.splits)

lemma GreedyInOrderAssignmentMultidimensional_ok:
  assumes "in_order rs" "\<And>s. covers s s"
  shows "\<exists>A. GreedyInOrderAssignmentMultidimensional covers diff rs = Some (OkStatus, A) \<and> objects_ok covers rs A"
proof -
  define P where "P = (\<lambda>i (A :: 'a objects_assignment, pool, queue). in_order_inv covers rs i A (mset pool) queue)"
  have step: "\<exists>s'. multidimensional_step covers diff rs i s = Some s' \<and> P (Suc i) s'" if i: "i < length rs" and s: "P i s" for i s
  proof -
    obtain A pool queue where s': "s = (A, pool, queue)" by (cases s)
    have inv: "in_order_inv covers rs i A (mset pool) queue" using s s' by (simp add: P_def)
    obtain queue' pool' where r: "release (\<lambda>object_id pool. Some (pool @ [object_id])) (first_task (rs ! i)) queue pool = Some (queue', pool')"
      "in_order_inv covers rs i A (mset pool') queue'"
      using release_in_order [where add = "\<lambda>object_id pool. Some (pool @ [object_id])" and pool_ok = "\<lambda>_. True" and objects = mset,
          OF assms(1) i _ inv] by auto
    let ?sz = "tensor_size (rs ! i)" and ?n = "length (object_sizes A)"
    have pool': "\<forall>obj\<in>set pool'. obj < ?n" using in_order_inv_objects(1) [OF r(2)] by simp
    obtain best d where best: "do_each (closest_covering covers diff (object_sizes A) ?sz) pool' (None, 0) = Some (best, d)"
      using closest_covering_defined [OF pool'] by (metis surj_pair)
    show ?thesis
    proof (cases best)
      case None
      then show ?thesis
        using new_in_order [OF r(2) i] assms(2) i r(1) best s' by (simp add: multidimensional_step_def vec P_def)
    next
      case (Some obj)
      note b = closest_covering_pool [OF best Some]
      have "multidimensional_step covers diff rs i s
          = Some (assign_to i obj A, remove1 obj pool', queue_push (last_task (rs ! i), obj) queue')"
        using i r(1) best s' Some by (simp add: multidimensional_step_def vec)
      moreover have "in_order_inv covers rs (Suc i) ((assign_to i obj A)\<lparr>object_sizes := object_sizes A\<rparr>)
          (mset pool' - {#obj#}) (queue_push (last_task (rs ! i), obj) queue')"
        by (rule reuse_in_order [OF r(2) i assms(1)]) (use b in simp_all)
      ultimately show ?thesis by (simp add: P_def assign_to_def)
    qed
  qed
  have start: "P 0 (no_objects (length rs), [], [])" using in_order_inv_start [of covers rs] by (simp add: P_def)
  obtain A pool queue where
    "do_each (multidimensional_step covers diff rs) [0..<length rs] (no_objects (length rs), [], []) = Some (A, pool, queue)"
    "P (length rs) (A, pool, queue)"
    using do_each_upt [where P = P and f = "multidimensional_step covers diff rs" and n = "length rs", OF start step] by auto
  then show ?thesis using assigned_below_ok [of covers rs A]
    by (auto simp: GreedyInOrderAssignmentMultidimensional_def P_def in_order_inv_def)
qed

text \<open>The pool of sizes: pairs of a size and an object, each object once.\<close>

lemma add_to_pool_ok:
  assumes "obj < length sizes" "obj \<notin># mset (map snd pool)"
  shows "\<exists>pool'. add_to_pool sizes obj pool = Some pool' \<and> mset (map snd pool') = add_mset obj (mset (map snd pool))"
proof -
  have "(sizes ! obj, obj) \<notin> set pool" using assms(2) by force
  moreover have "mset (sort_insert lt x q) = add_mset x (mset q)" for lt and x :: "nat \<times> nat" and q by (induction q) auto
  ultimately show ?thesis using assms(1) by (simp add: add_to_pool_def vec)
qed

lemma closest_size_in_pool:
  assumes "pool \<noteq> []"
  shows "\<exists>p\<in>set pool. closest_size needed pool = Some p"
proof -
  define k where "k = length (takeWhile (\<lambda>p. pool_before p (needed, 0)) pool)"
  have "k \<le> length pool" unfolding k_def by (rule length_takeWhile_le)
  then show ?thesis
    using assms unfolding closest_size_def Let_def k_def [symmetric]
    by (cases "k < length pool") (auto intro!: nth_mem)
qed

lemma may_replace_defined:
  assumes "obj < length last_assigned" "\<forall>t\<in>set last_assigned. t < length graph"
  shows "\<exists>b. may_replace graph last_assigned obj i = Some b"
proof -
  have "last_assigned ! obj < length graph" using assms by simp
  then show ?thesis using assms(1) by (simp add: may_replace_def vec Let_def)
qed

lemma may_replace_member:
  assumes "may_replace graph last_assigned obj i = Some True" "obj < length last_assigned" "\<forall>t\<in>set last_assigned. t < length graph"
  shows "i \<in> set (graph ! (last_assigned ! obj))"
proof -
  let ?options = "graph ! (last_assigned ! obj)"
  define pos where "pos = length (takeWhile (\<lambda>t. t < i) ?options)"
  have "last_assigned ! obj < length graph" using assms(2,3) by simp
  then have "pos \<noteq> length ?options" "?options ! pos = i"
    using assms(1,2) by (simp_all add: may_replace_def vec Let_def pos_def)
  moreover have "pos \<le> length ?options" by (simp add: pos_def length_takeWhile_le)
  ultimately show ?thesis using nth_mem [of pos ?options] by simp
qed

lemma closest_replaceable_in_pool:
  assumes "\<forall>p\<in>set ps. snd p < length last_assigned" "\<forall>t\<in>set last_assigned. t < length graph"
    "\<forall>p. fst s = Some p \<longrightarrow> Q p" "\<forall>p\<in>set ps. i \<in> set (graph ! (last_assigned ! snd p)) \<longrightarrow> Q p"
  shows "\<exists>s'. do_each (closest_replaceable graph last_assigned i needed) ps s = Some s' \<and> (\<forall>p. fst s' = Some p \<longrightarrow> Q p)"
  using assms(1,3,4)
proof (induction ps arbitrary: s)
  case (Cons p ps)
  have p: "snd p < length last_assigned" using Cons.prems(1) by simp
  obtain b where b: "may_replace graph last_assigned (snd p) i = Some b" using may_replace_defined [OF p assms(2)] by blast
  have "b \<Longrightarrow> Q p" using may_replace_member [OF _ p assms(2)] b Cons.prems(3) by simp
  then have "\<exists>s1. closest_replaceable graph last_assigned i needed p s = Some s1 \<and> (\<forall>q. fst s1 = Some q \<longrightarrow> Q q)"
    using b Cons.prems(2) by (cases p; cases s; cases b) (auto simp: closest_replaceable_def Let_def)
  then obtain s1 where "closest_replaceable graph last_assigned i needed p s = Some s1" "\<forall>q. fst s1 = Some q \<longrightarrow> Q q"
    by blast
  then show ?case using Cons.IH [of s1] Cons.prems by simp
qed simp

lemma best_in_pool_ok:
  assumes "\<forall>p\<in>set pool. snd p < length last_assigned"
    "\<forall>graph t. reallocation_graph = Some graph \<longrightarrow> t \<in> set last_assigned \<longrightarrow> t < length graph"
  shows "\<exists>best. best_in_pool reallocation_graph last_assigned i needed pool = Some (OkStatus, best)
    \<and> (\<forall>p. best = Some p \<longrightarrow> p \<in> set pool
         \<and> (\<forall>graph. reallocation_graph = Some graph \<longrightarrow> i \<in> set (graph ! (last_assigned ! snd p))))"
proof (cases reallocation_graph)
  case None
  then show ?thesis using closest_size_in_pool [of pool needed] by (cases "pool = []") (auto simp: best_in_pool_def)
next
  case (Some graph)
  have "\<exists>s'. do_each (closest_replaceable graph last_assigned i needed) pool (None, 0) = Some s'
      \<and> (\<forall>p. fst s' = Some p \<longrightarrow> p \<in> set pool \<and> i \<in> set (graph ! (last_assigned ! snd p)))"
    by (rule closest_replaceable_in_pool) (use assms Some in auto)
  then show ?thesis using Some by (auto simp: best_in_pool_def)
qed

definition in_order_state_ok :: "nat usage_record list \<Rightarrow> nat \<Rightarrow> in_order_state \<Rightarrow> bool" where
  "in_order_state_ok rs i = (\<lambda>(A, last_assigned, pool, queue).
     in_order_inv (\<ge>) rs i A (mset (map snd pool)) queue \<and> length last_assigned = length (object_sizes A)
     \<and> (\<forall>t\<in>set last_assigned. t < i))"

text \<open>Tensor \<open>i\<close> gets a new object, or one whose last tensor it may replace.\<close>

definition tensor_added ::
  "nat list list option \<Rightarrow> nat \<Rightarrow> nat objects_assignment \<Rightarrow> nat list \<Rightarrow> nat objects_assignment \<Rightarrow> nat list \<Rightarrow> bool" where
  "tensor_added reallocation_graph i A last_assigned A' last_assigned' \<longleftrightarrow>
     (object_ids A' = (object_ids A)[i := length (object_sizes A)] \<and> last_assigned' = last_assigned @ [i])
   \<or> (\<exists>obj<length (object_sizes A). object_ids A' = (object_ids A)[i := obj] \<and> last_assigned' = last_assigned[obj := i]
        \<and> (\<forall>graph. reallocation_graph = Some graph \<longrightarrow> i \<in> set (graph ! (last_assigned ! obj))))"

lemma greedy_in_order_step_ok:
  assumes "in_order rs" "\<forall>graph. reallocation_graph = Some graph \<longrightarrow> length graph = length rs" and i: "i < length rs"
    and s: "in_order_state_ok rs i (A, last_assigned, pool, queue)"
  shows "\<exists>A' last_assigned' pool' queue'.
    greedy_in_order_step rs reallocation_graph i (A, last_assigned, pool, queue) = Some (OkStatus, A', last_assigned', pool', queue')
    \<and> in_order_state_ok rs (Suc i) (A', last_assigned', pool', queue')
    \<and> tensor_added reallocation_graph i A last_assigned A' last_assigned'"
proof -
  have inv: "in_order_inv (\<ge>) rs i A (mset (map snd pool)) queue" "length last_assigned = length (object_sizes A)"
    "\<forall>t\<in>set last_assigned. t < i" using s by (simp_all add: in_order_state_ok_def)
  obtain queue' pool' where r: "release (add_to_pool (object_sizes A)) (first_task (rs ! i)) queue pool = Some (queue', pool')"
    "in_order_inv (\<ge>) rs i A (mset (map snd pool')) queue'"
    using release_in_order [where add = "add_to_pool (object_sizes A)" and pool_ok = "\<lambda>_. True"
        and objects = "\<lambda>p. mset (map snd p)", OF assms(1) i _ inv(1)] add_to_pool_ok by blast
  let ?sz = "tensor_size (rs ! i)" and ?n = "length (object_sizes A)"
  have pool': "snd p < ?n" if "p \<in> set pool'" for p
    using in_order_inv_objects(1) [OF r(2), of "snd p"] that by simp
  have graph: "\<forall>graph t. reallocation_graph = Some graph \<longrightarrow> t \<in> set last_assigned \<longrightarrow> t < length graph"
    using assms(2) inv(3) i by fastforce
  obtain best where best: "best_in_pool reallocation_graph last_assigned i ?sz pool' = Some (OkStatus, best)"
    "\<forall>p. best = Some p \<longrightarrow> p \<in> set pool'
      \<and> (\<forall>graph. reallocation_graph = Some graph \<longrightarrow> i \<in> set (graph ! (last_assigned ! snd p)))"
    using best_in_pool_ok [OF _ graph, of pool' i ?sz] pool' inv(2) by auto
  show ?thesis
  proof (cases best)
    case None
    let ?A = "assign_new i ?sz A" and ?last = "last_assigned @ [i]" and ?queue = "queue_push (last_task (rs ! i), ?n) queue'"
    have "greedy_in_order_step rs reallocation_graph i (A, last_assigned, pool, queue) = Some (OkStatus, ?A, ?last, pool', ?queue)"
      using i r(1) best(1) None by (simp add: greedy_in_order_step_def vec)
    moreover have "in_order_state_ok rs (Suc i) (?A, ?last, pool', ?queue)"
      using new_in_order [OF r(2) i] inv(2,3) by (auto simp: in_order_state_ok_def assign_new_def)
    moreover have "tensor_added reallocation_graph i A last_assigned ?A ?last" by (simp add: tensor_added_def assign_new_def)
    ultimately show ?thesis by blast
  next
    case (Some p)
    obtain sz obj where p: "p = (sz, obj)" by (cases p)
    have in_pool: "(sz, obj) \<in> set pool'" using best(2) Some p by simp
    then have obj: "obj < ?n" using pool' by fastforce
    let ?sizes = "(object_sizes A)[obj := max (object_sizes A ! obj) ?sz]"
    let ?A = "(assign_to i obj A)\<lparr>object_sizes := ?sizes\<rparr>" and ?last = "last_assigned[obj := i]"
    let ?pool = "remove1 (sz, obj) pool'" and ?queue = "queue_push (last_task (rs ! i), obj) queue'"
    have step: "greedy_in_order_step rs reallocation_graph i (A, last_assigned, pool, queue) = Some (OkStatus, ?A, ?last, ?pool, ?queue)"
      using i r(1) best(1) Some p obj inv(2) by (simp add: greedy_in_order_step_def vec)
    have "in_order_inv (\<ge>) rs (Suc i) ?A (mset (map snd pool') - {#obj#}) ?queue"
      by (rule reuse_in_order [OF r(2) i assms(1)])
        (use in_pool obj in \<open>force simp: nth_list_update\<close>)+
    moreover have "mset (map snd ?pool) = mset (map snd pool') - {#obj#}"
      using in_pool by (simp add: image_mset_Diff)
    ultimately have "in_order_state_ok rs (Suc i) (?A, ?last, ?pool, ?queue)"
      using inv(2,3) set_update_subset_insert [of last_assigned obj i] by (fastforce simp: in_order_state_ok_def assign_to_def)
    moreover have "tensor_added reallocation_graph i A last_assigned ?A ?last"
      using obj best(2) Some p by (auto simp: tensor_added_def assign_to_def)
    ultimately show ?thesis using step by blast
  qed
qed

text \<open>The loop, with any invariant that adding a tensor keeps.\<close>

lemma GreedyInOrderAssignment_invariant:
  assumes "in_order rs" "\<forall>graph. reallocation_graph = Some graph \<longrightarrow> length graph = length rs"
    and start: "Q 0 (no_objects (length rs)) []"
    and step: "\<And>i A last_assigned A' last_assigned'. i < length rs \<Longrightarrow> Q i A last_assigned \<Longrightarrow> assigned_below (\<ge>) rs i A
      \<Longrightarrow> length last_assigned = length (object_sizes A) \<Longrightarrow> tensor_added reallocation_graph i A last_assigned A' last_assigned' \<Longrightarrow> Q (Suc i) A' last_assigned'"
  shows "\<exists>A last_assigned. GreedyInOrderAssignment rs reallocation_graph = Some (OkStatus, A) \<and> objects_ok (\<ge>) rs A
    \<and> Q (length rs) A last_assigned"
proof -
  define P where "P = (\<lambda>i s. in_order_state_ok rs i s \<and> Q i (fst s) (fst (snd s)))"
  have P: "\<exists>s'. greedy_in_order_step rs reallocation_graph i s = Some (OkStatus, s') \<and> P (Suc i) s'"
    if i: "i < length rs" and s: "P i s" for i s
  proof -
    obtain A last_assigned pool queue where s': "s = (A, last_assigned, pool, queue)" by (cases s)
    have inv: "in_order_state_ok rs i (A, last_assigned, pool, queue)" "Q i A last_assigned" using s s' by (simp_all add: P_def)
    obtain A' last_assigned' pool' queue' where
      "greedy_in_order_step rs reallocation_graph i s = Some (OkStatus, A', last_assigned', pool', queue')"
      "in_order_state_ok rs (Suc i) (A', last_assigned', pool', queue')"
      "tensor_added reallocation_graph i A last_assigned A' last_assigned'"
      using greedy_in_order_step_ok [OF assms(1,2) i inv(1)] s' by blast
    moreover have "assigned_below (\<ge>) rs i A" "length last_assigned = length (object_sizes A)"
      using inv(1) by (simp_all add: in_order_state_ok_def in_order_inv_def)
    ultimately show ?thesis using step [OF i inv(2)] by (auto simp: P_def)
  qed
  have P0: "P 0 (no_objects (length rs), [], [], [])"
    using in_order_inv_start [of "(\<ge>)" rs] start by (simp add: P_def in_order_state_ok_def) (simp add: no_objects_def)
  have "\<exists>s'. each_status (greedy_in_order_step rs reallocation_graph) [0..<length rs] (no_objects (length rs), [], [], [])
      = Some (OkStatus, s') \<and> P (length rs) s'"
    by (rule each_status_upt [of P, OF P0 P])
  then obtain A last_assigned pool queue where
    "each_status (greedy_in_order_step rs reallocation_graph) [0..<length rs] (no_objects (length rs), [], [], [])
      = Some (OkStatus, A, last_assigned, pool, queue)" "P (length rs) (A, last_assigned, pool, queue)" by auto
  then show ?thesis using assigned_below_ok [of "(\<ge>)" rs A]
    by (auto simp: GreedyInOrderAssignment_def P_def in_order_state_ok_def in_order_inv_def)
qed

lemma GreedyInOrderAssignment_ok:
  assumes "in_order rs" "\<forall>graph. reallocation_graph = Some graph \<longrightarrow> length graph = length rs"
  shows "\<exists>A. GreedyInOrderAssignment rs reallocation_graph = Some (OkStatus, A) \<and> objects_ok (\<ge>) rs A"
  using GreedyInOrderAssignment_invariant [OF assms, of "\<lambda>_ _ _. True"] by blast

section \<open>From objects to offsets\<close>

text \<open>Tensors in use together are apart in the one block, all within its size.\<close>

definition offsets_ok :: "nat usage_record list \<Rightarrow> offsets_assignment \<Rightarrow> bool" where
  "offsets_ok rs F \<longleftrightarrow> length (offsets F) = length rs
     \<and> (\<forall>i<length rs. offsets F ! i + tensor_size (rs ! i) \<le> total_size F)
     \<and> (\<forall>k<length rs. \<forall>j<k. intersects (rs ! j) (rs ! k) \<longrightarrow>
          offsets F ! j + tensor_size (rs ! j) \<le> offsets F ! k \<or> offsets F ! k + tensor_size (rs ! k) \<le> offsets F ! j)"

lemma object_offsets_sums:
  "sum_list sizes < size_t_bound \<Longrightarrow>
    object_offsets sizes = (map (\<lambda>k. sum_list (take k sizes)) [0..<length sizes], sum_list sizes)"
proof (induction sizes rule: rev_induct)
  case Nil
  then show ?case by (simp add: object_offsets_def)
next
  case (snoc sz sizes)
  have "foldl (\<lambda>(ids_to_offset, used) sz. (ids_to_offset @ [used], sz_add used sz)) ([], 0) sizes
      = (map (\<lambda>k. sum_list (take k sizes)) [0..<length sizes], sum_list sizes)"
    using snoc.IH snoc.prems unfolding object_offsets_def by simp
  then show ?case using snoc.prems by (simp add: object_offsets_def sz_add_def)
qed

lemma sum_list_take_mono: "j \<le> k \<Longrightarrow> sum_list (take j sizes) \<le> sum_list (take k sizes)" for sizes :: "nat list"
  by (metis le_add1 le_add_diff_inverse sum_list_append take_add)

lemma sum_list_take_Suc: "k < length sizes \<Longrightarrow> sum_list (take k sizes) + sizes ! k = sum_list (take (Suc k) sizes)"
  for sizes :: "nat list"
  by (simp add: take_Suc_conv_app_nth)

lemma those_map_Some: "those (map Some xs) = Some xs"
  by (induction xs) auto

lemma ObjectsToOffsets_ok:
  assumes "objects_ok (\<ge>) rs A" "sum_list (object_sizes A) < size_t_bound"
  shows "\<exists>F. ObjectsToOffsets A = Some F \<and> offsets_ok rs F \<and> total_size F = sum_list (object_sizes A)"
proof -
  let ?sizes = "object_sizes A" and ?ids = "object_ids A"
  let ?o = "\<lambda>k. sum_list (take k ?sizes)"
  have len: "length ?ids = length rs" and ids: "\<And>i. i < length rs \<Longrightarrow> ?ids ! i < length ?sizes"
    and large: "\<And>i. i < length rs \<Longrightarrow> tensor_size (rs ! i) \<le> ?sizes ! (?ids ! i)"
    using assms(1) by (auto simp: objects_ok_def)
  have "id < length ?sizes" if "id \<in> set ?ids" for id using that ids len by (auto simp: in_set_conv_nth)
  then have "map (\<lambda>id. vec_at (map ?o [0..<length ?sizes]) (int id)) ?ids = map Some (map ?o ?ids)"
    by (auto simp: vec)
  then have "those (map (\<lambda>id. vec_at (map ?o [0..<length ?sizes]) (int id)) ?ids) = Some (map ?o ?ids)"
    by (simp only: those_map_Some)
  then have run: "ObjectsToOffsets A = Some \<lparr>offsets = map ?o ?ids, total_size = sum_list ?sizes\<rparr>"
    using object_offsets_sums [OF assms(2)] by (simp add: ObjectsToOffsets_def)
  have ends: "?o (?ids ! i) + tensor_size (rs ! i) \<le> ?o (Suc (?ids ! i))" if "i < length rs" for i
    using sum_list_take_Suc [OF ids [OF that]] large [OF that] by linarith
  have order: "?o (?ids ! i) + tensor_size (rs ! i) \<le> ?o (?ids ! k)" if "i < length rs" "?ids ! i < ?ids ! k" for i k
    using ends [OF that(1)] sum_list_take_mono [of "Suc (?ids ! i)" "?ids ! k" ?sizes] that(2) by simp
  have within: "?o (?ids ! i) + tensor_size (rs ! i) \<le> sum_list ?sizes" if "i < length rs" for i
    using ends [OF that] sum_list_take_mono [of "Suc (?ids ! i)" "length ?sizes" ?sizes] ids [OF that] by simp
  have "offsets_ok rs \<lparr>offsets = map ?o ?ids, total_size = sum_list ?sizes\<rparr>"
    unfolding offsets_ok_def
  proof (intro conjI allI impI)
    fix k j assume k: "k < length rs" and j: "j < k" and "intersects (rs ! j) (rs ! k)"
    then have "?ids ! j \<noteq> ?ids ! k" using assms(1) by (simp add: objects_ok_def)
    then show "offsets \<lparr>offsets = map ?o ?ids, total_size = sum_list ?sizes\<rparr> ! j + tensor_size (rs ! j)
          \<le> offsets \<lparr>offsets = map ?o ?ids, total_size = sum_list ?sizes\<rparr> ! k
        \<or> offsets \<lparr>offsets = map ?o ?ids, total_size = sum_list ?sizes\<rparr> ! k + tensor_size (rs ! k)
          \<le> offsets \<lparr>offsets = map ?o ?ids, total_size = sum_list ?sizes\<rparr> ! j"
      using order [of j k] order [of k j] j k len by (cases "?ids ! j < ?ids ! k") auto
  qed (use within len in simp_all)
  then show ?thesis using run by simp
qed

text \<open>The objects need no more memory than the tensors one by one.\<close>

lemma objects_ok_sum:
  fixes rs :: "nat usage_record list"
  assumes "objects_ok covers rs A"
  shows "sum_list (object_sizes A) \<le> sum_list (map tensor_size rs)"
proof -
  let ?m = "length (object_sizes A)" and ?n = "length rs"
  let ?of = "\<lambda>b. {i \<in> {..<?n}. object_ids A ! i = b}"
  have "object_sizes A ! b \<le> (\<Sum>i\<in>?of b. tensor_size (rs ! i))" if b: "b < ?m" for b
  proof -
    obtain i where "i < ?n" "object_ids A ! i = b" "object_sizes A ! b = tensor_size (rs ! i)"
      using assms b by (auto simp: objects_ok_def)
    then show ?thesis using member_le_sum [of i "?of b" "\<lambda>i. tensor_size (rs ! i)"] by simp
  qed
  then have "(\<Sum>b<?m. object_sizes A ! b) \<le> (\<Sum>b<?m. \<Sum>i\<in>?of b. tensor_size (rs ! i))" by (intro sum_mono) simp
  also have "\<dots> = (\<Sum>i<?n. tensor_size (rs ! i))"
    by (rule sum.group) (use assms in \<open>auto simp: objects_ok_def\<close>)
  finally show ?thesis by (simp add: sum_list_sum_nth atLeast0LessThan)
qed

end
