(* ===== verification/Gpu_Realloc.thy ===== *)
theory Gpu_Realloc
  imports Gpu_Memory
begin

text \<open>
  The reallocation graph, \<^verbatim>\<open>delegates/gpu/common/memory_management/types.cc\<close>: which tensors can share memory
  whatever the order in which operations run. The number of visits of a vertex is at most the number of edges, so it
  does not wrap around. The loop of the search is a partial function, and it is shown to return.
\<close>

section \<open>Breadth-first search\<close>

definition bfs_edge :: "nat \<Rightarrow> nat list \<times> bool list \<times> nat list \<Rightarrow> (nat list \<times> bool list \<times> nat list) option" where
  "bfs_edge to_vertex = (\<lambda>(queue, is_visited, num_visits). do {
     seen \<leftarrow> vec_at is_visited (int to_vertex);
     if seen then Some (queue, is_visited, num_visits)
     else do {
       is_visited \<leftarrow> vec_set is_visited (int to_vertex) True;
       n \<leftarrow> vec_at num_visits (int to_vertex);
       num_visits \<leftarrow> vec_set num_visits (int to_vertex) (n + 1);
       Some (queue @ [to_vertex], is_visited, num_visits) } })"

partial_function (option) bfs_loop :: "nat list list \<Rightarrow> nat list \<Rightarrow> bool list \<Rightarrow> nat list \<Rightarrow> nat list option" where
  "bfs_loop deps_graph queue is_visited num_visits =
     (if queue = [] then Some num_visits
      else do {
        targets \<leftarrow> vec_at deps_graph (int (hd queue));
        s \<leftarrow> do_each bfs_edge targets (tl queue, is_visited, num_visits);
        bfs_loop deps_graph (fst s) (fst (snd s)) (snd (snd s)) })"

declare bfs_loop.simps [code]

definition BFS :: "nat \<Rightarrow> nat list list \<Rightarrow> nat list \<Rightarrow> nat list option" where
  "BFS start deps_graph num_visits = do {
     is_visited \<leftarrow> vec_set (replicate (length deps_graph) False) (int start) True;
     bfs_loop deps_graph [start] is_visited num_visits }"

section \<open>The graph\<close>

definition add_pair :: "nat \<Rightarrow> nat list \<Rightarrow> nat \<Rightarrow> nat \<Rightarrow> nat list list \<Rightarrow> nat list list option" where
  "add_pair root num_visits num_children vertex G = do {
     n \<leftarrow> vec_at num_visits (int vertex);
     if n \<noteq> num_children then Some G
     else do {
       of_root \<leftarrow> vec_at G (int root);
       G \<leftarrow> vec_set G (int root) (of_root @ [vertex]);
       of_vertex \<leftarrow> vec_at G (int vertex);
       vec_set G (int vertex) (of_vertex @ [root]) } }"

definition realloc_root :: "nat list list \<Rightarrow> nat \<Rightarrow> nat list list \<Rightarrow> nat list list option" where
  "realloc_root deps_graph root G = do {
     children \<leftarrow> vec_at deps_graph (int root);
     if children = [] then Some G
     else do {
       num_visits \<leftarrow> do_each (\<lambda>child. BFS child deps_graph) children (replicate (length deps_graph) 0);
       do_each (add_pair root num_visits (length children)) [0..<length deps_graph] G } }"

definition ReallocationGraph :: "nat list list \<Rightarrow> nat list list option" where
  "ReallocationGraph deps_graph = do {
     G \<leftarrow> do_each (realloc_root deps_graph) [0..<length deps_graph] (replicate (length deps_graph) []);
     Some (map (std_sort (<)) G) }"

section \<open>The search visits what is reachable\<close>

definition graph_ok :: "nat list list \<Rightarrow> bool" where
  "graph_ok deps \<longleftrightarrow> (\<forall>targets\<in>set deps. \<forall>y\<in>set targets. y < length deps)"

definition graph_edges :: "nat list list \<Rightarrow> (nat \<times> nat) set" where
  "graph_edges deps = {(x, y). x < length deps \<and> y \<in> set (deps ! x)}"

abbreviation reaches :: "nat list list \<Rightarrow> nat \<Rightarrow> nat \<Rightarrow> bool" where
  "reaches deps x y \<equiv> (x, y) \<in> (graph_edges deps)\<^sup>*"

lemma bfs_edges:
  assumes "length vis = n" "length num = n" "\<forall>y\<in>set targets. y < n"
  shows "\<exists>new vis' num'. do_each bfs_edge targets (queue, vis, num) = Some (queue @ new, vis', num')
    \<and> length vis' = n \<and> length num' = n \<and> set new = {y \<in> set targets. \<not> vis ! y} \<and> distinct new
    \<and> (\<forall>v<n. vis' ! v = (vis ! v \<or> v \<in> set targets))
    \<and> (\<forall>v<n. num' ! v = num ! v + (if v \<in> set targets \<and> \<not> vis ! v then 1 else 0))"
  using assms
proof (induction targets arbitrary: queue vis num)
  case (Cons y targets)
  show ?case
  proof (cases "vis ! y")
    case True
    have "bfs_edge y (queue, vis, num) = Some (queue, vis, num)" using True Cons.prems by (simp add: bfs_edge_def vec)
    moreover obtain new vis' num' where "do_each bfs_edge targets (queue, vis, num) = Some (queue @ new, vis', num')"
      "length vis' = n" "length num' = n" "set new = {y \<in> set targets. \<not> vis ! y}" "distinct new"
      "\<forall>v<n. vis' ! v = (vis ! v \<or> v \<in> set targets)"
      "\<forall>v<n. num' ! v = num ! v + (if v \<in> set targets \<and> \<not> vis ! v then 1 else 0)"
      using Cons.IH [OF Cons.prems(1,2), of queue] Cons.prems(3) by auto
    ultimately show ?thesis using True by (intro exI [of _ new] exI [of _ vis'] exI [of _ num']) auto
  next
    case False
    let ?vis = "vis[y := True]" and ?num = "num[y := num ! y + 1]"
    have y: "y < n" using Cons.prems(3) by simp
    have run: "bfs_edge y (queue, vis, num) = Some (queue @ [y], ?vis, ?num)"
      using False Cons.prems(1,2) y by (simp add: bfs_edge_def vec)
    have "length ?vis = n" "length ?num = n" "\<forall>y\<in>set targets. y < n" using Cons.prems by simp_all
    from Cons.IH [OF this, of "queue @ [y]"] obtain new vis' num' where
      rest: "do_each bfs_edge targets (queue @ [y], ?vis, ?num) = Some ((queue @ [y]) @ new, vis', num')"
      "length vis' = n" "length num' = n" "set new = {z \<in> set targets. \<not> ?vis ! z}" "distinct new"
      "\<forall>v<n. vis' ! v = (?vis ! v \<or> v \<in> set targets)"
      "\<forall>v<n. num' ! v = ?num ! v + (if v \<in> set targets \<and> \<not> ?vis ! v then 1 else 0)"
      by blast
    have vis: "?vis ! v = (v = y \<or> vis ! v)" for v using y Cons.prems(1) by (simp add: nth_list_update)
    have num: "?num ! v = num ! v + (if v = y then 1 else 0)" for v using y Cons.prems(2) by (simp add: nth_list_update)
    show ?thesis
    proof (intro exI conjI)
      show "do_each bfs_edge (y # targets) (queue, vis, num) = Some (queue @ (y # new), vis', num')" using run rest(1) by simp
      show "length vis' = n" "length num' = n" by (rule rest(2,3))+
      show "set (y # new) = {z \<in> set (y # targets). \<not> vis ! z}" using rest(4) False unfolding vis by auto
      show "distinct (y # new)" using rest(4,5) unfolding vis by auto
      show "\<forall>v<n. vis' ! v = (vis ! v \<or> v \<in> set (y # targets))" using rest(6) unfolding vis by auto
      show "\<forall>v<n. num' ! v = num ! v + (if v \<in> set (y # targets) \<and> \<not> vis ! v then 1 else 0)"
        using rest(7) False unfolding vis num by auto
    qed
  qed
qed simp

text \<open>What is visited and not in the queue has visited neighbours.\<close>

lemma frontier:
  assumes "reaches deps x v" "V x" "\<not> V v" "\<And>x y. V x \<Longrightarrow> x \<notin> set queue \<Longrightarrow> (x, y) \<in> graph_edges deps \<Longrightarrow> V y"
  shows "\<exists>q\<in>set queue. reaches deps q v"
  using assms(1,2)
proof (induction rule: converse_rtrancl_induct)
  case base
  then show ?case using assms(3) by simp
next
  case (step x y)
  show ?case
  proof (cases "x \<in> set queue")
    case True
    then show ?thesis using step.hyps by (meson converse_rtrancl_into_rtrancl)
  next
    case False
    then show ?thesis using step.IH assms(4) step.prems step.hyps(1) by blast
  qed
qed

lemma bfs_loop_ok:
  assumes "graph_ok deps"
    and "length vis = length deps" "length num = length deps" "\<forall>q\<in>set queue. q < length deps \<and> vis ! q" 
    and "\<And>x y. x < length deps \<Longrightarrow> vis ! x \<Longrightarrow> x \<notin> set queue \<Longrightarrow> (x, y) \<in> graph_edges deps \<Longrightarrow> vis ! y"
  shows "\<exists>num'. bfs_loop deps queue vis num = Some num' \<and> length num' = length deps
    \<and> (\<forall>v<length deps. num' ! v = num ! v + (if \<not> vis ! v \<and> (\<exists>q\<in>set queue. reaches deps q v) then 1 else 0))"
  using assms(2-)
proof (induction "card {v. v < length deps \<and> \<not> vis ! v} + length queue" arbitrary: queue vis num rule: less_induct)
  case less
  let ?n = "length deps"
  show ?case
  proof (cases queue)
    case Nil
    then show ?thesis using less.prems(2) by (subst bfs_loop.simps) simp
  next
    case (Cons f q)
    have f: "f < ?n" "vis ! f" using less.prems(3) Cons by simp_all
    have targets: "\<forall>y\<in>set (deps ! f). y < ?n" using assms(1) nth_mem [OF f(1)] unfolding graph_ok_def by blast
    obtain new vis' num' where step: "do_each bfs_edge (deps ! f) (q, vis, num) = Some (q @ new, vis', num')"
      "length vis' = ?n" "length num' = ?n" "set new = {y \<in> set (deps ! f). \<not> vis ! y}" "distinct new"
      "\<forall>v<?n. vis' ! v = (vis ! v \<or> v \<in> set (deps ! f))"
      "\<forall>v<?n. num' ! v = num ! v + (if v \<in> set (deps ! f) \<and> \<not> vis ! v then 1 else 0)"
      using bfs_edges [OF less.prems(1,2) targets, of q] by blast
    have run: "bfs_loop deps queue vis num = bfs_loop deps (q @ new) vis' num'"
      using Cons f(1) step(1) by (subst bfs_loop.simps) (simp add: vec)
    have in_bounds': "y < ?n" if "(x, y) \<in> graph_edges deps" for x y
      using assms(1) that by (auto simp: graph_ok_def graph_edges_def)
    have closed: "vis' ! y" if "x < ?n" "vis' ! x" "x \<notin> set (q @ new)" "(x, y) \<in> graph_edges deps" for x y
    proof (cases "x = f")
      case True
      then show ?thesis using that(4) step(6) in_bounds' [OF that(4)] by (auto simp: graph_edges_def)
    next
      case False
      have "vis ! x" using that(1-3) step(4,6) by auto
      then have "vis ! y" using less.prems(4) [of x y] that False Cons by simp
      then show ?thesis using step(6) in_bounds' [OF that(4)] by blast
    qed
    have queue': "\<forall>x\<in>set (q @ new). x < ?n \<and> vis' ! x" using less.prems(3) step(4,6) targets Cons by auto
    have "{v. v < ?n \<and> \<not> vis' ! v} = {v. v < ?n \<and> \<not> vis ! v} - set new" using step(4,6) by auto
    moreover have "set new \<subseteq> {v. v < ?n \<and> \<not> vis ! v}" using step(4) targets by auto
    ultimately have "card {v. v < ?n \<and> \<not> vis' ! v} + length new = card {v. v < ?n \<and> \<not> vis ! v}"
      using distinct_card [OF step(5)] card_mono [of "{v. v < ?n \<and> \<not> vis ! v}" "set new"]
      by (simp add: card_Diff_subset)
    then have smaller: "card {v. v < ?n \<and> \<not> vis' ! v} + length (q @ new) < card {v. v < ?n \<and> \<not> vis ! v} + length queue"
      using Cons by simp
    have "\<exists>num''. bfs_loop deps (q @ new) vis' num' = Some num'' \<and> length num'' = ?n
        \<and> (\<forall>v<?n. num'' ! v = num' ! v + (if \<not> vis' ! v \<and> (\<exists>x\<in>set (q @ new). reaches deps x v) then 1 else 0))"
      by (rule less.hyps [OF smaller step(2,3) queue']) (rule closed)
    then obtain num'' where rest: "bfs_loop deps (q @ new) vis' num' = Some num''" "length num'' = ?n"
      "\<forall>v<?n. num'' ! v = num' ! v + (if \<not> vis' ! v \<and> (\<exists>x\<in>set (q @ new). reaches deps x v) then 1 else 0)" by blast
    have "num'' ! v = num ! v + (if \<not> vis ! v \<and> (\<exists>x\<in>set queue. reaches deps x v) then 1 else 0)" if v: "v < ?n" for v
    proof (cases "vis' ! v")
      case True
      have "reaches deps f v" if "v \<in> set (deps ! f)" using that f(1) by (auto simp: graph_edges_def)
      then show ?thesis using True v step(6,7) rest(3) Cons by auto
    next
      case False
      have "(\<exists>x\<in>set (q @ new). reaches deps x v) \<longleftrightarrow> (\<exists>x\<in>set queue. reaches deps x v)"
      proof
        assume "\<exists>x\<in>set (q @ new). reaches deps x v"
        then obtain x where x: "x \<in> set (q @ new)" "reaches deps x v" by blast
        show "\<exists>x\<in>set queue. reaches deps x v"
        proof (cases "x \<in> set q")
          case True
          then show ?thesis using x(2) Cons by auto
        next
          case False
          then have "(f, x) \<in> graph_edges deps" using x(1) step(4) f(1) by (auto simp: graph_edges_def)
          then have "reaches deps f v" using x(2) by (rule converse_rtrancl_into_rtrancl)
          then show ?thesis using Cons by simp
        qed
      next
        assume "\<exists>x\<in>set queue. reaches deps x v"
        then obtain x where x: "x \<in> set queue" "reaches deps x v" by blast
        have "x < ?n" "vis ! x" using less.prems(3) x(1) by blast+
        then have "vis' ! x" using step(6) by blast
        show "\<exists>x\<in>set (q @ new). reaches deps x v"
          by (rule frontier [OF x(2), where V = "\<lambda>x. x < ?n \<and> vis' ! x"])
            (use \<open>x < ?n\<close> \<open>vis' ! x\<close> False closed in_bounds' in blast)+
      qed
      moreover have "\<not> vis ! v" "v \<notin> set (deps ! f)" using False step(6) v by blast+
      ultimately show ?thesis using False v step(7) rest(3) by auto
    qed
    then show ?thesis using run rest(1,2) by auto
  qed
qed

lemma BFS_ok:
  assumes "graph_ok deps" "length num = length deps" "start < length deps"
  shows "\<exists>num'. BFS start deps num = Some num' \<and> length num' = length deps
    \<and> (\<forall>v<length deps. num' ! v = num ! v + (if v \<noteq> start \<and> reaches deps start v then 1 else 0))"
proof -
  let ?vis = "(replicate (length deps) False)[start := True]"
  have vis: "?vis ! v = (v = start)" if "v < length deps" for v using that by (cases "v = start") simp_all
  have "\<exists>num'. bfs_loop deps [start] ?vis num = Some num' \<and> length num' = length deps
    \<and> (\<forall>v<length deps. num' ! v = num ! v + (if \<not> ?vis ! v \<and> (\<exists>q\<in>set [start]. reaches deps q v) then 1 else 0))"
    by (rule bfs_loop_ok [OF assms(1)]) (use assms(2,3) vis in auto)
  then show ?thesis using assms(3) vis by (simp add: BFS_def vec)
qed

section \<open>Which tensors can share memory\<close>

text \<open>All that reads \<open>x\<close> has to run before \<open>y\<close> is computed.\<close>

definition frees :: "nat list list \<Rightarrow> nat \<Rightarrow> nat \<Rightarrow> bool" where
  "frees deps x y \<longleftrightarrow> deps ! x \<noteq> [] \<and> (\<forall>c\<in>set (deps ! x). c \<noteq> y \<and> reaches deps c y)"

lemma children_visits:
  assumes "graph_ok deps" "\<forall>c\<in>set children. c < length deps" "length num = length deps"
  shows "\<exists>num'. do_each (\<lambda>child. BFS child deps) children num = Some num' \<and> length num' = length deps
    \<and> (\<forall>v<length deps. num' ! v = num ! v + length (filter (\<lambda>c. c \<noteq> v \<and> reaches deps c v) children))"
  using assms(2,3)
proof (induction children arbitrary: num)
  case (Cons c children)
  obtain num1 where num1: "BFS c deps num = Some num1" "length num1 = length deps"
    "\<forall>v<length deps. num1 ! v = num ! v + (if v \<noteq> c \<and> reaches deps c v then 1 else 0)"
    using BFS_ok [OF assms(1) Cons.prems(2), of c] Cons.prems(1) by auto
  obtain num2 where "do_each (\<lambda>child. BFS child deps) children num1 = Some num2" "length num2 = length deps"
    "\<forall>v<length deps. num2 ! v = num1 ! v + length (filter (\<lambda>c. c \<noteq> v \<and> reaches deps c v) children)"
    using Cons.IH [OF _ num1(2)] Cons.prems(1) by auto
  then show ?case using num1 by (intro exI [of _ num2]) auto
qed simp

lemma filter_all: "length (filter P xs) = length xs \<longleftrightarrow> (\<forall>x\<in>set xs. P x)"
  by (induction xs) (auto simp: le_imp_less_Suc length_filter_le less_imp_neq)

lemma add_pairs:
  assumes "root < n" "length num = n" "length G = n" "k \<le> n"
  shows "\<exists>G'. do_each (add_pair root num m) [0..<k] G = Some G' \<and> length G' = n
    \<and> (\<forall>a<n. set (G' ! a) = set (G ! a) \<union> {v. v < k \<and> num ! v = m \<and> a = root} \<union> {v. v = root \<and> a < k \<and> num ! a = m})"
  using assms(4)
proof (induction k)
  case 0
  then show ?case using assms(3) by simp
next
  case (Suc k)
  then obtain G1 where G1: "do_each (add_pair root num m) [0..<k] G = Some G1" "length G1 = n"
    "\<forall>a<n. set (G1 ! a) = set (G ! a) \<union> {v. v < k \<and> num ! v = m \<and> a = root} \<union> {v. v = root \<and> a < k \<and> num ! a = m}"
    by auto
  show ?case
  proof (cases "num ! k = m")
    case False
    then have "add_pair root num m k G1 = Some G1" using Suc.prems assms(2) by (simp add: add_pair_def vec)
    then show ?thesis using G1 False by (auto simp: do_each_snoc less_Suc_eq)
  next
    case True
    let ?G = "G1[root := G1 ! root @ [k]]"
    let ?G' = "?G[k := ?G ! k @ [root]]"
    have "add_pair root num m k G1 = Some ?G'" using True Suc.prems assms(1,2) G1(2) by (simp add: add_pair_def vec)
    moreover have "set (?G' ! a) = set (G1 ! a) \<union> {v. v = k \<and> a = root} \<union> {v. v = root \<and> a = k}" if "a < n" for a
      using that G1(2) Suc.prems assms(1) by (auto simp: nth_list_update)
    ultimately show ?thesis using G1 True by (auto simp: do_each_snoc less_Suc_eq)
  qed
qed

lemma realloc_root_ok:
  assumes "graph_ok deps" "root < length deps" "length G = length deps"
  shows "\<exists>G'. realloc_root deps root G = Some G' \<and> length G' = length deps
    \<and> (\<forall>a<length deps. set (G' ! a) = set (G ! a) \<union> {v. v < length deps \<and> frees deps root v \<and> a = root}
         \<union> {v. v = root \<and> frees deps root a})"
proof (cases "deps ! root = []")
  case True
  then show ?thesis using assms(2,3) by (simp add: realloc_root_def vec frees_def)
next
  case False
  let ?n = "length deps" and ?m = "length (deps ! root)"
  have children: "\<forall>c\<in>set (deps ! root). c < ?n" using assms(1) nth_mem [OF assms(2)] unfolding graph_ok_def by blast
  obtain num where num: "do_each (\<lambda>child. BFS child deps) (deps ! root) (replicate ?n 0) = Some num" "length num = ?n"
    "\<forall>v<?n. num ! v = length (filter (\<lambda>c. c \<noteq> v \<and> reaches deps c v) (deps ! root))"
    using children_visits [OF assms(1) children, of "replicate ?n 0"] by auto
  have frees: "num ! v = ?m \<longleftrightarrow> frees deps root v" if "v < ?n" for v
    using num(3) that False filter_all by (simp add: frees_def)
  obtain G' where "do_each (add_pair root num ?m) [0..<?n] G = Some G'" "length G' = ?n"
    "\<forall>a<?n. set (G' ! a) = set (G ! a) \<union> {v. v < ?n \<and> num ! v = ?m \<and> a = root} \<union> {v. v = root \<and> a < ?n \<and> num ! a = ?m}"
    using add_pairs [OF assms(2) num(2) assms(3) order_refl, of ?m] by blast
  then show ?thesis using False assms(2) num(1) frees by (intro exI [of _ G']) (auto simp: realloc_root_def vec)
qed

interpretation vertex_order: strict_weak_order "(<) :: nat \<Rightarrow> nat \<Rightarrow> bool" UNIV
  by unfold_locales auto

lemma ReallocationGraph_ok:
  assumes "graph_ok deps"
  shows "\<exists>G. ReallocationGraph deps = Some G \<and> length G = length deps
    \<and> (\<forall>x<length deps. sorted (G ! x) \<and> set (G ! x) = {y. y < length deps \<and> (frees deps x y \<or> frees deps y x)})"
proof -
  let ?n = "length deps"
  define P where "P = (\<lambda>k G. length G = ?n \<and> (\<forall>a<?n. set (G ! a) = {v. v < ?n \<and> ((a < k \<and> frees deps a v) \<or> (v < k \<and> frees deps v a))}))"
  have step: "\<exists>G'. realloc_root deps k G = Some G' \<and> P (Suc k) G'" if k: "k < ?n" "P k G" for k G
  proof -
    obtain G' where "realloc_root deps k G = Some G'" "length G' = ?n"
      "\<forall>a<?n. set (G' ! a) = set (G ! a) \<union> {v. v < ?n \<and> frees deps k v \<and> a = k} \<union> {v. v = k \<and> frees deps k a}"
      using realloc_root_ok [OF assms k(1), of G] k(2) unfolding P_def by blast
    then show ?thesis using k by (intro exI [of _ G']) (auto simp: P_def less_Suc_eq)
  qed
  have start: "P 0 (replicate ?n [])" by (simp add: P_def)
  have "\<exists>G. do_each (realloc_root deps) [0..<?n] (replicate ?n []) = Some G \<and> P ?n G"
    by (rule do_each_upt [of P, OF start step])
  then obtain G where "do_each (realloc_root deps) [0..<?n] (replicate ?n []) = Some G" "P ?n G" by blast
  moreover have "sorted (std_sort (<) xs)" for xs :: "nat list"
    using vertex_order.sorted_std_sort [of xs] by (simp add: sorted_by_def not_less sorted_wrt_iff_nth_less sorted_iff_nth_mono_less)
  ultimately show ?thesis
    by (intro exI [of _ "map (std_sort (<)) G"]) (auto simp: ReallocationGraph_def P_def)
qed

section \<open>Sharing memory in any order\<close>

definition numbered_in_order :: "nat list list \<Rightarrow> bool" where
  "numbered_in_order deps \<longleftrightarrow> (\<forall>x<length deps. \<forall>y\<in>set (deps ! x). x < y)"

lemma reaches_le:
  assumes "numbered_in_order deps" "reaches deps x y"
  shows "x \<le> y"
  using assms(2)
proof (induction rule: rtrancl_induct)
  case (step y z)
  then have "y < z" using assms(1) by (auto simp: numbered_in_order_def graph_edges_def)
  then show ?case using step.IH by simp
qed simp

lemma frees_less:
  assumes "numbered_in_order deps" "frees deps x y" "x < length deps"
  shows "x < y"
proof -
  obtain c where c: "c \<in> set (deps ! x)" using assms(2) by (metis frees_def list.set_sel(1))
  then have "x < c" "reaches deps c y" using assms by (auto simp: numbered_in_order_def frees_def)
  then show ?thesis using reaches_le [OF assms(1)] by fastforce
qed

lemma frees_trans:
  assumes "numbered_in_order deps" "frees deps x y" "frees deps y z" "x < length deps" "y < length deps"
  shows "frees deps x z"
  unfolding frees_def
proof (intro conjI ballI)
  show "deps ! x \<noteq> []" using assms(2) by (simp add: frees_def)
  fix c assume "c \<in> set (deps ! x)"
  then have c: "reaches deps c y" using assms(2) by (simp add: frees_def)
  obtain d where d: "d \<in> set (deps ! y)" "reaches deps d z" using assms(3) by (metis frees_def list.set_sel(1))
  then have "(y, d) \<in> graph_edges deps" using assms(5) by (simp add: graph_edges_def)
  then show "reaches deps c z" using c d(2) by (meson converse_rtrancl_into_rtrancl rtrancl_trans)
  show "c \<noteq> z" using reaches_le [OF assms(1) c] frees_less [OF assms(1,3,5)] by simp
qed

text \<open>\<open>time x\<close> is when tensor \<open>x\<close> is computed: after all that it is computed from.\<close>

definition schedule :: "nat list list \<Rightarrow> (nat \<Rightarrow> nat) \<Rightarrow> bool" where
  "schedule deps time \<longleftrightarrow> (\<forall>(x, y)\<in>graph_edges deps. time x < time y)"

lemma schedule_reaches:
  assumes "schedule deps time" "reaches deps x y" "x \<noteq> y"
  shows "time x < time y"
  using assms(2,3)
proof (induction rule: rtrancl_induct)
  case (step y z)
  have "time y < time z" using assms(1) step.hyps(2) by (auto simp: schedule_def)
  then show ?case using step by (cases "x = y") auto
qed simp

lemma frees_schedule:
  assumes "schedule deps time" "frees deps x y" "x < length deps"
  shows "time x < time y" "\<forall>c\<in>set (deps ! x). time c < time y"
proof -
  show readers: "\<forall>c\<in>set (deps ! x). time c < time y"
    using schedule_reaches [OF assms(1)] assms(2) by (simp add: frees_def)
  obtain c where c: "c \<in> set (deps ! x)" using assms(2) by (metis frees_def list.set_sel(1))
  then have "time x < time c" using assms(1,3) by (auto simp: schedule_def graph_edges_def)
  then show "time x < time y" using readers c by fastforce
qed

text \<open>Of two tensors with the same object the first one frees the second.\<close>

definition replaced_in_order :: "nat list list \<Rightarrow> nat \<Rightarrow> nat objects_assignment \<Rightarrow> nat list \<Rightarrow> bool" where
  "replaced_in_order deps i A last_assigned \<longleftrightarrow>
     (\<forall>obj<length last_assigned. last_assigned ! obj < i \<and> object_ids A ! (last_assigned ! obj) = obj)
   \<and> (\<forall>j<i. object_ids A ! j < length last_assigned
        \<and> (j \<noteq> last_assigned ! (object_ids A ! j) \<longrightarrow> frees deps j (last_assigned ! (object_ids A ! j))))
   \<and> (\<forall>k<i. \<forall>j<k. object_ids A ! j = object_ids A ! k \<longrightarrow> frees deps j k)"

lemma replaced_in_order_step:
  assumes inv: "replaced_in_order deps i A last_assigned" and order: "numbered_in_order deps" and i: "i < length deps"
    and len: "length last_assigned = length (object_sizes A)" "length (object_ids A) = length deps"
    and G: "\<forall>x<length deps. set (G ! x) = {y. y < length deps \<and> (frees deps x y \<or> frees deps y x)}"
    and added: "tensor_added (Some G) i A last_assigned A' last_assigned'"
  shows "replaced_in_order deps (Suc i) A' last_assigned'"
proof -
  have I: "\<And>obj. obj < length last_assigned \<Longrightarrow> last_assigned ! obj < i \<and> object_ids A ! (last_assigned ! obj) = obj"
    "\<And>j. j < i \<Longrightarrow> object_ids A ! j < length last_assigned"
    "\<And>j. j < i \<Longrightarrow> j \<noteq> last_assigned ! (object_ids A ! j) \<Longrightarrow> frees deps j (last_assigned ! (object_ids A ! j))"
    "\<And>j k. k < i \<Longrightarrow> j < k \<Longrightarrow> object_ids A ! j = object_ids A ! k \<Longrightarrow> frees deps j k"
    using inv unfolding replaced_in_order_def by blast+
  consider (new) "object_ids A' = (object_ids A)[i := length last_assigned]" "last_assigned' = last_assigned @ [i]"
    | (reuse) obj where "obj < length last_assigned" "object_ids A' = (object_ids A)[i := obj]"
      "last_assigned' = last_assigned[obj := i]" "i \<in> set (G ! (last_assigned ! obj))"
    using added len(1) unfolding tensor_added_def by auto
  then show ?thesis
  proof cases
    case new
    have id': "object_ids A' ! j = (if j = i then length last_assigned else object_ids A ! j)" for j
      using new(1) i len(2) by (simp add: nth_list_update)
    show ?thesis
      unfolding replaced_in_order_def new(2)
    proof (intro conjI allI impI)
      fix k j assume "k < Suc i" "j < k" "object_ids A' ! j = object_ids A' ! k"
      then show "frees deps j k" using I(2) [of j] I(4) [of k j] by (auto simp: id' less_Suc_eq split: if_splits)
    qed (use I(1-3) in \<open>auto simp: id' nth_append less_Suc_eq split: if_splits\<close>)
  next
    case reuse
    let ?last = "last_assigned ! obj"
    have last: "?last < i" "object_ids A ! ?last = obj" using I(1) [OF reuse(1)] by blast+
    then have "frees deps ?last i \<or> frees deps i ?last" using G reuse(4) i by auto
    then have free: "frees deps ?last i" using frees_less [OF order _ i] last(1) by fastforce
    have all: "frees deps j i" if "j < i" "object_ids A ! j = obj" for j
    proof (cases "j = ?last")
      case False
      then have "frees deps j ?last" using I(3) [OF that(1)] that(2) by simp
      then show ?thesis using frees_trans [OF order _ free] that(1) last(1) i by simp
    qed (use free in simp)
    have id': "object_ids A' ! j = (if j = i then obj else object_ids A ! j)" for j
      using reuse(2) i len(2) by (simp add: nth_list_update)
    have len': "length last_assigned' = length last_assigned" using reuse(3) by simp
    have last': "last_assigned' ! b = (if b = obj then i else last_assigned ! b)" for b
      using reuse(1,3) by (simp add: nth_list_update)
    show ?thesis
      unfolding replaced_in_order_def
    proof (intro conjI allI impI)
      fix b assume "b < length last_assigned'"
      then have "last_assigned ! b < i \<and> object_ids A ! (last_assigned ! b) = b" using I(1) len' by simp
      then show "last_assigned' ! b < Suc i" "object_ids A' ! (last_assigned' ! b) = b"
        unfolding id' last' by auto
    next
      fix j assume "j < Suc i"
      then show "object_ids A' ! j < length last_assigned'" using I(2) [of j] reuse(1,3) by (auto simp: id' less_Suc_eq)
    next
      fix j assume "j < Suc i" "j \<noteq> last_assigned' ! (object_ids A' ! j)"
      then show "frees deps j (last_assigned' ! (object_ids A' ! j))"
        using I(3) [of j] all [of j] by (auto simp: id' last' less_Suc_eq split: if_splits)
    next
      fix k j assume "k < Suc i" "j < k" "object_ids A' ! j = object_ids A' ! k"
      then show "frees deps j k" using I(4) [of k j] all [of j] by (auto simp: id' less_Suc_eq split: if_splits)
    qed
  qed
qed

section \<open>Properties\<close>

text \<open>
  C39: The reallocation graph of a graph of dependencies always exists, its lists are sorted, and it has an edge
  between two tensors exactly if one of them is computed from all that reads the other, and from at least one
  tensor that does.
\<close>

theorem reallocation_graph_exact:
  assumes "\<forall>targets\<in>set deps. \<forall>y\<in>set targets. y < length deps"
  shows "\<exists>G. ReallocationGraph deps = Some G \<and> length G = length deps \<and> (\<forall>x<length deps. sorted (G ! x)
    \<and> set (G ! x) = {y. y < length deps \<and> (frees deps x y \<or> frees deps y x)})"
  using ReallocationGraph_ok [of deps] assms by (simp add: graph_ok_def)

theorem reallocation_graph_exact_witness:
  "\<exists>G. ReallocationGraph [[1, 2], [3], [3], []] = Some G \<and> length G = 4 \<and> (\<forall>x<4. sorted (G ! x)
    \<and> set (G ! x) = {y. y < 4 \<and> (frees [[1, 2], [3], [3], []] x y \<or> frees [[1, 2], [3], [3], []] y x)})"
  using reallocation_graph_exact [of "[[1, 2], [3], [3], []]"] by (simp add: eval_nat_numeral)

text \<open>
  C38: With the reallocation graph the greedy assignment is safe in any order of the operations, also a parallel
  one: whenever two tensors have the same object, in each schedule that computes a tensor after those it is computed
  from, the later tensor is computed after the earlier one and after all that reads it. Dependencies go from
  lower to higher numbers, and the usage records are in the order of their first tasks.
\<close>

theorem shared_objects_are_safe_in_any_order:
  assumes "\<forall>targets\<in>set deps. \<forall>y\<in>set targets. y < length deps" "numbered_in_order deps"
    "length rs = length deps" "in_order rs"
  shows "\<exists>G A. ReallocationGraph deps = Some G \<and> GreedyInOrderAssignment rs (Some G) = Some (OkStatus, A) \<and> objects_ok (\<ge>) rs A
    \<and> (\<forall>time. schedule deps time \<longrightarrow> (\<forall>k<length rs. \<forall>j<k. object_ids A ! j = object_ids A ! k \<longrightarrow>
         time j < time k \<and> (\<forall>c\<in>set (deps ! j). time c < time k)))"
proof -
  obtain G where G: "ReallocationGraph deps = Some G" "length G = length deps"
    "\<forall>x<length deps. set (G ! x) = {y. y < length deps \<and> (frees deps x y \<or> frees deps y x)}"
    using ReallocationGraph_ok [of deps] assms(1) by (auto simp: graph_ok_def)
  have "replaced_in_order deps 0 (no_objects (length rs)) []" by (simp add: replaced_in_order_def)
  moreover have "replaced_in_order deps (Suc i) A' last_assigned'"
    if "i < length rs" "replaced_in_order deps i A last_assigned" "assigned_below (\<ge>) rs i A"
      "length last_assigned = length (object_sizes A)" "tensor_added (Some G) i A last_assigned A' last_assigned'"
    for i A last_assigned A' last_assigned'
    using replaced_in_order_step [OF that(2) assms(2) _ that(4) _ G(3) that(5)] that(1,3) assms(3) by (simp add: assigned_below_def)
  ultimately obtain A last_assigned where A: "GreedyInOrderAssignment rs (Some G) = Some (OkStatus, A)" "objects_ok (\<ge>) rs A"
    "replaced_in_order deps (length rs) A last_assigned"
    using GreedyInOrderAssignment_invariant [of rs "Some G" "replaced_in_order deps"] assms(3,4) G(2) by auto
  have "time j < time k \<and> (\<forall>c\<in>set (deps ! j). time c < time k)"
    if "schedule deps time" "k < length rs" "j < k" "object_ids A ! j = object_ids A ! k" for time k j
    using A(3) frees_schedule [OF that(1), of j k] that(2-4) assms(3) by (simp add: replaced_in_order_def)
  then show ?thesis using G(1) A(1,2) by blast
qed

definition chain_records :: "nat usage_record list" where
  "chain_records = map (\<lambda>(sz, a, b). \<lparr>tensor_size = sz, first_task = a, last_task = b\<rparr>)
     [(16, 0, 1), (8, 1, 2), (64, 2, 3), (32, 3, 4), (8, 4, 5)]"

theorem shared_objects_are_safe_in_any_order_witness:
  "\<exists>G A. ReallocationGraph [[1], [2], [3], [4], []] = Some G \<and> GreedyInOrderAssignment chain_records (Some G) = Some (OkStatus, A)
    \<and> objects_ok (\<ge>) chain_records A
    \<and> (\<forall>time. schedule [[1], [2], [3], [4], []] time \<longrightarrow> (\<forall>k<5. \<forall>j<k. object_ids A ! j = object_ids A ! k \<longrightarrow>
         time j < time k \<and> (\<forall>c\<in>set ([[1], [2], [3], [4], []] ! j). time c < time k)))"
proof -
  have "numbered_in_order [[1], [2], [3], [4], []]"
    unfolding numbered_in_order_def by (auto simp: less_Suc_eq numeral_eq_Suc)
  moreover have "length chain_records = 5" "in_order chain_records" by (simp_all add: chain_records_def in_order_def)
  ultimately show ?thesis
    using shared_objects_are_safe_in_any_order [of "[[1], [2], [3], [4], []]" chain_records] by simp
qed

end
