(* ===== verification/Gpu_Greedy.thy ===== *)
theory Gpu_Greedy
  imports Gpu_Memory
begin

text \<open>
  The greedy strategies of the GPU delegate that do not go through the tensors in order,
  \<^verbatim>\<open>delegates/gpu/common/memory_management\<close>: the profiles of the tasks (\<^verbatim>\<open>internal.cc\<close>), offsets by size and objects
  by position, distance and size (\<^verbatim>\<open>greedy_by_size_assignment.cc\<close>), and objects by the breadth of the tasks
  (\<^verbatim>\<open>greedy_by_breadth_assignment.cc\<close>).

  A \<^verbatim>\<open>TensorUsageWithIndex\<close> is its index: its pointer is to the record at this index. An out parameter is empty
  when the function is called.
\<close>

section \<open>Task profiles\<close>

definition CompareBySize :: "nat usage_record list \<Rightarrow> nat \<Rightarrow> nat \<Rightarrow> bool" where
  "CompareBySize usage_records first second \<longleftrightarrow> tensor_size (usage_records ! first) > tensor_size (usage_records ! second)"

definition add_to_profile :: "nat \<Rightarrow> nat \<Rightarrow> nat list list \<Rightarrow> nat list list option" where
  "add_to_profile rec_id task_id task_profiles = do {
     profile \<leftarrow> vec_at task_profiles (int task_id);
     vec_set task_profiles (int task_id) (profile @ [rec_id]) }"

definition CalculateTaskProfiles :: "nat usage_record list \<Rightarrow> nat list list option" where
  "CalculateTaskProfiles usage_records =
     (let num_tasks = foldl (\<lambda>n rec. max n (sz_add (last_task rec) 1)) 0 usage_records
      in do {
        task_profiles \<leftarrow> do_each (\<lambda>rec_id task_profiles. do {
            rec \<leftarrow> vec_at usage_records (int rec_id);
            do_each (add_to_profile rec_id) [first_task rec..<Suc (last_task rec)] task_profiles })
          [0..<length usage_records] (replicate num_tasks []);
        Some (map (std_sort (CompareBySize usage_records)) task_profiles) })"

fun update_maximums :: "nat list \<Rightarrow> nat list \<Rightarrow> nat list" where
  "update_maximums (m # ms) (s # ss) = max m s # update_maximums ms ss"
| "update_maximums ms [] = ms"
| "update_maximums [] ss = ss"

definition CalculatePositionalMaximums :: "nat usage_record list \<Rightarrow> nat list option" where
  "CalculatePositionalMaximums usage_records = do {
     task_profiles \<leftarrow> CalculateTaskProfiles usage_records;
     Some (foldl (\<lambda>positional_max profile.
       update_maximums positional_max (map (\<lambda>idx. tensor_size (usage_records ! idx)) profile)) [] task_profiles) }"

section \<open>Greedy by size: offsets\<close>

text \<open>One allocated tensor: the gap before it, if its interval intersects with that of \<open>rec\<close>.\<close>

definition gap_step ::
  "nat usage_record list \<Rightarrow> nat list \<Rightarrow> nat usage_record \<Rightarrow> nat \<Rightarrow> nat \<times> nat \<times> nat \<Rightarrow> (nat \<times> nat \<times> nat) option" where
  "gap_step usage_records offs rec allocated_id = (\<lambda>(best_diff, best_offset, prev_offset). do {
     r \<leftarrow> vec_at usage_records (int allocated_id);
     if last_task r < first_task rec \<or> first_task r > last_task rec then Some (best_diff, best_offset, prev_offset)
     else do {
       cur_offset \<leftarrow> vec_at offs (int allocated_id);
       let next_offset = max prev_offset (sz_add cur_offset (tensor_size r));
       Some (if cur_offset \<ge> prev_offset \<and> cur_offset - prev_offset \<ge> tensor_size rec \<and> cur_offset - prev_offset < best_diff
             then (cur_offset - prev_offset, prev_offset, next_offset) else (best_diff, best_offset, next_offset)) } })"

definition by_size_step ::
  "nat usage_record list \<Rightarrow> nat \<Rightarrow> offsets_assignment \<times> nat list \<Rightarrow> (offsets_assignment \<times> nat list) assigned" where
  "by_size_step usage_records idx = (\<lambda>(F, ordered_allocs). do {
     rec \<leftarrow> vec_at usage_records (int idx);
     (best_diff, best_offset, prev_offset) \<leftarrow> do_each (gap_step usage_records (offsets F) rec) ordered_allocs
       (kNotAssigned, kNotAssigned, 0);
     if total_size F < prev_offset then Some (InternalError ''Total size is wrong.'', F, ordered_allocs)
     else let best_offset = (if best_offset = kNotAssigned then prev_offset else best_offset);
              is_before = (\<lambda>allocated_id. offsets F ! allocated_id \<le> best_offset)
          in Some (OkStatus,
               F\<lparr>offsets := (offsets F)[idx := best_offset],
                 total_size := max (total_size F) (sz_add best_offset (tensor_size rec))\<rparr>,
               takeWhile is_before ordered_allocs @ idx # dropWhile is_before ordered_allocs) })"

definition GreedyBySizeAssignment :: "nat usage_record list \<Rightarrow> offsets_assignment assigned" where
  "GreedyBySizeAssignment usage_records = do {
     (st, F, _) \<leftarrow> each_status (by_size_step usage_records)
       (std_sort (CompareBySize usage_records) [0..<length usage_records])
       (\<lparr>offsets = replicate (length usage_records) 0, total_size = 0\<rparr>, []);
     Some (st, F) }"

section \<open>Greedy by size: objects\<close>

record priority_info =
  position :: nat
  info_size :: nat
  dist :: "nat list"
  best_dist :: nat
  best_object :: nat
  tensor_usage_id :: nat

definition higher_priority :: "priority_info \<Rightarrow> priority_info \<Rightarrow> bool" where
  "higher_priority info other \<longleftrightarrow> position info < position other
     \<or> (position info = position other \<and> (best_dist info < best_dist other
         \<or> (best_dist info = best_dist other \<and> info_size info > info_size other)))"

definition RecalcBestDist :: "priority_info \<Rightarrow> priority_info" where
  "RecalcBestDist info = foldl (\<lambda>info obj_id. if dist info ! obj_id < best_dist info
       then info\<lparr>best_dist := dist info ! obj_id, best_object := obj_id\<rparr> else info)
     (info\<lparr>best_dist := kNotAssigned\<rparr>) [0..<length (dist info)]"

definition init_info :: "nat list \<Rightarrow> nat usage_record list \<Rightarrow> nat \<Rightarrow> priority_info list \<Rightarrow> priority_info list assigned" where
  "init_info positional_max usage_records rec_id infos = do {
     rec \<leftarrow> vec_at usage_records (int rec_id);
     let pos = length (takeWhile (\<lambda>m. m \<ge> tensor_size rec) positional_max);
     if pos = 0 then Some (InternalError ''Variable pos must be positive.'', infos)
     else Some (OkStatus, infos @ [\<lparr>position = pos - 1, info_size = tensor_size rec, dist = [],
       best_dist = kNotAssigned, best_object = kNotAssigned, tensor_usage_id = rec_id\<rparr>]) }"

text \<open>The tensor of the highest priority that has no object.\<close>

definition best_info :: "nat list \<Rightarrow> priority_info list \<Rightarrow> nat" where
  "best_info ids infos = foldl (\<lambda>best_info_id info_id.
       if ids ! tensor_usage_id (infos ! info_id) \<noteq> kNotAssigned then best_info_id
       else if best_info_id = kNotAssigned \<or> higher_priority (infos ! info_id) (infos ! best_info_id) then info_id
       else best_info_id) kNotAssigned [0..<length infos]"

definition usage_distance :: "'s usage_record \<Rightarrow> 's usage_record \<Rightarrow> nat" where
  "usage_distance rec best =
     (if last_task rec < first_task best then first_task best - last_task rec
      else if last_task best < first_task rec then first_task rec - last_task best else kNotAssigned)"

definition update_info ::
  "nat usage_record list \<Rightarrow> nat list \<Rightarrow> nat usage_record \<Rightarrow> nat \<Rightarrow> bool \<Rightarrow> priority_info \<Rightarrow> priority_info option" where
  "update_info usage_records ids best_rec best_obj_id new_object info = do {
     rec \<leftarrow> vec_at usage_records (int (tensor_usage_id info));
     obj \<leftarrow> vec_at ids (int (tensor_usage_id info));
     if obj \<noteq> kNotAssigned then Some info
     else do {
       old \<leftarrow> (if new_object then Some 0 else vec_at (dist info) (int best_obj_id));
       if \<not> new_object \<and> old = kNotAssigned then Some info
       else let d = usage_distance rec best_rec;
                info = (if new_object then info\<lparr>dist := dist info @ [d]\<rparr>
                  else if d = kNotAssigned
                  then (let info = info\<lparr>dist := (dist info)[best_obj_id := kNotAssigned]\<rparr>
                        in if best_object info = best_obj_id then RecalcBestDist info else info)
                  else info\<lparr>dist := (dist info)[best_obj_id := min old d]\<rparr>)
            in Some (if d < best_dist info then info\<lparr>best_dist := d, best_object := best_obj_id\<rparr> else info) } }"

text \<open>Tensor \<open>i\<close> gets object \<open>obj\<close>, which grows if it is too small.\<close>

definition assign_grow :: "nat \<Rightarrow> nat \<Rightarrow> nat \<Rightarrow> nat objects_assignment \<Rightarrow> nat objects_assignment option" where
  "assign_grow i obj needed A = do {
     sz \<leftarrow> vec_at (object_sizes A) (int obj);
     Some ((assign_to i obj A)\<lparr>object_sizes := (object_sizes A)[obj := max sz needed]\<rparr>) }"

definition dist_priority_step ::
  "nat usage_record list \<Rightarrow> nat \<Rightarrow> nat objects_assignment \<times> priority_info list
   \<Rightarrow> (nat objects_assignment \<times> priority_info list) assigned" where
  "dist_priority_step usage_records it = (\<lambda>(A, infos).
     let best_info_id = best_info (object_ids A) infos
     in if best_info_id = kNotAssigned then Some (InternalError ''Invalid value for variable best_info_id.'', A, infos)
        else do {
          info \<leftarrow> vec_at infos (int best_info_id);
          let best_rec_id = tensor_usage_id info;
          best_rec \<leftarrow> vec_at usage_records (int best_rec_id);
          let new_object = (best_dist info = kNotAssigned);
          let best_obj_id = (if new_object then length (object_sizes A) else best_object info);
          A \<leftarrow> (if new_object then Some (assign_new best_rec_id (tensor_size best_rec) A)
                else assign_grow best_rec_id best_obj_id (tensor_size best_rec) A);
          infos \<leftarrow> those (map (update_info usage_records (object_ids A) best_rec best_obj_id new_object) infos);
          Some (OkStatus, A, infos) })"

definition GreedyBySizeDistPriorityAssignment :: "nat usage_record list \<Rightarrow> nat objects_assignment assigned" where
  "GreedyBySizeDistPriorityAssignment usage_records = do {
     positional_max \<leftarrow> CalculatePositionalMaximums usage_records;
     (st, infos) \<leftarrow> each_status (init_info positional_max usage_records) [0..<length usage_records] [];
     if st \<noteq> OkStatus then Some (st, \<lparr>object_ids = [], object_sizes = []\<rparr>)
     else do {
       (st, A, _) \<leftarrow> each_status (dist_priority_step usage_records) [0..<length usage_records]
         (no_objects (length usage_records), infos);
       Some (st, A) } }"

section \<open>Greedy by breadth\<close>

text \<open>A schedule: the usage records of an object, in the order of their first tasks, one for each first task.\<close>

definition schedule_insert :: "'s usage_record \<Rightarrow> 's usage_record list \<Rightarrow> 's usage_record list" where
  "schedule_insert rec schedule = (if \<exists>r\<in>set schedule. first_task r = first_task rec then schedule
     else sort_insert (\<lambda>r r'. first_task r < first_task r') rec schedule)"

definition schedule_free :: "'s usage_record \<Rightarrow> 's usage_record list \<Rightarrow> bool" where
  "schedule_free rec schedule = (let k = length (takeWhile (\<lambda>r. first_task r < first_task rec) schedule)
     in \<not> (k < length schedule \<and> first_task (schedule ! k) \<le> last_task rec)
        \<and> \<not> (k \<noteq> 0 \<and> last_task (schedule ! (k - 1)) \<ge> first_task rec))"

text \<open>An object that is no better than the best one found before.\<close>

definition worse_object :: "nat \<Rightarrow> nat \<Rightarrow> nat \<Rightarrow> bool" where
  "worse_object needed best_size cur_size =
     (if best_size < needed then cur_size \<le> best_size else cur_size < needed \<or> cur_size \<ge> best_size)"

definition best_schedule :: "nat list \<Rightarrow> nat usage_record list list \<Rightarrow> nat usage_record \<Rightarrow> nat" where
  "best_schedule sizes obj_schedules rec = foldl (\<lambda>best_object obj_id.
       if best_object \<noteq> length obj_schedules \<and> worse_object (tensor_size rec) (sizes ! best_object) (sizes ! obj_id)
       then best_object
       else if schedule_free rec (obj_schedules ! obj_id) then obj_id else best_object)
     (length obj_schedules) [0..<length obj_schedules]"

definition breadth_step ::
  "nat usage_record list \<Rightarrow> nat \<Rightarrow> nat objects_assignment \<times> nat usage_record list list
   \<Rightarrow> (nat objects_assignment \<times> nat usage_record list list) option" where
  "breadth_step usage_records idx = (\<lambda>(A, obj_schedules). do {
     obj \<leftarrow> vec_at (object_ids A) (int idx);
     if obj \<noteq> kNotAssigned then Some (A, obj_schedules)
     else do {
       rec \<leftarrow> vec_at usage_records (int idx);
       let best_object = best_schedule (object_sizes A) obj_schedules rec;
       if best_object = length obj_schedules
       then Some (A\<lparr>object_ids := (object_ids A)[idx := best_object], object_sizes := object_sizes A @ [tensor_size rec]\<rparr>,
         obj_schedules @ [[rec]])
       else do {
         A \<leftarrow> assign_grow idx best_object (tensor_size rec) A;
         Some (A, obj_schedules[best_object := schedule_insert rec (obj_schedules ! best_object)]) } } })"

text \<open>The tasks, the broadest first.\<close>

definition tasks_by_breadth :: "nat usage_record list \<Rightarrow> nat list list \<Rightarrow> (nat \<times> nat) list" where
  "tasks_by_breadth usage_records task_profiles =
     (let breadth = (\<lambda>task_id. foldl (\<lambda>breadth idx. sz_add breadth (tensor_size (usage_records ! idx))) 0 (task_profiles ! task_id))
      in rev (std_sort (\<lambda>t t'. fst t < fst t') (rev (map (\<lambda>task_id. (breadth task_id, task_id)) [0..<length task_profiles]))))"

definition GreedyByBreadthAssignment :: "nat usage_record list \<Rightarrow> nat objects_assignment assigned" where
  "GreedyByBreadthAssignment usage_records = do {
     task_profiles \<leftarrow> CalculateTaskProfiles usage_records;
     (A, _) \<leftarrow> do_each (\<lambda>task s. do_each (breadth_step usage_records) (task_profiles ! snd task) s)
       (tasks_by_breadth usage_records task_profiles) (no_objects (length usage_records), []);
     if kNotAssigned \<in> set (object_ids A) then Some (InternalError ''Error while calculating the assignment.'', A)
     else Some (OkStatus, A) }"

section \<open>The profile of a task\<close>

text \<open>The intervals are not empty, and no task number is the largest number.\<close>

definition intervals_ok :: "'s usage_record list \<Rightarrow> bool" where
  "intervals_ok rs \<longleftrightarrow> (\<forall>r\<in>set rs. first_task r \<le> last_task r \<and> last_task r < kNotAssigned)"

lemma intervals_ok_nth: "intervals_ok rs \<Longrightarrow> i < length rs \<Longrightarrow> first_task (rs ! i) \<le> last_task (rs ! i) \<and> last_task (rs ! i) < kNotAssigned"
  by (simp add: intervals_ok_def)

lemma do_each_prefix:
  assumes "P [] s" "\<And>ys x zs s. xs = ys @ x # zs \<Longrightarrow> P ys s \<Longrightarrow> \<exists>s'. f x s = Some s' \<and> P (ys @ [x]) s'"
  shows "\<exists>s'. do_each f xs s = Some s' \<and> P xs s'"
  using assms(2)
proof (induction xs rule: rev_induct)
  case Nil
  then show ?case using assms(1) by simp
next
  case (snoc x xs)
  have "\<exists>s'. do_each f xs s = Some s' \<and> P xs s'"
    by (rule snoc.IH) (use snoc.prems in force)
  then obtain s1 where s1: "do_each f xs s = Some s1" "P xs s1" by blast
  have "\<exists>s'. f x s1 = Some s' \<and> P (xs @ [x]) s'" by (rule snoc.prems [of xs x "[]"]) (use s1 in simp_all)
  then show ?case using s1 by (auto simp: do_each_snoc)
qed

lemma each_status_prefix:
  assumes "P [] s" "\<And>ys x zs s. xs = ys @ x # zs \<Longrightarrow> P ys s \<Longrightarrow> \<exists>s'. f x s = Some (OkStatus, s') \<and> P (ys @ [x]) s'"
  shows "\<exists>s'. each_status f xs s = Some (OkStatus, s') \<and> P xs s'"
  using assms(2)
proof (induction xs rule: rev_induct)
  case Nil
  then show ?case using assms(1) by simp
next
  case (snoc x xs)
  have "\<exists>s'. each_status f xs s = Some (OkStatus, s') \<and> P xs s'"
    by (rule snoc.IH) (use snoc.prems in force)
  then obtain s1 where s1: "each_status f xs s = Some (OkStatus, s1)" "P xs s1" by blast
  have "\<exists>s'. f x s1 = Some (OkStatus, s') \<and> P (xs @ [x]) s'" by (rule snoc.prems [of xs x "[]"]) (use s1 in simp_all)
  then show ?case using s1 by (auto simp: each_status_snoc)
qed

lemma add_to_profiles:
  assumes "b < length ps"
  shows "\<exists>ps'. do_each (add_to_profile rec_id) [a..<Suc b] ps = Some ps' \<and> length ps' = length ps
    \<and> (\<forall>t<length ps. ps' ! t = (if a \<le> t \<and> t \<le> b then ps ! t @ [rec_id] else ps ! t))"
proof (cases "a \<le> b")
  case False
  then show ?thesis by simp
next
  case True
  have "n \<le> Suc b - a \<Longrightarrow> \<exists>ps'. do_each (add_to_profile rec_id) [a..<a + n] ps = Some ps' \<and> length ps' = length ps
      \<and> (\<forall>t<length ps. ps' ! t = (if a \<le> t \<and> t < a + n then ps ! t @ [rec_id] else ps ! t))" for n
  proof (induction n)
    case (Suc n)
    then obtain ps' where ps': "do_each (add_to_profile rec_id) [a..<a + n] ps = Some ps'" "length ps' = length ps"
      "\<forall>t<length ps. ps' ! t = (if a \<le> t \<and> t < a + n then ps ! t @ [rec_id] else ps ! t)" by auto
    have n: "a + n < length ps" using Suc.prems assms True by simp
    let ?ps = "ps'[a + n := ps' ! (a + n) @ [rec_id]]"
    have "add_to_profile rec_id (a + n) ps' = Some ?ps"
      using n ps'(2) by (simp add: add_to_profile_def vec del: of_nat_add)
    then have "do_each (add_to_profile rec_id) [a..<a + Suc n] ps = Some ?ps" using ps'(1) by (simp add: do_each_snoc)
    moreover have "\<forall>t<length ps. ?ps ! t = (if a \<le> t \<and> t < a + Suc n then ps ! t @ [rec_id] else ps ! t)"
      using ps'(2,3) n by (auto simp: nth_list_update)
    ultimately show ?case using ps'(2) by (intro exI [of _ ?ps]) simp
  qed simp
  from this [of "Suc b - a"] show ?thesis using True by (simp add: less_Suc_eq_le)
qed

abbreviation num_tasks :: "nat usage_record list \<Rightarrow> nat" where
  "num_tasks rs \<equiv> foldl (\<lambda>n rec. max n (sz_add (last_task rec) 1)) 0 rs"

lemma num_tasks_above:
  assumes "intervals_ok rs" "i < length rs"
  shows "last_task (rs ! i) < num_tasks rs"
proof -
  have mono: "n \<le> foldl (\<lambda>n rec. max n (sz_add (last_task rec) 1)) n rs" for n and rs :: "nat usage_record list"
  proof (induction rs arbitrary: n)
    case (Cons r rs)
    have "n \<le> max n (sz_add (last_task r) 1)" by simp
    also have "\<dots> \<le> foldl (\<lambda>n rec. max n (sz_add (last_task rec) 1)) (max n (sz_add (last_task r) 1)) rs" by (rule Cons.IH)
    finally show ?case by simp
  qed simp
  have "\<forall>r\<in>set rs. last_task r < foldl (\<lambda>n rec. max n (sz_add (last_task rec) 1)) n rs"
    if "intervals_ok rs" for n and rs :: "nat usage_record list"
    using that
  proof (induction rs arbitrary: n)
    case (Cons r rs)
    have "last_task r < kNotAssigned" using Cons.prems by (simp add: intervals_ok_def)
    then have "last_task r < max n (sz_add (last_task r) 1)" by (simp add: sz_add_def)
    also have "\<dots> \<le> foldl (\<lambda>n rec. max n (sz_add (last_task rec) 1)) (max n (sz_add (last_task r) 1)) rs" by (rule mono)
    finally show ?case using Cons by (simp add: intervals_ok_def)
  qed simp
  then show ?thesis using assms by simp
qed

interpretation by_size: strict_weak_order "CompareBySize rs" UNIV for rs
  by unfold_locales (auto simp: CompareBySize_def)

text \<open>A profile has the tensors that are in use in the task, the largest first.\<close>

lemma CalculateTaskProfiles_ok:
  assumes "intervals_ok rs"
  shows "\<exists>ps. CalculateTaskProfiles rs = Some ps \<and> length ps = num_tasks rs
    \<and> (\<forall>t<length ps. set (ps ! t) = {i. i < length rs \<and> first_task (rs ! i) \<le> t \<and> t \<le> last_task (rs ! i)}
         \<and> distinct (ps ! t) \<and> sorted_by (CompareBySize rs) (ps ! t))"
proof -
  define P where "P = (\<lambda>n ps. length ps = num_tasks rs
    \<and> (\<forall>t<num_tasks rs. ps ! t = filter (\<lambda>i. first_task (rs ! i) \<le> t \<and> t \<le> last_task (rs ! i)) [0..<n]))"
  let ?f = "\<lambda>rec_id task_profiles. do {
            rec \<leftarrow> vec_at rs (int rec_id);
            do_each (add_to_profile rec_id) [first_task rec..<Suc (last_task rec)] task_profiles }"
  have "\<exists>ps'. ?f i ps = Some ps' \<and> P (Suc i) ps'" if i: "i < length rs" and "P i ps" for i ps
  proof -
    have "last_task (rs ! i) < length ps" using num_tasks_above [OF assms i] that(2) by (simp add: P_def)
    then obtain ps' where "do_each (add_to_profile i) [first_task (rs ! i)..<Suc (last_task (rs ! i))] ps = Some ps'"
      "length ps' = length ps"
      "\<forall>t<length ps. ps' ! t = (if first_task (rs ! i) \<le> t \<and> t \<le> last_task (rs ! i) then ps ! t @ [i] else ps ! t)"
      using add_to_profiles by blast
    then show ?thesis using that by (auto simp: P_def vec simp del: upt_Suc) (simp_all)
  qed
  from do_each_upt [where P = P and f = ?f and n = "length rs" and s = "replicate (num_tasks rs) []", OF _ this]
  obtain ps where ps: "do_each ?f [0..<length rs] (replicate (num_tasks rs) []) = Some ps" "P (length rs) ps"
    by (auto simp: P_def)
  have "sorted_by (CompareBySize rs) (std_sort (CompareBySize rs) xs)" for xs by (rule by_size.sorted_std_sort) simp
  then show ?thesis using ps by (auto simp: CalculateTaskProfiles_def P_def)
qed

lemma nth_update_maximums_0: "xs \<noteq> [] \<or> ys \<noteq> [] \<Longrightarrow> update_maximums xs ys \<noteq> []
    \<and> (ys \<noteq> [] \<longrightarrow> ys ! 0 \<le> update_maximums xs ys ! 0) \<and> (xs \<noteq> [] \<longrightarrow> xs ! 0 \<le> update_maximums xs ys ! 0)"
  by (cases "(xs, ys)" rule: update_maximums.cases) auto

lemma CalculatePositionalMaximums_ok:
  assumes "intervals_ok rs"
  shows "\<exists>ms. CalculatePositionalMaximums rs = Some ms \<and> (\<forall>i<length rs. ms \<noteq> [] \<and> tensor_size (rs ! i) \<le> ms ! 0)"
proof -
  obtain ps where ps: "CalculateTaskProfiles rs = Some ps" "length ps = num_tasks rs"
    "\<And>t. t < length ps \<Longrightarrow> set (ps ! t) = {i. i < length rs \<and> first_task (rs ! i) \<le> t \<and> t \<le> last_task (rs ! i)}
         \<and> sorted_by (CompareBySize rs) (ps ! t)"
    using CalculateTaskProfiles_ok [OF assms] by auto
  let ?size = "\<lambda>i. tensor_size (rs ! i)"
  let ?f = "\<lambda>ms profile. update_maximums ms (map ?size profile)"
  have keeps: "ms \<noteq> [] \<Longrightarrow> foldl ?f ms qs \<noteq> [] \<and> ms ! 0 \<le> foldl ?f ms qs ! 0" for ms qs
  proof (induction qs arbitrary: ms)
    case (Cons q qs)
    have "update_maximums ms (map ?size q) \<noteq> []" "ms ! 0 \<le> update_maximums ms (map ?size q) ! 0"
      using nth_update_maximums_0 [of ms "map ?size q"] Cons.prems by auto
    then show ?case using Cons.IH [of "update_maximums ms (map ?size q)"] by (auto intro: order_trans)
  qed simp
  have covered: "q \<in> set qs \<Longrightarrow> q \<noteq> [] \<Longrightarrow> foldl ?f ms qs \<noteq> [] \<and> ?size (q ! 0) \<le> foldl ?f ms qs ! 0" for q ms qs
  proof (induction qs arbitrary: ms)
    case (Cons p qs)
    show ?case
    proof (cases "q = p")
      case True
      have "update_maximums ms (map ?size p) \<noteq> []" "?size (p ! 0) \<le> update_maximums ms (map ?size p) ! 0"
        using nth_update_maximums_0 [of ms "map ?size p"] Cons.prems True by auto
      moreover have "update_maximums ms (map ?size p) \<noteq> [] \<Longrightarrow> foldl ?f (update_maximums ms (map ?size p)) qs \<noteq> []
          \<and> update_maximums ms (map ?size p) ! 0 \<le> foldl ?f (update_maximums ms (map ?size p)) qs ! 0" by (rule keeps)
      ultimately show ?thesis unfolding True foldl_Cons by linarith
    next
      case False
      then show ?thesis using Cons by simp
    qed
  qed simp
  have "foldl ?f [] ps \<noteq> [] \<and> ?size i \<le> foldl ?f [] ps ! 0" if i: "i < length rs" for i
  proof -
    let ?t = "last_task (rs ! i)"
    have t: "?t < length ps" using num_tasks_above [OF assms i] ps(2) by simp
    have "i \<in> set (ps ! ?t)" using ps(3) [OF t] i intervals_ok_nth [OF assms i] by simp
    moreover define q where "q = ps ! ?t"
    ultimately have q: "q \<noteq> []" "i \<in> set q" "sorted_by (CompareBySize rs) q" "q \<in> set ps"
      using ps(3) [OF t] t by (simp_all, metis empty_iff list.set(1))
    have "?size i \<le> ?size (q ! 0)" using q(1-3) by (cases q) (auto simp: sorted_by_def CompareBySize_def)
    then show ?thesis using covered [OF q(4,1), of "[]"] by linarith
  qed
  then show ?thesis using ps(1) by (simp add: CalculatePositionalMaximums_def)
qed

end
