(* ===== verification/Gpu_Offsets.thy ===== *)
theory Gpu_Offsets
  imports Gpu_Greedy
begin

text \<open>
  \<^verbatim>\<open>GreedyBySizeAssignment\<close> of the GPU delegate: tensors in use together are apart, and the block is no larger than
  the tensors one by one.
\<close>

section \<open>The gaps between allocated tensors\<close>

definition apart :: "nat usage_record list \<Rightarrow> nat list \<Rightarrow> nat \<Rightarrow> nat \<Rightarrow> bool" where
  "apart rs offs a b \<longleftrightarrow> offs ! a + tensor_size (rs ! a) \<le> offs ! b \<or> offs ! b + tensor_size (rs ! b) \<le> offs ! a"

definition fits_at :: "nat usage_record list \<Rightarrow> nat list \<Rightarrow> nat usage_record \<Rightarrow> nat \<Rightarrow> nat \<Rightarrow> bool" where
  "fits_at rs offs rec off a \<longleftrightarrow> offs ! a + tensor_size (rs ! a) \<le> off \<or> off + tensor_size rec \<le> offs ! a"

lemma gap_loop:
  assumes "\<forall>a\<in>set xs. a < length rs \<and> a < length offs \<and> offs ! a + tensor_size (rs ! a) \<le> limit" "limit < kNotAssigned"
    "sorted (map ((!) offs) xs)"
  shows "\<exists>bd bo prev. do_each (gap_step rs offs rec) xs (kNotAssigned, kNotAssigned, 0) = Some (bd, bo, prev) \<and> prev \<le> limit
    \<and> (\<forall>a\<in>set xs. intersects (rs ! a) rec \<longrightarrow> offs ! a + tensor_size (rs ! a) \<le> prev)
    \<and> (bo \<noteq> kNotAssigned \<longrightarrow> bo + tensor_size rec \<le> limit \<and> (\<forall>a\<in>set xs. intersects (rs ! a) rec \<longrightarrow> fits_at rs offs rec bo a))"
proof -
  define P where "P = (\<lambda>ys (bd :: nat, bo, prev). prev \<le> limit
    \<and> (\<forall>a\<in>set ys. intersects (rs ! a) rec \<longrightarrow> offs ! a + tensor_size (rs ! a) \<le> prev)
    \<and> (bo \<noteq> kNotAssigned \<longrightarrow> bo + tensor_size rec \<le> limit \<and> (\<forall>a\<in>set xs. intersects (rs ! a) rec \<longrightarrow> fits_at rs offs rec bo a)))"
  have step: "\<exists>s'. gap_step rs offs rec x s = Some s' \<and> P (ys @ [x]) s'" if xs: "xs = ys @ x # zs" and s: "P ys s" for ys x zs s
  proof -
    obtain bd bo prev where s': "s = (bd, bo, prev)" by (cases s)
    have x: "x < length rs" "x < length offs" "offs ! x + tensor_size (rs ! x) \<le> limit" using assms(1) xs by auto
    show ?thesis
    proof (cases "intersects (rs ! x) rec")
      case False
      then have "last_task (rs ! x) < first_task rec \<or> first_task (rs ! x) > last_task rec" by (auto simp: intersects_def)
      then show ?thesis using s s' x False by (auto simp: gap_step_def vec P_def)
    next
      case True
      then have *: "\<not> (last_task (rs ! x) < first_task rec \<or> first_task (rs ! x) > last_task rec)" by (auto simp: intersects_def)
      have wrap: "sz_add (offs ! x) (tensor_size (rs ! x)) = offs ! x + tensor_size (rs ! x)"
        using x(3) assms(2) by (simp add: sz_add_def)
      let ?next = "max prev (offs ! x + tensor_size (rs ! x))"
      let ?gap = "offs ! x \<ge> prev \<and> offs ! x - prev \<ge> tensor_size rec \<and> offs ! x - prev < bd"
      have run: "gap_step rs offs rec x s = Some (if ?gap then (offs ! x - prev, prev, ?next) else (bd, bo, ?next))"
        using x(1,2) * wrap s' by (simp add: gap_step_def vec Let_def)
      have "fits_at rs offs rec prev a" if gap: ?gap and a: "a \<in> set xs" "intersects (rs ! a) rec" for a
      proof (cases "a \<in> set ys")
        case True
        then show ?thesis using s s' a(2) by (simp add: P_def fits_at_def)
      next
        case False
        then have "offs ! x \<le> offs ! a" using a(1) xs assms(3) by (auto simp: sorted_append)
        then show ?thesis using gap unfolding fits_at_def by linarith
      qed
      moreover have "prev + tensor_size rec \<le> limit" if ?gap using that x(3) by linarith
      ultimately show ?thesis using run s s' x(3) by (cases ?gap) (auto simp: P_def)
    qed
  qed
  have start: "P [] (kNotAssigned, kNotAssigned, 0)" by (simp add: P_def)
  from do_each_prefix [of P, OF start step] show ?thesis by (auto simp: P_def)
qed

section \<open>The loop over the tensors\<close>

definition by_size_inv :: "nat usage_record list \<Rightarrow> nat list \<Rightarrow> offsets_assignment \<times> nat list \<Rightarrow> bool" where
  "by_size_inv rs ready = (\<lambda>(F, ordered). length (offsets F) = length rs \<and> set ordered = set ready
    \<and> sorted (map ((!) (offsets F)) ordered) \<and> total_size F \<le> sum_list (map (\<lambda>i. tensor_size (rs ! i)) ready)
    \<and> (\<forall>a\<in>set ready. offsets F ! a + tensor_size (rs ! a) \<le> total_size F)
    \<and> (\<forall>a\<in>set ready. \<forall>b\<in>set ready. a \<noteq> b \<longrightarrow> intersects (rs ! a) (rs ! b) \<longrightarrow> apart rs (offsets F) a b))"

lemma sorted_dropWhile: "sorted (map f xs) \<Longrightarrow> x \<in> set (dropWhile (\<lambda>a. f a \<le> c) xs) \<Longrightarrow> c \<le> f x" for c :: nat
  by (induction xs) (auto split: if_splits)

lemma sorted_insert_at:
  fixes f :: "'b \<Rightarrow> nat"
  assumes "sorted (map f xs)" "f i = c"
  shows "sorted (map f (takeWhile (\<lambda>a. f a \<le> c) xs @ i # dropWhile (\<lambda>a. f a \<le> c) xs))"
proof -
  have split: "xs = takeWhile (\<lambda>a. f a \<le> c) xs @ dropWhile (\<lambda>a. f a \<le> c) xs" by simp
  have "sorted (map f (takeWhile (\<lambda>a. f a \<le> c) xs)) \<and> sorted (map f (dropWhile (\<lambda>a. f a \<le> c) xs))
      \<and> (\<forall>x\<in>set (takeWhile (\<lambda>a. f a \<le> c) xs). \<forall>y\<in>set (dropWhile (\<lambda>a. f a \<le> c) xs). f x \<le> f y)"
    using assms(1) by (subst (asm) split) (auto simp only: map_append sorted_append set_map)
  moreover have "\<forall>x\<in>set (takeWhile (\<lambda>a. f a \<le> c) xs). f x \<le> c" by (auto dest: set_takeWhileD)
  moreover have "\<forall>x\<in>set (dropWhile (\<lambda>a. f a \<le> c) xs). c \<le> f x" using sorted_dropWhile [OF assms(1)] by blast
  ultimately show ?thesis using assms(2) by (auto simp: sorted_append)
qed

lemma by_size_step_ok:
  assumes inv: "by_size_inv rs ready (F, ordered)" and idx: "idx < length rs" "idx \<notin> set ready" "\<forall>a\<in>set ready. a < length rs"
    and small: "sum_list (map (\<lambda>i. tensor_size (rs ! i)) ready) + tensor_size (rs ! idx) < kNotAssigned"
  shows "\<exists>s'. by_size_step rs idx (F, ordered) = Some (OkStatus, s') \<and> by_size_inv rs (ready @ [idx]) s'"
proof -
  let ?offs = "offsets F" and ?rec = "rs ! idx"
  have I: "length ?offs = length rs" "set ordered = set ready" "sorted (map ((!) ?offs) ordered)"
    "total_size F \<le> sum_list (map (\<lambda>i. tensor_size (rs ! i)) ready)"
    "\<forall>a\<in>set ready. ?offs ! a + tensor_size (rs ! a) \<le> total_size F"
    "\<forall>a\<in>set ready. \<forall>b\<in>set ready. a \<noteq> b \<longrightarrow> intersects (rs ! a) (rs ! b) \<longrightarrow> apart rs ?offs a b"
    using inv by (auto simp: by_size_inv_def)
  have "\<forall>a\<in>set ordered. a < length rs \<and> a < length ?offs \<and> ?offs ! a + tensor_size (rs ! a) \<le> total_size F"
    using I(1,2,5) idx(3) by auto
  moreover have "total_size F < kNotAssigned" using I(4) small by linarith
  ultimately obtain bd bo prev where
    gap: "do_each (gap_step rs ?offs ?rec) ordered (kNotAssigned, kNotAssigned, 0) = Some (bd, bo, prev)" "prev \<le> total_size F"
      "\<forall>a\<in>set ready. intersects (rs ! a) ?rec \<longrightarrow> ?offs ! a + tensor_size (rs ! a) \<le> prev"
      "bo \<noteq> kNotAssigned \<longrightarrow> bo + tensor_size ?rec \<le> total_size F
        \<and> (\<forall>a\<in>set ready. intersects (rs ! a) ?rec \<longrightarrow> fits_at rs ?offs ?rec bo a)"
    using gap_loop [OF _ _ I(3), of rs "total_size F" ?rec] unfolding I(2) by blast
  define off where "off = (if bo = kNotAssigned then prev else bo)"
  have off: "off + tensor_size ?rec \<le> total_size F + tensor_size ?rec"
    "\<forall>a\<in>set ready. intersects (rs ! a) ?rec \<longrightarrow> fits_at rs ?offs ?rec off a"
    using gap(2-4) by (auto simp: off_def fits_at_def)
  have wrap: "sz_add off (tensor_size ?rec) = off + tensor_size ?rec" using off(1) I(4) small by (simp add: sz_add_def)
  let ?F = "F\<lparr>offsets := ?offs[idx := off], total_size := max (total_size F) (off + tensor_size ?rec)\<rparr>"
  let ?ordered = "takeWhile (\<lambda>a. ?offs ! a \<le> off) ordered @ idx # dropWhile (\<lambda>a. ?offs ! a \<le> off) ordered"
  have run: "by_size_step rs idx (F, ordered) = Some (OkStatus, ?F, ?ordered)"
    using idx(1) gap(1,2) wrap by (simp add: by_size_step_def vec Let_def off_def)
  have same: "?offs[idx := off] ! a = ?offs ! a" if "a \<in> set ready" for a using that idx(2) by (metis nth_list_update_neq)
  have new: "?offs[idx := off] ! idx = off" using idx(1) I(1) by simp
  have "map ((!) (?offs[idx := off])) ordered = map ((!) ?offs) ordered" using same I(2) by simp
  moreover have "takeWhile (\<lambda>a. ?offs ! a \<le> off) ordered = takeWhile (\<lambda>a. ?offs[idx := off] ! a \<le> off) ordered"
    "dropWhile (\<lambda>a. ?offs ! a \<le> off) ordered = dropWhile (\<lambda>a. ?offs[idx := off] ! a \<le> off) ordered"
    using same I(2) by (auto intro: takeWhile_cong dropWhile_cong)
  ultimately have sorted: "sorted (map ((!) (?offs[idx := off])) ?ordered)"
    using sorted_insert_at [of "(!) (?offs[idx := off])" ordered idx off] I(3) new by metis
  have set: "set ?ordered = insert idx (set ready)"
    using I(2) set_append [of "takeWhile (\<lambda>a. ?offs ! a \<le> off) ordered" "dropWhile (\<lambda>a. ?offs ! a \<le> off) ordered"] by auto
  have pairs: "apart rs (?offs[idx := off]) a b" if "a \<in> insert idx (set ready)" "b \<in> insert idx (set ready)" "a \<noteq> b"
    "intersects (rs ! a) (rs ! b)" for a b
    using that same new I(6) off(2) by (fastforce simp: apart_def fits_at_def intersects_def)
  have "by_size_inv rs (ready @ [idx]) (?F, ?ordered)"
    unfolding by_size_inv_def prod.case
    using I(1,4,5) sorted set pairs same new off(1) by (auto simp: max_def)
  then show ?thesis using run by blast
qed

lemma mset_std_sort: "mset (std_sort lt xs) = mset xs"
proof -
  have "mset (sort_insert lt x xs) = add_mset x (mset xs)" for x xs by (induction xs) auto
  then show ?thesis by (induction xs) auto
qed

lemma GreedyBySizeAssignment_ok:
  assumes "sum_list (map tensor_size rs) < kNotAssigned"
  shows "\<exists>F. GreedyBySizeAssignment rs = Some (OkStatus, F) \<and> offsets_ok rs F \<and> total_size F \<le> sum_list (map tensor_size rs)"
proof -
  let ?order = "std_sort (CompareBySize rs) [0..<length rs]"
  let ?start = "(\<lparr>offsets = replicate (length rs) 0, total_size = 0\<rparr>, []) :: offsets_assignment \<times> nat list"
  let ?sum = "\<lambda>xs. sum_list (map (\<lambda>i. tensor_size (rs ! i)) xs)"
  have "mset (map (\<lambda>i. tensor_size (rs ! i)) ?order) = mset (map (\<lambda>i. tensor_size (rs ! i)) [0..<length rs])"
    by (simp add: mset_std_sort)
  then have "?sum ?order = ?sum [0..<length rs]" by (simp only: sum_mset_sum_list [symmetric])
  also have "map (\<lambda>i. tensor_size (rs ! i)) [0..<length rs] = map tensor_size rs" by (rule nth_equalityI) simp_all
  finally have sum: "?sum ?order = sum_list (map tensor_size rs)" .
  have step: "\<exists>s'. by_size_step rs x s = Some (OkStatus, s') \<and> by_size_inv rs (ys @ [x]) s'"
    if "?order = ys @ x # zs" "by_size_inv rs ys s" for ys x zs s
  proof -
    obtain F ordered where s: "s = (F, ordered)" by (cases s)
    have "distinct (ys @ x # zs)" "set (ys @ x # zs) = {..<length rs}" unfolding that(1) [symmetric] by auto
    then have "x < length rs" "x \<notin> set ys" "\<forall>a\<in>set ys. a < length rs" by auto
    moreover have "?sum ys + tensor_size (rs ! x) \<le> ?sum ?order" unfolding that(1) by simp
    ultimately show ?thesis using by_size_step_ok [of rs ys F ordered x] that(2) s sum assms by simp
  qed
  have start: "by_size_inv rs [] ?start" by (simp add: by_size_inv_def)
  have "\<exists>s'. each_status (by_size_step rs) ?order ?start = Some (OkStatus, s') \<and> by_size_inv rs ?order s'"
    by (rule each_status_prefix [of "by_size_inv rs", OF start step])
  then obtain F ordered where run: "each_status (by_size_step rs) ?order ?start = Some (OkStatus, F, ordered)"
    and inv: "by_size_inv rs ?order (F, ordered)" by auto
  have "offsets_ok rs F" using inv unfolding by_size_inv_def offsets_ok_def apart_def by auto
  moreover have "total_size F \<le> sum_list (map tensor_size rs)" using inv sum by (simp add: by_size_inv_def)
  ultimately show ?thesis using run by (simp add: GreedyBySizeAssignment_def)
qed

end
