(* ===== verification/Gpu_Objects.thy ===== *)
theory Gpu_Objects
  imports Gpu_Greedy
begin

text \<open>
  \<^verbatim>\<open>GreedyBySizeDistPriorityAssignment\<close> and \<^verbatim>\<open>GreedyByBreadthAssignment\<close> of the GPU delegate: both return, with
  objects that are large enough, and different for tensors in use together.
\<close>

section \<open>Objects for some of the tensors\<close>

abbreviation unassigned :: "'s objects_assignment \<Rightarrow> nat \<Rightarrow> bool" where
  "unassigned A i \<equiv> object_ids A ! i = kNotAssigned"

definition partly_ok :: "nat usage_record list \<Rightarrow> nat objects_assignment \<Rightarrow> bool" where
  "partly_ok rs A \<longleftrightarrow> length (object_ids A) = length rs
     \<and> (\<forall>i<length rs. \<not> unassigned A i \<longrightarrow> object_ids A ! i < length (object_sizes A)
          \<and> tensor_size (rs ! i) \<le> object_sizes A ! (object_ids A ! i))
     \<and> (\<forall>i<length rs. \<forall>j<length rs. i \<noteq> j \<longrightarrow> \<not> unassigned A i \<longrightarrow> object_ids A ! i = object_ids A ! j
          \<longrightarrow> \<not> intersects (rs ! i) (rs ! j))
     \<and> (\<forall>b<length (object_sizes A). \<exists>i<length rs. object_ids A ! i = b \<and> object_sizes A ! b = tensor_size (rs ! i))"

lemma intersects_sym: "intersects r r' = intersects r' r"
  by (auto simp: intersects_def)

lemma partly_ok_start: "partly_ok rs (no_objects (length rs))"
  by (simp add: partly_ok_def no_objects_def)

lemma partly_ok_count:
  assumes "partly_ok rs A"
  shows "length (object_sizes A) \<le> length rs"
proof -
  have "{..<length (object_sizes A)} \<subseteq> (\<lambda>i. object_ids A ! i) ` {..<length rs}"
    using assms by (fastforce simp: partly_ok_def)
  then have "card {..<length (object_sizes A)} \<le> card {..<length rs}" by (rule surj_card_le [rotated]) simp
  then show ?thesis by simp
qed

lemma partly_ok_done:
  assumes "partly_ok rs A" "\<forall>i<length rs. \<not> unassigned A i"
  shows "objects_ok (\<ge>) rs A"
  unfolding objects_ok_def
proof (intro conjI allI impI)
  fix k j assume k: "k < length rs" "j < k" "intersects (rs ! j) (rs ! k)"
  then have j: "j < length rs" "j \<noteq> k" "\<not> unassigned A j" using assms(2) by simp_all
  have "object_ids A ! j = object_ids A ! k \<longrightarrow> \<not> intersects (rs ! j) (rs ! k)"
    using assms(1) k(1) j unfolding partly_ok_def by blast
  then show "object_ids A ! j \<noteq> object_ids A ! k" using k(3) by blast
qed (use assms in \<open>auto simp: partly_ok_def\<close>)

text \<open>One more tensor has an object: a new one, or one whose tensors are not in use with it.\<close>

lemma partly_ok_update:
  assumes ok: "partly_ok rs A" and i: "i < length rs" "unassigned A i" and small: "length rs < kNotAssigned"
    and ids: "object_ids A' = (object_ids A)[i := obj]"
    and obj: "obj < length (object_sizes A')" "obj \<noteq> kNotAssigned" "tensor_size (rs ! i) \<le> object_sizes A' ! obj"
    and conflicts: "\<And>j. j < length rs \<Longrightarrow> object_ids A ! j = obj \<Longrightarrow> \<not> intersects (rs ! j) (rs ! i)"
    and larger: "length (object_sizes A) \<le> length (object_sizes A')"
      "\<And>b. b < length (object_sizes A) \<Longrightarrow> object_sizes A ! b \<le> object_sizes A' ! b"
    and tight: "\<And>b. b < length (object_sizes A') \<Longrightarrow> (b < length (object_sizes A) \<and> object_sizes A' ! b = object_sizes A ! b)
      \<or> (b = obj \<and> object_sizes A' ! b = tensor_size (rs ! i))"
  shows "partly_ok rs A'"
proof -
  have len: "length (object_ids A) = length rs" using ok by (simp add: partly_ok_def)
  have id': "object_ids A' ! j = (if j = i then obj else object_ids A ! j)" for j
    using i(1) len ids by (simp add: nth_list_update)
  have below: "object_ids A ! j < length (object_sizes A)" "tensor_size (rs ! j) \<le> object_sizes A ! (object_ids A ! j)"
    if "j < length rs" "\<not> unassigned A j" for j
    using ok that by (simp_all add: partly_ok_def)
  show ?thesis
    unfolding partly_ok_def
  proof (intro conjI allI impI)
    show "length (object_ids A') = length rs" using ids len by simp
  next
    fix j assume j: "j < length rs" "\<not> unassigned A' j"
    show "object_ids A' ! j < length (object_sizes A')"
      using below(1) [of j] j larger(1) obj(1) unfolding id' by (cases "j = i") simp_all
    show "tensor_size (rs ! j) \<le> object_sizes A' ! (object_ids A' ! j)"
    proof (cases "j = i")
      case True
      then show ?thesis using obj(3) by (simp add: id')
    next
      case False
      then have "\<not> unassigned A j" using j(2) by (simp add: id')
      then show ?thesis using below [OF j(1)] larger(2) [of "object_ids A ! j"] False by (simp add: id')
    qed
  next
    fix j k assume jk: "j < length rs" "k < length rs" "j \<noteq> k" "\<not> unassigned A' j" "object_ids A' ! j = object_ids A' ! k"
    consider "j = i" "k \<noteq> i" | "k = i" "j \<noteq> i" | "j \<noteq> i" "k \<noteq> i" using jk(3) by blast
    then show "\<not> intersects (rs ! j) (rs ! k)"
    proof cases
      case 1
      then have "object_ids A ! k = obj" using jk(5) by (simp add: id')
      then show ?thesis using conflicts [OF jk(2)] 1(1) intersects_sym by metis
    next
      case 2
      then have "object_ids A ! j = obj" using jk(5) by (simp add: id')
      then show ?thesis using conflicts [OF jk(1)] 2(1) by simp
    next
      case 3
      then have "\<not> unassigned A j" "object_ids A ! j = object_ids A ! k" using jk(4,5) by (simp_all add: id')
      then show ?thesis using ok jk(1-3) by (simp add: partly_ok_def)
    qed
  next
    fix b assume b: "b < length (object_sizes A')"
    show "\<exists>j<length rs. object_ids A' ! j = b \<and> object_sizes A' ! b = tensor_size (rs ! j)"
    proof (cases "b = obj \<and> object_sizes A' ! b = tensor_size (rs ! i)")
      case True
      then show ?thesis using i(1) by (intro exI [of _ i]) (auto simp: id')
    next
      case False
      then have old: "b < length (object_sizes A)" "object_sizes A' ! b = object_sizes A ! b" using tight [OF b] by blast+
      obtain j where j: "j < length rs" "object_ids A ! j = b" "object_sizes A ! b = tensor_size (rs ! j)"
        using ok old(1) unfolding partly_ok_def by blast
      have "j \<noteq> i" using j(2) i(2) small old(1) partly_ok_count [OF ok] by auto
      then show ?thesis using j old(2) by (intro exI [of _ j]) (simp add: id')
    qed
  qed
qed

lemma partly_ok_new:
  assumes "partly_ok rs A" "i < length rs" "unassigned A i" "length rs < kNotAssigned"
  shows "partly_ok rs (assign_new i (tensor_size (rs ! i)) A)"
proof (rule partly_ok_update [OF assms])
  show "object_ids (assign_new i (tensor_size (rs ! i)) A) = (object_ids A)[i := length (object_sizes A)]"
    by (simp add: assign_new_def)
  show "length (object_sizes A) \<noteq> kNotAssigned" using partly_ok_count [OF assms(1)] assms(4) by linarith
  fix j assume j: "j < length rs" "object_ids A ! j = length (object_sizes A)"
  have "\<not> unassigned A j" using j(2) partly_ok_count [OF assms(1)] assms(4) by linarith
  then have False using assms(1) j unfolding partly_ok_def by (metis less_irrefl)
  then show "\<not> intersects (rs ! j) (rs ! i)" by blast
qed (simp_all add: assign_new_def nth_append)

lemma partly_ok_grow:
  assumes "partly_ok rs A" "i < length rs" "unassigned A i" "length rs < kNotAssigned" "obj < length (object_sizes A)"
    "\<And>j. j < length rs \<Longrightarrow> object_ids A ! j = obj \<Longrightarrow> \<not> intersects (rs ! j) (rs ! i)"
  shows "\<exists>A'. assign_grow i obj (tensor_size (rs ! i)) A = Some A' \<and> partly_ok rs A' \<and> object_ids A' = (object_ids A)[i := obj]
    \<and> length (object_sizes A') = length (object_sizes A)"
proof -
  let ?sz = "tensor_size (rs ! i)"
  let ?A = "(assign_to i obj A)\<lparr>object_sizes := (object_sizes A)[obj := max (object_sizes A ! obj) ?sz]\<rparr>"
  have "partly_ok rs ?A"
  proof (rule partly_ok_update [OF assms(1-4)])
    show "object_ids ?A = (object_ids A)[i := obj]" by (simp add: assign_to_def)
    show "obj \<noteq> kNotAssigned" using partly_ok_count [OF assms(1)] assms(4,5) by linarith
    show "\<And>j. j < length rs \<Longrightarrow> object_ids A ! j = obj \<Longrightarrow> \<not> intersects (rs ! j) (rs ! i)" by (rule assms(6))
    fix b
    show "b < length (object_sizes ?A) \<Longrightarrow> (b < length (object_sizes A) \<and> object_sizes ?A ! b = object_sizes A ! b)
      \<or> (b = obj \<and> object_sizes ?A ! b = ?sz)"
      by (cases "b = obj") (simp_all add: max_def)
    show "b < length (object_sizes A) \<Longrightarrow> object_sizes A ! b \<le> object_sizes ?A ! b"
      by (cases "b = obj") simp_all
  qed (use assms(5) in simp_all)
  then show ?thesis using assms(5) by (simp add: assign_grow_def vec assign_to_def)
qed

text \<open>The number of tensors without an object.\<close>

definition missing :: "nat objects_assignment \<Rightarrow> nat set" where
  "missing A = {i. i < length (object_ids A) \<and> unassigned A i}"

lemma finite_missing [simp]: "finite (missing A)"
  by (simp add: missing_def)

lemma missing_update:
  assumes "object_ids A' = (object_ids A)[i := obj]" "obj \<noteq> kNotAssigned"
  shows "missing A' = missing A - {i}"
proof -
  have "object_ids A' ! j = (if j = i then obj else object_ids A ! j)" if "j < length (object_ids A)" for j
    using assms(1) that by (simp add: nth_list_update)
  then show ?thesis using assms by (auto simp: missing_def split: if_splits)
qed

section \<open>The priorities\<close>

definition info_ok :: "nat usage_record list \<Rightarrow> nat objects_assignment \<Rightarrow> nat \<Rightarrow> priority_info \<Rightarrow> bool" where
  "info_ok rs A i p \<longleftrightarrow> length (dist p) = length (object_sizes A)
     \<and> (\<forall>b<length (object_sizes A). dist p ! b \<noteq> kNotAssigned \<longrightarrow>
          (\<forall>j<length rs. object_ids A ! j = b \<longrightarrow> \<not> intersects (rs ! j) (rs ! i)))
     \<and> best_dist p \<le> kNotAssigned
     \<and> (best_dist p \<noteq> kNotAssigned \<longrightarrow> best_object p < length (object_sizes A) \<and> dist p ! best_object p \<noteq> kNotAssigned)"

definition infos_ok :: "nat usage_record list \<Rightarrow> nat objects_assignment \<Rightarrow> priority_info list \<Rightarrow> bool" where
  "infos_ok rs A infos \<longleftrightarrow> length infos = length rs \<and> (\<forall>i<length rs. tensor_usage_id (infos ! i) = i
     \<and> (unassigned A i \<longrightarrow> info_ok rs A i (infos ! i)))"

lemma usage_distance_intersects:
  assumes "first_task r \<le> last_task r" "last_task r < kNotAssigned" "first_task r' \<le> last_task r'" "last_task r' < kNotAssigned"
  shows "usage_distance r r' \<le> kNotAssigned" "usage_distance r r' = kNotAssigned \<longleftrightarrow> intersects r' r"
proof -
  consider "last_task r < first_task r'" | "\<not> last_task r < first_task r'" "last_task r' < first_task r"
    | "\<not> last_task r < first_task r'" "\<not> last_task r' < first_task r" by blast
  then have "usage_distance r r' \<le> kNotAssigned \<and> (usage_distance r r' = kNotAssigned \<longleftrightarrow> intersects r' r)"
  proof cases
    case 1
    then have "first_task r' - last_task r < kNotAssigned" "\<not> intersects r' r" using assms by (auto simp: intersects_def)
    then show ?thesis using 1 unfolding usage_distance_def by simp
  next
    case 2
    then have "first_task r - last_task r' < kNotAssigned" "\<not> intersects r' r" using assms by (auto simp: intersects_def)
    then show ?thesis using 2 unfolding usage_distance_def by simp
  next
    case 3
    then have "intersects r' r" by (auto simp: intersects_def)
    then show ?thesis using 3 unfolding usage_distance_def by simp
  qed
  then show "usage_distance r r' \<le> kNotAssigned" "usage_distance r r' = kNotAssigned \<longleftrightarrow> intersects r' r" by blast+
qed

lemma RecalcBestDist_ok:
  "dist (RecalcBestDist p) = dist p" "tensor_usage_id (RecalcBestDist p) = tensor_usage_id p"
  "best_dist (RecalcBestDist p) \<le> kNotAssigned"
  "best_dist (RecalcBestDist p) \<noteq> kNotAssigned \<Longrightarrow>
    best_object (RecalcBestDist p) < length (dist p) \<and> dist p ! best_object (RecalcBestDist p) \<noteq> kNotAssigned"
proof -
  let ?f = "\<lambda>info obj_id. if dist info ! obj_id < best_dist info
       then info\<lparr>best_dist := dist info ! obj_id, best_object := obj_id\<rparr> else info"
  define R where "R = (\<lambda>q :: priority_info. dist q = dist p \<and> tensor_usage_id q = tensor_usage_id p \<and> best_dist q \<le> kNotAssigned
      \<and> (best_dist q \<noteq> kNotAssigned \<longrightarrow> best_object q < length (dist p) \<and> dist p ! best_object q = best_dist q))"
  have step: "R (?f q k)" if "R q" "k < length (dist p)" for q k
    using that by (simp add: R_def)
  have "n \<le> length (dist p) \<Longrightarrow> R (foldl ?f (p\<lparr>best_dist := kNotAssigned\<rparr>) [0..<n])" for n
  proof (induction n)
    case 0
    show ?case by (simp add: R_def)
  next
    case (Suc n)
    then have "R (?f (foldl ?f (p\<lparr>best_dist := kNotAssigned\<rparr>) [0..<n]) n)" by (intro step) simp_all
    then show ?case unfolding upt_Suc_append [OF le0] foldl_append foldl_Cons foldl_Nil .
  qed
  then have "R (RecalcBestDist p)" by (simp add: RecalcBestDist_def)
  then show "dist (RecalcBestDist p) = dist p"
    "tensor_usage_id (RecalcBestDist p) = tensor_usage_id p" "best_dist (RecalcBestDist p) \<le> kNotAssigned"
    "best_dist (RecalcBestDist p) \<noteq> kNotAssigned \<Longrightarrow>
      best_object (RecalcBestDist p) < length (dist p) \<and> dist p ! best_object (RecalcBestDist p) \<noteq> kNotAssigned"
    unfolding R_def by metis+
qed

text \<open>The priority of a tensor that still has no object, after tensor \<open>r\<close> got object \<open>obj\<close>.\<close>

lemma update_info_assigned:
  assumes "i < length rs" "i < length ids" "ids ! i \<noteq> kNotAssigned" "tensor_usage_id p = i"
  shows "update_info rs ids rec obj new_object p = Some p"
  using assms by (simp add: update_info_def vec)

lemma update_info_new:
  assumes ok: "partly_ok rs A" "intervals_ok rs" "length rs < kNotAssigned"
    and r: "r < length rs" "unassigned A r" and i: "i < length rs" "i \<noteq> r" "unassigned A i"
    and p: "info_ok rs A i p" "tensor_usage_id p = i"
  shows "\<exists>p'. update_info rs (object_ids (assign_new r (tensor_size (rs ! r)) A)) (rs ! r) (length (object_sizes A)) True p = Some p'
    \<and> tensor_usage_id p' = i \<and> info_ok rs (assign_new r (tensor_size (rs ! r)) A) i p'"
proof -
  let ?m = "length (object_sizes A)" and ?A = "assign_new r (tensor_size (rs ! r)) A"
  define d where "d = usage_distance (rs ! i) (rs ! r)"
  have len: "length (object_ids A) = length rs" using ok(1) by (simp add: partly_ok_def)
  have d: "d \<le> kNotAssigned" "d = kNotAssigned \<longleftrightarrow> intersects (rs ! r) (rs ! i)"
    using usage_distance_intersects [of "rs ! i" "rs ! r"] intervals_ok_nth [OF ok(2) i(1)] intervals_ok_nth [OF ok(2) r(1)]
    by (simp_all add: d_def)
  have I: "length (dist p) = ?m" "\<forall>b<?m. dist p ! b \<noteq> kNotAssigned \<longrightarrow>
      (\<forall>j<length rs. object_ids A ! j = b \<longrightarrow> \<not> intersects (rs ! j) (rs ! i))" "best_dist p \<le> kNotAssigned"
    "best_dist p \<noteq> kNotAssigned \<longrightarrow> best_object p < ?m \<and> dist p ! best_object p \<noteq> kNotAssigned"
    using p(1) by (simp_all add: info_ok_def)
  have id': "object_ids ?A ! j = (if j = r then ?m else object_ids A ! j)" for j
    using r(1) len by (simp add: assign_new_def nth_list_update)
  define p1 where "p1 = p\<lparr>dist := dist p @ [d]\<rparr>"
  define p' where "p' = (if d < best_dist p1 then p1\<lparr>best_dist := d, best_object := ?m\<rparr> else p1)"
  have run: "update_info rs (object_ids ?A) (rs ! r) ?m True p = Some p'"
    using i len p(2) id' [of i] by (simp add: update_info_def vec assign_new_def d_def p1_def p'_def Let_def)
  have dist: "dist p' = dist p @ [d]" by (simp add: p'_def p1_def)
  have free: "\<not> intersects (rs ! j) (rs ! i)"
    if b: "b < Suc ?m" "(dist p @ [d]) ! b \<noteq> kNotAssigned" and j: "j < length rs" "object_ids ?A ! j = b" for b j
  proof (cases "j = r")
    case True
    then show ?thesis using b j d(2) I(1) by (simp add: id' nth_append)
  next
    case False
    then have j': "object_ids A ! j = b" using j(2) by (simp add: id')
    show ?thesis
    proof (cases "b < ?m")
      case True
      then show ?thesis using I(1,2) b(2) j(1) j' by (simp add: nth_append)
    next
      case False
      then have "\<not> unassigned A j" using b(1) j' partly_ok_count [OF ok(1)] ok(3) by linarith
      then have "object_ids A ! j < ?m" using ok(1) j(1) by (simp add: partly_ok_def)
      then show ?thesis using False j' by simp
    qed
  qed
  have best: "best_dist p' \<le> kNotAssigned" "best_dist p' \<noteq> kNotAssigned \<Longrightarrow>
      best_object p' < Suc ?m \<and> (dist p @ [d]) ! best_object p' \<noteq> kNotAssigned"
    using d(1) I(1,3,4) by (auto simp: p'_def p1_def nth_append)
  have "info_ok rs ?A i p'"
    unfolding info_ok_def dist using free best I(1) by (simp add: assign_new_def)
  moreover have "tensor_usage_id p' = i" using p(2) by (simp add: p'_def p1_def)
  ultimately show ?thesis using run by blast
qed

lemma update_info_grow:
  assumes ok: "partly_ok rs A" "intervals_ok rs" "length rs < kNotAssigned"
    and r: "r < length rs" "unassigned A r" and obj: "obj < length (object_sizes A)"
    and A': "object_ids A' = (object_ids A)[r := obj]" "length (object_sizes A') = length (object_sizes A)"
    and i: "i < length rs" "i \<noteq> r" "unassigned A i" and p: "info_ok rs A i p" "tensor_usage_id p = i"
  shows "\<exists>p'. update_info rs (object_ids A') (rs ! r) obj False p = Some p' \<and> tensor_usage_id p' = i \<and> info_ok rs A' i p'"
proof -
  let ?m = "length (object_sizes A)"
  define d where "d = usage_distance (rs ! i) (rs ! r)"
  have len: "length (object_ids A) = length rs" using ok(1) by (simp add: partly_ok_def)
  have d: "d \<le> kNotAssigned" "d = kNotAssigned \<longleftrightarrow> intersects (rs ! r) (rs ! i)"
    using usage_distance_intersects [of "rs ! i" "rs ! r"] intervals_ok_nth [OF ok(2) i(1)] intervals_ok_nth [OF ok(2) r(1)]
    by (simp_all add: d_def)
  have I: "length (dist p) = ?m" "\<And>b j. b < ?m \<Longrightarrow> dist p ! b \<noteq> kNotAssigned \<Longrightarrow> j < length rs \<Longrightarrow> object_ids A ! j = b
      \<Longrightarrow> \<not> intersects (rs ! j) (rs ! i)" "best_dist p \<le> kNotAssigned"
    "best_dist p \<noteq> kNotAssigned \<Longrightarrow> best_object p < ?m \<and> dist p ! best_object p \<noteq> kNotAssigned"
    using p(1) by (simp_all add: info_ok_def)
  have id': "object_ids A' ! j = (if j = r then obj else object_ids A ! j)" for j
    using r(1) len A'(1) by (simp add: nth_list_update)
  have free: "\<not> intersects (rs ! j) (rs ! i)"
    if "b < ?m" "dist p ! b \<noteq> kNotAssigned" "j < length rs" "object_ids A' ! j = b" "j = r \<longrightarrow> d \<noteq> kNotAssigned" for b j
    using that I(2) [of b j] d(2) by (cases "j = r") (simp_all add: id')
  have run: "update_info rs (object_ids A') (rs ! r) obj False p = (if dist p ! obj = kNotAssigned then Some p else
      let p1 = (if d = kNotAssigned
            then (let p = p\<lparr>dist := (dist p)[obj := kNotAssigned]\<rparr> in if best_object p = obj then RecalcBestDist p else p)
            else p\<lparr>dist := (dist p)[obj := min (dist p ! obj) d]\<rparr>)
      in Some (if d < best_dist p1 then p1\<lparr>best_dist := d, best_object := obj\<rparr> else p1))"
    using i len p(2) id' [of i] A' obj I(1) by (simp add: update_info_def vec Let_def d_def [symmetric])
  consider (taken) "dist p ! obj = kNotAssigned" | (conflict) "dist p ! obj \<noteq> kNotAssigned" "d = kNotAssigned"
    | (close) "dist p ! obj \<noteq> kNotAssigned" "d \<noteq> kNotAssigned" by blast
  then show ?thesis
  proof cases
    case taken
    have "\<not> intersects (rs ! j) (rs ! i)"
      if "b < ?m" "dist p ! b \<noteq> kNotAssigned" "j < length rs" "object_ids A' ! j = b" for b j
      using that taken I(2) [of b j] by (cases "j = r") (auto simp: id')
    then have "info_ok rs A' i p" using I A'(2) by (simp add: info_ok_def)
    then show ?thesis using run taken p(2) by simp
  next
    case conflict
    define q where "q = p\<lparr>dist := (dist p)[obj := kNotAssigned]\<rparr>"
    define p1 where "p1 = (if best_object q = obj then RecalcBestDist q else q)"
    have p1: "dist p1 = (dist p)[obj := kNotAssigned]" "tensor_usage_id p1 = i" "best_dist p1 \<le> kNotAssigned"
      "best_dist p1 \<noteq> kNotAssigned \<Longrightarrow> best_object p1 < ?m \<and> (dist p)[obj := kNotAssigned] ! best_object p1 \<noteq> kNotAssigned"
      using RecalcBestDist_ok [of q] p(2) I by (auto simp: p1_def q_def)
    have "\<not> intersects (rs ! j) (rs ! i)"
      if "b < ?m" "(dist p)[obj := kNotAssigned] ! b \<noteq> kNotAssigned" "j < length rs" "object_ids A' ! j = b" for b j
    proof -
      have b: "b \<noteq> obj" using that(1,2) I(1) by auto
      then have "j \<noteq> r" using that(4) by (auto simp: id')
      then show ?thesis using free [of b j] that b by simp
    qed
    then have "info_ok rs A' i p1" using p1 I(1) A'(2) by (simp add: info_ok_def)
    moreover have "update_info rs (object_ids A') (rs ! r) obj False p
        = Some (if d < best_dist p1 then p1\<lparr>best_dist := d, best_object := obj\<rparr> else p1)"
      using run conflict unfolding p1_def q_def Let_def by simp
    then have "update_info rs (object_ids A') (rs ! r) obj False p = Some p1" using conflict(2) p1(3) by simp
    ultimately show ?thesis using p1(2) by blast
  next
    case close
    define p1 where "p1 = p\<lparr>dist := (dist p)[obj := min (dist p ! obj) d]\<rparr>"
    define p' where "p' = (if d < best_dist p1 then p1\<lparr>best_dist := d, best_object := obj\<rparr> else p1)"
    have dist: "dist p' = (dist p)[obj := min (dist p ! obj) d]" "tensor_usage_id p' = i"
      using p(2) by (simp_all add: p'_def p1_def)
    have min: "min (dist p ! obj) d \<noteq> kNotAssigned" using close by (auto simp: min_def)
    have "\<not> intersects (rs ! j) (rs ! i)"
      if "b < ?m" "dist p' ! b \<noteq> kNotAssigned" "j < length rs" "object_ids A' ! j = b" for b j
    proof -
      have "dist p ! b \<noteq> kNotAssigned" using that(1,2) close(1) I(1) by (cases "b = obj") (simp_all add: dist)
      then show ?thesis using free [of b j] that close(2) by simp
    qed
    moreover have "best_dist p' \<le> kNotAssigned" using I(3) d(1) by (simp add: p'_def p1_def)
    moreover have "best_object p' < ?m \<and> dist p' ! best_object p' \<noteq> kNotAssigned" if "best_dist p' \<noteq> kNotAssigned"
    proof (cases "d < best_dist p")
      case True
      then have "best_object p' = obj" by (simp add: p'_def p1_def)
      then show ?thesis using obj I(1) min by (simp add: dist(1))
    next
      case False
      then have same: "best_object p' = best_object p" "best_dist p' = best_dist p" by (simp_all add: p'_def p1_def)
      then have "best_object p < ?m \<and> dist p ! best_object p \<noteq> kNotAssigned" using I(4) that by simp
      then show ?thesis using same min I(1) by (cases "best_object p = obj") (simp_all add: dist(1))
    qed
    ultimately have "info_ok rs A' i p'" using I(1) A'(2) dist(1) by (simp add: info_ok_def)
    moreover have "update_info rs (object_ids A') (rs ! r) obj False p = Some p'"
      using run close by (simp add: Let_def p1_def p'_def)
    ultimately show ?thesis using dist(2) by blast
  qed
qed

section \<open>By position, distance and size\<close>

text \<open>The search for the tensor of the highest priority finds one without an object, if there is one.\<close>

lemma best_info_ok:
  assumes "infos_ok rs A infos" "length rs < kNotAssigned" "i < length rs" "unassigned A i"
  shows "best_info (object_ids A) infos < length rs \<and> unassigned A (best_info (object_ids A) infos)"
proof -
  let ?f = "\<lambda>best_info_id info_id.
       if object_ids A ! tensor_usage_id (infos ! info_id) \<noteq> kNotAssigned then best_info_id
       else if best_info_id = kNotAssigned \<or> higher_priority (infos ! info_id) (infos ! best_info_id) then info_id
       else best_info_id"
  define R where "R = (\<lambda>n b. (b \<noteq> kNotAssigned \<longrightarrow> b < length rs \<and> unassigned A b)
      \<and> ((\<exists>k<n. unassigned A k) \<longrightarrow> b \<noteq> kNotAssigned))"
  have usage: "tensor_usage_id (infos ! n) = n" if "n < length rs" for n using assms(1) that by (simp add: infos_ok_def)
  have step: "R (Suc n) (?f b n)" if "n < length rs" "R n b" for n b
    using that assms(2) usage [OF that(1)] unfolding R_def by (auto simp: less_Suc_eq)
  have "n \<le> length rs \<Longrightarrow> R n (foldl ?f kNotAssigned [0..<n])" for n
  proof (induction n)
    case 0
    show ?case by (simp add: R_def)
  next
    case (Suc n)
    then have "R (Suc n) (?f (foldl ?f kNotAssigned [0..<n]) n)" by (intro step) simp_all
    then show ?case unfolding upt_Suc_append [OF le0] foldl_append foldl_Cons foldl_Nil .
  qed
  then have "R (length rs) (best_info (object_ids A) infos)"
    using assms(1) unfolding best_info_def infos_ok_def by simp
  then show ?thesis using assms(3,4) unfolding R_def by blast
qed

lemma those_map:
  assumes "\<And>i. i < length xs \<Longrightarrow> \<exists>y. f (xs ! i) = Some y \<and> Q i y"
  shows "\<exists>ys. those (map f xs) = Some ys \<and> length ys = length xs \<and> (\<forall>i<length xs. Q i (ys ! i))"
  using assms
proof (induction xs arbitrary: Q)
  case (Cons x xs)
  obtain y where y: "f x = Some y" "Q 0 y" using Cons.prems [of 0] by auto
  have "\<exists>y. f (xs ! i) = Some y \<and> Q (Suc i) y" if "i < length xs" for i using Cons.prems [of "Suc i"] that by simp
  from Cons.IH [OF this] obtain ys where "those (map f xs) = Some ys" "length ys = length xs" "\<forall>i<length xs. Q (Suc i) (ys ! i)"
    by blast
  then show ?case using y by (auto simp: less_Suc_eq_0_disj)
qed simp

lemma dist_priority_step_ok:
  assumes ok: "partly_ok rs A" "infos_ok rs A infos" and rs: "intervals_ok rs" "length rs < kNotAssigned"
    and some: "missing A \<noteq> {}"
  shows "\<exists>A' infos'. dist_priority_step rs it (A, infos) = Some (OkStatus, A', infos') \<and> partly_ok rs A' \<and> infos_ok rs A' infos'
    \<and> Suc (card (missing A')) = card (missing A)"
proof -
  have len: "length (object_ids A) = length rs" "length infos = length rs"
    using ok by (auto simp: partly_ok_def infos_ok_def)
  obtain i where i: "i < length rs" "unassigned A i" using some len by (auto simp: missing_def)
  define r where "r = best_info (object_ids A) infos"
  have r: "r < length rs" "unassigned A r" "r \<noteq> kNotAssigned"
    using best_info_ok [OF ok(2) rs(2) i] rs(2) by (auto simp: r_def)
  have usage: "tensor_usage_id (infos ! j) = j" if "j < length rs" for j using ok(2) that by (simp add: infos_ok_def)
  have infos: "info_ok rs A j (infos ! j)" if "j < length rs" "unassigned A j" for j using ok(2) that by (simp add: infos_ok_def)
  let ?m = "length (object_sizes A)"
  define new where "new = (best_dist (infos ! r) = kNotAssigned)"
  define obj where "obj = (if new then ?m else best_object (infos ! r))"
  have grow: "obj < ?m" "\<And>j. j < length rs \<Longrightarrow> object_ids A ! j = obj \<Longrightarrow> \<not> intersects (rs ! j) (rs ! r)" if "\<not> new"
    using infos [OF r(1,2)] that by (auto simp: info_ok_def obj_def new_def)
  have obj: "obj \<noteq> kNotAssigned"
    using grow(1) partly_ok_count [OF ok(1)] rs(2) by (cases new) (auto simp: obj_def)
  have "\<exists>A'. (if new then Some (assign_new r (tensor_size (rs ! r)) A) else assign_grow r obj (tensor_size (rs ! r)) A) = Some A'
    \<and> partly_ok rs A' \<and> object_ids A' = (object_ids A)[r := obj]
    \<and> (new \<longrightarrow> A' = assign_new r (tensor_size (rs ! r)) A) \<and> (\<not> new \<longrightarrow> length (object_sizes A') = ?m)"
  proof (cases new)
    case True
    then show ?thesis using partly_ok_new [OF ok(1) r(1,2) rs(2)] by (simp add: obj_def assign_new_def)
  next
    case False
    obtain A' where "assign_grow r obj (tensor_size (rs ! r)) A = Some A'" "partly_ok rs A'"
      "object_ids A' = (object_ids A)[r := obj]" "length (object_sizes A') = ?m"
      using partly_ok_grow [OF ok(1) r(1,2) rs(2) grow(1) [OF False] grow(2) [OF False]] by blast
    then show ?thesis using False by simp
  qed
  then obtain A' where A':
    "(if new then Some (assign_new r (tensor_size (rs ! r)) A) else assign_grow r obj (tensor_size (rs ! r)) A) = Some A'"
    "partly_ok rs A'" "object_ids A' = (object_ids A)[r := obj]"
    "new \<Longrightarrow> A' = assign_new r (tensor_size (rs ! r)) A" "\<not> new \<Longrightarrow> length (object_sizes A') = ?m"
    by blast
  have "\<exists>p'. update_info rs (object_ids A') (rs ! r) obj new (infos ! j) = Some p' \<and> tensor_usage_id p' = j
      \<and> (unassigned A' j \<longrightarrow> info_ok rs A' j p')" if j: "j < length infos" for j
  proof (cases "unassigned A' j")
    case False
    then show ?thesis
      using update_info_assigned [of j rs "object_ids A'" "infos ! j"] j usage [of j] len A'(3) by simp
  next
    case True
    have r': "object_ids A' ! r = obj" using A'(3) r(1) len by simp
    then have jr: "j \<noteq> r" using True obj by auto
    have j': "j < length rs" "unassigned A j" using True A'(3) j len jr by simp_all
    show ?thesis
    proof (cases new)
      case True
      then show ?thesis
        using update_info_new [OF ok(1) rs r(1,2) j'(1) jr j'(2) infos [OF j'] usage [OF j'(1)]] A'(4)
        unfolding obj_def by auto
    next
      case False
      then show ?thesis
        using update_info_grow [OF ok(1) rs r(1,2) grow(1) A'(3,5) j'(1) jr j'(2) infos [OF j'] usage [OF j'(1)]]
        by auto
    qed
  qed
  from those_map [of infos "update_info rs (object_ids A') (rs ! r) obj new"
      "\<lambda>j p'. tensor_usage_id p' = j \<and> (unassigned A' j \<longrightarrow> info_ok rs A' j p')", OF this]
  obtain infos' where
    infos': "those (map (update_info rs (object_ids A') (rs ! r) obj new) infos) = Some infos'" "infos_ok rs A' infos'"
    using len by (auto simp: infos_ok_def)
  have "missing A' = missing A - {r}" by (rule missing_update [OF A'(3) obj])
  moreover have "r \<in> missing A" using r len by (simp add: missing_def)
  ultimately have "Suc (card (missing A')) = card (missing A)" using card_Suc_Diff1 [of "missing A" r] by simp
  moreover have "dist_priority_step rs it (A, infos) = Some (OkStatus, A', infos')"
    using r len A'(1) infos'(1) usage [OF r(1)]
    by (cases new) (simp_all add: dist_priority_step_def r_def [symmetric] vec Let_def new_def obj_def)
  ultimately show ?thesis using A'(2) infos'(2) by blast
qed

lemma init_infos_ok:
  assumes "\<forall>i<length rs. ms \<noteq> [] \<and> tensor_size (rs ! i) \<le> ms ! 0"
  shows "\<exists>infos. each_status (init_info ms rs) [0..<length rs] [] = Some (OkStatus, infos)
    \<and> infos_ok rs (no_objects (length rs)) infos"
proof -
  define P where "P = (\<lambda>n (infos :: priority_info list). length infos = n \<and> (\<forall>i<n. tensor_usage_id (infos ! i) = i \<and> dist (infos ! i) = []
      \<and> best_dist (infos ! i) = kNotAssigned))"
  have step: "\<exists>s'. init_info ms rs i s = Some (OkStatus, s') \<and> P (Suc i) s'" if i: "i < length rs" "P i s" for i s
  proof -
    obtain m ms' where "ms = m # ms'" "tensor_size (rs ! i) \<le> m" using assms i(1) by (cases ms) auto
    then show ?thesis using i by (auto simp: init_info_def vec P_def nth_append less_Suc_eq Let_def)
  qed
  have start: "P 0 []" by (simp add: P_def)
  have "\<exists>s'. each_status (init_info ms rs) [0..<length rs] [] = Some (OkStatus, s') \<and> P (length rs) s'"
    by (rule each_status_upt [of P, OF start step])
  then show ?thesis by (auto simp: P_def infos_ok_def info_ok_def no_objects_def)
qed

lemma GreedyBySizeDistPriorityAssignment_ok:
  assumes "intervals_ok rs" "length rs < kNotAssigned"
  shows "\<exists>A. GreedyBySizeDistPriorityAssignment rs = Some (OkStatus, A) \<and> objects_ok (\<ge>) rs A"
proof -
  obtain ms where ms: "CalculatePositionalMaximums rs = Some ms" "\<forall>i<length rs. ms \<noteq> [] \<and> tensor_size (rs ! i) \<le> ms ! 0"
    using CalculatePositionalMaximums_ok [OF assms(1)] by blast
  obtain infos where infos: "each_status (init_info ms rs) [0..<length rs] [] = Some (OkStatus, infos)"
    "infos_ok rs (no_objects (length rs)) infos" using init_infos_ok [OF ms(2)] by blast
  define P where "P = (\<lambda>k (A, infos). partly_ok rs A \<and> infos_ok rs A infos \<and> card (missing A) + k = length rs)"
  have step: "\<exists>s'. dist_priority_step rs k s = Some (OkStatus, s') \<and> P (Suc k) s'" if k: "k < length rs" "P k s" for k s
  proof -
    obtain A ps where s: "s = (A, ps)" by (cases s)
    have "missing A \<noteq> {}" using k s by (auto simp: P_def)
    then show ?thesis using dist_priority_step_ok [OF _ _ assms, of A ps k] k(2) s by (auto simp: P_def)
  qed
  have "missing (no_objects (length rs)) = {..<length rs}" by (auto simp: missing_def no_objects_def)
  then have start: "P 0 (no_objects (length rs), infos)" using infos(2) partly_ok_start by (simp add: P_def)
  have "\<exists>s'. each_status (dist_priority_step rs) [0..<length rs] (no_objects (length rs), infos) = Some (OkStatus, s') \<and> P (length rs) s'"
    by (rule each_status_upt [of P, OF start step])
  then obtain A ps where run: "each_status (dist_priority_step rs) [0..<length rs] (no_objects (length rs), infos) = Some (OkStatus, A, ps)"
    "partly_ok rs A" "missing A = {}" by (auto simp: P_def)
  moreover have "\<forall>i<length rs. \<not> unassigned A i" using run(2,3) by (auto simp: partly_ok_def missing_def)
  ultimately show ?thesis
    using partly_ok_done ms(1) infos(1) by (auto simp: GreedyBySizeDistPriorityAssignment_def)
qed

section \<open>By breadth\<close>

text \<open>The schedule of an object: each of its tensors is used for the last time before the next one is used.\<close>

definition schedule_ok :: "nat usage_record list \<Rightarrow> bool" where
  "schedule_ok s \<longleftrightarrow> sorted_wrt (\<lambda>r r'. last_task r < first_task r') s \<and> (\<forall>r\<in>set s. first_task r \<le> last_task r)"

lemma schedule_ok_Cons:
  "schedule_ok (r # s) \<longleftrightarrow> (\<forall>r'\<in>set s. last_task r < first_task r') \<and> first_task r \<le> last_task r \<and> schedule_ok s"
  by (auto simp: schedule_ok_def)

lemma schedule_free_sound:
  assumes "schedule_ok s" "schedule_free rec s"
  shows "\<forall>r\<in>set s. \<not> intersects r rec"
proof
  fix r assume "r \<in> set s"
  then obtain j where j: "j < length s" "r = s ! j" by (auto simp: in_set_conv_nth)
  define k where "k = length (takeWhile (\<lambda>r. first_task r < first_task rec) s)"
  have k: "k \<le> length s" by (simp add: k_def length_takeWhile_le)
  have free: "k < length s \<Longrightarrow> last_task rec < first_task (s ! k)" "k \<noteq> 0 \<Longrightarrow> last_task (s ! (k - 1)) < first_task rec"
    using assms(2) by (auto simp: schedule_free_def Let_def k_def [symmetric])
  have order: "last_task (s ! a) < first_task (s ! b)" if "a < b" "b < length s" for a b
    using assms(1) that by (simp add: schedule_ok_def sorted_wrt_iff_nth_less)
  have interval: "first_task (s ! a) \<le> last_task (s ! a)" if "a < length s" for a using assms(1) that by (simp add: schedule_ok_def)
  show "\<not> intersects r rec"
  proof (cases "j < k")
    case True
    have "last_task (s ! j) \<le> last_task (s ! (k - 1))"
    proof (cases "j = k - 1")
      case False
      have "last_task (s ! j) < first_task (s ! (k - 1))" using order [of j "k - 1"] True False k by simp
      also have "\<dots> \<le> last_task (s ! (k - 1))" using interval [of "k - 1"] True k by simp
      finally show ?thesis by simp
    qed simp
    then show ?thesis using free(2) True j(2) by (simp add: intersects_def)
  next
    case False
    then have "k < length s" using j(1) by simp
    have "first_task (s ! k) \<le> first_task (s ! j)"
    proof (cases "k = j")
      case False
      then have "last_task (s ! k) < first_task (s ! j)" using order [of k j] j(1) \<open>\<not> j < k\<close> by simp
      then show ?thesis using interval [OF \<open>k < length s\<close>] by simp
    qed simp
    then show ?thesis using free(1) [OF \<open>k < length s\<close>] j(2) by (simp add: intersects_def)
  qed
qed

lemma schedule_insert_ok:
  assumes "schedule_ok s" "\<forall>r\<in>set s. \<not> intersects r rec" "first_task rec \<le> last_task rec"
  shows "schedule_ok (schedule_insert rec s)" "set (schedule_insert rec s) = insert rec (set s)"
proof -
  have "\<not> (\<exists>r\<in>set s. first_task r = first_task rec)"
    using assms by (auto simp: intersects_def schedule_ok_def)
  then have insert: "schedule_insert rec s = sort_insert (\<lambda>r r'. first_task r < first_task r') rec s"
    by (simp add: schedule_insert_def)
  have "schedule_ok (sort_insert (\<lambda>r r'. first_task r < first_task r') rec s)"
    using assms(1,2)
  proof (induction s)
    case Nil
    then show ?case using assms(3) by (simp add: schedule_ok_def)
  next
    case (Cons r s)
    have r: "first_task r \<le> last_task r" "\<not> intersects r rec" "\<forall>r'\<in>set s. last_task r < first_task r'"
      using Cons.prems by (simp_all add: schedule_ok_Cons)
    show ?case
    proof (cases "first_task r < first_task rec")
      case True
      then have "last_task r < first_task rec" using r(2) assms(3) by (auto simp: intersects_def)
      then show ?thesis using True Cons r by (auto simp: schedule_ok_Cons)
    next
      case False
      then have before: "last_task rec < first_task r" using r(1,2) by (auto simp: intersects_def)
      then have "\<forall>r'\<in>set s. last_task rec < first_task r'" using r(1,3) by (meson le_less_trans less_imp_le less_trans)
      then show ?thesis using False before Cons.prems assms(3) by (auto simp: schedule_ok_Cons)
    qed
  qed
  then show "schedule_ok (schedule_insert rec s)" "set (schedule_insert rec s) = insert rec (set s)"
    by (simp_all add: insert)
qed

lemma best_schedule_ok:
  "best_schedule sizes scheds rec \<le> length scheds
    \<and> (best_schedule sizes scheds rec < length scheds \<longrightarrow> schedule_free rec (scheds ! best_schedule sizes scheds rec))"
proof -
  let ?f = "\<lambda>best_object obj_id.
       if best_object \<noteq> length scheds \<and> worse_object (tensor_size rec) (sizes ! best_object) (sizes ! obj_id)
       then best_object
       else if schedule_free rec (scheds ! obj_id) then obj_id else best_object"
  have "n \<le> length scheds \<Longrightarrow> foldl ?f (length scheds) [0..<n] \<le> length scheds
      \<and> (foldl ?f (length scheds) [0..<n] < length scheds \<longrightarrow> schedule_free rec (scheds ! foldl ?f (length scheds) [0..<n]))" for n
  proof (induction n)
    case (Suc n)
    define b where "b = foldl ?f (length scheds) [0..<n]"
    have "b \<le> length scheds \<and> (b < length scheds \<longrightarrow> schedule_free rec (scheds ! b))" using Suc by (simp add: b_def)
    then have "?f b n \<le> length scheds \<and> (?f b n < length scheds \<longrightarrow> schedule_free rec (scheds ! ?f b n))"
      using Suc.prems by simp
    then show ?case unfolding upt_Suc_append [OF le0] foldl_append foldl_Cons foldl_Nil b_def .
  qed simp
  then show ?thesis unfolding best_schedule_def by blast
qed

definition breadth_inv :: "nat usage_record list \<Rightarrow> nat objects_assignment \<times> nat usage_record list list \<Rightarrow> bool" where
  "breadth_inv rs = (\<lambda>(A, scheds). partly_ok rs A \<and> length scheds = length (object_sizes A)
     \<and> (\<forall>b<length scheds. schedule_ok (scheds ! b) \<and> set (scheds ! b) = {rs ! i | i. i < length rs \<and> object_ids A ! i = b}))"

lemma breadth_step_ok:
  assumes inv: "breadth_inv rs (A, scheds)" and rs: "intervals_ok rs" "length rs < kNotAssigned" and idx: "idx < length rs"
  shows "\<exists>A' scheds'. breadth_step rs idx (A, scheds) = Some (A', scheds') \<and> breadth_inv rs (A', scheds')
    \<and> \<not> unassigned A' idx \<and> (\<forall>i. \<not> unassigned A i \<longrightarrow> \<not> unassigned A' i)"
proof -
  have ok: "partly_ok rs A" and len: "length scheds = length (object_sizes A)" "length (object_ids A) = length rs"
    and scheds: "\<And>b. b < length scheds \<Longrightarrow> schedule_ok (scheds ! b) \<and> set (scheds ! b) = {rs ! i | i. i < length rs \<and> object_ids A ! i = b}"
    using inv by (auto simp: breadth_inv_def partly_ok_def)
  show ?thesis
  proof (cases "unassigned A idx")
    case False
    then show ?thesis using inv idx len by (simp add: breadth_step_def vec)
  next
    case unassigned: True
    let ?rec = "rs ! idx" and ?m = "length (object_sizes A)"
    define b where "b = best_schedule (object_sizes A) scheds ?rec"
    have b: "b \<le> ?m" "b < ?m \<Longrightarrow> schedule_free ?rec (scheds ! b)"
      using best_schedule_ok [of "object_sizes A" scheds ?rec] len by (auto simp: b_def)
    have rec: "first_task ?rec \<le> last_task ?rec" using intervals_ok_nth [OF rs(1) idx] by simp
    have assigned: "b \<noteq> kNotAssigned" using b(1) partly_ok_count [OF ok] rs(2) by linarith
    have kept: "\<not> unassigned A' idx \<and> (\<forall>i. \<not> unassigned A i \<longrightarrow> \<not> unassigned A' i)"
      if "object_ids A' = (object_ids A)[idx := b]" for A'
      using that assigned idx len by (auto simp: nth_list_update)
    have others: "{rs ! i | i. i < length rs \<and> (object_ids A)[idx := b] ! i = b'}
        = (if b' = b then insert ?rec else id) {rs ! i | i. i < length rs \<and> object_ids A ! i = b'}" if "b' \<noteq> kNotAssigned" for b'
      using idx len unassigned that by (auto simp: nth_list_update) 
    have small: "b' < length rs \<Longrightarrow> b' \<noteq> kNotAssigned" for b' using rs(2) by simp
    show ?thesis
    proof (cases "b = ?m")
      case True
      let ?A = "assign_new idx (tensor_size ?rec) A"
      have none: "{rs ! i | i. i < length rs \<and> object_ids A ! i = ?m} = {}"
      proof -
        have "object_ids A ! i \<noteq> ?m" if "i < length rs" for i
        proof
          assume eq: "object_ids A ! i = ?m"
          then have "\<not> unassigned A i" using assigned True by simp
          then have "object_ids A ! i < ?m" using ok that unfolding partly_ok_def by blast
          then show False using eq by simp
        qed
        then show ?thesis by blast
      qed
      have "breadth_inv rs (?A, scheds @ [[?rec]])"
        unfolding breadth_inv_def prod.case
      proof (intro conjI allI impI)
        show "partly_ok rs ?A" by (rule partly_ok_new [OF ok idx unassigned rs(2)])
        show "length (scheds @ [[?rec]]) = length (object_sizes ?A)" using len by (simp add: assign_new_def)
        fix b' assume b': "b' < length (scheds @ [[?rec]])"
        then have na: "b' \<noteq> kNotAssigned" using assigned True partly_ok_count [OF ok] len(1) rs(2) by simp
        show "schedule_ok ((scheds @ [[?rec]]) ! b')"
          using scheds [of b'] rec b' by (cases "b' < length scheds") (simp_all add: nth_append schedule_ok_def)
        show "set ((scheds @ [[?rec]]) ! b') = {rs ! i |i. i < length rs \<and> object_ids ?A ! i = b'}"
        proof (cases "b' < length scheds")
          case True
          then show ?thesis using others [OF na] scheds [of b'] \<open>b = ?m\<close> len by (simp add: nth_append assign_new_def)
        next
          case False
          then have "b' = ?m" using b' len by simp
          then show ?thesis using others [OF na] none \<open>b = ?m\<close> len unfolding assign_new_def by (simp add: nth_append)
        qed
      qed
      moreover have "breadth_step rs idx (A, scheds) = Some (?A, scheds @ [[?rec]])"
        using idx len unassigned True by (simp add: breadth_step_def vec b_def [symmetric] assign_new_def Let_def)
      ultimately show ?thesis using kept [of ?A] True by (simp add: assign_new_def)
    next
      case False
      then have bm: "b < ?m" using b(1) by simp
      have free: "\<forall>r\<in>set (scheds ! b). \<not> intersects r ?rec"
        using schedule_free_sound [OF _ b(2) [OF bm]] scheds [of b] bm len by simp
      then have "\<not> intersects (rs ! j) ?rec" if "j < length rs" "object_ids A ! j = b" for j
        using scheds [of b] bm len that by auto
      then obtain A' where A': "assign_grow idx b (tensor_size ?rec) A = Some A'" "partly_ok rs A'"
        "object_ids A' = (object_ids A)[idx := b]" "length (object_sizes A') = ?m"
        using partly_ok_grow [OF ok idx unassigned rs(2) bm] by blast
      let ?scheds = "scheds[b := schedule_insert ?rec (scheds ! b)]"
      have "breadth_inv rs (A', ?scheds)"
        unfolding breadth_inv_def prod.case
      proof (intro conjI allI impI)
        show "partly_ok rs A'" by (rule A'(2))
        show "length ?scheds = length (object_sizes A')" using len A'(4) by simp
        fix b' assume b': "b' < length ?scheds"
        then have na: "b' \<noteq> kNotAssigned" using partly_ok_count [OF ok] len(1) rs(2) by simp
        note insert = schedule_insert_ok [of "scheds ! b" ?rec]
        show "schedule_ok (?scheds ! b')"
          using insert(1) scheds [of b] scheds [of b'] free rec b' bm len by (cases "b' = b") simp_all
        show "set (?scheds ! b') = {rs ! i |i. i < length rs \<and> object_ids A' ! i = b'}"
          using insert(2) scheds [of b] scheds [of b'] free rec b' bm len others [OF na] A'(3) by (cases "b' = b") simp_all
      qed
      moreover have "breadth_step rs idx (A, scheds) = Some (A', ?scheds)"
        using idx len unassigned False A'(1) by (simp add: breadth_step_def vec b_def [symmetric] Let_def)
      ultimately show ?thesis using kept [OF A'(3)] by blast
    qed
  qed
qed

lemma breadth_task_ok:
  assumes "breadth_inv rs (A, scheds)" "intervals_ok rs" "length rs < kNotAssigned" "\<forall>i\<in>set profile. i < length rs"
  shows "\<exists>A' scheds'. do_each (breadth_step rs) profile (A, scheds) = Some (A', scheds') \<and> breadth_inv rs (A', scheds')
    \<and> (\<forall>i\<in>set profile. \<not> unassigned A' i) \<and> (\<forall>i. \<not> unassigned A i \<longrightarrow> \<not> unassigned A' i)"
  using assms(1,4)
proof (induction profile arbitrary: A scheds)
  case (Cons i profile)
  obtain A1 scheds1 where s1: "breadth_step rs i (A, scheds) = Some (A1, scheds1)" "breadth_inv rs (A1, scheds1)"
    "\<not> unassigned A1 i" "\<forall>j. \<not> unassigned A j \<longrightarrow> \<not> unassigned A1 j"
    using breadth_step_ok [OF Cons.prems(1) assms(2,3), of i] Cons.prems(2) by auto
  obtain A2 scheds2 where s2: "do_each (breadth_step rs) profile (A1, scheds1) = Some (A2, scheds2)" "breadth_inv rs (A2, scheds2)"
    "\<forall>j\<in>set profile. \<not> unassigned A2 j" "\<forall>j. \<not> unassigned A1 j \<longrightarrow> \<not> unassigned A2 j"
    using Cons.IH [OF s1(2)] Cons.prems(2) by auto
  show ?case using s1 s2 by simp
qed simp

lemma GreedyByBreadthAssignment_ok:
  assumes "intervals_ok rs" "length rs < kNotAssigned"
  shows "\<exists>A. GreedyByBreadthAssignment rs = Some (OkStatus, A) \<and> objects_ok (\<ge>) rs A"
proof -
  obtain ps where ps: "CalculateTaskProfiles rs = Some ps" "length ps = num_tasks rs"
    "\<And>t. t < length ps \<Longrightarrow> set (ps ! t) = {i. i < length rs \<and> first_task (rs ! i) \<le> t \<and> t \<le> last_task (rs ! i)}"
    using CalculateTaskProfiles_ok [OF assms(1)] by auto
  let ?tasks = "tasks_by_breadth rs ps"
  have tasks: "snd ` set ?tasks = {..<length ps}"
    by (force simp: tasks_by_breadth_def Let_def image_image)
  define P where "P = (\<lambda>ys (A, scheds). breadth_inv rs (A, scheds)
    \<and> (\<forall>task\<in>set ys. \<forall>i\<in>set (ps ! snd (task :: nat \<times> nat)). \<not> unassigned A i))"
  let ?f = "\<lambda>task s. do_each (breadth_step rs) (ps ! snd task) s"
  have step: "\<exists>s'. ?f task s = Some s' \<and> P (ys @ [task]) s'" if "?tasks = ys @ task # zs" "P ys s" for ys task zs s
  proof -
    obtain A scheds where s: "s = (A, scheds)" by (cases s)
    have inv: "breadth_inv rs (A, scheds)" "\<forall>task\<in>set ys. \<forall>i\<in>set (ps ! snd task). \<not> unassigned A i"
      using that(2) s by (simp_all add: P_def)
    have "task \<in> set ?tasks" unfolding that(1) by simp
    then have "snd task \<in> snd ` set ?tasks" by (rule imageI)
    then have "snd task < length ps" unfolding tasks by simp
    from breadth_task_ok [OF inv(1) assms, of "ps ! snd task"] ps(3) [OF this] obtain A' scheds' where
      "?f task (A, scheds) = Some (A', scheds')" "breadth_inv rs (A', scheds')" "\<forall>i\<in>set (ps ! snd task). \<not> unassigned A' i"
      "\<forall>i. \<not> unassigned A i \<longrightarrow> \<not> unassigned A' i" by auto
    then show ?thesis using s inv(2) by (auto simp: P_def)
  qed
  have start: "P [] (no_objects (length rs), [])"
    using partly_ok_start [of rs] by (simp add: P_def breadth_inv_def) (simp add: no_objects_def)
  have "\<exists>s'. do_each ?f ?tasks (no_objects (length rs), []) = Some s' \<and> P ?tasks s'"
    by (rule do_each_prefix [of P, OF start step])
  then obtain A scheds where run: "do_each ?f ?tasks (no_objects (length rs), []) = Some (A, scheds)" "P ?tasks (A, scheds)" by auto
  have ok: "partly_ok rs A" using run(2) by (simp add: P_def breadth_inv_def)
  have all: "\<not> unassigned A i" if i: "i < length rs" for i
  proof -
    have "last_task (rs ! i) \<in> snd ` set ?tasks" unfolding tasks ps(2) using num_tasks_above [OF assms(1) i] by simp
    then obtain task where "task \<in> set ?tasks" "snd task = last_task (rs ! i)" by auto
    moreover have "i \<in> set (ps ! last_task (rs ! i))"
      using ps(3) [of "last_task (rs ! i)"] ps(2) num_tasks_above [OF assms(1) i] i intervals_ok_nth [OF assms(1) i] by simp
    ultimately show ?thesis using run(2) by (auto simp: P_def)
  qed
  have "kNotAssigned \<notin> set (object_ids A)"
    using all ok unfolding in_set_conv_nth partly_ok_def by auto
  then show ?thesis
    using ps(1) run(1) partly_ok_done [OF ok] all by (simp add: GreedyByBreadthAssignment_def)
qed

end
