(* ===== verification/Gpu_Flow.thy ===== *)
theory Gpu_Flow
  imports Gpu_Memory
begin

text \<open>
  \<^verbatim>\<open>delegates/gpu/common/memory_management/min_cost_flow_assignment.cc\<close>: objects for the tensors from a flow of
  minimal cost. The vertices are the tensors (the left part), their twins (the right part), the source and the sink.

  Sizes become costs of type \<^verbatim>\<open>int\<close>, and distances of type \<^verbatim>\<open>size_t\<close> and costs are added and compared after the
  usual conversions. Loops that are not over a list are partial functions: \<^term>\<open>None\<close> if they do not end.
\<close>

section \<open>Numbers\<close>

definition int_of_size :: "nat \<Rightarrow> int" where
  "int_of_size n = sint (of_nat n :: 32 word)"

definition size_of_int :: "int \<Rightarrow> nat" where
  "size_of_int i = nat (i mod int size_t_bound)"

abbreviation kInf :: nat where
  "kInf \<equiv> 2 ^ 31 - 1"

section \<open>The graph\<close>

record flow_edge =
  edge_dst :: nat
  edge_cap :: int
  edge_cost :: int

record flow_graph =
  edges :: "flow_edge list"
  edges_from :: "nat list list"

definition AddEdge :: "nat \<Rightarrow> nat \<Rightarrow> int \<Rightarrow> int \<Rightarrow> flow_graph \<Rightarrow> flow_graph option" where
  "AddEdge src dst cap cost G = do {
     from_src \<leftarrow> vec_at (edges_from G) (int src);
     fs \<leftarrow> vec_set (edges_from G) (int src) (from_src @ [length (edges G)]);
     from_dst \<leftarrow> vec_at fs (int dst);
     fs \<leftarrow> vec_set fs (int dst) (from_dst @ [Suc (length (edges G))]);
     Some \<lparr>edges = edges G @ [\<lparr>edge_dst = dst, edge_cap = cap, edge_cost = cost\<rparr>,
         \<lparr>edge_dst = src, edge_cap = 0, edge_cost = - cost\<rparr>],
       edges_from = fs\<rparr> }"

definition IsRightPartVertex :: "nat \<Rightarrow> nat \<Rightarrow> bool" where
  "IsRightPartVertex num_tensors vertex_id \<longleftrightarrow> vertex_id \<ge> num_tensors \<and> vertex_id < 2 * num_tensors"

definition LeftPartTwin :: "nat \<Rightarrow> nat \<Rightarrow> nat" where
  "LeftPartTwin num_tensors vertex_id = vertex_id - num_tensors"

definition RightPartTwin :: "nat \<Rightarrow> nat \<Rightarrow> nat" where
  "RightPartTwin num_tensors vertex_id = vertex_id + num_tensors"

definition add_reuse_edge :: "nat usage_record list \<Rightarrow> nat \<Rightarrow> nat \<Rightarrow> flow_graph \<Rightarrow> flow_graph option" where
  "add_reuse_edge usage_records i record_id G = do {
     rec \<leftarrow> vec_at usage_records (int i);
     old \<leftarrow> vec_at usage_records (int record_id);
     AddEdge record_id (RightPartTwin (length usage_records) i) 1
       (if tensor_size rec > tensor_size old then int_of_size (tensor_size rec - tensor_size old) else 0) G }"

definition build_step ::
  "nat usage_record list \<Rightarrow> nat \<Rightarrow> flow_graph \<times> nat list \<times> (nat \<times> nat) list
   \<Rightarrow> (flow_graph \<times> nat list \<times> (nat \<times> nat) list) option" where
  "build_step usage_records i = (\<lambda>(G, old_record_ids, objects_in_use). do {
     let n = length usage_records;
     rec \<leftarrow> vec_at usage_records (int i);
     (objects_in_use, old_record_ids) \<leftarrow> release (\<lambda>object_id ids. Some (ids @ [object_id])) (first_task rec) objects_in_use old_record_ids;
     G \<leftarrow> AddEdge (2 * n) i 1 0 G;
     G \<leftarrow> AddEdge (RightPartTwin n i) (Suc (2 * n)) 1 0 G;
     G \<leftarrow> AddEdge (2 * n) (RightPartTwin n i) 1 (int_of_size (tensor_size rec)) G;
     G \<leftarrow> do_each (add_reuse_edge usage_records i) old_record_ids G;
     Some (G, old_record_ids, queue_push (last_task rec, i) objects_in_use) })"

definition Build :: "nat usage_record list \<Rightarrow> flow_graph option" where
  "Build usage_records = do {
     (G, _, _) \<leftarrow> do_each (build_step usage_records) [0..<length usage_records]
       (\<lparr>edges = [], edges_from = replicate (2 * length usage_records + 2) []\<rparr>, [], []);
     Some G }"

section \<open>Shortest paths\<close>

record search =
  next_queue :: "nat list"
  last_it_in_queue :: "nat list"
  distance :: "nat list"
  prev_edge :: "nat list"

text \<open>One edge from \<open>v\<close>, in pass \<open>it\<close>.\<close>

definition relax :: "flow_graph \<Rightarrow> nat \<Rightarrow> nat \<Rightarrow> nat \<Rightarrow> search \<Rightarrow> search option" where
  "relax G it v edge_id s = do {
     edge \<leftarrow> vec_at (edges G) (int edge_id);
     if \<not> edge_cap edge > 0 then Some s
     else do {
       let u = edge_dst edge;
       dv \<leftarrow> vec_at (distance s) (int v);
       du \<leftarrow> vec_at (distance s) (int u);
       let new_dist = size_of_int (int_of_size (sz_add dv (size_of_int (edge_cost edge))));
       if \<not> new_dist < du then Some s
       else do {
         ds \<leftarrow> vec_set (distance s) (int u) new_dist;
         prev \<leftarrow> vec_set (prev_edge s) (int u) edge_id;
         last_it \<leftarrow> vec_at (last_it_in_queue s) (int u);
         let s = s\<lparr>distance := ds, prev_edge := prev\<rparr>;
         if last_it \<noteq> it
         then Some (s\<lparr>next_queue := next_queue s @ [u], last_it_in_queue := (last_it_in_queue s)[u := it]\<rparr>)
         else Some s } } }"

definition visit :: "flow_graph \<Rightarrow> nat \<Rightarrow> nat \<Rightarrow> search \<Rightarrow> search option" where
  "visit G it v s = do {
     ids \<leftarrow> vec_at (edges_from G) (int v);
     do_each (relax G it v) ids s }"

partial_function (option) search_paths :: "flow_graph \<Rightarrow> nat \<Rightarrow> nat list \<Rightarrow> search \<Rightarrow> search option" where
  "search_paths G it cur_queue s =
     (if cur_queue = [] then Some s
      else do {
        s \<leftarrow> do_each (visit G (Suc it)) cur_queue s;
        search_paths G (Suc it) (next_queue s) (s\<lparr>next_queue := []\<rparr>) })"

text \<open>The reversed edge has the other index of the pair.\<close>

definition twin_edge :: "nat \<Rightarrow> nat" where
  "twin_edge e = (if even e then Suc e else e - 1)"

partial_function (option) augment :: "nat list \<Rightarrow> nat \<Rightarrow> nat \<Rightarrow> flow_edge list \<Rightarrow> flow_edge list option" where
  "augment prev source v es =
     (if v = source then Some es
      else do {
        e \<leftarrow> vec_at prev (int v);
        edge \<leftarrow> vec_at es (int e);
        es \<leftarrow> vec_set es (int e) (edge\<lparr>edge_cap := edge_cap edge - 1\<rparr>);
        rev_edge \<leftarrow> vec_at es (int (twin_edge e));
        es \<leftarrow> vec_set es (int (twin_edge e)) (rev_edge\<lparr>edge_cap := edge_cap rev_edge + 1\<rparr>);
        augment prev source (edge_dst rev_edge) es })"

partial_function (option) Solve :: "nat \<Rightarrow> flow_graph \<Rightarrow> nat list \<Rightarrow> flow_graph option" where
  "Solve num_tensors G prev = (let source = 2 * num_tensors; sink = Suc source in do {
     s \<leftarrow> search_paths G 1 [source] \<lparr>next_queue = [], last_it_in_queue = (replicate (Suc sink) 0)[source := 1],
       distance = (replicate (Suc sink) kInf)[source := 0], prev_edge = prev\<rparr>;
     d \<leftarrow> vec_at (distance s) (int sink);
     if d = kInf then Some G
     else do {
       es \<leftarrow> augment (prev_edge s) source sink (edges G);
       Solve num_tensors (G\<lparr>edges := es\<rparr>) (prev_edge s) } })"

declare search_paths.simps [code] augment.simps [code] Solve.simps [code]

section \<open>The assignment\<close>

text \<open>
  The tensor and those that follow it in its object. Each call is for a tensor that had no object, so that
  \<open>fuel\<close> is enough if it is more than the number of tensors.
\<close>

primrec AssignTensorsToNewSharedObject ::
  "nat \<Rightarrow> nat usage_record list \<Rightarrow> flow_graph \<Rightarrow> nat \<Rightarrow> nat \<Rightarrow> nat list \<times> bool list \<Rightarrow> (nat \<times> nat list \<times> bool list) option" where
  "AssignTensorsToNewSharedObject 0 usage_records G object_id tensor_id s = None"
| "AssignTensorsToNewSharedObject (Suc fuel) usage_records G object_id tensor_id s = do {
     rec \<leftarrow> vec_at usage_records (int tensor_id);
     is_assigned \<leftarrow> vec_set (snd s) (int tensor_id) True;
     ids \<leftarrow> vec_set (fst s) (int tensor_id) object_id;
     es \<leftarrow> vec_at (edges_from G) (int tensor_id);
     do_each (\<lambda>edge_id (cost, ids, is_assigned). do {
         edge \<leftarrow> vec_at (edges G) (int edge_id);
         let left_twin = LeftPartTwin (length usage_records) (edge_dst edge);
         if \<not> (edge_cap edge = 0 \<and> IsRightPartVertex (length usage_records) (edge_dst edge)) then Some (cost, ids, is_assigned)
         else do {
           taken \<leftarrow> vec_at is_assigned (int left_twin);
           if taken then Some (cost, ids, is_assigned)
           else do {
             (c, ids, is_assigned) \<leftarrow> AssignTensorsToNewSharedObject fuel usage_records G object_id left_twin (ids, is_assigned);
             Some (max cost c, ids, is_assigned) } } })
       es (tensor_size rec, ids, is_assigned) }"

definition assign_from_source ::
  "nat usage_record list \<Rightarrow> flow_graph \<Rightarrow> nat \<Rightarrow> nat objects_assignment \<times> bool list \<Rightarrow> (nat objects_assignment \<times> bool list) option" where
  "assign_from_source usage_records G edge_id = (\<lambda>(A, is_assigned). do {
     let n = length usage_records;
     edge \<leftarrow> vec_at (edges G) (int edge_id);
     if edge_cap edge = 0 \<and> IsRightPartVertex n (edge_dst edge)
     then do {
       (cost, ids, is_assigned) \<leftarrow> AssignTensorsToNewSharedObject (Suc n) usage_records G (length (object_sizes A))
         (LeftPartTwin n (edge_dst edge)) (object_ids A, is_assigned);
       Some (\<lparr>object_ids = ids, object_sizes = object_sizes A @ [cost]\<rparr>, is_assigned) }
     else Some (A, is_assigned) })"

definition CalculateAssignment :: "nat usage_record list \<Rightarrow> flow_graph \<Rightarrow> nat objects_assignment option" where
  "CalculateAssignment usage_records G = do {
     es \<leftarrow> vec_at (edges_from G) (int (2 * length usage_records));
     (A, _) \<leftarrow> do_each (assign_from_source usage_records G) es
       (no_objects (length usage_records), replicate (length usage_records) False);
     Some A }"

definition MinCostFlowAssignment :: "nat usage_record list \<Rightarrow> nat objects_assignment assigned" where
  "MinCostFlowAssignment usage_records = do {
     G \<leftarrow> Build usage_records;
     G \<leftarrow> Solve (length usage_records) G (replicate (2 * length usage_records + 2) 0);
     A \<leftarrow> CalculateAssignment usage_records G;
     Some (OkStatus, A) }"

end
