(* ===== verification/Gpu_Strategies.thy ===== *)
theory Gpu_Strategies
  imports Gpu_Flow Gpu_Offsets Gpu_Objects
begin

text \<open>
  The choice of a strategy, \<^verbatim>\<open>delegates/gpu/common/memory_management.{h,cc}\<close>. What the client of a strategy relies
  on is the locale \<open>object_strategy\<close>, and it is interpreted on every strategy but that of the flow, for which only
  the definitions are given. The properties are about the functions of the interface.
\<close>

section \<open>The interface\<close>

datatype memory_strategy =
  NAIVE | EQUALITY | GREEDY_IN_ORDER | GREEDY_BY_BREADTH | GREEDY_BY_SIZE | GREEDY_BEST | MINCOSTFLOW

definition TotalSize :: "nat objects_assignment \<Rightarrow> nat" where
  "TotalSize assignment = foldl sz_add 0 (object_sizes assignment)"

definition BestGreedy :: "nat usage_record list \<Rightarrow> nat objects_assignment assigned" where
  "BestGreedy usage_records = do {
     (st, assignment) \<leftarrow> GreedyBySizeDistPriorityAssignment usage_records;
     if st \<noteq> OkStatus then Some (st, assignment)
     else do {
       (st, by_breadth) \<leftarrow> GreedyByBreadthAssignment usage_records;
       Some (OkStatus, if st = OkStatus \<and> TotalSize by_breadth < TotalSize assignment then by_breadth else assignment) } }"

abbreviation unsupported :: "'s objects_assignment assigned" where
  "unsupported \<equiv> Some (InternalError ''MemoryStrategy is not supported with current tensor size type.'',
     \<lparr>object_ids = [], object_sizes = []\<rparr>)"

text \<open>The template, and its specialisations for \<^verbatim>\<open>size_t\<close>, \<^verbatim>\<open>BHWC\<close>, \<^verbatim>\<open>uint2\<close> and \<^verbatim>\<open>uint3\<close>.\<close>

definition AssignObjectsToTensors :: "'s usage_record list \<Rightarrow> memory_strategy \<Rightarrow> 's objects_assignment assigned" where
  "AssignObjectsToTensors usage_records strategy = (case strategy of
     NAIVE \<Rightarrow> NaiveAssignment usage_records
   | EQUALITY \<Rightarrow> EqualityAssignment usage_records
   | _ \<Rightarrow> unsupported)"

definition AssignObjectsToTensors_size_t ::
  "nat usage_record list \<Rightarrow> memory_strategy \<Rightarrow> nat list list option \<Rightarrow> nat objects_assignment assigned" where
  "AssignObjectsToTensors_size_t usage_records strategy reallocation_graph = (case strategy of
     NAIVE \<Rightarrow> NaiveAssignment usage_records
   | EQUALITY \<Rightarrow> EqualityAssignmentWithHash usage_records
   | GREEDY_IN_ORDER \<Rightarrow> GreedyInOrderAssignment usage_records reallocation_graph
   | GREEDY_BY_BREADTH \<Rightarrow> GreedyByBreadthAssignment usage_records
   | GREEDY_BY_SIZE \<Rightarrow> GreedyBySizeDistPriorityAssignment usage_records
   | GREEDY_BEST \<Rightarrow> BestGreedy usage_records
   | MINCOSTFLOW \<Rightarrow> MinCostFlowAssignment usage_records)"

type_synonym bhwc = "32 word \<times> 32 word \<times> 32 word \<times> 32 word"

definition AssignObjectsToTensors_BHWC :: "bhwc usage_record list \<Rightarrow> memory_strategy \<Rightarrow> bhwc objects_assignment assigned" where
  "AssignObjectsToTensors_BHWC usage_records strategy = (case strategy of
     NAIVE \<Rightarrow> NaiveAssignment usage_records
   | EQUALITY \<Rightarrow> EqualityAssignmentWithHash usage_records
   | _ \<Rightarrow> unsupported)"

definition AssignObjectsToTensors_uint2 ::
  "(32 word \<times> 32 word) usage_record list \<Rightarrow> memory_strategy \<Rightarrow> (32 word \<times> 32 word) objects_assignment assigned" where
  "AssignObjectsToTensors_uint2 usage_records strategy = (case strategy of
     NAIVE \<Rightarrow> NaiveAssignment usage_records
   | EQUALITY \<Rightarrow> EqualityAssignment usage_records
   | GREEDY_IN_ORDER \<Rightarrow>
       GreedyInOrderAssignmentMultidimensional IsCoveringObject_uint2 AbsDiffInElements_uint2 usage_records
   | _ \<Rightarrow> unsupported)"

definition AssignObjectsToTensors_uint3 ::
  "(32 word \<times> 32 word \<times> 32 word) usage_record list \<Rightarrow> memory_strategy
   \<Rightarrow> (32 word \<times> 32 word \<times> 32 word) objects_assignment assigned" where
  "AssignObjectsToTensors_uint3 usage_records strategy = (case strategy of
     NAIVE \<Rightarrow> NaiveAssignment usage_records
   | EQUALITY \<Rightarrow> EqualityAssignment usage_records
   | GREEDY_IN_ORDER \<Rightarrow>
       GreedyInOrderAssignmentMultidimensional IsCoveringObject_uint3 AbsDiffInElements_uint3 usage_records
   | _ \<Rightarrow> unsupported)"

definition AssignOffsetsToTensors ::
  "nat usage_record list \<Rightarrow> memory_strategy \<Rightarrow> nat list list option \<Rightarrow> offsets_assignment assigned" where
  "AssignOffsetsToTensors usage_records strategy reallocation_graph =
     (if strategy = GREEDY_BY_SIZE then GreedyBySizeAssignment usage_records
      else do {
        (st, objects) \<leftarrow> AssignObjectsToTensors_size_t usage_records strategy reallocation_graph;
        if st \<noteq> OkStatus then Some (st, \<lparr>offsets = [], total_size = 0\<rparr>)
        else do { F \<leftarrow> ObjectsToOffsets objects; Some (OkStatus, F) } })"

section \<open>What a client relies on\<close>

locale object_strategy =
  fixes assign :: "'s usage_record list \<Rightarrow> 's objects_assignment assigned"
    and covers :: "'s \<Rightarrow> 's \<Rightarrow> bool"
    and admissible :: "'s usage_record list \<Rightarrow> bool"
  assumes sound: "admissible rs \<Longrightarrow> \<exists>A. assign rs = Some (OkStatus, A) \<and> objects_ok covers rs A"
begin

lemma returns: "admissible rs \<Longrightarrow> assign rs = Some (st, A) \<Longrightarrow> st = OkStatus \<and> objects_ok covers rs A"
  using sound [of rs] by auto

lemma different_objects:
  assumes "admissible rs" "assign rs = Some (st, A)" "j < length rs" "k < length rs" "j \<noteq> k" "intersects (rs ! j) (rs ! k)"
  shows "object_ids A ! j \<noteq> object_ids A ! k"
proof -
  have "\<forall>k<length rs. \<forall>j<k. intersects (rs ! j) (rs ! k) \<longrightarrow> object_ids A ! j \<noteq> object_ids A ! k"
    using returns [OF assms(1,2)] by (simp add: objects_ok_def)
  then show ?thesis using assms(3-6) intersects_sym nat_neq_iff by metis
qed

end

text \<open>If sizes are numbers, the objects can be put into one block.\<close>

locale byte_strategy = object_strategy assign "(\<ge>)" admissible
  for assign :: "nat usage_record list \<Rightarrow> nat objects_assignment assigned" and admissible
begin

lemma to_offsets:
  assumes "admissible rs" "sum_list (map tensor_size rs) < kNotAssigned"
  shows "\<exists>A F. assign rs = Some (OkStatus, A) \<and> ObjectsToOffsets A = Some F \<and> offsets_ok rs F
    \<and> total_size F \<le> sum_list (map tensor_size rs)"
proof -
  obtain A where A: "assign rs = Some (OkStatus, A)" "objects_ok (\<ge>) rs A" using sound [OF assms(1)] by blast
  have "sum_list (object_sizes A) \<le> sum_list (map tensor_size rs)" by (rule objects_ok_sum [OF A(2)])
  then have "sum_list (object_sizes A) \<le> sum_list (map tensor_size rs)" "sum_list (object_sizes A) < size_t_bound"
    using assms(2) by simp_all
  then show ?thesis using ObjectsToOffsets_ok [OF A(2)] A(1) by auto
qed

end

definition ready_records :: "'s usage_record list \<Rightarrow> bool" where
  "ready_records rs \<longleftrightarrow> in_order rs \<and> intervals_ok rs \<and> length rs < kNotAssigned"

interpretation naive: byte_strategy NaiveAssignment "\<lambda>_. True"
  by unfold_locales (auto intro: NaiveAssignment_ok)

interpretation equality: byte_strategy EqualityAssignmentWithHash in_order
proof
  fix rs :: "nat usage_record list"
  assume "in_order rs"
  then obtain A where "EqualityAssignmentWithHash rs = Some (OkStatus, A)" "objects_ok (=) rs A"
    using EqualityAssignmentWithHash_ok by blast
  then show "\<exists>A. EqualityAssignmentWithHash rs = Some (OkStatus, A) \<and> objects_ok (\<ge>) rs A"
    by (auto simp: objects_ok_def)
qed

interpretation in_order: byte_strategy "\<lambda>rs. GreedyInOrderAssignment rs graph"
    "\<lambda>rs. in_order rs \<and> (\<forall>g. graph = Some g \<longrightarrow> length g = length rs)" for graph
  by unfold_locales (blast intro: GreedyInOrderAssignment_ok)

interpretation by_breadth: byte_strategy GreedyByBreadthAssignment "\<lambda>rs. intervals_ok rs \<and> length rs < kNotAssigned"
  by unfold_locales (blast intro: GreedyByBreadthAssignment_ok)

interpretation by_distance: byte_strategy GreedyBySizeDistPriorityAssignment "\<lambda>rs. intervals_ok rs \<and> length rs < kNotAssigned"
  by unfold_locales (blast intro: GreedyBySizeDistPriorityAssignment_ok)

interpretation uint2: object_strategy "GreedyInOrderAssignmentMultidimensional IsCoveringObject_uint2 AbsDiffInElements_uint2"
    IsCoveringObject_uint2 in_order
proof
  fix rs :: "(32 word \<times> 32 word) usage_record list"
  assume "in_order rs"
  moreover have "IsCoveringObject_uint2 s s" for s by (simp add: IsCoveringObject_uint2_def)
  ultimately show "\<exists>A. GreedyInOrderAssignmentMultidimensional IsCoveringObject_uint2 AbsDiffInElements_uint2 rs = Some (OkStatus, A)
      \<and> objects_ok IsCoveringObject_uint2 rs A"
    by (rule GreedyInOrderAssignmentMultidimensional_ok)
qed

interpretation uint3: object_strategy "GreedyInOrderAssignmentMultidimensional IsCoveringObject_uint3 AbsDiffInElements_uint3"
    IsCoveringObject_uint3 in_order
proof
  fix rs :: "(32 word \<times> 32 word \<times> 32 word) usage_record list"
  assume "in_order rs"
  moreover have "IsCoveringObject_uint3 s s" for s by (cases s) (simp add: IsCoveringObject_uint3_def)
  ultimately show "\<exists>A. GreedyInOrderAssignmentMultidimensional IsCoveringObject_uint3 AbsDiffInElements_uint3 rs = Some (OkStatus, A)
      \<and> objects_ok IsCoveringObject_uint3 rs A"
    by (rule GreedyInOrderAssignmentMultidimensional_ok)
qed

text \<open>The best of two has the promise of both.\<close>

lemma BestGreedy_cases:
  assumes "intervals_ok rs" "length rs < kNotAssigned"
  shows "\<exists>A B. GreedyBySizeDistPriorityAssignment rs = Some (OkStatus, A) \<and> GreedyByBreadthAssignment rs = Some (OkStatus, B)
    \<and> objects_ok (\<ge>) rs A \<and> objects_ok (\<ge>) rs B
    \<and> BestGreedy rs = Some (OkStatus, if TotalSize B < TotalSize A then B else A)"
  using by_distance.sound [of rs] by_breadth.sound [of rs] assms by (auto simp: BestGreedy_def)

interpretation best: byte_strategy BestGreedy "\<lambda>rs. intervals_ok rs \<and> length rs < kNotAssigned"
  by unfold_locales (use BestGreedy_cases in fastforce)

section \<open>Properties\<close>

lemma TotalSize_ok:
  assumes "objects_ok covers rs A" "sum_list (map tensor_size rs) < size_t_bound"
  shows "TotalSize A = sum_list (object_sizes A)" "TotalSize A \<le> sum_list (map tensor_size rs)"
proof -
  have small: "sum_list (object_sizes A) < size_t_bound" using objects_ok_sum [OF assms(1)] assms(2) by linarith
  have "n + sum_list xs < size_t_bound \<Longrightarrow> foldl sz_add n xs = n + sum_list xs" for n xs
    by (induction xs arbitrary: n) (auto simp: sz_add_def)
  from this [of 0 "object_sizes A"] show "TotalSize A = sum_list (object_sizes A)" using small by (simp add: TotalSize_def)
  then show "TotalSize A \<le> sum_list (map tensor_size rs)" using objects_ok_sum [OF assms(1)] by simp
qed

definition sample_records :: "nat usage_record list" where
  "sample_records = map (\<lambda>(sz, a, b). \<lparr>tensor_size = sz, first_task = a, last_task = b\<rparr>)
     [(32, 0, 1), (32, 1, 4), (8, 2, 5), (16, 3, 5), (8, 4, 5), (64, 5, 7), (8, 6, 8), (8, 7, 8), (16, 8, 9)]"

lemma sample_records_ready: "ready_records sample_records" "sum_list (map tensor_size sample_records) = 192"
  by (simp_all add: ready_records_def in_order_def intervals_ok_def sample_records_def)

text \<open>
  C36: Every strategy for sizes in bytes, but that of the flow, succeeds: for usage records in the order of their first
  tasks, with non-empty intervals, it gives each tensor an object of at least its size, and different objects
  to tensors that are in use in the same task; each object is as large as one of its tensors, so that the objects together
  are no larger than the tensors. A reallocation graph has a vertex for each tensor.
\<close>

theorem strategies_assign_objects:
  assumes "strategy \<noteq> MINCOSTFLOW" "ready_records rs" "\<forall>g. graph = Some g \<longrightarrow> length g = length rs"
  shows "\<exists>A. AssignObjectsToTensors_size_t rs strategy graph = Some (OkStatus, A) \<and> objects_ok (\<ge>) rs A
    \<and> sum_list (object_sizes A) \<le> sum_list (map tensor_size rs)"
proof -
  have "\<exists>A. AssignObjectsToTensors_size_t rs strategy graph = Some (OkStatus, A) \<and> objects_ok (\<ge>) rs A"
    using assms naive.sound equality.sound in_order.sound [of rs graph] by_breadth.sound by_distance.sound best.sound
    unfolding ready_records_def AssignObjectsToTensors_size_t_def by (cases strategy) simp_all
  then show ?thesis using objects_ok_sum by blast
qed

theorem strategies_assign_objects_witness:
  "\<exists>A. AssignObjectsToTensors_size_t sample_records GREEDY_BEST None = Some (OkStatus, A) \<and> objects_ok (\<ge>) sample_records A
    \<and> sum_list (object_sizes A) \<le> sum_list (map tensor_size sample_records)"
  by (rule strategies_assign_objects) (simp_all add: sample_records_ready)

text \<open>
  C37: With every strategy but that of the flow, tensors that are in use in the same task get disjoint ranges of one
  block, all within its size, and the block is no larger than the tensors one by one, if the sizes of the tensors sum up
  to less than the largest \<^verbatim>\<open>size_t\<close> and a reallocation graph has a vertex for each tensor. \<^verbatim>\<open>EQUALITY\<close> and
  \<^verbatim>\<open>GREEDY_IN_ORDER\<close> need the usage records in the order of their first tasks (see
  \<open>greedy_in_order_needs_the_order\<close>); \<^verbatim>\<open>GREEDY_BY_BREADTH\<close> and \<^verbatim>\<open>GREEDY_BEST\<close>, which the OpenCL delegate calls with
  records in the order of their ids, take any order but need intervals that are not empty and end before the largest
  \<^verbatim>\<open>size_t\<close>; the others take any records.
\<close>

theorem strategies_assign_offsets:
  assumes "strategy \<noteq> MINCOSTFLOW"
    "strategy \<in> {EQUALITY, GREEDY_IN_ORDER} \<longrightarrow> in_order rs"
    "strategy \<in> {GREEDY_BY_BREADTH, GREEDY_BEST} \<longrightarrow> intervals_ok rs \<and> length rs < kNotAssigned"
    "\<forall>g. graph = Some g \<longrightarrow> length g = length rs"
    "sum_list (map tensor_size rs) < kNotAssigned"
  shows "\<exists>F. AssignOffsetsToTensors rs strategy graph = Some (OkStatus, F) \<and> offsets_ok rs F
    \<and> total_size F \<le> sum_list (map tensor_size rs)"
proof (cases "strategy = GREEDY_BY_SIZE")
  case True
  then show ?thesis using GreedyBySizeAssignment_ok [OF assms(5)] by (simp add: AssignOffsetsToTensors_def)
next
  case False
  have "\<exists>A F. AssignObjectsToTensors_size_t rs strategy graph = Some (OkStatus, A) \<and> ObjectsToOffsets A = Some F
      \<and> offsets_ok rs F \<and> total_size F \<le> sum_list (map tensor_size rs)"
    using assms False naive.to_offsets equality.to_offsets in_order.to_offsets [of rs graph] by_breadth.to_offsets
      best.to_offsets
    unfolding AssignObjectsToTensors_size_t_def by (cases strategy) simp_all
  then show ?thesis using False by (auto simp: AssignOffsetsToTensors_def)
qed

text \<open>The records of the sample in another order, as a caller may have them that goes by ids.\<close>

definition shuffled_records :: "nat usage_record list" where
  "shuffled_records = rev sample_records"

lemma shuffled_records_ok: "intervals_ok shuffled_records" "length shuffled_records = 9" "\<not> in_order shuffled_records"
  "sum_list (map tensor_size shuffled_records) = 192"
  by (simp_all add: in_order_def intervals_ok_def shuffled_records_def sample_records_def)

theorem strategies_assign_offsets_witness:
  "\<exists>F. AssignOffsetsToTensors shuffled_records GREEDY_BEST None = Some (OkStatus, F) \<and> offsets_ok shuffled_records F
    \<and> total_size F \<le> sum_list (map tensor_size shuffled_records)"
  by (rule strategies_assign_offsets) (simp_all add: shuffled_records_ok)

text \<open>
  \<^verbatim>\<open>BestGreedy\<close> gives objects that together are no larger than those of either of the two strategies it
  tries, if the sizes of the tensors sum up to a \<^verbatim>\<open>size_t\<close>.
\<close>

theorem best_greedy_is_best:
  assumes "ready_records rs" "sum_list (map tensor_size rs) < size_t_bound"
  shows "\<exists>A B C. GreedyBySizeDistPriorityAssignment rs = Some (OkStatus, A) \<and> GreedyByBreadthAssignment rs = Some (OkStatus, B)
    \<and> BestGreedy rs = Some (OkStatus, C) \<and> objects_ok (\<ge>) rs C
    \<and> sum_list (object_sizes C) = min (sum_list (object_sizes A)) (sum_list (object_sizes B))"
proof -
  obtain A B where AB: "GreedyBySizeDistPriorityAssignment rs = Some (OkStatus, A)" "GreedyByBreadthAssignment rs = Some (OkStatus, B)"
    "objects_ok (\<ge>) rs A" "objects_ok (\<ge>) rs B"
    "BestGreedy rs = Some (OkStatus, if TotalSize B < TotalSize A then B else A)"
    using BestGreedy_cases [of rs] assms(1) by (auto simp: ready_records_def)
  then show ?thesis
    using TotalSize_ok(1) [OF AB(3) assms(2)] TotalSize_ok(1) [OF AB(4) assms(2)] by (simp add: min_def)
qed

theorem best_greedy_is_best_witness:
  "\<exists>A B C. GreedyBySizeDistPriorityAssignment sample_records = Some (OkStatus, A)
    \<and> GreedyByBreadthAssignment sample_records = Some (OkStatus, B)
    \<and> BestGreedy sample_records = Some (OkStatus, C) \<and> objects_ok (\<ge>) sample_records C
    \<and> sum_list (object_sizes C) = min (sum_list (object_sizes A)) (sum_list (object_sizes B))"
  by (rule best_greedy_is_best) (simp_all add: sample_records_ready)

text \<open>
  C40: For sizes in two or three dimensions, each tensor gets an object that covers it in every dimension, and tensors
  in use in the same task get different objects, with the three strategies that are supported; every other one is
  refused. \<^verbatim>\<open>GREEDY_IN_ORDER\<close> needs the usage records in the order of their first tasks, and \<^verbatim>\<open>EQUALITY\<close> needs
  intervals that are not empty: for records in another order \<^verbatim>\<open>GREEDY_IN_ORDER\<close> gives tensors in use together the same
  object (\<open>multidimensional_needs_the_order\<close>).
\<close>

theorem multidimensional_objects:
  assumes "strategy = GREEDY_IN_ORDER \<longrightarrow> in_order rs2 \<and> in_order rs3"
    "strategy = EQUALITY \<longrightarrow> (\<forall>r\<in>set rs2. first_task r \<le> last_task r) \<and> (\<forall>r\<in>set rs3. first_task r \<le> last_task r)"
  shows "if strategy \<in> {NAIVE, EQUALITY, GREEDY_IN_ORDER}
    then (\<exists>A. AssignObjectsToTensors_uint2 rs2 strategy = Some (OkStatus, A) \<and> objects_ok IsCoveringObject_uint2 rs2 A)
      \<and> (\<exists>A. AssignObjectsToTensors_uint3 rs3 strategy = Some (OkStatus, A) \<and> objects_ok IsCoveringObject_uint3 rs3 A)
    else AssignObjectsToTensors_uint2 rs2 strategy = unsupported \<and> AssignObjectsToTensors_uint3 rs3 strategy = unsupported"
proof -
  have refl: "IsCoveringObject_uint2 s s" "IsCoveringObject_uint3 t t" for s t
    by (auto simp: IsCoveringObject_uint2_def IsCoveringObject_uint3_def split: prod.splits)
  have equal: "objects_ok (=) rs A \<Longrightarrow> objects_ok covers rs A" if "\<And>s. covers s s" for covers and rs :: "'x usage_record list" and A
    using that by (auto simp: objects_ok_def)
  have all2: "\<forall>r\<in>set rs2. IsCoveringObject_uint2 (tensor_size r) (tensor_size r)"
    "\<forall>r\<in>set rs3. IsCoveringObject_uint3 (tensor_size r) (tensor_size r)" using refl by blast+
  have A2: "\<exists>A. EqualityAssignment rs2 = Some (OkStatus, A) \<and> objects_ok IsCoveringObject_uint2 rs2 A"
    if "strategy = EQUALITY"
    using EqualityAssignment_ok [of rs2] equal [of IsCoveringObject_uint2] refl(1) assms(2) that by blast
  have A3: "\<exists>A. EqualityAssignment rs3 = Some (OkStatus, A) \<and> objects_ok IsCoveringObject_uint3 rs3 A"
    if "strategy = EQUALITY"
    using EqualityAssignment_ok [of rs3] equal [of IsCoveringObject_uint3] refl(2) assms(2) that by blast
  show ?thesis
    using NaiveAssignment_ok [of rs2 IsCoveringObject_uint2] NaiveAssignment_ok [of rs3 IsCoveringObject_uint3] all2
      uint2.sound [of rs2] uint3.sound [of rs3] A2 A3 assms(1)
    by (cases strategy) (auto simp: AssignObjectsToTensors_uint2_def AssignObjectsToTensors_uint3_def)
qed

theorem multidimensional_objects_witness:
  "(\<exists>A. AssignObjectsToTensors_uint2 [\<lparr>tensor_size = (2, 8), first_task = 0, last_task = 1\<rparr>,
        \<lparr>tensor_size = (4, 4), first_task = 1, last_task = 2\<rparr>] GREEDY_IN_ORDER = Some (OkStatus, A)
      \<and> objects_ok IsCoveringObject_uint2 [\<lparr>tensor_size = (2, 8), first_task = 0, last_task = 1\<rparr>,
        \<lparr>tensor_size = (4, 4), first_task = 1, last_task = 2\<rparr>] A)
    \<and> (\<exists>A. AssignObjectsToTensors_uint3 [\<lparr>tensor_size = (2, 8, 1), first_task = 0, last_task = 1\<rparr>] EQUALITY = Some (OkStatus, A)
      \<and> objects_ok IsCoveringObject_uint3 [\<lparr>tensor_size = (2, 8, 1), first_task = 0, last_task = 1\<rparr>] A)"
  using multidimensional_objects [of GREEDY_IN_ORDER "[\<lparr>tensor_size = (2, 8), first_task = 0, last_task = 1\<rparr>,
        \<lparr>tensor_size = (4, 4), first_task = 1, last_task = 2\<rparr>]" "[]"]
    multidimensional_objects [of EQUALITY "[]" "[\<lparr>tensor_size = (2, 8, 1), first_task = 0, last_task = 1\<rparr>]"]
  by (simp add: in_order_def)

text \<open>
  The order matters: \<^verbatim>\<open>GREEDY_IN_ORDER\<close> takes the usage records as they come, and for records that are
  not in the order of their first tasks it returns the same object for two tensors that are in use in the same task.
\<close>

definition unordered_records :: "nat usage_record list" where
  "unordered_records = map (\<lambda>(sz, a, b). \<lparr>tensor_size = sz, first_task = a, last_task = b\<rparr>)
     [(4, 0, 1), (8, 0, 2), (8, 5, 6), (4, 0, 1)]"

theorem greedy_in_order_needs_the_order:
  "AssignObjectsToTensors_size_t unordered_records GREEDY_IN_ORDER None
      = Some (OkStatus, \<lparr>object_ids = [0, 1, 1, 0], object_sizes = [4, 8]\<rparr>)
    \<and> intersects (unordered_records ! 0) (unordered_records ! 3)"
  by (simp add: AssignObjectsToTensors_size_t_def GreedyInOrderAssignment_def unordered_records_def no_objects_def
      greedy_in_order_step_def assign_new_def assign_to_def best_in_pool_def closest_size_def pool_before_def
      queue_push_def queue_before_def add_to_pool_def vec_at_def vec_set_def in_bounds_def intersects_def Let_def upt_rec)

definition unordered_textures :: "(32 word \<times> 32 word) usage_record list" where
  "unordered_textures = map (\<lambda>(sz, a, b). \<lparr>tensor_size = (sz, 1), first_task = a, last_task = b\<rparr>)
     [(4, 0, 1), (8, 0, 2), (8, 5, 6), (4, 0, 1)]"

theorem multidimensional_needs_the_order:
  "AssignObjectsToTensors_uint2 unordered_textures GREEDY_IN_ORDER
      = Some (OkStatus, \<lparr>object_ids = [0, 1, 1, 0], object_sizes = [(4, 1), (8, 1)]\<rparr>)
    \<and> intersects (unordered_textures ! 0) (unordered_textures ! 3)"
  by (simp add: AssignObjectsToTensors_uint2_def GreedyInOrderAssignmentMultidimensional_def unordered_textures_def
      no_objects_def multidimensional_step_def closest_covering_def IsCoveringObject_uint2_def AbsDiffInElements_uint2_def
      assign_new_def assign_to_def queue_push_def queue_before_def vec_at_def in_bounds_def intersects_def Let_def upt_rec)

end
