(* ===== verification/Spec2Isabelle.thy ===== *)
theory Spec2Isabelle
  imports Prelude Tensors Graph_Info Memory_Arena Arena_Planner Planner_Placement Graph_Partition
    Subgraph Subgraph_Safety Subgraph_Behaviour String_Buffer
    Model_Schema Op_Resolver Op_Version Runtime_Version Interpreter Interpreter_Builder
    Greedy_Planner Memory_Planners Micro_Memory Micro_Planning Micro_Lifetimes
    Micro_Setup Micro_Resolver Micro_Interpreter Micro_Context Micro_Run Micro_Allocated Micro_Correctness
    Gpu_Memory Gpu_Realloc Gpu_Greedy Gpu_Offsets Gpu_Objects Gpu_Flow Gpu_Strategies
begin

text \<open>
  A verification library for the TensorFlow Lite run-time of this repository. File names below are
  relative to \<^verbatim>\<open>src/tensorflow/lite\<close>.

  \<^bold>\<open>The program.\<close> A model is a flatbuffer: operator codes, subgraphs of tensors and operators, and
  buffers. \<^verbatim>\<open>InterpreterBuilder\<close> matches operator codes with kernels through an \<^verbatim>\<open>OpResolver\<close> and fills an
  \<^verbatim>\<open>Interpreter\<close>, which owns one \<^verbatim>\<open>Subgraph\<close> for each subgraph of the model. A client of the interpreter
  resizes inputs, calls \<^verbatim>\<open>AllocateTensors\<close> and then \<^verbatim>\<open>Invoke\<close> as often as it likes. To place the tensors, a
  subgraph prepares its nodes in the order of the execution plan and asks its \<^verbatim>\<open>ArenaPlanner\<close>, which
  computes the lifetime of each tensor and lets two \<^verbatim>\<open>SimpleMemoryArena\<close>s find room. A delegate replaces
  groups of nodes by nodes of its own; \<^verbatim>\<open>PartitionGraphIntoIndependentNodeSubsets\<close> forms the groups.
  The converter writes into a model the version of each operator and the oldest run-time that has them.
  TensorFlow Lite Micro is a second run-time, for microcontrollers: it has one arena for everything,
  persistent blocks at its tail and, planned once for each model, tensors and scratch buffers in its head.

  \<^bold>\<open>Conventions.\<close> A C++ statement on a state \<open>'s\<close> is a function into \<open>'s result\<close>: \<^term>\<open>None\<close> is undefined
  behaviour (an index outside a vector, a null pointer that is followed), \<^term>\<open>Some (st, s)\<close> the status
  that is returned and the state that is left, also when the status is an error. What the code calls and
  this repository does not hold, or holds as one of many interchangeable parts (kernels, delegates,
  allocators, the flatbuffers library, absl), is an argument: the records \<open>env\<close>, \<open>platform\<close> and \<open>absl\<close>. The
  hypotheses on them are named predicates: \<open>respectful\<close> (a kernel leaves the indices a subgraph stores
  valid), \<open>discreet\<close> (it leaves the bookkeeping of the subgraph alone), \<open>marking\<close> (a ghost mark tells
  which nodes were prepared), \<open>init_only_adds_tensors\<close>, \<open>frees_respectfully\<close>, \<open>real_kernels\<close>, \<open>well_parsed\<close>.

  \<^bold>\<open>The theories.\<close>

  \<^item> \<open>Prelude\<close>: statuses and outcomes (\<^verbatim>\<open>c/common.h\<close>), vectors with checked access, \<^verbatim>\<open>size_t\<close> with its
    wrap-around, \<^verbatim>\<open>memcpy\<close>, \<^verbatim>\<open>std::sort\<close>; the collections \<open>outcome\<close> and \<open>vec\<close>.
  \<^item> \<open>Tensors\<close> (\<^verbatim>\<open>c/common.{h,c}\<close>, \<^verbatim>\<open>util.cc\<close>): types, tensors, nodes, registrations; \<open>BytesRequired\<close> is
    exact on 64-bit words.
  \<^item> \<open>Graph_Info\<close> (\<^verbatim>\<open>graph_info.h\<close>) and \<open>Graph_Partition\<close> (\<^verbatim>\<open>graph_info.cc\<close>): the view of a graph and its
    partition. The two endless loops are recursive functions whose termination is proved: each sweep
    but the last takes a node.
  \<^item> \<open>Memory_Arena\<close> (\<^verbatim>\<open>simple_memory_arena.{h,cc}\<close>): the arena, its invariant over all operations, no two
    allocations alive at once overlap, gaps are used, committing keeps the contents.
  \<^item> \<open>Arena_Planner\<close>, \<open>Planner_Placement\<close> (\<^verbatim>\<open>arena_planner.{h,cc}\<close>): lifetimes, placement, and that no node
    writes over a tensor that is still to be read. The locale \<open>offset_arena\<close> is what the planner relies on
    of an arena, \<open>strict_weak_order\<close> what \<^verbatim>\<open>std::sort\<close> relies on of a comparison; both are interpreted on
    the code's own functions.
  \<^item> \<open>Subgraph\<close> (\<^verbatim>\<open>core/subgraph.{h,cc}\<close>): all operations of a subgraph. \<open>Subgraph_Safety\<close> has the
    invariant \<open>subgraph_inv\<close> and its preservation by every call: the inputs and outputs of nodes, the lists
    of the subgraph and its plans hold valid indices (the intermediates of a node are stored unchecked).
    \<open>Subgraph_Behaviour\<close> shows that \<^verbatim>\<open>Invoke\<close> runs only prepared nodes, prepared again after a
    dynamic tensor upstream was resized, that nested delegation ends (the recursion of \<^verbatim>\<open>ModifyGraphWithDelegate\<close> has the
    fuel \<open>call_depth\<close> = 2, and more changes nothing) and what a failed delegate leaves behind.
  \<^item> \<open>String_Buffer\<close> (\<^verbatim>\<open>string_util.{h,cc}\<close>): the format of string tensors and its round trip.
  \<^item> \<open>Model_Schema\<close> (\<^verbatim>\<open>schema/schema_generated.h\<close>): the tables of a model that are read, as records.
  \<^item> \<open>Op_Resolver\<close> (\<^verbatim>\<open>schema/schema_utils.cc\<close>, \<^verbatim>\<open>core/api/op_resolver.{h,cc}\<close>, \<^verbatim>\<open>mutable_op_resolver.{h,cc}\<close>,
    \<^verbatim>\<open>kernels/register.cc\<close>): the locale \<open>op_resolver_contract\<close> is what the client
    \<^verbatim>\<open>GetRegistrationFromOpCode\<close> relies on, interpreted on the mutable resolver.
  \<^item> \<open>Op_Version\<close>, \<open>Runtime_Version\<close> (\<^verbatim>\<open>tools/versioning\<close>): which version an operator needs and which run-time
    has it; the three tables of the repository are shown to agree.
  \<^item> \<open>Interpreter\<close> (\<^verbatim>\<open>interpreter.{h,cc}\<close>): the invariant over all calls of a user, the recovery from a
    failed delegate.
  \<^item> \<open>Interpreter_Builder\<close> (\<^verbatim>\<open>interpreter_builder.{h,cc}\<close>): an interpreter that is built is the model, or
    \<^verbatim>\<open>AllocateTensors\<close> refuses it; its tensors have the types, quantization and sparsity that a specification
    apart from the parser (\<open>tensor_loaded\<close>) reads off the model; building has no undefined behaviour but one.
  \<^item> \<open>Greedy_Planner\<close> (\<^verbatim>\<open>micro/memory_planner/greedy_memory_planner.{h,cc}\<close>): the planner with its linked list
    in an array. The loops are partial functions, and every query is shown to return; the offsets are those of
    a reference plan on a sorted list, and buffers in use together are apart while the sums of offsets and
    sizes stay below \<open>2\<^sup>3\<^sup>1\<close>, where the unbounded integers of the model are those of the code.
  \<^item> \<open>Memory_Planners\<close> (\<^verbatim>\<open>memory_planner.h\<close>, \<^verbatim>\<open>linear_memory_planner.{h,cc}\<close>): the interface as the locale
    \<open>memory_planner\<close>, interpreted on the linear and the greedy planner; the sizes of the buffers sum up to
    less than \<open>2\<^sup>3\<^sup>1\<close>, since offsets are \<^verbatim>\<open>int\<close>s.
  \<^item> \<open>Micro_Memory\<close> (\<^verbatim>\<open>micro/memory_helpers.cc\<close>, \<^verbatim>\<open>micro/simple_memory_allocator.{h,cc}\<close>,
    \<^verbatim>\<open>recording_simple_memory_allocator.{h,cc}\<close>): head, tail and temporary memory of the arena on 64-bit
    pointers; persistent blocks are disjoint, and the recording allocator simulates the simple one.
  \<^item> \<open>Micro_Planning\<close> (\<^verbatim>\<open>micro/micro_allocator.cc\<close>): lifetimes, static plan, scratch buffers and variables of
    a model, on top of allocator and planner, for arenas below 2 GiB. \<open>Micro_Lifetimes\<close> shows that what is
    in use while the same operator runs is apart in the head, and that kernels write their requests within it.
  \<^item> \<open>Micro_Setup\<close> (\<^verbatim>\<open>micro/micro_allocator.cc\<close>, \<^verbatim>\<open>micro/micro_op_resolver.h\<close>, \<^verbatim>\<open>micro_mutable_op_resolver.h\<close>): the
    nodes and tensors of the run-time from the tables of the model, tensors for clients and kernels, the resolver.
    \<open>Micro_Resolver\<close> shows that the resolver is a finite map of bounded size; it is interpreted in the locale
    \<open>resolver_by_code\<close>, which \<open>op_resolver_contract\<close> extends by the versions this resolver disregards.
  \<^item> \<open>Micro_Interpreter\<close> (\<^verbatim>\<open>micro/micro_interpreter.{h,cc}\<close>): construction, \<^verbatim>\<open>AllocateTensors\<close>, \<^verbatim>\<open>Invoke\<close>, access to
    tensors, and the functions of the context that a kernel may call at each stage.
  \<^item> \<open>Micro_Context\<close>, \<open>Micro_Run\<close>, \<open>Micro_Allocated\<close>: what kernels can do to it. Kernels are any functions that
    take steps of the relation \<open>context_step\<close>, the calls of the context and writes to memory (the hypothesis
    \<open>kernels_use_the_context\<close>); clients take steps of \<open>client_call\<close>. The lemmas in \<open>kept\<close> say that each call keeps
    the arena in order; \<open>Micro_AllocateTensors_cases\<close> lists the stages an allocation can end at. \<open>Micro_Correctness\<close>
    has the properties: the buffers of a model are apart, variables start at zero, the interpreter is the model,
    running uses up nothing, a failed allocation is final.
  \<^item> \<open>Gpu_Memory\<close> (\<^verbatim>\<open>delegates/gpu/common/memory_management/types.h\<close>, \<^verbatim>\<open>internal.{h,cc}\<close>, \<^verbatim>\<open>naive_assignment.h\<close>,
    \<^verbatim>\<open>equality_assignment.h\<close>, \<^verbatim>\<open>greedy_in_order_assignment.h\<close>), \<open>Gpu_Greedy\<close> (\<^verbatim>\<open>internal.cc\<close>,
    \<^verbatim>\<open>greedy_by_size_assignment.cc\<close>, \<^verbatim>\<open>greedy_by_breadth_assignment.cc\<close>) and \<open>Gpu_Flow\<close>
    (\<^verbatim>\<open>min_cost_flow_assignment.cc\<close>): the strategies by which the GPU delegate lets tensors share memory. \<open>Gpu_Offsets\<close>
    and \<open>Gpu_Objects\<close> have the proofs for the greedy ones. \<open>Gpu_Strategies\<close> (\<^verbatim>\<open>memory_management.{h,cc}\<close>) has the choice
    of a strategy, its contract as the locales \<open>object_strategy\<close> and \<open>byte_strategy\<close>, interpreted on every
    strategy but that of the flow, and the properties: tensors in use together are apart, for
    \<^verbatim>\<open>GREEDY_IN_ORDER\<close> and the hashed \<^verbatim>\<open>EQUALITY\<close> if the records are in the order of their first tasks.
  \<^item> \<open>Gpu_Realloc\<close> (\<^verbatim>\<open>types.cc\<close> of the same directory): the reallocation graph is what its specification says,
    and with it tensors that share memory do not clash in any order of the operations.

  \<^bold>\<open>Not modelled.\<close> The kernels and their numerics, error texts and logging, profiling, reading of files,
  the generated builders and verifiers of the flatbuffer schema, the parsing of builtin options
  (\<^verbatim>\<open>ParseOpData\<close>), the hardware delegates (the graph and the back ends of the GPU delegate, NNAPI, Hexagon, XNNPACK, Core ML), which are
  calls to drivers and services outside the repository, the offline converter \<^verbatim>\<open>toco\<close>, the language
  bindings, and what destructors free. Of TensorFlow Lite Micro, its kernels, the printing of plans, the
  change of byte order on big-endian machines and the one-line functions of the resolver that add one
  operator each are left out. Of the GPU delegate only its memory management is modelled; of the strategy by
  a flow of minimal cost there are definitions, without a proof that its loops end. In the first
  run-time, allocation of memory is assumed to succeed.
\<close>

end
